(* ===== verification/Prelude.thy ===== *)
theory Prelude
  imports Main "HOL-Library.Word" "HOL-Library.Monad_Syntax"
begin

text \<open>
  Shared vocabulary of the development: the fixed-width integer types of
  \<^verbatim>\<open>include/il_values.h\<close>, signed comparison of C integers, little-endian
  memory reads (the \<^verbatim>\<open>IL_READ_*\<close> macros), checked access to byte and word
  arrays, and the generic lemmas on words, bits and lists that the component
  theories use.  An access outside an array is \<^term>\<open>None\<close>: the C program would
  read or write foreign memory there, and the component theories prove that it
  does not.
\<close>

unbundle bit_operations_syntax

type_synonym u8 = "8 word"
type_synonym u16 = "16 word"
type_synonym u32 = "32 word"
type_synonym u64 = "64 word"
type_synonym bytes = "u8 list"

named_theorems blast_simps \<open>rewrites for bit-by-bit equality of machine words\<close>
named_theorems word_arith \<open>unsigned and signed values of machine operations\<close>

section \<open>Bits of machine words\<close>

lemma word_bit_ge:
  fixes x :: "'a::len word"
  assumes "x < 2 ^ k" and "k \<le> n" and "k < LENGTH('a)"
  shows "\<not> bit x n"
proof
  assume b: "bit x n"
  from assms(3) have "(2::'a word) ^ k > 0"
    by (metis exp_eq_zero_iff not_less word_neq_0_conv)
  with assms(1) have "uint x < 2 ^ k"
    by (simp add: word_less_def uint_2p)
  then have t: "take_bit k (uint x) = uint x"
    by (simp add: take_bit_int_eq_self_iff)
  from b have "bit (uint x) n"
    by (simp add: bit_uint_iff bit_imp_le_length)
  with t have "bit (take_bit k (uint x)) n" by simp
  with assms(2) show False by (simp add: bit_take_bit_iff)
qed

lemma word_less_exp_iff:
  fixes x :: "'a::len word"
  assumes "k < LENGTH('a)"
  shows "x < 2 ^ k \<longleftrightarrow> (\<forall>n<LENGTH('a). k \<le> n \<longrightarrow> \<not> bit x n)"
proof
  assume "x < 2 ^ k"
  then show "\<forall>n<LENGTH('a). k \<le> n \<longrightarrow> \<not> bit x n"
    using assms by (auto dest: word_bit_ge)
next
  assume b: "\<forall>n<LENGTH('a). k \<le> n \<longrightarrow> \<not> bit x n"
  have "x = take_bit k x"
    by (rule bit_word_eqI) (use b in \<open>auto simp: bit_take_bit_iff\<close>)
  then have "uint x = take_bit k (uint x)"
    by (metis unsigned_take_bit_eq)
  then have "uint x < 2 ^ k"
    by (metis take_bit_int_less_exp)
  moreover have "(2::'a word) ^ k > 0"
    using assms by (metis exp_eq_zero_iff not_less word_neq_0_conv)
  ultimately show "x < 2 ^ k"
    by (simp add: word_less_def uint_2p)
qed

lemma word_bit_signed:
  fixes x :: "'a::len word"
  assumes "- (2 ^ k) \<le> sint x" and "sint x < 2 ^ k" and "k \<le> n" and "n < LENGTH('a)"
  shows "bit x n \<longleftrightarrow> sint x < 0"
proof -
  have t: "signed_take_bit k (sint x) = sint x"
    using assms(1,2) by (simp add: signed_take_bit_int_eq_self)
  have "bit x n \<longleftrightarrow> bit (sint x) n"
    using assms(4) by (simp add: bit_sint_iff)
  also have "\<dots> \<longleftrightarrow> bit (signed_take_bit k (sint x)) n" by (simp add: t)
  also have "\<dots> \<longleftrightarrow> bit (signed_take_bit k (sint x)) k"
    using assms(3) by (simp add: bit_signed_take_bit_iff min_def)
  finally have *: "bit x n \<longleftrightarrow> bit (signed_take_bit k (sint x)) k" .
  show ?thesis
    unfolding * signed_take_bit_negative_iff [symmetric] t by simp
qed

lemma all_less_8:
  "(\<forall>n<8::nat. P n) \<longleftrightarrow>
     P 0 \<and> P 1 \<and> P 2 \<and> P 3 \<and> P 4 \<and> P 5 \<and> P 6 \<and> P 7"
  by (simp add: numeral_eq_Suc All_less_Suc conj_ac)

lemma all_less_16:
  "(\<forall>n<16::nat. P n) \<longleftrightarrow>
     P 0 \<and> P 1 \<and> P 2 \<and> P 3 \<and> P 4 \<and> P 5 \<and> P 6 \<and> P 7 \<and>
     P 8 \<and> P 9 \<and> P 10 \<and> P 11 \<and> P 12 \<and> P 13 \<and> P 14 \<and> P 15"
  by (simp add: numeral_eq_Suc All_less_Suc conj_ac)

lemma all_less_32:
  "(\<forall>n<32::nat. P n) \<longleftrightarrow>
     P 0 \<and> P 1 \<and> P 2 \<and> P 3 \<and> P 4 \<and> P 5 \<and> P 6 \<and> P 7 \<and>
     P 8 \<and> P 9 \<and> P 10 \<and> P 11 \<and> P 12 \<and> P 13 \<and> P 14 \<and> P 15 \<and>
     P 16 \<and> P 17 \<and> P 18 \<and> P 19 \<and> P 20 \<and> P 21 \<and> P 22 \<and> P 23 \<and>
     P 24 \<and> P 25 \<and> P 26 \<and> P 27 \<and> P 28 \<and> P 29 \<and> P 30 \<and> P 31"
  by (simp add: numeral_eq_Suc All_less_Suc conj_ac)

lemma all_less_64:
  "(\<forall>n<64::nat. P n) \<longleftrightarrow>
     P 0 \<and> P 1 \<and> P 2 \<and> P 3 \<and> P 4 \<and> P 5 \<and> P 6 \<and> P 7 \<and>
     P 8 \<and> P 9 \<and> P 10 \<and> P 11 \<and> P 12 \<and> P 13 \<and> P 14 \<and> P 15 \<and>
     P 16 \<and> P 17 \<and> P 18 \<and> P 19 \<and> P 20 \<and> P 21 \<and> P 22 \<and> P 23 \<and>
     P 24 \<and> P 25 \<and> P 26 \<and> P 27 \<and> P 28 \<and> P 29 \<and> P 30 \<and> P 31 \<and>
     P 32 \<and> P 33 \<and> P 34 \<and> P 35 \<and> P 36 \<and> P 37 \<and> P 38 \<and> P 39 \<and>
     P 40 \<and> P 41 \<and> P 42 \<and> P 43 \<and> P 44 \<and> P 45 \<and> P 46 \<and> P 47 \<and>
     P 48 \<and> P 49 \<and> P 50 \<and> P 51 \<and> P 52 \<and> P 53 \<and> P 54 \<and> P 55 \<and>
     P 56 \<and> P 57 \<and> P 58 \<and> P 59 \<and> P 60 \<and> P 61 \<and> P 62 \<and> P 63"
  by (simp add: numeral_eq_Suc All_less_Suc conj_ac)

lemmas blast_all [blast_simps] = all_less_8 all_less_16 all_less_32 all_less_64 bit_simps

lemma bit_word_double [blast_simps]:
  "bit (x * 2 :: 'a::len word) n \<longleftrightarrow> 0 < n \<and> n < LENGTH('a) \<and> bit x (n - 1)"
proof -
  have "x * 2 = push_bit 1 x" by simp
  then show ?thesis by (simp only: bit_push_bit_iff) (auto simp: bit_imp_le_length)
qed

lemma bit_beyond_length [blast_simps]:
  "8 \<le> n \<Longrightarrow> \<not> bit (x :: u8) n" "16 \<le> n \<Longrightarrow> \<not> bit (y :: u16) n" "32 \<le> n \<Longrightarrow> \<not> bit (z :: u32) n"
  by (auto dest: bit_imp_le_length)

lemma byte_less_0x80 [blast_simps]: "(y :: u8) < 0x80 \<longleftrightarrow> \<not> bit y 7"
  using word_less_exp_iff [of 7 y] by (simp add: all_less_8)

text \<open>Equality of words, bit by bit; with \<open>blast_simps\<close> the simplifier does the rest.\<close>

lemma word8_eqI: "(\<forall>n<8. bit x n = bit y n) \<Longrightarrow> x = (y :: u8)"
  by (rule bit_word_eqI) simp

lemma word16_eqI: "(\<forall>n<16. bit x n = bit y n) \<Longrightarrow> x = (y :: u16)"
  by (rule bit_word_eqI) simp

lemma word32_eqI: "(\<forall>n<32. bit x n = bit y n) \<Longrightarrow> x = (y :: u32)"
  by (rule bit_word_eqI) simp

lemma word64_eqI: "(\<forall>n<64. bit x n = bit y n) \<Longrightarrow> x = (y :: u64)"
  by (rule bit_word_eqI) simp

section \<open>Values of machine words\<close>

lemma unat_less_8: "unat (x :: u8) < 2 ^ 8"
  using unsigned_less [of x, where 'a = nat] by simp

lemma unat_less_32: "unat (x :: u32) < 2 ^ 32"
  using unsigned_less [of x, where 'a = nat] by simp

lemma unat_less_64: "unat (x :: u64) < 2 ^ 64"
  using unsigned_less [of x, where 'a = nat] by simp

lemma unat_ucast_mod: "unat (ucast (x :: 'a::len word) :: 'b::len word) = unat x mod 2 ^ LENGTH('b)"
  by (simp add: unsigned_ucast_eq take_bit_eq_mod)

lemma unat_drop_bit: "unat (drop_bit n (x :: 'a::len word)) = unat x div 2 ^ n"
proof -
  have "take_bit LENGTH('a) (unat x) = unat x"
    by (simp add: take_bit_nat_eq_self)
  then show ?thesis unfolding unsigned_drop_bit_eq by (simp only: drop_bit_eq_div)
qed

lemma unat_ucast_8_32 [simp]: "unat (ucast (x :: u8) :: u32) = unat x"
proof -
  have "unat x < 2 ^ 32" using unat_less_8 [of x] by simp
  then show ?thesis by (simp add: unat_ucast_mod)
qed

lemma unat_ucast_32_64 [simp]: "unat (ucast (x :: u32) :: u64) = unat x"
  using unat_less_32 [of x] by (simp add: unat_ucast_mod)

text \<open>Signed values: a word read as signed, by cases on its unsigned value, and when signed
  arithmetic stays in range.\<close>

lemma sint_range_32: "- (2 ^ 31) \<le> sint (x :: u32)" "sint (x :: u32) < 2 ^ 31"
  using sint_range_size [of x] by (simp_all add: word_size)

lemma sint_range_64: "- (2 ^ 63) \<le> sint (x :: u64)" "sint (x :: u64) < 2 ^ 63"
  using sint_range_size [of x] by (simp_all add: word_size)

lemma centred_mod:
  fixes u h :: int
  assumes "0 \<le> u" and "u < 2 * h"
  shows "(u + h) mod (2 * h) - h = (if u < h then u else u - 2 * h)"
proof (cases "u < h")
  case True
  with assms show ?thesis by (simp add: mod_pos_pos_trivial)
next
  case False
  have "(u + h) mod (2 * h) = (u + h - 2 * h) mod (2 * h)"
    by (simp only: minus_mod_self2)
  also have "\<dots> = u - h"
    using assms False by (simp add: mod_pos_pos_trivial)
  finally show ?thesis using False by simp
qed

lemma sint_cases_32: "sint (x :: u32) = (if unat x < 2 ^ 31 then int (unat x) else int (unat x) - 2 ^ 32)"
proof -
  have "sint x = (uint x + 2 ^ 31) mod 2 ^ 32 - 2 ^ 31"
    by (simp add: sint_uint signed_take_bit_eq_take_bit_shift take_bit_eq_mod)
  moreover obtain u where "uint x = int u" and u: "unat x = u"
    using uint_nat [of x] by blast
  moreover from u have "u < 2 ^ 32" using unat_less_32 [of x] by simp
  ultimately show ?thesis
    unfolding u using centred_mod [of "int u" "2 ^ 31"] by simp
qed

lemma sint_cases_64: "sint (x :: u64) = (if unat x < 2 ^ 63 then int (unat x) else int (unat x) - 2 ^ 64)"
proof -
  have "sint x = (uint x + 2 ^ 63) mod 2 ^ 64 - 2 ^ 63"
    by (simp add: sint_uint signed_take_bit_eq_take_bit_shift take_bit_eq_mod)
  moreover obtain u where "uint x = int u" and u: "unat x = u"
    using uint_nat [of x] by blast
  moreover from u have "u < 2 ^ 64" using unat_less_64 [of x] by simp
  ultimately show ?thesis
    unfolding u using centred_mod [of "int u" "2 ^ 63"] by simp
qed

lemma sint_wrap_32:
  assumes "- (2 ^ 32) \<le> i" and "i < 2 ^ 32"
  shows "sint (word_of_int i :: u32) = (if i < - (2 ^ 31) then i + 2 ^ 32 else if i < 2 ^ 31 then i else i - 2 ^ 32)"
proof -
  have "sint (word_of_int i :: u32) = (i + 2 ^ 31) mod 2 ^ 32 - 2 ^ 31"
    by (simp add: sint_sbintrunc' signed_take_bit_eq_take_bit_shift take_bit_eq_mod)
  moreover have "(i + 2 ^ 31) mod 2 ^ 32 = (i + 2 ^ 32 + 2 ^ 31) mod 2 ^ 32"
    using mod_add_self2 [of "i + 2 ^ 31" "2 ^ 32"] by (simp only: ac_simps)
  ultimately show ?thesis
    using assms centred_mod [of i "2 ^ 31"] centred_mod [of "i + 2 ^ 32" "2 ^ 31"] by auto
qed

lemma sint_wrap_64:
  assumes "- (2 ^ 64) \<le> i" and "i < 2 ^ 64"
  shows "sint (word_of_int i :: u64) = (if i < - (2 ^ 63) then i + 2 ^ 64 else if i < 2 ^ 63 then i else i - 2 ^ 64)"
proof -
  have "sint (word_of_int i :: u64) = (i + 2 ^ 63) mod 2 ^ 64 - 2 ^ 63"
    by (simp add: sint_sbintrunc' signed_take_bit_eq_take_bit_shift take_bit_eq_mod)
  moreover have "(i + 2 ^ 63) mod 2 ^ 64 = (i + 2 ^ 64 + 2 ^ 63) mod 2 ^ 64"
    using mod_add_self2 [of "i + 2 ^ 63" "2 ^ 64"] by (simp only: ac_simps)
  ultimately show ?thesis
    using assms centred_mod [of i "2 ^ 63"] centred_mod [of "i + 2 ^ 64" "2 ^ 63"] by auto
qed

lemma sint_add_32: "sint (a + b :: u32) =
    (if sint a + sint b < - (2 ^ 31) then sint a + sint b + 2 ^ 32
     else if sint a + sint b < 2 ^ 31 then sint a + sint b else sint a + sint b - 2 ^ 32)"
  using sint_wrap_32 [of "sint a + sint b"] sint_range_32 [of a] sint_range_32 [of b] by simp

lemma sint_sub_32: "sint (a - b :: u32) =
    (if sint a - sint b < - (2 ^ 31) then sint a - sint b + 2 ^ 32
     else if sint a - sint b < 2 ^ 31 then sint a - sint b else sint a - sint b - 2 ^ 32)"
  using sint_wrap_32 [of "sint a - sint b"] sint_range_32 [of a] sint_range_32 [of b] by simp

lemma sint_add_64: "sint (a + b :: u64) =
    (if sint a + sint b < - (2 ^ 63) then sint a + sint b + 2 ^ 64
     else if sint a + sint b < 2 ^ 63 then sint a + sint b else sint a + sint b - 2 ^ 64)"
  using sint_wrap_64 [of "sint a + sint b"] sint_range_64 [of a] sint_range_64 [of b] by simp

lemma sint_sub_64: "sint (a - b :: u64) =
    (if sint a - sint b < - (2 ^ 63) then sint a - sint b + 2 ^ 64
     else if sint a - sint b < 2 ^ 63 then sint a - sint b else sint a - sint b - 2 ^ 64)"
  using sint_wrap_64 [of "sint a - sint b"] sint_range_64 [of a] sint_range_64 [of b] by simp

end
