(* ===== verification/Codec.thy ===== *)
theory Codec
  imports Prelude
begin

text \<open>
  The interface between a writer and a reader of one item in a stream.  The
  metadata compressor of \<^verbatim>\<open>image/\<close> and the character encoders of
  \<^verbatim>\<open>support/\<close> all promise the same law: what the writer appends, the reader
  takes off again and leaves the rest of the stream alone.  From that law alone
  the locale below derives what clients rely on: whole sequences of items can be
  read back, and no two sequences have the same encoding.
\<close>

text \<open>Reading \<open>n\<close> items one after the other, and reading until the stream is used up.\<close>

fun decode_n :: "('b list \<Rightarrow> ('a \<times> 'b list) option) \<Rightarrow> nat \<Rightarrow> 'b list \<Rightarrow> ('a list \<times> 'b list) option" where
  "decode_n dec 0 bs = Some ([], bs)"
| "decode_n dec (Suc n) bs =
     (case dec bs of
        None \<Rightarrow> None
      | Some (x, bs') \<Rightarrow>
          (case decode_n dec n bs' of
             None \<Rightarrow> None
           | Some (xs, bs'') \<Rightarrow> Some (x # xs, bs'')))"

locale codec =
  fixes enc :: "'a \<Rightarrow> 'b list"
    and dec :: "'b list \<Rightarrow> ('a \<times> 'b list) option"
    and valid :: "'a \<Rightarrow> bool"
    and fits :: "'b list \<Rightarrow> bool"
  assumes dec_enc: "valid x \<Longrightarrow> fits (enc x @ rest) \<Longrightarrow> dec (enc x @ rest) = Some (x, rest)"
    and fits_suffix: "fits (as @ bs) \<Longrightarrow> fits bs"
begin

lemma decode_sequence:
  "\<lbrakk>\<And>x. x \<in> set xs \<Longrightarrow> valid x; fits (concat (map enc xs) @ rest)\<rbrakk> \<Longrightarrow>
   decode_n dec (length xs) (concat (map enc xs) @ rest) = Some (xs, rest)"
proof (induction xs)
  case (Cons x xs)
  then have "fits (concat (map enc xs) @ rest)"
    using fits_suffix [of "enc x"] by simp
  with Cons show ?case by (simp add: dec_enc)
qed simp

lemma enc_prefix_free:
  assumes "valid x" and "valid y" and "fits (enc x @ s)" and eq: "enc x @ s = enc y @ t"
  shows "x = y \<and> s = t"
proof -
  have "Some (x, s) = Some (y, t)"
    using assms by (metis dec_enc)
  then show ?thesis by simp
qed

lemma sequence_inj:
  assumes "\<And>x. x \<in> set xs \<Longrightarrow> valid x" and "\<And>y. y \<in> set ys \<Longrightarrow> valid y"
    and "length xs = length ys" and "fits (concat (map enc xs) @ s)"
    and eq: "concat (map enc xs) @ s = concat (map enc ys) @ t"
  shows "xs = ys \<and> s = t"
proof -
  have "Some (xs, s) = Some (ys, t)"
    using assms by (metis decode_sequence)
  then show ?thesis by simp
qed

end

text \<open>
  A codec whose items are never empty: then a sequence is determined by its
  encoding alone, without its length.
\<close>

locale nonempty_codec = codec +
  assumes enc_nonempty: "valid x \<Longrightarrow> enc x \<noteq> []"
begin

lemma concat_inj:
  assumes "\<And>x. x \<in> set xs \<Longrightarrow> valid x" and "\<And>y. y \<in> set ys \<Longrightarrow> valid y"
    and "fits (concat (map enc xs))"
    and "concat (map enc xs) = concat (map enc ys)"
  shows "xs = ys"
  using assms
proof (induction xs arbitrary: ys)
  case Nil
  then show ?case using enc_nonempty by (cases ys) auto
next
  case (Cons x xs)
  from Cons.prems(1) have vx: "valid x" by simp
  from vx Cons.prems(4) obtain y ys' where ys: "ys = y # ys'"
    using enc_nonempty by (cases ys) auto
  from Cons.prems(2) ys have vy: "valid y" by simp
  have split: "x = y \<and> concat (map enc xs) = concat (map enc ys')"
    using Cons.prems(3,4) ys by (intro enc_prefix_free [OF vx vy]) simp_all
  have "fits (concat (map enc xs))"
    using Cons.prems(3) fits_suffix [of "enc x"] by simp
  then have "xs = ys'"
    using Cons.prems(1,2) ys split by (intro Cons.IH) auto
  then show ?case using ys split by simp
qed

end

end
