(* ===== verification/MetaCompress.thy ===== *)
theory MetaCompress
  imports Codec
begin

text \<open>
  Compressed integers and tokens in metadata blobs: \<^verbatim>\<open>image/compress.c\<close> and
  \<^verbatim>\<open>image/uncompress.c\<close>.  A writer returns the bytes it stores into the
  caller's buffer (its C return value is their number).  A reader works on the
  \<^verbatim>\<open>ILMetaDataRead\<close> cursor; its result is \<^term>\<open>None\<close> when the C code would
  read a byte outside the memory the cursor points to.
\<close>

section \<open>Writers: image/compress.c\<close>

definition ILMetaCompressData :: "u32 \<Rightarrow> bytes" where
  "ILMetaCompressData data =
    (if data < 0x80 then [ucast data]
     else if data < push_bit 14 1 then
       [ucast (drop_bit 8 data OR 0x80), ucast data]
     else if data < push_bit 29 1 then
       [ucast (drop_bit 24 data OR 0xC0), ucast (drop_bit 16 data),
        ucast (drop_bit 8 data), ucast data]
     else
       [0xE0, ucast (drop_bit 24 data), ucast (drop_bit 16 data),
        ucast (drop_bit 8 data), ucast data])"

abbreviation IL_META_TOKEN_MASK :: u32 where "IL_META_TOKEN_MASK \<equiv> 0xFF000000"
abbreviation IL_META_TOKEN_TYPE_REF :: u32 where "IL_META_TOKEN_TYPE_REF \<equiv> 0x01000000"
abbreviation IL_META_TOKEN_TYPE_DEF :: u32 where "IL_META_TOKEN_TYPE_DEF \<equiv> 0x02000000"
abbreviation IL_META_TOKEN_TYPE_SPEC :: u32 where "IL_META_TOKEN_TYPE_SPEC \<equiv> 0x1B000000"
abbreviation IL_META_TOKEN_BASE_TYPE :: u32 where "IL_META_TOKEN_BASE_TYPE \<equiv> 0x72000000"

text \<open>The empty list is the C function's return value 0: nothing was written.\<close>

definition ILMetaCompressToken :: "u32 \<Rightarrow> bytes" where
  "ILMetaCompressToken token =
    (let tokenId = token AND NOT IL_META_TOKEN_MASK;
         tokenClass = token AND IL_META_TOKEN_MASK
     in if tokenClass = IL_META_TOKEN_TYPE_DEF then
          ILMetaCompressData (push_bit 2 tokenId OR 0)
        else if tokenClass = IL_META_TOKEN_TYPE_REF then
          ILMetaCompressData (push_bit 2 tokenId OR 1)
        else if tokenClass = IL_META_TOKEN_TYPE_SPEC then
          ILMetaCompressData (push_bit 2 tokenId OR 2)
        else if tokenClass = IL_META_TOKEN_BASE_TYPE then
          ILMetaCompressData (push_bit 2 tokenId OR 3)
        else [])"

text \<open>
  The argument is an \<^verbatim>\<open>ILInt32\<close>: a two's complement value kept as its 32 bits,
  compared through \<^const>\<open>sint\<close> and shifted right arithmetically.
\<close>

definition ILMetaCompressInt :: "u32 \<Rightarrow> bytes" where
  "ILMetaCompressInt data =
    (if 0 \<le> sint data then
       (if sint data < 0x40 then [ucast (push_bit 1 data)]
        else if sint data < 2 ^ 13 then
          [ucast ((signed_drop_bit 7 data AND 0x3F) OR 0x80), ucast (push_bit 1 data)]
        else if sint data < 2 ^ 28 then
          [ucast (signed_drop_bit 23 data OR 0xC0), ucast (signed_drop_bit 15 data),
           ucast (signed_drop_bit 7 data), ucast (push_bit 1 data)]
        else
          [0xE0, ucast (signed_drop_bit 23 data), ucast (signed_drop_bit 15 data),
           ucast (signed_drop_bit 7 data), ucast (push_bit 1 data)])
     else
       (if -0x40 \<le> sint data then [(ucast (push_bit 1 data) AND 0x7E) OR 0x01]
        else if - (2 ^ 13) \<le> sint data then
          [ucast ((signed_drop_bit 7 data AND 0x3F) OR 0x80), ucast (push_bit 1 data OR 0x01)]
        else if - (2 ^ 29) \<le> sint data then
          [ucast ((signed_drop_bit 23 data AND 0x1F) OR 0xC0), ucast (signed_drop_bit 15 data),
           ucast (signed_drop_bit 7 data), ucast (push_bit 1 data OR 0x01)]
        else
          [0xE1, ucast (signed_drop_bit 23 data), ucast (signed_drop_bit 15 data),
           ucast (signed_drop_bit 7 data), ucast (push_bit 1 data OR 0x01)]))"

section \<open>Readers: image/uncompress.c\<close>

record ILMetaDataRead =
  meta_data :: bytes
  meta_len :: u32
  meta_error :: bool

definition byte_at :: "ILMetaDataRead \<Rightarrow> nat \<Rightarrow> u8 option" where
  "byte_at m i = (if i < length (meta_data m) then Some (meta_data m ! i) else None)"

definition skip :: "nat \<Rightarrow> ILMetaDataRead \<Rightarrow> ILMetaDataRead" where
  "skip n m = m\<lparr>meta_data := drop n (meta_data m), meta_len := meta_len m - of_nat n\<rparr>"

abbreviation meta_fail :: "ILMetaDataRead \<Rightarrow> ILMetaDataRead" where
  "meta_fail m \<equiv> m\<lparr>meta_error := True\<rparr>"

abbreviation meta_fail_at_end :: "ILMetaDataRead \<Rightarrow> ILMetaDataRead" where
  "meta_fail_at_end m \<equiv> m\<lparr>meta_len := 0, meta_error := True\<rparr>"

definition be24 :: "u8 \<Rightarrow> u8 \<Rightarrow> u8 \<Rightarrow> u8 \<Rightarrow> u32" where
  "be24 a b c d = push_bit 24 (ucast a) OR push_bit 16 (ucast b) OR push_bit 8 (ucast c) OR ucast d"

definition ILMetaUncompressData :: "ILMetaDataRead \<Rightarrow> (u32 \<times> ILMetaDataRead) option" where
  "ILMetaUncompressData m =
    (if 0 < meta_len m then do {
       ch \<leftarrow> byte_at m 0;
       let m1 = skip 1 m;
       if ch < 0x80 then Some (ucast ch, m1)
       else if ch AND 0xC0 = 0x80 then
         (if 0 < meta_len m1 then do {
            ch2 \<leftarrow> byte_at m1 0;
            Some (push_bit 8 (ucast (ch AND 0x3F)) OR ucast ch2, skip 1 m1)
          } else Some (0, meta_fail m1))
       else if ch AND 0xE0 = 0xC0 then
         (if 3 \<le> meta_len m1 then do {
            ch2 \<leftarrow> byte_at m1 0;
            ch3 \<leftarrow> byte_at m1 1;
            ch4 \<leftarrow> byte_at m1 2;
            Some (be24 (ch AND 0x1F) ch2 ch3 ch4, skip 3 m1)
          } else Some (0, meta_fail_at_end m1))
       else if ch AND 0xF0 = 0xE0 then
         (if 4 \<le> meta_len m1 then do {
            c \<leftarrow> byte_at m1 0;
            ch2 \<leftarrow> byte_at m1 1;
            ch3 \<leftarrow> byte_at m1 2;
            ch4 \<leftarrow> byte_at m1 3;
            Some (be24 c ch2 ch3 ch4, skip 4 m1)
          } else Some (0, meta_fail_at_end m1))
       else Some (0, meta_fail_at_end m1)
     } else Some (0, meta_fail m))"

definition ILMetaUncompressToken :: "ILMetaDataRead \<Rightarrow> (u32 \<times> ILMetaDataRead) option" where
  "ILMetaUncompressToken m = do {
     (item, m') \<leftarrow> ILMetaUncompressData m;
     if \<not> meta_error m' then
       (let type = item AND 0x03 in
        if type = 0 then Some (drop_bit 2 item OR IL_META_TOKEN_TYPE_DEF, m')
        else if type = 1 then Some (drop_bit 2 item OR IL_META_TOKEN_TYPE_REF, m')
        else if type = 2 then Some (drop_bit 2 item OR IL_META_TOKEN_TYPE_SPEC, m')
        else Some (drop_bit 2 item OR IL_META_TOKEN_BASE_TYPE, m'))
     else Some (0, m')
   }"

definition ILMetaUncompressInt :: "ILMetaDataRead \<Rightarrow> (u32 \<times> ILMetaDataRead) option" where
  "ILMetaUncompressInt m =
    (if 0 < meta_len m then do {
       ch \<leftarrow> byte_at m 0;
       let m1 = skip 1 m;
       if ch AND 0x80 = 0 then
         (if ch AND 0x01 = 0 then Some (ucast (drop_bit 1 ch), m1)
          else Some (scast (drop_bit 1 ch OR 0xC0), m1))
       else if ch AND 0xC0 = 0x80 then
         (if 0 < meta_len m1 then do {
            ch2 \<leftarrow> byte_at m1 0;
            let val = push_bit 8 (ucast (ch AND 0x3F)) OR ucast ch2;
            Some (if val AND 1 = 0 then drop_bit 1 val else drop_bit 1 val OR 0xFFFFE000, skip 1 m1)
          } else Some (0, meta_fail m1))
       else if ch AND 0xE0 = 0xC0 then
         (if 3 \<le> meta_len m1 then do {
            ch2 \<leftarrow> byte_at m1 0;
            ch3 \<leftarrow> byte_at m1 1;
            ch4 \<leftarrow> byte_at m1 2;
            let val = be24 (ch AND 0x1F) ch2 ch3 ch4;
            Some (if val AND 1 = 0 then drop_bit 1 val else drop_bit 1 val OR 0xF0000000, skip 3 m1)
          } else Some (0, meta_fail_at_end m1))
       else
         (if 4 \<le> meta_len m1 then do {
            c \<leftarrow> byte_at m1 0;
            ch2 \<leftarrow> byte_at m1 1;
            ch3 \<leftarrow> byte_at m1 2;
            ch4 \<leftarrow> byte_at m1 3;
            Some (be24 c ch2 ch3 ch4, skip 4 m1)
          } else Some (0, meta_fail_at_end m1))
     } else Some (0, meta_fail m))"

section \<open>Memory safety of the readers\<close>

text \<open>The cursor's length never promises more bytes than its memory holds.\<close>

definition meta_wf :: "ILMetaDataRead \<Rightarrow> bool" where
  "meta_wf m \<longleftrightarrow> unat (meta_len m) \<le> length (meta_data m)"

lemma byte_at_Some: "meta_wf m \<Longrightarrow> i < unat (meta_len m) \<Longrightarrow> byte_at m i = Some (meta_data m ! i)"
  by (simp add: meta_wf_def byte_at_def)

lemma skip_len: "n \<le> unat (meta_len m) \<Longrightarrow> unat (meta_len (skip n m)) = unat (meta_len m) - n"
  by (simp add: skip_def unat_sub word_le_nat_alt le_unat_uoi)

lemma skip_wf: "meta_wf m \<Longrightarrow> n \<le> unat (meta_len m) \<Longrightarrow> meta_wf (skip n m)"
  using skip_len [of n m] by (simp add: meta_wf_def skip_def)

lemma skip_skip: "skip a (skip b m) = skip (b + a) m"
  by (simp add: skip_def ac_simps)

lemma byte_at_skip: "byte_at (skip k m) i = byte_at m (k + i)"
  by (simp add: skip_def byte_at_def add.commute less_diff_conv)

lemma skip_pos: "n \<le> unat (meta_len m) \<Longrightarrow> 0 < meta_len (skip n m) \<longleftrightarrow> n < unat (meta_len m)"
  using skip_len [of n m] by (simp add: word_less_nat_alt)

lemma skip_ge:
  "n \<le> unat (meta_len m) \<Longrightarrow> w \<le> meta_len (skip n m) \<longleftrightarrow> n + unat w \<le> unat (meta_len m)"
  using skip_len [of n m] by (simp add: word_le_nat_alt) arith

lemmas cursor_simps = skip_skip byte_at_skip skip_pos skip_ge Let_def

text \<open>What a reader may return from a well-formed cursor: it stays inside the old one.\<close>

definition within :: "ILMetaDataRead \<Rightarrow> (u32 \<times> ILMetaDataRead) option \<Rightarrow> bool" where
  "within m r = (case r of None \<Rightarrow> False
     | Some (v, m') \<Rightarrow> meta_wf m' \<and> unat (meta_len m') \<le> unat (meta_len m))"

lemma within_skip:
  assumes "meta_wf m" and "n \<le> unat (meta_len m)"
  shows "within m (Some (v, skip n m))" and "within m (Some (v, meta_fail (skip n m)))"
    and "within m (Some (v, meta_fail_at_end (skip n m)))"
  using skip_wf [OF assms] skip_len [OF assms(2)] by (simp_all add: meta_wf_def within_def)

lemma within_fail: "meta_wf m \<Longrightarrow> within m (Some (v, meta_fail m))"
  by (simp add: meta_wf_def within_def)

lemma UncompressData_within:
  assumes wf: "meta_wf m"
  shows "within m (ILMetaUncompressData m)"
proof (cases "0 < meta_len m")
  case True
  then have l: "1 \<le> unat (meta_len m)" by (simp add: unat_gt_0 Suc_le_eq)
  show ?thesis
    unfolding ILMetaUncompressData_def using True l
    by (simp add: cursor_simps byte_at_Some [OF wf] within_skip [OF wf])
next
  case False
  then show ?thesis
    by (simp add: ILMetaUncompressData_def within_fail wf)
qed

lemma UncompressInt_within:
  assumes wf: "meta_wf m"
  shows "within m (ILMetaUncompressInt m)"
proof (cases "0 < meta_len m")
  case True
  then have l: "1 \<le> unat (meta_len m)" by (simp add: unat_gt_0 Suc_le_eq)
  show ?thesis
    unfolding ILMetaUncompressInt_def using True l
    by (simp add: cursor_simps byte_at_Some [OF wf] within_skip [OF wf])
next
  case False
  then show ?thesis
    by (simp add: ILMetaUncompressInt_def within_fail wf)
qed

lemma UncompressToken_within: "meta_wf m \<Longrightarrow> within m (ILMetaUncompressToken m)"
  using UncompressData_within [of m]
  by (auto simp: ILMetaUncompressToken_def within_def Let_def split: option.splits if_splits)

section \<open>Round trips\<close>

text \<open>Reassembling a 32-bit value from the bytes the writers store.\<close>

lemma data_bytes_1: "x < 0x80 \<Longrightarrow> ucast (ucast x :: u8) = (x :: u32)"
  by (rule word32_eqI) (simp add: blast_simps word_bit_ge [of x 7])

lemma data_bytes_2:
  "x < 2 ^ 14 \<Longrightarrow>
   push_bit 8 (ucast ((ucast (drop_bit 8 x OR 0x80) :: u8) AND 0x3F)) OR ucast (ucast x :: u8) = (x :: u32)"
  by (rule word32_eqI) (simp add: blast_simps word_bit_ge [of x 14])

lemma data_bytes_4:
  "x < 2 ^ 29 \<Longrightarrow>
   be24 (ucast (drop_bit 24 x OR 0xC0) AND 0x1F) (ucast (drop_bit 16 x)) (ucast (drop_bit 8 x)) (ucast x) = x"
  by (rule word32_eqI) (simp add: be24_def blast_simps word_bit_ge [of x 29])

lemma data_bytes_5:
  "be24 (ucast (drop_bit 24 x)) (ucast (drop_bit 16 x)) (ucast (drop_bit 8 x)) (ucast x) = x"
  by (rule word32_eqI) (simp add: be24_def blast_simps)

lemma data_tag_1: "(x :: u32) < 0x80 \<Longrightarrow> (ucast x :: u8) < 0x80"
  by (simp add: byte_less_0x80 bit_simps word_bit_ge [of x 7])

lemma data_tag_2:
  assumes "(x :: u32) < 2 ^ 14"
  shows "(ucast (drop_bit 8 x OR 0x80) :: u8) AND 0xC0 = 0x80"
    and "\<not> (ucast (drop_bit 8 x OR 0x80) :: u8) < 0x80"
  by (rule word8_eqI, simp add: blast_simps word_bit_ge [OF assms])
    (simp add: byte_less_0x80 bit_simps)

lemma data_tag_4:
  assumes "(x :: u32) < 2 ^ 29"
  shows "(ucast (drop_bit 24 x OR 0xC0) :: u8) AND 0xE0 = 0xC0"
    and "(ucast (drop_bit 24 x OR 0xC0) :: u8) AND 0xC0 = 0xC0"
    and "\<not> (ucast (drop_bit 24 x OR 0xC0) :: u8) < 0x80"
  by (rule word8_eqI, simp add: blast_simps word_bit_ge [OF assms])
    (rule word8_eqI, simp add: blast_simps, simp add: byte_less_0x80 bit_simps)

text \<open>The reader undoes the writer and steps over exactly the bytes it wrote.\<close>

lemma length_CompressData:
  "length (ILMetaCompressData x) =
    (if x < 0x80 then 1 else if x < 2 ^ 14 then 2 else if x < 2 ^ 29 then 4 else 5)"
  by (simp add: ILMetaCompressData_def)

lemma UncompressData_CompressData:
  assumes wf: "meta_wf m" and d: "meta_data m = ILMetaCompressData x @ rest"
    and l: "length (ILMetaCompressData x) \<le> unat (meta_len m)"
  shows "ILMetaUncompressData m = Some (x, skip (length (ILMetaCompressData x)) m)"
proof -
  have l1: "1 \<le> unat (meta_len m)" and p: "0 < meta_len m"
    using l by (auto simp: length_CompressData word_less_nat_alt split: if_splits)
  consider "x < 0x80" | "\<not> x < 0x80" "x < 2 ^ 14" | "\<not> x < 0x80" "\<not> x < 2 ^ 14" "x < 2 ^ 29"
    | "\<not> x < 0x80" "\<not> x < 2 ^ 14" "\<not> x < 2 ^ 29" by blast
  then show ?thesis
    unfolding ILMetaUncompressData_def length_CompressData using d l [unfolded length_CompressData] l1 p
    by cases
      (simp_all add: numeral_2_eq_2 [symmetric] ILMetaCompressData_def cursor_simps byte_at_def [of m] data_tag_1 data_tag_2 data_tag_4
        data_bytes_1 data_bytes_2 data_bytes_4 data_bytes_5)
qed

text \<open>
  Signed values: inside the range \<open>[-2^28, 2^28)\<close> the bits above the encoded ones
  are copies of the sign.
\<close>

lemma int_bits_neg:
  "- (2 ^ k) \<le> sint x \<Longrightarrow> sint x < 0 \<Longrightarrow> k \<le> n \<Longrightarrow> n < 32 \<Longrightarrow> bit (x :: u32) n"
  using word_bit_signed [of k x n] zero_le_power [of "2::int" k] by auto

lemma int_bits_pos:
  "0 \<le> sint x \<Longrightarrow> sint x < 2 ^ k \<Longrightarrow> k \<le> n \<Longrightarrow> n < 32 \<Longrightarrow> \<not> bit (x :: u32) n"
  using word_bit_signed [of k x n] zero_le_power [of "2::int" k] by auto

lemma int_bytes_1_pos:
  assumes "0 \<le> sint x" and "sint x < 2 ^ 6"
  shows "(ucast (push_bit 1 x) :: u8) AND 0x80 = 0" and "(ucast (push_bit 1 x) :: u8) AND 1 = 0"
    and "ucast (drop_bit 1 (ucast (push_bit 1 x) :: u8)) = (x :: u32)"
  by (rule word8_eqI, simp add: blast_simps int_bits_pos [OF assms])
    (rule word8_eqI, simp add: blast_simps, rule word32_eqI, simp add: blast_simps int_bits_pos [OF assms])

lemma int_bytes_1_neg:
  assumes "- (2 ^ 6) \<le> sint x" and "sint x < 0"
  shows "((ucast (push_bit 1 x) AND 0x7E) OR 1 :: u8) AND 0x80 = 0"
    and "((ucast (push_bit 1 x) AND 0x7E) OR 1 :: u8) AND 1 = 1"
    and "scast (drop_bit 1 ((ucast (push_bit 1 x) AND 0x7E) OR 1 :: u8) OR 0xC0) = (x :: u32)"
  by (rule word8_eqI, simp add: blast_simps)
    (rule word8_eqI, simp add: blast_simps, rule word32_eqI, simp add: blast_simps int_bits_neg [OF assms])

lemma int_tag_2:
  "(ucast ((y AND 0x3F) OR 0x80 :: u32) :: u8) AND 0x80 = 0x80"
  "(ucast ((y AND 0x3F) OR 0x80 :: u32) :: u8) AND 0xC0 = 0x80"
  by (rule word8_eqI, simp add: blast_simps) (rule word8_eqI, simp add: blast_simps)

lemma int_bytes_2_pos:
  assumes "0 \<le> sint x" and "sint x < 2 ^ 13"
  shows "push_bit 8 (ucast ((ucast ((signed_drop_bit 7 x AND 0x3F) OR 0x80) :: u8) AND 0x3F)) OR
           ucast (ucast (push_bit 1 x) :: u8) = push_bit 1 (x :: u32)"
    and "push_bit 1 x AND 1 = 0" and "drop_bit 1 (push_bit 1 x) = x"
  by (rule word32_eqI, simp add: blast_simps int_bits_pos [OF assms])
    (rule word32_eqI, simp add: blast_simps, rule word32_eqI, simp add: blast_simps int_bits_pos [OF assms])

lemma int_bytes_2_neg:
  assumes "- (2 ^ 13) \<le> sint x" and "sint x < 0"
  shows "push_bit 8 (ucast ((ucast ((signed_drop_bit 7 x AND 0x3F) OR 0x80) :: u8) AND 0x3F)) OR
           ucast (ucast (push_bit 1 x OR 1) :: u8) = take_bit 14 (push_bit 1 (x :: u32)) OR 1"
    and "(take_bit 14 (push_bit 1 x) OR 1) AND 1 = 1"
    and "drop_bit 1 (take_bit 14 (push_bit 1 x) OR 1) OR 0xFFFFE000 = x"
  by (rule word32_eqI, simp add: blast_simps)
    (rule word32_eqI, simp add: blast_simps, rule word32_eqI, simp add: blast_simps int_bits_neg [OF assms])

lemma int_bytes_4_pos:
  assumes "0 \<le> sint x" and "sint x < 2 ^ 28"
  shows "(ucast (signed_drop_bit 23 x OR 0xC0) :: u8) AND 0x80 = 0x80"
    and "(ucast (signed_drop_bit 23 x OR 0xC0) :: u8) AND 0xC0 = 0xC0"
    and "(ucast (signed_drop_bit 23 x OR 0xC0) :: u8) AND 0xE0 = 0xC0"
    and "be24 (ucast (signed_drop_bit 23 x OR 0xC0) AND 0x1F) (ucast (signed_drop_bit 15 x))
           (ucast (signed_drop_bit 7 x)) (ucast (push_bit 1 x)) = push_bit 1 (x :: u32)"
    and "push_bit 1 x AND 1 = 0" and "drop_bit 1 (push_bit 1 x) = x"
  by (rule word8_eqI, simp add: blast_simps)
    (rule word8_eqI, simp add: blast_simps, rule word8_eqI, simp add: blast_simps int_bits_pos [OF assms],
     rule word32_eqI, simp add: be24_def blast_simps int_bits_pos [OF assms],
     rule word32_eqI, simp add: blast_simps, rule word32_eqI, simp add: blast_simps int_bits_pos [OF assms])

lemma int_bytes_4_low:
  "(ucast ((signed_drop_bit 23 x AND 0x1F) OR 0xC0) :: u8) AND 0x80 = 0x80"
  "(ucast ((signed_drop_bit 23 x AND 0x1F) OR 0xC0) :: u8) AND 0xC0 = 0xC0"
  "(ucast ((signed_drop_bit 23 x AND 0x1F) OR 0xC0) :: u8) AND 0xE0 = 0xC0"
  "be24 (ucast ((signed_drop_bit 23 x AND 0x1F) OR 0xC0) AND 0x1F) (ucast (signed_drop_bit 15 x))
     (ucast (signed_drop_bit 7 x)) (ucast (push_bit 1 x OR 1)) = take_bit 29 (push_bit 1 (x :: u32)) OR 1"
  "(take_bit 29 (push_bit 1 (x :: u32)) OR 1) AND 1 = 1"
  by (rule word8_eqI, simp add: blast_simps)
    (rule word8_eqI, simp add: blast_simps, rule word8_eqI, simp add: blast_simps,
     rule word32_eqI, simp add: be24_def blast_simps, rule word32_eqI, simp add: blast_simps)

lemma int_bytes_4_neg:
  assumes "- (2 ^ 28) \<le> sint x" and "sint x < 0"
  shows "drop_bit 1 (take_bit 29 (push_bit 1 x) OR 1) OR 0xF0000000 = (x :: u32)"
  by (rule word32_eqI) (simp add: blast_simps int_bits_neg [OF assms])

definition int_in_range :: "u32 \<Rightarrow> bool" where
  "int_in_range x \<longleftrightarrow> - (2 ^ 28) \<le> sint x \<and> sint x < 2 ^ 28"

lemma length_CompressInt:
  "int_in_range x \<Longrightarrow> length (ILMetaCompressInt x) =
    (if - (2 ^ 6) \<le> sint x \<and> sint x < 2 ^ 6 then 1
     else if - (2 ^ 13) \<le> sint x \<and> sint x < 2 ^ 13 then 2 else 4)"
  by (auto simp: ILMetaCompressInt_def int_in_range_def)

text \<open>The three byte patterns of the reader, with the bytes kept abstract.\<close>

lemma UncompressInt_form_1:
  assumes "meta_data m = c # bs" and "1 \<le> unat (meta_len m)" and "c AND 0x80 = 0"
    and "(if c AND 1 = 0 then ucast (drop_bit 1 c) else scast (drop_bit 1 c OR 0xC0)) = x"
  shows "ILMetaUncompressInt m = Some (x, skip 1 m)"
  using assms by (auto simp: ILMetaUncompressInt_def byte_at_def Let_def word_less_nat_alt)

lemma UncompressInt_form_2:
  assumes "meta_data m = c # d # bs" and "2 \<le> unat (meta_len m)"
    and "c AND 0x80 = 0x80" and "c AND 0xC0 = 0x80"
    and "push_bit 8 (ucast (c AND 0x3F)) OR ucast d = v"
    and "(if v AND 1 = 0 then drop_bit 1 v else drop_bit 1 v OR 0xFFFFE000) = x"
  shows "ILMetaUncompressInt m = Some (x, skip 2 m)"
  using assms skip_pos [of 1 m]
  by (simp add: ILMetaUncompressInt_def byte_at_skip skip_skip byte_at_def [of m] word_less_nat_alt
      Let_def numeral_2_eq_2 [symmetric] split: if_splits)

lemma UncompressInt_form_4:
  assumes "meta_data m = c # c2 # c3 # c4 # bs" and "4 \<le> unat (meta_len m)"
    and "c AND 0x80 = 0x80" and "c AND 0xC0 = 0xC0" and "c AND 0xE0 = 0xC0"
    and "be24 (c AND 0x1F) c2 c3 c4 = v"
    and "(if v AND 1 = 0 then drop_bit 1 v else drop_bit 1 v OR 0xF0000000) = x"
  shows "ILMetaUncompressInt m = Some (x, skip 4 m)"
  using assms skip_ge [of 1 m 3]
  by (simp add: ILMetaUncompressInt_def byte_at_skip skip_skip byte_at_def [of m] word_less_nat_alt Let_def
      split: if_splits)

lemma UncompressInt_CompressInt:
  assumes r: "int_in_range x" and d: "meta_data m = ILMetaCompressInt x @ rest"
    and l: "length (ILMetaCompressInt x) \<le> unat (meta_len m)"
  shows "ILMetaUncompressInt m = Some (x, skip (length (ILMetaCompressInt x)) m)"
proof (cases "0 \<le> sint x")
  case pos: True
  consider (b1) "sint x < 2 ^ 6" | (b2) "\<not> sint x < 2 ^ 6" "sint x < 2 ^ 13"
    | (b4) "\<not> sint x < 2 ^ 6" "\<not> sint x < 2 ^ 13" "sint x < 2 ^ 28"
    using r unfolding int_in_range_def by linarith
  then show ?thesis
  proof cases
    case b1
    note b = int_bytes_1_pos [OF pos b1]
    from pos b1 d l have "ILMetaUncompressInt m = Some (x, skip 1 m)"
      by (intro UncompressInt_form_1 [OF _ _ b(1)]) (simp_all only: b if_True, simp_all add: ILMetaCompressInt_def)
    with pos b1 show ?thesis by (simp add: length_CompressInt [OF r])
  next
    case b2
    note b = int_bytes_2_pos [OF pos b2(2)]
    from pos b2 d l have "ILMetaUncompressInt m = Some (x, skip 2 m)"
      by (intro UncompressInt_form_2 [OF _ _ int_tag_2 b(1)]) (simp_all only: b if_True, simp_all add: ILMetaCompressInt_def)
    with pos b2 show ?thesis by (simp add: length_CompressInt [OF r])
  next
    case b4
    note b = int_bytes_4_pos [OF pos b4(3)]
    from pos b4 d l have "ILMetaUncompressInt m = Some (x, skip 4 m)"
      by (intro UncompressInt_form_4 [OF _ _ b(1-4)]) (simp_all only: b if_True, simp_all add: ILMetaCompressInt_def)
    with pos b4 show ?thesis by (simp add: length_CompressInt [OF r])
  qed
next
  case False
  then have neg: "sint x < 0" by simp
  have ne: "(1::'a::len word) \<noteq> 0" by simp
  consider (b1) "- (2 ^ 6) \<le> sint x" | (b2) "\<not> - (2 ^ 6) \<le> sint x" "- (2 ^ 13) \<le> sint x"
    | (b4) "\<not> - (2 ^ 6) \<le> sint x" "\<not> - (2 ^ 13) \<le> sint x" "- (2 ^ 28) \<le> sint x"
    using r unfolding int_in_range_def by linarith
  then show ?thesis
  proof cases
    case b1
    note b = int_bytes_1_neg [OF b1 neg]
    from neg b1 d l have "ILMetaUncompressInt m = Some (x, skip 1 m)"
      by (intro UncompressInt_form_1 [OF _ _ b(1)]) (simp_all only: b ne if_False, simp_all add: ILMetaCompressInt_def)
    with neg b1 show ?thesis by (simp add: length_CompressInt [OF r])
  next
    case b2
    note b = int_bytes_2_neg [OF b2(2) neg]
    from neg b2 d l have "ILMetaUncompressInt m = Some (x, skip 2 m)"
      by (intro UncompressInt_form_2 [OF _ _ int_tag_2 b(1)]) (simp_all only: b ne if_False, simp_all add: ILMetaCompressInt_def)
    with neg b2 show ?thesis by (simp add: length_CompressInt [OF r])
  next
    case b4
    note b = int_bytes_4_low [of x] int_bytes_4_neg [OF b4(3) neg]
    from neg b4 d l have "ILMetaUncompressInt m = Some (x, skip 4 m)"
      by (intro UncompressInt_form_4 [OF _ _ b(1-4)]) (simp_all only: b ne if_False, simp_all add: ILMetaCompressInt_def)
    with neg b4 show ?thesis by (simp add: length_CompressInt [OF r])
  qed
qed

text \<open>Tokens of the four encodable classes.\<close>

definition token_encodable :: "u32 \<Rightarrow> bool" where
  "token_encodable t \<longleftrightarrow> t AND IL_META_TOKEN_MASK \<in>
     {IL_META_TOKEN_TYPE_DEF, IL_META_TOKEN_TYPE_REF, IL_META_TOKEN_TYPE_SPEC, IL_META_TOKEN_BASE_TYPE}"

lemma token_split: "(t AND NOT IL_META_TOKEN_MASK) OR (t AND IL_META_TOKEN_MASK) = (t :: u32)"
  by (rule word32_eqI) (simp add: blast_simps)

lemma token_id_bits:
  fixes t k :: u32
  assumes "k < 4"
  shows "drop_bit 2 (push_bit 2 (t AND NOT IL_META_TOKEN_MASK) OR k) = t AND NOT IL_META_TOKEN_MASK"
    and "(push_bit 2 (t AND NOT IL_META_TOKEN_MASK) OR k) AND 3 = k"
proof -
  have b: "\<not> bit k n" if "2 \<le> n" for n
    using word_bit_ge [of k 2 n] assms that by simp
  show "drop_bit 2 (push_bit 2 (t AND NOT IL_META_TOKEN_MASK) OR k) = t AND NOT IL_META_TOKEN_MASK"
    by (rule word32_eqI) (simp add: blast_simps b)
  show "(push_bit 2 (t AND NOT IL_META_TOKEN_MASK) OR k) AND 3 = k"
    by (rule word32_eqI) (simp add: blast_simps b)
qed

lemma CompressToken_encodable:
  assumes "token_encodable t"
  obtains k where "k < 4" and "ILMetaCompressToken t = ILMetaCompressData (push_bit 2 (t AND NOT IL_META_TOKEN_MASK) OR k)"
    and "t AND IL_META_TOKEN_MASK =
          (if k = 0 then IL_META_TOKEN_TYPE_DEF else if k = 1 then IL_META_TOKEN_TYPE_REF
           else if k = 2 then IL_META_TOKEN_TYPE_SPEC else IL_META_TOKEN_BASE_TYPE)"
proof -
  consider "t AND IL_META_TOKEN_MASK = IL_META_TOKEN_TYPE_DEF" | "t AND IL_META_TOKEN_MASK = IL_META_TOKEN_TYPE_REF"
    | "t AND IL_META_TOKEN_MASK = IL_META_TOKEN_TYPE_SPEC" | "t AND IL_META_TOKEN_MASK = IL_META_TOKEN_BASE_TYPE"
    using assms unfolding token_encodable_def by blast
  then show thesis
    by cases (rule that [of 0] that [of 1] that [of 2] that [of 3];
      simp add: ILMetaCompressToken_def Let_def)+
qed

lemma UncompressToken_CompressToken:
  assumes wf: "meta_wf m" and e: "\<not> meta_error m" and t: "token_encodable t"
    and d: "meta_data m = ILMetaCompressToken t @ rest"
    and l: "length (ILMetaCompressToken t) \<le> unat (meta_len m)"
  shows "ILMetaUncompressToken m = Some (t, skip (length (ILMetaCompressToken t)) m)"
proof -
  obtain k where k: "k < 4"
    and c: "ILMetaCompressToken t = ILMetaCompressData (push_bit 2 (t AND NOT IL_META_TOKEN_MASK) OR k)"
    and cls: "t AND IL_META_TOKEN_MASK =
          (if k = 0 then IL_META_TOKEN_TYPE_DEF else if k = 1 then IL_META_TOKEN_TYPE_REF
           else if k = 2 then IL_META_TOKEN_TYPE_SPEC else IL_META_TOKEN_BASE_TYPE)"
    using t by (rule CompressToken_encodable)
  have "ILMetaUncompressData m =
      Some (push_bit 2 (t AND NOT IL_META_TOKEN_MASK) OR k, skip (length (ILMetaCompressToken t)) m)"
    unfolding c by (rule UncompressData_CompressData [OF wf]) (use d l c in auto)
  moreover have "\<not> meta_error (skip (length (ILMetaCompressToken t)) m)"
    using e by (simp add: skip_def)
  ultimately have "ILMetaUncompressToken m =
      Some ((t AND NOT IL_META_TOKEN_MASK) OR (t AND IL_META_TOKEN_MASK), skip (length (ILMetaCompressToken t)) m)"
    unfolding ILMetaUncompressToken_def cls
    by (simp only: Option.bind.bind_lunit prod.case token_id_bits [OF k] Let_def) (simp split: if_split)
  then show ?thesis by (simp only: token_split)
qed

section \<open>Streams of compressed items\<close>

definition reader_of :: "bytes \<Rightarrow> ILMetaDataRead" where
  "reader_of bs = \<lparr>meta_data = bs, meta_len = of_nat (length bs), meta_error = False\<rparr>"

text \<open>What a client sees: the item and the bytes behind it, or a failure.\<close>

definition read_item :: "(ILMetaDataRead \<Rightarrow> ('v \<times> ILMetaDataRead) option) \<Rightarrow> bytes \<Rightarrow> ('v \<times> bytes) option" where
  "read_item rd bs =
    (case rd (reader_of bs) of None \<Rightarrow> None
     | Some (v, m) \<Rightarrow> if meta_error m then None else Some (v, meta_data m))"

text \<open>Blob lengths are \<^verbatim>\<open>ILUInt32\<close> values.\<close>

definition blob_fits :: "bytes \<Rightarrow> bool" where
  "blob_fits bs \<longleftrightarrow> length bs < 2 ^ 32"

lemma blob_fits_suffix: "blob_fits (as @ bs) \<Longrightarrow> blob_fits bs"
  by (simp add: blob_fits_def)

lemma reader_of_facts:
  assumes "blob_fits bs"
  shows "meta_wf (reader_of bs)" and "unat (meta_len (reader_of bs)) = length bs"
    and "meta_data (reader_of bs) = bs" and "\<not> meta_error (reader_of bs)"
  using assms by (simp_all add: meta_wf_def reader_of_def blob_fits_def unat_of_nat)

lemma read_item_drop:
  "rd (reader_of bs) = Some (v, skip k (reader_of bs)) \<Longrightarrow> read_item rd bs = Some (v, drop k bs)"
  by (simp add: read_item_def) (simp add: skip_def reader_of_def)

lemma read_item_skip:
  "rd (reader_of (e @ rest)) = Some (v, skip (length e) (reader_of (e @ rest))) \<Longrightarrow>
   read_item rd (e @ rest) = Some (v, rest)"
  by (simp add: read_item_def) (simp add: skip_def reader_of_def)

lemma CompressToken_nonempty: "token_encodable t \<Longrightarrow> ILMetaCompressToken t \<noteq> []"
  by (erule CompressToken_encodable) (simp add: ILMetaCompressData_def)

interpretation data_codec: nonempty_codec ILMetaCompressData "read_item ILMetaUncompressData"
  "\<lambda>_. True" blob_fits
proof unfold_locales
  fix x rest
  assume f: "blob_fits (ILMetaCompressData x @ rest)"
  show "read_item ILMetaUncompressData (ILMetaCompressData x @ rest) = Some (x, rest)"
    by (intro read_item_skip UncompressData_CompressData) (simp_all add: reader_of_facts [OF f])
qed (auto simp: ILMetaCompressData_def dest: blob_fits_suffix)

interpretation int_codec: nonempty_codec ILMetaCompressInt "read_item ILMetaUncompressInt"
  int_in_range blob_fits
proof unfold_locales
  fix x rest
  assume v: "int_in_range x" and f: "blob_fits (ILMetaCompressInt x @ rest)"
  show "read_item ILMetaUncompressInt (ILMetaCompressInt x @ rest) = Some (x, rest)"
    by (intro read_item_skip UncompressInt_CompressInt v) (simp_all add: reader_of_facts [OF f])
qed (auto simp: ILMetaCompressInt_def dest: blob_fits_suffix)

interpretation token_codec: nonempty_codec ILMetaCompressToken "read_item ILMetaUncompressToken"
  token_encodable blob_fits
proof unfold_locales
  fix x rest
  assume v: "token_encodable x" and f: "blob_fits (ILMetaCompressToken x @ rest)"
  show "read_item ILMetaUncompressToken (ILMetaCompressToken x @ rest) = Some (x, rest)"
    by (intro read_item_skip UncompressToken_CompressToken v) (simp_all add: reader_of_facts [OF f])
qed (auto simp: CompressToken_nonempty dest: blob_fits_suffix)

section \<open>Values the signed encoding loses\<close>

text \<open>
  The four-byte form keeps 28 bits, but the writer uses it down to \<open>-2^29\<close>; the
  five-byte form is written shifted by one bit and read back unshifted.
\<close>

lemma sint_ge_top_bits:
  assumes "\<And>n. 28 \<le> n \<Longrightarrow> n < 32 \<Longrightarrow> bit (x :: u32) n"
  shows "- (2 ^ 28) \<le> sint x"
proof -
  have "bit (sint x) n" if "28 \<le> n" for n
    using assms [of n] assms [of 31] that by (cases "n < 32") (auto simp: bit_sint_iff)
  then have "signed_take_bit 28 (sint x) = sint x"
    by (intro bit_eqI) (auto simp: bit_signed_take_bit_iff min_def)
  then show ?thesis by (simp add: signed_take_bit_int_eq_self_iff)
qed

lemma top_nibble: "28 \<le> k \<Longrightarrow> k < 32 \<Longrightarrow> bit (0xF0000000 :: u32) k"
proof -
  have "\<forall>k<32. 28 \<le> k \<longrightarrow> bit (0xF0000000 :: u32) k" by (simp add: blast_simps)
  then show "28 \<le> k \<Longrightarrow> k < 32 \<Longrightarrow> bit (0xF0000000 :: u32) k" by blast
qed

lemma shift_in_one_fixpoint:
  assumes e: "push_bit 1 x OR 1 = (x :: u32)" and "k < 32"
  shows "bit x k"
  using assms(2)
proof (induction k)
  case 0
  have "bit (push_bit 1 x OR 1) 0" by (simp add: bit_simps)
  then show ?case unfolding e .
next
  case (Suc k)
  then have "bit (push_bit 1 x OR 1) (Suc k)" by (simp add: bit_simps bit_word_double)
  then show ?case unfolding e .
qed

text \<open>The five-byte form of the reader.\<close>

lemma UncompressInt_form_5:
  assumes "meta_data m = c # c1 # c2 # c3 # c4 # bs" and "5 \<le> unat (meta_len m)"
    and "c AND 0x80 = 0x80" and "c AND 0xC0 = 0xC0" and "c AND 0xE0 = 0xE0" and "be24 c1 c2 c3 c4 = v"
  shows "ILMetaUncompressInt m = Some (v, skip 5 m)"
  using assms skip_ge [of 1 m 4]
  by (simp add: ILMetaUncompressInt_def byte_at_skip skip_skip byte_at_def [of m] word_less_nat_alt Let_def)

lemma int_bytes_5:
  "be24 (ucast (signed_drop_bit 23 x)) (ucast (signed_drop_bit 15 x))
     (ucast (signed_drop_bit 7 x)) (ucast (push_bit 1 x)) = push_bit 1 (x :: u32)"
  "be24 (ucast (signed_drop_bit 23 x)) (ucast (signed_drop_bit 15 x))
     (ucast (signed_drop_bit 7 x)) (ucast (push_bit 1 x OR 1)) = push_bit 1 (x :: u32) OR 1"
  by (rule word32_eqI, simp add: be24_def blast_simps) (rule word32_eqI, simp add: be24_def blast_simps)

lemma CompressInt_lossy_pos:
  assumes "2 ^ 28 \<le> sint x"
  shows "ILMetaUncompressInt (reader_of (ILMetaCompressInt x)) =
      Some (push_bit 1 x, skip 5 (reader_of (ILMetaCompressInt x)))"
  by (rule UncompressInt_form_5 [where c = "0xE0" and bs = "[]", OF _ _ _ _ _ int_bytes_5(1)])
    (use assms in \<open>simp_all add: reader_of_def ILMetaCompressInt_def\<close>)

lemma CompressInt_lossy_neg:
  assumes "sint x < - (2 ^ 29)"
  shows "ILMetaUncompressInt (reader_of (ILMetaCompressInt x)) =
      Some (push_bit 1 x OR 1, skip 5 (reader_of (ILMetaCompressInt x)))"
  by (rule UncompressInt_form_5 [where c = "0xE1" and bs = "[]", OF _ _ _ _ _ int_bytes_5(2)])
    (use assms in \<open>simp_all add: reader_of_def ILMetaCompressInt_def\<close>)

lemma CompressInt_lossy_mid:
  assumes "- (2 ^ 29) \<le> sint x" and "sint x < - (2 ^ 28)"
  shows "ILMetaUncompressInt (reader_of (ILMetaCompressInt x)) =
      Some (drop_bit 1 (take_bit 29 (push_bit 1 x) OR 1) OR 0xF0000000,
            skip 4 (reader_of (ILMetaCompressInt x)))"
proof (rule UncompressInt_form_4 [OF _ _ int_bytes_4_low(1-4) [of x]])
  show "meta_data (reader_of (ILMetaCompressInt x)) =
      ucast ((signed_drop_bit 23 x AND 0x1F) OR 0xC0) # ucast (signed_drop_bit 15 x)
        # ucast (signed_drop_bit 7 x) # ucast (push_bit 1 x OR 1) # []"
    and "4 \<le> unat (meta_len (reader_of (ILMetaCompressInt x)))"
    using assms by (simp_all add: reader_of_def ILMetaCompressInt_def)
qed (simp only: int_bytes_4_low(5) one_neq_zero if_False)

text \<open>The signed round trip holds exactly on the 29-bit range.\<close>

lemma CompressInt_lossless_iff:
  "read_item ILMetaUncompressInt (ILMetaCompressInt x) = Some (x, []) \<longleftrightarrow> int_in_range x"
proof
  assume "int_in_range x"
  moreover have "blob_fits (ILMetaCompressInt x)"
    by (simp add: ILMetaCompressInt_def blob_fits_def)
  ultimately show "read_item ILMetaUncompressInt (ILMetaCompressInt x) = Some (x, [])"
    using int_codec.dec_enc [of x "[]"] by simp
next
  assume r: "read_item ILMetaUncompressInt (ILMetaCompressInt x) = Some (x, [])"
  show "int_in_range x"
  proof (rule ccontr)
    assume "\<not> int_in_range x"
    then consider (p) "2 ^ 28 \<le> sint x" | (m) "- (2 ^ 29) \<le> sint x" "sint x < - (2 ^ 28)" | (n) "sint x < - (2 ^ 29)"
      unfolding int_in_range_def by linarith
    then show False
    proof cases
      case p
      with r have "push_bit 1 x = x"
        using read_item_drop [where rd = ILMetaUncompressInt, OF CompressInt_lossy_pos [OF p]] by simp
      then have "x + x = x" by (simp add: mult_2_right)
      then have "x = 0" by simp
      with p show False by simp
    next
      case n
      with r have e: "push_bit 1 x OR 1 = x"
        using read_item_drop [where rd = ILMetaUncompressInt, OF CompressInt_lossy_neg [OF n]] by simp
      then have "bit x k" if "k < 32" for k
        using shift_in_one_fixpoint that by blast
      then have "- (2 ^ 28) \<le> sint x"
        by (intro sint_ge_top_bits)
      with n show False by simp
    next
      case m
      with r have e: "drop_bit 1 (take_bit 29 (push_bit 1 x) OR 1) OR 0xF0000000 = x"
        using read_item_drop [where rd = ILMetaUncompressInt, OF CompressInt_lossy_mid [OF m]] by (simp only: option.inject prod.inject)
      have "bit (drop_bit 1 (take_bit 29 (push_bit 1 x) OR 1) OR 0xF0000000) k" if "28 \<le> k" "k < 32" for k
        using that top_nibble [of k] by (simp add: bit_or_iff)
      then have "- (2 ^ 28) \<le> sint x"
        unfolding e by (intro sint_ge_top_bits)
      with m show False by simp
    qed
  qed
qed

section \<open>Truncated items\<close>

lemma UncompressData_truncated:
  assumes k: "k < length (ILMetaCompressData x)"
  shows "\<exists>m'. ILMetaUncompressData (reader_of (take k (ILMetaCompressData x))) = Some (0, m') \<and> meta_error m'"
proof -
  have k5: "k = 0 \<or> k = 1 \<or> k = 2 \<or> k = 3 \<or> k = 4"
    using k by (auto simp: length_CompressData split: if_splits)
  consider "x < 0x80" | "\<not> x < 0x80" "x < 2 ^ 14" | "\<not> x < 0x80" "\<not> x < 2 ^ 14" "x < 2 ^ 29"
    | "\<not> x < 0x80" "\<not> x < 2 ^ 14" "\<not> x < 2 ^ 29" by blast
  then show ?thesis
    using k k5
    by cases (auto simp: ILMetaCompressData_def ILMetaUncompressData_def reader_of_def byte_at_def skip_def
        Let_def data_tag_2 data_tag_4 word_le_nat_alt)
qed

section \<open>Properties\<close>

text \<open>C37: Reading from a well-formed cursor never touches memory outside it and leaves a
  well-formed cursor that is no longer than before, whatever the bytes are: the three readers
  of metadata items are memory safe on arbitrary (also malformed) blobs.\<close>

theorem meta_readers_memory_safe:
  assumes "meta_wf m"
  shows "within m (ILMetaUncompressData m) \<and> within m (ILMetaUncompressInt m) \<and>
    within m (ILMetaUncompressToken m)"
  using assms by (simp add: UncompressData_within UncompressInt_within UncompressToken_within)

theorem meta_readers_memory_safe_witness:
  "meta_wf (reader_of [0xC0, 1]) \<and> within (reader_of [0xC0, 1]) (ILMetaUncompressData (reader_of [0xC0, 1]))"
  using meta_readers_memory_safe [of "reader_of [0xC0, 1]"]
  by (simp add: meta_wf_def reader_of_def)

text \<open>C1: Any sequence of 32-bit values that was compressed item by item is read back
  exactly, and the bytes behind it are left for the next reader.\<close>

theorem meta_data_stream_roundtrip:
  assumes "length (concat (map ILMetaCompressData xs) @ rest) < 2 ^ 32"
  shows "decode_n (read_item ILMetaUncompressData) (length xs)
      (concat (map ILMetaCompressData xs) @ rest) = Some (xs, rest)"
  by (rule data_codec.decode_sequence) (use assms in \<open>simp_all add: blob_fits_def\<close>)

theorem meta_data_stream_roundtrip_witness:
  "decode_n (read_item ILMetaUncompressData) 3
      (concat (map ILMetaCompressData [3, 0x80, 0xFFFFFFFF]) @ [7]) = Some ([3, 0x80, 0xFFFFFFFF], [7])"
  using meta_data_stream_roundtrip [of "[3, 0x80, 0xFFFFFFFF]" "[7]"]
  by (simp add: ILMetaCompressData_def flip: numeral_3_eq_3)

text \<open>A compressed value is never a prefix of the encoding of another one: two streams
  of compressed values with the same bytes hold the same values.\<close>

lemma meta_data_streams_injective:
  assumes "length (concat (map ILMetaCompressData xs)) < 2 ^ 32"
    and "concat (map ILMetaCompressData xs) = concat (map ILMetaCompressData ys)"
  shows "xs = ys"
  by (rule data_codec.concat_inj) (use assms in \<open>simp_all add: blob_fits_def\<close>)

lemma meta_data_streams_injective_witness: "[1, 0x4000 :: u32] = [1, 0x4000]"
  by (rule meta_data_streams_injective) (simp_all add: ILMetaCompressData_def)

text \<open>C36: The signed encoding round-trips exactly on the values of \<open>[-2^28, 2^28)\<close>.  Every
  value outside that range comes back as a different one, although the writer accepts it
  without an error: the four-byte form is used down to \<open>-2^29\<close>, and the five-byte form is
  written shifted left by one and read back unshifted.\<close>

theorem meta_int_roundtrip_iff:
  "read_item ILMetaUncompressInt (ILMetaCompressInt x) = Some (x, []) \<longleftrightarrow>
     - (2 ^ 28) \<le> sint x \<and> sint x < 2 ^ 28"
  by (simp only: CompressInt_lossless_iff int_in_range_def)

text \<open>A token of one of the four encodable classes (TypeDef, TypeRef, TypeSpec, base type)
  survives compression, at any place of a blob.\<close>

lemma meta_token_stream_roundtrip:
  assumes "\<forall>t\<in>set ts. token_encodable t"
    and "length (concat (map ILMetaCompressToken ts) @ rest) < 2 ^ 32"
  shows "decode_n (read_item ILMetaUncompressToken) (length ts)
      (concat (map ILMetaCompressToken ts) @ rest) = Some (ts, rest)"
  by (rule token_codec.decode_sequence) (use assms in \<open>simp_all add: blob_fits_def\<close>)

lemma meta_token_stream_roundtrip_witness:
  "decode_n (read_item ILMetaUncompressToken) 2
      (concat (map ILMetaCompressToken [0x02000005, 0x1B012345]) @ []) = Some ([0x02000005, 0x1B012345], [])"
  using meta_token_stream_roundtrip [of "[0x02000005, 0x1B012345]" "[]"]
  by (simp add: token_encodable_def ILMetaCompressToken_def ILMetaCompressData_def Let_def flip: numeral_2_eq_2)

text \<open>A blob that ends inside a compressed value makes the reader set the error flag and
  return 0, for every value and every place of the cut.\<close>

lemma meta_data_truncated_is_error:
  assumes "k < length (ILMetaCompressData x)"
  shows "\<exists>m'. ILMetaUncompressData (reader_of (take k (ILMetaCompressData x))) = Some (0, m') \<and> meta_error m'"
  using assms by (rule UncompressData_truncated)

lemma meta_data_truncated_is_error_witness:
  "\<exists>m'. ILMetaUncompressData (reader_of (take 3 (ILMetaCompressData 0x12345678))) = Some (0, m') \<and> meta_error m'"
  by (rule meta_data_truncated_is_error) (simp add: ILMetaCompressData_def)

end
