(* ===== verification/Utf.thy ===== *)
theory Utf
  imports Codec
begin

text \<open>
  The character encoders of \<^verbatim>\<open>support/utf8.c\<close> and \<^verbatim>\<open>support/utf16.c\<close>.
  \<^verbatim>\<open>unsigned long\<close> is a 32-bit word (the ILP32 configuration of the engine),
  a string is the list of its bytes or 16-bit units, and a read outside it is
  \<^term>\<open>None\<close>.  The reader functions take the length and the position that the
  C functions take and return the character with the advanced position.
\<close>

section \<open>UTF-8\<close>

definition at :: "'a list \<Rightarrow> nat \<Rightarrow> 'a option" where
  "at str i = (if i < length str then Some (str ! i) else None)"

definition cont6 :: "u8 \<Rightarrow> u32" where
  "cont6 c = ucast (c AND 0x3F)"

definition ILUTF8ReadChar :: "bytes \<Rightarrow> nat \<Rightarrow> nat \<Rightarrow> (u32 \<times> nat) option" where
  "ILUTF8ReadChar str len posn = do {
     ch \<leftarrow> at str posn;
     if ch AND 0x80 = 0 then Some (ucast ch, posn + 1)
     else if ch AND 0xE0 = 0xC0 \<and> posn + 2 \<le> len then do {
       c1 \<leftarrow> at str (posn + 1);
       Some (push_bit 6 (ucast (ch AND 0x1F)) OR cont6 c1, posn + 2)
     }
     else if ch AND 0xF0 = 0xE0 \<and> posn + 3 \<le> len then do {
       c1 \<leftarrow> at str (posn + 1);
       c2 \<leftarrow> at str (posn + 2);
       Some (push_bit 12 (ucast (ch AND 0x0F)) OR push_bit 6 (cont6 c1) OR cont6 c2, posn + 3)
     }
     else if ch AND 0xF8 = 0xF0 \<and> posn + 4 \<le> len then do {
       c1 \<leftarrow> at str (posn + 1);
       c2 \<leftarrow> at str (posn + 2);
       c3 \<leftarrow> at str (posn + 3);
       Some (push_bit 18 (ucast (ch AND 0x07)) OR push_bit 12 (cont6 c1) OR
             push_bit 6 (cont6 c2) OR cont6 c3, posn + 4)
     }
     else if ch AND 0xFC = 0xF8 \<and> posn + 5 \<le> len then do {
       c1 \<leftarrow> at str (posn + 1);
       c2 \<leftarrow> at str (posn + 2);
       c3 \<leftarrow> at str (posn + 3);
       c4 \<leftarrow> at str (posn + 4);
       Some (push_bit 24 (ucast (ch AND 0x03)) OR push_bit 18 (cont6 c1) OR
             push_bit 12 (cont6 c2) OR push_bit 6 (cont6 c3) OR cont6 c4, posn + 5)
     }
     else if ch AND 0xFC = 0xFC \<and> posn + 6 \<le> len then do {
       c1 \<leftarrow> at str (posn + 1);
       c2 \<leftarrow> at str (posn + 2);
       c3 \<leftarrow> at str (posn + 3);
       c4 \<leftarrow> at str (posn + 4);
       c5 \<leftarrow> at str (posn + 5);
       Some (push_bit 30 (ucast (ch AND 0x03)) OR push_bit 24 (cont6 c1) OR
             push_bit 18 (cont6 c2) OR push_bit 12 (cont6 c3) OR push_bit 6 (cont6 c4) OR
             cont6 c5, posn + 6)
     }
     else Some (ucast ch AND 0xFF, posn + 1)
   }"

text \<open>The writer: the bytes it stores (the \<^verbatim>\<open>str\<close> branch; the C function returns their
  number), and the length it computes when it gets no buffer.\<close>

definition ILUTF8WriteChar :: "u32 \<Rightarrow> bytes" where
  "ILUTF8WriteChar ch =
     (if ch = 0 then [0xC0, 0x80]
      else if ch < 0x80 then [ucast ch]
      else if ch < 2 ^ 11 then
        [ucast (0xC0 OR drop_bit 6 ch), ucast (0x80 OR (ch AND 0x3F))]
      else if ch < 2 ^ 16 then
        [ucast (0xE0 OR drop_bit 12 ch), ucast (0x80 OR (drop_bit 6 ch AND 0x3F)),
         ucast (0x80 OR (ch AND 0x3F))]
      else if ch < 2 ^ 21 then
        [ucast (0xF0 OR drop_bit 18 ch), ucast (0x80 OR (drop_bit 12 ch AND 0x3F)),
         ucast (0x80 OR (drop_bit 6 ch AND 0x3F)), ucast (0x80 OR (ch AND 0x3F))]
      else if ch < 2 ^ 26 then
        [ucast (0xF8 OR drop_bit 24 ch), ucast (0x80 OR (drop_bit 18 ch AND 0x3F)),
         ucast (0x80 OR (drop_bit 12 ch AND 0x3F)), ucast (0x80 OR (drop_bit 6 ch AND 0x3F)),
         ucast (0x80 OR (ch AND 0x3F))]
      else
        [ucast (0xFC OR drop_bit 30 ch), ucast (0x80 OR (drop_bit 24 ch AND 0x3F)),
         ucast (0x80 OR (drop_bit 18 ch AND 0x3F)), ucast (0x80 OR (drop_bit 12 ch AND 0x3F)),
         ucast (0x80 OR (drop_bit 6 ch AND 0x3F)), ucast (0x80 OR (ch AND 0x3F))])"

definition ILUTF8WriteChar_length :: "u32 \<Rightarrow> nat" where
  "ILUTF8WriteChar_length ch =
     (if ch = 0 then 2
      else if ch < 0x80 then 1
      else if ch < 2 ^ 11 then 2
      else if ch < 2 ^ 16 then 3
      else if ch < 2 ^ 21 then 4
      else if ch < 2 ^ 26 then 5
      else 6)"

section \<open>UTF-16\<close>

definition ILUTF16ReadChar :: "u16 list \<Rightarrow> nat \<Rightarrow> nat \<Rightarrow> (u32 \<times> nat) option" where
  "ILUTF16ReadChar str len posn = do {
     u \<leftarrow> at str posn;
     let ch = (ucast u :: u32);
     if ch < 0xD800 \<or> 0xDBFF < ch then Some (ch, posn + 1)
     else if posn + 2 \<le> len then do {
       v \<leftarrow> at str (posn + 1);
       let low = (ucast v :: u32);
       if 0xDC00 \<le> low \<and> low \<le> 0xDFFF then
         Some (push_bit 10 (ch - 0xD800) + (low AND 0x03FF) + 0x10000, posn + 2)
       else Some (ch, posn + 1)
     }
     else Some (ch, posn + 1)
   }"

text \<open>\<^verbatim>\<open>IL_READ_UINT16\<close>: a little-endian 16-bit value.\<close>

definition IL_READ_UINT16 :: "bytes \<Rightarrow> nat \<Rightarrow> u16 option" where
  "IL_READ_UINT16 buf i = do {
     b0 \<leftarrow> at buf i;
     b1 \<leftarrow> at buf (i + 1);
     Some (ucast b0 OR push_bit 8 (ucast b1))
   }"

definition ILUTF16ReadCharAsBytes :: "bytes \<Rightarrow> nat \<Rightarrow> nat \<Rightarrow> (u32 \<times> nat) option" where
  "ILUTF16ReadCharAsBytes str len posn =
     (if posn + 2 > len then do {
        b \<leftarrow> at str posn;
        Some (ucast b, posn + 1)
      }
      else do {
        u \<leftarrow> IL_READ_UINT16 str posn;
        let ch = (ucast u :: u32);
        let posn' = posn + 2;
        if ch < 0xD800 \<or> 0xDBFF < ch then Some (ch, posn')
        else if posn' + 2 > len then Some (ch, posn')
        else do {
          v \<leftarrow> IL_READ_UINT16 str posn';
          let low = (ucast v :: u32);
          if low < 0xDC00 \<or> 0xDFFF < low then Some (ch, posn')
          else Some (push_bit 10 (ch - 0xD800) + (low AND 0x03FF) + 0x10000, posn' + 2)
        }
      })"

definition ILUTF16WriteChar :: "u32 \<Rightarrow> u16 list" where
  "ILUTF16WriteChar ch =
     (if ch < 0x10000 then [ucast ch]
      else if ch < 0x110000 then
        (let ch = ch - 0x10000
         in [ucast (drop_bit 10 ch + 0xD800), ucast ((ch AND 0x03FF) + 0xDC00)])
      else [])"

definition ILUTF16WriteChar_length :: "u32 \<Rightarrow> nat" where
  "ILUTF16WriteChar_length ch =
     (if ch < 0x10000 then 1 else if ch < 0x110000 then 2 else 0)"

definition ILUTF16WriteCharAsBytes :: "u32 \<Rightarrow> bytes" where
  "ILUTF16WriteCharAsBytes ch =
     (if ch < 0x10000 then [ucast ch, ucast (drop_bit 8 ch)]
      else if ch < 0x110000 then
        (let ch = ch - 0x10000;
             tempch = drop_bit 10 ch + 0xD800;
             tempch' = (ch AND 0x03FF) + 0xDC00
         in [ucast tempch, ucast (drop_bit 8 tempch), ucast tempch', ucast (drop_bit 8 tempch')])
      else [])"

definition ILUTF16WriteCharAsBytes_length :: "u32 \<Rightarrow> nat" where
  "ILUTF16WriteCharAsBytes_length ch =
     (if ch < 0x10000 then 2 else if ch < 0x110000 then 4 else 0)"

section \<open>Reading what was written: UTF-8\<close>

lemma at_simps [simp]:
  "at (x # xs) 0 = Some x"
  "at (x # xs) (Suc n) = at xs n"
  by (simp_all add: at_def)

lemma word8_eq_iff: "x = (y :: u8) \<longleftrightarrow> (\<forall>n<8. bit x n = bit y n)"
  using word8_eqI by blast

lemma lead_tests:
  fixes c :: u8
  shows "c AND 0x80 = 0 \<longleftrightarrow> \<not> bit c 7"
    and "c AND 0xE0 = 0xC0 \<longleftrightarrow> bit c 7 \<and> bit c 6 \<and> \<not> bit c 5"
    and "c AND 0xF0 = 0xE0 \<longleftrightarrow> bit c 7 \<and> bit c 6 \<and> bit c 5 \<and> \<not> bit c 4"
    and "c AND 0xF8 = 0xF0 \<longleftrightarrow> bit c 7 \<and> bit c 6 \<and> bit c 5 \<and> bit c 4 \<and> \<not> bit c 3"
    and "c AND 0xFC = 0xF8 \<longleftrightarrow> bit c 7 \<and> bit c 6 \<and> bit c 5 \<and> bit c 4 \<and> bit c 3 \<and> \<not> bit c 2"
    and "c AND 0xFC = 0xFC \<longleftrightarrow> bit c 7 \<and> bit c 6 \<and> bit c 5 \<and> bit c 4 \<and> bit c 3 \<and> bit c 2"
  unfolding word8_eq_iff by (auto simp: all_less_8 bit_simps)

lemma at_numeral [simp]:
  "at (x # xs) (numeral k) = at xs (pred_numeral k)"
  by (simp add: at_def numeral_eq_Suc)

lemmas utf8_read = ILUTF8ReadChar_def lead_tests cont6_def

lemma utf8_roundtrip_1:
  assumes "ch < 0x80" and "ch \<noteq> 0"
  shows "ILUTF8ReadChar (ILUTF8WriteChar ch @ rest) (length (ILUTF8WriteChar ch @ rest)) 0 = Some (ch, length (ILUTF8WriteChar ch))"
proof -
  have b: "\<not> bit ch n" if "7 \<le> n" for n
    using word_bit_ge [of ch 7 n] assms(1) that by simp
  have "(ucast (ucast ch :: u8) :: u32) = ch"
    by (rule word32_eqI) (simp add: blast_simps b)
  then show ?thesis
    using assms b [of 7] by (simp add: ILUTF8WriteChar_def utf8_read bit_unsigned_iff)
qed

lemma utf8_roundtrip_2:
  assumes "\<not> ch < 0x80" and "ch < 2 ^ 11"
  shows "ILUTF8ReadChar (ILUTF8WriteChar ch @ rest) (length (ILUTF8WriteChar ch @ rest)) 0 = Some (ch, length (ILUTF8WriteChar ch))"
proof -
  have b: "\<not> bit ch n" if "11 \<le> n" for n
    using word_bit_ge [OF assms(2) that] by simp
  have "push_bit 6 (ucast (ucast (0xC0 OR drop_bit 6 ch) AND (0x1F :: u8))) OR
        ucast (ucast (0x80 OR (ch AND 0x3F)) AND (0x3F :: u8)) = ch"
    by (rule word32_eqI) (simp add: blast_simps b)
  then show ?thesis
    using assms b by (auto simp: ILUTF8WriteChar_def utf8_read bit_simps)
qed

lemma utf8_roundtrip_3:
  assumes "\<not> ch < 2 ^ 11" and "ch < 2 ^ 16"
  shows "ILUTF8ReadChar (ILUTF8WriteChar ch @ rest) (length (ILUTF8WriteChar ch @ rest)) 0 = Some (ch, length (ILUTF8WriteChar ch))"
proof -
  have b: "\<not> bit ch n" if "16 \<le> n" for n
    using word_bit_ge [OF assms(2) that] by simp
  have v: "push_bit 12 (ucast (ucast (0xE0 OR drop_bit 12 ch) AND (0xF :: u8))) OR
        push_bit 6 (ucast (ucast (0x80 OR (drop_bit 6 ch AND 0x3F)) AND (0x3F :: u8))) OR
        ucast (ucast (0x80 OR (ch AND 0x3F)) AND (0x3F :: u8)) = ch"
    by (rule word32_eqI) (simp add: blast_simps b)
  have "\<not> ch < 0x80" "\<not> ch < 2 ^ 11"
    using assms by (auto simp: not_less elim: order_trans [rotated])
  then show ?thesis
    using assms v b by (auto simp: ILUTF8WriteChar_def utf8_read bit_simps)
qed

lemma utf8_roundtrip_4:
  assumes "\<not> ch < 2 ^ 16" and "ch < 2 ^ 21"
  shows "ILUTF8ReadChar (ILUTF8WriteChar ch @ rest) (length (ILUTF8WriteChar ch @ rest)) 0 = Some (ch, length (ILUTF8WriteChar ch))"
proof -
  have b: "\<not> bit ch n" if "21 \<le> n" for n
    using word_bit_ge [OF assms(2) that] by simp
  have v: "push_bit 18 (ucast (ucast (0xF0 OR drop_bit 18 ch) AND (0x7 :: u8))) OR
        push_bit 12 (ucast (ucast (0x80 OR (drop_bit 12 ch AND 0x3F)) AND (0x3F :: u8))) OR
        push_bit 6 (ucast (ucast (0x80 OR (drop_bit 6 ch AND 0x3F)) AND (0x3F :: u8))) OR
        ucast (ucast (0x80 OR (ch AND 0x3F)) AND (0x3F :: u8)) = ch"
    by (rule word32_eqI) (simp add: blast_simps b)
  have "\<not> ch < 0x80" "\<not> ch < 2 ^ 11" "\<not> ch < 2 ^ 16"
    using assms by (auto simp: not_less elim: order_trans [rotated])
  then show ?thesis
    using assms v b by (auto simp: ILUTF8WriteChar_def utf8_read bit_simps)
qed

lemma utf8_roundtrip_5:
  assumes "\<not> ch < 2 ^ 21" and "ch < 2 ^ 26"
  shows "ILUTF8ReadChar (ILUTF8WriteChar ch @ rest) (length (ILUTF8WriteChar ch @ rest)) 0 = Some (ch, length (ILUTF8WriteChar ch))"
proof -
  have b: "\<not> bit ch n" if "26 \<le> n" for n
    using word_bit_ge [OF assms(2) that] by simp
  have v: "push_bit 24 (ucast (ucast (0xF8 OR drop_bit 24 ch) AND (0x3 :: u8))) OR
        push_bit 18 (ucast (ucast (0x80 OR (drop_bit 18 ch AND 0x3F)) AND (0x3F :: u8))) OR
        push_bit 12 (ucast (ucast (0x80 OR (drop_bit 12 ch AND 0x3F)) AND (0x3F :: u8))) OR
        push_bit 6 (ucast (ucast (0x80 OR (drop_bit 6 ch AND 0x3F)) AND (0x3F :: u8))) OR
        ucast (ucast (0x80 OR (ch AND 0x3F)) AND (0x3F :: u8)) = ch"
    by (rule word32_eqI) (simp add: blast_simps b)
  have "\<not> ch < 0x80" "\<not> ch < 2 ^ 11" "\<not> ch < 2 ^ 16" "\<not> ch < 2 ^ 21"
    using assms by (auto simp: not_less elim: order_trans [rotated])
  then show ?thesis
    using assms v b by (auto simp: ILUTF8WriteChar_def utf8_read bit_simps)
qed

lemma utf8_roundtrip_6:
  assumes "\<not> ch < 2 ^ 26"
  shows "ILUTF8ReadChar (ILUTF8WriteChar ch @ rest) (length (ILUTF8WriteChar ch @ rest)) 0 = Some (ch, length (ILUTF8WriteChar ch))"
proof -
  have v: "push_bit 30 (ucast (ucast (0xFC OR drop_bit 30 ch) AND (0x3 :: u8))) OR
        push_bit 24 (ucast (ucast (0x80 OR (drop_bit 24 ch AND 0x3F)) AND (0x3F :: u8))) OR
        push_bit 18 (ucast (ucast (0x80 OR (drop_bit 18 ch AND 0x3F)) AND (0x3F :: u8))) OR
        push_bit 12 (ucast (ucast (0x80 OR (drop_bit 12 ch AND 0x3F)) AND (0x3F :: u8))) OR
        push_bit 6 (ucast (ucast (0x80 OR (drop_bit 6 ch AND 0x3F)) AND (0x3F :: u8))) OR
        ucast (ucast (0x80 OR (ch AND 0x3F)) AND (0x3F :: u8)) = ch"
    by (rule word32_eqI) (simp add: blast_simps)
  have "\<not> ch < 0x80" "\<not> ch < 2 ^ 11" "\<not> ch < 2 ^ 16" "\<not> ch < 2 ^ 21" "\<not> ch < 2 ^ 26"
    using assms by (auto simp: not_less elim: order_trans [rotated])
  then show ?thesis
    using assms v by (auto simp: ILUTF8WriteChar_def utf8_read bit_simps)
qed

lemma ILUTF8_roundtrip:
  "ILUTF8ReadChar (ILUTF8WriteChar ch @ rest) (length (ILUTF8WriteChar ch @ rest)) 0 =
     Some (ch, length (ILUTF8WriteChar ch))"
proof -
  consider "ch = 0" | "ch \<noteq> 0" "ch < 0x80" | "\<not> ch < 0x80" "ch < 2 ^ 11"
    | "\<not> ch < 2 ^ 11" "ch < 2 ^ 16" | "\<not> ch < 2 ^ 16" "ch < 2 ^ 21"
    | "\<not> ch < 2 ^ 21" "ch < 2 ^ 26" | "\<not> ch < 2 ^ 26" by blast
  then show ?thesis
  proof cases
    case 1
    then show ?thesis by (simp add: ILUTF8WriteChar_def utf8_read)
  qed (blast intro: utf8_roundtrip_1 utf8_roundtrip_2 utf8_roundtrip_3 utf8_roundtrip_4
      utf8_roundtrip_5 utf8_roundtrip_6)+
qed

text \<open>Reading one item off a byte stream, and the codec interface.\<close>

definition utf8_item :: "bytes \<Rightarrow> (u32 \<times> bytes) option" where
  "utf8_item bs = map_option (\<lambda>(ch, n). (ch, drop n bs)) (ILUTF8ReadChar bs (length bs) 0)"

lemma length_ILUTF8WriteChar: "length (ILUTF8WriteChar ch) = ILUTF8WriteChar_length ch"
  by (simp add: ILUTF8WriteChar_def ILUTF8WriteChar_length_def)

interpretation utf8_codec: nonempty_codec ILUTF8WriteChar utf8_item "\<lambda>_. True" "\<lambda>_. True"
proof unfold_locales
  show "utf8_item (ILUTF8WriteChar x @ rest) = Some (x, rest)" for x rest
    by (simp add: utf8_item_def ILUTF8_roundtrip del: length_append)
  show "ILUTF8WriteChar x \<noteq> []" for x
    by (simp add: ILUTF8WriteChar_def)
qed simp

section \<open>Memory safety of the UTF-8 reader\<close>

lemma at_Some: "i < length str \<Longrightarrow> at str i = Some (str ! i)"
  by (simp add: at_def)

lemma ILUTF8ReadChar_safe:
  assumes "posn < len" and "len \<le> length str"
  shows "\<exists>ch posn'. ILUTF8ReadChar str len posn = Some (ch, posn') \<and> posn < posn' \<and> posn' \<le> len"
  using assms by (simp add: ILUTF8ReadChar_def at_Some)

section \<open>Reading what was written: UTF-16\<close>

text \<open>A code point that UTF-16 can hold and that is not a high surrogate, which would be
  joined with a low surrogate that happens to follow it.\<close>

definition utf16_valid :: "u32 \<Rightarrow> bool" where
  "utf16_valid ch \<longleftrightarrow> ch < 0x110000 \<and> (ch < 0xD800 \<or> 0xDBFF < ch)"

lemma surrogate_pair_value:
  assumes "c < (2 :: u32) ^ 20"
  defines "hi \<equiv> (ucast (drop_bit 10 c + 0xD800) :: u16)" and "lo \<equiv> (ucast ((c AND 0x03FF) + 0xDC00) :: u16)"
  shows "0xD800 \<le> (ucast hi :: u32)" and "(ucast hi :: u32) \<le> 0xDBFF"
    and "0xDC00 \<le> (ucast lo :: u32)" and "(ucast lo :: u32) \<le> 0xDFFF"
    and "push_bit 10 ((ucast hi :: u32) - 0xD800) + ((ucast lo :: u32) AND 0x03FF) = c"
proof -
  have b: "\<not> bit c n" if "20 \<le> n" for n
    using word_bit_ge [OF assms(1) that] by simp
  have s1: "drop_bit 10 c + 0xD800 = drop_bit 10 c OR 0xD800"
    by (rule disjunctive_add_eq_or, rule word32_eqI) (simp add: blast_simps b)
  have s2: "(c AND 0x03FF) + 0xDC00 = (c AND 0x03FF) OR 0xDC00"
    by (rule disjunctive_add_eq_or, rule word32_eqI) (simp add: blast_simps)
  have hi: "(ucast hi :: u32) = drop_bit 10 c + 0xD800"
    unfolding hi_def s1 by (rule word32_eqI) (simp add: blast_simps b)
  have lo: "(ucast lo :: u32) = (c AND 0x03FF) + 0xDC00"
    unfolding lo_def s2 by (rule word32_eqI) (simp add: blast_simps b)
  have d: "unat (drop_bit 10 c) < 2 ^ 10"
  proof -
    have "drop_bit 10 c < 2 ^ 10"
      using word_less_exp_iff [of 10 "drop_bit 10 c"] b by (simp add: bit_simps)
    then show ?thesis by (simp add: word_less_nat_alt)
  qed
  have m: "unat (c AND 0x03FF) < 2 ^ 10"
  proof -
    have "c AND 0x03FF < 2 ^ 10"
      using word_less_exp_iff [of 10 "c AND 0x03FF"] by (simp add: blast_simps)
    then show ?thesis by (simp add: word_less_nat_alt)
  qed
  show "0xD800 \<le> (ucast hi :: u32)" "(ucast hi :: u32) \<le> 0xDBFF"
    unfolding hi using d by (simp_all add: word_le_nat_alt unat_word_ariths)
  show "0xDC00 \<le> (ucast lo :: u32)" "(ucast lo :: u32) \<le> 0xDFFF"
    unfolding lo using m by (simp_all add: word_le_nat_alt unat_word_ariths)
  have "push_bit 10 (drop_bit 10 c) + (((c AND 0x03FF) OR 0xDC00) AND 0x03FF) =
      push_bit 10 (drop_bit 10 c) OR (((c AND 0x03FF) OR 0xDC00) AND 0x03FF)"
    by (rule disjunctive_add_eq_or, rule word32_eqI) (simp add: blast_simps)
  also have "\<dots> = c"
    by (rule word32_eqI) (simp add: blast_simps b)
  finally show "push_bit 10 ((ucast hi :: u32) - 0xD800) + ((ucast lo :: u32) AND 0x03FF) = c"
    unfolding hi lo s2 by simp
qed

lemma ucast_u16_small:
  assumes "ch < (0x10000 :: u32)"
  shows "ucast (ucast ch :: u16) = ch"
proof (rule word32_eqI)
  have "\<not> bit ch n" if "16 \<le> n" for n
    using word_bit_ge [of ch 16 n] assms that by simp
  then show "\<forall>n<32. bit (ucast (ucast ch :: u16) :: u32) n = bit ch n"
    by (simp add: blast_simps)
qed

lemma utf16_offset:
  assumes "\<not> ch < (0x10000 :: u32)" and "ch < 0x110000"
  shows "ch - 0x10000 < 2 ^ 20"
  using assms by (simp add: word_less_nat_alt unat_sub word_le_nat_alt not_less)

lemma ILUTF16_roundtrip:
  assumes "utf16_valid ch"
  shows "ILUTF16ReadChar (ILUTF16WriteChar ch @ rest) (length (ILUTF16WriteChar ch @ rest)) 0 =
     Some (ch, length (ILUTF16WriteChar ch))"
proof (cases "ch < 0x10000")
  case True
  with assms show ?thesis
    by (simp add: ILUTF16WriteChar_def ILUTF16ReadChar_def ucast_u16_small utf16_valid_def)
next
  case False
  with assms have c: "ch - 0x10000 < 2 ^ 20" and r: "ch < 0x110000"
    using utf16_offset by (simp_all add: utf16_valid_def)
  from False r have w: "ILUTF16WriteChar ch =
      [ucast (drop_bit 10 (ch - 0x10000) + 0xD800), ucast ((ch - 0x10000 AND 0x03FF) + 0xDC00)]"
    by (simp add: ILUTF16WriteChar_def Let_def)
  show ?thesis
    unfolding w using surrogate_pair_value [OF c]
    by (simp add: ILUTF16ReadChar_def Let_def not_less not_le)
qed

definition utf16_item :: "u16 list \<Rightarrow> (u32 \<times> u16 list) option" where
  "utf16_item us = map_option (\<lambda>(ch, n). (ch, drop n us)) (ILUTF16ReadChar us (length us) 0)"

interpretation utf16_codec: nonempty_codec ILUTF16WriteChar utf16_item utf16_valid "\<lambda>_. True"
proof unfold_locales
  show "utf16_item (ILUTF16WriteChar x @ rest) = Some (x, rest)" if "utf16_valid x" for x rest
    using that by (simp add: utf16_item_def ILUTF16_roundtrip del: length_append)
  show "ILUTF16WriteChar x \<noteq> []" if "utf16_valid x" for x
    using that by (simp add: ILUTF16WriteChar_def utf16_valid_def Let_def)
qed simp

section \<open>The byte-wise UTF-16 routines\<close>

text \<open>The little-endian bytes of a string of 16-bit units.\<close>

definition unit_bytes :: "u16 \<Rightarrow> bytes" where
  "unit_bytes u = [ucast u, ucast (drop_bit 8 u)]"

abbreviation units_bytes :: "u16 list \<Rightarrow> bytes" where
  "units_bytes us \<equiv> concat (map unit_bytes us)"

lemma length_units_bytes [simp]: "length (units_bytes us) = 2 * length us"
  by (induction us) (simp_all add: unit_bytes_def)

lemma nth_units_bytes:
  "i < length us \<Longrightarrow> units_bytes us ! (2 * i) = ucast (us ! i) \<and>
    units_bytes us ! (2 * i + 1) = ucast (drop_bit 8 (us ! i))"
proof (induction us arbitrary: i)
  case (Cons u us)
  then show ?case by (cases i) (simp_all add: unit_bytes_def)
qed simp

lemma READ_UINT16_units:
  "IL_READ_UINT16 (units_bytes us) (2 * i) = at us i"
proof (cases "i < length us")
  case True
  have "(ucast (ucast (us ! i) :: u8) :: u16) OR push_bit 8 (ucast (ucast (drop_bit 8 (us ! i)) :: u8)) = us ! i"
    by (rule word16_eqI) (simp add: blast_simps)
  with True nth_units_bytes [OF True] show ?thesis
    by (simp add: IL_READ_UINT16_def at_def)
qed (simp add: IL_READ_UINT16_def at_def)

lemma ReadCharAsBytes_units:
  assumes "posn < len" and "len \<le> length us"
  shows "ILUTF16ReadCharAsBytes (units_bytes us) (2 * len) (2 * posn) =
     map_option (\<lambda>(ch, p). (ch, 2 * p)) (ILUTF16ReadChar us len posn)"
proof -
  have r: "IL_READ_UINT16 (units_bytes us) (Suc (Suc (2 * posn))) = at us (Suc posn)"
    using READ_UINT16_units [of us "Suc posn"] by simp
  show ?thesis
    using assms
    by (auto simp: ILUTF16ReadCharAsBytes_def ILUTF16ReadChar_def READ_UINT16_units r at_Some Let_def)
qed

lemma WriteCharAsBytes_units:
  "ILUTF16WriteCharAsBytes ch = units_bytes (ILUTF16WriteChar ch)"
proof -
  have "(ucast (ucast w :: u16) :: u8) = ucast w \<and>
      (ucast (drop_bit 8 (ucast w :: u16)) :: u8) = ucast (drop_bit 8 w)" for w :: u32
    by (intro conjI; rule word8_eqI) (simp_all add: blast_simps)
  then show ?thesis
    by (simp add: ILUTF16WriteCharAsBytes_def ILUTF16WriteChar_def unit_bytes_def Let_def)
qed

lemma ILUTF16ReadChar_safe:
  assumes "posn < len" and "len \<le> length str"
  shows "\<exists>ch posn'. ILUTF16ReadChar str len posn = Some (ch, posn') \<and> posn < posn' \<and> posn' \<le> len"
  using assms by (simp add: ILUTF16ReadChar_def at_Some Let_def)

lemma ILUTF16ReadCharAsBytes_safe:
  assumes "posn < len" and "len \<le> length str"
  shows "\<exists>ch posn'. ILUTF16ReadCharAsBytes str len posn = Some (ch, posn') \<and> posn < posn' \<and> posn' \<le> len"
  using assms by (simp add: ILUTF16ReadCharAsBytes_def IL_READ_UINT16_def at_Some Let_def)

section \<open>Properties\<close>

text \<open>A string of characters (any 32-bit values, NUL included) written with
  \<^verbatim>\<open>ILUTF8WriteChar\<close> is read back character by character by \<^verbatim>\<open>ILUTF8ReadChar\<close>,
  and no two strings have the same bytes; the length computed without a buffer is the
  number of bytes written.\<close>

lemma utf8_string_roundtrip:
  "decode_n utf8_item (length chs) (concat (map ILUTF8WriteChar chs) @ rest) = Some (chs, rest) \<and>
   (concat (map ILUTF8WriteChar chs) = concat (map ILUTF8WriteChar chs') \<longleftrightarrow> chs = chs') \<and>
   length (concat (map ILUTF8WriteChar chs)) = sum_list (map ILUTF8WriteChar_length chs)"
  using utf8_codec.decode_sequence [of chs rest] utf8_codec.concat_inj [of chs chs']
  by (auto simp: length_concat length_ILUTF8WriteChar comp_def)

text \<open>The three character readers are memory safe on arbitrary contents: from a position
  inside the string they succeed, advance, and never pass the given length.\<close>

lemma utf_readers_safe:
  assumes "posn < len" and "len \<le> length bs" and "len \<le> length us"
  shows "\<forall>r\<in>{ILUTF8ReadChar bs len posn, ILUTF16ReadChar us len posn, ILUTF16ReadCharAsBytes bs len posn}.
    \<exists>ch posn'. r = Some (ch, posn') \<and> posn < posn' \<and> posn' \<le> len"
  using assms ILUTF8ReadChar_safe ILUTF16ReadChar_safe ILUTF16ReadCharAsBytes_safe by simp

lemma utf_readers_safe_witness:
  "\<exists>ch posn'. ILUTF8ReadChar [0x41, 0xE2, 0x82] 3 1 = Some (ch, posn') \<and> 1 < posn' \<and> posn' \<le> 3"
  using utf_readers_safe [of 1 3 "[0x41, 0xE2, 0x82]" "[1, 2, 3]"] by simp

text \<open>Code points that are no high surrogate round-trip through UTF-16, as units and as
  little-endian bytes: the byte-wise writer stores the bytes of the units, the byte-wise
  reader at an even offset reads what the unit reader reads at half of it.\<close>

lemma utf16_roundtrip_and_bytes:
  assumes "\<forall>ch\<in>set chs. utf16_valid ch" and "posn < len" and "len \<le> length us"
  shows "decode_n utf16_item (length chs) (concat (map ILUTF16WriteChar chs) @ rest) = Some (chs, rest) \<and>
    ILUTF16WriteCharAsBytes ch = units_bytes (ILUTF16WriteChar ch) \<and>
    ILUTF16ReadCharAsBytes (units_bytes us) (2 * len) (2 * posn) =
      map_option (\<lambda>(ch, p). (ch, 2 * p)) (ILUTF16ReadChar us len posn)"
  using assms utf16_codec.decode_sequence [of chs rest] WriteCharAsBytes_units ReadCharAsBytes_units
  by simp

lemma utf16_roundtrip_and_bytes_witness:
  "decode_n utf16_item 2 (concat (map ILUTF16WriteChar [0x1F600, 0xDC00]) @ []) = Some ([0x1F600, 0xDC00], [])"
  using utf16_roundtrip_and_bytes [of "[0x1F600, 0xDC00]" 0 1 "[0x41]" "[]" 0]
  by (simp add: utf16_valid_def flip: numeral_2_eq_2 del: concat.simps)

end
