(* ===== verification/HashTable.thy ===== *)
theory HashTable
  imports "HOL-Library.Multiset" "HOL-Library.Monad_Syntax" Prelude
begin

text \<open>
  The hash table of \<^verbatim>\<open>support/hashtab.c\<close>: a main table of entries, each with a chain of
  overflow entries, which are taken from blocks that are allocated as needed and never
  returned before the table is destroyed.

  Elements are addresses, 0 being the null pointer that marks an empty entry.  A pointer to
  an entry is a reference into the main table or into an overflow block.  The entries of a
  fresh block are not initialised (\<^term>\<open>None\<close>).  A read or write outside the allocated
  entries, or of a field that was never written, gives \<^term>\<open>None\<close>.  The loops over chains are
  partial functions: that they end is proved, not assumed.  The compute, match and free
  functions of the client are fields of the table, as in the source; calls of the free
  function are recorded in a log.
\<close>

section \<open>Data\<close>

datatype entry_ref = Tab nat | Ovf nat nat

record hash_entry =
  elem :: nat
  overflow :: "entry_ref option"

record hash_overflow =
  next_block :: "nat option"
  entries :: "hash_entry option list"

record 'k hash_table =
  hsize :: nat
  computeFunc :: "nat \<Rightarrow> nat"
  keyComputeFunc :: "'k \<Rightarrow> nat"
  matchFunc :: "nat \<Rightarrow> 'k \<Rightarrow> bool"
  freeFunc :: bool
  overflow_head :: "nat option"
  overflowPosn :: nat
  blocks :: "hash_overflow list"
  table :: "hash_entry list"
  freed :: "nat list"

fun get_entry :: "'k hash_table \<Rightarrow> entry_ref \<Rightarrow> hash_entry option" where
  "get_entry h (Tab i) = (if i < length (table h) then Some (table h ! i) else None)"
| "get_entry h (Ovf b k) =
     (if b < length (blocks h) \<and> k < length (entries (blocks h ! b)) then entries (blocks h ! b) ! k else None)"

fun put_entry :: "'k hash_table \<Rightarrow> entry_ref \<Rightarrow> hash_entry \<Rightarrow> 'k hash_table option" where
  "put_entry h (Tab i) e = (if i < length (table h) then Some (h\<lparr>table := (table h)[i := e]\<rparr>) else None)"
| "put_entry h (Ovf b k) e =
     (if b < length (blocks h) \<and> k < length (entries (blocks h ! b))
      then Some (h\<lparr>blocks := (blocks h)[b := (blocks h ! b)\<lparr>entries := (entries (blocks h ! b))[k := Some e]\<rparr>]\<rparr>)
      else None)"

definition call_freeFunc :: "bool \<Rightarrow> nat \<Rightarrow> 'k hash_table \<Rightarrow> 'k hash_table" where
  "call_freeFunc freeElem e h = (if freeElem \<and> freeFunc h then h\<lparr>freed := freed h @ [e]\<rparr> else h)"

section \<open>Operations\<close>

definition ILHashCreate :: "nat \<Rightarrow> (nat \<Rightarrow> nat) \<Rightarrow> ('k \<Rightarrow> nat) \<Rightarrow> (nat \<Rightarrow> 'k \<Rightarrow> bool) \<Rightarrow> bool \<Rightarrow> bool \<Rightarrow>
    'k hash_table option" where
  "ILHashCreate size0 compute keyCompute match free calloc_ok =
     (let size = (if size0 = 0 then 509 else size0)
      in if \<not> calloc_ok then None
         else Some \<lparr>hsize = size, computeFunc = compute, keyComputeFunc = keyCompute, matchFunc = match,
                    freeFunc = free, overflow_head = None, overflowPosn = size, blocks = [],
                    table = replicate size \<lparr>elem = 0, overflow = None\<rparr>, freed = []\<rparr>)"

text \<open>The reference of a new overflow entry, or null when there is no memory for a block.\<close>

definition new_entry :: "bool \<Rightarrow> 'k hash_table \<Rightarrow> (entry_ref \<times> 'k hash_table) option option" where
  "new_entry malloc_ok h =
     (if overflowPosn h < hsize h then do {
        b \<leftarrow> overflow_head h;
        Some (Some (Ovf b (overflowPosn h), h\<lparr>overflowPosn := overflowPosn h + 1\<rparr>))
      }
      else if \<not> malloc_ok then Some None
      else Some (Some (Ovf (length (blocks h)) 0,
        h\<lparr>blocks := blocks h @ [\<lparr>next_block = overflow_head h, entries = replicate (hsize h) None\<rparr>],
          overflow_head := Some (length (blocks h)), overflowPosn := 1\<rparr>)))"

definition ILHashAdd :: "bool \<Rightarrow> nat \<Rightarrow> 'k hash_table \<Rightarrow> (int \<times> 'k hash_table) option" where
  "ILHashAdd malloc_ok e h = do {
     let hash = computeFunc h e mod hsize h;
     main \<leftarrow> get_entry h (Tab hash);
     if elem main = 0 then do {
       h \<leftarrow> put_entry h (Tab hash) (main\<lparr>elem := e\<rparr>);
       Some (1, h)
     }
     else do {
       new \<leftarrow> new_entry malloc_ok h;
       case new of
         None \<Rightarrow> Some (0, h)
       | Some (r, h) \<Rightarrow> do {
           main \<leftarrow> get_entry h (Tab hash);
           h \<leftarrow> put_entry h r \<lparr>elem = e, overflow = overflow main\<rparr>;
           main \<leftarrow> get_entry h (Tab hash);
           h \<leftarrow> put_entry h (Tab hash) (main\<lparr>overflow := Some r\<rparr>);
           Some (1, h)
         }
     }
   }"

partial_function (option) find_loop :: "'k hash_table \<Rightarrow> (nat \<Rightarrow> bool) \<Rightarrow> entry_ref option \<Rightarrow> nat option" where
  "find_loop h match p =
     (case p of
        None \<Rightarrow> Some 0
      | Some r \<Rightarrow> do {
          e \<leftarrow> get_entry h r;
          if elem e \<noteq> 0 \<and> match (elem e) then Some (elem e) else find_loop h match (overflow e)
        })"

definition ILHashFind :: "'k hash_table \<Rightarrow> 'k \<Rightarrow> nat option" where
  "ILHashFind h key =
     (let hash = keyComputeFunc h key mod hsize h
      in find_loop h (\<lambda>e. matchFunc h e key) (Some (Tab hash)))"

definition ILHashFindAlt :: "'k hash_table \<Rightarrow> 'j \<Rightarrow> ('j \<Rightarrow> nat) \<Rightarrow> (nat \<Rightarrow> 'j \<Rightarrow> bool) \<Rightarrow> nat option" where
  "ILHashFindAlt h key keyCompute match =
     (let hash = keyCompute key mod hsize h
      in find_loop h (\<lambda>e. match e key) (Some (Tab hash)))"

partial_function (option) remove_loop ::
    "'k hash_table \<Rightarrow> nat \<Rightarrow> bool \<Rightarrow> entry_ref option \<Rightarrow> 'k hash_table option" where
  "remove_loop h e0 freeElem p =
     (case p of
        None \<Rightarrow> Some h
      | Some r \<Rightarrow> do {
          e \<leftarrow> get_entry h r;
          if elem e = e0 then put_entry (call_freeFunc freeElem (elem e) h) r (e\<lparr>elem := 0\<rparr>)
          else remove_loop h e0 freeElem (overflow e)
        })"

definition ILHashRemove :: "nat \<Rightarrow> bool \<Rightarrow> 'k hash_table \<Rightarrow> 'k hash_table option" where
  "ILHashRemove e freeElem h =
     (let hash = computeFunc h e mod hsize h
      in remove_loop h e freeElem (Some (Tab hash)))"

partial_function (option) subset_loop ::
    "'k hash_table \<Rightarrow> (nat \<Rightarrow> bool) \<Rightarrow> bool \<Rightarrow> entry_ref option \<Rightarrow> 'k hash_table option" where
  "subset_loop h match freeElem p =
     (case p of
        None \<Rightarrow> Some h
      | Some r \<Rightarrow> do {
          e \<leftarrow> get_entry h r;
          h \<leftarrow> (if elem e \<noteq> 0 \<and> match (elem e)
                then put_entry (call_freeFunc freeElem (elem e) h) r (e\<lparr>elem := 0\<rparr>)
                else Some h);
          e \<leftarrow> get_entry h r;
          subset_loop h match freeElem (overflow e)
        })"

fun for_buckets :: "('s \<Rightarrow> nat \<Rightarrow> 's option) \<Rightarrow> 's \<Rightarrow> nat list \<Rightarrow> 's option" where
  "for_buckets body s [] = Some s"
| "for_buckets body s (i # is) = do { s \<leftarrow> body s i; for_buckets body s is }"

definition ILHashRemoveSubset :: "(nat \<Rightarrow> 'j \<Rightarrow> bool) \<Rightarrow> 'j \<Rightarrow> bool \<Rightarrow> 'k hash_table \<Rightarrow> 'k hash_table option" where
  "ILHashRemoveSubset match key freeElem h =
     for_buckets (\<lambda>h i. subset_loop h (\<lambda>e. match e key) freeElem (Some (Tab i))) h [0..<hsize h]"

text \<open>Destruction returns the log of the free function, the blocks it frees in order, and
  frees the table itself last.\<close>

partial_function (option) destroy_loop :: "'k hash_table \<Rightarrow> entry_ref option \<Rightarrow> nat list \<Rightarrow> nat list option" where
  "destroy_loop h p log =
     (case p of
        None \<Rightarrow> Some log
      | Some r \<Rightarrow> do {
          e \<leftarrow> get_entry h r;
          destroy_loop h (overflow e) (if elem e \<noteq> 0 then log @ [elem e] else log)
        })"

partial_function (option) free_blocks :: "hash_overflow list \<Rightarrow> nat option \<Rightarrow> nat list \<Rightarrow> nat list option" where
  "free_blocks bs p done =
     (case p of
        None \<Rightarrow> Some done
      | Some b \<Rightarrow> if b < length bs \<and> b \<notin> set done then free_blocks bs (next_block (bs ! b)) (done @ [b]) else None)"

definition ILHashDestroy :: "'k hash_table \<Rightarrow> (nat list \<times> nat list) option" where
  "ILHashDestroy h = do {
     log \<leftarrow> (if freeFunc h
             then for_buckets (\<lambda>log i. destroy_loop h (Some (Tab i)) log) (freed h) [0..<hsize h]
             else Some (freed h));
     bs \<leftarrow> free_blocks (blocks h) (overflow_head h) [];
     Some (log, bs)
   }"

record hash_iter =
  index :: int
  iter_entry :: "entry_ref option"

definition ILHashIterInit :: hash_iter where
  "ILHashIterInit = \<lparr>index = -1, iter_entry = None\<rparr>"

partial_function (option) skip_empty :: "'k hash_table \<Rightarrow> entry_ref option \<Rightarrow> entry_ref option option" where
  "skip_empty h p =
     (case p of
        None \<Rightarrow> Some None
      | Some r \<Rightarrow> do { e \<leftarrow> get_entry h r; if elem e = 0 then skip_empty h (overflow e) else Some (Some r) })"

partial_function (option) ILHashIterNext :: "'k hash_table \<Rightarrow> hash_iter \<Rightarrow> (nat \<times> hash_iter) option" where
  "ILHashIterNext h iter =
     (let iter = (if iter_entry iter = None then iter\<lparr>index := index iter + 1\<rparr> else iter)
      in if iter_entry iter = None \<and> index iter \<ge> int (hsize h) then Some (0, iter)
         else do {
           p \<leftarrow> skip_empty h (if iter_entry iter = None then Some (Tab (nat (index iter))) else iter_entry iter);
           case p of
             None \<Rightarrow> ILHashIterNext h (iter\<lparr>iter_entry := None\<rparr>)
           | Some r \<Rightarrow> do { e \<leftarrow> get_entry h r; Some (elem e, iter\<lparr>iter_entry := overflow e\<rparr>) }
         })"

section \<open>Chains\<close>

lemma get_put:
  "put_entry h r e = Some h' \<Longrightarrow> get_entry h' q = (if q = r then Some e else get_entry h q)"
  by (cases r; cases q) (auto simp: nth_list_update split: if_splits)

lemma put_defined: "get_entry h r = Some e' \<Longrightarrow> \<exists>h'. put_entry h r e = Some h'"
  by (cases r) (auto split: if_splits)

lemma put_keeps:
  assumes "put_entry h r e = Some h'"
  shows "hsize h' = hsize h" "computeFunc h' = computeFunc h" "keyComputeFunc h' = keyComputeFunc h"
    "matchFunc h' = matchFunc h" "freeFunc h' = freeFunc h" "overflow_head h' = overflow_head h"
    "overflowPosn h' = overflowPosn h" "length (table h') = length (table h)" "freed h' = freed h"
    "length (blocks h') = length (blocks h)"
    "b < length (blocks h) \<Longrightarrow> next_block (blocks h' ! b) = next_block (blocks h ! b)"
    "b < length (blocks h) \<Longrightarrow> length (entries (blocks h' ! b)) = length (entries (blocks h ! b))"
  using assms by (cases r; auto simp: nth_list_update split: if_splits)+

lemma get_call_freeFunc [simp]: "get_entry (call_freeFunc f e h) r = get_entry h r"
  by (cases r) (auto simp: call_freeFunc_def)

lemma call_freeFunc_keeps [simp]:
  "hsize (call_freeFunc f e h) = hsize h" "computeFunc (call_freeFunc f e h) = computeFunc h"
  "keyComputeFunc (call_freeFunc f e h) = keyComputeFunc h" "matchFunc (call_freeFunc f e h) = matchFunc h"
  "freeFunc (call_freeFunc f e h) = freeFunc h" "overflow_head (call_freeFunc f e h) = overflow_head h"
  "overflowPosn (call_freeFunc f e h) = overflowPosn h" "blocks (call_freeFunc f e h) = blocks h"
  "table (call_freeFunc f e h) = table h"
  by (simp_all add: call_freeFunc_def)

text \<open>\<open>chain h p rs\<close>: following \<^verbatim>\<open>overflow\<close> from \<open>p\<close> visits the entries \<open>rs\<close> and ends.\<close>

fun chain :: "'k hash_table \<Rightarrow> entry_ref option \<Rightarrow> entry_ref list \<Rightarrow> bool" where
  "chain h p [] \<longleftrightarrow> p = None"
| "chain h p (r # rs) \<longleftrightarrow> p = Some r \<and> (case get_entry h r of None \<Rightarrow> False | Some e \<Rightarrow> chain h (overflow e) rs)"

definition value_at :: "'k hash_table \<Rightarrow> entry_ref \<Rightarrow> nat" where
  "value_at h r = elem (the (get_entry h r))"

lemma chain_defined: "chain h p rs \<Longrightarrow> r \<in> set rs \<Longrightarrow> \<exists>e. get_entry h r = Some e"
  by (induction rs arbitrary: p) (auto split: option.splits)

lemma chain_cong:
  "chain h p rs \<Longrightarrow> (\<And>r. r \<in> set rs \<Longrightarrow> map_option overflow (get_entry h' r) = map_option overflow (get_entry h r)) \<Longrightarrow>
    chain h' p rs"
proof (induction rs arbitrary: p)
  case (Cons r rs)
  then obtain e e' where "get_entry h r = Some e" "get_entry h' r = Some e'" "overflow e' = overflow e"
    by (force split: option.splits)
  with Cons show ?case by simp
qed simp

lemma put_elem_chain:
  assumes "put_entry h r (e\<lparr>elem := v\<rparr>) = Some h'" and "get_entry h r = Some e" and "chain h p rs"
  shows "chain h' p rs"
  using assms(3) by (rule chain_cong) (simp add: get_put [OF assms(1)] assms(2))

lemma chain_call_freeFunc [simp]: "chain (call_freeFunc f e h) p rs = chain h p rs"
  by (induction rs arbitrary: p) (auto split: option.splits)

lemma value_call_freeFunc [simp]: "value_at (call_freeFunc f e h) r = value_at h r"
  by (simp add: value_at_def)

lemma value_put: "put_entry h r e = Some h' \<Longrightarrow> value_at h' q = (if q = r then elem e else value_at h q)"
  by (simp add: value_at_def get_put)

section \<open>What the loops do on a chain\<close>

lemma find_SomeD: "find P xs = Some v \<Longrightarrow> v \<in> set xs \<and> P v"
  by (induction xs) (auto split: if_splits)

lemma find_loop_chain:
  "chain h p rs \<Longrightarrow> find_loop h m p =
     Some (case find (\<lambda>v. v \<noteq> 0 \<and> m v) (map (value_at h) rs) of None \<Rightarrow> 0 | Some v \<Rightarrow> v)"
  by (induction rs arbitrary: p; subst find_loop.simps) (auto simp: value_at_def split: option.splits)

lemma remove_loop_absent:
  "chain h p rs \<Longrightarrow> e0 \<notin> set (map (value_at h) rs) \<Longrightarrow> remove_loop h e0 f p = Some h"
  by (induction rs arbitrary: p; subst remove_loop.simps) (auto simp: value_at_def split: option.splits)

lemma remove_loop_present:
  assumes "chain h p rs" and "e0 \<in> set (map (value_at h) rs)"
  obtains r e h' where "r \<in> set rs" and "get_entry h r = Some e" and "elem e = e0"
    and "put_entry (call_freeFunc f e0 h) r (e\<lparr>elem := 0\<rparr>) = Some h'" and "remove_loop h e0 f p = Some h'"
  using assms
proof (induction rs arbitrary: p thesis)
  case (Cons r rs)
  then obtain e where e: "p = Some r" "get_entry h r = Some e" "chain h (overflow e) rs"
    by (auto split: option.splits)
  show ?case
  proof (cases "elem e = e0")
    case True
    obtain h' where "put_entry (call_freeFunc f e0 h) r (e\<lparr>elem := 0\<rparr>) = Some h'"
      using put_defined [of "call_freeFunc f e0 h" r e "e\<lparr>elem := 0\<rparr>"] e(2) by auto
    with True e show ?thesis by (intro Cons.prems(1) [of r e h']) (simp_all add: remove_loop.simps)
  next
    case False
    with Cons.prems(3) e have "e0 \<in> set (map (value_at h) rs)" by (auto simp: value_at_def)
    from Cons.IH [OF _ e(3) this] obtain r' e' h' where "r' \<in> set rs" "get_entry h r' = Some e'" "elem e' = e0"
      "put_entry (call_freeFunc f e0 h) r' (e'\<lparr>elem := 0\<rparr>) = Some h'" "remove_loop h e0 f (overflow e) = Some h'"
      by blast
    with False e show ?thesis by (intro Cons.prems(1) [of r' e' h']) (simp_all add: remove_loop.simps)
  qed
qed simp

lemma destroy_loop_chain:
  "chain h p rs \<Longrightarrow> destroy_loop h p log = Some (log @ filter (\<lambda>v. v \<noteq> 0) (map (value_at h) rs))"
  by (induction rs arbitrary: p log; subst destroy_loop.simps) (auto simp: value_at_def split: option.splits)

lemma skip_empty_chain:
  "chain h p rs \<Longrightarrow> skip_empty h p = Some (find (\<lambda>r. value_at h r \<noteq> 0) rs)"
  by (induction rs arbitrary: p; subst skip_empty.simps) (auto simp: value_at_def split: option.splits)

section \<open>The invariant and the contents\<close>

text \<open>The overflow entries that have been handed out.\<close>

definition allocated :: "'k hash_table \<Rightarrow> entry_ref set" where
  "allocated h = {Ovf b k |b k. b < length (blocks h) \<and> k < (if Suc b = length (blocks h) then overflowPosn h else hsize h)}"

definition blocks_ok :: "'k hash_table \<Rightarrow> bool" where
  "blocks_ok h \<longleftrightarrow> overflowPosn h \<le> hsize h \<and>
     overflow_head h = (if blocks h = [] then None else Some (length (blocks h) - 1)) \<and>
     (blocks h = [] \<longrightarrow> overflowPosn h = hsize h) \<and>
     (\<forall>b < length (blocks h). length (entries (blocks h ! b)) = hsize h \<and>
        next_block (blocks h ! b) = (if b = 0 then None else Some (b - 1)))"

text \<open>All entries of the table, bucket by bucket; \<open>cs ! i\<close> is the overflow chain of bucket \<open>i\<close>.\<close>

definition refs :: "entry_ref list list \<Rightarrow> entry_ref list" where
  "refs cs = concat (map (\<lambda>i. Tab i # cs ! i) [0..<length cs])"

definition elements :: "'k hash_table \<Rightarrow> entry_ref list list \<Rightarrow> nat list" where
  "elements h cs = filter (\<lambda>v. v \<noteq> 0) (map (value_at h) (refs cs))"

definition hash_inv :: "'k hash_table \<Rightarrow> entry_ref list list \<Rightarrow> bool" where
  "hash_inv h cs \<longleftrightarrow> 0 < hsize h \<and> length (table h) = hsize h \<and> length cs = hsize h \<and> blocks_ok h \<and>
     (\<forall>i < hsize h. chain h (Some (Tab i)) (Tab i # cs ! i) \<and> set (cs ! i) \<subseteq> allocated h \<and>
        (\<forall>r \<in> set (Tab i # cs ! i). value_at h r \<noteq> 0 \<longrightarrow> computeFunc h (value_at h r) mod hsize h = i)) \<and>
     distinct (refs cs)"

definition represents :: "'k hash_table \<Rightarrow> nat multiset \<Rightarrow> bool" where
  "represents h B \<longleftrightarrow> (\<exists>cs. hash_inv h cs \<and> B = mset (elements h cs))"

lemma bucket_refs: "i < length cs \<Longrightarrow> set (Tab i # cs ! i) \<subseteq> set (refs cs)"
  by (auto simp: refs_def)

lemma refs_bucket: "r \<in> set (refs cs) \<Longrightarrow> \<exists>i < length cs. r \<in> set (Tab i # cs ! i)"
  by (auto simp: refs_def)

lemma upt_split_at: "i < n \<Longrightarrow> [0..<n] = [0..<i] @ i # [Suc i..<n]"
  using upt_add_eq_append [of 0 i "n - i"] upt_conv_Cons [of i n] by simp

lemma refs_split:
  assumes "i < length cs"
  obtains xs ys where "\<And>c. refs (cs[i := c]) = xs @ (Tab i # c) @ ys"
proof -
  let ?f = "\<lambda>i. Tab i # cs ! i"
  have "map (\<lambda>j. Tab j # cs[i := c] ! j) [0..<i] = map ?f [0..<i]"
    "map (\<lambda>j. Tab j # cs[i := c] ! j) [Suc i..<length cs] = map ?f [Suc i..<length cs]" for c
    by (simp_all add: nth_list_update)
  then have "refs (cs[i := c]) = concat (map ?f [0..<i]) @ (Tab i # c) @ concat (map ?f [Suc i..<length cs])" for c
    using assms by (simp add: refs_def upt_split_at [of i "length cs"] del: map_eq_conv)
  then show thesis by (rule that)
qed

lemma elements_update:
  assumes "put_entry h r e = Some h'" and "r \<in> set (refs cs)" and "distinct (refs cs)"
  shows "mset (elements h' cs) + filter_mset (\<lambda>v. v \<noteq> 0) {#value_at h r#} =
    mset (elements h cs) + filter_mset (\<lambda>v. v \<noteq> 0) {#elem e#}"
proof -
  obtain xs ys where x: "refs cs = xs @ r # ys" using split_list [OF assms(2)] by blast
  with assms(3) have "map (value_at h') xs = map (value_at h) xs" "map (value_at h') ys = map (value_at h) ys"
    by (auto simp: value_put [OF assms(1)])
  then have e: "elements h' cs = filter (\<lambda>v. v \<noteq> 0) (map (value_at h) xs @ value_at h' r # map (value_at h) ys)"
    by (simp only: elements_def x map_append list.map)
  show ?thesis unfolding e by (simp add: elements_def x value_put [OF assms(1)])
qed

lemma inv_chain:
  assumes "hash_inv h cs" and "i < hsize h"
  shows "chain h (Some (Tab i)) (Tab i # cs ! i)"
  using assms unfolding hash_inv_def by blast

text \<open>An element sits in the bucket of its hash code.\<close>

lemma element_bucket:
  assumes "hash_inv h cs" and "e \<in> set (elements h cs)" and "i < hsize h"
  shows "e \<in> set (map (value_at h) (Tab i # cs ! i)) \<longleftrightarrow> i = computeFunc h e mod hsize h"
proof -
  from assms obtain j r where j: "j < hsize h" "r \<in> set (Tab j # cs ! j)" "value_at h r = e" "e \<noteq> 0"
    by (auto simp: elements_def hash_inv_def dest!: refs_bucket)
  then have "computeFunc h e mod hsize h = j" using assms(1) unfolding hash_inv_def by blast
  moreover have "e \<in> set (map (value_at h) (Tab j # cs ! j))" using j(2,3) by auto
  moreover have "computeFunc h e mod hsize h = i" if e: "e \<in> set (map (value_at h) (Tab i # cs ! i))"
  proof -
    from e obtain q where "q \<in> set (Tab i # cs ! i)" "value_at h q = e" by auto
    with j(4) show ?thesis using assms(1,3) unfolding hash_inv_def by blast
  qed
  ultimately show ?thesis by blast
qed

lemma bucket_elements:
  assumes "hash_inv h cs" and "i < hsize h" and "v \<in> set (map (value_at h) (Tab i # cs ! i))" and "v \<noteq> 0"
  shows "v \<in> set (elements h cs)"
proof -
  have "i < length cs" using assms(1,2) by (simp add: hash_inv_def)
  then show ?thesis using assms(3,4) bucket_refs by (fastforce simp: elements_def)
qed

lemma inv_call_freeFunc [simp]: "hash_inv (call_freeFunc f x h) cs = hash_inv h cs"
  "elements (call_freeFunc f x h) cs = elements h cs"
  by (simp_all add: hash_inv_def elements_def blocks_ok_def allocated_def del: chain.simps cong: map_cong)

lemma put_blocks:
  assumes "put_entry h r e = Some h'"
  shows "blocks_ok h' = blocks_ok h" and "allocated h' = allocated h"
proof -
  have "blocks h' = [] \<longleftrightarrow> blocks h = []" using put_keeps(10) [OF assms] by (metis length_0_conv)
  then show "blocks_ok h' = blocks_ok h" "allocated h' = allocated h"
    using put_keeps [OF assms] by (simp_all add: blocks_ok_def allocated_def)
qed

lemma bucket_unique:
  assumes "distinct (refs cs)" and "i < length cs" and "j < length cs"
    and "r \<in> set (Tab i # cs ! i)" and "r \<in> set (Tab j # cs ! j)"
  shows "i = j"
proof (rule ccontr)
  assume "i \<noteq> j"
  then have "Tab i # cs ! i \<noteq> Tab j # cs ! j" by simp
  moreover have "Tab i # cs ! i \<in> set (map (\<lambda>i. Tab i # cs ! i) [0..<length cs])"
    "Tab j # cs ! j \<in> set (map (\<lambda>i. Tab i # cs ! i) [0..<length cs])"
    using assms(2,3) by auto
  ultimately have "set (Tab i # cs ! i) \<inter> set (Tab j # cs ! j) = {}"
    using assms(1) unfolding refs_def distinct_concat_iff by blast
  with assms(4,5) show False by blast
qed

lemma invD:
  assumes "hash_inv h cs"
  shows "0 < hsize h" "length (table h) = hsize h" "length cs = hsize h" "blocks_ok h" "distinct (refs cs)"
    and "i < hsize h \<Longrightarrow> set (cs ! i) \<subseteq> allocated h"
    and "i < hsize h \<Longrightarrow> r \<in> set (Tab i # cs ! i) \<Longrightarrow> value_at h r \<noteq> 0 \<Longrightarrow> computeFunc h (value_at h r) mod hsize h = i"
  using assms unfolding hash_inv_def by blast+

text \<open>Changing the element of an entry keeps the structure.\<close>

lemma put_elem_inv:
  assumes inv: "hash_inv h cs" and i: "i < hsize h" "r \<in> set (Tab i # cs ! i)" and e: "get_entry h r = Some e"
    and put: "put_entry h r (e\<lparr>elem := v\<rparr>) = Some h'" and v: "v \<noteq> 0 \<longrightarrow> computeFunc h v mod hsize h = i"
  shows "hash_inv h' cs"
    and "mset (elements h' cs) + filter_mset (\<lambda>v. v \<noteq> 0) {#elem e#} = mset (elements h cs) + filter_mset (\<lambda>v. v \<noteq> 0) {#v#}"
proof -
  have r: "r \<in> set (refs cs)" "distinct (refs cs)"
    using i bucket_refs [of i cs] invD(3,5) [OF inv] by auto
  from elements_update [OF put r]
  show "mset (elements h' cs) + filter_mset (\<lambda>v. v \<noteq> 0) {#elem e#} = mset (elements h cs) + filter_mset (\<lambda>v. v \<noteq> 0) {#v#}"
    using e by (simp add: value_at_def)
  have hash: "computeFunc h (value_at h' q) mod hsize h = j"
    if "j < hsize h" "q \<in> set (Tab j # cs ! j)" "value_at h' q \<noteq> 0" for j q
  proof (cases "q = r")
    case True
    have "i = j" using bucket_unique [OF r(2)] i that(1,2) True invD(3) [OF inv] by metis
    with True that v show ?thesis by (simp add: value_put [OF put])
  next
    case False
    with that show ?thesis using invD(7) [OF inv that(1,2)] by (simp add: value_put [OF put])
  qed
  show "hash_inv h' cs"
    using inv hash put_keeps [OF put] put_blocks [OF put] put_elem_chain [OF put e]
    unfolding hash_inv_def by (simp del: chain.simps list.set)
qed

section \<open>Creation and addition\<close>

lemma create_inv:
  assumes "ILHashCreate n compute keyCompute match free True = Some h"
  shows "hash_inv h (replicate (hsize h) []) \<and> elements h (replicate (hsize h) []) = []"
proof -
  define m where "m = (if n = 0 then 509 else n)"
  have h: "hsize h = m" "table h = replicate m \<lparr>elem = 0, overflow = None\<rparr>" "blocks h = []" "overflow_head h = None"
    "overflowPosn h = m" "0 < m"
    using assms by (auto simp: ILHashCreate_def Let_def m_def)
  have "map (\<lambda>i. Tab i # replicate m [] ! i) [0..<m] = map (\<lambda>i. [Tab i]) [0..<m]" by simp
  then have r: "refs (replicate m []) = map Tab [0..<m]"
    by (simp only: refs_def length_replicate concat_map_singleton)
  have v: "value_at h (Tab i) = 0" if "i < m" for i
    using h that by (simp add: value_at_def)
  have "distinct (map Tab [0..<m])" by (simp add: distinct_map inj_on_def)
  then show ?thesis using h r v by (simp add: hash_inv_def elements_def blocks_ok_def filter_empty_conv)
qed

lemma new_entry_cases:
  assumes "hash_inv h cs"
  obtains (full) "\<not> malloc_ok" and "new_entry malloc_ok h = Some None"
  | (new) r h1 where "new_entry malloc_ok h = Some (Some (r, h1))" and "r \<notin> allocated h" and "r \<notin> range Tab"
      and "r \<in> allocated h1" and "allocated h \<subseteq> allocated h1" and "blocks_ok h1"
      and "\<And>q. q \<in> allocated h \<union> range Tab \<Longrightarrow> get_entry h1 q = get_entry h q"
      and "\<And>e. \<exists>h2. put_entry h1 r e = Some h2"
      and "hsize h1 = hsize h" "table h1 = table h" "computeFunc h1 = computeFunc h"
      "keyComputeFunc h1 = keyComputeFunc h" "matchFunc h1 = matchFunc h" "freeFunc h1 = freeFunc h" "freed h1 = freed h"
proof -
  note ok = invD(4) [OF assms, unfolded blocks_ok_def]
  consider "overflowPosn h < hsize h" | "\<not> overflowPosn h < hsize h" "malloc_ok"
    | "\<not> overflowPosn h < hsize h" "\<not> malloc_ok" by blast
  then show thesis
  proof cases
    case 1
    with ok have "blocks h \<noteq> []" by auto
    with 1 ok show ?thesis
      by (intro new [of "Ovf (length (blocks h) - 1) (overflowPosn h)" "h\<lparr>overflowPosn := overflowPosn h + 1\<rparr>"])
        (auto simp: new_entry_def allocated_def blocks_ok_def split: if_splits)
  next
    case 2
    then show ?thesis
      using ok invD(1) [OF assms]
      by (intro new [of "Ovf (length (blocks h)) 0"
            "h\<lparr>blocks := blocks h @ [\<lparr>next_block = overflow_head h, entries = replicate (hsize h) None\<rparr>],
               overflow_head := Some (length (blocks h)), overflowPosn := 1\<rparr>"])
        (auto simp: new_entry_def allocated_def blocks_ok_def nth_append less_Suc_eq split: if_splits)
  next
    case 3
    then show ?thesis by (intro full) (simp_all add: new_entry_def)
  qed
qed

lemma refs_insert:
  assumes "i < length cs" and "distinct (refs cs)" and "r \<notin> set (refs cs)"
  shows "distinct (refs (cs[i := r # cs ! i]))" and "mset (refs (cs[i := r # cs ! i])) = add_mset r (mset (refs cs))"
proof -
  obtain xs ys where x: "\<And>c. refs (cs[i := c]) = xs @ (Tab i # c) @ ys" using refs_split [OF assms(1)] by metis
  from x [of "cs ! i"] have "refs cs = xs @ (Tab i # cs ! i) @ ys" by simp
  with assms(2,3) show "distinct (refs (cs[i := r # cs ! i]))"
    "mset (refs (cs[i := r # cs ! i])) = add_mset r (mset (refs cs))"
    by (auto simp: x)
qed

lemma add_overflow:
  assumes inv: "hash_inv h cs" and i: "i < hsize h" and main: "get_entry h (Tab i) = Some main"
    and r: "r \<notin> allocated h" "r \<notin> range Tab" "r \<in> allocated h1" "allocated h \<subseteq> allocated h1" "blocks_ok h1"
      "\<And>q. q \<in> allocated h \<union> range Tab \<Longrightarrow> get_entry h1 q = get_entry h q"
    and eq: "hsize h1 = hsize h" "table h1 = table h" "computeFunc h1 = computeFunc h"
    and put1: "put_entry h1 r \<lparr>elem = e, overflow = overflow main\<rparr> = Some h2"
    and put2: "put_entry h2 (Tab i) (main\<lparr>overflow := Some r\<rparr>) = Some h3"
    and e: "e \<noteq> 0" "computeFunc h e mod hsize h = i"
  shows "hash_inv h3 (cs[i := r # cs ! i]) \<and> mset (elements h3 (cs[i := r # cs ! i])) = add_mset e (mset (elements h cs))"
proof -
  let ?cs = "cs[i := r # cs ! i]"
  have old: "q \<in> allocated h \<union> range Tab \<and> q \<noteq> r" if "q \<in> set (Tab j # cs ! j)" "j < hsize h" for q j
    using that r(1,2) invD(6) [OF inv that(2)] by auto
  have get: "get_entry h3 q = (if q = Tab i then Some (main\<lparr>overflow := Some r\<rparr>)
      else if q = r then Some \<lparr>elem = e, overflow = overflow main\<rparr> else get_entry h1 q)" for q
    using get_put [OF put1, of q] get_put [OF put2, of q] by simp
  have val: "value_at h3 q = value_at h q" if "q \<in> set (Tab j # cs ! j)" "j < hsize h" for q j
    using old [OF that] r(6) main by (auto simp: value_at_def get)
  have valr: "value_at h3 r = e" using r(2) by (auto simp: value_at_def get)
  have rest: "chain h3 p rs" if "chain h p rs" "\<And>q. q \<in> set rs \<Longrightarrow> q \<in> allocated h \<union> range Tab \<and> q \<noteq> Tab i" for p rs
    using that(1)
  proof (rule chain_cong)
    fix q assume "q \<in> set rs"
    with that(2) r(1,2) show "map_option overflow (get_entry h3 q) = map_option overflow (get_entry h q)"
      using r(6) by (auto simp: get)
  qed
  have tab: "Tab i \<notin> set (cs ! j)" if "j < hsize h" for i j
    using invD(6) [OF inv that] by (auto simp: allocated_def)
  have ch: "chain h3 (Some (Tab j)) (Tab j # ?cs ! j)" if j: "j < hsize h" for j
  proof (cases "j = i")
    case True
    have "chain h (overflow main) (cs ! i)" using inv_chain [OF inv i] main by simp
    then have "chain h3 (overflow main) (cs ! i)"
      using rest [of "overflow main" "cs ! i"] old [of _ i] i tab by fastforce
    moreover have "r \<noteq> Tab i" using r(2) by auto
    ultimately show ?thesis using True i invD(3) [OF inv] by (simp add: get del: get_entry.simps)
  next
    case False
    then show ?thesis using rest [OF inv_chain [OF inv j]] old [OF _ j] tab [OF j] by fastforce
  qed
  have fresh: "r \<notin> set (refs cs)" using old refs_bucket [of r cs] invD(3) [OF inv] by metis
  note ins = refs_insert [OF _ invD(5) [OF inv] fresh, of i]
  have "allocated h3 = allocated h1" "blocks_ok h3"
    using put_blocks [OF put1] put_blocks [OF put2] r(5) by simp_all
  then have "set (?cs ! j) \<subseteq> allocated h3" if "j < hsize h" for j
    using that invD(6) [OF inv that] r(3,4) invD(3) [OF inv] by (cases "j = i") auto
  moreover have "computeFunc h (value_at h3 q) mod hsize h = j"
    if "j < hsize h" "q \<in> set (Tab j # ?cs ! j)" "value_at h3 q \<noteq> 0" for j q
  proof (cases "q = r")
    case True
    then have "j = i" using that(1,2) old r(2) by (cases "j = i") auto
    with True valr e show ?thesis by simp
  next
    case False
    then have "q \<in> set (Tab j # cs ! j)" using that(1,2) invD(3) [OF inv] by (cases "j = i") auto
    then show ?thesis using invD(7) [OF inv that(1)] val [OF _ that(1)] that(3) by metis
  qed
  ultimately have "hash_inv h3 ?cs"
    unfolding hash_inv_def
    using invD(1-3) [OF inv] ch ins(1) i eq put_keeps(1,2,8) [OF put1] put_keeps(1,2,8) [OF put2] \<open>blocks_ok h3\<close>
    by (simp del: chain.simps list.set)
  moreover have "image_mset (value_at h3) (mset (refs cs)) = image_mset (value_at h) (mset (refs cs))"
    using val refs_bucket [of _ cs] invD(3) [OF inv] by (intro image_mset_cong) (metis set_mset_mset)
  ultimately show ?thesis
    using ins(2) i invD(3) [OF inv] valr e(1) by (simp add: elements_def)
qed

lemma add_step:
  assumes inv: "hash_inv h cs" and "e \<noteq> 0"
  shows "\<exists>res h'. ILHashAdd malloc_ok e h = Some (res, h') \<and>
    (res = 1 \<and> (\<exists>cs'. hash_inv h' cs' \<and> mset (elements h' cs') = add_mset e (mset (elements h cs))) \<or>
     res = 0 \<and> h' = h \<and> \<not> malloc_ok)"
proof -
  let ?i = "computeFunc h e mod hsize h"
  have i: "?i < hsize h" using invD(1) [OF inv] by simp
  then obtain main where main: "get_entry h (Tab ?i) = Some main" using invD(2) [OF inv] by simp
  show ?thesis
  proof (cases "elem main = 0")
    case True
    obtain h' where put: "put_entry h (Tab ?i) (main\<lparr>elem := e\<rparr>) = Some h'"
      using put_defined [OF main] by blast
    from put_elem_inv [OF inv i _ main put] True assms(2) main put show ?thesis
      by (auto simp: ILHashAdd_def Let_def simp del: get_entry.simps put_entry.simps)
  next
    case False
    from inv show ?thesis
    proof (cases rule: new_entry_cases [where malloc_ok = malloc_ok])
      case full
      with False main show ?thesis by (simp add: ILHashAdd_def Let_def del: get_entry.simps put_entry.simps)
    next
      case (new r h1)
      obtain h2 where put1: "put_entry h1 r \<lparr>elem = e, overflow = overflow main\<rparr> = Some h2" using new(8) by blast
      have m1: "get_entry h1 (Tab ?i) = Some main" using new(7) [of "Tab ?i"] main by simp
      have m2: "get_entry h2 (Tab ?i) = Some main" using get_put [OF put1, of "Tab ?i"] new(3) m1 by auto
      obtain h3 where put2: "put_entry h2 (Tab ?i) (main\<lparr>overflow := Some r\<rparr>) = Some h3"
        using put_defined [OF m2] by blast
      have "hash_inv h3 (cs[?i := r # cs ! ?i]) \<and>
          mset (elements h3 (cs[?i := r # cs ! ?i])) = add_mset e (mset (elements h cs))"
        by (rule add_overflow [OF inv i main new(2-7) new(9-11) put1 put2 assms(2) refl])
      moreover have "ILHashAdd malloc_ok e h = Some (1, h3)"
        using False main new(1,11,9) m1 m2 put1 put2 by (simp add: ILHashAdd_def Let_def del: get_entry.simps put_entry.simps)
      ultimately show ?thesis by blast
    qed
  qed
qed

section \<open>Lookup and removal\<close>

text \<open>The client functions stored in a table.\<close>

definition client_funs :: "'k hash_table \<Rightarrow> nat \<times> (nat \<Rightarrow> nat) \<times> ('k \<Rightarrow> nat) \<times> (nat \<Rightarrow> 'k \<Rightarrow> bool) \<times> bool" where
  "client_funs h = (hsize h, computeFunc h, keyComputeFunc h, matchFunc h, freeFunc h)"

lemma functions_put: "put_entry h r e = Some h' \<Longrightarrow> client_funs h' = client_funs h"
  by (simp add: client_funs_def put_keeps)

lemma functions_call_freeFunc [simp]: "client_funs (call_freeFunc f e h) = client_funs h"
  by (simp add: client_funs_def)

lemma add_functions:
  assumes "ILHashAdd malloc_ok e h = Some (res, h')" shows "client_funs h' = client_funs h"
proof -
  have new: "client_funs h1 = client_funs h" if "new_entry malloc_ok h = Some (Some (r, h1))" for r h1
    using that by (auto simp: new_entry_def client_funs_def Option.bind_eq_Some_conv split: if_splits)
  from assms show ?thesis
    by (auto simp: ILHashAdd_def Let_def Option.bind_eq_Some_conv simp del: get_entry.simps put_entry.simps
        dest!: functions_put new split: if_splits option.splits)
qed

text \<open>A match function that agrees with the hash functions.\<close>

definition consistent :: "'k hash_table \<Rightarrow> bool" where
  "consistent h \<longleftrightarrow> (\<forall>e k. e \<noteq> 0 \<longrightarrow> matchFunc h e k \<longrightarrow> computeFunc h e = keyComputeFunc h k)"

lemma find_step:
  assumes inv: "hash_inv h cs" and "consistent h"
  shows "\<exists>v. ILHashFind h k = Some v \<and>
    (v \<noteq> 0 \<and> v \<in> set (elements h cs) \<and> matchFunc h v k \<or>
     v = 0 \<and> (\<forall>e \<in> set (elements h cs). \<not> matchFunc h e k))"
proof -
  let ?i = "keyComputeFunc h k mod hsize h" and ?P = "\<lambda>v. v \<noteq> 0 \<and> matchFunc h v k"
  let ?vs = "map (value_at h) (Tab ?i # cs ! ?i)"
  have i: "?i < hsize h" using invD(1) [OF inv] by simp
  have f: "ILHashFind h k = Some (case find ?P ?vs of None \<Rightarrow> 0 | Some v \<Rightarrow> v)"
    using find_loop_chain [OF inv_chain [OF inv i]] unfolding ILHashFind_def Let_def .
  show ?thesis
  proof (cases "find ?P ?vs")
    case None
    have "\<not> matchFunc h e k" if e: "e \<in> set (elements h cs)" for e
    proof
      assume m: "matchFunc h e k"
      have "e \<noteq> 0" using e by (auto simp: elements_def)
      then have "?i = computeFunc h e mod hsize h" using assms(2) m by (simp add: consistent_def)
      then have "e \<in> set ?vs" using element_bucket [OF inv e i] by blast
      with None m \<open>e \<noteq> 0\<close> show False unfolding find_None_iff by blast
    qed
    with None f show ?thesis by simp
  next
    case (Some v)
    from find_SomeD [OF Some] have "v \<in> set ?vs \<and> ?P v" .
    then show ?thesis using bucket_elements [OF inv i] f Some by auto
  qed
qed

lemma remove_step:
  assumes inv: "hash_inv h cs" and "e \<noteq> 0"
  shows "\<exists>h'. ILHashRemove e freeElem h = Some h' \<and> hash_inv h' cs \<and> client_funs h' = client_funs h \<and>
    mset (elements h' cs) = mset (elements h cs) - {#e#} \<and>
    freed h' = freed h @ (if e \<in> set (elements h cs) \<and> freeElem \<and> freeFunc h then [e] else [])"
proof -
  let ?i = "computeFunc h e mod hsize h"
  have i: "?i < hsize h" using invD(1) [OF inv] by simp
  note ch = inv_chain [OF inv i]
  show ?thesis
  proof (cases "e \<in> set (elements h cs)")
    case True
    then have "e \<in> set (map (value_at h) (Tab ?i # cs ! ?i))" using element_bucket [OF inv True i] by blast
    then obtain r x h' where r: "r \<in> set (Tab ?i # cs ! ?i)" "get_entry h r = Some x" "elem x = e"
      "put_entry (call_freeFunc freeElem e h) r (x\<lparr>elem := 0\<rparr>) = Some h'"
      "remove_loop h e freeElem (Some (Tab ?i)) = Some h'"
      using remove_loop_present [OF ch] by metis
    have "hash_inv h' cs" "mset (elements h' cs) + {#e#} = mset (elements h cs)"
      using put_elem_inv [of "call_freeFunc freeElem e h" cs ?i r x 0 h'] inv i r assms(2) by simp_all
    moreover have "mset (elements h' cs) = mset (elements h cs) - {#e#}"
      using calculation(2) by (metis add_diff_cancel_right')
    moreover have "freed h' = freed h @ (if freeElem \<and> freeFunc h then [e] else [])"
      using put_keeps(9) [OF r(4)] by (simp add: call_freeFunc_def)
    ultimately show ?thesis
      using True r(5) functions_put [OF r(4)] by (simp add: ILHashRemove_def)
  next
    case False
    then have "e \<notin> set (map (value_at h) (Tab ?i # cs ! ?i))" using bucket_elements [OF inv i _ assms(2)] by blast
    from remove_loop_absent [OF ch this] show ?thesis
      using inv False by (simp add: ILHashRemove_def)
  qed
qed

lemma subset_loop_step:
  assumes "hash_inv h cs" and "i < hsize h" and "chain h p ss" and "set ss \<subseteq> set (Tab i # cs ! i)" and "distinct ss"
  shows "\<exists>h'. subset_loop h m f p = Some h' \<and> hash_inv h' cs \<and> client_funs h' = client_funs h \<and>
    (\<forall>q. value_at h' q = (if q \<in> set ss \<and> m (value_at h q) then 0 else value_at h q)) \<and>
    freed h' = freed h @ (if f \<and> freeFunc h then filter (\<lambda>v. v \<noteq> 0 \<and> m v) (map (value_at h) ss) else [])"
  using assms
proof (induction ss arbitrary: h p)
  case Nil
  then show ?case by (simp add: subset_loop.simps)
next
  case (Cons r ss)
  from Cons.prems(3) obtain e where p: "p = Some r" and e: "get_entry h r = Some e" "chain h (overflow e) ss"
    by (auto split: option.splits)
  then have v: "value_at h r = elem e" by (simp add: value_at_def)
  show ?case
  proof (cases "elem e \<noteq> 0 \<and> m (elem e)")
    case True
    let ?h = "call_freeFunc f (elem e) h"
    obtain h1 where put: "put_entry ?h r (e\<lparr>elem := 0\<rparr>) = Some h1"
      using put_defined [of ?h r e] e(1) by auto
    have get1: "get_entry h1 r = Some (e\<lparr>elem := 0\<rparr>)" using get_put [OF put] by simp
    have inv1: "hash_inv h1 cs" and fun1: "client_funs h1 = client_funs h"
      using put_elem_inv(1) [of ?h cs i r e 0 h1] Cons.prems(1,2,4) e(1) put functions_put [OF put] by simp_all
    have ch1: "chain h1 (overflow e) ss"
      using put_elem_chain [OF put _ , of "overflow e" ss] e by simp
    have val1: "value_at h1 q = (if q = r then 0 else value_at h q)" for q using value_put [OF put] by simp
    have hs: "hsize h1 = hsize h" "freeFunc h1 = freeFunc h" using fun1 by (simp_all add: client_funs_def)
    obtain h' where h': "subset_loop h1 m f (overflow e) = Some h'" "hash_inv h' cs" "client_funs h' = client_funs h1"
      "\<forall>q. value_at h' q = (if q \<in> set ss \<and> m (value_at h1 q) then 0 else value_at h1 q)"
      "freed h' = freed h1 @ (if f \<and> freeFunc h1 then filter (\<lambda>v. v \<noteq> 0 \<and> m v) (map (value_at h1) ss) else [])"
      using Cons.IH [OF inv1 _ ch1] Cons.prems(2,4,5) hs by auto
    have mp: "map (value_at h1) ss = map (value_at h) ss" using Cons.prems(5) by (auto simp: val1)
    have "freed h1 = freed h @ (if f \<and> freeFunc h then [elem e] else [])"
      using put_keeps(9) [OF put] by (simp add: call_freeFunc_def)
    then have "freed h' = freed h @
        (if f \<and> freeFunc h then filter (\<lambda>v. v \<noteq> 0 \<and> m v) (map (value_at h) (r # ss)) else [])"
      using h'(5) [unfolded mp] True v hs(2) by simp
    moreover have "subset_loop h m f p = Some h'"
      using True p e put get1 h'(1) by (subst subset_loop.simps) simp
    moreover have "\<forall>q. value_at h' q = (if q \<in> set (r # ss) \<and> m (value_at h q) then 0 else value_at h q)"
      using h'(4) True v by (auto simp: val1)
    ultimately show ?thesis using h'(2,3) fun1 by auto
  next
    case False
    from Cons.IH [OF Cons.prems(1,2) e(2)] Cons.prems(4,5)
    obtain h' where h': "subset_loop h m f (overflow e) = Some h'" "hash_inv h' cs" "client_funs h' = client_funs h"
      "\<forall>q. value_at h' q = (if q \<in> set ss \<and> m (value_at h q) then 0 else value_at h q)"
      "freed h' = freed h @ (if f \<and> freeFunc h then filter (\<lambda>v. v \<noteq> 0 \<and> m v) (map (value_at h) ss) else [])"
      by auto
    have "subset_loop h m f p = Some h'" using False p e h'(1) by (subst subset_loop.simps) auto
    then show ?thesis using h' False v by (intro exI [of _ h']) auto
  qed
qed

definition bucket :: "entry_ref list list \<Rightarrow> nat \<Rightarrow> entry_ref list" where
  "bucket cs i = Tab i # cs ! i"

lemma refs_buckets: "refs cs = concat (map (bucket cs) [0..<length cs])"
  by (simp add: refs_def bucket_def [abs_def])

lemma bucket_distinct: "hash_inv h cs \<Longrightarrow> i < hsize h \<Longrightarrow> distinct (bucket cs i)"
  using invD(3,5) [of h cs] unfolding refs_buckets distinct_concat_iff by auto

lemma subset_buckets:
  assumes "hash_inv h cs" and "set is \<subseteq> {..<hsize h}" and "distinct is"
  shows "\<exists>h'. for_buckets (\<lambda>h i. subset_loop h m f (Some (Tab i))) h is = Some h' \<and> hash_inv h' cs \<and>
    client_funs h' = client_funs h \<and>
    (\<forall>q. value_at h' q = (if q \<in> set (concat (map (bucket cs) is)) \<and> m (value_at h q) then 0 else value_at h q)) \<and>
    freed h' = freed h @ (if f \<and> freeFunc h
      then filter (\<lambda>v. v \<noteq> 0 \<and> m v) (map (value_at h) (concat (map (bucket cs) is))) else [])"
  using assms
proof (induction "is" arbitrary: h)
  case (Cons i "is")
  then have i: "i < hsize h" by simp
  obtain h1 where h1: "subset_loop h m f (Some (Tab i)) = Some h1" "hash_inv h1 cs" "client_funs h1 = client_funs h"
    "\<forall>q. value_at h1 q = (if q \<in> set (bucket cs i) \<and> m (value_at h q) then 0 else value_at h q)"
    "freed h1 = freed h @ (if f \<and> freeFunc h then filter (\<lambda>v. v \<noteq> 0 \<and> m v) (map (value_at h) (bucket cs i)) else [])"
    using subset_loop_step [OF Cons.prems(1) i, of "Some (Tab i)" "bucket cs i" m f]
      inv_chain [OF Cons.prems(1) i] bucket_distinct [OF Cons.prems(1) i] by (auto simp: bucket_def simp del: chain.simps)
  have hs: "hsize h1 = hsize h" "freeFunc h1 = freeFunc h" using h1(3) by (simp_all add: client_funs_def)
  obtain h2 where h2: "for_buckets (\<lambda>h i. subset_loop h m f (Some (Tab i))) h1 is = Some h2" "hash_inv h2 cs"
    "client_funs h2 = client_funs h1"
    "\<forall>q. value_at h2 q = (if q \<in> set (concat (map (bucket cs) is)) \<and> m (value_at h1 q) then 0 else value_at h1 q)"
    "freed h2 = freed h1 @ (if f \<and> freeFunc h1
      then filter (\<lambda>v. v \<noteq> 0 \<and> m v) (map (value_at h1) (concat (map (bucket cs) is))) else [])"
    using Cons.IH [OF h1(2)] Cons.prems(2,3) hs by auto
  have "q \<notin> set (bucket cs i)" if "q \<in> set (concat (map (bucket cs) is))" for q
  proof
    assume q: "q \<in> set (bucket cs i)"
    from that obtain j where j: "j \<in> set is" "q \<in> set (bucket cs j)" by auto
    with q Cons.prems(2) have "i = j"
      using bucket_unique [OF invD(5) [OF Cons.prems(1)], of i j q] invD(3) [OF Cons.prems(1)] i
      by (auto simp: bucket_def)
    with j(1) Cons.prems(3) show False by simp
  qed
  then have mp: "map (value_at h1) (concat (map (bucket cs) is)) = map (value_at h) (concat (map (bucket cs) is))"
    using h1(4) by simp
  have "freed h2 = freed h @ (if f \<and> freeFunc h
      then filter (\<lambda>v. v \<noteq> 0 \<and> m v) (map (value_at h) (concat (map (bucket cs) (i # is)))) else [])"
    using h2(5) [unfolded mp] h1(5) hs(2) by simp
  then show ?case using h1(1,3,4) h2(1-4) by (intro exI [of _ h2]) auto
qed simp

lemma remove_subset_step:
  assumes inv: "hash_inv h cs"
  shows "\<exists>h'. ILHashRemoveSubset match key freeElem h = Some h' \<and> hash_inv h' cs \<and> client_funs h' = client_funs h \<and>
    elements h' cs = filter (\<lambda>e. \<not> match e key) (elements h cs) \<and>
    freed h' = freed h @ (if freeElem \<and> freeFunc h then filter (\<lambda>e. match e key) (elements h cs) else [])"
proof -
  have r: "concat (map (bucket cs) [0..<hsize h]) = refs cs" using invD(3) [OF inv] by (simp add: refs_buckets)
  obtain h' where h': "ILHashRemoveSubset match key freeElem h = Some h'" "hash_inv h' cs" "client_funs h' = client_funs h"
    "\<forall>q. value_at h' q = (if q \<in> set (refs cs) \<and> match (value_at h q) key then 0 else value_at h q)"
    "freed h' = freed h @ (if freeElem \<and> freeFunc h
       then filter (\<lambda>v. v \<noteq> 0 \<and> match v key) (map (value_at h) (refs cs)) else [])"
    using subset_buckets [OF inv, of "[0..<hsize h]" "\<lambda>e. match e key" freeElem]
    unfolding r ILHashRemoveSubset_def by (auto simp: atLeast0LessThan)
  have "filter (\<lambda>v. v \<noteq> 0) (map (value_at h') rs) = filter (\<lambda>e. \<not> match e key) (filter (\<lambda>v. v \<noteq> 0) (map (value_at h) rs))"
    if "set rs \<subseteq> set (refs cs)" for rs
    using that h'(4) by (induction rs) auto
  then have "elements h' cs = filter (\<lambda>e. \<not> match e key) (elements h cs)" by (simp add: elements_def)
  moreover have "filter (\<lambda>e. match e key) (elements h cs) = filter (\<lambda>v. v \<noteq> 0 \<and> match v key) (map (value_at h) (refs cs))"
    by (simp add: elements_def conj_commute)
  ultimately show ?thesis using h'(1-3,5) by auto
qed

section \<open>Destruction\<close>

lemma destroy_buckets:
  assumes "hash_inv h cs" and "set is \<subseteq> {..<hsize h}"
  shows "for_buckets (\<lambda>log i. destroy_loop h (Some (Tab i)) log) log is =
    Some (log @ filter (\<lambda>v. v \<noteq> 0) (map (value_at h) (concat (map (bucket cs) is))))"
  using assms(2)
proof (induction "is" arbitrary: log)
  case (Cons i "is")
  have "destroy_loop h (Some (Tab i)) log = Some (log @ filter (\<lambda>v. v \<noteq> 0) (map (value_at h) (bucket cs i)))"
    using destroy_loop_chain [OF inv_chain [OF assms(1)], of i log] Cons.prems by (simp add: bucket_def)
  with Cons show ?case by simp
qed simp

lemma free_blocks_all:
  assumes "\<And>b. b < length bs \<Longrightarrow> next_block (bs ! b) = (if b = 0 then None else Some (b - 1))"
  shows "n \<le> length bs \<Longrightarrow> set done \<inter> {..<n} = {} \<Longrightarrow>
    free_blocks bs (if n = 0 then None else Some (n - 1)) done = Some (done @ rev [0..<n])"
proof (induction n arbitrary: "done")
  case (Suc n)
  have "free_blocks bs (Some n) done = free_blocks bs (if n = 0 then None else Some (n - 1)) (done @ [n])"
    using Suc.prems assms [of n] by (subst free_blocks.simps) auto
  also have "\<dots> = Some ((done @ [n]) @ rev [0..<n])"
    using Suc.prems by (intro Suc.IH) auto
  finally show ?case by simp
qed (simp add: free_blocks.simps)

lemma destroy_step:
  assumes "hash_inv h cs"
  shows "ILHashDestroy h = Some (freed h @ (if freeFunc h then elements h cs else []), rev [0..<length (blocks h)])"
proof -
  have r: "concat (map (bucket cs) [0..<hsize h]) = refs cs" using invD(3) [OF assms] by (simp add: refs_buckets)
  note ok = invD(4) [OF assms, unfolded blocks_ok_def]
  have "free_blocks (blocks h) (overflow_head h) [] = Some (rev [0..<length (blocks h)])"
    using free_blocks_all [of "blocks h" "length (blocks h)" "[]"] ok by (auto split: if_splits)
  then show ?thesis
    using destroy_buckets [OF assms, of "[0..<hsize h]" "freed h"] unfolding r
    by (simp add: ILHashDestroy_def elements_def atLeast0LessThan)
qed

section \<open>Iteration\<close>

abbreviation live :: "'k hash_table \<Rightarrow> entry_ref list \<Rightarrow> nat list" where
  "live h rs \<equiv> filter (\<lambda>v. v \<noteq> 0) (map (value_at h) rs)"

lemma chain_find_None: "find (\<lambda>r. value_at h r \<noteq> 0) ss = None \<Longrightarrow> live h ss = []"
  by (auto simp: find_None_iff filter_empty_conv)

lemma chain_find_Some:
  assumes "chain h p ss" and "find (\<lambda>r. value_at h r \<noteq> 0) ss = Some r"
  obtains e ws where "get_entry h r = Some e" and "chain h (overflow e) ws" and "live h ss = elem e # live h ws"
  using assms
proof (induction ss arbitrary: p thesis)
  case (Cons q ss)
  then obtain e where e: "get_entry h q = Some e" "chain h (overflow e) ss" by (auto split: option.splits)
  show ?case
  proof (cases "value_at h q = 0")
    case True
    with Cons.prems(3) have "find (\<lambda>r. value_at h r \<noteq> 0) ss = Some r" by simp
    with Cons.IH [OF _ e(2)] True Cons.prems(1) show ?thesis by auto
  next
    case False
    with Cons.prems(3) e show ?thesis by (intro Cons.prems(1) [of e ss]) (auto simp: value_at_def)
  qed
qed simp

text \<open>What an iterator still has to visit: the rest of its chain and the later buckets.\<close>

definition iter_at :: "'k hash_table \<Rightarrow> entry_ref list list \<Rightarrow> hash_iter \<Rightarrow> entry_ref list \<Rightarrow> bool" where
  "iter_at h cs it rs \<longleftrightarrow> -1 \<le> index it \<and> index it < int (hsize h) \<and> (iter_entry it \<noteq> None \<longrightarrow> 0 \<le> index it) \<and>
     (\<exists>ss. chain h (iter_entry it) ss \<and>
     rs = ss @ concat (map (bucket cs) [nat (index it + 1)..<hsize h]))"

definition iter_result :: "'k hash_table \<Rightarrow> entry_ref list list \<Rightarrow> hash_iter \<Rightarrow> nat list \<Rightarrow> bool" where
  "iter_result h cs it vs \<longleftrightarrow>
     (case vs of
        [] \<Rightarrow> \<exists>it'. ILHashIterNext h it = Some (0, it')
      | v # vs \<Rightarrow> \<exists>it' rs. ILHashIterNext h it = Some (v, it') \<and> iter_at h cs it' rs \<and> live h rs = vs)"

lemma iter_result_cong:
  "ILHashIterNext h it = ILHashIterNext h it' \<Longrightarrow> iter_result h cs it vs = iter_result h cs it' vs"
  by (cases vs) (simp_all add: iter_result_def)

text \<open>One turn of the loop, at the entry where the search goes on.\<close>

lemma iter_turn:
  assumes nxt: "ILHashIterNext h it = do {
      p \<leftarrow> skip_empty h p0;
      case p of None \<Rightarrow> ILHashIterNext h \<lparr>index = int i, iter_entry = None\<rparr>
      | Some r \<Rightarrow> do { e \<leftarrow> get_entry h r; Some (elem e, \<lparr>index = int i, iter_entry = overflow e\<rparr>) } }"
    and ch: "chain h p0 ss" and i: "i < hsize h"
    and later: "iter_result h cs \<lparr>index = int i, iter_entry = None\<rparr> (live h (concat (map (bucket cs) [Suc i..<hsize h])))"
  shows "iter_result h cs it (live h (ss @ concat (map (bucket cs) [Suc i..<hsize h])))"
proof (cases "find (\<lambda>r. value_at h r \<noteq> 0) ss")
  case None
  then have "ILHashIterNext h it = ILHashIterNext h \<lparr>index = int i, iter_entry = None\<rparr>"
    using nxt skip_empty_chain [OF ch] by simp
  from iter_result_cong [OF this] later chain_find_None [OF None] show ?thesis by simp
next
  case (Some r)
  from chain_find_Some [OF ch Some] obtain e ws where e: "get_entry h r = Some e" "chain h (overflow e) ws"
    "live h ss = elem e # live h ws" .
  let ?it = "\<lparr>index = int i, iter_entry = overflow e\<rparr>"
  have "ILHashIterNext h it = Some (elem e, ?it)" using nxt skip_empty_chain [OF ch] Some e(1) by simp
  moreover have "iter_at h cs ?it (ws @ concat (map (bucket cs) [Suc i..<hsize h]))"
    using e(2) i by (auto simp: iter_at_def nat_add_distrib)
  moreover have "live h (ss @ rs) = elem e # live h (ws @ rs)" for rs using e(3) by simp
  ultimately show ?thesis unfolding iter_result_def by (auto simp del: filter_append map_append)
qed

lemma iter_none:
  assumes "hash_inv h cs"
  shows "i \<le> hsize h \<Longrightarrow> iter_result h cs \<lparr>index = int i - 1, iter_entry = None\<rparr> (live h (concat (map (bucket cs) [i..<hsize h])))"
proof (induction "hsize h - i" arbitrary: i)
  case 0
  then show ?case by (simp add: iter_result_def ILHashIterNext.simps)
next
  case (Suc n)
  then have i: "i < hsize h" "[i..<hsize h] = i # [Suc i..<hsize h]" by (simp_all add: upt_conv_Cons)
  have "iter_result h cs \<lparr>index = int (Suc i) - 1, iter_entry = None\<rparr> (live h (concat (map (bucket cs) [Suc i..<hsize h])))"
    using Suc by (intro Suc.hyps) simp_all
  then have later: "iter_result h cs \<lparr>index = int i, iter_entry = None\<rparr> (live h (concat (map (bucket cs) [Suc i..<hsize h])))"
    by simp
  have "chain h (Some (Tab i)) (bucket cs i)" using inv_chain [OF assms i(1)] by (simp add: bucket_def)
  from iter_turn [OF _ this i(1) later] i show ?case
    by (simp add: ILHashIterNext.simps [of h "\<lparr>index = int i - 1, iter_entry = None\<rparr>"])
qed

lemma iter_step:
  assumes inv: "hash_inv h cs" and at: "iter_at h cs it rs"
  shows "iter_result h cs it (live h rs)"
proof -
  obtain ss where ss: "chain h (iter_entry it) ss"
    and rs: "rs = ss @ concat (map (bucket cs) [nat (index it + 1)..<hsize h])"
    using at by (auto simp: iter_at_def)
  show ?thesis
  proof (cases "iter_entry it")
    case None
    have "nat (index it + 1) \<le> hsize h" "it = \<lparr>index = int (nat (index it + 1)) - 1, iter_entry = None\<rparr>"
      using at None by (cases it; auto simp: iter_at_def)+
    moreover have "ss = []" using ss None by (cases ss) simp_all
    ultimately show ?thesis using iter_none [OF inv, of "nat (index it + 1)"] rs by simp
  next
    case (Some r)
    define i where "i = nat (index it)"
    have i: "it = \<lparr>index = int i, iter_entry = Some r\<rparr>" "nat (index it + 1) = Suc i" "i < hsize h"
      using at Some by (cases it; auto simp: iter_at_def i_def)+
    have later: "iter_result h cs \<lparr>index = int i, iter_entry = None\<rparr> (live h (concat (map (bucket cs) [Suc i..<hsize h])))"
      using iter_none [OF inv, of "Suc i"] i(3) by simp
    show ?thesis
      unfolding rs i(2)
      by (rule iter_turn [OF _ ss i(3) later]) (simp add: ILHashIterNext.simps [of h "\<lparr>index = int i, iter_entry = Some r\<rparr>"] i(1))
  qed
qed

text \<open>A whole iteration.\<close>

fun iter_take :: "'k hash_table \<Rightarrow> nat \<Rightarrow> hash_iter \<Rightarrow> nat list option" where
  "iter_take h 0 it = Some []"
| "iter_take h (Suc n) it = do {
     (v, it) \<leftarrow> ILHashIterNext h it;
     vs \<leftarrow> iter_take h n it;
     Some (v # vs)
   }"

lemma iter_take_all:
  assumes "hash_inv h cs"
  shows "iter_at h cs it rs \<Longrightarrow> live h rs = vs \<Longrightarrow> iter_take h (Suc (length vs)) it = Some (vs @ [0])"
proof (induction vs arbitrary: it rs)
  case Nil
  with iter_step [OF assms Nil.prems(1)] show ?case by (auto simp: iter_result_def)
next
  case (Cons v vs)
  with iter_step [OF assms Cons.prems(1)] obtain it' rs'
    where "ILHashIterNext h it = Some (v, it')" "iter_at h cs it' rs'" "live h rs' = vs"
    by (auto simp: iter_result_def)
  with Cons.IH [of it' rs'] show ?case
    using iter_take.simps(2) [of h "Suc (length vs)" it] by (simp del: iter_take.simps)
qed

lemma iter_init: "hash_inv h cs \<Longrightarrow> iter_at h cs ILHashIterInit (refs cs)"
  using invD(1,3) [of h cs] by (auto simp: iter_at_def ILHashIterInit_def refs_buckets intro!: exI [of _ "[]"])

section \<open>Sequences of operations\<close>

text \<open>A concrete system simulates an abstract one: every valid operation succeeds and keeps the
  representation relation; then so does every sequence of them.\<close>

fun run_all :: "('o \<Rightarrow> 'h \<Rightarrow> 'h option) \<Rightarrow> 'o list \<Rightarrow> 'h \<Rightarrow> 'h option" where
  "run_all step [] h = Some h"
| "run_all step (op # ops) h = do { h \<leftarrow> step op h; run_all step ops h }"

locale simulation =
  fixes rep :: "'h \<Rightarrow> 'a \<Rightarrow> bool" and step :: "'o \<Rightarrow> 'h \<Rightarrow> 'h option" and abs :: "'o \<Rightarrow> 'a \<Rightarrow> 'a"
    and valid :: "'o \<Rightarrow> bool"
  assumes simulates: "\<lbrakk>rep h a; valid op\<rbrakk> \<Longrightarrow> \<exists>h'. step op h = Some h' \<and> rep h' (abs op a)"
begin

lemma run_simulates:
  assumes "rep h a" and "list_all valid ops"
  obtains h' where "run_all step ops h = Some h'" and "rep h' (fold abs ops a)"
  using assms
proof (induction ops arbitrary: h a thesis)
  case (Cons op ops)
  have "valid op" "list_all valid ops" using Cons.prems(3) by simp_all
  from simulates [OF Cons.prems(2) this(1)] obtain h1 where h1: "step op h = Some h1" "rep h1 (abs op a)" by blast
  from Cons.IH [OF _ h1(2) \<open>list_all valid ops\<close>] obtain h'
    where "run_all step ops h1 = Some h'" "rep h' (fold abs ops (abs op a))" by blast
  with h1(1) show ?case by (intro Cons.prems(1)) simp_all
qed simp

end

datatype 'k hash_op = Add nat | Remove nat bool | RemoveSubset 'k bool

fun run_op :: "'k hash_op \<Rightarrow> 'k hash_table \<Rightarrow> 'k hash_table option" where
  "run_op (Add e) h = map_option snd (ILHashAdd True e h)"
| "run_op (Remove e freeElem) h = ILHashRemove e freeElem h"
| "run_op (RemoveSubset k freeElem) h = ILHashRemoveSubset (matchFunc h) k freeElem h"

fun bag_op :: "(nat \<Rightarrow> 'k \<Rightarrow> bool) \<Rightarrow> 'k hash_op \<Rightarrow> nat multiset \<Rightarrow> nat multiset" where
  "bag_op match (Add e) B = add_mset e B"
| "bag_op match (Remove e freeElem) B = B - {#e#}"
| "bag_op match (RemoveSubset k freeElem) B = filter_mset (\<lambda>e. \<not> match e k) B"

fun valid_op :: "'k hash_op \<Rightarrow> bool" where
  "valid_op (Add e) \<longleftrightarrow> e \<noteq> 0"
| "valid_op (Remove e freeElem) \<longleftrightarrow> e \<noteq> 0"
| "valid_op (RemoveSubset k freeElem) \<longleftrightarrow> True"

definition represents_with where
  "represents_with fs h B \<longleftrightarrow> represents h B \<and> client_funs h = fs"

lemma run_op_simulates:
  assumes "represents h B" and "valid_op op"
  shows "\<exists>h'. run_op op h = Some h' \<and> represents h' (bag_op (matchFunc h) op B) \<and> client_funs h' = client_funs h"
proof -
  from assms(1) obtain cs where inv: "hash_inv h cs" and B: "B = mset (elements h cs)" by (auto simp: represents_def)
  show ?thesis
  proof (cases op)
    case (Add e)
    then obtain h' cs' where "ILHashAdd True e h = Some (1, h')" "hash_inv h' cs'"
      "mset (elements h' cs') = add_mset e (mset (elements h cs))"
      using add_step [OF inv, of e True] assms(2) by auto
    then show ?thesis using add_functions Add B by (fastforce simp: represents_def)
  next
    case (Remove e f)
    then show ?thesis using remove_step [OF inv, of e f] assms(2) B by (fastforce simp: represents_def)
  next
    case (RemoveSubset k f)
    obtain h' where "ILHashRemoveSubset (matchFunc h) k f h = Some h'" "hash_inv h' cs" "client_funs h' = client_funs h"
      "elements h' cs = filter (\<lambda>e. \<not> matchFunc h e k) (elements h cs)"
      using remove_subset_step [OF inv, of "matchFunc h" k f] by auto
    then show ?thesis using RemoveSubset B by (auto simp: represents_def intro!: exI [of _ cs])
  qed
qed

interpretation hash_table: simulation "represents_with (n, c, kc, m, fr)" run_op "bag_op m" valid_op for n c kc m fr
  using run_op_simulates by unfold_locales (fastforce simp: represents_with_def client_funs_def)

text \<open>A table with one element, for the examples.\<close>

lemma example_table: "\<exists>h :: nat hash_table. represents h {#7#} \<and> freeFunc h \<and> freed h = [] \<and> blocks h = []"
proof -
  define h0 where "h0 = the (ILHashCreate 2 (\<lambda>e. e mod 4) (\<lambda>k. k) (\<lambda>e k. e mod 4 = k) True True)"
  have c: "ILHashCreate 2 (\<lambda>e. e mod 4) (\<lambda>k. k) (\<lambda>e k. e mod 4 = k) True True = Some h0"
    by (simp add: h0_def ILHashCreate_def)
  have "represents h0 {#}" using create_inv [OF c] by (force simp: represents_def)
  from run_op_simulates [OF this, of "Add 7"] obtain h where h: "run_op (Add 7) h0 = Some h" "represents h {#7#}"
    "client_funs h = client_funs h0" by auto
  have "freeFunc h0" "freed h0 = []" "blocks h0 = []" "table h0 = replicate 2 \<lparr>elem = 0, overflow = None\<rparr>"
    "computeFunc h0 = (\<lambda>e. e mod 4)" "hsize h0 = 2"
    using c by (auto simp: ILHashCreate_def Let_def)
  with h show ?thesis by (intro exI [of _ h]) (auto simp: client_funs_def ILHashAdd_def Let_def)
qed

section \<open>Properties\<close>

text \<open>C2: Any sequence of additions, removals and removals of subsets, started on a fresh table,
  succeeds and leaves a table that holds exactly the multiset of elements that the sequence
  describes; a lookup then ends, and returns an element of that multiset that matches the
  key, or null when none does.  The match function has to agree with the hash functions.\<close>

theorem hash_table_is_a_multiset:
  assumes "ILHashCreate n c kc m fr True = Some h0" and "list_all valid_op ops" and "consistent h0"
  shows "\<exists>h. run_all run_op ops h0 = Some h \<and> represents h (fold (bag_op m) ops {#}) \<and>
    (\<forall>k. \<exists>v. ILHashFind h k = Some v \<and>
       (v \<noteq> 0 \<and> v \<in># fold (bag_op m) ops {#} \<and> m v k \<or> v = 0 \<and> (\<forall>e \<in># fold (bag_op m) ops {#}. \<not> m e k)))"
proof -
  let ?B = "fold (bag_op m) ops {#}"
  have "client_funs h0 = (hsize h0, c, kc, m, fr)"
    using assms(1) by (auto simp: ILHashCreate_def Let_def client_funs_def)
  then have "represents_with (hsize h0, c, kc, m, fr) h0 {#}"
    using create_inv [OF assms(1)] by (force simp: represents_with_def represents_def)
  from hash_table.run_simulates [OF this assms(2)]
  obtain h where h: "run_all run_op ops h0 = Some h" "represents h ?B" "client_funs h = (hsize h0, c, kc, m, fr)"
    by (auto simp: represents_with_def)
  from h(2) obtain cs where inv: "hash_inv h cs" and B: "?B = mset (elements h cs)" by (auto simp: represents_def)
  have m: "matchFunc h = m" "matchFunc h0 = m" "computeFunc h0 = computeFunc h" "keyComputeFunc h0 = keyComputeFunc h"
    using h(3) \<open>client_funs h0 = _\<close> by (simp_all add: client_funs_def)
  then have "consistent h" using assms(3) by (simp add: consistent_def)
  from find_step [OF inv this] have "\<forall>k. \<exists>v. ILHashFind h k = Some v \<and>
      (v \<noteq> 0 \<and> v \<in># ?B \<and> m v k \<or> v = 0 \<and> (\<forall>e \<in># ?B. \<not> m e k))"
    unfolding B set_mset_mset m(1) by blast
  with h(1,2) show ?thesis by blast
qed

text \<open>Elements 1 to 9 with key \<open>e mod 4\<close>, in a table of two buckets.\<close>

theorem hash_table_is_a_multiset_witness:
  "\<exists>h0 h. ILHashCreate 2 (\<lambda>e. e mod 4) (\<lambda>k. k) (\<lambda>e k. e mod 4 = k) True True = Some h0 \<and>
     run_all run_op [Add 1, Add 3, Add 5, Add 4, Remove 3 True, RemoveSubset 0 True] h0 = Some h \<and>
     represents h {#5, 1#}"
proof -
  define h0 where "h0 = the (ILHashCreate 2 (\<lambda>e. e mod 4) (\<lambda>k. k) (\<lambda>e k. e mod 4 = k) True True)"
  have c: "ILHashCreate 2 (\<lambda>e. e mod 4) (\<lambda>k. k) (\<lambda>e k. e mod 4 = k) True True = Some h0" "consistent h0"
    by (simp_all add: h0_def ILHashCreate_def consistent_def)
  from hash_table_is_a_multiset [OF c(1) _ c(2), of "[Add 1, Add 3, Add 5, Add 4, Remove 3 True, RemoveSubset 0 True]"]
  show ?thesis using c(1) by auto
qed

text \<open>C38: An iterator over a table returns every element exactly once, in the order of the
  buckets, and then null; a table keeps its contents while it is iterated over.\<close>

theorem iteration_visits_every_element:
  assumes "represents h B"
  shows "\<exists>es. mset es = B \<and> 0 \<notin> set es \<and> iter_take h (size B + 1) ILHashIterInit = Some (es @ [0])"
proof -
  from assms obtain cs where inv: "hash_inv h cs" and B: "B = mset (elements h cs)" by (auto simp: represents_def)
  have "iter_take h (Suc (length (elements h cs))) ILHashIterInit = Some (elements h cs @ [0])"
    by (rule iter_take_all [OF inv iter_init [OF inv]]) (simp add: elements_def)
  moreover have "0 \<notin> set (elements h cs)" by (simp add: elements_def)
  ultimately show ?thesis using B by (intro exI [of _ "elements h cs"]) simp
qed

theorem iteration_visits_every_element_witness:
  "\<exists>h :: nat hash_table. \<exists>es. represents h {#7#} \<and> mset es = {#7#} \<and> iter_take h 2 ILHashIterInit = Some (es @ [0])"
proof -
  obtain h :: "nat hash_table" where h: "represents h {#7#}" using example_table by blast
  from iteration_visits_every_element [OF h] show ?thesis using h by (auto simp: numeral_2_eq_2)
qed

text \<open>C39: Destroying a table passes every element to the free function exactly once (after those
  freed before), and frees every overflow block exactly once, the newest first.\<close>

theorem destruction_frees_everything_once:
  assumes "represents h B" and "freeFunc h"
  shows "\<exists>log bs. ILHashDestroy h = Some (log, bs) \<and> mset log = mset (freed h) + B \<and>
    distinct bs \<and> set bs = {..<length (blocks h)}"
proof -
  from assms obtain cs where "hash_inv h cs" and "B = mset (elements h cs)" by (auto simp: represents_def)
  with destroy_step [of h cs] assms(2) show ?thesis by (auto simp: atLeast0LessThan)
qed

theorem destruction_frees_everything_once_witness:
  "\<exists>h :: nat hash_table. \<exists>log bs. represents h {#7#} \<and> ILHashDestroy h = Some (log, bs) \<and> mset log = {#7#} \<and> bs = []"
proof -
  obtain h :: "nat hash_table" where h: "represents h {#7#}" "freeFunc h" "freed h = []" "blocks h = []"
    using example_table by blast
  from destruction_frees_everything_once [OF h(1,2)] h show ?thesis by auto
qed

text \<open>An addition that runs out of memory reports it by the result 0 and leaves the table
  as it was; otherwise the result is 1 and the element has been added.\<close>

lemma addition_reports_failure:
  assumes "represents h B" and "e \<noteq> 0"
  shows "\<exists>res h'. ILHashAdd malloc_ok e h = Some (res, h') \<and>
    (res = 1 \<and> represents h' (add_mset e B) \<or> res = 0 \<and> h' = h \<and> \<not> malloc_ok)"
proof -
  from assms obtain cs where "hash_inv h cs" and "B = mset (elements h cs)" by (auto simp: represents_def)
  with add_step [of h cs e malloc_ok] assms(2) show ?thesis by (fastforce simp: represents_def)
qed

lemma addition_reports_failure_witness:
  "\<exists>h :: nat hash_table. \<exists>res h'. represents h {#7#} \<and> ILHashAdd True 3 h = Some (res, h') \<and> res = 1 \<and>
     represents h' {#3, 7#}"
proof -
  obtain h :: "nat hash_table" where h: "represents h {#7#}" using example_table by blast
  from addition_reports_failure [OF h, of 3 True] h show ?thesis by auto
qed

end
