(* ===== verification/HashStream.thy ===== *)
theory HashStream
  imports Prelude
begin

text \<open>
  The streaming half of the message digests of \<^verbatim>\<open>support/\<close>: \<^verbatim>\<open>md5.c\<close>, \<^verbatim>\<open>sha1.c\<close>,
  \<^verbatim>\<open>sha256.c\<close>, \<^verbatim>\<open>sha512.c\<close>, \<^verbatim>\<open>sha384.c\<close> and \<^verbatim>\<open>ripemd160.c\<close> share the text of their
  \<^verbatim>\<open>Data\<close> and \<^verbatim>\<open>Finalize\<close> functions up to the block size, the byte order and the
  compression function.  The theory models that text once, with those three as
  arguments, and states what it promises as the locale \<open>block_hash\<close>: however a
  message is cut into calls of \<^verbatim>\<open>Data\<close>, the digest is the compression function
  folded over the blocks of the padded message.

  A context is a record with the fields of the C structure; the registers
  \<^verbatim>\<open>A\<close>, \<^verbatim>\<open>B\<close>, \<open>\<dots>\<close> are the field \<open>regs\<close>.  The input array keeps its stale bytes, a
  write outside an array is \<^term>\<open>None\<close>, and \<^verbatim>\<open>totalLen\<close> wraps at 64 bits.
\<close>

section \<open>The code\<close>

record 's hash_context =
  input :: bytes
  inputLen :: nat
  regs :: 's
  totalLen :: u64

definition ILMemCpy :: "bytes \<Rightarrow> nat \<Rightarrow> bytes \<Rightarrow> bytes option" where
  "ILMemCpy dst off src =
     (if off + length src \<le> length dst
      then Some (take off dst @ src @ drop (off + length src) dst) else None)"

partial_function (option) data_loop ::
  "nat \<Rightarrow> (bytes \<Rightarrow> 's \<Rightarrow> 's option) \<Rightarrow> bytes \<Rightarrow> 's hash_context \<Rightarrow> 's hash_context option" where
  "data_loop B ProcessBlock buffer ctx =
     (if buffer = [] then Some ctx
      else if inputLen ctx = 0 \<and> B \<le> length buffer then do {
        r \<leftarrow> ProcessBlock (take B buffer) (regs ctx);
        data_loop B ProcessBlock (drop B buffer) (ctx\<lparr>regs := r\<rparr>)
      }
      else do {
        let templen = (if length buffer > B - inputLen ctx then B - inputLen ctx else length buffer);
        inp \<leftarrow> ILMemCpy (input ctx) (inputLen ctx) (take templen buffer);
        let len = inputLen ctx + templen;
        ctx' \<leftarrow> (if len \<ge> B then do {
                   r \<leftarrow> ProcessBlock inp (regs ctx);
                   Some (ctx\<lparr>input := inp, inputLen := 0, regs := r\<rparr>)
                 }
                 else Some (ctx\<lparr>input := inp, inputLen := len\<rparr>));
        data_loop B ProcessBlock (drop templen buffer) ctx'
      })"

declare data_loop.simps [code]

definition hash_Data ::
  "nat \<Rightarrow> (bytes \<Rightarrow> 's \<Rightarrow> 's option) \<Rightarrow> 's hash_context \<Rightarrow> bytes \<Rightarrow> 's hash_context option" where
  "hash_Data B ProcessBlock ctx buffer =
     data_loop B ProcessBlock buffer
       (ctx\<lparr>totalLen := totalLen ctx + word_of_nat (length buffer)\<rparr>)"

text \<open>The statement \<^verbatim>\<open>ctx->input[(ctx->inputLen)++] = b\<close>, and the loops that repeat it with a zero.\<close>

definition put_byte :: "'s hash_context \<Rightarrow> u8 \<Rightarrow> 's hash_context option" where
  "put_byte ctx b =
     (if inputLen ctx < length (input ctx)
      then Some (ctx\<lparr>input := (input ctx)[inputLen ctx := b], inputLen := Suc (inputLen ctx)\<rparr>)
      else None)"

function pad_zero :: "nat \<Rightarrow> 's hash_context \<Rightarrow> 's hash_context option" where
  "pad_zero limit ctx =
     (if inputLen ctx < limit
      then (case put_byte ctx 0 of None \<Rightarrow> None | Some ctx' \<Rightarrow> pad_zero limit ctx')
      else Some ctx)"
  by auto
termination
  by (relation "measure (\<lambda>(limit, ctx). limit - inputLen ctx)")
    (auto simp: put_byte_def split: if_splits)

declare pad_zero.simps [simp del]

text \<open>
  \<^verbatim>\<open>Finalize\<close>; the argument \<open>hash\<close> is the caller's buffer or \<^term>\<open>None\<close> for a null
  pointer, \<open>store_length\<close> the statements that put the bit count at the end of the
  block, \<open>write_hash\<close> the final \<^verbatim>\<open>WriteLong\<close> calls, \<open>zero\<close> the cleared registers.
\<close>

definition hash_Finalize ::
  "nat \<Rightarrow> nat \<Rightarrow> (bytes \<Rightarrow> 's \<Rightarrow> 's option) \<Rightarrow> (u64 \<Rightarrow> bytes \<Rightarrow> bytes option) \<Rightarrow>
   ('s \<Rightarrow> bytes \<Rightarrow> bytes option) \<Rightarrow> 's \<Rightarrow> 's hash_context \<Rightarrow> bytes option \<Rightarrow>
   (bytes option \<times> 's hash_context) option" where
  "hash_Finalize B L ProcessBlock store_length write_hash zero ctx hash = do {
     hash' \<leftarrow> (case hash of None \<Rightarrow> Some None | Some buf \<Rightarrow> do {
       ctx1 \<leftarrow> (if inputLen ctx \<ge> B - L then do {
                  c \<leftarrow> put_byte ctx 0x80;
                  c \<leftarrow> pad_zero B c;
                  r \<leftarrow> ProcessBlock (input c) (regs c);
                  Some (c\<lparr>regs := r, inputLen := 0\<rparr>)
                }
                else put_byte ctx 0x80);
       ctx2 \<leftarrow> pad_zero (B - L) ctx1;
       inp \<leftarrow> store_length (push_bit 3 (totalLen ctx2)) (input ctx2);
       r \<leftarrow> ProcessBlock inp (regs ctx2);
       out \<leftarrow> write_hash r buf;
       Some (Some out)
     });
     Some (hash', \<lparr>input = replicate (length (input ctx)) 0, inputLen = 0,
                    regs = zero, totalLen = 0\<rparr>)
   }"

text \<open>A client: one call of \<^verbatim>\<open>Data\<close> per chunk.\<close>

fun hash_chunks ::
  "('s hash_context \<Rightarrow> bytes \<Rightarrow> 's hash_context option) \<Rightarrow> 's hash_context \<Rightarrow> bytes list \<Rightarrow>
   's hash_context option" where
  "hash_chunks Data ctx [] = Some ctx"
| "hash_chunks Data ctx (b # bs) = do { ctx' \<leftarrow> Data ctx b; hash_chunks Data ctx' bs }"

section \<open>The specification\<close>

text \<open>The full blocks of a message, and the padding that makes it a whole number of them.\<close>

fun blocks :: "nat \<Rightarrow> 'a list \<Rightarrow> 'a list list" where
  "blocks B xs = (if B = 0 \<or> length xs < B then [] else take B xs # blocks B (drop B xs))"

declare blocks.simps [simp del]

definition padding :: "nat \<Rightarrow> nat \<Rightarrow> (u64 \<Rightarrow> bytes) \<Rightarrow> bytes \<Rightarrow> bytes" where
  "padding B L field msg =
     0x80 # replicate ((B - (length msg + 1 + L) mod B) mod B) 0 @
     field (push_bit 3 (word_of_nat (length msg)))"

definition absorb :: "nat \<Rightarrow> (bytes \<Rightarrow> 's \<Rightarrow> 's) \<Rightarrow> 's \<Rightarrow> bytes \<Rightarrow> 's" where
  "absorb B compress iv xs = foldl (\<lambda>r b. compress b r) iv (blocks B xs)"

definition md_hash ::
  "nat \<Rightarrow> nat \<Rightarrow> (bytes \<Rightarrow> 's \<Rightarrow> 's) \<Rightarrow> 's \<Rightarrow> ('s \<Rightarrow> bytes) \<Rightarrow> (u64 \<Rightarrow> bytes) \<Rightarrow> bytes \<Rightarrow> bytes" where
  "md_hash B L compress iv digest field msg =
     digest (absorb B compress iv (msg @ padding B L field msg))"

text \<open>A context that has taken in a message, started from the registers \<open>iv\<close>.\<close>

definition buffered :: "nat \<Rightarrow> (bytes \<Rightarrow> 's \<Rightarrow> 's) \<Rightarrow> 's \<Rightarrow> bytes \<Rightarrow> 's hash_context \<Rightarrow> bool" where
  "buffered B compress iv msg ctx \<longleftrightarrow>
     length (input ctx) = B \<and> inputLen ctx < B \<and>
     (\<exists>full. msg = full @ take (inputLen ctx) (input ctx) \<and> length full mod B = 0 \<and>
             regs ctx = absorb B compress iv full)"

section \<open>Blocks and padding\<close>

lemma blocks_Nil [simp]: "blocks B [] = []"
  by (cases "B = 0") (simp_all add: blocks.simps)

lemma blocks_single: "0 < B \<Longrightarrow> length xs = B \<Longrightarrow> blocks B xs = [xs]"
  by (simp add: blocks.simps)

lemma blocks_append:
  assumes "0 < B" and "length xs mod B = 0"
  shows "blocks B (xs @ ys) = blocks B xs @ blocks B ys"
  using assms(2)
proof (induction B xs rule: blocks.induct)
  case (1 B xs)
  show ?case
  proof (cases "length xs < B")
    case True
    with 1(2) have "xs = []" by simp
    then show ?thesis by simp
  next
    case False
    show ?thesis
    proof (cases "B = 0")
      case True
      with 1 show ?thesis by simp
    next
      case b: False
      have "length (drop B xs) mod B = 0"
        using 1(2) False b by (simp add: mod_eq_0_iff_dvd dvd_diff_nat)
      with 1(1) b False have "blocks B (drop B xs @ ys) = blocks B (drop B xs) @ blocks B ys"
        by simp
      with b False show ?thesis
        by (simp add: blocks.simps [of B "xs @ ys"] blocks.simps [of B xs])
    qed
  qed
qed

lemma length_blocks: "b \<in> set (blocks B xs) \<Longrightarrow> length b = B"
  by (induction B xs rule: blocks.induct) (subst (asm) (2) blocks.simps, auto split: if_splits)

lemma absorb_append:
  "0 < B \<Longrightarrow> length xs mod B = 0 \<Longrightarrow> length b = B \<Longrightarrow>
     absorb B compress iv (xs @ b) = compress b (absorb B compress iv xs)"
  by (simp add: absorb_def blocks_append blocks_single)

lemma absorb_Nil [simp]: "absorb B compress iv [] = iv"
  by (simp add: absorb_def)

text \<open>The padding fits one block when the length field does, and two otherwise.\<close>

lemma padding_zeros:
  assumes "L < B" and "length full mod B = 0" and "length rest < B"
  shows "(B - (length (full @ rest) + 1 + L) mod B) mod B =
    (if length rest < B - L then B - L - 1 - length rest else 2 * B - L - 1 - length rest)"
proof -
  obtain k where k: "length full = B * k" using assms(2) by auto
  let ?q = "length rest"
  have m: "(length (full @ rest) + 1 + L) mod B = (?q + 1 + L) mod B"
    by (simp add: k add.assoc)
  show ?thesis
  proof (cases "?q + 1 + L < B")
    case True
    then show ?thesis using m assms(1) by (simp add: add.commute)
  next
    case False
    have "(?q + 1 + L) mod B = ?q + 1 + L - B"
      using False assms(1,3) by (simp add: mod_if)
    with m False assms(1,3) show ?thesis
      by (cases "?q + 1 + L = B") (auto simp: mod_if mult_2 add.commute)
  qed
qed

lemma pad_zero_fills:
  assumes "limit \<le> length (input ctx)" and "inputLen ctx \<le> limit"
  shows "pad_zero limit ctx = Some (ctx\<lparr>input := take (inputLen ctx) (input ctx) @
           replicate (limit - inputLen ctx) 0 @ drop limit (input ctx), inputLen := limit\<rparr>)"
  using assms
proof (induction limit ctx rule: pad_zero.induct)
  case (1 limit ctx)
  show ?case
  proof (cases "inputLen ctx < limit")
    case False
    with 1(3) have "limit = inputLen ctx" by simp
    then show ?thesis by (simp add: pad_zero.simps)
  next
    case True
    then have lt: "inputLen ctx < length (input ctx)" using 1(2) by simp
    let ?c = "ctx\<lparr>input := (input ctx)[inputLen ctx := 0], inputLen := Suc (inputLen ctx)\<rparr>"
    have p: "put_byte ctx 0 = Some ?c" using lt by (simp add: put_byte_def)
    have r: "pad_zero limit ctx = pad_zero limit ?c"
      using True by (subst pad_zero.simps) (simp add: p)
    have "limit - inputLen ctx = Suc (limit - Suc (inputLen ctx))" using True by simp
    then show ?thesis
      using 1(1) [OF True p] 1(2) True lt
      by (simp add: r take_Suc_conv_app_nth take_update_cancel)
  qed
qed

section \<open>What streaming promises\<close>

locale block_hash =
  fixes B L N :: nat
    and ProcessBlock :: "bytes \<Rightarrow> 's \<Rightarrow> 's option"
    and store_length :: "u64 \<Rightarrow> bytes \<Rightarrow> bytes option"
    and write_hash :: "'s \<Rightarrow> bytes \<Rightarrow> bytes option"
    and zero :: 's
    and compress :: "bytes \<Rightarrow> 's \<Rightarrow> 's"
    and length_field :: "u64 \<Rightarrow> bytes"
    and digest :: "'s \<Rightarrow> bytes"
  assumes sizes: "L < B"
    and block: "length b = B \<Longrightarrow> ProcessBlock b r = Some (compress b r)"
    and field: "length inp = B \<Longrightarrow> store_length n inp = Some (take (B - L) inp @ length_field n)"
    and field_length: "length (length_field n) = L"
    and writes: "length buf = N \<Longrightarrow> write_hash r buf = Some (digest r)"
begin

lemma positive: "0 < B"
  using sizes by simp

lemma data_loop_buffers:
  "buffered B compress iv msg ctx \<Longrightarrow>
     \<exists>ctx'. data_loop B ProcessBlock buffer ctx = Some ctx' \<and>
       buffered B compress iv (msg @ buffer) ctx' \<and> totalLen ctx' = totalLen ctx"
proof (induction "length buffer" arbitrary: buffer msg ctx rule: less_induct)
  case less
  from less.prems obtain full where len: "length (input ctx) = B" "inputLen ctx < B"
    and full: "msg = full @ take (inputLen ctx) (input ctx)" "length full mod B = 0"
      "regs ctx = absorb B compress iv full"
    by (auto simp: buffered_def)
  consider "buffer = []" | "buffer \<noteq> []" "inputLen ctx = 0" "B \<le> length buffer"
    | "buffer \<noteq> []" "\<not> (inputLen ctx = 0 \<and> B \<le> length buffer)" by auto
  then show ?case
  proof cases
    case 1
    with less.prems show ?thesis by (simp add: data_loop.simps)
  next
    case 2
    let ?c = "ctx\<lparr>regs := compress (take B buffer) (regs ctx)\<rparr>"
    have b: "buffered B compress iv (msg @ take B buffer) ?c"
      unfolding buffered_def using len full 2 positive
      by (intro conjI exI [of _ "full @ take B buffer"]) (simp_all add: absorb_append)
    have "length (drop B buffer) < length buffer" using 2 positive by simp
    from less.hyps [OF this b]
    show ?thesis using 2 by (subst data_loop.simps) (simp add: block)
  next
    case 3
    define n where "n = (if length buffer > B - inputLen ctx then B - inputLen ctx else length buffer)"
    define inp where "inp = take (inputLen ctx) (input ctx) @ take n buffer @
      drop (inputLen ctx + n) (input ctx)"
    have n: "0 < n" "n \<le> length buffer" "inputLen ctx + n \<le> B"
      using 3 len by (auto simp: n_def)
    have inp: "length inp = B" "ILMemCpy (input ctx) (inputLen ctx) (take n buffer) = Some inp"
      using n len by (auto simp: inp_def ILMemCpy_def min_def)
    have less': "length (drop n buffer) < length buffer" using n 3 by simp
    have step: "data_loop B ProcessBlock buffer ctx =
      data_loop B ProcessBlock (drop n buffer)
        (if B \<le> inputLen ctx + n
         then ctx\<lparr>input := inp, inputLen := 0, regs := compress inp (regs ctx)\<rparr>
         else ctx\<lparr>input := inp, inputLen := inputLen ctx + n\<rparr>)"
      using 3 inp by (subst data_loop.simps) (auto simp: n_def [symmetric] block Let_def)
    have "buffered B compress iv (msg @ take n buffer)
        (if B \<le> inputLen ctx + n
         then ctx\<lparr>input := inp, inputLen := 0, regs := compress inp (regs ctx)\<rparr>
         else ctx\<lparr>input := inp, inputLen := inputLen ctx + n\<rparr>)"
    proof (cases "B \<le> inputLen ctx + n")
      case True
      then have e: "inputLen ctx + n = B" using n(3) by simp
      then have "inp = take (inputLen ctx) (input ctx) @ take n buffer"
        using len by (simp add: inp_def)
      then show ?thesis
        unfolding buffered_def using True full inp positive
        by (simp add: absorb_append)
    next
      case False
      then show ?thesis
        unfolding buffered_def using full inp n len
        by (intro conjI) (auto simp: inp_def min_def)
    qed
    from less.hyps [OF less' this] show ?thesis
      by (cases "B \<le> inputLen ctx + n") (simp_all add: step)
  qed
qed

lemma data_absorbs:
  assumes "buffered B compress iv msg ctx" and "totalLen ctx = word_of_nat (length msg)"
  shows "\<exists>ctx'. hash_Data B ProcessBlock ctx buffer = Some ctx' \<and>
    buffered B compress iv (msg @ buffer) ctx' \<and>
    totalLen ctx' = word_of_nat (length (msg @ buffer))"
proof -
  have "buffered B compress iv msg (ctx\<lparr>totalLen := totalLen ctx + word_of_nat (length buffer)\<rparr>)"
    using assms(1) by (simp add: buffered_def)
  from data_loop_buffers [OF this, of buffer] show ?thesis
    using assms(2) by (simp add: hash_Data_def)
qed

lemma chunks_absorb:
  "buffered B compress iv msg ctx \<Longrightarrow> totalLen ctx = word_of_nat (length msg) \<Longrightarrow>
   \<exists>ctx'. hash_chunks (hash_Data B ProcessBlock) ctx bs = Some ctx' \<and>
     buffered B compress iv (msg @ concat bs) ctx' \<and>
     totalLen ctx' = word_of_nat (length (msg @ concat bs))"
proof (induction bs arbitrary: msg ctx)
  case (Cons b bs)
  from data_absorbs [OF Cons.prems, of b] Cons.IH [of "msg @ b"] show ?case by fastforce
qed simp

lemma finalize_digests:
  assumes b: "buffered B compress iv msg ctx" and t: "totalLen ctx = word_of_nat (length msg)"
    and h: "length buf = N"
  shows "hash_Finalize B L ProcessBlock store_length write_hash zero ctx (Some buf) =
    Some (Some (md_hash B L compress iv digest length_field msg),
          \<lparr>input = replicate B 0, inputLen = 0, regs = zero, totalLen = 0\<rparr>)"
proof -
  let ?q = "inputLen ctx"
  define rest where "rest = take ?q (input ctx)"
  from b obtain full where len: "length (input ctx) = B" "?q < B"
    and full: "msg = full @ rest" "length full mod B = 0" "regs ctx = absorb B compress iv full"
    by (auto simp: buffered_def rest_def)
  have q: "length rest = ?q" using len by (simp add: rest_def)
  let ?n = "push_bit 3 (totalLen ctx)"
  have put: "put_byte ctx 0x80 =
      Some (ctx\<lparr>input := rest @ 0x80 # drop (Suc ?q) (input ctx), inputLen := Suc ?q\<rparr>)"
    using len by (simp add: put_byte_def rest_def upd_conv_take_nth_drop)
  show ?thesis
  proof (cases "?q < B - L")
    case True
    let ?last = "rest @ 0x80 # replicate (B - L - 1 - ?q) 0 @ length_field ?n"
    have "length ?last = B" using True sizes field_length q by simp
    moreover have "msg @ padding B L length_field msg = full @ ?last"
      using padding_zeros [OF sizes full(2), of rest] True len q
      by (simp add: padding_def full(1) t)
    ultimately have d: "md_hash B L compress iv digest length_field msg =
        digest (compress ?last (regs ctx))"
      using full positive by (simp add: md_hash_def absorb_append)
    have p: "pad_zero (B - L) (ctx\<lparr>input := rest @ 0x80 # drop (Suc ?q) (input ctx), inputLen := Suc ?q\<rparr>)
       = Some (ctx\<lparr>input := rest @ 0x80 # replicate (B - L - 1 - ?q) 0 @ drop (B - L) (input ctx),
               inputLen := B - L\<rparr>)"
      using True len q by (subst pad_zero_fills) (simp_all add: drop_Cons' Suc_diff_Suc)
    have "B - L = length (rest @ 0x80 # replicate (B - Suc (L + ?q)) (0 :: u8))"
      using True q by simp
    then have t: "take (B - L) (rest @ 0x80 # replicate (B - Suc (L + ?q)) 0 @ xs) =
        rest @ 0x80 # replicate (B - Suc (L + ?q)) 0" for xs
      by (metis append.assoc append_Cons append_eq_conv_conj)
    show ?thesis
      using True len q h field_length sizes
      by (simp add: hash_Finalize_def put p field block writes d t del: take_append)
  next
    case False
    let ?one = "rest @ 0x80 # replicate (B - 1 - ?q) 0"
    let ?two = "replicate (B - L) 0 @ length_field ?n"
    have l: "length ?one = B" "length ?two = B" using len sizes field_length q by simp_all
    have "2 * B - L - 1 - ?q = (B - 1 - ?q) + (B - L)" using False len sizes by simp
    then have z: "replicate (2 * B - L - 1 - ?q) (0 :: u8) = replicate (B - 1 - ?q) 0 @ replicate (B - L) 0"
      by (simp only: replicate_add)
    have "(B - (length (full @ rest) + 1 + L) mod B) mod B = 2 * B - L - 1 - ?q"
      using padding_zeros [OF sizes full(2), of rest] False len q by simp
    then have "msg @ padding B L length_field msg = (full @ ?one) @ ?two"
      by (simp only: padding_def full(1) t z append.assoc append_Cons)
    moreover have "length (full @ ?one) mod B = 0" using full(2) l(1) by simp
    ultimately have d: "md_hash B L compress iv digest length_field msg =
        digest (compress ?two (compress ?one (regs ctx)))"
      using full positive l by (simp only: md_hash_def absorb_append)
    have p: "pad_zero B (ctx\<lparr>input := rest @ 0x80 # drop (Suc ?q) (input ctx), inputLen := Suc ?q\<rparr>)
       = Some (ctx\<lparr>input := ?one, inputLen := B\<rparr>)"
      using len q by (subst pad_zero_fills) simp_all
    have p2: "pad_zero (B - L) (ctx\<lparr>input := xs, regs := r, inputLen := 0\<rparr>) =
       Some (ctx\<lparr>input := replicate (B - L) 0 @ drop (B - L) xs, regs := r, inputLen := B - L\<rparr>)"
      if "length xs = B" for r xs
      using that by (subst pad_zero_fills) simp_all
    show ?thesis
      using False len h l sizes q
      by (simp add: hash_Finalize_def put p p2 field block writes d del: drop_append)
  qed
qed

text \<open>Without any history: a well-formed context stays well-formed and every call returns.\<close>

lemma data_returns:
  assumes "length (input ctx) = B" and "inputLen ctx < B"
  shows "\<exists>ctx'. hash_Data B ProcessBlock ctx buffer = Some ctx' \<and>
    length (input ctx') = B \<and> inputLen ctx' < B \<and>
    totalLen ctx' = totalLen ctx + word_of_nat (length buffer)"
proof -
  let ?ctx = "ctx\<lparr>totalLen := totalLen ctx + word_of_nat (length buffer)\<rparr>"
  have "buffered B compress (regs ctx) (take (inputLen ctx) (input ctx)) ?ctx"
    using assms by (simp add: buffered_def)
  from data_loop_buffers [OF this, of buffer] show ?thesis
    by (auto simp: hash_Data_def buffered_def)
qed

lemma finalize_null:
  "hash_Finalize B L ProcessBlock store_length write_hash zero ctx None =
     Some (None, \<lparr>input = replicate (length (input ctx)) 0, inputLen = 0, regs = zero, totalLen = 0\<rparr>)"
  by (simp add: hash_Finalize_def)

theorem stream_digests:
  assumes "length (input ctx) = B" and "inputLen ctx = 0" and "regs ctx = iv" and "totalLen ctx = 0"
    and "length buf = N"
  shows "do { c \<leftarrow> hash_chunks (hash_Data B ProcessBlock) ctx bs;
              hash_Finalize B L ProcessBlock store_length write_hash zero c (Some buf) } =
    Some (Some (md_hash B L compress iv digest length_field (concat bs)),
          \<lparr>input = replicate B 0, inputLen = 0, regs = zero, totalLen = 0\<rparr>)"
proof -
  have "buffered B compress iv [] ctx"
    using assms positive by (simp add: buffered_def)
  from chunks_absorb [OF this, of bs] assms(4) obtain c
    where "hash_chunks (hash_Data B ProcessBlock) ctx bs = Some c"
      and "buffered B compress iv (concat bs) c"
      and "totalLen c = word_of_nat (length (concat bs))" by auto
  with finalize_digests assms(5) show ?thesis by simp
qed

end

section \<open>Word helpers of the digests\<close>

text \<open>
  The rotation macros (\<^verbatim>\<open>TRUNCLONG\<close> is the identity on 32-bit values), the unpacking
  of a block into words, and \<^verbatim>\<open>WriteLong\<close>, in both byte orders.
\<close>

definition ROTATE_left :: "'a::len word \<Rightarrow> nat \<Rightarrow> 'a word" where
  "ROTATE_left x n = push_bit n x OR drop_bit (LENGTH('a) - n) x"

definition ROTATE_right :: "'a::len word \<Rightarrow> nat \<Rightarrow> 'a word" where
  "ROTATE_right x n = drop_bit n x OR push_bit (LENGTH('a) - n) x"

definition unpack_be32 :: "bytes \<Rightarrow> u32 list option" where
  "unpack_be32 block =
     (if length block < 64 then None else Some (map (\<lambda>t.
        push_bit 24 (ucast (block ! (t * 4 + 0))) OR push_bit 16 (ucast (block ! (t * 4 + 1))) OR
        push_bit 8 (ucast (block ! (t * 4 + 2))) OR ucast (block ! (t * 4 + 3))) [0..<16]))"

definition unpack_le32 :: "bytes \<Rightarrow> u32 list option" where
  "unpack_le32 block =
     (if length block < 64 then None else Some (map (\<lambda>t.
        push_bit 24 (ucast (block ! (t * 4 + 3))) OR push_bit 16 (ucast (block ! (t * 4 + 2))) OR
        push_bit 8 (ucast (block ! (t * 4 + 1))) OR ucast (block ! (t * 4 + 0))) [0..<16]))"

definition be32_bytes :: "u32 \<Rightarrow> bytes" where
  "be32_bytes value = [ucast (drop_bit 24 value), ucast (drop_bit 16 value),
     ucast (drop_bit 8 value), ucast value]"

definition le32_bytes :: "u32 \<Rightarrow> bytes" where
  "le32_bytes value = [ucast value, ucast (drop_bit 8 value),
     ucast (drop_bit 16 value), ucast (drop_bit 24 value)]"

definition WriteLong_be :: "bytes \<Rightarrow> nat \<Rightarrow> u32 \<Rightarrow> bytes option" where
  "WriteLong_be buf off value = ILMemCpy buf off (be32_bytes value)"

definition WriteLong_le :: "bytes \<Rightarrow> nat \<Rightarrow> u32 \<Rightarrow> bytes option" where
  "WriteLong_le buf off value = ILMemCpy buf off (le32_bytes value)"

text \<open>The eight bytes of the bit count: \<^verbatim>\<open>WriteLong\<close> at offsets 56 and 60.\<close>

definition store_length_be :: "u64 \<Rightarrow> bytes \<Rightarrow> bytes option" where
  "store_length_be totalBits inp = do {
     inp \<leftarrow> WriteLong_be inp 56 (ucast (drop_bit 32 totalBits));
     WriteLong_be inp 60 (ucast totalBits)
   }"

definition store_length_le :: "u64 \<Rightarrow> bytes \<Rightarrow> bytes option" where
  "store_length_le totalBits inp = do {
     inp \<leftarrow> WriteLong_le inp 56 (ucast totalBits);
     WriteLong_le inp 60 (ucast (drop_bit 32 totalBits))
   }"

text \<open>A 64-bit number as eight bytes, most or least significant first.\<close>

definition be64_bytes :: "u64 \<Rightarrow> bytes" where
  "be64_bytes n = map (\<lambda>i. ucast (drop_bit (8 * i) n)) [7, 6, 5, 4, 3, 2, 1, 0]"

definition le64_bytes :: "u64 \<Rightarrow> bytes" where
  "le64_bytes n = map (\<lambda>i. ucast (drop_bit (8 * i) n)) [0..<8]"

text \<open>The words of a block, as numbers.\<close>

definition be_word :: "bytes \<Rightarrow> nat \<Rightarrow> u32" where
  "be_word block t =
     word_of_nat (2 ^ 24 * unat (block ! (4 * t)) + 2 ^ 16 * unat (block ! (4 * t + 1)) +
       2 ^ 8 * unat (block ! (4 * t + 2)) + unat (block ! (4 * t + 3)))"

definition le_word :: "bytes \<Rightarrow> nat \<Rightarrow> u32" where
  "le_word block t =
     word_of_nat (unat (block ! (4 * t)) + 2 ^ 8 * unat (block ! (4 * t + 1)) +
       2 ^ 16 * unat (block ! (4 * t + 2)) + 2 ^ 24 * unat (block ! (4 * t + 3)))"

lemma ROTATE_left_rotl:
  "n < LENGTH('a) \<Longrightarrow> ROTATE_left (x :: 'a::len word) n = word_rotl n x"
  by (rule bit_word_eqI)
    (auto simp: ROTATE_left_def bit_simps bit_word_rotl_iff mod_if add.commute dest: bit_imp_le_length)

lemma ROTATE_right_rotr:
  "0 < n \<Longrightarrow> n < LENGTH('a) \<Longrightarrow> ROTATE_right (x :: 'a::len word) n = word_rotr n x"
  by (rule bit_word_eqI)
    (auto simp: ROTATE_right_def bit_simps bit_word_rotr_iff mod_if add.commute dest: bit_imp_le_length)

lemma ucast_byte_of_half:
  "(ucast (drop_bit k (ucast (drop_bit 32 (n :: u64)) :: u32)) :: u8) = ucast (drop_bit (32 + k) n)"
  if "k \<le> 24" using that
  by (intro bit_word_eqI) (auto simp: bit_simps ac_simps)

lemma ucast_byte_of_low:
  "(ucast (drop_bit k (ucast (n :: u64) :: u32)) :: u8) = ucast (drop_bit k n)"
  if "k \<le> 24" using that
  by (intro bit_word_eqI) (auto simp: bit_simps ac_simps)

lemmas half_bytes =
  ucast_byte_of_half [of 0] ucast_byte_of_half [of 8] ucast_byte_of_half [of 16] ucast_byte_of_half [of 24]
  ucast_byte_of_low [of 0] ucast_byte_of_low [of 8] ucast_byte_of_low [of 16] ucast_byte_of_low [of 24]

lemma store_length_be_ends:
  "length inp = 64 \<Longrightarrow> store_length_be n inp = Some (take (64 - 8) inp @ be64_bytes n)"
  using half_bytes [of n]
  by (simp add: store_length_be_def WriteLong_be_def ILMemCpy_def be32_bytes_def be64_bytes_def)

lemma store_length_le_ends:
  "length inp = 64 \<Longrightarrow> store_length_le n inp = Some (take (64 - 8) inp @ le64_bytes n)"
  using half_bytes [of n]
  by (simp add: store_length_le_def WriteLong_le_def ILMemCpy_def le32_bytes_def le64_bytes_def upt_rec)

lemma length_be64_bytes [simp]: "length (be64_bytes n) = 8"
  by (simp add: be64_bytes_def)

lemma length_le64_bytes [simp]: "length (le64_bytes n) = 8"
  by (simp add: le64_bytes_def)

lemma or_shifted_bytes:
  fixes a b c d :: u8
  shows "push_bit 24 (ucast a) OR push_bit 16 (ucast b) OR push_bit 8 (ucast c) OR ucast d =
    (word_of_nat (2 ^ 24 * unat a + 2 ^ 16 * unat b + 2 ^ 8 * unat c + unat d) :: u32)"
proof -
  have "(word_of_nat (2 ^ 24 * unat a + 2 ^ 16 * unat b + 2 ^ 8 * unat c + unat d) :: u32) =
      push_bit 24 (ucast a) + (push_bit 16 (ucast b) + (push_bit 8 (ucast c) + ucast d))"
    by (simp add: push_bit_eq_mult ac_simps)
  also have "push_bit 8 (ucast c) + ucast d = (push_bit 8 (ucast c) OR ucast d :: u32)"
    by (rule disjunctive_add_eq_or, rule word32_eqI) (auto simp: bit_simps dest: bit_imp_le_length)
  also have "push_bit 16 (ucast b) + (push_bit 8 (ucast c) OR ucast d) =
      (push_bit 16 (ucast b) OR push_bit 8 (ucast c) OR ucast d :: u32)"
    by (rule disjunctive_add_eq_or, rule word32_eqI) (auto simp: bit_simps dest: bit_imp_le_length)
  also have "push_bit 24 (ucast a) + (push_bit 16 (ucast b) OR push_bit 8 (ucast c) OR ucast d) =
      (push_bit 24 (ucast a) OR push_bit 16 (ucast b) OR push_bit 8 (ucast c) OR ucast d :: u32)"
    by (rule disjunctive_add_eq_or, rule word32_eqI) (auto simp: bit_simps dest: bit_imp_le_length)
  finally show ?thesis ..
qed

lemma unpack_be32_words:
  "length block = 64 \<Longrightarrow> unpack_be32 block = Some (map (be_word block) [0..<16])"
  by (simp add: unpack_be32_def or_shifted_bytes be_word_def mult.commute)

lemma unpack_le32_words:
  "length block = 64 \<Longrightarrow> unpack_le32 block = Some (map (le_word block) [0..<16])"
  by (simp add: unpack_le32_def or_shifted_bytes le_word_def mult.commute add.commute add.left_commute)

text \<open>
  Unrolled code is a chain of \<^verbatim>\<open>let\<close> bindings.  \<open>hold\<close> is a binding that the simplifier
  does not inline, so that a chain keeps its size while a loop is unrolled beside it.
\<close>

definition hold :: "'a \<Rightarrow> ('a \<Rightarrow> 'b) \<Rightarrow> 'b" where
  "hold = Let"

lemma upt_64:
  "[0..<64] = [0, 1, 2, 3, 4, 5, 6, 7, 8, 9, 10, 11, 12, 13, 14, 15, 16, 17, 18, 19,
     20, 21, 22, 23, 24, 25, 26, 27, 28, 29, 30, 31, 32, 33, 34, 35, 36, 37, 38, 39,
     40, 41, 42, 43, 44, 45, 46, 47, 48, 49, 50, 51, 52, 53, 54, 55, 56, 57, 58, 59,
     60, 61, 62, 63]"
  by (simp add: upt_rec)

lemma upt_80:
  "[0..<80] = [0, 1, 2, 3, 4, 5, 6, 7, 8, 9, 10, 11, 12, 13, 14, 15, 16, 17, 18, 19,
     20, 21, 22, 23, 24, 25, 26, 27, 28, 29, 30, 31, 32, 33, 34, 35, 36, 37, 38, 39,
     40, 41, 42, 43, 44, 45, 46, 47, 48, 49, 50, 51, 52, 53, 54, 55, 56, 57, 58, 59,
     60, 61, 62, 63, 64, 65, 66, 67, 68, 69, 70, 71, 72, 73, 74, 75, 76, 77, 78, 79]"
  by (simp add: upt_rec)

text \<open>A loop that appends one element after another computes a sequence given by a recurrence.\<close>

lemma schedule_loop:
  assumes "\<And>n. m \<le> n \<Longrightarrow> n < k \<Longrightarrow> g (map W [0..<n]) n = W n" and "m \<le> k"
  shows "foldl (\<lambda>xs t. xs @ [g xs t]) (map W [0..<m]) [m..<k] = map W [0..<k]"
  using assms(2,1)
proof (induction k rule: dec_induct)
  case (step n)
  then show ?case by simp
qed simp

lemma foldl_upt_shift:
  "foldl (\<lambda>s t. f s (t + k)) s [i..<j] = foldl f s [i + k..<j + k]"
proof (induction j)
  case (Suc j)
  then show ?case by (cases "i \<le> j") simp_all
qed simp

lemma foldl_upt_join:
  "i \<le> j \<Longrightarrow> j \<le> k \<Longrightarrow> foldl f (foldl f s [i..<j]) [j..<k] = foldl f s [i..<k]"
  by (metis foldl_append upt_add_eq_append le_Suc_ex)

lemma foldl_upt_cong:
  "(\<And>s t. i \<le> t \<Longrightarrow> t < j \<Longrightarrow> f s t = g s t) \<Longrightarrow> foldl f s [i..<j] = foldl g s [i..<j]"
  by (rule foldl_cong) auto

end
