(* ===== verification/Md5.thy ===== *)
theory Md5
  imports HashStream
begin

text \<open>
  \<^verbatim>\<open>support/md5.c\<close>.  \<open>md5_ProcessBlock\<close> translates the block function, its sixty-four
  unrolled steps one by one; \<open>md5_compress\<close> is the loop of RFC 1321, with the rotation
  of the registers and the choice of message word, shift and function given by the
  step number.  The two agree on every block.
\<close>

type_synonym md5_regs = "u32 \<times> u32 \<times> u32 \<times> u32"

section \<open>The code\<close>

definition md5_FROUND1 :: "u32 \<Rightarrow> u32 \<Rightarrow> u32 \<Rightarrow> u32" where
  "md5_FROUND1 x y z = (x AND y) OR (NOT x AND z)"

definition md5_FROUND2 :: "u32 \<Rightarrow> u32 \<Rightarrow> u32 \<Rightarrow> u32" where
  "md5_FROUND2 x y z = (x AND z) OR (y AND NOT z)"

definition md5_FROUND3 :: "u32 \<Rightarrow> u32 \<Rightarrow> u32 \<Rightarrow> u32" where
  "md5_FROUND3 x y z = x XOR y XOR z"

definition md5_FROUND4 :: "u32 \<Rightarrow> u32 \<Rightarrow> u32 \<Rightarrow> u32" where
  "md5_FROUND4 x y z = y XOR (x OR NOT z)"

definition md5_FFROUND1 :: "u32 \<Rightarrow> u32 \<Rightarrow> u32 \<Rightarrow> u32 \<Rightarrow> u32 \<Rightarrow> nat \<Rightarrow> u32 \<Rightarrow> u32" where
  "md5_FFROUND1 a b c d m s t =
     (let a = a + md5_FROUND1 b c d + m + t in ROTATE_left a s + b)"

definition md5_FFROUND2 :: "u32 \<Rightarrow> u32 \<Rightarrow> u32 \<Rightarrow> u32 \<Rightarrow> u32 \<Rightarrow> nat \<Rightarrow> u32 \<Rightarrow> u32" where
  "md5_FFROUND2 a b c d m s t =
     (let a = a + md5_FROUND2 b c d + m + t in ROTATE_left a s + b)"

definition md5_FFROUND3 :: "u32 \<Rightarrow> u32 \<Rightarrow> u32 \<Rightarrow> u32 \<Rightarrow> u32 \<Rightarrow> nat \<Rightarrow> u32 \<Rightarrow> u32" where
  "md5_FFROUND3 a b c d m s t =
     (let a = a + md5_FROUND3 b c d + m + t in ROTATE_left a s + b)"

definition md5_FFROUND4 :: "u32 \<Rightarrow> u32 \<Rightarrow> u32 \<Rightarrow> u32 \<Rightarrow> u32 \<Rightarrow> nat \<Rightarrow> u32 \<Rightarrow> u32" where
  "md5_FFROUND4 a b c d m s t =
     (let a = a + md5_FROUND4 b c d + m + t in ROTATE_left a s + b)"

definition ILMD5Init :: "md5_regs hash_context \<Rightarrow> md5_regs hash_context" where
  "ILMD5Init md5 = md5\<lparr>inputLen := 0,
     regs := (0x67452301, 0xEFCDAB89, 0x98BADCFE, 0x10325476), totalLen := 0\<rparr>"

definition md5_steps :: "u32 list \<Rightarrow> u32 \<Rightarrow> u32 \<Rightarrow> u32 \<Rightarrow> u32 \<Rightarrow> md5_regs" where
  "md5_steps W a b c d = (let
       a = md5_FFROUND1 a b c d (W ! 0) 7 0xD76AA478;
       d = md5_FFROUND1 d a b c (W ! 1) 12 0xE8C7B756;
       c = md5_FFROUND1 c d a b (W ! 2) 17 0x242070DB;
       b = md5_FFROUND1 b c d a (W ! 3) 22 0xC1BDCEEE;
       a = md5_FFROUND1 a b c d (W ! 4) 7 0xF57C0FAF;
       d = md5_FFROUND1 d a b c (W ! 5) 12 0x4787C62A;
       c = md5_FFROUND1 c d a b (W ! 6) 17 0xA8304613;
       b = md5_FFROUND1 b c d a (W ! 7) 22 0xFD469501;
       a = md5_FFROUND1 a b c d (W ! 8) 7 0x698098D8;
       d = md5_FFROUND1 d a b c (W ! 9) 12 0x8B44F7AF;
       c = md5_FFROUND1 c d a b (W ! 10) 17 0xFFFF5BB1;
       b = md5_FFROUND1 b c d a (W ! 11) 22 0x895CD7BE;
       a = md5_FFROUND1 a b c d (W ! 12) 7 0x6B901122;
       d = md5_FFROUND1 d a b c (W ! 13) 12 0xFD987193;
       c = md5_FFROUND1 c d a b (W ! 14) 17 0xA679438E;
       b = md5_FFROUND1 b c d a (W ! 15) 22 0x49B40821;
       a = md5_FFROUND2 a b c d (W ! 1) 5 0xF61E2562;
       d = md5_FFROUND2 d a b c (W ! 6) 9 0xC040B340;
       c = md5_FFROUND2 c d a b (W ! 11) 14 0x265E5A51;
       b = md5_FFROUND2 b c d a (W ! 0) 20 0xE9B6C7AA;
       a = md5_FFROUND2 a b c d (W ! 5) 5 0xD62F105D;
       d = md5_FFROUND2 d a b c (W ! 10) 9 0x02441453;
       c = md5_FFROUND2 c d a b (W ! 15) 14 0xD8A1E681;
       b = md5_FFROUND2 b c d a (W ! 4) 20 0xE7D3FBC8;
       a = md5_FFROUND2 a b c d (W ! 9) 5 0x21E1CDE6;
       d = md5_FFROUND2 d a b c (W ! 14) 9 0xC33707D6;
       c = md5_FFROUND2 c d a b (W ! 3) 14 0xF4D50D87;
       b = md5_FFROUND2 b c d a (W ! 8) 20 0x455A14ED;
       a = md5_FFROUND2 a b c d (W ! 13) 5 0xA9E3E905;
       d = md5_FFROUND2 d a b c (W ! 2) 9 0xFCEFA3F8;
       c = md5_FFROUND2 c d a b (W ! 7) 14 0x676F02D9;
       b = md5_FFROUND2 b c d a (W ! 12) 20 0x8D2A4C8A;
       a = md5_FFROUND3 a b c d (W ! 5) 4 0xFFFA3942;
       d = md5_FFROUND3 d a b c (W ! 8) 11 0x8771F681;
       c = md5_FFROUND3 c d a b (W ! 11) 16 0x6D9D6122;
       b = md5_FFROUND3 b c d a (W ! 14) 23 0xFDE5380C;
       a = md5_FFROUND3 a b c d (W ! 1) 4 0xA4BEEA44;
       d = md5_FFROUND3 d a b c (W ! 4) 11 0x4BDECFA9;
       c = md5_FFROUND3 c d a b (W ! 7) 16 0xF6BB4B60;
       b = md5_FFROUND3 b c d a (W ! 10) 23 0xBEBFBC70;
       a = md5_FFROUND3 a b c d (W ! 13) 4 0x289B7EC6;
       d = md5_FFROUND3 d a b c (W ! 0) 11 0xEAA127FA;
       c = md5_FFROUND3 c d a b (W ! 3) 16 0xD4EF3085;
       b = md5_FFROUND3 b c d a (W ! 6) 23 0x04881D05;
       a = md5_FFROUND3 a b c d (W ! 9) 4 0xD9D4D039;
       d = md5_FFROUND3 d a b c (W ! 12) 11 0xE6DB99E5;
       c = md5_FFROUND3 c d a b (W ! 15) 16 0x1FA27CF8;
       b = md5_FFROUND3 b c d a (W ! 2) 23 0xC4AC5665;
       a = md5_FFROUND4 a b c d (W ! 0) 6 0xF4292244;
       d = md5_FFROUND4 d a b c (W ! 7) 10 0x432AFF97;
       c = md5_FFROUND4 c d a b (W ! 14) 15 0xAB9423A7;
       b = md5_FFROUND4 b c d a (W ! 5) 21 0xFC93A039;
       a = md5_FFROUND4 a b c d (W ! 12) 6 0x655B59C3;
       d = md5_FFROUND4 d a b c (W ! 3) 10 0x8F0CCC92;
       c = md5_FFROUND4 c d a b (W ! 10) 15 0xFFEFF47D;
       b = md5_FFROUND4 b c d a (W ! 1) 21 0x85845DD1;
       a = md5_FFROUND4 a b c d (W ! 8) 6 0x6FA87E4F;
       d = md5_FFROUND4 d a b c (W ! 15) 10 0xFE2CE6E0;
       c = md5_FFROUND4 c d a b (W ! 6) 15 0xA3014314;
       b = md5_FFROUND4 b c d a (W ! 13) 21 0x4E0811A1;
       a = md5_FFROUND4 a b c d (W ! 4) 6 0xF7537E82;
       d = md5_FFROUND4 d a b c (W ! 11) 10 0xBD3AF235;
       c = md5_FFROUND4 c d a b (W ! 2) 15 0x2AD7D2BB;
       b = md5_FFROUND4 b c d a (W ! 9) 21 0xEB86D391
     in (a, b, c, d))"

definition md5_ProcessBlock :: "bytes \<Rightarrow> md5_regs \<Rightarrow> md5_regs option" where
  "md5_ProcessBlock block md5 = (case md5 of (A, B, C, D) \<Rightarrow> do {
     W \<leftarrow> unpack_le32 block;
     let (a, b, c, d) = md5_steps W A B C D;
     Some (A + a, B + b, C + c, D + d)
   })"

definition ILMD5Data :: "md5_regs hash_context \<Rightarrow> bytes \<Rightarrow> md5_regs hash_context option" where
  "ILMD5Data = hash_Data 64 md5_ProcessBlock"

definition md5_write_hash :: "md5_regs \<Rightarrow> bytes \<Rightarrow> bytes option" where
  "md5_write_hash md5 hash = (case md5 of (A, B, C, D) \<Rightarrow> do {
     hash \<leftarrow> WriteLong_le hash 0 A;
     hash \<leftarrow> WriteLong_le hash 4 B;
     hash \<leftarrow> WriteLong_le hash 8 C;
     WriteLong_le hash 12 D
   })"

definition ILMD5Finalize ::
  "md5_regs hash_context \<Rightarrow> bytes option \<Rightarrow> (bytes option \<times> md5_regs hash_context) option" where
  "ILMD5Finalize =
     hash_Finalize 64 8 md5_ProcessBlock store_length_le md5_write_hash (0, 0, 0, 0)"

section \<open>The standard\<close>

definition md5_T :: "u32 list list" where
  "md5_T = [
   [0xD76AA478, 0xE8C7B756, 0x242070DB, 0xC1BDCEEE,
    0xF57C0FAF, 0x4787C62A, 0xA8304613, 0xFD469501,
    0x698098D8, 0x8B44F7AF, 0xFFFF5BB1, 0x895CD7BE,
    0x6B901122, 0xFD987193, 0xA679438E, 0x49B40821],
   [0xF61E2562, 0xC040B340, 0x265E5A51, 0xE9B6C7AA,
    0xD62F105D, 0x02441453, 0xD8A1E681, 0xE7D3FBC8,
    0x21E1CDE6, 0xC33707D6, 0xF4D50D87, 0x455A14ED,
    0xA9E3E905, 0xFCEFA3F8, 0x676F02D9, 0x8D2A4C8A],
   [0xFFFA3942, 0x8771F681, 0x6D9D6122, 0xFDE5380C,
    0xA4BEEA44, 0x4BDECFA9, 0xF6BB4B60, 0xBEBFBC70,
    0x289B7EC6, 0xEAA127FA, 0xD4EF3085, 0x04881D05,
    0xD9D4D039, 0xE6DB99E5, 0x1FA27CF8, 0xC4AC5665],
   [0xF4292244, 0x432AFF97, 0xAB9423A7, 0xFC93A039,
    0x655B59C3, 0x8F0CCC92, 0xFFEFF47D, 0x85845DD1,
    0x6FA87E4F, 0xFE2CE6E0, 0xA3014314, 0x4E0811A1,
    0xF7537E82, 0xBD3AF235, 0x2AD7D2BB, 0xEB86D391]]"

definition md5_shift :: "nat \<Rightarrow> nat" where
  "md5_shift i = [7, 12, 17, 22, 5, 9, 14, 20, 4, 11, 16, 23, 6, 10, 15, 21] ! (4 * (i div 16) + i mod 4)"

definition md5_word :: "nat \<Rightarrow> nat" where
  "md5_word i =
     (if i < 16 then i else if i < 32 then (5 * i + 1) mod 16
      else if i < 48 then (3 * i + 5) mod 16 else (7 * i) mod 16)"

definition md5_f :: "nat \<Rightarrow> u32 \<Rightarrow> u32 \<Rightarrow> u32 \<Rightarrow> u32" where
  "md5_f i x y z =
     (if i < 16 then (x AND y) OR (NOT x AND z)
      else if i < 32 then (z AND x) OR (NOT z AND y)
      else if i < 48 then x XOR y XOR z
      else y XOR (x OR NOT z))"

definition md5_step :: "u32 list \<Rightarrow> md5_regs \<Rightarrow> nat \<Rightarrow> md5_regs" where
  "md5_step X s i = (case s of (a, b, c, d) \<Rightarrow>
     (d, b + word_rotl (md5_shift i) (a + md5_f i b c d + X ! md5_word i + md5_T ! (i div 16) ! (i mod 16)), b, c))"

definition md5_compress :: "bytes \<Rightarrow> md5_regs \<Rightarrow> md5_regs" where
  "md5_compress block h =
     (case h of (A, B, C, D) \<Rightarrow>
      case foldl (md5_step (map (le_word block) [0..<16])) h [0..<64] of (a, b, c, d) \<Rightarrow>
       (A + a, B + b, C + c, D + d))"

definition md5_digest :: "md5_regs \<Rightarrow> bytes" where
  "md5_digest s = (case s of (a, b, c, d) \<Rightarrow> concat (map le32_bytes [a, b, c, d]))"

definition md5_hash :: "bytes \<Rightarrow> bytes" where
  "md5_hash = md_hash 64 8 md5_compress
     (0x67452301, 0xEFCDAB89, 0x98BADCFE, 0x10325476) md5_digest le64_bytes"

section \<open>The code computes the standard\<close>

text \<open>Each macro call is a step; the names of the registers rotate in the code, the values in the standard.\<close>

lemma md5_shift_less: "i < 64 \<Longrightarrow> md5_shift i < 32"
proof -
  assume "i < 64"
  then have "i div 16 < 4" by (simp add: less_mult_imp_div_less)
  moreover have "i mod 4 < 4" by simp
  ultimately have "4 * (i div 16) + i mod 4 < 16" by linarith
  then show ?thesis
    unfolding md5_shift_def
    using nth_mem [of "4 * (i div 16) + i mod 4" "[7, 12, 17, 22, 5, 9, 14, 20, 4, 11, 16, 23, 6, 10, 15, 21 :: nat]"]
    by (auto simp del: nth_mem)
qed

lemma md5_rotation: "i < 64 \<Longrightarrow> ROTATE_left (x :: u32) (md5_shift i) = word_rotl (md5_shift i) x"
  using md5_shift_less [of i] by (simp add: ROTATE_left_rotl)

lemma md5_round_step:
  "i < 16 \<Longrightarrow> foldl (md5_step X) (a, b, c, d) (i # is) =
     hold (md5_FFROUND1 a b c d (X ! md5_word i) (md5_shift i) (md5_T ! (i div 16) ! (i mod 16)))
       (\<lambda>n. foldl (md5_step X) (d, n, b, c) is)"
  "16 \<le> i \<Longrightarrow> i < 32 \<Longrightarrow> foldl (md5_step X) (a, b, c, d) (i # is) =
     hold (md5_FFROUND2 a b c d (X ! md5_word i) (md5_shift i) (md5_T ! (i div 16) ! (i mod 16)))
       (\<lambda>n. foldl (md5_step X) (d, n, b, c) is)"
  "32 \<le> i \<Longrightarrow> i < 48 \<Longrightarrow> foldl (md5_step X) (a, b, c, d) (i # is) =
     hold (md5_FFROUND3 a b c d (X ! md5_word i) (md5_shift i) (md5_T ! (i div 16) ! (i mod 16)))
       (\<lambda>n. foldl (md5_step X) (d, n, b, c) is)"
  "48 \<le> i \<Longrightarrow> i < 64 \<Longrightarrow> foldl (md5_step X) (a, b, c, d) (i # is) =
     hold (md5_FFROUND4 a b c d (X ! md5_word i) (md5_shift i) (md5_T ! (i div 16) ! (i mod 16)))
       (\<lambda>n. foldl (md5_step X) (d, n, b, c) is)"
  by (simp_all add: md5_step_def md5_FFROUND1_def md5_FFROUND2_def md5_FFROUND3_def md5_FFROUND4_def
        md5_FROUND1_def md5_FROUND2_def md5_FROUND3_def md5_FROUND4_def md5_f_def Let_def hold_def
        md5_rotation ac_simps)

lemma md5_steps_loop: "md5_steps W a b c d = foldl (md5_step W) (a, b, c, d) [0..<64]"
  unfolding md5_steps_def hold_def [symmetric] upt_64
  by (simp add: md5_round_step md5_word_def md5_shift_def md5_T_def del: foldl_Cons)

lemma md5_ProcessBlock_compress:
  "length block = 64 \<Longrightarrow> md5_ProcessBlock block h = Some (md5_compress block h)"
  by (simp add: md5_ProcessBlock_def unpack_le32_words md5_steps_loop md5_compress_def
        split: prod.split del: upt_rec_numeral)

interpretation md5: block_hash 64 8 16 md5_ProcessBlock store_length_le md5_write_hash
  "(0, 0, 0, 0)" md5_compress le64_bytes md5_digest
proof unfold_locales
  fix buf :: bytes and r :: md5_regs
  assume "length buf = 16"
  then show "md5_write_hash r buf = Some (md5_digest r)"
    by (simp add: md5_write_hash_def md5_digest_def WriteLong_le_def ILMemCpy_def le32_bytes_def
          split: prod.split)
qed (simp_all add: md5_ProcessBlock_compress store_length_le_ends)

text \<open>C20: MD5.  Whatever the context held before \<^verbatim>\<open>ILMD5Init\<close>, and however the message
  is cut into calls of \<^verbatim>\<open>ILMD5Data\<close>, every call returns and stays inside its arrays,
  \<^verbatim>\<open>ILMD5Finalize\<close> writes the RFC 1321 digest of the whole message, and the context ends
  all zero.
\<close>

theorem md5_stream:
  assumes "length (input stale) = 64" and "length buf = 16"
  shows "do { c \<leftarrow> hash_chunks ILMD5Data (ILMD5Init stale) bs; ILMD5Finalize c (Some buf) } =
    Some (Some (md5_hash (concat bs)),
          \<lparr>input = replicate 64 0, inputLen = 0, regs = (0, 0, 0, 0), totalLen = 0\<rparr>)"
  unfolding ILMD5Data_def ILMD5Finalize_def md5_hash_def
  by (rule md5.stream_digests) (simp_all add: assms ILMD5Init_def)

theorem md5_stream_witness:
  "length (input \<lparr>input = replicate 64 (0xFF :: u8), inputLen = 9, regs = (0, 0, 0, 0), totalLen = 77\<rparr>) = 64 \<and>
   do { c \<leftarrow> hash_chunks ILMD5Data
          (ILMD5Init \<lparr>input = replicate 64 0xFF, inputLen = 9, regs = (0, 0, 0, 0), totalLen = 77\<rparr>)
          [[0x61], [0x62, 0x63]];
        ILMD5Finalize c (Some (replicate 16 0)) } =
     Some (Some (md5_hash [0x61, 0x62, 0x63]),
       \<lparr>input = replicate 64 0, inputLen = 0, regs = (0, 0, 0, 0), totalLen = 0\<rparr>)"
  using md5_stream [of "\<lparr>input = replicate 64 0xFF, inputLen = 9, regs = (0, 0, 0, 0), totalLen = 77\<rparr>"
      "replicate 16 0" "[[0x61], [0x62, 0x63]]"] by simp

end
