(* ===== verification/Sha1.thy ===== *)
theory Sha1
  imports HashStream
begin

text \<open>
  \<^verbatim>\<open>support/sha1.c\<close>.  \<open>sha1_ProcessBlock\<close> translates the block function with its four
  loops of twenty rounds; \<open>sha1_compress\<close> is the compression function of FIPS 180,
  one loop of eighty rounds over the message schedule given by its recurrence.
  The two agree on every block, so the interpretation of \<open>block_hash\<close> makes every
  sequence of \<^verbatim>\<open>ILSHAData\<close> calls compute the SHA-1 digest of the whole message.
\<close>

type_synonym sha_regs = "u32 \<times> u32 \<times> u32 \<times> u32 \<times> u32"

section \<open>The code\<close>

definition FROUND1 :: "u32 \<Rightarrow> u32 \<Rightarrow> u32 \<Rightarrow> u32" where
  "FROUND1 x y z = (x AND y) OR (NOT x AND z)"

definition FROUND2 :: "u32 \<Rightarrow> u32 \<Rightarrow> u32 \<Rightarrow> u32" where
  "FROUND2 x y z = x XOR y XOR z"

definition FROUND3 :: "u32 \<Rightarrow> u32 \<Rightarrow> u32 \<Rightarrow> u32" where
  "FROUND3 x y z = (x AND y) OR (x AND z) OR (y AND z)"

definition FROUND4 :: "u32 \<Rightarrow> u32 \<Rightarrow> u32 \<Rightarrow> u32" where
  "FROUND4 x y z = x XOR y XOR z"

definition KROUND1 :: u32 where "KROUND1 = 0x5A827999"
definition KROUND2 :: u32 where "KROUND2 = 0x6ED9EBA1"
definition KROUND3 :: u32 where "KROUND3 = 0x8F1BBCDC"
definition KROUND4 :: u32 where "KROUND4 = 0xCA62C1D6"

definition ILSHAInit :: "sha_regs hash_context \<Rightarrow> sha_regs hash_context" where
  "ILSHAInit sha = sha\<lparr>inputLen := 0,
     regs := (0x67452301, 0xEFCDAB89, 0x98BADCFE, 0x10325476, 0xC3D2E1F0), totalLen := 0\<rparr>"

text \<open>The body of each of the four round loops.\<close>

definition sha1_round :: "(u32 \<Rightarrow> u32 \<Rightarrow> u32 \<Rightarrow> u32) \<Rightarrow> u32 \<Rightarrow> u32 \<Rightarrow> sha_regs \<Rightarrow> sha_regs" where
  "sha1_round FROUND K w s = (case s of (a, b, c, d, e) \<Rightarrow>
     let temp = ROTATE_left a 5 + FROUND b c d + e + w + K
     in (temp, a, ROTATE_left b 30, c, d))"

definition sha1_schedule :: "u32 list \<Rightarrow> u32 list" where
  "sha1_schedule W = foldl (\<lambda>W t.
     let temp = W ! (t - 3) XOR W ! (t - 8) XOR W ! (t - 14) XOR W ! (t - 16)
     in W @ [ROTATE_left temp 1]) W [16..<80]"

definition sha1_ProcessBlock :: "bytes \<Rightarrow> sha_regs \<Rightarrow> sha_regs option" where
  "sha1_ProcessBlock block sha = do {
     W \<leftarrow> unpack_be32 block;
     let W = sha1_schedule W;
     let s = foldl (\<lambda>s t. sha1_round FROUND1 KROUND1 (W ! t) s) sha [0..<20];
     let s = foldl (\<lambda>s t. sha1_round FROUND2 KROUND2 (W ! (t + 20)) s) s [0..<20];
     let s = foldl (\<lambda>s t. sha1_round FROUND3 KROUND3 (W ! (t + 40)) s) s [0..<20];
     let s = foldl (\<lambda>s t. sha1_round FROUND4 KROUND4 (W ! (t + 60)) s) s [0..<20];
     Some (case sha of (A, B, C, D, E) \<Rightarrow> case s of (a, b, c, d, e) \<Rightarrow>
       (A + a, B + b, C + c, D + d, E + e))
   }"

definition ILSHAData :: "sha_regs hash_context \<Rightarrow> bytes \<Rightarrow> sha_regs hash_context option" where
  "ILSHAData = hash_Data 64 sha1_ProcessBlock"

definition sha1_write_hash :: "sha_regs \<Rightarrow> bytes \<Rightarrow> bytes option" where
  "sha1_write_hash sha hash = (case sha of (A, B, C, D, E) \<Rightarrow> do {
     hash \<leftarrow> WriteLong_be hash 0 A;
     hash \<leftarrow> WriteLong_be hash 4 B;
     hash \<leftarrow> WriteLong_be hash 8 C;
     hash \<leftarrow> WriteLong_be hash 12 D;
     WriteLong_be hash 16 E
   })"

definition ILSHAFinalize ::
  "sha_regs hash_context \<Rightarrow> bytes option \<Rightarrow> (bytes option \<times> sha_regs hash_context) option" where
  "ILSHAFinalize =
     hash_Finalize 64 8 sha1_ProcessBlock store_length_be sha1_write_hash (0, 0, 0, 0, 0)"

section \<open>The standard\<close>

fun sha1_W :: "bytes \<Rightarrow> nat \<Rightarrow> u32" where
  "sha1_W block t =
     (if t < 16 then be_word block t
      else word_rotl 1 (sha1_W block (t - 3) XOR sha1_W block (t - 8) XOR
             sha1_W block (t - 14) XOR sha1_W block (t - 16)))"

declare sha1_W.simps [simp del]

definition sha1_f :: "nat \<Rightarrow> u32 \<Rightarrow> u32 \<Rightarrow> u32 \<Rightarrow> u32" where
  "sha1_f t x y z =
     (if t < 20 then (x AND y) XOR (NOT x AND z)
      else if 40 \<le> t \<and> t < 60 then (x AND y) XOR (x AND z) XOR (y AND z)
      else x XOR y XOR z)"

definition sha1_K :: "nat \<Rightarrow> u32" where
  "sha1_K t =
     (if t < 20 then 0x5A827999 else if t < 40 then 0x6ED9EBA1
      else if t < 60 then 0x8F1BBCDC else 0xCA62C1D6)"

definition sha1_step :: "bytes \<Rightarrow> sha_regs \<Rightarrow> nat \<Rightarrow> sha_regs" where
  "sha1_step block s t = (case s of (a, b, c, d, e) \<Rightarrow>
     (word_rotl 5 a + sha1_f t b c d + e + sha1_W block t + sha1_K t, a, word_rotl 30 b, c, d))"

definition sha1_compress :: "bytes \<Rightarrow> sha_regs \<Rightarrow> sha_regs" where
  "sha1_compress block h =
     (case h of (A, B, C, D, E) \<Rightarrow> case foldl (sha1_step block) h [0..<80] of (a, b, c, d, e) \<Rightarrow>
       (A + a, B + b, C + c, D + d, E + e))"

definition sha1_digest :: "sha_regs \<Rightarrow> bytes" where
  "sha1_digest s = (case s of (a, b, c, d, e) \<Rightarrow> concat (map be32_bytes [a, b, c, d, e]))"

definition sha1_hash :: "bytes \<Rightarrow> bytes" where
  "sha1_hash = md_hash 64 8 sha1_compress
     (0x67452301, 0xEFCDAB89, 0x98BADCFE, 0x10325476, 0xC3D2E1F0) sha1_digest be64_bytes"

section \<open>The code computes the standard\<close>

lemma sha1_schedule_W:
  "sha1_schedule (map (be_word block) [0..<16]) = map (sha1_W block) [0..<80]"
proof -
  have "map (be_word block) [0..<16] = map (sha1_W block) [0..<16]"
    by (rule map_cong) (simp_all add: sha1_W.simps)
  moreover have "foldl (\<lambda>xs t. xs @ [ROTATE_left (xs ! (t - 3) XOR xs ! (t - 8) XOR xs ! (t - 14) XOR xs ! (t - 16)) 1])
      (map (sha1_W block) [0..<16]) [16..<80] = map (sha1_W block) [0..<80]"
    by (rule schedule_loop) (simp_all add: sha1_W.simps [of block n for n] ROTATE_left_rotl)
  ultimately show ?thesis by (simp only: sha1_schedule_def Let_def)
qed

lemma sha1_rounds:
  "t < 20 \<Longrightarrow> FROUND1 x y z = sha1_f t x y z"
  "20 \<le> t \<Longrightarrow> t < 40 \<Longrightarrow> FROUND2 x y z = sha1_f t x y z"
  "40 \<le> t \<Longrightarrow> t < 60 \<Longrightarrow> FROUND3 x y z = sha1_f t x y z"
  "60 \<le> t \<Longrightarrow> FROUND4 x y z = sha1_f t x y z"
  by (auto intro!: bit_word_eqI simp: bit_simps sha1_f_def FROUND1_def FROUND2_def FROUND3_def FROUND4_def)

lemma sha1_round_step:
  assumes "t < 80" and "\<And>x y z. F x y z = sha1_f t x y z" and "k = sha1_K t"
  shows "sha1_round F k (map (sha1_W block) [0..<80] ! t) s = sha1_step block s t"
  using assms
  by (simp add: sha1_round_def sha1_step_def Let_def ROTATE_left_rotl ac_simps split: prod.split)

lemma sha1_loops:
  fixes block :: bytes
  defines "W \<equiv> map (sha1_W block) [0..<80]"
  shows "foldl (\<lambda>s t. sha1_round FROUND1 KROUND1 (W ! t) s) s [0..<20] = foldl (sha1_step block) s [0..<20]"
    and "foldl (\<lambda>s t. sha1_round FROUND2 KROUND2 (W ! (t + 20)) s) s [0..<20] = foldl (sha1_step block) s [20..<40]"
    and "foldl (\<lambda>s t. sha1_round FROUND3 KROUND3 (W ! (t + 40)) s) s [0..<20] = foldl (sha1_step block) s [40..<60]"
    and "foldl (\<lambda>s t. sha1_round FROUND4 KROUND4 (W ! (t + 60)) s) s [0..<20] = foldl (sha1_step block) s [60..<80]"
proof -
  show "foldl (\<lambda>s t. sha1_round FROUND1 KROUND1 (W ! t) s) s [0..<20] = foldl (sha1_step block) s [0..<20]"
    unfolding W_def
    by (intro foldl_upt_cong sha1_round_step) (auto simp: sha1_rounds KROUND1_def sha1_K_def)
  show "foldl (\<lambda>s t. sha1_round FROUND2 KROUND2 (W ! (t + 20)) s) s [0..<20] = foldl (sha1_step block) s [20..<40]"
    unfolding W_def foldl_upt_shift [of "\<lambda>s t. sha1_round FROUND2 KROUND2 (map (sha1_W block) [0..<80] ! t) s"]
    by (simp only: add_0 numeral_plus_numeral semiring_norm, intro foldl_upt_cong sha1_round_step)
      (auto simp: sha1_rounds KROUND2_def sha1_K_def)
  show "foldl (\<lambda>s t. sha1_round FROUND3 KROUND3 (W ! (t + 40)) s) s [0..<20] = foldl (sha1_step block) s [40..<60]"
    unfolding W_def foldl_upt_shift [of "\<lambda>s t. sha1_round FROUND3 KROUND3 (map (sha1_W block) [0..<80] ! t) s"]
    by (simp only: add_0 numeral_plus_numeral semiring_norm, intro foldl_upt_cong sha1_round_step)
      (auto simp: sha1_rounds KROUND3_def sha1_K_def)
  show "foldl (\<lambda>s t. sha1_round FROUND4 KROUND4 (W ! (t + 60)) s) s [0..<20] = foldl (sha1_step block) s [60..<80]"
    unfolding W_def foldl_upt_shift [of "\<lambda>s t. sha1_round FROUND4 KROUND4 (map (sha1_W block) [0..<80] ! t) s"]
    by (simp only: add_0 numeral_plus_numeral semiring_norm, intro foldl_upt_cong sha1_round_step)
      (auto simp: sha1_rounds KROUND4_def sha1_K_def)
qed

lemma sha1_joins:
  "foldl f (foldl f s [0..<20]) [20..<40] = foldl f s [0..<40]"
  "foldl f (foldl f s [0..<40]) [40..<60] = foldl f s [0..<60]"
  "foldl f (foldl f s [0..<60]) [60..<80] = foldl f s [0..<80]"
  by (rule foldl_upt_join; simp)+

lemma sha1_ProcessBlock_compress:
  "length block = 64 \<Longrightarrow> sha1_ProcessBlock block h = Some (sha1_compress block h)"
  by (simp only: sha1_ProcessBlock_def unpack_be32_words sha1_schedule_W sha1_loops
        sha1_joins sha1_compress_def Let_def bind.bind_lunit)

interpretation sha1: block_hash 64 8 20 sha1_ProcessBlock store_length_be sha1_write_hash
  "(0, 0, 0, 0, 0)" sha1_compress be64_bytes sha1_digest
proof unfold_locales
  fix buf :: bytes and r :: sha_regs
  assume "length buf = 20"
  then show "sha1_write_hash r buf = Some (sha1_digest r)"
    by (simp add: sha1_write_hash_def sha1_digest_def WriteLong_be_def ILMemCpy_def be32_bytes_def
          split: prod.split)
qed (simp_all add: sha1_ProcessBlock_compress store_length_be_ends)

text \<open>C19: SHA-1.  Whatever the context held before \<^verbatim>\<open>ILSHAInit\<close>, and however the message
  is cut into calls of \<^verbatim>\<open>ILSHAData\<close>, every call returns and stays inside its arrays,
  \<^verbatim>\<open>ILSHAFinalize\<close> writes the FIPS 180 digest of the whole message, and the context ends
  all zero.
\<close>

theorem sha1_stream:
  assumes "length (input stale) = 64" and "length buf = 20"
  shows "do { c \<leftarrow> hash_chunks ILSHAData (ILSHAInit stale) bs; ILSHAFinalize c (Some buf) } =
    Some (Some (sha1_hash (concat bs)),
          \<lparr>input = replicate 64 0, inputLen = 0, regs = (0, 0, 0, 0, 0), totalLen = 0\<rparr>)"
  unfolding ILSHAData_def ILSHAFinalize_def sha1_hash_def
  by (rule sha1.stream_digests) (simp_all add: assms ILSHAInit_def)

theorem sha1_stream_witness:
  "length (input \<lparr>input = replicate 64 (0xFF :: u8), inputLen = 9, regs = (0, 0, 0, 0, 0), totalLen = 77\<rparr>) = 64 \<and>
   do { c \<leftarrow> hash_chunks ILSHAData
          (ILSHAInit \<lparr>input = replicate 64 0xFF, inputLen = 9, regs = (0, 0, 0, 0, 0), totalLen = 77\<rparr>)
          [[0x61], [0x62, 0x63]];
        ILSHAFinalize c (Some (replicate 20 0)) } =
     Some (Some (sha1_hash [0x61, 0x62, 0x63]),
       \<lparr>input = replicate 64 0, inputLen = 0, regs = (0, 0, 0, 0, 0), totalLen = 0\<rparr>)"
  using sha1_stream [of "\<lparr>input = replicate 64 0xFF, inputLen = 9, regs = (0, 0, 0, 0, 0), totalLen = 77\<rparr>"
      "replicate 20 0" "[[0x61], [0x62, 0x63]]"] by simp

end
