(* ===== verification/Sha256.thy ===== *)
theory Sha256
  imports HashStream
begin

text \<open>
  \<^verbatim>\<open>support/sha256.c\<close>, translated line by line, and the compression function of
  FIPS 180 with the message schedule as a recurrence.  The two agree on every block.
\<close>

type_synonym sha256_regs = "u32 \<times> u32 \<times> u32 \<times> u32 \<times> u32 \<times> u32 \<times> u32 \<times> u32"

section \<open>The code\<close>

definition sha256_CH :: "u32 \<Rightarrow> u32 \<Rightarrow> u32 \<Rightarrow> u32" where
  "sha256_CH x y z = (x AND y) XOR (NOT x AND z)"

definition sha256_MAJ :: "u32 \<Rightarrow> u32 \<Rightarrow> u32 \<Rightarrow> u32" where
  "sha256_MAJ x y z = (x AND y) XOR (x AND z) XOR (y AND z)"

definition sha256_SUM0 :: "u32 \<Rightarrow> u32" where
  "sha256_SUM0 x = ROTATE_right x 2 XOR ROTATE_right x 13 XOR ROTATE_right x 22"

definition sha256_SUM1 :: "u32 \<Rightarrow> u32" where
  "sha256_SUM1 x = ROTATE_right x 6 XOR ROTATE_right x 11 XOR ROTATE_right x 25"

definition sha256_RHO0 :: "u32 \<Rightarrow> u32" where
  "sha256_RHO0 x = ROTATE_right x 7 XOR ROTATE_right x 18 XOR drop_bit 3 x"

definition sha256_RHO1 :: "u32 \<Rightarrow> u32" where
  "sha256_RHO1 x = ROTATE_right x 17 XOR ROTATE_right x 19 XOR drop_bit 10 x"

definition sha256_K :: "u32 list" where
  "sha256_K = [
   0x428A2F98, 0x71374491, 0xB5C0FBCF, 0xE9B5DBA5,
   0x3956C25B, 0x59F111F1, 0x923F82A4, 0xAB1C5ED5,
   0xD807AA98, 0x12835B01, 0x243185BE, 0x550C7DC3,
   0x72BE5D74, 0x80DEB1FE, 0x9BDC06A7, 0xC19BF174,
   0xE49B69C1, 0xEFBE4786, 0x0FC19DC6, 0x240CA1CC,
   0x2DE92C6F, 0x4A7484AA, 0x5CB0A9DC, 0x76F988DA,
   0x983E5152, 0xA831C66D, 0xB00327C8, 0xBF597FC7,
   0xC6E00BF3, 0xD5A79147, 0x06CA6351, 0x14292967,
   0x27B70A85, 0x2E1B2138, 0x4D2C6DFC, 0x53380D13,
   0x650A7354, 0x766A0ABB, 0x81C2C92E, 0x92722C85,
   0xA2BFE8A1, 0xA81A664B, 0xC24B8B70, 0xC76C51A3,
   0xD192E819, 0xD6990624, 0xF40E3585, 0x106AA070,
   0x19A4C116, 0x1E376C08, 0x2748774C, 0x34B0BCB5,
   0x391C0CB3, 0x4ED8AA4A, 0x5B9CCA4F, 0x682E6FF3,
   0x748F82EE, 0x78A5636F, 0x84C87814, 0x8CC70208,
   0x90BEFFFA, 0xA4506CEB, 0xBEF9A3F7, 0xC67178F2]"

definition ILSHA256Init :: "sha256_regs hash_context \<Rightarrow> sha256_regs hash_context" where
  "ILSHA256Init sha = sha\<lparr>inputLen := 0,
     regs := (0x6a09e667, 0xbb67ae85, 0x3c6ef372, 0xa54ff53a,
     0x510e527f, 0x9b05688c, 0x1f83d9ab, 0x5be0cd19), totalLen := 0\<rparr>"

definition sha256_schedule :: "u32 list \<Rightarrow> u32 list" where
  "sha256_schedule W = foldl (\<lambda>W t.
     W @ [sha256_RHO1 (W ! (t - 2)) + W ! (t - 7) + sha256_RHO0 (W ! (t - 15)) + W ! (t - 16)]) W [16..<64]"

text \<open>The body of the round loop.\<close>

definition sha256_round :: "u32 \<Rightarrow> u32 \<Rightarrow> sha256_regs \<Rightarrow> sha256_regs" where
  "sha256_round k w s = (case s of (a, b, c, d, e, f, g, h) \<Rightarrow>
     let temp = h + sha256_SUM1 e + sha256_CH e f g + k + w;
         temp2 = sha256_SUM0 a + sha256_MAJ a b c
     in (temp + temp2, a, b, c, d + temp, e, f, g))"

definition sha256_ProcessBlock :: "bytes \<Rightarrow> sha256_regs \<Rightarrow> sha256_regs option" where
  "sha256_ProcessBlock block sha = do {
     W \<leftarrow> unpack_be32 block;
     let W = sha256_schedule W;
     let s = foldl (\<lambda>s t. sha256_round (sha256_K ! t) (W ! t) s) sha [0..<64];
     Some (case sha of (A, B, C, D, E, F, G, H) \<Rightarrow> case s of (a, b, c, d, e, f, g, h) \<Rightarrow>
       (A + a, B + b, C + c, D + d, E + e, F + f, G + g, H + h))
   }"

definition ILSHA256Data :: "sha256_regs hash_context \<Rightarrow> bytes \<Rightarrow> sha256_regs hash_context option" where
  "ILSHA256Data = hash_Data 64 sha256_ProcessBlock"

definition sha256_write_hash :: "sha256_regs \<Rightarrow> bytes \<Rightarrow> bytes option" where
  "sha256_write_hash sha hash = (case sha of (A, B, C, D, E, F, G, H) \<Rightarrow> do {
     hash \<leftarrow> WriteLong_be hash 0 A;
     hash \<leftarrow> WriteLong_be hash 4 B;
     hash \<leftarrow> WriteLong_be hash 8 C;
     hash \<leftarrow> WriteLong_be hash 12 D;
     hash \<leftarrow> WriteLong_be hash 16 E;
     hash \<leftarrow> WriteLong_be hash 20 F;
     hash \<leftarrow> WriteLong_be hash 24 G;
     WriteLong_be hash 28 H
   })"

definition ILSHA256Finalize ::
  "sha256_regs hash_context \<Rightarrow> bytes option \<Rightarrow> (bytes option \<times> sha256_regs hash_context) option" where
  "ILSHA256Finalize =
     hash_Finalize 64 8 sha256_ProcessBlock store_length_be sha256_write_hash (0, 0, 0, 0, 0, 0, 0, 0)"

section \<open>The standard\<close>

fun sha256_W :: "bytes \<Rightarrow> nat \<Rightarrow> u32" where
  "sha256_W block t =
     (if t < 16 then be_word block t
      else (let x = sha256_W block (t - 2); y = sha256_W block (t - 15)
            in (word_rotr 17 x XOR word_rotr 19 x XOR drop_bit 10 x) + sha256_W block (t - 7) +
               (word_rotr 7 y XOR word_rotr 18 y XOR drop_bit 3 y) + sha256_W block (t - 16)))"

declare sha256_W.simps [simp del]

definition sha256_step :: "bytes \<Rightarrow> sha256_regs \<Rightarrow> nat \<Rightarrow> sha256_regs" where
  "sha256_step block s t = (case s of (a, b, c, d, e, f, g, h) \<Rightarrow>
     let T1 = h + (word_rotr 6 e XOR word_rotr 11 e XOR word_rotr 25 e) +
              ((e AND f) OR (NOT e AND g)) + sha256_K ! t + sha256_W block t;
         T2 = (word_rotr 2 a XOR word_rotr 13 a XOR word_rotr 22 a) +
              ((a AND b) OR (a AND c) OR (b AND c))
     in (T1 + T2, a, b, c, d + T1, e, f, g))"

definition sha256_compress :: "bytes \<Rightarrow> sha256_regs \<Rightarrow> sha256_regs" where
  "sha256_compress block i =
     (case i of (A, B, C, D, E, F, G, H) \<Rightarrow>
      case foldl (sha256_step block) i [0..<64] of (a, b, c, d, e, f, g, h) \<Rightarrow>
       (A + a, B + b, C + c, D + d, E + e, F + f, G + g, H + h))"

definition sha256_digest :: "sha256_regs \<Rightarrow> bytes" where
  "sha256_digest s = (case s of (a, b, c, d, e, f, g, h) \<Rightarrow>
     concat (map be32_bytes [a, b, c, d, e, f, g, h]))"

definition sha256_hash :: "bytes \<Rightarrow> bytes" where
  "sha256_hash = md_hash 64 8 sha256_compress
     (0x6a09e667, 0xbb67ae85, 0x3c6ef372, 0xa54ff53a,
     0x510e527f, 0x9b05688c, 0x1f83d9ab, 0x5be0cd19) sha256_digest be64_bytes"

section \<open>The code computes the standard\<close>

lemma sha256_boolean:
  "sha256_CH x y z = (x AND y) OR (NOT x AND z)"
  "sha256_MAJ x y z = (x AND y) OR (x AND z) OR (y AND z)"
  by (auto intro!: bit_word_eqI simp: bit_simps sha256_CH_def sha256_MAJ_def)

lemmas sha256_sigma = sha256_SUM0_def sha256_SUM1_def sha256_RHO0_def sha256_RHO1_def ROTATE_right_rotr

lemma sha256_schedule_W:
  "sha256_schedule (map (be_word block) [0..<16]) = map (sha256_W block) [0..<64]"
proof -
  have "map (be_word block) [0..<16] = map (sha256_W block) [0..<16]"
    by (rule map_cong) (simp_all add: sha256_W.simps)
  moreover have "foldl (\<lambda>W t. W @ [sha256_RHO1 (W ! (t - 2)) + W ! (t - 7) + sha256_RHO0 (W ! (t - 15)) + W ! (t - 16)])
      (map (sha256_W block) [0..<16]) [16..<64] = map (sha256_W block) [0..<64]"
    by (rule schedule_loop) (simp_all add: sha256_W.simps [of block n for n] sha256_sigma Let_def)
  ultimately show ?thesis by (simp only: sha256_schedule_def)
qed

lemma sha256_loop:
  "foldl (\<lambda>s t. sha256_round (sha256_K ! t) (map (sha256_W block) [0..<64] ! t) s) s [0..<64] =
     foldl (sha256_step block) s [0..<64]"
  by (rule foldl_upt_cong)
    (simp add: sha256_round_def sha256_step_def sha256_boolean sha256_sigma Let_def split: prod.split)

lemma sha256_ProcessBlock_compress:
  "length block = 64 \<Longrightarrow> sha256_ProcessBlock block i = Some (sha256_compress block i)"
  by (simp only: sha256_ProcessBlock_def unpack_be32_words sha256_schedule_W sha256_loop
        sha256_compress_def Let_def bind.bind_lunit)

interpretation sha256: block_hash 64 8 32 sha256_ProcessBlock store_length_be sha256_write_hash
  "(0, 0, 0, 0, 0, 0, 0, 0)" sha256_compress be64_bytes sha256_digest
proof unfold_locales
  fix buf :: bytes and r :: sha256_regs
  assume "length buf = 32"
  then show "sha256_write_hash r buf = Some (sha256_digest r)"
    by (simp add: sha256_write_hash_def sha256_digest_def WriteLong_be_def ILMemCpy_def be32_bytes_def
          split: prod.split)
qed (simp_all add: sha256_ProcessBlock_compress store_length_be_ends)

text \<open>C21: SHA-256.  Whatever the context held before \<^verbatim>\<open>ILSHA256Init\<close>, and however the message
  is cut into calls of \<^verbatim>\<open>ILSHA256Data\<close>, every call returns and stays inside its arrays,
  \<^verbatim>\<open>ILSHA256Finalize\<close> writes the FIPS 180 digest of the whole message, and the context ends
  all zero.
\<close>

theorem sha256_stream:
  assumes "length (input stale) = 64" and "length buf = 32"
  shows "do { c \<leftarrow> hash_chunks ILSHA256Data (ILSHA256Init stale) bs; ILSHA256Finalize c (Some buf) } =
    Some (Some (sha256_hash (concat bs)),
          \<lparr>input = replicate 64 0, inputLen = 0, regs = (0, 0, 0, 0, 0, 0, 0, 0), totalLen = 0\<rparr>)"
  unfolding ILSHA256Data_def ILSHA256Finalize_def sha256_hash_def
  by (rule sha256.stream_digests) (simp_all add: assms ILSHA256Init_def)

theorem sha256_stream_witness:
  "length (input \<lparr>input = replicate 64 (0xFF :: u8), inputLen = 9, regs = (0, 0, 0, 0, 0, 0, 0, 0), totalLen = 77\<rparr>) = 64 \<and>
   do { c \<leftarrow> hash_chunks ILSHA256Data
          (ILSHA256Init \<lparr>input = replicate 64 0xFF, inputLen = 9, regs = (0, 0, 0, 0, 0, 0, 0, 0), totalLen = 77\<rparr>)
          [[0x61], [0x62, 0x63]];
        ILSHA256Finalize c (Some (replicate 32 0)) } =
     Some (Some (sha256_hash [0x61, 0x62, 0x63]),
       \<lparr>input = replicate 64 0, inputLen = 0, regs = (0, 0, 0, 0, 0, 0, 0, 0), totalLen = 0\<rparr>)"
  using sha256_stream [of "\<lparr>input = replicate 64 0xFF, inputLen = 9, regs = (0, 0, 0, 0, 0, 0, 0, 0), totalLen = 77\<rparr>"
      "replicate 32 0" "[[0x61], [0x62, 0x63]]"] by simp

end
