(* ===== verification/Sha512.thy ===== *)
theory Sha512
  imports HashStream
begin

text \<open>
  \<^verbatim>\<open>support/sha512.c\<close> and \<^verbatim>\<open>support/sha384.c\<close>, translated line by line, and the
  compression function of FIPS 180 with the message schedule as a recurrence.  The
  two agree on every block.  The length field has sixteen bytes, of which the code
  clears the upper eight; SHA-384 is SHA-512 from other registers, cut to 48 bytes.
\<close>

type_synonym sha512_regs = "u64 \<times> u64 \<times> u64 \<times> u64 \<times> u64 \<times> u64 \<times> u64 \<times> u64"

section \<open>The code\<close>

definition sha512_CH :: "u64 \<Rightarrow> u64 \<Rightarrow> u64 \<Rightarrow> u64" where
  "sha512_CH x y z = (x AND y) XOR (NOT x AND z)"

definition sha512_MAJ :: "u64 \<Rightarrow> u64 \<Rightarrow> u64 \<Rightarrow> u64" where
  "sha512_MAJ x y z = (x AND y) XOR (x AND z) XOR (y AND z)"

definition sha512_SUM0 :: "u64 \<Rightarrow> u64" where
  "sha512_SUM0 x = ROTATE_right x 28 XOR ROTATE_right x 34 XOR ROTATE_right x 39"

definition sha512_SUM1 :: "u64 \<Rightarrow> u64" where
  "sha512_SUM1 x = ROTATE_right x 14 XOR ROTATE_right x 18 XOR ROTATE_right x 41"

definition sha512_RHO0 :: "u64 \<Rightarrow> u64" where
  "sha512_RHO0 x = ROTATE_right x 1 XOR ROTATE_right x 8 XOR drop_bit 7 x"

definition sha512_RHO1 :: "u64 \<Rightarrow> u64" where
  "sha512_RHO1 x = ROTATE_right x 19 XOR ROTATE_right x 61 XOR drop_bit 6 x"

definition sha512_K :: "u64 list" where
  "sha512_K = [
   0x428A2F98D728AE22, 0x7137449123EF65CD, 0xB5C0FBCFEC4D3B2F,
   0xE9B5DBA58189DBBC, 0x3956C25BF348B538, 0x59F111F1B605D019,
   0x923F82A4AF194F9B, 0xAB1C5ED5DA6D8118, 0xD807AA98A3030242,
   0x12835B0145706FBE, 0x243185BE4EE4B28C, 0x550C7DC3D5FFB4E2,
   0x72BE5D74F27B896F, 0x80DEB1FE3B1696B1, 0x9BDC06A725C71235,
   0xC19BF174CF692694, 0xE49B69C19EF14AD2, 0xEFBE4786384F25E3,
   0x0FC19DC68B8CD5B5, 0x240CA1CC77AC9C65, 0x2DE92C6F592B0275,
   0x4A7484AA6EA6E483, 0x5CB0A9DCBD41FBD4, 0x76F988DA831153B5,
   0x983E5152EE66DFAB, 0xA831C66D2DB43210, 0xB00327C898FB213F,
   0xBF597FC7BEEF0EE4, 0xC6E00BF33DA88FC2, 0xD5A79147930AA725,
   0x06CA6351E003826F, 0x142929670A0E6E70, 0x27B70A8546D22FFC,
   0x2E1B21385C26C926, 0x4D2C6DFC5AC42AED, 0x53380D139D95B3DF,
   0x650A73548BAF63DE, 0x766A0ABB3C77B2A8, 0x81C2C92E47EDAEE6,
   0x92722C851482353B, 0xA2BFE8A14CF10364, 0xA81A664BBC423001,
   0xC24B8B70D0F89791, 0xC76C51A30654BE30, 0xD192E819D6EF5218,
   0xD69906245565A910, 0xF40E35855771202A, 0x106AA07032BBD1B8,
   0x19A4C116B8D2D0C8, 0x1E376C085141AB53, 0x2748774CDF8EEB99,
   0x34B0BCB5E19B48A8, 0x391C0CB3C5C95A63, 0x4ED8AA4AE3418ACB,
   0x5B9CCA4F7763E373, 0x682E6FF3D6B2B8A3, 0x748F82EE5DEFB2FC,
   0x78A5636F43172F60, 0x84C87814A1F0AB72, 0x8CC702081A6439EC,
   0x90BEFFFA23631E28, 0xA4506CEBDE82BDE9, 0xBEF9A3F7B2C67915,
   0xC67178F2E372532B, 0xCA273ECEEA26619C, 0xD186B8C721C0C207,
   0xEADA7DD6CDE0EB1E, 0xF57D4F7FEE6ED178, 0x06F067AA72176FBA,
   0x0A637DC5A2C898A6, 0x113F9804BEF90DAE, 0x1B710B35131C471B,
   0x28DB77F523047D84, 0x32CAAB7B40C72493, 0x3C9EBE0A15C9BEBC,
   0x431D67C49C100D4C, 0x4CC5D4BECB3E42B6, 0x597F299CFC657E2A,
   0x5FCB6FAB3AD6FAEC, 0x6C44198C4A475817]"

definition ILSHA512Init :: "sha512_regs hash_context \<Rightarrow> sha512_regs hash_context" where
  "ILSHA512Init sha = sha\<lparr>inputLen := 0,
     regs := (0x6a09e667f3bcc908, 0xbb67ae8584caa73b, 0x3c6ef372fe94f82b, 0xa54ff53a5f1d36f1,
     0x510e527fade682d1, 0x9b05688c2b3e6c1f, 0x1f83d9abfb41bd6b, 0x5be0cd19137e2179), totalLen := 0\<rparr>"

definition unpack_be64 :: "bytes \<Rightarrow> u64 list option" where
  "unpack_be64 block =
     (if length block < 128 then None else Some (map (\<lambda>t.
        push_bit 56 (ucast (block ! (t * 8 + 0))) OR push_bit 48 (ucast (block ! (t * 8 + 1))) OR
        push_bit 40 (ucast (block ! (t * 8 + 2))) OR push_bit 32 (ucast (block ! (t * 8 + 3))) OR
        push_bit 24 (ucast (block ! (t * 8 + 4))) OR push_bit 16 (ucast (block ! (t * 8 + 5))) OR
        push_bit 8 (ucast (block ! (t * 8 + 6))) OR ucast (block ! (t * 8 + 7))) [0..<16]))"

definition be64_word_bytes :: "u64 \<Rightarrow> bytes" where
  "be64_word_bytes value = [ucast (drop_bit 56 value), ucast (drop_bit 48 value),
     ucast (drop_bit 40 value), ucast (drop_bit 32 value), ucast (drop_bit 24 value),
     ucast (drop_bit 16 value), ucast (drop_bit 8 value), ucast value]"

definition WriteLong64 :: "bytes \<Rightarrow> nat \<Rightarrow> u64 \<Rightarrow> bytes option" where
  "WriteLong64 buf off value = ILMemCpy buf off (be64_word_bytes value)"

text \<open>\<^verbatim>\<open>ILMemZero\<close> of the upper half of the length field, then \<^verbatim>\<open>WriteLong\<close> of the lower.\<close>

definition store_length_128 :: "u64 \<Rightarrow> bytes \<Rightarrow> bytes option" where
  "store_length_128 totalBits inp = do {
     inp \<leftarrow> ILMemCpy inp (128 - 16) (replicate 8 0);
     WriteLong64 inp (128 - 8) totalBits
   }"

definition sha512_schedule :: "u64 list \<Rightarrow> u64 list" where
  "sha512_schedule W = foldl (\<lambda>W t.
     W @ [sha512_RHO1 (W ! (t - 2)) + W ! (t - 7) + sha512_RHO0 (W ! (t - 15)) + W ! (t - 16)]) W [16..<80]"

text \<open>The body of the round loop.\<close>

definition sha512_round :: "u64 \<Rightarrow> u64 \<Rightarrow> sha512_regs \<Rightarrow> sha512_regs" where
  "sha512_round k w s = (case s of (a, b, c, d, e, f, g, h) \<Rightarrow>
     let temp = h + sha512_SUM1 e + sha512_CH e f g + k + w;
         temp2 = sha512_SUM0 a + sha512_MAJ a b c
     in (temp + temp2, a, b, c, d + temp, e, f, g))"

definition sha512_ProcessBlock :: "bytes \<Rightarrow> sha512_regs \<Rightarrow> sha512_regs option" where
  "sha512_ProcessBlock block sha = do {
     W \<leftarrow> unpack_be64 block;
     let W = sha512_schedule W;
     let s = foldl (\<lambda>s t. sha512_round (sha512_K ! t) (W ! t) s) sha [0..<80];
     Some (case sha of (A, B, C, D, E, F, G, H) \<Rightarrow> case s of (a, b, c, d, e, f, g, h) \<Rightarrow>
       (A + a, B + b, C + c, D + d, E + e, F + f, G + g, H + h))
   }"

definition ILSHA512Data :: "sha512_regs hash_context \<Rightarrow> bytes \<Rightarrow> sha512_regs hash_context option" where
  "ILSHA512Data = hash_Data 128 sha512_ProcessBlock"

definition sha512_write_hash :: "sha512_regs \<Rightarrow> bytes \<Rightarrow> bytes option" where
  "sha512_write_hash sha hash = (case sha of (A, B, C, D, E, F, G, H) \<Rightarrow> do {
     hash \<leftarrow> WriteLong64 hash 0 A;
     hash \<leftarrow> WriteLong64 hash 8 B;
     hash \<leftarrow> WriteLong64 hash 16 C;
     hash \<leftarrow> WriteLong64 hash 24 D;
     hash \<leftarrow> WriteLong64 hash 32 E;
     hash \<leftarrow> WriteLong64 hash 40 F;
     hash \<leftarrow> WriteLong64 hash 48 G;
     WriteLong64 hash 56 H
   })"

definition ILSHA512Finalize ::
  "sha512_regs hash_context \<Rightarrow> bytes option \<Rightarrow> (bytes option \<times> sha512_regs hash_context) option" where
  "ILSHA512Finalize =
     hash_Finalize 128 16 sha512_ProcessBlock store_length_128 sha512_write_hash (0, 0, 0, 0, 0, 0, 0, 0)"

definition ILSHA384Init :: "sha512_regs hash_context \<Rightarrow> sha512_regs hash_context" where
  "ILSHA384Init sha = sha\<lparr>inputLen := 0,
     regs := (0xcbbb9d5dc1059ed8, 0x629a292a367cd507, 0x9159015a3070dd17, 0x152fecd8f70e5939,
     0x67332667ffc00b31, 0x8eb44a8768581511, 0xdb0c2e0d64f98fa7, 0x47b5481dbefa4fa4), totalLen := 0\<rparr>"

text \<open>The local buffer \<^verbatim>\<open>sha512hash\<close> starts with arbitrary contents, the argument \<open>junk\<close>.\<close>

definition ILSHA384Finalize ::
  "bytes \<Rightarrow> sha512_regs hash_context \<Rightarrow> bytes option \<Rightarrow> (bytes option \<times> sha512_regs hash_context) option" where
  "ILSHA384Finalize junk sha hash = do {
     (sha512hash, sha) \<leftarrow> ILSHA512Finalize sha (Some junk);
     case hash of None \<Rightarrow> Some (None, sha)
     | Some h \<Rightarrow> do {
         out \<leftarrow> ILMemCpy h 0 (take 48 (the sha512hash));
         Some (Some out, sha)
       }
   }"

section \<open>The standard\<close>

definition be_word64 :: "bytes \<Rightarrow> nat \<Rightarrow> u64" where
  "be_word64 block t =
     word_of_nat (2 ^ 56 * unat (block ! (8 * t)) + 2 ^ 48 * unat (block ! (8 * t + 1)) +
       2 ^ 40 * unat (block ! (8 * t + 2)) + 2 ^ 32 * unat (block ! (8 * t + 3)) +
       2 ^ 24 * unat (block ! (8 * t + 4)) + 2 ^ 16 * unat (block ! (8 * t + 5)) +
       2 ^ 8 * unat (block ! (8 * t + 6)) + unat (block ! (8 * t + 7)))"

definition be128_bytes :: "u64 \<Rightarrow> bytes" where
  "be128_bytes n = replicate 8 0 @ be64_bytes n"

fun sha512_W :: "bytes \<Rightarrow> nat \<Rightarrow> u64" where
  "sha512_W block t =
     (if t < 16 then be_word64 block t
      else (let x = sha512_W block (t - 2); y = sha512_W block (t - 15)
            in (word_rotr 19 x XOR word_rotr 61 x XOR drop_bit 6 x) + sha512_W block (t - 7) +
               (word_rotr 1 y XOR word_rotr 8 y XOR drop_bit 7 y) + sha512_W block (t - 16)))"

declare sha512_W.simps [simp del]

definition sha512_step :: "bytes \<Rightarrow> sha512_regs \<Rightarrow> nat \<Rightarrow> sha512_regs" where
  "sha512_step block s t = (case s of (a, b, c, d, e, f, g, h) \<Rightarrow>
     let T1 = h + (word_rotr 14 e XOR word_rotr 18 e XOR word_rotr 41 e) +
              ((e AND f) OR (NOT e AND g)) + sha512_K ! t + sha512_W block t;
         T2 = (word_rotr 28 a XOR word_rotr 34 a XOR word_rotr 39 a) +
              ((a AND b) OR (a AND c) OR (b AND c))
     in (T1 + T2, a, b, c, d + T1, e, f, g))"

definition sha512_compress :: "bytes \<Rightarrow> sha512_regs \<Rightarrow> sha512_regs" where
  "sha512_compress block i =
     (case i of (A, B, C, D, E, F, G, H) \<Rightarrow>
      case foldl (sha512_step block) i [0..<80] of (a, b, c, d, e, f, g, h) \<Rightarrow>
       (A + a, B + b, C + c, D + d, E + e, F + f, G + g, H + h))"

definition sha512_digest :: "sha512_regs \<Rightarrow> bytes" where
  "sha512_digest s = (case s of (a, b, c, d, e, f, g, h) \<Rightarrow>
     concat (map be64_word_bytes [a, b, c, d, e, f, g, h]))"

definition sha512_hash :: "bytes \<Rightarrow> bytes" where
  "sha512_hash = md_hash 128 16 sha512_compress
     (0x6a09e667f3bcc908, 0xbb67ae8584caa73b, 0x3c6ef372fe94f82b, 0xa54ff53a5f1d36f1,
     0x510e527fade682d1, 0x9b05688c2b3e6c1f, 0x1f83d9abfb41bd6b, 0x5be0cd19137e2179) sha512_digest be128_bytes"

definition sha384_hash :: "bytes \<Rightarrow> bytes" where
  "sha384_hash msg = take 48 (md_hash 128 16 sha512_compress
     (0xcbbb9d5dc1059ed8, 0x629a292a367cd507, 0x9159015a3070dd17, 0x152fecd8f70e5939,
     0x67332667ffc00b31, 0x8eb44a8768581511, 0xdb0c2e0d64f98fa7, 0x47b5481dbefa4fa4) sha512_digest be128_bytes msg)"

section \<open>The code computes the standard\<close>

lemma or_shifted_bytes64:
  fixes a b c d e f g h :: u8
  shows "push_bit 56 (ucast a) OR push_bit 48 (ucast b) OR push_bit 40 (ucast c) OR
     push_bit 32 (ucast d) OR push_bit 24 (ucast e) OR push_bit 16 (ucast f) OR
     push_bit 8 (ucast g) OR ucast h =
    (word_of_nat (2 ^ 56 * unat a + 2 ^ 48 * unat b + 2 ^ 40 * unat c + 2 ^ 32 * unat d +
       2 ^ 24 * unat e + 2 ^ 16 * unat f + 2 ^ 8 * unat g + unat h) :: u64)"
proof -
  have "(word_of_nat (2 ^ 56 * unat a + 2 ^ 48 * unat b + 2 ^ 40 * unat c + 2 ^ 32 * unat d +
       2 ^ 24 * unat e + 2 ^ 16 * unat f + 2 ^ 8 * unat g + unat h) :: u64) =
     push_bit 56 (ucast a) + (push_bit 48 (ucast b) + (push_bit 40 (ucast c) + (push_bit 32 (ucast d) +
     (push_bit 24 (ucast e) + (push_bit 16 (ucast f) + (push_bit 8 (ucast g) + ucast h))))))"
    by (simp add: push_bit_eq_mult ac_simps)
  also have "push_bit 8 (ucast g) + (ucast h) =
      (push_bit 8 (ucast g) OR ucast h :: u64)"
    by (rule disjunctive_add_eq_or, rule bit_word_eqI) (auto simp: bit_simps dest!: bit_imp_le_length)
  also have "push_bit 16 (ucast f) + (push_bit 8 (ucast g) OR ucast h) =
      (push_bit 16 (ucast f) OR push_bit 8 (ucast g) OR ucast h :: u64)"
    by (rule disjunctive_add_eq_or, rule bit_word_eqI) (auto simp: bit_simps dest!: bit_imp_le_length)
  also have "push_bit 24 (ucast e) + (push_bit 16 (ucast f) OR push_bit 8 (ucast g) OR ucast h) =
      (push_bit 24 (ucast e) OR push_bit 16 (ucast f) OR push_bit 8 (ucast g) OR ucast h :: u64)"
    by (rule disjunctive_add_eq_or, rule bit_word_eqI) (auto simp: bit_simps dest!: bit_imp_le_length)
  also have "push_bit 32 (ucast d) + (push_bit 24 (ucast e) OR push_bit 16 (ucast f) OR push_bit 8 (ucast g) OR ucast h) =
      (push_bit 32 (ucast d) OR push_bit 24 (ucast e) OR push_bit 16 (ucast f) OR push_bit 8 (ucast g) OR ucast h :: u64)"
    by (rule disjunctive_add_eq_or, rule bit_word_eqI) (auto simp: bit_simps dest!: bit_imp_le_length)
  also have "push_bit 40 (ucast c) + (push_bit 32 (ucast d) OR push_bit 24 (ucast e) OR push_bit 16 (ucast f) OR push_bit 8 (ucast g) OR ucast h) =
      (push_bit 40 (ucast c) OR push_bit 32 (ucast d) OR push_bit 24 (ucast e) OR push_bit 16 (ucast f) OR push_bit 8 (ucast g) OR ucast h :: u64)"
    by (rule disjunctive_add_eq_or, rule bit_word_eqI) (auto simp: bit_simps dest!: bit_imp_le_length)
  also have "push_bit 48 (ucast b) + (push_bit 40 (ucast c) OR push_bit 32 (ucast d) OR push_bit 24 (ucast e) OR push_bit 16 (ucast f) OR push_bit 8 (ucast g) OR ucast h) =
      (push_bit 48 (ucast b) OR push_bit 40 (ucast c) OR push_bit 32 (ucast d) OR push_bit 24 (ucast e) OR push_bit 16 (ucast f) OR push_bit 8 (ucast g) OR ucast h :: u64)"
    by (rule disjunctive_add_eq_or, rule bit_word_eqI) (auto simp: bit_simps dest!: bit_imp_le_length)
  also have "push_bit 56 (ucast a) + (push_bit 48 (ucast b) OR push_bit 40 (ucast c) OR push_bit 32 (ucast d) OR push_bit 24 (ucast e) OR push_bit 16 (ucast f) OR push_bit 8 (ucast g) OR ucast h) =
      (push_bit 56 (ucast a) OR push_bit 48 (ucast b) OR push_bit 40 (ucast c) OR push_bit 32 (ucast d) OR push_bit 24 (ucast e) OR push_bit 16 (ucast f) OR push_bit 8 (ucast g) OR ucast h :: u64)"
    by (rule disjunctive_add_eq_or, rule bit_word_eqI) (auto simp: bit_simps dest!: bit_imp_le_length)
  finally show ?thesis ..
qed

lemma unpack_be64_words:
  "length block = 128 \<Longrightarrow> unpack_be64 block = Some (map (be_word64 block) [0..<16])"
  by (simp add: unpack_be64_def or_shifted_bytes64 be_word64_def mult.commute)

lemma store_length_128_ends:
  "length inp = 128 \<Longrightarrow> store_length_128 n inp = Some (take (128 - 16) inp @ be128_bytes n)"
  by (simp add: store_length_128_def WriteLong64_def ILMemCpy_def be64_word_bytes_def be128_bytes_def
        be64_bytes_def numeral_eq_Suc)

lemma length_be128_bytes: "length (be128_bytes n) = 16"
  by (simp add: be128_bytes_def)

lemma sha512_boolean:
  "sha512_CH x y z = (x AND y) OR (NOT x AND z)"
  "sha512_MAJ x y z = (x AND y) OR (x AND z) OR (y AND z)"
  by (auto intro!: bit_word_eqI simp: bit_simps sha512_CH_def sha512_MAJ_def)

lemmas sha512_sigma = sha512_SUM0_def sha512_SUM1_def sha512_RHO0_def sha512_RHO1_def ROTATE_right_rotr

lemma sha512_schedule_W:
  "sha512_schedule (map (be_word64 block) [0..<16]) = map (sha512_W block) [0..<80]"
proof -
  have "map (be_word64 block) [0..<16] = map (sha512_W block) [0..<16]"
    by (rule map_cong) (simp_all add: sha512_W.simps)
  moreover have "foldl (\<lambda>W t. W @ [sha512_RHO1 (W ! (t - 2)) + W ! (t - 7) + sha512_RHO0 (W ! (t - 15)) + W ! (t - 16)])
      (map (sha512_W block) [0..<16]) [16..<80] = map (sha512_W block) [0..<80]"
    by (rule schedule_loop) (simp_all add: sha512_W.simps [of block n for n] sha512_sigma Let_def)
  ultimately show ?thesis by (simp only: sha512_schedule_def)
qed

lemma sha512_loop:
  "foldl (\<lambda>s t. sha512_round (sha512_K ! t) (map (sha512_W block) [0..<80] ! t) s) s [0..<80] =
     foldl (sha512_step block) s [0..<80]"
  by (rule foldl_upt_cong)
    (simp add: sha512_round_def sha512_step_def sha512_boolean sha512_sigma Let_def split: prod.split)

lemma sha512_ProcessBlock_compress:
  "length block = 128 \<Longrightarrow> sha512_ProcessBlock block i = Some (sha512_compress block i)"
  by (simp only: sha512_ProcessBlock_def unpack_be64_words sha512_schedule_W sha512_loop
        sha512_compress_def Let_def bind.bind_lunit)

interpretation sha512: block_hash 128 16 64 sha512_ProcessBlock store_length_128 sha512_write_hash
  "(0, 0, 0, 0, 0, 0, 0, 0)" sha512_compress be128_bytes sha512_digest
proof unfold_locales
  fix buf :: bytes and r :: sha512_regs
  assume "length buf = 64"
  then show "sha512_write_hash r buf = Some (sha512_digest r)"
    by (simp add: sha512_write_hash_def sha512_digest_def WriteLong64_def ILMemCpy_def be64_word_bytes_def
          split: prod.split)
qed (simp_all add: sha512_ProcessBlock_compress store_length_128_ends length_be128_bytes)

lemma length_md_hash: "length (md_hash 128 16 sha512_compress iv sha512_digest be128_bytes msg) = 64"
  by (simp add: md_hash_def sha512_digest_def be64_word_bytes_def split: prod.split)

text \<open>C22: SHA-512 and SHA-384.  Whatever the context held before \<^verbatim>\<open>Init\<close>, and however the
  message is cut into calls of \<^verbatim>\<open>ILSHA512Data\<close>, every call returns and stays inside its
  arrays, \<^verbatim>\<open>ILSHA512Finalize\<close> writes the FIPS 180 digest of the whole message,
  \<^verbatim>\<open>ILSHA384Finalize\<close> the truncated one (whatever its local buffer held), and the
  context ends all zero.
\<close>

theorem sha512_stream:
  assumes "length (input stale) = 128" and "length buf = 64" and "length buf' = 48" and "length junk = 64"
  shows "do { c \<leftarrow> hash_chunks ILSHA512Data (ILSHA512Init stale) bs; ILSHA512Finalize c (Some buf) } =
      Some (Some (sha512_hash (concat bs)),
        \<lparr>input = replicate 128 0, inputLen = 0, regs = (0, 0, 0, 0, 0, 0, 0, 0), totalLen = 0\<rparr>) \<and>
    do { c \<leftarrow> hash_chunks ILSHA512Data (ILSHA384Init stale) bs; ILSHA384Finalize junk c (Some buf') } =
      Some (Some (sha384_hash (concat bs)),
        \<lparr>input = replicate 128 0, inputLen = 0, regs = (0, 0, 0, 0, 0, 0, 0, 0), totalLen = 0\<rparr>)"
  using sha512.stream_digests [OF _ _ refl, of "ILSHA512Init stale" buf bs]
    sha512.stream_digests [OF _ _ refl, of "ILSHA384Init stale" junk bs] assms
  by (auto simp: ILSHA512Init_def ILSHA384Init_def ILSHA512Data_def ILSHA512Finalize_def
        ILSHA384Finalize_def sha512_hash_def sha384_hash_def ILMemCpy_def length_md_hash
        bind_eq_Some_conv)

theorem sha512_stream_witness:
  "length (input \<lparr>input = replicate 128 (0xFF :: u8), inputLen = 9, regs = (0, 0, 0, 0, 0, 0, 0, 0), totalLen = 77\<rparr>) = 128 \<and>
   do { c \<leftarrow> hash_chunks ILSHA512Data
          (ILSHA384Init \<lparr>input = replicate 128 0xFF, inputLen = 9, regs = (0, 0, 0, 0, 0, 0, 0, 0), totalLen = 77\<rparr>)
          [[0x61], [0x62, 0x63]];
        ILSHA384Finalize (replicate 64 0xAA) c (Some (replicate 48 0)) } =
     Some (Some (sha384_hash [0x61, 0x62, 0x63]),
       \<lparr>input = replicate 128 0, inputLen = 0, regs = (0, 0, 0, 0, 0, 0, 0, 0), totalLen = 0\<rparr>)"
  using sha512_stream [of "\<lparr>input = replicate 128 0xFF, inputLen = 9, regs = (0, 0, 0, 0, 0, 0, 0, 0), totalLen = 77\<rparr>"
      "replicate 64 0" "replicate 48 0" "replicate 64 0xAA" "[[0x61], [0x62, 0x63]]"] by simp

end
