(* ===== verification/Ripemd160.thy ===== *)
theory Ripemd160
  imports HashStream
begin

text \<open>
  \<^verbatim>\<open>support/ripemd160.c\<close>.  The two lines of eighty unrolled steps are \<open>ripemd_line\<close> and
  \<open>ripemd_parallel_line\<close>, one macro call after another; \<open>ripemd_compress\<close> states the
  published algorithm with its tables of message words and shifts.  The two agree on
  every block.
\<close>

type_synonym ripemd_regs = "u32 \<times> u32 \<times> u32 \<times> u32 \<times> u32"

section \<open>The code\<close>

definition RM_F :: "u32 \<Rightarrow> u32 \<Rightarrow> u32 \<Rightarrow> u32" where
  "RM_F x y z = x XOR y XOR z"

definition RM_G :: "u32 \<Rightarrow> u32 \<Rightarrow> u32 \<Rightarrow> u32" where
  "RM_G x y z = (x AND y) OR (NOT x AND z)"

definition RM_H :: "u32 \<Rightarrow> u32 \<Rightarrow> u32 \<Rightarrow> u32" where
  "RM_H x y z = (x OR NOT y) XOR z"

definition RM_I :: "u32 \<Rightarrow> u32 \<Rightarrow> u32 \<Rightarrow> u32" where
  "RM_I x y z = (x AND z) OR (y AND NOT z)"

definition RM_J :: "u32 \<Rightarrow> u32 \<Rightarrow> u32 \<Rightarrow> u32" where
  "RM_J x y z = x XOR (y OR NOT z)"

text \<open>Each macro assigns to its arguments \<^verbatim>\<open>a\<close> and \<^verbatim>\<open>c\<close>: it returns the two new values.\<close>

definition RM_FF :: "u32 \<Rightarrow> u32 \<Rightarrow> u32 \<Rightarrow> u32 \<Rightarrow> u32 \<Rightarrow> u32 \<Rightarrow> nat \<Rightarrow> u32 \<times> u32" where
  "RM_FF a b c d e x s =
     (let a = a + RM_F b c d + x; a = ROTATE_left a s + e; c = ROTATE_left c 10 in (a, c))"

definition RM_GG :: "u32 \<Rightarrow> u32 \<Rightarrow> u32 \<Rightarrow> u32 \<Rightarrow> u32 \<Rightarrow> u32 \<Rightarrow> nat \<Rightarrow> u32 \<times> u32" where
  "RM_GG a b c d e x s =
     (let a = a + RM_G b c d + x + 0x5a827999; a = ROTATE_left a s + e; c = ROTATE_left c 10 in (a, c))"

definition RM_HH :: "u32 \<Rightarrow> u32 \<Rightarrow> u32 \<Rightarrow> u32 \<Rightarrow> u32 \<Rightarrow> u32 \<Rightarrow> nat \<Rightarrow> u32 \<times> u32" where
  "RM_HH a b c d e x s =
     (let a = a + RM_H b c d + x + 0x6ed9eba1; a = ROTATE_left a s + e; c = ROTATE_left c 10 in (a, c))"

definition RM_II :: "u32 \<Rightarrow> u32 \<Rightarrow> u32 \<Rightarrow> u32 \<Rightarrow> u32 \<Rightarrow> u32 \<Rightarrow> nat \<Rightarrow> u32 \<times> u32" where
  "RM_II a b c d e x s =
     (let a = a + RM_I b c d + x + 0x8f1bbcdc; a = ROTATE_left a s + e; c = ROTATE_left c 10 in (a, c))"

definition RM_JJ :: "u32 \<Rightarrow> u32 \<Rightarrow> u32 \<Rightarrow> u32 \<Rightarrow> u32 \<Rightarrow> u32 \<Rightarrow> nat \<Rightarrow> u32 \<times> u32" where
  "RM_JJ a b c d e x s =
     (let a = a + RM_J b c d + x + 0xa953fd4e; a = ROTATE_left a s + e; c = ROTATE_left c 10 in (a, c))"

definition RM_FFF :: "u32 \<Rightarrow> u32 \<Rightarrow> u32 \<Rightarrow> u32 \<Rightarrow> u32 \<Rightarrow> u32 \<Rightarrow> nat \<Rightarrow> u32 \<times> u32" where
  "RM_FFF a b c d e x s =
     (let a = a + RM_F b c d + x; a = ROTATE_left a s + e; c = ROTATE_left c 10 in (a, c))"

definition RM_GGG :: "u32 \<Rightarrow> u32 \<Rightarrow> u32 \<Rightarrow> u32 \<Rightarrow> u32 \<Rightarrow> u32 \<Rightarrow> nat \<Rightarrow> u32 \<times> u32" where
  "RM_GGG a b c d e x s =
     (let a = a + RM_G b c d + x + 0x7a6d76e9; a = ROTATE_left a s + e; c = ROTATE_left c 10 in (a, c))"

definition RM_HHH :: "u32 \<Rightarrow> u32 \<Rightarrow> u32 \<Rightarrow> u32 \<Rightarrow> u32 \<Rightarrow> u32 \<Rightarrow> nat \<Rightarrow> u32 \<times> u32" where
  "RM_HHH a b c d e x s =
     (let a = a + RM_H b c d + x + 0x6d703ef3; a = ROTATE_left a s + e; c = ROTATE_left c 10 in (a, c))"

definition RM_III :: "u32 \<Rightarrow> u32 \<Rightarrow> u32 \<Rightarrow> u32 \<Rightarrow> u32 \<Rightarrow> u32 \<Rightarrow> nat \<Rightarrow> u32 \<times> u32" where
  "RM_III a b c d e x s =
     (let a = a + RM_I b c d + x + 0x5c4dd124; a = ROTATE_left a s + e; c = ROTATE_left c 10 in (a, c))"

definition RM_JJJ :: "u32 \<Rightarrow> u32 \<Rightarrow> u32 \<Rightarrow> u32 \<Rightarrow> u32 \<Rightarrow> u32 \<Rightarrow> nat \<Rightarrow> u32 \<times> u32" where
  "RM_JJJ a b c d e x s =
     (let a = a + RM_J b c d + x + 0x50a28be6; a = ROTATE_left a s + e; c = ROTATE_left c 10 in (a, c))"

definition ILRIPEMD160Init :: "ripemd_regs hash_context \<Rightarrow> ripemd_regs hash_context" where
  "ILRIPEMD160Init ripem = ripem\<lparr>inputLen := 0,
     regs := (0x67452301, 0xEFCDAB89, 0x98BADCFE, 0x10325476, 0xC3D2E1F0), totalLen := 0\<rparr>"

definition ripemd_line :: "u32 list \<Rightarrow> u32 \<Rightarrow> u32 \<Rightarrow> u32 \<Rightarrow> u32 \<Rightarrow> u32 \<Rightarrow> ripemd_regs" where
  "ripemd_line W a b c d e = (let
       (a, c) = RM_FF a b c d e (W ! 0) 11;
       (e, b) = RM_FF e a b c d (W ! 1) 14;
       (d, a) = RM_FF d e a b c (W ! 2) 15;
       (c, e) = RM_FF c d e a b (W ! 3) 12;
       (b, d) = RM_FF b c d e a (W ! 4) 5;
       (a, c) = RM_FF a b c d e (W ! 5) 8;
       (e, b) = RM_FF e a b c d (W ! 6) 7;
       (d, a) = RM_FF d e a b c (W ! 7) 9;
       (c, e) = RM_FF c d e a b (W ! 8) 11;
       (b, d) = RM_FF b c d e a (W ! 9) 13;
       (a, c) = RM_FF a b c d e (W ! 10) 14;
       (e, b) = RM_FF e a b c d (W ! 11) 15;
       (d, a) = RM_FF d e a b c (W ! 12) 6;
       (c, e) = RM_FF c d e a b (W ! 13) 7;
       (b, d) = RM_FF b c d e a (W ! 14) 9;
       (a, c) = RM_FF a b c d e (W ! 15) 8;
       (e, b) = RM_GG e a b c d (W ! 7) 7;
       (d, a) = RM_GG d e a b c (W ! 4) 6;
       (c, e) = RM_GG c d e a b (W ! 13) 8;
       (b, d) = RM_GG b c d e a (W ! 1) 13;
       (a, c) = RM_GG a b c d e (W ! 10) 11;
       (e, b) = RM_GG e a b c d (W ! 6) 9;
       (d, a) = RM_GG d e a b c (W ! 15) 7;
       (c, e) = RM_GG c d e a b (W ! 3) 15;
       (b, d) = RM_GG b c d e a (W ! 12) 7;
       (a, c) = RM_GG a b c d e (W ! 0) 12;
       (e, b) = RM_GG e a b c d (W ! 9) 15;
       (d, a) = RM_GG d e a b c (W ! 5) 9;
       (c, e) = RM_GG c d e a b (W ! 2) 11;
       (b, d) = RM_GG b c d e a (W ! 14) 7;
       (a, c) = RM_GG a b c d e (W ! 11) 13;
       (e, b) = RM_GG e a b c d (W ! 8) 12;
       (d, a) = RM_HH d e a b c (W ! 3) 11;
       (c, e) = RM_HH c d e a b (W ! 10) 13;
       (b, d) = RM_HH b c d e a (W ! 14) 6;
       (a, c) = RM_HH a b c d e (W ! 4) 7;
       (e, b) = RM_HH e a b c d (W ! 9) 14;
       (d, a) = RM_HH d e a b c (W ! 15) 9;
       (c, e) = RM_HH c d e a b (W ! 8) 13;
       (b, d) = RM_HH b c d e a (W ! 1) 15;
       (a, c) = RM_HH a b c d e (W ! 2) 14;
       (e, b) = RM_HH e a b c d (W ! 7) 8;
       (d, a) = RM_HH d e a b c (W ! 0) 13;
       (c, e) = RM_HH c d e a b (W ! 6) 6;
       (b, d) = RM_HH b c d e a (W ! 13) 5;
       (a, c) = RM_HH a b c d e (W ! 11) 12;
       (e, b) = RM_HH e a b c d (W ! 5) 7;
       (d, a) = RM_HH d e a b c (W ! 12) 5;
       (c, e) = RM_II c d e a b (W ! 1) 11;
       (b, d) = RM_II b c d e a (W ! 9) 12;
       (a, c) = RM_II a b c d e (W ! 11) 14;
       (e, b) = RM_II e a b c d (W ! 10) 15;
       (d, a) = RM_II d e a b c (W ! 0) 14;
       (c, e) = RM_II c d e a b (W ! 8) 15;
       (b, d) = RM_II b c d e a (W ! 12) 9;
       (a, c) = RM_II a b c d e (W ! 4) 8;
       (e, b) = RM_II e a b c d (W ! 13) 9;
       (d, a) = RM_II d e a b c (W ! 3) 14;
       (c, e) = RM_II c d e a b (W ! 7) 5;
       (b, d) = RM_II b c d e a (W ! 15) 6;
       (a, c) = RM_II a b c d e (W ! 14) 8;
       (e, b) = RM_II e a b c d (W ! 5) 6;
       (d, a) = RM_II d e a b c (W ! 6) 5;
       (c, e) = RM_II c d e a b (W ! 2) 12;
       (b, d) = RM_JJ b c d e a (W ! 4) 9;
       (a, c) = RM_JJ a b c d e (W ! 0) 15;
       (e, b) = RM_JJ e a b c d (W ! 5) 5;
       (d, a) = RM_JJ d e a b c (W ! 9) 11;
       (c, e) = RM_JJ c d e a b (W ! 7) 6;
       (b, d) = RM_JJ b c d e a (W ! 12) 8;
       (a, c) = RM_JJ a b c d e (W ! 2) 13;
       (e, b) = RM_JJ e a b c d (W ! 10) 12;
       (d, a) = RM_JJ d e a b c (W ! 14) 5;
       (c, e) = RM_JJ c d e a b (W ! 1) 12;
       (b, d) = RM_JJ b c d e a (W ! 3) 13;
       (a, c) = RM_JJ a b c d e (W ! 8) 14;
       (e, b) = RM_JJ e a b c d (W ! 11) 11;
       (d, a) = RM_JJ d e a b c (W ! 6) 8;
       (c, e) = RM_JJ c d e a b (W ! 15) 5;
       (b, d) = RM_JJ b c d e a (W ! 13) 6
     in (a, b, c, d, e))"

definition ripemd_parallel_line :: "u32 list \<Rightarrow> u32 \<Rightarrow> u32 \<Rightarrow> u32 \<Rightarrow> u32 \<Rightarrow> u32 \<Rightarrow> ripemd_regs" where
  "ripemd_parallel_line W aa bb cc dd ee = (let
       (aa, cc) = RM_JJJ aa bb cc dd ee (W ! 5) 8;
       (ee, bb) = RM_JJJ ee aa bb cc dd (W ! 14) 9;
       (dd, aa) = RM_JJJ dd ee aa bb cc (W ! 7) 9;
       (cc, ee) = RM_JJJ cc dd ee aa bb (W ! 0) 11;
       (bb, dd) = RM_JJJ bb cc dd ee aa (W ! 9) 13;
       (aa, cc) = RM_JJJ aa bb cc dd ee (W ! 2) 15;
       (ee, bb) = RM_JJJ ee aa bb cc dd (W ! 11) 15;
       (dd, aa) = RM_JJJ dd ee aa bb cc (W ! 4) 5;
       (cc, ee) = RM_JJJ cc dd ee aa bb (W ! 13) 7;
       (bb, dd) = RM_JJJ bb cc dd ee aa (W ! 6) 7;
       (aa, cc) = RM_JJJ aa bb cc dd ee (W ! 15) 8;
       (ee, bb) = RM_JJJ ee aa bb cc dd (W ! 8) 11;
       (dd, aa) = RM_JJJ dd ee aa bb cc (W ! 1) 14;
       (cc, ee) = RM_JJJ cc dd ee aa bb (W ! 10) 14;
       (bb, dd) = RM_JJJ bb cc dd ee aa (W ! 3) 12;
       (aa, cc) = RM_JJJ aa bb cc dd ee (W ! 12) 6;
       (ee, bb) = RM_III ee aa bb cc dd (W ! 6) 9;
       (dd, aa) = RM_III dd ee aa bb cc (W ! 11) 13;
       (cc, ee) = RM_III cc dd ee aa bb (W ! 3) 15;
       (bb, dd) = RM_III bb cc dd ee aa (W ! 7) 7;
       (aa, cc) = RM_III aa bb cc dd ee (W ! 0) 12;
       (ee, bb) = RM_III ee aa bb cc dd (W ! 13) 8;
       (dd, aa) = RM_III dd ee aa bb cc (W ! 5) 9;
       (cc, ee) = RM_III cc dd ee aa bb (W ! 10) 11;
       (bb, dd) = RM_III bb cc dd ee aa (W ! 14) 7;
       (aa, cc) = RM_III aa bb cc dd ee (W ! 15) 7;
       (ee, bb) = RM_III ee aa bb cc dd (W ! 8) 12;
       (dd, aa) = RM_III dd ee aa bb cc (W ! 12) 7;
       (cc, ee) = RM_III cc dd ee aa bb (W ! 4) 6;
       (bb, dd) = RM_III bb cc dd ee aa (W ! 9) 15;
       (aa, cc) = RM_III aa bb cc dd ee (W ! 1) 13;
       (ee, bb) = RM_III ee aa bb cc dd (W ! 2) 11;
       (dd, aa) = RM_HHH dd ee aa bb cc (W ! 15) 9;
       (cc, ee) = RM_HHH cc dd ee aa bb (W ! 5) 7;
       (bb, dd) = RM_HHH bb cc dd ee aa (W ! 1) 15;
       (aa, cc) = RM_HHH aa bb cc dd ee (W ! 3) 11;
       (ee, bb) = RM_HHH ee aa bb cc dd (W ! 7) 8;
       (dd, aa) = RM_HHH dd ee aa bb cc (W ! 14) 6;
       (cc, ee) = RM_HHH cc dd ee aa bb (W ! 6) 6;
       (bb, dd) = RM_HHH bb cc dd ee aa (W ! 9) 14;
       (aa, cc) = RM_HHH aa bb cc dd ee (W ! 11) 12;
       (ee, bb) = RM_HHH ee aa bb cc dd (W ! 8) 13;
       (dd, aa) = RM_HHH dd ee aa bb cc (W ! 12) 5;
       (cc, ee) = RM_HHH cc dd ee aa bb (W ! 2) 14;
       (bb, dd) = RM_HHH bb cc dd ee aa (W ! 10) 13;
       (aa, cc) = RM_HHH aa bb cc dd ee (W ! 0) 13;
       (ee, bb) = RM_HHH ee aa bb cc dd (W ! 4) 7;
       (dd, aa) = RM_HHH dd ee aa bb cc (W ! 13) 5;
       (cc, ee) = RM_GGG cc dd ee aa bb (W ! 8) 15;
       (bb, dd) = RM_GGG bb cc dd ee aa (W ! 6) 5;
       (aa, cc) = RM_GGG aa bb cc dd ee (W ! 4) 8;
       (ee, bb) = RM_GGG ee aa bb cc dd (W ! 1) 11;
       (dd, aa) = RM_GGG dd ee aa bb cc (W ! 3) 14;
       (cc, ee) = RM_GGG cc dd ee aa bb (W ! 11) 14;
       (bb, dd) = RM_GGG bb cc dd ee aa (W ! 15) 6;
       (aa, cc) = RM_GGG aa bb cc dd ee (W ! 0) 14;
       (ee, bb) = RM_GGG ee aa bb cc dd (W ! 5) 6;
       (dd, aa) = RM_GGG dd ee aa bb cc (W ! 12) 9;
       (cc, ee) = RM_GGG cc dd ee aa bb (W ! 2) 12;
       (bb, dd) = RM_GGG bb cc dd ee aa (W ! 13) 9;
       (aa, cc) = RM_GGG aa bb cc dd ee (W ! 9) 12;
       (ee, bb) = RM_GGG ee aa bb cc dd (W ! 7) 5;
       (dd, aa) = RM_GGG dd ee aa bb cc (W ! 10) 15;
       (cc, ee) = RM_GGG cc dd ee aa bb (W ! 14) 8;
       (bb, dd) = RM_FFF bb cc dd ee aa (W ! 12) 8;
       (aa, cc) = RM_FFF aa bb cc dd ee (W ! 15) 5;
       (ee, bb) = RM_FFF ee aa bb cc dd (W ! 10) 12;
       (dd, aa) = RM_FFF dd ee aa bb cc (W ! 4) 9;
       (cc, ee) = RM_FFF cc dd ee aa bb (W ! 1) 12;
       (bb, dd) = RM_FFF bb cc dd ee aa (W ! 5) 5;
       (aa, cc) = RM_FFF aa bb cc dd ee (W ! 8) 14;
       (ee, bb) = RM_FFF ee aa bb cc dd (W ! 7) 6;
       (dd, aa) = RM_FFF dd ee aa bb cc (W ! 6) 8;
       (cc, ee) = RM_FFF cc dd ee aa bb (W ! 2) 13;
       (bb, dd) = RM_FFF bb cc dd ee aa (W ! 13) 6;
       (aa, cc) = RM_FFF aa bb cc dd ee (W ! 14) 5;
       (ee, bb) = RM_FFF ee aa bb cc dd (W ! 0) 15;
       (dd, aa) = RM_FFF dd ee aa bb cc (W ! 3) 13;
       (cc, ee) = RM_FFF cc dd ee aa bb (W ! 9) 11;
       (bb, dd) = RM_FFF bb cc dd ee aa (W ! 11) 11
     in (aa, bb, cc, dd, ee))"

definition ripemd_ProcessBlock :: "bytes \<Rightarrow> ripemd_regs \<Rightarrow> ripemd_regs option" where
  "ripemd_ProcessBlock block ripem = (case ripem of (A, B, C, D, E) \<Rightarrow> do {
     W \<leftarrow> unpack_le32 block;
     let (a, b, c, d, e) = ripemd_line W A B C D E;
     let (aa, bb, cc, dd, ee) = ripemd_parallel_line W A B C D E;
     let dd = dd + c + B;
     Some (dd, C + d + ee, D + e + aa, E + a + bb, A + b + cc)
   })"

definition ILRIPEMD160Data :: "ripemd_regs hash_context \<Rightarrow> bytes \<Rightarrow> ripemd_regs hash_context option" where
  "ILRIPEMD160Data = hash_Data 64 ripemd_ProcessBlock"

definition ripemd_write_hash :: "ripemd_regs \<Rightarrow> bytes \<Rightarrow> bytes option" where
  "ripemd_write_hash ripem hash = (case ripem of (A, B, C, D, E) \<Rightarrow> do {
     hash \<leftarrow> WriteLong_le hash 0 A;
     hash \<leftarrow> WriteLong_le hash 4 B;
     hash \<leftarrow> WriteLong_le hash 8 C;
     hash \<leftarrow> WriteLong_le hash 12 D;
     WriteLong_le hash 16 E
   })"

definition ILRIPEMD160Finalize ::
  "ripemd_regs hash_context \<Rightarrow> bytes option \<Rightarrow> (bytes option \<times> ripemd_regs hash_context) option" where
  "ILRIPEMD160Finalize =
     hash_Finalize 64 8 ripemd_ProcessBlock store_length_le ripemd_write_hash (0, 0, 0, 0, 0)"

section \<open>The standard\<close>

text \<open>Message words and shifts of the two lines, a row per round.\<close>

definition ripemd_word :: "nat list list" where
  "ripemd_word = [
   [0, 1, 2, 3, 4, 5, 6, 7, 8, 9, 10, 11, 12, 13, 14, 15],
   [7, 4, 13, 1, 10, 6, 15, 3, 12, 0, 9, 5, 2, 14, 11, 8],
   [3, 10, 14, 4, 9, 15, 8, 1, 2, 7, 0, 6, 13, 11, 5, 12],
   [1, 9, 11, 10, 0, 8, 12, 4, 13, 3, 7, 15, 14, 5, 6, 2],
   [4, 0, 5, 9, 7, 12, 2, 10, 14, 1, 3, 8, 11, 6, 15, 13]]"

definition ripemd_shift :: "nat list list" where
  "ripemd_shift = [
   [11, 14, 15, 12, 5, 8, 7, 9, 11, 13, 14, 15, 6, 7, 9, 8],
   [7, 6, 8, 13, 11, 9, 7, 15, 7, 12, 15, 9, 11, 7, 13, 12],
   [11, 13, 6, 7, 14, 9, 13, 15, 14, 8, 13, 6, 5, 12, 7, 5],
   [11, 12, 14, 15, 14, 15, 9, 8, 9, 14, 5, 6, 8, 6, 5, 12],
   [9, 15, 5, 11, 6, 8, 13, 12, 5, 12, 13, 14, 11, 8, 5, 6]]"

definition ripemd_word2 :: "nat list list" where
  "ripemd_word2 = [
   [5, 14, 7, 0, 9, 2, 11, 4, 13, 6, 15, 8, 1, 10, 3, 12],
   [6, 11, 3, 7, 0, 13, 5, 10, 14, 15, 8, 12, 4, 9, 1, 2],
   [15, 5, 1, 3, 7, 14, 6, 9, 11, 8, 12, 2, 10, 0, 4, 13],
   [8, 6, 4, 1, 3, 11, 15, 0, 5, 12, 2, 13, 9, 7, 10, 14],
   [12, 15, 10, 4, 1, 5, 8, 7, 6, 2, 13, 14, 0, 3, 9, 11]]"

definition ripemd_shift2 :: "nat list list" where
  "ripemd_shift2 = [
   [8, 9, 9, 11, 13, 15, 15, 5, 7, 7, 8, 11, 14, 14, 12, 6],
   [9, 13, 15, 7, 12, 8, 9, 11, 7, 7, 12, 7, 6, 15, 13, 11],
   [9, 7, 15, 11, 8, 6, 6, 14, 12, 13, 5, 14, 13, 13, 7, 5],
   [15, 5, 8, 11, 14, 14, 6, 14, 6, 9, 12, 9, 12, 5, 15, 8],
   [8, 5, 12, 9, 12, 5, 14, 6, 8, 13, 6, 5, 15, 13, 11, 11]]"

definition ripemd_r :: "nat \<Rightarrow> nat" where
  "ripemd_r j = ripemd_word ! (j div 16) ! (j mod 16)"

definition ripemd_s :: "nat \<Rightarrow> nat" where
  "ripemd_s j = ripemd_shift ! (j div 16) ! (j mod 16)"

definition ripemd_r2 :: "nat \<Rightarrow> nat" where
  "ripemd_r2 j = ripemd_word2 ! (j div 16) ! (j mod 16)"

definition ripemd_s2 :: "nat \<Rightarrow> nat" where
  "ripemd_s2 j = ripemd_shift2 ! (j div 16) ! (j mod 16)"

definition ripemd_f :: "nat \<Rightarrow> u32 \<Rightarrow> u32 \<Rightarrow> u32 \<Rightarrow> u32" where
  "ripemd_f k x y z = [x XOR y XOR z, (x AND y) OR (NOT x AND z), (x OR NOT y) XOR z,
     (x AND z) OR (y AND NOT z), x XOR (y OR NOT z)] ! k"

definition ripemd_K :: "u32 list" where
  "ripemd_K = [0, 0x5a827999, 0x6ed9eba1, 0x8f1bbcdc, 0xa953fd4e]"

definition ripemd_K2 :: "u32 list" where
  "ripemd_K2 = [0x50a28be6, 0x5c4dd124, 0x6d703ef3, 0x7a6d76e9, 0]"

definition ripemd_step :: "u32 list \<Rightarrow> ripemd_regs \<Rightarrow> nat \<Rightarrow> ripemd_regs" where
  "ripemd_step X s j = (case s of (a, b, c, d, e) \<Rightarrow>
     (e, word_rotl (ripemd_s j)
           (a + ripemd_f (j div 16) b c d + X ! (ripemd_r j) + ripemd_K ! (j div 16)) + e,
      b, word_rotl 10 c, d))"

definition ripemd_step2 :: "u32 list \<Rightarrow> ripemd_regs \<Rightarrow> nat \<Rightarrow> ripemd_regs" where
  "ripemd_step2 X s j = (case s of (a, b, c, d, e) \<Rightarrow>
     (e, word_rotl (ripemd_s2 j)
           (a + ripemd_f (4 - j div 16) b c d + X ! (ripemd_r2 j) + ripemd_K2 ! (j div 16)) + e,
      b, word_rotl 10 c, d))"

definition ripemd_compress :: "bytes \<Rightarrow> ripemd_regs \<Rightarrow> ripemd_regs" where
  "ripemd_compress block h =
     (let X = map (le_word block) [0..<16];
          (A, B, C, D, E) = h;
          (a, b, c, d, e) = foldl (ripemd_step X) h [0..<80];
          (a', b', c', d', e') = foldl (ripemd_step2 X) h [0..<80]
      in (B + c + d', C + d + e', D + e + a', E + a + b', A + b + c'))"

definition ripemd_digest :: "ripemd_regs \<Rightarrow> bytes" where
  "ripemd_digest s = (case s of (a, b, c, d, e) \<Rightarrow> concat (map le32_bytes [a, b, c, d, e]))"

definition ripemd160_hash :: "bytes \<Rightarrow> bytes" where
  "ripemd160_hash = md_hash 64 8 ripemd_compress
     (0x67452301, 0xEFCDAB89, 0x98BADCFE, 0x10325476, 0xC3D2E1F0) ripemd_digest le64_bytes"

section \<open>The code computes the standard\<close>

lemma ripemd_shift_less:
  assumes "j < 80"
  shows "ripemd_s j < 32" "ripemd_s2 j < 32"
proof -
  have "list_all (list_all (\<lambda>n. n < 32)) ripemd_shift" "list_all (list_all (\<lambda>n. n < 32)) ripemd_shift2"
    and "list_all (\<lambda>r. length r = 16) ripemd_shift" "list_all (\<lambda>r. length r = 16) ripemd_shift2"
    and "length ripemd_shift = 5" "length ripemd_shift2 = 5"
    by (simp_all add: ripemd_shift_def ripemd_shift2_def)
  moreover have "j div 16 < 5" using assms by (simp add: less_mult_imp_div_less)
  ultimately show "ripemd_s j < 32" "ripemd_s2 j < 32"
    by (simp_all add: ripemd_s_def ripemd_s2_def list_all_length)
qed

lemmas RM_defs = RM_FF_def RM_GG_def RM_HH_def RM_II_def RM_JJ_def
  RM_FFF_def RM_GGG_def RM_HHH_def RM_III_def RM_JJJ_def RM_F_def RM_G_def RM_H_def RM_I_def RM_J_def

lemma ripemd_rotation:
  "j < 80 \<Longrightarrow> ROTATE_left (x :: u32) (ripemd_s j) = word_rotl (ripemd_s j) x"
  "j < 80 \<Longrightarrow> ROTATE_left (x :: u32) (ripemd_s2 j) = word_rotl (ripemd_s2 j) x"
  "ROTATE_left (x :: u32) 10 = word_rotl 10 x"
  using ripemd_shift_less [of j] by (simp_all add: ROTATE_left_rotl)

lemma ripemd_round_step:
  "j div 16 = 0 \<Longrightarrow> foldl (ripemd_step X) (a, b, c, d, e) (j # js) =
     hold (RM_FF a b c d e (X ! ripemd_r j) (ripemd_s j))
       (\<lambda>(n, c'). foldl (ripemd_step X) (e, n, b, c', d) js)"
  "j div 16 = 1 \<Longrightarrow> foldl (ripemd_step X) (a, b, c, d, e) (j # js) =
     hold (RM_GG a b c d e (X ! ripemd_r j) (ripemd_s j))
       (\<lambda>(n, c'). foldl (ripemd_step X) (e, n, b, c', d) js)"
  "j div 16 = 2 \<Longrightarrow> foldl (ripemd_step X) (a, b, c, d, e) (j # js) =
     hold (RM_HH a b c d e (X ! ripemd_r j) (ripemd_s j))
       (\<lambda>(n, c'). foldl (ripemd_step X) (e, n, b, c', d) js)"
  "j div 16 = 3 \<Longrightarrow> foldl (ripemd_step X) (a, b, c, d, e) (j # js) =
     hold (RM_II a b c d e (X ! ripemd_r j) (ripemd_s j))
       (\<lambda>(n, c'). foldl (ripemd_step X) (e, n, b, c', d) js)"
  "j div 16 = 4 \<Longrightarrow> foldl (ripemd_step X) (a, b, c, d, e) (j # js) =
     hold (RM_JJ a b c d e (X ! ripemd_r j) (ripemd_s j))
       (\<lambda>(n, c'). foldl (ripemd_step X) (e, n, b, c', d) js)"
  by (simp_all add: ripemd_step_def RM_defs hold_def Let_def ripemd_f_def ripemd_K_def ripemd_rotation ac_simps)

lemma ripemd_round_step2:
  "j div 16 = 0 \<Longrightarrow> foldl (ripemd_step2 X) (a, b, c, d, e) (j # js) =
     hold (RM_JJJ a b c d e (X ! ripemd_r2 j) (ripemd_s2 j))
       (\<lambda>(n, c'). foldl (ripemd_step2 X) (e, n, b, c', d) js)"
  "j div 16 = 1 \<Longrightarrow> foldl (ripemd_step2 X) (a, b, c, d, e) (j # js) =
     hold (RM_III a b c d e (X ! ripemd_r2 j) (ripemd_s2 j))
       (\<lambda>(n, c'). foldl (ripemd_step2 X) (e, n, b, c', d) js)"
  "j div 16 = 2 \<Longrightarrow> foldl (ripemd_step2 X) (a, b, c, d, e) (j # js) =
     hold (RM_HHH a b c d e (X ! ripemd_r2 j) (ripemd_s2 j))
       (\<lambda>(n, c'). foldl (ripemd_step2 X) (e, n, b, c', d) js)"
  "j div 16 = 3 \<Longrightarrow> foldl (ripemd_step2 X) (a, b, c, d, e) (j # js) =
     hold (RM_GGG a b c d e (X ! ripemd_r2 j) (ripemd_s2 j))
       (\<lambda>(n, c'). foldl (ripemd_step2 X) (e, n, b, c', d) js)"
  "j div 16 = 4 \<Longrightarrow> foldl (ripemd_step2 X) (a, b, c, d, e) (j # js) =
     hold (RM_FFF a b c d e (X ! ripemd_r2 j) (ripemd_s2 j))
       (\<lambda>(n, c'). foldl (ripemd_step2 X) (e, n, b, c', d) js)"
  by (simp_all add: ripemd_step2_def RM_defs hold_def Let_def ripemd_f_def ripemd_K2_def ripemd_rotation ac_simps)

lemma ripemd_line_loop:
  "ripemd_line W a b c d e = foldl (ripemd_step W) (a, b, c, d, e) [0..<80]"
  unfolding ripemd_line_def hold_def [symmetric] upt_80
  by (simp add: ripemd_round_step ripemd_r_def ripemd_s_def ripemd_word_def ripemd_shift_def del: foldl_Cons)

lemma ripemd_parallel_line_loop:
  "ripemd_parallel_line W a b c d e = foldl (ripemd_step2 W) (a, b, c, d, e) [0..<80]"
  unfolding ripemd_parallel_line_def hold_def [symmetric] upt_80
  by (simp add: ripemd_round_step2 ripemd_r2_def ripemd_s2_def ripemd_word2_def ripemd_shift2_def del: foldl_Cons)

lemma ripemd_ProcessBlock_compress:
  "length block = 64 \<Longrightarrow> ripemd_ProcessBlock block h = Some (ripemd_compress block h)"
  by (simp add: ripemd_ProcessBlock_def unpack_le32_words ripemd_line_loop ripemd_parallel_line_loop
        ripemd_compress_def Let_def add.commute add.left_commute split: prod.split)

interpretation ripemd160: block_hash 64 8 20 ripemd_ProcessBlock store_length_le ripemd_write_hash
  "(0, 0, 0, 0, 0)" ripemd_compress le64_bytes ripemd_digest
proof unfold_locales
  fix buf :: bytes and r :: ripemd_regs
  assume "length buf = 20"
  then show "ripemd_write_hash r buf = Some (ripemd_digest r)"
    by (simp add: ripemd_write_hash_def ripemd_digest_def WriteLong_le_def ILMemCpy_def le32_bytes_def
          split: prod.split)
qed (simp_all add: ripemd_ProcessBlock_compress store_length_le_ends)

text \<open>C23: RIPEMD-160.  Whatever the context held before \<^verbatim>\<open>ILRIPEMD160Init\<close>, and however the message
  is cut into calls of \<^verbatim>\<open>ILRIPEMD160Data\<close>, every call returns and stays inside its arrays,
  \<^verbatim>\<open>ILRIPEMD160Finalize\<close> writes the RIPEMD-160 digest of the whole message, and the context ends
  all zero.
\<close>

theorem ripemd160_stream:
  assumes "length (input stale) = 64" and "length buf = 20"
  shows "do { c \<leftarrow> hash_chunks ILRIPEMD160Data (ILRIPEMD160Init stale) bs; ILRIPEMD160Finalize c (Some buf) } =
    Some (Some (ripemd160_hash (concat bs)),
          \<lparr>input = replicate 64 0, inputLen = 0, regs = (0, 0, 0, 0, 0), totalLen = 0\<rparr>)"
  unfolding ILRIPEMD160Data_def ILRIPEMD160Finalize_def ripemd160_hash_def
  by (rule ripemd160.stream_digests) (simp_all add: assms ILRIPEMD160Init_def)

theorem ripemd160_stream_witness:
  "length (input \<lparr>input = replicate 64 (0xFF :: u8), inputLen = 9, regs = (0, 0, 0, 0, 0), totalLen = 77\<rparr>) = 64 \<and>
   do { c \<leftarrow> hash_chunks ILRIPEMD160Data
          (ILRIPEMD160Init \<lparr>input = replicate 64 0xFF, inputLen = 9, regs = (0, 0, 0, 0, 0), totalLen = 77\<rparr>)
          [[0x61], [0x62, 0x63]];
        ILRIPEMD160Finalize c (Some (replicate 20 0)) } =
     Some (Some (ripemd160_hash [0x61, 0x62, 0x63]),
       \<lparr>input = replicate 64 0, inputLen = 0, regs = (0, 0, 0, 0, 0), totalLen = 0\<rparr>)"
  using ripemd160_stream [of "\<lparr>input = replicate 64 0xFF, inputLen = 9, regs = (0, 0, 0, 0, 0), totalLen = 77\<rparr>"
      "replicate 20 0" "[[0x61], [0x62, 0x63]]"] by simp

end
