(* ===== verification/Digests.thy ===== *)
theory Digests
  imports Md5 Sha1 Sha256 Sha512 Ripemd160
begin

text \<open>
  What the message digests promise without any history: a context whose array has
  its size and whose fill level is below the block size keeps both under every call,
  so that the loops of \<^verbatim>\<open>Data\<close> end and no copy leaves the input array.
\<close>

definition context_ok :: "nat \<Rightarrow> 's hash_context \<Rightarrow> bool" where
  "context_ok B ctx \<longleftrightarrow> length (input ctx) = B \<and> inputLen ctx < B"

text \<open>C24: the loops of \<^verbatim>\<open>ILSHAData\<close>, \<^verbatim>\<open>ILMD5Data\<close>, \<^verbatim>\<open>ILSHA256Data\<close>, \<^verbatim>\<open>ILSHA512Data\<close> (also
  \<^verbatim>\<open>ILSHA384Data\<close>) and \<^verbatim>\<open>ILRIPEMD160Data\<close> end on every buffer, without an access outside
  the input array, leave a well-formed context and add the length of the buffer to
  the 64-bit count, modulo \<open>2 ^ 64\<close>.
\<close>

theorem data_calls_return:
  assumes "context_ok 64 sha" and "context_ok 64 md5" and "context_ok 64 sha2" and "context_ok 128 sha5"
    and "context_ok 64 rip"
  shows "(\<exists>c. ILSHAData sha buf = Some c \<and> context_ok 64 c \<and> totalLen c = totalLen sha + word_of_nat (length buf)) \<and>
    (\<exists>c. ILMD5Data md5 buf = Some c \<and> context_ok 64 c \<and> totalLen c = totalLen md5 + word_of_nat (length buf)) \<and>
    (\<exists>c. ILSHA256Data sha2 buf = Some c \<and> context_ok 64 c \<and> totalLen c = totalLen sha2 + word_of_nat (length buf)) \<and>
    (\<exists>c. ILSHA512Data sha5 buf = Some c \<and> context_ok 128 c \<and> totalLen c = totalLen sha5 + word_of_nat (length buf)) \<and>
    (\<exists>c. ILRIPEMD160Data rip buf = Some c \<and> context_ok 64 c \<and> totalLen c = totalLen rip + word_of_nat (length buf))"
  using assms sha1.data_returns md5.data_returns sha256.data_returns sha512.data_returns ripemd160.data_returns
  unfolding context_ok_def ILSHAData_def ILMD5Data_def ILSHA256Data_def ILSHA512Data_def ILRIPEMD160Data_def
  by simp

theorem data_calls_return_witness:
  "\<exists>c. ILSHAData \<lparr>input = replicate 64 1, inputLen = 63, regs = (1, 2, 3, 4, 5), totalLen = -1\<rparr> [1, 2] = Some c \<and>
     context_ok 64 c \<and> totalLen c = 1"
  using data_calls_return [of
      "\<lparr>input = replicate 64 1, inputLen = 63, regs = (1, 2, 3, 4, 5), totalLen = -1\<rparr>"
      "\<lparr>input = replicate 64 1, inputLen = 63, regs = (1, 2, 3, 4), totalLen = 0\<rparr>"
      "\<lparr>input = replicate 64 1, inputLen = 63, regs = (1, 2, 3, 4, 5, 6, 7, 8), totalLen = 0\<rparr>"
      "\<lparr>input = replicate 128 1, inputLen = 63, regs = (1, 2, 3, 4, 5, 6, 7, 8), totalLen = 0\<rparr>"
      "\<lparr>input = replicate 64 1, inputLen = 63, regs = (1, 2, 3, 4, 5), totalLen = 0\<rparr>" "[1, 2]"]
  by (simp add: context_ok_def)

end
