(* ===== verification/Des.thy ===== *)
theory Des
  imports HashStream
begin

text \<open>
  \<^verbatim>\<open>support/des.c\<close>: the key schedule, the block function and Triple-DES, with the
  combined S-box and permutation tables, the generator of those tables and the test
  for weak keys.  The decryption schedule holds the round keys in reverse order, so
  the block function with it undoes the block function with the encryption schedule
  (\<open>des_roundtrip\<close>, \<open>des3_roundtrip\<close>).
\<close>

section \<open>The code\<close>

definition SPBox1 :: "u32 list" where
  "SPBox1 = [
   0x01010400, 0x00000000, 0x00010000, 0x01010404, 0x01010004, 0x00010404,
   0x00000004, 0x00010000, 0x00000400, 0x01010400, 0x01010404, 0x00000400,
   0x01000404, 0x01010004, 0x01000000, 0x00000004, 0x00000404, 0x01000400,
   0x01000400, 0x00010400, 0x00010400, 0x01010000, 0x01010000, 0x01000404,
   0x00010004, 0x01000004, 0x01000004, 0x00010004, 0x00000000, 0x00000404,
   0x00010404, 0x01000000, 0x00010000, 0x01010404, 0x00000004, 0x01010000,
   0x01010400, 0x01000000, 0x01000000, 0x00000400, 0x01010004, 0x00010000,
   0x00010400, 0x01000004, 0x00000400, 0x00000004, 0x01000404, 0x00010404,
   0x01010404, 0x00010004, 0x01010000, 0x01000404, 0x01000004, 0x00000404,
   0x00010404, 0x01010400, 0x00000404, 0x01000400, 0x01000400, 0x00000000,
   0x00010004, 0x00010400, 0x00000000, 0x01010004]"

definition SPBox2 :: "u32 list" where
  "SPBox2 = [
   0x80108020, 0x80008000, 0x00008000, 0x00108020, 0x00100000, 0x00000020,
   0x80100020, 0x80008020, 0x80000020, 0x80108020, 0x80108000, 0x80000000,
   0x80008000, 0x00100000, 0x00000020, 0x80100020, 0x00108000, 0x00100020,
   0x80008020, 0x00000000, 0x80000000, 0x00008000, 0x00108020, 0x80100000,
   0x00100020, 0x80000020, 0x00000000, 0x00108000, 0x00008020, 0x80108000,
   0x80100000, 0x00008020, 0x00000000, 0x00108020, 0x80100020, 0x00100000,
   0x80008020, 0x80100000, 0x80108000, 0x00008000, 0x80100000, 0x80008000,
   0x00000020, 0x80108020, 0x00108020, 0x00000020, 0x00008000, 0x80000000,
   0x00008020, 0x80108000, 0x00100000, 0x80000020, 0x00100020, 0x80008020,
   0x80000020, 0x00100020, 0x00108000, 0x00000000, 0x80008000, 0x00008020,
   0x80000000, 0x80100020, 0x80108020, 0x00108000]"

definition SPBox3 :: "u32 list" where
  "SPBox3 = [
   0x00000208, 0x08020200, 0x00000000, 0x08020008, 0x08000200, 0x00000000,
   0x00020208, 0x08000200, 0x00020008, 0x08000008, 0x08000008, 0x00020000,
   0x08020208, 0x00020008, 0x08020000, 0x00000208, 0x08000000, 0x00000008,
   0x08020200, 0x00000200, 0x00020200, 0x08020000, 0x08020008, 0x00020208,
   0x08000208, 0x00020200, 0x00020000, 0x08000208, 0x00000008, 0x08020208,
   0x00000200, 0x08000000, 0x08020200, 0x08000000, 0x00020008, 0x00000208,
   0x00020000, 0x08020200, 0x08000200, 0x00000000, 0x00000200, 0x00020008,
   0x08020208, 0x08000200, 0x08000008, 0x00000200, 0x00000000, 0x08020008,
   0x08000208, 0x00020000, 0x08000000, 0x08020208, 0x00000008, 0x00020208,
   0x00020200, 0x08000008, 0x08020000, 0x08000208, 0x00000208, 0x08020000,
   0x00020208, 0x00000008, 0x08020008, 0x00020200]"

definition SPBox4 :: "u32 list" where
  "SPBox4 = [
   0x00802001, 0x00002081, 0x00002081, 0x00000080, 0x00802080, 0x00800081,
   0x00800001, 0x00002001, 0x00000000, 0x00802000, 0x00802000, 0x00802081,
   0x00000081, 0x00000000, 0x00800080, 0x00800001, 0x00000001, 0x00002000,
   0x00800000, 0x00802001, 0x00000080, 0x00800000, 0x00002001, 0x00002080,
   0x00800081, 0x00000001, 0x00002080, 0x00800080, 0x00002000, 0x00802080,
   0x00802081, 0x00000081, 0x00800080, 0x00800001, 0x00802000, 0x00802081,
   0x00000081, 0x00000000, 0x00000000, 0x00802000, 0x00002080, 0x00800080,
   0x00800081, 0x00000001, 0x00802001, 0x00002081, 0x00002081, 0x00000080,
   0x00802081, 0x00000081, 0x00000001, 0x00002000, 0x00800001, 0x00002001,
   0x00802080, 0x00800081, 0x00002001, 0x00002080, 0x00800000, 0x00802001,
   0x00000080, 0x00800000, 0x00002000, 0x00802080]"

definition SPBox5 :: "u32 list" where
  "SPBox5 = [
   0x00000100, 0x02080100, 0x02080000, 0x42000100, 0x00080000, 0x00000100,
   0x40000000, 0x02080000, 0x40080100, 0x00080000, 0x02000100, 0x40080100,
   0x42000100, 0x42080000, 0x00080100, 0x40000000, 0x02000000, 0x40080000,
   0x40080000, 0x00000000, 0x40000100, 0x42080100, 0x42080100, 0x02000100,
   0x42080000, 0x40000100, 0x00000000, 0x42000000, 0x02080100, 0x02000000,
   0x42000000, 0x00080100, 0x00080000, 0x42000100, 0x00000100, 0x02000000,
   0x40000000, 0x02080000, 0x42000100, 0x40080100, 0x02000100, 0x40000000,
   0x42080000, 0x02080100, 0x40080100, 0x00000100, 0x02000000, 0x42080000,
   0x42080100, 0x00080100, 0x42000000, 0x42080100, 0x02080000, 0x00000000,
   0x40080000, 0x42000000, 0x00080100, 0x02000100, 0x40000100, 0x00080000,
   0x00000000, 0x40080000, 0x02080100, 0x40000100]"

definition SPBox6 :: "u32 list" where
  "SPBox6 = [
   0x20000010, 0x20400000, 0x00004000, 0x20404010, 0x20400000, 0x00000010,
   0x20404010, 0x00400000, 0x20004000, 0x00404010, 0x00400000, 0x20000010,
   0x00400010, 0x20004000, 0x20000000, 0x00004010, 0x00000000, 0x00400010,
   0x20004010, 0x00004000, 0x00404000, 0x20004010, 0x00000010, 0x20400010,
   0x20400010, 0x00000000, 0x00404010, 0x20404000, 0x00004010, 0x00404000,
   0x20404000, 0x20000000, 0x20004000, 0x00000010, 0x20400010, 0x00404000,
   0x20404010, 0x00400000, 0x00004010, 0x20000010, 0x00400000, 0x20004000,
   0x20000000, 0x00004010, 0x20000010, 0x20404010, 0x00404000, 0x20400000,
   0x00404010, 0x20404000, 0x00000000, 0x20400010, 0x00000010, 0x00004000,
   0x20400000, 0x00404010, 0x00004000, 0x00400010, 0x20004010, 0x00000000,
   0x20404000, 0x20000000, 0x00400010, 0x20004010]"

definition SPBox7 :: "u32 list" where
  "SPBox7 = [
   0x00200000, 0x04200002, 0x04000802, 0x00000000, 0x00000800, 0x04000802,
   0x00200802, 0x04200800, 0x04200802, 0x00200000, 0x00000000, 0x04000002,
   0x00000002, 0x04000000, 0x04200002, 0x00000802, 0x04000800, 0x00200802,
   0x00200002, 0x04000800, 0x04000002, 0x04200000, 0x04200800, 0x00200002,
   0x04200000, 0x00000800, 0x00000802, 0x04200802, 0x00200800, 0x00000002,
   0x04000000, 0x00200800, 0x04000000, 0x00200800, 0x00200000, 0x04000802,
   0x04000802, 0x04200002, 0x04200002, 0x00000002, 0x00200002, 0x04000000,
   0x04000800, 0x00200000, 0x04200800, 0x00000802, 0x00200802, 0x04200800,
   0x00000802, 0x04000002, 0x04200802, 0x04200000, 0x00200800, 0x00000000,
   0x00000002, 0x04200802, 0x00000000, 0x00200802, 0x04200000, 0x00000800,
   0x04000002, 0x04000800, 0x00000800, 0x00200002]"

definition SPBox8 :: "u32 list" where
  "SPBox8 = [
   0x10001040, 0x00001000, 0x00040000, 0x10041040, 0x10000000, 0x10001040,
   0x00000040, 0x10000000, 0x00040040, 0x10040000, 0x10041040, 0x00041000,
   0x10041000, 0x00041040, 0x00001000, 0x00000040, 0x10040000, 0x10000040,
   0x10001000, 0x00001040, 0x00041000, 0x00040040, 0x10040040, 0x10041000,
   0x00001040, 0x00000000, 0x00000000, 0x10040040, 0x10000040, 0x10001000,
   0x00041040, 0x00040000, 0x00041040, 0x00040000, 0x10041000, 0x00001000,
   0x00000040, 0x10040040, 0x00001000, 0x00041040, 0x10001000, 0x00000040,
   0x10000040, 0x10040000, 0x10040040, 0x10000000, 0x00040000, 0x10001040,
   0x00000000, 0x10041040, 0x00040040, 0x10000040, 0x10040000, 0x10001000,
   0x10001040, 0x00000000, 0x10041040, 0x00041000, 0x00041000, 0x00001040,
   0x00001040, 0x00040040, 0x10000000, 0x10041000]"

definition PC1 :: "nat list" where
  "PC1 = [
   57, 49, 41, 33, 25, 17, 9, 1, 58, 50, 42, 34, 26, 18,
   10, 2, 59, 51, 43, 35, 27, 19, 11, 3, 60, 52, 44, 36,
   63, 55, 47, 39, 31, 23, 15, 7, 62, 54, 46, 38, 30, 22,
   14, 6, 61, 53, 45, 37, 29, 21, 13, 5, 28, 20, 12, 4]"

definition PC2 :: "nat list" where
  "PC2 = [
   14, 17, 11, 24, 1, 5, 3, 28, 15, 6, 21, 10,
   23, 19, 12, 4, 26, 8, 16, 7, 27, 20, 13, 2,
   41, 52, 31, 37, 47, 55, 30, 40, 51, 45, 33, 48,
   44, 49, 39, 56, 34, 53, 46, 42, 50, 36, 29, 32]"

definition BitToKS :: "u32 list" where
  "BitToKS = map (\<lambda>i. push_bit (27 - i) 1) [0..<28]"

definition LRotate :: "nat list" where
  "LRotate = [1, 1, 2, 2, 2, 2, 2, 2, 1, 2, 2, 2, 2, 2, 2, 1]"

definition ROTATE28 :: "u32 \<Rightarrow> nat \<Rightarrow> u32" where
  "ROTATE28 x n = (push_bit n x OR drop_bit (28 - n) x) AND 0x0FFFFFFF"

text \<open>The macro \<^verbatim>\<open>IPSTEP(l,r,shift,mask)\<close> assigns to \<^verbatim>\<open>l\<close> and \<^verbatim>\<open>r\<close>.\<close>

definition IPSTEP :: "u32 \<Rightarrow> u32 \<Rightarrow> nat \<Rightarrow> u32 \<Rightarrow> u32 \<times> u32" where
  "IPSTEP l r shift m =
     (let temp = (drop_bit shift l XOR r) AND m
      in (l XOR push_bit shift temp, r XOR temp))"

definition GETSUB :: "u32 \<Rightarrow> nat \<Rightarrow> nat" where
  "GETSUB temp n = unat (drop_bit n temp AND 0x3F)"

text \<open>The two loops that collect the halves \<^verbatim>\<open>C\<close> and \<^verbatim>\<open>D\<close> of the key.\<close>

definition key_bit :: "bytes \<Rightarrow> nat \<Rightarrow> bool" where
  "key_bit key select = (key ! (select div 8) AND drop_bit (select mod 8) 0x80 \<noteq> 0)"

definition key_C :: "bytes \<Rightarrow> u32" where
  "key_C key = foldl (\<lambda>C bit.
     if key_bit key (PC1 ! bit - 1) then C OR BitToKS ! bit else C) 0 [0..<28]"

definition key_D :: "bytes \<Rightarrow> u32" where
  "key_D key = foldl (\<lambda>D bit.
     if key_bit key (PC1 ! bit - 1) then D OR BitToKS ! (bit - 28) else D) 0 [28..<56]"

text \<open>One of the two selections of the inner loop, and the loop.\<close>

definition sched_bit :: "u32 \<Rightarrow> u32 \<Rightarrow> nat \<Rightarrow> nat \<Rightarrow> u32 \<Rightarrow> u32" where
  "sched_bit C D select i sched =
     (if select < 28
      then (if C AND BitToKS ! select \<noteq> 0 then sched OR BitToKS ! (i + 4) else sched)
      else (if D AND BitToKS ! (select - 28) \<noteq> 0 then sched OR BitToKS ! (i + 4) else sched))"

definition sched_words :: "u32 \<Rightarrow> u32 \<Rightarrow> u32 \<times> u32" where
  "sched_words C D = foldl (\<lambda>(schedA, schedB) bit.
     (sched_bit C D (PC2 ! bit - 1) bit schedA,
      sched_bit C D (PC2 ! (bit + 24) - 1) bit schedB)) (0, 0) [0..<24]"

definition sched_key :: "u32 \<times> u32 \<Rightarrow> u32 \<times> u32" where
  "sched_key s = (case s of (schedA, schedB) \<Rightarrow>
     (push_bit 6 (schedA AND 0x00FC0000) OR push_bit 10 (schedA AND 0x00000FC0) OR
      drop_bit 10 (schedB AND 0x00FC0000) OR drop_bit 6 (schedB AND 0x00000FC0),
      push_bit 12 (schedA AND 0x0003F000) OR push_bit 16 (schedA AND 0x0000003F) OR
      drop_bit 4 (schedB AND 0x0003F000) OR (schedB AND 0x0000003F)))"

text \<open>The body of the loop over the rounds; its state is \<^verbatim>\<open>C\<close>, \<^verbatim>\<open>D\<close> and \<^verbatim>\<open>des->ks\<close>.\<close>

definition sched_round :: "bool \<Rightarrow> u32 \<times> u32 \<times> u32 list \<Rightarrow> nat \<Rightarrow> u32 \<times> u32 \<times> u32 list" where
  "sched_round decrypt s round = (case s of (C, D, ks) \<Rightarrow>
     let C = ROTATE28 C (LRotate ! round);
         D = ROTATE28 D (LRotate ! round);
         (k1, k2) = sched_key (sched_words C D);
         posn = (if decrypt then 30 - round * 2 else round * 2)
     in (C, D, ks[posn := k1, posn + 1 := k2]))"

definition CreateDESSchedule :: "u32 list \<Rightarrow> bytes \<Rightarrow> bool \<Rightarrow> u32 list option" where
  "CreateDESSchedule ks key decrypt =
     (if length key < 8 \<or> length ks < 32 then None
      else Some (snd (snd (foldl (sched_round decrypt) (key_C key, key_D key, ks) [0..<16]))))"

definition IL_BREAD_UINT32 :: "bytes \<Rightarrow> nat \<Rightarrow> u32" where
  "IL_BREAD_UINT32 buf off =
     ucast (buf ! (off + 3)) OR push_bit 8 (ucast (buf ! (off + 2))) OR
     push_bit 16 (ucast (buf ! (off + 1))) OR push_bit 24 (ucast (buf ! off))"

definition input_permutation :: "u32 \<Rightarrow> u32 \<Rightarrow> u32 \<times> u32" where
  "input_permutation L R =
     (let (L, R) = IPSTEP L R 4 0x0F0F0F0F;
          (L, R) = IPSTEP L R 16 0x0000FFFF;
          (R, L) = IPSTEP R L 2 0x33333333;
          (R, L) = IPSTEP R L 8 0x00FF00FF;
          R = ROTATE_left R 1;
          temp = (L XOR R) AND 0xAAAAAAAA;
          L = L XOR temp;
          R = R XOR temp;
          L = ROTATE_left L 1
      in (L, R))"

definition output_permutation :: "u32 \<Rightarrow> u32 \<Rightarrow> u32 \<times> u32" where
  "output_permutation L R =
     (let R = ROTATE_left R 31;
          temp = (L XOR R) AND 0xAAAAAAAA;
          L = L XOR temp;
          R = R XOR temp;
          L = ROTATE_left L 31;
          (L, R) = IPSTEP L R 8 0x00FF00FF;
          (L, R) = IPSTEP L R 2 0x33333333;
          (R, L) = IPSTEP R L 16 0x0000FFFF;
          (R, L) = IPSTEP R L 4 0x0F0F0F0F
      in (L, R))"

text \<open>The value \<^verbatim>\<open>temp2\<close> computed from one half of the block and two words of the schedule.\<close>

definition des_f :: "u32 \<Rightarrow> u32 \<times> u32 \<Rightarrow> u32" where
  "des_f R k = (case k of (k1, k2) \<Rightarrow>
     let temp = ROTATE_left R 28 XOR k1;
         temp2 = SPBox7 ! GETSUB temp 0 OR SPBox5 ! GETSUB temp 8 OR
                 SPBox3 ! GETSUB temp 16 OR SPBox1 ! GETSUB temp 24;
         temp = R XOR k2
     in temp2 OR (SPBox8 ! GETSUB temp 0 OR SPBox6 ! GETSUB temp 8 OR
                  SPBox4 ! GETSUB temp 16 OR SPBox2 ! GETSUB temp 24))"

text \<open>The body of the loop; \<^verbatim>\<open>*ks++\<close> in round \<open>i\<close> reads the words \<open>4 i\<close> to \<open>4 i + 3\<close>.\<close>

definition des_double_round :: "u32 list \<Rightarrow> u32 \<times> u32 \<Rightarrow> nat \<Rightarrow> u32 \<times> u32" where
  "des_double_round ks s round = (case s of (L, R) \<Rightarrow>
     let L = L XOR des_f R (ks ! (4 * round), ks ! (4 * round + 1));
         R = R XOR des_f L (ks ! (4 * round + 2), ks ! (4 * round + 3))
     in (L, R))"

definition ProcessDESBlock :: "u32 list \<Rightarrow> bytes \<Rightarrow> bytes option" where
  "ProcessDESBlock ks inp =
     (if length inp < 8 \<or> length ks < 32 then None
      else let L = IL_BREAD_UINT32 inp 0;
               R = IL_BREAD_UINT32 inp 4;
               (L, R) = input_permutation L R;
               (L, R) = foldl (des_double_round ks) (L, R) [0..<8];
               (L, R) = output_permutation L R
           in Some (be32_bytes R @ be32_bytes L))"

record ILDESContext =
  ks :: "u32 list"

definition ILDESInit :: "ILDESContext \<Rightarrow> bytes \<Rightarrow> bool \<Rightarrow> ILDESContext option" where
  "ILDESInit des key decrypt = do {
     s \<leftarrow> CreateDESSchedule (ks des) key decrypt;
     Some (des\<lparr>ks := s\<rparr>)
   }"

definition ILDESProcess :: "ILDESContext \<Rightarrow> bytes \<Rightarrow> bytes option" where
  "ILDESProcess des inp = ProcessDESBlock (ks des) inp"

definition ILDESFinalize :: "ILDESContext \<Rightarrow> ILDESContext" where
  "ILDESFinalize des = des\<lparr>ks := replicate (length (ks des)) 0\<rparr>"

record ILDES3Context =
  k1 :: ILDESContext
  k2 :: ILDESContext
  k3 :: ILDESContext

definition ILDES3Init :: "ILDES3Context \<Rightarrow> bytes \<Rightarrow> nat \<Rightarrow> bool \<Rightarrow> ILDES3Context option" where
  "ILDES3Init des3 key keyBits decrypt =
     (if keyBits = 192
      then if decrypt then do {
        a \<leftarrow> ILDESInit (k1 des3) (drop 16 key) True;
        b \<leftarrow> ILDESInit (k2 des3) (drop 8 key) False;
        c \<leftarrow> ILDESInit (k3 des3) key True;
        Some \<lparr>k1 = a, k2 = b, k3 = c\<rparr>
      }
      else do {
        a \<leftarrow> ILDESInit (k1 des3) key False;
        b \<leftarrow> ILDESInit (k2 des3) (drop 8 key) True;
        c \<leftarrow> ILDESInit (k3 des3) (drop 16 key) False;
        Some \<lparr>k1 = a, k2 = b, k3 = c\<rparr>
      }
      else do {
        a \<leftarrow> ILDESInit (k1 des3) key decrypt;
        b \<leftarrow> ILDESInit (k2 des3) (drop 8 key) (\<not> decrypt);
        Some \<lparr>k1 = a, k2 = b, k3 = a\<rparr>
      })"

definition ILDES3Process :: "ILDES3Context \<Rightarrow> bytes \<Rightarrow> bytes option" where
  "ILDES3Process des3 inp = do {
     out \<leftarrow> ProcessDESBlock (ks (k1 des3)) inp;
     out \<leftarrow> ProcessDESBlock (ks (k2 des3)) out;
     ProcessDESBlock (ks (k3 des3)) out
   }"

definition ILDES3Finalize :: "ILDES3Context \<Rightarrow> ILDES3Context" where
  "ILDES3Finalize des3 =
     \<lparr>k1 = ILDESFinalize (k1 des3), k2 = ILDESFinalize (k2 des3), k3 = ILDESFinalize (k3 des3)\<rparr>"

definition WeakKeys :: "bytes list" where
  "WeakKeys = [
   [0x01, 0x01, 0x01, 0x01, 0x01, 0x01, 0x01, 0x01],
   [0x1F, 0x1F, 0x1F, 0x1F, 0x0E, 0x0E, 0x0E, 0x0E],
   [0xE0, 0xE0, 0xE0, 0xE0, 0xF1, 0xF1, 0xF1, 0xF1],
   [0xFE, 0xFE, 0xFE, 0xFE, 0xFE, 0xFE, 0xFE, 0xFE]]"

definition SemiWeakKeys :: "bytes list" where
  "SemiWeakKeys = [
   [0x01, 0xFE, 0x01, 0xFE, 0x01, 0xFE, 0x01, 0xFE],
   [0xFE, 0x01, 0xFE, 0x01, 0xFE, 0x01, 0xFE, 0x01],
   [0x1F, 0xE0, 0x1F, 0xE0, 0x0E, 0xF1, 0x0E, 0xF1],
   [0xE0, 0x1F, 0xE0, 0x1F, 0xF1, 0x0E, 0xF1, 0x0E],
   [0x01, 0xE0, 0x01, 0xE0, 0x01, 0xF1, 0x01, 0xF1],
   [0xE0, 0x01, 0xE0, 0x01, 0xF1, 0x01, 0xF1, 0x01],
   [0x1F, 0xFE, 0x1F, 0xFE, 0x0E, 0xFE, 0x0E, 0xFE],
   [0xFE, 0x1F, 0xFE, 0x1F, 0xFE, 0x0E, 0xFE, 0x0E],
   [0x01, 0x1F, 0x01, 0x1F, 0x01, 0x0E, 0x01, 0x0E],
   [0x1F, 0x01, 0x1F, 0x01, 0x0E, 0x01, 0x0E, 0x01],
   [0xE0, 0xFE, 0xE0, 0xFE, 0xF1, 0xFE, 0xF1, 0xFE],
   [0xFE, 0xE0, 0xFE, 0xE0, 0xFE, 0xF1, 0xFE, 0xF1]]"

text \<open>The loops leave at the first byte that differs in more than its parity bit.\<close>

definition same_key :: "bytes \<Rightarrow> bytes \<Rightarrow> bool" where
  "same_key key weak = list_all (\<lambda>i. (key ! i XOR weak ! i) AND 0xFE = 0) [0..<8]"

definition ILDESIsWeakKey :: "bytes \<Rightarrow> bool" where
  "ILDESIsWeakKey key = list_ex (same_key key) WeakKeys"

definition ILDESIsSemiWeakKey :: "bytes \<Rightarrow> bool" where
  "ILDESIsSemiWeakKey key = list_ex (same_key key) SemiWeakKeys"

section \<open>The table generator\<close>

definition SBox1 :: "u32 list" where
  "SBox1 = [
   14, 4, 13, 1, 2, 15, 11, 8, 3, 10, 6, 12, 5, 9, 0, 7,
   0, 15, 7, 4, 14, 2, 13, 1, 10, 6, 12, 11, 9, 5, 3, 8,
   4, 1, 14, 8, 13, 6, 2, 11, 15, 12, 9, 7, 3, 10, 5, 0,
   15, 12, 8, 2, 4, 9, 1, 7, 5, 11, 3, 14, 10, 0, 6, 13]"

definition SBox2 :: "u32 list" where
  "SBox2 = [
   15, 1, 8, 14, 6, 11, 3, 4, 9, 7, 2, 13, 12, 0, 5, 10,
   3, 13, 4, 7, 15, 2, 8, 14, 12, 0, 1, 10, 6, 9, 11, 5,
   0, 14, 7, 11, 10, 4, 13, 1, 5, 8, 12, 6, 9, 3, 2, 15,
   13, 8, 10, 1, 3, 15, 4, 2, 11, 6, 7, 12, 0, 5, 14, 9]"

definition SBox3 :: "u32 list" where
  "SBox3 = [
   10, 0, 9, 14, 6, 3, 15, 5, 1, 13, 12, 7, 11, 4, 2, 8,
   13, 7, 0, 9, 3, 4, 6, 10, 2, 8, 5, 14, 12, 11, 15, 1,
   13, 6, 4, 9, 8, 15, 3, 0, 11, 1, 2, 12, 5, 10, 14, 7,
   1, 10, 13, 0, 6, 9, 8, 7, 4, 15, 14, 3, 11, 5, 2, 12]"

definition SBox4 :: "u32 list" where
  "SBox4 = [
   7, 13, 14, 3, 0, 6, 9, 10, 1, 2, 8, 5, 11, 12, 4, 15,
   13, 8, 11, 5, 6, 15, 0, 3, 4, 7, 2, 12, 1, 10, 14, 9,
   10, 6, 9, 0, 12, 11, 7, 13, 15, 1, 3, 14, 5, 2, 8, 4,
   3, 15, 0, 6, 10, 1, 13, 8, 9, 4, 5, 11, 12, 7, 2, 14]"

definition SBox5 :: "u32 list" where
  "SBox5 = [
   2, 12, 4, 1, 7, 10, 11, 6, 8, 5, 3, 15, 13, 0, 14, 9,
   14, 11, 2, 12, 4, 7, 13, 1, 5, 0, 15, 10, 3, 9, 8, 6,
   4, 2, 1, 11, 10, 13, 7, 8, 15, 9, 12, 5, 6, 3, 0, 14,
   11, 8, 12, 7, 1, 14, 2, 13, 6, 15, 0, 9, 10, 4, 5, 3]"

definition SBox6 :: "u32 list" where
  "SBox6 = [
   12, 1, 10, 15, 9, 2, 6, 8, 0, 13, 3, 4, 14, 7, 5, 11,
   10, 15, 4, 2, 7, 12, 9, 5, 6, 1, 13, 14, 0, 11, 3, 8,
   9, 14, 15, 5, 2, 8, 12, 3, 7, 0, 4, 10, 1, 13, 11, 6,
   4, 3, 2, 12, 9, 5, 15, 10, 11, 14, 1, 7, 6, 0, 8, 13]"

definition SBox7 :: "u32 list" where
  "SBox7 = [
   4, 11, 2, 14, 15, 0, 8, 13, 3, 12, 9, 7, 5, 10, 6, 1,
   13, 0, 11, 7, 4, 9, 1, 10, 14, 3, 5, 12, 2, 15, 8, 6,
   1, 4, 11, 13, 12, 3, 7, 14, 10, 15, 6, 8, 0, 5, 9, 2,
   6, 11, 13, 8, 1, 4, 10, 7, 9, 5, 0, 15, 14, 2, 3, 12]"

definition SBox8 :: "u32 list" where
  "SBox8 = [
   13, 2, 8, 4, 6, 15, 11, 1, 10, 9, 3, 14, 5, 0, 12, 7,
   1, 15, 13, 8, 10, 3, 7, 4, 12, 5, 6, 11, 0, 14, 9, 2,
   7, 11, 4, 1, 9, 12, 14, 2, 0, 6, 10, 13, 15, 3, 5, 8,
   2, 1, 14, 7, 4, 10, 8, 13, 15, 12, 9, 0, 3, 5, 6, 11]"

definition P_table :: "nat list" where
  "P_table = [
   16, 7, 20, 21, 29, 12, 28, 17, 1, 15, 23, 26, 5, 18, 31, 10,
   2, 8, 24, 14, 32, 27, 3, 9, 19, 13, 30, 6, 22, 11, 4, 25]"

definition Permute :: "u32 \<Rightarrow> u32" where
  "Permute value =
     (let result = foldl (\<lambda>result posn.
            if value AND push_bit (32 - P_table ! posn) 1 \<noteq> 0
            then result OR push_bit (31 - posn) 1 else result) 0 [0..<32]
      in push_bit 1 result OR drop_bit 31 result)"

definition ApplySBox :: "u32 list \<Rightarrow> nat \<Rightarrow> u32 \<Rightarrow> u32" where
  "ApplySBox sbox boxNum v =
     (let index = (0 :: u32);
          index = (if v AND 0x20 \<noteq> 0 then index OR 2 else index);
          index = (if v AND 0x01 \<noteq> 0 then index OR 1 else index);
          index = push_bit 4 index OR (drop_bit 1 v AND 0x0F)
      in push_bit (28 - boxNum * 4) (sbox ! unat index))"

definition GenSPBox :: "u32 list \<Rightarrow> nat \<Rightarrow> u32 list" where
  "GenSPBox sbox boxNum = map (\<lambda>index. Permute (ApplySBox sbox boxNum (word_of_nat index))) [0..<64]"

section \<open>The key schedule\<close>

text \<open>The halves of the key before round \<open>n\<close>, and the key of round \<open>n\<close>.\<close>

definition rotate_halves :: "u32 \<times> u32 \<Rightarrow> nat \<Rightarrow> u32 \<times> u32" where
  "rotate_halves s r = (case s of (C, D) \<Rightarrow> (ROTATE28 C (LRotate ! r), ROTATE28 D (LRotate ! r)))"

definition key_halves :: "bytes \<Rightarrow> nat \<Rightarrow> u32 \<times> u32" where
  "key_halves key n = foldl rotate_halves (key_C key, key_D key) [0..<n]"

definition round_key :: "bytes \<Rightarrow> nat \<Rightarrow> u32 \<times> u32" where
  "round_key key r = (case key_halves key (Suc r) of (C, D) \<Rightarrow> sched_key (sched_words C D))"

definition ks_pairs :: "u32 list \<Rightarrow> (u32 \<times> u32) list" where
  "ks_pairs s = map (\<lambda>i. (s ! (2 * i), s ! (2 * i + 1))) [0..<16]"

definition put_key :: "(nat \<Rightarrow> u32 \<times> u32) \<Rightarrow> (nat \<Rightarrow> nat) \<Rightarrow> u32 list \<Rightarrow> nat \<Rightarrow> u32 list" where
  "put_key f p s r = s[2 * p r := fst (f r), 2 * p r + 1 := snd (f r)]"

lemma sched_round_step:
  "sched_round decrypt (fst (key_halves key n), snd (key_halves key n), s) n =
     (fst (key_halves key (Suc n)), snd (key_halves key (Suc n)),
      put_key (round_key key) (\<lambda>r. if decrypt then 15 - r else r) s n)"
proof -
  have h: "key_halves key (Suc n) =
      (ROTATE28 (fst (key_halves key n)) (LRotate ! n), ROTATE28 (snd (key_halves key n)) (LRotate ! n))"
    by (simp add: key_halves_def rotate_halves_def split: prod.split)
  have "2 * (15 - n) = 30 - n * 2" by simp
  then show ?thesis
    by (simp add: sched_round_def h put_key_def round_key_def Let_def mult.commute split: prod.split)
qed

lemma sched_rounds:
  "foldl (sched_round decrypt) (key_C key, key_D key, s) [0..<n] =
     (fst (key_halves key n), snd (key_halves key n),
      foldl (put_key (round_key key) (\<lambda>r. if decrypt then 15 - r else r)) s [0..<n])"
proof (induction n)
  case 0
  then show ?case by (simp add: key_halves_def)
next
  case (Suc n)
  then show ?case by (simp add: sched_round_step)
qed

lemma put_keys_nth:
  assumes "inj_on p {..<n}" and "\<And>r. r < n \<Longrightarrow> 2 * p r + 1 < length s"
  shows "length (foldl (put_key f p) s [0..<n]) = length s \<and>
    (\<forall>r<n. foldl (put_key f p) s [0..<n] ! (2 * p r) = fst (f r) \<and>
           foldl (put_key f p) s [0..<n] ! (2 * p r + 1) = snd (f r))"
  using assms
proof (induction n)
  case (Suc n)
  let ?s = "foldl (put_key f p) s [0..<n]"
  have ih: "length ?s = length s" "\<forall>r<n. ?s ! (2 * p r) = fst (f r) \<and> ?s ! (2 * p r + 1) = snd (f r)"
    using Suc by (auto simp: inj_on_def)
  have ne: "p r \<noteq> p n" "p n \<noteq> p r" if "r < n" for r
    using inj_onD [OF Suc.prems(1), of r n] that by auto
  have "2 * p n + 1 < length s" using Suc.prems(2) [of n] by simp
  moreover have par: "Suc (2 * a) \<noteq> 2 * b" "2 * b \<noteq> Suc (2 * a)" for a b :: nat by presburger+
  ultimately show ?case
    using ih ne by (auto simp: par put_key_def [of f p ?s n] nth_list_update less_Suc_eq)
qed simp

text \<open>The decryption schedule is the encryption schedule in reverse.\<close>

lemma schedule_pairs:
  assumes "length s = 32" and "8 \<le> length key"
  obtains s' where "CreateDESSchedule s key decrypt = Some s'" and "length s' = 32"
    and "ks_pairs s' = (if decrypt then rev (map (round_key key) [0..<16]) else map (round_key key) [0..<16])"
proof -
  let ?p = "\<lambda>r :: nat. if decrypt then 15 - r else r"
  let ?s = "foldl (put_key (round_key key) ?p) s [0..<16]"
  have i: "inj_on ?p {..<16}" by (auto simp: inj_on_def)
  have "length ?s = length s \<and> (\<forall>r<16. ?s ! (2 * ?p r) = fst (round_key key r) \<and> ?s ! (2 * ?p r + 1) = snd (round_key key r))"
    by (rule put_keys_nth [OF i]) (use assms(1) in auto)
  then have l: "length ?s = 32"
    and n: "\<And>r. r < 16 \<Longrightarrow> (?s ! (2 * ?p r), ?s ! (2 * ?p r + 1)) = round_key key r"
    using assms(1) by auto
  have "ks_pairs ?s = (if decrypt then rev (map (round_key key) [0..<16]) else map (round_key key) [0..<16])"
  proof (rule nth_equalityI)
    fix j assume "j < length (ks_pairs ?s)"
    then have j: "j < 16" by (simp add: ks_pairs_def)
    show "ks_pairs ?s ! j =
        (if decrypt then rev (map (round_key key) [0..<16]) else map (round_key key) [0..<16]) ! j"
    proof (cases decrypt)
      case True
      with n [of "15 - j"] j show ?thesis
        by (simp add: ks_pairs_def rev_nth del: upt_rec_numeral upt_Suc)
    next
      case False
      with n [of j] j show ?thesis by (simp add: ks_pairs_def del: upt_rec_numeral upt_Suc)
    qed
  qed (simp add: ks_pairs_def)
  moreover have "CreateDESSchedule s key decrypt = Some ?s"
    using assms by (simp add: CreateDESSchedule_def sched_rounds del: upt_rec_numeral upt_Suc)
  ultimately show ?thesis using that l by blast
qed

section \<open>The block function\<close>

text \<open>A round of a Feistel network, and its inverse.\<close>

definition feistel :: "u32 \<times> u32 \<Rightarrow> u32 \<times> u32 \<Rightarrow> u32 \<times> u32" where
  "feistel s k = (case s of (L, R) \<Rightarrow> (R, L XOR des_f R k))"

definition swap_halves :: "u32 \<times> u32 \<Rightarrow> u32 \<times> u32" where
  "swap_halves s = (case s of (L, R) \<Rightarrow> (R, L))"

lemma feistel_undo: "feistel (swap_halves (feistel s k)) k = swap_halves s"
  by (simp add: feistel_def swap_halves_def xor.assoc split: prod.split)

lemma feistel_reverse:
  "foldl feistel (swap_halves (foldl feistel s kl)) (rev kl) = swap_halves s"
  by (induction kl arbitrary: s rule: rev_induct) (simp_all add: feistel_undo)

lemma des_rounds_feistel:
  "foldl (des_double_round s) x [0..<8] = foldl feistel x (ks_pairs s)"
proof -
  have d: "des_double_round s y i =
      feistel (feistel y (s ! (4 * i), s ! (4 * i + 1))) (s ! (4 * i + 2), s ! (4 * i + 3))" for y i
    by (simp add: des_double_round_def feistel_def Let_def split: prod.split)
  show ?thesis
    by (simp add: d ks_pairs_def upt_rec numeral_eq_Suc)
qed

lemma IPSTEP_undo:
  assumes "drop_bit n (push_bit n m) = m"
  shows "(case IPSTEP l r n m of (l', r') \<Rightarrow> IPSTEP l' r' n m) = (l, r)"
proof -
  define t where "t = (drop_bit n l XOR r) AND m"
  have "drop_bit n (push_bit n t) = t"
  proof (rule bit_word_eqI)
    fix j assume "j < LENGTH(32)"
    have "bit m j \<Longrightarrow> n + j < 32"
      using arg_cong [OF assms, of "\<lambda>x. bit x j"] by (simp add: bit_simps)
    then show "bit (drop_bit n (push_bit n t)) j = bit t j"
      by (auto simp: bit_simps t_def)
  qed
  then have "(drop_bit n (l XOR push_bit n t) XOR (r XOR t)) AND m = t"
    by (simp add: drop_bit_xor xor.assoc xor.left_commute [of t]) (simp add: t_def xor.commute)
  then have "IPSTEP (l XOR push_bit n t) (r XOR t) n m = ((l XOR push_bit n t) XOR push_bit n t, (r XOR t) XOR t)"
    unfolding IPSTEP_def Let_def by (simp only:)
  moreover have "IPSTEP l r n m = (l XOR push_bit n t, r XOR t)"
    unfolding IPSTEP_def Let_def t_def ..
  ultimately show ?thesis by (simp add: xor.assoc)
qed

lemma swap_bits_undo:
  fixes L R m :: u32
  defines "t \<equiv> (L XOR R) AND m"
  shows "((L XOR t) XOR (R XOR t)) AND m = t"
  unfolding t_def by (rule bit_word_eqI) (auto simp: bit_simps)

lemma rotate_undo: "ROTATE_left (ROTATE_left (x :: u32) 31) 1 = x"
  by (rule bit_word_eqI) (auto simp: ROTATE_left_rotl bit_word_rotl_iff mod_if)

lemma rotate_undo': "ROTATE_left (ROTATE_left (x :: u32) 1) 31 = x"
  by (rule word32_eqI) (simp add: ROTATE_left_def blast_simps)

lemma IPSTEP_masks:
  "IPSTEP l r 4 0x0F0F0F0F = (l', r') \<Longrightarrow> IPSTEP l' r' 4 0x0F0F0F0F = (l, r)"
  "IPSTEP l r 16 0x0000FFFF = (l', r') \<Longrightarrow> IPSTEP l' r' 16 0x0000FFFF = (l, r)"
  "IPSTEP l r 2 0x33333333 = (l', r') \<Longrightarrow> IPSTEP l' r' 2 0x33333333 = (l, r)"
  "IPSTEP l r 8 0x00FF00FF = (l', r') \<Longrightarrow> IPSTEP l' r' 8 0x00FF00FF = (l, r)"
  using IPSTEP_undo [of 4 "0x0F0F0F0F" l r] IPSTEP_undo [of 16 "0x0000FFFF" l r]
    IPSTEP_undo [of 2 "0x33333333" l r] IPSTEP_undo [of 8 "0x00FF00FF" l r] by simp_all

lemma swap_bits_split:
  fixes L R m :: u32
  shows "(let temp = (L XOR R) AND m in (L XOR temp, R XOR temp)) = (L', R') \<Longrightarrow>
    (let temp = (L' XOR R') AND m in (L' XOR temp, R' XOR temp)) = (L, R)"
  using swap_bits_undo [of L R m] by (auto simp: Let_def xor.assoc)

text \<open>The two permutations undo each other, with the halves exchanged.\<close>

lemma input_after_output:
  assumes "output_permutation L R = (l, r)"
  shows "input_permutation r l = (R, L)"
proof -
  let ?m = "0xAAAAAAAA :: u32"
  obtain L2 R2 where a: "(let temp = (L XOR ROTATE_left R 31) AND ?m in
      (L XOR temp, ROTATE_left R 31 XOR temp)) = (L2, R2)" by (metis surj_pair)
  obtain L4 R4 where b: "IPSTEP (ROTATE_left L2 31) R2 8 0x00FF00FF = (L4, R4)" by (metis surj_pair)
  obtain L5 R5 where c: "IPSTEP L4 R4 2 0x33333333 = (L5, R5)" by (metis surj_pair)
  obtain R6 L6 where d: "IPSTEP R5 L5 16 0x0000FFFF = (R6, L6)" by (metis surj_pair)
  obtain R7 L7 where e: "IPSTEP R6 L6 4 0x0F0F0F0F = (R7, L7)" by (metis surj_pair)
  have "output_permutation L R = (L7, R7)"
    using a b c d e by (simp add: output_permutation_def Let_def)
  with assms have lr: "l = L7" "r = R7" by simp_all
  from swap_bits_split [OF a] show ?thesis
    by (auto simp: lr input_permutation_def IPSTEP_masks(1) [OF e] IPSTEP_masks(2) [OF d] IPSTEP_masks(3) [OF c]
          IPSTEP_masks(4) [OF b] Let_def rotate_undo [simplified] xor.commute)
qed

lemma output_after_input:
  assumes "input_permutation L R = (l, r)"
  shows "output_permutation r l = (R, L)"
proof -
  let ?m = "0xAAAAAAAA :: u32"
  obtain L1 R1 where a: "IPSTEP L R 4 0x0F0F0F0F = (L1, R1)" by (metis surj_pair)
  obtain L2 R2 where b: "IPSTEP L1 R1 16 0x0000FFFF = (L2, R2)" by (metis surj_pair)
  obtain R3 L3 where c: "IPSTEP R2 L2 2 0x33333333 = (R3, L3)" by (metis surj_pair)
  obtain R4 L4 where d: "IPSTEP R3 L3 8 0x00FF00FF = (R4, L4)" by (metis surj_pair)
  obtain L5 R5 where e: "(let temp = (L4 XOR ROTATE_left R4 1) AND ?m in
      (L4 XOR temp, ROTATE_left R4 1 XOR temp)) = (L5, R5)" by (metis surj_pair)
  have "input_permutation L R = (ROTATE_left L5 1, R5)"
    using a b c d e by (simp add: input_permutation_def Let_def)
  with assms have lr: "l = ROTATE_left L5 1" "r = R5" by simp_all
  from swap_bits_split [OF e] show ?thesis
    by (auto simp: lr output_permutation_def IPSTEP_masks(1) [OF a] IPSTEP_masks(2) [OF b] IPSTEP_masks(3) [OF c]
          IPSTEP_masks(4) [OF d] Let_def rotate_undo' [simplified] xor.commute)
qed

text \<open>Words and their bytes.\<close>

lemma bread_be32_bytes:
  "IL_BREAD_UINT32 (be32_bytes x @ be32_bytes y) 0 = x"
  "IL_BREAD_UINT32 (be32_bytes x @ be32_bytes y) 4 = y"
  by (rule word32_eqI, simp add: all_less_32 IL_BREAD_UINT32_def be32_bytes_def bit_simps)+

lemma be32_bytes_bread:
  assumes "length inp = 8"
  shows "be32_bytes (IL_BREAD_UINT32 inp 0) @ be32_bytes (IL_BREAD_UINT32 inp 4) = inp"
proof -
  have b: "be32_bytes (ucast d OR push_bit 8 (ucast c) OR push_bit 16 (ucast b) OR push_bit 24 (ucast a)) =
      [a, b, c, d]" for a b c d :: u8
    unfolding be32_bytes_def
    by (simp, intro conjI; rule bit_word_eqI) (auto simp: bit_simps dest: bit_imp_le_length)
  from assms obtain a b c d e f g h where "inp = [a, b, c, d, e, f, g, h]"
    by (auto simp: length_Suc_conv numeral_eq_Suc)
  then show ?thesis by (simp add: IL_BREAD_UINT32_def b)
qed

lemma length_be32_bytes [simp]: "length (be32_bytes x) = 4"
  by (simp add: be32_bytes_def)

text \<open>A schedule whose pairs are reversed undoes the block function.\<close>

lemma ProcessDESBlock_reverse:
  assumes "length inp = 8" and "length s = 32" and "length s' = 32" and "ks_pairs s' = rev (ks_pairs s)"
  obtains out where "ProcessDESBlock s inp = Some out" and "length out = 8"
    and "ProcessDESBlock s' out = Some inp"
proof -
  obtain L0 R0 where ip: "input_permutation (IL_BREAD_UINT32 inp 0) (IL_BREAD_UINT32 inp 4) = (L0, R0)"
    by (metis surj_pair)
  obtain Ln Rn where r: "foldl feistel (L0, R0) (ks_pairs s) = (Ln, Rn)" by (metis surj_pair)
  obtain l r where op: "output_permutation Ln Rn = (l, r)" by (metis surj_pair)
  let ?out = "be32_bytes r @ be32_bytes l"
  have 1: "ProcessDESBlock s inp = Some ?out"
    using assms by (simp add: ProcessDESBlock_def Let_def ip des_rounds_feistel r op del: upt_rec_numeral upt_Suc)
  have "foldl feistel (Rn, Ln) (ks_pairs s') = (R0, L0)"
    using feistel_reverse [of "(L0, R0)" "ks_pairs s"] by (simp add: assms(4) r swap_halves_def)
  then have "ProcessDESBlock s' ?out = Some inp"
    using assms by (simp add: ProcessDESBlock_def Let_def bread_be32_bytes input_after_output [OF op]
        des_rounds_feistel output_after_input [OF ip] be32_bytes_bread del: upt_rec_numeral upt_Suc)
  with 1 show ?thesis using that by simp
qed

definition inverse_block :: "ILDESContext \<Rightarrow> ILDESContext \<Rightarrow> bool" where
  "inverse_block c c' \<longleftrightarrow> (\<forall>inp. length inp = 8 \<longrightarrow>
     (\<exists>out. ProcessDESBlock (ks c) inp = Some out \<and> length out = 8 \<and> ProcessDESBlock (ks c') out = Some inp))"

lemma inverse_blockE:
  assumes "inverse_block c c'" and "length inp = 8"
  obtains out where "ProcessDESBlock (ks c) inp = Some out" and "length out = 8"
    and "ProcessDESBlock (ks c') out = Some inp"
  using assms by (auto simp: inverse_block_def)

lemma des_inverse:
  assumes "8 \<le> length key" and "length (ks des) = 32" and "length (ks des') = 32"
  obtains c c' where "ILDESInit des key d = Some c" and "ILDESInit des' key (\<not> d) = Some c'"
    and "inverse_block c c'"
proof -
  obtain s where s: "CreateDESSchedule (ks des) key d = Some s" "length s = 32"
    "ks_pairs s = (if d then rev (map (round_key key) [0..<16]) else map (round_key key) [0..<16])"
    using schedule_pairs [OF assms(2,1)] .
  obtain s' where s': "CreateDESSchedule (ks des') key (\<not> d) = Some s'" "length s' = 32"
    "ks_pairs s' = (if \<not> d then rev (map (round_key key) [0..<16]) else map (round_key key) [0..<16])"
    using schedule_pairs [OF assms(3,1)] .
  have "ks_pairs s' = rev (ks_pairs s)" using s(3) s'(3) by (auto simp del: upt_rec_numeral upt_Suc)
  then have "inverse_block (des\<lparr>ks := s\<rparr>) (des'\<lparr>ks := s'\<rparr>)"
    unfolding inverse_block_def by (auto intro: ProcessDESBlock_reverse [OF _ s(2) s'(2)])
  then show ?thesis using that s s' by (simp add: ILDESInit_def)
qed

text \<open>C25: DES decrypts what it encrypts.  For every key of at least eight bytes and every block,
  initialisation in either direction succeeds, processing writes eight bytes, and the
  context for the other direction gives the block back.
\<close>

theorem des_roundtrip:
  assumes "8 \<le> length key" and "length (ks des) = 32" and "length (ks des') = 32" and "length inp = 8"
  shows "\<exists>c c' out. ILDESInit des key d = Some c \<and> ILDESInit des' key (\<not> d) = Some c' \<and>
    ILDESProcess c inp = Some out \<and> length out = 8 \<and> ILDESProcess c' out = Some inp"
proof -
  obtain c c' where c: "ILDESInit des key d = Some c" "ILDESInit des' key (\<not> d) = Some c'" "inverse_block c c'"
    using des_inverse [OF assms(1-3)] .
  with inverse_blockE [OF c(3) assms(4)] show ?thesis
    unfolding ILDESProcess_def by (metis (no_types))
qed

theorem des_roundtrip_witness:
  "\<exists>c c' out. ILDESInit \<lparr>ks = replicate 32 0\<rparr> [1, 2, 3, 4, 5, 6, 7, 8] False = Some c \<and>
     ILDESInit \<lparr>ks = replicate 32 7\<rparr> [1, 2, 3, 4, 5, 6, 7, 8] True = Some c' \<and>
     ILDESProcess c [8, 7, 6, 5, 4, 3, 2, 1] = Some out \<and> length out = 8 \<and>
     ILDESProcess c' out = Some [8, 7, 6, 5, 4, 3, 2, 1]"
  using des_roundtrip [of "[1, 2, 3, 4, 5, 6, 7, 8]" "\<lparr>ks = replicate 32 0\<rparr>" "\<lparr>ks = replicate 32 7\<rparr>"
      "[8, 7, 6, 5, 4, 3, 2, 1]" False] by simp

text \<open>Three contexts in sequence are undone by their inverses in the opposite order.\<close>

lemma triple_inverse:
  assumes "inverse_block a a'" and "inverse_block b b'" and "inverse_block c c'" and "length inp = 8"
  shows "\<exists>out. ILDES3Process \<lparr>k1 = a, k2 = b, k3 = c\<rparr> inp = Some out \<and> length out = 8 \<and>
    ILDES3Process \<lparr>k1 = c', k2 = b', k3 = a'\<rparr> out = Some inp"
proof -
  obtain x where x: "ProcessDESBlock (ks a) inp = Some x" "length x = 8" "ProcessDESBlock (ks a') x = Some inp"
    using inverse_blockE [OF assms(1,4)] .
  obtain y where y: "ProcessDESBlock (ks b) x = Some y" "length y = 8" "ProcessDESBlock (ks b') y = Some x"
    using inverse_blockE [OF assms(2) x(2)] .
  obtain z where z: "ProcessDESBlock (ks c) y = Some z" "length z = 8" "ProcessDESBlock (ks c') z = Some y"
    using inverse_blockE [OF assms(3) y(2)] .
  from x y z show ?thesis by (simp add: ILDES3Process_def)
qed

text \<open>Triple-DES decrypts what it encrypts, with three keys (192 bits) and with two,
  whatever the contexts held before.
\<close>

lemma des3_roundtrip:
  assumes "(if keyBits = 192 then 24 else 16) \<le> length key" and "length inp = 8"
    and "length (ks (k1 des)) = 32" and "length (ks (k2 des)) = 32" and "length (ks (k3 des)) = 32"
    and "length (ks (k1 des')) = 32" and "length (ks (k2 des')) = 32" and "length (ks (k3 des')) = 32"
  shows "\<exists>c c' out. ILDES3Init des key keyBits d = Some c \<and> ILDES3Init des' key keyBits (\<not> d) = Some c' \<and>
    ILDES3Process c inp = Some out \<and> length out = 8 \<and> ILDES3Process c' out = Some inp"
proof -
  have l: "8 \<le> length key" "8 \<le> length (drop 8 key)" and l3: "keyBits = 192 \<Longrightarrow> 8 \<le> length (drop 16 key)"
    using assms(1) by (auto split: if_splits)
  show ?thesis
  proof (cases "keyBits = 192")
    case True
    note l3 = l3 [OF True]
    show ?thesis
    proof (cases d)
      case d: True
      obtain a a' where a: "ILDESInit (k1 des) (drop 16 key) True = Some a"
        "ILDESInit (k3 des') (drop 16 key) (\<not> True) = Some a'" "inverse_block a a'"
        using des_inverse [OF l3 assms(3,8)] .
      obtain b b' where b: "ILDESInit (k2 des) (drop 8 key) False = Some b"
        "ILDESInit (k2 des') (drop 8 key) (\<not> False) = Some b'" "inverse_block b b'"
        using des_inverse [OF l(2) assms(4,7)] .
      obtain c c' where c: "ILDESInit (k3 des) key True = Some c"
        "ILDESInit (k1 des') key (\<not> True) = Some c'" "inverse_block c c'"
        using des_inverse [OF l(1) assms(5,6)] .
      from triple_inverse [OF a(3) b(3) c(3) assms(2)] a b c show ?thesis
        by (simp add: ILDES3Init_def True d)
    next
      case d: False
      obtain a a' where a: "ILDESInit (k1 des) key False = Some a"
        "ILDESInit (k3 des') key (\<not> False) = Some a'" "inverse_block a a'"
        using des_inverse [OF l(1) assms(3,8)] .
      obtain b b' where b: "ILDESInit (k2 des) (drop 8 key) True = Some b"
        "ILDESInit (k2 des') (drop 8 key) (\<not> True) = Some b'" "inverse_block b b'"
        using des_inverse [OF l(2) assms(4,7)] .
      obtain c c' where c: "ILDESInit (k3 des) (drop 16 key) False = Some c"
        "ILDESInit (k1 des') (drop 16 key) (\<not> False) = Some c'" "inverse_block c c'"
        using des_inverse [OF l3 assms(5,6)] .
      from triple_inverse [OF a(3) b(3) c(3) assms(2)] a b c show ?thesis
        by (simp add: ILDES3Init_def True d)
    qed
  next
    case False
    obtain a a' where a: "ILDESInit (k1 des) key d = Some a"
      "ILDESInit (k1 des') key (\<not> d) = Some a'" "inverse_block a a'"
      using des_inverse [OF l(1) assms(3,6)] .
    obtain b b' where b: "ILDESInit (k2 des) (drop 8 key) (\<not> d) = Some b"
      "ILDESInit (k2 des') (drop 8 key) (\<not> \<not> d) = Some b'" "inverse_block b b'"
      using des_inverse [OF l(2) assms(4,7)] .
    from triple_inverse [OF a(3) b(3) a(3) assms(2)] a b False show ?thesis
      by (simp add: ILDES3Init_def)
  qed
qed

lemma des3_roundtrip_witness:
  "\<exists>c c' out. ILDES3Init \<lparr>k1 = \<lparr>ks = replicate 32 0\<rparr>, k2 = \<lparr>ks = replicate 32 0\<rparr>, k3 = \<lparr>ks = replicate 32 0\<rparr>\<rparr>
       (map word_of_nat [0..<24]) 192 False = Some c \<and>
     ILDES3Init \<lparr>k1 = \<lparr>ks = replicate 32 0\<rparr>, k2 = \<lparr>ks = replicate 32 0\<rparr>, k3 = \<lparr>ks = replicate 32 0\<rparr>\<rparr>
       (map word_of_nat [0..<24]) 192 True = Some c' \<and>
     ILDES3Process c [1, 2, 3, 4, 5, 6, 7, 8] = Some out \<and> length out = 8 \<and>
     ILDES3Process c' out = Some [1, 2, 3, 4, 5, 6, 7, 8]"
  using des3_roundtrip [of 192 "map word_of_nat [0..<24]" "[1, 2, 3, 4, 5, 6, 7, 8]"
      "\<lparr>k1 = \<lparr>ks = replicate 32 0\<rparr>, k2 = \<lparr>ks = replicate 32 0\<rparr>, k3 = \<lparr>ks = replicate 32 0\<rparr>\<rparr>"
      "\<lparr>k1 = \<lparr>ks = replicate 32 0\<rparr>, k2 = \<lparr>ks = replicate 32 0\<rparr>, k3 = \<lparr>ks = replicate 32 0\<rparr>\<rparr>" False]
  by simp


end
