(* ===== verification/DesTables.thy ===== *)
theory DesTables
  imports Des
begin

text \<open>
  The constant tables of \<^verbatim>\<open>support/des.c\<close>: the eight combined tables \<^verbatim>\<open>SPBox1\<close> to
  \<^verbatim>\<open>SPBox8\<close> are what the generator at the end of the file computes from the S-boxes
  and the permutation of FIPS 46-3, and the keys of \<^verbatim>\<open>WeakKeys\<close> and \<^verbatim>\<open>SemiWeakKeys\<close>
  have the property they are listed for.
\<close>

section \<open>The combined S-box tables\<close>

lemma upt_32:
  "[0..<32] = [0, 1, 2, 3, 4, 5, 6, 7, 8, 9, 10, 11, 12, 13, 14, 15, 16, 17, 18, 19, 20, 21, 22, 23,
     24, 25, 26, 27, 28, 29, 30, 31]"
  by (simp add: upt_rec)

text \<open>A word collected from selected bits; the loops below evaluate in this form.\<close>

definition pick :: "u32 \<Rightarrow> bool \<times> u32 \<Rightarrow> u32" where
  "pick C t = (if fst t then C OR snd t else C)"

lemma Permute_pick:
  "Permute v = (let result = foldl pick 0
       (map (\<lambda>p. (v AND push_bit (32 - P_table ! p) 1 \<noteq> 0, push_bit (31 - p) 1)) [0..<32])
     in push_bit 1 result OR drop_bit 31 result)"
proof -
  have "foldl (\<lambda>result posn. if v AND push_bit (32 - P_table ! posn) 1 \<noteq> 0
         then result OR push_bit (31 - posn) 1 else result) 0 [0..<32] =
      foldl pick 0 (map (\<lambda>p. (v AND push_bit (32 - P_table ! p) 1 \<noteq> 0, push_bit (31 - p) 1)) [0..<32])"
    unfolding foldl_map by (rule foldl_upt_cong) (simp add: pick_def)
  then show ?thesis unfolding Permute_def by (simp only:)
qed

text \<open>The sixteen values an S-box can put in its place, permuted.\<close>

lemma Permute_list:
  "Permute v = (let result = foldl pick 0 [
     (v AND 0x10000 \<noteq> 0, 0x80000000), (v AND 0x2000000 \<noteq> 0, 0x40000000), (v AND 0x1000 \<noteq> 0, 0x20000000),
     (v AND 0x800 \<noteq> 0, 0x10000000), (v AND 0x8 \<noteq> 0, 0x8000000), (v AND 0x100000 \<noteq> 0, 0x4000000),
     (v AND 0x10 \<noteq> 0, 0x2000000), (v AND 0x8000 \<noteq> 0, 0x1000000), (v AND 0x80000000 \<noteq> 0, 0x800000),
     (v AND 0x20000 \<noteq> 0, 0x400000), (v AND 0x200 \<noteq> 0, 0x200000), (v AND 0x40 \<noteq> 0, 0x100000),
     (v AND 0x8000000 \<noteq> 0, 0x80000), (v AND 0x4000 \<noteq> 0, 0x40000), (v AND 0x2 \<noteq> 0, 0x20000),
     (v AND 0x400000 \<noteq> 0, 0x10000), (v AND 0x40000000 \<noteq> 0, 0x8000), (v AND 0x1000000 \<noteq> 0, 0x4000),
     (v AND 0x100 \<noteq> 0, 0x2000), (v AND 0x40000 \<noteq> 0, 0x1000), (v AND 1 \<noteq> 0, 0x800),
     (v AND 0x20 \<noteq> 0, 0x400), (v AND 0x20000000 \<noteq> 0, 0x200), (v AND 0x800000 \<noteq> 0, 0x100),
     (v AND 0x2000 \<noteq> 0, 0x80), (v AND 0x80000 \<noteq> 0, 0x40), (v AND 0x4 \<noteq> 0, 0x20),
     (v AND 0x4000000 \<noteq> 0, 0x10), (v AND 0x400 \<noteq> 0, 0x8), (v AND 0x200000 \<noteq> 0, 0x4),
     (v AND 0x10000000 \<noteq> 0, 0x2), (v AND 0x80 \<noteq> 0, 1)]
   in push_bit 1 result OR drop_bit 31 result)"
  unfolding Permute_pick upt_32 by (simp add: P_table_def)

lemma Permute_box1:
  "Permute 0 = 0"
  "Permute 0x10000000 = 0x4"
  "Permute 0x20000000 = 0x400"
  "Permute 0x30000000 = 0x404"
  "Permute 0x40000000 = 0x10000"
  "Permute 0x50000000 = 0x10004"
  "Permute 0x60000000 = 0x10400"
  "Permute 0x70000000 = 0x10404"
  "Permute 0x80000000 = 0x1000000"
  "Permute 0x90000000 = 0x1000004"
  "Permute 0xa0000000 = 0x1000400"
  "Permute 0xb0000000 = 0x1000404"
  "Permute 0xc0000000 = 0x1010000"
  "Permute 0xd0000000 = 0x1010004"
  "Permute 0xe0000000 = 0x1010400"
  "Permute 0xf0000000 = 0x1010404"
  by (simp_all add: Permute_list pick_def)

lemma Permute_box2:
  "Permute 0 = 0"
  "Permute 0x1000000 = 0x8000"
  "Permute 0x2000000 = 0x80000000"
  "Permute 0x3000000 = 0x80008000"
  "Permute 0x4000000 = 0x20"
  "Permute 0x5000000 = 0x8020"
  "Permute 0x6000000 = 0x80000020"
  "Permute 0x7000000 = 0x80008020"
  "Permute 0x8000000 = 0x100000"
  "Permute 0x9000000 = 0x108000"
  "Permute 0xa000000 = 0x80100000"
  "Permute 0xb000000 = 0x80108000"
  "Permute 0xc000000 = 0x100020"
  "Permute 0xd000000 = 0x108020"
  "Permute 0xe000000 = 0x80100020"
  "Permute 0xf000000 = 0x80108020"
  by (simp_all add: Permute_list pick_def)

lemma Permute_box3:
  "Permute 0 = 0"
  "Permute 0x100000 = 0x8000000"
  "Permute 0x200000 = 0x8"
  "Permute 0x300000 = 0x8000008"
  "Permute 0x400000 = 0x20000"
  "Permute 0x500000 = 0x8020000"
  "Permute 0x600000 = 0x20008"
  "Permute 0x700000 = 0x8020008"
  "Permute 0x800000 = 0x200"
  "Permute 0x900000 = 0x8000200"
  "Permute 0xa00000 = 0x208"
  "Permute 0xb00000 = 0x8000208"
  "Permute 0xc00000 = 0x20200"
  "Permute 0xd00000 = 0x8020200"
  "Permute 0xe00000 = 0x20208"
  "Permute 0xf00000 = 0x8020208"
  by (simp_all add: Permute_list pick_def)

lemma Permute_box4:
  "Permute 0 = 0"
  "Permute 0x10000 = 0x1"
  "Permute 0x20000 = 0x800000"
  "Permute 0x30000 = 0x800001"
  "Permute 0x40000 = 0x2000"
  "Permute 0x50000 = 0x2001"
  "Permute 0x60000 = 0x802000"
  "Permute 0x70000 = 0x802001"
  "Permute 0x80000 = 0x80"
  "Permute 0x90000 = 0x81"
  "Permute 0xa0000 = 0x800080"
  "Permute 0xb0000 = 0x800081"
  "Permute 0xc0000 = 0x2080"
  "Permute 0xd0000 = 0x2081"
  "Permute 0xe0000 = 0x802080"
  "Permute 0xf0000 = 0x802081"
  by (simp_all add: Permute_list pick_def)

lemma Permute_box5:
  "Permute 0 = 0"
  "Permute 0x1000 = 0x40000000"
  "Permute 0x2000 = 0x100"
  "Permute 0x3000 = 0x40000100"
  "Permute 0x4000 = 0x80000"
  "Permute 0x5000 = 0x40080000"
  "Permute 0x6000 = 0x80100"
  "Permute 0x7000 = 0x40080100"
  "Permute 0x8000 = 0x2000000"
  "Permute 0x9000 = 0x42000000"
  "Permute 0xa000 = 0x2000100"
  "Permute 0xb000 = 0x42000100"
  "Permute 0xc000 = 0x2080000"
  "Permute 0xd000 = 0x42080000"
  "Permute 0xe000 = 0x2080100"
  "Permute 0xf000 = 0x42080100"
  by (simp_all add: Permute_list pick_def)

lemma Permute_box6:
  "Permute 0 = 0"
  "Permute 0x100 = 0x4000"
  "Permute 0x200 = 0x400000"
  "Permute 0x300 = 0x404000"
  "Permute 0x400 = 0x10"
  "Permute 0x500 = 0x4010"
  "Permute 0x600 = 0x400010"
  "Permute 0x700 = 0x404010"
  "Permute 0x800 = 0x20000000"
  "Permute 0x900 = 0x20004000"
  "Permute 0xa00 = 0x20400000"
  "Permute 0xb00 = 0x20404000"
  "Permute 0xc00 = 0x20000010"
  "Permute 0xd00 = 0x20004010"
  "Permute 0xe00 = 0x20400010"
  "Permute 0xf00 = 0x20404010"
  by (simp_all add: Permute_list pick_def)

lemma Permute_box7:
  "Permute 0 = 0"
  "Permute 0x10 = 0x4000000"
  "Permute 0x20 = 0x800"
  "Permute 0x30 = 0x4000800"
  "Permute 0x40 = 0x200000"
  "Permute 0x50 = 0x4200000"
  "Permute 0x60 = 0x200800"
  "Permute 0x70 = 0x4200800"
  "Permute 0x80 = 0x2"
  "Permute 0x90 = 0x4000002"
  "Permute 0xa0 = 0x802"
  "Permute 0xb0 = 0x4000802"
  "Permute 0xc0 = 0x200002"
  "Permute 0xd0 = 0x4200002"
  "Permute 0xe0 = 0x200802"
  "Permute 0xf0 = 0x4200802"
  by (simp_all add: Permute_list pick_def)

lemma Permute_box8:
  "Permute 0 = 0"
  "Permute 0x1 = 0x1000"
  "Permute 0x2 = 0x40000"
  "Permute 0x3 = 0x41000"
  "Permute 0x4 = 0x40"
  "Permute 0x5 = 0x1040"
  "Permute 0x6 = 0x40040"
  "Permute 0x7 = 0x41040"
  "Permute 0x8 = 0x10000000"
  "Permute 0x9 = 0x10001000"
  "Permute 0xa = 0x10040000"
  "Permute 0xb = 0x10041000"
  "Permute 0xc = 0x10000040"
  "Permute 0xd = 0x10001040"
  "Permute 0xe = 0x10040040"
  "Permute 0xf = 0x10041040"
  by (simp_all add: Permute_list pick_def)

lemma SPBox1_generated: "GenSPBox SBox1 0 = SPBox1"
  unfolding GenSPBox_def upt_64 list.map
  by (simp add: ApplySBox_def Let_def SBox1_def SPBox1_def Permute_box1)

lemma SPBox2_generated: "GenSPBox SBox2 1 = SPBox2"
  unfolding GenSPBox_def upt_64 list.map
  by (simp add: ApplySBox_def Let_def SBox2_def SPBox2_def Permute_box2)

lemma SPBox3_generated: "GenSPBox SBox3 2 = SPBox3"
  unfolding GenSPBox_def upt_64 list.map
  by (simp add: ApplySBox_def Let_def SBox3_def SPBox3_def Permute_box3)

lemma SPBox4_generated: "GenSPBox SBox4 3 = SPBox4"
  unfolding GenSPBox_def upt_64 list.map
  by (simp add: ApplySBox_def Let_def SBox4_def SPBox4_def Permute_box4)

lemma SPBox5_generated: "GenSPBox SBox5 4 = SPBox5"
  unfolding GenSPBox_def upt_64 list.map
  by (simp add: ApplySBox_def Let_def SBox5_def SPBox5_def Permute_box5)

lemma SPBox6_generated: "GenSPBox SBox6 5 = SPBox6"
  unfolding GenSPBox_def upt_64 list.map
  by (simp add: ApplySBox_def Let_def SBox6_def SPBox6_def Permute_box6)

lemma SPBox7_generated: "GenSPBox SBox7 6 = SPBox7"
  unfolding GenSPBox_def upt_64 list.map
  by (simp add: ApplySBox_def Let_def SBox7_def SPBox7_def Permute_box7)

lemma SPBox8_generated: "GenSPBox SBox8 7 = SPBox8"
  unfolding GenSPBox_def upt_64 list.map
  by (simp add: ApplySBox_def Let_def SBox8_def SPBox8_def Permute_box8)

text \<open>C26: the tables compiled into the block function are the output of the generator on the
  S-boxes of the standard.
\<close>

theorem SPBoxes_generated:
  "GenSPBox SBox1 0 = SPBox1 \<and> GenSPBox SBox2 1 = SPBox2 \<and> GenSPBox SBox3 2 = SPBox3 \<and>
   GenSPBox SBox4 3 = SPBox4 \<and> GenSPBox SBox5 4 = SPBox5 \<and> GenSPBox SBox6 5 = SPBox6 \<and>
   GenSPBox SBox7 6 = SPBox7 \<and> GenSPBox SBox8 7 = SPBox8"
  by (simp only: SPBox1_generated SPBox2_generated SPBox3_generated SPBox4_generated
        SPBox5_generated SPBox6_generated SPBox7_generated SPBox8_generated)

section \<open>Weak keys\<close>

lemma upt_28:
  "[0..<28] = [0, 1, 2, 3, 4, 5, 6, 7, 8, 9, 10, 11, 12, 13, 14, 15, 16, 17, 18, 19, 20, 21, 22, 23,
     24, 25, 26, 27]"
  by (simp add: upt_rec)

lemma upt_28_56:
  "[28..<56] = [28, 29, 30, 31, 32, 33, 34, 35, 36, 37, 38, 39, 40, 41, 42, 43, 44, 45, 46, 47, 48, 49,
     50, 51, 52, 53, 54, 55]"
  by (simp add: upt_rec)

lemma BitToKS_list:
  "BitToKS = [0x8000000, 0x4000000, 0x2000000, 0x1000000, 0x800000, 0x400000, 0x200000, 0x100000,
     0x80000, 0x40000, 0x20000, 0x10000, 0x8000, 0x4000, 0x2000, 0x1000, 0x800, 0x400, 0x200, 0x100,
     0x80, 0x40, 0x20, 0x10, 8, 4, 2, 1]"
  unfolding BitToKS_def upt_28 by simp

text \<open>The choice of key bits skips the parity bits.\<close>

lemma PC1_skips_parity: "i < 56 \<Longrightarrow> (PC1 ! i - 1) mod 8 < 7 \<and> (PC1 ! i - 1) div 8 < 8"
proof -
  have "list_all (\<lambda>s. (s - 1) mod 8 < 7 \<and> (s - 1) div 8 < 8) PC1" and "length PC1 = 56"
    by (simp_all add: PC1_def)
  then show "i < 56 \<Longrightarrow> ?thesis" by (simp add: list_all_length)
qed

lemma same_key_bit:
  assumes "same_key key weak" and "s mod 8 < 7" and "s div 8 < 8"
  shows "key_bit key s = key_bit weak s"
proof -
  let ?a = "key ! (s div 8)" and ?b = "weak ! (s div 8)"
  have "(?a XOR ?b) AND 0xFE = 0"
    using assms(1,3) by (simp add: same_key_def list_all_iff)
  then have "\<forall>n<8. bit ((?a XOR ?b) AND 0xFE) n = bit (0 :: u8) n" by simp
  then have "\<forall>n<8. 0 < n \<longrightarrow> bit ?a n = bit ?b n"
    unfolding all_less_8 by (simp add: bit_simps)
  then have eq: "bit ?a n = bit ?b n" if "0 < n" "n < 8" for n using that by blast
  have "?a AND drop_bit (s mod 8) 0x80 = ?b AND drop_bit (s mod 8) 0x80"
  proof (rule word8_eqI, intro allI impI)
    fix n :: nat assume "n < 8"
    show "bit (?a AND drop_bit (s mod 8) 0x80) n = bit (?b AND drop_bit (s mod 8) 0x80) n"
    proof (cases "n = 0")
      case True
      have "\<forall>j<8. j < 7 \<longrightarrow> \<not> bit (0x80 :: u8) j" unfolding all_less_8 by simp
      then have "\<not> bit (0x80 :: u8) (s mod 8)" using assms(2) by simp
      then show ?thesis by (simp add: True bit_simps)
    next
      case False
      with eq [of n] \<open>n < 8\<close> show ?thesis by (simp add: bit_simps)
    qed
  qed
  then show ?thesis by (simp add: key_bit_def)
qed

lemma same_key_halves:
  assumes "same_key key weak"
  shows "key_C key = key_C weak" "key_D key = key_D weak"
proof -
  have b: "key_bit key (PC1 ! i - 1) = key_bit weak (PC1 ! i - 1)" if "i < 56" for i
    using same_key_bit [OF assms] PC1_skips_parity [OF that] by simp
  show "key_C key = key_C weak" "key_D key = key_D weak"
    unfolding key_C_def key_D_def by (rule foldl_upt_cong, simp add: b [simplified])+
qed

lemma key_C_pick: "key_C key = foldl pick 0 (map (\<lambda>i. (key_bit key (PC1 ! i - 1), BitToKS ! i)) [0..<28])"
  unfolding key_C_def foldl_map by (rule foldl_upt_cong) (simp add: pick_def)

lemma key_D_pick: "key_D key = foldl pick 0 (map (\<lambda>i. (key_bit key (PC1 ! i - 1), BitToKS ! (i - 28))) [28..<56])"
  unfolding key_D_def foldl_map by (rule foldl_upt_cong) (simp add: pick_def)

lemma key_C_list:
  "key_C [a, b, c, d, e, f, g, h] = foldl pick 0 [
     (h AND 0x80 \<noteq> 0, 0x8000000), (g AND 0x80 \<noteq> 0, 0x4000000), (f AND 0x80 \<noteq> 0, 0x2000000),
     (e AND 0x80 \<noteq> 0, 0x1000000), (d AND 0x80 \<noteq> 0, 0x800000), (c AND 0x80 \<noteq> 0, 0x400000),
     (b AND 0x80 \<noteq> 0, 0x200000), (a AND 0x80 \<noteq> 0, 0x100000), (h AND 0x40 \<noteq> 0, 0x80000),
     (g AND 0x40 \<noteq> 0, 0x40000), (f AND 0x40 \<noteq> 0, 0x20000), (e AND 0x40 \<noteq> 0, 0x10000),
     (d AND 0x40 \<noteq> 0, 0x8000), (c AND 0x40 \<noteq> 0, 0x4000), (b AND 0x40 \<noteq> 0, 0x2000),
     (a AND 0x40 \<noteq> 0, 0x1000), (h AND 0x20 \<noteq> 0, 0x800), (g AND 0x20 \<noteq> 0, 0x400),
     (f AND 0x20 \<noteq> 0, 0x200), (e AND 0x20 \<noteq> 0, 0x100), (d AND 0x20 \<noteq> 0, 0x80),
     (c AND 0x20 \<noteq> 0, 0x40), (b AND 0x20 \<noteq> 0, 0x20), (a AND 0x20 \<noteq> 0, 0x10),
     (h AND 0x10 \<noteq> 0, 0x8), (g AND 0x10 \<noteq> 0, 0x4), (f AND 0x10 \<noteq> 0, 0x2),
     (e AND 0x10 \<noteq> 0, 0x1)]"
  unfolding key_C_pick upt_28 upt_28_56 by (simp add: key_bit_def PC1_def BitToKS_list)

lemma key_D_list:
  "key_D [a, b, c, d, e, f, g, h] = foldl pick 0 [
     (h AND 0x2 \<noteq> 0, 0x8000000), (g AND 0x2 \<noteq> 0, 0x4000000), (f AND 0x2 \<noteq> 0, 0x2000000),
     (e AND 0x2 \<noteq> 0, 0x1000000), (d AND 0x2 \<noteq> 0, 0x800000), (c AND 0x2 \<noteq> 0, 0x400000),
     (b AND 0x2 \<noteq> 0, 0x200000), (a AND 0x2 \<noteq> 0, 0x100000), (h AND 0x4 \<noteq> 0, 0x80000),
     (g AND 0x4 \<noteq> 0, 0x40000), (f AND 0x4 \<noteq> 0, 0x20000), (e AND 0x4 \<noteq> 0, 0x10000),
     (d AND 0x4 \<noteq> 0, 0x8000), (c AND 0x4 \<noteq> 0, 0x4000), (b AND 0x4 \<noteq> 0, 0x2000),
     (a AND 0x4 \<noteq> 0, 0x1000), (h AND 0x8 \<noteq> 0, 0x800), (g AND 0x8 \<noteq> 0, 0x400),
     (f AND 0x8 \<noteq> 0, 0x200), (e AND 0x8 \<noteq> 0, 0x100), (d AND 0x8 \<noteq> 0, 0x80),
     (c AND 0x8 \<noteq> 0, 0x40), (b AND 0x8 \<noteq> 0, 0x20), (a AND 0x8 \<noteq> 0, 0x10),
     (d AND 0x10 \<noteq> 0, 0x8), (c AND 0x10 \<noteq> 0, 0x4), (b AND 0x10 \<noteq> 0, 0x2),
     (a AND 0x10 \<noteq> 0, 0x1)]"
  unfolding key_D_pick upt_28 upt_28_56 by (simp add: key_bit_def PC1_def BitToKS_list)

lemma weak_key_halves:
  "key_C [0x01, 0x01, 0x01, 0x01, 0x01, 0x01, 0x01, 0x01] = 0" "key_D [0x01, 0x01, 0x01, 0x01, 0x01, 0x01, 0x01, 0x01] = 0"
  "key_C [0x1F, 0x1F, 0x1F, 0x1F, 0x0E, 0x0E, 0x0E, 0x0E] = 0" "key_D [0x1F, 0x1F, 0x1F, 0x1F, 0x0E, 0x0E, 0x0E, 0x0E] = 0xFFFFFFF"
  "key_C [0xE0, 0xE0, 0xE0, 0xE0, 0xF1, 0xF1, 0xF1, 0xF1] = 0xFFFFFFF" "key_D [0xE0, 0xE0, 0xE0, 0xE0, 0xF1, 0xF1, 0xF1, 0xF1] = 0"
  "key_C [0xFE, 0xFE, 0xFE, 0xFE, 0xFE, 0xFE, 0xFE, 0xFE] = 0xFFFFFFF" "key_D [0xFE, 0xFE, 0xFE, 0xFE, 0xFE, 0xFE, 0xFE, 0xFE] = 0xFFFFFFF"
  "key_C [0x01, 0xFE, 0x01, 0xFE, 0x01, 0xFE, 0x01, 0xFE] = 0xAAAAAAA" "key_D [0x01, 0xFE, 0x01, 0xFE, 0x01, 0xFE, 0x01, 0xFE] = 0xAAAAAAA"
  "key_C [0xFE, 0x01, 0xFE, 0x01, 0xFE, 0x01, 0xFE, 0x01] = 0x5555555" "key_D [0xFE, 0x01, 0xFE, 0x01, 0xFE, 0x01, 0xFE, 0x01] = 0x5555555"
  "key_C [0x1F, 0xE0, 0x1F, 0xE0, 0x0E, 0xF1, 0x0E, 0xF1] = 0xAAAAAAA" "key_D [0x1F, 0xE0, 0x1F, 0xE0, 0x0E, 0xF1, 0x0E, 0xF1] = 0x5555555"
  "key_C [0xE0, 0x1F, 0xE0, 0x1F, 0xF1, 0x0E, 0xF1, 0x0E] = 0x5555555" "key_D [0xE0, 0x1F, 0xE0, 0x1F, 0xF1, 0x0E, 0xF1, 0x0E] = 0xAAAAAAA"
  "key_C [0x01, 0xE0, 0x01, 0xE0, 0x01, 0xF1, 0x01, 0xF1] = 0xAAAAAAA" "key_D [0x01, 0xE0, 0x01, 0xE0, 0x01, 0xF1, 0x01, 0xF1] = 0"
  "key_C [0xE0, 0x01, 0xE0, 0x01, 0xF1, 0x01, 0xF1, 0x01] = 0x5555555" "key_D [0xE0, 0x01, 0xE0, 0x01, 0xF1, 0x01, 0xF1, 0x01] = 0"
  "key_C [0x1F, 0xFE, 0x1F, 0xFE, 0x0E, 0xFE, 0x0E, 0xFE] = 0xAAAAAAA" "key_D [0x1F, 0xFE, 0x1F, 0xFE, 0x0E, 0xFE, 0x0E, 0xFE] = 0xFFFFFFF"
  "key_C [0xFE, 0x1F, 0xFE, 0x1F, 0xFE, 0x0E, 0xFE, 0x0E] = 0x5555555" "key_D [0xFE, 0x1F, 0xFE, 0x1F, 0xFE, 0x0E, 0xFE, 0x0E] = 0xFFFFFFF"
  "key_C [0x01, 0x1F, 0x01, 0x1F, 0x01, 0x0E, 0x01, 0x0E] = 0" "key_D [0x01, 0x1F, 0x01, 0x1F, 0x01, 0x0E, 0x01, 0x0E] = 0xAAAAAAA"
  "key_C [0x1F, 0x01, 0x1F, 0x01, 0x0E, 0x01, 0x0E, 0x01] = 0" "key_D [0x1F, 0x01, 0x1F, 0x01, 0x0E, 0x01, 0x0E, 0x01] = 0x5555555"
  "key_C [0xE0, 0xFE, 0xE0, 0xFE, 0xF1, 0xFE, 0xF1, 0xFE] = 0xFFFFFFF" "key_D [0xE0, 0xFE, 0xE0, 0xFE, 0xF1, 0xFE, 0xF1, 0xFE] = 0xAAAAAAA"
  "key_C [0xFE, 0xE0, 0xFE, 0xE0, 0xFE, 0xF1, 0xFE, 0xF1] = 0xFFFFFFF" "key_D [0xFE, 0xE0, 0xFE, 0xE0, 0xFE, 0xF1, 0xFE, 0xF1] = 0x5555555"
  by (simp_all add: key_C_list key_D_list pick_def)

lemma ROTATE28_patterns:
  "ROTATE28 0 n = 0"
  "ROTATE28 0xFFFFFFF 1 = 0xFFFFFFF" "ROTATE28 0xFFFFFFF 2 = 0xFFFFFFF"
  "ROTATE28 0x5555555 1 = 0xAAAAAAA" "ROTATE28 0x5555555 2 = 0x5555555"
  "ROTATE28 0xAAAAAAA 1 = 0x5555555" "ROTATE28 0xAAAAAAA 2 = 0xAAAAAAA"
  by (simp_all add: ROTATE28_def)

text \<open>The sequence of the halves from given ones, and the keys whose sequences are each other's reverse.\<close>

definition halves_seq :: "u32 \<times> u32 \<Rightarrow> (u32 \<times> u32) list" where
  "halves_seq s = map (\<lambda>r. foldl rotate_halves s [0..<Suc r]) [0..<16]"

definition partners :: "bytes \<Rightarrow> bytes \<Rightarrow> bool" where
  "partners k k' \<longleftrightarrow>
     halves_seq (key_C k, key_D k) = rev (halves_seq (key_C k', key_D k'))"

fun halves_list :: "u32 \<times> u32 \<Rightarrow> nat list \<Rightarrow> (u32 \<times> u32) list" where
  "halves_list s [] = []"
| "halves_list s (r # rs) = rotate_halves s r # halves_list (rotate_halves s r) rs"

lemma halves_list_upt:
  "halves_list s [a..<b] = map (\<lambda>r. foldl rotate_halves s [a..<Suc r]) [a..<b]"
proof (induction "b - a" arbitrary: a s)
  case (Suc n)
  then have "a < b" and ih: "halves_list (rotate_halves s a) [Suc a..<b] =
      map (\<lambda>r. foldl rotate_halves (rotate_halves s a) [Suc a..<Suc r]) [Suc a..<b]"
    by (simp_all add: Suc.hyps(1))
  have "foldl rotate_halves (rotate_halves s a) [Suc a..<Suc r] = foldl rotate_halves s [a..<Suc r]"
    if "Suc a \<le> r" for r
    using that by (simp add: upt_conv_Cons del: upt_Suc)
  then show ?case
    using \<open>a < b\<close> by (simp add: upt_conv_Cons [of a b] ih del: upt_Suc) simp
qed simp

text \<open>On the four patterns a rotation by one is \<open>flip\<close>, a rotation by two the identity.\<close>

definition flip :: "u32 \<Rightarrow> u32" where
  "flip x = (if x = 0x5555555 then 0xAAAAAAA else if x = 0xAAAAAAA then 0x5555555 else x)"

lemma ROTATE28_flip:
  assumes "c \<in> {0, 0xFFFFFFF, 0x5555555, 0xAAAAAAA}"
  shows "ROTATE28 c (Suc 0) = flip c" "ROTATE28 c 2 = c" "ROTATE28 (flip c) (Suc 0) = c" "ROTATE28 (flip c) 2 = flip c"
  using assms ROTATE28_patterns [simplified] by (auto simp: flip_def)

lemma halves_seq_patterns:
  assumes "c \<in> {0, 0xFFFFFFF, 0x5555555, 0xAAAAAAA}" and "d \<in> {0, 0xFFFFFFF, 0x5555555, 0xAAAAAAA}"
  shows "halves_seq (c, d) = (flip c, flip d) # replicate 7 (c, d) @ replicate 7 (flip c, flip d) @ [(c, d)]"
proof -
  have u: "[0..<16] = [0, 1, 2, 3, 4, 5, 6, 7, 8, 9, 10, 11, 12, 13, 14, 15]" by (simp add: upt_rec)
  have r: "replicate 7 x = [x, x, x, x, x, x, x]" for x :: "u32 \<times> u32"
    by (simp add: numeral_eq_Suc)
  have "halves_seq (c, d) = halves_list (c, d) [0..<16]"
    unfolding halves_seq_def halves_list_upt ..
  then show ?thesis
    unfolding u
    by (simp add: rotate_halves_def LRotate_def ROTATE28_flip [OF assms(1)] ROTATE28_flip [OF assms(2)] r)
qed

lemma weak_partners: "list_all (\<lambda>k. partners k k) WeakKeys"
  by (simp add: partners_def WeakKeys_def weak_key_halves halves_seq_patterns flip_def)

lemma semi_weak_partners:
  "list_all (\<lambda>i. partners (SemiWeakKeys ! i) (SemiWeakKeys ! (if even i then i + 1 else i - 1))) [0..<12]"
proof -
  have u: "[0..<12] = [0, 1, 2, 3, 4, 5, 6, 7, 8, 9, 10, 11]" by (simp add: upt_rec)
  show ?thesis
    unfolding u by (simp add: partners_def SemiWeakKeys_def weak_key_halves halves_seq_patterns flip_def)
qed

lemma partners_round_keys:
  assumes "same_key key k" and "same_key key' k'" and "partners k k'"
  shows "map (round_key key) [0..<16] = rev (map (round_key key') [0..<16])"
proof -
  have h: "map (round_key q) [0..<16] = map (\<lambda>(C, D). sched_key (sched_words C D)) (halves_seq (key_C q, key_D q))" for q
    by (simp add: halves_seq_def round_key_def key_halves_def del: upt_rec_numeral upt_Suc)
  have "halves_seq (key_C key, key_D key) = rev (halves_seq (key_C key', key_D key'))"
    using assms(3) unfolding partners_def
    by (simp only: same_key_halves [OF assms(1)] same_key_halves [OF assms(2)])
  then show ?thesis unfolding h by (simp only: rev_map)
qed

lemma partners_undo:
  assumes "same_key key k" and "same_key key' k'" and "partners k k'"
    and "8 \<le> length key" and "8 \<le> length key'"
    and "length (ks des) = 32" and "length (ks des') = 32" and "length inp = 8"
  shows "\<exists>c c' out. ILDESInit des key d = Some c \<and> ILDESInit des' key' d = Some c' \<and>
    ILDESProcess c inp = Some out \<and> ILDESProcess c' out = Some inp"
proof -
  obtain s where s: "CreateDESSchedule (ks des) key d = Some s" "length s = 32"
    "ks_pairs s = (if d then rev (map (round_key key) [0..<16]) else map (round_key key) [0..<16])"
    using schedule_pairs [OF assms(6,4)] .
  obtain s' where s': "CreateDESSchedule (ks des') key' d = Some s'" "length s' = 32"
    "ks_pairs s' = (if d then rev (map (round_key key') [0..<16]) else map (round_key key') [0..<16])"
    using schedule_pairs [OF assms(7,5)] .
  have "ks_pairs s' = rev (ks_pairs s)"
    unfolding s(3) s'(3) partners_round_keys [OF assms(1-3)] by (simp only: rev_rev_ident split: if_split) simp
  from ProcessDESBlock_reverse [OF assms(8) s(2) s'(2) this] obtain out
    where "ProcessDESBlock s inp = Some out" "ProcessDESBlock s' out = Some inp" by blast
  then show ?thesis
    using s s' by (auto simp: ILDESInit_def ILDESProcess_def simp del: upt_rec_numeral upt_Suc)
qed

text \<open>C27: the keys that \<^verbatim>\<open>ILDESIsWeakKey\<close> reports, whatever their parity bits, are weak: a
  second encryption under such a key gives the plain text back.  Those that
  \<^verbatim>\<open>ILDESIsSemiWeakKey\<close> reports come in pairs: the key next to it in the table undoes
  its encryption by encryption.
\<close>

theorem weak_keys_are_weak:
  assumes "8 \<le> length key" and "length (ks des) = 32" and "length inp = 8"
  shows "(ILDESIsWeakKey key \<longrightarrow> (\<exists>c out. ILDESInit des key d = Some c \<and>
      ILDESProcess c inp = Some out \<and> ILDESProcess c out = Some inp)) \<and>
    (ILDESIsSemiWeakKey key \<longrightarrow> (\<exists>key'\<in>set SemiWeakKeys. \<exists>c c' out.
      ILDESInit des key d = Some c \<and> ILDESInit des key' d = Some c' \<and>
      ILDESProcess c inp = Some out \<and> ILDESProcess c' out = Some inp))"
proof (intro conjI impI)
  assume "ILDESIsWeakKey key"
  then obtain k where "k \<in> set WeakKeys" and k: "same_key key k"
    by (auto simp: ILDESIsWeakKey_def list_ex_iff)
  then have "partners k k" using weak_partners by (simp add: list_all_iff)
  from partners_undo [OF k k this assms(1,1,2,2,3), of d]
  show "\<exists>c out. ILDESInit des key d = Some c \<and>
      ILDESProcess c inp = Some out \<and> ILDESProcess c out = Some inp" by auto
next
  assume "ILDESIsSemiWeakKey key"
  moreover have l: "length SemiWeakKeys = 12" by (simp add: SemiWeakKeys_def)
  ultimately obtain i where i: "i < 12" and k: "same_key key (SemiWeakKeys ! i)"
    by (auto simp: ILDESIsSemiWeakKey_def list_ex_length)
  define j where "j = (if even i then i + 1 else i - 1)"
  have "\<forall>i\<in>set [0..<12 :: nat]. (if even i then i + 1 else i - 1) < 12" by (simp add: upt_rec)
  then have j: "j < 12" unfolding j_def using i by simp
  then have m: "SemiWeakKeys ! j \<in> set SemiWeakKeys" by (simp add: l)
  have p: "partners (SemiWeakKeys ! i) (SemiWeakKeys ! j)"
    unfolding j_def using semi_weak_partners i by (simp add: list_all_iff)
  have "list_all (\<lambda>k. length k = 8) SemiWeakKeys" by (simp add: SemiWeakKeys_def)
  then have k': "8 \<le> length (SemiWeakKeys ! j)" using j l by (simp add: list_all_length)
  have "same_key (SemiWeakKeys ! j) (SemiWeakKeys ! j)" by (simp add: same_key_def list_all_iff)
  from partners_undo [OF k this p assms(1) k' assms(2,2,3)] m
  show "\<exists>key'\<in>set SemiWeakKeys. \<exists>c c' out.
      ILDESInit des key d = Some c \<and> ILDESInit des key' d = Some c' \<and>
      ILDESProcess c inp = Some out \<and> ILDESProcess c' out = Some inp" by blast
qed

theorem weak_keys_are_weak_witness:
  "ILDESIsWeakKey [0, 1, 0, 1, 0, 1, 0, 1] \<and>
   (\<exists>c out. ILDESInit \<lparr>ks = replicate 32 0\<rparr> [0, 1, 0, 1, 0, 1, 0, 1] False = Some c \<and>
      ILDESProcess c [1, 2, 3, 4, 5, 6, 7, 8] = Some out \<and>
      ILDESProcess c out = Some [1, 2, 3, 4, 5, 6, 7, 8])"
proof -
  have w: "ILDESIsWeakKey [0, 1, 0, 1, 0, 1, 0, 1]"
    by (simp add: ILDESIsWeakKey_def WeakKeys_def same_key_def upt_rec)
  with weak_keys_are_weak [of "[0, 1, 0, 1, 0, 1, 0, 1]" "\<lparr>ks = replicate 32 0\<rparr>" "[1, 2, 3, 4, 5, 6, 7, 8]" False]
  show ?thesis by simp
qed

end
