(* ===== verification/Rc2.thy ===== *)
theory Rc2
  imports HashStream
begin

text \<open>
  \<^verbatim>\<open>support/rc2.c\<close>: the key expansion and the two block functions of RC2.  The array
  \<^verbatim>\<open>R\<close> of four 16-bit words is a list; the macros \<^verbatim>\<open>MIX\<close>, \<^verbatim>\<open>MASH\<close>, \<^verbatim>\<open>RMIX\<close> and \<^verbatim>\<open>RMASH\<close>
  are functions on it.  A read or write outside the array \<^verbatim>\<open>sched\<close> is \<^term>\<open>None\<close>.
\<close>

section \<open>The code\<close>

text \<open>The index \<^verbatim>\<open>(rindex - k) & 3\<close>.\<close>

definition prev :: "nat \<Rightarrow> nat \<Rightarrow> nat" where
  "prev rindex k = (rindex + 4 - k) mod 4"

definition mix_term :: "u16 list \<Rightarrow> u16 list \<Rightarrow> nat \<Rightarrow> nat \<Rightarrow> u16" where
  "mix_term K R rindex kindex =
     K ! kindex + (R ! prev rindex 1 AND R ! prev rindex 2) + (NOT (R ! prev rindex 1) AND R ! prev rindex 3)"

definition MIX :: "u16 list \<Rightarrow> nat \<Rightarrow> nat \<Rightarrow> nat \<Rightarrow> u16 list \<Rightarrow> u16 list" where
  "MIX K rindex kindex svalue R =
     (let R = R[rindex := R ! rindex + mix_term K R rindex kindex]
      in R[rindex := push_bit svalue (R ! rindex) OR drop_bit (16 - svalue) (R ! rindex)])"

definition MIXROUND :: "u16 list \<Rightarrow> nat \<Rightarrow> u16 list \<Rightarrow> u16 list" where
  "MIXROUND K kindex R =
     (let R = MIX K 0 kindex 1 R;
          R = MIX K 1 (kindex + 1) 2 R;
          R = MIX K 2 (kindex + 2) 3 R
      in MIX K 3 (kindex + 3) 5 R)"

definition MASH :: "u16 list \<Rightarrow> nat \<Rightarrow> u16 list \<Rightarrow> u16 list" where
  "MASH K rindex R = R[rindex := R ! rindex + K ! unat (R ! prev rindex 1 AND 63)]"

definition MASHROUND :: "u16 list \<Rightarrow> u16 list \<Rightarrow> u16 list" where
  "MASHROUND K R = MASH K 3 (MASH K 2 (MASH K 1 (MASH K 0 R)))"

definition RMIX :: "u16 list \<Rightarrow> nat \<Rightarrow> nat \<Rightarrow> nat \<Rightarrow> u16 list \<Rightarrow> u16 list" where
  "RMIX K rindex kindex svalue R =
     (let R = R[rindex := drop_bit svalue (R ! rindex) OR push_bit (16 - svalue) (R ! rindex)]
      in R[rindex := R ! rindex - mix_term K R rindex kindex])"

definition RMIXROUND :: "u16 list \<Rightarrow> nat \<Rightarrow> u16 list \<Rightarrow> u16 list" where
  "RMIXROUND K kindex R =
     (let R = RMIX K 3 (kindex + 3) 5 R;
          R = RMIX K 2 (kindex + 2) 3 R;
          R = RMIX K 1 (kindex + 1) 2 R
      in RMIX K 0 kindex 1 R)"

definition RMASH :: "u16 list \<Rightarrow> nat \<Rightarrow> u16 list \<Rightarrow> u16 list" where
  "RMASH K rindex R = R[rindex := R ! rindex - K ! unat (R ! prev rindex 1 AND 63)]"

definition RMASHROUND :: "u16 list \<Rightarrow> u16 list \<Rightarrow> u16 list" where
  "RMASHROUND K R = RMASH K 0 (RMASH K 1 (RMASH K 2 (RMASH K 3 R)))"

definition PITABLE :: bytes where
  "PITABLE = [
   0xd9, 0x78, 0xf9, 0xc4, 0x19, 0xdd, 0xb5, 0xed, 0x28, 0xe9, 0xfd, 0x79, 0x4a, 0xa0, 0xd8, 0x9d,
   0xc6, 0x7e, 0x37, 0x83, 0x2b, 0x76, 0x53, 0x8e, 0x62, 0x4c, 0x64, 0x88, 0x44, 0x8b, 0xfb, 0xa2,
   0x17, 0x9a, 0x59, 0xf5, 0x87, 0xb3, 0x4f, 0x13, 0x61, 0x45, 0x6d, 0x8d, 0x09, 0x81, 0x7d, 0x32,
   0xbd, 0x8f, 0x40, 0xeb, 0x86, 0xb7, 0x7b, 0x0b, 0xf0, 0x95, 0x21, 0x22, 0x5c, 0x6b, 0x4e, 0x82,
   0x54, 0xd6, 0x65, 0x93, 0xce, 0x60, 0xb2, 0x1c, 0x73, 0x56, 0xc0, 0x14, 0xa7, 0x8c, 0xf1, 0xdc,
   0x12, 0x75, 0xca, 0x1f, 0x3b, 0xbe, 0xe4, 0xd1, 0x42, 0x3d, 0xd4, 0x30, 0xa3, 0x3c, 0xb6, 0x26,
   0x6f, 0xbf, 0x0e, 0xda, 0x46, 0x69, 0x07, 0x57, 0x27, 0xf2, 0x1d, 0x9b, 0xbc, 0x94, 0x43, 0x03,
   0xf8, 0x11, 0xc7, 0xf6, 0x90, 0xef, 0x3e, 0xe7, 0x06, 0xc3, 0xd5, 0x2f, 0xc8, 0x66, 0x1e, 0xd7,
   0x08, 0xe8, 0xea, 0xde, 0x80, 0x52, 0xee, 0xf7, 0x84, 0xaa, 0x72, 0xac, 0x35, 0x4d, 0x6a, 0x2a,
   0x96, 0x1a, 0xd2, 0x71, 0x5a, 0x15, 0x49, 0x74, 0x4b, 0x9f, 0xd0, 0x5e, 0x04, 0x18, 0xa4, 0xec,
   0xc2, 0xe0, 0x41, 0x6e, 0x0f, 0x51, 0xcb, 0xcc, 0x24, 0x91, 0xaf, 0x50, 0xa1, 0xf4, 0x70, 0x39,
   0x99, 0x7c, 0x3a, 0x85, 0x23, 0xb8, 0xb4, 0x7a, 0xfc, 0x02, 0x36, 0x5b, 0x25, 0x55, 0x97, 0x31,
   0x2d, 0x5d, 0xfa, 0x98, 0xe3, 0x8a, 0x92, 0xae, 0x05, 0xdf, 0x29, 0x10, 0x67, 0x6c, 0xba, 0xc9,
   0xd3, 0x00, 0xe6, 0xcf, 0xe1, 0x9e, 0xa8, 0x2c, 0x63, 0x16, 0x01, 0x3f, 0x58, 0xe2, 0x89, 0xa9,
   0x0d, 0x38, 0x34, 0x1b, 0xab, 0x33, 0xff, 0xb0, 0xbb, 0x48, 0x0c, 0x5f, 0xb9, 0xb1, 0xcd, 0x2e,
   0xc5, 0xf3, 0xdb, 0x47, 0xe5, 0xa5, 0x9c, 0x77, 0x0a, 0xa6, 0x20, 0x68, 0xfe, 0x7f, 0xc1, 0xad]"

record ILRC2Context =
  key :: "u16 list"

text \<open>A checked read of a byte array.\<close>

definition byte_at :: "bytes \<Rightarrow> nat \<Rightarrow> u8 option" where
  "byte_at s i = (if i < length s then Some (s ! i) else None)"

text \<open>The two loops of the key expansion, over the positions they visit.\<close>

fun expand_up :: "nat \<Rightarrow> nat list \<Rightarrow> bytes \<Rightarrow> bytes option" where
  "expand_up sz [] sched = Some sched"
| "expand_up sz (posn # ps) sched =
     (if posn = 0 then None else do {
        a \<leftarrow> byte_at sched (posn - 1);
        b \<leftarrow> byte_at sched (posn - sz);
        sched \<leftarrow> ILMemCpy sched posn [PITABLE ! unat (a + b)];
        expand_up sz ps sched
      })"

fun expand_down :: "nat \<Rightarrow> nat list \<Rightarrow> bytes \<Rightarrow> bytes option" where
  "expand_down sz [] sched = Some sched"
| "expand_down sz (posn # ps) sched = do {
     a \<leftarrow> byte_at sched (posn + 1);
     b \<leftarrow> byte_at sched (posn + sz);
     sched \<leftarrow> ILMemCpy sched posn [PITABLE ! unat (a XOR b)];
     expand_down sz ps sched
   }"

text \<open>
  \<^verbatim>\<open>ILRC2Init\<close>, with the choice of \<^verbatim>\<open>size\<close> and \<^verbatim>\<open>mask\<close> first; the argument \<open>junk\<close> is the initial contents of the local array \<^verbatim>\<open>sched\<close>
  and \<open>k\<close> the caller's key.
\<close>

definition key_size_mask :: "nat \<Rightarrow> nat \<times> u8" where
  "key_size_mask keyBits =
     (if keyBits \<le> 128 * 8
      then let sz = (keyBits + 7) div 8 in (sz, 2 ^ (8 - (8 * sz - keyBits)) - 1)
      else (128, 0xFF))"

definition ILRC2Init :: "bytes \<Rightarrow> ILRC2Context \<Rightarrow> bytes \<Rightarrow> nat \<Rightarrow> ILRC2Context option" where
  "ILRC2Init junk rc2 k keyBits =
     (case key_size_mask keyBits of (sz, m) \<Rightarrow>
      if length k < sz then None else do {
        sched \<leftarrow> ILMemCpy junk 0 (take sz k);
        sched \<leftarrow> expand_up sz [sz..<128] sched;
        a \<leftarrow> byte_at sched (128 - sz);
        sched \<leftarrow> ILMemCpy sched (128 - sz) [PITABLE ! unat (a AND m)];
        sched \<leftarrow> expand_down sz (rev [0..<128 - sz]) sched;
        Some (rc2\<lparr>key := map (\<lambda>posn.
          ucast (sched ! (posn * 2)) OR push_bit 8 (ucast (sched ! (posn * 2 + 1)))) [0..<64]\<rparr>)
      })"

definition read_R :: "bytes \<Rightarrow> u16 list" where
  "read_R inp = map (\<lambda>i. ucast (inp ! i) OR push_bit 8 (ucast (inp ! (i + 1)))) [0, 2, 4, 6]"

definition write_R :: "u16 list \<Rightarrow> bytes" where
  "write_R R = concat (map (\<lambda>w. [ucast w, ucast (drop_bit 8 w)]) [R ! 0, R ! 1, R ! 2, R ! 3])"

definition ILRC2Encrypt :: "ILRC2Context \<Rightarrow> bytes \<Rightarrow> bytes option" where
  "ILRC2Encrypt rc2 inp =
     (if length inp < 8 \<or> length (key rc2) < 64 then None
      else let K = key rc2;
               R = read_R inp;
               R = MIXROUND K 0 R;
               R = MIXROUND K 4 R;
               R = MIXROUND K 8 R;
               R = MIXROUND K 12 R;
               R = MIXROUND K 16 R;
               R = MASHROUND K R;
               R = MIXROUND K 20 R;
               R = MIXROUND K 24 R;
               R = MIXROUND K 28 R;
               R = MIXROUND K 32 R;
               R = MIXROUND K 36 R;
               R = MIXROUND K 40 R;
               R = MASHROUND K R;
               R = MIXROUND K 44 R;
               R = MIXROUND K 48 R;
               R = MIXROUND K 52 R;
               R = MIXROUND K 56 R;
               R = MIXROUND K 60 R
           in Some (write_R R))"

definition ILRC2Decrypt :: "ILRC2Context \<Rightarrow> bytes \<Rightarrow> bytes option" where
  "ILRC2Decrypt rc2 inp =
     (if length inp < 8 \<or> length (key rc2) < 64 then None
      else let K = key rc2;
               R = read_R inp;
               R = RMIXROUND K 60 R;
               R = RMIXROUND K 56 R;
               R = RMIXROUND K 52 R;
               R = RMIXROUND K 48 R;
               R = RMIXROUND K 44 R;
               R = RMASHROUND K R;
               R = RMIXROUND K 40 R;
               R = RMIXROUND K 36 R;
               R = RMIXROUND K 32 R;
               R = RMIXROUND K 28 R;
               R = RMIXROUND K 24 R;
               R = RMIXROUND K 20 R;
               R = RMASHROUND K R;
               R = RMIXROUND K 16 R;
               R = RMIXROUND K 12 R;
               R = RMIXROUND K 8 R;
               R = RMIXROUND K 4 R;
               R = RMIXROUND K 0 R
           in Some (write_R R))"

definition ILRC2Finalize :: "ILRC2Context \<Rightarrow> ILRC2Context" where
  "ILRC2Finalize rc2 = rc2\<lparr>key := replicate (length (key rc2)) 0\<rparr>"

section \<open>The key expansion\<close>

lemma byte_at_in: "i < length s \<Longrightarrow> byte_at s i = Some (s ! i)"
  by (simp add: byte_at_def)

lemma ILMemCpy_byte:
  "i < length s \<Longrightarrow> ILMemCpy s i [b] = Some (s[i := b])"
  by (simp add: ILMemCpy_def upd_conv_take_nth_drop)

lemma expand_up_returns:
  "length sched = 128 \<Longrightarrow> 0 < sz \<Longrightarrow> (\<forall>p\<in>set ps. sz \<le> p \<and> p < 128) \<Longrightarrow>
   \<exists>s. expand_up sz ps sched = Some s \<and> length s = 128"
  by (induction sz ps sched rule: expand_up.induct) (auto simp: byte_at_in ILMemCpy_byte)

lemma expand_down_returns:
  "length sched = 128 \<Longrightarrow> 0 < sz \<Longrightarrow> (\<forall>p\<in>set ps. p + sz < 128) \<Longrightarrow>
   \<exists>s. expand_down sz ps sched = Some s \<and> length s = 128"
  by (induction sz ps sched rule: expand_down.induct) (auto simp: byte_at_in ILMemCpy_byte)

text \<open>C30: the key expansion of RC2 stays inside its 128-byte array and fills the 64 words of the
  context exactly when the key has at least one bit and the caller's buffer has the
  bytes that \<^verbatim>\<open>keyBits\<close> announces (at most 128).
\<close>

theorem rc2_init_in_bounds:
  assumes "length junk = 128"
  shows "(\<exists>c. ILRC2Init junk rc2 k keyBits = Some c \<and> length (key c) = 64) \<longleftrightarrow>
    0 < keyBits \<and> min 128 ((keyBits + 7) div 8) \<le> length k"
proof -
  obtain sz m where m: "key_size_mask keyBits = (sz, m)" by (metis surj_pair)
  then have sz: "sz = min 128 ((keyBits + 7) div 8)"
    by (auto simp: key_size_mask_def Let_def split: if_splits)
  show ?thesis
  proof (cases "0 < keyBits \<and> sz \<le> length k")
    case True
    then have s: "0 < sz" "sz \<le> 128" by (auto simp: sz)
    have c: "ILMemCpy junk 0 (take sz k) = Some (take sz k @ drop sz junk)"
      using True s assms by (simp add: ILMemCpy_def)
    obtain s1 where s1: "expand_up sz [sz..<128] (take sz k @ drop sz junk) = Some s1" "length s1 = 128"
      using expand_up_returns [of "take sz k @ drop sz junk" sz "[sz..<128]"] True s assms by auto
    let ?s2 = "s1[128 - sz := PITABLE ! unat (s1 ! (128 - sz) AND m)]"
    have "\<forall>p\<in>set (rev [0..<128 - sz]). p + sz < 128" by auto
    then obtain s3 where s3: "expand_down sz (rev [0..<128 - sz]) ?s2 = Some s3" "length s3 = 128"
      using expand_down_returns [of ?s2 sz "rev [0..<128 - sz]"] s1(2) s(1) by (metis length_list_update)
    show ?thesis
      using True s s1 s3
      by (simp add: ILRC2Init_def m c byte_at_in ILMemCpy_byte sz [symmetric] del: upt_rec_numeral)
  next
    case False
    have "ILRC2Init junk rc2 k keyBits = None"
    proof (cases "keyBits = 0")
      case True
      then have "sz = 0" by (simp add: sz)
      moreover have "[0..<128 :: nat] = 0 # [1..<128]" by (simp add: upt_rec [of 0])
      ultimately show ?thesis using assms
        by (simp add: ILRC2Init_def m ILMemCpy_def del: upt_rec_numeral)
    next
      case k: False
      with False have "length k < sz" by simp
      then show ?thesis by (simp add: ILRC2Init_def m)
    qed
    with False show ?thesis by (auto simp: sz)
  qed
qed

theorem rc2_init_in_bounds_witness:
  "\<exists>c. ILRC2Init (replicate 128 0xCC) \<lparr>key = []\<rparr> [1, 2, 3, 4, 5, 6, 7, 8] 63 = Some c \<and> length (key c) = 64"
  using rc2_init_in_bounds [of "replicate 128 0xCC" "\<lparr>key = []\<rparr>" "[1, 2, 3, 4, 5, 6, 7, 8]" 63] by simp

section \<open>Decryption undoes encryption\<close>

lemma prev_other: "rindex < 4 \<Longrightarrow> 0 < k \<Longrightarrow> k < 4 \<Longrightarrow> prev rindex k \<noteq> rindex"
  by (simp add: prev_def mod_if) linarith

lemma mix_term_update:
  "rindex < 4 \<Longrightarrow> mix_term K (R[rindex := x]) rindex kindex = mix_term K R rindex kindex"
  using prev_other [of rindex 1] prev_other [of rindex 2] prev_other [of rindex 3]
  by (simp add: mix_term_def)

definition rol16 :: "nat \<Rightarrow> u16 \<Rightarrow> u16" where
  "rol16 n x = push_bit n x OR drop_bit (16 - n) x"

definition ror16 :: "nat \<Rightarrow> u16 \<Rightarrow> u16" where
  "ror16 n x = drop_bit n x OR push_bit (16 - n) x"

lemma rotate16_undo:
  assumes "0 < n" and "n < 16"
  shows "ror16 n (rol16 n x) = x" and "rol16 n (ror16 n x) = x"
  using assms
  by (auto intro!: bit_word_eqI simp: rol16_def ror16_def bit_simps dest: bit_imp_le_length)

lemma MIX_rol:
  "rindex < 4 \<Longrightarrow> length R = 4 \<Longrightarrow>
     MIX K rindex kindex n R = R[rindex := rol16 n (R ! rindex + mix_term K R rindex kindex)]"
  "rindex < 4 \<Longrightarrow> length R = 4 \<Longrightarrow>
     RMIX K rindex kindex n R = R[rindex := ror16 n (R ! rindex) - mix_term K R rindex kindex]"
  by (simp_all add: MIX_def RMIX_def rol16_def ror16_def mix_term_update Let_def)

lemma MIX_undo:
  "rindex < 4 \<Longrightarrow> length R = 4 \<Longrightarrow> 0 < n \<Longrightarrow> n < 16 \<Longrightarrow> RMIX K rindex kindex n (MIX K rindex kindex n R) = R"
  "rindex < 4 \<Longrightarrow> length R = 4 \<Longrightarrow> 0 < n \<Longrightarrow> n < 16 \<Longrightarrow> MIX K rindex kindex n (RMIX K rindex kindex n R) = R"
  by (simp_all add: MIX_rol mix_term_update rotate16_undo)

lemma MASH_undo:
  "rindex < 4 \<Longrightarrow> length R = 4 \<Longrightarrow> RMASH K rindex (MASH K rindex R) = R"
  "rindex < 4 \<Longrightarrow> length R = 4 \<Longrightarrow> MASH K rindex (RMASH K rindex R) = R"
  using prev_other [of rindex 1] by (simp_all add: MASH_def RMASH_def)

lemma round_lengths [simp]:
  "length (MIX K i k n R) = length R" "length (RMIX K i k n R) = length R"
  "length (MASH K i R) = length R" "length (RMASH K i R) = length R"
  "length (MIXROUND K k R) = length R" "length (RMIXROUND K k R) = length R"
  "length (MASHROUND K R) = length R" "length (RMASHROUND K R) = length R"
  by (simp_all add: MIX_def RMIX_def MASH_def RMASH_def MIXROUND_def RMIXROUND_def MASHROUND_def
      RMASHROUND_def Let_def)

lemma rounds_undo:
  assumes "length R = 4"
  shows "RMIXROUND K k (MIXROUND K k R) = R" "MIXROUND K k (RMIXROUND K k R) = R"
    "RMASHROUND K (MASHROUND K R) = R" "MASHROUND K (RMASHROUND K R) = R"
  using assms
  by (simp_all add: MIXROUND_def RMIXROUND_def MASHROUND_def RMASHROUND_def Let_def MIX_undo MASH_undo)

lemma length_read_R [simp]: "length (read_R inp) = 4"
  by (simp add: read_R_def)

lemma length_write_R [simp]: "length (write_R R) = 8"
  by (simp add: write_R_def)

lemma write_read_R: "length inp = 8 \<Longrightarrow> write_R (read_R inp) = inp"
proof -
  have w: "ucast (ucast a OR push_bit 8 (ucast b :: u16) :: u16) = a"
    "ucast (drop_bit 8 (ucast a OR push_bit 8 (ucast b :: u16))) = b" for a b :: u8
    by (auto intro!: bit_word_eqI simp: bit_simps bit_beyond_length)
  assume "length inp = 8"
  then obtain a b c d e f g h where "inp = [a, b, c, d, e, f, g, h]"
    by (auto simp: length_Suc_conv numeral_eq_Suc)
  then show ?thesis by (simp add: write_R_def read_R_def w w [simplified])
qed

lemma read_write_R: "length R = 4 \<Longrightarrow> read_R (write_R R) = R"
proof -
  have r: "ucast (ucast x :: u8) OR push_bit 8 (ucast (ucast (drop_bit 8 x) :: u8)) = x" for x :: u16
    by (rule word16_eqI) (auto simp: bit_simps dest: bit_imp_le_length)
  assume "length R = 4"
  then obtain a b c d where "R = [a, b, c, d]" by (auto simp: length_Suc_conv numeral_eq_Suc)
  then show ?thesis by (simp add: write_R_def read_R_def r)
qed

text \<open>C31: RC2.  With any context of 64 words, decryption gives back every block that was
  encrypted, and encryption every block that was decrypted.
\<close>

theorem rc2_roundtrip:
  assumes "length (key rc2) = 64" and "length inp = 8"
  shows "(\<exists>out. ILRC2Encrypt rc2 inp = Some out \<and> length out = 8 \<and> ILRC2Decrypt rc2 out = Some inp) \<and>
    (\<exists>out. ILRC2Decrypt rc2 inp = Some out \<and> length out = 8 \<and> ILRC2Encrypt rc2 out = Some inp)"
  using assms by (simp add: ILRC2Encrypt_def ILRC2Decrypt_def Let_def read_write_R rounds_undo write_read_R)

theorem rc2_roundtrip_witness:
  "\<exists>out. ILRC2Encrypt \<lparr>key = replicate 64 7\<rparr> [1, 2, 3, 4, 5, 6, 7, 8] = Some out \<and> length out = 8 \<and>
     ILRC2Decrypt \<lparr>key = replicate 64 7\<rparr> out = Some [1, 2, 3, 4, 5, 6, 7, 8]"
  using rc2_roundtrip [of "\<lparr>key = replicate 64 7\<rparr>" "[1, 2, 3, 4, 5, 6, 7, 8]"] by simp

end
