(* ===== verification/Aes.thy ===== *)
theory Aes
  imports HashStream
begin

text \<open>
  \<^verbatim>\<open>support/aes.c\<close>: the multiplication in the field of 256 elements, the column mixing and
  its inverse, the key expansion and the two block functions.  \<^verbatim>\<open>ILInt32\<close> values are
  32-bit words with signed shifts and comparisons; a column of the state is one such
  word.  A read or write outside an array, and a remainder by zero, is \<^term>\<open>None\<close>.
\<close>

section \<open>The code\<close>

definition sbox :: bytes where
  "sbox = [
   0x63, 0x7c, 0x77, 0x7b, 0xf2, 0x6b, 0x6f, 0xc5, 0x30, 0x01, 0x67, 0x2b, 0xfe, 0xd7, 0xab, 0x76,
   0xca, 0x82, 0xc9, 0x7d, 0xfa, 0x59, 0x47, 0xf0, 0xad, 0xd4, 0xa2, 0xaf, 0x9c, 0xa4, 0x72, 0xc0,
   0xb7, 0xfd, 0x93, 0x26, 0x36, 0x3f, 0xf7, 0xcc, 0x34, 0xa5, 0xe5, 0xf1, 0x71, 0xd8, 0x31, 0x15,
   0x04, 0xc7, 0x23, 0xc3, 0x18, 0x96, 0x05, 0x9a, 0x07, 0x12, 0x80, 0xe2, 0xeb, 0x27, 0xb2, 0x75,
   0x09, 0x83, 0x2c, 0x1a, 0x1b, 0x6e, 0x5a, 0xa0, 0x52, 0x3b, 0xd6, 0xb3, 0x29, 0xe3, 0x2f, 0x84,
   0x53, 0xd1, 0x00, 0xed, 0x20, 0xfc, 0xb1, 0x5b, 0x6a, 0xcb, 0xbe, 0x39, 0x4a, 0x4c, 0x58, 0xcf,
   0xd0, 0xef, 0xaa, 0xfb, 0x43, 0x4d, 0x33, 0x85, 0x45, 0xf9, 0x02, 0x7f, 0x50, 0x3c, 0x9f, 0xa8,
   0x51, 0xa3, 0x40, 0x8f, 0x92, 0x9d, 0x38, 0xf5, 0xbc, 0xb6, 0xda, 0x21, 0x10, 0xff, 0xf3, 0xd2,
   0xcd, 0x0c, 0x13, 0xec, 0x5f, 0x97, 0x44, 0x17, 0xc4, 0xa7, 0x7e, 0x3d, 0x64, 0x5d, 0x19, 0x73,
   0x60, 0x81, 0x4f, 0xdc, 0x22, 0x2a, 0x90, 0x88, 0x46, 0xee, 0xb8, 0x14, 0xde, 0x5e, 0x0b, 0xdb,
   0xe0, 0x32, 0x3a, 0x0a, 0x49, 0x06, 0x24, 0x5c, 0xc2, 0xd3, 0xac, 0x62, 0x91, 0x95, 0xe4, 0x79,
   0xe7, 0xc8, 0x37, 0x6d, 0x8d, 0xd5, 0x4e, 0xa9, 0x6c, 0x56, 0xf4, 0xea, 0x65, 0x7a, 0xae, 0x08,
   0xba, 0x78, 0x25, 0x2e, 0x1c, 0xa6, 0xb4, 0xc6, 0xe8, 0xdd, 0x74, 0x1f, 0x4b, 0xbd, 0x8b, 0x8a,
   0x70, 0x3e, 0xb5, 0x66, 0x48, 0x03, 0xf6, 0x0e, 0x61, 0x35, 0x57, 0xb9, 0x86, 0xc1, 0x1d, 0x9e,
   0xe1, 0xf8, 0x98, 0x11, 0x69, 0xd9, 0x8e, 0x94, 0x9b, 0x1e, 0x87, 0xe9, 0xce, 0x55, 0x28, 0xdf,
   0x8c, 0xa1, 0x89, 0x0d, 0xbf, 0xe6, 0x42, 0x68, 0x41, 0x99, 0x2d, 0x0f, 0xb0, 0x54, 0xbb, 0x16]"

definition invsbox :: bytes where
  "invsbox = [
   0x52, 0x09, 0x6a, 0xd5, 0x30, 0x36, 0xa5, 0x38, 0xbf, 0x40, 0xa3, 0x9e, 0x81, 0xf3, 0xd7, 0xfb,
   0x7c, 0xe3, 0x39, 0x82, 0x9b, 0x2f, 0xff, 0x87, 0x34, 0x8e, 0x43, 0x44, 0xc4, 0xde, 0xe9, 0xcb,
   0x54, 0x7b, 0x94, 0x32, 0xa6, 0xc2, 0x23, 0x3d, 0xee, 0x4c, 0x95, 0x0b, 0x42, 0xfa, 0xc3, 0x4e,
   0x08, 0x2e, 0xa1, 0x66, 0x28, 0xd9, 0x24, 0xb2, 0x76, 0x5b, 0xa2, 0x49, 0x6d, 0x8b, 0xd1, 0x25,
   0x72, 0xf8, 0xf6, 0x64, 0x86, 0x68, 0x98, 0x16, 0xd4, 0xa4, 0x5c, 0xcc, 0x5d, 0x65, 0xb6, 0x92,
   0x6c, 0x70, 0x48, 0x50, 0xfd, 0xed, 0xb9, 0xda, 0x5e, 0x15, 0x46, 0x57, 0xa7, 0x8d, 0x9d, 0x84,
   0x90, 0xd8, 0xab, 0x00, 0x8c, 0xbc, 0xd3, 0x0a, 0xf7, 0xe4, 0x58, 0x05, 0xb8, 0xb3, 0x45, 0x06,
   0xd0, 0x2c, 0x1e, 0x8f, 0xca, 0x3f, 0x0f, 0x02, 0xc1, 0xaf, 0xbd, 0x03, 0x01, 0x13, 0x8a, 0x6b,
   0x3a, 0x91, 0x11, 0x41, 0x4f, 0x67, 0xdc, 0xea, 0x97, 0xf2, 0xcf, 0xce, 0xf0, 0xb4, 0xe6, 0x73,
   0x96, 0xac, 0x74, 0x22, 0xe7, 0xad, 0x35, 0x85, 0xe2, 0xf9, 0x37, 0xe8, 0x1c, 0x75, 0xdf, 0x6e,
   0x47, 0xf1, 0x1a, 0x71, 0x1d, 0x29, 0xc5, 0x89, 0x6f, 0xb7, 0x62, 0x0e, 0xaa, 0x18, 0xbe, 0x1b,
   0xfc, 0x56, 0x3e, 0x4b, 0xc6, 0xd2, 0x79, 0x20, 0x9a, 0xdb, 0xc0, 0xfe, 0x78, 0xcd, 0x5a, 0xf4,
   0x1f, 0xdd, 0xa8, 0x33, 0x88, 0x07, 0xc7, 0x31, 0xb1, 0x12, 0x10, 0x59, 0x27, 0x80, 0xec, 0x5f,
   0x60, 0x51, 0x7f, 0xa9, 0x19, 0xb5, 0x4a, 0x0d, 0x2d, 0xe5, 0x7a, 0x9f, 0x93, 0xc9, 0x9c, 0xef,
   0xa0, 0xe0, 0x3b, 0x4d, 0xae, 0x2a, 0xf5, 0xb0, 0xc8, 0xeb, 0xbb, 0x3c, 0x83, 0x53, 0x99, 0x61,
   0x17, 0x2b, 0x04, 0x7e, 0xba, 0x77, 0xd6, 0x26, 0xe1, 0x69, 0x14, 0x63, 0x55, 0x21, 0x0c, 0x7d]"

text \<open>The loop of \<^verbatim>\<open>mult\<close>; its first argument is always one of the constants 2, 3, 9, 11, 13, 14.\<close>

fun mult_loop :: "nat \<Rightarrow> u32 \<Rightarrow> u32 \<Rightarrow> u32" where
  "mult_loop a temp result =
     (if a = 0 then result
      else let temp = push_bit 1 temp;
               temp = (if sint temp \<ge> 0x100 then temp XOR 0x11B else temp);
               result = (if a mod 2 \<noteq> 0 then result XOR temp else result)
           in mult_loop (a div 2) temp result)"

declare mult_loop.simps [simp del]

definition mult :: "nat \<Rightarrow> u32 \<Rightarrow> u32" where
  "mult a b = mult_loop (a div 2) b (if a mod 2 \<noteq> 0 then b else 0)"

text \<open>The byte \<^verbatim>\<open>(col >> n) & 0xFF\<close>.\<close>

definition col_byte :: "nat \<Rightarrow> u32 \<Rightarrow> u32" where
  "col_byte n col = signed_drop_bit n col AND 0xFF"

definition mix :: "u32 \<Rightarrow> u32" where
  "mix col =
     (let byte0 = col_byte 24 col; byte1 = col_byte 16 col; byte2 = col_byte 8 col; byte3 = col AND 0xFF
      in push_bit 24 (mult 2 byte0 XOR mult 3 byte1 XOR byte2 XOR byte3) OR
         push_bit 16 (byte0 XOR mult 2 byte1 XOR mult 3 byte2 XOR byte3) OR
         push_bit 8 (byte0 XOR byte1 XOR mult 2 byte2 XOR mult 3 byte3) OR
         (mult 3 byte0 XOR byte1 XOR byte2 XOR mult 2 byte3))"

definition unmix :: "u32 \<Rightarrow> u32" where
  "unmix col =
     (let byte0 = col_byte 24 col; byte1 = col_byte 16 col; byte2 = col_byte 8 col; byte3 = col AND 0xFF
      in push_bit 24 (mult 14 byte0 XOR mult 11 byte1 XOR mult 13 byte2 XOR mult 9 byte3) OR
         push_bit 16 (mult 9 byte0 XOR mult 14 byte1 XOR mult 11 byte2 XOR mult 13 byte3) OR
         push_bit 8 (mult 13 byte0 XOR mult 9 byte1 XOR mult 14 byte2 XOR mult 11 byte3) OR
         (mult 11 byte0 XOR mult 13 byte1 XOR mult 9 byte2 XOR mult 14 byte3))"

record ILAESContext =
  numRounds :: nat
  keySchedule :: "u32 list"

text \<open>
  The expression that looks up the bytes of four columns in a table and packs them:
  \<^verbatim>\<open>SubBytes\<close> with \<^verbatim>\<open>ShiftRows\<close>, and \<^verbatim>\<open>SubWord\<close> with and without \<^verbatim>\<open>RotWord\<close>.
\<close>

definition sub_col :: "bytes \<Rightarrow> u32 \<Rightarrow> u32 \<Rightarrow> u32 \<Rightarrow> u32 \<Rightarrow> u32" where
  "sub_col s a b c d =
     push_bit 24 (ucast (s ! unat (col_byte 24 a))) OR push_bit 16 (ucast (s ! unat (col_byte 16 b))) OR
     push_bit 8 (ucast (s ! unat (col_byte 8 c))) OR ucast (s ! unat (d AND 0xFF))"

definition sub_rot_word :: "u32 \<Rightarrow> u32" where
  "sub_rot_word temp =
     push_bit 24 (ucast (sbox ! unat (col_byte 16 temp))) OR push_bit 16 (ucast (sbox ! unat (col_byte 8 temp))) OR
     push_bit 8 (ucast (sbox ! unat (temp AND 0xFF))) OR ucast (sbox ! unat (col_byte 24 temp))"

definition read_col :: "bytes \<Rightarrow> nat \<Rightarrow> u32" where
  "read_col buf off =
     ucast (buf ! (off + 3)) OR push_bit 8 (ucast (buf ! (off + 2))) OR
     push_bit 16 (ucast (buf ! (off + 1))) OR push_bit 24 (ucast (buf ! off))"

text \<open>The loop of the key expansion, over the positions \<^verbatim>\<open>i\<close>, with its variables \<^verbatim>\<open>bit\<close> and \<^verbatim>\<open>keySchedule\<close>.\<close>

fun expand_key :: "nat \<Rightarrow> nat list \<Rightarrow> u32 \<Rightarrow> u32 list \<Rightarrow> u32 list option" where
  "expand_key nk [] rc w = Some w"
| "expand_key nk (i # is) rc w =
     (if nk = 0 \<or> i = 0 \<or> length w \<le> i then None
      else let temp = w ! (i - 1) in
        if i mod nk = 0
        then let temp = sub_rot_word temp XOR push_bit 24 rc;
                 rc = push_bit 1 rc;
                 rc = (if sint rc \<ge> 0x100 then rc XOR 0x11B else rc)
             in expand_key nk is rc (w[i := w ! (i - nk) XOR temp])
        else let temp = (if nk = 8 \<and> i mod nk = 4 then sub_col sbox temp temp temp temp else temp)
             in expand_key nk is rc (w[i := w ! (i - nk) XOR temp]))"

definition ILAESInit :: "ILAESContext \<Rightarrow> bytes \<Rightarrow> nat \<Rightarrow> ILAESContext option" where
  "ILAESInit aes key keyBits =
     (let rounds = (if keyBits = 128 then 10 else if keyBits = 192 then 12 else 14);
          nk = keyBits div 32;
          w = keySchedule aes
      in if length key < 4 * nk \<or> length w < nk then None else do {
        let w = map (\<lambda>i. read_col key (i * 4)) [0..<nk] @ drop nk w;
        w \<leftarrow> expand_key nk [nk..<(rounds + 1) * 4] 1 w;
        Some \<lparr>numRounds = rounds, keySchedule = w\<rparr>
      })"

type_synonym columns = "u32 \<times> u32 \<times> u32 \<times> u32"

definition add_key :: "u32 list \<Rightarrow> nat \<Rightarrow> columns \<Rightarrow> columns" where
  "add_key ks i s = (case s of (col0, col1, col2, col3) \<Rightarrow>
     (col0 XOR ks ! i, col1 XOR ks ! (i + 1), col2 XOR ks ! (i + 2), col3 XOR ks ! (i + 3)))"

definition sub_shift :: "columns \<Rightarrow> columns" where
  "sub_shift s = (case s of (col0, col1, col2, col3) \<Rightarrow>
     (sub_col sbox col0 col1 col2 col3, sub_col sbox col1 col2 col3 col0,
      sub_col sbox col2 col3 col0 col1, sub_col sbox col3 col0 col1 col2))"

definition inv_sub_shift :: "columns \<Rightarrow> columns" where
  "inv_sub_shift s = (case s of (col0, col1, col2, col3) \<Rightarrow>
     (sub_col invsbox col0 col3 col2 col1, sub_col invsbox col1 col0 col3 col2,
      sub_col invsbox col2 col1 col0 col3, sub_col invsbox col3 col2 col1 col0))"

definition map_columns :: "(u32 \<Rightarrow> u32) \<Rightarrow> columns \<Rightarrow> columns" where
  "map_columns f s = (case s of (col0, col1, col2, col3) \<Rightarrow> (f col0, f col1, f col2, f col3))"

text \<open>The round loops, by the number of rounds left; the last argument is \<^verbatim>\<open>keyIndex\<close>.\<close>

fun encrypt_rounds :: "u32 list \<Rightarrow> nat \<Rightarrow> columns \<Rightarrow> nat \<Rightarrow> columns" where
  "encrypt_rounds ks 0 s keyIndex = add_key ks keyIndex (sub_shift s)"
| "encrypt_rounds ks (Suc round) s keyIndex =
     encrypt_rounds ks round (add_key ks keyIndex (map_columns mix (sub_shift s))) (keyIndex + 4)"

fun decrypt_rounds :: "u32 list \<Rightarrow> nat \<Rightarrow> columns \<Rightarrow> nat \<Rightarrow> columns" where
  "decrypt_rounds ks 0 s keyIndex = add_key ks (keyIndex - 4) (inv_sub_shift s)"
| "decrypt_rounds ks (Suc round) s keyIndex =
     decrypt_rounds ks round (map_columns unmix (add_key ks (keyIndex - 4) (inv_sub_shift s))) (keyIndex - 4)"

definition read_columns :: "bytes \<Rightarrow> columns" where
  "read_columns inp = (read_col inp 0, read_col inp 4, read_col inp 8, read_col inp 12)"

definition write_columns :: "columns \<Rightarrow> bytes" where
  "write_columns s = (case s of (col0, col1, col2, col3) \<Rightarrow>
     be32_bytes col0 @ be32_bytes col1 @ be32_bytes col2 @ be32_bytes col3)"

definition ILAESEncrypt :: "ILAESContext \<Rightarrow> bytes \<Rightarrow> bytes option" where
  "ILAESEncrypt aes inp =
     (let ks = keySchedule aes; nr = numRounds aes
      in if length inp < 16 \<or> nr = 0 \<or> length ks < 4 * (nr + 1) then None
         else let s = read_columns inp;
                  s = add_key ks 0 s;
                  s = encrypt_rounds ks (nr - 1) s 4
              in Some (write_columns s))"

definition ILAESDecrypt :: "ILAESContext \<Rightarrow> bytes \<Rightarrow> bytes option" where
  "ILAESDecrypt aes inp =
     (let ks = keySchedule aes; nr = numRounds aes
      in if length inp < 16 \<or> nr = 0 \<or> length ks < 4 * (nr + 1) then None
         else let s = read_columns inp;
                  s = add_key ks (nr * 4) s;
                  s = decrypt_rounds ks (nr - 1) s (nr * 4)
              in Some (write_columns s))"

definition ILAESFinalize :: "ILAESContext \<Rightarrow> ILAESContext" where
  "ILAESFinalize aes = \<lparr>numRounds = 0, keySchedule = replicate (length (keySchedule aes)) 0\<rparr>"

section \<open>The field and the columns\<close>

text \<open>A column from its bytes, and doubling in the field.\<close>

definition col4 :: "u8 \<Rightarrow> u8 \<Rightarrow> u8 \<Rightarrow> u8 \<Rightarrow> u32" where
  "col4 a b c d = push_bit 24 (ucast a) OR push_bit 16 (ucast b) OR push_bit 8 (ucast c) OR ucast d"

definition x2 :: "u8 \<Rightarrow> u8" where
  "x2 x = push_bit 1 x XOR (if bit x 7 then 0x1B else 0)"

lemma col4_bytes:
  "col_byte 24 (col4 a b c d) = ucast a" "col_byte 16 (col4 a b c d) = ucast b"
  "col_byte 8 (col4 a b c d) = ucast c" "col4 a b c d AND 0xFF = ucast d"
  unfolding col_byte_def col4_def
  by (rule word32_eqI, simp add: blast_simps)+

lemma col4_exhaust: obtains a b c d where "w = col4 a b c d"
proof
  show "w = col4 (ucast (drop_bit 24 w)) (ucast (drop_bit 16 w)) (ucast (drop_bit 8 w)) (ucast w)"
    unfolding col4_def by (rule word32_eqI) (simp add: blast_simps)
qed

lemma x2_xor: "x2 (a XOR b) = x2 a XOR x2 b"
  unfolding x2_def by (rule word8_eqI) (auto simp: blast_simps)

lemma double_step:
  "(if sint (push_bit 1 (ucast x :: u32)) \<ge> 0x100 then push_bit 1 (ucast x) XOR 0x11B else push_bit 1 (ucast x)) =
     (ucast (x2 x) :: u32)"
proof -
  have "unat (push_bit 1 (ucast x :: u32)) = 2 * unat x"
    using unat_less_8 [of x] by (simp add: push_bit_eq_mult unat_word_ariths)
  then have "sint (push_bit 1 (ucast x :: u32)) \<ge> 0x100 \<longleftrightarrow> \<not> x < 0x80"
    using unat_less_8 [of x] by (simp add: sint_cases_32 word_less_def not_less)
  then have s: "sint (push_bit 1 (ucast x :: u32)) \<ge> 0x100 \<longleftrightarrow> bit x 7"
    by (simp add: byte_less_0x80)
  show ?thesis
    unfolding s x2_def by (rule word32_eqI) (simp add: blast_simps)
qed

lemma mult_loop_byte:
  "mult_loop 0 t r = r"
  "0 < a \<Longrightarrow> mult_loop a (ucast x) r =
     mult_loop (a div 2) (ucast (x2 x)) (if a mod 2 \<noteq> 0 then r XOR ucast (x2 x) else r)"
  by (simp add: mult_loop.simps) (subst mult_loop.simps, simp only: Let_def double_step split: if_split, simp)

lemma mult_constants:
  "mult 2 (ucast x) = ucast (x2 x)"
  "mult 3 (ucast x) = ucast (x XOR x2 x)"
  "mult 9 (ucast x) = ucast (x XOR x2 (x2 (x2 x)))"
  "mult 11 (ucast x) = ucast (x XOR x2 x XOR x2 (x2 (x2 x)))"
  "mult 13 (ucast x) = ucast (x XOR x2 (x2 x) XOR x2 (x2 (x2 x)))"
  "mult 14 (ucast x) = ucast (x2 x XOR x2 (x2 x) XOR x2 (x2 (x2 x)))"
  by (simp_all add: mult_def mult_loop_byte unsigned_xor_eq xor.assoc)

lemma xor_cancel: "a XOR (a XOR b) = (b :: 'a::len word)"
  by (simp flip: xor.assoc)

lemma mix_col4:
  "mix (col4 a b c d) = col4 (x2 a XOR (b XOR x2 b) XOR c XOR d) (a XOR x2 b XOR (c XOR x2 c) XOR d)
     (a XOR b XOR x2 c XOR (d XOR x2 d)) ((a XOR x2 a) XOR b XOR c XOR x2 d)"
  by (simp add: mix_def col4_bytes mult_constants Let_def)
    (simp add: col4_def unsigned_xor_eq)

lemma unmix_col4:
  "unmix (col4 a b c d) =
     (let e = (\<lambda>x. x2 x XOR x2 (x2 x) XOR x2 (x2 (x2 x))); l = (\<lambda>x. x XOR x2 x XOR x2 (x2 (x2 x)));
          t = (\<lambda>x. x XOR x2 (x2 x) XOR x2 (x2 (x2 x))); n = (\<lambda>x. x XOR x2 (x2 (x2 x)))
      in col4 (e a XOR l b XOR t c XOR n d) (n a XOR e b XOR l c XOR t d)
           (t a XOR n b XOR e c XOR l d) (l a XOR t b XOR n c XOR e d))"
  by (simp add: unmix_def col4_bytes mult_constants Let_def)
    (simp add: col4_def unsigned_xor_eq)

text \<open>The two matrices are inverse because doubling is linear and every repeated term cancels.\<close>

lemma unmix_mix: "unmix (mix w) = w"
proof -
  obtain a b c d where w: "w = col4 a b c d" by (rule col4_exhaust)
  show ?thesis
    unfolding w mix_col4 unmix_col4 Let_def x2_xor
    by (rule arg_cong4 [where f = col4]; simp only: xor.assoc xor.commute xor.left_commute xor_cancel
          xor_self_eq xor.left_neutral xor.right_neutral)
qed

section \<open>The substitution and the rounds\<close>

lemma sbox_table: "map (\<lambda>y. invsbox ! unat y) sbox = map word_of_nat [0..<256]"
  by code_simp

lemma invsbox_sbox: "invsbox ! unat (sbox ! unat x) = x"
proof -
  have l: "length sbox = 256" by (simp add: sbox_def)
  have x: "unat x < 256" using unat_less_8 [of x] by simp
  have "map (\<lambda>y. invsbox ! unat y) sbox ! unat x = map word_of_nat [0..<256] ! unat x"
    by (simp only: sbox_table)
  with x show ?thesis by (simp add: l del: upt_rec_numeral upt_Suc)
qed

lemma unat_byte [simp]: "unat (ucast (x :: u8) :: u32) = unat x"
  by simp

lemma sub_col_bytes:
  "sub_col s (col4 a0 a1 a2 a3) (col4 b0 b1 b2 b3) (col4 c0 c1 c2 c3) (col4 d0 d1 d2 d3) =
     col4 (s ! unat a0) (s ! unat b1) (s ! unat c2) (s ! unat d3)"
  by (simp add: sub_col_def col4_bytes col4_def [symmetric])

lemma inv_sub_shift_undo: "inv_sub_shift (sub_shift s) = s"
proof -
  obtain p q r t where s: "s = (p, q, r, t)" by (cases s)
  obtain a0 a1 a2 a3 where p: "p = col4 a0 a1 a2 a3" by (rule col4_exhaust)
  obtain b0 b1 b2 b3 where q: "q = col4 b0 b1 b2 b3" by (rule col4_exhaust)
  obtain c0 c1 c2 c3 where r: "r = col4 c0 c1 c2 c3" by (rule col4_exhaust)
  obtain d0 d1 d2 d3 where t: "t = col4 d0 d1 d2 d3" by (rule col4_exhaust)
  show ?thesis
    by (simp add: s p q r t inv_sub_shift_def sub_shift_def sub_col_bytes invsbox_sbox)
qed

lemma add_key_undo: "add_key ks i (add_key ks i s) = s"
  by (cases s) (simp add: add_key_def xor.assoc)

lemma unmix_columns: "map_columns unmix (map_columns mix s) = s"
  by (cases s) (simp add: map_columns_def unmix_mix)

text \<open>Decryption walks the key schedule backwards, one round of encryption at a time.\<close>

lemma decrypt_last:
  "decrypt_rounds ks (Suc n) s (keyIndex + 4) =
     decrypt_rounds ks n (map_columns unmix (add_key ks keyIndex (inv_sub_shift s))) keyIndex"
  by simp

lemma decrypt_encrypt_rounds:
  assumes "4 \<le> keyIndex"
  shows "decrypt_rounds ks (n + m) (add_key ks (keyIndex + 4 * n) (encrypt_rounds ks n s keyIndex)) (keyIndex + 4 * n) =
    decrypt_rounds ks m (sub_shift s) keyIndex"
  using assms
proof (induction n arbitrary: s keyIndex m)
  case 0
  then show ?case by (simp add: add_key_undo)
next
  case (Suc n)
  let ?s = "add_key ks keyIndex (map_columns mix (sub_shift s))"
  have "decrypt_rounds ks (Suc n + m) (add_key ks (keyIndex + 4 * Suc n) (encrypt_rounds ks (Suc n) s keyIndex)) (keyIndex + 4 * Suc n)
      = decrypt_rounds ks (n + Suc m) (add_key ks (keyIndex + 4 + 4 * n) (encrypt_rounds ks n ?s (keyIndex + 4))) (keyIndex + 4 + 4 * n)"
    by (simp add: algebra_simps)
  also have "\<dots> = decrypt_rounds ks (Suc m) (sub_shift ?s) (keyIndex + 4)"
    by (rule Suc.IH) simp
  also have "\<dots> = decrypt_rounds ks m (sub_shift s) keyIndex"
    by (simp only: decrypt_last inv_sub_shift_undo add_key_undo unmix_columns)
  finally show ?case .
qed

lemma read_write_columns: "read_columns (write_columns s) = s"
proof -
  have r: "read_col (be32_bytes a @ xs) 0 = a" "read_col (x # y # z # w # be32_bytes a @ xs) 4 = a" for a xs x y z w
    by (rule word32_eqI, simp add: read_col_def be32_bytes_def blast_simps)+
  have r': "read_col (be32_bytes a @ xs) (n + 4) = read_col xs n" for a xs n
    by (simp add: read_col_def be32_bytes_def eval_nat_numeral)
  obtain a b c d where s: "s = (a, b, c, d)" by (cases s)
  have "read_col (write_columns s) 0 = a" by (simp add: s write_columns_def r)
  moreover have "read_col (write_columns s) (0 + 4) = b" unfolding s write_columns_def prod.case r' by (rule r)
  moreover have "read_col (write_columns s) (0 + 4 + 4) = c" unfolding s write_columns_def prod.case r' by (rule r)
  moreover have "read_col (write_columns s) (0 + 4 + 4 + 4) = d"
    unfolding s write_columns_def prod.case r' using r(1) [of d "[]"] by simp
  ultimately show ?thesis by (simp add: read_columns_def s)
qed

lemma write_read_columns:
  assumes "length inp = 16"
  shows "write_columns (read_columns inp) = inp"
proof -
  have b: "be32_bytes (ucast d OR push_bit 8 (ucast c) OR push_bit 16 (ucast b) OR push_bit 24 (ucast a)) =
      [a, b, c, d]" for a b c d :: u8
    unfolding be32_bytes_def
    by (simp, intro conjI; rule bit_word_eqI) (auto simp: bit_simps dest: bit_imp_le_length)
  from assms obtain a0 a1 a2 a3 a4 a5 a6 a7 a8 a9 a10 a11 a12 a13 a14 a15
    where "inp = [a0, a1, a2, a3, a4, a5, a6, a7, a8, a9, a10, a11, a12, a13, a14, a15]"
    by (auto simp: length_Suc_conv numeral_eq_Suc)
  then show ?thesis by (simp add: write_columns_def read_columns_def read_col_def b)
qed

lemma length_write_columns [simp]: "length (write_columns s) = 16"
  by (simp add: write_columns_def be32_bytes_def split: prod.split)

text \<open>C28: AES decrypts what it encrypts.  For every context with at least one round and a
  schedule that is long enough, in particular every one \<^verbatim>\<open>ILAESInit\<close> makes, encryption of
  a 16-byte block writes 16 bytes, and decryption of them gives the block back.
\<close>

theorem aes_roundtrip:
  assumes "0 < numRounds aes" and "4 * (numRounds aes + 1) \<le> length (keySchedule aes)" and "length inp = 16"
  shows "\<exists>out. ILAESEncrypt aes inp = Some out \<and> length out = 16 \<and> ILAESDecrypt aes out = Some inp"
proof -
  obtain n where n: "numRounds aes = Suc n" using assms(1) by (cases "numRounds aes") auto
  let ?ks = "keySchedule aes" and ?s = "read_columns inp"
  let ?out = "encrypt_rounds ?ks n (add_key ?ks 0 ?s) 4"
  have "decrypt_rounds ?ks n (add_key ?ks (numRounds aes * 4) ?out) (numRounds aes * 4) = ?s"
    using decrypt_encrypt_rounds [of 4 ?ks n 0 "add_key ?ks 0 ?s"]
    by (simp add: n inv_sub_shift_undo add_key_undo algebra_simps)
  then show ?thesis
    using assms by (simp add: ILAESEncrypt_def ILAESDecrypt_def Let_def n read_write_columns write_read_columns)
qed

theorem aes_roundtrip_witness:
  "\<exists>out. ILAESEncrypt \<lparr>numRounds = 10, keySchedule = replicate 60 7\<rparr> (replicate 16 1) = Some out \<and> length out = 16 \<and>
     ILAESDecrypt \<lparr>numRounds = 10, keySchedule = replicate 60 7\<rparr> out = Some (replicate 16 1)"
  using aes_roundtrip [of "\<lparr>numRounds = 10, keySchedule = replicate 60 7\<rparr>" "replicate 16 1"] by simp

section \<open>The key expansion\<close>

lemma expand_key_returns:
  "0 < nk \<Longrightarrow> (\<forall>i\<in>set is. 0 < i \<and> i < length w) \<Longrightarrow> \<exists>w'. expand_key nk is rc w = Some w' \<and> length w' = length w"
  by (induction nk "is" rc w rule: expand_key.induct) (simp_all add: Let_def)

text \<open>C29: for the three key sizes of the standard \<^verbatim>\<open>ILAESInit\<close> returns, without an access outside
  the key or the 60 words of the schedule, and sets the number of rounds that makes the
  schedule long enough for the block functions.
\<close>

theorem aes_init_in_bounds:
  assumes "keyBits \<in> {128, 192, 256}" and "keyBits div 8 \<le> length key" and "length (keySchedule aes) = 60"
  shows "\<exists>c. ILAESInit aes key keyBits = Some c \<and> length (keySchedule c) = 60 \<and>
    numRounds c = keyBits div 32 + 6 \<and> 4 * (numRounds c + 1) \<le> length (keySchedule c)"
proof -
  let ?nk = "keyBits div 32"
  let ?r = "if keyBits = 128 then 10 else if keyBits = 192 then 12 else 14 :: nat"
  let ?w = "map (\<lambda>i. read_col key (i * 4)) [0..<?nk] @ drop ?nk (keySchedule aes)"
  have nk: "0 < ?nk" "?nk \<le> 8" "4 * ?nk \<le> length key" and r: "?r = ?nk + 6" "(?r + 1) * 4 \<le> 60"
    using assms(1,2) by auto
  have "length ?w = 60" using nk assms(3) by simp
  moreover have "\<forall>i\<in>set [?nk..<(?r + 1) * 4]. 0 < i \<and> i < 60" using nk r(2) by auto
  ultimately obtain w' where w: "expand_key ?nk [?nk..<(?r + 1) * 4] 1 ?w = Some w'" "length w' = 60"
    using expand_key_returns [OF nk(1), of "[?nk..<(?r + 1) * 4]" ?w] by metis
  have "ILAESInit aes key keyBits = Some \<lparr>numRounds = ?r, keySchedule = w'\<rparr>"
    using nk assms(3) w(1) unfolding ILAESInit_def Let_def by (simp only: not_less [symmetric]) auto
  with w(2) r show ?thesis by simp
qed

theorem aes_init_in_bounds_witness:
  "\<exists>c. ILAESInit \<lparr>numRounds = 3, keySchedule = replicate 60 9\<rparr> (replicate 24 1) 192 = Some c \<and> numRounds c = 12"
  using aes_init_in_bounds [of 192 "replicate 24 1" "\<lparr>numRounds = 3, keySchedule = replicate 60 9\<rparr>"] by auto

end
