(* ===== verification/Loops.thy ===== *)
theory Loops
  imports Prelude
begin

text \<open>
  Counted loops over arrays: checked loads and stores, the loop
  \<^verbatim>\<open>for(i = a; i < b; ++i)\<close> and its downward twin as folds over the list of their
  indices, and the rules that prove such a loop totally correct from an invariant of the
  index.  Then the natural number that an array of 32-bit words stands for.
\<close>

named_theorems array_simps \<open>checked loads and stores\<close>

definition load :: "'a list \<Rightarrow> nat \<Rightarrow> 'a option" where
  "load xs i = (if i < length xs then Some (xs ! i) else None)"

definition store :: "'a list \<Rightarrow> nat \<Rightarrow> 'a \<Rightarrow> 'a list option" where
  "store xs i x = (if i < length xs then Some (xs[i := x]) else None)"

fun for_each :: "('i \<Rightarrow> 's \<Rightarrow> 's option) \<Rightarrow> 'i list \<Rightarrow> 's \<Rightarrow> 's option" where
  "for_each body [] s = Some s"
| "for_each body (i # is) s = do { s' \<leftarrow> body i s; for_each body is s' }"

lemma load_in [array_simps]: "i < length xs \<Longrightarrow> load xs i = Some (xs ! i)"
  by (simp add: load_def)

lemma store_in [array_simps]: "i < length xs \<Longrightarrow> store xs i x = Some (xs[i := x])"
  by (simp add: store_def)

lemma for_each_append:
  "for_each body (is @ js) s = Option.bind (for_each body is s) (for_each body js)"
  by (induction "is" arbitrary: s) (auto split: Option.bind_split)

lemma for_up:
  assumes "a \<le> b" and "P a s"
    and "\<And>i s. a \<le> i \<Longrightarrow> i < b \<Longrightarrow> P i s \<Longrightarrow> \<exists>s'. body i s = Some s' \<and> P (Suc i) s'"
  shows "\<exists>s'. for_each body [a..<b] s = Some s' \<and> P b s'"
  using assms
proof (induction rule: dec_induct)
  case base
  then show ?case by simp
next
  case (step n)
  then obtain s' where s': "for_each body [a..<n] s = Some s'" "P n s'" by force
  with step.prems(2) [of n s'] step.hyps obtain t where "body n s' = Some t" "P (Suc n) t" by auto
  with s' step.hyps show ?case by (simp add: for_each_append)
qed

lemma for_down:
  assumes "a \<le> b" and "P b s"
    and "\<And>i s. a \<le> i \<Longrightarrow> i < b \<Longrightarrow> P (Suc i) s \<Longrightarrow> \<exists>s'. body i s = Some s' \<and> P i s'"
  shows "\<exists>s'. for_each body (rev [a..<b]) s = Some s' \<and> P a s'"
  using assms
proof (induction arbitrary: s rule: dec_induct)
  case base
  then show ?case by simp
next
  case (step n)
  from step.prems(2) [OF step.hyps(1) _ step.prems(1)]
  obtain t where t: "body n s = Some t" "P n t" by auto
  from step.IH [OF t(2)] step.prems(2) obtain s'
    where "for_each body (rev [a..<n]) t = Some s'" "P a s'" by (meson less_Suc_eq)
  with t step.hyps show ?case by simp
qed

section \<open>Arrays of words as numbers\<close>

text \<open>Least significant word first; \<open>W\<close> is the weight of position \<open>i\<close>.\<close>

definition W :: "nat \<Rightarrow> nat" where "W i = 2 ^ (32 * i)"

fun val :: "u32 list \<Rightarrow> nat" where
  "val [] = 0"
| "val (w # ws) = unat w + 2 ^ 32 * val ws"

declare val.simps(2) [simp del]

text \<open>A carry or borrow as a number.\<close>

definition flag :: "bool \<Rightarrow> nat" where "flag b = (if b then 1 else 0)"

lemma flag_simps [simp]: "flag True = 1" "flag False = 0"
  by (simp_all add: flag_def)

lemma W_0 [simp]: "W 0 = 1"
  by (simp add: W_def)

lemma W_1 [simp]: "W (Suc 0) = 2 ^ 32"
  by (simp add: W_def)

lemma W_Suc: "W (Suc i) = 2 ^ 32 * W i"
  by (simp add: W_def power_add)

lemma W_add: "W (i + j) = W i * W j"
  by (simp add: W_def power_add algebra_simps)

lemma W_pos [simp]: "0 < W i"
  by (simp add: W_def)

lemma W_not_0 [simp]: "W i \<noteq> 0"
  by (simp add: W_def)

lemma W_mono: "i \<le> j \<Longrightarrow> W i \<le> W j"
  by (simp add: W_def)

lemma val_append: "val (xs @ ys) = val xs + W (length xs) * val ys"
  by (induction xs) (simp_all add: val.simps(2) W_Suc algebra_simps)

lemma val_replicate_0 [simp]: "val (replicate n 0) = 0"
  by (induction n) (simp_all add: val.simps(2))

lemma val_bound: "val xs < W (length xs)"
proof (induction xs)
  case (Cons x xs)
  have "unat x + 2 ^ 32 * val xs < 2 ^ 32 + 2 ^ 32 * val xs"
    using unat_less_32 [of x] by simp
  also have "\<dots> = 2 ^ 32 * Suc (val xs)" by simp
  also have "\<dots> \<le> 2 ^ 32 * W (length xs)"
    using Cons by (intro mult_le_mono2) simp
  finally show ?case by (simp add: val.simps(2) W_Suc)
qed simp

lemma val_take_Suc:
  "i < length xs \<Longrightarrow> val (take (Suc i) xs) = val (take i xs) + W i * unat (xs ! i)"
  by (simp add: take_Suc_conv_app_nth val_append val.simps(2))

lemma val_take_bound: "i \<le> length xs \<Longrightarrow> val (take i xs) < W i"
  using val_bound [of "take i xs"] by simp

lemma val_split: "val xs = val (take i xs) + W (min (length xs) i) * val (drop i xs)"
  by (metis append_take_drop_id length_take val_append)

lemma val_drop_Suc:
  "i < length xs \<Longrightarrow> val (drop i xs) = unat (xs ! i) + 2 ^ 32 * val (drop (Suc i) xs)"
  by (simp add: Cons_nth_drop_Suc [symmetric] val.simps(2))

lemma take_update [simp]: "take i (xs[i := x]) = take i xs"
  by simp

lemma val_take_Suc_update:
  "i < length xs \<Longrightarrow> val (take (Suc i) (xs[i := x])) = val (take i xs) + W i * unat x"
  by (simp add: val_take_Suc)

end
