(* ===== verification/BigNum.thy ===== *)
theory BigNum
  imports HashStream Loops
begin

text \<open>
  Big numbers, \<^verbatim>\<open>support/bignum.c\<close>: the representation, the allocator, conversion from and
  to big-endian bytes, comparison, addition and subtraction.  A number is the C structure:
  a count of significant words, a sign and the allocated word array, least significant
  word first.  A pointer to a number is an option, \<^term>\<open>None\<close> for the null pointer; an
  operation threads the allocator and is \<^term>\<open>None\<close> as a whole when it would access memory
  outside an array, free what is not allocated, or run forever.
\<close>

section \<open>The allocator\<close>

text \<open>
  The outcome of the \<open>n\<close>-th call of \<^verbatim>\<open>ILMalloc\<close> is \<open>answers n\<close>, fresh memory holds the
  arbitrary word \<open>junk\<close>, and \<open>live\<close> counts the blocks that have not been freed.
\<close>

record mem =
  answers :: "nat \<Rightarrow> bool"
  calls :: nat
  live :: nat
  junk :: u32

record ILBigNum =
  num_size :: nat
  neg :: bool
  words :: "u32 list"

type_synonym num_result = "(ILBigNum option \<times> mem) option"

definition ILMalloc :: "nat \<Rightarrow> mem \<Rightarrow> u32 list option \<times> mem" where
  "ILMalloc n m =
     (if answers m (calls m)
      then (Some (replicate n (junk m)), m\<lparr>calls := Suc (calls m), live := Suc (live m)\<rparr>)
      else (None, m\<lparr>calls := Suc (calls m)\<rparr>))"

definition ILBigNumFree :: "ILBigNum option \<Rightarrow> mem \<Rightarrow> mem option" where
  "ILBigNumFree num m = (case num of None \<Rightarrow> Some m
     | Some _ \<Rightarrow> if live m = 0 then None else Some (m\<lparr>live := live m - 1\<rparr>))"

section \<open>Construction and conversion\<close>

text \<open>The loop of \<^verbatim>\<open>NormalizeBigNum\<close>: the size without the leading zero words.\<close>

fun trim :: "u32 list \<Rightarrow> nat \<Rightarrow> nat option" where
  "trim ws 0 = Some 0"
| "trim ws (Suc n) = do { w \<leftarrow> load ws n; if w = 0 then trim ws n else Some (Suc n) }"

definition NormalizeBigNum :: "ILBigNum \<Rightarrow> ILBigNum option" where
  "NormalizeBigNum num = do {
     n \<leftarrow> trim (words num) (num_size num);
     Some (num\<lparr>num_size := n, neg := (n \<noteq> 0 \<and> neg num)\<rparr>)
   }"

definition ILBigNumFromInt :: "u32 \<Rightarrow> mem \<Rightarrow> num_result" where
  "ILBigNumFromInt num m = (case ILMalloc 1 m of
     (None, m) \<Rightarrow> Some (None, m)
   | (Some ws, m) \<Rightarrow>
       if num \<noteq> 0 then do {
         ws \<leftarrow> store ws 0 num;
         Some (Some \<lparr>num_size = 1, neg = False, words = ws\<rparr>, m)
       }
       else Some (Some \<lparr>num_size = 0, neg = False, words = ws\<rparr>, m))"

text \<open>
  \<^verbatim>\<open>ILBigNumFromBytes\<close>: \<open>from_bytes_top\<close> is the switch over the bytes of an incomplete top
  word, which leaves the word count, the array and the advanced pointer; \<open>from_bytes_loop\<close>
  the loop over the complete words.
\<close>

definition from_bytes_top :: "bytes \<Rightarrow> nat \<Rightarrow> u32 list \<Rightarrow> (nat \<times> u32 list \<times> bytes) option" where
  "from_bytes_top bytes numBytes ws = (let n = numBytes div 4 in
     if numBytes mod 4 = 0 then Some (n, ws, bytes)
     else if numBytes mod 4 = 1 then do {
       b0 \<leftarrow> load bytes 0;
       ws \<leftarrow> store ws n (ucast b0);
       Some (n + 1, ws, drop 1 bytes)
     }
     else if numBytes mod 4 = 2 then do {
       b0 \<leftarrow> load bytes 0;
       b1 \<leftarrow> load bytes 1;
       ws \<leftarrow> store ws n (push_bit 8 (ucast b0) OR ucast b1);
       Some (n + 1, ws, drop 2 bytes)
     }
     else do {
       b0 \<leftarrow> load bytes 0;
       b1 \<leftarrow> load bytes 1;
       b2 \<leftarrow> load bytes 2;
       ws \<leftarrow> store ws n (push_bit 16 (ucast b0) OR push_bit 8 (ucast b1) OR ucast b2);
       Some (n + 1, ws, drop 3 bytes)
     })"

fun from_bytes_loop :: "nat \<Rightarrow> u32 list \<Rightarrow> bytes \<Rightarrow> u32 list option" where
  "from_bytes_loop 0 ws bytes = Some ws"
| "from_bytes_loop (Suc n) ws bytes = do {
     b0 \<leftarrow> load bytes 0;
     b1 \<leftarrow> load bytes 1;
     b2 \<leftarrow> load bytes 2;
     b3 \<leftarrow> load bytes 3;
     ws \<leftarrow> store ws n (push_bit 24 (ucast b0) OR push_bit 16 (ucast b1) OR
                        push_bit 8 (ucast b2) OR ucast b3);
     from_bytes_loop n ws (drop 4 bytes)
   }"

definition ILBigNumFromBytes :: "bytes \<Rightarrow> nat \<Rightarrow> mem \<Rightarrow> num_result" where
  "ILBigNumFromBytes bytes numBytes m =
     (if (numBytes + 3) div 4 = 0 then ILBigNumFromInt 0 m
      else (case ILMalloc ((numBytes + 3) div 4) m of
        (None, m) \<Rightarrow> Some (None, m)
      | (Some ws, m) \<Rightarrow> do {
          (n, ws, bytes) \<leftarrow> from_bytes_top bytes numBytes ws;
          ws \<leftarrow> from_bytes_loop (numBytes div 4) ws bytes;
          num \<leftarrow> NormalizeBigNum \<lparr>num_size = n, neg = False, words = ws\<rparr>;
          Some (Some num, m)
        }))"

definition ILBigNumByteCount :: "ILBigNum \<Rightarrow> nat option" where
  "ILBigNumByteCount num =
     (if num_size num > 0 then do {
        topw \<leftarrow> load (words num) (num_size num - 1);
        Some (num_size num * 4 -
          (if topw AND 0xFF000000 = 0
           then (if topw AND 0x00FF0000 \<noteq> 0 then 1 else if topw AND 0x0000FF00 \<noteq> 0 then 2 else 3)
           else 0))
      }
      else Some 1)"

text \<open>\<^verbatim>\<open>ILBigNumToBytes\<close>: the bytes in the order in which they are written.\<close>

definition to_bytes_top :: "u32 \<Rightarrow> bytes" where
  "to_bytes_top topw =
     (if topw AND 0x00FF0000 \<noteq> 0 then [ucast (drop_bit 16 topw), ucast (drop_bit 8 topw), ucast topw]
      else if topw AND 0x0000FF00 \<noteq> 0 then [ucast (drop_bit 8 topw), ucast topw]
      else [ucast topw])"

fun to_bytes_loop :: "u32 list \<Rightarrow> nat \<Rightarrow> bytes option" where
  "to_bytes_loop ws 0 = Some []"
| "to_bytes_loop ws (Suc n) = do {
     topw \<leftarrow> load ws n;
     rest \<leftarrow> to_bytes_loop ws n;
     Some ([ucast (drop_bit 24 topw), ucast (drop_bit 16 topw), ucast (drop_bit 8 topw), ucast topw] @ rest)
   }"

definition ILBigNumToBytes :: "ILBigNum \<Rightarrow> bytes \<Rightarrow> bytes option" where
  "ILBigNumToBytes num buf =
     (if num_size num = 0 then ILMemCpy buf 0 [0]
      else do {
        topw \<leftarrow> load (words num) (num_size num - 1);
        out \<leftarrow> (if topw AND 0xFF000000 = 0 then do {
                  rest \<leftarrow> to_bytes_loop (words num) (num_size num - 1);
                  Some (to_bytes_top topw @ rest)
                }
                else to_bytes_loop (words num) (num_size num));
        ILMemCpy buf 0 out
      })"

section \<open>Comparison\<close>

fun compare_loop :: "u32 list \<Rightarrow> u32 list \<Rightarrow> nat \<Rightarrow> int option" where
  "compare_loop x y 0 = Some 0"
| "compare_loop x y (Suc index) = do {
     a \<leftarrow> load x index;
     b \<leftarrow> load y index;
     if a < b then Some (-1) else if a > b then Some 1 else compare_loop x y index
   }"

definition ILBigNumCompareAbs :: "ILBigNum \<Rightarrow> ILBigNum \<Rightarrow> int option" where
  "ILBigNumCompareAbs numx numy =
     (if num_size numx < num_size numy then Some (-1)
      else if num_size numx > num_size numy then Some 1
      else if num_size numx = 0 then Some 0
      else compare_loop (words numx) (words numy) (num_size numx))"

definition ILBigNumCompare :: "ILBigNum \<Rightarrow> ILBigNum \<Rightarrow> int option" where
  "ILBigNumCompare numx numy =
     (if neg numx \<and> \<not> neg numy then Some (-1)
      else if \<not> neg numx \<and> neg numy then Some 1
      else if neg numx then map_option uminus (ILBigNumCompareAbs numx numy)
      else ILBigNumCompareAbs numx numy)"

definition ILBigNumIsZero :: "ILBigNum \<Rightarrow> bool" where
  "ILBigNumIsZero num = (num_size num = 0)"

definition ILBigNumCopy :: "ILBigNum \<Rightarrow> mem \<Rightarrow> num_result" where
  "ILBigNumCopy num m =
     (if num_size num = 0 then ILBigNumFromInt 0 m
      else (case ILMalloc (num_size num) m of
        (None, m) \<Rightarrow> Some (None, m)
      | (Some ws, m) \<Rightarrow>
          if length (words num) < num_size num then None
          else Some (Some \<lparr>num_size = num_size num, neg = neg num,
                           words = take (num_size num) (words num) @ drop (num_size num) ws\<rparr>, m)))"

section \<open>Addition and subtraction\<close>

text \<open>
  \<^verbatim>\<open>BigNumAdd\<close>: the number of words to allocate, then the three loops, over the common
  words, the rest of \<^verbatim>\<open>numx\<close> and the rest of \<^verbatim>\<open>numy\<close>, on the pair of carry and result array.
\<close>

definition add_size :: "ILBigNum \<Rightarrow> ILBigNum \<Rightarrow> nat option" where
  "add_size numx numy =
     (if num_size numx > num_size numy then do {
        w \<leftarrow> load (words numx) (num_size numx - 1);
        Some (if w = 0xFFFFFFFF then num_size numx + 1 else num_size numx)
      }
      else if num_size numy > num_size numx then do {
        w \<leftarrow> load (words numy) (num_size numy - 1);
        Some (if w = 0xFFFFFFFF then num_size numy + 1 else num_size numy)
      }
      else if num_size numx > 0 then do {
        v \<leftarrow> load (words numx) (num_size numx - 1);
        w \<leftarrow> load (words numy) (num_size numx - 1);
        Some (if (ucast v :: u64) + ucast w + 1 > 0xFFFFFFFF then num_size numx + 1 else num_size numx)
      }
      else Some 1)"

definition add_common :: "u32 list \<Rightarrow> u32 list \<Rightarrow> nat \<Rightarrow> bool \<times> u32 list \<Rightarrow> (bool \<times> u32 list) option" where
  "add_common x y i s = (case s of (carry, sm) \<Rightarrow> do {
     a \<leftarrow> load x i;
     b \<leftarrow> load y i;
     let w = (if carry then a + b + 1 else a + b);
     sm \<leftarrow> store sm i w;
     Some (if carry then \<not> (w > a) else w < a, sm)
   })"

definition add_rest :: "u32 list \<Rightarrow> nat \<Rightarrow> bool \<times> u32 list \<Rightarrow> (bool \<times> u32 list) option" where
  "add_rest x i s = (case s of (carry, sm) \<Rightarrow> do {
     a \<leftarrow> load x i;
     let w = (if carry then a + 1 else a);
     sm \<leftarrow> store sm i w;
     Some (carry \<and> \<not> (w \<noteq> 0), sm)
   })"

text \<open>
  The subtraction of the modulus inside \<^verbatim>\<open>BigNumAdd\<close>: one pass over the words of the
  modulus, one that propagates the borrow, and the loop around them.
\<close>

definition submod_word :: "u32 list \<Rightarrow> nat \<Rightarrow> bool \<times> u32 list \<Rightarrow> (bool \<times> u32 list) option" where
  "submod_word md i s = (case s of (carry, sm) \<Rightarrow> do {
     a \<leftarrow> load sm i;
     b \<leftarrow> load md i;
     let w = (if carry then a - (b + 1) else a - b);
     sm \<leftarrow> store sm i w;
     Some (if carry then \<not> (w < b) else w > b, sm)
   })"

fun submod_borrow :: "nat \<Rightarrow> nat \<Rightarrow> bool \<times> u32 list \<Rightarrow> u32 list option" where
  "submod_borrow i 0 (carry, sm) = Some sm"
| "submod_borrow i (Suc n) (carry, sm) =
     (if carry then do {
        a \<leftarrow> load sm i;
        sm \<leftarrow> store sm i (a - 1);
        submod_borrow (Suc i) n (\<not> (a - 1 \<noteq> 0xFFFFFFFF), sm)
      }
      else Some sm)"

partial_function (option) submod_loop :: "ILBigNum \<Rightarrow> ILBigNum \<Rightarrow> ILBigNum option" where
  "submod_loop sm modulus = do {
     c \<leftarrow> ILBigNumCompareAbs sm modulus;
     if c \<ge> 0 then do {
       (carry, ws) \<leftarrow> for_each (submod_word (words modulus)) [0..<num_size modulus] (False, words sm);
       ws \<leftarrow> submod_borrow (num_size modulus) (num_size sm - num_size modulus) (carry, ws);
       sm \<leftarrow> NormalizeBigNum (sm\<lparr>words := ws\<rparr>);
       submod_loop sm modulus
     }
     else Some sm
   }"

declare submod_loop.simps [code]

definition BigNumAdd :: "ILBigNum \<Rightarrow> ILBigNum \<Rightarrow> ILBigNum option \<Rightarrow> bool \<Rightarrow> mem \<Rightarrow> num_result" where
  "BigNumAdd numx numy modulus resultNeg m = do {
     n \<leftarrow> add_size numx numy;
     case ILMalloc n m of
       (None, m) \<Rightarrow> Some (None, m)
     | (Some ws, m) \<Rightarrow> do {
         let nx = num_size numx;
         let ny = num_size numy;
         s \<leftarrow> for_each (add_common (words numx) (words numy)) [0..<min nx ny] (False, ws);
         s \<leftarrow> for_each (add_rest (words numx)) [min nx ny..<nx] s;
         (carry, ws) \<leftarrow> for_each (add_rest (words numy)) [nx..<ny] s;
         ws \<leftarrow> (if carry then store ws (max nx ny) 1 else Some ws);
         sm \<leftarrow> NormalizeBigNum \<lparr>num_size = max nx ny + (if carry then 1 else 0), neg = resultNeg, words = ws\<rparr>;
         sm \<leftarrow> (case modulus of None \<Rightarrow> Some sm | Some md \<Rightarrow> submod_loop sm md);
         Some (Some sm, m)
       }
   }"

text \<open>\<^verbatim>\<open>BigNumSub\<close>: the two loops on the pair of borrow and result array.\<close>

definition sub_common :: "u32 list \<Rightarrow> u32 list \<Rightarrow> nat \<Rightarrow> bool \<times> u32 list \<Rightarrow> (bool \<times> u32 list) option" where
  "sub_common x y i s = (case s of (borrow, diff) \<Rightarrow> do {
     a \<leftarrow> load x i;
     b \<leftarrow> load y i;
     let w = (if borrow then a - b - 1 else a - b);
     diff \<leftarrow> store diff i w;
     Some (if borrow then \<not> (w < a) else w > a, diff)
   })"

definition sub_rest :: "u32 list \<Rightarrow> nat \<Rightarrow> bool \<times> u32 list \<Rightarrow> (bool \<times> u32 list) option" where
  "sub_rest x i s = (case s of (borrow, diff) \<Rightarrow> do {
     a \<leftarrow> load x i;
     let w = (if borrow then a - 1 else a);
     diff \<leftarrow> store diff i w;
     Some (borrow \<and> \<not> (w \<noteq> 0xFFFFFFFF), diff)
   })"

definition sub_diff :: "ILBigNum \<Rightarrow> ILBigNum \<Rightarrow> bool \<Rightarrow> mem \<Rightarrow> num_result" where
  "sub_diff numx numy resultNeg m =
     (if num_size numx = 0 then ILBigNumFromInt 0 m
      else (case ILMalloc (num_size numx) m of
        (None, m) \<Rightarrow> Some (None, m)
      | (Some ws, m) \<Rightarrow> do {
          let nx = num_size numx;
         let ny = num_size numy;
          s \<leftarrow> for_each (sub_common (words numx) (words numy)) [0..<ny] (False, ws);
          (borrow, ws) \<leftarrow> for_each (sub_rest (words numx)) [ny..<nx] s;
          diff \<leftarrow> NormalizeBigNum \<lparr>num_size = max nx ny, neg = resultNeg, words = ws\<rparr>;
          Some (Some diff, m)
        }))"

function BigNumSub :: "ILBigNum \<Rightarrow> ILBigNum \<Rightarrow> ILBigNum option \<Rightarrow> bool \<Rightarrow> mem \<Rightarrow> num_result" where
  "BigNumSub numx numy modulus resultNeg m = do {
     (diff, m) \<leftarrow> sub_diff numx numy resultNeg m;
     case (diff, modulus) of
       (Some d, Some md) \<Rightarrow>
         if neg d then do {
           (diffmod, m) \<leftarrow> BigNumSub md d None False m;
           m \<leftarrow> ILBigNumFree diff m;
           Some (diffmod, m)
         }
         else Some (diff, m)
     | _ \<Rightarrow> Some (diff, m)
   }"
  by pat_completeness auto
termination
  by (relation "measure (\<lambda>(numx, numy, modulus, resultNeg, m). case modulus of None \<Rightarrow> 0 | Some _ \<Rightarrow> 1)") auto

declare BigNumSub.simps [simp del]

definition ILBigNumAdd :: "ILBigNum \<Rightarrow> ILBigNum \<Rightarrow> ILBigNum option \<Rightarrow> mem \<Rightarrow> num_result" where
  "ILBigNumAdd numx numy modulus m =
     (if neg numx = neg numy then BigNumAdd numx numy modulus (neg numx) m
      else if neg numx then do {
        c \<leftarrow> ILBigNumCompareAbs numx numy;
        if c \<ge> 0 then BigNumSub numx numy modulus True m else BigNumSub numy numx modulus False m
      }
      else do {
        c \<leftarrow> ILBigNumCompareAbs numx numy;
        if c \<ge> 0 then BigNumSub numx numy modulus False m else BigNumSub numy numx modulus True m
      })"

definition ILBigNumSub :: "ILBigNum \<Rightarrow> ILBigNum \<Rightarrow> ILBigNum option \<Rightarrow> mem \<Rightarrow> num_result" where
  "ILBigNumSub numx numy modulus m =
     (if neg numx \<and> \<not> neg numy then BigNumAdd numx numy modulus True m
      else if \<not> neg numx \<and> neg numy then BigNumAdd numx numy modulus False m
      else if neg numx then do {
        c \<leftarrow> ILBigNumCompareAbs numx numy;
        if c \<ge> 0 then BigNumSub numx numy modulus True m else BigNumSub numy numx modulus False m
      }
      else do {
        c \<leftarrow> ILBigNumCompareAbs numx numy;
        if c \<ge> 0 then BigNumSub numx numy modulus False m else BigNumSub numy numx modulus True m
      })"

section \<open>What a number stands for\<close>

text \<open>
  The magnitude and the value of a number, the normal form that every operation returns,
  and the contract of an operation with a fresh result: it always comes back, leaves
  exactly one new block, the normalised result, and returns null, with nothing new
  allocated, only when \<^verbatim>\<open>ILMalloc\<close> failed.
\<close>

definition mag :: "ILBigNum \<Rightarrow> nat" where
  "mag n = val (take (num_size n) (words n))"

definition value_of :: "ILBigNum \<Rightarrow> int" where
  "value_of n = (if neg n then - int (mag n) else int (mag n))"

definition wf_num :: "ILBigNum \<Rightarrow> bool" where
  "wf_num n \<longleftrightarrow> num_size n \<le> length (words n) \<and>
     (0 < num_size n \<longrightarrow> words n ! (num_size n - 1) \<noteq> 0) \<and> (neg n \<longrightarrow> 0 < num_size n)"

definition later :: "mem \<Rightarrow> mem \<Rightarrow> bool" where
  "later m m' \<longleftrightarrow> answers m' = answers m \<and> junk m' = junk m \<and> calls m \<le> calls m'"

definition out_of_memory :: "mem \<Rightarrow> mem \<Rightarrow> bool" where
  "out_of_memory m m' \<longleftrightarrow> (\<exists>i\<ge>calls m. i < calls m' \<and> \<not> answers m i)"

definition delivers :: "mem \<Rightarrow> num_result \<Rightarrow> (ILBigNum \<Rightarrow> bool) \<Rightarrow> bool" where
  "delivers m r P \<longleftrightarrow> (\<exists>z m'. r = Some (z, m') \<and> later m m' \<and>
     (case z of None \<Rightarrow> out_of_memory m m' \<and> live m' = live m
              | Some n \<Rightarrow> wf_num n \<and> P n \<and> live m' = Suc (live m)))"

section \<open>Normal forms and comparison\<close>

lemma trim_correct:
  "n \<le> length ws \<Longrightarrow> \<exists>k\<le>n. trim ws n = Some k \<and> val (take k ws) = val (take n ws) \<and>
     (0 < k \<longrightarrow> ws ! (k - 1) \<noteq> 0)"
proof (induction n)
  case (Suc n)
  then obtain k where k: "k \<le> n" "trim ws n = Some k" "val (take k ws) = val (take n ws)"
    "0 < k \<longrightarrow> ws ! (k - 1) \<noteq> 0" by auto
  show ?case
  proof (cases "ws ! n = 0")
    case True
    with Suc.prems k show ?thesis by (intro exI [of _ k]) (simp add: array_simps val_take_Suc)
  next
    case False
    with Suc.prems show ?thesis by (intro exI [of _ "Suc n"]) (simp add: array_simps)
  qed
qed simp

lemma mag_bound: "num_size n \<le> length (words n) \<Longrightarrow> mag n < W (num_size n)"
  by (simp add: mag_def val_take_bound)

lemma mag_lower:
  assumes "wf_num n" and "0 < num_size n"
  shows "W (num_size n - 1) \<le> mag n"
proof -
  from assms have "mag n = val (take (num_size n - 1) (words n)) +
      W (num_size n - 1) * unat (words n ! (num_size n - 1))"
    using val_take_Suc [of "num_size n - 1" "words n"] by (auto simp: mag_def wf_num_def)
  moreover from assms have "unat (words n ! (num_size n - 1)) \<noteq> 0"
    by (simp add: wf_num_def unat_eq_0)
  ultimately show ?thesis by (simp add: trans_le_add2)
qed

lemma mag_eq_0_iff: "wf_num n \<Longrightarrow> mag n = 0 \<longleftrightarrow> num_size n = 0"
  using mag_lower [of n] W_pos [of "num_size n - 1"]
  by (metis bot_nat_0.not_eq_extremum leD mag_def take_0 val.simps(1))

lemma normalize_correct:
  assumes "num_size num \<le> length (words num)"
  shows "\<exists>n. NormalizeBigNum num = Some n \<and> wf_num n \<and> mag n = val (take (num_size num) (words num)) \<and>
    words n = words num \<and> num_size n \<le> num_size num \<and> (neg n \<longleftrightarrow> neg num \<and> mag n \<noteq> 0)"
proof -
  from trim_correct [OF assms] obtain k where k: "k \<le> num_size num" "trim (words num) (num_size num) = Some k"
    "val (take k (words num)) = val (take (num_size num) (words num))" "0 < k \<longrightarrow> words num ! (k - 1) \<noteq> 0" by auto
  let ?n = "num\<lparr>num_size := k, neg := (k \<noteq> 0 \<and> neg num)\<rparr>"
  from k assms have wf: "wf_num ?n" by (auto simp: wf_num_def)
  from mag_eq_0_iff [OF wf] have "k \<noteq> 0 \<longleftrightarrow> mag ?n \<noteq> 0" by simp
  with k wf show ?thesis
    by (intro exI [of _ ?n]) (auto simp: NormalizeBigNum_def mag_def)
qed

lemma sgn_diff: "sgn (int a - int b) = (if a < b then -1 else if b < a then 1 else 0)"
  by simp

lemma compare_loop_correct:
  "n \<le> length x \<Longrightarrow> n \<le> length y \<Longrightarrow>
     compare_loop x y n = Some (sgn (int (val (take n x)) - int (val (take n y))))"
proof (induction n)
  case (Suc n)
  have bx: "val (take n x) < W n" and by': "val (take n y) < W n"
    using Suc.prems val_take_bound [of n x] val_take_bound [of n y] by simp_all
  have lt: "p + W n * unat v < q + W n * unat w" if "v < w" "p < W n" for p q and v w :: u32
  proof -
    from that have "Suc (unat v) \<le> unat w" by (simp add: word_less_nat_alt Suc_le_eq)
    then have "W n * Suc (unat v) \<le> W n * unat w" by (rule mult_le_mono2)
    with that show ?thesis by simp
  qed
  consider "x ! n < y ! n" | "y ! n < x ! n" | "x ! n = y ! n" by (meson linorder_neqE)
  then show ?case
  proof cases
    case 1
    with lt [OF 1 bx, of "val (take n y)"] Suc.prems show ?thesis
      by (simp add: array_simps val_take_Suc sgn_diff del: of_nat_add of_nat_mult)
  next
    case 2
    with lt [OF 2 by', of "val (take n x)"] Suc.prems show ?thesis
      by (simp add: array_simps val_take_Suc sgn_diff del: of_nat_add of_nat_mult)
  next
    case 3
    with Suc show ?thesis by (simp add: array_simps val_take_Suc)
  qed
qed simp

lemma compare_abs_correct:
  assumes "wf_num x" and "wf_num y"
  shows "ILBigNumCompareAbs x y = Some (sgn (int (mag x) - int (mag y)))"
proof -
  have lt: "mag a < mag b" if "wf_num a" "wf_num b" "num_size a < num_size b" for a b
  proof -
    from that have "mag a < W (num_size a)" by (intro mag_bound) (simp add: wf_num_def)
    also have "\<dots> \<le> W (num_size b - 1)" using that by (intro W_mono) auto
    also have "\<dots> \<le> mag b" using that by (intro mag_lower) auto
    finally show ?thesis .
  qed
  show ?thesis
    using assms lt [of x y] lt [of y x] compare_loop_correct [of "num_size x" "words x" "words y"]
    by (auto simp: ILBigNumCompareAbs_def wf_num_def mag_def)
qed

lemma compare_correct:
  assumes "wf_num x" and "wf_num y"
  shows "ILBigNumCompare x y = Some (sgn (value_of x - value_of y))"
proof -
  have "0 < mag z" if "wf_num z" "neg z" for z
    using that mag_eq_0_iff [of z] by (auto simp: wf_num_def)
  from this [of x] this [of y] show ?thesis
    using assms compare_abs_correct [OF assms]
    by (auto simp: ILBigNumCompare_def value_of_def sgn_if)
qed

section \<open>Allocation\<close>

lemma later_refl [simp]: "later m m"
  by (simp add: later_def)

lemma later_trans: "later a b \<Longrightarrow> later b c \<Longrightarrow> later a c"
  by (auto simp: later_def)

lemma out_of_memory_mono:
  "later a b \<Longrightarrow> out_of_memory b c \<Longrightarrow> out_of_memory a c"
  "later b c \<Longrightarrow> out_of_memory a b \<Longrightarrow> out_of_memory a c"
  unfolding later_def out_of_memory_def by (metis le_trans, metis order_less_le_trans)

lemma delivers_cases:
  assumes "delivers m r P"
  obtains (null) m' where "r = Some (None, m')" "later m m'" "out_of_memory m m'" "live m' = live m"
    | (num) n m' where "r = Some (Some n, m')" "later m m'" "wf_num n" "P n" "live m' = Suc (live m)"
  using assms by (auto simp: delivers_def split: option.splits)

lemma delivers_mono: "delivers m r P \<Longrightarrow> (\<And>n. wf_num n \<Longrightarrow> P n \<Longrightarrow> Q n) \<Longrightarrow> delivers m r Q"
  by (fastforce simp: delivers_def split: option.splits)

lemma delivers_null: "later m m' \<Longrightarrow> out_of_memory m m' \<Longrightarrow> live m' = live m \<Longrightarrow> delivers m (Some (None, m')) P"
  by (simp add: delivers_def)

lemma delivers_num: "later m m' \<Longrightarrow> wf_num n \<Longrightarrow> P n \<Longrightarrow> live m' = Suc (live m) \<Longrightarrow> delivers m (Some (Some n, m')) P"
  by (simp add: delivers_def)

text \<open>Sequencing: what follows an operation sees a null pointer or a fresh number.\<close>

lemma delivers_bind:
  assumes "delivers m r P"
    and "\<And>m'. later m m' \<Longrightarrow> out_of_memory m m' \<Longrightarrow> live m' = live m \<Longrightarrow> delivers m (f (None, m')) Q"
    and "\<And>n m'. later m m' \<Longrightarrow> wf_num n \<Longrightarrow> P n \<Longrightarrow> live m' = Suc (live m) \<Longrightarrow> delivers m (f (Some n, m')) Q"
  shows "delivers m (Option.bind r f) Q"
  using assms(1) by (cases rule: delivers_cases) (use assms(2,3) in auto)

text \<open>An operation that starts with \<^verbatim>\<open>ILMalloc\<close> only has to be looked at with fresh memory.\<close>

lemma delivers_malloc:
  assumes "\<And>m'. later m m' \<Longrightarrow> live m' = Suc (live m) \<Longrightarrow>
      \<exists>z. f (replicate n (junk m)) m' = Some (Some z, m') \<and> wf_num z \<and> P z"
  shows "delivers m (case ILMalloc n m of (None, m) \<Rightarrow> Some (None, m) | (Some ws, m) \<Rightarrow> f ws m) P"
proof (cases "answers m (calls m)")
  case True
  let ?m = "m\<lparr>calls := Suc (calls m), live := Suc (live m)\<rparr>"
  from assms [of ?m] show ?thesis
    using True by (auto simp: ILMalloc_def later_def delivers_def)
next
  case False
  then show ?thesis
    by (auto simp: ILMalloc_def delivers_def later_def out_of_memory_def)
qed

lemma value_of_0 [simp]: "num_size n = 0 \<Longrightarrow> value_of n = 0"
  by (simp add: value_of_def mag_def)

lemma from_int_correct: "delivers m (ILBigNumFromInt w m) (\<lambda>n. value_of n = int (unat w) \<and> \<not> neg n)"
  unfolding ILBigNumFromInt_def
  by (rule delivers_malloc) (auto simp: array_simps wf_num_def value_of_def mag_def val.simps(2))

lemma copy_correct:
  assumes "wf_num num"
  shows "delivers m (ILBigNumCopy num m) (\<lambda>n. value_of n = value_of num \<and> neg n = neg num)"
proof (cases "num_size num = 0")
  case True
  with assms have "\<not> neg num" by (auto simp: wf_num_def)
  with True show ?thesis
    by (auto simp: ILBigNumCopy_def intro: delivers_mono [OF from_int_correct])
next
  case False
  have "delivers m (ILBigNumCopy num m) (\<lambda>n. value_of n = value_of num \<and> neg n = neg num)" if "num_size num \<noteq> 0"
    unfolding ILBigNumCopy_def if_not_P [OF that]
    by (rule delivers_malloc) (use assms that in \<open>auto simp: wf_num_def value_of_def mag_def nth_append\<close>)
  with False show ?thesis by blast
qed

lemma free_block: "live m = Suc k \<Longrightarrow> ILBigNumFree (Some n) m = Some (m\<lparr>live := k\<rparr>)"
  by (simp add: ILBigNumFree_def)

lemma free_null [simp]: "ILBigNumFree None m = Some m"
  by (simp add: ILBigNumFree_def)

section \<open>Addition\<close>

lemma carry_word:
  fixes a b :: u32
  shows "unat (if c then a + b + 1 else a + b) +
      2 ^ 32 * flag (if c then \<not> (a + b + 1 > a) else a + b < a) = unat a + unat b + flag c"
  using unat_less_32 [of a] unat_less_32 [of b]
  by (auto simp: flag_def word_less_nat_alt unat_word_ariths not_less mod_if split: if_splits)

lemma carry_step:
  assumes "i < length s" "val (take i s) + W i * flag c = p + q"
    and "unat w + 2 ^ 32 * flag c' = a + b + flag c"
  shows "val (take (Suc i) (s[i := w])) + W (Suc i) * flag c' = (p + W i * a) + (q + W i * b)"
proof -
  have "val (take (Suc i) (s[i := w])) + W (Suc i) * flag c' = val (take i s) + W i * (unat w + 2 ^ 32 * flag c')"
    using assms(1) by (simp add: val_take_Suc_update W_Suc algebra_simps)
  also have "\<dots> = (val (take i s) + W i * flag c) + W i * (a + b)"
    by (simp only: assms(3)) (simp add: algebra_simps)
  finally show ?thesis by (simp only: assms(2)) (simp add: algebra_simps)
qed

lemma add_common_loop:
  assumes "n \<le> length x" "n \<le> length y" "n \<le> length s"
  shows "\<exists>c s'. for_each (add_common x y) [0..<n] (False, s) = Some (c, s') \<and> length s' = length s \<and>
    val (take n s') + W n * flag c = val (take n x) + val (take n y)"
proof -
  let ?P = "\<lambda>i (c, s'). length s' = length s \<and>
    val (take i s') + W i * flag c = val (take i x) + val (take i y)"
  have "\<exists>r. for_each (add_common x y) [0..<n] (False, s) = Some r \<and> ?P n r"
  proof (rule for_up)
    fix i r
    assume i: "i < n" and "?P i r"
    then obtain c s' where r: "r = (c, s')" and l: "length s' = length s"
      and inv: "val (take i s') + W i * flag c = val (take i x) + val (take i y)" by (cases r) auto
    from i l assms have "i < length s'" by simp
    from carry_step [OF this inv carry_word [of c "x ! i" "y ! i"]]
    show "\<exists>r'. add_common x y i r = Some r' \<and> ?P (Suc i) r'"
      using i l assms by (cases c) (simp_all add: r add_common_def array_simps val_take_Suc Let_def)
  qed auto
  then show ?thesis by auto
qed

lemma carry_word_rest:
  fixes a :: u32
  shows "unat (if c then a + 1 else a) + 2 ^ 32 * flag (c \<and> \<not> ((if c then a + 1 else a) \<noteq> 0)) = unat a + 0 + flag c"
  using unat_less_32 [of a]
  by (auto simp: flag_def unat_word_ariths mod_if unat_eq_0 [symmetric] split: if_splits)

lemma add_rest_loop:
  assumes "k \<le> n" "n \<le> length x" "n \<le> length s"
    and "val (take k s) + W k * flag c = val (take k x) + q"
  shows "\<exists>c' s'. for_each (add_rest x) [k..<n] (c, s) = Some (c', s') \<and> length s' = length s \<and>
    val (take n s') + W n * flag c' = val (take n x) + q"
proof -
  let ?P = "\<lambda>i (c, s'). length s' = length s \<and> val (take i s') + W i * flag c = val (take i x) + q"
  have "\<exists>r. for_each (add_rest x) [k..<n] (c, s) = Some r \<and> ?P n r"
  proof (rule for_up)
    fix i r
    assume i: "k \<le> i" "i < n" and "?P i r"
    then obtain c s' where r: "r = (c, s')" and l: "length s' = length s"
      and inv: "val (take i s') + W i * flag c = val (take i x) + q" by (cases r) auto
    from i l assms have "i < length s'" by simp
    from carry_step [OF this inv carry_word_rest [of c "x ! i"]]
    show "\<exists>r'. add_rest x i r = Some r' \<and> ?P (Suc i) r'"
      using i l assms by (simp add: r add_rest_def array_simps val_take_Suc Let_def)
  qed (use assms in auto)
  then show ?thesis by auto
qed

text \<open>The allocated array has room for the carry out of the top word.\<close>

lemma add_size_correct:
  assumes "wf_num x" "wf_num y"
  shows "\<exists>n. add_size x y = Some n \<and> max (num_size x) (num_size y) \<le> n \<and>
    (W (max (num_size x) (num_size y)) \<le> mag x + mag y \<longrightarrow> max (num_size x) (num_size y) < n)"
proof -
  have split: "mag z = val (take (num_size z - 1) (words z)) + W (num_size z - 1) * unat (words z ! (num_size z - 1))"
    "val (take (num_size z - 1) (words z)) < W (num_size z - 1)"
    "num_size z - 1 < length (words z)" "W (num_size z) = 2 ^ 32 * W (num_size z - 1)"
    if "wf_num z" "0 < num_size z" for z
    using that val_take_Suc [of "num_size z - 1" "words z"] val_take_bound [of "num_size z - 1" "words z"]
      W_Suc [of "num_size z - 1"]
    by (auto simp: mag_def wf_num_def)
  have room: "words z ! (num_size z - 1) = 0xFFFFFFFF"
    if "wf_num z" "num_size z' < num_size z" "wf_num z'" "W (num_size z) \<le> mag z + mag z'" for z z'
  proof -
    let ?k = "num_size z - 1" and ?t = "words z ! (num_size z - 1)"
    from that have "mag z' < W (num_size z')" by (intro mag_bound) (simp add: wf_num_def)
    also have "\<dots> \<le> W ?k" using that by (intro W_mono) simp
    finally have "mag z' < W ?k" .
    with that split [of z] have "2 ^ 32 * W ?k < W ?k * unat ?t + 2 * W ?k" by linarith
    then have "W ?k * 2 ^ 32 < W ?k * (unat ?t + 2)" by (simp add: algebra_simps)
    then have "2 ^ 32 < unat ?t + 2" by (metis nat_mult_less_cancel_disj)
    with unat_less_32 [of ?t] have "unat ?t = unat (0xFFFFFFFF :: u32)" by simp
    then show ?thesis by (simp only: word_unat_eq_iff)
  qed
  consider "num_size y < num_size x" | "num_size x < num_size y" | "num_size x = num_size y" by linarith
  then show ?thesis
  proof cases
    case 1
    with assms split [of x] room [of x y] show ?thesis
      by (auto simp: add_size_def array_simps)
  next
    case 2
    with assms split [of y] room [of y x] show ?thesis
      by (auto simp: add_size_def array_simps add.commute)
  next
    case 3
    show ?thesis
    proof (cases "num_size x = 0")
      case True
      with 3 show ?thesis by (simp add: add_size_def)
    next
      case False
      let ?k = "num_size x - 1"
      let ?v = "words x ! ?k" and ?w = "words y ! ?k"
      have big: "(0xFFFFFFFF :: u64) < ucast ?v + ucast ?w + 1" if "W (num_size x) \<le> mag x + mag y"
      proof -
        from that split [of x] split [of y] assms False 3
        have "2 ^ 32 * W ?k < W ?k * unat ?v + W ?k * unat ?w + 2 * W ?k" by simp
        then have "W ?k * 2 ^ 32 < W ?k * (unat ?v + unat ?w + 2)" by (simp add: algebra_simps)
        then have "2 ^ 32 < unat ?v + unat ?w + 2" by (metis nat_mult_less_cancel_disj)
        with unat_less_32 [of ?v] unat_less_32 [of ?w] show ?thesis
          by (simp add: word_less_nat_alt unat_word_ariths)
      qed
      with False 3 split [of x] split [of y] assms show ?thesis
        by (auto simp: add_size_def array_simps)
    qed
  qed
qed

lemma BigNumAdd_sum:
  assumes "wf_num x" "wf_num y"
    and "max (num_size x) (num_size y) \<le> length s"
    and "W (max (num_size x) (num_size y)) \<le> mag x + mag y \<longrightarrow> max (num_size x) (num_size y) < length s"
  shows "\<exists>r1 r2 c s'.
    for_each (add_common (words x) (words y)) [0..<min (num_size x) (num_size y)] (False, s) = Some r1 \<and>
    for_each (add_rest (words x)) [min (num_size x) (num_size y)..<num_size x] r1 = Some r2 \<and>
    for_each (add_rest (words y)) [num_size x..<num_size y] r2 = Some (c, s') \<and>
    length s' = length s \<and> (c \<longrightarrow> max (num_size x) (num_size y) < length s) \<and>
    val (take (max (num_size x) (num_size y)) s') + W (max (num_size x) (num_size y)) * flag c = mag x + mag y"
proof -
  let ?nx = "num_size x" and ?ny = "num_size y"
  have l: "?nx \<le> length (words x)" "?ny \<le> length (words y)" using assms by (auto simp: wf_num_def)
  then have k: "min ?nx ?ny \<le> length (words x)" "min ?nx ?ny \<le> length (words y)" "min ?nx ?ny \<le> length s"
    "?nx \<le> length s" "?ny \<le> length s" using assms(3) by linarith+
  obtain c1 s1 where r1: "for_each (add_common (words x) (words y)) [0..<min ?nx ?ny] (False, s) = Some (c1, s1)"
    "length s1 = length s"
    "val (take (min ?nx ?ny) s1) + W (min ?nx ?ny) * flag c1 = val (take (min ?nx ?ny) (words x)) + val (take (min ?nx ?ny) (words y))"
    using add_common_loop [OF k(1-3)] by blast
  obtain c2 s2 where r2: "for_each (add_rest (words x)) [min ?nx ?ny..<?nx] (c1, s1) = Some (c2, s2)"
    "length s2 = length s"
    "val (take ?nx s2) + W ?nx * flag c2 = val (take ?nx (words x)) + val (take (min ?nx ?ny) (words y))"
    using add_rest_loop [OF min.cobounded1 l(1) _ r1(3)] r1(2) k(4) by auto
  have "\<exists>c s'. for_each (add_rest (words y)) [?nx..<?ny] (c2, s2) = Some (c, s') \<and> length s' = length s \<and>
      val (take (max ?nx ?ny) s') + W (max ?nx ?ny) * flag c = mag x + mag y"
  proof (cases "?nx \<le> ?ny")
    case True
    with add_rest_loop [of ?nx ?ny "words y" s2 c2 "mag x"] r2 l k show ?thesis
      by (auto simp: mag_def add.commute max_def min_def)
  next
    case False
    with r2 show ?thesis by (simp add: mag_def max_def min_def)
  qed
  then obtain c s' where r3: "for_each (add_rest (words y)) [?nx..<?ny] (c2, s2) = Some (c, s')" "length s' = length s"
      "val (take (max ?nx ?ny) s') + W (max ?nx ?ny) * flag c = mag x + mag y" by auto
  moreover have "W (max ?nx ?ny) \<le> mag x + mag y" if c using r3(3) that by simp
  ultimately show ?thesis using r1 r2 assms(4) by auto
qed

lemma BigNumAdd_sum_word:
  assumes "n \<le> length s" "c \<longrightarrow> n < length s"
  shows "\<exists>s'. (if c then store s n 1 else Some s) = Some s' \<and> n + (if c then 1 else 0) \<le> length s' \<and>
    val (take (n + (if c then 1 else 0)) s') = val (take n s) + W n * flag c"
  using assms by (auto simp: array_simps val_take_Suc_update)

lemma BigNumAdd_magnitude:
  assumes "wf_num x" "wf_num y"
  shows "delivers m (BigNumAdd x y None r m) (\<lambda>n. mag n = mag x + mag y \<and> (neg n \<longleftrightarrow> r \<and> mag n \<noteq> 0))"
proof -
  from add_size_correct [OF assms] obtain k where k: "add_size x y = Some k"
    "max (num_size x) (num_size y) \<le> length (replicate k (junk m))"
    "W (max (num_size x) (num_size y)) \<le> mag x + mag y \<longrightarrow>
       max (num_size x) (num_size y) < length (replicate k (junk m))" by auto
  from BigNumAdd_sum [OF assms k(2,3)] obtain r1 r2 c s' where s:
    "for_each (add_common (words x) (words y)) [0..<min (num_size x) (num_size y)] (False, replicate k (junk m)) = Some r1"
    "for_each (add_rest (words x)) [min (num_size x) (num_size y)..<num_size x] r1 = Some r2"
    "for_each (add_rest (words y)) [num_size x..<num_size y] r2 = Some (c, s')"
    "length s' = k" "c \<longrightarrow> max (num_size x) (num_size y) < k"
    "val (take (max (num_size x) (num_size y)) s') + W (max (num_size x) (num_size y)) * flag c = mag x + mag y"
    by auto
  from BigNumAdd_sum_word [of "max (num_size x) (num_size y)" s' c] s k obtain s2 where s2:
    "(if c then store s' (max (num_size x) (num_size y)) 1 else Some s') = Some s2"
    "max (num_size x) (num_size y) + (if c then 1 else 0) \<le> length s2"
    "val (take (max (num_size x) (num_size y) + (if c then 1 else 0)) s2) = mag x + mag y"
    by auto
  let ?s = "\<lparr>num_size = max (num_size x) (num_size y) + (if c then 1 else 0), neg = r, words = s2\<rparr>"
  have "num_size ?s \<le> length (words ?s)" using s2(2) by simp
  from normalize_correct [OF this] obtain n where n: "NormalizeBigNum ?s = Some n" "wf_num n"
    "mag n = val (take (num_size ?s) (words ?s))" "neg n \<longleftrightarrow> neg ?s \<and> mag n \<noteq> 0" by blast
  show ?thesis
    unfolding BigNumAdd_def k(1) Option.bind.simps
    by (rule delivers_malloc) (use s s2 n in \<open>simp add: Let_def\<close>)
qed

section \<open>Subtraction\<close>

lemma borrow_word:
  fixes a b :: u32
  shows "unat (if c then a - b - 1 else a - b) + unat b + flag c =
      unat a + 2 ^ 32 * flag (if c then \<not> (a - b - 1 < a) else a - b > a)"
  using unat_less_32 [of a] unat_less_32 [of b] unat_sub_if' [of a b] unat_sub_if' [of "a - b" 1]
  by (auto simp: flag_def word_less_nat_alt word_le_nat_alt not_less split: if_splits)

lemma borrow_step:
  assumes "i < length s" "val (take i s) + q = p + W i * flag c"
    and "unat w + b + flag c = a + 2 ^ 32 * flag c'"
  shows "val (take (Suc i) (s[i := w])) + (q + W i * b) = (p + W i * a) + W (Suc i) * flag c'"
proof -
  have "val (take (Suc i) (s[i := w])) + (q + W i * b) + W i * flag c =
      (val (take i s) + q) + W i * (unat w + b + flag c)"
    using assms(1) by (simp add: val_take_Suc_update algebra_simps)
  also have "\<dots> = (p + W i * flag c) + W i * (a + 2 ^ 32 * flag c')"
    by (simp only: assms(2,3))
  also have "\<dots> = (p + W i * a) + W (Suc i) * flag c' + W i * flag c"
    by (simp add: W_Suc algebra_simps)
  finally show ?thesis by (simp only: add_right_cancel)
qed

lemma sub_common_loop:
  assumes "n \<le> length x" "n \<le> length y" "n \<le> length s"
  shows "\<exists>c s'. for_each (sub_common x y) [0..<n] (False, s) = Some (c, s') \<and> length s' = length s \<and>
    val (take n s') + val (take n y) = val (take n x) + W n * flag c"
proof -
  let ?P = "\<lambda>i (c, s'). length s' = length s \<and>
    val (take i s') + val (take i y) = val (take i x) + W i * flag c"
  have "\<exists>r. for_each (sub_common x y) [0..<n] (False, s) = Some r \<and> ?P n r"
  proof (rule for_up)
    fix i r
    assume i: "i < n" and "?P i r"
    then obtain c s' where r: "r = (c, s')" and l: "length s' = length s"
      and inv: "val (take i s') + val (take i y) = val (take i x) + W i * flag c" by (cases r) auto
    from i l assms have "i < length s'" by simp
    from borrow_step [OF this inv borrow_word [of c "x ! i" "y ! i"]]
    show "\<exists>r'. sub_common x y i r = Some r' \<and> ?P (Suc i) r'"
      using i l assms by (cases c) (simp_all add: r sub_common_def array_simps val_take_Suc Let_def)
  qed auto
  then show ?thesis by auto
qed

lemma borrow_word_rest:
  fixes a :: u32
  shows "unat (if c then a - 1 else a) + 0 + flag c =
      unat a + 2 ^ 32 * flag (c \<and> \<not> ((if c then a - 1 else a) \<noteq> 0xFFFFFFFF))"
proof -
  have "(0xFFFFFFFF :: u32) = - 1" by simp
  then have top: "a - 1 = 0xFFFFFFFF \<longleftrightarrow> a = 0" by (simp only: diff_eq_eq) simp
  have "unat (a - 1) + 1 = unat a" if "a \<noteq> 0"
    using that by (simp add: unat_minus_one unat_gt_0 Suc_le_eq)
  moreover have "unat (- 1 :: u32) = 4294967295" by (simp add: unat_eq_nat_uint uint_word_ariths)
  ultimately show ?thesis by (cases "a = 0") (auto simp: flag_def top)
qed

lemma sub_rest_loop:
  assumes "k \<le> n" "n \<le> length x" "n \<le> length s"
    and "val (take k s) + q = val (take k x) + W k * flag c"
  shows "\<exists>c' s'. for_each (sub_rest x) [k..<n] (c, s) = Some (c', s') \<and> length s' = length s \<and>
    val (take n s') + q = val (take n x) + W n * flag c'"
proof -
  let ?P = "\<lambda>i (c, s'). length s' = length s \<and> val (take i s') + q = val (take i x) + W i * flag c"
  have "\<exists>r. for_each (sub_rest x) [k..<n] (c, s) = Some r \<and> ?P n r"
  proof (rule for_up)
    fix i r
    assume i: "k \<le> i" "i < n" and "?P i r"
    then obtain c s' where r: "r = (c, s')" and l: "length s' = length s"
      and inv: "val (take i s') + q = val (take i x) + W i * flag c" by (cases r) auto
    from i l assms have "i < length s'" by simp
    from borrow_step [OF this inv borrow_word_rest [of c "x ! i"]]
    show "\<exists>r'. sub_rest x i r = Some r' \<and> ?P (Suc i) r'"
      using i l assms by (cases c) (simp_all add: r sub_rest_def array_simps val_take_Suc Let_def)
  qed (use assms in auto)
  then show ?thesis by auto
qed

lemma mag_le_size:
  assumes "wf_num x" "wf_num y" "mag y \<le> mag x"
  shows "num_size y \<le> num_size x"
proof (rule ccontr)
  assume "\<not> ?thesis"
  then have "W (num_size x) \<le> W (num_size y - 1)" "W (num_size y - 1) \<le> mag y"
    using assms mag_lower [of y] by (auto intro: W_mono)
  moreover have "mag x < W (num_size x)" using assms by (intro mag_bound) (simp add: wf_num_def)
  ultimately show False using assms(3) by linarith
qed

lemma sub_diff_magnitude:
  assumes "wf_num x" "wf_num y" "mag y \<le> mag x"
  shows "delivers m (sub_diff x y r m) (\<lambda>n. mag n = mag x - mag y \<and> (neg n \<longleftrightarrow> r \<and> mag n \<noteq> 0))"
proof (cases "num_size x = 0")
  case True
  with assms(1,3) have "mag x = 0" "mag y = 0" using mag_eq_0_iff [of x] by auto
  with True show ?thesis
    by (auto simp: sub_diff_def value_of_def intro!: delivers_mono [OF from_int_correct])
next
  case False
  let ?nx = "num_size x" and ?ny = "num_size y" and ?s = "replicate (num_size x) (junk m)"
  have l: "?ny \<le> ?nx" "?nx \<le> length (words x)" "?ny \<le> length (words y)"
    using assms mag_le_size by (auto simp: wf_num_def)
  then obtain c1 s1 where r1: "for_each (sub_common (words x) (words y)) [0..<?ny] (False, ?s) = Some (c1, s1)"
    "length s1 = ?nx" "val (take ?ny s1) + mag y = val (take ?ny (words x)) + W ?ny * flag c1"
    using sub_common_loop [of ?ny "words x" "words y" ?s] by (auto simp: mag_def)
  obtain c s' where r2: "for_each (sub_rest (words x)) [?ny..<?nx] (c1, s1) = Some (c, s')"
    "length s' = ?nx" "val (take ?nx s') + mag y = mag x + W ?nx * flag c"
    using sub_rest_loop [OF l(1,2) _ r1(3)] r1(2) by (auto simp: mag_def)
  have "val (take ?nx s') < W ?nx" using r2(2) val_take_bound [of ?nx s'] by simp
  with r2(3) assms(3) have c: "\<not> c" by (cases c) auto
  let ?d = "\<lparr>num_size = max ?nx ?ny, neg = r, words = s'\<rparr>"
  have "num_size ?d \<le> length (words ?d)" using r2(2) l by simp
  from normalize_correct [OF this] obtain n where n: "NormalizeBigNum ?d = Some n" "wf_num n"
    "mag n = val (take (num_size ?d) (words ?d))" "neg n \<longleftrightarrow> neg ?d \<and> mag n \<noteq> 0" by blast
  have "val (take (max ?nx ?ny) s') = mag x - mag y" using r2(3) c l by (simp add: max_absorb1)
  then show ?thesis
    unfolding sub_diff_def if_not_P [OF False]
    by (intro delivers_malloc) (use r1 r2 n in \<open>simp add: Let_def not_le\<close>)
qed

lemma BigNumSub_magnitude:
  assumes "wf_num x" "wf_num y" "mag y \<le> mag x"
  shows "delivers m (BigNumSub x y None r m) (\<lambda>n. mag n = mag x - mag y \<and> (neg n \<longleftrightarrow> r \<and> mag n \<noteq> 0))"
  unfolding BigNumSub.simps [of x]
  by (rule delivers_bind [OF sub_diff_magnitude [OF assms]]) (auto intro: delivers_null delivers_num)

text \<open>With a modulus a negative difference is replaced by its complement.\<close>

lemma free_after:
  assumes "delivers m' r P" "later m m'" "live m' = Suc (live m)"
  shows "delivers m (Option.bind r (\<lambda>(z, m). Option.bind (ILBigNumFree (Some d) m) (\<lambda>m. Some (z, m)))) P"
  using assms(1)
  by (cases rule: delivers_cases)
    (use assms(2,3) in \<open>auto simp: ILBigNumFree_def later_def out_of_memory_def delivers_def intro: exI le_trans\<close>)

lemma BigNumSub_mod_magnitude:
  assumes "wf_num x" "wf_num y" "mag y \<le> mag x" "wf_num md" "mag x - mag y \<le> mag md"
  shows "delivers m (BigNumSub x y (Some md) r m)
    (\<lambda>n. mag n = (if r \<and> mag x \<noteq> mag y then mag md - (mag x - mag y) else mag x - mag y) \<and> \<not> neg n)"
  unfolding BigNumSub.simps [of x]
proof (rule delivers_bind [OF sub_diff_magnitude [OF assms(1-3)]], goal_cases)
  case (1 m')
  then show ?case by (auto intro: delivers_null)
next
  case (2 d m')
  show ?case
  proof (cases "neg d")
    case True
    with 2 assms have "mag d \<le> mag md" by simp
    from free_after [OF BigNumSub_magnitude [OF assms(4) 2(2) this, of m' False] 2(1,4), of d] show ?thesis
      unfolding prod.case option.case if_P [OF True]
      by (rule delivers_mono) (use 2 True assms(3) in auto)
  qed (use 2 assms(3) in \<open>auto intro: delivers_num\<close>)
qed

end
