(* ===== verification/BigNumBasics.thy ===== *)
theory BigNumBasics
  imports BigNum
begin

text \<open>
  Big numbers as integers: the public addition and subtraction of \<^verbatim>\<open>support/bignum.c\<close>
  are those of the integers, the byte conversions are the big-endian notation, and what
  reduction by a modulus does inside an addition.
\<close>

section \<open>Addition and subtraction\<close>

lemma value_ge_0: "\<not> neg n \<Longrightarrow> value_of n = int (mag n)"
  by (simp add: value_of_def)

lemma sgn_diff_ge_0 [simp]: "0 \<le> sgn (int a - int b) \<longleftrightarrow> b \<le> a"
  by (simp add: sgn_diff)

lemma big_add_value:
  assumes "wf_num x" "wf_num y"
  shows "delivers m (ILBigNumAdd x y None m) (\<lambda>n. value_of n = value_of x + value_of y)"
proof (cases "neg x = neg y")
  case True
  then show ?thesis
    unfolding ILBigNumAdd_def if_P [OF True]
    by (intro delivers_mono [OF BigNumAdd_magnitude [OF assms]]) (auto simp: value_of_def)
next
  case False
  have "ILBigNumAdd x y None m =
      (if mag y \<le> mag x then BigNumSub x y None (neg x) m else BigNumSub y x None (neg y) m)"
    using False compare_abs_correct [OF assms] by (simp add: ILBigNumAdd_def)
  then show ?thesis
    using False delivers_mono [OF BigNumSub_magnitude [OF assms, of m "neg x"]]
      delivers_mono [OF BigNumSub_magnitude [OF assms(2,1), of m "neg y"]]
    by (auto simp: value_of_def)
qed

lemma big_sub_value:
  assumes "wf_num x" "wf_num y"
  shows "delivers m (ILBigNumSub x y None m) (\<lambda>n. value_of n = value_of x - value_of y)"
proof (cases "neg x = neg y")
  case True
  have "ILBigNumSub x y None m =
      (if mag y \<le> mag x then BigNumSub x y None (neg x) m else BigNumSub y x None (\<not> neg x) m)"
    using True compare_abs_correct [OF assms] by (simp add: ILBigNumSub_def)
  then show ?thesis
    using True delivers_mono [OF BigNumSub_magnitude [OF assms, of m "neg x"]]
      delivers_mono [OF BigNumSub_magnitude [OF assms(2,1), of m "\<not> neg x"]]
    by (auto simp: value_of_def)
next
  case False
  then have "ILBigNumSub x y None m = BigNumAdd x y None (neg x) m"
    by (simp add: ILBigNumSub_def)
  then show ?thesis
    using False by (auto simp: value_of_def intro!: delivers_mono [OF BigNumAdd_magnitude [OF assms]])
qed

lemma mod_complement:
  assumes "a < b" "b < c"
  shows "(int a - int b) mod int c = int c + int a - int b"
proof -
  have "(int a - int b) mod int c = (int c + int a - int b) mod int c"
    by (metis add_diff_eq mod_add_self1)
  also have "\<dots> = int c + int a - int b" using assms by (intro mod_pos_pos_trivial) auto
  finally show ?thesis .
qed

lemma big_sub_mod_value:
  assumes "wf_num x" "wf_num y" "wf_num md" "0 \<le> value_of x" "0 \<le> value_of y"
    and "value_of x < value_of md" "value_of y < value_of md"
  shows "delivers m (ILBigNumSub x y (Some md) m)
    (\<lambda>n. value_of n = (value_of x - value_of y) mod value_of md)"
proof -
  have pos: "\<not> neg z" if "wf_num z" "0 \<le> value_of z" for z
    using that mag_eq_0_iff [of z] by (auto simp: value_of_def wf_num_def)
  have s: "\<not> neg x" "\<not> neg y" "\<not> neg md" using assms pos by auto
  then have le: "mag x - mag y \<le> mag md" "mag y - mag x \<le> mag md" using assms by (auto simp: value_of_def)
  have "ILBigNumSub x y (Some md) m =
      (if mag y \<le> mag x then BigNumSub x y (Some md) False m else BigNumSub y x (Some md) True m)"
    using s compare_abs_correct [OF assms(1,2)] by (simp add: ILBigNumSub_def)
  moreover have "(value_of x - value_of y) mod value_of md =
      (if mag y \<le> mag x then int (mag x - mag y) else int (mag md - (mag y - mag x)))"
    using assms s le mod_complement [of "mag x" "mag y" "mag md"]
    by (auto simp: value_of_def of_nat_diff mod_pos_pos_trivial not_le)
  ultimately show ?thesis
    using delivers_mono [OF BigNumSub_mod_magnitude [OF assms(1,2) _ assms(3) le(1), of m False]]
      delivers_mono [OF BigNumSub_mod_magnitude [OF assms(2,1) _ assms(3) le(2), of m True]]
    by (auto simp: value_of_def)
qed

section \<open>Bytes\<close>

text \<open>The number that a sequence of bytes denotes, most significant first.\<close>

definition be_nat :: "bytes \<Rightarrow> nat" where
  "be_nat bs = foldl (\<lambda>a b. 256 * a + unat b) 0 bs"

lemma be_nat_foldl: "foldl (\<lambda>a b. 256 * a + unat b) k bs = k * 256 ^ length bs + be_nat bs"
proof (induction bs rule: rev_induct)
  case (snoc b bs)
  then show ?case by (simp add: be_nat_def algebra_simps)
qed (simp add: be_nat_def)

lemma be_nat_Nil [simp]: "be_nat [] = 0"
  by (simp add: be_nat_def)

lemma be_nat_Cons: "be_nat (b # bs) = unat b * 256 ^ length bs + be_nat bs"
  using be_nat_foldl [of "unat b" bs] by (simp add: be_nat_def)

lemma be_nat_append: "be_nat (as @ bs) = be_nat as * 256 ^ length bs + be_nat bs"
  using be_nat_foldl [of "be_nat as" bs] by (simp add: be_nat_def)

lemma W_bytes: "W n = 256 ^ (4 * n)"
  using power_mult [of "2::nat" 8 "4 * n"] by (simp add: W_def)

lemma unat_or_shifted:
  fixes a b c d :: u8
  shows "unat (push_bit 24 (ucast a) OR push_bit 16 (ucast b) OR push_bit 8 (ucast c) OR ucast d :: u32) =
      be_nat [a, b, c, d]"
  unfolding or_shifted_bytes unat_of_nat
  using unat_less_8 [of a] unat_less_8 [of b] unat_less_8 [of c] unat_less_8 [of d]
  by (subst mod_less) (simp_all add: be_nat_Cons)

lemma unat_or_shifted_short:
  fixes b c d :: u8
  shows "unat (push_bit 16 (ucast b) OR push_bit 8 (ucast c) OR ucast d :: u32) = be_nat [b, c, d]"
    "unat (push_bit 8 (ucast c) OR ucast d :: u32) = be_nat [c, d]"
  using unat_or_shifted [of 0 b c d] unat_or_shifted [of 0 0 c d]
  by (simp_all only: ucast_0 push_bit_of_0 or.left_neutral) (simp_all add: be_nat_Cons)

lemma from_bytes_loop_correct:
  "n \<le> length ws \<Longrightarrow> 4 * n \<le> length bs \<Longrightarrow> \<exists>ws'. from_bytes_loop n ws bs = Some ws' \<and>
     length ws' = length ws \<and> drop n ws' = drop n ws \<and> val (take n ws') = be_nat (take (4 * n) bs)"
proof (induction n arbitrary: ws bs)
  case (Suc n)
  then obtain a b c d bs' where bs: "bs = a # b # c # d # bs'" and l: "4 * n \<le> length bs'"
    by (cases bs; cases "tl bs"; cases "tl (tl bs)"; cases "tl (tl (tl bs))") auto
  let ?w = "push_bit 24 (ucast a) OR push_bit 16 (ucast b) OR push_bit 8 (ucast c) OR ucast d :: u32"
  from Suc.IH [of "ws[n := ?w]" bs'] Suc.prems l
  obtain ws' where ws': "from_bytes_loop n (ws[n := ?w]) bs' = Some ws'" "length ws' = length ws"
    "drop n ws' = drop n (ws[n := ?w])" "val (take n ws') = be_nat (take (4 * n) bs')" by auto
  from ws'(2,3) Suc.prems have n: "ws' ! n = ?w"
    by (metis Suc_le_lessD hd_drop_conv_nth length_list_update nth_list_update_eq)
  have "drop (Suc n) ws' = drop 1 (drop n ws')" by simp
  also have "\<dots> = drop (Suc n) ws" unfolding ws'(3) by simp
  finally have "drop (Suc n) ws' = drop (Suc n) ws" .
  moreover have "val (take (Suc n) ws') = be_nat (take (4 * Suc n) bs)"
  proof -
    have "take (4 * Suc n) bs = [a, b, c, d] @ take (4 * n) bs'" by (simp add: bs numeral_eq_Suc)
    moreover have "val (take (Suc n) ws') = be_nat (take (4 * n) bs') + W n * be_nat [a, b, c, d]"
      using Suc.prems ws'(2,4) by (simp only: val_take_Suc n unat_or_shifted Suc_le_lessD)
    ultimately show ?thesis using l by (simp only: be_nat_append W_bytes length_take min_absorb2) simp
  qed
  ultimately show ?case
    using Suc.prems ws' by (simp add: bs array_simps)
qed simp

lemma take_drop_3:
  "take 2 (a # b # xs) = [a, b]" "drop 2 (a # b # xs) = xs"
  "take 3 (a # b # c # ys) = [a, b, c]" "drop 3 (a # b # c # ys) = ys"
  by (simp_all add: numeral_eq_Suc)

lemma word_eq_bits:
  "(u = (v :: u8)) \<longleftrightarrow> (\<forall>n<8. bit u n = bit v n)" "(x = (y :: u32)) \<longleftrightarrow> (\<forall>n<32. bit x n = bit y n)"
  by (auto intro: word8_eqI word32_eqI)

lemma from_bytes_top_correct:
  assumes "n \<le> length bs" "length ws = (n + 3) div 4"
  shows "\<exists>ws'. from_bytes_top bs n ws = Some ((n + 3) div 4, ws', drop (n mod 4) bs) \<and> length ws' = length ws \<and>
    val (drop (n div 4) ws') = be_nat (take (n mod 4) bs)"
proof -
  have "n mod 4 < 4" by simp
  then consider "n mod 4 = 0" | "n mod 4 = 1" | "n mod 4 = 2" | "n mod 4 = 3" by linarith
  then show ?thesis
  proof cases
    case 1
    then have "(n + 3) div 4 = n div 4" by presburger
    with 1 assms show ?thesis by (simp add: from_bytes_top_def)
  next
    case 2
    then have q: "(n + 3) div 4 = n div 4 + 1" and "1 \<le> n" by presburger+
    then obtain a bs' where "bs = a # bs'" using assms(1) by (cases bs) auto
    with 2 q assms show ?thesis
      by (simp add: from_bytes_top_def Let_def array_simps val_drop_Suc be_nat_Cons)
  next
    case 3
    then have q: "(n + 3) div 4 = n div 4 + 1" and "2 \<le> n" by presburger+
    then obtain a b bs' where "bs = a # b # bs'" using assms(1) by (cases bs; cases "tl bs") auto
    with 3 q assms show ?thesis
      using take_drop_3(1,2) [of a b bs']
      by (simp add: from_bytes_top_def Let_def array_simps val_drop_Suc unat_or_shifted_short(2))
  next
    case 4
    then have q: "(n + 3) div 4 = n div 4 + 1" and "3 \<le> n" by presburger+
    then obtain a b c bs' where "bs = a # b # c # bs'" using assms(1)
      by (cases bs; cases "tl bs"; cases "tl (tl bs)") auto
    with 4 q assms show ?thesis
      using take_drop_3(3,4) [of a b c bs']
      by (simp add: from_bytes_top_def Let_def array_simps val_drop_Suc unat_or_shifted_short(1))
  qed
qed

lemma from_bytes_value:
  assumes "n \<le> length bs"
  shows "delivers m (ILBigNumFromBytes bs n m) (\<lambda>num. value_of num = int (be_nat (take n bs)) \<and> \<not> neg num)"
proof (cases "(n + 3) div 4 = 0")
  case True
  then have "n = 0" by simp
  then show ?thesis by (auto simp: ILBigNumFromBytes_def intro!: delivers_mono [OF from_int_correct])
next
  case False
  let ?k = "(n + 3) div 4" and ?ws = "replicate ((n + 3) div 4) (junk m)"
  obtain ws1 where t: "from_bytes_top bs n ?ws = Some (?k, ws1, drop (n mod 4) bs)" "length ws1 = ?k"
    "val (drop (n div 4) ws1) = be_nat (take (n mod 4) bs)"
    using from_bytes_top_correct [OF assms, of ?ws] by auto
  have d: "n div 4 \<le> ?k" "4 * (n div 4) + n mod 4 = n" by presburger+
  with assms have len: "4 * (n div 4) \<le> length (drop (n mod 4) bs)" by (simp only: length_drop)
  obtain ws2 where l: "from_bytes_loop (n div 4) ws1 (drop (n mod 4) bs) = Some ws2" "length ws2 = ?k"
    "drop (n div 4) ws2 = drop (n div 4) ws1" "val (take (n div 4) ws2) = be_nat (take (4 * (n div 4)) (drop (n mod 4) bs))"
    using from_bytes_loop_correct [OF _ len, of ws1] t(2) d by auto
  have "take n bs = take (n mod 4) bs @ take (4 * (n div 4)) (drop (n mod 4) bs)"
    using d(2) by (metis add.commute take_add)
  moreover have "length (take (4 * (n div 4)) (drop (n mod 4) bs)) = 4 * (n div 4)"
    using len by (simp only: length_take min_absorb2)
  ultimately have v: "val ws2 = be_nat (take n bs)"
    using val_split [of ws2 "n div 4"] l t(3) d by (simp add: be_nat_append W_bytes)
  let ?n = "\<lparr>num_size = ?k, neg = False, words = ws2\<rparr>"
  have "num_size ?n \<le> length (words ?n)" using l(2) by simp
  from normalize_correct [OF this] obtain z where z: "NormalizeBigNum ?n = Some z" "wf_num z"
    "mag z = val (take (num_size ?n) (words ?n))" "neg z \<longleftrightarrow> neg ?n \<and> mag z \<noteq> 0" by blast
  show ?thesis
    unfolding ILBigNumFromBytes_def if_not_P [OF False]
    by (rule delivers_malloc) (use t l z v in \<open>simp add: value_of_def\<close>)
qed

lemma byte_parts:
  fixes w :: u32
  shows "be_nat [ucast (drop_bit 24 w), ucast (drop_bit 16 w), ucast (drop_bit 8 w), ucast w] = unat w"
proof -
  have "push_bit 24 (ucast (ucast (drop_bit 24 w) :: u8)) OR push_bit 16 (ucast (ucast (drop_bit 16 w) :: u8)) OR
      push_bit 8 (ucast (ucast (drop_bit 8 w) :: u8)) OR ucast (ucast w :: u8) = w"
    by (rule word32_eqI) (auto simp: bit_simps blast_simps)
  then show ?thesis by (metis unat_or_shifted)
qed

lemma to_bytes_loop_correct:
  "n \<le> length ws \<Longrightarrow> \<exists>bs. to_bytes_loop ws n = Some bs \<and> length bs = 4 * n \<and> be_nat bs = val (take n ws) \<and>
     (0 < n \<longrightarrow> hd bs = ucast (drop_bit 24 (ws ! (n - 1))))"
proof (induction n)
  case (Suc n)
  then obtain bs where "to_bytes_loop ws n = Some bs" "length bs = 4 * n" "be_nat bs = val (take n ws)" by auto
  with Suc.prems byte_parts [of "ws ! n"] show ?case
    using be_nat_append [of "[ucast (drop_bit 24 (ws ! n)), ucast (drop_bit 16 (ws ! n)), ucast (drop_bit 8 (ws ! n)), ucast (ws ! n)]" bs]
    by (simp add: array_simps val_take_Suc W_bytes)
qed simp

lemma to_bytes_top_correct:
  assumes "w \<noteq> 0" "w AND 0xFF000000 = 0"
  shows "be_nat (to_bytes_top w) = unat w" "hd (to_bytes_top w) \<noteq> 0"
    "length (to_bytes_top w) = 4 - (if w AND 0x00FF0000 \<noteq> 0 then 1 else if w AND 0x0000FF00 \<noteq> 0 then 2 else 3)"
proof -
  let ?b = "\<lambda>k. ucast (drop_bit k w) :: u8"
  have "w AND 0xFF000000 = 0 \<longleftrightarrow> ?b 24 = 0"
    by (simp add: word_eq_bits bit_simps all_less_8 all_less_32)
  moreover have "w AND 0x00FF0000 = 0 \<longleftrightarrow> ?b 16 = 0"
    by (simp add: word_eq_bits bit_simps all_less_8 all_less_32)
  moreover have "w AND 0x0000FF00 = 0 \<longleftrightarrow> ?b 8 = 0"
    by (simp add: word_eq_bits bit_simps all_less_8 all_less_32)
  ultimately have z: "?b 24 = 0" "w AND 0x00FF0000 = 0 \<longleftrightarrow> ?b 16 = 0" "w AND 0x0000FF00 = 0 \<longleftrightarrow> ?b 8 = 0"
    using assms(2) by blast+
  have v: "unat w = be_nat [?b 24, ?b 16, ?b 8, ucast w]" by (simp only: byte_parts)
  then have "ucast w \<noteq> (0 :: u8)" if "?b 16 = 0" "?b 8 = 0"
    using that z(1) assms(1) by (auto simp: be_nat_Cons unat_eq_0)
  then show "be_nat (to_bytes_top w) = unat w" "hd (to_bytes_top w) \<noteq> 0"
    "length (to_bytes_top w) = 4 - (if w AND 0x00FF0000 \<noteq> 0 then 1 else if w AND 0x0000FF00 \<noteq> 0 then 2 else 3)"
    using z v by (auto simp: to_bytes_top_def be_nat_Cons)
qed

text \<open>\<open>big_endian n\<close> are the bytes that \<^verbatim>\<open>ILBigNumToBytes\<close> writes.\<close>

lemma to_bytes_value:
  assumes "wf_num num"
  shows "\<exists>k out. ILBigNumByteCount num = Some k \<and> length out = k \<and> be_nat out = mag num \<and> 0 < k \<and>
    (mag num \<noteq> 0 \<longrightarrow> hd out \<noteq> 0) \<and> (mag num = 0 \<longrightarrow> k = 1) \<and> (\<forall>buf. ILBigNumToBytes num buf = ILMemCpy buf 0 out)"
proof (cases "num_size num = 0")
  case True
  then show ?thesis
    by (intro exI [of _ 1] exI [of _ "[0]"]) (simp add: ILBigNumByteCount_def ILBigNumToBytes_def mag_def be_nat_Cons)
next
  case False
  let ?k = "num_size num - 1" and ?w = "words num ! (num_size num - 1)"
  from assms False have l: "?k < length (words num)" "num_size num \<le> length (words num)" "?w \<noteq> 0" "mag num \<noteq> 0"
    by (auto simp: wf_num_def mag_eq_0_iff)
  show ?thesis
  proof (cases "?w AND 0xFF000000 = 0")
    case True
    obtain bs where bs: "to_bytes_loop (words num) ?k = Some bs" "length bs = 4 * ?k" "be_nat bs = val (take ?k (words num))"
      using to_bytes_loop_correct [of ?k "words num"] l by auto
    note top = to_bytes_top_correct [OF l(3) True]
    have "be_nat (to_bytes_top ?w @ bs) = mag num"
      using bs top(1) l val_take_Suc [of ?k "words num"] False by (simp add: be_nat_append mag_def W_bytes)
    moreover have "length (to_bytes_top ?w @ bs) = num_size num * 4 -
        (if ?w AND 0x00FF0000 \<noteq> 0 then 1 else if ?w AND 0x0000FF00 \<noteq> 0 then 2 else 3)"
      using top(3) bs(2) False by auto
    moreover have "to_bytes_top ?w \<noteq> []" by (simp add: to_bytes_top_def)
    ultimately show ?thesis
      using True False l bs top(2)
      by (intro exI [of _ "length (to_bytes_top ?w @ bs)"] exI [of _ "to_bytes_top ?w @ bs"])
        (simp add: ILBigNumByteCount_def ILBigNumToBytes_def array_simps)
  next
    case nz: False
    obtain bs where bs: "to_bytes_loop (words num) (num_size num) = Some bs" "length bs = 4 * num_size num"
      "be_nat bs = mag num" "hd bs = ucast (drop_bit 24 ?w)"
      using to_bytes_loop_correct [of "num_size num" "words num"] l False by (auto simp: mag_def)
    have "ucast (drop_bit 24 ?w) \<noteq> (0 :: u8)"
      using nz by (auto simp: word_eq_bits bit_simps all_less_8 all_less_32)
    then show ?thesis
      using nz False l bs by (intro exI [of _ "4 * num_size num"] exI [of _ bs])
        (simp add: ILBigNumByteCount_def ILBigNumToBytes_def array_simps)
  qed
qed

lemma be_nat_bound: "be_nat bs < 256 ^ length bs"
proof (induction bs)
  case (Cons b bs)
  have "unat b * 256 ^ length bs + be_nat bs < unat b * 256 ^ length bs + 256 ^ length bs" using Cons by simp
  also have "\<dots> = Suc (unat b) * 256 ^ length bs" by simp
  also have "\<dots> \<le> 256 * 256 ^ length bs" using unat_less_8 [of b] by (intro mult_le_mono1) simp
  finally show ?case by (simp add: be_nat_Cons)
qed simp

lemma be_nat_lower: "bs \<noteq> [] \<Longrightarrow> hd bs \<noteq> 0 \<Longrightarrow> 256 ^ (length bs - 1) \<le> be_nat bs"
proof (cases bs)
  case (Cons b bs')
  assume "hd bs \<noteq> 0"
  with Cons have "unat b \<noteq> 0" by (simp add: unat_eq_0)
  then obtain k where "unat b = Suc k" using not0_implies_Suc by blast
  with Cons show ?thesis by (simp add: be_nat_Cons)
qed simp

lemma be_nat_inj: "length as = length bs \<Longrightarrow> be_nat as = be_nat bs \<Longrightarrow> as = bs"
proof (induction as bs rule: list_induct2)
  case (Cons a as b bs)
  let ?k = "256 ^ length bs :: nat"
  from Cons.prems Cons.hyps have e: "unat a * ?k + be_nat as = unat b * ?k + be_nat bs" by (simp add: be_nat_Cons)
  have lt: "be_nat as < ?k" "be_nat bs < ?k" using be_nat_bound [of as] be_nat_bound [of bs] Cons.hyps by simp_all
  have "(unat a * ?k + be_nat as) div ?k = unat a" "(unat b * ?k + be_nat bs) div ?k = unat b"
    using lt by (simp_all add: div_mult_self3)
  with e have "unat a = unat b" by metis
  with e Cons.IH show ?case by (simp add: word_unat_eq_iff)
qed simp

lemma canonical_bytes:
  assumes "be_nat as = be_nat bs" "as \<noteq> []" "bs \<noteq> []" "hd as \<noteq> 0 \<or> length as = 1" "hd bs \<noteq> 0 \<or> length bs = 1"
  shows "as = bs"
proof -
  have le: "length xs \<le> length ys" if "be_nat xs = be_nat ys" "xs \<noteq> []" "ys \<noteq> []" "hd xs \<noteq> 0 \<or> length xs = 1" for xs ys
  proof (rule ccontr)
    assume n: "\<not> ?thesis"
    with that(3) have "length xs \<noteq> 1" by (cases ys) auto
    with that have "256 ^ (length xs - 1) \<le> be_nat xs" by (intro be_nat_lower) auto
    moreover have "be_nat ys < 256 ^ length ys" by (rule be_nat_bound)
    moreover have "256 ^ length ys \<le> (256 ^ (length xs - 1) :: nat)" using n by (intro power_increasing) auto
    ultimately show False using that(1) by linarith
  qed
  from le [of as bs] le [of bs as] assms have "length as = length bs" by auto
  with assms(1) show ?thesis by (intro be_nat_inj)
qed

definition mk_num :: "bool \<Rightarrow> u32 list \<Rightarrow> ILBigNum" where
  "mk_num s ws = \<lparr>num_size = length ws, neg = s, words = ws\<rparr>"

definition fresh_mem :: mem where
  "fresh_mem = \<lparr>answers = (\<lambda>_. True), calls = 0, live = 0, junk = 0xDEADBEEF\<rparr>"

section \<open>Properties\<close>

text \<open>C14: signed addition and subtraction of big numbers are those of the integers, comparison is
  the sign of the difference, and only zero is reported as zero.  Both operations always
  come back, allocate exactly their result, which is normalised, and return null only when
  an allocation failed, leaving nothing behind.\<close>

theorem big_add_sub_exact:
  assumes "wf_num x" and "wf_num y"
  shows "delivers m (ILBigNumAdd x y None m) (\<lambda>n. value_of n = value_of x + value_of y) \<and>
    delivers m (ILBigNumSub x y None m) (\<lambda>n. value_of n = value_of x - value_of y) \<and>
    ILBigNumCompare x y = Some (sgn (value_of x - value_of y)) \<and>
    (ILBigNumIsZero x \<longleftrightarrow> value_of x = 0)"
  using assms big_add_value big_sub_value compare_correct mag_eq_0_iff
  by (simp add: ILBigNumIsZero_def value_of_def)

theorem big_add_sub_exact_witness:
  "delivers fresh_mem (ILBigNumAdd (mk_num False [0xFFFFFFFF, 0xFFFFFFFF]) (mk_num True [1, 1]) None fresh_mem)
     (\<lambda>n. value_of n = value_of (mk_num False [0xFFFFFFFF, 0xFFFFFFFF]) + value_of (mk_num True [1, 1]))"
  using big_add_sub_exact [of "mk_num False [0xFFFFFFFF, 0xFFFFFFFF]" "mk_num True [1, 1]" fresh_mem]
  by (simp add: wf_num_def mk_num_def)

text \<open>C15: the byte conversions are inverse to each other.  Reading a big-endian byte string without
  a redundant leading zero and writing the number gives the string back, in exactly the
  number of bytes that \<^verbatim>\<open>ILBigNumByteCount\<close> announces; writing a non-negative number and
  reading it gives its value back.\<close>

theorem big_bytes_roundtrip:
  assumes "bs \<noteq> []" and "hd bs \<noteq> 0 \<or> length bs = 1" and "wf_num x" and "\<not> neg x"
  shows "delivers m (ILBigNumFromBytes bs (length bs) m) (\<lambda>n. value_of n = int (be_nat bs) \<and>
      ILBigNumByteCount n = Some (length bs) \<and>
      (\<forall>buf. length buf = length bs \<longrightarrow> ILBigNumToBytes n buf = Some bs)) \<and>
    (\<exists>k out. ILBigNumByteCount x = Some k \<and> ILBigNumToBytes x (replicate k 0) = Some out \<and>
      delivers m (ILBigNumFromBytes out k m) (\<lambda>n. value_of n = value_of x))"
proof
  show "delivers m (ILBigNumFromBytes bs (length bs) m) (\<lambda>n. value_of n = int (be_nat bs) \<and>
      ILBigNumByteCount n = Some (length bs) \<and>
      (\<forall>buf. length buf = length bs \<longrightarrow> ILBigNumToBytes n buf = Some bs))"
  proof (rule delivers_mono [OF from_bytes_value], goal_cases)
    case (2 n)
    then have v: "mag n = be_nat bs" by (auto simp: value_of_def)
    from to_bytes_value [OF 2(1)] obtain out where o: "ILBigNumByteCount n = Some (length out)" "be_nat out = mag n"
      "out \<noteq> []" "hd out \<noteq> 0 \<or> length out = 1" "\<And>buf. ILBigNumToBytes n buf = ILMemCpy buf 0 out"
      by (metis length_greater_0_conv)
    with canonical_bytes [of out bs] assms v have "out = bs" by simp
    with o 2 v show ?case by (auto simp: ILMemCpy_def)
  qed simp
  from to_bytes_value [OF assms(3)] obtain out where o: "ILBigNumByteCount x = Some (length out)" "be_nat out = mag x"
    "\<And>buf. ILBigNumToBytes x buf = ILMemCpy buf 0 out" by blast
  have "delivers m (ILBigNumFromBytes out (length out) m) (\<lambda>n. value_of n = value_of x)"
    by (rule delivers_mono [OF from_bytes_value]) (use o assms(4) in \<open>auto simp: value_of_def\<close>)
  with o show "\<exists>k out. ILBigNumByteCount x = Some k \<and> ILBigNumToBytes x (replicate k 0) = Some out \<and>
      delivers m (ILBigNumFromBytes out k m) (\<lambda>n. value_of n = value_of x)"
    by (auto simp: ILMemCpy_def)
qed

theorem big_bytes_roundtrip_witness:
  "delivers fresh_mem (ILBigNumFromBytes [1, 0, 0, 0, 2] 5 fresh_mem) (\<lambda>n. value_of n = int (be_nat [1, 0, 0, 0, 2]) \<and>
     ILBigNumByteCount n = Some 5 \<and> (\<forall>buf. length buf = 5 \<longrightarrow> ILBigNumToBytes n buf = Some [1, 0, 0, 0, 2]))"
  using big_bytes_roundtrip [of "[1, 0, 0, 0, 2]" "mk_num False []" fresh_mem]
  by (simp add: wf_num_def mk_num_def eval_nat_numeral)

section \<open>Reduction inside an addition\<close>

lemma one_word:
  assumes "wf_num x" "mag x < 2 ^ 32" "mag x \<noteq> 0"
  shows "num_size x = 1" "0 < length (words x)" "mag x = unat (words x ! 0)"
proof -
  have "num_size x \<noteq> 0" using assms mag_eq_0_iff by auto
  moreover have "num_size x < 2"
  proof (rule ccontr)
    assume "\<not> ?thesis"
    then have "W 1 \<le> W (num_size x - 1)" by (intro W_mono) simp
    with mag_lower [OF assms(1)] \<open>num_size x \<noteq> 0\<close> assms(2) show False by simp
  qed
  ultimately show n: "num_size x = 1" by simp
  with assms(1) show l: "0 < length (words x)" by (auto simp: wf_num_def)
  from n l show "mag x = unat (words x ! 0)" using val_take_Suc [of 0 "words x"] by (simp add: mag_def)
qed

lemma submod_one_word:
  assumes "wf_num s" "wf_num md" "mag md \<noteq> 0" "mag s < 2 ^ 32" "\<not> neg s"
  shows "\<exists>z. submod_loop s md = Some z \<and> wf_num z \<and> mag z = mag s mod mag md \<and> \<not> neg z"
  using assms
proof (induction "mag s" arbitrary: s rule: less_induct)
  case less
  show ?case
  proof (cases "mag md \<le> mag s")
    case False
    with less.prems show ?thesis
      by (subst submod_loop.simps) (simp add: compare_abs_correct)
  next
    case True
    with less.prems have s: "num_size s = 1" "0 < length (words s)" "mag s = unat (words s ! 0)" and
      d: "num_size md = 1" "0 < length (words md)" "mag md = unat (words md ! 0)"
      using one_word [of s] one_word [of md] by auto
    let ?w = "words s ! 0 - words md ! 0"
    have w: "unat ?w = mag s - mag md" using True s d by (simp add: unat_sub word_le_nat_alt)
    let ?t = "s\<lparr>words := (words s)[0 := ?w]\<rparr>"
    have "num_size ?t \<le> length (words ?t)" using s by (simp add: Suc_le_eq)
    from normalize_correct [OF this] obtain z where z: "NormalizeBigNum ?t = Some z" "wf_num z"
      "mag z = val (take (num_size ?t) (words ?t))" "neg z \<longleftrightarrow> neg ?t \<and> mag z \<noteq> 0" by blast
    have m: "mag z = mag s - mag md" using z(3) s w val_take_Suc_update [of 0 "words s" ?w] by simp
    with less.prems True have "mag z < mag s" by simp
    moreover from this less.prems have "mag z < 2 ^ 32" by linarith
    moreover have "\<not> neg z" using z(4) less.prems by simp
    ultimately obtain y where y: "submod_loop z md = Some y" "wf_num y" "mag y = mag z mod mag md" "\<not> neg y"
      using less.hyps [of z] z(2) less.prems(2,3) by blast
    obtain c where c: "ILBigNumCompareAbs s md = Some c" "0 \<le> c"
      using compare_abs_correct [OF less.prems(1,2)] True by (metis sgn_diff_ge_0)
    have "submod_loop s md = submod_loop z md"
      using s(1,2) d(1,2) z(1) c
      by (subst submod_loop.simps) (simp add: submod_word_def array_simps Let_def)
    with y m True show ?thesis by (simp add: le_mod_geq)
  qed
qed

lemma submod_none: "wf_num s \<Longrightarrow> wf_num md \<Longrightarrow> mag s < mag md \<Longrightarrow> submod_loop s md = Some s"
  by (subst submod_loop.simps) (simp add: compare_abs_correct)

lemma BigNumAdd_reduced:
  "BigNumAdd x y (Some md) r m = Option.bind (BigNumAdd x y None r m) (\<lambda>(z, m). case z of None \<Rightarrow> Some (None, m)
     | Some s \<Rightarrow> Option.bind (submod_loop s md) (\<lambda>s. Some (Some s, m)))"
  unfolding BigNumAdd_def
  by (auto simp: Let_def split: option.splits prod.splits Option.bind_splits)

lemma big_add_mod_value:
  assumes "wf_num x" "wf_num y" "wf_num md" "\<not> neg x" "\<not> neg y" "\<not> neg md" "mag md \<noteq> 0"
    and "mag x + mag y < mag md \<or> mag x + mag y < 2 ^ 32"
  shows "delivers m (ILBigNumAdd x y (Some md) m) (\<lambda>n. value_of n = (value_of x + value_of y) mod value_of md)"
proof -
  have red: "\<exists>z. submod_loop s md = Some z \<and> wf_num z \<and> mag z = (mag x + mag y) mod mag md \<and> \<not> neg z"
    if "wf_num s" "mag s = mag x + mag y" "\<not> neg s" for s
  proof (cases "mag x + mag y < mag md")
    case True
    with that assms submod_none [of s md] show ?thesis by simp
  next
    case False
    with that assms submod_one_word [of s md] show ?thesis by simp
  qed
  have "ILBigNumAdd x y (Some md) m = BigNumAdd x y (Some md) False m"
    using assms by (simp add: ILBigNumAdd_def)
  moreover have "delivers m (BigNumAdd x y (Some md) False m) (\<lambda>n. value_of n = (value_of x + value_of y) mod value_of md)"
    unfolding BigNumAdd_reduced
  proof (rule delivers_bind [OF BigNumAdd_magnitude [OF assms(1,2)]], goal_cases)
    case (1 m')
    then show ?case by (simp add: delivers_null)
  next
    case (2 s m')
    with red [of s] obtain z where "submod_loop s md = Some z" "wf_num z" "mag z = (mag x + mag y) mod mag md" "\<not> neg z"
      by auto
    with 2 assms show ?case by (auto simp: value_of_def zmod_int intro!: delivers_num)
  qed
  ultimately show ?thesis by simp
qed

lemmas big_eval = mk_num_def NormalizeBigNum_def ILBigNumCompareAbs_def submod_word_def add_common_def
  add_rest_def load_def store_def Let_def

lemma complement_words: "(- 0x80000000 :: u32) = 0x80000000" "(- 0x20000000 :: u32) = 0xE0000000"
  by simp_all

lemma submod_wrong:
  fixes md
  defines "md \<equiv> mk_num False [0xA0000000]"
  shows "submod_loop (mk_num False [0x20000000, 1]) md = Some \<lparr>num_size = 1, neg = False, words = [0x40000000, 0]\<rparr>"
proof -
  have "submod_loop (mk_num False [0x20000000, 1]) md = submod_loop (mk_num False [0x80000000, 1]) md"
    unfolding md_def by (subst submod_loop.simps) (simp add: big_eval, simp only: complement_words)
  also have "\<dots> = submod_loop \<lparr>num_size = 1, neg = False, words = [0xE0000000, 0]\<rparr> md"
    unfolding md_def by (subst submod_loop.simps) (simp add: big_eval, simp only: complement_words)
  also have "\<dots> = submod_loop \<lparr>num_size = 1, neg = False, words = [0x40000000, 0]\<rparr> md"
    unfolding md_def by (subst submod_loop.simps) (simp add: big_eval)
  also have "\<dots> = Some \<lparr>num_size = 1, neg = False, words = [0x40000000, 0]\<rparr>"
    unfolding md_def by (subst submod_loop.simps) (simp add: big_eval)
  finally show ?thesis .
qed

lemma big_add_modular_wrong:
  "map_option (map_option value_of \<circ> fst) (ILBigNumAdd (mk_num False [0x90000000]) (mk_num False [0x90000000])
      (Some (mk_num False [0xA0000000])) fresh_mem) = Some (Some 0x40000000)"
proof -
  let ?x = "mk_num False [0x90000000]"
  have "BigNumAdd ?x ?x None False fresh_mem = Some (Some (mk_num False [0x20000000, 1]),
      fresh_mem\<lparr>calls := 1, live := 1\<rparr>)"
    by (simp add: BigNumAdd_def add_size_def ILMalloc_def fresh_mem_def big_eval)
  moreover have "ILBigNumAdd ?x ?x (Some (mk_num False [0xA0000000])) fresh_mem =
      BigNumAdd ?x ?x (Some (mk_num False [0xA0000000])) False fresh_mem"
    by (simp add: ILBigNumAdd_def mk_num_def)
  ultimately show ?thesis
    by (simp add: BigNumAdd_reduced submod_wrong value_of_def mag_def val.simps(2))
qed

text \<open>C16: modular subtraction of numbers below the modulus is correct for all sizes.  Modular
  addition is correct when the sum is below the modulus or fits one word; beyond that the
  borrow of the reduction compares the wrong words: with the modulus \<open>0xA0000000\<close> the sum
  of \<open>0x90000000\<close> and \<open>0x90000000\<close> is reduced to \<open>0x40000000\<close> instead of \<open>0x80000000\<close>.\<close>

theorem big_modular_add_sub:
  assumes "wf_num x" and "wf_num y" and "wf_num md" and "0 \<le> value_of x" and "0 \<le> value_of y"
    and "value_of x < value_of md" and "value_of y < value_of md"
  shows "delivers m (ILBigNumSub x y (Some md) m) (\<lambda>n. value_of n = (value_of x - value_of y) mod value_of md) \<and>
    (value_of x + value_of y < value_of md \<or> value_of x + value_of y < 2 ^ 32 \<longrightarrow>
      delivers m (ILBigNumAdd x y (Some md) m) (\<lambda>n. value_of n = (value_of x + value_of y) mod value_of md)) \<and>
    map_option (map_option value_of \<circ> fst) (ILBigNumAdd (mk_num False [0x90000000]) (mk_num False [0x90000000])
      (Some (mk_num False [0xA0000000])) fresh_mem) = Some (Some 0x40000000)"
proof -
  have pos: "\<not> neg z" if "wf_num z" "0 \<le> value_of z" for z
    using that mag_eq_0_iff [of z] by (auto simp: value_of_def wf_num_def)
  then have s: "\<not> neg x" "\<not> neg y" "\<not> neg md" using assms by auto
  have "value_of x + value_of y < 2 ^ 32 \<longleftrightarrow> mag x + mag y < 2 ^ 32"
    "value_of x + value_of y < value_of md \<longleftrightarrow> mag x + mag y < mag md"
    using s by (auto simp: value_of_def)
  moreover have "mag md \<noteq> 0" using assms(4,6) s by (auto simp: value_of_def)
  ultimately show ?thesis
    using big_sub_mod_value [OF assms, of m] big_add_mod_value [OF assms(1-3) s, of m] big_add_modular_wrong
    by blast
qed

theorem big_modular_add_sub_witness:
  "delivers fresh_mem (ILBigNumSub (mk_num False [1]) (mk_num False [0, 2]) (Some (mk_num False [0, 0, 1])) fresh_mem)
     (\<lambda>n. value_of n = (value_of (mk_num False [1]) - value_of (mk_num False [0, 2])) mod value_of (mk_num False [0, 0, 1]))"
proof -
  have v: "value_of (mk_num False [1]) = 1" "value_of (mk_num False [0, 2]) = 2 ^ 33" "value_of (mk_num False [0, 0, 1]) = 2 ^ 64"
    by (simp_all add: value_of_def mag_def mk_num_def val.simps(2))
  show ?thesis
    using big_modular_add_sub [of "mk_num False [1]" "mk_num False [0, 2]" "mk_num False [0, 0, 1]" fresh_mem]
    unfolding v by (simp add: wf_num_def mk_num_def)
qed

end
