(* ===== verification/BigNumDiv.thy ===== *)
theory BigNumDiv
  imports BigNumBasics
begin

text \<open>
  Division of big numbers, the function \<^verbatim>\<open>DivRem\<close> of \<^verbatim>\<open>support/bignum.c\<close>: the short cuts, the
  single-word divisor, and the schoolbook algorithm with an underestimated quotient digit
  that is corrected by repeated subtraction.  The function returns \<^term>\<open>None\<close> for the C
  result 0, and otherwise the requested quotient and remainder.
\<close>

type_synonym div_result = "((ILBigNum option \<times> ILBigNum option) option \<times> mem) option"

definition BigRangeGe :: "u32 list \<Rightarrow> u32 list \<Rightarrow> nat \<Rightarrow> bool option" where
  "BigRangeGe words1 words2 n = map_option (\<lambda>c. c \<ge> 0) (compare_loop words1 words2 n)"

text \<open>The optional results: a pointer that is asked for, and what happens when it is null.\<close>

definition want :: "bool \<Rightarrow> (mem \<Rightarrow> num_result) \<Rightarrow> mem \<Rightarrow> (ILBigNum option option \<times> mem) option" where
  "want wanted alloc m =
     (if wanted then do {
        (n, m) \<leftarrow> alloc m;
        Some (case n of None \<Rightarrow> None | Some n \<Rightarrow> Some (Some n), m)
      }
      else Some (Some None, m))"

definition with_remainder :: "ILBigNum option \<Rightarrow> bool \<Rightarrow> (mem \<Rightarrow> num_result) \<Rightarrow> mem \<Rightarrow> div_result" where
  "with_remainder q wr alloc m = do {
     (r, m) \<leftarrow> want wr alloc m;
     case r of None \<Rightarrow> do { m \<leftarrow> ILBigNumFree q m; Some (None, m) }
             | Some r \<Rightarrow> Some (Some (q, r), m)
   }"

definition alloc_num :: "nat \<Rightarrow> mem \<Rightarrow> num_result" where
  "alloc_num n m = (case ILMalloc n m of
     (None, m) \<Rightarrow> Some (None, m)
   | (Some ws, m) \<Rightarrow> Some (Some \<lparr>num_size = n, neg = False, words = ws\<rparr>, m))"

text \<open>A divisor of one word: the loop from the top word down.\<close>

definition div_word :: "u32 \<Rightarrow> u32 list \<Rightarrow> nat \<Rightarrow> u64 \<times> ILBigNum option \<Rightarrow> (u64 \<times> ILBigNum option) option" where
  "div_word divtemp x i s = (case s of (temp, q) \<Rightarrow> do {
     w \<leftarrow> load x i;
     let temp = push_bit 32 temp OR ucast w;
     q \<leftarrow> (case q of None \<Rightarrow> Some None
           | Some n \<Rightarrow> do { ws \<leftarrow> store (words n) i (ucast (temp div ucast divtemp)); Some (Some (n\<lparr>words := ws\<rparr>)) });
     Some (temp mod ucast divtemp, q)
   })"

definition normalize_opt :: "ILBigNum option \<Rightarrow> ILBigNum option option" where
  "normalize_opt q = (case q of None \<Rightarrow> Some None | Some n \<Rightarrow> map_option Some (NormalizeBigNum n))"

definition div_single :: "ILBigNum \<Rightarrow> ILBigNum \<Rightarrow> bool \<Rightarrow> bool \<Rightarrow> mem \<Rightarrow> div_result" where
  "div_single numx numy wq wr m = do {
     (q, m) \<leftarrow> want wq (alloc_num (num_size numx)) m;
     case q of None \<Rightarrow> Some (None, m)
     | Some q \<Rightarrow> do {
         divtemp \<leftarrow> load (words numy) 0;
         (temp, q) \<leftarrow> for_each (div_word divtemp (words numx)) (rev [0..<num_size numx]) (0, q);
         (r, m) \<leftarrow> with_remainder q wr (ILBigNumFromInt (ucast temp)) m;
         case r of None \<Rightarrow> Some (None, m)
         | Some (q, r) \<Rightarrow> do { q \<leftarrow> normalize_opt q; Some (Some (q, r), m) }
       }
   }"

text \<open>Normalisation: the position of the top bit of the divisor, and the shift by it.\<close>

function find_shift :: "u32 \<Rightarrow> nat \<Rightarrow> nat option" where
  "find_shift w shift =
     (if shift \<ge> 32 then None
      else if w AND drop_bit shift 0x80000000 = 0 then find_shift w (Suc shift) else Some shift)"
  by auto
termination by (relation "measure (\<lambda>(w, shift). 32 - shift)") auto

declare find_shift.simps [simp del]

definition shift_word :: "nat \<Rightarrow> u32 list \<Rightarrow> nat \<Rightarrow> u64 \<times> u32 list \<Rightarrow> (u64 \<times> u32 list) option" where
  "shift_word shift x i s = (case s of (temp, p) \<Rightarrow> do {
     w \<leftarrow> load x i;
     let temp = temp OR push_bit shift (ucast w);
     p \<leftarrow> store p i (ucast temp);
     Some (drop_bit 32 temp, p)
   })"

text \<open>One quotient digit: the estimate, the subtraction of its multiple and the correction.\<close>

definition estimate :: "u32 \<Rightarrow> u32 list \<Rightarrow> nat \<Rightarrow> u32 option" where
  "estimate topy p k =
     (if topy = 0xFFFFFFFF then load p k
      else do {
        h \<leftarrow> load p k;
        l \<leftarrow> load p (k - 1);
        Some (ucast ((push_bit 32 (ucast h) OR ucast l :: u64) div ucast (topy + 1)))
      })"

definition mulsub_word :: "u32 \<Rightarrow> u32 list \<Rightarrow> nat \<Rightarrow> nat \<Rightarrow> u64 \<times> bool \<times> u32 list \<Rightarrow> (u64 \<times> bool \<times> u32 list) option" where
  "mulsub_word divtemp y j i s = (case s of (temp, carry, p) \<Rightarrow> do {
     b \<leftarrow> load y i;
     let temp = temp + ucast b * ucast divtemp;
     let word1 = ucast temp;
     word2 \<leftarrow> load p (j + i);
     let w = (if carry then word2 - (word1 + 1) else word2 - word1);
     p \<leftarrow> store p (j + i) w;
     Some (drop_bit 32 temp, if carry then \<not> (w < word2) else w > word2, p)
   })"

definition sub_word :: "u32 list \<Rightarrow> nat \<Rightarrow> nat \<Rightarrow> bool \<times> u32 list \<Rightarrow> (bool \<times> u32 list) option" where
  "sub_word y j i s = (case s of (carry, p) \<Rightarrow> do {
     word2 \<leftarrow> load p (j + i);
     b \<leftarrow> load y i;
     let w = (if carry then word2 - (b + 1) else word2 - b);
     p \<leftarrow> store p (j + i) w;
     Some (if carry then \<not> (w < word2) else w > word2, p)
   })"

partial_function (option) correct_loop :: "u32 list \<Rightarrow> nat \<Rightarrow> nat \<Rightarrow> u32 \<Rightarrow> u32 list \<Rightarrow> (u32 \<times> u32 list) option" where
  "correct_loop y n j divtemp p = do {
     h \<leftarrow> load p (j + n);
     ge \<leftarrow> (if h \<noteq> 0 then Some True else BigRangeGe (drop j p) y n);
     if ge then do {
       (carry, p) \<leftarrow> for_each (sub_word y j) [0..<n] (False, p);
       h \<leftarrow> load p (j + n);
       p \<leftarrow> (if carry then store p (j + n) (h - 1) else Some p);
       correct_loop y n j (divtemp + 1) p
     }
     else Some (divtemp, p)
   }"

declare correct_loop.simps [code]

definition div_step :: "u32 list \<Rightarrow> nat \<Rightarrow> nat \<Rightarrow> u32 list \<times> ILBigNum option \<Rightarrow> (u32 list \<times> ILBigNum option) option" where
  "div_step y n j s = (case s of (p, q) \<Rightarrow> do {
     topy \<leftarrow> load y (n - 1);
     divtemp \<leftarrow> estimate topy p (j + n);
     (temp, carry, p) \<leftarrow> for_each (mulsub_word divtemp y j) [0..<n] (0, False, p);
     h \<leftarrow> load p (j + n);
     p \<leftarrow> store p (j + n) (h - (ucast temp + (if carry then 1 else 0)));
     (divtemp, p) \<leftarrow> correct_loop y n j divtemp p;
     q \<leftarrow> (case q of None \<Rightarrow> Some None
           | Some z \<Rightarrow> do { ws \<leftarrow> store (words z) j divtemp; Some (Some (z\<lparr>words := ws\<rparr>)) });
     Some (p, q)
   })"

text \<open>The remainder is shifted back.\<close>

definition unshift_word :: "nat \<Rightarrow> u32 list \<Rightarrow> nat \<Rightarrow> u64 \<times> u32 list \<Rightarrow> (u64 \<times> u32 list) option" where
  "unshift_word shift p i s = (case s of (temp, r) \<Rightarrow> do {
     w \<leftarrow> load p i;
     let temp = push_bit 32 temp OR ucast w;
     r \<leftarrow> store r i (ucast (drop_bit shift temp));
     Some (temp, r)
   })"

definition div_words :: "ILBigNum \<Rightarrow> ILBigNum \<Rightarrow> ILBigNum \<Rightarrow> ILBigNum \<Rightarrow> ILBigNum option \<Rightarrow> ILBigNum option \<Rightarrow>
    (ILBigNum option \<times> ILBigNum option) option" where
  "div_words numx numy normx normy q r = do {
     t \<leftarrow> load (words numy) (num_size numy - 1);
     shift \<leftarrow> find_shift t 0;
     (temp, p) \<leftarrow> for_each (shift_word shift (words numx)) [0..<num_size numx] (0, words normx);
     p \<leftarrow> store p (num_size numx) (ucast temp);
     (_, y) \<leftarrow> for_each (shift_word shift (words numy)) [0..<num_size numy] (0, words normy);
     (p, q) \<leftarrow> for_each (div_step y (num_size numy)) (rev [0..<num_size numx - num_size numy + 1]) (p, q);
     r \<leftarrow> (case r of None \<Rightarrow> Some None
           | Some z \<Rightarrow> do {
               (_, ws) \<leftarrow> for_each (unshift_word shift p) (rev [0..<num_size z]) (0, words z);
               Some (Some (z\<lparr>words := ws\<rparr>))
             });
     q \<leftarrow> normalize_opt q;
     r \<leftarrow> normalize_opt r;
     Some (q, r)
   }"

text \<open>The general case: four allocations with their failure paths around \<open>div_words\<close>.\<close>

definition div_general :: "ILBigNum \<Rightarrow> ILBigNum \<Rightarrow> bool \<Rightarrow> bool \<Rightarrow> mem \<Rightarrow> div_result" where
  "div_general numx numy wq wr m = do {
     (normx, m) \<leftarrow> alloc_num (num_size numx + 1) m;
     case normx of None \<Rightarrow> Some (None, m)
     | Some nx \<Rightarrow> do {
         (normy, m) \<leftarrow> alloc_num (num_size numy) m;
         case normy of None \<Rightarrow> do { m \<leftarrow> ILBigNumFree normx m; Some (None, m) }
         | Some ny \<Rightarrow> do {
             (q, m) \<leftarrow> want wq (alloc_num (num_size nx - num_size ny)) m;
             case q of None \<Rightarrow> do {
                 m \<leftarrow> ILBigNumFree normx m;
                 m \<leftarrow> ILBigNumFree normy m;
                 Some (None, m)
               }
             | Some q \<Rightarrow> do {
                 (r, m) \<leftarrow> want wr (alloc_num (num_size ny)) m;
                 case r of None \<Rightarrow> do {
                     m \<leftarrow> ILBigNumFree normx m;
                     m \<leftarrow> ILBigNumFree normy m;
                     m \<leftarrow> ILBigNumFree q m;
                     Some (None, m)
                   }
                 | Some r \<Rightarrow> do {
                     res \<leftarrow> div_words numx numy nx ny q r;
                     m \<leftarrow> ILBigNumFree normx m;
                     m \<leftarrow> ILBigNumFree normy m;
                     Some (Some res, m)
                   }
               }
           }
       }
   }"

definition DivRem :: "ILBigNum \<Rightarrow> ILBigNum \<Rightarrow> bool \<Rightarrow> bool \<Rightarrow> mem \<Rightarrow> div_result" where
  "DivRem numx numy wq wr m =
     (if num_size numy = 0 then Some (None, m)
      else if num_size numx = 0 then do {
        (q, m) \<leftarrow> want wq (ILBigNumFromInt 0) m;
        case q of None \<Rightarrow> Some (None, m)
        | Some q \<Rightarrow> with_remainder q wr (ILBigNumFromInt 0) m
      }
      else if num_size numy = 1 then div_single numx numy wq wr m
      else do {
        c \<leftarrow> ILBigNumCompare numx numy;
        if c < 0 then do {
          (q, m) \<leftarrow> want wq (ILBigNumFromInt 0) m;
          case q of None \<Rightarrow> Some (None, m)
          | Some q \<Rightarrow> with_remainder q wr (ILBigNumCopy numx) m
        }
        else div_general numx numy wq wr m
      })"

section \<open>Arithmetic of the word loops\<close>

lemma val_update:
  "k < length p \<Longrightarrow> val (p[k := w]) + W k * unat (p ! k) = val p + W k * unat w"
proof -
  assume k: "k < length p"
  have "val xs = val (take k xs) + W k * unat (xs ! k) + W (Suc k) * val (drop (Suc k) xs)" if "k < length xs" for xs
    using val_split [of xs "Suc k"] that by (simp add: val_take_Suc min_absorb2 Suc_leI)
  from this [of p] this [of "p[k := w]"] k show ?thesis by simp
qed

lemma unat_shift_or:
  fixes t :: u64 and w :: u32
  shows "unat (push_bit 32 t OR ucast w) = (unat t * 2 ^ 32) mod 2 ^ 64 + unat w"
proof -
  have "push_bit 32 t OR ucast w = push_bit 32 t + (ucast w :: u64)"
    by (rule disjunctive_add_eq_or [symmetric], rule word64_eqI) (auto simp: bit_simps dest: bit_imp_le_length)
  moreover have "unat (push_bit 32 t) = (unat t * 2 ^ 32) mod 2 ^ 64"
    by (simp add: push_bit_eq_mult unat_word_ariths mult.commute)
  moreover have "(unat t * 2 ^ 32) mod 2 ^ 64 + unat w < 2 ^ 64"
  proof -
    have "(unat t * 2 ^ 32) mod 2 ^ 64 = (unat t mod 2 ^ 32) * 2 ^ 32"
      using mult_mod_right [of "2 ^ 32" "unat t" "2 ^ 32 :: nat"] by (simp add: mult.commute)
    also have "\<dots> \<le> (2 ^ 32 - 1) * 2 ^ 32"
      by (intro mult_le_mono1) (simp add: less_Suc_eq_le [symmetric])
    finally show ?thesis using unat_less_32 [of w] by simp
  qed
  ultimately show ?thesis by (simp add: unat_word_ariths)
qed

lemma unat_shift_or_small: "unat t < 2 ^ 32 \<Longrightarrow> unat (push_bit 32 t OR ucast (w :: u32) :: u64) = unat t * 2 ^ 32 + unat w"
  by (simp add: unat_shift_or)

lemma div_split:
  fixes a :: nat
  shows "a = t + d * k \<Longrightarrow> a mod d = t mod d" "a = t + d * k \<Longrightarrow> d \<noteq> 0 \<Longrightarrow> a div d = t div d + k"
  by simp_all

section \<open>Division by one word\<close>

definition holds_num :: "bool \<Rightarrow> nat \<Rightarrow> (u32 list \<Rightarrow> bool) \<Rightarrow> ILBigNum option \<Rightarrow> bool" where
  "holds_num wanted n P q \<longleftrightarrow> (case q of None \<Rightarrow> \<not> wanted
     | Some z \<Rightarrow> wanted \<and> num_size z = n \<and> length (words z) = n \<and> \<not> neg z \<and> P (words z))"

lemma div_word_loop:
  assumes "d \<noteq> 0" "n \<le> length x" "holds_num wq n (\<lambda>_. True) q"
  shows "\<exists>temp q'. for_each (div_word d x) (rev [0..<n]) (0, q) = Some (temp, q') \<and>
    unat temp = val (take n x) mod unat d \<and> holds_num wq n (\<lambda>ws. val ws = val (take n x) div unat d) q'"
proof -
  let ?v = "\<lambda>i. val (drop i (take n x))"
  let ?P = "\<lambda>i (temp, q). unat (temp :: u64) = ?v i mod unat d \<and>
    holds_num wq n (\<lambda>ws. val (drop i ws) = ?v i div unat d) q"
  have d: "unat d \<noteq> 0" "unat d < 2 ^ 32" using assms(1) unat_less_32 [of d] by (simp_all add: unat_eq_0)
  have "\<exists>r. for_each (div_word d x) (rev [0..<n]) (0, q) = Some r \<and> ?P 0 r"
  proof (rule for_down)
    show "?P n (0, q)" using assms(2,3) by (auto simp: holds_num_def split: option.splits)
  next
    fix i r
    assume i: "i < n" and "?P (Suc i) r"
    then obtain temp q where r: "r = (temp, q)" and t: "unat temp = ?v (Suc i) mod unat d"
      and q: "holds_num wq n (\<lambda>ws. val (drop (Suc i) ws) = ?v (Suc i) div unat d) q" by (cases r) auto
    let ?t = "push_bit 32 temp OR ucast (x ! i) :: u64"
    have "unat temp < unat d" using t d by simp
    with d have "unat temp < 2 ^ 32" by linarith
    then have ut: "unat ?t = unat temp * 2 ^ 32 + unat (x ! i)" by (rule unat_shift_or_small)
    have vi: "?v i = unat (x ! i) + 2 ^ 32 * ?v (Suc i)"
      using i assms(2) val_drop_Suc [of i "take n x"] by simp
    have split: "?v i = unat ?t + 2 ^ 32 * (unat d * (?v (Suc i) div unat d))"
    proof -
      have "2 ^ 32 * ?v (Suc i) = 2 ^ 32 * (?v (Suc i) mod unat d) + 2 ^ 32 * (unat d * (?v (Suc i) div unat d))"
        by (simp only: distrib_left [symmetric] mod_mult_div_eq)
      then show ?thesis by (simp only: ut vi t mult.commute)
    qed
    then have "?v i = unat ?t + unat d * (2 ^ 32 * (?v (Suc i) div unat d))" by simp
    then have m: "?v i mod unat d = unat ?t mod unat d"
      and v: "?v i div unat d = unat ?t div unat d + 2 ^ 32 * (?v (Suc i) div unat d)"
      using div_split d(1) by blast+
    have "unat ?t < unat d * 2 ^ 32"
    proof -
      have "unat ?t < (unat temp + 1) * 2 ^ 32" unfolding ut using unat_less_32 [of "x ! i"] by simp
      also have "\<dots> \<le> unat d * 2 ^ 32" using \<open>unat temp < unat d\<close> by (intro mult_le_mono1) simp
      finally show ?thesis .
    qed
    then have "unat ?t div unat d < 2 ^ 32" by (simp add: less_mult_imp_div_less mult.commute)
    then have dig: "unat (ucast (?t div ucast d) :: u32) = unat ?t div unat d"
      by (simp add: unat_ucast_mod unat_div)
    have load: "load x i = Some (x ! i)" using i assms(2) by (simp add: array_simps)
    show "\<exists>r'. div_word d x i r = Some r' \<and> ?P i r'"
    proof (cases q)
      case None
      with q r load m show ?thesis by (simp add: div_word_def holds_num_def unat_mod Let_def)
    next
      case (Some z)
      with q i have z: "wq" "num_size z = n" "length (words z) = n" "\<not> neg z" "val (drop (Suc i) (words z)) = ?v (Suc i) div unat d"
        by (auto simp: holds_num_def)
      then have "val (drop i ((words z)[i := ucast (?t div ucast d)])) = ?v i div unat d"
        using i v dig by (simp add: val_drop_Suc)
      with Some z r load m i show ?thesis
        by (simp add: div_word_def holds_num_def unat_mod Let_def array_simps)
    qed
  qed simp
  then show ?thesis using assms(2) by auto
qed

section \<open>Optional results\<close>

text \<open>
  \<open>allocates\<close> is \<open>delivers\<close> without the normal form; \<open>opt_num\<close> relates a requested pointer
  to its value; \<open>divides\<close> is the contract of \<^verbatim>\<open>DivRem\<close>.
\<close>

definition allocates :: "mem \<Rightarrow> num_result \<Rightarrow> (ILBigNum \<Rightarrow> bool) \<Rightarrow> bool" where
  "allocates m r P \<longleftrightarrow> (\<exists>z m'. r = Some (z, m') \<and> later m m' \<and>
     (case z of None \<Rightarrow> out_of_memory m m' \<and> live m' = live m | Some n \<Rightarrow> P n \<and> live m' = Suc (live m)))"

definition opt_num :: "bool \<Rightarrow> (ILBigNum \<Rightarrow> bool) \<Rightarrow> ILBigNum option \<Rightarrow> bool" where
  "opt_num wanted P q \<longleftrightarrow> (case q of None \<Rightarrow> \<not> wanted | Some n \<Rightarrow> wanted \<and> P n)"

definition is_nat :: "nat \<Rightarrow> ILBigNum \<Rightarrow> bool" where
  "is_nat v n \<longleftrightarrow> wf_num n \<and> \<not> neg n \<and> mag n = v"

definition divides :: "mem \<Rightarrow> div_result \<Rightarrow> bool \<Rightarrow> bool \<Rightarrow> nat \<Rightarrow> nat \<Rightarrow> bool" where
  "divides m res wq wr v w \<longleftrightarrow> (\<exists>z m'. res = Some (z, m') \<and> later m m' \<and>
     (case z of None \<Rightarrow> out_of_memory m m' \<and> live m' = live m
      | Some (q, r) \<Rightarrow> opt_num wq (is_nat (v div w)) q \<and> opt_num wr (is_nat (v mod w)) r \<and>
          live m' = live m + flag wq + flag wr))"

lemma divides_cases:
  assumes "divides m res wq wr v w"
  obtains (null) m' where "res = Some (None, m')" "later m m'" "out_of_memory m m'" "live m' = live m"
    | (nums) q r m' where "res = Some (Some (q, r), m')" "later m m'" "opt_num wq (is_nat (v div w)) q"
        "opt_num wr (is_nat (v mod w)) r" "live m' = live m + flag wq + flag wr"
proof -
  from assms obtain z m' where z: "res = Some (z, m')" "later m m'"
    "case z of None \<Rightarrow> out_of_memory m m' \<and> live m' = live m
      | Some (q, r) \<Rightarrow> opt_num wq (is_nat (v div w)) q \<and> opt_num wr (is_nat (v mod w)) r \<and>
          live m' = live m + flag wq + flag wr" unfolding divides_def by blast
  show ?thesis
  proof (cases z)
    case None
    with z null show ?thesis by simp
  next
    case (Some qr)
    with z nums [of "fst qr" "snd qr" m'] show ?thesis by (cases qr) auto
  qed
qed

lemma allocates_delivers: "delivers m r P \<Longrightarrow> allocates m r (\<lambda>n. wf_num n \<and> P n)"
  by (fastforce simp: delivers_def allocates_def split: option.splits)

lemma allocates_mono: "allocates m r P \<Longrightarrow> (\<And>n. P n \<Longrightarrow> Q n) \<Longrightarrow> allocates m r Q"
  by (fastforce simp: allocates_def split: option.splits)

lemma allocates_num:
  "allocates m (alloc_num n m) (\<lambda>z. num_size z = n \<and> length (words z) = n \<and> \<not> neg z)"
  by (auto simp: alloc_num_def ILMalloc_def allocates_def later_def out_of_memory_def)

lemma allocates_cases:
  assumes "allocates m r P"
  obtains (null) m' where "r = Some (None, m')" "later m m'" "out_of_memory m m'" "live m' = live m"
    | (num) n m' where "r = Some (Some n, m')" "later m m'" "P n" "live m' = Suc (live m)"
  using assms by (auto simp: allocates_def split: option.splits)

lemma want_cases:
  assumes "allocates m (alloc m) P"
  obtains (null) m' where "want w alloc m = Some (None, m')" "later m m'" "out_of_memory m m'" "live m' = live m"
    | (num) q m' where "want w alloc m = Some (Some q, m')" "later m m'" "opt_num w P q" "live m' = live m + flag w"
proof (cases w)
  case True
  from assms show ?thesis
    by (cases rule: allocates_cases) (use True that in \<open>auto simp: want_def opt_num_def\<close>)
qed (use that in \<open>auto simp: want_def opt_num_def\<close>)

lemma free_opt:
  assumes "opt_num w P q" "live m = k + flag w"
  shows "ILBigNumFree q m = Some (m\<lparr>live := k\<rparr>)"
  using assms by (cases q) (auto simp: ILBigNumFree_def opt_num_def)

lemma later_live [simp]: "later m (m'\<lparr>live := k\<rparr>) = later m m'" "later (m\<lparr>live := k\<rparr>) m' = later m m'"
  by (simp_all add: later_def)

lemma out_of_memory_live [simp]:
  "out_of_memory m (m'\<lparr>live := k\<rparr>) = out_of_memory m m'" "out_of_memory (m\<lparr>live := k\<rparr>) m' = out_of_memory m m'"
  by (simp_all add: out_of_memory_def)

lemma with_remainder_divides:
  assumes "later m m1" "opt_num wq P q" "live m1 = live m + flag wq"
    and "allocates m1 (alloc m1) (is_nat (v mod w))"
    and "(\<And>n. P n \<Longrightarrow> is_nat (v div w) n)"
  shows "divides m (with_remainder q wr alloc m1) wq wr v w"
proof -
  have q: "opt_num wq (is_nat (v div w)) q" using assms(2,5) by (auto simp: opt_num_def split: option.splits)
  from assms(4) show ?thesis
  proof (cases rule: want_cases [where w = wr])
    case (null m2)
    with assms(1,3) free_opt [OF assms(2), of m2 "live m"] show ?thesis
      by (auto simp: with_remainder_def divides_def intro: later_trans out_of_memory_mono)
  next
    case (num r m2)
    with assms(1,3) q show ?thesis
      by (auto simp: with_remainder_def divides_def intro: later_trans)
  qed
qed

lemma value_nat: "value_of n = int k \<Longrightarrow> \<not> neg n \<Longrightarrow> mag n = k"
  by (simp add: value_of_def)

lemma from_int_is_nat: "allocates m (ILBigNumFromInt w m) (is_nat (unat w))"
  by (rule allocates_mono [OF allocates_delivers [OF from_int_correct]])
    (unfold is_nat_def, blast intro: value_nat)

lemma div_zero_divides:
  assumes "v div w = 0" "\<And>m. allocates m (alloc m) (is_nat (v mod w))"
  shows "divides m (do { (q, m) \<leftarrow> want wq (ILBigNumFromInt 0) m;
        case q of None \<Rightarrow> Some (None, m) | Some q \<Rightarrow> with_remainder q wr alloc m }) wq wr v w"
  using from_int_is_nat [of m 0]
proof (cases rule: want_cases [where w = wq])
  case (null m')
  then show ?thesis by (simp add: divides_def)
next
  case (num q m')
  have "divides m (with_remainder q wr alloc m') wq wr v w"
    by (rule with_remainder_divides [OF num(2-4)]) (use assms in simp_all)
  with num(1) show ?thesis by simp
qed

lemma normalize_opt_correct:
  assumes "holds_num w n (\<lambda>ws. val ws = v) q"
  shows "\<exists>q'. normalize_opt q = Some q' \<and> opt_num w (is_nat v) q'"
proof (cases q)
  case None
  with assms show ?thesis by (simp add: normalize_opt_def holds_num_def opt_num_def)
next
  case (Some z)
  with assms have z: "w" "num_size z \<le> length (words z)" "num_size z = length (words z)" "\<not> neg z" "val (words z) = v"
    by (auto simp: holds_num_def)
  from normalize_correct [OF z(2)] obtain n where "NormalizeBigNum z = Some n" "wf_num n"
    "mag n = val (take (num_size z) (words z))" "neg n \<longleftrightarrow> neg z \<and> mag n \<noteq> 0" by blast
  with Some z show ?thesis by (auto simp: normalize_opt_def opt_num_def is_nat_def)
qed

lemma holds_opt: "opt_num w (\<lambda>z. num_size z = n \<and> length (words z) = n \<and> \<not> neg z) q \<Longrightarrow> holds_num w n (\<lambda>_. True) q"
  by (auto simp: opt_num_def holds_num_def split: option.splits)

lemma opt_holds: "holds_num w n P q \<Longrightarrow> opt_num w (\<lambda>_. True) q"
  by (auto simp: opt_num_def holds_num_def split: option.splits)

lemma div_single_divides:
  assumes "wf_num x" "wf_num y" "num_size y = 1"
  shows "divides m (div_single x y wq wr m) wq wr (mag x) (mag y)"
proof -
  have ly: "0 < length (words y)" "words y ! 0 \<noteq> 0" and lx: "num_size x \<le> length (words x)"
    using assms by (auto simp: wf_num_def)
  have my: "mag y = unat (words y ! 0)"
    using assms(3) ly val_take_Suc [of 0 "words y"] by (simp add: mag_def)
  from allocates_num [of m "num_size x"] show ?thesis
  proof (cases rule: want_cases [where w = wq])
    case (null m')
    then show ?thesis by (simp add: div_single_def divides_def)
  next
    case (num q m1)
    from div_word_loop [OF ly(2) lx holds_opt [OF num(3)], folded my, folded mag_def] obtain temp q2 where l:
      "for_each (div_word (words y ! 0) (words x)) (rev [0..<num_size x]) (0, q) = Some (temp, q2)"
      "unat temp = mag x mod mag y" "holds_num wq (num_size x) (\<lambda>ws. val ws = mag x div mag y) q2"
      by blast
    from normalize_opt_correct [OF l(3)] obtain q3 where q3: "normalize_opt q2 = Some q3"
      "opt_num wq (is_nat (mag x div mag y)) q3" by blast
    have "unat temp < 2 ^ 32" using l(2) my unat_less_32 [of "words y ! 0"] ly(2)
      by (metis mod_less_divisor less_trans unat_gt_0 word_neq_0_conv)
    then have r: "unat (ucast temp :: u32) = mag x mod mag y" using l(2) by (simp add: unat_ucast_mod)
    from from_int_is_nat [of m1 "ucast temp"] show ?thesis
    proof (cases rule: want_cases [where w = wr])
      case (null m2)
      with num l ly free_opt [OF opt_holds [OF l(3)], of m2 "live m"] show ?thesis
        by (auto simp: div_single_def divides_def with_remainder_def array_simps intro: later_trans out_of_memory_mono)
    next
      case (num r m2)
      with \<open>want wq _ m = _\<close> \<open>later m m1\<close> \<open>live m1 = _\<close> l ly q3 r show ?thesis
        by (auto simp: div_single_def divides_def with_remainder_def array_simps intro: later_trans)
    qed
  qed
qed

section \<open>Normalisation\<close>

lemma top_bit:
  fixes w :: u32
  assumes "unat w < 2 ^ Suc k"
  shows "bit w k \<longleftrightarrow> 2 ^ k \<le> unat w"
proof -
  have "bit w k \<longleftrightarrow> odd (unat w div 2 ^ k)" by (simp add: bit_unsigned_iff flip: bit_iff_odd)
  moreover have "unat w div 2 ^ k < 2" using assms by (simp add: less_mult_imp_div_less)
  moreover have "unat w div 2 ^ k = 0 \<longleftrightarrow> unat w < 2 ^ k" by (simp add: div_eq_0_iff)
  ultimately show ?thesis by (cases "unat w div 2 ^ k = 0") (auto simp: less_2_cases_iff not_less)
qed

lemma find_shift_correct:
  assumes "w \<noteq> 0"
  shows "\<exists>s\<le>31. find_shift w 0 = Some s \<and> 2 ^ 31 \<le> unat w * 2 ^ s \<and> unat w * 2 ^ s < 2 ^ 32"
proof -
  have zero: "w AND drop_bit k 0x80000000 = 0 \<longleftrightarrow> \<not> bit w (31 - k)" if "k \<le> 31" for k
  proof -
    have "drop_bit k (0x80000000 :: u32) = 2 ^ (31 - k)"
      using that drop_bit_exp_eq [of k 31, where 'a = u32] by simp
    then show ?thesis by (simp add: and_exp_eq_0_iff_not_bit)
  qed
  have "\<exists>s\<le>31. find_shift w k = Some s \<and> 2 ^ 31 \<le> unat w * 2 ^ s \<and> unat w * 2 ^ s < 2 ^ 32"
    if "d = 31 - k" "k \<le> 31" "unat w < 2 ^ Suc (31 - k)" for d k
    using that
  proof (induction d arbitrary: k)
    case 0
    with assms have "unat w = 1" by (cases "unat w") (auto simp: unat_eq_0)
    moreover have "k = 31" using 0 by simp
    ultimately show ?case using top_bit [of w 0] zero [of 31] by (simp add: find_shift.simps)
  next
    case (Suc d)
    show ?case
    proof (cases "bit w (31 - k)")
      case True
      with Suc.prems top_bit have "2 ^ (31 - k) \<le> unat w" by blast
      then have "2 ^ (31 - k) * 2 ^ k \<le> unat w * 2 ^ k" "unat w * 2 ^ k < 2 ^ Suc (31 - k) * 2 ^ k"
        using Suc.prems by (simp_all only: mult_le_mono1 mult_less_mono1 zero_less_power zero_less_numeral)
      moreover have "2 ^ (31 - k) * 2 ^ k = (2 ^ 31 :: nat)" "2 ^ Suc (31 - k) * 2 ^ k = (2 ^ 32 :: nat)"
        using Suc.prems(2) by (simp_all flip: power_add)
      ultimately have "2 ^ 31 \<le> unat w * 2 ^ k" "unat w * 2 ^ k < 2 ^ 32" by (simp_all only:)
      then show ?thesis using True zero Suc.prems by (subst find_shift.simps) auto
    next
      case False
      with Suc.prems top_bit have "unat w < 2 ^ (31 - k)" by (meson not_le)
      moreover have "31 - k = Suc (31 - Suc k)" using Suc.prems by simp
      ultimately have "unat w < 2 ^ Suc (31 - Suc k)" by simp
      with Suc.IH [of "Suc k"] Suc.prems zero False show ?thesis by (subst find_shift.simps) auto
    qed
  qed
  from this [of 31 0] unat_less_32 [of w] show ?thesis by simp
qed

lemma below_shift: "unat (w :: u32) * k + k \<le> 2 ^ 32 * k"
  using mult_le_mono1 [of "unat w + 1" "2 ^ 32" k] unat_less_32 [of w] by simp

lemma pow_le_31: "s \<le> 31 \<Longrightarrow> (2 ^ s :: nat) \<le> 2 ^ 31"
  by (rule power_increasing) auto

lemma or_push:
  fixes temp :: u64 and w :: u32
  assumes "s \<le> 31" "unat temp < 2 ^ s"
  shows "unat (temp OR push_bit s (ucast w)) = unat temp + unat w * 2 ^ s"
proof -
  have "\<not> bit temp n" if "s \<le> n" for n
  proof -
    have "unat temp < 2 ^ n" using assms(2) that by (meson less_le_trans one_le_numeral power_increasing)
    then have "\<not> bit (unat temp) n" by (simp add: bit_iff_odd)
    then show ?thesis by (simp add: bit_unsigned_iff)
  qed
  then have "temp OR push_bit s (ucast w) = temp + push_bit s (ucast w)"
    by (intro disjunctive_add_eq_or [symmetric] word64_eqI) (auto simp: bit_simps)
  moreover have "unat (push_bit s (ucast w :: u64)) = unat w * 2 ^ s"
  proof -
    have "unat w * 2 ^ s < 2 ^ 32 * 2 ^ 31"
      using unat_less_32 [of w] pow_le_31 [OF assms(1)] by (intro mult_less_le_imp_less) auto
    then show ?thesis
      by (subst unsigned_push_bit_eq) (simp add: push_bit_eq_mult take_bit_eq_mod)
  qed
  moreover have "unat temp + unat w * 2 ^ s < 2 ^ 64"
  proof -
    have "unat temp + unat w * 2 ^ s < 2 ^ 32 * 2 ^ s" using assms(2) below_shift [of w "2 ^ s"] by linarith
    also have "\<dots> \<le> 2 ^ 32 * 2 ^ 31" using pow_le_31 [OF assms(1)] by (intro mult_le_mono2)
    finally show ?thesis by simp
  qed
  ultimately show ?thesis by (simp add: unat_word_ariths)
qed

lemma shift_loop:
  assumes "s \<le> 31" "n \<le> length x" "n \<le> length p"
  shows "\<exists>temp p'. for_each (shift_word s x) [0..<n] (0, p) = Some (temp, p') \<and> length p' = length p \<and>
    unat temp < 2 ^ s \<and> val (take n p') + W n * unat temp = val (take n x) * 2 ^ s"
proof -
  let ?P = "\<lambda>i (temp :: u64, p'). length p' = length p \<and> unat temp < 2 ^ s \<and>
    val (take i p') + W i * unat temp = val (take i x) * 2 ^ s"
  have "\<exists>r. for_each (shift_word s x) [0..<n] (0, p) = Some r \<and> ?P n r"
  proof (rule for_up)
    fix i r
    assume i: "i < n" and "?P i r"
    then obtain temp p' where r: "r = (temp, p')" and l: "length p' = length p" and t: "unat temp < 2 ^ s"
      and inv: "val (take i p') + W i * unat temp = val (take i x) * 2 ^ s" by (cases r) auto
    let ?t = "temp OR push_bit s (ucast (x ! i)) :: u64"
    have ut: "unat ?t = unat temp + unat (x ! i) * 2 ^ s" by (rule or_push [OF assms(1) t])
    have hi: "unat (drop_bit 32 ?t) < 2 ^ s"
    proof -
      have "unat ?t < 2 ^ 32 * 2 ^ s" using t below_shift [of "x ! i" "2 ^ s"] unfolding ut by linarith
      then show ?thesis unfolding unat_drop_bit by (simp only: less_mult_imp_div_less mult.commute)
    qed
    have lo: "unat (ucast ?t :: u32) + 2 ^ 32 * unat (drop_bit 32 ?t) = unat temp + unat (x ! i) * 2 ^ s"
      unfolding ut [symmetric] unat_drop_bit unat_ucast_mod by (simp only: len_num0 len_num1 len_bit0) simp
    have "val (take (Suc i) (p'[i := ucast ?t])) + W (Suc i) * unat (drop_bit 32 ?t) =
        val (take i p') + W i * (unat (ucast ?t :: u32) + 2 ^ 32 * unat (drop_bit 32 ?t))"
      using i l assms(3) by (simp add: val_take_Suc_update W_Suc algebra_simps)
    also have "\<dots> = (val (take i p') + W i * unat temp) + W i * unat (x ! i) * 2 ^ s"
      by (simp only: lo) (simp add: algebra_simps)
    also have "\<dots> = val (take (Suc i) x) * 2 ^ s"
      using i assms(2) by (simp only: inv) (simp add: val_take_Suc algebra_simps)
    finally show "\<exists>r'. shift_word s x i r = Some r' \<and> ?P (Suc i) r'"
      using i l assms hi by (simp add: r shift_word_def array_simps Let_def)
  qed (use assms in auto)
  then show ?thesis by auto
qed

lemma shift_in_mod:
  fixes v w :: nat
  assumes "w < 2 ^ 32"
  shows "(v mod 2 ^ 64 * 2 ^ 32) mod 2 ^ 64 + w = (w + 2 ^ 32 * v) mod 2 ^ 64"
proof -
  have e: "(k * 2 ^ 32) mod 2 ^ 64 = 2 ^ 32 * (k mod 2 ^ 32)" for k :: nat
    using mult_mod_right [of "2 ^ 32" k "2 ^ 32 :: nat"] by (simp add: mult.commute)
  have "v mod 2 ^ 64 mod 2 ^ 32 = v mod 2 ^ 32" by (simp add: mod_mod_cancel)
  moreover have "(w + 2 ^ 32 * v) mod 2 ^ 64 = w + 2 ^ 32 * (v mod 2 ^ 32)"
  proof -
    have "(w + 2 ^ 32 * v) mod 2 ^ 64 = (w + 2 ^ 32 * (v mod 2 ^ 32)) mod 2 ^ 64"
      using e [of v] by (metis mod_add_right_eq mod_mod_trivial mult.commute)
    also have "\<dots> = w + 2 ^ 32 * (v mod 2 ^ 32)"
    proof (rule mod_less)
      have "v mod 2 ^ 32 \<le> 2 ^ 32 - 1" by (simp add: less_Suc_eq_le [symmetric])
      with assms show "w + 2 ^ 32 * (v mod 2 ^ 32) < 2 ^ 64" by simp
    qed
    finally show ?thesis .
  qed
  ultimately show ?thesis unfolding e by simp
qed

lemma digit_mod:
  fixes v :: nat
  assumes "s \<le> 31"
  shows "(v mod 2 ^ 64) div 2 ^ s mod 2 ^ 32 = v div 2 ^ s mod 2 ^ 32"
proof -
  have "take_bit 32 (drop_bit s (take_bit 64 v)) = take_bit 32 (drop_bit s v)"
    using assms by (simp add: drop_bit_take_bit min_absorb1)
  then show ?thesis by (simp only: take_bit_eq_mod drop_bit_eq_div)
qed

lemma unshift_loop:
  assumes "s \<le> 31" "n \<le> length p" "length r = n"
  shows "\<exists>temp r'. for_each (unshift_word s p) (rev [0..<n]) (0, r) = Some (temp, r') \<and> length r' = n \<and>
    val r' = val (take n p) div 2 ^ s"
proof -
  let ?v = "\<lambda>i. val (drop i (take n p))"
  let ?P = "\<lambda>i (temp :: u64, r'). length r' = n \<and> unat temp = ?v i mod 2 ^ 64 \<and> val (drop i r') = ?v i div 2 ^ s"
  have "\<exists>q. for_each (unshift_word s p) (rev [0..<n]) (0, r) = Some q \<and> ?P 0 q"
  proof (rule for_down)
    show "?P n (0, r)" using assms by simp
  next
    fix i q
    assume i: "i < n" and "?P (Suc i) q"
    then obtain temp r' where q: "q = (temp, r')" and l: "length r' = n" and t: "unat temp = ?v (Suc i) mod 2 ^ 64"
      and inv: "val (drop (Suc i) r') = ?v (Suc i) div 2 ^ s" by (cases q) auto
    let ?t = "push_bit 32 temp OR ucast (p ! i) :: u64"
    have vi: "?v i = unat (p ! i) + 2 ^ 32 * ?v (Suc i)" using i assms(2) val_drop_Suc [of i "take n p"] by simp
    have ut: "unat ?t = ?v i mod 2 ^ 64"
      unfolding unat_shift_or t vi by (rule shift_in_mod [OF unat_less_32])
    have dig: "unat (ucast (drop_bit s ?t) :: u32) = (?v i div 2 ^ s) mod 2 ^ 32"
      unfolding unat_ucast_mod unat_drop_bit ut using digit_mod [OF assms(1)] by simp
    have "?v i div 2 ^ 32 = ?v (Suc i)" unfolding vi using unat_less_32 [of "p ! i"] by simp
    then have "?v i div 2 ^ s div 2 ^ 32 = ?v (Suc i) div 2 ^ s" by (metis div_mult2_eq mult.commute)
    then have "val (drop i (r'[i := ucast (drop_bit s ?t)])) = ?v i div 2 ^ s"
      using i l inv dig mod_mult_div_eq [of "?v i div 2 ^ s" "2 ^ 32"] by (simp add: val_drop_Suc)
    with ut i l assms show "\<exists>q'. unshift_word s p i q = Some q' \<and> ?P i q'"
      by (simp add: q unshift_word_def array_simps Let_def)
  qed simp
  then show ?thesis by auto
qed

section \<open>One quotient digit\<close>

text \<open>
  The loops below change the words from \<open>j\<close> on of the dividend \<open>p\<close>; their invariants speak
  about the value of the whole array.
\<close>

lemma borrow_word':
  fixes a b :: u32
  shows "unat (if c then a - (b + 1) else a - b) + unat b + flag c =
      unat a + 2 ^ 32 * flag (if c then \<not> (a - (b + 1) < a) else a - b > a)"
  using borrow_word [of c a b] unfolding diff_diff_eq .

lemma borrow_update:
  assumes "j + i < length p" "unat w + b + flag c = unat (p ! (j + i)) + 2 ^ 32 * flag c'"
  shows "val (p[j + i := w]) + W (j + i) * (b + flag c) = val p + W (Suc (j + i)) * flag c'"
proof -
  have "val (p[j + i := w]) + W (j + i) * unat (p ! (j + i)) + W (j + i) * (b + flag c) =
      val p + W (j + i) * (unat w + b + flag c)"
    using val_update [OF assms(1), of w] by (simp add: algebra_simps)
  also have "\<dots> = (val p + W (Suc (j + i)) * flag c') + W (j + i) * unat (p ! (j + i))"
    by (simp only: assms(2) W_Suc) (simp add: algebra_simps)
  finally show ?thesis by (simp only: add_right_cancel add.commute add.left_commute)
qed

lemma mulsub_step:
  fixes vp vq v0 A B b c c' d t t' yi :: nat
  assumes "vp + A * d = v0 + B * (t + c)" "vq + B * (b + c) = vp + B * 2 ^ 32 * c'" "b + 2 ^ 32 * t' = t + yi * d"
  shows "vq + (A + B * yi) * d = v0 + B * 2 ^ 32 * (t' + c')"
proof -
  have "B * b + B * 2 ^ 32 * t' = B * t + B * yi * d"
    using arg_cong [OF assms(3), of "(*) B"] by (simp only: distrib_left mult.assoc)
  with assms(1,2) show ?thesis by (simp add: algebra_simps)
qed

lemma mulsub_loop:
  assumes "n \<le> length y" "j + n \<le> length p"
  shows "\<exists>temp c p'. for_each (mulsub_word d y j) [0..<n] (0, False, p) = Some (temp, c, p') \<and>
    length p' = length p \<and> drop (j + n) p' = drop (j + n) p \<and>
    val p' + W j * val (take n y) * unat d = val p + W (j + n) * (unat temp + flag c) \<and> unat temp < 2 ^ 32"
proof -
  let ?P = "\<lambda>i (temp :: u64, c, p'). length p' = length p \<and> drop (j + i) p' = drop (j + i) p \<and>
    val p' + W j * val (take i y) * unat d = val p + W (j + i) * (unat temp + flag c) \<and> unat temp < 2 ^ 32"
  have "\<exists>r. for_each (mulsub_word d y j) [0..<n] (0, False, p) = Some r \<and> ?P n r"
  proof (rule for_up [where P = ?P])
    fix i r
    assume i: "i < n" and "?P i r"
    then obtain temp c p' where r: "r = (temp, c, p')" and l: "length p' = length p"
      and f: "drop (j + i) p' = drop (j + i) p" and t: "unat temp < 2 ^ 32"
      and inv: "val p' + W j * val (take i y) * unat d = val p + W (j + i) * (unat temp + flag c)" by (cases r) auto
    let ?t = "temp + ucast (y ! i) * ucast d :: u64"
    have ut: "unat ?t = unat temp + unat (y ! i) * unat d"
    proof -
      have "unat (y ! i) * unat d \<le> (2 ^ 32 - 1) * (2 ^ 32 - 1)"
        using unat_less_32 [of "y ! i"] unat_less_32 [of d] by (intro mult_le_mono) simp_all
      then have "unat temp + unat (y ! i) * unat d < 2 ^ 64" using t by simp
      then show ?thesis by (simp add: unat_word_ariths)
    qed
    let ?b = "ucast ?t :: u32" and ?a = "p' ! (j + i)"
    let ?w = "if c then ?a - (?b + 1) else ?a - ?b"
    let ?c = "if c then \<not> (?a - (?b + 1) < ?a) else ?a - ?b > ?a"
    have lo: "unat ?b + 2 ^ 32 * unat (drop_bit 32 ?t) = unat temp + unat (y ! i) * unat d"
      unfolding ut [symmetric] unat_drop_bit unat_ucast_mod by (simp only: len_num0 len_num1 len_bit0) simp
    have len: "j + i < length p'" using i l assms(2) by simp
    have "val (p'[j + i := ?w]) + W (j + i) * (unat ?b + flag c) = val p' + W (Suc (j + i)) * flag ?c"
      by (rule borrow_update [OF len borrow_word'])
    then have "val (p'[j + i := ?w]) + W (j + i) * (unat ?b + flag c) = val p' + W (j + i) * 2 ^ 32 * flag ?c"
      by (simp only: W_Suc mult.commute mult.left_commute)
    from mulsub_step [OF inv this lo]
    have "val (p'[j + i := ?w]) + (W j * val (take i y) + W (j + i) * unat (y ! i)) * unat d =
        val p + W (j + i) * 2 ^ 32 * (unat (drop_bit 32 ?t) + flag ?c)" .
    moreover have "W j * val (take i y) + W (j + i) * unat (y ! i) = W j * val (take (Suc i) y)"
      using i assms(1) by (simp add: val_take_Suc W_add distrib_left)
    moreover have "W (j + i) * 2 ^ 32 = W (j + Suc i)" by (simp add: W_Suc)
    ultimately have "val (p'[j + i := ?w]) + W j * val (take (Suc i) y) * unat d =
        val p + W (j + Suc i) * (unat (drop_bit 32 ?t) + flag ?c)" by (simp only:)
    moreover have "drop (j + Suc i) (p'[j + i := ?w]) = drop (j + Suc i) p"
    proof -
      have "drop (j + Suc i) p' = drop 1 (drop (j + i) p')" by simp
      also have "\<dots> = drop (j + Suc i) p" unfolding f by simp
      finally show ?thesis by simp
    qed
    moreover have "unat (drop_bit 32 ?t) < 2 ^ 32"
      unfolding unat_drop_bit using unat_less_64 [of ?t] by simp
    ultimately show "\<exists>r'. mulsub_word d y j i r = Some r' \<and> ?P (Suc i) r'"
      using i l assms len by (cases c) (simp_all add: r mulsub_word_def array_simps Let_def)
  qed (use assms in auto)
  then show ?thesis by auto
qed

lemma sub_loop:
  assumes "n \<le> length y" "j + n \<le> length p"
  shows "\<exists>c p'. for_each (sub_word y j) [0..<n] (False, p) = Some (c, p') \<and>
    length p' = length p \<and> drop (j + n) p' = drop (j + n) p \<and>
    val p' + W j * val (take n y) = val p + W (j + n) * flag c"
proof -
  let ?P = "\<lambda>i (c, p'). length p' = length p \<and> drop (j + i) p' = drop (j + i) p \<and>
    val p' + W j * val (take i y) = val p + W (j + i) * flag c"
  have "\<exists>r. for_each (sub_word y j) [0..<n] (False, p) = Some r \<and> ?P n r"
  proof (rule for_up [where P = ?P])
    fix i r
    assume i: "i < n" and "?P i r"
    then obtain c p' where r: "r = (c, p')" and l: "length p' = length p" and f: "drop (j + i) p' = drop (j + i) p"
      and inv: "val p' + W j * val (take i y) = val p + W (j + i) * flag c" by (cases r) auto
    let ?b = "y ! i" and ?a = "p' ! (j + i)"
    let ?w = "if c then ?a - (?b + 1) else ?a - ?b"
    let ?c = "if c then \<not> (?a - (?b + 1) < ?a) else ?a - ?b > ?a"
    have len: "j + i < length p'" using i l assms(2) by simp
    have "val (p'[j + i := ?w]) + W (j + i) * (unat ?b + flag c) = val p' + W (Suc (j + i)) * flag ?c"
      by (rule borrow_update [OF len borrow_word'])
    moreover have "W j * val (take (Suc i) y) = W j * val (take i y) + W (j + i) * unat ?b"
      using i assms(1) by (simp add: val_take_Suc W_add distrib_left)
    ultimately have "val (p'[j + i := ?w]) + W j * val (take (Suc i) y) = val p + W (j + Suc i) * flag ?c"
      using inv by (simp only: distrib_left add_Suc_right)
    moreover have "drop (j + Suc i) (p'[j + i := ?w]) = drop (j + Suc i) p"
    proof -
      have "drop (j + Suc i) p' = drop 1 (drop (j + i) p')" by simp
      also have "\<dots> = drop (j + Suc i) p" unfolding f by simp
      finally show ?thesis by simp
    qed
    ultimately show "\<exists>r'. sub_word y j i r = Some r' \<and> ?P (Suc i) r'"
      using i l assms len by (cases c) (simp_all add: r sub_word_def array_simps Let_def)
  qed (use assms in auto)
  then show ?thesis by auto
qed

lemma val_drop_0:
  assumes "k \<le> length p" "val p < W k"
  shows "val (drop k p) = 0"
proof (rule ccontr)
  assume "val (drop k p) \<noteq> 0"
  then have "W k * 1 \<le> W k * val (drop k p)" by (intro mult_le_mono2) simp
  with val_split [of p k] assms show False by (simp add: min_absorb2)
qed

text \<open>The top word absorbs what the loop has left over.\<close>

lemma top_word_sub:
  assumes "k < length p" "length q = length p" "drop k q = drop k p" "val p < W (Suc k)"
    and "val q + X = val p + W k * e" "X \<le> val p"
  shows "e \<le> unat (q ! k)" "unat w = unat (q ! k) - e \<Longrightarrow> val (q[k := w]) = val p - X"
proof -
  have "drop (Suc k) q = drop 1 (drop k q)" by simp
  also have "\<dots> = drop (Suc k) p" unfolding assms(3) by simp
  finally have "val (drop (Suc k) q) = 0" using val_drop_0 [of "Suc k" p] assms by simp
  then have vq: "val q = val (take k q) + W k * unat (q ! k)"
    using val_split [of q "Suc k"] assms(1,2) by (simp add: val_take_Suc min_absorb2)
  moreover have "val (take k q) < W k" using assms(1,2) by (intro val_take_bound) simp
  ultimately have "W k * e < W k * (unat (q ! k) + 1)" using assms(5,6) by (simp add: distrib_left)
  then have "e < unat (q ! k) + 1" by (metis nat_mult_less_cancel_disj)
  then show e: "e \<le> unat (q ! k)" by simp
  assume "unat w = unat (q ! k) - e"
  then have "W k * unat w + W k * e = W k * unat (q ! k)" using e by (simp add: distrib_left [symmetric])
  then show "val (q[k := w]) = val p - X"
    using val_update [of k q w] assms(1,2,5,6) by simp
qed

lemma correct_condition:
  assumes "n \<le> length y" "j + n < length p" "val p < W (Suc (j + n))"
  shows "p ! (j + n) \<noteq> 0 \<or> val (take n y) \<le> val (take n (drop j p)) \<longleftrightarrow> W j * val (take n y) \<le> val p"
proof -
  let ?Y = "val (take n y)" and ?S = "val (take n (drop j p))" and ?h = "unat (p ! (j + n))" and ?L = "val (take j p)"
  have "val (drop (Suc (j + n)) p) = 0" using assms by (intro val_drop_0) auto
  then have "val (drop (j + n) p) = ?h" using assms(2) by (simp add: val_drop_Suc)
  then have "val (drop j p) = ?S + W n * ?h" using val_split [of "drop j p" n] assms(2) by (simp add: min_absorb2 add.commute)
  then have vp: "val p = ?L + W j * (?S + W n * ?h)" using val_split [of p j] assms(2) by (simp add: min_absorb2)
  have L: "?L < W j" using assms(2) by (intro val_take_bound) simp
  have Y: "?Y < W n" using assms(1) by (intro val_take_bound)
  have "W j * ?Y \<le> val p \<longleftrightarrow> ?Y \<le> ?S + W n * ?h"
  proof
    assume "W j * ?Y \<le> val p"
    with vp L have "W j * ?Y < W j * (?S + W n * ?h + 1)" by (simp add: distrib_left)
    then have "?Y < ?S + W n * ?h + 1" by (metis nat_mult_less_cancel_disj)
    then show "?Y \<le> ?S + W n * ?h" by simp
  next
    assume "?Y \<le> ?S + W n * ?h"
    then have "W j * ?Y \<le> W j * (?S + W n * ?h)" by (rule mult_le_mono2)
    with vp show "W j * ?Y \<le> val p" by linarith
  qed
  moreover have "?Y \<le> ?S + W n * ?h" if "p ! (j + n) \<noteq> 0"
  proof -
    from that have "1 \<le> ?h" by (simp add: Suc_le_eq unat_gt_0)
    then have "W n * 1 \<le> W n * ?h" by (rule mult_le_mono2)
    with Y show ?thesis by linarith
  qed
  ultimately show ?thesis by (cases "p ! (j + n) = 0") auto
qed

lemma correct_loop_correct:
  assumes "n \<le> length y" "j + n < length p" "val p < W (Suc (j + n))" "val (take n y) \<noteq> 0"
    and "unat d + val p div (W j * val (take n y)) < 2 ^ 32"
  shows "\<exists>d' p'. correct_loop y n j d p = Some (d', p') \<and> length p' = length p \<and>
    val p' = val p mod (W j * val (take n y)) \<and> unat d' = unat d + val p div (W j * val (take n y))"
  using assms
proof (induction "val p" arbitrary: d p rule: less_induct)
  case less
  let ?Y = "W j * val (take n y)"
  have cmp: "BigRangeGe (drop j p) y n = Some (val (take n y) \<le> val (take n (drop j p)))"
    using less.prems compare_loop_correct [of n "drop j p" y] by (simp add: BigRangeGe_def)
  note cond = correct_condition [OF less.prems(1-3)]
  show ?case
  proof (cases "?Y \<le> val p")
    case False
    with cond cmp less.prems show ?thesis
      by (subst correct_loop.simps) (auto simp: array_simps)
  next
    case True
    obtain c q where q: "for_each (sub_word y j) [0..<n] (False, p) = Some (c, q)" "length q = length p"
      "drop (j + n) q = drop (j + n) p" "val q + ?Y = val p + W (j + n) * flag c"
      using sub_loop [of n y j p] less.prems by auto
    note top = top_word_sub [OF less.prems(2) q(2,3) less.prems(3) q(4) True]
    define p2 where "p2 = (if c then q[j + n := q ! (j + n) - 1] else q)"
    have p2: "length p2 = length p" "val p2 = val p - ?Y"
    proof -
      show "length p2 = length p" by (simp add: p2_def q)
      have "unat (q ! (j + n) - 1) = unat (q ! (j + n)) - 1" if c
        using top(1) that by (simp add: unat_minus_one unat_gt_0 Suc_le_eq)
      with top(2) [of "q ! (j + n) - 1"] q(4) show "val p2 = val p - ?Y" by (auto simp: p2_def)
    qed
    have run: "correct_loop y n j d p = correct_loop y n j (d + 1) p2"
      using True cond cmp q less.prems(2)
      by (subst correct_loop.simps) (auto simp: array_simps p2_def)
    have Y: "0 < ?Y" using less.prems(4) by simp
    have dv: "val p div ?Y = Suc (val p2 div ?Y)" "val p mod ?Y = val p2 mod ?Y"
      using True Y p2(2) by (simp_all add: le_div_geq le_mod_geq)
    have d: "unat (d + 1) = unat d + 1" using less.prems(5) dv by (simp add: unat_word_ariths)
    have "val p2 < val p" using True Y p2(2) by linarith
    from less.hyps [OF this less.prems(1), of "d + 1"] p2 less.prems dv d
    show ?thesis unfolding run by (simp add: less_diff_conv)
  qed
qed

text \<open>The estimate never exceeds the quotient digit, because it divides by more than the divisor.\<close>

lemma top_two:
  assumes "0 < n" "j + n < length p" "val p < W (Suc (j + n))"
  shows "W (j + n - 1) * (unat (p ! (j + n)) * 2 ^ 32 + unat (p ! (j + n - 1))) \<le> val p"
proof -
  let ?k = "j + n - 1"
  have k: "Suc ?k = j + n" using assms(1) by simp
  have "val p = val (take (Suc (j + n)) p)"
    using val_split [of p "Suc (j + n)"] val_drop_0 [of "Suc (j + n)" p] assms by simp
  also have "\<dots> = val (take ?k p) + W ?k * unat (p ! ?k) + W (j + n) * unat (p ! (j + n))"
    using assms(2) k val_take_Suc [of ?k p] by (simp add: val_take_Suc)
  also have "W (j + n) = 2 ^ 32 * W ?k" using W_Suc [of ?k] k by simp
  finally show ?thesis by (simp add: algebra_simps)
qed

lemma estimate_correct:
  assumes n: "0 < n" "n \<le> length y" "j + n < length p" "val p < val (take n y) * W (Suc j)"
  shows "\<exists>d. estimate (y ! (n - 1)) p (j + n) = Some d \<and> W j * val (take n y) * unat d \<le> val p"
proof -
  let ?Y = "val (take n y)" and ?t = "y ! (n - 1)" and ?h = "unat (p ! (j + n))" and ?l = "unat (p ! (j + n - 1))"
  have Y: "?Y = val (take (n - 1) y) + W (n - 1) * unat ?t" "val (take (n - 1) y) < W (n - 1)"
    using n val_take_Suc [of "n - 1" y] val_take_bound [of "n - 1" y] by simp_all
  then have Yt: "?Y < W (n - 1) * (unat ?t + 1)" by (simp add: distrib_left)
  have Wn: "W (n - 1) * W (Suc j) = W (j + n)" using W_add [of "n - 1" "Suc j"] n(1) by (simp add: add.commute)
  have "?Y < W n" using n by (intro val_take_bound)
  then have "?Y * W (Suc j) < W n * W (Suc j)" by simp
  also have "\<dots> = W (Suc (j + n))" using W_add [of n "Suc j"] by (simp add: add.commute)
  finally have vp: "val p < W (Suc (j + n))" using n(4) by simp
  note two = top_two [OF n(1,3) vp]
  have "W (j + n) * ?h \<le> val p"
    using two W_Suc [of "j + n - 1"] n(1) by (simp add: distrib_left)
  also have "\<dots> < ?Y * W (Suc j)" by (rule n(4))
  also have "\<dots> \<le> W (n - 1) * (unat ?t + 1) * W (Suc j)" using Yt by (intro mult_le_mono1) simp
  also have "\<dots> = W (j + n) * (unat ?t + 1)" unfolding Wn [symmetric] by (simp only: ac_simps)
  finally have "?h < unat ?t + 1" by (metis nat_mult_less_cancel_disj)
  have bound: "W j * ?Y * d \<le> val p" if "d * (unat ?t + 1) \<le> ?h * 2 ^ 32 + ?l" for d
  proof -
    have "W j * ?Y * d \<le> W j * (W (n - 1) * (unat ?t + 1)) * d" using Yt by (intro mult_le_mono1 mult_le_mono2) simp
    also have "\<dots> = W (j + n - 1) * (d * (unat ?t + 1))" using W_add [of j "n - 1"] n(1)
      by (simp add: algebra_simps)
    also have "\<dots> \<le> W (j + n - 1) * (?h * 2 ^ 32 + ?l)" using that by (rule mult_le_mono2)
    finally show ?thesis using two by simp
  qed
  show ?thesis
  proof (cases "?t = 0xFFFFFFFF")
    case True
    then have "unat ?t + 1 = 2 ^ 32" by simp
    with bound [of ?h] True n(3) show ?thesis by (simp add: estimate_def array_simps)
  next
    case False
    then have "unat ?t \<noteq> unat (0xFFFFFFFF :: u32)" by (metis word_unat_eq_iff)
    then have t1: "unat (?t + 1) = unat ?t + 1" using unat_less_32 [of ?t] by (simp add: unat_word_ariths)
    let ?v = "push_bit 32 (ucast (p ! (j + n))) OR ucast (p ! (j + n - 1)) :: u64"
    have v: "unat ?v = ?h * 2 ^ 32 + ?l" using unat_less_32 [of "p ! (j + n)"] by (subst unat_shift_or_small) simp_all
    have "unat ?v < (unat ?t + 1) * 2 ^ 32"
    proof -
      have "unat ?v < (?h + 1) * 2 ^ 32" using v unat_less_32 [of "p ! (j + n - 1)"] by simp
      also have "\<dots> \<le> (unat ?t + 1) * 2 ^ 32" using \<open>?h < unat ?t + 1\<close> by (intro mult_le_mono1) simp
      finally show ?thesis .
    qed
    then have "unat ?v div (unat ?t + 1) < 2 ^ 32" by (simp add: less_mult_imp_div_less mult.commute)
    then have "unat (ucast (?v div ucast (?t + 1)) :: u32) = unat ?v div (unat ?t + 1)"
      using t1 by (simp add: unat_ucast_mod unat_div)
    moreover have "unat ?v div (unat ?t + 1) * (unat ?t + 1) \<le> ?h * 2 ^ 32 + ?l" unfolding v by (rule div_times_less_eq_dividend)
    ultimately have "W j * ?Y * unat (ucast (?v div ucast (?t + 1)) :: u32) \<le> val p" using bound by (simp only:)
    moreover have "load p (j + n) = Some (p ! (j + n))" "load p (j + n - 1) = Some (p ! (j + n - 1))"
      using n by (simp_all add: load_def)
    ultimately show ?thesis using False by (simp add: estimate_def)
  qed
qed

lemma div_step_correct:
  assumes n: "0 < n" "n \<le> length y" "j + n < length p" "val p < val (take n y) * W (Suc j)"
    and q: "holds_num wq N (\<lambda>ws. val (drop (Suc j) ws) = K) q" "j < N"
  shows "\<exists>p' q'. div_step y n j (p, q) = Some (p', q') \<and> length p' = length p \<and>
    val p' = val p mod (W j * val (take n y)) \<and>
    holds_num wq N (\<lambda>ws. val (drop j ws) = val p div (W j * val (take n y)) + 2 ^ 32 * K) q'"
proof -
  let ?Y = "W j * val (take n y)"
  have Y: "val (take n y) \<noteq> 0" using n(4) by (cases "val (take n y) = 0") auto
  have "val (take n y) < W n" using n by (intro val_take_bound)
  then have "val (take n y) * W (Suc j) < W n * W (Suc j)" by simp
  also have "\<dots> = W (Suc (j + n))" using W_add [of n "Suc j"] by (simp add: add.commute)
  finally have vp: "val p < W (Suc (j + n))" using n(4) by simp
  from estimate_correct [OF n] obtain d where d: "estimate (y ! (n - 1)) p (j + n) = Some d" "?Y * unat d \<le> val p" by auto
  obtain temp c r where r: "for_each (mulsub_word d y j) [0..<n] (0, False, p) = Some (temp, c, r)"
    "length r = length p" "drop (j + n) r = drop (j + n) p"
    "val r + ?Y * unat d = val p + W (j + n) * (unat temp + flag c)" "unat temp < 2 ^ 32"
    using mulsub_loop [of n y j p d] n by auto
  note top = top_word_sub [OF n(3) r(2,3) vp r(4) d(2)]
  let ?e = "ucast temp + (if c then 1 else 0) :: u32"
  let ?p2 = "r[j + n := r ! (j + n) - ?e]"
  have "unat ?e = unat temp + flag c"
    using top(1) r(5) unat_less_32 [of "r ! (j + n)"] by (auto simp: unat_word_ariths unat_ucast_mod flag_def)
  then have "unat (r ! (j + n) - ?e) = unat (r ! (j + n)) - (unat temp + flag c)"
    using top(1) by (simp add: unat_sub word_le_nat_alt)
  then have p2: "val ?p2 = val p - ?Y * unat d" by (rule top(2))
  have pos: "0 < ?Y" using Y by simp
  have split: "val p = val ?p2 + ?Y * unat d" using p2 d(2) by simp
  then have dv: "val p div ?Y = val ?p2 div ?Y + unat d" "val p mod ?Y = val ?p2 mod ?Y"
    using div_split [OF split] pos by auto
  have "val p < 2 ^ 32 * ?Y" using n(4) by (simp add: W_Suc ac_simps)
  then have small: "val p div ?Y < 2 ^ 32" by (simp only: less_mult_imp_div_less)
  then have "\<exists>d' p'. correct_loop y n j d ?p2 = Some (d', p') \<and> length p' = length ?p2 \<and>
    val p' = val ?p2 mod ?Y \<and> unat d' = unat d + val ?p2 div ?Y"
    using n r(2) vp p2 Y dv by (intro correct_loop_correct) auto
  then obtain d' p' where c: "correct_loop y n j d ?p2 = Some (d', p')" "length p' = length p" "val p' = val p mod ?Y"
    "unat d' = val p div ?Y" using dv r(2) by auto
  have run: "div_step y n j (p, q) = do { q \<leftarrow> (case q of None \<Rightarrow> Some None
           | Some z \<Rightarrow> do { ws \<leftarrow> store (words z) j d'; Some (Some (z\<lparr>words := ws\<rparr>)) });
     Some (p', q) }"
    using n(1-3) d(1) r(1,2) c(1) by (simp add: div_step_def array_simps cong: option.case_cong)
  show ?thesis
  proof (cases q)
    case None
    with q c run show ?thesis by (simp add: holds_num_def)
  next
    case (Some z)
    with q have "wq" "num_size z = N" "length (words z) = N" "\<not> neg z" "val (drop (Suc j) (words z)) = K"
      by (auto simp: holds_num_def)
    with Some q(2) c run show ?thesis by (simp add: holds_num_def array_simps val_drop_Suc)
  qed
qed

lemma div_nested:
  fixes a b c :: nat
  assumes "0 < b" "0 < c"
  shows "a div b = a mod (c * b) div b + c * (a div (c * b))" "a mod b = a mod (c * b) mod b"
proof -
  have "a = a mod (c * b) + b * (c * (a div (c * b)))" by (metis add.commute mult.assoc mult.commute mult_div_mod_eq)
  then show "a div b = a mod (c * b) div b + c * (a div (c * b))" using assms div_split(2) by (metis less_not_refl2)
  show "a mod b = a mod (c * b) mod b" by (simp add: mod_mod_cancel)
qed

lemma div_loop:
  assumes "0 < n" "n \<le> length y" "length p = k + n" "val p < val (take n y) * W k" "holds_num wq k (\<lambda>_. True) q"
  shows "\<exists>p' q'. for_each (div_step y n) (rev [0..<k]) (p, q) = Some (p', q') \<and> length p' = length p \<and>
    val p' = val p mod val (take n y) \<and> holds_num wq k (\<lambda>ws. val ws = val p div val (take n y)) q'"
proof -
  let ?Y = "val (take n y)"
  let ?P = "\<lambda>j (p', q'). length p' = length p \<and> val p' = val p mod (W j * ?Y) \<and>
    holds_num wq k (\<lambda>ws. val (drop j ws) = val p div (W j * ?Y)) q'"
  have Y: "0 < ?Y" using assms(4) by (cases "?Y = 0") auto
  have "\<exists>r. for_each (div_step y n) (rev [0..<k]) (p, q) = Some r \<and> ?P 0 r"
  proof (rule for_down [where P = ?P])
    have "val p < W k * ?Y" using assms(4) by (simp add: mult.commute)
    then show "?P k (p, q)" using assms(5) by (auto simp: holds_num_def split: option.splits)
  next
    fix j r
    assume j: "j < k" and "?P (Suc j) r"
    then obtain p1 q1 where r: "r = (p1, q1)" and l: "length p1 = length p" and v: "val p1 = val p mod (W (Suc j) * ?Y)"
      and q1: "holds_num wq k (\<lambda>ws. val (drop (Suc j) ws) = val p div (W (Suc j) * ?Y)) q1" by (cases r) auto
    have "val p1 < ?Y * W (Suc j)" unfolding v using Y by (simp add: mult.commute)
    moreover have "j + n < length p1" using j l assms(3) by simp
    ultimately obtain p2 q2 where s: "div_step y n j (p1, q1) = Some (p2, q2)" "length p2 = length p1"
      "val p2 = val p1 mod (W j * ?Y)"
      "holds_num wq k (\<lambda>ws. val (drop j ws) = val p1 div (W j * ?Y) + 2 ^ 32 * (val p div (W (Suc j) * ?Y))) q2"
      using div_step_correct [OF assms(1,2) _ _ q1 j, of p1] by auto
    have "W (Suc j) * ?Y = 2 ^ 32 * (W j * ?Y)" by (simp add: W_Suc)
    with div_nested [of "W j * ?Y" "2 ^ 32" "val p"] Y s v l show "\<exists>r'. div_step y n j r = Some r' \<and> ?P j r'"
      unfolding r by auto
  qed simp
  then show ?thesis by auto
qed

section \<open>The general case\<close>

lemma shifted_top:
  assumes "s \<le> 31" "unat (t :: u32) * 2 ^ s < 2 ^ 32"
  shows "(unat t + 1) * 2 ^ s \<le> 2 ^ 32"
proof -
  have e: "2 ^ (32 - s) * 2 ^ s = (2 ^ 32 :: nat)" using assms(1) by (simp flip: power_add)
  with assms(2) have "unat t * 2 ^ s < 2 ^ (32 - s) * 2 ^ s" by simp
  then have "unat t + 1 \<le> 2 ^ (32 - s)" by simp
  then have "(unat t + 1) * 2 ^ s \<le> 2 ^ (32 - s) * 2 ^ s" by (rule mult_le_mono1)
  with e show ?thesis by simp
qed

text \<open>The shifted divisor fills its top bit and does not overflow.\<close>

lemma shifted_divisor:
  assumes "wf_num y" "0 < num_size y" "words y ! (num_size y - 1) = t" "s \<le> 31"
    and "2 ^ 31 \<le> unat t * 2 ^ s" "unat t * 2 ^ s < 2 ^ 32"
  shows "mag y * 2 ^ s < W (num_size y)" "W (num_size y - 1) * 2 ^ 31 \<le> mag y * 2 ^ s"
proof -
  let ?k = "num_size y - 1"
  have m: "mag y = val (take ?k (words y)) + W ?k * unat t" "val (take ?k (words y)) < W ?k"
    using assms(1-3) val_take_Suc [of ?k "words y"] val_take_bound [of ?k "words y"] by (auto simp: mag_def wf_num_def)
  then have "mag y < W ?k * (unat t + 1)" by (simp add: distrib_left)
  then have "mag y * 2 ^ s < W ?k * (unat t + 1) * 2 ^ s" by simp
  also have "\<dots> = W ?k * ((unat t + 1) * 2 ^ s)" by (simp only: mult.assoc)
  also have "\<dots> \<le> W ?k * 2 ^ 32" using shifted_top [OF assms(4,6)] by (rule mult_le_mono2)
  also have "\<dots> = W (num_size y)" using W_Suc [of ?k] assms(2) by simp
  finally show "mag y * 2 ^ s < W (num_size y)" .
  have "W ?k * 2 ^ 31 \<le> W ?k * (unat t * 2 ^ s)" using assms(5) by (rule mult_le_mono2)
  also have "\<dots> \<le> mag y * 2 ^ s" unfolding m(1) by (simp add: algebra_simps)
  finally show "W ?k * 2 ^ 31 \<le> mag y * 2 ^ s" .
qed

lemma shift_divisor_loop:
  assumes "wf_num y" "length ws = num_size y" "s \<le> 31" "mag y * 2 ^ s < W (num_size y)"
  shows "\<exists>temp ws'. for_each (shift_word s (words y)) [0..<num_size y] (0, ws) = Some (temp, ws') \<and>
    length ws' = num_size y \<and> val (take (num_size y) ws') = mag y * 2 ^ s"
proof -
  obtain temp ws' where l: "for_each (shift_word s (words y)) [0..<num_size y] (0, ws) = Some (temp, ws')"
    "length ws' = num_size y" "val (take (num_size y) ws') + W (num_size y) * unat temp = mag y * 2 ^ s"
    using shift_loop [of s "num_size y" "words y" ws] assms by (auto simp: mag_def wf_num_def)
  have "unat temp = 0"
  proof (rule ccontr)
    assume "unat temp \<noteq> 0"
    then have "W (num_size y) * 1 \<le> W (num_size y) * unat temp" by (intro mult_le_mono2) simp
    with l(3) assms(4) show False by linarith
  qed
  with l show ?thesis by auto
qed

lemma shift_dividend_loop:
  assumes "wf_num x" "length ws = num_size x + 1" "s \<le> 31"
  shows "\<exists>temp ws'. for_each (shift_word s (words x)) [0..<num_size x] (0, ws) = Some (temp, ws') \<and>
    length ws' = num_size x + 1 \<and> val (ws'[num_size x := ucast temp]) = mag x * 2 ^ s"
proof -
  obtain temp ws' where l: "for_each (shift_word s (words x)) [0..<num_size x] (0, ws) = Some (temp, ws')"
    "length ws' = num_size x + 1" "unat temp < 2 ^ s"
    "val (take (num_size x) ws') + W (num_size x) * unat temp = mag x * 2 ^ s"
    using shift_loop [of s "num_size x" "words x" ws] assms by (auto simp: mag_def wf_num_def)
  have "unat temp < 2 ^ 32" using l(3) pow_le_31 [OF assms(3)] by simp
  then have "unat (ucast temp :: u32) = unat temp" by (simp add: unat_ucast_mod)
  then have "val (take (Suc (num_size x)) (ws'[num_size x := ucast temp])) = mag x * 2 ^ s"
    using l(2,4) by (simp only: val_take_Suc_update)
  with l(1,2) show ?thesis by auto
qed

lemma div_words_correct:
  assumes wf: "wf_num x" "wf_num y" "0 < num_size y" "num_size y \<le> num_size x"
    and len: "length (words nx) = num_size x + 1" "length (words ny) = num_size y"
    and q: "holds_num wq (num_size x - num_size y + 1) (\<lambda>_. True) q" and r: "holds_num wr (num_size y) (\<lambda>_. True) r"
  shows "\<exists>q' r'. div_words x y nx ny q r = Some (q', r') \<and>
    opt_num wq (is_nat (mag x div mag y)) q' \<and> opt_num wr (is_nat (mag x mod mag y)) r'"
proof -
  let ?n = "num_size y" and ?k = "num_size x - num_size y + 1"
  let ?t = "words y ! (?n - 1)"
  have ly: "load (words y) (?n - 1) = Some ?t" "?t \<noteq> 0" using wf by (auto simp: load_def wf_num_def)
  from find_shift_correct [OF ly(2)] obtain s where s: "s \<le> 31" "find_shift ?t 0 = Some s"
    "2 ^ 31 \<le> unat ?t * 2 ^ s" "unat ?t * 2 ^ s < 2 ^ 32" by auto
  note div_bounds = shifted_divisor [OF wf(2,3) refl s(1,3,4)]
  from shift_dividend_loop [OF wf(1) len(1) s(1)] obtain t1 p1 where p1:
    "for_each (shift_word s (words x)) [0..<num_size x] (0, words nx) = Some (t1, p1)" "length p1 = num_size x + 1"
    "val (p1[num_size x := ucast t1]) = mag x * 2 ^ s" by auto
  from shift_divisor_loop [OF wf(2) len(2) s(1) div_bounds(1)] obtain t2 y2 where y2:
    "for_each (shift_word s (words y)) [0..<?n] (0, words ny) = Some (t2, y2)" "length y2 = ?n" "val (take ?n y2) = mag y * 2 ^ s" by auto
  let ?p = "p1[num_size x := ucast t1]"
  have "mag x * 2 ^ s < W (num_size x) * 2 ^ 31"
    using mag_bound [of x] wf(1) pow_le_31 [OF s(1)] by (intro mult_less_le_imp_less) (auto simp: wf_num_def)
  also have "\<dots> = W (?n - 1) * 2 ^ 31 * W ?k" using W_add [of "?n - 1" ?k] wf(3,4) by simp
  also have "\<dots> \<le> mag y * 2 ^ s * W ?k" using div_bounds(2) by (rule mult_le_mono1)
  finally have "val ?p < val (take ?n y2) * W ?k" by (simp only: p1(3) y2(3))
  then obtain p2 q2 where d: "for_each (div_step y2 ?n) (rev [0..<?k]) (?p, q) = Some (p2, q2)" "length p2 = num_size x + 1"
    "val p2 = mag x * 2 ^ s mod (mag y * 2 ^ s)" "holds_num wq ?k (\<lambda>ws. val ws = mag x * 2 ^ s div (mag y * 2 ^ s)) q2"
    using div_loop [OF wf(3) _ _ _ q, of y2 ?p] y2 p1 wf(4) by auto
  have qv: "mag x * 2 ^ s div (mag y * 2 ^ s) = mag x div mag y" and rv: "val p2 = (mag x mod mag y) * 2 ^ s"
    using d(3) by (simp_all add: mult_mod_left)
  from normalize_opt_correct [OF d(4)] qv obtain q3 where q3: "normalize_opt q2 = Some q3"
    "opt_num wq (is_nat (mag x div mag y)) q3" by auto
  have "mag y * 2 ^ s \<noteq> 0" using div_bounds(2) by (metis W_pos le_zero_eq mult_is_0 neq0_conv power_not_zero zero_neq_numeral)
  then have "val p2 < W ?n" using d(3) div_bounds(1) by (metis less_trans mod_less_divisor neq0_conv)
  then have v2: "val (take ?n p2) = val p2"
    using val_split [of p2 ?n] val_drop_0 [of ?n p2] d(2) wf(4) by simp
  have "\<exists>r2 r3. (case r of None \<Rightarrow> Some None
         | Some z \<Rightarrow> do { (_, ws) \<leftarrow> for_each (unshift_word s p2) (rev [0..<num_size z]) (0, words z);
                            Some (Some (z\<lparr>words := ws\<rparr>)) }) = Some r2 \<and>
      normalize_opt r2 = Some r3 \<and> opt_num wr (is_nat (mag x mod mag y)) r3"
  proof (cases r)
    case None
    with r show ?thesis by (simp add: holds_num_def normalize_opt_def opt_num_def)
  next
    case (Some z)
    with r have z: "wr" "num_size z = ?n" "length (words z) = ?n" "\<not> neg z" by (auto simp: holds_num_def)
    from unshift_loop [OF s(1) _ z(3), of p2] d(2) wf(4) v2 rv obtain temp ws where u:
      "for_each (unshift_word s p2) (rev [0..<?n]) (0, words z) = Some (temp, ws)" "length ws = ?n" "val ws = mag x mod mag y"
      by auto
    have "holds_num wr ?n (\<lambda>ws. val ws = mag x mod mag y) (Some (z\<lparr>words := ws\<rparr>))"
      using z u by (simp add: holds_num_def)
    from normalize_opt_correct [OF this] Some z u show ?thesis by auto
  qed
  then obtain r2 r3 where r3: "(case r of None \<Rightarrow> Some None
         | Some z \<Rightarrow> do { (_, ws) \<leftarrow> for_each (unshift_word s p2) (rev [0..<num_size z]) (0, words z);
                            Some (Some (z\<lparr>words := ws\<rparr>)) }) = Some r2"
      "normalize_opt r2 = Some r3" "opt_num wr (is_nat (mag x mod mag y)) r3" by blast
  show ?thesis
    using ly(1) s(2) p1(1,2) y2(1) d(1) q3 r3
    by (simp add: div_words_def store_def del: upt_Suc)
qed

lemma div_general_divides:
  assumes "wf_num x" "wf_num y" "0 < num_size y" "num_size y \<le> num_size x"
  shows "divides m (div_general x y wq wr m) wq wr (mag x) (mag y)"
  using allocates_num [of m "num_size x + 1"]
proof (cases rule: allocates_cases)
  case (null m1)
  then show ?thesis by (simp add: div_general_def divides_def)
next
  case X: (num nx m1)
  from allocates_num [of m1 "num_size y"] show ?thesis
  proof (cases rule: allocates_cases)
    case (null m2)
    with X show ?thesis
      by (auto simp: div_general_def divides_def free_block intro: later_trans out_of_memory_mono)
  next
    case Y: (num ny m2)
    have k: "num_size nx - num_size ny = num_size x - num_size y + 1" using X(3) Y(3) assms(4) by simp
    from allocates_num [of m2 "num_size nx - num_size ny"] show ?thesis
    proof (cases rule: want_cases [where w = wq])
      case (null m3)
      with X Y show ?thesis
        by (auto simp: div_general_def divides_def free_block intro: later_trans out_of_memory_mono)
    next
      case Q: (num q m3)
      from allocates_num [of m3 "num_size ny"] show ?thesis
      proof (cases rule: want_cases [where w = wr])
        case (null m4)
        with X Y Q free_opt [OF Q(3), of "m4\<lparr>live := live m + flag wq\<rparr>" "live m"] show ?thesis
          by (auto simp: div_general_def divides_def free_block intro: later_trans out_of_memory_mono)
      next
        case R: (num r m4)
        from div_words_correct [OF assms, of nx ny wq q wr r] X(3) Y(3) holds_opt [OF Q(3)] holds_opt [OF R(3)] k
        obtain q' r' where D: "div_words x y nx ny q r = Some (q', r')"
          "opt_num wq (is_nat (mag x div mag y)) q'" "opt_num wr (is_nat (mag x mod mag y)) r'" by auto
        have "later m m4" using X(2) Y(2) Q(2) R(2) by (meson later_trans)
        moreover have "live m4 = Suc (Suc (live m + flag wq + flag wr))" using X(4) Y(4) Q(4) R(4) by simp
        ultimately show ?thesis
          using X(1) Y(1) Q(1) R(1) D by (simp add: div_general_def divides_def free_block)
      qed
    qed
  qed
qed

lemma DivRem_divides:
  assumes "wf_num x" "wf_num y" "\<not> neg x" "\<not> neg y" "mag y \<noteq> 0"
  shows "divides m (DivRem x y wq wr m) wq wr (mag x) (mag y)"
proof -
  have y: "num_size y \<noteq> 0" using assms mag_eq_0_iff [of y] by simp
  consider (zero) "num_size x = 0" | (single) "num_size x \<noteq> 0" "num_size y = 1"
    | (less) "num_size x \<noteq> 0" "num_size y \<noteq> 1" "mag x < mag y"
    | (general) "num_size x \<noteq> 0" "num_size y \<noteq> 1" "mag y \<le> mag x" by (meson not_le)
  then show ?thesis
  proof cases
    case zero
    with assms have "mag x = 0" using mag_eq_0_iff [of x] by simp
    with zero y show ?thesis
      using div_zero_divides [of "mag x" "mag y" "ILBigNumFromInt 0"] from_int_is_nat [of _ 0]
      by (simp add: DivRem_def)
  next
    case single
    with y div_single_divides [OF assms(1,2)] show ?thesis by (simp add: DivRem_def)
  next
    case less
    have "allocates m (ILBigNumCopy x m) (is_nat (mag x mod mag y))" for m
      by (rule allocates_mono [OF allocates_delivers [OF copy_correct [OF assms(1)]]])
        (use less assms in \<open>auto simp: is_nat_def value_of_def\<close>)
    from div_zero_divides [OF _ this] less have
      "divides m (do { (q, m) \<leftarrow> want wq (ILBigNumFromInt 0) m;
        case q of None \<Rightarrow> Some (None, m) | Some q \<Rightarrow> with_remainder q wr (ILBigNumCopy x) m }) wq wr (mag x) (mag y)" by simp
    with less y assms show ?thesis
      by (simp add: DivRem_def compare_correct value_of_def)
  next
    case general
    with assms have "num_size y \<le> num_size x" by (intro mag_le_size)
    with div_general_divides [OF assms(1,2)] y general assms show ?thesis
      by (simp add: DivRem_def compare_correct value_of_def)
  qed
qed

end
