(* ===== verification/BigNumMul.thy ===== *)
theory BigNumMul
  imports BigNumDiv
begin

text \<open>
  Products and remainders of big numbers: \<^verbatim>\<open>ILBigNumMul\<close> and \<^verbatim>\<open>ILBigNumMod\<close> of
  \<^verbatim>\<open>support/bignum.c\<close>.
\<close>

definition mul_word :: "u32 list \<Rightarrow> u32 list \<Rightarrow> nat \<Rightarrow> nat \<Rightarrow> u64 \<times> u32 list \<Rightarrow> (u64 \<times> u32 list) option" where
  "mul_word x y xposn yposn s = (case s of (temp, product) \<Rightarrow> do {
     a \<leftarrow> load x xposn;
     b \<leftarrow> load y yposn;
     w \<leftarrow> load product (xposn + yposn);
     let temp = temp + (ucast a * ucast b + ucast w);
     product \<leftarrow> store product (xposn + yposn) (ucast temp);
     Some (drop_bit 32 temp, product)
   })"

function mul_carry :: "u64 \<Rightarrow> nat \<Rightarrow> u32 list \<Rightarrow> u32 list option" where
  "mul_carry temp posn product =
     (if temp = 0 then Some product
      else case load product posn of None \<Rightarrow> None
      | Some w \<Rightarrow> mul_carry (drop_bit 32 (temp + ucast w)) (Suc posn) (product[posn := ucast (temp + ucast w)]))"
  by auto
termination
  by (relation "measure (\<lambda>(temp, posn, product). length product - posn)") (auto simp: load_def split: if_splits)

declare mul_carry.simps [simp del]

definition mul_row :: "u32 list \<Rightarrow> u32 list \<Rightarrow> nat \<Rightarrow> nat \<Rightarrow> u32 list \<Rightarrow> u32 list option" where
  "mul_row x y n xposn product = do {
     (temp, product) \<leftarrow> for_each (mul_word x y xposn) [0..<n] (0, product);
     mul_carry temp (xposn + n) product
   }"

definition mul_product :: "ILBigNum \<Rightarrow> ILBigNum \<Rightarrow> mem \<Rightarrow> num_result" where
  "mul_product numx numy m =
     (case ILMalloc (num_size numx + num_size numy) m of
        (None, m) \<Rightarrow> Some (None, m)
      | (Some ws, m) \<Rightarrow> do {
          ws \<leftarrow> for_each (mul_row (words numx) (words numy) (num_size numy)) [0..<num_size numx]
                  (replicate (num_size numx + num_size numy) 0);
          product \<leftarrow> NormalizeBigNum \<lparr>num_size = num_size numx + num_size numy,
                                        neg = (neg numx \<noteq> neg numy), words = ws\<rparr>;
          Some (Some product, m)
        })"

definition ILBigNumMul :: "ILBigNum \<Rightarrow> ILBigNum \<Rightarrow> ILBigNum option \<Rightarrow> mem \<Rightarrow> num_result" where
  "ILBigNumMul numx numy modulus m =
     (if num_size numx + num_size numy = 0 then ILBigNumFromInt 0 m
      else do {
        (product, m) \<leftarrow> mul_product numx numy m;
        case (product, modulus) of
          (Some p, Some md) \<Rightarrow> do {
            c \<leftarrow> ILBigNumCompare p md;
            if c \<ge> 0 then do {
              (res, m) \<leftarrow> DivRem p md False True m;
              m \<leftarrow> ILBigNumFree product m;
              Some (case res of None \<Rightarrow> None | Some (_, r) \<Rightarrow> r, m)
            }
            else Some (product, m)
          }
        | _ \<Rightarrow> Some (product, m)
      })"

definition ILBigNumMod :: "ILBigNum \<Rightarrow> ILBigNum \<Rightarrow> mem \<Rightarrow> num_result" where
  "ILBigNumMod num modulus m = do {
     (res, m) \<leftarrow> DivRem num modulus False True m;
     Some (case res of None \<Rightarrow> None | Some (_, r) \<Rightarrow> r, m)
   }"

section \<open>The product\<close>

lemma mul_word_loop:
  assumes "i < length x" "n \<le> length y" "i + n \<le> length p"
  shows "\<exists>temp p'. for_each (mul_word x y i) [0..<n] (0, p) = Some (temp, p') \<and> length p' = length p \<and>
    unat temp < 2 ^ 32 \<and> val p' + W (i + n) * unat temp = val p + W i * (unat (x ! i) * val (take n y))"
proof -
  let ?P = "\<lambda>k (temp :: u64, p'). length p' = length p \<and> unat temp < 2 ^ 32 \<and>
    val p' + W (i + k) * unat temp = val p + W i * (unat (x ! i) * val (take k y))"
  have "\<exists>r. for_each (mul_word x y i) [0..<n] (0, p) = Some r \<and> ?P n r"
  proof (rule for_up [where P = ?P])
    fix k r
    assume k: "k < n" and "?P k r"
    then obtain temp p' where r: "r = (temp, p')" and l: "length p' = length p" and t: "unat temp < 2 ^ 32"
      and inv: "val p' + W (i + k) * unat temp = val p + W i * (unat (x ! i) * val (take k y))" by (cases r) auto
    let ?a = "unat (x ! i)" and ?b = "unat (y ! k)" and ?w = "unat (p' ! (i + k))"
    let ?t = "temp + (ucast (x ! i) * ucast (y ! k) + ucast (p' ! (i + k))) :: u64"
    have ut: "unat ?t = unat temp + ?a * ?b + ?w"
    proof -
      have "?a * ?b \<le> (2 ^ 32 - 1) * (2 ^ 32 - 1)"
        using unat_less_32 [of "x ! i"] unat_less_32 [of "y ! k"] by (intro mult_le_mono) simp_all
      then have "unat temp + ?a * ?b + ?w < 2 ^ 64" using t unat_less_32 [of "p' ! (i + k)"] by simp
      then show ?thesis by (simp add: unat_word_ariths)
    qed
    have lo: "unat (ucast ?t :: u32) + 2 ^ 32 * unat (drop_bit 32 ?t) = unat temp + ?a * ?b + ?w"
      unfolding ut [symmetric] unat_drop_bit unat_ucast_mod by (simp only: len_num0 len_num1 len_bit0) simp
    have len: "i + k < length p'" using k l assms(3) by simp
    have "val (p'[i + k := ucast ?t]) + W (i + k) * ?w = val p' + W (i + k) * unat (ucast ?t :: u32)"
      by (rule val_update [OF len])
    then have "val (p'[i + k := ucast ?t]) + W (i + Suc k) * unat (drop_bit 32 ?t) + W (i + k) * ?w =
        val p' + W (i + k) * (unat (ucast ?t :: u32) + 2 ^ 32 * unat (drop_bit 32 ?t))"
      by (simp add: W_Suc algebra_simps)
    also have "\<dots> = (val p' + W (i + k) * unat temp) + W (i + k) * (?a * ?b) + W (i + k) * ?w"
      unfolding lo by (simp add: algebra_simps)
    also have "\<dots> = val p + W i * (?a * val (take (Suc k) y)) + W (i + k) * ?w"
      unfolding inv using k assms(2) by (simp add: val_take_Suc W_add algebra_simps)
    finally have "val (p'[i + k := ucast ?t]) + W (i + Suc k) * unat (drop_bit 32 ?t) =
        val p + W i * (?a * val (take (Suc k) y))" by simp
    moreover have "unat (drop_bit 32 ?t) < 2 ^ 32" unfolding unat_drop_bit using unat_less_64 [of ?t] by simp
    ultimately show "\<exists>r'. mul_word x y i k r = Some r' \<and> ?P (Suc k) r'"
      using k l assms len by (simp add: r mul_word_def array_simps Let_def)
  qed (use assms in auto)
  then show ?thesis by auto
qed

lemma mul_carry_correct:
  assumes "unat temp < 2 ^ 32" "val p + W k * unat temp < W (length p)" "k \<le> length p"
  shows "\<exists>p'. mul_carry temp k p = Some p' \<and> length p' = length p \<and> val p' = val p + W k * unat temp"
  using assms
proof (induction "length p - k" arbitrary: temp k p)
  case 0
  then have "length p = k" by simp
  with 0(3) have "val p + W k * unat temp < W k" by metis
  then have "W k * unat temp < W k * 1" by linarith
  then have "unat temp < 1" by (metis nat_mult_less_cancel_disj)
  then have "temp = 0" by (simp add: unat_eq_0)
  then show ?case by (subst mul_carry.simps) simp
next
  case (Suc d)
  show ?case
  proof (cases "temp = 0")
    case True
    then show ?thesis by (subst mul_carry.simps) simp
  next
    case False
    have k: "k < length p" using Suc.hyps(2) by simp
    let ?w = "unat (p ! k)" and ?t = "temp + ucast (p ! k) :: u64"
    let ?p = "p[k := ucast ?t]"
    have ut: "unat ?t = unat temp + ?w"
      using Suc.prems(1) unat_less_32 [of "p ! k"] by (simp add: unat_word_ariths)
    have lo: "unat (ucast ?t :: u32) + 2 ^ 32 * unat (drop_bit 32 ?t) = unat temp + ?w"
      unfolding ut [symmetric] unat_drop_bit unat_ucast_mod by (simp only: len_num0 len_num1 len_bit0) simp
    have "val ?p + W k * ?w + W (Suc k) * unat (drop_bit 32 ?t) =
        val p + W k * (unat (ucast ?t :: u32) + 2 ^ 32 * unat (drop_bit 32 ?t))"
      using val_update [OF k, of "ucast ?t"] by (simp add: W_Suc algebra_simps)
    then have v: "val ?p + W (Suc k) * unat (drop_bit 32 ?t) = val p + W k * unat temp"
      unfolding lo by (simp add: algebra_simps)
    have "unat (drop_bit 32 ?t) < 2 ^ 32" unfolding unat_drop_bit using unat_less_64 [of ?t] by simp
    moreover have "val ?p + W (Suc k) * unat (drop_bit 32 ?t) < W (length ?p)" using v Suc.prems(2) by simp
    moreover have "d = length ?p - Suc k" "Suc k \<le> length ?p" using Suc.hyps(2) by auto
    ultimately obtain p' where "mul_carry (drop_bit 32 ?t) (Suc k) ?p = Some p'" "length p' = length ?p"
      "val p' = val p + W k * unat temp"
      using Suc.hyps(1) v by metis
    with False k show ?thesis by (subst mul_carry.simps) (simp add: array_simps)
  qed
qed

lemma mul_loop:
  assumes "nx \<le> length x" "ny \<le> length y"
  shows "\<exists>p. for_each (mul_row x y ny) [0..<nx] (replicate (nx + ny) 0) = Some p \<and> length p = nx + ny \<and>
    val p = val (take nx x) * val (take ny y)"
proof -
  let ?P = "\<lambda>i p. length p = nx + ny \<and> val p = val (take i x) * val (take ny y)"
  show ?thesis
  proof (rule for_up [where P = ?P])
    fix i p
    assume i: "i < nx" and inv: "?P i p"
    from mul_word_loop [of i x ny y p] i inv assms obtain temp p1 where p1:
      "for_each (mul_word x y i) [0..<ny] (0, p) = Some (temp, p1)" "length p1 = nx + ny" "unat temp < 2 ^ 32"
      "val p1 + W (i + ny) * unat temp = val p + W i * (unat (x ! i) * val (take ny y))" by auto
    have v: "val p + W i * (unat (x ! i) * val (take ny y)) = val (take (Suc i) x) * val (take ny y)"
      using inv i assms(1) by (simp add: val_take_Suc algebra_simps)
    have "val (take (Suc i) x) * val (take ny y) < W (Suc i) * W ny"
      using i assms val_take_bound [of "Suc i" x] val_take_bound [of ny y] by (intro mult_strict_mono) auto
    also have "\<dots> \<le> W (nx + ny)" using i W_add [of "Suc i" ny] W_mono [of "Suc i + ny" "nx + ny"] by simp
    finally have "val p1 + W (i + ny) * unat temp < W (length p1)" using p1 v by simp
    from mul_carry_correct [OF p1(3) this] p1(2,4) v i obtain p2 where
      "mul_carry temp (i + ny) p1 = Some p2" "length p2 = nx + ny" "val p2 = val (take (Suc i) x) * val (take ny y)" by auto
    with p1(1) show "\<exists>p'. mul_row x y ny i p = Some p' \<and> ?P (Suc i) p'" by (simp add: mul_row_def)
  qed simp_all
qed

lemma mul_product_value:
  assumes "wf_num x" "wf_num y"
  shows "delivers m (mul_product x y m) (\<lambda>n. value_of n = value_of x * value_of y)"
proof -
  obtain p where p: "for_each (mul_row (words x) (words y) (num_size y)) [0..<num_size x]
      (replicate (num_size x + num_size y) 0) = Some p" "length p = num_size x + num_size y" "val p = mag x * mag y"
    using mul_loop [of "num_size x" "words x" "num_size y" "words y"] assms by (auto simp: mag_def wf_num_def)
  let ?n = "\<lparr>num_size = num_size x + num_size y, neg = (neg x \<noteq> neg y), words = p\<rparr>"
  have "num_size ?n \<le> length (words ?n)" using p(2) by simp
  from normalize_correct [OF this] obtain n where n: "NormalizeBigNum ?n = Some n" "wf_num n"
    "mag n = val (take (num_size ?n) (words ?n))" "neg n \<longleftrightarrow> neg ?n \<and> mag n \<noteq> 0" by blast
  then have "value_of n = value_of x * value_of y" using p by (auto simp: value_of_def)
  then show ?thesis
    unfolding mul_product_def by (intro delivers_malloc) (use p n in simp)
qed

lemma divides_remainder:
  assumes "divides m r False True v w"
  shows "delivers m (do { (res, m) \<leftarrow> r; Some (case res of None \<Rightarrow> None | Some (_, r) \<Rightarrow> r, m) })
    (\<lambda>n. value_of n = int (v mod w) \<and> \<not> neg n)"
  using assms
proof (cases rule: divides_cases)
  case (null m')
  then show ?thesis by (simp add: delivers_null)
next
  case (nums q r' m')
  then obtain n where "q = None" "r' = Some n" "is_nat (v mod w) n" by (auto simp: opt_num_def split: option.splits)
  with nums show ?thesis by (auto simp: is_nat_def value_of_def intro!: delivers_num)
qed

lemma mul_value:
  assumes "wf_num x" "wf_num y"
  shows "delivers m (ILBigNumMul x y None m) (\<lambda>n. value_of n = value_of x * value_of y)"
proof (cases "num_size x + num_size y = 0")
  case True
  then show ?thesis by (auto simp: ILBigNumMul_def intro: delivers_mono [OF from_int_correct])
next
  case False
  show ?thesis
    unfolding ILBigNumMul_def if_not_P [OF False]
    by (rule delivers_bind [OF mul_product_value [OF assms]]) (auto intro: delivers_null delivers_num)
qed

lemma nonneg_sign: "wf_num z \<Longrightarrow> 0 \<le> value_of z \<Longrightarrow> \<not> neg z"
  using mag_eq_0_iff [of z] by (auto simp: value_of_def wf_num_def)

lemma mod_value:
  assumes "wf_num x" "wf_num md" "0 \<le> value_of x" "0 < value_of md"
  shows "delivers m (ILBigNumMod x md m) (\<lambda>n. value_of n = value_of x mod value_of md)"
proof -
  have s: "\<not> neg x" "\<not> neg md" using assms nonneg_sign by auto
  then have "mag md \<noteq> 0" using assms(4) by (simp add: value_of_def)
  from divides_remainder [OF DivRem_divides [OF assms(1,2) s this]] show ?thesis
    unfolding ILBigNumMod_def by (rule delivers_mono) (use s in \<open>auto simp: value_of_def zmod_int\<close>)
qed

lemma mul_mod_value:
  assumes "wf_num x" "wf_num y" "wf_num md" "0 \<le> value_of x" "0 \<le> value_of y" "0 < value_of md"
  shows "delivers m (ILBigNumMul x y (Some md) m) (\<lambda>n. value_of n = (value_of x * value_of y) mod value_of md)"
proof (cases "num_size x + num_size y = 0")
  case True
  then show ?thesis by (auto simp: ILBigNumMul_def intro: delivers_mono [OF from_int_correct])
next
  case False
  show ?thesis
    unfolding ILBigNumMul_def if_not_P [OF False]
  proof (rule delivers_bind [OF mul_product_value [OF assms(1,2)]], goal_cases)
    case (1 m')
    then show ?case by (simp add: delivers_null)
  next
    case (2 p m')
    have pos: "0 \<le> value_of p" using 2(3) assms(4,5) by simp
    have cmp: "ILBigNumCompare p md = Some (sgn (value_of p - value_of md))" by (rule compare_correct [OF 2(2) assms(3)])
    show ?case
    proof (cases "value_of md \<le> value_of p")
      case True
      have s: "\<not> neg p" "\<not> neg md" using nonneg_sign 2(2) assms(3,6) pos by auto
      moreover have "mag md \<noteq> 0" using s(2) assms(6) by (simp add: value_of_def)
      ultimately have "divides m' (DivRem p md False True m') False True (mag p) (mag md)"
        using DivRem_divides 2(2) assms(3) by blast
      from free_after [OF divides_remainder [OF this] 2(1,4), of p]
      have "delivers m (do { (res, m) \<leftarrow> DivRem p md False True m'; m \<leftarrow> ILBigNumFree (Some p) m;
          Some (case res of None \<Rightarrow> None | Some (_, r) \<Rightarrow> r, m) }) (\<lambda>n. value_of n = int (mag p mod mag md) \<and> \<not> neg n)"
        by (simp add: case_prod_unfold)
      moreover have "int (mag p mod mag md) = (value_of x * value_of y) mod value_of md"
        using s 2(3) by (simp add: value_of_def zmod_int)
      moreover have "0 \<le> sgn (value_of p - value_of md)" using True by (simp add: sgn_if)
      ultimately show ?thesis using cmp by (auto intro: delivers_mono)
    next
      case less: False
      then show ?thesis using cmp pos 2 by (auto simp: sgn_if intro!: delivers_num)
    qed
  qed
qed

end
