(* ===== verification/BigNumInv.thy ===== *)
theory BigNumInv
  imports BigNumMul
begin

text \<open>
  Modular inverses of big numbers: \<^verbatim>\<open>ILBigNumInv\<close> of \<^verbatim>\<open>support/bignum.c\<close>, the extended Euclid
  algorithm over signed big numbers, with every allocation failure and its cleanup.
\<close>

fun free_all :: "ILBigNum option list \<Rightarrow> mem \<Rightarrow> mem option" where
  "free_all [] m = Some m"
| "free_all (n # ns) m = do { m \<leftarrow> ILBigNumFree n m; free_all ns m }"

definition GCDSubtract :: "ILBigNum \<Rightarrow> ILBigNum \<Rightarrow> ILBigNum \<Rightarrow> mem \<Rightarrow> num_result" where
  "GCDSubtract u v q m = do {
     (temp, m) \<leftarrow> ILBigNumMul v q None m;
     case temp of None \<Rightarrow> Some (None, m)
     | Some t \<Rightarrow> do {
         (temp2, m) \<leftarrow> ILBigNumSub u t None m;
         m \<leftarrow> ILBigNumFree (Some t) m;
         Some (temp2, m)
       }
   }"

type_synonym inv_state = "ILBigNum \<times> ILBigNum \<times> ILBigNum \<times> ILBigNum \<times> ILBigNum \<times> ILBigNum"

text \<open>The end of the function that is reached when memory runs out.\<close>

definition inv_cleanup :: "ILBigNum option list \<Rightarrow> inv_state \<Rightarrow> mem \<Rightarrow> (inv_state option \<times> mem) option" where
  "inv_cleanup extra s m = (case s of (u1, u2, u3, v1, v2, v3) \<Rightarrow> do {
     m \<leftarrow> free_all extra m;
     m \<leftarrow> free_all (map Some [u1, u2, u3, v1, v2, v3]) m;
     Some (None, m)
   })"

text \<open>The body of the loop.\<close>

definition inv_step :: "inv_state \<Rightarrow> mem \<Rightarrow> (inv_state option \<times> mem) option" where
  "inv_step s m = (case s of (u1, u2, u3, v1, v2, v3) \<Rightarrow> do {
     (res, m) \<leftarrow> DivRem u3 v3 True False m;
     case res of None \<Rightarrow> inv_cleanup [] s m
     | Some (q, _) \<Rightarrow> do {
         qn \<leftarrow> q;
         (t1, m) \<leftarrow> GCDSubtract u1 v1 qn m;
         case t1 of None \<Rightarrow> inv_cleanup [q] s m
         | Some n1 \<Rightarrow> do {
             (t2, m) \<leftarrow> GCDSubtract u2 v2 qn m;
             case t2 of None \<Rightarrow> inv_cleanup [q, t1] s m
             | Some n2 \<Rightarrow> do {
                 (t3, m) \<leftarrow> GCDSubtract u3 v3 qn m;
                 case t3 of None \<Rightarrow> inv_cleanup [q, t1, t2] s m
                 | Some n3 \<Rightarrow> do {
                     m \<leftarrow> free_all [q, Some u1, Some u2, Some u3] m;
                     Some (Some (v1, v2, v3, n1, n2, n3), m)
                   }
               }
           }
       }
   })"

partial_function (option) inv_loop :: "inv_state \<Rightarrow> mem \<Rightarrow> (inv_state option \<times> mem) option" where
  "inv_loop s m =
     (if ILBigNumIsZero (snd (snd (snd (snd (snd s))))) then Some (Some s, m)
      else do {
        (s', m) \<leftarrow> inv_step s m;
        case s' of None \<Rightarrow> Some (None, m) | Some s' \<Rightarrow> inv_loop s' m
      })"

declare inv_loop.simps [code]

definition inv_finish :: "ILBigNum \<Rightarrow> inv_state \<Rightarrow> mem \<Rightarrow> num_result" where
  "inv_finish modulus s m = (case s of (u1, u2, u3, v1, v2, v3) \<Rightarrow> do {
     m \<leftarrow> free_all (map Some [u2, u3, v1, v2, v3]) m;
     if neg u1 then do {
       (t1, m) \<leftarrow> ILBigNumAdd modulus u1 None m;
       m \<leftarrow> ILBigNumFree (Some u1) m;
       Some (t1, m)
     }
     else Some (Some u1, m)
   })"

definition ILBigNumInv :: "ILBigNum \<Rightarrow> ILBigNum \<Rightarrow> mem \<Rightarrow> num_result" where
  "ILBigNumInv num modulus m = do {
     (u1, m) \<leftarrow> ILBigNumFromInt 1 m;
     (u2, m) \<leftarrow> ILBigNumFromInt 0 m;
     (u3, m) \<leftarrow> ILBigNumCopy num m;
     (v1, m) \<leftarrow> ILBigNumFromInt 0 m;
     (v2, m) \<leftarrow> ILBigNumFromInt 1 m;
     (v3, m) \<leftarrow> ILBigNumCopy modulus m;
     if None \<in> set [u1, u2, u3, v1, v2, v3] then do {
       m \<leftarrow> free_all [u1, u2, u3, v1, v2, v3] m;
       Some (None, m)
     }
     else do {
       (s, m) \<leftarrow> inv_loop (the u1, the u2, the u3, the v1, the v2, the v3) m;
       case s of None \<Rightarrow> Some (None, m) | Some s \<Rightarrow> inv_finish modulus s m
     }
   }"

section \<open>One round of Euclid's algorithm\<close>

lemma GCDSubtract_value:
  assumes "wf_num u" "wf_num v" "wf_num q"
  shows "delivers m (GCDSubtract u v q m) (\<lambda>n. value_of n = value_of u - value_of v * value_of q)"
  unfolding GCDSubtract_def
proof (rule delivers_bind [OF mul_value [OF assms(2,3)]], goal_cases)
  case (1 m')
  then show ?case by (simp add: delivers_null)
next
  case (2 t m')
  from free_after [OF big_sub_value [OF assms(1) 2(2)] 2(1,4), of t] 2(3) show ?case by simp
qed

fun live_count :: "ILBigNum option list \<Rightarrow> nat" where
  "live_count [] = 0"
| "live_count (n # ns) = (case n of None \<Rightarrow> 0 | Some _ \<Rightarrow> 1) + live_count ns"

lemma free_all_live:
  "live m = k + live_count ns \<Longrightarrow> free_all ns m = Some (m\<lparr>live := k\<rparr>)"
proof (induction ns arbitrary: m)
  case (Cons n ns)
  then show ?case
    using Cons.IH [of "m\<lparr>live := k + live_count ns\<rparr>"]
    by (auto simp: ILBigNumFree_def split: option.splits)
qed simp

text \<open>
  The invariant: both rows are combinations of the arguments, the remainders have the
  greatest common divisor of the arguments, and the first column has alternating signs and
  is bounded by the modulus.
\<close>

definition euclid :: "int \<Rightarrow> int \<Rightarrow> inv_state \<Rightarrow> bool" where
  "euclid N M s \<longleftrightarrow> (case s of (u1, u2, u3, v1, v2, v3) \<Rightarrow>
     list_all wf_num [u1, u2, u3, v1, v2, v3] \<and> 0 \<le> value_of u3 \<and> 0 \<le> value_of v3 \<and>
     value_of u1 * N + value_of u2 * M = value_of u3 \<and> value_of v1 * N + value_of v2 * M = value_of v3 \<and>
     gcd (value_of u3) (value_of v3) = gcd N M \<and> value_of u1 * value_of v1 \<le> 0 \<and>
     \<bar>value_of u1\<bar> * value_of v3 + \<bar>value_of v1\<bar> * value_of u3 = M \<and> \<bar>value_of u1\<bar> \<le> M \<and> \<bar>value_of v1\<bar> \<le> M)"

lemma abs_sub_mult:
  fixes a b q :: int
  assumes "a * b \<le> 0" "0 \<le> q"
  shows "\<bar>a - b * q\<bar> = \<bar>a\<bar> + \<bar>b\<bar> * q" "b * (a - b * q) \<le> 0"
proof -
  consider "0 \<le> a" "b \<le> 0" | "a \<le> 0" "0 \<le> b" using assms(1) by (auto simp: mult_le_0_iff)
  then show "\<bar>a - b * q\<bar> = \<bar>a\<bar> + \<bar>b\<bar> * q"
  proof cases
    case 1
    then have "b * q \<le> 0" using assms(2) by (simp add: mult_nonpos_nonneg)
    with 1 show ?thesis by simp
  next
    case 2
    then have "0 \<le> b * q" using assms(2) by simp
    with 2 show ?thesis by simp
  qed
  have "b * (a - b * q) = a * b - (b * b) * q" by (simp add: algebra_simps)
  moreover have "0 \<le> (b * b) * q" using assms(2) by simp
  ultimately show "b * (a - b * q) \<le> 0" using assms(1) by linarith
qed

lemma euclid_round:
  fixes u1 u2 u3 v1 v2 v3 N M :: int
  assumes "0 \<le> u3" "0 < v3" "u1 * N + u2 * M = u3" "v1 * N + v2 * M = v3" "gcd u3 v3 = gcd N M" "u1 * v1 \<le> 0"
    and "\<bar>u1\<bar> * v3 + \<bar>v1\<bar> * u3 = M"
  defines "q \<equiv> u3 div v3"
  shows "(u1 - v1 * q) * N + (u2 - v2 * q) * M = u3 - v3 * q" "u3 - v3 * q = u3 mod v3"
    "gcd v3 (u3 - v3 * q) = gcd N M" "v1 * (u1 - v1 * q) \<le> 0"
    "\<bar>v1\<bar> * (u3 - v3 * q) + \<bar>u1 - v1 * q\<bar> * v3 = M" "\<bar>u1 - v1 * q\<bar> \<le> M"
proof -
  have q: "0 \<le> q" using assms(1,2) by (simp add: q_def pos_imp_zdiv_nonneg_iff)
  show "(u1 - v1 * q) * N + (u2 - v2 * q) * M = u3 - v3 * q"
    unfolding assms(3,4) [symmetric] by (simp add: algebra_simps)
  show m: "u3 - v3 * q = u3 mod v3" by (simp add: q_def minus_mult_div_eq_mod)
  show "gcd v3 (u3 - v3 * q) = gcd N M" unfolding m using assms(5) by (metis gcd.commute gcd_red_int)
  note a = abs_sub_mult [OF assms(6) q]
  show "v1 * (u1 - v1 * q) \<le> 0" by (rule a(2))
  show e: "\<bar>v1\<bar> * (u3 - v3 * q) + \<bar>u1 - v1 * q\<bar> * v3 = M"
    unfolding a(1) assms(7) [symmetric] by (simp add: algebra_simps)
  have "0 \<le> \<bar>v1\<bar> * (u3 - v3 * q)" unfolding m using assms(2) by simp
  with e have "\<bar>u1 - v1 * q\<bar> * v3 \<le> M" by linarith
  moreover have "\<bar>u1 - v1 * q\<bar> * 1 \<le> \<bar>u1 - v1 * q\<bar> * v3" using assms(2) by (intro mult_left_mono) auto
  ultimately show "\<bar>u1 - v1 * q\<bar> \<le> M" by simp
qed

lemma cleanup_live:
  assumes "live m = k + live_count extra + 6"
  shows "inv_cleanup extra s m = Some (None, m\<lparr>live := k\<rparr>)"
proof -
  obtain u1 u2 u3 v1 v2 v3 where s: "s = (u1, u2, u3, v1, v2, v3)" by (cases s) auto
  have "free_all extra m = Some (m\<lparr>live := k + 6\<rparr>)"
    by (rule free_all_live) (use assms in simp)
  moreover have "free_all (map Some [u1, u2, u3, v1, v2, v3]) (m\<lparr>live := k + 6\<rparr>) = Some (m\<lparr>live := k\<rparr>)"
    using free_all_live [of "m\<lparr>live := k + 6\<rparr>" k "map Some [u1, u2, u3, v1, v2, v3]"] by simp
  ultimately show ?thesis unfolding inv_cleanup_def s by (simp del: free_all.simps list.map)
qed

text \<open>What a round leaves: everything freed, or the state's numbers (\<open>c\<close> of them) live.\<close>

definition round_ok :: "mem \<Rightarrow> nat \<Rightarrow> nat \<Rightarrow> ('s \<Rightarrow> bool) \<Rightarrow> ('s option \<times> mem) option \<Rightarrow> bool" where
  "round_ok m k c P r \<longleftrightarrow> (\<exists>z m'. r = Some (z, m') \<and> later m m' \<and>
     (case z of None \<Rightarrow> out_of_memory m m' \<and> live m' = k | Some s \<Rightarrow> P s \<and> live m' = k + c))"

lemma round_cleanup:
  assumes "later m m'" "out_of_memory m m'" "live m' = k + live_count extra + 6"
  shows "round_ok m k 6 P (inv_cleanup extra s m')"
  using assms by (simp add: cleanup_live round_ok_def)

lemma round_ok_later:
  assumes "later m m'" "round_ok m' k c P r"
  shows "round_ok m k c P r"
proof -
  from assms(2) obtain z m'' where z: "r = Some (z, m'')" "later m' m''"
    "case z of None \<Rightarrow> out_of_memory m' m'' \<and> live m'' = k | Some s \<Rightarrow> P s \<and> live m'' = k + c"
    unfolding round_ok_def by blast
  have "later m m''" by (rule later_trans [OF assms(1) z(2)])
  with z out_of_memory_mono(1) [OF assms(1)] show ?thesis by (cases z) (auto simp: round_ok_def)
qed

lemma inv_step_round:
  assumes "euclid N M s" "live m = k + 6" "s = (u1, u2, u3, v1, v2, v3)" "value_of v3 \<noteq> 0"
  shows "round_ok m k 6 (\<lambda>s'. euclid N M s' \<and> value_of (snd (snd (snd (snd (snd s'))))) = value_of u3 mod value_of v3)
    (inv_step s m)"
proof -
  let ?Q = "\<lambda>s'. euclid N M s' \<and> value_of (snd (snd (snd (snd (snd s'))))) = value_of u3 mod value_of v3"
  have wf: "wf_num u1" "wf_num u2" "wf_num u3" "wf_num v1" "wf_num v2" "wf_num v3" "0 \<le> value_of u3" "0 < value_of v3"
    using assms(1,4) by (simp_all add: euclid_def assms(3))
  have sg: "\<not> neg u3" "\<not> neg v3" using nonneg_sign [OF wf(3,7)] nonneg_sign [OF wf(6)] wf(8) by simp_all
  have nz: "mag v3 \<noteq> 0" using assms(4) by (cases "neg v3") (simp_all add: value_of_def)
  let ?q = "value_of u3 div value_of v3"
  from DivRem_divides [OF wf(3,6) sg nz, of m True False] show ?thesis
  proof (cases rule: divides_cases)
    case (null m1)
    with assms(2) round_cleanup [of m m1 k "[]" ?Q s] show ?thesis by (simp add: inv_step_def assms(3))
  next
    case D: (nums qo r m1)
    then obtain q where q: "qo = Some q" "wf_num q" "value_of q = ?q"
      using sg by (auto simp: opt_num_def is_nat_def value_of_def zdiv_int split: option.splits)
    from GCDSubtract_value [OF wf(1,4) q(2), of m1] show ?thesis
    proof (cases rule: delivers_cases)
      case (null m2)
      with D assms(2) q round_cleanup [of m m2 k "[Some q]" ?Q s] show ?thesis
        by (simp add: inv_step_def assms(3) later_trans [of m m1] out_of_memory_mono)
    next
      case T1: (num n1 m2)
      from GCDSubtract_value [OF wf(2,5) q(2), of m2] show ?thesis
      proof (cases rule: delivers_cases)
        case (null m3)
        with D T1 assms(2) q round_cleanup [of m m3 k "[Some q, Some n1]" ?Q s] show ?thesis
          by (simp add: inv_step_def assms(3)) (meson later_trans out_of_memory_mono)
      next
        case T2: (num n2 m3)
        from GCDSubtract_value [OF wf(3,6) q(2), of m3] show ?thesis
        proof (cases rule: delivers_cases)
          case (null m4)
          with D T1 T2 assms(2) q round_cleanup [of m m4 k "[Some q, Some n1, Some n2]" ?Q s] show ?thesis
            by (simp add: inv_step_def assms(3)) (meson later_trans out_of_memory_mono)
        next
          case T3: (num n3 m4)
          have "later m m4" using D(2) T1(2) T2(2) T3(2) by (meson later_trans)
          moreover have "free_all [Some q, Some u1, Some u2, Some u3] m4 = Some (m4\<lparr>live := k + 6\<rparr>)"
            by (rule free_all_live) (use D(5) T1(5) T2(5) T3(5) assms(2) in simp)
          moreover have "?Q (v1, v2, v3, n1, n2, n3)"
          proof -
            have e: "value_of u1 * N + value_of u2 * M = value_of u3" "value_of v1 * N + value_of v2 * M = value_of v3"
              "gcd (value_of u3) (value_of v3) = gcd N M" "value_of u1 * value_of v1 \<le> 0"
              "\<bar>value_of u1\<bar> * value_of v3 + \<bar>value_of v1\<bar> * value_of u3 = M" "\<bar>value_of v1\<bar> \<le> M"
              using assms(1,3) by (auto simp: euclid_def)
            note r = euclid_round [OF wf(7,8) e(1-5)]
            have "0 \<le> value_of u3 mod value_of v3" using wf(8) by simp
            then show ?thesis
              using r e wf T1(3,4) T2(3,4) T3(3,4) unfolding q(3) by (simp add: euclid_def)
          qed
          ultimately show ?thesis
            using D(1) T1(1) T2(1) T3(1) q(1) by (simp add: inv_step_def assms(3) round_ok_def del: free_all.simps)
        qed
      qed
    qed
  qed
qed

abbreviation last_of :: "inv_state \<Rightarrow> ILBigNum" where
  "last_of s \<equiv> snd (snd (snd (snd (snd s))))"

lemma is_zero_value: "wf_num n \<Longrightarrow> ILBigNumIsZero n \<longleftrightarrow> value_of n = 0"
  using mag_eq_0_iff [of n] by (auto simp: ILBigNumIsZero_def value_of_def)

text \<open>The loop ends: the last remainder decreases.\<close>

lemma inv_loop_ends:
  assumes "euclid N M s" "live m = k + 6"
  shows "round_ok m k 6 (\<lambda>s'. euclid N M s' \<and> value_of (last_of s') = 0) (inv_loop s m)"
  using assms
proof (induction "nat (value_of (last_of s))" arbitrary: s m rule: less_induct)
  case less
  obtain u1 u2 u3 v1 v2 v3 where s: "s = (u1, u2, u3, v1, v2, v3)" by (cases s) auto
  have wf: "wf_num v3" "0 \<le> value_of v3" using less.prems(1) by (simp_all add: euclid_def s)
  show ?case
  proof (cases "value_of v3 = 0")
    case True
    with wf less.prems show ?thesis by (subst inv_loop.simps) (simp add: s is_zero_value round_ok_def)
  next
    case False
    from inv_step_round [OF less.prems s False] obtain z m' where z: "inv_step s m = Some (z, m')" "later m m'"
      "case z of None \<Rightarrow> out_of_memory m m' \<and> live m' = k
        | Some s' \<Rightarrow> (euclid N M s' \<and> value_of (last_of s') = value_of u3 mod value_of v3) \<and> live m' = k + 6"
      unfolding round_ok_def by blast
    have step: "inv_loop s m = (case z of None \<Rightarrow> Some (None, m') | Some s' \<Rightarrow> inv_loop s' m')"
      using False wf z(1) by (subst inv_loop.simps) (simp add: s is_zero_value)
    show ?thesis
    proof (cases z)
      case None
      with z step show ?thesis by (simp add: round_ok_def)
    next
      case (Some s')
      have "value_of u3 mod value_of v3 < value_of v3" "0 \<le> value_of u3 mod value_of v3" using wf False by simp_all
      then have "nat (value_of (last_of s')) < nat (value_of (last_of s))" using z(3) Some by (simp add: s)
      from less.hyps [OF this, of m'] z(3) Some
      have "round_ok m' k 6 (\<lambda>s'. euclid N M s' \<and> value_of (last_of s') = 0) (inv_loop s' m')" by simp
      from round_ok_later [OF z(2) this] step Some show ?thesis by simp
    qed
  qed
qed

section \<open>The inverse\<close>

definition inverse_of :: "int \<Rightarrow> int \<Rightarrow> int \<Rightarrow> bool" where
  "inverse_of N M r \<longleftrightarrow> 0 \<le> r \<and> r \<le> M \<and> (r * N) mod M = gcd N M mod M"

lemma inv_finish_value:
  assumes "euclid N (value_of md) s" "value_of (last_of s) = 0" "live m' = live m + 6" "later m m'" "wf_num md" "0 < value_of md"
  shows "delivers m (inv_finish md s m') (\<lambda>n. inverse_of N (value_of md) (value_of n))"
proof -
  obtain u1 u2 u3 v1 v2 v3 where s: "s = (u1, u2, u3, v1, v2, v3)" by (cases s) auto
  let ?M = "value_of md" and ?u = "value_of u1"
  have e: "wf_num u1" "?u * N + value_of u2 * ?M = value_of u3" "gcd (value_of u3) 0 = gcd N ?M" "0 \<le> value_of u3" "\<bar>?u\<bar> \<le> ?M"
    using assms(1,2) by (simp_all add: euclid_def s)
  have g: "(?u * N) mod ?M = gcd N ?M mod ?M"
  proof -
    have "(?u * N) mod ?M = (?u * N + value_of u2 * ?M) mod ?M" by simp
    with e(2-4) show ?thesis by simp
  qed
  have f: "free_all (map Some [u2, u3, v1, v2, v3]) m' = Some (m'\<lparr>live := Suc (live m)\<rparr>)" (is "_ = Some ?m")
    by (rule free_all_live) (use assms(3) in simp)
  show ?thesis
  proof (cases "neg u1")
    case True
    then have "?u \<le> 0" by (simp add: value_of_def)
    with e(5) g have "inverse_of N ?M (?M + ?u)" by (simp add: inverse_of_def algebra_simps)
    then have "delivers ?m (ILBigNumAdd md u1 None ?m) (\<lambda>n. inverse_of N ?M (value_of n))"
      by (intro delivers_mono [OF big_add_value [OF assms(5) e(1)]]) simp
    from free_after [OF this, of m u1] f True assms(4) show ?thesis
      unfolding inv_finish_def s by (simp del: free_all.simps list.map)
  next
    case False
    then have "0 \<le> ?u" by (simp add: value_of_def)
    with e(5) g have "inverse_of N ?M ?u" by (simp add: inverse_of_def)
    with f False assms(4) e(1) show ?thesis
      unfolding inv_finish_def s by (auto simp del: free_all.simps list.map intro: delivers_num)
  qed
qed

lemma delivers_any:
  assumes "delivers m r P"
  obtains z m' where "r = Some (z, m')" "later m m'" "live m' = live m + live_count [z]"
    "z = None \<Longrightarrow> out_of_memory m m'" "\<And>n. z = Some n \<Longrightarrow> wf_num n \<and> P n"
  using assms by (cases rule: delivers_cases) auto

lemma inv_value:
  assumes "wf_num num" "wf_num md" "0 \<le> value_of num" "0 < value_of md"
  shows "delivers m (ILBigNumInv num md m) (\<lambda>n. inverse_of (value_of num) (value_of md) (value_of n))"
proof -
  obtain u1 m1 where u1: "ILBigNumFromInt 1 m = Some (u1, m1)" "later m m1" "live m1 = live m + live_count [u1]"
    "u1 = None \<Longrightarrow> out_of_memory m m1" "\<And>n. u1 = Some n \<Longrightarrow> wf_num n \<and> (value_of n = int (unat (1 :: u32)) \<and> \<not> neg n)"
    by (rule delivers_any [OF from_int_correct [of m 1]]) blast
  obtain u2 m2 where u2: "ILBigNumFromInt 0 m1 = Some (u2, m2)" "later m1 m2" "live m2 = live m1 + live_count [u2]"
    "u2 = None \<Longrightarrow> out_of_memory m1 m2" "\<And>n. u2 = Some n \<Longrightarrow> wf_num n \<and> (value_of n = int (unat (0 :: u32)) \<and> \<not> neg n)"
    by (rule delivers_any [OF from_int_correct [of m1 0]]) blast
  obtain u3 m3 where u3: "ILBigNumCopy num m2 = Some (u3, m3)" "later m2 m3" "live m3 = live m2 + live_count [u3]"
    "u3 = None \<Longrightarrow> out_of_memory m2 m3" "\<And>n. u3 = Some n \<Longrightarrow> wf_num n \<and> (value_of n = value_of num \<and> neg n = neg num)"
    by (rule delivers_any [OF copy_correct [OF assms(1), of m2]]) blast
  obtain v1 m4 where v1: "ILBigNumFromInt 0 m3 = Some (v1, m4)" "later m3 m4" "live m4 = live m3 + live_count [v1]"
    "v1 = None \<Longrightarrow> out_of_memory m3 m4" "\<And>n. v1 = Some n \<Longrightarrow> wf_num n \<and> (value_of n = int (unat (0 :: u32)) \<and> \<not> neg n)"
    by (rule delivers_any [OF from_int_correct [of m3 0]]) blast
  obtain v2 m5 where v2: "ILBigNumFromInt 1 m4 = Some (v2, m5)" "later m4 m5" "live m5 = live m4 + live_count [v2]"
    "v2 = None \<Longrightarrow> out_of_memory m4 m5" "\<And>n. v2 = Some n \<Longrightarrow> wf_num n \<and> (value_of n = int (unat (1 :: u32)) \<and> \<not> neg n)"
    by (rule delivers_any [OF from_int_correct [of m4 1]]) blast
  obtain v3 m6 where v3: "ILBigNumCopy md m5 = Some (v3, m6)" "later m5 m6" "live m6 = live m5 + live_count [v3]"
    "v3 = None \<Longrightarrow> out_of_memory m5 m6" "\<And>n. v3 = Some n \<Longrightarrow> wf_num n \<and> (value_of n = value_of md \<and> neg n = neg md)"
    by (rule delivers_any [OF copy_correct [OF assms(2), of m5]]) blast
  let ?all = "[u1, u2, u3, v1, v2, v3]"
  have lat: "later m m6" "later m m2" "later m m3" "later m m4" "later m m5" "later m1 m6" "later m2 m6" "later m3 m6" "later m4 m6"
    using u1(2) u2(2) u3(2) v1(2) v2(2) v3(2) by (meson later_trans)+
  have lv: "live m6 = live m + live_count ?all" using u1(3) u2(3) u3(3) v1(3) v2(3) v3(3) by simp
  have eq: "ILBigNumInv num md m = (if None \<in> set ?all then do { m \<leftarrow> free_all ?all m6; Some (None, m) }
    else do { (s, m) \<leftarrow> inv_loop (the u1, the u2, the u3, the v1, the v2, the v3) m6;
      case s of None \<Rightarrow> Some (None, m) | Some s \<Rightarrow> inv_finish md s m })"
    unfolding ILBigNumInv_def by (simp add: u1(1) u2(1) u3(1) v1(1) v2(1) v3(1) del: free_all.simps)
  show ?thesis
  proof (cases "None \<in> set ?all")
    case True
    then have "out_of_memory m m6"
      using u1(4) u2(4) u3(4) v1(4) v2(4) v3(4) lat u1(2) u2(2) u3(2) v1(2) v2(2) v3(2)
      by (auto intro: out_of_memory_mono)
    with True lat(1) free_all_live [OF lv] show ?thesis
      unfolding eq by (auto simp del: free_all.simps intro: delivers_null)
  next
    case False
    then obtain a b c d e f where n: "u1 = Some a" "u2 = Some b" "u3 = Some c" "v1 = Some d" "v2 = Some e" "v3 = Some f"
      by (cases u1; cases u2; cases u3; cases v1; cases v2; cases v3) simp_all
    have "euclid (value_of num) (value_of md) (a, b, c, d, e, f)"
      using u1(5) [OF n(1)] u2(5) [OF n(2)] u3(5) [OF n(3)] v1(5) [OF n(4)] v2(5) [OF n(5)] v3(5) [OF n(6)] assms
      by (simp add: euclid_def)
    moreover have six: "live m6 = live m + 6" using lv by (simp add: n)
    ultimately obtain z m7 where z: "inv_loop (a, b, c, d, e, f) m6 = Some (z, m7)" "later m6 m7"
      "case z of None \<Rightarrow> out_of_memory m6 m7 \<and> live m7 = live m
        | Some s' \<Rightarrow> (euclid (value_of num) (value_of md) s' \<and> value_of (last_of s') = 0) \<and> live m7 = live m + 6"
      using inv_loop_ends unfolding round_ok_def by blast
    have lat7: "later m m7" by (rule later_trans [OF lat(1) z(2)])
    show ?thesis
    proof (cases z)
      case None
      with z lat lat7 show ?thesis unfolding eq by (auto simp: n intro: delivers_null out_of_memory_mono)
    next
      case (Some s')
      with z(3) inv_finish_value [of "value_of num" md s' m7 m] lat7 assms show ?thesis
        unfolding eq by (simp add: n z(1))
    qed
  qed
qed

end
