(* ===== verification/BigNumPow.thy ===== *)
theory BigNumPow
  imports BigNumInv
begin

text \<open>
  Powers of big numbers: \<^verbatim>\<open>ILBigNumPow\<close> of \<^verbatim>\<open>support/bignum.c\<close>, the binary method over the words of
  the exponent, with its early exit at the top bit and with every allocation failure.
\<close>

type_synonym pow_state = "ILBigNum \<times> ILBigNum"
type_synonym pow_result = "(pow_state option \<times> mem) option"

text \<open>
  \<^verbatim>\<open>temp = ILBigNumMul(a, b, modulus)\<close> in place of the number \<open>old\<close>; when there is no memory the
  other number is freed too and the function returns null.
\<close>

definition replace_product :: "ILBigNum \<Rightarrow> ILBigNum \<Rightarrow> ILBigNum option \<Rightarrow> ILBigNum \<Rightarrow> ILBigNum \<Rightarrow> mem \<Rightarrow> num_result" where
  "replace_product a b modulus old other m = do {
     (temp, m) \<leftarrow> ILBigNumMul a b modulus m;
     m \<leftarrow> ILBigNumFree (Some old) m;
     case temp of
       None \<Rightarrow> do { m \<leftarrow> ILBigNumFree (Some other) m; Some (None, m) }
     | Some t \<Rightarrow> Some (Some t, m)
   }"

definition pow_multiply :: "ILBigNum option \<Rightarrow> u32 \<Rightarrow> nat \<Rightarrow> pow_state \<Rightarrow> mem \<Rightarrow> num_result" where
  "pow_multiply modulus w b s m = (case s of (result, pow) \<Rightarrow>
     if w AND push_bit b 1 \<noteq> 0 then replace_product result pow modulus result pow m
     else Some (Some result, m))"

definition pow_top :: "u32 \<Rightarrow> nat \<Rightarrow> bool" where
  "pow_top w b \<longleftrightarrow> w AND (push_bit b 1 - 1) = w"

function pow_bits :: "ILBigNum option \<Rightarrow> u32 \<Rightarrow> bool \<Rightarrow> nat \<Rightarrow> pow_state \<Rightarrow> mem \<Rightarrow> pow_result" where
  "pow_bits modulus w last_word b s m =
     (if b < 32 then do {
        (res, m) \<leftarrow> pow_multiply modulus w b s m;
        case res of None \<Rightarrow> Some (None, m)
        | Some result \<Rightarrow>
            if last_word \<and> pow_top w b then Some (Some (result, snd s), m)
            else do {
              (sq, m) \<leftarrow> replace_product (snd s) (snd s) modulus (snd s) result m;
              case sq of None \<Rightarrow> Some (None, m)
              | Some pow \<Rightarrow> pow_bits modulus w last_word (Suc b) (result, pow) m
            }
      }
      else Some (Some s, m))"
  by auto
termination
  by (relation "measure (\<lambda>(modulus, w, l, b, s, m). 32 - b)") auto

declare pow_bits.simps [simp del]

function pow_words :: "ILBigNum option \<Rightarrow> ILBigNum \<Rightarrow> nat \<Rightarrow> pow_state \<Rightarrow> mem \<Rightarrow> pow_result" where
  "pow_words modulus numy posn s m =
     (if posn < num_size numy then do {
        w \<leftarrow> load (words numy) posn;
        (res, m) \<leftarrow> pow_bits modulus w (posn = num_size numy - 1) 0 s m;
        case res of None \<Rightarrow> Some (None, m) | Some s \<Rightarrow> pow_words modulus numy (Suc posn) s m
      }
      else Some (Some s, m))"
  by auto
termination
  by (relation "measure (\<lambda>(modulus, numy, posn, s, m). num_size numy - posn)") auto

declare pow_words.simps [simp del]

definition pow_finish :: "ILBigNum \<Rightarrow> ILBigNum option \<Rightarrow> pow_state \<Rightarrow> mem \<Rightarrow> num_result" where
  "pow_finish numy modulus s m = (case s of (result, pow) \<Rightarrow> do {
     (res, m) \<leftarrow> (case modulus of
         Some md \<Rightarrow>
           if neg numy then do {
             (temp, m) \<leftarrow> ILBigNumInv result md m;
             m \<leftarrow> ILBigNumFree (Some result) m;
             Some (temp, m)
           }
           else Some (Some result, m)
       | None \<Rightarrow> Some (Some result, m));
     m \<leftarrow> ILBigNumFree (Some pow) m;
     Some (res, m)
   })"

definition ILBigNumPow :: "ILBigNum \<Rightarrow> ILBigNum \<Rightarrow> ILBigNum option \<Rightarrow> mem \<Rightarrow> num_result" where
  "ILBigNumPow numx numy modulus m = do {
     (pow, m) \<leftarrow> ILBigNumCopy numx m;
     case pow of None \<Rightarrow> Some (None, m)
     | Some p \<Rightarrow> do {
         (result, m) \<leftarrow> ILBigNumFromInt 1 m;
         case result of
           None \<Rightarrow> do { m \<leftarrow> ILBigNumFree pow m; Some (None, m) }
         | Some r \<Rightarrow> do {
             (s, m) \<leftarrow> pow_words modulus numy 0 (r, p) m;
             case s of None \<Rightarrow> Some (None, m) | Some s \<Rightarrow> pow_finish numy modulus s m
           }
       }
   }"

section \<open>Products up to a modulus\<close>

text \<open>
  What exponentiation needs of multiplication: an optional modulus \<open>md\<close> makes the product a
  residue, \<open>admissible\<close> operands (all of them without a modulus, the non-negative ones with a positive
  modulus) have an admissible product, and residues may be taken early.
\<close>

locale modular_product =
  fixes mul :: "ILBigNum \<Rightarrow> ILBigNum \<Rightarrow> ILBigNum option \<Rightarrow> mem \<Rightarrow> num_result"
    and admissible :: "ILBigNum option \<Rightarrow> int \<Rightarrow> bool"
    and residue :: "ILBigNum option \<Rightarrow> int \<Rightarrow> int"
  assumes mul_residue: "wf_num x \<Longrightarrow> wf_num y \<Longrightarrow> admissible md (value_of x) \<Longrightarrow> admissible md (value_of y) \<Longrightarrow>
      delivers m (mul x y md m) (\<lambda>n. value_of n = residue md (value_of x * value_of y))"
    and admissible_mult: "admissible md a \<Longrightarrow> admissible md b \<Longrightarrow> admissible md (residue md (a * b))"
    and admissible_1: "admissible md a \<Longrightarrow> admissible md 1"
    and residue_mult: "residue md (residue md a * b) = residue md (a * b)"
    and residue_idem: "residue md (residue md a) = residue md a"
begin

lemma residue_mult2: "residue md (residue md a * residue md b) = residue md (a * b)"
  by (metis mult.commute residue_mult)

lemma residue_mult_cong:
  "residue md a = residue md a' \<Longrightarrow> residue md b = residue md b' \<Longrightarrow> residue md (a * b) = residue md (a' * b')"
  by (metis residue_mult2)

lemma mul_cong:
  assumes "wf_num x" "wf_num y" "admissible md (value_of x)" "admissible md (value_of y)"
    and "residue md (value_of x) = residue md a" "residue md (value_of y) = residue md b"
  shows "delivers m (mul x y md m) (\<lambda>n. value_of n = residue md (a * b) \<and> admissible md (value_of n))"
  by (rule delivers_mono [OF mul_residue [OF assms(1-4)]])
    (use residue_mult_cong [OF assms(5,6)] admissible_mult [OF assms(3,4)] in simp)

text \<open>The invariant of the binary method before bit \<open>j\<close> of the exponent \<open>e\<close>.\<close>

definition pow_inv :: "ILBigNum option \<Rightarrow> int \<Rightarrow> nat \<Rightarrow> nat \<Rightarrow> pow_state \<Rightarrow> bool" where
  "pow_inv md x e j s \<longleftrightarrow> (case s of (r, p) \<Rightarrow> wf_num r \<and> wf_num p \<and> admissible md (value_of r) \<and>
     admissible md (value_of p) \<and> residue md (value_of p) = residue md (x ^ 2 ^ j) \<and>
     value_of r = (if take_bit j e = 0 then 1 else residue md (x ^ take_bit j e)))"

lemma pow_inv_residue:
  "pow_inv md x e j (r, p) \<Longrightarrow> residue md (value_of r) = residue md (x ^ take_bit j e)"
  by (auto simp: pow_inv_def residue_idem)

lemma pow_inv_multiply:
  assumes "pow_inv md x e j (r, p)" "bit e j"
  shows "delivers m (mul r p md m) (\<lambda>n. value_of n = residue md (x ^ take_bit (Suc j) e) \<and> admissible md (value_of n))"
proof -
  have "x ^ take_bit (Suc j) e = x ^ take_bit j e * x ^ 2 ^ j"
    using assms(2) by (simp add: take_bit_Suc_from_most power_add mult.commute)
  moreover have "wf_num r" "wf_num p" "admissible md (value_of r)" "admissible md (value_of p)"
    "residue md (value_of p) = residue md (x ^ 2 ^ j)" using assms(1) unfolding pow_inv_def prod.case by blast+
  ultimately show ?thesis
    using mul_cong [of r p md "x ^ take_bit j e" "x ^ 2 ^ j" m] pow_inv_residue [OF assms(1)] by simp
qed

lemma pow_inv_square:
  assumes "pow_inv md x e j (r, p)"
  shows "delivers m (mul p p md m) (\<lambda>n. residue md (value_of n) = residue md (x ^ 2 ^ Suc j) \<and> admissible md (value_of n))"
proof -
  have "x ^ 2 ^ Suc j = x ^ 2 ^ j * x ^ 2 ^ j" by (simp add: mult_2 power_add)
  moreover have "wf_num p" "admissible md (value_of p)" "residue md (value_of p) = residue md (x ^ 2 ^ j)"
    using assms unfolding pow_inv_def prod.case by blast+
  ultimately show ?thesis
    by (intro delivers_mono [OF mul_cong [where a = "x ^ 2 ^ j" and b = "x ^ 2 ^ j"]]) (auto simp: residue_idem)
qed

end

definition admissible :: "ILBigNum option \<Rightarrow> int \<Rightarrow> bool" where
  "admissible md a \<longleftrightarrow> (case md of None \<Rightarrow> True | Some d \<Rightarrow> wf_num d \<and> 0 < value_of d \<and> 0 \<le> a)"

definition residue :: "ILBigNum option \<Rightarrow> int \<Rightarrow> int" where
  "residue md a = (case md of None \<Rightarrow> a | Some d \<Rightarrow> a mod value_of d)"

interpretation bn: modular_product ILBigNumMul admissible residue
proof
  fix x y md m
  assume "wf_num x" "wf_num y" "admissible md (value_of x)" "admissible md (value_of y)"
  then show "delivers m (ILBigNumMul x y md m) (\<lambda>n. value_of n = residue md (value_of x * value_of y))"
    by (cases md) (auto simp: admissible_def residue_def mul_value mul_mod_value)
qed (auto simp: admissible_def residue_def mod_mult_left_eq split: option.splits)

section \<open>The bits of the exponent\<close>

lemma word_bit_test: "(w :: u32) AND push_bit b 1 \<noteq> 0 \<longleftrightarrow> bit w b"
  by (simp add: push_bit_eq_mult and_exp_eq_0_iff_not_bit)

lemma pow_top_iff: "pow_top w b \<longleftrightarrow> unat w < 2 ^ b"
proof -
  have "pow_top w b \<longleftrightarrow> take_bit b w = w"
    unfolding pow_top_def take_bit_eq_mask mask_eq_exp_minus_1 by (simp add: push_bit_eq_mult)
  also have "\<dots> \<longleftrightarrow> take_bit b (unat w) = unat w"
    by (simp add: word_unat_eq_iff unsigned_take_bit_eq)
  finally show ?thesis by (simp add: take_bit_nat_eq_self_iff)
qed

text \<open>The exponent around word \<open>i\<close>.\<close>

definition word_at :: "nat \<Rightarrow> nat \<Rightarrow> u32 \<Rightarrow> nat \<Rightarrow> bool" where
  "word_at e i w hi \<longleftrightarrow> e div W i = unat w + 2 ^ 32 * hi"

lemma word_at_bit:
  assumes "word_at e i w hi" "b < 32"
  shows "bit e (32 * i + b) \<longleftrightarrow> bit w b"
proof -
  have "bit e (32 * i + b) \<longleftrightarrow> bit (e div W i) b"
    by (simp add: W_def bit_iff_odd div_mult2_eq [symmetric] power_add)
  also have "\<dots> \<longleftrightarrow> bit (unat w) b"
  proof -
    have "take_bit 32 (e div W i) = unat w"
      using assms(1) unat_less_32 [of w] by (simp add: word_at_def take_bit_eq_mod)
    then show ?thesis using assms(2) by (metis bit_take_bit_iff)
  qed
  finally show ?thesis by (auto simp: bit_unsigned_iff dest: bit_imp_le_length)
qed

lemma word_at_top:
  assumes "word_at e i w 0"
  shows "e < 2 ^ (32 * i + b) \<longleftrightarrow> pow_top w b"
proof -
  have "e < 2 ^ (32 * i + b) \<longleftrightarrow> e div W i < 2 ^ b"
    by (simp add: W_def power_add less_mult_imp_div_less div_less_iff_less_mult mult.commute)
  with assms show ?thesis by (simp add: word_at_def pow_top_iff)
qed

lemma word_at_mag:
  assumes "wf_num y" "i < num_size y"
  shows "word_at (mag y) i (words y ! i) (val (drop (Suc i) (take (num_size y) (words y))))"
proof -
  let ?ws = "take (num_size y) (words y)"
  have i: "i < length ?ws" using assms by (simp add: wf_num_def)
  have "mag y = val (take i ?ws) + W i * val (drop i ?ws)"
    unfolding mag_def using val_split [of ?ws i] i by (simp add: min_def)
  moreover have "val (take i ?ws) < W i" by (rule val_take_bound) (use i in simp)
  ultimately have "mag y div W i = val (drop i ?ws)" by simp
  with val_drop_Suc [OF i] assms(2) show ?thesis by (simp add: word_at_def)
qed

section \<open>The loops\<close>

lemma replace_product_ok:
  assumes "delivers m (ILBigNumMul a b md m) P" "live m = k + 2"
  shows "round_ok m k 2 (\<lambda>n. wf_num n \<and> P n) (replace_product a b md old other m)"
  using assms(1)
  by (cases rule: delivers_cases) (use assms(2) in \<open>simp_all add: replace_product_def round_ok_def ILBigNumFree_def\<close>)

lemma round_ok_cases:
  assumes "round_ok m k c P r"
  obtains (null) m' where "r = Some (None, m')" "later m m'" "out_of_memory m m'" "live m' = k"
    | (state) s m' where "r = Some (Some s, m')" "later m m'" "P s" "live m' = k + c"
proof -
  from assms obtain z m' where z: "r = Some (z, m')" "later m m'"
    "case z of None \<Rightarrow> out_of_memory m m' \<and> live m' = k | Some s \<Rightarrow> P s \<and> live m' = k + c"
    unfolding round_ok_def by blast
  with that show ?thesis by (cases z) simp_all
qed

lemma round_ok_state: "later m m' \<Longrightarrow> P s \<Longrightarrow> live m' = k + c \<Longrightarrow> round_ok m k c P (Some (Some s, m'))"
  by (simp add: round_ok_def)

lemma pow_multiply_ok:
  assumes "bn.pow_inv md x e j (r, p)" "bit e j \<longleftrightarrow> bit w b" "live m = k + 2"
  shows "round_ok m k 2 (\<lambda>n. wf_num n \<and> admissible md (value_of n) \<and>
    (bit e j \<or> n = r) \<and> value_of n = (if take_bit (Suc j) e = 0 then 1 else residue md (x ^ take_bit (Suc j) e)))
    (pow_multiply md w b (r, p) m)"
proof (cases "bit e j")
  case True
  then have "take_bit (Suc j) e \<noteq> 0" by (simp add: take_bit_Suc_from_most)
  with replace_product_ok [OF bn.pow_inv_multiply [OF assms(1) True] assms(3), of r p] True assms(2) show ?thesis
    unfolding pow_multiply_def word_bit_test prod.case by (simp add: conj_commute)
next
  case False
  then have "take_bit (Suc j) e = take_bit j e" by (simp add: take_bit_Suc_from_most)
  moreover have "wf_num r" "admissible md (value_of r)"
    "value_of r = (if take_bit j e = 0 then 1 else residue md (x ^ take_bit j e))"
    using assms(1) unfolding bn.pow_inv_def prod.case by blast+
  moreover have "\<not> bit w b" using False assms(2) by simp
  ultimately show ?thesis
    unfolding pow_multiply_def word_bit_test prod.case using assms(3) by (auto intro!: round_ok_state)
qed

abbreviation word_done :: "ILBigNum option \<Rightarrow> int \<Rightarrow> nat \<Rightarrow> nat \<Rightarrow> bool \<Rightarrow> pow_state \<Rightarrow> bool" where
  "word_done md x e i last_word s \<equiv>
     \<exists>j. bn.pow_inv md x e j s \<and> (j = 32 * Suc i \<or> last_word \<and> e < 2 ^ j)"

lemma pow_bits_ok:
  assumes "bn.pow_inv md x e (32 * i + b) s" "b \<le> 32" "live m = k + 2" "word_at e i w hi" "last_word \<Longrightarrow> hi = 0"
  shows "round_ok m k 2 (word_done md x e i last_word) (pow_bits md w last_word b s m)"
  using assms(1-3)
proof (induction "32 - b" arbitrary: b s m)
  case 0
  then have "b = 32" by simp
  with 0 have "bn.pow_inv md x e (32 * Suc i) s" by (simp add: add.commute)
  with 0 \<open>b = 32\<close> show ?case by (subst pow_bits.simps) (auto simp: round_ok_def)
next
  case (Suc d)
  obtain r p where s: "s = (r, p)" by (cases s)
  let ?j = "32 * i + b"
  have b: "b < 32" using Suc.hyps(2) by simp
  have unfold: "pow_bits md w last_word b (r, p) m = do {
      (res, m) \<leftarrow> pow_multiply md w b (r, p) m;
      case res of None \<Rightarrow> Some (None, m)
      | Some r' \<Rightarrow> if last_word \<and> pow_top w b then Some (Some (r', p), m)
          else do {
            (sq, m) \<leftarrow> replace_product p p md p r' m;
            case sq of None \<Rightarrow> Some (None, m) | Some p' \<Rightarrow> pow_bits md w last_word (Suc b) (r', p') m
          } }"
    unfolding pow_bits.simps [of md w last_word b "(r, p)" m] snd_conv using b by simp
  have inv: "bn.pow_inv md x e ?j (r, p)" using Suc.prems(1) s by simp
  from pow_multiply_ok [OF inv word_at_bit [OF assms(4) b] Suc.prems(3)] show ?case
  proof (cases rule: round_ok_cases)
    case (null m')
    then show ?thesis by (simp add: unfold s round_ok_def)
  next
    case R: (state r' m1)
    show ?thesis
    proof (cases "last_word \<and> pow_top w b")
      case True
      with word_at_top [of e i w b] assms(4,5) have e: "e < 2 ^ ?j" by simp
      then have "\<not> bit e ?j" by (simp add: bit_iff_odd)
      with R have "r' = r" by simp
      then have u: "pow_bits md w last_word b (r, p) m = Some (Some (r, p), m1)"
        unfolding unfold using R(1) True by simp
      show ?thesis unfolding s u by (rule round_ok_state) (use R(2,4) True inv e in auto)
    next
      case False
      have u: "pow_bits md w last_word b (r, p) m = do {
          (sq, m) \<leftarrow> replace_product p p md p r' m1;
          case sq of None \<Rightarrow> Some (None, m) | Some p' \<Rightarrow> pow_bits md w last_word (Suc b) (r', p') m }"
        unfolding unfold if_not_P [OF False] using R(1) by simp
      from replace_product_ok [OF bn.pow_inv_square [OF inv] R(4), of p r'] show ?thesis
      proof (cases rule: round_ok_cases)
        case (null m')
        with R(2) show ?thesis by (auto simp: s u round_ok_def intro: later_trans out_of_memory_mono)
      next
        case Q: (state p' m2)
        have "bn.pow_inv md x e (32 * i + Suc b) (r', p')"
          using R(3) Q(3) unfolding bn.pow_inv_def prod.case add_Suc_right by blast
        from Suc.hyps(1) [OF _ this _ Q(4)] Suc.hyps(2) b
        have "round_ok m2 k 2 (word_done md x e i last_word) (pow_bits md w last_word (Suc b) (r', p') m2)" by simp
        from round_ok_later [OF later_trans [OF R(2) Q(2)] this] Q(1) show ?thesis by (simp add: s u)
      qed
    qed
  qed
qed

lemma pow_words_ok:
  assumes "bn.pow_inv md x (mag y) (32 * i) s" "i \<le> num_size y" "live m = k + 2" "wf_num y"
  shows "round_ok m k 2 (\<lambda>s'. \<exists>j. bn.pow_inv md x (mag y) j s' \<and> mag y < 2 ^ j) (pow_words md y i s m)"
  using assms(1-3)
proof (induction "num_size y - i" arbitrary: i s m)
  case 0
  then have "i = num_size y" by simp
  moreover have "mag y < 2 ^ (32 * num_size y)"
    using mag_bound [of y] assms(4) by (simp add: wf_num_def W_def)
  ultimately show ?case using 0 by (subst pow_words.simps) (auto simp: round_ok_def)
next
  case (Suc d)
  then have i: "i < num_size y" by simp
  then have l: "load (words y) i = Some (words y ! i)" using assms(4) by (simp add: array_simps wf_num_def)
  let ?last = "i = num_size y - 1"
  let ?hi = "val (drop (Suc i) (take (num_size y) (words y)))"
  have hi: "?hi = 0" if ?last using that i by simp
  from Suc.prems(1) have "bn.pow_inv md x (mag y) (32 * i + 0) s" by simp
  from pow_bits_ok [OF this _ Suc.prems(3) word_at_mag [OF assms(4) i] hi] 
  have "round_ok m k 2 (word_done md x (mag y) i ?last) (pow_bits md (words y ! i) ?last 0 s m)" by simp
  then show ?case
  proof (cases rule: round_ok_cases)
    case (null m')
    with i l show ?thesis by (subst pow_words.simps) (simp add: round_ok_def)
  next
    case S: (state s' m')
    have u: "pow_words md y i s m = pow_words md y (Suc i) s' m'"
      using i l S(1) by (subst pow_words.simps) simp
    from S(3) obtain j where j: "bn.pow_inv md x (mag y) j s'" "j = 32 * Suc i \<or> ?last \<and> mag y < 2 ^ j" by blast
    show ?thesis
    proof (cases "j = 32 * Suc i")
      case True
      from Suc.hyps(1) [of "Suc i" s' m'] Suc.hyps(2) i j(1) S(4) True
      have "round_ok m' k 2 (\<lambda>s'. \<exists>j. bn.pow_inv md x (mag y) j s' \<and> mag y < 2 ^ j) (pow_words md y (Suc i) s' m')" by simp
      from round_ok_later [OF S(2) this] show ?thesis by (simp add: u)
    next
      case False
      with j i have "\<not> Suc i < num_size y" "mag y < 2 ^ j" by auto
      with j(1) S show ?thesis unfolding u by (subst pow_words.simps) (auto simp: round_ok_def)
    qed
  qed
qed

section \<open>The power\<close>

definition power_of :: "ILBigNum option \<Rightarrow> int \<Rightarrow> int \<Rightarrow> int" where
  "power_of md x y = (if y = 0 then 1 else residue md (x ^ nat \<bar>y\<bar>))"

lemma pow_finish_value:
  assumes "bn.pow_inv md x (mag y) j s" "mag y < 2 ^ j" "later m m'" "live m' = live m + 2"
  shows "delivers m (pow_finish y md s m') (\<lambda>n. case md of
      Some d \<Rightarrow> if neg y then inverse_of (power_of md x (value_of y)) (value_of d) (value_of n)
        else value_of n = power_of md x (value_of y)
    | None \<Rightarrow> value_of n = power_of md x (value_of y))" (is "delivers m _ ?P")
proof -
  obtain r p where s: "s = (r, p)" by (cases s)
  have r: "wf_num r" "admissible md (value_of r)"
    using assms(1) unfolding bn.pow_inv_def s prod.case by blast+
  have v: "value_of r = power_of md x (value_of y)"
    using assms(1,2) by (auto simp: bn.pow_inv_def s power_of_def value_of_def take_bit_nat_eq_self)
  show ?thesis
  proof (cases "neg y \<and> md \<noteq> None")
    case True
    then obtain d where d: "md = Some d" "neg y" by auto
    with r(2) have "wf_num d" "0 < value_of d" "0 \<le> value_of r" by (simp_all add: admissible_def)
    from inv_value [OF r(1) this(1,3,2)]
    have "delivers m' (ILBigNumInv r d m') ?P"
      by (rule delivers_mono) (use d v in simp)
    then show ?thesis
      by (cases rule: delivers_cases)
        (use assms(3,4) d in \<open>auto simp: pow_finish_def s ILBigNumFree_def
          intro!: delivers_null delivers_num intro: later_trans out_of_memory_mono\<close>)
  next
    case False
    then have "?P r" using v by (auto split: option.splits)
    with False assms(3,4) r(1) show ?thesis
      by (cases md) (auto simp: pow_finish_def s ILBigNumFree_def intro!: delivers_num)
  qed
qed

lemma pow_value:
  assumes "wf_num x" "wf_num y" "admissible md (value_of x)"
  shows "delivers m (ILBigNumPow x y md m) (\<lambda>n. case md of
      Some d \<Rightarrow> if neg y then inverse_of (power_of md (value_of x) (value_of y)) (value_of d) (value_of n)
        else value_of n = power_of md (value_of x) (value_of y)
    | None \<Rightarrow> value_of n = power_of md (value_of x) (value_of y))" (is "delivers m _ ?P")
  unfolding ILBigNumPow_def
proof (rule delivers_bind [OF copy_correct [OF assms(1)]], goal_cases)
  case (1 m')
  then show ?case by (simp add: delivers_null)
next
  case P: (2 p m1)
  show ?case
  proof (cases rule: delivers_cases [OF from_int_correct [of m1 1]])
    case (1 m2)
    with P show ?thesis by (auto simp: free_block intro!: delivers_null intro: later_trans out_of_memory_mono)
  next
    case R: (2 r m2)
    have "bn.pow_inv md (value_of x) (mag y) (32 * 0) (r, p)"
      using P R assms(3) bn.admissible_1 by (auto simp: bn.pow_inv_def)
    from pow_words_ok [OF this _ _ assms(2), of m2 "live m"] P(4) R(5)
    have "round_ok m2 (live m) 2 (\<lambda>s'. \<exists>j. bn.pow_inv md (value_of x) (mag y) j s' \<and> mag y < 2 ^ j)
      (pow_words md y 0 (r, p) m2)" by simp
    from round_ok_later [OF later_trans [OF P(1) R(2)] this] show ?thesis
    proof (cases rule: round_ok_cases)
      case (null m')
      with R(1) show ?thesis by (simp add: delivers_null)
    next
      case (state s m')
      then obtain j where "bn.pow_inv md (value_of x) (mag y) j s" "mag y < 2 ^ j" by blast
      from pow_finish_value [OF this state(2,4)] R(1) state(1) show ?thesis by simp
    qed
  qed
qed

section \<open>Properties\<close>

text \<open>C10: division of a non-negative number by a positive one gives the quotient and the remainder
  of the integers, whichever of the two are asked for; only the numbers asked for are allocated, and the
  result is null, with nothing left allocated, only when an allocation failed.  This is
  Knuth's algorithm D with 32-bit digits: normalisation, digit estimate, multiply-and-subtract, correction
  and the shift back.  \<^verbatim>\<open>ILBigNumMod\<close> is the remainder.\<close>

theorem big_division_exact:
  assumes "wf_num x" "wf_num y" "0 \<le> value_of x" "0 < value_of y"
  shows "divides m (DivRem x y wq wr m) wq wr (nat (value_of x)) (nat (value_of y)) \<and>
    delivers m (ILBigNumMod x y m) (\<lambda>n. value_of n = value_of x mod value_of y)"
proof -
  have s: "\<not> neg x" "\<not> neg y" using assms nonneg_sign by auto
  then have "mag y \<noteq> 0" "nat (value_of x) = mag x" "nat (value_of y) = mag y"
    using assms(4) by (simp_all add: value_of_def)
  with DivRem_divides [OF assms(1,2) s] mod_value [OF assms] show ?thesis by simp
qed

theorem big_division_exact_witness:
  "divides fresh_mem (DivRem (mk_num False [0, 0, 0x80000000]) (mk_num False [1, 0x80000000]) True True fresh_mem) True True
     (nat (value_of (mk_num False [0, 0, 0x80000000]))) (nat (value_of (mk_num False [1, 0x80000000])))"
  using big_division_exact [of "mk_num False [0, 0, 0x80000000]" "mk_num False [1, 0x80000000]" fresh_mem True True]
  by (simp add: wf_num_def mk_num_def value_of_def mag_def val.simps)

text \<open>C11: multiplication is that of the integers, for every combination of signs; with a positive
  modulus and non-negative operands it is the residue of the product.  Null means that an
  allocation failed and that nothing is left allocated.\<close>

theorem big_mul_exact:
  assumes "wf_num x" "wf_num y"
  shows "delivers m (ILBigNumMul x y None m) (\<lambda>n. value_of n = value_of x * value_of y) \<and>
    (\<forall>md. wf_num md \<and> 0 < value_of md \<and> 0 \<le> value_of x \<and> 0 \<le> value_of y \<longrightarrow>
      delivers m (ILBigNumMul x y (Some md) m) (\<lambda>n. value_of n = (value_of x * value_of y) mod value_of md))"
  using mul_value [OF assms] mul_mod_value [OF assms] by blast

lemma small_num: "w \<noteq> 0 \<Longrightarrow> wf_num (mk_num False [w])" "w \<noteq> 0 \<Longrightarrow> 0 < value_of (mk_num False [w])"
  using uint_0_iff [of w] by (simp_all add: wf_num_def mk_num_def value_of_def mag_def val.simps order_less_le)

theorem big_mul_exact_witness:
  "delivers fresh_mem (ILBigNumMul (mk_num False [0xFFFFFFFF]) (mk_num False [0xFFFFFFFF]) (Some (mk_num False [7])) fresh_mem)
     (\<lambda>n. value_of n = (value_of (mk_num False [0xFFFFFFFF]) * value_of (mk_num False [0xFFFFFFFF])) mod value_of (mk_num False [7]))"
  using big_mul_exact [of "mk_num False [0xFFFFFFFF]" "mk_num False [0xFFFFFFFF]" fresh_mem]
    small_num [of "0xFFFFFFFF"] small_num [of 7] by auto

text \<open>C12: the inverse of a non-negative number for a modulus greater than 1 to which it is coprime is
  the number below the modulus whose product with it has residue 1; the loop of
  the extended Euclid algorithm always ends and every intermediate number is freed, on the
  failing paths too.\<close>

theorem big_inverse_exact:
  assumes "wf_num x" "wf_num md" "0 \<le> value_of x" "1 < value_of md" "coprime (value_of x) (value_of md)"
  shows "delivers m (ILBigNumInv x md m)
    (\<lambda>n. 0 < value_of n \<and> value_of n < value_of md \<and> (value_of n * value_of x) mod value_of md = 1)"
proof (rule delivers_mono [OF inv_value [OF assms(1-3)]])
  fix n
  assume i: "inverse_of (value_of x) (value_of md) (value_of n)"
  with assms(4,5) have one: "(value_of n * value_of x) mod value_of md = 1" by (simp add: inverse_of_def)
  moreover have "value_of n \<noteq> 0" using one by auto
  moreover have "value_of n \<noteq> value_of md" using one by auto
  ultimately show "0 < value_of n \<and> value_of n < value_of md \<and> (value_of n * value_of x) mod value_of md = 1"
    using i by (simp add: inverse_of_def)
qed (use assms(4) in simp)

theorem big_inverse_exact_witness:
  "delivers fresh_mem (ILBigNumInv (mk_num False [3]) (mk_num False [6, 7]) fresh_mem) (\<lambda>n. 0 < value_of n \<and>
     value_of n < value_of (mk_num False [6, 7]) \<and> (value_of n * value_of (mk_num False [3])) mod value_of (mk_num False [6, 7]) = 1)"
proof (rule big_inverse_exact)
  have "gcd 30064771078 3 = gcd 3 (30064771078 mod 3 :: int)" by (rule gcd_red_int)
  then have "gcd 3 30064771078 = (1 :: int)" by (simp add: gcd.commute)
  then show "coprime (value_of (mk_num False [3])) (value_of (mk_num False [6, 7]))"
    by (simp add: mk_num_def value_of_def mag_def val.simps coprime_iff_gcd_eq_1)
qed (simp_all add: wf_num_def mk_num_def value_of_def mag_def val.simps)

text \<open>C13: exponentiation.  Without a modulus the result is the power by the absolute value of the
  exponent (the sign of the exponent is ignored); with a positive modulus and a
  non-negative base it is the residue of that power, 1 for exponent zero, and for a negative exponent
  the modular inverse of that residue.  The loops always end, the early exit at the
  top bit loses nothing, and on every path only the result stays allocated.\<close>

theorem big_power_exact:
  assumes "wf_num x" "wf_num y"
  shows "delivers m (ILBigNumPow x y None m) (\<lambda>n. value_of n = value_of x ^ nat \<bar>value_of y\<bar>) \<and>
    (\<forall>md. wf_num md \<and> 0 < value_of md \<and> 0 \<le> value_of x \<longrightarrow>
      delivers m (ILBigNumPow x y (Some md) m) (\<lambda>n.
        if value_of y = 0 then value_of n = 1
        else if 0 < value_of y then value_of n = value_of x ^ nat (value_of y) mod value_of md
        else inverse_of (value_of x ^ nat (- value_of y) mod value_of md) (value_of md) (value_of n)))"
proof (intro conjI allI impI)
  show "delivers m (ILBigNumPow x y None m) (\<lambda>n. value_of n = value_of x ^ nat \<bar>value_of y\<bar>)"
    by (rule delivers_mono [OF pow_value [OF assms]]) (auto simp: admissible_def power_of_def residue_def split: if_splits)
  fix md
  assume "wf_num md \<and> 0 < value_of md \<and> 0 \<le> value_of x"
  then have a: "admissible (Some md) (value_of x)" by (simp add: admissible_def)
  have "neg y \<longleftrightarrow> value_of y < 0" using nonneg_sign [OF assms(2)] by (cases "neg y") (auto simp: value_of_def)
  then show "delivers m (ILBigNumPow x y (Some md) m) (\<lambda>n.
        if value_of y = 0 then value_of n = 1
        else if 0 < value_of y then value_of n = value_of x ^ nat (value_of y) mod value_of md
        else inverse_of (value_of x ^ nat (- value_of y) mod value_of md) (value_of md) (value_of n))"
    by (intro delivers_mono [OF pow_value [OF assms a]])
      (auto simp: power_of_def residue_def abs_if split: if_splits)
qed

theorem big_power_exact_witness:
  "delivers fresh_mem (ILBigNumPow (mk_num False [3]) (mk_num False [0, 1]) (Some (mk_num False [7])) fresh_mem)
     (\<lambda>n. value_of n = value_of (mk_num False [3]) ^ nat (value_of (mk_num False [0, 1])) mod value_of (mk_num False [7]))"
proof -
  have "wf_num (mk_num False [3])" "wf_num (mk_num False [0, 1])" "wf_num (mk_num False [7])"
    "0 < value_of (mk_num False [7])" "0 \<le> value_of (mk_num False [3])" and y: "0 < value_of (mk_num False [0, 1])"
    by (simp_all add: wf_num_def mk_num_def value_of_def mag_def val.simps)
  with big_power_exact [of "mk_num False [3]" "mk_num False [0, 1]" fresh_mem]
  have "delivers fresh_mem (ILBigNumPow (mk_num False [3]) (mk_num False [0, 1]) (Some (mk_num False [7])) fresh_mem) (\<lambda>n.
        if value_of (mk_num False [0, 1]) = 0 then value_of n = 1
        else if 0 < value_of (mk_num False [0, 1]) then value_of n = value_of (mk_num False [3]) ^ nat (value_of (mk_num False [0, 1])) mod value_of (mk_num False [7])
        else inverse_of (value_of (mk_num False [3]) ^ nat (- value_of (mk_num False [0, 1])) mod value_of (mk_num False [7])) (value_of (mk_num False [7])) (value_of n))"
    by blast
  with y show ?thesis by (elim delivers_mono) (simp del: power_numeral)
qed

end
