(* ===== verification/Coder.thy ===== *)
theory Coder
  imports Prelude
begin

text \<open>
  The code generator of the engine: \<^verbatim>\<open>engine/cvmc_arith.c\<close>, \<^verbatim>\<open>engine/cvmc_conv.c\<close>,
  \<^verbatim>\<open>engine/cvmc_const.c\<close> and \<^verbatim>\<open>engine/cvmc_stack.c\<close>, which turn an IL instruction and the engine types
  of its operands into CVM byte code, with the output macros of \<^verbatim>\<open>engine/cvmc_gen.h\<close> and the
  height bookkeeping of \<^verbatim>\<open>engine/cvmc.c\<close>.  The configuration is a parameter: whether the native
  integer has 64 bits, and the sizes of the types in stack words.
\<close>

section \<open>Opcodes\<close>

text \<open>The numbers of \<^verbatim>\<open>include/il_opcodes.h\<close> and \<^verbatim>\<open>engine/cvm.h\<close>.\<close>

abbreviation (input) IL_OP_NOP :: nat where "IL_OP_NOP \<equiv> 0x00"
abbreviation (input) IL_OP_BREAK :: nat where "IL_OP_BREAK \<equiv> 0x01"
abbreviation (input) IL_OP_LDNULL :: nat where "IL_OP_LDNULL \<equiv> 0x14"
abbreviation (input) IL_OP_LDC_I4_M1 :: nat where "IL_OP_LDC_I4_M1 \<equiv> 0x15"
abbreviation (input) IL_OP_LDC_I4_0 :: nat where "IL_OP_LDC_I4_0 \<equiv> 0x16"
abbreviation (input) IL_OP_LDC_I4_1 :: nat where "IL_OP_LDC_I4_1 \<equiv> 0x17"
abbreviation (input) IL_OP_LDC_I4_2 :: nat where "IL_OP_LDC_I4_2 \<equiv> 0x18"
abbreviation (input) IL_OP_LDC_I4_3 :: nat where "IL_OP_LDC_I4_3 \<equiv> 0x19"
abbreviation (input) IL_OP_LDC_I4_4 :: nat where "IL_OP_LDC_I4_4 \<equiv> 0x1A"
abbreviation (input) IL_OP_LDC_I4_5 :: nat where "IL_OP_LDC_I4_5 \<equiv> 0x1B"
abbreviation (input) IL_OP_LDC_I4_6 :: nat where "IL_OP_LDC_I4_6 \<equiv> 0x1C"
abbreviation (input) IL_OP_LDC_I4_7 :: nat where "IL_OP_LDC_I4_7 \<equiv> 0x1D"
abbreviation (input) IL_OP_LDC_I4_8 :: nat where "IL_OP_LDC_I4_8 \<equiv> 0x1E"
abbreviation (input) IL_OP_LDC_I4_S :: nat where "IL_OP_LDC_I4_S \<equiv> 0x1F"
abbreviation (input) IL_OP_LDC_I4 :: nat where "IL_OP_LDC_I4 \<equiv> 0x20"
abbreviation (input) IL_OP_LDC_I8 :: nat where "IL_OP_LDC_I8 \<equiv> 0x21"
abbreviation (input) IL_OP_LDC_R4 :: nat where "IL_OP_LDC_R4 \<equiv> 0x22"
abbreviation (input) IL_OP_LDC_R8 :: nat where "IL_OP_LDC_R8 \<equiv> 0x23"
abbreviation (input) IL_OP_DUP :: nat where "IL_OP_DUP \<equiv> 0x25"
abbreviation (input) IL_OP_POP :: nat where "IL_OP_POP \<equiv> 0x26"
abbreviation (input) IL_OP_ADD :: nat where "IL_OP_ADD \<equiv> 0x58"
abbreviation (input) IL_OP_SUB :: nat where "IL_OP_SUB \<equiv> 0x59"
abbreviation (input) IL_OP_MUL :: nat where "IL_OP_MUL \<equiv> 0x5A"
abbreviation (input) IL_OP_DIV :: nat where "IL_OP_DIV \<equiv> 0x5B"
abbreviation (input) IL_OP_DIV_UN :: nat where "IL_OP_DIV_UN \<equiv> 0x5C"
abbreviation (input) IL_OP_REM :: nat where "IL_OP_REM \<equiv> 0x5D"
abbreviation (input) IL_OP_REM_UN :: nat where "IL_OP_REM_UN \<equiv> 0x5E"
abbreviation (input) IL_OP_AND :: nat where "IL_OP_AND \<equiv> 0x5F"
abbreviation (input) IL_OP_OR :: nat where "IL_OP_OR \<equiv> 0x60"
abbreviation (input) IL_OP_XOR :: nat where "IL_OP_XOR \<equiv> 0x61"
abbreviation (input) IL_OP_SHL :: nat where "IL_OP_SHL \<equiv> 0x62"
abbreviation (input) IL_OP_SHR :: nat where "IL_OP_SHR \<equiv> 0x63"
abbreviation (input) IL_OP_SHR_UN :: nat where "IL_OP_SHR_UN \<equiv> 0x64"
abbreviation (input) IL_OP_NEG :: nat where "IL_OP_NEG \<equiv> 0x65"
abbreviation (input) IL_OP_NOT :: nat where "IL_OP_NOT \<equiv> 0x66"
abbreviation (input) IL_OP_CONV_I1 :: nat where "IL_OP_CONV_I1 \<equiv> 0x67"
abbreviation (input) IL_OP_CONV_I2 :: nat where "IL_OP_CONV_I2 \<equiv> 0x68"
abbreviation (input) IL_OP_CONV_I4 :: nat where "IL_OP_CONV_I4 \<equiv> 0x69"
abbreviation (input) IL_OP_CONV_I8 :: nat where "IL_OP_CONV_I8 \<equiv> 0x6A"
abbreviation (input) IL_OP_CONV_R4 :: nat where "IL_OP_CONV_R4 \<equiv> 0x6B"
abbreviation (input) IL_OP_CONV_R8 :: nat where "IL_OP_CONV_R8 \<equiv> 0x6C"
abbreviation (input) IL_OP_CONV_U4 :: nat where "IL_OP_CONV_U4 \<equiv> 0x6D"
abbreviation (input) IL_OP_CONV_U8 :: nat where "IL_OP_CONV_U8 \<equiv> 0x6E"
abbreviation (input) IL_OP_CONV_R_UN :: nat where "IL_OP_CONV_R_UN \<equiv> 0x76"
abbreviation (input) IL_OP_CONV_OVF_I1_UN :: nat where "IL_OP_CONV_OVF_I1_UN \<equiv> 0x82"
abbreviation (input) IL_OP_CONV_OVF_I2_UN :: nat where "IL_OP_CONV_OVF_I2_UN \<equiv> 0x83"
abbreviation (input) IL_OP_CONV_OVF_I4_UN :: nat where "IL_OP_CONV_OVF_I4_UN \<equiv> 0x84"
abbreviation (input) IL_OP_CONV_OVF_I8_UN :: nat where "IL_OP_CONV_OVF_I8_UN \<equiv> 0x85"
abbreviation (input) IL_OP_CONV_OVF_U1_UN :: nat where "IL_OP_CONV_OVF_U1_UN \<equiv> 0x86"
abbreviation (input) IL_OP_CONV_OVF_U2_UN :: nat where "IL_OP_CONV_OVF_U2_UN \<equiv> 0x87"
abbreviation (input) IL_OP_CONV_OVF_U4_UN :: nat where "IL_OP_CONV_OVF_U4_UN \<equiv> 0x88"
abbreviation (input) IL_OP_CONV_OVF_U8_UN :: nat where "IL_OP_CONV_OVF_U8_UN \<equiv> 0x89"
abbreviation (input) IL_OP_CONV_OVF_I_UN :: nat where "IL_OP_CONV_OVF_I_UN \<equiv> 0x8A"
abbreviation (input) IL_OP_CONV_OVF_U_UN :: nat where "IL_OP_CONV_OVF_U_UN \<equiv> 0x8B"
abbreviation (input) IL_OP_CONV_OVF_I1 :: nat where "IL_OP_CONV_OVF_I1 \<equiv> 0xB3"
abbreviation (input) IL_OP_CONV_OVF_U1 :: nat where "IL_OP_CONV_OVF_U1 \<equiv> 0xB4"
abbreviation (input) IL_OP_CONV_OVF_I2 :: nat where "IL_OP_CONV_OVF_I2 \<equiv> 0xB5"
abbreviation (input) IL_OP_CONV_OVF_U2 :: nat where "IL_OP_CONV_OVF_U2 \<equiv> 0xB6"
abbreviation (input) IL_OP_CONV_OVF_I4 :: nat where "IL_OP_CONV_OVF_I4 \<equiv> 0xB7"
abbreviation (input) IL_OP_CONV_OVF_U4 :: nat where "IL_OP_CONV_OVF_U4 \<equiv> 0xB8"
abbreviation (input) IL_OP_CONV_OVF_I8 :: nat where "IL_OP_CONV_OVF_I8 \<equiv> 0xB9"
abbreviation (input) IL_OP_CONV_OVF_U8 :: nat where "IL_OP_CONV_OVF_U8 \<equiv> 0xBA"
abbreviation (input) IL_OP_CKFINITE :: nat where "IL_OP_CKFINITE \<equiv> 0xC3"
abbreviation (input) IL_OP_CONV_U2 :: nat where "IL_OP_CONV_U2 \<equiv> 0xD1"
abbreviation (input) IL_OP_CONV_U1 :: nat where "IL_OP_CONV_U1 \<equiv> 0xD2"
abbreviation (input) IL_OP_CONV_I :: nat where "IL_OP_CONV_I \<equiv> 0xD3"
abbreviation (input) IL_OP_CONV_OVF_I :: nat where "IL_OP_CONV_OVF_I \<equiv> 0xD4"
abbreviation (input) IL_OP_CONV_OVF_U :: nat where "IL_OP_CONV_OVF_U \<equiv> 0xD5"
abbreviation (input) IL_OP_ADD_OVF :: nat where "IL_OP_ADD_OVF \<equiv> 0xD6"
abbreviation (input) IL_OP_ADD_OVF_UN :: nat where "IL_OP_ADD_OVF_UN \<equiv> 0xD7"
abbreviation (input) IL_OP_MUL_OVF :: nat where "IL_OP_MUL_OVF \<equiv> 0xD8"
abbreviation (input) IL_OP_MUL_OVF_UN :: nat where "IL_OP_MUL_OVF_UN \<equiv> 0xD9"
abbreviation (input) IL_OP_SUB_OVF :: nat where "IL_OP_SUB_OVF \<equiv> 0xDA"
abbreviation (input) IL_OP_SUB_OVF_UN :: nat where "IL_OP_SUB_OVF_UN \<equiv> 0xDB"
abbreviation (input) IL_OP_CONV_U :: nat where "IL_OP_CONV_U \<equiv> 0xE0"

abbreviation (input) opc_IADD :: u8 where "opc_IADD \<equiv> 0x43"
abbreviation (input) opc_IADD_OVF :: u8 where "opc_IADD_OVF \<equiv> 0x44"
abbreviation (input) opc_IADD_OVF_UN :: u8 where "opc_IADD_OVF_UN \<equiv> 0x45"
abbreviation (input) opc_ISUB :: u8 where "opc_ISUB \<equiv> 0x46"
abbreviation (input) opc_ISUB_OVF :: u8 where "opc_ISUB_OVF \<equiv> 0x47"
abbreviation (input) opc_ISUB_OVF_UN :: u8 where "opc_ISUB_OVF_UN \<equiv> 0x48"
abbreviation (input) opc_IMUL :: u8 where "opc_IMUL \<equiv> 0x49"
abbreviation (input) opc_IMUL_OVF :: u8 where "opc_IMUL_OVF \<equiv> 0x4A"
abbreviation (input) opc_IMUL_OVF_UN :: u8 where "opc_IMUL_OVF_UN \<equiv> 0x4B"
abbreviation (input) opc_IDIV :: u8 where "opc_IDIV \<equiv> 0x4C"
abbreviation (input) opc_IDIV_UN :: u8 where "opc_IDIV_UN \<equiv> 0x4D"
abbreviation (input) opc_IREM :: u8 where "opc_IREM \<equiv> 0x4E"
abbreviation (input) opc_IREM_UN :: u8 where "opc_IREM_UN \<equiv> 0x4F"
abbreviation (input) opc_INEG :: u8 where "opc_INEG \<equiv> 0x50"
abbreviation (input) opc_LADD :: u8 where "opc_LADD \<equiv> 0x51"
abbreviation (input) opc_LADD_OVF :: u8 where "opc_LADD_OVF \<equiv> 0x52"
abbreviation (input) opc_LADD_OVF_UN :: u8 where "opc_LADD_OVF_UN \<equiv> 0x53"
abbreviation (input) opc_LSUB :: u8 where "opc_LSUB \<equiv> 0x54"
abbreviation (input) opc_LSUB_OVF :: u8 where "opc_LSUB_OVF \<equiv> 0x55"
abbreviation (input) opc_LSUB_OVF_UN :: u8 where "opc_LSUB_OVF_UN \<equiv> 0x56"
abbreviation (input) opc_LMUL :: u8 where "opc_LMUL \<equiv> 0x57"
abbreviation (input) opc_LMUL_OVF :: u8 where "opc_LMUL_OVF \<equiv> 0x58"
abbreviation (input) opc_LMUL_OVF_UN :: u8 where "opc_LMUL_OVF_UN \<equiv> 0x59"
abbreviation (input) opc_LDIV :: u8 where "opc_LDIV \<equiv> 0x5A"
abbreviation (input) opc_LDIV_UN :: u8 where "opc_LDIV_UN \<equiv> 0x5B"
abbreviation (input) opc_LREM :: u8 where "opc_LREM \<equiv> 0x5C"
abbreviation (input) opc_LREM_UN :: u8 where "opc_LREM_UN \<equiv> 0x5D"
abbreviation (input) opc_LNEG :: u8 where "opc_LNEG \<equiv> 0x5E"
abbreviation (input) opc_FADD :: u8 where "opc_FADD \<equiv> 0x5F"
abbreviation (input) opc_FSUB :: u8 where "opc_FSUB \<equiv> 0x60"
abbreviation (input) opc_FMUL :: u8 where "opc_FMUL \<equiv> 0x61"
abbreviation (input) opc_FDIV :: u8 where "opc_FDIV \<equiv> 0x62"
abbreviation (input) opc_FREM :: u8 where "opc_FREM \<equiv> 0x63"
abbreviation (input) opc_FNEG :: u8 where "opc_FNEG \<equiv> 0x64"
abbreviation (input) opc_IAND :: u8 where "opc_IAND \<equiv> 0x65"
abbreviation (input) opc_IOR :: u8 where "opc_IOR \<equiv> 0x66"
abbreviation (input) opc_IXOR :: u8 where "opc_IXOR \<equiv> 0x67"
abbreviation (input) opc_INOT :: u8 where "opc_INOT \<equiv> 0x68"
abbreviation (input) opc_ISHL :: u8 where "opc_ISHL \<equiv> 0x69"
abbreviation (input) opc_ISHR :: u8 where "opc_ISHR \<equiv> 0x6A"
abbreviation (input) opc_ISHR_UN :: u8 where "opc_ISHR_UN \<equiv> 0x6B"
abbreviation (input) opc_LAND :: u8 where "opc_LAND \<equiv> 0x6C"
abbreviation (input) opc_LOR :: u8 where "opc_LOR \<equiv> 0x6D"
abbreviation (input) opc_LXOR :: u8 where "opc_LXOR \<equiv> 0x6E"
abbreviation (input) opc_LNOT :: u8 where "opc_LNOT \<equiv> 0x6F"
abbreviation (input) opc_LSHL :: u8 where "opc_LSHL \<equiv> 0x70"
abbreviation (input) opc_LSHR :: u8 where "opc_LSHR \<equiv> 0x71"
abbreviation (input) opc_LSHR_UN :: u8 where "opc_LSHR_UN \<equiv> 0x72"
abbreviation (input) opc_I2B :: u8 where "opc_I2B \<equiv> 0x73"
abbreviation (input) opc_I2UB :: u8 where "opc_I2UB \<equiv> 0x74"
abbreviation (input) opc_I2S :: u8 where "opc_I2S \<equiv> 0x75"
abbreviation (input) opc_I2US :: u8 where "opc_I2US \<equiv> 0x76"
abbreviation (input) opc_I2L :: u8 where "opc_I2L \<equiv> 0x77"
abbreviation (input) opc_IU2L :: u8 where "opc_IU2L \<equiv> 0x78"
abbreviation (input) opc_I2F :: u8 where "opc_I2F \<equiv> 0x79"
abbreviation (input) opc_IU2F :: u8 where "opc_IU2F \<equiv> 0x7A"
abbreviation (input) opc_L2I :: u8 where "opc_L2I \<equiv> 0x7B"
abbreviation (input) opc_L2F :: u8 where "opc_L2F \<equiv> 0x7C"
abbreviation (input) opc_LU2F :: u8 where "opc_LU2F \<equiv> 0x7D"
abbreviation (input) opc_F2I :: u8 where "opc_F2I \<equiv> 0x7E"
abbreviation (input) opc_F2IU :: u8 where "opc_F2IU \<equiv> 0x7F"
abbreviation (input) opc_F2L :: u8 where "opc_F2L \<equiv> 0x80"
abbreviation (input) opc_F2LU :: u8 where "opc_F2LU \<equiv> 0x81"
abbreviation (input) opc_F2F :: u8 where "opc_F2F \<equiv> 0x82"
abbreviation (input) opc_F2D :: u8 where "opc_F2D \<equiv> 0x83"
abbreviation (input) opc_I2P_LOWER :: u8 where "opc_I2P_LOWER \<equiv> 0x84"
abbreviation (input) opc_PADD_I4 :: u8 where "opc_PADD_I4 \<equiv> 0x87"
abbreviation (input) opc_PADD_I4_R :: u8 where "opc_PADD_I4_R \<equiv> 0x88"
abbreviation (input) opc_PADD_I8 :: u8 where "opc_PADD_I8 \<equiv> 0x89"
abbreviation (input) opc_PADD_I8_R :: u8 where "opc_PADD_I8_R \<equiv> 0x8A"
abbreviation (input) opc_PSUB :: u8 where "opc_PSUB \<equiv> 0x8B"
abbreviation (input) opc_PSUB_I4 :: u8 where "opc_PSUB_I4 \<equiv> 0x8C"
abbreviation (input) opc_PSUB_I8 :: u8 where "opc_PSUB_I8 \<equiv> 0x8D"
abbreviation (input) opc_LDNULL :: u8 where "opc_LDNULL \<equiv> 0x91"
abbreviation (input) opc_LDC_I4_S :: u8 where "opc_LDC_I4_S \<equiv> 0x9C"
abbreviation (input) opc_LDC_I4 :: u8 where "opc_LDC_I4 \<equiv> 0x9D"
abbreviation (input) opc_LDC_I8 :: u8 where "opc_LDC_I8 \<equiv> 0x9E"
abbreviation (input) opc_LDC_R4 :: u8 where "opc_LDC_R4 \<equiv> 0x9F"
abbreviation (input) opc_LDC_R8 :: u8 where "opc_LDC_R8 \<equiv> 0xA0"
abbreviation (input) opc_LDSTR :: u8 where "opc_LDSTR \<equiv> 0xE9"
abbreviation (input) opc_LDTOKEN :: u8 where "opc_LDTOKEN \<equiv> 0xEA"
abbreviation (input) opc_DUP :: u8 where "opc_DUP \<equiv> 0x38"
abbreviation (input) opc_DUP2 :: u8 where "opc_DUP2 \<equiv> 0x39"
abbreviation (input) opc_DUP_N :: u8 where "opc_DUP_N \<equiv> 0x3A"
abbreviation (input) opc_POP :: u8 where "opc_POP \<equiv> 0x3C"
abbreviation (input) opc_POP2 :: u8 where "opc_POP2 \<equiv> 0x3D"
abbreviation (input) opc_POP_N :: u8 where "opc_POP_N \<equiv> 0x3E"
abbreviation (input) opc_WIDE :: u8 where "opc_WIDE \<equiv> 0xFD"
abbreviation (input) opc_PREFIX :: u8 where "opc_PREFIX \<equiv> 0xFF"
abbreviation (input) opc_PREFIX_I2B_OVF :: u8 where "opc_PREFIX_I2B_OVF \<equiv> 0x25"
abbreviation (input) opc_PREFIX_I2UB_OVF :: u8 where "opc_PREFIX_I2UB_OVF \<equiv> 0x26"
abbreviation (input) opc_PREFIX_IU2B_OVF :: u8 where "opc_PREFIX_IU2B_OVF \<equiv> 0x27"
abbreviation (input) opc_PREFIX_IU2UB_OVF :: u8 where "opc_PREFIX_IU2UB_OVF \<equiv> 0x28"
abbreviation (input) opc_PREFIX_I2S_OVF :: u8 where "opc_PREFIX_I2S_OVF \<equiv> 0x29"
abbreviation (input) opc_PREFIX_I2US_OVF :: u8 where "opc_PREFIX_I2US_OVF \<equiv> 0x2A"
abbreviation (input) opc_PREFIX_IU2S_OVF :: u8 where "opc_PREFIX_IU2S_OVF \<equiv> 0x2B"
abbreviation (input) opc_PREFIX_IU2US_OVF :: u8 where "opc_PREFIX_IU2US_OVF \<equiv> 0x2C"
abbreviation (input) opc_PREFIX_I2IU_OVF :: u8 where "opc_PREFIX_I2IU_OVF \<equiv> 0x2D"
abbreviation (input) opc_PREFIX_IU2I_OVF :: u8 where "opc_PREFIX_IU2I_OVF \<equiv> 0x2E"
abbreviation (input) opc_PREFIX_I2UL_OVF :: u8 where "opc_PREFIX_I2UL_OVF \<equiv> 0x2F"
abbreviation (input) opc_PREFIX_L2I_OVF :: u8 where "opc_PREFIX_L2I_OVF \<equiv> 0x30"
abbreviation (input) opc_PREFIX_L2UI_OVF :: u8 where "opc_PREFIX_L2UI_OVF \<equiv> 0x31"
abbreviation (input) opc_PREFIX_LU2I_OVF :: u8 where "opc_PREFIX_LU2I_OVF \<equiv> 0x32"
abbreviation (input) opc_PREFIX_LU2IU_OVF :: u8 where "opc_PREFIX_LU2IU_OVF \<equiv> 0x33"
abbreviation (input) opc_PREFIX_L2UL_OVF :: u8 where "opc_PREFIX_L2UL_OVF \<equiv> 0x34"
abbreviation (input) opc_PREFIX_LU2L_OVF :: u8 where "opc_PREFIX_LU2L_OVF \<equiv> 0x35"
abbreviation (input) opc_PREFIX_F2I_OVF :: u8 where "opc_PREFIX_F2I_OVF \<equiv> 0x36"
abbreviation (input) opc_PREFIX_F2IU_OVF :: u8 where "opc_PREFIX_F2IU_OVF \<equiv> 0x37"
abbreviation (input) opc_PREFIX_F2L_OVF :: u8 where "opc_PREFIX_F2L_OVF \<equiv> 0x38"
abbreviation (input) opc_PREFIX_F2LU_OVF :: u8 where "opc_PREFIX_F2LU_OVF \<equiv> 0x39"
abbreviation (input) opc_PREFIX_CKFINITE :: u8 where "opc_PREFIX_CKFINITE \<equiv> 0x3E"
abbreviation (input) opc_PREFIX_FIX_I4_I :: u8 where "opc_PREFIX_FIX_I4_I \<equiv> 0x59"
abbreviation (input) opc_PREFIX_FIX_I4_U :: u8 where "opc_PREFIX_FIX_I4_U \<equiv> 0x5A"

section \<open>Types, platform and coder\<close>

datatype ILEngineType =
    ILEngineType_I4 | ILEngineType_I8 | ILEngineType_I | ILEngineType_F | ILEngineType_M | ILEngineType_O
  | ILEngineType_T | ILEngineType_MV | ILEngineType_Invalid | ILEngineType_TypedRef | ILEngineType_CM

text \<open>\<open>type_words\<close> is \<^verbatim>\<open>GetTypeSize\<close>, which depends on the layout of loaded classes.\<close>

record platform =
  native_int64 :: bool
  words_per_long :: nat
  words_per_native_float :: nat
  words_per_typed_ref :: nat
  type_words :: "nat \<Rightarrow> nat"

definition words_per_native_int :: "platform \<Rightarrow> nat" where
  "words_per_native_int p = (if native_int64 p then words_per_long p else 1)"

text \<open>
  The fields of \<^verbatim>\<open>ILCVMCoder\<close> that code generation changes: the bytes written to the method cache
  so far, of which there can be at most \<open>limit\<close> (the rest of the cache page holds \<open>junk\<close>), and the height
  of the evaluation stack.
\<close>

record ILCVMCoder =
  out :: "u8 list"
  limit :: nat
  junk :: u8
  height :: int
  minHeight :: int
  maxHeight :: int

record ILEngineStackItem =
  engineType :: ILEngineType
  typeInfo :: nat

section \<open>Output\<close>

definition ILCacheByte :: "u8 \<Rightarrow> ILCVMCoder \<Rightarrow> ILCVMCoder" where
  "ILCacheByte b c = (if length (out c) < limit c then c\<lparr>out := out c @ [b]\<rparr> else c)"

definition le_bytes :: "nat \<Rightarrow> 'a::len word \<Rightarrow> u8 list" where
  "le_bytes n v = map (\<lambda>i. ucast (drop_bit (8 * i) v)) [0..<n]"

definition ILCacheWord32 :: "u32 \<Rightarrow> ILCVMCoder \<Rightarrow> ILCVMCoder" where
  "ILCacheWord32 v c =
     (if length (out c) + 3 < limit c then c\<lparr>out := out c @ le_bytes 4 v\<rparr>
      else c\<lparr>out := out c @ replicate (limit c - length (out c)) (junk c)\<rparr>)"

definition ILCacheWord64 :: "u64 \<Rightarrow> ILCVMCoder \<Rightarrow> ILCVMCoder" where
  "ILCacheWord64 v c =
     (if length (out c) + 7 < limit c then c\<lparr>out := out c @ le_bytes 8 v\<rparr>
      else c\<lparr>out := out c @ replicate (limit c - length (out c)) (junk c)\<rparr>)"

text \<open>A sequence of statements, in the order of the source.\<close>

definition emit :: "(ILCVMCoder \<Rightarrow> ILCVMCoder) list \<Rightarrow> ILCVMCoder \<Rightarrow> ILCVMCoder" where
  "emit fs c = foldl (\<lambda>c f. f c) c fs"

definition CVM_PTR :: "platform \<Rightarrow> u64 \<Rightarrow> ILCVMCoder \<Rightarrow> ILCVMCoder" where
  "CVM_PTR p v = (if native_int64 p then ILCacheWord64 v else ILCacheWord32 (ucast v))"

definition CVM_OUT_NONE :: "u8 \<Rightarrow> ILCVMCoder \<Rightarrow> ILCVMCoder" where
  "CVM_OUT_NONE opcode = ILCacheByte opcode"

definition CVMP_OUT_NONE :: "u8 \<Rightarrow> ILCVMCoder \<Rightarrow> ILCVMCoder" where
  "CVMP_OUT_NONE opcode = emit [ILCacheByte opc_PREFIX, ILCacheByte opcode]"

definition CVM_OUT_BYTE :: "u8 \<Rightarrow> u8 \<Rightarrow> ILCVMCoder \<Rightarrow> ILCVMCoder" where
  "CVM_OUT_BYTE opcode v = emit [ILCacheByte opcode, ILCacheByte v]"

definition CVM_OUT_WORD :: "u8 \<Rightarrow> u32 \<Rightarrow> ILCVMCoder \<Rightarrow> ILCVMCoder" where
  "CVM_OUT_WORD opcode v = emit [ILCacheByte opcode, ILCacheWord32 v]"

definition CVM_OUT_PTR :: "platform \<Rightarrow> u8 \<Rightarrow> u64 \<Rightarrow> ILCVMCoder \<Rightarrow> ILCVMCoder" where
  "CVM_OUT_PTR p opcode v = emit [ILCacheByte opcode, CVM_PTR p v]"

definition CVM_OUT_WIDE :: "u8 \<Rightarrow> u32 \<Rightarrow> ILCVMCoder \<Rightarrow> ILCVMCoder" where
  "CVM_OUT_WIDE opcode v =
     (if v < 256 then emit [ILCacheByte opcode, ILCacheByte (ucast v)]
      else emit [ILCacheByte opc_WIDE, ILCacheByte opcode, ILCacheWord32 v])"

text \<open>\<^verbatim>\<open>CVM_OUT_LONG\<close> and \<^verbatim>\<open>CVM_OUT_DOUBLE\<close> copy eight bytes of the IL code, \<^verbatim>\<open>CVM_OUT_FLOAT\<close> four.\<close>

definition CVM_OUT_BYTES :: "nat \<Rightarrow> u8 \<Rightarrow> u8 list \<Rightarrow> ILCVMCoder \<Rightarrow> ILCVMCoder" where
  "CVM_OUT_BYTES n opcode arg = emit (ILCacheByte opcode # map (\<lambda>i. ILCacheByte (arg ! i)) [0..<n])"

abbreviation (input) CVM_OUT_LONG :: "u8 \<Rightarrow> u8 list \<Rightarrow> ILCVMCoder \<Rightarrow> ILCVMCoder" where "CVM_OUT_LONG \<equiv> CVM_OUT_BYTES 8"
abbreviation (input) CVM_OUT_FLOAT :: "u8 \<Rightarrow> u8 list \<Rightarrow> ILCVMCoder \<Rightarrow> ILCVMCoder" where "CVM_OUT_FLOAT \<equiv> CVM_OUT_BYTES 4"
abbreviation (input) CVM_OUT_DOUBLE :: "u8 \<Rightarrow> u8 list \<Rightarrow> ILCVMCoder \<Rightarrow> ILCVMCoder" where "CVM_OUT_DOUBLE \<equiv> CVM_OUT_BYTES 8"

definition CVM_ADJUST :: "int \<Rightarrow> ILCVMCoder \<Rightarrow> ILCVMCoder" where
  "CVM_ADJUST num c =
     (let c = c\<lparr>height := height c + num\<rparr>
      in if height c > maxHeight c then c\<lparr>maxHeight := height c\<rparr> else c)"

section \<open>Arithmetic\<close>

definition AdjustMixedBinary ::
    "platform \<Rightarrow> bool \<Rightarrow> ILEngineType \<Rightarrow> ILEngineType \<Rightarrow> ILCVMCoder \<Rightarrow> ILEngineType \<times> ILEngineType \<times> ILCVMCoder" where
  "AdjustMixedBinary p isUnsigned type1 type2 c =
     (let c = (if native_int64 p then
                 if type1 = ILEngineType_I \<and> type2 = ILEngineType_I4 then
                   emit [if isUnsigned then CVM_OUT_NONE opc_IU2L else CVM_OUT_NONE opc_I2L,
                         CVM_ADJUST (int (words_per_native_int p) - 1)] c
                 else if type1 = ILEngineType_I4 \<and> type2 = ILEngineType_I then
                   emit [if isUnsigned then CVMP_OUT_NONE opc_PREFIX_FIX_I4_U else CVMP_OUT_NONE opc_PREFIX_FIX_I4_I,
                         CVM_ADJUST (int (words_per_native_int p) - 1)] c
                 else c
               else c);
          (type1, type2) =
            (if type1 = ILEngineType_M \<or> type1 = ILEngineType_T \<or> type2 = ILEngineType_M \<or> type2 = ILEngineType_T
             then (ILEngineType_M, ILEngineType_M) else (type1, type2));
          (type1, type2) =
            (if type1 = ILEngineType_I \<or> type2 = ILEngineType_I then
               if native_int64 p then (ILEngineType_I8, ILEngineType_I8) else (ILEngineType_I4, ILEngineType_I4)
             else (type1, type2))
      in (type1, type2, c))"

definition IS_UNSIGNED_OPCODE :: "nat \<Rightarrow> bool" where
  "IS_UNSIGNED_OPCODE opcode \<longleftrightarrow>
     opcode = IL_OP_ADD_OVF_UN \<or> opcode = IL_OP_SUB_OVF_UN \<or> opcode = IL_OP_MUL_OVF_UN \<or>
     opcode = IL_OP_DIV_UN \<or> opcode = IL_OP_REM_UN"

text \<open>The two shapes of a case of \<^verbatim>\<open>CVMCoder_Binary\<close>: with and without a floating point form.\<close>

definition binary_numeric :: "platform \<Rightarrow> ILEngineType \<Rightarrow> u8 \<Rightarrow> u8 \<Rightarrow> u8 \<Rightarrow> ILCVMCoder \<Rightarrow> ILCVMCoder" where
  "binary_numeric p type1 iop lop fop =
     (if type1 = ILEngineType_I4 then emit [CVM_OUT_NONE iop, CVM_ADJUST (- 1)]
      else if type1 = ILEngineType_I8 then emit [CVM_OUT_NONE lop, CVM_ADJUST (- int (words_per_long p))]
      else emit [CVM_OUT_NONE fop, CVM_ADJUST (- int (words_per_native_float p))])"

definition binary_integer :: "platform \<Rightarrow> ILEngineType \<Rightarrow> u8 \<Rightarrow> u8 \<Rightarrow> ILCVMCoder \<Rightarrow> ILCVMCoder" where
  "binary_integer p type1 iop lop =
     (if type1 = ILEngineType_I4 then emit [CVM_OUT_NONE iop, CVM_ADJUST (- 1)]
      else emit [CVM_OUT_NONE lop, CVM_ADJUST (- int (words_per_long p))])"

definition CVMCoder_Binary :: "platform \<Rightarrow> nat \<Rightarrow> ILEngineType \<Rightarrow> ILEngineType \<Rightarrow> ILCVMCoder \<Rightarrow> ILCVMCoder" where
  "CVMCoder_Binary p opcode type1 type2 c =
     (let (type1, type2, c) = AdjustMixedBinary p (IS_UNSIGNED_OPCODE opcode) type1 type2 c
      in if opcode = IL_OP_ADD then binary_numeric p type1 opc_IADD opc_LADD opc_FADD c
      else if opcode = IL_OP_ADD_OVF then binary_integer p type1 opc_IADD_OVF opc_LADD_OVF c
      else if opcode = IL_OP_ADD_OVF_UN then binary_integer p type1 opc_IADD_OVF_UN opc_LADD_OVF_UN c
      else if opcode = IL_OP_SUB then binary_numeric p type1 opc_ISUB opc_LSUB opc_FSUB c
      else if opcode = IL_OP_SUB_OVF then binary_integer p type1 opc_ISUB_OVF opc_LSUB_OVF c
      else if opcode = IL_OP_SUB_OVF_UN then binary_integer p type1 opc_ISUB_OVF_UN opc_LSUB_OVF_UN c
      else if opcode = IL_OP_MUL then binary_numeric p type1 opc_IMUL opc_LMUL opc_FMUL c
      else if opcode = IL_OP_MUL_OVF then binary_integer p type1 opc_IMUL_OVF opc_LMUL_OVF c
      else if opcode = IL_OP_MUL_OVF_UN then binary_integer p type1 opc_IMUL_OVF_UN opc_LMUL_OVF_UN c
      else if opcode = IL_OP_DIV then binary_numeric p type1 opc_IDIV opc_LDIV opc_FDIV c
      else if opcode = IL_OP_DIV_UN then binary_integer p type1 opc_IDIV_UN opc_LDIV_UN c
      else if opcode = IL_OP_REM then binary_numeric p type1 opc_IREM opc_LREM opc_FREM c
      else if opcode = IL_OP_REM_UN then binary_integer p type1 opc_IREM_UN opc_LREM_UN c
      else if opcode = IL_OP_AND then binary_integer p type1 opc_IAND opc_LAND c
      else if opcode = IL_OP_OR then binary_integer p type1 opc_IOR opc_LOR c
      else if opcode = IL_OP_XOR then binary_integer p type1 opc_IXOR opc_LXOR c
      else c)"

definition CVMCoder_BinaryPtr :: "platform \<Rightarrow> nat \<Rightarrow> ILEngineType \<Rightarrow> ILEngineType \<Rightarrow> ILCVMCoder \<Rightarrow> ILCVMCoder" where
  "CVMCoder_BinaryPtr p opcode type1 type2 =
     (if opcode = IL_OP_ADD \<or> opcode = IL_OP_ADD_OVF_UN then
        if type1 = ILEngineType_M \<or> type1 = ILEngineType_T then
          if native_int64 p then
            if type2 = ILEngineType_I4 then emit [CVM_OUT_NONE opc_PADD_I4, CVM_ADJUST (- 1)]
            else emit [CVM_OUT_NONE opc_PADD_I8, CVM_ADJUST (- int (words_per_long p))]
          else emit [CVM_OUT_NONE opc_PADD_I4, CVM_ADJUST (- 1)]
        else
          if native_int64 p then
            if type1 = ILEngineType_I4 then emit [CVM_OUT_NONE opc_PADD_I4_R, CVM_ADJUST (- 1)]
            else emit [CVM_OUT_NONE opc_PADD_I8_R, CVM_ADJUST (- int (words_per_long p))]
          else emit [CVM_OUT_NONE opc_PADD_I4_R, CVM_ADJUST (- 1)]
      else if opcode = IL_OP_SUB \<or> opcode = IL_OP_SUB_OVF_UN then
        if type2 = ILEngineType_M \<or> type2 = ILEngineType_T then emit [CVM_OUT_NONE opc_PSUB, CVM_ADJUST (- 1)]
        else
          if native_int64 p then
            if type2 = ILEngineType_I4 then emit [CVM_OUT_NONE opc_PSUB_I4, CVM_ADJUST (- 1)]
            else emit [CVM_OUT_NONE opc_PSUB_I8, CVM_ADJUST (- int (words_per_long p))]
          else emit [CVM_OUT_NONE opc_PSUB_I4, CVM_ADJUST (- 1)]
      else emit [])"

definition CVMCoder_Shift :: "platform \<Rightarrow> nat \<Rightarrow> ILEngineType \<Rightarrow> ILEngineType \<Rightarrow> ILCVMCoder \<Rightarrow> ILCVMCoder" where
  "CVMCoder_Shift p opcode type1 type2 c =
     (let c = (if native_int64 p \<and> type2 = ILEngineType_I then
                 emit [CVM_OUT_NONE opc_L2I, CVM_ADJUST (- (int (words_per_long p) - 1))] c
               else c);
          type1 = (if type1 = ILEngineType_I then if native_int64 p then ILEngineType_I8 else ILEngineType_I4
                   else type1);
          c = (if opcode = IL_OP_SHL then
                 if type1 = ILEngineType_I4 then CVM_OUT_NONE opc_ISHL c else CVM_OUT_NONE opc_LSHL c
               else if opcode = IL_OP_SHR then
                 if type1 = ILEngineType_I4 then CVM_OUT_NONE opc_ISHR c else CVM_OUT_NONE opc_LSHR c
               else if opcode = IL_OP_SHR_UN then
                 if type1 = ILEngineType_I4 then CVM_OUT_NONE opc_ISHR_UN c else CVM_OUT_NONE opc_LSHR_UN c
               else c)
      in CVM_ADJUST (- 1) c)"

definition CVMCoder_Unary :: "platform \<Rightarrow> nat \<Rightarrow> ILEngineType \<Rightarrow> ILCVMCoder \<Rightarrow> ILCVMCoder" where
  "CVMCoder_Unary p opcode type =
     (if opcode = IL_OP_NEG then
        if type = ILEngineType_I4 then CVM_OUT_NONE opc_INEG
        else if type = ILEngineType_I8 then CVM_OUT_NONE opc_LNEG
        else if type = ILEngineType_I then
          if native_int64 p then CVM_OUT_NONE opc_LNEG else CVM_OUT_NONE opc_INEG
        else if type = ILEngineType_F then CVM_OUT_NONE opc_FNEG
        else emit []
      else if opcode = IL_OP_NOT then
        if type = ILEngineType_I4 then CVM_OUT_NONE opc_INOT
        else if type = ILEngineType_I8 then CVM_OUT_NONE opc_LNOT
        else if type = ILEngineType_I then
          if native_int64 p then CVM_OUT_NONE opc_LNOT else CVM_OUT_NONE opc_INOT
        else emit []
      else if opcode = IL_OP_CKFINITE then CVMP_OUT_NONE opc_PREFIX_CKFINITE
      else emit [])"

section \<open>Conversions\<close>

text \<open>The three branches of every case: by the type of the operand.\<close>

definition conv_case ::
    "ILEngineType \<Rightarrow> (ILCVMCoder \<Rightarrow> ILCVMCoder) list \<Rightarrow> (ILCVMCoder \<Rightarrow> ILCVMCoder) list \<Rightarrow> (ILCVMCoder \<Rightarrow> ILCVMCoder) list \<Rightarrow>
       ILCVMCoder \<Rightarrow> ILCVMCoder" where
  "conv_case type on_i4 on_i8 on_f =
     (if type = ILEngineType_I4 then emit on_i4 else if type = ILEngineType_I8 then emit on_i8 else emit on_f)"

definition conv_ovf_signed :: "platform \<Rightarrow> nat \<Rightarrow> ILEngineType \<Rightarrow> ILCVMCoder \<Rightarrow> ILCVMCoder" where
  "conv_ovf_signed p opcode type =
     (if opcode = IL_OP_CONV_OVF_I1 then
        conv_case type
          [CVMP_OUT_NONE opc_PREFIX_I2B_OVF]
          [CVMP_OUT_NONE opc_PREFIX_L2I_OVF, CVMP_OUT_NONE opc_PREFIX_I2B_OVF, CVM_ADJUST (- (int (words_per_long p) - 1))]
          [CVMP_OUT_NONE opc_PREFIX_F2I_OVF, CVMP_OUT_NONE opc_PREFIX_I2B_OVF, CVM_ADJUST (- (int (words_per_native_float p) - 1))]
      else if opcode = IL_OP_CONV_OVF_U1 then
        conv_case type
          [CVMP_OUT_NONE opc_PREFIX_I2UB_OVF]
          [CVMP_OUT_NONE opc_PREFIX_L2I_OVF, CVMP_OUT_NONE opc_PREFIX_I2UB_OVF, CVM_ADJUST (- (int (words_per_long p) - 1))]
          [CVMP_OUT_NONE opc_PREFIX_F2I_OVF, CVMP_OUT_NONE opc_PREFIX_I2UB_OVF, CVM_ADJUST (- (int (words_per_native_float p) - 1))]
      else if opcode = IL_OP_CONV_OVF_I2 then
        conv_case type
          [CVMP_OUT_NONE opc_PREFIX_I2S_OVF]
          [CVMP_OUT_NONE opc_PREFIX_L2I_OVF, CVMP_OUT_NONE opc_PREFIX_I2S_OVF, CVM_ADJUST (- (int (words_per_long p) - 1))]
          [CVMP_OUT_NONE opc_PREFIX_F2I_OVF, CVMP_OUT_NONE opc_PREFIX_I2S_OVF, CVM_ADJUST (- (int (words_per_native_float p) - 1))]
      else if opcode = IL_OP_CONV_OVF_U2 then
        conv_case type
          [CVMP_OUT_NONE opc_PREFIX_I2US_OVF]
          [CVMP_OUT_NONE opc_PREFIX_L2I_OVF, CVMP_OUT_NONE opc_PREFIX_I2US_OVF, CVM_ADJUST (- (int (words_per_long p) - 1))]
          [CVMP_OUT_NONE opc_PREFIX_F2I_OVF, CVMP_OUT_NONE opc_PREFIX_I2US_OVF, CVM_ADJUST (- (int (words_per_native_float p) - 1))]
      else if opcode = IL_OP_CONV_OVF_I4 \<or> \<not> native_int64 p \<and> opcode = IL_OP_CONV_OVF_I then
        conv_case type
          []
          [CVMP_OUT_NONE opc_PREFIX_L2I_OVF, CVM_ADJUST (- (int (words_per_long p) - 1))]
          [CVMP_OUT_NONE opc_PREFIX_F2I_OVF, CVM_ADJUST (- (int (words_per_native_float p) - 1))]
      else if opcode = IL_OP_CONV_OVF_U4 \<or> \<not> native_int64 p \<and> opcode = IL_OP_CONV_OVF_U then
        conv_case type
          [CVMP_OUT_NONE opc_PREFIX_I2IU_OVF]
          [CVMP_OUT_NONE opc_PREFIX_L2UI_OVF, CVM_ADJUST (- (int (words_per_long p) - 1))]
          [CVMP_OUT_NONE opc_PREFIX_F2IU_OVF, CVM_ADJUST (- (int (words_per_native_float p) - 1))]
      else if opcode = IL_OP_CONV_OVF_I8 \<or> native_int64 p \<and> opcode = IL_OP_CONV_OVF_I then
        conv_case type
          [CVM_OUT_NONE opc_I2L]
          []
          [CVMP_OUT_NONE opc_PREFIX_F2L_OVF, CVM_ADJUST (- (int (words_per_native_float p) - 1))]
      else if opcode = IL_OP_CONV_OVF_U8 \<or> native_int64 p \<and> opcode = IL_OP_CONV_OVF_U then
        conv_case type
          [CVMP_OUT_NONE opc_PREFIX_I2UL_OVF, CVM_ADJUST (int (words_per_long p) - 1)]
          [CVMP_OUT_NONE opc_PREFIX_L2UL_OVF]
          [CVMP_OUT_NONE opc_PREFIX_F2LU_OVF, CVM_ADJUST (- (int (words_per_native_float p) - 1))]
      else emit [])"

definition conv_ovf_unsigned :: "platform \<Rightarrow> nat \<Rightarrow> ILEngineType \<Rightarrow> ILCVMCoder \<Rightarrow> ILCVMCoder" where
  "conv_ovf_unsigned p opcode type =
     (if opcode = IL_OP_CONV_OVF_I1_UN then
        conv_case type
          [CVMP_OUT_NONE opc_PREFIX_IU2B_OVF]
          [CVMP_OUT_NONE opc_PREFIX_LU2I_OVF, CVMP_OUT_NONE opc_PREFIX_I2B_OVF, CVM_ADJUST (- (int (words_per_long p) - 1))]
          [CVMP_OUT_NONE opc_PREFIX_F2I_OVF, CVMP_OUT_NONE opc_PREFIX_I2B_OVF, CVM_ADJUST (- (int (words_per_native_float p) - 1))]
      else if opcode = IL_OP_CONV_OVF_I2_UN then
        conv_case type
          [CVMP_OUT_NONE opc_PREFIX_IU2S_OVF]
          [CVMP_OUT_NONE opc_PREFIX_LU2I_OVF, CVMP_OUT_NONE opc_PREFIX_I2S_OVF, CVM_ADJUST (- (int (words_per_long p) - 1))]
          [CVMP_OUT_NONE opc_PREFIX_F2I_OVF, CVMP_OUT_NONE opc_PREFIX_I2S_OVF, CVM_ADJUST (- (int (words_per_native_float p) - 1))]
      else if opcode = IL_OP_CONV_OVF_I4_UN \<or> \<not> native_int64 p \<and> opcode = IL_OP_CONV_OVF_I_UN then
        conv_case type
          [CVMP_OUT_NONE opc_PREFIX_IU2I_OVF]
          [CVMP_OUT_NONE opc_PREFIX_LU2I_OVF, CVM_ADJUST (- (int (words_per_long p) - 1))]
          [CVMP_OUT_NONE opc_PREFIX_F2I_OVF, CVM_ADJUST (- (int (words_per_native_float p) - 1))]
      else if opcode = IL_OP_CONV_OVF_I8_UN \<or> native_int64 p \<and> opcode = IL_OP_CONV_OVF_I_UN then
        conv_case type
          [CVM_OUT_NONE opc_IU2L, CVM_ADJUST (int (words_per_long p) - 1)]
          [CVMP_OUT_NONE opc_PREFIX_LU2L_OVF]
          [CVMP_OUT_NONE opc_PREFIX_F2L_OVF, CVM_ADJUST (- (int (words_per_native_float p) - int (words_per_long p)))]
      else if opcode = IL_OP_CONV_OVF_U1_UN then
        conv_case type
          [CVMP_OUT_NONE opc_PREFIX_IU2UB_OVF]
          [CVMP_OUT_NONE opc_PREFIX_LU2IU_OVF, CVMP_OUT_NONE opc_PREFIX_IU2UB_OVF, CVM_ADJUST (- (int (words_per_long p) - 1))]
          [CVMP_OUT_NONE opc_PREFIX_F2I_OVF, CVMP_OUT_NONE opc_PREFIX_I2UB_OVF, CVM_ADJUST (- (int (words_per_native_float p) - 1))]
      else if opcode = IL_OP_CONV_OVF_U2_UN then
        conv_case type
          [CVMP_OUT_NONE opc_PREFIX_IU2US_OVF]
          [CVMP_OUT_NONE opc_PREFIX_LU2IU_OVF, CVMP_OUT_NONE opc_PREFIX_IU2US_OVF, CVM_ADJUST (- (int (words_per_long p) - 1))]
          [CVMP_OUT_NONE opc_PREFIX_F2I_OVF, CVMP_OUT_NONE opc_PREFIX_I2US_OVF, CVM_ADJUST (- (int (words_per_native_float p) - 1))]
      else if opcode = IL_OP_CONV_OVF_U4_UN \<or> \<not> native_int64 p \<and> opcode = IL_OP_CONV_OVF_U_UN then
        conv_case type
          []
          [CVMP_OUT_NONE opc_PREFIX_LU2IU_OVF, CVM_ADJUST (- (int (words_per_long p) - 1))]
          [CVMP_OUT_NONE opc_PREFIX_F2IU_OVF, CVM_ADJUST (- (int (words_per_native_float p) - 1))]
      else if opcode = IL_OP_CONV_OVF_U8_UN \<or> native_int64 p \<and> opcode = IL_OP_CONV_OVF_U_UN then
        conv_case type
          [CVM_OUT_NONE opc_IU2L, CVM_ADJUST (int (words_per_long p) - 1)]
          []
          [CVMP_OUT_NONE opc_PREFIX_F2LU_OVF, CVM_ADJUST (- (int (words_per_native_float p) - int (words_per_long p)))]
      else conv_ovf_signed p opcode type)"

definition conv_plain :: "platform \<Rightarrow> nat \<Rightarrow> ILEngineType \<Rightarrow> ILCVMCoder \<Rightarrow> ILCVMCoder" where
  "conv_plain p opcode type =
     (if opcode = IL_OP_CONV_I1 then
        conv_case type
          [CVM_OUT_NONE opc_I2B]
          [CVM_OUT_NONE opc_L2I, CVM_OUT_NONE opc_I2B, CVM_ADJUST (- (int (words_per_long p) - 1))]
          [CVM_OUT_NONE opc_F2I, CVM_OUT_NONE opc_I2B, CVM_ADJUST (- (int (words_per_native_float p) - 1))]
      else if opcode = IL_OP_CONV_I2 then
        conv_case type
          [CVM_OUT_NONE opc_I2S]
          [CVM_OUT_NONE opc_L2I, CVM_OUT_NONE opc_I2S, CVM_ADJUST (- (int (words_per_long p) - 1))]
          [CVM_OUT_NONE opc_F2I, CVM_OUT_NONE opc_I2S, CVM_ADJUST (- (int (words_per_native_float p) - 1))]
      else if opcode = IL_OP_CONV_I4 \<or> \<not> native_int64 p \<and> opcode = IL_OP_CONV_I then
        conv_case type
          []
          [CVM_OUT_NONE opc_L2I, CVM_ADJUST (- (int (words_per_long p) - 1))]
          [CVM_OUT_NONE opc_F2I, CVM_ADJUST (- (int (words_per_native_float p) - 1))]
      else if opcode = IL_OP_CONV_I8 \<or> native_int64 p \<and> opcode = IL_OP_CONV_I then
        conv_case type
          [CVM_OUT_NONE opc_I2L, CVM_ADJUST (int (words_per_long p) - 1)]
          []
          [CVM_OUT_NONE opc_F2L, CVM_ADJUST (- (int (words_per_native_float p) - int (words_per_long p)))]
      else if opcode = IL_OP_CONV_R4 then
        conv_case type
          [CVM_OUT_NONE opc_I2F, CVM_OUT_NONE opc_F2F, CVM_ADJUST (int (words_per_native_float p) - 1)]
          [CVM_OUT_NONE opc_L2F, CVM_OUT_NONE opc_F2F, CVM_ADJUST (int (words_per_native_float p) - int (words_per_long p))]
          [CVM_OUT_NONE opc_F2F]
      else if opcode = IL_OP_CONV_R8 then
        conv_case type
          [CVM_OUT_NONE opc_I2F, CVM_ADJUST (int (words_per_native_float p) - 1)]
          [CVM_OUT_NONE opc_L2F, CVM_OUT_NONE opc_F2D, CVM_ADJUST (int (words_per_native_float p) - int (words_per_long p))]
          [CVM_OUT_NONE opc_F2D]
      else if opcode = IL_OP_CONV_U1 then
        conv_case type
          [CVM_OUT_NONE opc_I2UB]
          [CVM_OUT_NONE opc_L2I, CVM_OUT_NONE opc_I2UB, CVM_ADJUST (- (int (words_per_long p) - 1))]
          [CVM_OUT_NONE opc_F2I, CVM_OUT_NONE opc_I2UB, CVM_ADJUST (- (int (words_per_native_float p) - 1))]
      else if opcode = IL_OP_CONV_U2 then
        conv_case type
          [CVM_OUT_NONE opc_I2US]
          [CVM_OUT_NONE opc_L2I, CVM_OUT_NONE opc_I2US, CVM_ADJUST (- (int (words_per_long p) - 1))]
          [CVM_OUT_NONE opc_F2I, CVM_OUT_NONE opc_I2US, CVM_ADJUST (- (int (words_per_native_float p) - 1))]
      else if opcode = IL_OP_CONV_U4 \<or> \<not> native_int64 p \<and> opcode = IL_OP_CONV_U then
        conv_case type
          []
          [CVM_OUT_NONE opc_L2I, CVM_ADJUST (- (int (words_per_long p) - 1))]
          [CVM_OUT_NONE opc_F2IU, CVM_ADJUST (- (int (words_per_native_float p) - 1))]
      else if opcode = IL_OP_CONV_U8 \<or> native_int64 p \<and> opcode = IL_OP_CONV_U then
        conv_case type
          [CVM_OUT_NONE opc_IU2L, CVM_ADJUST (int (words_per_long p) - 1)]
          []
          [CVM_OUT_NONE opc_F2LU, CVM_ADJUST (- (int (words_per_native_float p) - int (words_per_long p)))]
      else if opcode = IL_OP_CONV_R_UN then
        conv_case type
          [CVM_OUT_NONE opc_IU2F, CVM_ADJUST (int (words_per_native_float p) - 1)]
          [CVM_OUT_NONE opc_LU2F, CVM_ADJUST (int (words_per_native_float p) - int (words_per_long p))]
          []
      else conv_ovf_unsigned p opcode type)"

text \<open>\<^verbatim>\<open>CVMCoder_Conv\<close>; its switch is split into the conversions without overflow check and those with
  unsigned and with signed input.\<close>

definition CVMCoder_Conv :: "platform \<Rightarrow> nat \<Rightarrow> ILEngineType \<Rightarrow> ILCVMCoder \<Rightarrow> ILCVMCoder" where
  "CVMCoder_Conv p opcode type =
     conv_plain p opcode
       (if type = ILEngineType_I then if native_int64 p then ILEngineType_I8 else ILEngineType_I4 else type)"

definition CVMCoder_Convert :: "u8 \<Rightarrow> ILCVMCoder \<Rightarrow> ILCVMCoder" where
  "CVMCoder_Convert opcode = CVMP_OUT_NONE opcode"

section \<open>Constants\<close>

definition CVMCoder_Constant :: "platform \<Rightarrow> nat \<Rightarrow> u8 list \<Rightarrow> ILCVMCoder \<Rightarrow> ILCVMCoder" where
  "CVMCoder_Constant p opcode arg =
     (if opcode \<ge> IL_OP_LDNULL \<and> opcode \<le> IL_OP_LDC_I4_8 then
        emit [CVM_OUT_NONE (of_nat (opcode - IL_OP_LDNULL) + opc_LDNULL), CVM_ADJUST 1]
      else if opcode = IL_OP_LDC_I4_S then emit [CVM_OUT_BYTE opc_LDC_I4_S (arg ! 0), CVM_ADJUST 1]
      else if opcode = IL_OP_LDC_I4 then
        emit [CVM_OUT_WORD opc_LDC_I4
                (ucast (arg ! 0) OR push_bit 8 (ucast (arg ! 1)) OR push_bit 16 (ucast (arg ! 2)) OR push_bit 24 (ucast (arg ! 3))),
              CVM_ADJUST 1]
      else if opcode = IL_OP_LDC_R4 then
        emit [CVM_OUT_FLOAT opc_LDC_R4 arg, CVM_ADJUST (int (words_per_native_float p))]
      else if opcode = IL_OP_LDC_I8 then emit [CVM_OUT_LONG opc_LDC_I8 arg, CVM_ADJUST (int (words_per_long p))]
      else if opcode = IL_OP_LDC_R8 then
        emit [CVM_OUT_DOUBLE opc_LDC_R8 arg, CVM_ADJUST (int (words_per_native_float p))]
      else emit [])"

definition CVMCoder_StringConstant :: "platform \<Rightarrow> u32 \<Rightarrow> u64 \<Rightarrow> ILCVMCoder \<Rightarrow> ILCVMCoder" where
  "CVMCoder_StringConstant p token obj =
     (if obj \<noteq> 0 then emit [CVM_OUT_PTR p opc_LDTOKEN obj, CVM_ADJUST 1]
      else emit [CVM_OUT_WORD opc_LDSTR token, CVM_ADJUST 1])"

section \<open>The evaluation stack\<close>

text \<open>The stack words of one item, and of a list of items (the top of the stack first).\<close>

definition item_words :: "platform \<Rightarrow> ILEngineStackItem \<Rightarrow> nat" where
  "item_words p item = (case engineType item of
       ILEngineType_I4 \<Rightarrow> 1 | ILEngineType_M \<Rightarrow> 1 | ILEngineType_CM \<Rightarrow> 1 | ILEngineType_T \<Rightarrow> 1 | ILEngineType_O \<Rightarrow> 1
     | ILEngineType_I8 \<Rightarrow> words_per_long p
     | ILEngineType_I \<Rightarrow> if native_int64 p then words_per_long p else 1
     | ILEngineType_F \<Rightarrow> words_per_native_float p
     | ILEngineType_MV \<Rightarrow> type_words p (typeInfo item)
     | ILEngineType_TypedRef \<Rightarrow> words_per_typed_ref p
     | ILEngineType_Invalid \<Rightarrow> 0)"

fun ComputeStackSize :: "platform \<Rightarrow> ILEngineStackItem list \<Rightarrow> nat" where
  "ComputeStackSize p [] = 0"
| "ComputeStackSize p (item # items) = item_words p item + ComputeStackSize p items"

definition CVMCoder_StackRefresh :: "platform \<Rightarrow> ILEngineStackItem list \<Rightarrow> ILCVMCoder \<Rightarrow> ILCVMCoder" where
  "CVMCoder_StackRefresh p items c =
     (let c = c\<lparr>height := minHeight c + int (ComputeStackSize p items)\<rparr>
      in if height c > maxHeight c then c\<lparr>maxHeight := height c\<rparr> else c)"

definition DupWords :: "nat \<Rightarrow> ILCVMCoder \<Rightarrow> ILCVMCoder" where
  "DupWords numWords =
     emit [if numWords = 1 then CVM_OUT_NONE opc_DUP else if numWords = 2 then CVM_OUT_NONE opc_DUP2
           else CVM_OUT_WIDE opc_DUP_N (of_nat numWords),
           CVM_ADJUST (int numWords)]"

definition PopWords :: "nat \<Rightarrow> ILCVMCoder \<Rightarrow> ILCVMCoder" where
  "PopWords numWords =
     emit [if numWords = 1 then CVM_OUT_NONE opc_POP else if numWords = 2 then CVM_OUT_NONE opc_POP2
           else CVM_OUT_WIDE opc_POP_N (of_nat numWords),
           CVM_ADJUST (- int numWords)]"

definition CVMCoder_Dup :: "platform \<Rightarrow> ILEngineType \<Rightarrow> nat \<Rightarrow> ILCVMCoder \<Rightarrow> ILCVMCoder" where
  "CVMCoder_Dup p engine_type type = (case engine_type of
       ILEngineType_I4 \<Rightarrow> DupWords 1 | ILEngineType_M \<Rightarrow> DupWords 1 | ILEngineType_O \<Rightarrow> DupWords 1 | ILEngineType_T \<Rightarrow> DupWords 1
     | ILEngineType_I8 \<Rightarrow> DupWords (words_per_long p)
     | ILEngineType_I \<Rightarrow> DupWords (words_per_native_int p)
     | ILEngineType_F \<Rightarrow> DupWords (words_per_native_float p)
     | ILEngineType_MV \<Rightarrow> DupWords (type_words p type)
     | ILEngineType_TypedRef \<Rightarrow> DupWords (words_per_typed_ref p)
     | _ \<Rightarrow> emit [])"

definition CVMCoder_Pop :: "platform \<Rightarrow> ILEngineType \<Rightarrow> nat \<Rightarrow> ILCVMCoder \<Rightarrow> ILCVMCoder" where
  "CVMCoder_Pop p engine_type type = (case engine_type of
       ILEngineType_I4 \<Rightarrow> PopWords 1 | ILEngineType_M \<Rightarrow> PopWords 1 | ILEngineType_O \<Rightarrow> PopWords 1 | ILEngineType_T \<Rightarrow> PopWords 1
     | ILEngineType_I8 \<Rightarrow> PopWords (words_per_long p)
     | ILEngineType_I \<Rightarrow> PopWords (words_per_native_int p)
     | ILEngineType_F \<Rightarrow> PopWords (words_per_native_float p)
     | ILEngineType_MV \<Rightarrow> PopWords (type_words p type)
     | ILEngineType_TypedRef \<Rightarrow> PopWords (words_per_typed_ref p)
     | _ \<Rightarrow> emit [])"

definition CVMCoder_ToPointer :: "platform \<Rightarrow> ILEngineType \<Rightarrow> ILEngineStackItem option \<Rightarrow> ILCVMCoder \<Rightarrow> ILCVMCoder" where
  "CVMCoder_ToPointer p type1 type2 =
     (if native_int64 p \<and> type1 = ILEngineType_I4 then
        case type2 of
          Some item \<Rightarrow> CVM_OUT_WIDE opc_I2P_LOWER (of_nat (ComputeStackSize p [item]))
        | None \<Rightarrow> CVM_OUT_WIDE opc_I2P_LOWER 0
      else emit [])"

end
