(* ===== verification/Verify.thy ===== *)
theory Verify
  imports Coder
begin

text \<open>
  The part of the IL verifier that handles arithmetic, conversions, constants and stack
  manipulation: \<^verbatim>\<open>engine/verify_arith.c\<close>, \<^verbatim>\<open>engine/verify_conv.c\<close>, \<^verbatim>\<open>engine/verify_const.c\<close> and
  \<^verbatim>\<open>engine/verify_stack.c\<close>, with the body of the instruction loop of \<^verbatim>\<open>engine/verify.c\<close>
  around them.  The verifier infers the engine types of the evaluation stack and drives
  the coder.  The stack is a list with its top first.  A result \<open>None\<close> means that the behaviour of
  the C code is undefined (an access outside an array) or that the opcode belongs to one of the
  verifier's other files.
\<close>

section \<open>Type inference matrices\<close>

definition enum_value :: "ILEngineType \<Rightarrow> nat" where
  "enum_value t = (case t of
       ILEngineType_I4 \<Rightarrow> 0 | ILEngineType_I8 \<Rightarrow> 1 | ILEngineType_I \<Rightarrow> 2 | ILEngineType_F \<Rightarrow> 3 | ILEngineType_M \<Rightarrow> 4
     | ILEngineType_O \<Rightarrow> 5 | ILEngineType_T \<Rightarrow> 6 | ILEngineType_MV \<Rightarrow> 7 | ILEngineType_Invalid \<Rightarrow> 8
     | ILEngineType_TypedRef \<Rightarrow> 9 | ILEngineType_CM \<Rightarrow> 10)"

abbreviation (input) ILEngineType_ValidTypes :: nat where "ILEngineType_ValidTypes \<equiv> 8"

abbreviation (input) T_I4 :: ILEngineType where "T_I4 \<equiv> ILEngineType_I4"
abbreviation (input) T_I8 :: ILEngineType where "T_I8 \<equiv> ILEngineType_I8"
abbreviation (input) T_I :: ILEngineType where "T_I \<equiv> ILEngineType_I"
abbreviation (input) T_F :: ILEngineType where "T_F \<equiv> ILEngineType_F"
abbreviation (input) T_M :: ILEngineType where "T_M \<equiv> ILEngineType_M"
abbreviation (input) T_T :: ILEngineType where "T_T \<equiv> ILEngineType_T"
abbreviation (input) T_NO :: ILEngineType where "T_NO \<equiv> ILEngineType_Invalid"

definition binaryNumericMatrix :: "ILEngineType list list" where
  "binaryNumericMatrix =
    [[T_I4, T_NO, T_I, T_NO, T_NO, T_NO, T_NO, T_NO],
     [T_NO, T_I8, T_NO, T_NO, T_NO, T_NO, T_NO, T_NO],
     [T_I, T_NO, T_I, T_NO, T_NO, T_NO, T_NO, T_NO],
     [T_NO, T_NO, T_NO, T_F, T_NO, T_NO, T_NO, T_NO],
     [T_NO, T_NO, T_NO, T_NO, T_NO, T_NO, T_NO, T_NO],
     [T_NO, T_NO, T_NO, T_NO, T_NO, T_NO, T_NO, T_NO],
     [T_NO, T_NO, T_NO, T_NO, T_NO, T_NO, T_NO, T_NO],
     [T_NO, T_NO, T_NO, T_NO, T_NO, T_NO, T_NO, T_NO]]"

definition binaryIntegerMatrix :: "ILEngineType list list" where
  "binaryIntegerMatrix =
    [[T_I4, T_NO, T_I, T_NO, T_NO, T_NO, T_NO, T_NO],
     [T_NO, T_I8, T_NO, T_NO, T_NO, T_NO, T_NO, T_NO],
     [T_I, T_NO, T_I, T_NO, T_NO, T_NO, T_NO, T_NO],
     [T_NO, T_NO, T_NO, T_NO, T_NO, T_NO, T_NO, T_NO],
     [T_NO, T_NO, T_NO, T_NO, T_NO, T_NO, T_NO, T_NO],
     [T_NO, T_NO, T_NO, T_NO, T_NO, T_NO, T_NO, T_NO],
     [T_NO, T_NO, T_NO, T_NO, T_NO, T_NO, T_NO, T_NO],
     [T_NO, T_NO, T_NO, T_NO, T_NO, T_NO, T_NO, T_NO]]"

definition binaryShiftMatrix :: "ILEngineType list list" where
  "binaryShiftMatrix =
    [[T_I4, T_NO, T_I4, T_NO, T_NO, T_NO, T_NO, T_NO],
     [T_I8, T_NO, T_I8, T_NO, T_NO, T_NO, T_NO, T_NO],
     [T_I, T_NO, T_I, T_NO, T_NO, T_NO, T_NO, T_NO],
     [T_NO, T_NO, T_NO, T_NO, T_NO, T_NO, T_NO, T_NO],
     [T_NO, T_NO, T_NO, T_NO, T_NO, T_NO, T_NO, T_NO],
     [T_NO, T_NO, T_NO, T_NO, T_NO, T_NO, T_NO, T_NO],
     [T_NO, T_NO, T_NO, T_NO, T_NO, T_NO, T_NO, T_NO],
     [T_NO, T_NO, T_NO, T_NO, T_NO, T_NO, T_NO, T_NO]]"

definition addUnsafeMatrix :: "ILEngineType list list" where
  "addUnsafeMatrix =
    [[T_I4, T_NO, T_I, T_NO, T_M, T_NO, T_T, T_NO],
     [T_NO, T_I8, T_NO, T_NO, T_NO, T_NO, T_NO, T_NO],
     [T_I, T_NO, T_I, T_NO, T_M, T_NO, T_T, T_NO],
     [T_NO, T_NO, T_NO, T_F, T_NO, T_NO, T_NO, T_NO],
     [T_M, T_NO, T_M, T_NO, T_NO, T_NO, T_NO, T_NO],
     [T_NO, T_NO, T_NO, T_NO, T_NO, T_NO, T_NO, T_NO],
     [T_T, T_NO, T_T, T_NO, T_NO, T_NO, T_NO, T_NO],
     [T_NO, T_NO, T_NO, T_NO, T_NO, T_NO, T_NO, T_NO]]"

definition subUnsafeMatrix :: "ILEngineType list list" where
  "subUnsafeMatrix =
    [[T_I4, T_NO, T_I, T_NO, T_NO, T_NO, T_NO, T_NO],
     [T_NO, T_I8, T_NO, T_NO, T_NO, T_NO, T_NO, T_NO],
     [T_I, T_NO, T_I, T_NO, T_I, T_NO, T_I, T_NO],
     [T_NO, T_NO, T_NO, T_F, T_NO, T_NO, T_NO, T_NO],
     [T_M, T_NO, T_M, T_NO, T_I, T_NO, T_I, T_NO],
     [T_NO, T_NO, T_NO, T_NO, T_NO, T_NO, T_NO, T_NO],
     [T_T, T_NO, T_T, T_NO, T_I, T_NO, T_I, T_NO],
     [T_NO, T_NO, T_NO, T_NO, T_NO, T_NO, T_NO, T_NO]]"

definition negateMatrix :: "ILEngineType list" where
  "negateMatrix = [T_I4, T_I8, T_I, T_F, T_NO, T_NO, T_NO, T_NO]"

definition notMatrix :: "ILEngineType list" where
  "notMatrix = [T_I4, T_I8, T_I, T_NO, T_NO, T_NO, T_NO, T_NO]"

text \<open>An element of a matrix; a type outside the eight valid ones leaves the array.\<close>

definition lookup1 :: "ILEngineType list \<Rightarrow> ILEngineType \<Rightarrow> ILEngineType option" where
  "lookup1 row t = (if enum_value t < ILEngineType_ValidTypes then Some (row ! enum_value t) else None)"

definition lookup2 :: "ILEngineType list list \<Rightarrow> ILEngineType \<Rightarrow> ILEngineType \<Rightarrow> ILEngineType option" where
  "lookup2 m t1 t2 =
     (if enum_value t1 < ILEngineType_ValidTypes \<and> enum_value t2 < ILEngineType_ValidTypes
      then Some (m ! enum_value t1 ! enum_value t2) else None)"

section \<open>Instructions\<close>

datatype verdict = Accept "ILEngineStackItem list" ILCVMCoder | Reject

text \<open>\<^verbatim>\<open>STK_BINARY_1 = t; STK_TYPEINFO_1 = 0; --stackSize\<close> after generating the code.\<close>

abbreviation typed :: "ILEngineType \<Rightarrow> ILEngineStackItem" where
  "typed t \<equiv> \<lparr>engineType = t, typeInfo = 0\<rparr>"

definition verify_add :: "platform \<Rightarrow> bool \<Rightarrow> nat \<Rightarrow> ILEngineStackItem list \<Rightarrow> ILCVMCoder \<Rightarrow> verdict option" where
  "verify_add p unsafeAllowed opcode stk c = (case stk of
       i2 # i1 # rest \<Rightarrow> do {
         commonType \<leftarrow> (if unsafeAllowed then lookup2 addUnsafeMatrix (engineType i1) (engineType i2)
                        else lookup2 binaryNumericMatrix (engineType i1) (engineType i2));
         if commonType = ILEngineType_F \<and> opcode = IL_OP_ADD_OVF_UN then Some Reject
         else if commonType = ILEngineType_M \<or> commonType = ILEngineType_T then
           let c = CVMCoder_BinaryPtr p opcode (engineType i1) (engineType i2) c;
               i1 = (if engineType i1 = ILEngineType_M \<or> engineType i1 = ILEngineType_T then i1\<lparr>engineType := commonType\<rparr>
                     else \<lparr>engineType = commonType, typeInfo = typeInfo i2\<rparr>)
           in Some (Accept (i1 # rest) c)
         else if commonType \<noteq> ILEngineType_Invalid then
           Some (Accept (typed commonType # rest) (CVMCoder_Binary p opcode (engineType i1) (engineType i2) c))
         else Some Reject
       }
     | _ \<Rightarrow> None)"

definition verify_sub :: "platform \<Rightarrow> bool \<Rightarrow> nat \<Rightarrow> ILEngineStackItem list \<Rightarrow> ILCVMCoder \<Rightarrow> verdict option" where
  "verify_sub p unsafeAllowed opcode stk c = (case stk of
       i2 # i1 # rest \<Rightarrow> do {
         commonType \<leftarrow> (if unsafeAllowed then lookup2 subUnsafeMatrix (engineType i1) (engineType i2)
                        else lookup2 binaryNumericMatrix (engineType i1) (engineType i2));
         if commonType = ILEngineType_F \<and> opcode = IL_OP_SUB_OVF_UN then Some Reject
         else if commonType = ILEngineType_M \<or> commonType = ILEngineType_T then
           Some (Accept (i1\<lparr>engineType := commonType\<rparr> # rest)
             (CVMCoder_BinaryPtr p opcode (engineType i1) (engineType i2) c))
         else if commonType \<noteq> ILEngineType_Invalid then
           Some (Accept (typed commonType # rest) (CVMCoder_Binary p opcode (engineType i1) (engineType i2) c))
         else Some Reject
       }
     | _ \<Rightarrow> None)"

text \<open>The cases that look into one matrix and call one coder routine.\<close>

definition verify_binary ::
    "ILEngineType list list \<Rightarrow> (ILEngineType \<Rightarrow> ILEngineType \<Rightarrow> ILCVMCoder \<Rightarrow> ILCVMCoder) \<Rightarrow>
       ILEngineStackItem list \<Rightarrow> ILCVMCoder \<Rightarrow> verdict option" where
  "verify_binary matrix gen stk c = (case stk of
       i2 # i1 # rest \<Rightarrow> do {
         commonType \<leftarrow> lookup2 matrix (engineType i1) (engineType i2);
         if commonType \<noteq> ILEngineType_Invalid then
           Some (Accept (typed commonType # rest) (gen (engineType i1) (engineType i2) c))
         else Some Reject
       }
     | _ \<Rightarrow> None)"

definition verify_unary ::
    "platform \<Rightarrow> ILEngineType list \<Rightarrow> nat \<Rightarrow> ILEngineStackItem list \<Rightarrow> ILCVMCoder \<Rightarrow> verdict option" where
  "verify_unary p matrix opcode stk c = (case stk of
       i1 # rest \<Rightarrow> do {
         commonType \<leftarrow> lookup1 matrix (engineType i1);
         if commonType \<noteq> ILEngineType_Invalid then
           Some (Accept (typed commonType # rest) (CVMCoder_Unary p opcode (engineType i1) c))
         else Some Reject
       }
     | _ \<Rightarrow> None)"

definition verify_ckfinite :: "platform \<Rightarrow> ILEngineStackItem list \<Rightarrow> ILCVMCoder \<Rightarrow> verdict option" where
  "verify_ckfinite p stk c = (case stk of
       i1 # rest \<Rightarrow>
         if engineType i1 = ILEngineType_F then Some (Accept stk (CVMCoder_Unary p IL_OP_CKFINITE (engineType i1) c))
         else Some Reject
     | _ \<Rightarrow> None)"

definition VERIFY_CONV :: "platform \<Rightarrow> bool \<Rightarrow> nat \<Rightarrow> ILEngineType \<Rightarrow> ILEngineStackItem list \<Rightarrow> ILCVMCoder \<Rightarrow> verdict option" where
  "VERIFY_CONV p unsafeAllowed opcode resultType stk c = (case stk of
       i1 # rest \<Rightarrow>
         if enum_value (engineType i1) \<ge> enum_value ILEngineType_I4 \<and> enum_value (engineType i1) \<le> enum_value ILEngineType_F then
           Some (Accept (typed resultType # rest) (CVMCoder_Conv p opcode (engineType i1) c))
         else if unsafeAllowed \<and>
             (engineType i1 = ILEngineType_M \<or> engineType i1 = ILEngineType_O \<or> engineType i1 = ILEngineType_T) \<and>
             (resultType = ILEngineType_I8 \<or> resultType = ILEngineType_I) then
           Some (Accept (typed resultType # rest) (CVMCoder_Conv p opcode resultType c))
         else Some Reject
     | _ \<Rightarrow> None)"

text \<open>The uses of the macro: opcode and result type.\<close>

definition conv_results :: "(nat \<times> ILEngineType) list" where
  "conv_results =
    [(IL_OP_CONV_I1, ILEngineType_I4), (IL_OP_CONV_I2, ILEngineType_I4),
     (IL_OP_CONV_I4, ILEngineType_I4), (IL_OP_CONV_I8, ILEngineType_I8),
     (IL_OP_CONV_R4, ILEngineType_F), (IL_OP_CONV_R8, ILEngineType_F),
     (IL_OP_CONV_U4, ILEngineType_I4), (IL_OP_CONV_U8, ILEngineType_I8),
     (IL_OP_CONV_R_UN, ILEngineType_F), (IL_OP_CONV_OVF_I1_UN, ILEngineType_I4),
     (IL_OP_CONV_OVF_I2_UN, ILEngineType_I4), (IL_OP_CONV_OVF_I4_UN, ILEngineType_I4),
     (IL_OP_CONV_OVF_I8_UN, ILEngineType_I8), (IL_OP_CONV_OVF_U1_UN, ILEngineType_I4),
     (IL_OP_CONV_OVF_U2_UN, ILEngineType_I4), (IL_OP_CONV_OVF_U4_UN, ILEngineType_I4),
     (IL_OP_CONV_OVF_U8_UN, ILEngineType_I8), (IL_OP_CONV_OVF_I_UN, ILEngineType_I),
     (IL_OP_CONV_OVF_U_UN, ILEngineType_I), (IL_OP_CONV_OVF_I1, ILEngineType_I4),
     (IL_OP_CONV_OVF_U1, ILEngineType_I4), (IL_OP_CONV_OVF_I2, ILEngineType_I4),
     (IL_OP_CONV_OVF_U2, ILEngineType_I4), (IL_OP_CONV_OVF_I4, ILEngineType_I4),
     (IL_OP_CONV_OVF_U4, ILEngineType_I4), (IL_OP_CONV_OVF_I8, ILEngineType_I8),
     (IL_OP_CONV_OVF_U8, ILEngineType_I8), (IL_OP_CONV_U2, ILEngineType_I4),
     (IL_OP_CONV_U1, ILEngineType_I4), (IL_OP_CONV_I, ILEngineType_I),
     (IL_OP_CONV_OVF_I, ILEngineType_I), (IL_OP_CONV_OVF_U, ILEngineType_I),
     (IL_OP_CONV_U, ILEngineType_I)]"

definition verify_constant :: "platform \<Rightarrow> nat \<Rightarrow> ILEngineType \<Rightarrow> u8 list \<Rightarrow> ILEngineStackItem list \<Rightarrow> ILCVMCoder \<Rightarrow> verdict option" where
  "verify_constant p opcode t arg stk c = Some (Accept (typed t # stk) (CVMCoder_Constant p opcode arg c))"

definition verify_dup :: "platform \<Rightarrow> ILEngineStackItem list \<Rightarrow> ILCVMCoder \<Rightarrow> verdict option" where
  "verify_dup p stk c = (case stk of
       i1 # rest \<Rightarrow> Some (Accept (i1 # i1 # rest) (CVMCoder_Dup p (engineType i1) (typeInfo i1) c)) | _ \<Rightarrow> None)"

definition verify_pop :: "platform \<Rightarrow> ILEngineStackItem list \<Rightarrow> ILCVMCoder \<Rightarrow> verdict option" where
  "verify_pop p stk c = (case stk of
       i1 # rest \<Rightarrow> Some (Accept rest (CVMCoder_Pop p (engineType i1) (typeInfo i1) c)) | _ \<Rightarrow> None)"

definition verify_switch ::
    "platform \<Rightarrow> bool \<Rightarrow> nat \<Rightarrow> u8 list \<Rightarrow> ILEngineStackItem list \<Rightarrow> ILCVMCoder \<Rightarrow> verdict option" where
  "verify_switch p unsafeAllowed opcode arg stk c =
     (if opcode = IL_OP_NOP \<or> opcode = IL_OP_BREAK then Some (Accept stk c)
      else if opcode = IL_OP_LDNULL then verify_constant p opcode ILEngineType_O arg stk c
      else if opcode \<ge> IL_OP_LDC_I4_M1 \<and> opcode \<le> IL_OP_LDC_I4 then verify_constant p opcode ILEngineType_I4 arg stk c
      else if opcode = IL_OP_LDC_I8 then verify_constant p opcode ILEngineType_I8 arg stk c
      else if opcode = IL_OP_LDC_R4 \<or> opcode = IL_OP_LDC_R8 then verify_constant p opcode ILEngineType_F arg stk c
      else if opcode = IL_OP_DUP then verify_dup p stk c
      else if opcode = IL_OP_POP then verify_pop p stk c
      else if opcode = IL_OP_ADD \<or> opcode = IL_OP_ADD_OVF_UN then verify_add p unsafeAllowed opcode stk c
      else if opcode = IL_OP_SUB \<or> opcode = IL_OP_SUB_OVF_UN then verify_sub p unsafeAllowed opcode stk c
      else if opcode \<in> {IL_OP_MUL, IL_OP_DIV, IL_OP_REM} then
        verify_binary binaryNumericMatrix (CVMCoder_Binary p opcode) stk c
      else if opcode \<in> {IL_OP_DIV_UN, IL_OP_REM_UN, IL_OP_ADD_OVF, IL_OP_SUB_OVF, IL_OP_MUL_OVF, IL_OP_MUL_OVF_UN,
          IL_OP_AND, IL_OP_OR, IL_OP_XOR} then
        verify_binary binaryIntegerMatrix (CVMCoder_Binary p opcode) stk c
      else if opcode \<in> {IL_OP_SHL, IL_OP_SHR, IL_OP_SHR_UN} then
        verify_binary binaryShiftMatrix (CVMCoder_Shift p opcode) stk c
      else if opcode = IL_OP_NEG then verify_unary p negateMatrix opcode stk c
      else if opcode = IL_OP_NOT then verify_unary p notMatrix opcode stk c
      else if opcode = IL_OP_CKFINITE then verify_ckfinite p stk c
      else case map_of conv_results opcode of
          Some resultType \<Rightarrow> VERIFY_CONV p unsafeAllowed opcode resultType stk c
        | None \<Rightarrow> None)"

section \<open>The instruction loop\<close>

text \<open>Words popped and pushed, and the size, of the instructions above in \<^verbatim>\<open>image/opdef.c\<close>.\<close>

definition opcode_table :: "(nat \<times> nat \<times> nat \<times> nat) list" where
  "opcode_table =
    [(IL_OP_NOP, (0, 0, 1)), (IL_OP_BREAK, (0, 0, 1)), (IL_OP_LDNULL, (0, 1, 1)),
     (IL_OP_LDC_I4_M1, (0, 1, 1)), (IL_OP_LDC_I4_0, (0, 1, 1)), (IL_OP_LDC_I4_1, (0, 1, 1)),
     (IL_OP_LDC_I4_2, (0, 1, 1)), (IL_OP_LDC_I4_3, (0, 1, 1)), (IL_OP_LDC_I4_4, (0, 1, 1)),
     (IL_OP_LDC_I4_5, (0, 1, 1)), (IL_OP_LDC_I4_6, (0, 1, 1)), (IL_OP_LDC_I4_7, (0, 1, 1)),
     (IL_OP_LDC_I4_8, (0, 1, 1)), (IL_OP_LDC_I4_S, (0, 1, 2)), (IL_OP_LDC_I4, (0, 1, 5)),
     (IL_OP_LDC_I8, (0, 1, 9)), (IL_OP_LDC_R4, (0, 1, 5)), (IL_OP_LDC_R8, (0, 1, 9)),
     (IL_OP_DUP, (1, 2, 1)), (IL_OP_POP, (1, 0, 1)), (IL_OP_ADD, (2, 1, 1)),
     (IL_OP_SUB, (2, 1, 1)), (IL_OP_MUL, (2, 1, 1)), (IL_OP_DIV, (2, 1, 1)),
     (IL_OP_DIV_UN, (2, 1, 1)), (IL_OP_REM, (2, 1, 1)), (IL_OP_REM_UN, (2, 1, 1)),
     (IL_OP_AND, (2, 1, 1)), (IL_OP_OR, (2, 1, 1)), (IL_OP_XOR, (2, 1, 1)),
     (IL_OP_SHL, (2, 1, 1)), (IL_OP_SHR, (2, 1, 1)), (IL_OP_SHR_UN, (2, 1, 1)),
     (IL_OP_NEG, (1, 1, 1)), (IL_OP_NOT, (1, 1, 1)), (IL_OP_CONV_I1, (1, 1, 1)),
     (IL_OP_CONV_I2, (1, 1, 1)), (IL_OP_CONV_I4, (1, 1, 1)), (IL_OP_CONV_I8, (1, 1, 1)),
     (IL_OP_CONV_R4, (1, 1, 1)), (IL_OP_CONV_R8, (1, 1, 1)), (IL_OP_CONV_U4, (1, 1, 1)),
     (IL_OP_CONV_U8, (1, 1, 1)), (IL_OP_CONV_R_UN, (1, 1, 1)), (IL_OP_CONV_OVF_I1_UN, (1, 1, 1)),
     (IL_OP_CONV_OVF_I2_UN, (1, 1, 1)), (IL_OP_CONV_OVF_I4_UN, (1, 1, 1)), (IL_OP_CONV_OVF_I8_UN, (1, 1, 1)),
     (IL_OP_CONV_OVF_U1_UN, (1, 1, 1)), (IL_OP_CONV_OVF_U2_UN, (1, 1, 1)), (IL_OP_CONV_OVF_U4_UN, (1, 1, 1)),
     (IL_OP_CONV_OVF_U8_UN, (1, 1, 1)), (IL_OP_CONV_OVF_I_UN, (1, 1, 1)), (IL_OP_CONV_OVF_U_UN, (1, 1, 1)),
     (IL_OP_CONV_OVF_I1, (1, 1, 1)), (IL_OP_CONV_OVF_U1, (1, 1, 1)), (IL_OP_CONV_OVF_I2, (1, 1, 1)),
     (IL_OP_CONV_OVF_U2, (1, 1, 1)), (IL_OP_CONV_OVF_I4, (1, 1, 1)), (IL_OP_CONV_OVF_U4, (1, 1, 1)),
     (IL_OP_CONV_OVF_I8, (1, 1, 1)), (IL_OP_CONV_OVF_U8, (1, 1, 1)), (IL_OP_CKFINITE, (1, 1, 1)),
     (IL_OP_CONV_U2, (1, 1, 1)), (IL_OP_CONV_U1, (1, 1, 1)), (IL_OP_CONV_I, (1, 1, 1)),
     (IL_OP_CONV_OVF_I, (1, 1, 1)), (IL_OP_CONV_OVF_U, (1, 1, 1)), (IL_OP_ADD_OVF, (2, 1, 1)),
     (IL_OP_ADD_OVF_UN, (2, 1, 1)), (IL_OP_MUL_OVF, (2, 1, 1)), (IL_OP_MUL_OVF_UN, (2, 1, 1)),
     (IL_OP_SUB_OVF, (2, 1, 1)), (IL_OP_SUB_OVF_UN, (2, 1, 1)), (IL_OP_CONV_U, (1, 1, 1))]"

text \<open>
  One turn of the loop of \<^verbatim>\<open>_ILVerify\<close>, for an instruction that is not a jump target and has no
  prefix: the stack height check, then the switch.  \<open>code\<close> starts at the instruction, and the
  earlier scan has checked that it is complete.
\<close>

definition verify_insn ::
    "platform \<Rightarrow> bool \<Rightarrow> nat \<Rightarrow> u8 list \<Rightarrow> ILEngineStackItem list \<Rightarrow> ILCVMCoder \<Rightarrow> (verdict \<times> nat) option" where
  "verify_insn p unsafeAllowed maxStack code stk c = (case code of
       [] \<Rightarrow> None
     | op # arg \<Rightarrow> do {
         (popped, pushed, sz) \<leftarrow> map_of opcode_table (unat op);
         if length code < sz then None
         else if length stk < popped \<or> length stk - popped + pushed > maxStack then Some (Reject, sz)
         else do {
           v \<leftarrow> verify_switch p unsafeAllowed (unat op) arg stk c;
           Some (v, sz)
         }
       })"

text \<open>The loop over a stretch of code.\<close>

function verify_block ::
    "platform \<Rightarrow> bool \<Rightarrow> nat \<Rightarrow> u8 list \<Rightarrow> ILEngineStackItem list \<Rightarrow> ILCVMCoder \<Rightarrow> verdict option" where
  "verify_block p unsafeAllowed maxStack code stk c =
     (if code = [] then Some (Accept stk c)
      else case verify_insn p unsafeAllowed maxStack code stk c of
          None \<Rightarrow> None
        | Some (Reject, sz) \<Rightarrow> Some Reject
        | Some (Accept stk c, sz) \<Rightarrow>
            if sz = 0 then None else verify_block p unsafeAllowed maxStack (drop sz code) stk c)"
  by auto
termination
  by (relation "measure (\<lambda>(p, u, m, code, stk, c). length code)") auto

declare verify_block.simps [simp del]

end
