(* ===== verification/VerifyTypes.thy ===== *)
theory VerifyTypes
  imports Verify
begin

text \<open>
  The verifier's types against the coder's bookkeeping: after every accepted instruction the
  height that the coder computes is compared with the size of the inferred stack, and the
  accesses to the type inference matrices are checked against their bounds.
\<close>

section \<open>The height of the stack\<close>

lemma height_out [simp]:
  "height (ILCacheByte b c) = height c" "minHeight (ILCacheByte b c) = minHeight c"
  "height (ILCacheWord32 w c) = height c" "minHeight (ILCacheWord32 w c) = minHeight c"
  by (simp_all add: ILCacheByte_def ILCacheWord32_def)

lemma emit_simps [simp]: "emit [] c = c" "emit (f # fs) c = emit fs (f c)"
  by (simp_all add: emit_def)

lemma height_emit_bytes: "height (emit (map (\<lambda>i. ILCacheByte (g i)) is) c) = height c \<and>
    minHeight (emit (map (\<lambda>i. ILCacheByte (g i)) is) c) = minHeight c"
  by (induction "is" arbitrary: c) simp_all

lemma height_ops [simp]:
  "height (CVM_OUT_NONE b c) = height c" "minHeight (CVM_OUT_NONE b c) = minHeight c"
  "height (CVMP_OUT_NONE b c) = height c" "minHeight (CVMP_OUT_NONE b c) = minHeight c"
  "height (CVM_OUT_BYTE b v c) = height c" "minHeight (CVM_OUT_BYTE b v c) = minHeight c"
  "height (CVM_OUT_WORD b w c) = height c" "minHeight (CVM_OUT_WORD b w c) = minHeight c"
  "height (CVM_OUT_WIDE b w c) = height c" "minHeight (CVM_OUT_WIDE b w c) = minHeight c"
  "height (CVM_OUT_BYTES n b arg c) = height c" "minHeight (CVM_OUT_BYTES n b arg c) = minHeight c"
  by (simp_all add: CVM_OUT_NONE_def CVMP_OUT_NONE_def CVM_OUT_BYTE_def CVM_OUT_WORD_def CVM_OUT_WIDE_def
      CVM_OUT_BYTES_def height_emit_bytes)

lemma height_adjust [simp]:
  "height (CVM_ADJUST k c) = height c + k" "minHeight (CVM_ADJUST k c) = minHeight c"
  by (simp_all add: CVM_ADJUST_def Let_def)

text \<open>How far a coder routine moves the height.\<close>

definition moves :: "(ILCVMCoder \<Rightarrow> ILCVMCoder) \<Rightarrow> int \<Rightarrow> bool" where
  "moves f k \<longleftrightarrow> (\<forall>c. height (f c) = height c + k \<and> minHeight (f c) = minHeight c)"

lemma movesD: "moves f k \<Longrightarrow> height (f c) = height c + k" "moves f k \<Longrightarrow> minHeight (f c) = minHeight c"
  by (simp_all add: moves_def)

abbreviation type_size :: "platform \<Rightarrow> ILEngineType \<Rightarrow> int" where
  "type_size p t \<equiv> int (item_words p (typed t))"

lemmas size_defs = item_words_def words_per_native_int_def

text \<open>The types that a binary operation on integers and floats accepts.\<close>

definition same_class :: "ILEngineType \<Rightarrow> ILEngineType \<Rightarrow> ILEngineType \<Rightarrow> bool" where
  "same_class t1 t2 t \<longleftrightarrow>
     (t1, t2, t) \<in> {(T_I4, T_I4, T_I4), (T_I4, T_I, T_I), (T_I, T_I4, T_I), (T_I, T_I, T_I), (T_I8, T_I8, T_I8), (T_F, T_F, T_F)}"

definition machine_type :: "platform \<Rightarrow> ILEngineType \<Rightarrow> ILEngineType" where
  "machine_type p t = (if t = ILEngineType_I then if native_int64 p then ILEngineType_I8 else ILEngineType_I4 else t)"

lemma Adjust_same_class:
  assumes "same_class t1 t2 t"
  shows "\<exists>c'. AdjustMixedBinary p u t1 t2 c = (machine_type p t, machine_type p t, c') \<and> minHeight c' = minHeight c \<and>
    height c' = height c + 2 * type_size p t - type_size p t1 - type_size p t2"
proof -
  consider "t1 = T_I" "t2 = T_I4" "t = T_I" | "t1 = T_I4" "t2 = T_I" "t = T_I" | "t1 = t" "t2 = t" "t \<in> {T_I4, T_I8, T_I, T_F}"
    using assms by (auto simp: same_class_def)
  then show ?thesis
    by cases (auto simp: AdjustMixedBinary_def machine_type_def size_defs)
qed

lemma binary_moves:
  "t \<in> {T_I4, T_I8, T_I, T_F} \<Longrightarrow> moves (binary_numeric p (machine_type p t) i l f) (- type_size p t)"
  "t \<in> {T_I4, T_I8, T_I} \<Longrightarrow> moves (binary_integer p (machine_type p t) i l) (- type_size p t)"
  by (auto simp: moves_def binary_numeric_def binary_integer_def machine_type_def size_defs)

definition numeric_opcodes :: "nat set" where
  "numeric_opcodes = {IL_OP_ADD, IL_OP_SUB, IL_OP_MUL, IL_OP_DIV, IL_OP_REM}"

definition integer_opcodes :: "nat set" where
  "integer_opcodes = {IL_OP_ADD_OVF, IL_OP_ADD_OVF_UN, IL_OP_SUB_OVF, IL_OP_SUB_OVF_UN, IL_OP_MUL_OVF, IL_OP_MUL_OVF_UN,
     IL_OP_DIV_UN, IL_OP_REM_UN, IL_OP_AND, IL_OP_OR, IL_OP_XOR}"

lemma Binary_shape:
  assumes "AdjustMixedBinary p (IS_UNSIGNED_OPCODE opcode) t1 t2 c = (t, t', c')"
  shows "opcode \<in> numeric_opcodes \<Longrightarrow> \<exists>i l f. CVMCoder_Binary p opcode t1 t2 c = binary_numeric p t i l f c'"
    "opcode \<in> integer_opcodes \<Longrightarrow> \<exists>i l. CVMCoder_Binary p opcode t1 t2 c = binary_integer p t i l c'"
  unfolding CVMCoder_Binary_def assms numeric_opcodes_def integer_opcodes_def by auto

lemma Binary_moves:
  assumes "same_class t1 t2 t" "opcode \<in> numeric_opcodes \<or> opcode \<in> integer_opcodes \<and> t \<noteq> T_F"
  shows "moves (CVMCoder_Binary p opcode t1 t2) (type_size p t - type_size p t1 - type_size p t2)"
  unfolding moves_def
proof
  fix c
  obtain c' where c': "AdjustMixedBinary p (IS_UNSIGNED_OPCODE opcode) t1 t2 c = (machine_type p t, machine_type p t, c')"
    "minHeight c' = minHeight c" "height c' = height c + 2 * type_size p t - type_size p t1 - type_size p t2"
    using Adjust_same_class [OF assms(1)] by blast
  have t: "t \<in> {T_I4, T_I8, T_I, T_F}" using assms(1) by (auto simp: same_class_def)
  from assms(2) obtain g where "CVMCoder_Binary p opcode t1 t2 c = g c'" "moves g (- type_size p t)"
  proof
    assume "opcode \<in> numeric_opcodes"
    with Binary_shape(1) [OF c'(1)] binary_moves(1) [OF t] that show thesis by metis
  next
    assume "opcode \<in> integer_opcodes \<and> t \<noteq> T_F"
    with Binary_shape(2) [OF c'(1)] binary_moves(2) [of t] t that show thesis by (metis insertE insertCI empty_iff)
  qed
  with c'(2,3) show "height (CVMCoder_Binary p opcode t1 t2 c) = height c + (type_size p t - type_size p t1 - type_size p t2) \<and>
      minHeight (CVMCoder_Binary p opcode t1 t2 c) = minHeight c" by (simp add: movesD)
qed

lemma Shift_moves:
  assumes "t1 \<in> {T_I4, T_I8, T_I}" "t2 \<in> {T_I4, T_I}" "opcode \<in> {IL_OP_SHL, IL_OP_SHR, IL_OP_SHR_UN}"
  shows "moves (CVMCoder_Shift p opcode t1 t2) (- type_size p t2)"
  using assms unfolding moves_def by (auto simp: CVMCoder_Shift_def Let_def size_defs)

lemma Unary_moves: "moves (CVMCoder_Unary p opcode t) 0"
  unfolding moves_def by (simp add: CVMCoder_Unary_def)

lemma Dup_moves: "moves (CVMCoder_Dup p t info)
    (if t = ILEngineType_CM then 0 else int (item_words p \<lparr>engineType = t, typeInfo = info\<rparr>))"
  unfolding moves_def by (cases t) (simp_all add: CVMCoder_Dup_def DupWords_def size_defs)

lemma Pop_moves: "moves (CVMCoder_Pop p t info)
    (if t = ILEngineType_CM then 0 else - int (item_words p \<lparr>engineType = t, typeInfo = info\<rparr>))"
  unfolding moves_def by (cases t) (simp_all add: CVMCoder_Pop_def PopWords_def size_defs)

lemma Constant_moves:
  "opcode \<in> {IL_OP_LDNULL..IL_OP_LDC_I4} \<Longrightarrow> moves (CVMCoder_Constant p opcode arg) 1"
  "moves (CVMCoder_Constant p IL_OP_LDC_I8 arg) (int (words_per_long p))"
  "opcode \<in> {IL_OP_LDC_R4, IL_OP_LDC_R8} \<Longrightarrow> moves (CVMCoder_Constant p opcode arg) (int (words_per_native_float p))"
  unfolding moves_def by (auto simp: CVMCoder_Constant_def)

text \<open>
  The conversions that move the height by the wrong amount: the checked conversions to a
  64-bit integer, from \<open>int32\<close> (no adjustment at all) and from floating point (the size of the result is
  taken to be one word).
\<close>

definition conv_error :: "platform \<Rightarrow> nat \<Rightarrow> ILEngineType \<Rightarrow> int" where
  "conv_error p opcode t =
     (if (opcode = IL_OP_CONV_OVF_I8 \<or> native_int64 p \<and> opcode = IL_OP_CONV_OVF_I) \<and> machine_type p t \<in> {T_I4, T_F} \<or>
         (opcode = IL_OP_CONV_OVF_U8 \<or> native_int64 p \<and> opcode = IL_OP_CONV_OVF_U) \<and> machine_type p t = T_F
      then 1 - int (words_per_long p) else 0)"

lemmas conv_defs = CVMCoder_Conv_def conv_plain_def conv_ovf_unsigned_def conv_ovf_signed_def conv_case_def

lemma Conv_moves_all:
  assumes "t \<in> {T_I4, T_I8, T_I, T_F}"
  shows "list_all (\<lambda>(opcode, r). moves (CVMCoder_Conv p opcode t) (type_size p r - type_size p t + conv_error p opcode t)) conv_results"
proof (cases "native_int64 p")
  case True
  with assms show ?thesis
    by (elim insertE; simp add: conv_results_def conv_defs moves_def size_defs conv_error_def machine_type_def)
next
  case False
  with assms show ?thesis
    by (elim insertE; simp add: conv_results_def conv_defs moves_def size_defs conv_error_def machine_type_def)
qed

lemma Conv_pointer_moves_all:
  "list_all (\<lambda>(opcode, r). r \<in> {T_I8, T_I} \<longrightarrow> moves (CVMCoder_Conv p opcode r) 0) conv_results"
  by (cases "native_int64 p") (simp_all add: conv_results_def conv_defs moves_def)

section \<open>What the matrices accept\<close>

lemmas matrix_defs = lookup1_def lookup2_def enum_value_def binaryNumericMatrix_def binaryIntegerMatrix_def binaryShiftMatrix_def
  addUnsafeMatrix_def subUnsafeMatrix_def negateMatrix_def notMatrix_def

lemma numeric_lookup: "lookup2 binaryNumericMatrix t1 t2 = Some t \<Longrightarrow> t \<noteq> T_NO \<Longrightarrow> same_class t1 t2 t"
  by (cases t1; cases t2; simp add: matrix_defs same_class_def)

lemma integer_lookup: "lookup2 binaryIntegerMatrix t1 t2 = Some t \<Longrightarrow> t \<noteq> T_NO \<Longrightarrow> same_class t1 t2 t \<and> t \<noteq> T_F"
  by (cases t1; cases t2; simp add: matrix_defs same_class_def; auto)

lemma shift_lookup:
  "lookup2 binaryShiftMatrix t1 t2 = Some t \<Longrightarrow> t \<noteq> T_NO \<Longrightarrow> t1 \<in> {T_I4, T_I8, T_I} \<and> t2 \<in> {T_I4, T_I} \<and> t = t1"
  by (cases t1; cases t2; simp add: matrix_defs)

definition pointer_class :: "ILEngineType \<Rightarrow> ILEngineType \<Rightarrow> ILEngineType \<Rightarrow> bool" where
  "pointer_class t1 t2 t \<longleftrightarrow> t \<in> {T_M, T_T} \<and> (t1 = t \<and> t2 \<in> {T_I4, T_I} \<or> t2 = t \<and> t1 \<in> {T_I4, T_I})"

lemma add_lookup:
  "lookup2 addUnsafeMatrix t1 t2 = Some t \<Longrightarrow> t \<noteq> T_NO \<Longrightarrow> same_class t1 t2 t \<or> pointer_class t1 t2 t"
  by (cases t1; cases t2; simp add: matrix_defs same_class_def pointer_class_def; auto)

lemma sub_lookup:
  "lookup2 subUnsafeMatrix t1 t2 = Some t \<Longrightarrow> t \<noteq> T_NO \<Longrightarrow>
     same_class t1 t2 t \<or> t \<in> {T_M, T_T} \<and> t1 = t \<and> t2 \<in> {T_I4, T_I} \<or> t = T_I \<and> t1 \<in> {T_I, T_M, T_T} \<and> t2 \<in> {T_M, T_T}"
  by (cases t1; cases t2; simp add: matrix_defs same_class_def; auto)

lemma BinaryPtr_moves:
  assumes "pointer_class t1 t2 t" "opcode \<in> {IL_OP_ADD, IL_OP_ADD_OVF_UN} \<or> opcode \<in> {IL_OP_SUB, IL_OP_SUB_OVF_UN} \<and> t1 = t"
  shows "moves (CVMCoder_BinaryPtr p opcode t1 t2) (type_size p t - type_size p t1 - type_size p t2)"
  using assms unfolding pointer_class_def moves_def by (auto simp: CVMCoder_BinaryPtr_def size_defs)

text \<open>The difference of two pointers is compiled as a floating point or 64-bit subtraction.\<close>

lemma pointer_difference_code:
  assumes "t1 \<in> {T_I, T_M, T_T}" "t2 \<in> {T_M, T_T}"
  shows "CVMCoder_Binary p IL_OP_SUB t1 t2 = emit [CVM_OUT_NONE opc_FSUB, CVM_ADJUST (- int (words_per_native_float p))]"
    "CVMCoder_Binary p IL_OP_SUB_OVF_UN t1 t2 = emit [CVM_OUT_NONE opc_LSUB_OVF_UN, CVM_ADJUST (- int (words_per_long p))]"
  using assms by (auto simp: CVMCoder_Binary_def AdjustMixedBinary_def binary_numeric_def binary_integer_def fun_eq_iff)

section \<open>Accepted instructions\<close>

text \<open>
  How far the coder's height is off after an instruction is accepted: zero but for the
  difference of pointers, \<open>dup\<close> and \<open>pop\<close> of a controlled-mutability pointer, the conversion of a pointer to a
  wider integer, and the checked conversions above.
\<close>

definition height_error :: "platform \<Rightarrow> nat \<Rightarrow> ILEngineType list \<Rightarrow> int" where
  "height_error p opcode ts = (case ts of
       [] \<Rightarrow> 0
     | t2 # rest \<Rightarrow>
         if opcode \<in> {IL_OP_SUB, IL_OP_SUB_OVF_UN} then
           case rest of
             t1 # _ \<Rightarrow> if t2 \<in> {T_M, T_T} then
                 (if opcode = IL_OP_SUB then - int (words_per_native_float p) else - int (words_per_long p)) -
                 (type_size p T_I - type_size p t1 - 1)
               else 0
           | [] \<Rightarrow> 0
         else if opcode = IL_OP_DUP \<and> t2 = ILEngineType_CM then - 1
         else if opcode = IL_OP_POP \<and> t2 = ILEngineType_CM then 1
         else case map_of conv_results opcode of
             Some r \<Rightarrow> if t2 \<in> {T_M, ILEngineType_O, T_T} then 1 - type_size p r else conv_error p opcode t2
           | None \<Rightarrow> 0)"

definition height_ok :: "platform \<Rightarrow> ILEngineStackItem list \<Rightarrow> ILCVMCoder \<Rightarrow> bool" where
  "height_ok p stk c \<longleftrightarrow> height c = minHeight c + int (ComputeStackSize p stk)"

text \<open>What a verdict means for the height, for an instruction that has the error \<open>k\<close>.\<close>

definition off_by :: "platform \<Rightarrow> int \<Rightarrow> ILEngineStackItem list \<Rightarrow> ILCVMCoder \<Rightarrow> verdict option \<Rightarrow> bool" where
  "off_by p k stk c v \<longleftrightarrow> (\<forall>stk' c'. v = Some (Accept stk' c') \<longrightarrow> minHeight c' = minHeight c \<and>
     height c' - int (ComputeStackSize p stk') = height c - int (ComputeStackSize p stk) + k)"

lemma item_size: "engineType i \<noteq> ILEngineType_MV \<Longrightarrow> int (item_words p i) = type_size p (engineType i)"
  by (auto simp: item_words_def split: ILEngineType.splits)

text \<open>Two operands are replaced by a result.\<close>

lemma off_by_binary:
  assumes "\<And>stk' c'. v = Some (Accept stk' c') \<Longrightarrow> \<exists>i f. stk' = i # rest \<and> c' = f c \<and> engineType i \<noteq> ILEngineType_MV \<and>
      engineType i1 \<noteq> ILEngineType_MV \<and> engineType i2 \<noteq> ILEngineType_MV \<and>
      moves f (type_size p (engineType i) - type_size p (engineType i1) - type_size p (engineType i2) + k)"
  shows "off_by p k (i2 # i1 # rest) c v"
  unfolding off_by_def
proof (intro allI impI)
  fix stk' c'
  assume "v = Some (Accept stk' c')"
  from assms [OF this] obtain i f where f: "stk' = i # rest" "c' = f c" "engineType i \<noteq> ILEngineType_MV"
    "engineType i1 \<noteq> ILEngineType_MV" "engineType i2 \<noteq> ILEngineType_MV"
    "moves f (type_size p (engineType i) - type_size p (engineType i1) - type_size p (engineType i2) + k)" by blast
  show "minHeight c' = minHeight c \<and>
      height c' - int (ComputeStackSize p stk') = height c - int (ComputeStackSize p (i2 # i1 # rest)) + k"
    using item_size [OF f(3), of p] item_size [OF f(4), of p] item_size [OF f(5), of p] movesD [OF f(6), of c] f(1,2) by simp
qed

lemma off_by_unary:
  assumes "\<And>stk' c'. v = Some (Accept stk' c') \<Longrightarrow> \<exists>i f. stk' = i # rest \<and> c' = f c \<and> engineType i \<noteq> ILEngineType_MV \<and>
      engineType i1 \<noteq> ILEngineType_MV \<and> moves f (type_size p (engineType i) - type_size p (engineType i1) + k)"
  shows "off_by p k (i1 # rest) c v"
  unfolding off_by_def
proof (intro allI impI)
  fix stk' c'
  assume "v = Some (Accept stk' c')"
  from assms [OF this] obtain i f where f: "stk' = i # rest" "c' = f c" "engineType i \<noteq> ILEngineType_MV"
    "engineType i1 \<noteq> ILEngineType_MV" "moves f (type_size p (engineType i) - type_size p (engineType i1) + k)" by blast
  show "minHeight c' = minHeight c \<and>
      height c' - int (ComputeStackSize p stk') = height c - int (ComputeStackSize p (i1 # rest)) + k"
    using item_size [OF f(3), of p] item_size [OF f(4), of p] movesD [OF f(5), of c] f(1,2) by simp
qed

lemma same_class_types: "same_class t1 t2 t \<Longrightarrow> t1 \<noteq> ILEngineType_MV \<and> t2 \<noteq> ILEngineType_MV \<and> t \<notin> {ILEngineType_MV, T_NO, T_M, T_T}"
  by (auto simp: same_class_def)

lemma verify_binary_cases:
  assumes "verify_binary m gen stk c = Some (Accept stk' c')"
  obtains i2 i1 rest t where "stk = i2 # i1 # rest" "lookup2 m (engineType i1) (engineType i2) = Some t" "t \<noteq> T_NO"
    "stk' = typed t # rest" "c' = gen (engineType i1) (engineType i2) c"
  using assms by (auto simp: verify_binary_def Option.bind_eq_Some_conv split: list.splits if_splits)

lemma verify_binary_off_by:
  assumes "\<And>t1 t2 t. lookup2 m t1 t2 = Some t \<Longrightarrow> t \<noteq> T_NO \<Longrightarrow> t \<noteq> ILEngineType_MV \<and> t1 \<noteq> ILEngineType_MV \<and> t2 \<noteq> ILEngineType_MV \<and>
      moves (gen t1 t2) (type_size p t - type_size p t1 - type_size p t2)"
  shows "off_by p 0 stk c (verify_binary m gen stk c)"
proof (cases "\<exists>stk' c'. verify_binary m gen stk c = Some (Accept stk' c')")
  case True
  then obtain i2 i1 rest where stk: "stk = i2 # i1 # rest" by (auto elim: verify_binary_cases)
  show ?thesis
    unfolding stk
  proof (rule off_by_binary)
    fix stk' c'
    assume "verify_binary m gen (i2 # i1 # rest) c = Some (Accept stk' c')"
    then obtain t where t: "lookup2 m (engineType i1) (engineType i2) = Some t" "t \<noteq> T_NO"
      "stk' = typed t # rest" "c' = gen (engineType i1) (engineType i2) c"
      by (auto elim: verify_binary_cases)
    from assms [OF t(1,2)] t(3,4)
    show "\<exists>i f. stk' = i # rest \<and> c' = f c \<and> engineType i \<noteq> ILEngineType_MV \<and> engineType i1 \<noteq> ILEngineType_MV \<and>
        engineType i2 \<noteq> ILEngineType_MV \<and> moves f (type_size p (engineType i) - type_size p (engineType i1) - type_size p (engineType i2) + 0)"
      by (intro exI [of _ "typed t"] exI [of _ "gen (engineType i1) (engineType i2)"]) simp
  qed
qed (simp add: off_by_def)

lemma numeric_off_by:
  "opcode \<in> numeric_opcodes \<Longrightarrow> off_by p 0 stk c (verify_binary binaryNumericMatrix (CVMCoder_Binary p opcode) stk c)"
  using numeric_lookup same_class_types Binary_moves by (intro verify_binary_off_by) blast

lemma integer_off_by:
  "opcode \<in> integer_opcodes \<Longrightarrow> off_by p 0 stk c (verify_binary binaryIntegerMatrix (CVMCoder_Binary p opcode) stk c)"
  using integer_lookup same_class_types Binary_moves by (intro verify_binary_off_by) blast

lemma shift_off_by:
  assumes "opcode \<in> {IL_OP_SHL, IL_OP_SHR, IL_OP_SHR_UN}"
  shows "off_by p 0 stk c (verify_binary binaryShiftMatrix (CVMCoder_Shift p opcode) stk c)"
proof (rule verify_binary_off_by)
  fix t1 t2 t
  assume "lookup2 binaryShiftMatrix t1 t2 = Some t" "t \<noteq> T_NO"
  from shift_lookup [OF this] Shift_moves [of t1 t2 opcode p] assms
  show "t \<noteq> ILEngineType_MV \<and> t1 \<noteq> ILEngineType_MV \<and> t2 \<noteq> ILEngineType_MV \<and>
      moves (CVMCoder_Shift p opcode t1 t2) (type_size p t - type_size p t1 - type_size p t2)" by auto
qed

lemma add_off_by:
  assumes "opcode \<in> {IL_OP_ADD, IL_OP_ADD_OVF_UN}"
  shows "off_by p 0 stk c (verify_add p u opcode stk c)"
proof (cases "\<exists>i2 i1 rest. stk = i2 # i1 # rest")
  case True
  then obtain i2 i1 rest where stk: "stk = i2 # i1 # rest" by blast
  let ?t1 = "engineType i1" and ?t2 = "engineType i2"
  show ?thesis
    unfolding stk
  proof (rule off_by_binary)
    fix stk' c'
    assume a: "verify_add p u opcode (i2 # i1 # rest) c = Some (Accept stk' c')"
    then obtain t where t: "(if u then lookup2 addUnsafeMatrix ?t1 ?t2 else lookup2 binaryNumericMatrix ?t1 ?t2) = Some t" "t \<noteq> T_NO"
      by (auto simp: verify_add_def Option.bind_eq_Some_conv split: if_splits)
    consider (same) "same_class ?t1 ?t2 t" | (ptr) "pointer_class ?t1 ?t2 t"
      using t numeric_lookup [of ?t1 ?t2 t] add_lookup [of ?t1 ?t2 t] by (cases u) auto
    then show "\<exists>i f. stk' = i # rest \<and> c' = f c \<and> engineType i \<noteq> ILEngineType_MV \<and> ?t1 \<noteq> ILEngineType_MV \<and> ?t2 \<noteq> ILEngineType_MV \<and>
        moves f (type_size p (engineType i) - type_size p ?t1 - type_size p ?t2 + 0)"
    proof cases
      case same
      from same_class_types [OF same] a t(1) have "t = T_F \<longrightarrow> opcode \<noteq> IL_OP_ADD_OVF_UN" "stk' = typed t # rest"
        "c' = CVMCoder_Binary p opcode ?t1 ?t2 c" by (auto simp: verify_add_def split: if_splits)
      with same_class_types [OF same] Binary_moves [OF same, of opcode p] assms show ?thesis
        by (intro exI [of _ "typed t"] exI [of _ "CVMCoder_Binary p opcode ?t1 ?t2"])
          (auto simp: numeric_opcodes_def integer_opcodes_def)
    next
      case ptr
      then have "t \<in> {T_M, T_T}" by (simp add: pointer_class_def)
      with a t(1) obtain i where i: "stk' = i # rest" "engineType i = t" "c' = CVMCoder_BinaryPtr p opcode ?t1 ?t2 c"
        by (auto simp: verify_add_def Let_def split: if_splits)
      from BinaryPtr_moves [OF ptr, of opcode p] assms ptr i show ?thesis
        by (intro exI [of _ i] exI [of _ "CVMCoder_BinaryPtr p opcode ?t1 ?t2"]) (auto simp: pointer_class_def)
    qed
  qed
qed (auto simp: verify_add_def off_by_def split: list.splits)

lemma sub_off_by:
  assumes "opcode \<in> {IL_OP_SUB, IL_OP_SUB_OVF_UN}"
  shows "off_by p (height_error p opcode (map engineType stk)) stk c (verify_sub p u opcode stk c)"
proof (cases "\<exists>i2 i1 rest. stk = i2 # i1 # rest")
  case True
  then obtain i2 i1 rest where stk: "stk = i2 # i1 # rest" by blast
  let ?t1 = "engineType i1" and ?t2 = "engineType i2"
  let ?k = "height_error p opcode (map engineType stk)"
  show ?thesis
    unfolding stk
  proof (rule off_by_binary)
    fix stk' c'
    assume a: "verify_sub p u opcode (i2 # i1 # rest) c = Some (Accept stk' c')"
    then obtain t where t: "(if u then lookup2 subUnsafeMatrix ?t1 ?t2 else lookup2 binaryNumericMatrix ?t1 ?t2) = Some t" "t \<noteq> T_NO"
      by (auto simp: verify_sub_def Option.bind_eq_Some_conv split: if_splits)
    consider (same) "same_class ?t1 ?t2 t" | (ptr) "t \<in> {T_M, T_T}" "?t1 = t" "?t2 \<in> {T_I4, T_I}"
      | (diff) "t = T_I" "?t1 \<in> {T_I, T_M, T_T}" "?t2 \<in> {T_M, T_T}"
      using t numeric_lookup [of ?t1 ?t2 t] sub_lookup [of ?t1 ?t2 t] by (cases u) auto
    then show "\<exists>i f. stk' = i # rest \<and> c' = f c \<and> engineType i \<noteq> ILEngineType_MV \<and> ?t1 \<noteq> ILEngineType_MV \<and> ?t2 \<noteq> ILEngineType_MV \<and>
        moves f (type_size p (engineType i) - type_size p ?t1 - type_size p ?t2 + height_error p opcode (map engineType (i2 # i1 # rest)))"
    proof cases
      case same
      then have "height_error p opcode (map engineType (i2 # i1 # rest)) = 0"
        using assms by (auto simp: same_class_def height_error_def)
      moreover from same_class_types [OF same] a t(1) have "t = T_F \<longrightarrow> opcode \<noteq> IL_OP_SUB_OVF_UN" "stk' = typed t # rest"
        "c' = CVMCoder_Binary p opcode ?t1 ?t2 c" by (auto simp: verify_sub_def split: if_splits)
      ultimately show ?thesis using same_class_types [OF same] Binary_moves [OF same, of opcode p] assms
        by (intro exI [of _ "typed t"] exI [of _ "CVMCoder_Binary p opcode ?t1 ?t2"])
          (auto simp: numeric_opcodes_def integer_opcodes_def)
    next
      case ptr
      then have e: "height_error p opcode (map engineType (i2 # i1 # rest)) = 0"
        using assms by (auto simp: height_error_def)
      have pc: "pointer_class ?t1 ?t2 t" using ptr by (simp add: pointer_class_def)
      from ptr(1) a t(1) have "stk' = i1\<lparr>engineType := t\<rparr> # rest" "c' = CVMCoder_BinaryPtr p opcode ?t1 ?t2 c"
        by (auto simp: verify_sub_def split: if_splits)
      with e BinaryPtr_moves [OF pc, of opcode p] assms ptr show ?thesis
        by (intro exI [of _ "i1\<lparr>engineType := t\<rparr>"] exI [of _ "CVMCoder_BinaryPtr p opcode ?t1 ?t2"]) auto
    next
      case diff
      have "type_size p ?t2 = 1" using diff(3) by (auto simp: item_words_def)
      moreover from diff a t(1) have "stk' = typed t # rest" "c' = CVMCoder_Binary p opcode ?t1 ?t2 c"
        by (auto simp: verify_sub_def split: if_splits)
      moreover have "moves (CVMCoder_Binary p opcode ?t1 ?t2)
          (if opcode = IL_OP_SUB then - int (words_per_native_float p) else - int (words_per_long p))"
        using pointer_difference_code [OF diff(2,3)] assms by (auto simp: moves_def)
      ultimately show ?thesis using diff assms
        by (intro exI [of _ "typed t"] exI [of _ "CVMCoder_Binary p opcode ?t1 ?t2"]) (auto simp: height_error_def)
    qed
  qed
qed (auto simp: verify_sub_def off_by_def split: list.splits)

lemma unary_off_by:
  assumes "m \<in> {negateMatrix, notMatrix}"
  shows "off_by p 0 stk c (verify_unary p m opcode stk c)"
proof (cases stk)
  case (Cons i1 rest)
  have m: "lookup1 m t = Some t' \<Longrightarrow> t' \<noteq> T_NO \<Longrightarrow> t' = t \<and> t \<noteq> ILEngineType_MV" for t t'
    using assms by (cases t) (auto simp: matrix_defs)
  show ?thesis
    unfolding Cons
  proof (rule off_by_unary)
    fix stk' c'
    assume "verify_unary p m opcode (i1 # rest) c = Some (Accept stk' c')"
    then obtain t where t: "lookup1 m (engineType i1) = Some t" "t \<noteq> T_NO" "stk' = typed t # rest"
      "c' = CVMCoder_Unary p opcode (engineType i1) c"
      by (auto simp: verify_unary_def Option.bind_eq_Some_conv split: if_splits)
    from m [OF t(1,2)] t(3,4) Unary_moves [of p opcode "engineType i1"]
    show "\<exists>i f. stk' = i # rest \<and> c' = f c \<and> engineType i \<noteq> ILEngineType_MV \<and> engineType i1 \<noteq> ILEngineType_MV \<and>
        moves f (type_size p (engineType i) - type_size p (engineType i1) + 0)"
      by (intro exI [of _ "typed t"] exI [of _ "CVMCoder_Unary p opcode (engineType i1)"]) auto
  qed
qed (simp add: off_by_def verify_unary_def)

lemma conv_off_by:
  assumes "map_of conv_results opcode = Some r" "opcode \<notin> {IL_OP_SUB, IL_OP_SUB_OVF_UN, IL_OP_DUP, IL_OP_POP}"
  shows "off_by p (height_error p opcode (map engineType stk)) stk c (VERIFY_CONV p u opcode r stk c)"
proof (cases stk)
  case (Cons i1 rest)
  let ?t = "engineType i1"
  have r: "(opcode, r) \<in> set conv_results" by (rule map_of_SomeD [OF assms(1)])
  then have rmv: "r \<noteq> ILEngineType_MV" by (auto simp: conv_results_def)
  have e: "height_error p opcode (map engineType (i1 # rest)) =
      (if ?t \<in> {T_M, ILEngineType_O, T_T} then 1 - type_size p r else conv_error p opcode ?t)"
    using assms by (simp add: height_error_def)
  show ?thesis
    unfolding Cons
  proof (rule off_by_unary)
    fix stk' c'
    assume a: "VERIFY_CONV p u opcode r (i1 # rest) c = Some (Accept stk' c')"
    then consider (num) "?t \<in> {T_I4, T_I8, T_I, T_F}" "c' = CVMCoder_Conv p opcode ?t c"
      | (ptr) "?t \<in> {T_M, ILEngineType_O, T_T}" "r \<in> {T_I8, T_I}" "c' = CVMCoder_Conv p opcode r c"
      by (cases ?t) (auto simp: VERIFY_CONV_def enum_value_def split: if_splits)
    then have "\<exists>f. c' = f c \<and> ?t \<noteq> ILEngineType_MV \<and>
        moves f (type_size p r - type_size p ?t + height_error p opcode (map engineType (i1 # rest)))"
    proof cases
      case num
      then have "?t \<notin> {T_M, ILEngineType_O, T_T}" by auto
      with num Conv_moves_all [OF num(1), of p] r show ?thesis unfolding e list_all_iff by fastforce
    next
      case ptr
      then have "type_size p ?t = 1" by (auto simp: item_words_def)
      moreover have "moves (CVMCoder_Conv p opcode r) 0"
        using ptr(2) Conv_pointer_moves_all [of p] r unfolding list_all_iff by blast
      ultimately show ?thesis using ptr unfolding e by (intro exI [of _ "CVMCoder_Conv p opcode r"]) auto
    qed
    moreover have "stk' = typed r # rest" using a by (auto simp: VERIFY_CONV_def split: if_splits)
    ultimately show "\<exists>i f. stk' = i # rest \<and> c' = f c \<and> engineType i \<noteq> ILEngineType_MV \<and> ?t \<noteq> ILEngineType_MV \<and>
        moves f (type_size p (engineType i) - type_size p ?t + height_error p opcode (map engineType (i1 # rest)))"
      using rmv by (intro exI [of _ "typed r"]) simp
  qed
qed (simp add: off_by_def VERIFY_CONV_def)

lemma stack_off_by:
  "off_by p (height_error p IL_OP_DUP (map engineType stk)) stk c (verify_dup p stk c)"
  "off_by p (height_error p IL_OP_POP (map engineType stk)) stk c (verify_pop p stk c)"
proof -
  have cm: "engineType i = ILEngineType_CM \<Longrightarrow> item_words p i = 1" for i by (simp add: item_words_def)
  have n: "map_of conv_results IL_OP_DUP = None" "map_of conv_results IL_OP_POP = None" by (simp_all add: conv_results_def)
  have dup: "moves (CVMCoder_Dup p (engineType i) (typeInfo i)) (if engineType i = ILEngineType_CM then 0 else int (item_words p i))" for i
    using Dup_moves [of p "engineType i" "typeInfo i"] by (cases i) (auto split: if_splits)
  have pop: "moves (CVMCoder_Pop p (engineType i) (typeInfo i)) (if engineType i = ILEngineType_CM then 0 else - int (item_words p i))" for i
    using Pop_moves [of p "engineType i" "typeInfo i"] by (cases i) (auto split: if_splits)
  show "off_by p (height_error p IL_OP_DUP (map engineType stk)) stk c (verify_dup p stk c)"
    by (cases stk) (auto simp: off_by_def verify_dup_def height_error_def n movesD [OF dup] cm)
  show "off_by p (height_error p IL_OP_POP (map engineType stk)) stk c (verify_pop p stk c)"
    by (cases stk) (auto simp: off_by_def verify_pop_def height_error_def n movesD [OF pop] cm)
qed

lemma constant_off_by:
  assumes "moves (CVMCoder_Constant p opcode arg) (type_size p t)"
  shows "off_by p 0 stk c (verify_constant p opcode t arg stk c)"
  by (simp add: off_by_def verify_constant_def movesD [OF assms])

lemma ckfinite_off_by: "off_by p 0 stk c (verify_ckfinite p stk c)"
  by (auto simp: off_by_def verify_ckfinite_def movesD [OF Unary_moves] split: list.splits if_splits)

lemma height_error_zero:
  assumes "opcode \<notin> {IL_OP_SUB, IL_OP_SUB_OVF_UN, IL_OP_DUP, IL_OP_POP}" "map_of conv_results opcode = None"
  shows "height_error p opcode ts = 0"
  using assms by (simp add: height_error_def split: list.split)

lemma not_conv:
  "opcode < 0x67 \<Longrightarrow> map_of conv_results opcode = None"
  "opcode \<in> integer_opcodes \<union> {IL_OP_CKFINITE} \<Longrightarrow> map_of conv_results opcode = None"
  by (auto simp: map_of_eq_None_iff conv_results_def integer_opcodes_def)

lemma off_by_if:
  "(b \<Longrightarrow> off_by p k stk c v) \<Longrightarrow> (\<not> b \<Longrightarrow> off_by p k stk c v') \<Longrightarrow> off_by p k stk c (if b then v else v')"
  by simp

lemma verify_switch_off_by:
  "off_by p (height_error p opcode (map engineType stk)) stk c (verify_switch p u opcode arg stk c)"
proof -
  let ?e = "height_error p opcode (map engineType stk)"
  have zero: "off_by p ?e stk c v" if "opcode < 0x67 \<or> opcode \<in> integer_opcodes \<or> opcode = IL_OP_CKFINITE"
      "opcode \<notin> {IL_OP_SUB, IL_OP_SUB_OVF_UN, IL_OP_DUP, IL_OP_POP}" "off_by p 0 stk c v" for v
    using that not_conv [of opcode] height_error_zero [of opcode p] by (metis UnI1 UnI2 singletonI)
  show ?thesis
    unfolding verify_switch_def
  proof (intro off_by_if, goal_cases)
    case 1 then show ?case by (intro zero) (auto simp: off_by_def)
  next
    case 2 then show ?case by (intro zero constant_off_by) (auto simp: item_words_def intro: Constant_moves)
  next
    case 3 then show ?case by (intro zero constant_off_by) (auto simp: item_words_def intro: Constant_moves)
  next
    case 4 then show ?case by (intro zero constant_off_by) (auto simp: item_words_def intro: Constant_moves)
  next
    case 5 then show ?case by (intro zero constant_off_by) (auto simp: item_words_def intro: Constant_moves)
  next
    case 6 then show ?case by (simp add: stack_off_by)
  next
    case 7 then show ?case by (simp add: stack_off_by)
  next
    case 8 then show ?case by (intro zero add_off_by) (auto simp: integer_opcodes_def)
  next
    case 9 then show ?case by (intro sub_off_by) auto
  next
    case 10 then show ?case by (intro zero numeric_off_by) (auto simp: numeric_opcodes_def)
  next
    case 11 then show ?case by (intro zero integer_off_by) (auto simp: integer_opcodes_def)
  next
    case 12 then show ?case by (intro zero shift_off_by) auto
  next
    case 13 then show ?case by (intro zero unary_off_by) auto
  next
    case 14 then show ?case by (intro zero unary_off_by) auto
  next
    case 15 then show ?case by (intro zero ckfinite_off_by) auto
  next
    case 16 then show ?case by (cases "map_of conv_results opcode") (auto simp: off_by_def [of _ _ _ _ None] intro!: conv_off_by)
  qed
qed

lemma verify_insn_Accept:
  assumes "verify_insn p u maxStack code stk c = Some (Accept stk' c', sz)"
  obtains op arg where "code = op # arg" "verify_switch p u (unat op) arg stk c = Some (Accept stk' c')"
  using assms by (auto simp: verify_insn_def Option.bind_eq_Some_conv split: list.splits if_splits)

section \<open>Safe code\<close>

text \<open>No operation above puts a controlled-mutability pointer or a type outside the matrices on the stack.\<close>

definition matrix_types :: "ILEngineStackItem list \<Rightarrow> bool" where
  "matrix_types stk \<longleftrightarrow> (\<forall>i \<in> set stk. enum_value (engineType i) < ILEngineType_ValidTypes)"

lemma matrix_types_simps [simp]:
  "matrix_types []" "matrix_types (i # stk) \<longleftrightarrow> enum_value (engineType i) < ILEngineType_ValidTypes \<and> matrix_types stk"
  by (simp_all add: matrix_types_def)

definition well_typed :: "verdict option \<Rightarrow> bool" where
  "well_typed v \<longleftrightarrow> v = Some Reject \<or> (\<exists>stk c. v = Some (Accept stk c) \<and> matrix_types stk)"

lemma well_typed_simps [simp]: "well_typed (Some Reject)" "well_typed (Some (Accept stk c)) \<longleftrightarrow> matrix_types stk"
  by (auto simp: well_typed_def)

lemma valid_enum: "enum_value t < ILEngineType_ValidTypes \<longleftrightarrow> t \<notin> {T_NO, ILEngineType_TypedRef, ILEngineType_CM}"
  by (cases t) (simp_all add: enum_value_def)

lemma nth_types:
  "m \<in> {binaryNumericMatrix, binaryIntegerMatrix, binaryShiftMatrix, addUnsafeMatrix, subUnsafeMatrix} \<Longrightarrow>
     t \<in> set (concat m) \<Longrightarrow> t \<notin> {ILEngineType_TypedRef, ILEngineType_CM}"
  by (auto simp: matrix_defs)

lemma matrix_shape:
  "m \<in> {binaryNumericMatrix, binaryIntegerMatrix, binaryShiftMatrix, addUnsafeMatrix, subUnsafeMatrix} \<Longrightarrow>
     length m = 8 \<and> (\<forall>r \<in> set m. length r = 8)"
  by (auto simp: matrix_defs)

lemma lookup2_valid:
  assumes "m \<in> {binaryNumericMatrix, binaryIntegerMatrix, binaryShiftMatrix, addUnsafeMatrix, subUnsafeMatrix}"
    "enum_value t1 < ILEngineType_ValidTypes" "enum_value t2 < ILEngineType_ValidTypes"
  shows "\<exists>t. lookup2 m t1 t2 = Some t \<and> t \<notin> {ILEngineType_TypedRef, ILEngineType_CM}"
proof -
  have r: "m ! enum_value t1 \<in> set m" using assms matrix_shape [OF assms(1)] by simp
  then have "m ! enum_value t1 ! enum_value t2 \<in> set (m ! enum_value t1)" using assms(3) matrix_shape [OF assms(1)] by simp
  with r have "m ! enum_value t1 ! enum_value t2 \<in> set (concat m)" unfolding set_concat by blast
  with nth_types [OF assms(1)] assms(2,3) show ?thesis by (auto simp: lookup2_def)
qed

lemma lookup1_valid:
  assumes "m \<in> {negateMatrix, notMatrix}" "enum_value t < ILEngineType_ValidTypes"
  shows "\<exists>t'. lookup1 m t = Some t' \<and> t' \<notin> {ILEngineType_TypedRef, ILEngineType_CM}"
  using assms by (cases t) (auto simp: matrix_defs)

lemma binary_well_typed:
  assumes "m \<in> {binaryNumericMatrix, binaryIntegerMatrix, binaryShiftMatrix}" "matrix_types (i2 # i1 # rest)"
  shows "well_typed (verify_binary m gen (i2 # i1 # rest) c)"
proof -
  from assms have "m \<in> {binaryNumericMatrix, binaryIntegerMatrix, binaryShiftMatrix, addUnsafeMatrix, subUnsafeMatrix}" by blast
  with assms(2) lookup2_valid [of m "engineType i1" "engineType i2"]
  obtain t where "lookup2 m (engineType i1) (engineType i2) = Some t" "t \<notin> {ILEngineType_TypedRef, ILEngineType_CM}" by auto
  with assms(2) show ?thesis by (auto simp: verify_binary_def valid_enum)
qed

lemma add_sub_well_typed:
  assumes "matrix_types (i2 # i1 # rest)"
  shows "well_typed (verify_add p u opcode (i2 # i1 # rest) c)" "well_typed (verify_sub p u opcode (i2 # i1 # rest) c)"
proof -
  let ?l = "\<lambda>m. lookup2 m (engineType i1) (engineType i2)"
  have l: "\<exists>t. ?l m = Some t \<and> t \<notin> {ILEngineType_TypedRef, ILEngineType_CM}"
    if "m \<in> {binaryNumericMatrix, addUnsafeMatrix, subUnsafeMatrix}" for m
    using that assms by (intro lookup2_valid) auto
  obtain t where t: "(if u then ?l addUnsafeMatrix else ?l binaryNumericMatrix) = Some t" "t \<notin> {ILEngineType_TypedRef, ILEngineType_CM}"
    using l [of addUnsafeMatrix] l [of binaryNumericMatrix] by (cases u) auto
  show "well_typed (verify_add p u opcode (i2 # i1 # rest) c)"
    using assms t(2) unfolding verify_add_def list.case t(1) by (auto simp: valid_enum Let_def)
  obtain t where t: "(if u then ?l subUnsafeMatrix else ?l binaryNumericMatrix) = Some t" "t \<notin> {ILEngineType_TypedRef, ILEngineType_CM}"
    using l [of subUnsafeMatrix] l [of binaryNumericMatrix] by (cases u) auto
  show "well_typed (verify_sub p u opcode (i2 # i1 # rest) c)"
    using assms t(2) unfolding verify_sub_def list.case t(1) by (auto simp: valid_enum)
qed

lemma unary_well_typed:
  assumes "m \<in> {negateMatrix, notMatrix}" "matrix_types (i1 # rest)"
  shows "well_typed (verify_unary p m opcode (i1 # rest) c)"
proof -
  obtain t where "lookup1 m (engineType i1) = Some t" "t \<notin> {ILEngineType_TypedRef, ILEngineType_CM}"
    using assms lookup1_valid [of m "engineType i1"] by auto
  with assms(2) show ?thesis by (auto simp: verify_unary_def valid_enum)
qed

lemma conv_well_typed:
  assumes "map_of conv_results opcode = Some r" "matrix_types (i1 # rest)"
  shows "well_typed (VERIFY_CONV p u opcode r (i1 # rest) c)"
proof -
  have "r \<in> {T_I4, T_I8, T_I, T_F}" using map_of_SomeD [OF assms(1)] by (auto simp: conv_results_def)
  with assms(2) show ?thesis by (auto simp: VERIFY_CONV_def enum_value_def)
qed

text \<open>With an operand of another type, addition and subtraction read outside the matrix.\<close>

lemma arithmetic_leaves_matrix:
  assumes "opcode \<in> {IL_OP_ADD, IL_OP_SUB}"
  shows "verify_switch p u opcode arg (i2 # i1 # rest) c = None \<longleftrightarrow>
    engineType i1 \<in> {T_NO, ILEngineType_TypedRef, ILEngineType_CM} \<or> engineType i2 \<in> {T_NO, ILEngineType_TypedRef, ILEngineType_CM}"
proof (cases "enum_value (engineType i1) < ILEngineType_ValidTypes \<and> enum_value (engineType i2) < ILEngineType_ValidTypes")
  case True
  have "verify_add p u opcode (i2 # i1 # rest) c \<noteq> None" "verify_sub p u opcode (i2 # i1 # rest) c \<noteq> None"
    using True by (auto simp: verify_add_def verify_sub_def lookup2_def Let_def)
  with True assms show ?thesis by (auto simp: valid_enum verify_switch_def)
next
  case False
  then have "lookup2 m (engineType i1) (engineType i2) = None" for m by (simp add: lookup2_def)
  with False assms show ?thesis by (auto simp: valid_enum verify_switch_def verify_add_def verify_sub_def)
qed

lemma well_typed_if: "(b \<Longrightarrow> well_typed v) \<Longrightarrow> (\<not> b \<Longrightarrow> well_typed v') \<Longrightarrow> well_typed (if b then v else v')"
  by simp

text \<open>The instructions that pop two items, and what the table says of the others.\<close>

definition binary_opcodes :: "nat set" where
  "binary_opcodes = numeric_opcodes \<union> integer_opcodes \<union> {IL_OP_SHL, IL_OP_SHR, IL_OP_SHR_UN}"

lemma opcode_table_all:
  "list_all (\<lambda>(opcode, popped, pushed, sz). 0 < sz \<and>
     popped = (if opcode < IL_OP_DUP then 0 else if opcode \<in> binary_opcodes then 2 else 1) \<and>
     (opcode < IL_OP_DUP \<or> opcode \<in> binary_opcodes \<union> {IL_OP_DUP, IL_OP_POP, IL_OP_NEG, IL_OP_NOT, IL_OP_CKFINITE} \<or>
      opcode \<in> fst ` set conv_results) \<and>
     (opcode < IL_OP_DUP \<longrightarrow> opcode \<in> {IL_OP_NOP, IL_OP_BREAK, IL_OP_LDNULL, IL_OP_LDC_I8, IL_OP_LDC_R4, IL_OP_LDC_R8} \<or>
        opcode \<ge> IL_OP_LDC_I4_M1 \<and> opcode \<le> IL_OP_LDC_I4)) opcode_table"
  by (simp add: opcode_table_def binary_opcodes_def numeric_opcodes_def integer_opcodes_def conv_results_def)

lemma opcode_table_facts:
  assumes "map_of opcode_table opcode = Some (popped, pushed, sz)"
  shows "0 < sz" "opcode < IL_OP_DUP \<Longrightarrow> popped = 0" "opcode \<in> binary_opcodes \<Longrightarrow> popped = 2"
    "\<not> opcode < IL_OP_DUP \<Longrightarrow> opcode \<notin> binary_opcodes \<Longrightarrow> popped = 1"
    "\<not> opcode < IL_OP_DUP \<Longrightarrow> opcode \<notin> binary_opcodes \<union> {IL_OP_DUP, IL_OP_POP, IL_OP_NEG, IL_OP_NOT, IL_OP_CKFINITE} \<Longrightarrow>
       \<exists>r. map_of conv_results opcode = Some r"
    "opcode < IL_OP_DUP \<Longrightarrow> opcode \<in> {IL_OP_NOP, IL_OP_BREAK, IL_OP_LDNULL, IL_OP_LDC_I8, IL_OP_LDC_R4, IL_OP_LDC_R8} \<or>
       opcode \<ge> IL_OP_LDC_I4_M1 \<and> opcode \<le> IL_OP_LDC_I4"
proof -
  note all = opcode_table_all [unfolded list_all_iff, rule_format, OF map_of_SomeD [OF assms], unfolded prod.case]
  have b: "opcode \<in> binary_opcodes \<Longrightarrow> \<not> opcode < IL_OP_DUP"
    by (auto simp: binary_opcodes_def numeric_opcodes_def integer_opcodes_def)
  show "0 < sz" using all by blast
  show "opcode < IL_OP_DUP \<Longrightarrow> popped = 0" using all by simp
  show "opcode \<in> binary_opcodes \<Longrightarrow> popped = 2" using all b by simp
  show "\<not> opcode < IL_OP_DUP \<Longrightarrow> opcode \<notin> binary_opcodes \<Longrightarrow> popped = 1" using all by simp
  show "\<exists>r. map_of conv_results opcode = Some r" if "\<not> opcode < IL_OP_DUP"
      "opcode \<notin> binary_opcodes \<union> {IL_OP_DUP, IL_OP_POP, IL_OP_NEG, IL_OP_NOT, IL_OP_CKFINITE}"
    using all that by (metis map_of_eq_None_iff option.exhaust)
  show "opcode \<in> {IL_OP_NOP, IL_OP_BREAK, IL_OP_LDNULL, IL_OP_LDC_I8, IL_OP_LDC_R4, IL_OP_LDC_R8} \<or>
       opcode \<ge> IL_OP_LDC_I4_M1 \<and> opcode \<le> IL_OP_LDC_I4" if "opcode < IL_OP_DUP" using all that by blast
qed

lemma verify_switch_well_typed:
  assumes "map_of opcode_table opcode = Some (popped, pushed, sz)" "popped \<le> length stk" "matrix_types stk"
  shows "well_typed (verify_switch p u opcode arg stk c)"
proof -
  note facts = opcode_table_facts [OF assms(1)]
  have two: "opcode \<in> binary_opcodes \<Longrightarrow> \<exists>i2 i1 rest. stk = i2 # i1 # rest"
    using facts(3) assms(2) by (auto simp: Suc_le_length_iff numeral_2_eq_2)
  have one: "\<not> opcode < IL_OP_DUP \<Longrightarrow> \<exists>i rest. stk = i # rest"
    using facts(3,4) assms(2) by (cases stk; cases "opcode \<in> binary_opcodes") auto
  note opcodes = binary_opcodes_def numeric_opcodes_def integer_opcodes_def
  show ?thesis
    unfolding verify_switch_def
  proof (intro well_typed_if, goal_cases)
    case 6 with one assms(3) show ?case by (auto simp: verify_dup_def)
  next
    case 7 with one assms(3) show ?case by (auto simp: verify_pop_def)
  next
    case 8 with two assms(3) show ?case by (fastforce simp: opcodes intro: add_sub_well_typed)
  next
    case 9 with two assms(3) show ?case by (fastforce simp: opcodes intro: add_sub_well_typed)
  next
    case 10 with two assms(3) show ?case by (fastforce simp: opcodes intro: binary_well_typed)
  next
    case 11 then have "opcode \<in> binary_opcodes" by (auto simp: opcodes)
    with two assms(3) show ?case by (auto intro!: binary_well_typed)
  next
    case 12 with two assms(3) show ?case by (fastforce simp: opcodes intro: binary_well_typed)
  next
    case 13 with one assms(3) show ?case by (auto intro!: unary_well_typed)
  next
    case 14 with one assms(3) show ?case by (auto intro!: unary_well_typed)
  next
    case 15 with one assms(3) show ?case by (auto simp: verify_ckfinite_def)
  next
    case 16
    then have n: "opcode \<notin> binary_opcodes \<union> {IL_OP_DUP, IL_OP_POP, IL_OP_NEG, IL_OP_NOT, IL_OP_CKFINITE}"
      by (auto simp: opcodes)
    have "\<not> opcode < IL_OP_DUP" using 16 facts(6) by auto
    with n facts(5) one assms(3) show ?case by (auto intro!: conv_well_typed)
  qed (use assms(3) in \<open>auto simp: verify_constant_def enum_value_def\<close>)
qed

section \<open>Code without unsafe operations\<close>

lemma verify_insn_defined:
  assumes "matrix_types stk" "code = op # arg" "map_of opcode_table (unat op) = Some (popped, pushed, sz)" "sz \<le> length code"
  shows "\<exists>v. verify_insn p u maxStack code stk c = Some (v, sz) \<and> well_typed (Some v)"
proof (cases "length stk < popped \<or> length stk - popped + pushed > maxStack")
  case False
  then have "well_typed (verify_switch p u (unat op) arg stk c)" using assms(1,3) by (intro verify_switch_well_typed) auto
  with False assms show ?thesis by (auto simp: verify_insn_def well_typed_def)
qed (use assms in \<open>auto simp: verify_insn_def\<close>)

text \<open>The opcodes of a stretch of code, if it consists of complete instructions of the kinds above.\<close>

function code_opcodes :: "u8 list \<Rightarrow> nat list option" where
  "code_opcodes code =
     (if code = [] then Some []
      else case map_of opcode_table (unat (hd code)) of
          None \<Rightarrow> None
        | Some (popped, pushed, sz) \<Rightarrow>
            if sz = 0 \<or> length code < sz then None
            else map_option (\<lambda>ops. unat (hd code) # ops) (code_opcodes (drop sz code)))"
  by auto
termination
  by (relation "measure length") auto

declare code_opcodes.simps [simp del]

lemma code_opcodes_Cons:
  assumes "code_opcodes (op # arg) = Some ops"
  obtains popped pushed sz rest where "map_of opcode_table (unat op) = Some (popped, pushed, sz)" "0 < sz"
    "sz \<le> length (op # arg)" "code_opcodes (drop sz (op # arg)) = Some rest" "ops = unat op # rest"
  using assms by (auto simp: code_opcodes.simps [of "op # arg"] split: option.splits if_splits)

text \<open>Induction over the instructions of a block that the verifier accepts.\<close>

lemma verify_block_induct [consumes 2, case_names empty insn]:
  assumes "code_opcodes code = Some ops" "verify_block p u maxStack code stk c = Some (Accept stk' c')"
    and empty: "\<And>stk c. P [] [] stk c stk c"
    and insn: "\<And>op arg popped pushed sz ops stk c stk1 c1 stk' c'.
      map_of opcode_table (unat op) = Some (popped, pushed, sz) \<Longrightarrow> sz \<le> length (op # arg) \<Longrightarrow> popped \<le> length stk \<Longrightarrow>
      verify_switch p u (unat op) arg stk c = Some (Accept stk1 c1) \<Longrightarrow> P (drop sz (op # arg)) ops stk1 c1 stk' c' \<Longrightarrow>
      P (op # arg) (unat op # ops) stk c stk' c'"
  shows "P code ops stk c stk' c'"
  using assms(1,2)
proof (induction code arbitrary: ops stk c rule: length_induct)
  case (1 code)
  show ?case
  proof (cases code)
    case Nil
    with 1 empty show ?thesis by (simp add: code_opcodes.simps [of "[]"] verify_block.simps [of p u maxStack "[]"])
  next
    case (Cons op arg)
    with 1(2) obtain popped pushed sz rest where sz: "map_of opcode_table (unat op) = Some (popped, pushed, sz)" "0 < sz"
        "sz \<le> length code" "code_opcodes (drop sz code) = Some rest" "ops = unat op # rest"
      by (auto elim: code_opcodes_Cons)
    from 1(3) Cons obtain stk1 c1 where v: "verify_insn p u maxStack code stk c = Some (Accept stk1 c1, sz)"
        "verify_block p u maxStack (drop sz code) stk1 c1 = Some (Accept stk' c')"
      using sz(1) unfolding verify_block.simps [of p u maxStack code]
      by (auto simp: verify_insn_def Option.bind_eq_Some_conv split: option.splits verdict.splits if_splits prod.splits)
    have "P (drop sz code) rest stk1 c1 stk' c'" using 1(1) [rule_format, of "drop sz code" rest stk1 c1] sz v(2) Cons by simp
    moreover have "verify_switch p u (unat op) arg stk c = Some (Accept stk1 c1)"
      using v(1) Cons by (auto elim: verify_insn_Accept)
    moreover have "popped \<le> length stk"
      using v(1) Cons sz(1) by (auto simp: verify_insn_def split: if_splits)
    ultimately show ?thesis using insn [OF sz(1)] sz(3,5) Cons by blast
  qed
qed

lemma verify_block_well_typed:
  assumes "code_opcodes code = Some ops" "matrix_types stk"
  shows "well_typed (verify_block p u maxStack code stk c)"
  using assms
proof (induction code arbitrary: ops stk c rule: length_induct)
  case (1 code)
  show ?case
  proof (cases code)
    case Nil
    then show ?thesis using 1 by (simp add: verify_block.simps [of p u maxStack "[]"])
  next
    case (Cons op arg)
    with 1(2) obtain popped pushed sz rest where sz: "map_of opcode_table (unat op) = Some (popped, pushed, sz)" "0 < sz"
        "sz \<le> length code" "code_opcodes (drop sz code) = Some rest" "ops = unat op # rest"
      by (auto elim: code_opcodes_Cons)
    obtain v where v: "verify_insn p u maxStack code stk c = Some (v, sz)" "well_typed (Some v)"
      using verify_insn_defined [OF 1(3) Cons sz(1,3)] by blast
    have IH: "well_typed (verify_block p u maxStack (drop sz code) stk' c')" if "matrix_types stk'" for stk' c'
      using 1(1) sz that Cons by simp
    show ?thesis
      using v IH sz(2) Cons unfolding verify_block.simps [of p u maxStack code] by (cases v) auto
  qed
qed

lemma verify_switch_conv:
  assumes "map_of conv_results opcode = Some r"
  shows "verify_switch p u opcode arg stk c = VERIFY_CONV p u opcode r stk c"
proof -
  have "opcode \<ge> 0x67" "opcode \<notin> integer_opcodes" "opcode \<noteq> IL_OP_CKFINITE"
    using not_conv [of opcode] assms by (force simp: not_le)+
  with assms show ?thesis by (simp add: verify_switch_def integer_opcodes_def)
qed

text \<open>Safe code has a height error only at the four checked conversions.\<close>

lemma safe_error_conv:
  assumes "verify_switch p False opcode arg stk c = Some (Accept stk' c')" "matrix_types stk"
  shows "height_error p opcode (map engineType stk) = 0 \<or>
    (\<exists>i rest. stk = i # rest \<and> height_error p opcode (map engineType stk) = conv_error p opcode (engineType i))"
proof -
  consider "opcode \<in> {IL_OP_SUB, IL_OP_SUB_OVF_UN}" | "opcode \<in> {IL_OP_DUP, IL_OP_POP}"
    | r where "opcode \<notin> {IL_OP_SUB, IL_OP_SUB_OVF_UN, IL_OP_DUP, IL_OP_POP}" "map_of conv_results opcode = Some r"
    | "opcode \<notin> {IL_OP_SUB, IL_OP_SUB_OVF_UN, IL_OP_DUP, IL_OP_POP}" "map_of conv_results opcode = None" by fastforce
  then show ?thesis
  proof cases
    case 1
    then have "verify_switch p False opcode arg stk c = verify_sub p False opcode stk c" by (auto simp: verify_switch_def)
    with assms(1) 1 numeric_lookup show ?thesis
      by (fastforce simp: verify_sub_def Option.bind_eq_Some_conv height_error_def same_class_def split: list.splits if_splits)
  next
    case 2
    with assms(2) not_conv [of opcode] show ?thesis by (cases stk) (auto simp: height_error_def valid_enum)
  next
    case (3 r)
    then have "verify_switch p False opcode arg stk c = VERIFY_CONV p False opcode r stk c" by (intro verify_switch_conv)
    with assms(1) obtain i rest where i: "stk = i # rest" "enum_value (engineType i) \<le> 3"
      by (auto simp: VERIFY_CONV_def enum_value_def [of T_F] split: list.splits if_splits)
    then have "engineType i \<notin> {T_M, ILEngineType_O, T_T}" by (auto simp: enum_value_def)
    with 3 i show ?thesis by (auto simp: height_error_def)
  qed (simp add: height_error_zero)
qed

lemma safe_error:
  assumes "verify_switch p False opcode arg stk c = Some (Accept stk' c')" "matrix_types stk"
    "opcode \<in> {IL_OP_CONV_OVF_I8, IL_OP_CONV_OVF_U8, IL_OP_CONV_OVF_I, IL_OP_CONV_OVF_U} \<longrightarrow> words_per_long p = 1"
  shows "height_error p opcode (map engineType stk) = 0"
  using safe_error_conv [OF assms(1,2)] assms(3) by (auto simp: conv_error_def)

section \<open>Properties\<close>

text \<open>C17: after an instruction that the verifier accepts, the coder's base height is unchanged, and the
  difference between its height and the size of the inferred types has moved by exactly the listed
  error of the instruction, which is zero except for a difference of pointers, \<open>dup\<close> and \<open>pop\<close> of a
  controlled-mutability pointer, the conversion of a pointer to a wider integer and four checked conversions.\<close>

theorem accepted_height_exact:
  assumes "verify_insn p unsafeAllowed maxStack (op # arg) stk c = Some (Accept stk' c', sz)"
  shows "minHeight c' = minHeight c \<and>
    height c' - int (ComputeStackSize p stk') =
      height c - int (ComputeStackSize p stk) + height_error p (unat op) (map engineType stk)"
  using assms verify_switch_off_by [of p "unat op" stk c unsafeAllowed arg]
  by (auto elim!: verify_insn_Accept simp: off_by_def)

text \<open>C18: a stretch of complete instructions, verified from a stack of the eight types that the matrices know,
  never makes the verifier leave a matrix: it is rejected, or accepted with a stack of such types.  If it is
  accepted as safe code, then the coder's height stays the size of the inferred stack above the base height,
  on condition that a 64-bit integer takes one word or the code holds none of \<open>conv.ovf.i8\<close>, \<open>conv.ovf.u8\<close>,
  \<open>conv.ovf.i\<close> and \<open>conv.ovf.u\<close>, whose heights the coder gets wrong.\<close>

theorem verified_block_typed:
  assumes "code_opcodes code = Some ops" "matrix_types stk"
  shows "verify_block p unsafeAllowed maxStack code stk c = Some Reject \<or>
    (\<exists>stk' c'. verify_block p unsafeAllowed maxStack code stk c = Some (Accept stk' c') \<and> matrix_types stk' \<and>
       (\<not> unsafeAllowed \<longrightarrow>
        words_per_long p = 1 \<or> set ops \<inter> {IL_OP_CONV_OVF_I8, IL_OP_CONV_OVF_U8, IL_OP_CONV_OVF_I, IL_OP_CONV_OVF_U} = {} \<longrightarrow>
        height_ok p stk c \<longrightarrow> height_ok p stk' c'))"
proof (cases "\<exists>stk' c'. verify_block p unsafeAllowed maxStack code stk c = Some (Accept stk' c')")
  case True
  then obtain stk' c' where v: "verify_block p unsafeAllowed maxStack code stk c = Some (Accept stk' c')" by blast
  have "matrix_types stk \<longrightarrow> \<not> unsafeAllowed \<longrightarrow>
      words_per_long p = 1 \<or> set ops \<inter> {IL_OP_CONV_OVF_I8, IL_OP_CONV_OVF_U8, IL_OP_CONV_OVF_I, IL_OP_CONV_OVF_U} = {} \<longrightarrow>
      height_ok p stk c \<longrightarrow> height_ok p stk' c'"
    using assms(1) v
  proof (induction rule: verify_block_induct)
    case (insn op arg popped pushed sz ops stk c stk1 c1 stk' c')
    have t: "matrix_types stk1" if "matrix_types stk"
      using verify_switch_well_typed [OF insn(1,3) that, of p unsafeAllowed arg c] insn(4) by simp
    have "height_ok p stk1 c1" if a: "\<not> unsafeAllowed" "matrix_types stk" "height_ok p stk c"
      "words_per_long p = 1 \<or> unat op \<notin> {IL_OP_CONV_OVF_I8, IL_OP_CONV_OVF_U8, IL_OP_CONV_OVF_I, IL_OP_CONV_OVF_U}"
    proof -
      have "height_error p (unat op) (map engineType stk) = 0"
        using insn(4) a by (intro safe_error [of p _ arg stk c stk1 c1]) auto
      with verify_switch_off_by [of p "unat op" stk c unsafeAllowed arg] insn(4) a(3) show ?thesis
        by (simp add: off_by_def height_ok_def)
    qed
    with t insn(5) show ?case by auto
  qed simp
  with v verify_block_well_typed [OF assms, of p unsafeAllowed maxStack c] assms(2) show ?thesis by auto
next
  case False
  with verify_block_well_typed [OF assms, of p unsafeAllowed maxStack c] show ?thesis by (auto simp: well_typed_def)
qed

abbreviation i386 :: platform where
  "i386 \<equiv> \<lparr>native_int64 = False, words_per_long = 2, words_per_native_float = 3, words_per_typed_ref = 2, type_words = \<lambda>t. t\<rparr>"

abbreviation fresh_coder :: ILCVMCoder where
  "fresh_coder \<equiv> \<lparr>out = [], limit = 100, junk = 0, height = 4, minHeight = 4, maxHeight = 4\<rparr>"

theorem accepted_height_exact_witness:
  "verify_insn i386 True 4 [0x59] [typed T_M, typed T_M] (fresh_coder\<lparr>height := 6\<rparr>) =
     Some (Accept [typed T_I] (fresh_coder\<lparr>out := [opc_FSUB], height := 3\<rparr>), 1) \<and>
   3 - int (ComputeStackSize i386 [typed T_I]) = 6 - int (ComputeStackSize i386 [typed T_M, typed T_M]) + height_error i386 0x59 [T_M, T_M]"
proof -
  have v: "verify_insn i386 True 4 [0x59] [typed T_M, typed T_M] (fresh_coder\<lparr>height := 6\<rparr>) =
     Some (Accept [typed T_I] (fresh_coder\<lparr>out := [opc_FSUB], height := 3\<rparr>), 1)" by code_simp
  from accepted_height_exact [OF v] v show ?thesis by simp
qed

theorem verified_block_typed_witness:
  "verify_block i386 False 3 [0x1F, 0xFF, 0x6A, 0x21, 1, 0, 0, 0, 0, 0, 0, 0, 0x58, 0x69] [] fresh_coder =
     Some (Accept [typed T_I4] (fresh_coder\<lparr>
       out := [opc_LDC_I4_S, 0xFF, opc_I2L, opc_LDC_I8, 1, 0, 0, 0, 0, 0, 0, 0, opc_LADD, opc_L2I], height := 5, maxHeight := 8\<rparr>)) \<and>
   height_ok i386 [typed T_I4] (fresh_coder\<lparr>
       out := [opc_LDC_I4_S, 0xFF, opc_I2L, opc_LDC_I8, 1, 0, 0, 0, 0, 0, 0, 0, opc_LADD, opc_L2I], height := 5, maxHeight := 8\<rparr>)"
proof -
  let ?code = "[0x1F, 0xFF, 0x6A, 0x21, 1, 0, 0, 0, 0, 0, 0, 0, 0x58, 0x69] :: u8 list"
  have o: "code_opcodes ?code = Some [0x1F, 0x6A, 0x21, 0x58, 0x69]" by code_simp
  have v: "verify_block i386 False 3 ?code [] fresh_coder =
     Some (Accept [typed T_I4] (fresh_coder\<lparr>
       out := [opc_LDC_I4_S, 0xFF, opc_I2L, opc_LDC_I8, 1, 0, 0, 0, 0, 0, 0, 0, opc_LADD, opc_L2I], height := 5, maxHeight := 8\<rparr>))"
    by code_simp
  have "height_ok i386 [] fresh_coder" by (simp add: height_ok_def)
  with verified_block_typed [OF o, of "[]" i386 False 3 fresh_coder] v show ?thesis by simp
qed

end
