(* ===== verification/Machine.thy ===== *)
theory Machine
  imports Prelude
begin

text \<open>
  The state of the Converted Virtual Machine (\<^verbatim>\<open>engine/cvm.c\<close>) and the macros its
  instruction handlers are written with: the local variables \<^verbatim>\<open>pc\<close>, \<^verbatim>\<open>stacktop\<close>,
  \<^verbatim>\<open>frame\<close> and \<^verbatim>\<open>stackmax\<close> of the interpreter loop, the evaluation stack of
  \<^verbatim>\<open>CVMWord\<close>s, the code of the method, and the instruction formats of
  \<^verbatim>\<open>engine/cvm_format.h\<close> for byte code.  The configuration is the 32-bit little-endian
  one: a \<^verbatim>\<open>CVMWord\<close> is a 32-bit word, \<^verbatim>\<open>CVM_WORDS_PER_LONG\<close> is 2, and the null,
  division and overflow checks are explicit tests.

  Pointers into the stack and the code are indices (integers, so that they can leave
  the array); every access outside an array is \<^term>\<open>None\<close>.  A handler returns the next
  state, or the exception it jumps to with the state at that point.
\<close>

section \<open>State\<close>

record cvm_state =
  pc :: int
  stacktop :: int
  frame :: int
  stackmax :: int
  stack :: "u32 list"
  code :: "u8 list"
  stack_base :: u32
  code_base :: u32

text \<open>A machine at the start of a method, used where a concrete one is needed.\<close>

definition machine :: "u32 list \<Rightarrow> int \<Rightarrow> u8 list \<Rightarrow> cvm_state" where
  "machine st t c = \<lparr>pc = 0, stacktop = t, frame = 0, stackmax = int (length st), stack = st,
     code = c, stack_base = 0x1000, code_base = 0x8000\<rparr>"

datatype exn =
    OverflowException
  | ArithmeticException
  | DivideByZeroException
  | NullReferenceException
  | StackOverflowException
  | NotImplementedException

datatype outcome = Next cvm_state | Throw exn cvm_state

type_synonym handler = "cvm_state \<Rightarrow> outcome option"

section \<open>Stack access\<close>

definition word_at :: "int \<Rightarrow> cvm_state \<Rightarrow> u32 option" where
  "word_at p s = (if 0 \<le> p \<and> p < int (length (stack s)) then Some (stack s ! nat p) else None)"

definition set_word :: "int \<Rightarrow> u32 \<Rightarrow> cvm_state \<Rightarrow> cvm_state option" where
  "set_word p v s =
     (if 0 \<le> p \<and> p < int (length (stack s)) then Some (s\<lparr>stack := (stack s)[nat p := v]\<rparr>) else None)"

text \<open>The position \<^verbatim>\<open>&(stacktop[k])\<close>, and \<^verbatim>\<open>stacktop[k]\<close> as a value and as a target.\<close>

definition tos_addr :: "int \<Rightarrow> cvm_state \<Rightarrow> int" where
  "tos_addr k s = stacktop s + k"

abbreviation tos :: "int \<Rightarrow> cvm_state \<Rightarrow> u32 option" where
  "tos k s \<equiv> word_at (tos_addr k s) s"

abbreviation set_tos :: "int \<Rightarrow> u32 \<Rightarrow> cvm_state \<Rightarrow> cvm_state option" where
  "set_tos k v s \<equiv> set_word (tos_addr k s) v s"

text \<open>\<^verbatim>\<open>ReadLong\<close>, \<^verbatim>\<open>WriteLong\<close> and their unsigned forms: a 64-bit value occupies two
  words, the low one first.\<close>

definition long_of :: "u32 \<Rightarrow> u32 \<Rightarrow> u64" where
  "long_of lo hi = ucast lo OR push_bit 32 (ucast hi)"

definition lo32 :: "u64 \<Rightarrow> u32" where "lo32 x = ucast x"
definition hi32 :: "u64 \<Rightarrow> u32" where "hi32 x = ucast (drop_bit 32 x)"

definition ReadLong :: "int \<Rightarrow> cvm_state \<Rightarrow> u64 option" where
  "ReadLong p s = do { lo \<leftarrow> word_at p s; hi \<leftarrow> word_at (p + 1) s; Some (long_of lo hi) }"

definition WriteLong :: "int \<Rightarrow> u64 \<Rightarrow> cvm_state \<Rightarrow> cvm_state option" where
  "WriteLong p v s = do { s \<leftarrow> set_word p (lo32 v) s; set_word (p + 1) (hi32 v) s }"

text \<open>\<^verbatim>\<open>ReadULong\<close> and \<^verbatim>\<open>WriteULong\<close> differ from the signed forms in the C type only.\<close>

definition ReadULong :: "int \<Rightarrow> cvm_state \<Rightarrow> u64 option" where
  "ReadULong p s = do { lo \<leftarrow> word_at p s; hi \<leftarrow> word_at (p + 1) s; Some (long_of lo hi) }"

definition WriteULong :: "int \<Rightarrow> u64 \<Rightarrow> cvm_state \<Rightarrow> cvm_state option" where
  "WriteULong p v s = do { s \<leftarrow> set_word p (lo32 v) s; set_word (p + 1) (hi32 v) s }"

text \<open>\<^verbatim>\<open>IL_MEMCPY\<close>, \<^verbatim>\<open>IL_MEMMOVE\<close> and \<^verbatim>\<open>IL_MEMZERO\<close> on whole stack words.
  \<^verbatim>\<open>memcpy\<close> is undefined on overlapping ranges.\<close>

definition move_words :: "int \<Rightarrow> int \<Rightarrow> nat \<Rightarrow> cvm_state \<Rightarrow> cvm_state option" where
  "move_words dst src n s =
     (if 0 \<le> src \<and> src + int n \<le> int (length (stack s)) \<and> 0 \<le> dst \<and> dst + int n \<le> int (length (stack s))
      then Some (s\<lparr>stack := take (nat dst) (stack s) @ take n (drop (nat src) (stack s)) @
                            drop (nat dst + n) (stack s)\<rparr>)
      else None)"

definition copy_words :: "int \<Rightarrow> int \<Rightarrow> nat \<Rightarrow> cvm_state \<Rightarrow> cvm_state option" where
  "copy_words dst src n s =
     (if dst + int n \<le> src \<or> src + int n \<le> dst then move_words dst src n s else None)"

definition zero_words :: "int \<Rightarrow> nat \<Rightarrow> cvm_state \<Rightarrow> cvm_state option" where
  "zero_words dst n s =
     (if 0 \<le> dst \<and> dst + int n \<le> int (length (stack s))
      then Some (s\<lparr>stack := take (nat dst) (stack s) @ replicate n 0 @ drop (nat dst + n) (stack s)\<rparr>)
      else None)"

section \<open>Instruction arguments\<close>

definition code_at :: "int \<Rightarrow> cvm_state \<Rightarrow> u8 option" where
  "code_at p s = (if 0 \<le> p \<and> p < int (length (code s)) then Some (code s ! nat p) else None)"

definition IL_READ_UINT32 :: "int \<Rightarrow> cvm_state \<Rightarrow> u32 option" where
  "IL_READ_UINT32 p s = do {
     b0 \<leftarrow> code_at p s;
     b1 \<leftarrow> code_at (p + 1) s;
     b2 \<leftarrow> code_at (p + 2) s;
     b3 \<leftarrow> code_at (p + 3) s;
     Some (ucast b0 OR push_bit 8 (ucast b1) OR push_bit 16 (ucast b2) OR push_bit 24 (ucast b3))
   }"

definition IL_READ_INT64 :: "int \<Rightarrow> cvm_state \<Rightarrow> u64 option" where
  "IL_READ_INT64 p s = do {
     lo \<leftarrow> IL_READ_UINT32 p s;
     hi \<leftarrow> IL_READ_UINT32 (p + 4) s;
     Some (long_of lo hi)
   }"

definition CVM_ARG_SUB_OPCODE :: "cvm_state \<Rightarrow> u8 option" where
  "CVM_ARG_SUB_OPCODE s = code_at (pc s + 1) s"

definition CVM_ARG_BYTE :: "cvm_state \<Rightarrow> u32 option" where
  "CVM_ARG_BYTE s = map_option ucast (code_at (pc s + 1) s)"

definition CVM_ARG_SBYTE :: "cvm_state \<Rightarrow> u32 option" where
  "CVM_ARG_SBYTE s = map_option scast (code_at (pc s + 1) s)"

definition CVM_ARG_BYTE2 :: "cvm_state \<Rightarrow> u32 option" where
  "CVM_ARG_BYTE2 s = map_option ucast (code_at (pc s + 2) s)"

definition CVM_ARG_WORD :: "cvm_state \<Rightarrow> u32 option" where
  "CVM_ARG_WORD s = IL_READ_UINT32 (pc s + 1) s"

definition CVM_ARG_LONG :: "cvm_state \<Rightarrow> u64 option" where
  "CVM_ARG_LONG s = IL_READ_INT64 (pc s + 1) s"

abbreviation CVM_ARG_WIDE_SMALL :: "cvm_state \<Rightarrow> u32 option" where
  "CVM_ARG_WIDE_SMALL \<equiv> CVM_ARG_BYTE"

definition CVM_ARG_WIDE_LARGE :: "cvm_state \<Rightarrow> u32 option" where
  "CVM_ARG_WIDE_LARGE s = IL_READ_UINT32 (pc s + 2) s"

abbreviation CVM_ARG_DWIDE1_SMALL :: "cvm_state \<Rightarrow> u32 option" where
  "CVM_ARG_DWIDE1_SMALL \<equiv> CVM_ARG_BYTE"

abbreviation CVM_ARG_DWIDE2_SMALL :: "cvm_state \<Rightarrow> u32 option" where
  "CVM_ARG_DWIDE2_SMALL \<equiv> CVM_ARG_BYTE2"

abbreviation CVM_ARG_DWIDE1_LARGE :: "cvm_state \<Rightarrow> u32 option" where
  "CVM_ARG_DWIDE1_LARGE \<equiv> CVM_ARG_WIDE_LARGE"

definition CVM_ARG_DWIDE2_LARGE :: "cvm_state \<Rightarrow> u32 option" where
  "CVM_ARG_DWIDE2_LARGE s = IL_READ_UINT32 (pc s + 6) s"

definition CVMP_ARG_WORD :: "cvm_state \<Rightarrow> u32 option" where
  "CVMP_ARG_WORD s = IL_READ_UINT32 (pc s + 2) s"

definition CVM_ARG_BRANCH_SHORT :: "cvm_state \<Rightarrow> int option" where
  "CVM_ARG_BRANCH_SHORT s = map_option (\<lambda>d. pc s + sint d) (CVM_ARG_SBYTE s)"

definition CVM_ARG_BRANCH_LONG :: "cvm_state \<Rightarrow> int option" where
  "CVM_ARG_BRANCH_LONG s = map_option (\<lambda>d. pc s + sint d) (IL_READ_UINT32 (pc s + 2) s)"

definition CVM_ARG_JSR_RETURN :: "cvm_state \<Rightarrow> int" where
  "CVM_ARG_JSR_RETURN s = pc s + 6"

definition CVM_ARG_SWITCH_LIMIT :: "cvm_state \<Rightarrow> u32 option" where
  "CVM_ARG_SWITCH_LIMIT s = IL_READ_UINT32 (pc s + 1) s"

definition CVM_ARG_SWITCH_DEFAULT :: "cvm_state \<Rightarrow> int option" where
  "CVM_ARG_SWITCH_DEFAULT s = map_option (\<lambda>d. pc s + sint d) (IL_READ_UINT32 (pc s + 5) s)"

text \<open>The table index is scaled in unsigned 32-bit arithmetic.\<close>

definition CVM_ARG_SWITCH_DEST :: "u32 \<Rightarrow> cvm_state \<Rightarrow> int option" where
  "CVM_ARG_SWITCH_DEST n s =
     map_option (\<lambda>d. pc s + sint d) (IL_READ_UINT32 (pc s + 9 + uint (n * 4)) s)"

abbreviation (input) CVM_LEN_NONE :: int where "CVM_LEN_NONE \<equiv> 1"
abbreviation (input) CVM_LEN_BYTE :: int where "CVM_LEN_BYTE \<equiv> 2"
abbreviation (input) CVM_LEN_WORD :: int where "CVM_LEN_WORD \<equiv> 5"
abbreviation (input) CVM_LEN_WIDE_SMALL :: int where "CVM_LEN_WIDE_SMALL \<equiv> 2"
abbreviation (input) CVM_LEN_WIDE_LARGE :: int where "CVM_LEN_WIDE_LARGE \<equiv> 6"
abbreviation (input) CVM_LEN_DWIDE_SMALL :: int where "CVM_LEN_DWIDE_SMALL \<equiv> 3"
abbreviation (input) CVM_LEN_DWIDE_LARGE :: int where "CVM_LEN_DWIDE_LARGE \<equiv> 10"
abbreviation (input) CVM_LEN_LONG :: int where "CVM_LEN_LONG \<equiv> 9"
abbreviation (input) CVM_LEN_BRANCH :: int where "CVM_LEN_BRANCH \<equiv> 6"
abbreviation (input) CVMP_LEN_NONE :: int where "CVMP_LEN_NONE \<equiv> 2"
abbreviation (input) CVMP_LEN_WORD :: int where "CVMP_LEN_WORD \<equiv> 6"

text \<open>The two macros that end most handlers, and a taken branch.\<close>

definition MODIFY_PC_AND_STACK :: "int \<Rightarrow> int \<Rightarrow> cvm_state \<Rightarrow> cvm_state" where
  "MODIFY_PC_AND_STACK pcmod stkmod s = s\<lparr>pc := pc s + pcmod, stacktop := stacktop s + stkmod\<rparr>"

definition next_ins :: "int \<Rightarrow> int \<Rightarrow> handler" where
  "next_ins pcmod stkmod s = Some (Next (MODIFY_PC_AND_STACK pcmod stkmod s))"

definition jump :: "int \<Rightarrow> int \<Rightarrow> handler" where
  "jump dest stkmod s = Some (Next (s\<lparr>pc := dest, stacktop := stacktop s + stkmod\<rparr>))"

definition throw :: "exn \<Rightarrow> handler" where
  "throw e s = Some (Throw e s)"

section \<open>Splitting the stack\<close>

text \<open>\<open>split_at s base ws spare\<close>: the words \<open>ws\<close> are the topmost ones of the evaluation
  stack, lowest first as the instruction reference writes them; \<open>base\<close> lies below (locals,
  caller frames) and \<open>spare\<close> is the unused rest of the stack memory.\<close>

definition split_at :: "cvm_state \<Rightarrow> u32 list \<Rightarrow> u32 list \<Rightarrow> u32 list \<Rightarrow> bool" where
  "split_at s base ws spare \<longleftrightarrow>
     stack s = base @ ws @ spare \<and> stacktop s = int (length base) + int (length ws)"

lemma split_at_length: "split_at s base ws spare \<Longrightarrow> length (stack s) = length base + length ws + length spare"
  by (simp add: split_at_def)

lemma split_at_exists:
  assumes "int n \<le> stacktop s" and "stacktop s \<le> int (length (stack s))"
  obtains base ws spare where "split_at s base ws spare" and "length ws = n"
proof -
  from assms(1) have "0 \<le> stacktop s" by linarith
  then obtain t where t: "stacktop s = int t" by (rule nonneg_int_cases)
  with assms have l: "n \<le> t" "t \<le> length (stack s)" by simp_all
  let ?base = "take (t - n) (stack s)" and ?ws = "drop (t - n) (take t (stack s))"
  have "?base = take (t - n) (take t (stack s))"
    by (simp add: min_def)
  then have "?base @ ?ws = take t (stack s)"
    by (simp only: append_take_drop_id)
  then have "stack s = (?base @ ?ws) @ drop t (stack s)"
    by (simp only: append_take_drop_id)
  moreover have "stacktop s = int (length ?base) + int (length ?ws)" and "length ?ws = n"
    using l t by simp_all
  ultimately show thesis
    using that [of ?base ?ws "drop t (stack s)"] by (simp only: split_at_def append_assoc)
qed

lemma word_at_int: "j < length (stack s) \<Longrightarrow> word_at (int j) s = Some (stack s ! j)"
  by (simp add: word_at_def)

lemma set_word_int: "j < length (stack s) \<Longrightarrow> set_word (int j) v s = Some (s\<lparr>stack := (stack s)[j := v]\<rparr>)"
  by (simp add: set_word_def)

lemma tos_addr_update [simp]:
  "tos_addr k (s\<lparr>stack := st\<rparr>) = tos_addr k s" "tos_addr k (s\<lparr>pc := p\<rparr>) = tos_addr k s"
  by (simp_all add: tos_addr_def)

lemma tos_addr_Suc: "tos_addr k s + 1 = tos_addr (k + 1) s"
  by (simp add: tos_addr_def)

lemma word_at_split:
  assumes "split_at s base ws spare" and "- int (length ws) \<le> k" and "k < 0"
  shows "word_at (tos_addr k s) s = Some (ws ! nat (int (length ws) + k))"
proof -
  define i where "i = nat (int (length ws) + k)"
  have i: "int (length ws) + k = int i" and l: "i < length ws"
    using assms(2,3) by (simp_all add: i_def)
  then have p: "tos_addr k s = int (length base + i)"
    using assms(1) by (simp add: split_at_def tos_addr_def)
  from assms(1) l show ?thesis
    unfolding p i using word_at_int [of "length base + i" s] by (simp add: split_at_def nth_append)
qed

lemma set_word_split:
  assumes "split_at s base ws spare" and "- int (length ws) \<le> k" and "k < 0"
  shows "set_word (tos_addr k s) v s =
    Some (s\<lparr>stack := base @ ws[nat (int (length ws) + k) := v] @ spare\<rparr>)"
proof -
  define i where "i = nat (int (length ws) + k)"
  have i: "int (length ws) + k = int i" and l: "i < length ws"
    using assms(2,3) by (simp_all add: i_def)
  then have p: "tos_addr k s = int (length base + i)"
    using assms(1) by (simp add: split_at_def tos_addr_def)
  from assms(1) l show ?thesis
    unfolding p i using set_word_int [of "length base + i" s v]
    by (simp add: split_at_def list_update_append)
qed

lemma set_word_spare:
  assumes "split_at s base ws spare" and "0 \<le> k" and "k < int (length spare)"
  shows "set_word (tos_addr k s) v s = Some (s\<lparr>stack := base @ ws @ spare[nat k := v]\<rparr>)"
proof -
  define i where "i = nat k"
  have i: "k = int i" and l: "i < length spare"
    using assms(2,3) by (simp_all add: i_def)
  then have p: "tos_addr (int i) s = int (length base + length ws + i)"
    using assms(1) by (simp add: split_at_def tos_addr_def)
  from assms(1) l show ?thesis
    unfolding p i using set_word_int [of "length base + length ws + i" s v]
    by (simp add: split_at_def list_update_append)
qed

lemma split_at_update [simp]:
  "split_at (s\<lparr>stack := base @ ws @ spare\<rparr>) base ws spare \<longleftrightarrow>
     stacktop s = int (length base) + int (length ws)"
  by (simp add: split_at_def)

lemma split_at_top: "split_at s base ws spare \<Longrightarrow> stacktop s = int (length base) + int (length ws)"
  by (simp add: split_at_def)

section \<open>The contract of an instruction\<close>

text \<open>
  The instruction reference in the comments of \<^verbatim>\<open>engine/cvm_*.c\<close> describes an instruction by
  the words it takes off the stack, the words it leaves there and the exceptions it raises:
  \<open>performs h len n f\<close> says that handler \<open>h\<close>, given \<open>n\<close> operand words, leaves \<open>f ws\<close> in their
  place and advances by \<open>len\<close> bytes, or raises the exception \<open>f ws\<close> names with the
  program counter still at the instruction.  Nothing below the operands changes, and neither
  do the frame pointer and the size of the stack.
\<close>

definition performs :: "handler \<Rightarrow> int \<Rightarrow> nat \<Rightarrow> (u32 list \<Rightarrow> exn + u32 list) \<Rightarrow> bool" where
  "performs h len n f \<longleftrightarrow>
     (\<forall>s base ws spare. split_at s base ws spare \<longrightarrow> length ws = n \<longrightarrow>
        (case f ws of
           Inl e \<Rightarrow> (\<exists>ws'. length ws' = n \<and> h s = Some (Throw e (s\<lparr>stack := base @ ws' @ spare\<rparr>)))
         | Inr out \<Rightarrow> length out \<le> n + length spare \<longrightarrow>
             (\<exists>spare'. length out + length spare' = n + length spare \<and>
                h s = Some (Next (s\<lparr>pc := pc s + len, stacktop := int (length base) + int (length out),
                                    stack := base @ out @ spare'\<rparr>)))))"

text \<open>Operand words of the specifications: one or two \<open>int32\<close> operands, one or two
  \<open>int64\<close> operands, and an \<open>int64\<close> with a shift count.\<close>

definition spec1 :: "(u32 \<Rightarrow> exn + u32) \<Rightarrow> u32 list \<Rightarrow> exn + u32 list" where
  "spec1 f ws = map_sum id (\<lambda>r. [r]) (f (ws ! 0))"

definition spec2 :: "(u32 \<Rightarrow> u32 \<Rightarrow> exn + u32) \<Rightarrow> u32 list \<Rightarrow> exn + u32 list" where
  "spec2 f ws = map_sum id (\<lambda>r. [r]) (f (ws ! 0) (ws ! 1))"

definition lspec1 :: "(u64 \<Rightarrow> exn + u64) \<Rightarrow> u32 list \<Rightarrow> exn + u32 list" where
  "lspec1 f ws = map_sum id (\<lambda>r. [lo32 r, hi32 r]) (f (long_of (ws ! 0) (ws ! 1)))"

definition lspec2 :: "(u64 \<Rightarrow> u64 \<Rightarrow> exn + u64) \<Rightarrow> u32 list \<Rightarrow> exn + u32 list" where
  "lspec2 f ws = map_sum id (\<lambda>r. [lo32 r, hi32 r])
     (f (long_of (ws ! 0) (ws ! 1)) (long_of (ws ! 2) (ws ! 3)))"

definition lspec_shift :: "(u64 \<Rightarrow> u32 \<Rightarrow> u64) \<Rightarrow> u32 list \<Rightarrow> exn + u32 list" where
  "lspec_shift f ws = (let r = f (long_of (ws ! 0) (ws ! 1)) (ws ! 2) in Inr [lo32 r, hi32 r])"

definition lspec_cmp :: "(u64 \<Rightarrow> u64 \<Rightarrow> u32) \<Rightarrow> u32 list \<Rightarrow> exn + u32 list" where
  "lspec_cmp f ws = Inr [f (long_of (ws ! 0) (ws ! 1)) (long_of (ws ! 2) (ws ! 3))]"

lemmas spec_defs = spec1_def spec2_def lspec1_def lspec2_def lspec_shift_def lspec_cmp_def

section \<open>Shapes of handlers\<close>

lemma length_1_split: "length ws = 1 \<longleftrightarrow> (\<exists>a. ws = [a])"
  by (cases ws) auto

lemma length_2_split: "length ws = 2 \<longleftrightarrow> (\<exists>a b. ws = [a, b])"
  by (auto simp: length_Suc_conv numeral_2_eq_2)

lemma length_3_split: "length ws = 3 \<longleftrightarrow> (\<exists>a b c. ws = [a, b, c])"
  by (auto simp: length_Suc_conv numeral_3_eq_3)

lemma length_4_split: "length ws = 4 \<longleftrightarrow> (\<exists>a b c d. ws = [a, b, c, d])"
  by (auto simp: length_Suc_conv eval_nat_numeral)

lemma long_of_lo_hi [simp]: "lo32 (long_of lo hi) = lo" "hi32 (long_of lo hi) = hi"
  "long_of (lo32 x) (hi32 x) = x"
  by (rule word32_eqI, simp add: long_of_def lo32_def hi32_def blast_simps)+
    (rule word64_eqI, simp add: long_of_def lo32_def hi32_def blast_simps)

text \<open>What the handlers find in a split stack: one to four operand words.\<close>

lemma tos_split1:
  assumes "split_at s base [a] spare"
  shows "tos (-1) s = Some a" and "set_tos (-1) v s = Some (s\<lparr>stack := base @ [v] @ spare\<rparr>)"
  using word_at_split [OF assms, of "-1"] set_word_split [OF assms, of "-1"] by simp_all

lemma tos_split2:
  assumes "split_at s base [a, b] spare"
  shows "tos (-2) s = Some a" and "tos (-1) s = Some b"
    and "set_tos (-2) v s = Some (s\<lparr>stack := base @ [v, b] @ spare\<rparr>)"
    and "set_tos (-1) v s = Some (s\<lparr>stack := base @ [a, v] @ spare\<rparr>)"
  using word_at_split [OF assms, of "-1"] word_at_split [OF assms, of "-2"]
    set_word_split [OF assms, of "-1"] set_word_split [OF assms, of "-2"] by simp_all

lemma long_split2:
  assumes "split_at s base [a, b] spare"
  shows "ReadLong (tos_addr (-2) s) s = Some (long_of a b)"
    and "WriteLong (tos_addr (-2) s) v s = Some (s\<lparr>stack := base @ [lo32 v, hi32 v] @ spare\<rparr>)"
proof -
  show "ReadLong (tos_addr (-2) s) s = Some (long_of a b)"
    by (simp add: ReadLong_def tos_addr_Suc tos_split2 [OF assms])
  let ?s = "s\<lparr>stack := base @ [lo32 v, b] @ spare\<rparr>"
  have "split_at ?s base [lo32 v, b] spare"
    using split_at_top [OF assms] unfolding split_at_update by simp
  from tos_split2(4) [OF this, of "hi32 v"]
  show "WriteLong (tos_addr (-2) s) v s = Some (s\<lparr>stack := base @ [lo32 v, hi32 v] @ spare\<rparr>)"
    by (simp add: WriteLong_def tos_addr_Suc tos_split2 [OF assms])
qed

lemma tos_split3:
  assumes "split_at s base [a, b, c] spare"
  shows "tos (-1) s = Some c" and "ReadLong (tos_addr (-3) s) s = Some (long_of a b)"
    and "WriteLong (tos_addr (-3) s) v s = Some (s\<lparr>stack := base @ [lo32 v, hi32 v, c] @ spare\<rparr>)"
proof -
  show "tos (-1) s = Some c" using word_at_split [OF assms, of "-1"] by simp
  show "ReadLong (tos_addr (-3) s) s = Some (long_of a b)"
    using word_at_split [OF assms, of "-2"] word_at_split [OF assms, of "-3"]
    by (simp add: ReadLong_def tos_addr_Suc)
  let ?s = "s\<lparr>stack := base @ [lo32 v, b, c] @ spare\<rparr>"
  have "split_at ?s base [lo32 v, b, c] spare"
    using split_at_top [OF assms] unfolding split_at_update by simp
  from set_word_split [OF this, of "-2" "hi32 v"] set_word_split [OF assms, of "-3" "lo32 v"]
  show "WriteLong (tos_addr (-3) s) v s = Some (s\<lparr>stack := base @ [lo32 v, hi32 v, c] @ spare\<rparr>)"
    by (simp add: WriteLong_def tos_addr_Suc)
qed

lemma long_split4:
  assumes "split_at s base [a, b, c, d] spare"
  shows "ReadLong (tos_addr (-2) s) s = Some (long_of c d)"
    and "ReadLong (tos_addr (-4) s) s = Some (long_of a b)"
    and "WriteLong (tos_addr (-4) s) v s = Some (s\<lparr>stack := base @ [lo32 v, hi32 v, c, d] @ spare\<rparr>)"
    and "set_tos (-4) w s = Some (s\<lparr>stack := base @ [w, b, c, d] @ spare\<rparr>)"
proof -
  show "ReadLong (tos_addr (-2) s) s = Some (long_of c d)" "ReadLong (tos_addr (-4) s) s = Some (long_of a b)"
    using word_at_split [OF assms, of "-1"] word_at_split [OF assms, of "-2"]
      word_at_split [OF assms, of "-3"] word_at_split [OF assms, of "-4"]
    by (simp_all add: ReadLong_def tos_addr_Suc numeral_eq_Suc)
  show "set_tos (-4) w s = Some (s\<lparr>stack := base @ [w, b, c, d] @ spare\<rparr>)" for w
    using set_word_split [OF assms, of "-4"] by simp
  note w = this
  let ?s = "s\<lparr>stack := base @ [lo32 v, b, c, d] @ spare\<rparr>"
  have "split_at ?s base [lo32 v, b, c, d] spare"
    using split_at_top [OF assms] unfolding split_at_update by simp
  from set_word_split [OF this, of "-3" "hi32 v"] w [of "lo32 v"]
  show "WriteLong (tos_addr (-4) s) v s = Some (s\<lparr>stack := base @ [lo32 v, hi32 v, c, d] @ spare\<rparr>)"
    by (simp add: WriteLong_def tos_addr_Suc)
qed

lemma ReadULong_eq [simp]: "ReadULong = ReadLong"
  by (intro ext) (simp add: ReadULong_def ReadLong_def)

lemma WriteULong_eq [simp]: "WriteULong = WriteLong"
  by (intro ext) (simp add: WriteULong_def WriteLong_def)

lemmas run_defs = next_ins_def throw_def MODIFY_PC_AND_STACK_def

end
