(* ===== verification/CvmContract.thy ===== *)
theory CvmContract
  imports Machine
begin

text \<open>
  The interfaces that the instruction handlers share.  \<open>operand_handler\<close> is the contract
  \<^const>\<open>performs\<close> with what follows from it for every instruction: it cannot fault when its
  operands and room for its results are there, and it leaves the rest of the machine alone.
  The other locales describe the shapes in which the handlers of \<^verbatim>\<open>engine/cvm_*.c\<close> are
  written (replace the top word, combine the two top words, the same for two-word
  \<open>int64\<close> operands) and are sublocales of it; the component theories interpret them.
\<close>

section \<open>Well-formed machines\<close>

definition cvm_wf :: "cvm_state \<Rightarrow> bool" where
  "cvm_wf s \<longleftrightarrow> 0 \<le> frame s \<and> frame s \<le> stacktop s \<and> stacktop s \<le> stackmax s \<and>
     stackmax s \<le> int (length (stack s))"

text \<open>The words below position \<open>p\<close>, and everything an ordinary instruction must keep.\<close>

definition same_below :: "int \<Rightarrow> cvm_state \<Rightarrow> cvm_state \<Rightarrow> bool" where
  "same_below p s s' \<longleftrightarrow>
     take (nat p) (stack s') = take (nat p) (stack s) \<and> length (stack s') = length (stack s) \<and>
     frame s' = frame s \<and> stackmax s' = stackmax s \<and> code s' = code s \<and>
     stack_base s' = stack_base s \<and> code_base s' = code_base s"

lemma performs_cases:
  assumes "performs h len n f" and "split_at s base ws spare" and "length ws = n"
  obtains (exn) e ws' where "f ws = Inl e" "length ws' = n" "h s = Some (Throw e (s\<lparr>stack := base @ ws' @ spare\<rparr>))"
  | (result) out spare' where "f ws = Inr out" "length out + length spare' = n + length spare"
      "h s = Some (Next (s\<lparr>pc := pc s + len, stacktop := int (length base) + int (length out),
                           stack := base @ out @ spare'\<rparr>))"
  | (full) out where "f ws = Inr out" "n + length spare < length out"
proof (cases "f ws")
  note c = assms(1) [unfolded performs_def, rule_format, OF assms(2,3)]
  case (Inl e)
  with c obtain ws' where "length ws' = n" "h s = Some (Throw e (s\<lparr>stack := base @ ws' @ spare\<rparr>))" by auto
  with Inl show thesis by (rule exn)
next
  case (Inr out)
  show thesis
  proof (cases "length out \<le> n + length spare")
    case True
    with assms(1) [unfolded performs_def, rule_format, OF assms(2,3)] Inr obtain spare' where "length out + length spare' = n + length spare"
      "h s = Some (Next (s\<lparr>pc := pc s + len, stacktop := int (length base) + int (length out),
         stack := base @ out @ spare'\<rparr>))" by auto
    with Inr show thesis by (rule result)
  next
    case False
    with Inr full show thesis by simp
  qed
qed

lemma performsI:
  assumes "\<And>s base ws spare e. \<lbrakk>split_at s base ws spare; length ws = n; f ws = Inl e\<rbrakk> \<Longrightarrow>
      \<exists>ws'. length ws' = n \<and> h s = Some (Throw e (s\<lparr>stack := base @ ws' @ spare\<rparr>))"
    and "\<And>s base ws spare out. \<lbrakk>split_at s base ws spare; length ws = n; f ws = Inr out;
      length out \<le> n + length spare\<rbrakk> \<Longrightarrow>
      \<exists>spare'. length out + length spare' = n + length spare \<and>
        h s = Some (Next (s\<lparr>pc := pc s + len, stacktop := int (length base) + int (length out),
                            stack := base @ out @ spare'\<rparr>))"
  shows "performs h len n f"
  unfolding performs_def
proof (intro allI impI)
  fix s base ws spare
  assume "split_at s base ws spare" and "length ws = n"
  then show "case f ws of
      Inl e \<Rightarrow> \<exists>ws'. length ws' = n \<and> h s = Some (Throw e (s\<lparr>stack := base @ ws' @ spare\<rparr>))
    | Inr out \<Rightarrow> length out \<le> n + length spare \<longrightarrow> (\<exists>spare'. length out + length spare' = n + length spare \<and>
        h s = Some (Next (s\<lparr>pc := pc s + len, stacktop := int (length base) + int (length out),
          stack := base @ out @ spare'\<rparr>)))"
    using assms [of s base ws spare] by (cases "f ws") simp_all
qed

locale operand_handler =
  fixes h :: handler and len :: int and n :: nat and f :: "u32 list \<Rightarrow> exn + u32 list"
  assumes contract: "performs h len n f"
begin

lemma throw_state:
  assumes "h s = Some (Throw e s')" and "int n \<le> stacktop s" and "stacktop s \<le> int (length (stack s))"
    and "\<And>ws out. \<lbrakk>length ws = n; f ws = Inr out\<rbrakk> \<Longrightarrow> stacktop s - int n + int (length out) \<le> int (length (stack s))"
  shows "pc s' = pc s \<and> stacktop s' = stacktop s \<and> same_below (stacktop s - int n) s s'"
proof -
  obtain base ws spare where sp: "split_at s base ws spare" and n: "length ws = n"
    using split_at_exists assms(2,3) by metis
  from contract sp n show ?thesis
  proof (cases rule: performs_cases)
    case (exn e' ws')
    with assms(1) have "s' = s\<lparr>stack := base @ ws' @ spare\<rparr>" by simp
    with sp n exn(2) show ?thesis by (simp add: same_below_def split_at_def)
  next
    case (result out spare')
    with assms(1) show ?thesis by simp
  next
    case (full out)
    with assms(4) [of ws out] n sp show ?thesis by (simp add: split_at_def)
  qed
qed

lemma next_state:
  assumes "h s = Some (Next s')" and "int n \<le> stacktop s" and "stacktop s \<le> int (length (stack s))"
    and "\<And>ws out. \<lbrakk>length ws = n; f ws = Inr out\<rbrakk> \<Longrightarrow> stacktop s - int n + int (length out) \<le> int (length (stack s))"
  shows "pc s' = pc s + len \<and> same_below (stacktop s - int n) s s' \<and>
    (\<exists>ws out. length ws = n \<and> f ws = Inr out \<and> stacktop s' = stacktop s - int n + int (length out))"
proof -
  obtain base ws spare where sp: "split_at s base ws spare" and n: "length ws = n"
    using split_at_exists assms(2,3) by metis
  from contract sp n show ?thesis
  proof (cases rule: performs_cases)
    case (exn e' ws')
    with assms(1) show ?thesis by simp
  next
    case (result out spare')
    with assms(1) have "s' = s\<lparr>pc := pc s + len, stacktop := int (length base) + int (length out),
                           stack := base @ out @ spare'\<rparr>" by simp
    with sp n result(1,2) show ?thesis by (auto simp: same_below_def split_at_def)
  next
    case (full out)
    with assms(4) [of ws out] n sp show ?thesis by (simp add: split_at_def)
  qed
qed

lemma progress:
  assumes "int n \<le> stacktop s" and "stacktop s \<le> int (length (stack s))"
    and "\<And>ws out. \<lbrakk>length ws = n; f ws = Inr out\<rbrakk> \<Longrightarrow> stacktop s - int n + int (length out) \<le> int (length (stack s))"
  shows "h s \<noteq> None"
proof -
  obtain base ws spare where sp: "split_at s base ws spare" and n: "length ws = n"
    using split_at_exists assms(1,2) by metis
  from contract sp n show ?thesis
  proof (cases rule: performs_cases)
    case (full out)
    with assms(3) [of ws out] n sp show ?thesis by (simp add: split_at_def)
  qed simp_all
qed

end

section \<open>Shapes of handlers\<close>

text \<open>Combine the two topmost words.\<close>

locale binop_handler =
  fixes h :: handler and len :: int and f :: "u32 \<Rightarrow> u32 \<Rightarrow> exn + u32"
  assumes result: "\<lbrakk>tos (-2) s = Some a; tos (-1) s = Some b; f a b = Inr r\<rbrakk> \<Longrightarrow>
      h s = do { s \<leftarrow> set_tos (-2) r s; next_ins len (-1) s }"
    and raise: "\<lbrakk>tos (-2) s = Some a; tos (-1) s = Some b; f a b = Inl e\<rbrakk> \<Longrightarrow>
      h s = throw e s \<or> (\<exists>v. h s = do { s \<leftarrow> set_tos (-2) v s; throw e s })"
begin

lemma effect:
  assumes "split_at s base [a, b] spare"
  shows "f a b = Inr r \<Longrightarrow> h s = Some (Next (s\<lparr>pc := pc s + len, stacktop := int (length base) + 1,
      stack := base @ [r] @ b # spare\<rparr>))"
    and "f a b = Inl e \<Longrightarrow> \<exists>v. h s = Some (Throw e (s\<lparr>stack := base @ [v, b] @ spare\<rparr>))"
proof -
  note t = tos_split2 [OF assms] split_at_top [OF assms]
  show "f a b = Inr r \<Longrightarrow> h s = Some (Next (s\<lparr>pc := pc s + len, stacktop := int (length base) + 1,
      stack := base @ [r] @ b # spare\<rparr>))"
    using result [of s a b r] t by (simp add: run_defs)
  have "s = s\<lparr>stack := base @ [a, b] @ spare\<rparr>"
    using assms by (simp add: split_at_def)
  then show "f a b = Inl e \<Longrightarrow> \<exists>v. h s = Some (Throw e (s\<lparr>stack := base @ [v, b] @ spare\<rparr>))"
    using raise [of s a b e] t by (auto simp: run_defs)
qed

lemma performs: "performs h len 2 (spec2 f)"
proof (rule performsI)
  fix s base ws spare e
  assume sp: "split_at s base ws spare" and "length ws = 2" and e: "spec2 f ws = Inl e"
  then obtain a b where ws: "ws = [a, b]" by (auto simp: length_2_split)
  with e have "f a b = Inl e" by (cases "f a b") (simp_all add: spec2_def)
  then obtain v where "h s = Some (Throw e (s\<lparr>stack := base @ [v, b] @ spare\<rparr>))"
    using effect(2) sp ws by blast
  then show "\<exists>ws'. length ws' = 2 \<and> h s = Some (Throw e (s\<lparr>stack := base @ ws' @ spare\<rparr>))"
    by (intro exI [of _ "[v, b]"]) simp
next
  fix s base ws spare out
  assume sp: "split_at s base ws spare" and "length ws = 2" and out: "spec2 f ws = Inr out"
  then obtain a b where ws: "ws = [a, b]" by (auto simp: length_2_split)
  with out obtain r where "f a b = Inr r" "out = [r]" by (cases "f a b") (simp_all add: spec2_def)
  then show "\<exists>spare'. length out + length spare' = 2 + length spare \<and>
      h s = Some (Next (s\<lparr>pc := pc s + len, stacktop := int (length base) + int (length out),
        stack := base @ out @ spare'\<rparr>))"
    using effect(1) sp ws by (intro exI [of _ "b # spare"]) simp
qed

end

sublocale binop_handler \<subseteq> operand_handler h len 2 "spec2 f"
  by unfold_locales (rule performs)

text \<open>Replace the topmost word.\<close>

locale unop_handler =
  fixes h :: handler and len :: int and f :: "u32 \<Rightarrow> u32"
  assumes result: "tos (-1) s = Some a \<Longrightarrow> h s = do { s \<leftarrow> set_tos (-1) (f a) s; next_ins len 0 s }"
begin

lemma performs: "performs h len 1 (spec1 (\<lambda>a. Inr (f a)))"
proof (rule performsI)
  fix s base ws spare out
  assume sp: "split_at s base ws spare" and "length ws = 1" and out: "spec1 (\<lambda>a. Inr (f a)) ws = Inr out"
  then obtain a where ws: "ws = [a]" by (auto simp only: length_1_split)
  with out have o: "out = [f a]" by (simp add: spec1_def)
  show "\<exists>spare'. length out + length spare' = 1 + length spare \<and>
      h s = Some (Next (s\<lparr>pc := pc s + len, stacktop := int (length base) + int (length out),
        stack := base @ out @ spare'\<rparr>))"
    using result [of s a] tos_split1 [OF sp [unfolded ws]] split_at_top [OF sp [unfolded ws]]
    by (intro exI [of _ spare]) (simp add: o run_defs)
qed (simp add: spec1_def)

end

sublocale unop_handler \<subseteq> operand_handler h len 1 "spec1 (\<lambda>a. Inr (f a))"
  by unfold_locales (rule performs)

text \<open>The same for \<open>int64\<close> operands of two words.\<close>

locale long_binop_handler =
  fixes h :: handler and len :: int and f :: "u64 \<Rightarrow> u64 \<Rightarrow> exn + u64"
  assumes result: "\<lbrakk>ReadLong (tos_addr (-4) s) s = Some a; ReadLong (tos_addr (-2) s) s = Some b; f a b = Inr r\<rbrakk> \<Longrightarrow>
      h s = do { s \<leftarrow> WriteLong (tos_addr (-4) s) r s; next_ins len (-2) s }"
    and raise: "\<lbrakk>ReadLong (tos_addr (-4) s) s = Some a; ReadLong (tos_addr (-2) s) s = Some b; f a b = Inl e\<rbrakk> \<Longrightarrow>
      h s = throw e s"
begin

lemma performs: "performs h len 4 (lspec2 f)"
proof (rule performsI)
  fix s base ws spare e
  assume sp: "split_at s base ws spare" and n: "length ws = 4" and e: "lspec2 f ws = Inl e"
  then obtain a b c d where ws: "ws = [a, b, c, d]" by (auto simp: length_4_split)
  with e have "f (long_of a b) (long_of c d) = Inl e"
    by (cases "f (long_of a b) (long_of c d)") (simp_all add: lspec2_def numeral_eq_Suc)
  moreover have "s = s\<lparr>stack := base @ ws @ spare\<rparr>" using sp by (simp add: split_at_def)
  ultimately show "\<exists>ws'. length ws' = 4 \<and> h s = Some (Throw e (s\<lparr>stack := base @ ws' @ spare\<rparr>))"
    using raise [of s _ _ e] long_split4 [OF sp [unfolded ws]] n
    by (intro exI [of _ ws]) (simp add: run_defs)
next
  fix s base ws spare out
  assume sp: "split_at s base ws spare" and "length ws = 4" and out: "lspec2 f ws = Inr out"
  then obtain a b c d where ws: "ws = [a, b, c, d]" by (auto simp: length_4_split)
  with out obtain r where "f (long_of a b) (long_of c d) = Inr r" "out = [lo32 r, hi32 r]"
    by (cases "f (long_of a b) (long_of c d)") (simp_all add: lspec2_def numeral_eq_Suc)
  then show "\<exists>spare'. length out + length spare' = 4 + length spare \<and>
      h s = Some (Next (s\<lparr>pc := pc s + len, stacktop := int (length base) + int (length out),
        stack := base @ out @ spare'\<rparr>))"
    using result [of s _ _ r] long_split4 [OF sp [unfolded ws]] split_at_top [OF sp [unfolded ws]]
    by (intro exI [of _ "c # d # spare"]) (simp add: run_defs)
qed

end

sublocale long_binop_handler \<subseteq> operand_handler h len 4 "lspec2 f"
  by unfold_locales (rule performs)

locale long_unop_handler =
  fixes h :: handler and len :: int and f :: "u64 \<Rightarrow> u64"
  assumes result: "ReadLong (tos_addr (-2) s) s = Some a \<Longrightarrow>
      h s = do { s \<leftarrow> WriteLong (tos_addr (-2) s) (f a) s; next_ins len 0 s }"
begin

lemma performs: "performs h len 2 (lspec1 (\<lambda>a. Inr (f a)))"
proof (rule performsI)
  fix s base ws spare out
  assume sp: "split_at s base ws spare" and "length ws = 2" and out: "lspec1 (\<lambda>a. Inr (f a)) ws = Inr out"
  then obtain a b where ws: "ws = [a, b]" and o: "out = [lo32 (f (long_of a b)), hi32 (f (long_of a b))]"
    by (auto simp: length_2_split lspec1_def)
  show "\<exists>spare'. length out + length spare' = 2 + length spare \<and>
      h s = Some (Next (s\<lparr>pc := pc s + len, stacktop := int (length base) + int (length out),
        stack := base @ out @ spare'\<rparr>))"
    using result [of s] long_split2 [OF sp [unfolded ws]] split_at_top [OF sp [unfolded ws]]
    by (intro exI [of _ spare]) (simp add: o run_defs)
qed (simp add: lspec1_def)

end

sublocale long_unop_handler \<subseteq> operand_handler h len 2 "lspec1 (\<lambda>a. Inr (f a))"
  by unfold_locales (rule performs)

text \<open>An \<open>int64\<close> and a shift count.\<close>

locale long_shift_handler =
  fixes h :: handler and len :: int and f :: "u64 \<Rightarrow> u32 \<Rightarrow> u64"
  assumes result: "\<lbrakk>ReadLong (tos_addr (-3) s) s = Some a; tos (-1) s = Some n\<rbrakk> \<Longrightarrow>
      h s = do { s \<leftarrow> WriteLong (tos_addr (-3) s) (f a n) s; next_ins len (-1) s }"
begin

lemma performs: "performs h len 3 (lspec_shift f)"
proof (rule performsI)
  fix s base ws spare out
  assume sp: "split_at s base ws spare" and "length ws = 3" and out: "lspec_shift f ws = Inr out"
  then obtain a b c where ws: "ws = [a, b, c]" by (auto simp only: length_3_split)
  with out have o: "out = [lo32 (f (long_of a b) c), hi32 (f (long_of a b) c)]"
    by (simp add: lspec_shift_def Let_def numeral_eq_Suc)
  show "\<exists>spare'. length out + length spare' = 3 + length spare \<and>
      h s = Some (Next (s\<lparr>pc := pc s + len, stacktop := int (length base) + int (length out),
        stack := base @ out @ spare'\<rparr>))"
    using result [of s] tos_split3 [OF sp [unfolded ws]] split_at_top [OF sp [unfolded ws]]
    by (intro exI [of _ "c # spare"]) (simp add: o run_defs)
qed (simp add: lspec_shift_def Let_def)

end

sublocale long_shift_handler \<subseteq> operand_handler h len 3 "lspec_shift f"
  by unfold_locales (rule performs)

text \<open>Two \<open>int64\<close> operands and a one-word result.\<close>

locale long_cmp_handler =
  fixes h :: handler and len :: int and f :: "u64 \<Rightarrow> u64 \<Rightarrow> u32"
  assumes result: "\<lbrakk>ReadLong (tos_addr (-4) s) s = Some a; ReadLong (tos_addr (-2) s) s = Some b\<rbrakk> \<Longrightarrow>
      h s = do { s \<leftarrow> set_tos (-4) (f a b) s; next_ins len (-3) s }"
begin

lemma performs: "performs h len 4 (lspec_cmp f)"
proof (rule performsI)
  fix s base ws spare out
  assume sp: "split_at s base ws spare" and "length ws = 4" and out: "lspec_cmp f ws = Inr out"
  then obtain a b c d where ws: "ws = [a, b, c, d]" by (auto simp only: length_4_split)
  with out have o: "out = [f (long_of a b) (long_of c d)]"
    by (simp add: lspec_cmp_def numeral_eq_Suc)
  show "\<exists>spare'. length out + length spare' = 4 + length spare \<and>
      h s = Some (Next (s\<lparr>pc := pc s + len, stacktop := int (length base) + int (length out),
        stack := base @ out @ spare'\<rparr>))"
    using result [of s] long_split4 [OF sp [unfolded ws]] split_at_top [OF sp [unfolded ws]]
    by (intro exI [of _ "b # c # d # spare"]) (simp add: o run_defs)
qed (simp add: lspec_cmp_def)

end

sublocale long_cmp_handler \<subseteq> operand_handler h len 4 "lspec_cmp f"
  by unfold_locales (rule performs)

section \<open>Pushing and storing words\<close>

text \<open>\<open>pushes h len v\<close>: the instruction pushes the word that \<open>v\<close> reads from the machine (an
  instruction argument, a frame word, another stack word).\<close>

definition pushes :: "handler \<Rightarrow> int \<Rightarrow> (cvm_state \<Rightarrow> u32 option) \<Rightarrow> bool" where
  "pushes h len v \<longleftrightarrow>
     (\<forall>s x. v s = Some x \<longrightarrow> 0 \<le> stacktop s \<longrightarrow> stacktop s < int (length (stack s)) \<longrightarrow>
        h s = Some (Next (s\<lparr>pc := pc s + len, stacktop := stacktop s + 1,
                            stack := (stack s)[nat (stacktop s) := x]\<rparr>)))"

locale push_handler =
  fixes h :: handler and len :: int and v :: "cvm_state \<Rightarrow> u32 option"
  assumes shape: "v s = Some x \<Longrightarrow> h s = do { s \<leftarrow> set_tos 0 x s; next_ins len 1 s }"
begin

lemma pushes: "pushes h len v"
  by (auto simp: pushes_def shape set_word_def tos_addr_def run_defs)

lemma pushed_on_top:
  assumes "v s = Some x" and "0 \<le> stacktop s" and "stacktop s < int (length (stack s))"
  obtains s' where "h s = Some (Next s')" and "pc s' = pc s + len" and "stacktop s' = stacktop s + 1"
    and "tos (-1) s' = Some x" and "same_below (stacktop s) s s'"
proof
  let ?s = "s\<lparr>pc := pc s + len, stacktop := stacktop s + 1, stack := (stack s)[nat (stacktop s) := x]\<rparr>"
  show "h s = Some (Next ?s)" using pushes assms by (simp add: pushes_def)
  show "tos (-1) ?s = Some x" using assms(2,3) by (simp add: word_at_def tos_addr_def nat_less_iff)
qed (simp_all add: same_below_def)

end

text \<open>\<open>stores h len i\<close>: the instruction pops a word into the frame word \<open>i\<close>.\<close>

definition stores :: "handler \<Rightarrow> int \<Rightarrow> (cvm_state \<Rightarrow> int option) \<Rightarrow> bool" where
  "stores h len i \<longleftrightarrow>
     (\<forall>s k x. i s = Some k \<longrightarrow> tos (-1) s = Some x \<longrightarrow> 0 \<le> frame s + k \<longrightarrow> frame s + k < int (length (stack s)) \<longrightarrow>
        h s = Some (Next (s\<lparr>pc := pc s + len, stacktop := stacktop s - 1,
                            stack := (stack s)[nat (frame s + k) := x]\<rparr>)))"

locale store_handler =
  fixes h :: handler and len :: int and i :: "cvm_state \<Rightarrow> int option"
  assumes shape: "i s = Some k \<Longrightarrow> h s = do { a \<leftarrow> tos (-1) s; s \<leftarrow> set_word (frame s + k) a s; next_ins len (-1) s }"
begin

lemma stores: "stores h len i"
  by (auto simp: stores_def shape set_word_def run_defs)

end

lemma word_at_list_update:
  "0 \<le> p \<Longrightarrow> p < int (length (stack s)) \<Longrightarrow> word_at p (s\<lparr>stack := (stack s)[nat p := x]\<rparr>) = Some x"
  by (simp add: word_at_def nat_less_iff)

text \<open>A load instruction and a store instruction on the same frame word: what was stored is
  what the load pushes, whatever else the machine contains.\<close>

locale local_variable = st: store_handler st slen "\<lambda>s. Some k" + ld: push_handler ld llen "\<lambda>s. word_at (frame s + k) s"
  for st ld :: handler and slen llen k :: int
begin

lemma load_after_store:
  assumes "tos (-1) s = Some x" and "0 \<le> frame s + k" and "frame s + k < stacktop s - 1"
    and "stacktop s \<le> int (length (stack s))"
  obtains s' s'' where "st s = Some (Next s')" and "ld s' = Some (Next s'')" and "tos (-1) s'' = Some x"
    and "stacktop s'' = stacktop s" and "pc s'' = pc s + slen + llen"
proof -
  let ?s = "s\<lparr>pc := pc s + slen, stacktop := stacktop s - 1, stack := (stack s)[nat (frame s + k) := x]\<rparr>"
  have s': "st s = Some (Next ?s)"
    using st.stores assms by (simp add: stores_def)
  have v: "word_at (frame ?s + k) ?s = Some x"
    using assms(2-4) by (simp add: word_at_def nat_less_iff)
  have "0 \<le> stacktop ?s" "stacktop ?s < int (length (stack ?s))"
    using assms(2-4) by simp_all
  then obtain s'' where "ld ?s = Some (Next s'')" "pc s'' = pc ?s + llen" "stacktop s'' = stacktop ?s + 1"
    "tos (-1) s'' = Some x"
    using v ld.pushed_on_top by metis
  with s' show thesis by (intro that [of ?s s'']) simp_all
qed

end

section \<open>Block moves\<close>

lemma copy_words_up:
  assumes "split_at s base ws spare" and "length ws \<le> length spare"
  shows "copy_words (tos_addr 0 s) (tos_addr (- int (length ws)) s) (length ws) s =
    Some (s\<lparr>stack := base @ ws @ ws @ drop (length ws) spare\<rparr>)"
proof -
  have "tos_addr 0 s = int (length base + length ws)" "tos_addr (- int (length ws)) s = int (length base)"
    using assms(1) by (simp_all add: split_at_def tos_addr_def)
  then show ?thesis
    using assms by (simp add: copy_words_def move_words_def split_at_def nat_add_distrib)
qed

lemma move_words_down:
  assumes "split_at s base (ms @ ns) spare"
  shows "move_words (int (length base)) (int (length base + length ms)) (length ns) s =
    Some (s\<lparr>stack := base @ ns @ drop (length ns) (ms @ ns) @ spare\<rparr>)"
proof -
  have "drop (length base + length ns) (stack s) = drop (length ns) (ms @ ns) @ spare"
    using assms by (simp add: split_at_def drop_Cons')
  then show ?thesis
    using assms by (simp add: move_words_def split_at_def nat_add_distrib)
qed

lemma zero_words_spare:
  assumes "split_at s base [] spare" and "n \<le> length spare"
  shows "zero_words (tos_addr 0 s) n s = Some (s\<lparr>stack := base @ replicate n 0 @ drop n spare\<rparr>)"
  using assms by (simp add: zero_words_def split_at_def tos_addr_def)

section \<open>The same machine with other code\<close>

fun map_outcome :: "(cvm_state \<Rightarrow> cvm_state) \<Rightarrow> outcome \<Rightarrow> outcome" where
  "map_outcome f (Next s) = Next (f s)"
| "map_outcome f (Throw e s) = Throw e (f s)"

lemma code_update_simps [simp]:
  "word_at p (s\<lparr>code := c\<rparr>) = word_at p s" "tos_addr k (s\<lparr>code := c\<rparr>) = tos_addr k s"
  by (simp_all add: word_at_def tos_addr_def)

end
