(* ===== verification/MulLong.thy ===== *)
theory MulLong
  imports Prelude
begin

text \<open>
  \<^verbatim>\<open>support/mul_long.c\<close>: multiplication of 64-bit integers with overflow detection, built
  from 32-bit partial products because C has no 128-bit type.  \<^term>\<open>None\<close> is the
  return value 0 (overflow, no product stored).  The local variables of the C code that are
  assigned several times carry a number per assignment.
\<close>

definition ILUInt64MulOvf :: "u64 \<Rightarrow> u64 \<Rightarrow> u64 option" where
  "ILUInt64MulOvf value1 value2 =
    (let high1 = (ucast (drop_bit 32 value1) :: u32);
         low1 = (ucast value1 :: u32);
         high2 = (ucast (drop_bit 32 value2) :: u32);
         low2 = (ucast value2 :: u32);
         temp = (ucast low1 :: u64) * ucast low2;
         result1 = (ucast temp :: u32);
         result2a = (ucast (drop_bit 32 temp) :: u32);
         temp = (ucast low1 :: u64) * ucast high2;
         result2b = result2a + ucast temp;
         result3a = (if result2b < result2a then (ucast (drop_bit 32 temp) :: u32) + 1
                     else ucast (drop_bit 32 temp));
         temp = (ucast high1 :: u64) * ucast low2;
         result2 = result2b + ucast temp;
         (result3b, result4a) =
           (if result2 < result2b then
              (let result3b = result3a + ((ucast (drop_bit 32 temp) :: u32) + 1)
               in (result3b, if result3b < result3a then (1 :: u32) else 0))
            else
              (let result3b = result3a + ucast (drop_bit 32 temp)
               in (result3b, if result3b < result3a then 1 else 0)));
         temp = (ucast high1 :: u64) * ucast high2;
         result3 = result3b + ucast temp;
         result4 = (if result3 < result3b then result4a + ((ucast (drop_bit 32 temp) :: u32) + 1)
                    else result4a + ucast (drop_bit 32 temp))
     in if result3 \<noteq> 0 \<or> result4 \<noteq> 0 then None
        else Some (push_bit 32 (ucast result2) OR ucast result1))"

definition ILInt64MulOvf :: "u64 \<Rightarrow> u64 \<Rightarrow> u64 option" where
  "ILInt64MulOvf value1 value2 =
    (if 0 \<le> sint value1 \<and> 0 \<le> sint value2 then do {
       temp \<leftarrow> ILUInt64MulOvf value1 value2;
       if temp > 0x7FFFFFFFFFFFFFFF then None else Some temp
     }
     else if 0 \<le> sint value1 then do {
       temp \<leftarrow> ILUInt64MulOvf value1 (- value2);
       if temp > 0x7FFFFFFFFFFFFFFF + 1 then None else Some (- temp)
     }
     else if 0 \<le> sint value2 then do {
       temp \<leftarrow> ILUInt64MulOvf (- value1) value2;
       if temp > 0x7FFFFFFFFFFFFFFF + 1 then None else Some (- temp)
     }
     else do {
       temp \<leftarrow> ILUInt64MulOvf (- value1) (- value2);
       if temp > 0x7FFFFFFFFFFFFFFF then None else Some temp
     })"

section \<open>Partial products\<close>

lemma unat_split_64:
  fixes x :: u64
  shows "unat x = unat (ucast x :: u32) + 2 ^ 32 * unat (ucast (drop_bit 32 x) :: u32)"
proof -
  have "unat (ucast x :: u32) = unat x mod 2 ^ 32"
    by (simp add: unat_ucast_mod)
  moreover have "unat (ucast (drop_bit 32 x) :: u32) = unat x div 2 ^ 32 mod 2 ^ 32"
    by (simp only: unat_ucast_mod unat_drop_bit) simp
  moreover have "unat x div 2 ^ 32 < 2 ^ 32"
    using unat_less_64 [of x] by simp
  ultimately show ?thesis by simp
qed

lemma unat_product_32:
  "unat ((ucast a :: u64) * ucast b) = unat (a :: u32) * unat (b :: u32)"
proof -
  have "unat a * unat b < 2 ^ 32 * 2 ^ 32"
    using unat_less_32 [of a] unat_less_32 [of b] by (intro mult_strict_mono) simp_all
  then show ?thesis
    by (simp add: unat_word_ariths)
qed

lemma unat_join_64:
  fixes a b :: u32
  shows "unat (push_bit 32 (ucast b) OR ucast a :: u64) = unat a + 2 ^ 32 * unat b"
proof -
  let ?w = "push_bit 32 (ucast b) OR ucast a :: u64"
  have "(ucast ?w :: u32) = a" "(ucast (drop_bit 32 ?w) :: u32) = b"
    by (rule word32_eqI, simp add: blast_simps)+
  then show ?thesis using unat_split_64 [of ?w] by simp
qed

lemma add_carry_32:
  fixes x y :: u32
  shows "unat x + unat y = unat (x + y) + 2 ^ 32 * of_bool (x + y < x)"
proof (cases "unat x + unat y < 2 ^ 32")
  case True
  then have "unat (x + y) = unat x + unat y" by (simp add: unat_word_ariths)
  then show ?thesis by (simp add: word_less_nat_alt)
next
  case False
  moreover have "unat x < 2 ^ 32" "unat y < 2 ^ 32"
    using unat_less_32 [of x] unat_less_32 [of y] by simp_all
  ultimately have "unat (x + y) = unat x + unat y - 2 ^ 32"
    by (simp add: unat_word_ariths mod_if)
  with False \<open>unat x < 2 ^ 32\<close> \<open>unat y < 2 ^ 32\<close> show ?thesis
    by (simp add: word_less_nat_alt)
qed

lemma high_product_32:
  fixes a b :: u32
  shows "unat (ucast (drop_bit 32 ((ucast a :: u64) * ucast b)) :: u32) < 2 ^ 32 - 1"
proof -
  let ?t = "(ucast a :: u64) * ucast b"
  have "unat ?t \<le> (2 ^ 32 - 1) * (2 ^ 32 - 1)"
    unfolding unat_product_32
    using unat_less_32 [of a] unat_less_32 [of b] by (intro mult_le_mono) simp_all
  then show ?thesis
    using unat_split_64 [of ?t] by simp
qed

lemma Suc_high_product_32:
  fixes a b :: u32
  shows "unat ((ucast (drop_bit 32 ((ucast a :: u64) * ucast b)) :: u32) + 1) =
     unat (ucast (drop_bit 32 ((ucast a :: u64) * ucast b)) :: u32) + 1"
  using high_product_32 [of a b] by (simp add: unat_word_ariths)

lemma ILUInt64MulOvf_exact:
  "ILUInt64MulOvf x y = (if unat x * unat y < 2 ^ 64 then Some (x * y) else None)"
proof -
  define h1 :: u32 where "h1 = ucast (drop_bit 32 x)"
  define l1 :: u32 where "l1 = ucast x"
  define h2 :: u32 where "h2 = ucast (drop_bit 32 y)"
  define l2 :: u32 where "l2 = ucast y"
  define lo :: "u32 \<Rightarrow> u32 \<Rightarrow> u32" where "lo a b = ucast ((ucast a :: u64) * ucast b)" for a b
  define hi :: "u32 \<Rightarrow> u32 \<Rightarrow> u32" where "hi a b = ucast (drop_bit 32 ((ucast a :: u64) * ucast b))" for a b
  have prod: "unat a * unat b = unat (lo a b) + 2 ^ 32 * unat (hi a b)" for a b
    using unat_split_64 [of "(ucast a :: u64) * ucast b"] by (simp add: unat_product_32 lo_def hi_def)
  have Suc_hi: "unat (hi a b + 1) = unat (hi a b) + 1" for a b
    unfolding hi_def by (rule Suc_high_product_32)
  define r2b where "r2b = hi l1 l2 + lo l1 h2"
  define r3a where "r3a = (if r2b < hi l1 l2 then hi l1 h2 + 1 else hi l1 h2)"
  define r2 where "r2 = r2b + lo h1 l2"
  define m where "m = (if r2 < r2b then hi h1 l2 + 1 else hi h1 l2)"
  define r3b where "r3b = r3a + m"
  define r3 where "r3 = r3b + lo h1 h2"
  define n where "n = of_bool (r3b < r3a) + unat (hi h1 h2) + of_bool (r3 < r3b)"
  define r4 :: u32 where "r4 = of_bool (r3b < r3a) + (if r3 < r3b then hi h1 h2 + 1 else hi h1 h2)"
  have pair: "(if r2 < r2b then (r3a + (hi h1 l2 + 1), if r3a + (hi h1 l2 + 1) < r3a then 1 else 0)
      else (r3a + hi h1 l2, if r3a + hi h1 l2 < r3a then 1 else 0)) = (r3b, of_bool (r3b < r3a) :: u32)"
    by (simp add: r3b_def m_def)
  have r4: "(if r3 < r3b then of_bool (r3b < r3a) + (hi h1 h2 + 1) else of_bool (r3b < r3a) + hi h1 h2) = r4"
    by (simp add: r4_def)
  have run: "ILUInt64MulOvf x y = (if r3 \<noteq> 0 \<or> r4 \<noteq> 0 then None
      else Some (push_bit 32 (ucast r2) OR ucast (lo l1 l2)))"
    by (simp only: ILUInt64MulOvf_def Let_def h1_def [symmetric] l1_def [symmetric] h2_def [symmetric]
        l2_def [symmetric] lo_def [symmetric] hi_def [symmetric] r2b_def [symmetric] r3a_def [symmetric]
        r2_def [symmetric] pair prod.case r3_def [symmetric] r4 cong: let_weak_cong cong del: if_weak_cong)
  have xy: "unat x = unat l1 + 2 ^ 32 * unat h1" "unat y = unat l2 + 2 ^ 32 * unat h2"
    unfolding l1_def h1_def l2_def h2_def by (rule unat_split_64)+
  have c1: "unat r3a = unat (hi l1 h2) + of_bool (r2b < hi l1 l2)"
    by (simp add: r3a_def Suc_hi)
  have c2: "unat m = unat (hi h1 l2) + of_bool (r2 < r2b)"
    by (simp add: m_def Suc_hi)
  have total: "unat x * unat y = unat (lo l1 l2) + 2 ^ 32 * unat r2 + 2 ^ 64 * unat r3 + 2 ^ 96 * n"
    using prod [of l1 l2] prod [of l1 h2] prod [of h1 l2] prod [of h1 h2] c1 c2
      add_carry_32 [of "hi l1 l2" "lo l1 h2"] add_carry_32 [of r2b "lo h1 l2"]
      add_carry_32 [of r3a m] add_carry_32 [of r3b "lo h1 h2"]
    unfolding xy n_def r2b_def [symmetric] r2_def [symmetric] r3b_def [symmetric] r3_def [symmetric]
    by (simp add: algebra_simps)
  have "unat x * unat y < 2 ^ 64 * 2 ^ 64"
    using unat_less_64 [of x] unat_less_64 [of y] by (intro mult_strict_mono) simp_all
  with total have n: "n < 2 ^ 32" by simp
  have "r4 = of_nat n"
    by (simp add: r4_def n_def)
  with n have r4_0: "r4 = 0 \<longleftrightarrow> n = 0"
    by (simp add: unat_eq_0 [symmetric] unat_of_nat)
  show ?thesis
  proof (cases "r3 = 0 \<and> n = 0")
    case True
    have lt: "unat x * unat y < 2 ^ 64"
      using True total unat_less_32 [of r2] unat_less_32 [of "lo l1 l2"] by simp
    have "unat (push_bit 32 (ucast r2) OR ucast (lo l1 l2) :: u64) = unat (x * y)"
      using True total lt unfolding unat_join_64 by (simp add: unat_word_ariths)
    then have "push_bit 32 (ucast r2) OR ucast (lo l1 l2) = x * y"
      by (simp add: word_unat_eq_iff)
    with True lt show ?thesis
      unfolding run r4_0 by simp
  next
    case False
    then have "2 ^ 64 \<le> unat x * unat y"
      using total by (auto simp: unat_eq_0 [symmetric])
    with False show ?thesis
      unfolding run r4_0 by auto
  qed
qed

section \<open>Signed multiplication\<close>

lemma magnitude_nonneg: "0 \<le> sint x \<Longrightarrow> uint (x :: u64) = sint x"
  using unat_less_64 [of x] by (simp add: sint_cases_64 word_less_nat_alt nat_less_iff uint_nat split: if_splits del: of_nat_unat)

lemma magnitude_neg: "sint (x :: u64) < 0 \<Longrightarrow> uint (- x) = - sint x"
proof -
  assume n: "sint x < 0"
  have "- x = word_of_int (- sint x)" by simp
  then have "uint (- x) = (- sint x) mod 2 ^ 64"
    by (simp only: uint_word_of_int) simp
  also have "\<dots> = - sint x"
    using n sint_range_64 [of x] by (intro mod_pos_pos_trivial) simp_all
  finally show ?thesis .
qed

text \<open>The two ways the unsigned product is checked against the signed range.\<close>

lemma mul_check:
  assumes "uint a * uint b = m" and "c < 2 ^ 64"
  shows "(ILUInt64MulOvf a b \<bind> (\<lambda>temp. if temp > of_nat c then None else Some (f temp))) =
    (if m \<le> int c then Some (f (a * b)) else None)"
proof -
  have m: "m = int (unat a * unat b)" using assms(1) by (simp add: uint_nat del: of_nat_unat)
  have c: "unat (of_nat c :: u64) = c" using assms(2) by (simp add: unat_of_nat)
  show ?thesis
  proof (cases "unat a * unat b < 2 ^ 64")
    case True
    then have "unat (a * b) = unat a * unat b" by (simp add: unat_word_ariths)
    then show ?thesis
      using True c by (simp add: ILUInt64MulOvf_exact m word_less_nat_alt not_less del: of_nat_mult)
  next
    case False
    then show ?thesis using assms(2) by (simp add: ILUInt64MulOvf_exact m del: of_nat_mult)
  qed
qed

lemma ILInt64MulOvf_exact:
  "ILInt64MulOvf x y =
     (if - (2 ^ 63) \<le> sint x * sint y \<and> sint x * sint y < 2 ^ 63 then Some (x * y) else None)"
proof -
  let ?p = "sint x * sint y"
  have max: "(0x7FFFFFFFFFFFFFFF :: u64) = of_nat (2 ^ 63 - 1)" "(0x7FFFFFFFFFFFFFFF :: u64) + 1 = of_nat (2 ^ 63)"
    by simp_all
  consider (pp) "0 \<le> sint x" "0 \<le> sint y" | (pn) "0 \<le> sint x" "sint y < 0"
    | (np) "sint x < 0" "0 \<le> sint y" | (nn) "sint x < 0" "sint y < 0" by linarith
  then show ?thesis
  proof cases
    case pp
    have "- (2 ^ 63) \<le> ?p"
      using pp by (intro order_trans [OF _ mult_nonneg_nonneg]) simp_all
    moreover have "uint (x) * uint (y) = ?p"
      using pp by (simp add: magnitude_nonneg magnitude_neg)
    ultimately show ?thesis
      using pp mul_check [of "x" "y" "?p" "2 ^ 63 - 1" "\<lambda>t. t"]
      unfolding ILInt64MulOvf_def max by simp
  next
    case pn
    have "?p < 2 ^ 63"
      using pn by (intro order.strict_trans1 [OF mult_nonneg_nonpos]) simp_all
    moreover have "uint (x) * uint (- y) = - ?p"
      using pn by (simp add: magnitude_nonneg magnitude_neg)
    ultimately show ?thesis
      using pn mul_check [of "x" "- y" "- ?p" "2 ^ 63" "uminus"]
      unfolding ILInt64MulOvf_def max by simp
  next
    case np
    have "?p < 2 ^ 63"
      using np by (intro order.strict_trans1 [OF mult_nonpos_nonneg]) simp_all
    moreover have "uint (- x) * uint (y) = - ?p"
      using np by (simp add: magnitude_nonneg magnitude_neg)
    ultimately show ?thesis
      using np mul_check [of "- x" "y" "- ?p" "2 ^ 63" "uminus"]
      unfolding ILInt64MulOvf_def max by simp
  next
    case nn
    have "- (2 ^ 63) \<le> ?p"
      using nn by (intro order_trans [OF _ mult_nonpos_nonpos]) simp_all
    moreover have "uint (- x) * uint (- y) = ?p"
      using nn by (simp add: magnitude_nonneg magnitude_neg)
    ultimately show ?thesis
      using nn mul_check [of "- x" "- y" "?p" "2 ^ 63 - 1" "\<lambda>t. t"]
      unfolding ILInt64MulOvf_def max by simp
  qed
qed

section \<open>Properties\<close>

text \<open>The unsigned 64-bit multiplication from 32-bit partial products reports overflow
  exactly when the mathematical product needs more than 64 bits, and otherwise returns it.\<close>

lemma uint64_mul_overflow_exact:
  "ILUInt64MulOvf x y = (if uint x * uint y < 2 ^ 64 then Some (word_of_int (uint x * uint y)) else None)"
proof -
  have "uint x * uint y < 2 ^ 64 \<longleftrightarrow> unat x * unat y < 2 ^ 64"
    using of_nat_less_iff [of "unat x * unat y" "2 ^ 64", where 'a = int] by simp
  then show ?thesis by (simp add: ILUInt64MulOvf_exact)
qed

text \<open>The signed 64-bit multiplication reports overflow exactly when the product is
  outside \<open>[-2^63, 2^63)\<close>, the asymmetric minimum included, and otherwise returns it.\<close>

lemma int64_mul_overflow_exact:
  "ILInt64MulOvf x y =
     (if - (2 ^ 63) \<le> sint x * sint y \<and> sint x * sint y < 2 ^ 63
      then Some (word_of_int (sint x * sint y)) else None)"
  by (simp add: ILInt64MulOvf_exact)

end
