(* ===== verification/CvmArith.thy ===== *)
theory CvmArith
  imports CvmContract MulLong "HOL-Library.Signed_Division"
begin

text \<open>
  The arithmetic and bitwise instructions of the virtual machine on \<open>int32\<close> and \<open>int64\<close>
  operands (\<^verbatim>\<open>engine/cvm_arith.c\<close>): the overflow-checking helper functions, one handler per
  opcode, and their specification in exact integer arithmetic.  The floating-point
  instructions of the file are not modelled.
\<close>

section \<open>Helper functions\<close>

text \<open>The 32-bit helpers store the sum even when they report an overflow: the result is
  the stored value and the returned flag.  The multiplications store nothing then.\<close>

definition IAddOvf :: "u32 \<Rightarrow> u32 \<Rightarrow> u32 \<times> bool" where
  "IAddOvf a b =
     (let result = a + b
      in if sint a \<ge> 0 \<and> sint b \<ge> 0 then (result, sint result \<ge> sint a)
         else if sint a < 0 \<and> sint b < 0 then (result, sint result < sint a)
         else (result, True))"

definition IUAddOvf :: "u32 \<Rightarrow> u32 \<Rightarrow> u32 \<times> bool" where
  "IUAddOvf a b = (let result = a + b in (result, result \<ge> a))"

definition ISubOvf :: "u32 \<Rightarrow> u32 \<Rightarrow> u32 \<times> bool" where
  "ISubOvf a b =
     (let result = a - b
      in if sint a \<ge> 0 \<and> sint b \<ge> 0 then (result, True)
         else if sint a < 0 \<and> sint b < 0 then (result, True)
         else if sint a < 0 then (result, sint result \<le> sint a)
         else (result, sint result \<ge> sint a))"

definition IUSubOvf :: "u32 \<Rightarrow> u32 \<Rightarrow> u32 \<times> bool" where
  "IUSubOvf a b = (let result = a - b in (result, result \<le> a))"

definition IMulOvf :: "u32 \<Rightarrow> u32 \<Rightarrow> u32 option" where
  "IMulOvf a b =
     (let temp = (scast a :: u64) * scast b
      in if sint temp \<ge> - 2147483648 \<and> sint temp \<le> 2147483647 then Some (ucast temp) else None)"

definition IUMulOvf :: "u32 \<Rightarrow> u32 \<Rightarrow> u32 option" where
  "IUMulOvf a b =
     (let temp = (ucast a :: u64) * ucast b
      in if temp \<le> 0xFFFFFFFF then Some (ucast temp) else None)"

abbreviation IL_MIN_INT32 :: u32 where "IL_MIN_INT32 \<equiv> 0x80000000"
abbreviation IL_MIN_INT64 :: u64 where "IL_MIN_INT64 \<equiv> 0x8000000000000000"

text \<open>The 64-bit helpers work on two stack positions: the C return value and the state.\<close>

definition LAddOvf :: "int \<Rightarrow> int \<Rightarrow> cvm_state \<Rightarrow> (int \<times> cvm_state) option" where
  "LAddOvf a b s = do {
     tempa \<leftarrow> ReadLong a s;
     tempb \<leftarrow> ReadLong b s;
     let result = tempa + tempb;
     if sint tempa \<ge> 0 \<and> sint tempb \<ge> 0 then
       (if sint result < sint tempa then Some (0, s)
        else do { s \<leftarrow> WriteLong a result s; Some (1, s) })
     else if sint tempa < 0 \<and> sint tempb < 0 then
       (if sint result \<ge> sint tempa then Some (0, s)
        else do { s \<leftarrow> WriteLong a result s; Some (1, s) })
     else do { s \<leftarrow> WriteLong a result s; Some (1, s) }
   }"

definition LUAddOvf :: "int \<Rightarrow> int \<Rightarrow> cvm_state \<Rightarrow> (int \<times> cvm_state) option" where
  "LUAddOvf a b s = do {
     tempa \<leftarrow> ReadULong a s;
     tempb \<leftarrow> ReadULong b s;
     let result = tempa + tempb;
     if result < tempa then Some (0, s)
     else do { s \<leftarrow> WriteULong a result s; Some (1, s) }
   }"

definition LSubOvf :: "int \<Rightarrow> int \<Rightarrow> cvm_state \<Rightarrow> (int \<times> cvm_state) option" where
  "LSubOvf a b s = do {
     tempa \<leftarrow> ReadLong a s;
     tempb \<leftarrow> ReadLong b s;
     let result = tempa - tempb;
     if sint tempa \<ge> 0 \<and> sint tempb \<ge> 0 then do { s \<leftarrow> WriteLong a result s; Some (1, s) }
     else if sint tempa < 0 \<and> sint tempb < 0 then do { s \<leftarrow> WriteLong a result s; Some (1, s) }
     else if sint tempa < 0 then
       (if sint result > sint tempa then Some (0, s)
        else do { s \<leftarrow> WriteLong a result s; Some (1, s) })
     else
       (if sint result < sint tempa then Some (0, s)
        else do { s \<leftarrow> WriteLong a result s; Some (1, s) })
   }"

definition LUSubOvf :: "int \<Rightarrow> int \<Rightarrow> cvm_state \<Rightarrow> (int \<times> cvm_state) option" where
  "LUSubOvf a b s = do {
     tempa \<leftarrow> ReadULong a s;
     tempb \<leftarrow> ReadULong b s;
     let result = tempa - tempb;
     if result > tempa then Some (0, s)
     else do { s \<leftarrow> WriteULong a result s; Some (1, s) }
   }"

definition LMulOvf :: "int \<Rightarrow> int \<Rightarrow> cvm_state \<Rightarrow> (int \<times> cvm_state) option" where
  "LMulOvf a b s = do {
     tempa \<leftarrow> ReadLong a s;
     tempb \<leftarrow> ReadLong b s;
     case ILInt64MulOvf tempa tempb of
       None \<Rightarrow> Some (0, s)
     | Some result \<Rightarrow> do { s \<leftarrow> WriteLong a result s; Some (1, s) }
   }"

definition LUMulOvf :: "int \<Rightarrow> int \<Rightarrow> cvm_state \<Rightarrow> (int \<times> cvm_state) option" where
  "LUMulOvf a b s = do {
     tempa \<leftarrow> ReadULong a s;
     tempb \<leftarrow> ReadULong b s;
     case ILUInt64MulOvf tempa tempb of
       None \<Rightarrow> Some (0, s)
     | Some result \<Rightarrow> do { s \<leftarrow> WriteULong a result s; Some (1, s) }
   }"

definition LDiv :: "int \<Rightarrow> int \<Rightarrow> cvm_state \<Rightarrow> (int \<times> cvm_state) option" where
  "LDiv a b s = do {
     tempa \<leftarrow> ReadLong a s;
     tempb \<leftarrow> ReadLong b s;
     if tempb = 0 then Some (0, s)
     else if tempb = -1 \<and> tempa = IL_MIN_INT64 then Some (- 1, s)
     else do { s \<leftarrow> WriteLong a (word_of_int (sint tempa sdiv sint tempb)) s; Some (1, s) }
   }"

definition LUDiv :: "int \<Rightarrow> int \<Rightarrow> cvm_state \<Rightarrow> (int \<times> cvm_state) option" where
  "LUDiv a b s = do {
     tempa \<leftarrow> ReadULong a s;
     tempb \<leftarrow> ReadULong b s;
     if tempb = 0 then Some (0, s)
     else do { s \<leftarrow> WriteULong a (tempa div tempb) s; Some (1, s) }
   }"

definition LRem :: "int \<Rightarrow> int \<Rightarrow> cvm_state \<Rightarrow> (int \<times> cvm_state) option" where
  "LRem a b s = do {
     tempa \<leftarrow> ReadLong a s;
     tempb \<leftarrow> ReadLong b s;
     if tempb = 0 then Some (0, s)
     else if tempb = -1 \<and> tempa = IL_MIN_INT64 then Some (- 1, s)
     else do { s \<leftarrow> WriteLong a (word_of_int (sint tempa smod sint tempb)) s; Some (1, s) }
   }"

definition LURem :: "int \<Rightarrow> int \<Rightarrow> cvm_state \<Rightarrow> (int \<times> cvm_state) option" where
  "LURem a b s = do {
     tempa \<leftarrow> ReadULong a s;
     tempb \<leftarrow> ReadULong b s;
     if tempb = 0 then Some (0, s)
     else do { s \<leftarrow> WriteULong a (tempa mod tempb) s; Some (1, s) }
   }"

definition LShiftLeft :: "int \<Rightarrow> u32 \<Rightarrow> cvm_state \<Rightarrow> cvm_state option" where
  "LShiftLeft a shiftBy s = do {
     tempa \<leftarrow> ReadLong a s;
     WriteLong a (push_bit (unat shiftBy) tempa) s
   }"

definition LShiftRight :: "int \<Rightarrow> u32 \<Rightarrow> cvm_state \<Rightarrow> cvm_state option" where
  "LShiftRight a shiftBy s = do {
     tempa \<leftarrow> ReadLong a s;
     WriteLong a (signed_drop_bit (unat shiftBy) tempa) s
   }"

definition LUShiftRight :: "int \<Rightarrow> u32 \<Rightarrow> cvm_state \<Rightarrow> cvm_state option" where
  "LUShiftRight a shiftBy s = do {
     tempa \<leftarrow> ReadULong a s;
     WriteULong a (drop_bit (unat shiftBy) tempa) s
   }"

section \<open>Instruction handlers\<close>

definition COP_IADD :: handler where
  "COP_IADD s = do {
     a \<leftarrow> tos (-2) s;
     b \<leftarrow> tos (-1) s;
     s \<leftarrow> set_tos (-2) (a + b) s;
     next_ins CVM_LEN_NONE (-1) s
   }"

definition COP_IADD_OVF :: handler where
  "COP_IADD_OVF s = do {
     a \<leftarrow> tos (-2) s;
     b \<leftarrow> tos (-1) s;
     let (result, ok) = IAddOvf a b;
     s \<leftarrow> set_tos (-2) result s;
     if ok then next_ins CVM_LEN_NONE (-1) s else throw OverflowException s
   }"

definition COP_IADD_OVF_UN :: handler where
  "COP_IADD_OVF_UN s = do {
     a \<leftarrow> tos (-2) s;
     b \<leftarrow> tos (-1) s;
     let (result, ok) = IUAddOvf a b;
     s \<leftarrow> set_tos (-2) result s;
     if ok then next_ins CVM_LEN_NONE (-1) s else throw OverflowException s
   }"

definition COP_ISUB :: handler where
  "COP_ISUB s = do {
     a \<leftarrow> tos (-2) s;
     b \<leftarrow> tos (-1) s;
     s \<leftarrow> set_tos (-2) (a - b) s;
     next_ins CVM_LEN_NONE (-1) s
   }"

definition COP_ISUB_OVF :: handler where
  "COP_ISUB_OVF s = do {
     a \<leftarrow> tos (-2) s;
     b \<leftarrow> tos (-1) s;
     let (result, ok) = ISubOvf a b;
     s \<leftarrow> set_tos (-2) result s;
     if ok then next_ins CVM_LEN_NONE (-1) s else throw OverflowException s
   }"

definition COP_ISUB_OVF_UN :: handler where
  "COP_ISUB_OVF_UN s = do {
     a \<leftarrow> tos (-2) s;
     b \<leftarrow> tos (-1) s;
     let (result, ok) = IUSubOvf a b;
     s \<leftarrow> set_tos (-2) result s;
     if ok then next_ins CVM_LEN_NONE (-1) s else throw OverflowException s
   }"

definition COP_IMUL :: handler where
  "COP_IMUL s = do {
     a \<leftarrow> tos (-2) s;
     b \<leftarrow> tos (-1) s;
     s \<leftarrow> set_tos (-2) (a * b) s;
     next_ins CVM_LEN_NONE (-1) s
   }"

definition COP_IMUL_OVF :: handler where
  "COP_IMUL_OVF s = do {
     a \<leftarrow> tos (-2) s;
     b \<leftarrow> tos (-1) s;
     case IMulOvf a b of
       Some result \<Rightarrow> do { s \<leftarrow> set_tos (-2) result s; next_ins CVM_LEN_NONE (-1) s }
     | None \<Rightarrow> throw OverflowException s
   }"

definition COP_IMUL_OVF_UN :: handler where
  "COP_IMUL_OVF_UN s = do {
     a \<leftarrow> tos (-2) s;
     b \<leftarrow> tos (-1) s;
     case IUMulOvf a b of
       Some result \<Rightarrow> do { s \<leftarrow> set_tos (-2) result s; next_ins CVM_LEN_NONE (-1) s }
     | None \<Rightarrow> throw OverflowException s
   }"

definition COP_IDIV :: handler where
  "COP_IDIV s = do {
     a \<leftarrow> tos (-2) s;
     b \<leftarrow> tos (-1) s;
     if b \<noteq> 0 then
       (if b \<noteq> -1 \<or> a \<noteq> IL_MIN_INT32 then do {
          s \<leftarrow> set_tos (-2) (word_of_int (sint a sdiv sint b)) s;
          next_ins CVM_LEN_NONE (-1) s
        }
        else throw ArithmeticException s)
     else throw ArithmeticException s
   }"

definition COP_IDIV_UN :: handler where
  "COP_IDIV_UN s = do {
     a \<leftarrow> tos (-2) s;
     b \<leftarrow> tos (-1) s;
     if b \<noteq> 0 then do {
       s \<leftarrow> set_tos (-2) (a div b) s;
       next_ins CVM_LEN_NONE (-1) s
     }
     else throw ArithmeticException s
   }"

definition COP_IREM :: handler where
  "COP_IREM s = do {
     a \<leftarrow> tos (-2) s;
     b \<leftarrow> tos (-1) s;
     if b \<noteq> 0 then
       (if b \<noteq> -1 \<or> a \<noteq> IL_MIN_INT32 then do {
          s \<leftarrow> set_tos (-2) (word_of_int (sint a smod sint b)) s;
          next_ins CVM_LEN_NONE (-1) s
        }
        else throw ArithmeticException s)
     else throw ArithmeticException s
   }"

definition COP_IREM_UN :: handler where
  "COP_IREM_UN s = do {
     a \<leftarrow> tos (-2) s;
     b \<leftarrow> tos (-1) s;
     if b \<noteq> 0 then do {
       s \<leftarrow> set_tos (-2) (a mod b) s;
       next_ins CVM_LEN_NONE (-1) s
     }
     else throw ArithmeticException s
   }"

definition COP_INEG :: handler where
  "COP_INEG s = do {
     a \<leftarrow> tos (-1) s;
     s \<leftarrow> set_tos (-1) (- a) s;
     next_ins CVM_LEN_NONE 0 s
   }"

definition COP_LADD :: handler where
  "COP_LADD s = do {
     a \<leftarrow> ReadLong (tos_addr (-4) s) s;
     b \<leftarrow> ReadLong (tos_addr (-2) s) s;
     s \<leftarrow> WriteLong (tos_addr (-4) s) (a + b) s;
     next_ins CVM_LEN_NONE (-2) s
   }"

definition COP_LADD_OVF :: handler where
  "COP_LADD_OVF s = do {
     (ok, s) \<leftarrow> LAddOvf (tos_addr (-4) s) (tos_addr (-2) s) s;
     if ok \<noteq> 0 then next_ins CVM_LEN_NONE (-2) s else throw OverflowException s
   }"

definition COP_LADD_OVF_UN :: handler where
  "COP_LADD_OVF_UN s = do {
     (ok, s) \<leftarrow> LUAddOvf (tos_addr (-4) s) (tos_addr (-2) s) s;
     if ok \<noteq> 0 then next_ins CVM_LEN_NONE (-2) s else throw OverflowException s
   }"

definition COP_LSUB :: handler where
  "COP_LSUB s = do {
     a \<leftarrow> ReadLong (tos_addr (-4) s) s;
     b \<leftarrow> ReadLong (tos_addr (-2) s) s;
     s \<leftarrow> WriteLong (tos_addr (-4) s) (a - b) s;
     next_ins CVM_LEN_NONE (-2) s
   }"

definition COP_LSUB_OVF :: handler where
  "COP_LSUB_OVF s = do {
     (ok, s) \<leftarrow> LSubOvf (tos_addr (-4) s) (tos_addr (-2) s) s;
     if ok \<noteq> 0 then next_ins CVM_LEN_NONE (-2) s else throw OverflowException s
   }"

definition COP_LSUB_OVF_UN :: handler where
  "COP_LSUB_OVF_UN s = do {
     (ok, s) \<leftarrow> LUSubOvf (tos_addr (-4) s) (tos_addr (-2) s) s;
     if ok \<noteq> 0 then next_ins CVM_LEN_NONE (-2) s else throw OverflowException s
   }"

definition COP_LMUL :: handler where
  "COP_LMUL s = do {
     a \<leftarrow> ReadLong (tos_addr (-4) s) s;
     b \<leftarrow> ReadLong (tos_addr (-2) s) s;
     s \<leftarrow> WriteLong (tos_addr (-4) s) (a * b) s;
     next_ins CVM_LEN_NONE (-2) s
   }"

definition COP_LMUL_OVF :: handler where
  "COP_LMUL_OVF s = do {
     (ok, s) \<leftarrow> LMulOvf (tos_addr (-4) s) (tos_addr (-2) s) s;
     if ok \<noteq> 0 then next_ins CVM_LEN_NONE (-2) s else throw OverflowException s
   }"

definition COP_LMUL_OVF_UN :: handler where
  "COP_LMUL_OVF_UN s = do {
     (ok, s) \<leftarrow> LUMulOvf (tos_addr (-4) s) (tos_addr (-2) s) s;
     if ok \<noteq> 0 then next_ins CVM_LEN_NONE (-2) s else throw OverflowException s
   }"

definition COP_LDIV :: handler where
  "COP_LDIV s = do {
     (divResult, s) \<leftarrow> LDiv (tos_addr (-4) s) (tos_addr (-2) s) s;
     if divResult > 0 then next_ins CVM_LEN_NONE (-2) s
     else if divResult = 0 then throw DivideByZeroException s
     else throw ArithmeticException s
   }"

definition COP_LDIV_UN :: handler where
  "COP_LDIV_UN s = do {
     (ok, s) \<leftarrow> LUDiv (tos_addr (-4) s) (tos_addr (-2) s) s;
     if ok \<noteq> 0 then next_ins CVM_LEN_NONE (-2) s else throw DivideByZeroException s
   }"

definition COP_LREM :: handler where
  "COP_LREM s = do {
     (divResult, s) \<leftarrow> LRem (tos_addr (-4) s) (tos_addr (-2) s) s;
     if divResult > 0 then next_ins CVM_LEN_NONE (-2) s
     else if divResult = 0 then throw DivideByZeroException s
     else throw ArithmeticException s
   }"

definition COP_LREM_UN :: handler where
  "COP_LREM_UN s = do {
     (ok, s) \<leftarrow> LURem (tos_addr (-4) s) (tos_addr (-2) s) s;
     if ok \<noteq> 0 then next_ins CVM_LEN_NONE (-2) s else throw DivideByZeroException s
   }"

definition COP_LNEG :: handler where
  "COP_LNEG s = do {
     a \<leftarrow> ReadLong (tos_addr (-2) s) s;
     s \<leftarrow> WriteLong (tos_addr (-2) s) (- a) s;
     next_ins CVM_LEN_NONE 0 s
   }"

definition COP_IAND :: handler where
  "COP_IAND s = do {
     a \<leftarrow> tos (-2) s;
     b \<leftarrow> tos (-1) s;
     s \<leftarrow> set_tos (-2) (a AND b) s;
     next_ins CVM_LEN_NONE (-1) s
   }"

definition COP_IOR :: handler where
  "COP_IOR s = do {
     a \<leftarrow> tos (-2) s;
     b \<leftarrow> tos (-1) s;
     s \<leftarrow> set_tos (-2) (a OR b) s;
     next_ins CVM_LEN_NONE (-1) s
   }"

definition COP_IXOR :: handler where
  "COP_IXOR s = do {
     a \<leftarrow> tos (-2) s;
     b \<leftarrow> tos (-1) s;
     s \<leftarrow> set_tos (-2) (a XOR b) s;
     next_ins CVM_LEN_NONE (-1) s
   }"

definition COP_INOT :: handler where
  "COP_INOT s = do {
     a \<leftarrow> tos (-1) s;
     s \<leftarrow> set_tos (-1) (NOT a) s;
     next_ins CVM_LEN_NONE 0 s
   }"

definition COP_ISHL :: handler where
  "COP_ISHL s = do {
     a \<leftarrow> tos (-2) s;
     b \<leftarrow> tos (-1) s;
     s \<leftarrow> set_tos (-2) (push_bit (unat (b AND 0x1F)) a) s;
     next_ins CVM_LEN_NONE (-1) s
   }"

definition COP_ISHR :: handler where
  "COP_ISHR s = do {
     a \<leftarrow> tos (-2) s;
     b \<leftarrow> tos (-1) s;
     s \<leftarrow> set_tos (-2) (signed_drop_bit (unat (b AND 0x1F)) a) s;
     next_ins CVM_LEN_NONE (-1) s
   }"

definition COP_ISHR_UN :: handler where
  "COP_ISHR_UN s = do {
     a \<leftarrow> tos (-2) s;
     b \<leftarrow> tos (-1) s;
     s \<leftarrow> set_tos (-2) (drop_bit (unat (b AND 0x1F)) a) s;
     next_ins CVM_LEN_NONE (-1) s
   }"

definition COP_LAND :: handler where
  "COP_LAND s = do {
     a \<leftarrow> ReadLong (tos_addr (-4) s) s;
     b \<leftarrow> ReadLong (tos_addr (-2) s) s;
     s \<leftarrow> WriteLong (tos_addr (-4) s) (a AND b) s;
     next_ins CVM_LEN_NONE (-2) s
   }"

definition COP_LOR :: handler where
  "COP_LOR s = do {
     a \<leftarrow> ReadLong (tos_addr (-4) s) s;
     b \<leftarrow> ReadLong (tos_addr (-2) s) s;
     s \<leftarrow> WriteLong (tos_addr (-4) s) (a OR b) s;
     next_ins CVM_LEN_NONE (-2) s
   }"

definition COP_LXOR :: handler where
  "COP_LXOR s = do {
     a \<leftarrow> ReadLong (tos_addr (-4) s) s;
     b \<leftarrow> ReadLong (tos_addr (-2) s) s;
     s \<leftarrow> WriteLong (tos_addr (-4) s) (a XOR b) s;
     next_ins CVM_LEN_NONE (-2) s
   }"

definition COP_LNOT :: handler where
  "COP_LNOT s = do {
     a \<leftarrow> ReadLong (tos_addr (-2) s) s;
     s \<leftarrow> WriteLong (tos_addr (-2) s) (NOT a) s;
     next_ins CVM_LEN_NONE 0 s
   }"

definition COP_LSHL :: handler where
  "COP_LSHL s = do {
     n \<leftarrow> tos (-1) s;
     s \<leftarrow> LShiftLeft (tos_addr (-3) s) (n AND 0x3F) s;
     next_ins CVM_LEN_NONE (-1) s
   }"

definition COP_LSHR :: handler where
  "COP_LSHR s = do {
     n \<leftarrow> tos (-1) s;
     s \<leftarrow> LShiftRight (tos_addr (-3) s) (n AND 0x3F) s;
     next_ins CVM_LEN_NONE (-1) s
   }"

definition COP_LSHR_UN :: handler where
  "COP_LSHR_UN s = do {
     n \<leftarrow> tos (-1) s;
     s \<leftarrow> LUShiftRight (tos_addr (-3) s) (n AND 0x3F) s;
     next_ins CVM_LEN_NONE (-1) s
   }"

section \<open>Specification in exact arithmetic\<close>

text \<open>A mathematical result that must be representable, or \<open>System.OverflowException\<close>.\<close>

definition checked32 :: "int \<Rightarrow> exn + u32" where
  "checked32 i = (if - (2 ^ 31) \<le> i \<and> i < 2 ^ 31 then Inr (word_of_int i) else Inl OverflowException)"

definition checked_u32 :: "int \<Rightarrow> exn + u32" where
  "checked_u32 i = (if 0 \<le> i \<and> i < 2 ^ 32 then Inr (word_of_int i) else Inl OverflowException)"

definition checked64 :: "int \<Rightarrow> exn + u64" where
  "checked64 i = (if - (2 ^ 63) \<le> i \<and> i < 2 ^ 63 then Inr (word_of_int i) else Inl OverflowException)"

definition checked_u64 :: "int \<Rightarrow> exn + u64" where
  "checked_u64 i = (if 0 \<le> i \<and> i < 2 ^ 64 then Inr (word_of_int i) else Inl OverflowException)"

text \<open>
  Division that truncates toward zero, with the exceptions the handlers raise: those of the default build, whose
  \<^verbatim>\<open>END_INT_ZERO_DIV_CHECK\<close> throws \<open>ArithmeticException\<close>.
\<close>

definition spec_idiv :: "(int \<Rightarrow> int \<Rightarrow> int) \<Rightarrow> u32 \<Rightarrow> u32 \<Rightarrow> exn + u32" where
  "spec_idiv quot a b =
     (if sint b = 0 \<or> sint b = -1 \<and> sint a = - (2 ^ 31) then Inl ArithmeticException
      else Inr (word_of_int (quot (sint a) (sint b))))"

definition spec_idiv_un :: "(int \<Rightarrow> int \<Rightarrow> int) \<Rightarrow> u32 \<Rightarrow> u32 \<Rightarrow> exn + u32" where
  "spec_idiv_un quot a b =
     (if uint b = 0 then Inl ArithmeticException else Inr (word_of_int (quot (uint a) (uint b))))"

definition spec_ldiv :: "(int \<Rightarrow> int \<Rightarrow> int) \<Rightarrow> u64 \<Rightarrow> u64 \<Rightarrow> exn + u64" where
  "spec_ldiv quot a b =
     (if sint b = 0 then Inl DivideByZeroException
      else if sint b = -1 \<and> sint a = - (2 ^ 63) then Inl ArithmeticException
      else Inr (word_of_int (quot (sint a) (sint b))))"

definition spec_ldiv_un :: "(int \<Rightarrow> int \<Rightarrow> int) \<Rightarrow> u64 \<Rightarrow> u64 \<Rightarrow> exn + u64" where
  "spec_ldiv_un quot a b =
     (if uint b = 0 then Inl DivideByZeroException else Inr (word_of_int (quot (uint a) (uint b))))"

section \<open>The overflow helpers are exact\<close>

lemma IAddOvf_exact: "IAddOvf a b = (a + b, - (2 ^ 31) \<le> sint a + sint b \<and> sint a + sint b < 2 ^ 31)"
  using sint_range_32 [of a] sint_range_32 [of b]
  by (auto simp: IAddOvf_def Let_def sint_add_32)

lemma ISubOvf_exact: "ISubOvf a b = (a - b, - (2 ^ 31) \<le> sint a - sint b \<and> sint a - sint b < 2 ^ 31)"
  using sint_range_32 [of a] sint_range_32 [of b]
  by (auto simp: ISubOvf_def Let_def sint_sub_32)

lemma IUAddOvf_exact: "IUAddOvf a b = (a + b, uint a + uint b < 2 ^ 32)"
  using no_olen_add [of a b] by (simp add: IUAddOvf_def Let_def)

lemma IUSubOvf_exact: "IUSubOvf a b = (a - b, 0 \<le> uint a - uint b)"
  using no_ulen_sub [of a b] by (simp add: IUSubOvf_def Let_def)

lemma product_range:
  fixes i j m :: int
  assumes "- m \<le> i" and "i \<le> m" and "- m \<le> j" and "j \<le> m"
  shows "- (m * m) \<le> i * j" and "i * j \<le> m * m"
proof -
  have "\<bar>i\<bar> \<le> m" "\<bar>j\<bar> \<le> m" "0 \<le> m" using assms by auto
  then have "\<bar>i * j\<bar> \<le> m * m"
    unfolding abs_mult by (intro mult_mono) auto
  then show "- (m * m) \<le> i * j" "i * j \<le> m * m" by auto
qed

lemma ucast_word_of_int: "(ucast (word_of_int k :: u64) :: u32) = word_of_int k"
  by (rule bit_word_eqI) (auto simp: bit_simps)

lemma IMulOvf_exact:
  "IMulOvf a b = (if - (2 ^ 31) \<le> sint a * sint b \<and> sint a * sint b < 2 ^ 31 then Some (a * b) else None)"
proof -
  let ?t = "(scast a :: u64) * scast b"
  have t: "?t = word_of_int (sint a * sint b)" by simp
  have "- (2 ^ 31 * 2 ^ 31) \<le> sint a * sint b" "sint a * sint b \<le> 2 ^ 31 * 2 ^ 31"
    using sint_range_32 [of a] sint_range_32 [of b] by (intro product_range; simp)+
  then have "sint ?t = sint a * sint b"
    unfolding t using sint_wrap_64 [of "sint a * sint b"] by simp
  moreover have "(ucast ?t :: u32) = a * b"
    unfolding t ucast_word_of_int by simp
  ultimately show ?thesis by (auto simp: IMulOvf_def Let_def)
qed

lemma IUMulOvf_exact:
  "IUMulOvf a b = (if uint a * uint b < 2 ^ 32 then Some (a * b) else None)"
proof -
  let ?t = "(ucast a :: u64) * ucast b"
  have "uint ?t = uint a * uint b"
    using unat_product_32 [of a b] by (metis of_nat_mult uint_nat)
  moreover from this have "(ucast ?t :: u32) = a * b"
    using ucast_word_of_int [of "uint ?t"] by simp
  ultimately show ?thesis by (simp add: IUMulOvf_def Let_def word_le_def)
qed

text \<open>The 64-bit helpers: what they return and store, given the operands they read.\<close>

definition long_result :: "bool \<Rightarrow> int \<Rightarrow> u64 \<Rightarrow> cvm_state \<Rightarrow> (int \<times> cvm_state) option" where
  "long_result ok a r s = (if ok then map_option (\<lambda>s. (1, s)) (WriteLong a r s) else Some (0, s))"

lemma LAddOvf_exact:
  assumes "ReadLong a s = Some x" and "ReadLong b s = Some y"
  shows "LAddOvf a b s = long_result (- (2 ^ 63) \<le> sint x + sint y \<and> sint x + sint y < 2 ^ 63) a (x + y) s"
  using assms sint_range_64 [of x] sint_range_64 [of y]
  by (auto simp: LAddOvf_def Let_def sint_add_64 long_result_def map_conv_bind_option comp_def)

lemma LSubOvf_exact:
  assumes "ReadLong a s = Some x" and "ReadLong b s = Some y"
  shows "LSubOvf a b s = long_result (- (2 ^ 63) \<le> sint x - sint y \<and> sint x - sint y < 2 ^ 63) a (x - y) s"
  using assms sint_range_64 [of x] sint_range_64 [of y]
  by (auto simp: LSubOvf_def Let_def sint_sub_64 long_result_def map_conv_bind_option comp_def)

lemma LUAddOvf_exact:
  assumes "ReadLong a s = Some x" and "ReadLong b s = Some y"
  shows "LUAddOvf a b s = long_result (uint x + uint y < 2 ^ 64) a (x + y) s"
  using assms no_olen_add [of x y]
  by (auto simp: LUAddOvf_def Let_def long_result_def map_conv_bind_option comp_def)

lemma LUSubOvf_exact:
  assumes "ReadLong a s = Some x" and "ReadLong b s = Some y"
  shows "LUSubOvf a b s = long_result (0 \<le> uint x - uint y) a (x - y) s"
  using assms no_ulen_sub [of x y]
  by (auto simp: LUSubOvf_def Let_def long_result_def map_conv_bind_option comp_def)

lemma LMulOvf_exact:
  assumes "ReadLong a s = Some x" and "ReadLong b s = Some y"
  shows "LMulOvf a b s = long_result (- (2 ^ 63) \<le> sint x * sint y \<and> sint x * sint y < 2 ^ 63) a (x * y) s"
  using assms by (simp add: LMulOvf_def ILInt64MulOvf_exact long_result_def map_conv_bind_option comp_def)

lemma LUMulOvf_exact:
  assumes "ReadLong a s = Some x" and "ReadLong b s = Some y"
  shows "LUMulOvf a b s = long_result (uint x * uint y < 2 ^ 64) a (x * y) s"
proof -
  have "unat x * unat y < 2 ^ 64 \<longleftrightarrow> uint x * uint y < 2 ^ 64"
    using of_nat_less_iff [of "unat x * unat y" "2 ^ 64", where 'a = int] by simp
  with assms show ?thesis
    by (simp add: LUMulOvf_def ILUInt64MulOvf_exact long_result_def map_conv_bind_option comp_def)
qed

section \<open>Interpretation of the contracts\<close>

lemmas handler_simps = Let_def run_defs

lemma minus_1_iff: "(b :: 'a::len word) = -1 \<longleftrightarrow> sint b = -1"
  using signed_word_eqI [of b "-1", where 'a = int] by auto

lemma sint_0_iff: "sint (b :: 'a::len word) = 0 \<longleftrightarrow> b = 0"
  using signed_word_eqI [of b 0, where 'a = int] by auto

lemma min_int_iff: "a = IL_MIN_INT32 \<longleftrightarrow> sint a = - (2 ^ 31)" "b = IL_MIN_INT64 \<longleftrightarrow> sint b = - (2 ^ 63)"
proof -
  have "sint IL_MIN_INT32 = - (2 ^ 31)" "sint IL_MIN_INT64 = - (2 ^ 63)" by simp_all
  then show "a = IL_MIN_INT32 \<longleftrightarrow> sint a = - (2 ^ 31)" "b = IL_MIN_INT64 \<longleftrightarrow> sint b = - (2 ^ 63)"
    by (metis signed_word_eqI)+
qed

lemma uint_minus_less: "uint (a :: u32) - uint (b :: u32) < 4294967296"
    "uint (c :: u64) - uint (d :: u64) < 18446744073709551616"
  using le_less_trans [OF _ uint_lt2p [of a], of "uint a - uint b"]
    le_less_trans [OF _ uint_lt2p [of c], of "uint c - uint d"] by simp_all

lemma shift_count_32: "unat ((b :: u32) AND 0x1F) = unat b mod 32"
proof -
  have "b AND 0x1F = take_bit 5 b" by (simp add: take_bit_eq_mask mask_eq_exp_minus_1)
  then show ?thesis by (simp add: unat_mod take_bit_eq_mod)
qed

lemma shift_count_64: "unat ((b :: u32) AND 0x3F) = unat b mod 64"
proof -
  have "b AND 0x3F = take_bit 6 b" by (simp add: take_bit_eq_mask mask_eq_exp_minus_1)
  then show ?thesis by (simp add: unat_mod take_bit_eq_mod)
qed

lemmas long_result_defs = long_result_def map_conv_bind_option

interpretation iadd: binop_handler COP_IADD 1 "\<lambda>a b. Inr (word_of_int (sint a + sint b))"
  by unfold_locales (simp_all add: COP_IADD_def)

interpretation iadd_ovf: binop_handler COP_IADD_OVF 1 "\<lambda>a b. checked32 (sint a + sint b)"
  by unfold_locales (auto simp: COP_IADD_OVF_def IAddOvf_exact checked32_def split: if_splits)

interpretation iadd_ovf_un: binop_handler COP_IADD_OVF_UN 1 "\<lambda>a b. checked_u32 (uint a + uint b)"
  by unfold_locales (auto simp: COP_IADD_OVF_UN_def IUAddOvf_exact checked_u32_def split: if_splits)

interpretation isub: binop_handler COP_ISUB 1 "\<lambda>a b. Inr (word_of_int (sint a - sint b))"
  by unfold_locales (simp_all add: COP_ISUB_def)

interpretation isub_ovf: binop_handler COP_ISUB_OVF 1 "\<lambda>a b. checked32 (sint a - sint b)"
  by unfold_locales (auto simp: COP_ISUB_OVF_def ISubOvf_exact checked32_def split: if_splits)

interpretation isub_ovf_un: binop_handler COP_ISUB_OVF_UN 1 "\<lambda>a b. checked_u32 (uint a - uint b)"
  by unfold_locales (auto simp: COP_ISUB_OVF_UN_def IUSubOvf_exact checked_u32_def uint_minus_less split: if_splits)

interpretation imul: binop_handler COP_IMUL 1 "\<lambda>a b. Inr (word_of_int (sint a * sint b))"
  by unfold_locales (simp_all add: COP_IMUL_def)

interpretation imul_ovf: binop_handler COP_IMUL_OVF 1 "\<lambda>a b. checked32 (sint a * sint b)"
  by unfold_locales (auto simp: COP_IMUL_OVF_def IMulOvf_exact checked32_def split: if_splits)

interpretation imul_ovf_un: binop_handler COP_IMUL_OVF_UN 1 "\<lambda>a b. checked_u32 (uint a * uint b)"
  by unfold_locales (auto simp: COP_IMUL_OVF_UN_def IUMulOvf_exact checked_u32_def split: if_splits)

interpretation idiv: binop_handler COP_IDIV 1 "spec_idiv (sdiv)"
  by unfold_locales (auto simp: COP_IDIV_def spec_idiv_def sint_0_iff minus_1_iff min_int_iff split: if_splits)

interpretation idiv_un: binop_handler COP_IDIV_UN 1 "spec_idiv_un (div)"
  by unfold_locales (auto simp: COP_IDIV_UN_def spec_idiv_un_def word_div_def uint_0_iff split: if_splits)

interpretation irem: binop_handler COP_IREM 1 "spec_idiv (smod)"
  by unfold_locales (auto simp: COP_IREM_def spec_idiv_def sint_0_iff minus_1_iff min_int_iff split: if_splits)

interpretation irem_un: binop_handler COP_IREM_UN 1 "spec_idiv_un (mod)"
  by unfold_locales (auto simp: COP_IREM_UN_def spec_idiv_un_def word_mod_def uint_0_iff split: if_splits)

interpretation ineg: unop_handler COP_INEG 1 "\<lambda>a. word_of_int (- sint a)"
  by unfold_locales (simp_all add: COP_INEG_def)

interpretation ladd: long_binop_handler COP_LADD 1 "\<lambda>a b. Inr (word_of_int (sint a + sint b))"
  by unfold_locales (simp_all add: COP_LADD_def)

interpretation ladd_ovf: long_binop_handler COP_LADD_OVF 1 "\<lambda>a b. checked64 (sint a + sint b)"
  by unfold_locales (auto simp: COP_LADD_OVF_def LAddOvf_exact checked64_def long_result_defs split: if_splits)

interpretation ladd_ovf_un: long_binop_handler COP_LADD_OVF_UN 1 "\<lambda>a b. checked_u64 (uint a + uint b)"
  by unfold_locales (auto simp: COP_LADD_OVF_UN_def LUAddOvf_exact checked_u64_def long_result_defs split: if_splits)

interpretation lsub: long_binop_handler COP_LSUB 1 "\<lambda>a b. Inr (word_of_int (sint a - sint b))"
  by unfold_locales (simp_all add: COP_LSUB_def)

interpretation lsub_ovf: long_binop_handler COP_LSUB_OVF 1 "\<lambda>a b. checked64 (sint a - sint b)"
  by unfold_locales (auto simp: COP_LSUB_OVF_def LSubOvf_exact checked64_def long_result_defs split: if_splits)

interpretation lsub_ovf_un: long_binop_handler COP_LSUB_OVF_UN 1 "\<lambda>a b. checked_u64 (uint a - uint b)"
  by unfold_locales (auto simp: COP_LSUB_OVF_UN_def LUSubOvf_exact checked_u64_def long_result_defs uint_minus_less split: if_splits)

interpretation lmul: long_binop_handler COP_LMUL 1 "\<lambda>a b. Inr (word_of_int (sint a * sint b))"
  by unfold_locales (simp_all add: COP_LMUL_def)

interpretation lmul_ovf: long_binop_handler COP_LMUL_OVF 1 "\<lambda>a b. checked64 (sint a * sint b)"
  by unfold_locales (auto simp: COP_LMUL_OVF_def LMulOvf_exact checked64_def long_result_defs split: if_splits)

interpretation lmul_ovf_un: long_binop_handler COP_LMUL_OVF_UN 1 "\<lambda>a b. checked_u64 (uint a * uint b)"
  by unfold_locales (auto simp: COP_LMUL_OVF_UN_def LUMulOvf_exact checked_u64_def long_result_defs split: if_splits)

interpretation ldiv: long_binop_handler COP_LDIV 1 "spec_ldiv (sdiv)"
  by unfold_locales (auto simp: COP_LDIV_def LDiv_def spec_ldiv_def sint_0_iff minus_1_iff min_int_iff split: if_splits)

interpretation ldiv_un: long_binop_handler COP_LDIV_UN 1 "spec_ldiv_un (div)"
  by unfold_locales (auto simp: COP_LDIV_UN_def LUDiv_def spec_ldiv_un_def word_div_def uint_0_iff split: if_splits)

interpretation lrem: long_binop_handler COP_LREM 1 "spec_ldiv (smod)"
  by unfold_locales (auto simp: COP_LREM_def LRem_def spec_ldiv_def sint_0_iff minus_1_iff min_int_iff split: if_splits)

interpretation lrem_un: long_binop_handler COP_LREM_UN 1 "spec_ldiv_un (mod)"
  by unfold_locales (auto simp: COP_LREM_UN_def LURem_def spec_ldiv_un_def word_mod_def uint_0_iff split: if_splits)

interpretation lneg: long_unop_handler COP_LNEG 1 "\<lambda>a. word_of_int (- sint a)"
  by unfold_locales (simp_all add: COP_LNEG_def)

interpretation iand: binop_handler COP_IAND 1 "\<lambda>a b. Inr (a AND b)"
  by unfold_locales (simp_all add: COP_IAND_def)

interpretation ior: binop_handler COP_IOR 1 "\<lambda>a b. Inr (a OR b)"
  by unfold_locales (simp_all add: COP_IOR_def)

interpretation ixor: binop_handler COP_IXOR 1 "\<lambda>a b. Inr (a XOR b)"
  by unfold_locales (simp_all add: COP_IXOR_def)

interpretation inot: unop_handler COP_INOT 1 "\<lambda>a. NOT a"
  by unfold_locales (simp_all add: COP_INOT_def)

interpretation ishl: binop_handler COP_ISHL 1 "\<lambda>a b. Inr (push_bit (unat b mod 32) a)"
  by unfold_locales (simp_all add: COP_ISHL_def shift_count_32)

interpretation ishr: binop_handler COP_ISHR 1 "\<lambda>a b. Inr (signed_drop_bit (unat b mod 32) a)"
  by unfold_locales (simp_all add: COP_ISHR_def shift_count_32)

interpretation ishr_un: binop_handler COP_ISHR_UN 1 "\<lambda>a b. Inr (drop_bit (unat b mod 32) a)"
  by unfold_locales (simp_all add: COP_ISHR_UN_def shift_count_32)

interpretation land: long_binop_handler COP_LAND 1 "\<lambda>a b. Inr (a AND b)"
  by unfold_locales (simp_all add: COP_LAND_def)

interpretation lor: long_binop_handler COP_LOR 1 "\<lambda>a b. Inr (a OR b)"
  by unfold_locales (simp_all add: COP_LOR_def)

interpretation lxor: long_binop_handler COP_LXOR 1 "\<lambda>a b. Inr (a XOR b)"
  by unfold_locales (simp_all add: COP_LXOR_def)

interpretation lnot: long_unop_handler COP_LNOT 1 "\<lambda>a. NOT a"
  by unfold_locales (simp_all add: COP_LNOT_def)

interpretation lshl: long_shift_handler COP_LSHL 1 "\<lambda>a n. push_bit (unat n mod 64) a"
  by unfold_locales (simp_all add: COP_LSHL_def LShiftLeft_def shift_count_64)

interpretation lshr: long_shift_handler COP_LSHR 1 "\<lambda>a n. signed_drop_bit (unat n mod 64) a"
  by unfold_locales (simp_all add: COP_LSHR_def LShiftRight_def shift_count_64)

interpretation lshr_un: long_shift_handler COP_LSHR_UN 1 "\<lambda>a n. drop_bit (unat n mod 64) a"
  by unfold_locales (simp_all add: COP_LSHR_UN_def LUShiftRight_def shift_count_64)

section \<open>Quotient and remainder\<close>

lemma sdiv_range:
  fixes i j m :: int
  assumes "- m \<le> i" and "i < m" and "\<not> (j = -1 \<and> i = - m)"
  shows "- m \<le> i sdiv j \<and> i sdiv j < m"
proof -
  have r: "- \<bar>i\<bar> \<le> i sdiv j" "i sdiv j \<le> \<bar>i\<bar>" using sdiv_int_range [of i j] by simp_all
  have "i sdiv j \<noteq> m"
  proof
    assume q: "i sdiv j = m"
    with r(2) assms(1,2) have "i = - m" "m > 0" by linarith+
    with q have "i sdiv j = - i" "i \<noteq> 0" by simp_all
    then have "j = -1" by (simp add: int_sdiv_negated_is_minus1)
    with \<open>i = - m\<close> assms(3) show False by simp
  qed
  with r assms(1,2) show ?thesis by linarith
qed

lemma smod_range:
  fixes i j m :: int
  assumes "j \<noteq> 0" and "- m \<le> j" and "j < m"
  shows "- m \<le> i smod j \<and> i smod j < m \<and> \<bar>i smod j\<bar> < \<bar>j\<bar>"
proof -
  have "- \<bar>j\<bar> + 1 \<le> i smod j" "i smod j \<le> \<bar>j\<bar> - 1"
    using smod_int_range [OF assms(1), of i] by simp_all
  then show ?thesis using assms(2,3) by linarith
qed

lemma smod_sign:
  assumes "(j :: int) \<noteq> 0"
  shows "i smod j = 0 \<or> sgn (i smod j) = sgn i"
proof -
  have "0 \<le> \<bar>i\<bar> mod \<bar>j\<bar>" using assms by simp
  then show ?thesis by (auto simp: signed_modulo_int_def sgn_mult sgn_1_pos)
qed

section \<open>Properties\<close>

text \<open>The unchecked \<open>int32\<close> and \<open>int64\<close> additions, subtractions, multiplications and
  negations leave the low 32 or 64 bits of the exact mathematical result in place of their
  operands, advance by one byte and change nothing else.\<close>

lemma wrapping_arithmetic_effects:
  "performs COP_IADD 1 2 (spec2 (\<lambda>a b. Inr (word_of_int (sint a + sint b)))) \<and>
   performs COP_ISUB 1 2 (spec2 (\<lambda>a b. Inr (word_of_int (sint a - sint b)))) \<and>
   performs COP_IMUL 1 2 (spec2 (\<lambda>a b. Inr (word_of_int (sint a * sint b)))) \<and>
   performs COP_INEG 1 1 (spec1 (\<lambda>a. Inr (word_of_int (- sint a)))) \<and>
   performs COP_LADD 1 4 (lspec2 (\<lambda>a b. Inr (word_of_int (sint a + sint b)))) \<and>
   performs COP_LSUB 1 4 (lspec2 (\<lambda>a b. Inr (word_of_int (sint a - sint b)))) \<and>
   performs COP_LMUL 1 4 (lspec2 (\<lambda>a b. Inr (word_of_int (sint a * sint b)))) \<and>
   performs COP_LNEG 1 2 (lspec1 (\<lambda>a. Inr (word_of_int (- sint a))))"
  using iadd.performs isub.performs imul.performs ineg.performs ladd.performs lsub.performs
    lmul.performs lneg.performs by blast

text \<open>C9: The overflow-checked \<open>int32\<close> instructions, signed and unsigned, raise
  \<open>OverflowException\<close> exactly when the mathematical result is not representable, and
  otherwise leave it on the stack.\<close>

theorem int32_overflow_detection_exact:
  "performs COP_IADD_OVF 1 2 (spec2 (\<lambda>a b. checked32 (sint a + sint b))) \<and>
   performs COP_IADD_OVF_UN 1 2 (spec2 (\<lambda>a b. checked_u32 (uint a + uint b))) \<and>
   performs COP_ISUB_OVF 1 2 (spec2 (\<lambda>a b. checked32 (sint a - sint b))) \<and>
   performs COP_ISUB_OVF_UN 1 2 (spec2 (\<lambda>a b. checked_u32 (uint a - uint b))) \<and>
   performs COP_IMUL_OVF 1 2 (spec2 (\<lambda>a b. checked32 (sint a * sint b))) \<and>
   performs COP_IMUL_OVF_UN 1 2 (spec2 (\<lambda>a b. checked_u32 (uint a * uint b)))"
  using iadd_ovf.performs iadd_ovf_un.performs isub_ovf.performs isub_ovf_un.performs
    imul_ovf.performs imul_ovf_un.performs by blast

text \<open>C8: The same for the overflow-checked \<open>int64\<close> instructions, whose multiplications are
  built from 32-bit partial products.\<close>

theorem int64_overflow_detection_exact:
  "performs COP_LADD_OVF 1 4 (lspec2 (\<lambda>a b. checked64 (sint a + sint b))) \<and>
   performs COP_LADD_OVF_UN 1 4 (lspec2 (\<lambda>a b. checked_u64 (uint a + uint b))) \<and>
   performs COP_LSUB_OVF 1 4 (lspec2 (\<lambda>a b. checked64 (sint a - sint b))) \<and>
   performs COP_LSUB_OVF_UN 1 4 (lspec2 (\<lambda>a b. checked_u64 (uint a - uint b))) \<and>
   performs COP_LMUL_OVF 1 4 (lspec2 (\<lambda>a b. checked64 (sint a * sint b))) \<and>
   performs COP_LMUL_OVF_UN 1 4 (lspec2 (\<lambda>a b. checked_u64 (uint a * uint b)))"
  using ladd_ovf.performs ladd_ovf_un.performs lsub_ovf.performs lsub_ovf_un.performs
    lmul_ovf.performs lmul_ovf_un.performs by blast

text \<open>C35: In the default build, where the checks are made in software, the division and remainder instructions
  truncate toward zero.  The signed \<open>int32\<close> forms raise \<open>ArithmeticException\<close> both for a zero divisor and for the
  smallest value divided by -1, and the unsigned ones for a zero divisor; the \<open>int64\<close> forms raise
  \<open>DivideByZeroException\<close> for a zero divisor and the signed ones \<open>ArithmeticException\<close> for the smallest value
  divided by -1.  The instruction reference in the comments of the code says something else for the
  \<open>int32\<close> forms with a zero divisor, and exchanges the operands of the overflowing division in all signed forms.\<close>

theorem division_effects:
  "performs COP_IDIV 1 2 (spec2 (spec_idiv (sdiv))) \<and> performs COP_IDIV_UN 1 2 (spec2 (spec_idiv_un (div))) \<and>
   performs COP_IREM 1 2 (spec2 (spec_idiv (smod))) \<and> performs COP_IREM_UN 1 2 (spec2 (spec_idiv_un (mod))) \<and>
   performs COP_LDIV 1 4 (lspec2 (spec_ldiv (sdiv))) \<and> performs COP_LDIV_UN 1 4 (lspec2 (spec_ldiv_un (div))) \<and>
   performs COP_LREM 1 4 (lspec2 (spec_ldiv (smod))) \<and> performs COP_LREM_UN 1 4 (lspec2 (spec_ldiv_un (mod)))"
  using idiv.performs idiv_un.performs irem.performs irem_un.performs ldiv.performs ldiv_un.performs
    lrem.performs lrem_un.performs by blast

text \<open>On the same operands \<^const>\<open>COP_IDIV\<close> and \<^const>\<open>COP_IREM\<close> leave a quotient and a
  remainder that fit together: the dividend is quotient times divisor plus remainder in exact
  arithmetic, the remainder is smaller than the divisor and has the sign of the dividend.\<close>

lemma idiv_irem_identity:
  assumes "split_at s base [a, b] spare" and "b \<noteq> 0" and "\<not> (a = IL_MIN_INT32 \<and> b = -1)"
  shows "\<exists>q r. COP_IDIV s = Some (Next (s\<lparr>pc := pc s + 1, stacktop := int (length base) + 1, stack := base @ [q] @ b # spare\<rparr>)) \<and>
    COP_IREM s = Some (Next (s\<lparr>pc := pc s + 1, stacktop := int (length base) + 1, stack := base @ [r] @ b # spare\<rparr>)) \<and>
    sint a = sint q * sint b + sint r \<and> \<bar>sint r\<bar> < \<bar>sint b\<bar> \<and> (sint r = 0 \<or> sgn (sint r) = sgn (sint a))"
proof -
  let ?q = "sint a sdiv sint b" and ?r = "sint a smod sint b"
  have b: "sint b \<noteq> 0" using assms(2) by (simp add: sint_0_iff)
  have m: "\<not> (sint b = -1 \<and> sint a = - (2 ^ 31))"
    using assms(3) minus_1_iff [of b] min_int_iff(1) [of a] by blast
  have q: "sint (word_of_int ?q :: u32) = ?q"
    using sdiv_range [OF sint_range_32 [of a] m] sint_wrap_32 [of ?q] by simp
  have r: "sint (word_of_int ?r :: u32) = ?r"
    using smod_range [OF b sint_range_32 [of b], of "sint a"] sint_wrap_32 [of ?r] by simp
  have "spec_idiv (sdiv) a b = Inr (word_of_int ?q)" "spec_idiv (smod) a b = Inr (word_of_int ?r)"
    using b m by (auto simp: spec_idiv_def)
  from idiv.effect(1) [OF assms(1) this(1)] irem.effect(1) [OF assms(1) this(2)]
  show ?thesis
    using smod_range [OF b sint_range_32 [of b], of "sint a"] smod_sign [OF b, of "sint a"]
    by (intro exI [of _ "word_of_int ?q"] exI [of _ "word_of_int ?r"])
      (simp only: q r sdiv_mult_smod_eq simp_thms)
qed

lemma idiv_irem_identity_witness:
  "\<exists>q r. COP_IDIV (machine [- 7, 2, 0] 2 [0x4C]) = Some (Next ((machine [q, 2, 0] 1 [0x4C])\<lparr>pc := 1\<rparr>)) \<and>
    COP_IREM (machine [- 7, 2, 0] 2 [0x4C]) = Some (Next ((machine [r, 2, 0] 1 [0x4C])\<lparr>pc := 1\<rparr>)) \<and>
    - 7 = sint q * 2 + sint r \<and> \<bar>sint r\<bar> < 2 \<and> (sint r = 0 \<or> sgn (sint r) = - 1)"
  using idiv_irem_identity [of "machine [- 7, 2, 0] 2 [0x4C]" "[]" "- 7" 2 "[0]"]
  by (simp add: machine_def split_at_def)

text \<open>The bitwise and shift instructions act bit by bit on their operands; the shift count
  is taken modulo the operand width and the signed right shift copies the sign bit.\<close>

lemma bitwise_effects:
  "performs COP_IAND 1 2 (spec2 (\<lambda>a b. Inr (a AND b))) \<and> performs COP_IOR 1 2 (spec2 (\<lambda>a b. Inr (a OR b))) \<and>
   performs COP_IXOR 1 2 (spec2 (\<lambda>a b. Inr (a XOR b))) \<and> performs COP_INOT 1 1 (spec1 (\<lambda>a. Inr (NOT a))) \<and>
   performs COP_ISHL 1 2 (spec2 (\<lambda>a b. Inr (push_bit (unat b mod 32) a))) \<and>
   performs COP_ISHR 1 2 (spec2 (\<lambda>a b. Inr (signed_drop_bit (unat b mod 32) a))) \<and>
   performs COP_ISHR_UN 1 2 (spec2 (\<lambda>a b. Inr (drop_bit (unat b mod 32) a))) \<and>
   performs COP_LAND 1 4 (lspec2 (\<lambda>a b. Inr (a AND b))) \<and> performs COP_LOR 1 4 (lspec2 (\<lambda>a b. Inr (a OR b))) \<and>
   performs COP_LXOR 1 4 (lspec2 (\<lambda>a b. Inr (a XOR b))) \<and> performs COP_LNOT 1 2 (lspec1 (\<lambda>a. Inr (NOT a))) \<and>
   performs COP_LSHL 1 3 (lspec_shift (\<lambda>a n. push_bit (unat n mod 64) a)) \<and>
   performs COP_LSHR 1 3 (lspec_shift (\<lambda>a n. signed_drop_bit (unat n mod 64) a)) \<and>
   performs COP_LSHR_UN 1 3 (lspec_shift (\<lambda>a n. drop_bit (unat n mod 64) a))"
  using iand.performs ior.performs ixor.performs inot.performs ishl.performs ishr.performs
    ishr_un.performs land.performs lor.performs lxor.performs lnot.performs lshl.performs
    lshr.performs lshr_un.performs by blast

end
