(* ===== verification/CvmCompare.thy ===== *)
theory CvmCompare
  imports CvmContract
begin

text \<open>
  The comparison instructions (\<^verbatim>\<open>engine/cvm_compare.c\<close>): three-way comparisons of
  \<open>int32\<close>, \<open>int64\<close> and pointer operands, and the instructions that turn a three-way
  result into a truth value.  The two floating-point comparisons of the file are not
  modelled.
\<close>

section \<open>Handlers\<close>

definition LCmp :: "int \<Rightarrow> int \<Rightarrow> cvm_state \<Rightarrow> u32 option" where
  "LCmp a b s = do {
     tempa \<leftarrow> ReadLong a s;
     tempb \<leftarrow> ReadLong b s;
     Some (if sint tempa < sint tempb then - 1 else if sint tempa > sint tempb then 1 else 0)
   }"

definition LUCmp :: "int \<Rightarrow> int \<Rightarrow> cvm_state \<Rightarrow> u32 option" where
  "LUCmp a b s = do {
     tempa \<leftarrow> ReadULong a s;
     tempb \<leftarrow> ReadULong b s;
     Some (if tempa < tempb then - 1 else if tempa > tempb then 1 else 0)
   }"

definition COP_PREFIX_ICMP :: handler where
  "COP_PREFIX_ICMP s = do {
     a \<leftarrow> tos (-2) s;
     b \<leftarrow> tos (-1) s;
     s \<leftarrow> (if sint a < sint b then set_tos (-2) (- 1) s
           else if sint a > sint b then set_tos (-2) 1 s
           else set_tos (-2) 0 s);
     next_ins CVMP_LEN_NONE (-1) s
   }"

definition COP_PREFIX_ICMP_UN :: handler where
  "COP_PREFIX_ICMP_UN s = do {
     a \<leftarrow> tos (-2) s;
     b \<leftarrow> tos (-1) s;
     s \<leftarrow> (if a < b then set_tos (-2) (- 1) s
           else if a > b then set_tos (-2) 1 s
           else set_tos (-2) 0 s);
     next_ins CVMP_LEN_NONE (-1) s
   }"

definition COP_PREFIX_LCMP :: handler where
  "COP_PREFIX_LCMP s = do {
     r \<leftarrow> LCmp (tos_addr (-4) s) (tos_addr (-2) s) s;
     s \<leftarrow> set_tos (-4) r s;
     next_ins CVMP_LEN_NONE (-3) s
   }"

definition COP_PREFIX_LCMP_UN :: handler where
  "COP_PREFIX_LCMP_UN s = do {
     r \<leftarrow> LUCmp (tos_addr (-4) s) (tos_addr (-2) s) s;
     s \<leftarrow> set_tos (-4) r s;
     next_ins CVMP_LEN_NONE (-3) s
   }"

definition COP_PREFIX_PCMP :: handler where
  "COP_PREFIX_PCMP s = do {
     a \<leftarrow> tos (-2) s;
     b \<leftarrow> tos (-1) s;
     s \<leftarrow> (if a < b then set_tos (-2) (- 1) s
           else if a > b then set_tos (-2) 1 s
           else set_tos (-2) 0 s);
     next_ins CVMP_LEN_NONE (-1) s
   }"

definition COP_PREFIX_SETEQ :: handler where
  "COP_PREFIX_SETEQ s = do {
     a \<leftarrow> tos (-1) s;
     s \<leftarrow> set_tos (-1) (of_bool (sint a = 0)) s;
     next_ins CVMP_LEN_NONE 0 s
   }"

definition COP_PREFIX_SETNE :: handler where
  "COP_PREFIX_SETNE s = do {
     a \<leftarrow> tos (-1) s;
     s \<leftarrow> set_tos (-1) (of_bool (sint a \<noteq> 0)) s;
     next_ins CVMP_LEN_NONE 0 s
   }"

definition COP_PREFIX_SETLT :: handler where
  "COP_PREFIX_SETLT s = do {
     a \<leftarrow> tos (-1) s;
     s \<leftarrow> set_tos (-1) (of_bool (sint a < 0)) s;
     next_ins CVMP_LEN_NONE 0 s
   }"

definition COP_PREFIX_SETLE :: handler where
  "COP_PREFIX_SETLE s = do {
     a \<leftarrow> tos (-1) s;
     s \<leftarrow> set_tos (-1) (of_bool (sint a \<le> 0)) s;
     next_ins CVMP_LEN_NONE 0 s
   }"

definition COP_PREFIX_SETGT :: handler where
  "COP_PREFIX_SETGT s = do {
     a \<leftarrow> tos (-1) s;
     s \<leftarrow> set_tos (-1) (of_bool (sint a > 0)) s;
     next_ins CVMP_LEN_NONE 0 s
   }"

definition COP_PREFIX_SETGE :: handler where
  "COP_PREFIX_SETGE s = do {
     a \<leftarrow> tos (-1) s;
     s \<leftarrow> set_tos (-1) (of_bool (sint a \<ge> 0)) s;
     next_ins CVMP_LEN_NONE 0 s
   }"

section \<open>Specification and interpretation\<close>

text \<open>The sign of the difference, as an \<open>int32\<close>.\<close>

definition compare3 :: "int \<Rightarrow> int \<Rightarrow> u32" where
  "compare3 i j = word_of_int (sgn (i - j))"

lemma compare3_simps:
  "i < j \<Longrightarrow> compare3 i j = - 1" "j < i \<Longrightarrow> compare3 i j = 1" "compare3 i i = 0"
  by (simp_all add: compare3_def)

lemma sint_compare3: "sint (compare3 i j) = sgn (i - j)"
  by (cases i j rule: linorder_cases) (simp_all add: compare3_simps)

interpretation icmp: binop_handler COP_PREFIX_ICMP 2 "\<lambda>a b. Inr (compare3 (sint a) (sint b))"
  by unfold_locales (auto simp: COP_PREFIX_ICMP_def compare3_def)

interpretation icmp_un: binop_handler COP_PREFIX_ICMP_UN 2 "\<lambda>a b. Inr (compare3 (uint a) (uint b))"
  by unfold_locales (auto simp: COP_PREFIX_ICMP_UN_def compare3_def word_less_def not_less)

interpretation lcmp: long_cmp_handler COP_PREFIX_LCMP 2 "\<lambda>a b. compare3 (sint a) (sint b)"
  by unfold_locales (auto simp: COP_PREFIX_LCMP_def LCmp_def compare3_def)

interpretation lcmp_un: long_cmp_handler COP_PREFIX_LCMP_UN 2 "\<lambda>a b. compare3 (uint a) (uint b)"
  by unfold_locales (auto simp: COP_PREFIX_LCMP_UN_def LUCmp_def compare3_def word_less_def not_less)

interpretation pcmp: binop_handler COP_PREFIX_PCMP 2 "\<lambda>a b. Inr (compare3 (uint a) (uint b))"
  by unfold_locales (auto simp: COP_PREFIX_PCMP_def compare3_def word_less_def not_less)

interpretation seteq: unop_handler COP_PREFIX_SETEQ 2 "\<lambda>a. of_bool (sint a = 0)"
  by unfold_locales (simp add: COP_PREFIX_SETEQ_def)

interpretation setne: unop_handler COP_PREFIX_SETNE 2 "\<lambda>a. of_bool (sint a \<noteq> 0)"
  by unfold_locales (simp add: COP_PREFIX_SETNE_def)

interpretation setlt: unop_handler COP_PREFIX_SETLT 2 "\<lambda>a. of_bool (sint a < 0)"
  by unfold_locales (simp add: COP_PREFIX_SETLT_def)

interpretation setle: unop_handler COP_PREFIX_SETLE 2 "\<lambda>a. of_bool (sint a \<le> 0)"
  by unfold_locales (simp add: COP_PREFIX_SETLE_def)

interpretation setgt: unop_handler COP_PREFIX_SETGT 2 "\<lambda>a. of_bool (sint a > 0)"
  by unfold_locales (simp add: COP_PREFIX_SETGT_def)

interpretation setge: unop_handler COP_PREFIX_SETGE 2 "\<lambda>a. of_bool (sint a \<ge> 0)"
  by unfold_locales (simp add: COP_PREFIX_SETGE_def)

section \<open>Compare and set\<close>

text \<open>The code generator emits a comparison followed by a \<open>set\<close> instruction.\<close>

definition then_run :: "handler \<Rightarrow> handler \<Rightarrow> handler" where
  "then_run h1 h2 s = (case h1 s of Some (Next s') \<Rightarrow> h2 s' | r \<Rightarrow> r)"

lemma performs_then_run:
  assumes h1: "performs h1 len1 n (\<lambda>ws. Inr (f ws))" and h2: "performs h2 len2 m (\<lambda>ws. Inr (g ws))"
    and f: "\<And>ws. length ws = n \<Longrightarrow> length (f ws) = m" and g: "\<And>ws. length ws = m \<Longrightarrow> length (g ws) \<le> m"
    and "m \<le> n"
  shows "performs (then_run h1 h2) (len1 + len2) n (\<lambda>ws. Inr (g (f ws)))"
proof (rule performsI)
  fix s base ws spare out
  assume sp: "split_at s base ws spare" and n: "length ws = n"
    and "(Inr (g (f ws)) :: exn + u32 list) = Inr out"
  then have out: "out = g (f ws)" by simp
  from h1 sp n obtain spare1 where l1: "length (f ws) + length spare1 = n + length spare"
    and s1: "h1 s = Some (Next (s\<lparr>pc := pc s + len1, stacktop := int (length base) + int (length (f ws)),
         stack := base @ f ws @ spare1\<rparr>))"
    by (rule performs_cases) (use f [OF n] \<open>m \<le> n\<close> in auto)
  let ?s1 = "s\<lparr>pc := pc s + len1, stacktop := int (length base) + int (length (f ws)), stack := base @ f ws @ spare1\<rparr>"
  have sp1: "split_at ?s1 base (f ws) spare1" by (simp add: split_at_def)
  from h2 sp1 f [OF n] obtain spare2 where l2: "length out + length spare2 = m + length spare1"
    and s2: "h2 ?s1 = Some (Next (?s1\<lparr>pc := pc ?s1 + len2, stacktop := int (length base) + int (length out),
         stack := base @ out @ spare2\<rparr>))"
    by (rule performs_cases) (use g [OF f [OF n]] out in auto)
  show "\<exists>spare'. length out + length spare' = n + length spare \<and>
      then_run h1 h2 s = Some (Next (s\<lparr>pc := pc s + (len1 + len2),
        stacktop := int (length base) + int (length out), stack := base @ out @ spare'\<rparr>))"
    using s1 s2 l1 l2 f [OF n] by (intro exI [of _ spare2]) (simp add: then_run_def add.assoc)
qed simp

lemma total_specs:
  "spec1 (\<lambda>a. Inr (f1 a)) = (\<lambda>ws. Inr [f1 (ws ! 0)])"
  "spec2 (\<lambda>a b. Inr (f2 a b)) = (\<lambda>ws. Inr [f2 (ws ! 0) (ws ! 1)])"
  "lspec_cmp g = (\<lambda>ws. Inr [g (long_of (ws ! 0) (ws ! 1)) (long_of (ws ! 2) (ws ! 3))])"
  by (simp_all add: fun_eq_iff spec1_def spec2_def lspec_cmp_def)

lemma compare_then_set:
  assumes "performs h2 2 1 (spec1 (\<lambda>a. Inr (of_bool (P (sint a)))))"
  shows "performs h1 2 2 (spec2 (\<lambda>a b. Inr (compare3 (v a) (v b)))) \<Longrightarrow>
      performs (then_run h1 h2) 4 2 (spec2 (\<lambda>a b. Inr (of_bool (P (sgn (v a - v b))))))"
    and "performs h1 2 4 (lspec_cmp (\<lambda>a b. compare3 (w a) (w b))) \<Longrightarrow>
      performs (then_run h1 h2) 4 4 (lspec_cmp (\<lambda>a b. of_bool (P (sgn (w a - w b)))))"
proof -
  note h2 = assms [unfolded total_specs]
  show "performs h1 2 2 (spec2 (\<lambda>a b. Inr (compare3 (v a) (v b)))) \<Longrightarrow>
      performs (then_run h1 h2) 4 2 (spec2 (\<lambda>a b. Inr (of_bool (P (sgn (v a - v b))))))"
    unfolding total_specs by (drule performs_then_run [OF _ h2]) (simp_all add: sint_compare3)
  show "performs h1 2 4 (lspec_cmp (\<lambda>a b. compare3 (w a) (w b))) \<Longrightarrow>
      performs (then_run h1 h2) 4 4 (lspec_cmp (\<lambda>a b. of_bool (P (sgn (w a - w b)))))"
    unfolding total_specs by (drule performs_then_run [OF _ h2]) (simp_all add: sint_compare3)
qed

lemma sgn_tests:
  fixes i j :: int
  shows "sgn (i - j) = 0 \<longleftrightarrow> i = j" "sgn (i - j) < 0 \<longleftrightarrow> i < j" "sgn (i - j) \<le> 0 \<longleftrightarrow> i \<le> j"
    "0 < sgn (i - j) \<longleftrightarrow> j < i" "0 \<le> sgn (i - j) \<longleftrightarrow> j \<le> i"
  by (simp_all add: sgn_0_0 sgn_if)

section \<open>Properties\<close>

text \<open>The three-way comparisons leave \<open>-1\<close>, \<open>0\<close> or \<open>1\<close>, the sign of the difference of
  their operands read as signed, unsigned or pointer values, also where that difference
  does not fit in the operand type.\<close>

lemma comparison_effects:
  "performs COP_PREFIX_ICMP 2 2 (spec2 (\<lambda>a b. Inr (compare3 (sint a) (sint b)))) \<and>
   performs COP_PREFIX_ICMP_UN 2 2 (spec2 (\<lambda>a b. Inr (compare3 (uint a) (uint b)))) \<and>
   performs COP_PREFIX_LCMP 2 4 (lspec_cmp (\<lambda>a b. compare3 (sint a) (sint b))) \<and>
   performs COP_PREFIX_LCMP_UN 2 4 (lspec_cmp (\<lambda>a b. compare3 (uint a) (uint b))) \<and>
   performs COP_PREFIX_PCMP 2 2 (spec2 (\<lambda>a b. Inr (compare3 (uint a) (uint b))))"
  using icmp.performs icmp_un.performs lcmp.performs lcmp_un.performs pcmp.performs by blast

text \<open>A comparison followed by a \<open>set\<close> instruction, as the code generator emits them,
  computes the corresponding ordering predicate of the operands, for signed and unsigned
  \<open>int32\<close> and \<open>int64\<close> values.\<close>

lemma compare_and_set_effects:
  "performs (then_run COP_PREFIX_ICMP COP_PREFIX_SETEQ) 4 2 (spec2 (\<lambda>a b. Inr (of_bool (sint a = sint b)))) \<and>
   performs (then_run COP_PREFIX_ICMP COP_PREFIX_SETNE) 4 2 (spec2 (\<lambda>a b. Inr (of_bool (sint a \<noteq> sint b)))) \<and>
   performs (then_run COP_PREFIX_ICMP COP_PREFIX_SETLT) 4 2 (spec2 (\<lambda>a b. Inr (of_bool (sint a < sint b)))) \<and>
   performs (then_run COP_PREFIX_ICMP_UN COP_PREFIX_SETLE) 4 2 (spec2 (\<lambda>a b. Inr (of_bool (uint a \<le> uint b)))) \<and>
   performs (then_run COP_PREFIX_LCMP COP_PREFIX_SETLE) 4 4 (lspec_cmp (\<lambda>a b. of_bool (sint a \<le> sint b))) \<and>
   performs (then_run COP_PREFIX_LCMP COP_PREFIX_SETGT) 4 4 (lspec_cmp (\<lambda>a b. of_bool (sint b < sint a))) \<and>
   performs (then_run COP_PREFIX_LCMP_UN COP_PREFIX_SETGE) 4 4 (lspec_cmp (\<lambda>a b. of_bool (uint b \<le> uint a)))"
  using compare_then_set(1) [where P = "\<lambda>i. i = 0", OF seteq.performs icmp.performs]
    compare_then_set(1) [where P = "\<lambda>i. i \<noteq> 0", OF setne.performs icmp.performs]
    compare_then_set(1) [where P = "\<lambda>i. i < 0", OF setlt.performs icmp.performs]
    compare_then_set(1) [where P = "\<lambda>i. i \<le> 0", OF setle.performs icmp_un.performs]
    compare_then_set(2) [where P = "\<lambda>i. i \<le> 0", OF setle.performs lcmp.performs]
    compare_then_set(2) [where P = "\<lambda>i. 0 < i", OF setgt.performs lcmp.performs]
    compare_then_set(2) [where P = "\<lambda>i. 0 \<le> i", OF setge.performs lcmp_un.performs]
  unfolding sgn_tests by (intro conjI)

end
