(* ===== verification/CvmStack.thy ===== *)
theory CvmStack
  imports CvmContract
begin

text \<open>
  The stack manipulation instructions (\<^verbatim>\<open>engine/cvm_stack.c\<close>) and the instructions that
  load constants (\<^verbatim>\<open>engine/cvm_const.c\<close>), in their short and wide forms.  The garbage
  collected allocator that \<open>local_alloc\<close> calls is a parameter of its handler.
  The two floating-point constants are not modelled.
\<close>

section \<open>Stack instructions\<close>

definition COP_DUP :: handler where
  "COP_DUP s = do {
     a \<leftarrow> tos (-1) s;
     s \<leftarrow> set_tos 0 a s;
     next_ins CVM_LEN_NONE 1 s
   }"

definition COP_DUP2 :: handler where
  "COP_DUP2 s = do {
     a \<leftarrow> tos (-2) s;
     s \<leftarrow> set_tos 0 a s;
     b \<leftarrow> tos (-1) s;
     s \<leftarrow> set_tos 1 b s;
     next_ins CVM_LEN_NONE 2 s
   }"

definition COP_DUP_N :: handler where
  "COP_DUP_N s = do {
     tempNum \<leftarrow> CVM_ARG_WIDE_SMALL s;
     s \<leftarrow> copy_words (tos_addr 0 s) (tos_addr (- sint tempNum) s) (unat tempNum) s;
     next_ins CVM_LEN_WIDE_SMALL (uint tempNum) s
   }"

definition COP_DUP_WORD_N :: handler where
  "COP_DUP_WORD_N s = do {
     n \<leftarrow> CVM_ARG_WIDE_SMALL s;
     a \<leftarrow> tos (- (sint n + 1)) s;
     s \<leftarrow> set_tos 0 a s;
     next_ins CVM_LEN_WIDE_SMALL 1 s
   }"

definition COP_POP :: handler where
  "COP_POP s = next_ins CVM_LEN_NONE (-1) s"

definition COP_POP2 :: handler where
  "COP_POP2 s = next_ins CVM_LEN_NONE (-2) s"

definition COP_POP_N :: handler where
  "COP_POP_N s = do {
     n \<leftarrow> CVM_ARG_WIDE_SMALL s;
     next_ins CVM_LEN_WIDE_SMALL (- sint n) s
   }"

definition COP_SQUASH :: handler where
  "COP_SQUASH s = do {
     tempNum \<leftarrow> CVM_ARG_DWIDE1_SMALL s;
     tempSize \<leftarrow> CVM_ARG_DWIDE2_SMALL s;
     s \<leftarrow> move_words (tos_addr (- (sint tempNum + sint tempSize)) s) (tos_addr (- sint tempNum) s)
            (unat tempNum) s;
     next_ins CVM_LEN_DWIDE_SMALL (- sint tempSize) s
   }"

definition COP_CKHEIGHT :: handler where
  "COP_CKHEIGHT s =
     (if (word_of_int (stackmax s - stacktop s) :: u32) > 8 then next_ins CVM_LEN_WORD 0 s
      else throw StackOverflowException s)"

definition COP_CKHEIGHT_N :: handler where
  "COP_CKHEIGHT_N s = do {
     n \<leftarrow> CVM_ARG_WORD s;
     if (word_of_int (stackmax s - stacktop s) :: u32) > n then next_ins CVM_LEN_WORD 0 s
     else throw StackOverflowException s
   }"

definition COP_SET_NUM_ARGS :: handler where
  "COP_SET_NUM_ARGS s = do {
     n \<leftarrow> CVM_ARG_WIDE_SMALL s;
     let s = s\<lparr>frame := stacktop s - uint n\<rparr>;
     next_ins CVM_LEN_WIDE_SMALL 0 s
   }"

text \<open>The wide forms.\<close>

definition wide_COP_DUP_N :: handler where
  "wide_COP_DUP_N s = do {
     tempNum \<leftarrow> CVM_ARG_WIDE_LARGE s;
     s \<leftarrow> copy_words (tos_addr 0 s) (tos_addr (- sint tempNum) s) (unat tempNum) s;
     next_ins CVM_LEN_WIDE_LARGE (uint tempNum) s
   }"

definition wide_COP_DUP_WORD_N :: handler where
  "wide_COP_DUP_WORD_N s = do {
     n \<leftarrow> CVM_ARG_WIDE_LARGE s;
     a \<leftarrow> tos (- (sint n + 1)) s;
     s \<leftarrow> set_tos 0 a s;
     next_ins CVM_LEN_WIDE_LARGE 1 s
   }"

definition wide_COP_POP_N :: handler where
  "wide_COP_POP_N s = do {
     n \<leftarrow> CVM_ARG_WIDE_LARGE s;
     next_ins CVM_LEN_WIDE_LARGE (- sint n) s
   }"

definition wide_COP_SQUASH :: handler where
  "wide_COP_SQUASH s = do {
     tempNum \<leftarrow> CVM_ARG_DWIDE1_LARGE s;
     tempSize \<leftarrow> CVM_ARG_DWIDE2_LARGE s;
     s \<leftarrow> move_words (stacktop s - uint tempNum - uint tempSize) (stacktop s - uint tempNum)
            (unat tempNum) s;
     next_ins CVM_LEN_DWIDE_LARGE (- sint tempSize) s
   }"

definition wide_COP_SET_NUM_ARGS :: handler where
  "wide_COP_SET_NUM_ARGS s = do {
     n \<leftarrow> CVM_ARG_WIDE_LARGE s;
     let s = s\<lparr>frame := stacktop s - uint n\<rparr>;
     next_ins CVM_LEN_WIDE_LARGE 0 s
   }"

text \<open>The prefixed instructions.  \<open>ILGCAlloc\<close> gives the address of a block of the requested
  size, or 0; the answer is stored before it is tested.\<close>

definition COP_PREFIX_LOCAL_ALLOC :: "(u32 \<Rightarrow> u32) \<Rightarrow> handler" where
  "COP_PREFIX_LOCAL_ALLOC ILGCAlloc s = do {
     n \<leftarrow> tos (-1) s;
     let p = ILGCAlloc n;
     s \<leftarrow> set_tos (-1) p s;
     if p \<noteq> 0 then next_ins CVMP_LEN_NONE 0 s else throw StackOverflowException s
   }"

definition COP_PREFIX_REPL_WORD_N :: handler where
  "COP_PREFIX_REPL_WORD_N s = do {
     n \<leftarrow> CVMP_ARG_WORD s;
     a \<leftarrow> tos (-1) s;
     s \<leftarrow> set_tos (- (sint n + 1)) a s;
     next_ins CVMP_LEN_WORD (-1) s
   }"

section \<open>Constants\<close>

definition COP_LDNULL :: handler where
  "COP_LDNULL s = do { s \<leftarrow> set_tos 0 0 s; next_ins CVM_LEN_NONE 1 s }"

text \<open>The macro behind the ten one-byte integer constants.\<close>

definition COP_LDC_I4_VALUE :: "u32 \<Rightarrow> handler" where
  "COP_LDC_I4_VALUE value s = do { s \<leftarrow> set_tos 0 value s; next_ins CVM_LEN_NONE 1 s }"

definition COP_LDC_I4_M1 :: handler where "COP_LDC_I4_M1 = COP_LDC_I4_VALUE (- 1)"
definition COP_LDC_I4_0 :: handler where "COP_LDC_I4_0 = COP_LDC_I4_VALUE 0"
definition COP_LDC_I4_1 :: handler where "COP_LDC_I4_1 = COP_LDC_I4_VALUE 1"
definition COP_LDC_I4_2 :: handler where "COP_LDC_I4_2 = COP_LDC_I4_VALUE 2"
definition COP_LDC_I4_3 :: handler where "COP_LDC_I4_3 = COP_LDC_I4_VALUE 3"
definition COP_LDC_I4_4 :: handler where "COP_LDC_I4_4 = COP_LDC_I4_VALUE 4"
definition COP_LDC_I4_5 :: handler where "COP_LDC_I4_5 = COP_LDC_I4_VALUE 5"
definition COP_LDC_I4_6 :: handler where "COP_LDC_I4_6 = COP_LDC_I4_VALUE 6"
definition COP_LDC_I4_7 :: handler where "COP_LDC_I4_7 = COP_LDC_I4_VALUE 7"
definition COP_LDC_I4_8 :: handler where "COP_LDC_I4_8 = COP_LDC_I4_VALUE 8"

definition COP_LDC_I4_S :: handler where
  "COP_LDC_I4_S s = do {
     v \<leftarrow> CVM_ARG_SBYTE s;
     s \<leftarrow> set_tos 0 v s;
     next_ins CVM_LEN_BYTE 1 s
   }"

definition COP_LDC_I4 :: handler where
  "COP_LDC_I4 s = do {
     v \<leftarrow> CVM_ARG_WORD s;
     s \<leftarrow> set_tos 0 v s;
     next_ins CVM_LEN_WORD 1 s
   }"

definition COP_LDC_I8 :: handler where
  "COP_LDC_I8 s = do {
     v \<leftarrow> CVM_ARG_LONG s;
     s \<leftarrow> WriteLong (tos_addr 0 s) v s;
     next_ins CVM_LEN_LONG 2 s
   }"

section \<open>Interpretation of the contracts\<close>

interpretation dup: push_handler COP_DUP 1 "tos (-1)"
  by unfold_locales (auto simp: COP_DUP_def)

interpretation dup_word_n: push_handler COP_DUP_WORD_N 2 "\<lambda>s. CVM_ARG_WIDE_SMALL s \<bind> (\<lambda>n. tos (- (sint n + 1)) s)"
  by unfold_locales (auto simp: COP_DUP_WORD_N_def split: bind_splits)

interpretation wide_dup_word_n: push_handler wide_COP_DUP_WORD_N 6 "\<lambda>s. CVM_ARG_WIDE_LARGE s \<bind> (\<lambda>n. tos (- (sint n + 1)) s)"
  by unfold_locales (auto simp: wide_COP_DUP_WORD_N_def split: bind_splits)

interpretation ldnull: push_handler COP_LDNULL 1 "\<lambda>_. Some 0"
  by unfold_locales (auto simp: COP_LDNULL_def)

interpretation ldc_i4_m1: push_handler COP_LDC_I4_M1 1 "\<lambda>_. Some (- 1)"
  by unfold_locales (auto simp: COP_LDC_I4_M1_def COP_LDC_I4_VALUE_def)

interpretation ldc_i4_0: push_handler COP_LDC_I4_0 1 "\<lambda>_. Some (0)"
  by unfold_locales (auto simp: COP_LDC_I4_0_def COP_LDC_I4_VALUE_def)

interpretation ldc_i4_1: push_handler COP_LDC_I4_1 1 "\<lambda>_. Some (1)"
  by unfold_locales (auto simp: COP_LDC_I4_1_def COP_LDC_I4_VALUE_def)

interpretation ldc_i4_2: push_handler COP_LDC_I4_2 1 "\<lambda>_. Some (2)"
  by unfold_locales (auto simp: COP_LDC_I4_2_def COP_LDC_I4_VALUE_def)

interpretation ldc_i4_3: push_handler COP_LDC_I4_3 1 "\<lambda>_. Some (3)"
  by unfold_locales (auto simp: COP_LDC_I4_3_def COP_LDC_I4_VALUE_def)

interpretation ldc_i4_4: push_handler COP_LDC_I4_4 1 "\<lambda>_. Some (4)"
  by unfold_locales (auto simp: COP_LDC_I4_4_def COP_LDC_I4_VALUE_def)

interpretation ldc_i4_5: push_handler COP_LDC_I4_5 1 "\<lambda>_. Some (5)"
  by unfold_locales (auto simp: COP_LDC_I4_5_def COP_LDC_I4_VALUE_def)

interpretation ldc_i4_6: push_handler COP_LDC_I4_6 1 "\<lambda>_. Some (6)"
  by unfold_locales (auto simp: COP_LDC_I4_6_def COP_LDC_I4_VALUE_def)

interpretation ldc_i4_7: push_handler COP_LDC_I4_7 1 "\<lambda>_. Some (7)"
  by unfold_locales (auto simp: COP_LDC_I4_7_def COP_LDC_I4_VALUE_def)

interpretation ldc_i4_8: push_handler COP_LDC_I4_8 1 "\<lambda>_. Some (8)"
  by unfold_locales (auto simp: COP_LDC_I4_8_def COP_LDC_I4_VALUE_def)

interpretation ldc_i4_s: push_handler COP_LDC_I4_S 2 "CVM_ARG_SBYTE"
  by unfold_locales (auto simp: COP_LDC_I4_S_def)

interpretation ldc_i4: push_handler COP_LDC_I4 5 "CVM_ARG_WORD"
  by unfold_locales (auto simp: COP_LDC_I4_def)

lemma dup2_performs: "performs COP_DUP2 1 2 (\<lambda>ws. Inr (ws @ ws))"
proof (rule performsI)
  fix s base ws spare out
  assume sp: "split_at s base ws spare" and l: "length ws = 2" and "(Inr (ws @ ws) :: exn + u32 list) = Inr out"
    and room: "length out \<le> 2 + length spare"
  then have out: "out = ws @ ws" by simp
  from l obtain a b where ws: "ws = [a, b]" by (auto simp only: length_2_split)
  from room out l obtain x y rest where spare: "spare = x # y # rest"
    by (cases spare; cases "tl spare") auto
  note sp = sp [unfolded ws]
  note t = split_at_top [OF sp]
  let ?s1 = "s\<lparr>stack := base @ [a, b] @ a # y # rest\<rparr>"
  have sp1: "split_at ?s1 base [a, b] (a # y # rest)" unfolding split_at_update using t by simp
  have "set_tos 0 a s = Some ?s1" using set_word_spare [OF sp, of 0 a] by (simp add: spare)
  moreover have "set_tos 1 b ?s1 = Some (s\<lparr>stack := base @ [a, b] @ a # b # rest\<rparr>)"
    using set_word_spare [OF sp1, of 1 b] by simp
  ultimately show "\<exists>spare'. length out + length spare' = 2 + length spare \<and>
      COP_DUP2 s = Some (Next (s\<lparr>pc := pc s + 1, stacktop := int (length base) + int (length out),
        stack := base @ out @ spare'\<rparr>))"
    using tos_split2 [OF sp] tos_split2 [OF sp1] t
    by (intro exI [of _ rest]) (simp add: COP_DUP2_def out ws spare run_defs)
qed simp

lemma pop_performs: "performs COP_POP 1 1 (\<lambda>_. Inr [])" "performs COP_POP2 1 2 (\<lambda>_. Inr [])"
proof -
  have "\<exists>spare'. length spare' = n + length spare \<and>
      next_ins 1 (- int n) s = Some (Next (s\<lparr>pc := pc s + 1, stacktop := int (length base), stack := base @ spare'\<rparr>))"
    if "split_at s base ws spare" "length ws = n" for s base ws spare n
    using that by (intro exI [of _ "ws @ spare"]) (simp add: run_defs split_at_def)
  from this [where n = 1] this [where n = 2]
  show "performs COP_POP 1 1 (\<lambda>_. Inr [])" "performs COP_POP2 1 2 (\<lambda>_. Inr [])"
    by (auto intro!: performsI simp: COP_POP_def COP_POP2_def)
qed

interpretation dup2: operand_handler COP_DUP2 1 2 "\<lambda>ws. Inr (ws @ ws)"
  by unfold_locales (rule dup2_performs)

interpretation pop: operand_handler COP_POP 1 1 "\<lambda>_. Inr []"
  by unfold_locales (rule pop_performs)

interpretation pop2: operand_handler COP_POP2 1 2 "\<lambda>_. Inr []"
  by unfold_locales (rule pop_performs)

text \<open>A byte argument read as a word, and the integer views of a small word.\<close>

lemma sint_small: "unat (n :: u32) < 2 ^ 31 \<Longrightarrow> sint n = int (unat n)"
  by (simp add: sint_cases_32)

lemma ARG_BYTE_small: "CVM_ARG_BYTE s = Some n \<Longrightarrow> unat n < 2 ^ 8"
  "CVM_ARG_BYTE2 s = Some n \<Longrightarrow> unat n < 2 ^ 8"
  using unat_less_8 by (auto simp: CVM_ARG_BYTE_def CVM_ARG_BYTE2_def)

lemma dup_n_effect:
  assumes "CVM_ARG_WIDE_SMALL s = Some n" and "split_at s base ws spare" and "length ws = unat n"
    and "unat n \<le> length spare"
  shows "COP_DUP_N s = Some (Next (s\<lparr>pc := pc s + 2, stacktop := stacktop s + int (unat n),
    stack := base @ ws @ ws @ drop (unat n) spare\<rparr>))"
proof -
  have "sint n = int (length ws)" using ARG_BYTE_small(1) [OF assms(1)] assms(3) by (simp add: sint_small)
  then show ?thesis
    using assms copy_words_up [OF assms(2)] by (simp add: COP_DUP_N_def run_defs)
qed

lemma squash_effect:
  assumes "CVM_ARG_DWIDE1_SMALL s = Some n" and "CVM_ARG_DWIDE2_SMALL s = Some m"
    and "split_at s base (ms @ ns) spare" and "length ns = unat n" and "length ms = unat m"
  shows "COP_SQUASH s = Some (Next (s\<lparr>pc := pc s + 3, stacktop := stacktop s - int (unat m),
    stack := base @ ns @ drop (unat n) (ms @ ns) @ spare\<rparr>))"
proof -
  have "sint n = int (length ns)" "sint m = int (length ms)"
    using ARG_BYTE_small(1) [OF assms(1)] ARG_BYTE_small(2) [OF assms(2)] assms(4,5)
    by (simp_all add: sint_small)
  moreover from this have "tos_addr (- (sint n + sint m)) s = int (length base)"
    "tos_addr (- sint n) s = int (length base + length ms)"
    using assms(3) by (simp_all add: split_at_def tos_addr_def)
  ultimately show ?thesis
    using assms move_words_down [OF assms(3)] by (simp add: COP_SQUASH_def run_defs)
qed

lemma local_alloc_performs:
  "performs (COP_PREFIX_LOCAL_ALLOC alloc) 2 1
     (spec1 (\<lambda>n. if alloc n \<noteq> 0 then Inr (alloc n) else Inl StackOverflowException))"
proof (rule performsI)
  fix s base ws spare e
  assume sp: "split_at s base ws spare" and "length ws = 1"
    and e: "spec1 (\<lambda>n. if alloc n \<noteq> 0 then Inr (alloc n) else Inl StackOverflowException) ws = Inl e"
  then obtain a where ws: "ws = [a]" by (auto simp only: length_1_split)
  with e show "\<exists>ws'. length ws' = 1 \<and> COP_PREFIX_LOCAL_ALLOC alloc s = Some (Throw e (s\<lparr>stack := base @ ws' @ spare\<rparr>))"
    using tos_split1 [OF sp [unfolded ws]]
    by (intro exI [of _ "[0]"]) (auto simp: COP_PREFIX_LOCAL_ALLOC_def spec1_def run_defs split: if_splits)
next
  fix s base ws spare out
  assume sp: "split_at s base ws spare" and "length ws = 1"
    and out: "spec1 (\<lambda>n. if alloc n \<noteq> 0 then Inr (alloc n) else Inl StackOverflowException) ws = Inr out"
  then obtain a where ws: "ws = [a]" by (auto simp only: length_1_split)
  with out show "\<exists>spare'. length out + length spare' = 1 + length spare \<and>
      COP_PREFIX_LOCAL_ALLOC alloc s = Some (Next (s\<lparr>pc := pc s + 2,
        stacktop := int (length base) + int (length out), stack := base @ out @ spare'\<rparr>))"
    using tos_split1 [OF sp [unfolded ws]] split_at_top [OF sp [unfolded ws]]
    by (intro exI [of _ spare]) (auto simp: COP_PREFIX_LOCAL_ALLOC_def spec1_def run_defs Let_def split: if_splits)
qed

interpretation local_alloc: operand_handler "COP_PREFIX_LOCAL_ALLOC alloc" 2 1
  "spec1 (\<lambda>n. if alloc n \<noteq> 0 then Inr (alloc n) else Inl StackOverflowException)"
  by unfold_locales (rule local_alloc_performs)

text \<open>A two-word push.\<close>

definition pushes_long :: "handler \<Rightarrow> int \<Rightarrow> (cvm_state \<Rightarrow> u64 option) \<Rightarrow> bool" where
  "pushes_long h len v \<longleftrightarrow>
     (\<forall>s x. v s = Some x \<longrightarrow> 0 \<le> stacktop s \<longrightarrow> stacktop s + 1 < int (length (stack s)) \<longrightarrow>
        h s = Some (Next (s\<lparr>pc := pc s + len, stacktop := stacktop s + 2,
          stack := (stack s)[nat (stacktop s) := lo32 x, nat (stacktop s + 1) := hi32 x]\<rparr>)))"

lemma ldc_i8_pushes: "pushes_long COP_LDC_I8 9 CVM_ARG_LONG"
  by (auto simp: pushes_long_def COP_LDC_I8_def WriteLong_def set_word_def tos_addr_def run_defs)

lemma height_word:
  assumes "cvm_wf s" and "length (stack s) < 2 ^ 32"
  shows "(n :: u32) < word_of_int (stackmax s - stacktop s) \<longleftrightarrow> stacktop s + uint n < stackmax s"
proof -
  have "0 \<le> stackmax s - stacktop s" "stackmax s - stacktop s < 2 ^ 32"
    using assms by (simp_all add: cvm_wf_def)
  then have "uint (word_of_int (stackmax s - stacktop s) :: u32) = stackmax s - stacktop s"
    by (simp only: uint_word_of_int) (simp add: mod_pos_pos_trivial)
  then show ?thesis by (simp add: word_less_def less_diff_eq add.commute)
qed

section \<open>Properties\<close>

text \<open>The constant instructions push exactly the value that their name or their argument
  bytes denote: the sign-extended byte, the little-endian word, and for \<open>ldc_i8\<close> the two halves
  of the little-endian 64-bit value.\<close>

lemma constants_are_pushed:
  "pushes COP_LDNULL 1 (\<lambda>_. Some 0) \<and> pushes COP_LDC_I4_M1 1 (\<lambda>_. Some (- 1)) \<and>
   pushes COP_LDC_I4_0 1 (\<lambda>_. Some 0) \<and> pushes COP_LDC_I4_1 1 (\<lambda>_. Some 1) \<and>
   pushes COP_LDC_I4_2 1 (\<lambda>_. Some 2) \<and> pushes COP_LDC_I4_3 1 (\<lambda>_. Some 3) \<and>
   pushes COP_LDC_I4_4 1 (\<lambda>_. Some 4) \<and> pushes COP_LDC_I4_5 1 (\<lambda>_. Some 5) \<and>
   pushes COP_LDC_I4_6 1 (\<lambda>_. Some 6) \<and> pushes COP_LDC_I4_7 1 (\<lambda>_. Some 7) \<and>
   pushes COP_LDC_I4_8 1 (\<lambda>_. Some 8) \<and>
   pushes COP_LDC_I4_S 2 (\<lambda>s. map_option (\<lambda>b. word_of_int (sint b)) (code_at (pc s + 1) s)) \<and>
   pushes COP_LDC_I4 5 CVM_ARG_WORD \<and> pushes_long COP_LDC_I8 9 CVM_ARG_LONG"
  using ldnull.pushes ldc_i4_m1.pushes ldc_i4_0.pushes ldc_i4_1.pushes ldc_i4_2.pushes ldc_i4_3.pushes
    ldc_i4_4.pushes ldc_i4_5.pushes ldc_i4_6.pushes ldc_i4_7.pushes ldc_i4_8.pushes ldc_i4_s.pushes
    ldc_i4.pushes ldc_i8_pushes
  by (simp add: CVM_ARG_SBYTE_def [abs_def] cong: map_option_cong)

text \<open>The stack shuffling instructions: \<open>dup\<close> and \<open>dup2\<close> copy the top words, \<open>pop\<close> and
  \<open>pop2\<close> drop them, \<open>dup_n\<close> copies the \<open>n\<close> top words and \<open>squash\<close> removes \<open>m\<close> words from under
  the \<open>n\<close> top ones, all without touching what lies below.\<close>

lemma stack_shuffle_effects:
  assumes "CVM_ARG_WIDE_SMALL s = Some n" and "CVM_ARG_DWIDE2_SMALL s = Some m"
    and "split_at s base (ms @ ns) spare" and "length ns = unat n" and "length ms = unat m"
    and "unat n \<le> length spare"
  shows "pushes COP_DUP 1 (tos (-1)) \<and> performs COP_DUP2 1 2 (\<lambda>ws. Inr (ws @ ws)) \<and>
    performs COP_POP 1 1 (\<lambda>_. Inr []) \<and> performs COP_POP2 1 2 (\<lambda>_. Inr []) \<and>
    COP_DUP_N s = Some (Next (s\<lparr>pc := pc s + 2, stacktop := stacktop s + int (unat n),
      stack := base @ ms @ ns @ ns @ drop (unat n) spare\<rparr>)) \<and>
    COP_SQUASH s = Some (Next (s\<lparr>pc := pc s + 3, stacktop := stacktop s - int (unat m),
      stack := base @ ns @ drop (unat n) (ms @ ns) @ spare\<rparr>))"
proof -
  have "split_at s (base @ ms) ns spare" using assms(3) by (simp add: split_at_def)
  from dup_n_effect [OF assms(1) this assms(4,6)] squash_effect [OF assms(1-5)]
  show ?thesis using dup.pushes dup2_performs pop_performs by simp
qed

lemma stack_shuffle_effects_witness:
  "COP_SQUASH (machine [9, 1, 2, 3, 0, 0] 4 [0x3F, 1, 2]) =
     Some (Next ((machine [9, 3, 2, 3, 0, 0] 2 [0x3F, 1, 2])\<lparr>pc := 3\<rparr>))"
  using stack_shuffle_effects [of "machine [9, 1, 2, 3, 0, 0] 4 [0x3F, 1, 2]" 1 2 "[9]" "[1, 2]" "[3]" "[0, 0]"]
  by (simp add: machine_def split_at_def CVM_ARG_BYTE_def CVM_ARG_BYTE2_def code_at_def)

text \<open>The stack height checks are exact: \<open>ckheight_n\<close> lets the method continue precisely
  when \<open>n\<close> words and one for an exception object still fit below the stack limit, and raises
  \<open>StackOverflowException\<close> otherwise; \<open>ckheight\<close> does so for 8 words.\<close>

lemma height_checks_exact:
  assumes "cvm_wf s" and "length (stack s) < 2 ^ 32" and "CVM_ARG_WORD s = Some n"
  shows "COP_CKHEIGHT_N s = (if stacktop s + uint n + 1 \<le> stackmax s
      then Some (Next (s\<lparr>pc := pc s + 5\<rparr>)) else Some (Throw StackOverflowException s)) \<and>
    COP_CKHEIGHT s = (if stacktop s + 8 + 1 \<le> stackmax s
      then Some (Next (s\<lparr>pc := pc s + 5\<rparr>)) else Some (Throw StackOverflowException s))"
  using height_word [OF assms(1,2), of n] height_word [OF assms(1,2), of 8] assms(3)
  by (auto simp: COP_CKHEIGHT_N_def COP_CKHEIGHT_def run_defs)

lemma height_checks_exact_witness:
  "COP_CKHEIGHT_N (machine [1, 2, 3] 1 [0x41, 2, 0, 0, 0]) =
     Some (Throw StackOverflowException (machine [1, 2, 3] 1 [0x41, 2, 0, 0, 0]))"
  using height_checks_exact [of "machine [1, 2, 3] 1 [0x41, 2, 0, 0, 0]" 2]
  by (simp add: machine_def cvm_wf_def CVM_ARG_WORD_def IL_READ_UINT32_def code_at_def)

end
