(* ===== verification/CvmVar.thy ===== *)
theory CvmVar
  imports CvmStack
begin

text \<open>
  The instructions that move values between the evaluation stack and the words of the
  current frame (\<^verbatim>\<open>engine/cvm_var.c\<close>): arguments and local variables, in their short and
  wide forms.  \<open>i\<close> and \<open>p\<close> forms differ in the member of the \<^verbatim>\<open>CVMWord\<close> union they name
  and coincide where words and pointers have the same size.  The two floating-point
  fixups of the file are not modelled.
\<close>

section \<open>Handlers\<close>

text \<open>The frame word \<open>n\<close>, and the address of a stack word as the program sees it.\<close>

abbreviation frame_word :: "int \<Rightarrow> cvm_state \<Rightarrow> u32 option" where
  "frame_word n s \<equiv> word_at (frame s + n) s"

definition word_address :: "int \<Rightarrow> cvm_state \<Rightarrow> u32" where
  "word_address p s = stack_base s + 4 * word_of_int p"

text \<open>Storing into the first byte or the first two bytes of a little-endian word.\<close>

definition put_byte :: "u32 \<Rightarrow> u8 \<Rightarrow> u32" where
  "put_byte w b = (w AND NOT 0xFF) OR ucast b"

definition put_short :: "u32 \<Rightarrow> u16 \<Rightarrow> u32" where
  "put_short w h = (w AND NOT 0xFFFF) OR ucast h"

definition COP_ILOAD_N :: "int \<Rightarrow> handler" where
  "COP_ILOAD_N n s = do {
     v \<leftarrow> frame_word n s;
     s \<leftarrow> set_tos 0 v s;
     next_ins CVM_LEN_NONE 1 s
   }"

definition COP_PLOAD_N :: "int \<Rightarrow> handler" where
  "COP_PLOAD_N n s = do {
     v \<leftarrow> frame_word n s;
     s \<leftarrow> set_tos 0 v s;
     next_ins CVM_LEN_NONE 1 s
   }"

definition COP_ILOAD_0 :: handler where "COP_ILOAD_0 = COP_ILOAD_N 0"
definition COP_PLOAD_0 :: handler where "COP_PLOAD_0 = COP_PLOAD_N 0"
definition COP_ILOAD_1 :: handler where "COP_ILOAD_1 = COP_ILOAD_N 1"
definition COP_PLOAD_1 :: handler where "COP_PLOAD_1 = COP_PLOAD_N 1"
definition COP_ILOAD_2 :: handler where "COP_ILOAD_2 = COP_ILOAD_N 2"
definition COP_PLOAD_2 :: handler where "COP_PLOAD_2 = COP_PLOAD_N 2"
definition COP_ILOAD_3 :: handler where "COP_ILOAD_3 = COP_ILOAD_N 3"
definition COP_PLOAD_3 :: handler where "COP_PLOAD_3 = COP_PLOAD_N 3"

definition COP_ILOAD :: handler where
  "COP_ILOAD s = do {
     n \<leftarrow> CVM_ARG_WIDE_SMALL s;
     v \<leftarrow> frame_word (uint n) s;
     s \<leftarrow> set_tos 0 v s;
     next_ins CVM_LEN_WIDE_SMALL 1 s
   }"

definition COP_PLOAD :: handler where
  "COP_PLOAD s = do {
     n \<leftarrow> CVM_ARG_WIDE_SMALL s;
     v \<leftarrow> frame_word (uint n) s;
     s \<leftarrow> set_tos 0 v s;
     next_ins CVM_LEN_WIDE_SMALL 1 s
   }"

definition COP_ISTORE_N :: "int \<Rightarrow> handler" where
  "COP_ISTORE_N n s = do {
     v \<leftarrow> tos (-1) s;
     s \<leftarrow> set_word (frame s + n) v s;
     next_ins CVM_LEN_NONE (-1) s
   }"

definition COP_PSTORE_N :: "int \<Rightarrow> handler" where
  "COP_PSTORE_N n s = do {
     v \<leftarrow> tos (-1) s;
     s \<leftarrow> set_word (frame s + n) v s;
     next_ins CVM_LEN_NONE (-1) s
   }"

definition COP_ISTORE_0 :: handler where "COP_ISTORE_0 = COP_ISTORE_N 0"
definition COP_PSTORE_0 :: handler where "COP_PSTORE_0 = COP_PSTORE_N 0"
definition COP_ISTORE_1 :: handler where "COP_ISTORE_1 = COP_ISTORE_N 1"
definition COP_PSTORE_1 :: handler where "COP_PSTORE_1 = COP_PSTORE_N 1"
definition COP_ISTORE_2 :: handler where "COP_ISTORE_2 = COP_ISTORE_N 2"
definition COP_PSTORE_2 :: handler where "COP_PSTORE_2 = COP_PSTORE_N 2"
definition COP_ISTORE_3 :: handler where "COP_ISTORE_3 = COP_ISTORE_N 3"
definition COP_PSTORE_3 :: handler where "COP_PSTORE_3 = COP_PSTORE_N 3"

definition COP_ISTORE :: handler where
  "COP_ISTORE s = do {
     n \<leftarrow> CVM_ARG_WIDE_SMALL s;
     v \<leftarrow> tos (-1) s;
     s \<leftarrow> set_word (frame s + uint n) v s;
     next_ins CVM_LEN_WIDE_SMALL (-1) s
   }"

definition COP_PSTORE :: handler where
  "COP_PSTORE s = do {
     n \<leftarrow> CVM_ARG_WIDE_SMALL s;
     v \<leftarrow> tos (-1) s;
     s \<leftarrow> set_word (frame s + uint n) v s;
     next_ins CVM_LEN_WIDE_SMALL (-1) s
   }"

definition COP_MLOAD :: handler where
  "COP_MLOAD s = do {
     n1 \<leftarrow> CVM_ARG_DWIDE1_SMALL s;
     n2 \<leftarrow> CVM_ARG_DWIDE2_SMALL s;
     s \<leftarrow> copy_words (stacktop s) (frame s + uint n1) (unat n2) s;
     next_ins CVM_LEN_DWIDE_SMALL (uint n2) s
   }"

definition COP_MSTORE :: handler where
  "COP_MSTORE s = do {
     n1 \<leftarrow> CVM_ARG_DWIDE1_SMALL s;
     n2 \<leftarrow> CVM_ARG_DWIDE2_SMALL s;
     let s = s\<lparr>stacktop := stacktop s - uint n2\<rparr>;
     s \<leftarrow> copy_words (frame s + uint n1) (stacktop s) (unat n2) s;
     next_ins CVM_LEN_DWIDE_SMALL 0 s
   }"

definition COP_WADDR :: handler where
  "COP_WADDR s = do {
     n \<leftarrow> CVM_ARG_WIDE_SMALL s;
     s \<leftarrow> set_tos 0 (word_address (frame s + uint n) s) s;
     next_ins CVM_LEN_WIDE_SMALL 1 s
   }"

definition COP_MADDR :: handler where
  "COP_MADDR s = do {
     n \<leftarrow> CVM_ARG_WIDE_SMALL s;
     s \<leftarrow> set_tos 0 (word_address (stacktop s - uint n) s) s;
     next_ins CVM_LEN_WIDE_SMALL 1 s
   }"

definition COP_BLOAD :: handler where
  "COP_BLOAD s = do {
     n \<leftarrow> CVM_ARG_BYTE s;
     w \<leftarrow> frame_word (uint n) s;
     s \<leftarrow> set_tos 0 (ucast (ucast w :: u8)) s;
     next_ins CVM_LEN_BYTE 1 s
   }"

definition COP_BSTORE :: handler where
  "COP_BSTORE s = do {
     n \<leftarrow> CVM_ARG_BYTE s;
     v \<leftarrow> tos (-1) s;
     w \<leftarrow> frame_word (uint n) s;
     s \<leftarrow> set_word (frame s + uint n) (put_byte w (ucast v)) s;
     next_ins CVM_LEN_BYTE (-1) s
   }"

definition COP_BFIXUP :: handler where
  "COP_BFIXUP s = do {
     n \<leftarrow> CVM_ARG_WIDE_SMALL s;
     w \<leftarrow> frame_word (uint n) s;
     s \<leftarrow> set_word (frame s + uint n) (put_byte w (ucast w)) s;
     next_ins CVM_LEN_WIDE_SMALL 0 s
   }"

definition COP_SFIXUP :: handler where
  "COP_SFIXUP s = do {
     n \<leftarrow> CVM_ARG_WIDE_SMALL s;
     w \<leftarrow> frame_word (uint n) s;
     s \<leftarrow> set_word (frame s + uint n) (put_short w (ucast w)) s;
     next_ins CVM_LEN_WIDE_SMALL 0 s
   }"

definition COP_MK_LOCAL_1 :: handler where
  "COP_MK_LOCAL_1 s = do { s \<leftarrow> set_tos 0 0 s; next_ins CVM_LEN_NONE 1 s }"

definition COP_MK_LOCAL_2 :: handler where
  "COP_MK_LOCAL_2 s = do { s \<leftarrow> set_tos 0 0 s; s \<leftarrow> set_tos 1 0 s; next_ins CVM_LEN_NONE 2 s }"

definition COP_MK_LOCAL_3 :: handler where
  "COP_MK_LOCAL_3 s = do {
     s \<leftarrow> set_tos 0 0 s;
     s \<leftarrow> set_tos 1 0 s;
     s \<leftarrow> set_tos 2 0 s;
     next_ins CVM_LEN_NONE 3 s
   }"

definition COP_MK_LOCAL_N :: handler where
  "COP_MK_LOCAL_N s = do {
     n \<leftarrow> CVM_ARG_WIDE_SMALL s;
     s \<leftarrow> zero_words (tos_addr 0 s) (unat n) s;
     next_ins CVM_LEN_WIDE_SMALL (uint n) s
   }"

text \<open>The wide forms.\<close>

definition wide_COP_ILOAD :: handler where
  "wide_COP_ILOAD s = do {
     n \<leftarrow> CVM_ARG_WIDE_LARGE s;
     v \<leftarrow> frame_word (uint n) s;
     s \<leftarrow> set_tos 0 v s;
     next_ins CVM_LEN_WIDE_LARGE 1 s
   }"

definition wide_COP_PLOAD :: handler where
  "wide_COP_PLOAD s = do {
     n \<leftarrow> CVM_ARG_WIDE_LARGE s;
     v \<leftarrow> frame_word (uint n) s;
     s \<leftarrow> set_tos 0 v s;
     next_ins CVM_LEN_WIDE_LARGE 1 s
   }"

definition wide_COP_ISTORE :: handler where
  "wide_COP_ISTORE s = do {
     n \<leftarrow> CVM_ARG_WIDE_LARGE s;
     v \<leftarrow> tos (-1) s;
     s \<leftarrow> set_word (frame s + uint n) v s;
     next_ins CVM_LEN_WIDE_LARGE (-1) s
   }"

definition wide_COP_PSTORE :: handler where
  "wide_COP_PSTORE s = do {
     n \<leftarrow> CVM_ARG_WIDE_LARGE s;
     v \<leftarrow> tos (-1) s;
     s \<leftarrow> set_word (frame s + uint n) v s;
     next_ins CVM_LEN_WIDE_LARGE (-1) s
   }"

definition wide_COP_MLOAD :: handler where
  "wide_COP_MLOAD s = do {
     tempNum \<leftarrow> CVM_ARG_DWIDE2_LARGE s;
     n1 \<leftarrow> CVM_ARG_DWIDE1_LARGE s;
     s \<leftarrow> copy_words (stacktop s) (frame s + uint n1) (unat tempNum) s;
     next_ins CVM_LEN_DWIDE_LARGE (uint tempNum) s
   }"

definition wide_COP_MSTORE :: handler where
  "wide_COP_MSTORE s = do {
     tempNum \<leftarrow> CVM_ARG_DWIDE2_LARGE s;
     let s = s\<lparr>stacktop := stacktop s - uint tempNum\<rparr>;
     n1 \<leftarrow> CVM_ARG_DWIDE1_LARGE s;
     s \<leftarrow> copy_words (frame s + uint n1) (stacktop s) (unat tempNum) s;
     next_ins CVM_LEN_DWIDE_LARGE 0 s
   }"

definition wide_COP_WADDR :: handler where
  "wide_COP_WADDR s = do {
     n \<leftarrow> CVM_ARG_WIDE_LARGE s;
     s \<leftarrow> set_tos 0 (word_address (frame s + uint n) s) s;
     next_ins CVM_LEN_WIDE_LARGE 1 s
   }"

definition wide_COP_MADDR :: handler where
  "wide_COP_MADDR s = do {
     n \<leftarrow> CVM_ARG_WIDE_LARGE s;
     s \<leftarrow> set_tos 0 (word_address (stacktop s - uint n) s) s;
     next_ins CVM_LEN_WIDE_LARGE 1 s
   }"

definition wide_COP_BFIXUP :: handler where
  "wide_COP_BFIXUP s = do {
     tempNum \<leftarrow> CVM_ARG_WIDE_LARGE s;
     w \<leftarrow> frame_word (uint tempNum) s;
     s \<leftarrow> set_word (frame s + uint tempNum) (put_byte w (ucast w)) s;
     next_ins CVM_LEN_WIDE_LARGE 0 s
   }"

definition wide_COP_SFIXUP :: handler where
  "wide_COP_SFIXUP s = do {
     tempNum \<leftarrow> CVM_ARG_WIDE_LARGE s;
     w \<leftarrow> frame_word (uint tempNum) s;
     s \<leftarrow> set_word (frame s + uint tempNum) (put_short w (ucast w)) s;
     next_ins CVM_LEN_WIDE_LARGE 0 s
   }"

definition wide_COP_MK_LOCAL_N :: handler where
  "wide_COP_MK_LOCAL_N s = do {
     tempNum \<leftarrow> CVM_ARG_WIDE_LARGE s;
     s \<leftarrow> zero_words (tos_addr 0 s) (unat tempNum) s;
     next_ins CVM_LEN_WIDE_LARGE (uint tempNum) s
   }"

section \<open>Interpretation of the contracts\<close>

interpretation iload_0: push_handler COP_ILOAD_0 1 "frame_word 0"
  by unfold_locales (simp add: COP_ILOAD_0_def COP_ILOAD_N_def)

interpretation pload_0: push_handler COP_PLOAD_0 1 "frame_word 0"
  by unfold_locales (simp add: COP_PLOAD_0_def COP_PLOAD_N_def)

interpretation iload_1: push_handler COP_ILOAD_1 1 "frame_word 1"
  by unfold_locales (simp add: COP_ILOAD_1_def COP_ILOAD_N_def)

interpretation pload_1: push_handler COP_PLOAD_1 1 "frame_word 1"
  by unfold_locales (simp add: COP_PLOAD_1_def COP_PLOAD_N_def)

interpretation iload_2: push_handler COP_ILOAD_2 1 "frame_word 2"
  by unfold_locales (simp add: COP_ILOAD_2_def COP_ILOAD_N_def)

interpretation pload_2: push_handler COP_PLOAD_2 1 "frame_word 2"
  by unfold_locales (simp add: COP_PLOAD_2_def COP_PLOAD_N_def)

interpretation iload_3: push_handler COP_ILOAD_3 1 "frame_word 3"
  by unfold_locales (simp add: COP_ILOAD_3_def COP_ILOAD_N_def)

interpretation pload_3: push_handler COP_PLOAD_3 1 "frame_word 3"
  by unfold_locales (simp add: COP_PLOAD_3_def COP_PLOAD_N_def)

interpretation iload: push_handler COP_ILOAD 2 "\<lambda>s. CVM_ARG_WIDE_SMALL s \<bind> (\<lambda>n. frame_word (uint n) s)"
  by unfold_locales (auto simp: COP_ILOAD_def split: bind_splits)

interpretation wide_iload: push_handler wide_COP_ILOAD 6 "\<lambda>s. CVM_ARG_WIDE_LARGE s \<bind> (\<lambda>n. frame_word (uint n) s)"
  by unfold_locales (auto simp: wide_COP_ILOAD_def split: bind_splits)

interpretation pload: push_handler COP_PLOAD 2 "\<lambda>s. CVM_ARG_WIDE_SMALL s \<bind> (\<lambda>n. frame_word (uint n) s)"
  by unfold_locales (auto simp: COP_PLOAD_def split: bind_splits)

interpretation wide_pload: push_handler wide_COP_PLOAD 6 "\<lambda>s. CVM_ARG_WIDE_LARGE s \<bind> (\<lambda>n. frame_word (uint n) s)"
  by unfold_locales (auto simp: wide_COP_PLOAD_def split: bind_splits)

interpretation waddr: push_handler COP_WADDR 2
  "\<lambda>s. map_option (\<lambda>n. word_address (frame s + uint n) s) (CVM_ARG_WIDE_SMALL s)"
  by unfold_locales (auto simp: COP_WADDR_def)

interpretation maddr: push_handler COP_MADDR 2
  "\<lambda>s. map_option (\<lambda>n. word_address (stacktop s - uint n) s) (CVM_ARG_WIDE_SMALL s)"
  by unfold_locales (auto simp: COP_MADDR_def)

interpretation wide_waddr: push_handler wide_COP_WADDR 6
  "\<lambda>s. map_option (\<lambda>n. word_address (frame s + uint n) s) (CVM_ARG_WIDE_LARGE s)"
  by unfold_locales (auto simp: wide_COP_WADDR_def)

interpretation wide_maddr: push_handler wide_COP_MADDR 6
  "\<lambda>s. map_option (\<lambda>n. word_address (stacktop s - uint n) s) (CVM_ARG_WIDE_LARGE s)"
  by unfold_locales (auto simp: wide_COP_MADDR_def)

interpretation bload: push_handler COP_BLOAD 2
  "\<lambda>s. CVM_ARG_BYTE s \<bind> (\<lambda>n. map_option (\<lambda>w. ucast (ucast w :: u8)) (frame_word (uint n) s))"
  by unfold_locales (auto simp: COP_BLOAD_def split: bind_splits)

interpretation mk_local_1: push_handler COP_MK_LOCAL_1 1 "\<lambda>_. Some 0"
  by unfold_locales (simp add: COP_MK_LOCAL_1_def)

interpretation istore_0: store_handler COP_ISTORE_0 1 "\<lambda>_. Some 0"
  by unfold_locales (simp add: COP_ISTORE_0_def COP_ISTORE_N_def)

interpretation pstore_0: store_handler COP_PSTORE_0 1 "\<lambda>_. Some 0"
  by unfold_locales (simp add: COP_PSTORE_0_def COP_PSTORE_N_def)

interpretation istore_1: store_handler COP_ISTORE_1 1 "\<lambda>_. Some 1"
  by unfold_locales (simp add: COP_ISTORE_1_def COP_ISTORE_N_def)

interpretation pstore_1: store_handler COP_PSTORE_1 1 "\<lambda>_. Some 1"
  by unfold_locales (simp add: COP_PSTORE_1_def COP_PSTORE_N_def)

interpretation istore_2: store_handler COP_ISTORE_2 1 "\<lambda>_. Some 2"
  by unfold_locales (simp add: COP_ISTORE_2_def COP_ISTORE_N_def)

interpretation pstore_2: store_handler COP_PSTORE_2 1 "\<lambda>_. Some 2"
  by unfold_locales (simp add: COP_PSTORE_2_def COP_PSTORE_N_def)

interpretation istore_3: store_handler COP_ISTORE_3 1 "\<lambda>_. Some 3"
  by unfold_locales (simp add: COP_ISTORE_3_def COP_ISTORE_N_def)

interpretation pstore_3: store_handler COP_PSTORE_3 1 "\<lambda>_. Some 3"
  by unfold_locales (simp add: COP_PSTORE_3_def COP_PSTORE_N_def)

interpretation istore: store_handler COP_ISTORE 2 "\<lambda>s. map_option uint (CVM_ARG_WIDE_SMALL s)"
  by unfold_locales (auto simp: COP_ISTORE_def)

interpretation wide_istore: store_handler wide_COP_ISTORE 6 "\<lambda>s. map_option uint (CVM_ARG_WIDE_LARGE s)"
  by unfold_locales (auto simp: wide_COP_ISTORE_def)

interpretation pstore: store_handler COP_PSTORE 2 "\<lambda>s. map_option uint (CVM_ARG_WIDE_SMALL s)"
  by unfold_locales (auto simp: COP_PSTORE_def)

interpretation wide_pstore: store_handler wide_COP_PSTORE 6 "\<lambda>s. map_option uint (CVM_ARG_WIDE_LARGE s)"
  by unfold_locales (auto simp: wide_COP_PSTORE_def)

interpretation ivar_0: local_variable COP_ISTORE_0 COP_ILOAD_0 1 1 0
  by unfold_locales

interpretation pvar_0: local_variable COP_PSTORE_0 COP_PLOAD_0 1 1 0
  by unfold_locales

interpretation ivar_1: local_variable COP_ISTORE_1 COP_ILOAD_1 1 1 1
  by unfold_locales

interpretation pvar_1: local_variable COP_PSTORE_1 COP_PLOAD_1 1 1 1
  by unfold_locales

interpretation ivar_2: local_variable COP_ISTORE_2 COP_ILOAD_2 1 1 2
  by unfold_locales

interpretation pvar_2: local_variable COP_PSTORE_2 COP_PLOAD_2 1 1 2
  by unfold_locales

interpretation ivar_3: local_variable COP_ISTORE_3 COP_ILOAD_3 1 1 3
  by unfold_locales

interpretation pvar_3: local_variable COP_PSTORE_3 COP_PLOAD_3 1 1 3
  by unfold_locales

section \<open>Bytes of a frame word\<close>

lemma put_same [simp]: "put_byte w (ucast w) = w" "put_short w (ucast w) = w"
  unfolding put_byte_def put_short_def by (rule word32_eqI, simp add: blast_simps)+

lemma put_byte_low: "(ucast (put_byte w b) :: u8) = b"
  unfolding put_byte_def by (rule word8_eqI) (simp add: blast_simps)

lemma put_byte_high: "drop_bit 8 (put_byte w b) = drop_bit 8 w"
  unfolding put_byte_def by (rule word32_eqI) (simp add: blast_simps)

lemma set_word_same: "word_at p s = Some w \<Longrightarrow> set_word p w s = Some s"
  by (auto simp: word_at_def set_word_def list_update_id split: if_splits)

section \<open>Wide and short forms\<close>

text \<open>\<open>widens k wide short arg arg'\<close>: the wide form does what the short form does at the same
  arguments, with the program counter \<open>k\<close> bytes further on.\<close>

definition widens :: "int \<Rightarrow> handler \<Rightarrow> handler \<Rightarrow> bool" where
  "widens k wide short \<longleftrightarrow>
     (\<forall>s c n. CVM_ARG_WIDE_LARGE s = Some n \<longrightarrow> CVM_ARG_WIDE_SMALL (s\<lparr>code := c\<rparr>) = Some n \<longrightarrow>
        wide s = map_option (map_outcome (\<lambda>t. t\<lparr>pc := pc t + k, code := code s\<rparr>)) (short (s\<lparr>code := c\<rparr>)))"

definition widens2 :: "int \<Rightarrow> handler \<Rightarrow> handler \<Rightarrow> bool" where
  "widens2 k wide short \<longleftrightarrow>
     (\<forall>s c n m. CVM_ARG_DWIDE1_LARGE s = Some n \<longrightarrow> CVM_ARG_DWIDE2_LARGE s = Some m \<longrightarrow>
        CVM_ARG_DWIDE1_SMALL (s\<lparr>code := c\<rparr>) = Some n \<longrightarrow> CVM_ARG_DWIDE2_SMALL (s\<lparr>code := c\<rparr>) = Some m \<longrightarrow>
        wide s = map_option (map_outcome (\<lambda>t. t\<lparr>pc := pc t + k, code := code s\<rparr>)) (short (s\<lparr>code := c\<rparr>)))"

lemma word_address_code [simp]: "word_address p (s\<lparr>code := c\<rparr>) = word_address p s"
  by (simp add: word_address_def)

lemma code_update_writes:
  "set_word p v (s\<lparr>code := c\<rparr>) = map_option (\<lambda>t. t\<lparr>code := c\<rparr>) (set_word p v s)"
  "move_words d r k (s\<lparr>code := c\<rparr>) = map_option (\<lambda>t. t\<lparr>code := c\<rparr>) (move_words d r k s)"
  "copy_words d r k (s\<lparr>code := c\<rparr>) = map_option (\<lambda>t. t\<lparr>code := c\<rparr>) (copy_words d r k s)"
  "zero_words d k (s\<lparr>code := c\<rparr>) = map_option (\<lambda>t. t\<lparr>code := c\<rparr>) (zero_words d k s)"
  by (simp_all add: set_word_def copy_words_def move_words_def zero_words_def)

lemma writes_keep_code:
  "set_word p v s = Some t \<Longrightarrow> code t = code s" "copy_words d r k s = Some t \<Longrightarrow> code t = code s"
  "move_words d r k s = Some t \<Longrightarrow> code t = code s" "zero_words d k s = Some t \<Longrightarrow> code t = code s"
  by (auto simp: set_word_def copy_words_def move_words_def zero_words_def split: if_splits)

lemma write_then_next:
  assumes "\<And>t. r = Some t \<Longrightarrow> code t = c0"
  shows "(r \<bind> next_ins (l + k) d) =
    map_option (map_outcome (\<lambda>t. t\<lparr>pc := pc t + k, code := c0\<rparr>)) (map_option (\<lambda>t. t\<lparr>code := c\<rparr>) r \<bind> next_ins l d)"
proof (cases r)
  case (Some t)
  with assms [OF Some] show ?thesis by (simp add: run_defs add.assoc)
qed simp

lemmas write_next_4 =
  write_then_next [OF writes_keep_code(1), where l = 2 and k = 4, simplified]
  write_then_next [OF writes_keep_code(2), where l = 2 and k = 4, simplified]
  write_then_next [OF writes_keep_code(4), where l = 2 and k = 4, simplified]

lemmas write_next_7 =
  write_then_next [OF writes_keep_code(2), where l = 3 and k = 7, simplified]
  write_then_next [OF writes_keep_code(3), where l = 3 and k = 7, simplified]

lemma widens_loads:
  "widens 4 wide_COP_ILOAD COP_ILOAD" "widens 4 wide_COP_PLOAD COP_PLOAD"
  "widens 4 wide_COP_ISTORE COP_ISTORE" "widens 4 wide_COP_PSTORE COP_PSTORE"
  unfolding widens_def wide_COP_ILOAD_def COP_ILOAD_def wide_COP_PLOAD_def COP_PLOAD_def
    wide_COP_ISTORE_def COP_ISTORE_def wide_COP_PSTORE_def COP_PSTORE_def
  by (auto simp: code_update_writes write_next_4 split: bind_splits)

lemma widens_addresses:
  "widens 4 wide_COP_WADDR COP_WADDR" "widens 4 wide_COP_MADDR COP_MADDR"
  "widens 4 wide_COP_BFIXUP COP_BFIXUP" "widens 4 wide_COP_SFIXUP COP_SFIXUP"
  "widens 4 wide_COP_MK_LOCAL_N COP_MK_LOCAL_N"
  unfolding widens_def wide_COP_WADDR_def COP_WADDR_def wide_COP_MADDR_def COP_MADDR_def
    wide_COP_BFIXUP_def COP_BFIXUP_def wide_COP_SFIXUP_def COP_SFIXUP_def
    wide_COP_MK_LOCAL_N_def COP_MK_LOCAL_N_def
  by (auto simp: code_update_writes write_next_4 split: bind_splits)

lemma widens_stack:
  "widens 4 wide_COP_DUP_N COP_DUP_N" "widens 4 wide_COP_DUP_WORD_N COP_DUP_WORD_N"
  "widens 4 wide_COP_POP_N COP_POP_N" "widens 4 wide_COP_SET_NUM_ARGS COP_SET_NUM_ARGS"
  unfolding widens_def wide_COP_DUP_N_def COP_DUP_N_def wide_COP_DUP_WORD_N_def COP_DUP_WORD_N_def
    wide_COP_POP_N_def COP_POP_N_def wide_COP_SET_NUM_ARGS_def COP_SET_NUM_ARGS_def
  by (auto simp: code_update_writes write_next_4 run_defs split: bind_splits)

lemma arg_stacktop [simp]: "CVM_ARG_BYTE (s\<lparr>stacktop := t\<rparr>) = CVM_ARG_BYTE s"
  "CVM_ARG_BYTE2 (s\<lparr>stacktop := t\<rparr>) = CVM_ARG_BYTE2 s"
  "CVM_ARG_WIDE_LARGE (s\<lparr>stacktop := t\<rparr>) = CVM_ARG_WIDE_LARGE s"
  by (simp_all add: CVM_ARG_BYTE_def CVM_ARG_BYTE2_def CVM_ARG_WIDE_LARGE_def IL_READ_UINT32_def code_at_def)

lemma stacktop_code_swap: "s\<lparr>code := c, stacktop := t\<rparr> = (s\<lparr>stacktop := t\<rparr>)\<lparr>code := c\<rparr>"
  by simp

lemmas write_next_mstore = write_then_next [OF writes_keep_code(2) [where s = "s\<lparr>stacktop := t\<rparr>" for s t],
  where l = 3 and k = 7, simplified, symmetric]

lemma widens2_blocks: "widens2 7 wide_COP_MLOAD COP_MLOAD"
  "widens2 7 wide_COP_MSTORE COP_MSTORE" "widens2 7 wide_COP_SQUASH COP_SQUASH"
proof -
  show "widens2 7 wide_COP_MLOAD COP_MLOAD"
    by (auto simp: widens2_def wide_COP_MLOAD_def COP_MLOAD_def code_update_writes write_next_7)
  show "widens2 7 wide_COP_MSTORE COP_MSTORE"
    unfolding widens2_def wide_COP_MSTORE_def COP_MSTORE_def Let_def
    by (simp add: stacktop_code_swap code_update_writes write_next_mstore)
  show "widens2 7 wide_COP_SQUASH COP_SQUASH"
    unfolding widens2_def
  proof (intro allI impI)
    fix s c n m
    assume a: "CVM_ARG_DWIDE1_LARGE s = Some n" "CVM_ARG_DWIDE2_LARGE s = Some m"
      "CVM_ARG_DWIDE1_SMALL (s\<lparr>code := c\<rparr>) = Some n" "CVM_ARG_DWIDE2_SMALL (s\<lparr>code := c\<rparr>) = Some m"
    have "sint n = uint n" "sint m = uint m"
      using ARG_BYTE_small(1) [OF a(3)] ARG_BYTE_small(2) [OF a(4)] by (simp_all add: sint_small)
    then have "tos_addr (- (sint n + sint m)) s = stacktop s - uint n - uint m"
      "tos_addr (- sint n) s = stacktop s - uint n"
      by (simp_all add: tos_addr_def)
    with a show "wide_COP_SQUASH s = map_option (map_outcome (\<lambda>t. t\<lparr>pc := pc t + 7, code := code s\<rparr>)) (COP_SQUASH (s\<lparr>code := c\<rparr>))"
      by (simp add: wide_COP_SQUASH_def COP_SQUASH_def code_update_writes write_next_7)
  qed
qed

section \<open>Effects on the frame\<close>

lemma istore_effect:
  assumes "CVM_ARG_WIDE_SMALL s = Some n" and "tos (-1) s = Some x"
    and "0 \<le> frame s" and "frame s + uint n < int (length (stack s))"
  shows "COP_ISTORE s = Some (Next (s\<lparr>pc := pc s + 2, stacktop := stacktop s - 1,
     stack := (stack s)[nat (frame s + uint n) := x]\<rparr>))"
  using istore.stores assms by (simp add: stores_def)

lemma word_at_other:
  "p \<noteq> q \<Longrightarrow> 0 \<le> q \<Longrightarrow> word_at p (s\<lparr>pc := a, stacktop := t, stack := (stack s)[nat q := x]\<rparr>) = word_at p s"
  by (simp add: word_at_def nth_list_update nat_eq_iff)

lemma word_at_stored:
  "0 \<le> q \<Longrightarrow> q < int (length (stack s)) \<Longrightarrow>
    word_at q (s\<lparr>pc := a, stacktop := t, stack := (stack s)[nat q := x]\<rparr>) = Some x"
  by (simp add: word_at_def nat_less_iff)

lemma bstore_effect:
  assumes "CVM_ARG_BYTE s = Some n" and "tos (-1) s = Some x" and "frame_word (uint n) s = Some w"
  shows "COP_BSTORE s = Some (Next (s\<lparr>pc := pc s + 2, stacktop := stacktop s - 1,
     stack := (stack s)[nat (frame s + uint n) := put_byte w (ucast x)]\<rparr>))"
  using assms by (auto simp: COP_BSTORE_def set_word_def word_at_def run_defs split: if_splits)

section \<open>Properties\<close>

text \<open>Local variables behave like an array: \<open>istore n\<close> pops a word into frame word \<open>n\<close> and
  changes no other frame word, and an \<open>iload n\<close> that follows pushes the stored word back,
  so that the two together leave the operand stack as it was.\<close>

lemma local_store_then_load:
  assumes "CVM_ARG_WIDE_SMALL s = Some n" and "tos (-1) s = Some x" and "0 \<le> frame s"
    and "frame s + uint n < stacktop s - 1" and "stacktop s \<le> int (length (stack s))"
    and "code_at (pc s + 3) s = Some (ucast n)"
  shows "\<exists>s' s''. COP_ISTORE s = Some (Next s') \<and> COP_ILOAD s' = Some (Next s'') \<and>
    tos (-1) s'' = Some x \<and> stacktop s'' = stacktop s \<and> pc s'' = pc s + 4 \<and>
    frame_word (uint n) s'' = Some x \<and>
    (\<forall>m. m \<noteq> uint n \<and> frame s + m < stacktop s - 1 \<longrightarrow> frame_word m s'' = frame_word m s)"
proof -
  let ?s = "s\<lparr>pc := pc s + 2, stacktop := stacktop s - 1, stack := (stack s)[nat (frame s + uint n) := x]\<rparr>"
  let ?t = "?s\<lparr>pc := pc ?s + 2, stacktop := stacktop ?s + 1, stack := (stack ?s)[nat (stacktop ?s) := x]\<rparr>"
  have nn: "0 < stacktop s" "0 \<le> frame s + uint n"
    using assms(3,4) uint_ge_0 [of n] by linarith+
  have s': "COP_ISTORE s = Some (Next ?s)"
    using assms by (intro istore_effect) auto
  have "unat n < 2 ^ 8" using assms(1) by (rule ARG_BYTE_small)
  then have "(ucast (ucast n :: u8) :: u32) = n"
    by (simp add: word_unat_eq_iff unat_ucast_mod)
  moreover have "code_at (pc ?s + 1) ?s = code_at (pc s + 3) s"
    by (simp add: code_at_def add.commute)
  ultimately have arg: "CVM_ARG_BYTE ?s = Some n"
    by (simp only: CVM_ARG_BYTE_def assms(6)) simp
  have v: "frame_word (uint n) ?s = Some x"
    using word_at_stored [of "frame s + uint n" s] assms(3-5) nn by simp
  have "0 \<le> stacktop ?s" "stacktop ?s < int (length (stack ?s))"
    using nn(1) assms(5) by simp_all
  then have "COP_ILOAD ?s = Some (Next ?t)"
    using iload.pushes [unfolded pushes_def, rule_format, of ?s x] arg v by simp
  moreover have "tos (-1) ?t = Some x"
    using nn(1) assms(5) by (simp add: word_at_def tos_addr_def nat_less_iff)
  moreover have "frame_word m ?t = (if m = uint n then Some x else frame_word m s)" if "frame s + m < stacktop s - 1" for m
    using that nn assms(5) by (auto simp: word_at_def nth_list_update nat_eq_iff nat_less_iff)
  ultimately show ?thesis using s' assms(4) by (intro exI [of _ ?s] exI [of _ ?t]) simp
qed

lemma local_store_then_load_witness:
  "\<exists>s' s''. COP_ISTORE (machine [5, 6, 7, 0] 3 [0x0F, 1, 0x05, 1]) = Some (Next s') \<and>
    COP_ILOAD s' = Some (Next s'') \<and> tos (-1) s'' = Some 7 \<and> frame_word 1 s'' = Some 7 \<and>
    frame_word 0 s'' = Some 5"
proof -
  let ?s = "machine [5, 6, 7, 0] 3 [0x0F, 1, 0x05, 1]"
  have "CVM_ARG_WIDE_SMALL ?s = Some 1" "tos (-1) ?s = Some 7" "0 \<le> frame ?s"
    "frame ?s + uint (1 :: u32) < stacktop ?s - 1" "stacktop ?s \<le> int (length (stack ?s))"
    "code_at (pc ?s + 3) ?s = Some (ucast (1 :: u32))"
    by (simp_all add: machine_def word_at_def tos_addr_def CVM_ARG_BYTE_def code_at_def numeral_eq_Suc)
  note loaded = local_store_then_load [OF this]
  have "frame_word 0 ?s = Some 5" "frame ?s + 0 < stacktop ?s - 1"
    by (simp_all add: machine_def word_at_def)
  with loaded show ?thesis by (metis unsigned_1 zero_neq_one)
qed

text \<open>Byte variables: \<open>bstore\<close> replaces the low byte of a frame word and keeps its other
  three bytes, and what \<open>bload\<close> then reads is that byte, zero-extended; the fixups of
  byte and short arguments leave a little-endian frame unchanged.\<close>

lemma byte_variables:
  assumes "CVM_ARG_BYTE s = Some n" and "tos (-1) s = Some x" and "frame_word (uint n) s = Some w"
  shows "\<exists>s' w'. COP_BSTORE s = Some (Next s') \<and> frame_word (uint n) s' = Some w' \<and>
      ucast w' = (ucast x :: u8) \<and> drop_bit 8 w' = drop_bit 8 w \<and>
      (CVM_ARG_BYTE s' = Some n \<longrightarrow> COP_BLOAD s' =
         do { t \<leftarrow> set_tos 0 (ucast (ucast x :: u8)) s'; next_ins 2 1 t }) \<and>
      COP_BFIXUP s = next_ins 2 0 s \<and> COP_SFIXUP s = next_ins 2 0 s"
proof -
  let ?w = "put_byte w (ucast x)"
  let ?s = "s\<lparr>pc := pc s + 2, stacktop := stacktop s - 1, stack := (stack s)[nat (frame s + uint n) := ?w]\<rparr>"
  have "0 \<le> frame s + uint n" "frame s + uint n < int (length (stack s))"
    using assms(3) by (auto simp: word_at_def split: if_splits)
  then have v: "frame_word (uint n) ?s = Some ?w"
    using word_at_stored by simp
  moreover from this have "COP_BLOAD ?s = do { t \<leftarrow> set_tos 0 (ucast (ucast x :: u8)) ?s; next_ins 2 1 t }"
    if "CVM_ARG_BYTE ?s = Some n"
    using that by (simp only: COP_BLOAD_def) (simp add: put_byte_low)
  moreover have "COP_BFIXUP s = next_ins 2 0 s" "COP_SFIXUP s = next_ins 2 0 s"
    using assms(1,3) by (simp_all add: COP_BFIXUP_def COP_SFIXUP_def set_word_same)
  ultimately show ?thesis
    using bstore_effect [OF assms] put_byte_low [of w "ucast x"] put_byte_high [of w "ucast x"]
    by (intro exI [of _ ?s] exI [of _ ?w]) simp
qed

lemma byte_0x1FF: "(ucast (0x1FF :: u32) :: u8) = 0xFF"
  by simp

lemma byte_variables_witness:
  "\<exists>s' w'. COP_BSTORE (machine [0x11223344, 0x1FF] 2 [0xFB, 0]) = Some (Next s') \<and>
    frame_word 0 s' = Some w' \<and> ucast w' = (0xFF :: u8) \<and> drop_bit 8 w' = drop_bit 8 (0x11223344 :: u32)"
proof -
  let ?s = "machine [0x11223344, 0x1FF] 2 [0xFB, 0]"
  have "CVM_ARG_BYTE ?s = Some 0" "tos (-1) ?s = Some 0x1FF" "frame_word (uint (0 :: u32)) ?s = Some 0x11223344"
    by (simp_all add: machine_def word_at_def tos_addr_def CVM_ARG_BYTE_def code_at_def)
  from byte_variables [OF this] show ?thesis by (metis unsigned_0 byte_0x1FF)
qed

text \<open>Every wide instruction does what its short form does for the same arguments, and
  differs only in its length (four bytes more for one argument, seven for two).\<close>

lemma wide_forms_agree:
  "widens 4 wide_COP_ILOAD COP_ILOAD \<and> widens 4 wide_COP_PLOAD COP_PLOAD \<and>
   widens 4 wide_COP_ISTORE COP_ISTORE \<and> widens 4 wide_COP_PSTORE COP_PSTORE \<and>
   widens 4 wide_COP_WADDR COP_WADDR \<and> widens 4 wide_COP_MADDR COP_MADDR \<and>
   widens 4 wide_COP_BFIXUP COP_BFIXUP \<and> widens 4 wide_COP_SFIXUP COP_SFIXUP \<and>
   widens 4 wide_COP_MK_LOCAL_N COP_MK_LOCAL_N \<and>
   widens 4 wide_COP_DUP_N COP_DUP_N \<and> widens 4 wide_COP_DUP_WORD_N COP_DUP_WORD_N \<and>
   widens 4 wide_COP_POP_N COP_POP_N \<and> widens 4 wide_COP_SET_NUM_ARGS COP_SET_NUM_ARGS \<and>
   widens2 7 wide_COP_MLOAD COP_MLOAD \<and> widens2 7 wide_COP_MSTORE COP_MSTORE \<and>
   widens2 7 wide_COP_SQUASH COP_SQUASH"
  using widens_loads widens_addresses widens_stack widens2_blocks by blast

end
