(* ===== verification/CvmConv.thy ===== *)
theory CvmConv
  imports CvmVar
begin

text \<open>
  The conversions between integer types (\<^verbatim>\<open>engine/cvm_conv.c\<close>), with and without overflow
  detection, and the inlined integer methods of \<^verbatim>\<open>System.Math\<close> (\<^verbatim>\<open>engine/cvm_inline.c\<close>).
  Conversions from and to floating point and the string marshalling instructions of those
  files are not modelled.
\<close>

section \<open>Helper functions\<close>

definition L2IOvf :: "int \<Rightarrow> cvm_state \<Rightarrow> (int \<times> cvm_state) option" where
  "L2IOvf posn s = do {
     v \<leftarrow> ReadLong posn s;
     if sint v \<ge> - 2147483648 \<and> sint v \<le> 2147483647 then do { s \<leftarrow> set_word posn (ucast v) s; Some (1, s) } else Some (0, s)
   }"

definition L2UIOvf :: "int \<Rightarrow> cvm_state \<Rightarrow> (int \<times> cvm_state) option" where
  "L2UIOvf posn s = do {
     v \<leftarrow> ReadLong posn s;
     if sint v \<ge> 0 \<and> sint v \<le> 0xFFFFFFFF then do { s \<leftarrow> set_word posn (ucast v) s; Some (1, s) } else Some (0, s)
   }"

definition LU2IOvf :: "int \<Rightarrow> cvm_state \<Rightarrow> (int \<times> cvm_state) option" where
  "LU2IOvf posn s = do {
     v \<leftarrow> ReadULong posn s;
     if v \<le> 0x7FFFFFFF then do { s \<leftarrow> set_word posn (ucast v) s; Some (1, s) } else Some (0, s)
   }"

definition LU2UIOvf :: "int \<Rightarrow> cvm_state \<Rightarrow> (int \<times> cvm_state) option" where
  "LU2UIOvf posn s = do {
     v \<leftarrow> ReadULong posn s;
     if v \<le> 0xFFFFFFFF then do { s \<leftarrow> set_word posn (ucast v) s; Some (1, s) } else Some (0, s)
   }"

section \<open>Handlers\<close>

definition COP_I2B :: handler where
  "COP_I2B s = do {
     a \<leftarrow> tos (-1) s;
     s \<leftarrow> set_tos (-1) (scast (ucast a :: u8)) s;
     next_ins CVM_LEN_NONE 0 s
   }"

definition COP_I2UB :: handler where
  "COP_I2UB s = do {
     a \<leftarrow> tos (-1) s;
     s \<leftarrow> set_tos (-1) (ucast (ucast a :: u8)) s;
     next_ins CVM_LEN_NONE 0 s
   }"

definition COP_I2S :: handler where
  "COP_I2S s = do {
     a \<leftarrow> tos (-1) s;
     s \<leftarrow> set_tos (-1) (scast (ucast a :: u16)) s;
     next_ins CVM_LEN_NONE 0 s
   }"

definition COP_I2US :: handler where
  "COP_I2US s = do {
     a \<leftarrow> tos (-1) s;
     s \<leftarrow> set_tos (-1) (ucast (ucast a :: u16)) s;
     next_ins CVM_LEN_NONE 0 s
   }"

definition COP_I2L :: handler where
  "COP_I2L s = do {
     a \<leftarrow> tos (-1) s;
     s \<leftarrow> WriteLong (tos_addr (-1) s) (scast a) s;
     next_ins CVM_LEN_NONE 1 s
   }"

definition COP_IU2L :: handler where
  "COP_IU2L s = do {
     a \<leftarrow> tos (-1) s;
     s \<leftarrow> WriteLong (tos_addr (-1) s) (ucast a) s;
     next_ins CVM_LEN_NONE 1 s
   }"

definition COP_L2I :: handler where
  "COP_L2I s = do {
     a \<leftarrow> ReadLong (tos_addr (-2) s) s;
     s \<leftarrow> set_tos (-2) (ucast a) s;
     next_ins CVM_LEN_NONE (-1) s
   }"

definition COP_I2P_LOWER :: handler where
  "COP_I2P_LOWER s = do {
     n \<leftarrow> CVM_ARG_WIDE_SMALL s;
     let position = - (sint n + 1);
     v \<leftarrow> tos position s;
     s \<leftarrow> set_tos position v s;
     next_ins CVM_LEN_WIDE_SMALL 0 s
   }"

definition wide_COP_I2P_LOWER :: handler where
  "wide_COP_I2P_LOWER s = do {
     n \<leftarrow> CVM_ARG_WIDE_LARGE s;
     let position = - (sint n + 1);
     v \<leftarrow> tos position s;
     s \<leftarrow> set_tos position v s;
     next_ins CVM_LEN_WIDE_LARGE 0 s
   }"

definition COP_PREFIX_I2B_OVF :: handler where
  "COP_PREFIX_I2B_OVF s = do {
     a \<leftarrow> tos (-1) s;
     if sint a \<ge> - 128 \<and> sint a \<le> 127 then next_ins CVMP_LEN_NONE 0 s else throw OverflowException s
   }"

definition COP_PREFIX_I2UB_OVF :: handler where
  "COP_PREFIX_I2UB_OVF s = do {
     a \<leftarrow> tos (-1) s;
     if sint a \<ge> 0 \<and> sint a \<le> 255 then next_ins CVMP_LEN_NONE 0 s else throw OverflowException s
   }"

definition COP_PREFIX_IU2B_OVF :: handler where
  "COP_PREFIX_IU2B_OVF s = do {
     a \<leftarrow> tos (-1) s;
     if sint a \<ge> 0 \<and> sint a \<le> 127 then next_ins CVMP_LEN_NONE 0 s else throw OverflowException s
   }"

definition COP_PREFIX_IU2UB_OVF :: handler where
  "COP_PREFIX_IU2UB_OVF s = do {
     a \<leftarrow> tos (-1) s;
     if sint a \<ge> 0 \<and> sint a \<le> 255 then next_ins CVMP_LEN_NONE 0 s else throw OverflowException s
   }"

definition COP_PREFIX_I2S_OVF :: handler where
  "COP_PREFIX_I2S_OVF s = do {
     a \<leftarrow> tos (-1) s;
     if sint a \<ge> - 32768 \<and> sint a \<le> 32767 then next_ins CVMP_LEN_NONE 0 s else throw OverflowException s
   }"

definition COP_PREFIX_I2US_OVF :: handler where
  "COP_PREFIX_I2US_OVF s = do {
     a \<leftarrow> tos (-1) s;
     if sint a \<ge> 0 \<and> sint a \<le> 65535 then next_ins CVMP_LEN_NONE 0 s else throw OverflowException s
   }"

definition COP_PREFIX_IU2S_OVF :: handler where
  "COP_PREFIX_IU2S_OVF s = do {
     a \<leftarrow> tos (-1) s;
     if sint a \<ge> 0 \<and> sint a \<le> 32767 then next_ins CVMP_LEN_NONE 0 s else throw OverflowException s
   }"

definition COP_PREFIX_IU2US_OVF :: handler where
  "COP_PREFIX_IU2US_OVF s = do {
     a \<leftarrow> tos (-1) s;
     if sint a \<ge> 0 \<and> sint a \<le> 65535 then next_ins CVMP_LEN_NONE 0 s else throw OverflowException s
   }"

definition COP_PREFIX_I2IU_OVF :: handler where
  "COP_PREFIX_I2IU_OVF s = do {
     a \<leftarrow> tos (-1) s;
     if sint a \<ge> 0 then next_ins CVMP_LEN_NONE 0 s else throw OverflowException s
   }"

definition COP_PREFIX_IU2I_OVF :: handler where
  "COP_PREFIX_IU2I_OVF s = do {
     a \<leftarrow> tos (-1) s;
     if sint a \<ge> 0 then next_ins CVMP_LEN_NONE 0 s else throw OverflowException s
   }"

definition COP_PREFIX_I2UL_OVF :: handler where
  "COP_PREFIX_I2UL_OVF s = do {
     a \<leftarrow> tos (-1) s;
     if sint a \<ge> 0 then do {
       s \<leftarrow> WriteLong (tos_addr (-1) s) (scast a) s;
       next_ins CVMP_LEN_NONE 1 s
     }
     else throw OverflowException s
   }"

definition COP_PREFIX_L2I_OVF :: handler where
  "COP_PREFIX_L2I_OVF s = do {
     (ok, s) \<leftarrow> L2IOvf (tos_addr (-2) s) s;
     if ok \<noteq> 0 then next_ins CVMP_LEN_NONE (-1) s else throw OverflowException s
   }"

definition COP_PREFIX_L2UI_OVF :: handler where
  "COP_PREFIX_L2UI_OVF s = do {
     (ok, s) \<leftarrow> L2UIOvf (tos_addr (-2) s) s;
     if ok \<noteq> 0 then next_ins CVMP_LEN_NONE (-1) s else throw OverflowException s
   }"

definition COP_PREFIX_LU2I_OVF :: handler where
  "COP_PREFIX_LU2I_OVF s = do {
     (ok, s) \<leftarrow> LU2IOvf (tos_addr (-2) s) s;
     if ok \<noteq> 0 then next_ins CVMP_LEN_NONE (-1) s else throw OverflowException s
   }"

definition COP_PREFIX_LU2IU_OVF :: handler where
  "COP_PREFIX_LU2IU_OVF s = do {
     (ok, s) \<leftarrow> LU2UIOvf (tos_addr (-2) s) s;
     if ok \<noteq> 0 then next_ins CVMP_LEN_NONE (-1) s else throw OverflowException s
   }"

definition COP_PREFIX_L2UL_OVF :: handler where
  "COP_PREFIX_L2UL_OVF s = do {
     a \<leftarrow> ReadLong (tos_addr (-2) s) s;
     if sint a \<ge> 0 then next_ins CVMP_LEN_NONE 0 s else throw OverflowException s
   }"

definition COP_PREFIX_LU2L_OVF :: handler where
  "COP_PREFIX_LU2L_OVF s = do {
     a \<leftarrow> ReadULong (tos_addr (-2) s) s;
     if a \<le> 0x7FFFFFFFFFFFFFFF then next_ins CVMP_LEN_NONE 0 s else throw OverflowException s
   }"

definition COP_PREFIX_I2B_ALIGNED :: handler where
  "COP_PREFIX_I2B_ALIGNED s = do {
     a \<leftarrow> tos (-1) s;
     s \<leftarrow> set_tos (-1) (put_byte a (ucast a)) s;
     next_ins CVMP_LEN_NONE 0 s
   }"

definition COP_PREFIX_I2S_ALIGNED :: handler where
  "COP_PREFIX_I2S_ALIGNED s = do {
     a \<leftarrow> tos (-1) s;
     s \<leftarrow> set_tos (-1) (put_short a (ucast a)) s;
     next_ins CVMP_LEN_NONE 0 s
   }"

text \<open>On a 32-bit platform \<open>int32\<close> and native integers have the same size.\<close>

definition COP_PREFIX_FIX_I4_I :: handler where
  "COP_PREFIX_FIX_I4_I s = next_ins CVMP_LEN_NONE 0 s"

definition COP_PREFIX_FIX_I4_U :: handler where
  "COP_PREFIX_FIX_I4_U s = next_ins CVMP_LEN_NONE 0 s"

text \<open>The inlined integer methods.  \<open>sign_i4\<close> stores its result \<^verbatim>\<open>CVM_WORDS_PER_NATIVE_FLOAT\<close>
  words below the top, which is the size of the native float and a parameter here.\<close>

definition COP_PREFIX_ABS_I4 :: handler where
  "COP_PREFIX_ABS_I4 s = do {
     tempI4 \<leftarrow> tos (-1) s;
     if sint tempI4 \<ge> 0 then next_ins CVMP_LEN_NONE 0 s
     else if tempI4 \<noteq> 0x80000000 then do {
       s \<leftarrow> set_tos (-1) (- tempI4) s;
       next_ins CVMP_LEN_NONE 0 s
     }
     else throw OverflowException s
   }"

definition COP_PREFIX_MIN_I4 :: handler where
  "COP_PREFIX_MIN_I4 s = do {
     a \<leftarrow> tos (-2) s;
     b \<leftarrow> tos (-1) s;
     s \<leftarrow> set_tos (-2) (if sint b < sint a then b else a) s;
     next_ins CVMP_LEN_NONE (-1) s
   }"

definition COP_PREFIX_MAX_I4 :: handler where
  "COP_PREFIX_MAX_I4 s = do {
     a \<leftarrow> tos (-2) s;
     b \<leftarrow> tos (-1) s;
     s \<leftarrow> set_tos (-2) (if sint b > sint a then b else a) s;
     next_ins CVMP_LEN_NONE (-1) s
   }"

definition COP_PREFIX_SIGN_I4 :: "int \<Rightarrow> handler" where
  "COP_PREFIX_SIGN_I4 CVM_WORDS_PER_NATIVE_FLOAT s = do {
     tempI4 \<leftarrow> tos (-1) s;
     s \<leftarrow> (if sint tempI4 > 0 then set_tos (- CVM_WORDS_PER_NATIVE_FLOAT) 1 s
           else if sint tempI4 < 0 then set_tos (- CVM_WORDS_PER_NATIVE_FLOAT) (- 1) s
           else set_tos (- CVM_WORDS_PER_NATIVE_FLOAT) 0 s);
     next_ins CVMP_LEN_NONE 0 s
   }"

section \<open>Shapes of conversions\<close>

definition ext_spec :: "(u32 \<Rightarrow> exn + u64) \<Rightarrow> u32 list \<Rightarrow> exn + u32 list" where
  "ext_spec f ws = map_sum id (\<lambda>r. [lo32 r, hi32 r]) (f (ws ! 0))"

definition narrow_spec :: "(u64 \<Rightarrow> exn + u32) \<Rightarrow> u32 list \<Rightarrow> exn + u32 list" where
  "narrow_spec f ws = map_sum id (\<lambda>r. [r]) (f (long_of (ws ! 0) (ws ! 1)))"

text \<open>A value of integer type in a range, or \<open>System.OverflowException\<close>.\<close>

definition in_range32 :: "int \<Rightarrow> int \<Rightarrow> int \<Rightarrow> exn + u32" where
  "in_range32 lo hi i = (if lo \<le> i \<and> i \<le> hi then Inr (word_of_int i) else Inl OverflowException)"

definition in_range64 :: "int \<Rightarrow> int \<Rightarrow> int \<Rightarrow> exn + u64" where
  "in_range64 lo hi i = (if lo \<le> i \<and> i \<le> hi then Inr (word_of_int i) else Inl OverflowException)"

text \<open>Leave the top word or raise.\<close>

locale check_handler =
  fixes h :: handler and len :: int and f :: "u32 \<Rightarrow> exn + u32"
  assumes result: "\<lbrakk>tos (-1) s = Some a; f a = Inr r\<rbrakk> \<Longrightarrow> h s = do { s \<leftarrow> set_tos (-1) r s; next_ins len 0 s }"
    and raise: "\<lbrakk>tos (-1) s = Some a; f a = Inl e\<rbrakk> \<Longrightarrow> h s = throw e s"
begin

lemma performs: "performs h len 1 (spec1 f)"
proof (rule performsI)
  fix s base ws spare e
  assume sp: "split_at s base ws spare" and n: "length ws = 1" and e: "spec1 f ws = Inl e"
  then obtain a where ws: "ws = [a]" by (auto simp only: length_1_split)
  with e have "f a = Inl e" by (cases "f a") (simp_all add: spec1_def)
  moreover have "s = s\<lparr>stack := base @ ws @ spare\<rparr>" using sp by (simp add: split_at_def)
  ultimately show "\<exists>ws'. length ws' = 1 \<and> h s = Some (Throw e (s\<lparr>stack := base @ ws' @ spare\<rparr>))"
    using raise [of s a e] tos_split1 [OF sp [unfolded ws]] n by (intro exI [of _ ws]) (simp add: run_defs)
next
  fix s base ws spare out
  assume sp: "split_at s base ws spare" and "length ws = 1" and out: "spec1 f ws = Inr out"
  then obtain a where ws: "ws = [a]" by (auto simp only: length_1_split)
  with out obtain r where "f a = Inr r" "out = [r]" by (cases "f a") (simp_all add: spec1_def)
  then show "\<exists>spare'. length out + length spare' = 1 + length spare \<and>
      h s = Some (Next (s\<lparr>pc := pc s + len, stacktop := int (length base) + int (length out),
        stack := base @ out @ spare'\<rparr>))"
    using result [of s a r] tos_split1 [OF sp [unfolded ws]] split_at_top [OF sp [unfolded ws]]
    by (intro exI [of _ spare]) (simp add: run_defs)
qed

end

sublocale check_handler \<subseteq> operand_handler h len 1 "spec1 f"
  by unfold_locales (rule performs)

text \<open>Replace an \<open>int32\<close> by an \<open>int64\<close>: this needs one word of room.\<close>

locale extend_handler =
  fixes h :: handler and len :: int and f :: "u32 \<Rightarrow> exn + u64"
  assumes result: "\<lbrakk>tos (-1) s = Some a; f a = Inr r\<rbrakk> \<Longrightarrow>
      h s = do { s \<leftarrow> WriteLong (tos_addr (-1) s) r s; next_ins len 1 s }"
    and raise: "\<lbrakk>tos (-1) s = Some a; f a = Inl e\<rbrakk> \<Longrightarrow> h s = throw e s"
begin

lemma performs: "performs h len 1 (ext_spec f)"
proof (rule performsI)
  fix s base ws spare e
  assume sp: "split_at s base ws spare" and n: "length ws = 1" and e: "ext_spec f ws = Inl e"
  then obtain a where ws: "ws = [a]" by (auto simp only: length_1_split)
  with e have "f a = Inl e" by (cases "f a") (simp_all add: ext_spec_def)
  moreover have "s = s\<lparr>stack := base @ ws @ spare\<rparr>" using sp by (simp add: split_at_def)
  ultimately show "\<exists>ws'. length ws' = 1 \<and> h s = Some (Throw e (s\<lparr>stack := base @ ws' @ spare\<rparr>))"
    using raise [of s a e] tos_split1 [OF sp [unfolded ws]] n by (intro exI [of _ ws]) (simp add: run_defs)
next
  fix s base ws spare out
  assume sp: "split_at s base ws spare" and "length ws = 1" and out: "ext_spec f ws = Inr out"
    and room: "length out \<le> 1 + length spare"
  then obtain a where ws: "ws = [a]" by (auto simp only: length_1_split)
  with out obtain r where r: "f a = Inr r" "out = [lo32 r, hi32 r]" by (cases "f a") (simp_all add: ext_spec_def)
  with room obtain x rest where spare: "spare = x # rest" by (cases spare) simp_all
  have sp2: "split_at (s\<lparr>stacktop := stacktop s + 1\<rparr>) base [a, x] rest"
    using sp by (simp add: split_at_def ws spare)
  have "WriteLong (tos_addr (-1) s) r s = Some (s\<lparr>stack := base @ [lo32 r, hi32 r] @ rest\<rparr>)"
    using sp by (simp add: WriteLong_def set_word_def split_at_def ws spare tos_addr_def nat_add_distrib
        list_update_append)
  then show "\<exists>spare'. length out + length spare' = 1 + length spare \<and>
      h s = Some (Next (s\<lparr>pc := pc s + len, stacktop := int (length base) + int (length out),
        stack := base @ out @ spare'\<rparr>))"
    using result [of s a r] r tos_split1(1) [OF sp [unfolded ws]] split_at_top [OF sp [unfolded ws]]
    by (intro exI [of _ rest]) (simp add: run_defs spare)
qed

end

sublocale extend_handler \<subseteq> operand_handler h len 1 "ext_spec f"
  by unfold_locales (rule performs)

text \<open>Replace an \<open>int64\<close> by an \<open>int32\<close>, and leave an \<open>int64\<close> or raise.\<close>

locale narrow_handler =
  fixes h :: handler and len :: int and f :: "u64 \<Rightarrow> exn + u32"
  assumes result: "\<lbrakk>ReadLong (tos_addr (-2) s) s = Some a; f a = Inr r\<rbrakk> \<Longrightarrow>
      h s = do { s \<leftarrow> set_tos (-2) r s; next_ins len (-1) s }"
    and raise: "\<lbrakk>ReadLong (tos_addr (-2) s) s = Some a; f a = Inl e\<rbrakk> \<Longrightarrow> h s = throw e s"
begin

lemma performs: "performs h len 2 (narrow_spec f)"
proof (rule performsI)
  fix s base ws spare e
  assume sp: "split_at s base ws spare" and n: "length ws = 2" and e: "narrow_spec f ws = Inl e"
  then obtain a b where ws: "ws = [a, b]" by (auto simp only: length_2_split)
  with e have "f (long_of a b) = Inl e" by (cases "f (long_of a b)") (simp_all add: narrow_spec_def)
  moreover have "s = s\<lparr>stack := base @ ws @ spare\<rparr>" using sp by (simp add: split_at_def)
  ultimately show "\<exists>ws'. length ws' = 2 \<and> h s = Some (Throw e (s\<lparr>stack := base @ ws' @ spare\<rparr>))"
    using raise [of s _ e] long_split2 [OF sp [unfolded ws]] n by (intro exI [of _ ws]) (simp add: run_defs)
next
  fix s base ws spare out
  assume sp: "split_at s base ws spare" and "length ws = 2" and out: "narrow_spec f ws = Inr out"
  then obtain a b where ws: "ws = [a, b]" by (auto simp only: length_2_split)
  with out obtain r where "f (long_of a b) = Inr r" "out = [r]"
    by (cases "f (long_of a b)") (simp_all add: narrow_spec_def)
  then show "\<exists>spare'. length out + length spare' = 2 + length spare \<and>
      h s = Some (Next (s\<lparr>pc := pc s + len, stacktop := int (length base) + int (length out),
        stack := base @ out @ spare'\<rparr>))"
    using result [of s _ r] long_split2 [OF sp [unfolded ws]] tos_split2 [OF sp [unfolded ws]]
      split_at_top [OF sp [unfolded ws]]
    by (intro exI [of _ "b # spare"]) (simp add: run_defs)
qed

end

sublocale narrow_handler \<subseteq> operand_handler h len 2 "narrow_spec f"
  by unfold_locales (rule performs)

locale long_check_handler =
  fixes h :: handler and len :: int and f :: "u64 \<Rightarrow> exn + u64"
  assumes result: "\<lbrakk>ReadLong (tos_addr (-2) s) s = Some a; f a = Inr r\<rbrakk> \<Longrightarrow> r = a \<and> h s = next_ins len 0 s"
    and raise: "\<lbrakk>ReadLong (tos_addr (-2) s) s = Some a; f a = Inl e\<rbrakk> \<Longrightarrow> h s = throw e s"
begin

lemma performs: "performs h len 2 (lspec1 f)"
proof (rule performsI)
  fix s base ws spare e
  assume sp: "split_at s base ws spare" and n: "length ws = 2" and e: "lspec1 f ws = Inl e"
  then obtain a b where ws: "ws = [a, b]" by (auto simp only: length_2_split)
  with e have "f (long_of a b) = Inl e" by (cases "f (long_of a b)") (simp_all add: lspec1_def)
  moreover have "s = s\<lparr>stack := base @ ws @ spare\<rparr>" using sp by (simp add: split_at_def)
  ultimately show "\<exists>ws'. length ws' = 2 \<and> h s = Some (Throw e (s\<lparr>stack := base @ ws' @ spare\<rparr>))"
    using raise [of s _ e] long_split2 [OF sp [unfolded ws]] n by (intro exI [of _ ws]) (simp add: run_defs)
next
  fix s base ws spare out
  assume sp: "split_at s base ws spare" and "length ws = 2" and out: "lspec1 f ws = Inr out"
  then obtain a b where ws: "ws = [a, b]" by (auto simp only: length_2_split)
  with out obtain r where r: "f (long_of a b) = Inr r" "out = [lo32 r, hi32 r]"
    by (cases "f (long_of a b)") (simp_all add: lspec1_def)
  then have "r = long_of a b" "h s = next_ins len 0 s"
    using result [of s _ r] long_split2 [OF sp [unfolded ws]] by simp_all
  then show "\<exists>spare'. length out + length spare' = 2 + length spare \<and>
      h s = Some (Next (s\<lparr>pc := pc s + len, stacktop := int (length base) + int (length out),
        stack := base @ out @ spare'\<rparr>))"
    using sp ws r by (intro exI [of _ spare]) (simp add: run_defs split_at_def)
qed

end

sublocale long_check_handler \<subseteq> operand_handler h len 2 "lspec1 f"
  by unfold_locales (rule performs)

section \<open>Interpretation of the contracts\<close>

lemma sint_uint_bound:
  assumes "c < 2 ^ 31"
  shows "0 \<le> sint (a :: u32) \<and> sint a \<le> c \<longleftrightarrow> uint a \<le> c"
proof -
  obtain u where u: "uint a = int u" "unat a = u" using uint_nat [of a] by blast
  then have "u < 2 ^ 32" using unat_less_32 [of a] by simp
  then show ?thesis using assms by (auto simp: sint_cases_32 u)
qed

lemma sint_nonneg_32: "0 \<le> sint (a :: u32) \<longleftrightarrow> uint a < 2 ^ 31"
  using sint_uint_bound [of "2 ^ 31 - 1" a] sint_range_32 [of a] by auto

lemma sint_nonneg_64: "0 \<le> sint (a :: u64) \<longleftrightarrow> uint a < 2 ^ 63"
proof -
  obtain u where u: "uint a = int u" "unat a = u" using uint_nat [of a] by blast
  then have "u < 2 ^ 64" using unat_less_64 [of a] by simp
  then show ?thesis by (auto simp: sint_cases_64 u)
qed

lemma uint_range_32: "0 \<le> uint (a :: u32)" "uint (a :: u32) \<le> 4294967295"
  using uint_lt2p [of a] by simp_all

lemma sint_le_range: "sint (a :: u32) \<le> 4294967295" "sint (b :: u64) \<le> 18446744073709551615"
  "sint (a :: u32) \<le> 2147483647" "sint (a :: u32) \<le> 18446744073709551615" "- 9223372036854775808 \<le> uint (b :: u64)" "- 2147483648 \<le> uint (a :: u32)"
proof -
  have "sint a < 2147483648" "sint b < 9223372036854775808"
    using sint_range_32(2) [of a] sint_range_64(2) [of b] by simp_all
  then show "sint a \<le> 4294967295" "sint b \<le> 18446744073709551615"
      "sint a \<le> 2147483647" "sint a \<le> 18446744073709551615"
    by linarith+
  show "- 9223372036854775808 \<le> uint b" "- 2147483648 \<le> uint a"
    using uint_ge_0 [of a] uint_ge_0 [of b] by linarith+
qed

lemma abs_sint_range: "\<bar>sint (a :: u32)\<bar> \<le> 2147483647 \<longleftrightarrow> sint a \<noteq> - 2147483648"
proof -
  have "- 2147483648 \<le> sint a" "sint a < 2147483648" using sint_range_32 [of a] by simp_all
  then show ?thesis by linarith
qed

lemma ucast_sint: "(ucast (a :: u64) :: u32) = word_of_int (sint a)"
  by (rule bit_word_eqI) (auto simp: bit_simps bit_sint_iff)

lemma ucast_uint: "(word_of_int (uint (a :: u64)) :: u32) = ucast a"
  by (rule bit_word_eqI) (auto simp: bit_simps)

lemma byte_conversions:
  "(scast (ucast (a :: u32) :: u8) :: u32) = word_of_int (signed_take_bit 7 (sint a))"
  "(ucast (ucast (a :: u32) :: u8) :: u32) = word_of_int (take_bit 8 (sint a))"
  "(scast (ucast (a :: u32) :: u16) :: u32) = word_of_int (signed_take_bit 15 (sint a))"
  "(ucast (ucast (a :: u32) :: u16) :: u32) = word_of_int (take_bit 16 (sint a))"
  by (rule bit_word_eqI; auto simp: bit_simps bit_sint_iff min_def)+

lemma uint_lower: "c \<le> 0 \<Longrightarrow> c \<le> uint (a :: 'a::len word)"
  using uint_ge_0 [of a] by linarith

lemma abs_range: "a = 0x80000000 \<longleftrightarrow> sint (a :: u32) = - 2147483648"
proof -
  have "sint (0x80000000 :: u32) = - 2147483648" by simp
  then show ?thesis by (metis signed_word_eqI)
qed

interpretation i2b: unop_handler COP_I2B 1 "\<lambda>a. word_of_int (signed_take_bit 7 (sint a))"
  by unfold_locales (auto simp: COP_I2B_def byte_conversions)

interpretation i2ub: unop_handler COP_I2UB 1 "\<lambda>a. word_of_int (take_bit 8 (sint a))"
  by unfold_locales (auto simp: COP_I2UB_def byte_conversions)

interpretation i2s: unop_handler COP_I2S 1 "\<lambda>a. word_of_int (signed_take_bit 15 (sint a))"
  by unfold_locales (auto simp: COP_I2S_def byte_conversions)

interpretation i2us: unop_handler COP_I2US 1 "\<lambda>a. word_of_int (take_bit 16 (sint a))"
  by unfold_locales (auto simp: COP_I2US_def byte_conversions)

interpretation i2l: extend_handler COP_I2L 1 "\<lambda>a. Inr (word_of_int (sint a))"
  by unfold_locales (auto simp: COP_I2L_def)

interpretation iu2l: extend_handler COP_IU2L 1 "\<lambda>a. Inr (word_of_int (uint a))"
  by unfold_locales (auto simp: COP_IU2L_def)

interpretation l2i: narrow_handler COP_L2I 1 "\<lambda>a. Inr (word_of_int (sint a))"
  by unfold_locales (auto simp: COP_L2I_def ucast_sint)

interpretation i2b_ovf: check_handler COP_PREFIX_I2B_OVF 2 "\<lambda>a. in_range32 (- 128) 127 (sint a)"
  by unfold_locales (auto simp: COP_PREFIX_I2B_OVF_def in_range32_def set_word_same split: if_splits)

interpretation iu2b_ovf: check_handler COP_PREFIX_IU2B_OVF 2 "\<lambda>a. in_range32 (- 128) 127 (uint a)"
  by unfold_locales (auto simp: COP_PREFIX_IU2B_OVF_def in_range32_def set_word_same sint_uint_bound uint_lower split: if_splits)

interpretation i2ub_ovf: check_handler COP_PREFIX_I2UB_OVF 2 "\<lambda>a. in_range32 (0) 255 (sint a)"
  by unfold_locales (auto simp: COP_PREFIX_I2UB_OVF_def in_range32_def set_word_same split: if_splits)

interpretation iu2ub_ovf: check_handler COP_PREFIX_IU2UB_OVF 2 "\<lambda>a. in_range32 (0) 255 (uint a)"
  by unfold_locales (auto simp: COP_PREFIX_IU2UB_OVF_def in_range32_def set_word_same sint_uint_bound uint_lower split: if_splits)

interpretation i2s_ovf: check_handler COP_PREFIX_I2S_OVF 2 "\<lambda>a. in_range32 (- 32768) 32767 (sint a)"
  by unfold_locales (auto simp: COP_PREFIX_I2S_OVF_def in_range32_def set_word_same split: if_splits)

interpretation iu2s_ovf: check_handler COP_PREFIX_IU2S_OVF 2 "\<lambda>a. in_range32 (- 32768) 32767 (uint a)"
  by unfold_locales (auto simp: COP_PREFIX_IU2S_OVF_def in_range32_def set_word_same sint_uint_bound uint_lower split: if_splits)

interpretation i2us_ovf: check_handler COP_PREFIX_I2US_OVF 2 "\<lambda>a. in_range32 (0) 65535 (sint a)"
  by unfold_locales (auto simp: COP_PREFIX_I2US_OVF_def in_range32_def set_word_same split: if_splits)

interpretation iu2us_ovf: check_handler COP_PREFIX_IU2US_OVF 2 "\<lambda>a. in_range32 (0) 65535 (uint a)"
  by unfold_locales (auto simp: COP_PREFIX_IU2US_OVF_def in_range32_def set_word_same sint_uint_bound uint_lower split: if_splits)

interpretation i2iu_ovf: check_handler COP_PREFIX_I2IU_OVF 2 "\<lambda>a. in_range32 0 (2 ^ 32 - 1) (sint a)"
  by unfold_locales (auto simp: COP_PREFIX_I2IU_OVF_def in_range32_def set_word_same sint_le_range split: if_splits)

interpretation iu2i_ovf: check_handler COP_PREFIX_IU2I_OVF 2 "\<lambda>a. in_range32 (- (2 ^ 31)) (2 ^ 31 - 1) (uint a)"
  by unfold_locales (auto simp: COP_PREFIX_IU2I_OVF_def in_range32_def set_word_same sint_nonneg_32 sint_le_range split: if_splits)

interpretation i2ul_ovf: extend_handler COP_PREFIX_I2UL_OVF 2 "\<lambda>a. in_range64 0 (2 ^ 64 - 1) (sint a)"
  by unfold_locales (auto simp: COP_PREFIX_I2UL_OVF_def in_range64_def sint_le_range split: if_splits)

interpretation l2i_ovf: narrow_handler COP_PREFIX_L2I_OVF 2 "\<lambda>a. in_range32 (- (2 ^ 31)) (2 ^ 31 - 1) (sint a)"
  by unfold_locales (auto simp: COP_PREFIX_L2I_OVF_def L2IOvf_def in_range32_def ucast_sint split: if_splits)

interpretation l2ui_ovf: narrow_handler COP_PREFIX_L2UI_OVF 2 "\<lambda>a. in_range32 0 (2 ^ 32 - 1) (sint a)"
  by unfold_locales (auto simp: COP_PREFIX_L2UI_OVF_def L2UIOvf_def in_range32_def ucast_sint split: if_splits)

interpretation lu2i_ovf: narrow_handler COP_PREFIX_LU2I_OVF 2 "\<lambda>a. in_range32 (- (2 ^ 31)) (2 ^ 31 - 1) (uint a)"
  by unfold_locales (auto simp: COP_PREFIX_LU2I_OVF_def LU2IOvf_def in_range32_def ucast_uint word_le_def uint_lower split: if_splits)

interpretation lu2iu_ovf: narrow_handler COP_PREFIX_LU2IU_OVF 2 "\<lambda>a. in_range32 0 (2 ^ 32 - 1) (uint a)"
  by unfold_locales (auto simp: COP_PREFIX_LU2IU_OVF_def LU2UIOvf_def in_range32_def ucast_uint word_le_def split: if_splits)

interpretation l2ul_ovf: long_check_handler COP_PREFIX_L2UL_OVF 2 "\<lambda>a. in_range64 0 (2 ^ 64 - 1) (sint a)"
  by unfold_locales (auto simp: COP_PREFIX_L2UL_OVF_def in_range64_def sint_le_range split: if_splits)

interpretation lu2l_ovf: long_check_handler COP_PREFIX_LU2L_OVF 2 "\<lambda>a. in_range64 (- (2 ^ 63)) (2 ^ 63 - 1) (uint a)"
  by unfold_locales (auto simp: COP_PREFIX_LU2L_OVF_def in_range64_def word_le_def uint_lower split: if_splits)

interpretation i2b_aligned: unop_handler COP_PREFIX_I2B_ALIGNED 2 "\<lambda>a. a"
  by unfold_locales (auto simp: COP_PREFIX_I2B_ALIGNED_def)

interpretation i2s_aligned: unop_handler COP_PREFIX_I2S_ALIGNED 2 "\<lambda>a. a"
  by unfold_locales (auto simp: COP_PREFIX_I2S_ALIGNED_def)

interpretation abs_i4: check_handler COP_PREFIX_ABS_I4 2 "\<lambda>a. in_range32 0 (2 ^ 31 - 1) \<bar>sint a\<bar>"
  by unfold_locales
    (auto simp: COP_PREFIX_ABS_I4_def in_range32_def set_word_same abs_range abs_if sint_le_range
      simp flip: abs_sint_range split: if_splits)

interpretation min_i4: binop_handler COP_PREFIX_MIN_I4 2 "\<lambda>a b. Inr (word_of_int (min (sint a) (sint b)))"
  by unfold_locales (auto simp: COP_PREFIX_MIN_I4_def min_def)

interpretation max_i4: binop_handler COP_PREFIX_MAX_I4 2 "\<lambda>a b. Inr (word_of_int (max (sint a) (sint b)))"
  by unfold_locales (auto simp: COP_PREFIX_MAX_I4_def max_def)

interpretation sign_i4: unop_handler "COP_PREFIX_SIGN_I4 1" 2 "\<lambda>a. word_of_int (sgn (sint a))"
  by unfold_locales (auto simp: COP_PREFIX_SIGN_I4_def sgn_if)

lemma sign_i4_misplaced:
  assumes "split_at s base [a, b, c] spare"
  shows "COP_PREFIX_SIGN_I4 3 s =
    Some (Next (s\<lparr>pc := pc s + 2, stack := base @ [word_of_int (sgn (sint c)), b, c] @ spare\<rparr>))"
  using assms
  by (simp add: COP_PREFIX_SIGN_I4_def run_defs split_at_def word_at_def set_word_def tos_addr_def nth_append
      list_update_append sgn_if)

lemma sign_i4_stuck:
  assumes "w \<noteq> 1" shows "COP_PREFIX_SIGN_I4 w (machine [5] 1 []) = None"
  using assms by (auto simp: COP_PREFIX_SIGN_I4_def machine_def run_defs word_at_def set_word_def tos_addr_def)

lemma widens_i2p_lower: "widens 4 wide_COP_I2P_LOWER COP_I2P_LOWER"
  unfolding widens_def wide_COP_I2P_LOWER_def COP_I2P_LOWER_def
  by (auto simp: Let_def code_update_writes write_next_4 split: bind_splits)

section \<open>Properties\<close>

text \<open>The conversions without overflow detection: truncation to 8 and 16 bits followed by
  sign or zero extension, extension of 32-bit values to 64 bits, and truncation of 64-bit
  values to 32 bits.\<close>

lemma conversion_effects:
  "performs COP_I2B 1 1 (spec1 (\<lambda>a. Inr (word_of_int (signed_take_bit 7 (sint a))))) \<and>
   performs COP_I2UB 1 1 (spec1 (\<lambda>a. Inr (word_of_int (take_bit 8 (sint a))))) \<and>
   performs COP_I2S 1 1 (spec1 (\<lambda>a. Inr (word_of_int (signed_take_bit 15 (sint a))))) \<and>
   performs COP_I2US 1 1 (spec1 (\<lambda>a. Inr (word_of_int (take_bit 16 (sint a))))) \<and>
   performs COP_I2L 1 1 (ext_spec (\<lambda>a. Inr (word_of_int (sint a)))) \<and>
   performs COP_IU2L 1 1 (ext_spec (\<lambda>a. Inr (word_of_int (uint a)))) \<and>
   performs COP_L2I 1 2 (narrow_spec (\<lambda>a. Inr (word_of_int (sint a))))"
  using i2b.performs i2ub.performs i2s.performs i2us.performs i2l.performs iu2l.performs l2i.performs
  by blast

text \<open>The conversions with overflow detection deliver the value when it lies in the range
  of the target type and raise \<open>System.OverflowException\<close> otherwise, for every combination
  of signed and unsigned source and target; \<open>abs\<close> raises it exactly for the least value.\<close>

lemma checked_conversion_effects:
  "performs COP_PREFIX_I2B_OVF 2 1 (spec1 (\<lambda>a. in_range32 (- 128) 127 (sint a))) \<and>
   performs COP_PREFIX_IU2B_OVF 2 1 (spec1 (\<lambda>a. in_range32 (- 128) 127 (uint a))) \<and>
   performs COP_PREFIX_I2UB_OVF 2 1 (spec1 (\<lambda>a. in_range32 0 255 (sint a))) \<and>
   performs COP_PREFIX_IU2UB_OVF 2 1 (spec1 (\<lambda>a. in_range32 0 255 (uint a))) \<and>
   performs COP_PREFIX_I2S_OVF 2 1 (spec1 (\<lambda>a. in_range32 (- 32768) 32767 (sint a))) \<and>
   performs COP_PREFIX_IU2S_OVF 2 1 (spec1 (\<lambda>a. in_range32 (- 32768) 32767 (uint a))) \<and>
   performs COP_PREFIX_I2US_OVF 2 1 (spec1 (\<lambda>a. in_range32 0 65535 (sint a))) \<and>
   performs COP_PREFIX_IU2US_OVF 2 1 (spec1 (\<lambda>a. in_range32 0 65535 (uint a))) \<and>
   performs COP_PREFIX_I2IU_OVF 2 1 (spec1 (\<lambda>a. in_range32 0 (2 ^ 32 - 1) (sint a))) \<and>
   performs COP_PREFIX_IU2I_OVF 2 1 (spec1 (\<lambda>a. in_range32 (- (2 ^ 31)) (2 ^ 31 - 1) (uint a))) \<and>
   performs COP_PREFIX_I2UL_OVF 2 1 (ext_spec (\<lambda>a. in_range64 0 (2 ^ 64 - 1) (sint a))) \<and>
   performs COP_PREFIX_L2I_OVF 2 2 (narrow_spec (\<lambda>a. in_range32 (- (2 ^ 31)) (2 ^ 31 - 1) (sint a))) \<and>
   performs COP_PREFIX_L2UI_OVF 2 2 (narrow_spec (\<lambda>a. in_range32 0 (2 ^ 32 - 1) (sint a))) \<and>
   performs COP_PREFIX_LU2I_OVF 2 2 (narrow_spec (\<lambda>a. in_range32 (- (2 ^ 31)) (2 ^ 31 - 1) (uint a))) \<and>
   performs COP_PREFIX_LU2IU_OVF 2 2 (narrow_spec (\<lambda>a. in_range32 0 (2 ^ 32 - 1) (uint a))) \<and>
   performs COP_PREFIX_L2UL_OVF 2 2 (lspec1 (\<lambda>a. in_range64 0 (2 ^ 64 - 1) (sint a))) \<and>
   performs COP_PREFIX_LU2L_OVF 2 2 (lspec1 (\<lambda>a. in_range64 (- (2 ^ 63)) (2 ^ 63 - 1) (uint a))) \<and>
   performs COP_PREFIX_ABS_I4 2 1 (spec1 (\<lambda>a. in_range32 0 (2 ^ 31 - 1) \<bar>sint a\<bar>))"
  by (intro conjI i2b_ovf.performs iu2b_ovf.performs i2ub_ovf.performs iu2ub_ovf.performs
      i2s_ovf.performs iu2s_ovf.performs i2us_ovf.performs iu2us_ovf.performs i2iu_ovf.performs
      iu2i_ovf.performs i2ul_ovf.performs l2i_ovf.performs l2ui_ovf.performs lu2i_ovf.performs
      lu2iu_ovf.performs l2ul_ovf.performs lu2l_ovf.performs abs_i4.performs)

text \<open>The inlined \<open>Math.Sign(int)\<close> replaces its operand by its sign exactly when the native
  float of the platform occupies one stack word: the handler stores the result
  \<^verbatim>\<open>CVM_WORDS_PER_NATIVE_FLOAT\<close> words below the top, and is wrong for every other size.\<close>

lemma sign_i4_correct_iff:
  "performs (COP_PREFIX_SIGN_I4 w) 2 1 (spec1 (\<lambda>a. Inr (word_of_int (sgn (sint a))))) \<longleftrightarrow> w = 1"
proof
  assume p: "performs (COP_PREFIX_SIGN_I4 w) 2 1 (spec1 (\<lambda>a. Inr (word_of_int (sgn (sint a)))))"
  have "split_at (machine [5] 1 []) [] [5] []" by (simp add: split_at_def machine_def)
  from p [unfolded performs_def, rule_format, OF this]
  have "COP_PREFIX_SIGN_I4 w (machine [5] 1 []) \<noteq> None" by (auto simp: spec1_def)
  then show "w = 1" by (cases "w = 1") (simp_all add: sign_i4_stuck)
next
  assume "w = 1"
  then show "performs (COP_PREFIX_SIGN_I4 w) 2 1 (spec1 (\<lambda>a. Inr (word_of_int (sgn (sint a)))))"
    using sign_i4.performs by simp
qed

end
