(* ===== verification/CvmPtr.thy ===== *)
theory CvmPtr
  imports CvmConv
begin

text \<open>
  Pointer arithmetic and null checks (\<^verbatim>\<open>engine/cvm_ptr.c\<close>), and \<open>pushdown\<close> of
  \<^verbatim>\<open>engine/cvm_call.c\<close>.  A pointer is a 32-bit word, and the 64-bit offsets are
  truncated, as the sources do on a platform with 32-bit \<^verbatim>\<open>long\<close>.  The instructions of
  these files that reach the object heap or the method tables are not modelled.
\<close>

section \<open>Handlers\<close>

definition COP_PADD_OFFSET :: handler where
  "COP_PADD_OFFSET s = do {
     p \<leftarrow> tos (-1) s;
     n \<leftarrow> CVM_ARG_BYTE s;
     s \<leftarrow> set_tos (-1) (p + n) s;
     next_ins CVM_LEN_BYTE 0 s
   }"

definition COP_PADD_OFFSET_N :: handler where
  "COP_PADD_OFFSET_N s = do {
     n \<leftarrow> CVM_ARG_DWIDE1_SMALL s;
     p \<leftarrow> tos (- (sint n + 1)) s;
     m \<leftarrow> CVM_ARG_DWIDE2_SMALL s;
     s \<leftarrow> set_tos (- (sint n + 1)) (p + m) s;
     next_ins CVM_LEN_DWIDE_SMALL 0 s
   }"

definition COP_PADD_I4 :: handler where
  "COP_PADD_I4 s = do {
     p \<leftarrow> tos (-2) s;
     i \<leftarrow> tos (-1) s;
     s \<leftarrow> set_tos (-2) (p + i) s;
     next_ins CVM_LEN_NONE (-1) s
   }"

definition COP_PADD_I4_R :: handler where
  "COP_PADD_I4_R s = do {
     p \<leftarrow> tos (-1) s;
     i \<leftarrow> tos (-2) s;
     s \<leftarrow> set_tos (-2) (p + i) s;
     next_ins CVM_LEN_NONE (-1) s
   }"

definition COP_PADD_I8 :: handler where
  "COP_PADD_I8 s = do {
     p \<leftarrow> tos (-3) s;
     l \<leftarrow> ReadLong (tos_addr (-2) s) s;
     s \<leftarrow> set_tos (-3) (p + ucast l) s;
     next_ins CVM_LEN_NONE (-2) s
   }"

definition COP_PADD_I8_R :: handler where
  "COP_PADD_I8_R s = do {
     p \<leftarrow> tos (-1) s;
     l \<leftarrow> ReadLong (tos_addr (-3) s) s;
     s \<leftarrow> set_tos (-3) (p + ucast l) s;
     next_ins CVM_LEN_NONE (-2) s
   }"

definition COP_PSUB :: handler where
  "COP_PSUB s = do {
     p \<leftarrow> tos (-2) s;
     q \<leftarrow> tos (-1) s;
     s \<leftarrow> set_tos (-2) (p - q) s;
     next_ins CVM_LEN_NONE (-1) s
   }"

definition COP_PSUB_I4 :: handler where
  "COP_PSUB_I4 s = do {
     p \<leftarrow> tos (-2) s;
     i \<leftarrow> tos (-1) s;
     s \<leftarrow> set_tos (-2) (p - i) s;
     next_ins CVM_LEN_NONE (-1) s
   }"

definition COP_PSUB_I8 :: handler where
  "COP_PSUB_I8 s = do {
     p \<leftarrow> tos (-3) s;
     l \<leftarrow> ReadLong (tos_addr (-2) s) s;
     s \<leftarrow> set_tos (-3) (p - ucast l) s;
     next_ins CVM_LEN_NONE (-2) s
   }"

definition COP_CKNULL :: handler where
  "COP_CKNULL s = do {
     p \<leftarrow> tos (-1) s;
     if p \<noteq> 0 then next_ins CVM_LEN_NONE 0 s else throw NullReferenceException s
   }"

definition COP_CKNULL_N :: handler where
  "COP_CKNULL_N s = do {
     n \<leftarrow> CVM_ARG_WIDE_SMALL s;
     p \<leftarrow> tos (- (sint n + 1)) s;
     if p \<noteq> 0 then next_ins CVM_LEN_WIDE_SMALL 0 s else throw NullReferenceException s
   }"

definition wide_COP_CKNULL_N :: handler where
  "wide_COP_CKNULL_N s = do {
     n \<leftarrow> CVM_ARG_WIDE_LARGE s;
     p \<leftarrow> tos (- (sint n + 1)) s;
     if p \<noteq> 0 then next_ins CVM_LEN_WIDE_LARGE 0 s else throw NullReferenceException s
   }"

definition wide_COP_PADD_OFFSET_N :: handler where
  "wide_COP_PADD_OFFSET_N s = do {
     tempNum \<leftarrow> CVM_ARG_DWIDE1_LARGE s;
     p \<leftarrow> tos (- sint (tempNum + 1)) s;
     m \<leftarrow> CVM_ARG_DWIDE2_LARGE s;
     s \<leftarrow> set_tos (- sint (tempNum + 1)) (p + m) s;
     next_ins CVM_LEN_DWIDE_LARGE 0 s
   }"

definition COP_PUSHDOWN :: handler where
  "COP_PUSHDOWN s =
     (if (word_of_int (stackmax s - stacktop s) :: u32) \<ge> 1 then do {
        tempptr \<leftarrow> tos (-1) s;
        tempNum \<leftarrow> CVM_ARG_WORD s;
        s \<leftarrow> (if tempNum \<noteq> 0
              then move_words (stacktop s + 1 - uint tempNum) (stacktop s - 1 - uint tempNum) (unat tempNum) s
              else Some s);
        s \<leftarrow> set_word (stacktop s - uint tempNum - 1) tempptr s;
        s \<leftarrow> set_word (stacktop s - uint tempNum) tempptr s;
        next_ins CVM_LEN_WORD 1 s
      }
      else throw StackOverflowException s)"

section \<open>Contracts\<close>

text \<open>A pointer and a 64-bit offset, in either order.\<close>

definition ptr_long_spec :: "(u32 \<Rightarrow> u64 \<Rightarrow> u32) \<Rightarrow> u32 list \<Rightarrow> exn + u32 list" where
  "ptr_long_spec f ws = Inr [f (ws ! 0) (long_of (ws ! 1) (ws ! 2))]"

definition long_ptr_spec :: "(u32 \<Rightarrow> u64 \<Rightarrow> u32) \<Rightarrow> u32 list \<Rightarrow> exn + u32 list" where
  "long_ptr_spec f ws = Inr [f (ws ! 2) (long_of (ws ! 0) (ws ! 1))]"

lemma split3_words:
  assumes "split_at s base [a, b, c] spare"
  shows "tos (-3) s = Some a" and "tos (-1) s = Some c"
    and "ReadLong (tos_addr (-2) s) s = Some (long_of b c)" and "ReadLong (tos_addr (-3) s) s = Some (long_of a b)"
    and "set_tos (-3) v s = Some (s\<lparr>stack := base @ [v, b, c] @ spare\<rparr>)"
  using word_at_split [OF assms, of "-1"] word_at_split [OF assms, of "-2"]
    word_at_split [OF assms, of "-3"] set_word_split [OF assms, of "-3"] tos_split3 [OF assms]
  by (simp_all add: ReadLong_def tos_addr_Suc)

locale ptr_long_handler =
  fixes h :: handler and f :: "u32 \<Rightarrow> u64 \<Rightarrow> u32" and reversed :: bool
  assumes result: "\<lbrakk>tos (if reversed then -1 else -3) s = Some p;
      ReadLong (tos_addr (if reversed then -3 else -2) s) s = Some l\<rbrakk> \<Longrightarrow>
      h s = do { s \<leftarrow> set_tos (-3) (f p l) s; next_ins 1 (-2) s }"
begin

lemma performs: "performs h 1 3 (if reversed then long_ptr_spec f else ptr_long_spec f)"
proof (rule performsI)
  fix s base ws spare out
  assume sp: "split_at s base ws spare" and "length ws = 3"
    and out: "(if reversed then long_ptr_spec f else ptr_long_spec f) ws = Inr out"
  then obtain a b c where ws: "ws = [a, b, c]" by (auto simp only: length_3_split)
  with out have o: "out = [if reversed then f c (long_of a b) else f a (long_of b c)]"
    by (auto simp: long_ptr_spec_def ptr_long_spec_def numeral_eq_Suc)
  show "\<exists>spare'. length out + length spare' = 3 + length spare \<and>
      h s = Some (Next (s\<lparr>pc := pc s + 1, stacktop := int (length base) + int (length out),
        stack := base @ out @ spare'\<rparr>))"
    using result [of s] split3_words [OF sp [unfolded ws]] split_at_top [OF sp [unfolded ws]]
    by (intro exI [of _ "b # c # spare"]) (simp add: o run_defs)
qed (simp add: long_ptr_spec_def ptr_long_spec_def split: if_splits)

end

sublocale ptr_long_handler \<subseteq> operand_handler h 1 3 "if reversed then long_ptr_spec f else ptr_long_spec f"
  by unfold_locales (rule performs)

interpretation padd_i4: binop_handler COP_PADD_I4 1 "\<lambda>a b. Inr (a + b)"
  by unfold_locales (auto simp: COP_PADD_I4_def)

interpretation padd_i4_r: binop_handler COP_PADD_I4_R 1 "\<lambda>a b. Inr (b + a)"
  by unfold_locales (auto simp: COP_PADD_I4_R_def)

interpretation psub: binop_handler COP_PSUB 1 "\<lambda>a b. Inr (a - b)"
  by unfold_locales (auto simp: COP_PSUB_def)

interpretation psub_i4: binop_handler COP_PSUB_I4 1 "\<lambda>a b. Inr (a - b)"
  by unfold_locales (auto simp: COP_PSUB_I4_def)

interpretation padd_i8: ptr_long_handler COP_PADD_I8 "\<lambda>p l. p + ucast l" False
  by unfold_locales (auto simp: COP_PADD_I8_def)

interpretation padd_i8_r: ptr_long_handler COP_PADD_I8_R "\<lambda>p l. p + ucast l" True
  by unfold_locales (auto simp: COP_PADD_I8_R_def)

interpretation psub_i8: ptr_long_handler COP_PSUB_I8 "\<lambda>p l. p - ucast l" False
  by unfold_locales (auto simp: COP_PSUB_I8_def)

interpretation cknull: check_handler COP_CKNULL 1 "\<lambda>p. if p = 0 then Inl NullReferenceException else Inr p"
  by unfold_locales (auto simp: COP_CKNULL_def set_word_same split: if_splits)

lemma sint_Suc_small: "unat (n :: u32) < 2 ^ 8 \<Longrightarrow> sint (n + 1) = sint n + 1"
proof -
  assume n: "unat n < 2 ^ 8"
  then have "unat (n + 1) = unat n + 1" by (simp add: unat_word_ariths)
  then show ?thesis using n by (simp add: sint_small)
qed

lemma widens_padd_offset_n: "widens2 7 wide_COP_PADD_OFFSET_N COP_PADD_OFFSET_N"
  unfolding widens2_def
proof (intro allI impI)
  fix s c n m
  assume a: "CVM_ARG_DWIDE1_LARGE s = Some n" "CVM_ARG_DWIDE2_LARGE s = Some m"
    "CVM_ARG_DWIDE1_SMALL (s\<lparr>code := c\<rparr>) = Some n" "CVM_ARG_DWIDE2_SMALL (s\<lparr>code := c\<rparr>) = Some m"
  have "- sint (n + 1) = - sint n - 1"
    using sint_Suc_small [OF ARG_BYTE_small(1) [OF a(3)]] by simp
  with a show "wide_COP_PADD_OFFSET_N s =
      map_option (map_outcome (\<lambda>t. t\<lparr>pc := pc t + 7, code := code s\<rparr>)) (COP_PADD_OFFSET_N (s\<lparr>code := c\<rparr>))"
    by (auto simp: wide_COP_PADD_OFFSET_N_def COP_PADD_OFFSET_N_def code_update_writes
        write_then_next [OF writes_keep_code(1), where l = 3 and k = 7, simplified] split: bind_splits)
qed

section \<open>\<open>pushdown\<close>\<close>

lemma pushdown_move:
  assumes "split_at s base (ns @ [v]) (x # rest)"
  shows "move_words (int (length base) + 2) (int (length base)) (length ns) s =
    Some (s\<lparr>stack := base @ take 2 (ns @ [v, x]) @ ns @ rest\<rparr>)"
proof -
  have st: "stack s = base @ (ns @ [v, x]) @ rest" using assms by (simp add: split_at_def)
  have "nat (int (length base) + 2) = length base + 2" by linarith
  moreover have "take (length base + 2) (stack s) = base @ take 2 (ns @ [v, x])"
    by (cases ns; cases "tl ns") (simp_all add: st)
  moreover have "drop (length base + 2 + length ns) (stack s) = rest" by (simp add: st)
  moreover have "take (length ns) (drop (length base) (stack s)) = ns" by (simp add: st)
  moreover have "length (stack s) = length base + length ns + 2 + length rest" by (simp add: st)
  ultimately show ?thesis unfolding move_words_def by simp
qed

lemma pushdown_effect:
  assumes "CVM_ARG_WORD s = Some n" and sp: "split_at s base (ns @ [v]) (x # rest)" and len: "length ns = unat n"
    and "stacktop s < stackmax s" and "stackmax s - stacktop s < 2 ^ 32"
  shows "COP_PUSHDOWN s = Some (Next (s\<lparr>pc := pc s + 5, stacktop := stacktop s + 1,
    stack := base @ [v, v] @ ns @ rest\<rparr>))"
proof -
  have top: "stacktop s = int (length base) + uint n + 1" using sp len by (simp add: split_at_def)
  have tos: "tos (-1) s = Some v"
    using sp by (simp add: split_at_def word_at_def tos_addr_def nat_add_distrib nth_append)
  have room: "(word_of_int (stackmax s - stacktop s) :: u32) \<ge> 1"
    using assms(4,5) unfolding word_le_def uint_word_of_int by (simp add: mod_pos_pos_trivial)
  let ?m = "s\<lparr>stack := base @ take 2 (ns @ [v, x]) @ ns @ rest\<rparr>"
  have mv: "(if n \<noteq> 0 then move_words (stacktop s + 1 - uint n) (stacktop s - 1 - uint n) (unat n) s else Some s) = Some ?m"
  proof (cases "n = 0")
    case True
    then have "ns = []" using len by simp
    then have "stack s = base @ [v, x] @ rest" using sp by (simp add: split_at_def)
    then show ?thesis using True \<open>ns = []\<close> by simp
  next
    case False
    then show ?thesis using pushdown_move [OF sp] len top by (simp add: add.commute)
  qed
  obtain c d where cd: "take 2 (ns @ [v, x]) = [c, d]"
    by (cases ns; cases "tl ns") auto
  have w: "set_word (stacktop ?m - uint n - 1) v ?m = Some (s\<lparr>stack := base @ [v, d] @ ns @ rest\<rparr>)"
    "set_word (stacktop s - uint n) v (s\<lparr>stack := base @ [v, d] @ ns @ rest\<rparr>) =
       Some (s\<lparr>stack := base @ [v, v] @ ns @ rest\<rparr>)"
    using top unfolding cd by (simp_all add: set_word_def list_update_append nat_add_distrib)
  show ?thesis using assms(1) w unfolding COP_PUSHDOWN_def if_P [OF room] by (simp add: tos mv run_defs)
qed

section \<open>Properties\<close>

text \<open>Pointer arithmetic is exact modulo \<open>2^32\<close> for 32-bit and truncated 64-bit offsets in
  either operand order, and the null check leaves the machine alone but for the program
  counter, or raises \<open>System.NullReferenceException\<close> for the null pointer and only for it.\<close>

lemma pointer_arithmetic_effects:
  "performs COP_PADD_I4 1 2 (spec2 (\<lambda>p i. Inr (p + i))) \<and>
   performs COP_PADD_I4_R 1 2 (spec2 (\<lambda>i p. Inr (p + i))) \<and>
   performs COP_PADD_I8 1 3 (ptr_long_spec (\<lambda>p l. p + ucast l)) \<and>
   performs COP_PADD_I8_R 1 3 (long_ptr_spec (\<lambda>p l. p + ucast l)) \<and>
   performs COP_PSUB 1 2 (spec2 (\<lambda>p q. Inr (p - q))) \<and>
   performs COP_PSUB_I4 1 2 (spec2 (\<lambda>p i. Inr (p - i))) \<and>
   performs COP_PSUB_I8 1 3 (ptr_long_spec (\<lambda>p l. p - ucast l)) \<and>
   performs COP_CKNULL 1 1 (spec1 (\<lambda>p. if p = 0 then Inl NullReferenceException else Inr p))"
  using padd_i4.performs padd_i4_r.performs padd_i8.performs padd_i8_r.performs psub.performs
    psub_i4.performs psub_i8.performs cknull.performs by simp

end
