(* ===== verification/CvmBranch.thy ===== *)
theory CvmBranch
  imports CvmContract
begin

text \<open>
  The branch instructions (\<^verbatim>\<open>engine/cvm_branch.c\<close>): conditional and unconditional branches
  with a one-byte displacement, the \<open>br_long\<close> instruction that carries a branch opcode and a
  four-byte displacement, and \<open>switch\<close>.  Displacements are relative to the instruction.
\<close>

section \<open>Opcodes\<close>

abbreviation (input) OP_BR :: u8 where "OP_BR \<equiv> 0xA1"
abbreviation (input) OP_BEQ :: u8 where "OP_BEQ \<equiv> 0xA2"
abbreviation (input) OP_BNE :: u8 where "OP_BNE \<equiv> 0xA3"
abbreviation (input) OP_BLT :: u8 where "OP_BLT \<equiv> 0xA4"
abbreviation (input) OP_BLT_UN :: u8 where "OP_BLT_UN \<equiv> 0xA5"
abbreviation (input) OP_BLE :: u8 where "OP_BLE \<equiv> 0xA6"
abbreviation (input) OP_BLE_UN :: u8 where "OP_BLE_UN \<equiv> 0xA7"
abbreviation (input) OP_BGT :: u8 where "OP_BGT \<equiv> 0xA8"
abbreviation (input) OP_BGT_UN :: u8 where "OP_BGT_UN \<equiv> 0xA9"
abbreviation (input) OP_BGE :: u8 where "OP_BGE \<equiv> 0xAA"
abbreviation (input) OP_BGE_UN :: u8 where "OP_BGE_UN \<equiv> 0xAB"
abbreviation (input) OP_BRTRUE :: u8 where "OP_BRTRUE \<equiv> 0xAC"
abbreviation (input) OP_BRFALSE :: u8 where "OP_BRFALSE \<equiv> 0xAD"
abbreviation (input) OP_BRNULL :: u8 where "OP_BRNULL \<equiv> 0xAE"
abbreviation (input) OP_BRNONNULL :: u8 where "OP_BRNONNULL \<equiv> 0xAF"
abbreviation (input) OP_BR_PEQ :: u8 where "OP_BR_PEQ \<equiv> 0xB0"
abbreviation (input) OP_BR_PNE :: u8 where "OP_BR_PNE \<equiv> 0xB1"
abbreviation (input) OP_JSR :: u8 where "OP_JSR \<equiv> 0xDB"

section \<open>Handlers\<close>

definition COP_BR :: handler where
  "COP_BR s = do { d \<leftarrow> CVM_ARG_BRANCH_SHORT s; jump d 0 s }"

definition COP_BEQ :: handler where
  "COP_BEQ s = do {
     a \<leftarrow> tos (-2) s;
     b \<leftarrow> tos (-1) s;
     if a = b then do { d \<leftarrow> CVM_ARG_BRANCH_SHORT s; jump d (-2) s }
     else next_ins CVM_LEN_BRANCH (-2) s
   }"

definition COP_BNE :: handler where
  "COP_BNE s = do {
     a \<leftarrow> tos (-2) s;
     b \<leftarrow> tos (-1) s;
     if a \<noteq> b then do { d \<leftarrow> CVM_ARG_BRANCH_SHORT s; jump d (-2) s }
     else next_ins CVM_LEN_BRANCH (-2) s
   }"

definition COP_BLT :: handler where
  "COP_BLT s = do {
     a \<leftarrow> tos (-2) s;
     b \<leftarrow> tos (-1) s;
     if sint a < sint b then do { d \<leftarrow> CVM_ARG_BRANCH_SHORT s; jump d (-2) s }
     else next_ins CVM_LEN_BRANCH (-2) s
   }"

definition COP_BLT_UN :: handler where
  "COP_BLT_UN s = do {
     a \<leftarrow> tos (-2) s;
     b \<leftarrow> tos (-1) s;
     if a < b then do { d \<leftarrow> CVM_ARG_BRANCH_SHORT s; jump d (-2) s }
     else next_ins CVM_LEN_BRANCH (-2) s
   }"

definition COP_BLE :: handler where
  "COP_BLE s = do {
     a \<leftarrow> tos (-2) s;
     b \<leftarrow> tos (-1) s;
     if sint a \<le> sint b then do { d \<leftarrow> CVM_ARG_BRANCH_SHORT s; jump d (-2) s }
     else next_ins CVM_LEN_BRANCH (-2) s
   }"

definition COP_BLE_UN :: handler where
  "COP_BLE_UN s = do {
     a \<leftarrow> tos (-2) s;
     b \<leftarrow> tos (-1) s;
     if a \<le> b then do { d \<leftarrow> CVM_ARG_BRANCH_SHORT s; jump d (-2) s }
     else next_ins CVM_LEN_BRANCH (-2) s
   }"

definition COP_BGT :: handler where
  "COP_BGT s = do {
     a \<leftarrow> tos (-2) s;
     b \<leftarrow> tos (-1) s;
     if sint a > sint b then do { d \<leftarrow> CVM_ARG_BRANCH_SHORT s; jump d (-2) s }
     else next_ins CVM_LEN_BRANCH (-2) s
   }"

definition COP_BGT_UN :: handler where
  "COP_BGT_UN s = do {
     a \<leftarrow> tos (-2) s;
     b \<leftarrow> tos (-1) s;
     if a > b then do { d \<leftarrow> CVM_ARG_BRANCH_SHORT s; jump d (-2) s }
     else next_ins CVM_LEN_BRANCH (-2) s
   }"

definition COP_BGE :: handler where
  "COP_BGE s = do {
     a \<leftarrow> tos (-2) s;
     b \<leftarrow> tos (-1) s;
     if sint a \<ge> sint b then do { d \<leftarrow> CVM_ARG_BRANCH_SHORT s; jump d (-2) s }
     else next_ins CVM_LEN_BRANCH (-2) s
   }"

definition COP_BGE_UN :: handler where
  "COP_BGE_UN s = do {
     a \<leftarrow> tos (-2) s;
     b \<leftarrow> tos (-1) s;
     if a \<ge> b then do { d \<leftarrow> CVM_ARG_BRANCH_SHORT s; jump d (-2) s }
     else next_ins CVM_LEN_BRANCH (-2) s
   }"

definition COP_BRTRUE :: handler where
  "COP_BRTRUE s = do {
     a \<leftarrow> tos (-1) s;
     if a \<noteq> 0 then do { d \<leftarrow> CVM_ARG_BRANCH_SHORT s; jump d (-1) s }
     else next_ins CVM_LEN_BRANCH (-1) s
   }"

definition COP_BRFALSE :: handler where
  "COP_BRFALSE s = do {
     a \<leftarrow> tos (-1) s;
     if a = 0 then do { d \<leftarrow> CVM_ARG_BRANCH_SHORT s; jump d (-1) s }
     else next_ins CVM_LEN_BRANCH (-1) s
   }"

definition COP_BRNULL :: handler where
  "COP_BRNULL s = do {
     a \<leftarrow> tos (-1) s;
     if a = 0 then do { d \<leftarrow> CVM_ARG_BRANCH_SHORT s; jump d (-1) s }
     else next_ins CVM_LEN_BRANCH (-1) s
   }"

definition COP_BRNONNULL :: handler where
  "COP_BRNONNULL s = do {
     a \<leftarrow> tos (-1) s;
     if a \<noteq> 0 then do { d \<leftarrow> CVM_ARG_BRANCH_SHORT s; jump d (-1) s }
     else next_ins CVM_LEN_BRANCH (-1) s
   }"

definition COP_BR_PEQ :: handler where
  "COP_BR_PEQ s = do {
     a \<leftarrow> tos (-2) s;
     b \<leftarrow> tos (-1) s;
     if a = b then do { d \<leftarrow> CVM_ARG_BRANCH_SHORT s; jump d (-2) s }
     else next_ins CVM_LEN_BRANCH (-2) s
   }"

definition COP_BR_PNE :: handler where
  "COP_BR_PNE s = do {
     a \<leftarrow> tos (-2) s;
     b \<leftarrow> tos (-1) s;
     if a \<noteq> b then do { d \<leftarrow> CVM_ARG_BRANCH_SHORT s; jump d (-2) s }
     else next_ins CVM_LEN_BRANCH (-2) s
   }"

text \<open>The cases of \<^verbatim>\<open>br_long\<close>, in two groups: the integer comparisons, and the tests of a
  single value, the pointer comparisons and \<^verbatim>\<open>jsr\<close>.  \<^term>\<open>None\<close> as the first result means
  that the opcode has no case in the group.\<close>

definition br_long_int :: "u8 \<Rightarrow> handler option" where
  "br_long_int op =
     (if op = OP_BEQ then Some (\<lambda>s. do {
          a \<leftarrow> tos (-2) s;
          b \<leftarrow> tos (-1) s;
          if a = b then do { d \<leftarrow> CVM_ARG_BRANCH_LONG s; jump d (-2) s }
          else next_ins CVM_LEN_BRANCH (-2) s
        })
      else if op = OP_BNE then Some (\<lambda>s. do {
          a \<leftarrow> tos (-2) s;
          b \<leftarrow> tos (-1) s;
          if a \<noteq> b then do { d \<leftarrow> CVM_ARG_BRANCH_LONG s; jump d (-2) s }
          else next_ins CVM_LEN_BRANCH (-2) s
        })
      else if op = OP_BLT then Some (\<lambda>s. do {
          a \<leftarrow> tos (-2) s;
          b \<leftarrow> tos (-1) s;
          if sint a < sint b then do { d \<leftarrow> CVM_ARG_BRANCH_LONG s; jump d (-2) s }
          else next_ins CVM_LEN_BRANCH (-2) s
        })
      else if op = OP_BLT_UN then Some (\<lambda>s. do {
          a \<leftarrow> tos (-2) s;
          b \<leftarrow> tos (-1) s;
          if a < b then do { d \<leftarrow> CVM_ARG_BRANCH_LONG s; jump d (-2) s }
          else next_ins CVM_LEN_BRANCH (-2) s
        })
      else if op = OP_BLE then Some (\<lambda>s. do {
          a \<leftarrow> tos (-2) s;
          b \<leftarrow> tos (-1) s;
          if sint a \<le> sint b then do { d \<leftarrow> CVM_ARG_BRANCH_LONG s; jump d (-2) s }
          else next_ins CVM_LEN_BRANCH (-2) s
        })
      else if op = OP_BLE_UN then Some (\<lambda>s. do {
          a \<leftarrow> tos (-2) s;
          b \<leftarrow> tos (-1) s;
          if a \<le> b then do { d \<leftarrow> CVM_ARG_BRANCH_LONG s; jump d (-2) s }
          else next_ins CVM_LEN_BRANCH (-2) s
        })
      else if op = OP_BGT then Some (\<lambda>s. do {
          a \<leftarrow> tos (-2) s;
          b \<leftarrow> tos (-1) s;
          if sint a > sint b then do { d \<leftarrow> CVM_ARG_BRANCH_LONG s; jump d (-2) s }
          else next_ins CVM_LEN_BRANCH (-2) s
        })
      else if op = OP_BGT_UN then Some (\<lambda>s. do {
          a \<leftarrow> tos (-2) s;
          b \<leftarrow> tos (-1) s;
          if a > b then do { d \<leftarrow> CVM_ARG_BRANCH_LONG s; jump d (-2) s }
          else next_ins CVM_LEN_BRANCH (-2) s
        })
      else if op = OP_BGE then Some (\<lambda>s. do {
          a \<leftarrow> tos (-2) s;
          b \<leftarrow> tos (-1) s;
          if sint a \<ge> sint b then do { d \<leftarrow> CVM_ARG_BRANCH_LONG s; jump d (-2) s }
          else next_ins CVM_LEN_BRANCH (-2) s
        })
      else if op = OP_BGE_UN then Some (\<lambda>s. do {
          a \<leftarrow> tos (-2) s;
          b \<leftarrow> tos (-1) s;
          if a \<ge> b then do { d \<leftarrow> CVM_ARG_BRANCH_LONG s; jump d (-2) s }
          else next_ins CVM_LEN_BRANCH (-2) s
        })
      else None)"

definition br_long_other :: "u8 \<Rightarrow> handler option" where
  "br_long_other op =
     (if op = OP_BRTRUE then Some (\<lambda>s. do {
          a \<leftarrow> tos (-1) s;
          if a \<noteq> 0 then do { d \<leftarrow> CVM_ARG_BRANCH_LONG s; jump d (-1) s }
          else next_ins CVM_LEN_BRANCH (-1) s
        })
      else if op = OP_BRFALSE then Some (\<lambda>s. do {
          a \<leftarrow> tos (-1) s;
          if a = 0 then do { d \<leftarrow> CVM_ARG_BRANCH_LONG s; jump d (-1) s }
          else next_ins CVM_LEN_BRANCH (-1) s
        })
      else if op = OP_BRNULL then Some (\<lambda>s. do {
          a \<leftarrow> tos (-1) s;
          if a = 0 then do { d \<leftarrow> CVM_ARG_BRANCH_LONG s; jump d (-1) s }
          else next_ins CVM_LEN_BRANCH (-1) s
        })
      else if op = OP_BRNONNULL then Some (\<lambda>s. do {
          a \<leftarrow> tos (-1) s;
          if a \<noteq> 0 then do { d \<leftarrow> CVM_ARG_BRANCH_LONG s; jump d (-1) s }
          else next_ins CVM_LEN_BRANCH (-1) s
        })
      else if op = OP_BR_PEQ then Some (\<lambda>s. do {
          a \<leftarrow> tos (-2) s;
          b \<leftarrow> tos (-1) s;
          if a = b then do { d \<leftarrow> CVM_ARG_BRANCH_LONG s; jump d (-2) s }
          else next_ins CVM_LEN_BRANCH (-2) s
        })
      else if op = OP_BR_PNE then Some (\<lambda>s. do {
          a \<leftarrow> tos (-2) s;
          b \<leftarrow> tos (-1) s;
          if a \<noteq> b then do { d \<leftarrow> CVM_ARG_BRANCH_LONG s; jump d (-2) s }
          else next_ins CVM_LEN_BRANCH (-2) s
        })
      else if op = OP_JSR then Some (\<lambda>s. do {
          s \<leftarrow> set_tos 0 (code_base s + word_of_int (CVM_ARG_JSR_RETURN s)) s;
          d \<leftarrow> CVM_ARG_BRANCH_LONG s;
          jump d 1 s
        })
      else None)"

definition COP_BR_LONG :: handler where
  "COP_BR_LONG s = do {
     op \<leftarrow> CVM_ARG_SUB_OPCODE s;
     case br_long_int op of
       Some h \<Rightarrow> h s
     | None \<Rightarrow>
        (case br_long_other op of
           Some h \<Rightarrow> h s
         | None \<Rightarrow> do { d \<leftarrow> CVM_ARG_BRANCH_LONG s; jump d 0 s })
   }"

definition COP_SWITCH :: handler where
  "COP_SWITCH s = do {
     v \<leftarrow> tos (-1) s;
     limit \<leftarrow> CVM_ARG_SWITCH_LIMIT s;
     if v < limit then do { d \<leftarrow> CVM_ARG_SWITCH_DEST v s; jump d (-1) s }
     else do { d \<leftarrow> CVM_ARG_SWITCH_DEFAULT s; jump d (-1) s }
   }"

section \<open>The contract of a conditional branch\<close>

text \<open>A branch pops its operands whether it is taken or not, and changes nothing else but the
  program counter.\<close>

definition branches2 :: "handler \<Rightarrow> (cvm_state \<Rightarrow> int option) \<Rightarrow> (u32 \<Rightarrow> u32 \<Rightarrow> bool) \<Rightarrow> bool" where
  "branches2 h dest test \<longleftrightarrow>
     (\<forall>s a b d. tos (-2) s = Some a \<longrightarrow> tos (-1) s = Some b \<longrightarrow> dest s = Some d \<longrightarrow>
        h s = Some (Next (s\<lparr>pc := if test a b then d else pc s + 6, stacktop := stacktop s - 2\<rparr>)))"

definition branches1 :: "handler \<Rightarrow> (cvm_state \<Rightarrow> int option) \<Rightarrow> (u32 \<Rightarrow> bool) \<Rightarrow> bool" where
  "branches1 h dest test \<longleftrightarrow>
     (\<forall>s a d. tos (-1) s = Some a \<longrightarrow> dest s = Some d \<longrightarrow>
        h s = Some (Next (s\<lparr>pc := if test a then d else pc s + 6, stacktop := stacktop s - 1\<rparr>)))"

locale branch2_handler =
  fixes h :: handler and dest :: "cvm_state \<Rightarrow> int option" and test :: "u32 \<Rightarrow> u32 \<Rightarrow> bool"
  assumes shape: "h s = do {
     a \<leftarrow> tos (-2) s;
     b \<leftarrow> tos (-1) s;
     if test a b then do { d \<leftarrow> dest s; jump d (-2) s } else next_ins 6 (-2) s
   }"
begin

lemma branches: "branches2 h dest test"
  by (simp add: branches2_def shape run_defs jump_def)

lemma agrees:
  assumes "branches2 h' dest' test" and "dest s = Some d" and "dest' (s\<lparr>code := c\<rparr>) = Some d"
    and "tos (-2) s = Some a" and "tos (-1) s = Some b"
  shows "h s = map_option (map_outcome (\<lambda>t. t\<lparr>code := code s\<rparr>)) (h' (s\<lparr>code := c\<rparr>))"
  using branches assms by (simp add: branches2_def)

end

locale branch1_handler =
  fixes h :: handler and dest :: "cvm_state \<Rightarrow> int option" and test :: "u32 \<Rightarrow> bool"
  assumes shape: "h s = do {
     a \<leftarrow> tos (-1) s;
     if test a then do { d \<leftarrow> dest s; jump d (-1) s } else next_ins 6 (-1) s
   }"
begin

lemma branches: "branches1 h dest test"
  by (simp add: branches1_def shape run_defs jump_def)

lemma agrees:
  assumes "branches1 h' dest' test" and "dest s = Some d" and "dest' (s\<lparr>code := c\<rparr>) = Some d"
    and "tos (-1) s = Some b"
  shows "h s = map_option (map_outcome (\<lambda>t. t\<lparr>code := code s\<rparr>)) (h' (s\<lparr>code := c\<rparr>))"
  using branches assms by (simp add: branches1_def)

end

text \<open>The \<open>br_long\<close> instruction once its sub-opcode is known.\<close>

definition br_long_case :: "u8 \<Rightarrow> handler" where
  "br_long_case op s =
     (case br_long_int op of Some h \<Rightarrow> h s
      | None \<Rightarrow> (case br_long_other op of Some h \<Rightarrow> h s
                | None \<Rightarrow> do { d \<leftarrow> CVM_ARG_BRANCH_LONG s; jump d 0 s }))"

interpretation beq: branch2_handler COP_BEQ CVM_ARG_BRANCH_SHORT "\<lambda>a b. a = b"
  by unfold_locales (simp add: COP_BEQ_def)

interpretation beq_long: branch2_handler "br_long_case OP_BEQ" CVM_ARG_BRANCH_LONG "\<lambda>a b. a = b"
  by unfold_locales (simp add: br_long_case_def br_long_int_def br_long_other_def)

interpretation bne: branch2_handler COP_BNE CVM_ARG_BRANCH_SHORT "\<lambda>a b. a \<noteq> b"
  by unfold_locales (simp add: COP_BNE_def)

interpretation bne_long: branch2_handler "br_long_case OP_BNE" CVM_ARG_BRANCH_LONG "\<lambda>a b. a \<noteq> b"
  by unfold_locales (simp add: br_long_case_def br_long_int_def br_long_other_def)

interpretation blt: branch2_handler COP_BLT CVM_ARG_BRANCH_SHORT "\<lambda>a b. sint a < sint b"
  by unfold_locales (simp add: COP_BLT_def)

interpretation blt_long: branch2_handler "br_long_case OP_BLT" CVM_ARG_BRANCH_LONG "\<lambda>a b. sint a < sint b"
  by unfold_locales (simp add: br_long_case_def br_long_int_def br_long_other_def)

interpretation blt_un: branch2_handler COP_BLT_UN CVM_ARG_BRANCH_SHORT "\<lambda>a b. uint a < uint b"
  by unfold_locales (simp add: COP_BLT_UN_def word_less_def word_le_def)

interpretation blt_un_long: branch2_handler "br_long_case OP_BLT_UN" CVM_ARG_BRANCH_LONG "\<lambda>a b. uint a < uint b"
  by unfold_locales (simp add: br_long_case_def br_long_int_def br_long_other_def word_less_def word_le_def)

interpretation ble: branch2_handler COP_BLE CVM_ARG_BRANCH_SHORT "\<lambda>a b. sint a \<le> sint b"
  by unfold_locales (simp add: COP_BLE_def)

interpretation ble_long: branch2_handler "br_long_case OP_BLE" CVM_ARG_BRANCH_LONG "\<lambda>a b. sint a \<le> sint b"
  by unfold_locales (simp add: br_long_case_def br_long_int_def br_long_other_def)

interpretation ble_un: branch2_handler COP_BLE_UN CVM_ARG_BRANCH_SHORT "\<lambda>a b. uint a \<le> uint b"
  by unfold_locales (simp add: COP_BLE_UN_def word_less_def word_le_def)

interpretation ble_un_long: branch2_handler "br_long_case OP_BLE_UN" CVM_ARG_BRANCH_LONG "\<lambda>a b. uint a \<le> uint b"
  by unfold_locales (simp add: br_long_case_def br_long_int_def br_long_other_def word_less_def word_le_def)

interpretation bgt: branch2_handler COP_BGT CVM_ARG_BRANCH_SHORT "\<lambda>a b. sint b < sint a"
  by unfold_locales (simp add: COP_BGT_def)

interpretation bgt_long: branch2_handler "br_long_case OP_BGT" CVM_ARG_BRANCH_LONG "\<lambda>a b. sint b < sint a"
  by unfold_locales (simp add: br_long_case_def br_long_int_def br_long_other_def)

interpretation bgt_un: branch2_handler COP_BGT_UN CVM_ARG_BRANCH_SHORT "\<lambda>a b. uint b < uint a"
  by unfold_locales (simp add: COP_BGT_UN_def word_less_def word_le_def)

interpretation bgt_un_long: branch2_handler "br_long_case OP_BGT_UN" CVM_ARG_BRANCH_LONG "\<lambda>a b. uint b < uint a"
  by unfold_locales (simp add: br_long_case_def br_long_int_def br_long_other_def word_less_def word_le_def)

interpretation bge: branch2_handler COP_BGE CVM_ARG_BRANCH_SHORT "\<lambda>a b. sint b \<le> sint a"
  by unfold_locales (simp add: COP_BGE_def)

interpretation bge_long: branch2_handler "br_long_case OP_BGE" CVM_ARG_BRANCH_LONG "\<lambda>a b. sint b \<le> sint a"
  by unfold_locales (simp add: br_long_case_def br_long_int_def br_long_other_def)

interpretation bge_un: branch2_handler COP_BGE_UN CVM_ARG_BRANCH_SHORT "\<lambda>a b. uint b \<le> uint a"
  by unfold_locales (simp add: COP_BGE_UN_def word_less_def word_le_def)

interpretation bge_un_long: branch2_handler "br_long_case OP_BGE_UN" CVM_ARG_BRANCH_LONG "\<lambda>a b. uint b \<le> uint a"
  by unfold_locales (simp add: br_long_case_def br_long_int_def br_long_other_def word_less_def word_le_def)

interpretation brtrue: branch1_handler COP_BRTRUE CVM_ARG_BRANCH_SHORT "\<lambda>a. a \<noteq> 0"
  by unfold_locales (simp add: COP_BRTRUE_def)

interpretation brtrue_long: branch1_handler "br_long_case OP_BRTRUE" CVM_ARG_BRANCH_LONG "\<lambda>a. a \<noteq> 0"
  by unfold_locales (simp add: br_long_case_def br_long_int_def br_long_other_def)

interpretation brfalse: branch1_handler COP_BRFALSE CVM_ARG_BRANCH_SHORT "\<lambda>a. a = 0"
  by unfold_locales (simp add: COP_BRFALSE_def)

interpretation brfalse_long: branch1_handler "br_long_case OP_BRFALSE" CVM_ARG_BRANCH_LONG "\<lambda>a. a = 0"
  by unfold_locales (simp add: br_long_case_def br_long_int_def br_long_other_def)

interpretation brnull: branch1_handler COP_BRNULL CVM_ARG_BRANCH_SHORT "\<lambda>a. a = 0"
  by unfold_locales (simp add: COP_BRNULL_def)

interpretation brnull_long: branch1_handler "br_long_case OP_BRNULL" CVM_ARG_BRANCH_LONG "\<lambda>a. a = 0"
  by unfold_locales (simp add: br_long_case_def br_long_int_def br_long_other_def)

interpretation brnonnull: branch1_handler COP_BRNONNULL CVM_ARG_BRANCH_SHORT "\<lambda>a. a \<noteq> 0"
  by unfold_locales (simp add: COP_BRNONNULL_def)

interpretation brnonnull_long: branch1_handler "br_long_case OP_BRNONNULL" CVM_ARG_BRANCH_LONG "\<lambda>a. a \<noteq> 0"
  by unfold_locales (simp add: br_long_case_def br_long_int_def br_long_other_def)

interpretation br_peq: branch2_handler COP_BR_PEQ CVM_ARG_BRANCH_SHORT "\<lambda>a b. a = b"
  by unfold_locales (simp add: COP_BR_PEQ_def)

interpretation br_peq_long: branch2_handler "br_long_case OP_BR_PEQ" CVM_ARG_BRANCH_LONG "\<lambda>a b. a = b"
  by unfold_locales (simp add: br_long_case_def br_long_int_def br_long_other_def)

interpretation br_pne: branch2_handler COP_BR_PNE CVM_ARG_BRANCH_SHORT "\<lambda>a b. a \<noteq> b"
  by unfold_locales (simp add: COP_BR_PNE_def)

interpretation br_pne_long: branch2_handler "br_long_case OP_BR_PNE" CVM_ARG_BRANCH_LONG "\<lambda>a b. a \<noteq> b"
  by unfold_locales (simp add: br_long_case_def br_long_int_def br_long_other_def)

section \<open>Long and short branches\<close>

text \<open>The short branch instructions with their opcodes.\<close>

definition branch_table :: "(u8 \<times> handler) list" where
  "branch_table =
    [(OP_BR, COP_BR), (OP_BEQ, COP_BEQ), (OP_BNE, COP_BNE), (OP_BLT, COP_BLT), (OP_BLT_UN, COP_BLT_UN),
     (OP_BLE, COP_BLE), (OP_BLE_UN, COP_BLE_UN), (OP_BGT, COP_BGT), (OP_BGT_UN, COP_BGT_UN),
     (OP_BGE, COP_BGE), (OP_BGE_UN, COP_BGE_UN), (OP_BRTRUE, COP_BRTRUE), (OP_BRFALSE, COP_BRFALSE),
     (OP_BRNULL, COP_BRNULL), (OP_BRNONNULL, COP_BRNONNULL), (OP_BR_PEQ, COP_BR_PEQ), (OP_BR_PNE, COP_BR_PNE)]"

lemma br_long_dispatch: "CVM_ARG_SUB_OPCODE s = Some op \<Longrightarrow> COP_BR_LONG s = br_long_case op s"
  by (simp add: COP_BR_LONG_def br_long_case_def)

lemma br_agrees:
  assumes "CVM_ARG_BRANCH_LONG s = Some d" and "CVM_ARG_BRANCH_SHORT (s\<lparr>code := c\<rparr>) = Some d"
  shows "br_long_case OP_BR s = map_option (map_outcome (\<lambda>t. t\<lparr>code := code s\<rparr>)) (COP_BR (s\<lparr>code := c\<rparr>))"
  using assms by (simp add: br_long_case_def br_long_int_def br_long_other_def COP_BR_def jump_def)

lemma long_agrees:
  assumes "(op, h) \<in> set branch_table"
    and "CVM_ARG_BRANCH_LONG s = Some d" and "CVM_ARG_BRANCH_SHORT (s\<lparr>code := c\<rparr>) = Some d"
    and "tos (-2) s = Some a" and "tos (-1) s = Some b"
  shows "br_long_case op s = map_option (map_outcome (\<lambda>t. t\<lparr>code := code s\<rparr>)) (h (s\<lparr>code := c\<rparr>))"
  using assms(1)
    br_agrees [OF assms(2,3)]
    beq_long.agrees [OF beq.branches assms(2,3) assms(4,5)]
    bne_long.agrees [OF bne.branches assms(2,3) assms(4,5)]
    blt_long.agrees [OF blt.branches assms(2,3) assms(4,5)]
    blt_un_long.agrees [OF blt_un.branches assms(2,3) assms(4,5)]
    ble_long.agrees [OF ble.branches assms(2,3) assms(4,5)]
    ble_un_long.agrees [OF ble_un.branches assms(2,3) assms(4,5)]
    bgt_long.agrees [OF bgt.branches assms(2,3) assms(4,5)]
    bgt_un_long.agrees [OF bgt_un.branches assms(2,3) assms(4,5)]
    bge_long.agrees [OF bge.branches assms(2,3) assms(4,5)]
    bge_un_long.agrees [OF bge_un.branches assms(2,3) assms(4,5)]
    brtrue_long.agrees [OF brtrue.branches assms(2,3) assms(5)]
    brfalse_long.agrees [OF brfalse.branches assms(2,3) assms(5)]
    brnull_long.agrees [OF brnull.branches assms(2,3) assms(5)]
    brnonnull_long.agrees [OF brnonnull.branches assms(2,3) assms(5)]
    br_peq_long.agrees [OF br_peq.branches assms(2,3) assms(4,5)]
    br_pne_long.agrees [OF br_pne.branches assms(2,3) assms(4,5)]
  unfolding branch_table_def list.set insert_iff prod.inject empty_iff
  by (elim disjE conjE FalseE) (simp_all only:)

lemma switch_offset:
  assumes "v < (limit :: u32)" and "4 * uint limit \<le> 2 ^ 32"
  shows "uint (v * 4) = 4 * uint v"
proof -
  have "4 * uint v < 2 ^ 32" using assms by (simp add: word_less_def)
  then show ?thesis by (simp add: uint_word_ariths mod_pos_pos_trivial mult.commute)
qed

section \<open>Properties\<close>

text \<open>Every long branch does what the short branch with the same opcode and the same
  destination does: \<open>br_long\<close> followed by a branch opcode and a four-byte displacement
  behaves like that branch instruction with a one-byte displacement.\<close>

lemma long_branches_agree:
  assumes "(op, h) \<in> set branch_table" and "CVM_ARG_SUB_OPCODE s = Some op"
    and "CVM_ARG_BRANCH_LONG s = Some d" and "CVM_ARG_BRANCH_SHORT (s\<lparr>code := c\<rparr>) = Some d"
    and "tos (-2) s = Some a" and "tos (-1) s = Some b"
  shows "COP_BR_LONG s = map_option (map_outcome (\<lambda>t. t\<lparr>code := code s\<rparr>)) (h (s\<lparr>code := c\<rparr>))"
  using br_long_dispatch [OF assms(2)] long_agrees [OF assms(1,3-6)] by simp

lemma long_branches_agree_witness:
  "COP_BR_LONG (machine [4, 4] 2 [0xB2, 0xA2, 20, 0, 0, 0]) =
     map_option (map_outcome (\<lambda>t. t\<lparr>code := [0xB2, 0xA2, 20, 0, 0, 0]\<rparr>)) (COP_BEQ (machine [4, 4] 2 [0xA2, 20]))"
  using long_branches_agree [of OP_BEQ COP_BEQ "machine [4, 4] 2 [0xB2, 0xA2, 20, 0, 0, 0]" 20 "[0xA2, 20]" 4 4]
  by (simp add: branch_table_def machine_def CVM_ARG_SUB_OPCODE_def CVM_ARG_BRANCH_LONG_def
      CVM_ARG_BRANCH_SHORT_def CVM_ARG_SBYTE_def IL_READ_UINT32_def code_at_def word_at_def tos_addr_def)

text \<open>\<open>switch\<close> jumps through entry \<open>v\<close> of its table when \<open>v\<close> is below the limit, read as an
  unsigned value, and to the default otherwise; the table lies directly behind the limit and
  the default, four bytes per entry, and the operand is popped in both cases.\<close>

lemma switch_selects_entry:
  assumes "tos (-1) s = Some v" and "CVM_ARG_SWITCH_LIMIT s = Some limit" and "4 * uint limit \<le> 2 ^ 32"
    and "IL_READ_UINT32 (if v < limit then pc s + 9 + 4 * uint v else pc s + 5) s = Some d"
  shows "COP_SWITCH s = Some (Next (s\<lparr>pc := pc s + sint d, stacktop := stacktop s - 1\<rparr>))"
  using assms switch_offset [OF _ assms(3), of v]
  by (auto simp: COP_SWITCH_def CVM_ARG_SWITCH_DEST_def CVM_ARG_SWITCH_DEFAULT_def jump_def split: if_splits)

lemma switch_selects_entry_witness:
  "COP_SWITCH (machine [1] 1 [0xB3, 2, 0, 0, 0, 17, 0, 0, 0, 30, 0, 0, 0, 40, 0, 0, 0]) =
     Some (Next ((machine [1] 0 [0xB3, 2, 0, 0, 0, 17, 0, 0, 0, 30, 0, 0, 0, 40, 0, 0, 0])\<lparr>pc := 40\<rparr>))"
  using switch_selects_entry [of "machine [1] 1 [0xB3, 2, 0, 0, 0, 17, 0, 0, 0, 30, 0, 0, 0, 40, 0, 0, 0]" 1 2 40]
  by (simp add: machine_def word_at_def tos_addr_def CVM_ARG_SWITCH_LIMIT_def IL_READ_UINT32_def code_at_def)

end
