(* ===== verification/CvmDispatch.thy ===== *)
theory CvmDispatch
  imports CvmArith CvmCompare CvmPtr CvmBranch
begin

text \<open>
  The instruction loop of \<^verbatim>\<open>engine/cvm.c\<close>: the main switch on the opcode and the nested
  switches behind \<open>wide\<close> and \<open>prefix\<close>, with the opcode numbers of \<^verbatim>\<open>engine/cvm.h\<close>, and
  the table of instruction lengths of \<^verbatim>\<open>engine/cvm_lengths.c\<close>.  As in the sources, the
  switches are put together from the instruction categories.  The categories that are not
  modelled are a parameter: a configuration says which opcode they handle and how.
\<close>

section \<open>Switches\<close>

datatype switch = Main | Wide | Prefix

record cvm_config =
  ILGCAlloc :: "u32 \<Rightarrow> u32"
  CVM_WORDS_PER_NATIVE_FLOAT :: int
  other_ins :: "switch \<Rightarrow> u8 \<Rightarrow> handler option"

definition COP_NOP :: handler where
  "COP_NOP s = next_ins CVM_LEN_NONE 0 s"

text \<open>Without direct threading there is no native code to unroll to.\<close>

definition COP_PREFIX_UNROLL_METHOD :: handler where
  "COP_PREFIX_UNROLL_METHOD s = next_ins CVMP_LEN_NONE 0 s"

definition COP_PREFIX_UNROLL_STACK :: handler where
  "COP_PREFIX_UNROLL_STACK s = next_ins CVMP_LEN_NONE 0 s"

definition cvm_var_main :: "(u8 \<times> handler) list" where
  "cvm_var_main =
    [(0x01, COP_ILOAD_0), (0x02, COP_ILOAD_1), (0x03, COP_ILOAD_2), (0x04, COP_ILOAD_3), (0x05, COP_ILOAD),
     (0x06, COP_PLOAD_0), (0x07, COP_PLOAD_1), (0x08, COP_PLOAD_2), (0x09, COP_PLOAD_3), (0x0A, COP_PLOAD),
     (0x0B, COP_ISTORE_0), (0x0C, COP_ISTORE_1), (0x0D, COP_ISTORE_2), (0x0E, COP_ISTORE_3),
     (0x0F, COP_ISTORE), (0x10, COP_PSTORE_0), (0x11, COP_PSTORE_1), (0x12, COP_PSTORE_2),
     (0x13, COP_PSTORE_3), (0x14, COP_PSTORE), (0x15, COP_MLOAD), (0x16, COP_MSTORE), (0x17, COP_WADDR),
     (0x18, COP_MADDR), (0x19, COP_BFIXUP), (0x1A, COP_SFIXUP), (0x1D, COP_MK_LOCAL_1),
     (0x1E, COP_MK_LOCAL_2), (0x1F, COP_MK_LOCAL_3), (0x20, COP_MK_LOCAL_N), (0xFA, COP_BLOAD),
     (0xFB, COP_BSTORE)]"

definition cvm_ptr_main :: "(u8 \<times> handler) list" where
  "cvm_ptr_main =
    [(0x85, COP_PADD_OFFSET), (0x86, COP_PADD_OFFSET_N), (0x87, COP_PADD_I4), (0x88, COP_PADD_I4_R),
     (0x89, COP_PADD_I8), (0x8A, COP_PADD_I8_R), (0x8B, COP_PSUB), (0x8C, COP_PSUB_I4), (0x8D, COP_PSUB_I8),
     (0x8E, COP_CKNULL), (0x8F, COP_CKNULL_N)]"

definition cvm_stack_main :: "(u8 \<times> handler) list" where
  "cvm_stack_main =
    [(0x38, COP_DUP), (0x39, COP_DUP2), (0x3A, COP_DUP_N), (0x3B, COP_DUP_WORD_N), (0x3C, COP_POP),
     (0x3D, COP_POP2), (0x3E, COP_POP_N), (0x3F, COP_SQUASH), (0x40, COP_CKHEIGHT), (0x41, COP_CKHEIGHT_N),
     (0x42, COP_SET_NUM_ARGS)]"

definition cvm_arith_main :: "(u8 \<times> handler) list" where
  "cvm_arith_main =
    [(0x43, COP_IADD), (0x44, COP_IADD_OVF), (0x45, COP_IADD_OVF_UN), (0x46, COP_ISUB),
     (0x47, COP_ISUB_OVF), (0x48, COP_ISUB_OVF_UN), (0x49, COP_IMUL), (0x4A, COP_IMUL_OVF),
     (0x4B, COP_IMUL_OVF_UN), (0x4C, COP_IDIV), (0x4D, COP_IDIV_UN), (0x4E, COP_IREM), (0x4F, COP_IREM_UN),
     (0x50, COP_INEG), (0x51, COP_LADD), (0x52, COP_LADD_OVF), (0x53, COP_LADD_OVF_UN), (0x54, COP_LSUB),
     (0x55, COP_LSUB_OVF), (0x56, COP_LSUB_OVF_UN), (0x57, COP_LMUL), (0x58, COP_LMUL_OVF),
     (0x59, COP_LMUL_OVF_UN), (0x5A, COP_LDIV), (0x5B, COP_LDIV_UN), (0x5C, COP_LREM), (0x5D, COP_LREM_UN),
     (0x5E, COP_LNEG), (0x65, COP_IAND), (0x66, COP_IOR), (0x67, COP_IXOR), (0x68, COP_INOT),
     (0x69, COP_ISHL), (0x6A, COP_ISHR), (0x6B, COP_ISHR_UN), (0x6C, COP_LAND), (0x6D, COP_LOR),
     (0x6E, COP_LXOR), (0x6F, COP_LNOT), (0x70, COP_LSHL), (0x71, COP_LSHR), (0x72, COP_LSHR_UN)]"

definition cvm_conv_main :: "(u8 \<times> handler) list" where
  "cvm_conv_main =
    [(0x73, COP_I2B), (0x74, COP_I2UB), (0x75, COP_I2S), (0x76, COP_I2US), (0x77, COP_I2L),
     (0x78, COP_IU2L), (0x7B, COP_L2I), (0x84, COP_I2P_LOWER)]"

definition cvm_const_main :: "(u8 \<times> handler) list" where
  "cvm_const_main =
    [(0x91, COP_LDNULL), (0x92, COP_LDC_I4_M1), (0x93, COP_LDC_I4_0), (0x94, COP_LDC_I4_1),
     (0x95, COP_LDC_I4_2), (0x96, COP_LDC_I4_3), (0x97, COP_LDC_I4_4), (0x98, COP_LDC_I4_5),
     (0x99, COP_LDC_I4_6), (0x9A, COP_LDC_I4_7), (0x9B, COP_LDC_I4_8), (0x9C, COP_LDC_I4_S),
     (0x9D, COP_LDC_I4), (0x9E, COP_LDC_I8)]"

definition cvm_branch_main :: "(u8 \<times> handler) list" where
  "cvm_branch_main =
    [(0xA1, COP_BR), (0xA2, COP_BEQ), (0xA3, COP_BNE), (0xA4, COP_BLT), (0xA5, COP_BLT_UN), (0xA6, COP_BLE),
     (0xA7, COP_BLE_UN), (0xA8, COP_BGT), (0xA9, COP_BGT_UN), (0xAA, COP_BGE), (0xAB, COP_BGE_UN),
     (0xAC, COP_BRTRUE), (0xAD, COP_BRFALSE), (0xAE, COP_BRNULL), (0xAF, COP_BRNONNULL), (0xB0, COP_BR_PEQ),
     (0xB1, COP_BR_PNE), (0xB2, COP_BR_LONG), (0xB3, COP_SWITCH)]"

definition cvm_call_main :: "(u8 \<times> handler) list" where
  "cvm_call_main =
    [(0xDF, COP_PUSHDOWN)]"

definition cvm_var_wide :: "(u8 \<times> handler) list" where
  "cvm_var_wide =
    [(0x05, wide_COP_ILOAD), (0x0A, wide_COP_PLOAD), (0x0F, wide_COP_ISTORE), (0x14, wide_COP_PSTORE),
     (0x15, wide_COP_MLOAD), (0x16, wide_COP_MSTORE), (0x17, wide_COP_WADDR), (0x18, wide_COP_MADDR),
     (0x19, wide_COP_BFIXUP), (0x1A, wide_COP_SFIXUP), (0x20, wide_COP_MK_LOCAL_N)]"

definition cvm_ptr_wide :: "(u8 \<times> handler) list" where
  "cvm_ptr_wide =
    [(0x86, wide_COP_PADD_OFFSET_N), (0x8F, wide_COP_CKNULL_N)]"

definition cvm_stack_wide :: "(u8 \<times> handler) list" where
  "cvm_stack_wide =
    [(0x3A, wide_COP_DUP_N), (0x3B, wide_COP_DUP_WORD_N), (0x3E, wide_COP_POP_N), (0x3F, wide_COP_SQUASH),
     (0x42, wide_COP_SET_NUM_ARGS)]"

definition cvm_conv_wide :: "(u8 \<times> handler) list" where
  "cvm_conv_wide =
    [(0x84, wide_COP_I2P_LOWER)]"

definition cvm_stack_prefix :: "cvm_config \<Rightarrow> (u8 \<times> handler) list" where
  "cvm_stack_prefix cfg =
    [(0x5C, COP_PREFIX_LOCAL_ALLOC (ILGCAlloc cfg)), (0x8D, COP_PREFIX_REPL_WORD_N)]"

definition cvm_conv_prefix :: "(u8 \<times> handler) list" where
  "cvm_conv_prefix =
    [(0x25, COP_PREFIX_I2B_OVF), (0x26, COP_PREFIX_I2UB_OVF), (0x27, COP_PREFIX_IU2B_OVF),
     (0x28, COP_PREFIX_IU2UB_OVF), (0x29, COP_PREFIX_I2S_OVF), (0x2A, COP_PREFIX_I2US_OVF),
     (0x2B, COP_PREFIX_IU2S_OVF), (0x2C, COP_PREFIX_IU2US_OVF), (0x2D, COP_PREFIX_I2IU_OVF),
     (0x2E, COP_PREFIX_IU2I_OVF), (0x2F, COP_PREFIX_I2UL_OVF), (0x30, COP_PREFIX_L2I_OVF),
     (0x31, COP_PREFIX_L2UI_OVF), (0x32, COP_PREFIX_LU2I_OVF), (0x33, COP_PREFIX_LU2IU_OVF),
     (0x34, COP_PREFIX_L2UL_OVF), (0x35, COP_PREFIX_LU2L_OVF), (0x3A, COP_PREFIX_I2B_ALIGNED),
     (0x3B, COP_PREFIX_I2S_ALIGNED), (0x59, COP_PREFIX_FIX_I4_I), (0x5A, COP_PREFIX_FIX_I4_U)]"

definition cvm_compare_prefix :: "(u8 \<times> handler) list" where
  "cvm_compare_prefix =
    [(0x01, COP_PREFIX_ICMP), (0x02, COP_PREFIX_ICMP_UN), (0x03, COP_PREFIX_LCMP),
     (0x04, COP_PREFIX_LCMP_UN), (0x07, COP_PREFIX_PCMP), (0x08, COP_PREFIX_SETEQ),
     (0x09, COP_PREFIX_SETNE), (0x0A, COP_PREFIX_SETLT), (0x0B, COP_PREFIX_SETLE), (0x0C, COP_PREFIX_SETGT),
     (0x0D, COP_PREFIX_SETGE)]"

definition cvm_inline_prefix :: "cvm_config \<Rightarrow> (u8 \<times> handler) list" where
  "cvm_inline_prefix cfg =
    [(0x6D, COP_PREFIX_ABS_I4), (0x7B, COP_PREFIX_MIN_I4), (0x7C, COP_PREFIX_MAX_I4),
     (0x83, COP_PREFIX_SIGN_I4 (CVM_WORDS_PER_NATIVE_FLOAT cfg))]"

definition main_switch :: "(u8 \<times> handler) list" where
  "main_switch = (0x00, COP_NOP) # cvm_var_main @ cvm_ptr_main @ cvm_stack_main @ cvm_arith_main @
     cvm_conv_main @ cvm_const_main @ cvm_branch_main @ cvm_call_main"

definition wide_switch :: "(u8 \<times> handler) list" where
  "wide_switch = cvm_var_wide @ cvm_ptr_wide @ cvm_stack_wide @ cvm_conv_wide"

definition prefix_switch :: "cvm_config \<Rightarrow> (u8 \<times> handler) list" where
  "prefix_switch cfg = cvm_stack_prefix cfg @ cvm_conv_prefix @ cvm_compare_prefix @ cvm_inline_prefix cfg @
     [(0x5B, COP_PREFIX_UNROLL_METHOD), (0x8B, COP_PREFIX_UNROLL_STACK)]"

text \<open>An opcode without a case is skipped.\<close>

definition dispatch :: "cvm_config \<Rightarrow> switch \<Rightarrow> (u8 \<times> handler) list \<Rightarrow> int \<Rightarrow> u8 \<Rightarrow> handler" where
  "dispatch cfg sw cases len op s =
     (case map_of cases op of
        Some h \<Rightarrow> h s
      | None \<Rightarrow> (case other_ins cfg sw op of Some h \<Rightarrow> h s | None \<Rightarrow> next_ins len 0 s))"

definition COP_WIDE :: "cvm_config \<Rightarrow> handler" where
  "COP_WIDE cfg s = do { op \<leftarrow> CVM_ARG_SUB_OPCODE s; dispatch cfg Wide wide_switch CVMP_LEN_NONE op s }"

definition COP_PREFIX :: "cvm_config \<Rightarrow> handler" where
  "COP_PREFIX cfg s = do { op \<leftarrow> CVM_ARG_SUB_OPCODE s; dispatch cfg Prefix (prefix_switch cfg) CVMP_LEN_NONE op s }"

text \<open>One turn of the loop of \<^verbatim>\<open>Interpreter\<close>.\<close>

definition Interpreter_step :: "cvm_config \<Rightarrow> handler" where
  "Interpreter_step cfg s = do {
     op \<leftarrow> code_at (pc s) s;
     if op = 0xFD then COP_WIDE cfg s
     else if op = 0xFF then COP_PREFIX cfg s
     else dispatch cfg Main main_switch CVM_LEN_NONE op s
   }"

section \<open>Instruction lengths\<close>

abbreviation (input) CVM_LEN_BYTE2 :: int where "CVM_LEN_BYTE2 \<equiv> 3"
abbreviation (input) CVM_LEN_PTR :: int where "CVM_LEN_PTR \<equiv> 5"
abbreviation (input) CVM_LEN_PTR2 :: int where "CVM_LEN_PTR2 \<equiv> 9"
abbreviation (input) CVM_LEN_WIDE_PTR_SMALL :: int where "CVM_LEN_WIDE_PTR_SMALL \<equiv> 6"
abbreviation (input) CVM_LEN_DWIDE_PTR_SMALL :: int where "CVM_LEN_DWIDE_PTR_SMALL \<equiv> 7"
abbreviation (input) CVM_LEN_FLOAT :: int where "CVM_LEN_FLOAT \<equiv> 5"
abbreviation (input) CVM_LEN_DOUBLE :: int where "CVM_LEN_DOUBLE \<equiv> 9"
abbreviation (input) CVM_LEN_BREAK :: int where "CVM_LEN_BREAK \<equiv> 2"
abbreviation (input) CVMP_LEN_PTR :: int where "CVMP_LEN_PTR \<equiv> 6"
abbreviation (input) CVMP_LEN_WORD2 :: int where "CVMP_LEN_WORD2 \<equiv> 10"
abbreviation (input) CVMP_LEN_WORD_PTR :: int where "CVMP_LEN_WORD_PTR \<equiv> 10"
abbreviation (input) CVMP_LEN_WORD2_PTR :: int where "CVMP_LEN_WORD2_PTR \<equiv> 14"
abbreviation (input) CVMP_LEN_WORD2_PTR2 :: int where "CVMP_LEN_WORD2_PTR2 \<equiv> 18"

definition ILCVMLengths_main_00_42 :: "int list" where
  "ILCVMLengths_main_00_42 =
    [CVM_LEN_NONE, CVM_LEN_NONE, CVM_LEN_NONE, CVM_LEN_NONE, CVM_LEN_NONE, CVM_LEN_WIDE_SMALL, CVM_LEN_NONE,
     CVM_LEN_NONE, CVM_LEN_NONE, CVM_LEN_NONE, CVM_LEN_WIDE_SMALL, CVM_LEN_NONE, CVM_LEN_NONE, CVM_LEN_NONE,
     CVM_LEN_NONE, CVM_LEN_WIDE_SMALL, CVM_LEN_NONE, CVM_LEN_NONE, CVM_LEN_NONE, CVM_LEN_NONE,
     CVM_LEN_WIDE_SMALL, CVM_LEN_DWIDE_SMALL, CVM_LEN_DWIDE_SMALL, CVM_LEN_WIDE_SMALL, CVM_LEN_WIDE_SMALL,
     CVM_LEN_WIDE_SMALL, CVM_LEN_WIDE_SMALL, CVM_LEN_WIDE_SMALL, CVM_LEN_WIDE_SMALL, CVM_LEN_NONE,
     CVM_LEN_NONE, CVM_LEN_NONE, CVM_LEN_WIDE_SMALL, CVM_LEN_NONE, CVM_LEN_NONE, CVM_LEN_NONE, CVM_LEN_NONE,
     CVM_LEN_NONE, CVM_LEN_NONE, CVM_LEN_NONE, CVM_LEN_NONE, CVM_LEN_WIDE_SMALL, CVM_LEN_NONE, CVM_LEN_NONE,
     CVM_LEN_NONE, CVM_LEN_NONE, CVM_LEN_NONE, CVM_LEN_NONE, CVM_LEN_WIDE_SMALL, CVM_LEN_NONE, CVM_LEN_NONE,
     CVM_LEN_NONE, CVM_LEN_NONE, CVM_LEN_NONE, CVM_LEN_NONE, CVM_LEN_WIDE_SMALL, CVM_LEN_NONE, CVM_LEN_NONE,
     CVM_LEN_WIDE_SMALL, CVM_LEN_WIDE_SMALL, CVM_LEN_NONE, CVM_LEN_NONE, CVM_LEN_WIDE_SMALL,
     CVM_LEN_DWIDE_SMALL, CVM_LEN_NONE, CVM_LEN_WIDE_SMALL, CVM_LEN_WIDE_SMALL]"

definition ILCVMLengths_main_43_A0 :: "int list" where
  "ILCVMLengths_main_43_A0 =
    [CVM_LEN_NONE, CVM_LEN_NONE, CVM_LEN_NONE, CVM_LEN_NONE, CVM_LEN_NONE, CVM_LEN_NONE, CVM_LEN_NONE,
     CVM_LEN_NONE, CVM_LEN_NONE, CVM_LEN_NONE, CVM_LEN_NONE, CVM_LEN_NONE, CVM_LEN_NONE, CVM_LEN_NONE,
     CVM_LEN_NONE, CVM_LEN_NONE, CVM_LEN_NONE, CVM_LEN_NONE, CVM_LEN_NONE, CVM_LEN_NONE, CVM_LEN_NONE,
     CVM_LEN_NONE, CVM_LEN_NONE, CVM_LEN_NONE, CVM_LEN_NONE, CVM_LEN_NONE, CVM_LEN_NONE, CVM_LEN_NONE,
     CVM_LEN_NONE, CVM_LEN_NONE, CVM_LEN_NONE, CVM_LEN_NONE, CVM_LEN_NONE, CVM_LEN_NONE, CVM_LEN_NONE,
     CVM_LEN_NONE, CVM_LEN_NONE, CVM_LEN_NONE, CVM_LEN_NONE, CVM_LEN_NONE, CVM_LEN_NONE, CVM_LEN_NONE,
     CVM_LEN_NONE, CVM_LEN_NONE, CVM_LEN_NONE, CVM_LEN_NONE, CVM_LEN_NONE, CVM_LEN_NONE, CVM_LEN_NONE,
     CVM_LEN_NONE, CVM_LEN_NONE, CVM_LEN_NONE, CVM_LEN_NONE, CVM_LEN_NONE, CVM_LEN_NONE, CVM_LEN_NONE,
     CVM_LEN_NONE, CVM_LEN_NONE, CVM_LEN_NONE, CVM_LEN_NONE, CVM_LEN_NONE, CVM_LEN_NONE, CVM_LEN_NONE,
     CVM_LEN_NONE, CVM_LEN_NONE, CVM_LEN_WIDE_SMALL, CVM_LEN_BYTE, CVM_LEN_WIDE_SMALL, CVM_LEN_NONE,
     CVM_LEN_NONE, CVM_LEN_NONE, CVM_LEN_NONE, CVM_LEN_NONE, CVM_LEN_NONE, CVM_LEN_NONE, CVM_LEN_NONE,
     CVM_LEN_WIDE_SMALL, CVM_LEN_WORD, CVM_LEN_NONE, CVM_LEN_NONE, CVM_LEN_NONE, CVM_LEN_NONE, CVM_LEN_NONE,
     CVM_LEN_NONE, CVM_LEN_NONE, CVM_LEN_NONE, CVM_LEN_NONE, CVM_LEN_NONE, CVM_LEN_NONE, CVM_LEN_BYTE,
     CVM_LEN_WORD, CVM_LEN_LONG, CVM_LEN_FLOAT, CVM_LEN_DOUBLE]"

definition ILCVMLengths_main_A1_FF :: "int list" where
  "ILCVMLengths_main_A1_FF =
    [CVM_LEN_BRANCH, CVM_LEN_BRANCH, CVM_LEN_BRANCH, CVM_LEN_BRANCH, CVM_LEN_BRANCH, CVM_LEN_BRANCH,
     CVM_LEN_BRANCH, CVM_LEN_BRANCH, CVM_LEN_BRANCH, CVM_LEN_BRANCH, CVM_LEN_BRANCH, CVM_LEN_BRANCH,
     CVM_LEN_BRANCH, CVM_LEN_BRANCH, CVM_LEN_BRANCH, CVM_LEN_BRANCH, CVM_LEN_BRANCH, CVM_LEN_BRANCH, 0,
     CVM_LEN_NONE, CVM_LEN_NONE, CVM_LEN_NONE, CVM_LEN_NONE, CVM_LEN_NONE, CVM_LEN_NONE, CVM_LEN_NONE,
     CVM_LEN_NONE, CVM_LEN_NONE, CVM_LEN_NONE, CVM_LEN_BYTE, CVM_LEN_WORD, CVM_LEN_NONE, CVM_LEN_BYTE2,
     CVM_LEN_NONE, CVM_LEN_BYTE, CVM_LEN_BYTE, CVM_LEN_BYTE, CVM_LEN_BYTE, CVM_LEN_BYTE, CVM_LEN_BYTE,
     CVM_LEN_BYTE, CVM_LEN_BYTE, CVM_LEN_BYTE, CVM_LEN_BYTE, CVM_LEN_BYTE, CVM_LEN_BYTE, CVM_LEN_PTR,
     CVM_LEN_PTR, CVM_LEN_PTR2, CVM_LEN_PTR2, CVM_LEN_PTR2, CVM_LEN_PTR2, CVM_LEN_DWIDE_SMALL,
     CVM_LEN_DWIDE_PTR_SMALL, CVM_LEN_NONE, CVM_LEN_NONE, CVM_LEN_NONE, CVM_LEN_WORD, CVM_LEN_BRANCH,
     CVM_LEN_NONE, CVM_LEN_NONE, CVM_LEN_NONE, CVM_LEN_WORD, CVM_LEN_NONE, CVM_LEN_NONE, CVM_LEN_PTR,
     CVM_LEN_PTR, CVM_LEN_PTR, CVM_LEN_PTR, CVM_LEN_PTR, CVM_LEN_NONE, CVM_LEN_DWIDE_SMALL, CVM_LEN_WORD,
     CVM_LEN_PTR, CVM_LEN_WIDE_PTR_SMALL, CVM_LEN_WIDE_PTR_SMALL, CVM_LEN_WIDE_SMALL, CVM_LEN_NONE,
     CVM_LEN_WIDE_SMALL, CVM_LEN_NONE, CVM_LEN_WIDE_SMALL, CVM_LEN_WIDE_SMALL, CVM_LEN_WIDE_SMALL,
     CVM_LEN_WIDE_SMALL, CVM_LEN_WIDE_SMALL, CVM_LEN_WIDE_SMALL, CVM_LEN_WIDE_SMALL, CVM_LEN_WIDE_SMALL,
     CVM_LEN_WIDE_SMALL, CVM_LEN_BYTE, CVM_LEN_BYTE, CVM_LEN_NONE, 0, CVM_LEN_BREAK, 0]"

definition ILCVMLengths_prefix_00_4D :: "int list" where
  "ILCVMLengths_prefix_00_4D =
    [CVMP_LEN_NONE, CVMP_LEN_NONE, CVMP_LEN_NONE, CVMP_LEN_NONE, CVMP_LEN_NONE, CVMP_LEN_NONE,
     CVMP_LEN_NONE, CVMP_LEN_NONE, CVMP_LEN_NONE, CVMP_LEN_NONE, CVMP_LEN_NONE, CVMP_LEN_NONE,
     CVMP_LEN_NONE, CVMP_LEN_NONE, CVMP_LEN_NONE, CVMP_LEN_NONE, CVMP_LEN_NONE, CVMP_LEN_NONE,
     CVMP_LEN_NONE, CVMP_LEN_NONE, CVMP_LEN_NONE, CVMP_LEN_WORD, CVMP_LEN_PTR, CVMP_LEN_NONE,
     CVMP_LEN_WORD2, CVMP_LEN_WORD2_PTR, CVMP_LEN_PTR, CVMP_LEN_WORD, CVMP_LEN_WORD_PTR, CVMP_LEN_WORD2_PTR,
     CVMP_LEN_NONE, CVMP_LEN_NONE, CVMP_LEN_NONE, CVMP_LEN_NONE, CVMP_LEN_PTR, CVMP_LEN_PTR, CVMP_LEN_NONE,
     CVMP_LEN_NONE, CVMP_LEN_NONE, CVMP_LEN_NONE, CVMP_LEN_NONE, CVMP_LEN_NONE, CVMP_LEN_NONE,
     CVMP_LEN_NONE, CVMP_LEN_NONE, CVMP_LEN_NONE, CVMP_LEN_NONE, CVMP_LEN_NONE, CVMP_LEN_NONE,
     CVMP_LEN_NONE, CVMP_LEN_NONE, CVMP_LEN_NONE, CVMP_LEN_NONE, CVMP_LEN_NONE, CVMP_LEN_NONE,
     CVMP_LEN_NONE, CVMP_LEN_NONE, CVMP_LEN_NONE, CVMP_LEN_NONE, CVMP_LEN_NONE, CVMP_LEN_NONE,
     CVMP_LEN_NONE, CVMP_LEN_NONE, CVMP_LEN_NONE, CVMP_LEN_NONE, CVMP_LEN_NONE, CVMP_LEN_NONE,
     CVMP_LEN_NONE, CVMP_LEN_NONE, CVMP_LEN_NONE, CVMP_LEN_NONE, CVMP_LEN_NONE, CVMP_LEN_NONE,
     CVMP_LEN_WORD2_PTR2, CVMP_LEN_WORD2_PTR2, CVMP_LEN_NONE, CVMP_LEN_NONE, CVMP_LEN_PTR]"

definition ILCVMLengths_prefix_4E_93 :: "int list" where
  "ILCVMLengths_prefix_4E_93 =
    [CVMP_LEN_NONE, CVMP_LEN_NONE, CVMP_LEN_NONE, CVMP_LEN_NONE, CVMP_LEN_NONE, CVMP_LEN_NONE,
     CVMP_LEN_NONE, CVMP_LEN_NONE, CVMP_LEN_NONE, CVMP_LEN_PTR, CVMP_LEN_NONE, CVMP_LEN_NONE, CVMP_LEN_NONE,
     CVMP_LEN_NONE, CVMP_LEN_NONE, CVMP_LEN_NONE, CVMP_LEN_WORD2, CVMP_LEN_WORD2, CVMP_LEN_WORD,
     CVMP_LEN_WORD, CVMP_LEN_NONE, CVMP_LEN_NONE, CVMP_LEN_NONE, CVMP_LEN_NONE, CVMP_LEN_NONE,
     CVMP_LEN_NONE, CVMP_LEN_NONE, CVMP_LEN_NONE, CVMP_LEN_NONE, CVMP_LEN_NONE, CVMP_LEN_NONE,
     CVMP_LEN_NONE, CVMP_LEN_NONE, CVMP_LEN_NONE, CVMP_LEN_NONE, CVMP_LEN_NONE, CVMP_LEN_NONE,
     CVMP_LEN_NONE, CVMP_LEN_NONE, CVMP_LEN_NONE, CVMP_LEN_NONE, CVMP_LEN_NONE, CVMP_LEN_NONE,
     CVMP_LEN_NONE, CVMP_LEN_NONE, CVMP_LEN_NONE, CVMP_LEN_NONE, CVMP_LEN_NONE, CVMP_LEN_NONE,
     CVMP_LEN_NONE, CVMP_LEN_NONE, CVMP_LEN_NONE, CVMP_LEN_NONE, CVMP_LEN_NONE, CVMP_LEN_NONE,
     CVMP_LEN_NONE, CVMP_LEN_NONE, CVMP_LEN_NONE, CVMP_LEN_NONE, CVMP_LEN_NONE, CVMP_LEN_NONE,
     CVMP_LEN_NONE, CVMP_LEN_NONE, CVMP_LEN_WORD, CVMP_LEN_WORD2, CVMP_LEN_WORD, CVMP_LEN_WORD,
     CVMP_LEN_WORD, CVMP_LEN_NONE, CVMP_LEN_NONE]"

definition ILCVMLengths_prefix_94_FF :: "int list" where
  "ILCVMLengths_prefix_94_FF = replicate 108 CVMP_LEN_NONE"

definition ILCVMLengths :: "int list" where
  "ILCVMLengths = ILCVMLengths_main_00_42 @
     ILCVMLengths_main_43_A0 @
     ILCVMLengths_main_A1_FF @
     ILCVMLengths_prefix_00_4D @
     ILCVMLengths_prefix_4E_93 @
     ILCVMLengths_prefix_94_FF"

section \<open>What every instruction keeps\<close>

definition kept :: "cvm_state \<Rightarrow> cvm_state \<Rightarrow> bool" where
  "kept s t \<longleftrightarrow> code t = code s \<and> length (stack t) = length (stack s) \<and> stackmax t = stackmax s \<and>
     stack_base t = stack_base s \<and> code_base t = code_base s"

fun outcome_state :: "outcome \<Rightarrow> cvm_state" where
  "outcome_state (Next s) = s"
| "outcome_state (Throw e s) = s"

fun next_pc :: "outcome \<Rightarrow> int option" where
  "next_pc (Next s) = Some (pc s)"
| "next_pc (Throw e s) = None"

text \<open>\<open>goes s D m\<close>: when the handler body \<open>m\<close>, started in \<open>s\<close>, has an outcome, it keeps the code and
  the memory of the machine, and continues at one of the positions \<open>D\<close>.\<close>

definition goes :: "cvm_state \<Rightarrow> (int \<Rightarrow> bool) \<Rightarrow> outcome option \<Rightarrow> bool" where
  "goes s D m \<longleftrightarrow> (\<forall>out. m = Some out \<longrightarrow> kept s (outcome_state out) \<and> (\<forall>p. next_pc out = Some p \<longrightarrow> D p))"

definition advances :: "int \<Rightarrow> handler \<Rightarrow> bool" where
  "advances k h \<longleftrightarrow> (\<forall>s. goes s (\<lambda>p. p = pc s + k) (h s))"

lemma goes_None [simp]: "goes s D None"
  by (simp add: goes_def)

lemma goes_bind: "(\<And>x. m = Some x \<Longrightarrow> goes s D (f x)) \<Longrightarrow> goes s D (m \<bind> f)"
  by (cases m) simp_all

text \<open>A write keeps everything but the contents of the stack.\<close>

definition same_but_stack :: "cvm_state \<Rightarrow> cvm_state \<Rightarrow> bool" where
  "same_but_stack s t \<longleftrightarrow> kept s t \<and> pc t = pc s"

lemma same_but_stack_trans [trans]: "same_but_stack s t \<Longrightarrow> same_but_stack t u \<Longrightarrow> same_but_stack s u"
  by (simp add: same_but_stack_def kept_def)

lemma same_but_stack_refl [simp]: "same_but_stack s s"
  by (simp add: same_but_stack_def kept_def)

lemma writes_same_but_stack:
  "set_word p v s = Some t \<Longrightarrow> same_but_stack s t"
  "WriteLong p l s = Some t \<Longrightarrow> same_but_stack s t"
  "move_words d r k s = Some t \<Longrightarrow> same_but_stack s t"
  "copy_words d r k s = Some t \<Longrightarrow> same_but_stack s t"
  "zero_words d k s = Some t \<Longrightarrow> same_but_stack s t"
  by (auto simp: set_word_def WriteLong_def move_words_def copy_words_def zero_words_def same_but_stack_def kept_def
      Option.bind_eq_Some_conv split: if_splits)

lemma goes_next: "same_but_stack s t \<Longrightarrow> D (pc s + k) \<Longrightarrow> goes s D (next_ins k d t)"
  by (simp add: goes_def same_but_stack_def kept_def run_defs)

lemma goes_throw: "same_but_stack s t \<Longrightarrow> goes s D (throw e t)"
  by (simp add: goes_def same_but_stack_def kept_def run_defs)

lemma same_but_stack_updates [simp]:
  "same_but_stack (s\<lparr>stacktop := x\<rparr>) t = same_but_stack s t" "same_but_stack s (t\<lparr>stacktop := x\<rparr>) = same_but_stack s t"
  "same_but_stack s (t\<lparr>frame := x\<rparr>) = same_but_stack s t"
  by (simp_all add: same_but_stack_def kept_def)

lemma helpers_same_but_stack:
  "LAddOvf a b s = Some (r, t) \<Longrightarrow> same_but_stack s t" "LUAddOvf a b s = Some (r, t) \<Longrightarrow> same_but_stack s t"
  "LSubOvf a b s = Some (r, t) \<Longrightarrow> same_but_stack s t" "LUSubOvf a b s = Some (r, t) \<Longrightarrow> same_but_stack s t"
  "LMulOvf a b s = Some (r, t) \<Longrightarrow> same_but_stack s t" "LUMulOvf a b s = Some (r, t) \<Longrightarrow> same_but_stack s t"
  "LDiv a b s = Some (r, t) \<Longrightarrow> same_but_stack s t" "LUDiv a b s = Some (r, t) \<Longrightarrow> same_but_stack s t"
  "LRem a b s = Some (r, t) \<Longrightarrow> same_but_stack s t" "LURem a b s = Some (r, t) \<Longrightarrow> same_but_stack s t"
  "L2IOvf a s = Some (r, t) \<Longrightarrow> same_but_stack s t" "L2UIOvf a s = Some (r, t) \<Longrightarrow> same_but_stack s t"
  "LU2IOvf a s = Some (r, t) \<Longrightarrow> same_but_stack s t" "LU2UIOvf a s = Some (r, t) \<Longrightarrow> same_but_stack s t"
  "LShiftLeft a n s = Some t \<Longrightarrow> same_but_stack s t" "LShiftRight a n s = Some t \<Longrightarrow> same_but_stack s t"
  "LUShiftRight a n s = Some t \<Longrightarrow> same_but_stack s t"
  by (auto simp: LAddOvf_def LShiftLeft_def LShiftRight_def LUShiftRight_def LUAddOvf_def LSubOvf_def LUSubOvf_def LMulOvf_def LUMulOvf_def LDiv_def LUDiv_def
      LRem_def LURem_def L2IOvf_def L2UIOvf_def LU2IOvf_def LU2UIOvf_def Let_def Option.bind_eq_Some_conv
      dest!: writes_same_but_stack split: if_splits option.splits)

text \<open>The main switch without the branches.\<close>

definition straight_main :: "(u8 \<times> handler) list" where
  "straight_main = (0x00, COP_NOP) # cvm_var_main @ cvm_ptr_main @ cvm_stack_main @ cvm_arith_main @
     cvm_conv_main @ cvm_const_main @ cvm_call_main"

lemmas category_defs = straight_main_def prefix_switch_def wide_switch_def
  cvm_var_main_def cvm_ptr_main_def cvm_stack_main_def cvm_arith_main_def
  cvm_conv_main_def cvm_const_main_def cvm_call_main_def cvm_stack_prefix_def
  cvm_conv_prefix_def cvm_compare_prefix_def cvm_inline_prefix_def cvm_var_wide_def
  cvm_ptr_wide_def cvm_stack_wide_def cvm_conv_wide_def

lemmas goes_intros = goes_bind goes_next goes_throw
lemmas write_dests = writes_same_but_stack helpers_same_but_stack
lemmas outcome_splits = if_splits prod.splits option.splits

lemmas main_handler_defs =
  COP_ILOAD_0_def COP_ILOAD_1_def COP_ILOAD_2_def COP_ILOAD_3_def COP_ILOAD_def
  COP_PLOAD_0_def COP_PLOAD_1_def COP_PLOAD_2_def COP_PLOAD_3_def COP_PLOAD_def
  COP_ISTORE_0_def COP_ISTORE_1_def COP_ISTORE_2_def COP_ISTORE_3_def COP_ISTORE_def
  COP_PSTORE_0_def COP_PSTORE_1_def COP_PSTORE_2_def COP_PSTORE_3_def COP_PSTORE_def
  COP_MLOAD_def COP_MSTORE_def COP_WADDR_def COP_MADDR_def COP_BFIXUP_def
  COP_SFIXUP_def COP_MK_LOCAL_1_def COP_MK_LOCAL_2_def COP_MK_LOCAL_3_def COP_MK_LOCAL_N_def
  COP_BLOAD_def COP_BSTORE_def COP_ILOAD_N_def COP_PLOAD_N_def COP_ISTORE_N_def
  COP_PSTORE_N_def COP_PADD_OFFSET_def COP_PADD_OFFSET_N_def COP_PADD_I4_def COP_PADD_I4_R_def
  COP_PADD_I8_def COP_PADD_I8_R_def COP_PSUB_def COP_PSUB_I4_def COP_PSUB_I8_def
  COP_CKNULL_def COP_CKNULL_N_def COP_DUP_def COP_DUP2_def COP_DUP_N_def
  COP_DUP_WORD_N_def COP_POP_def COP_POP2_def COP_POP_N_def COP_SQUASH_def
  COP_CKHEIGHT_def COP_CKHEIGHT_N_def COP_SET_NUM_ARGS_def COP_IADD_def COP_IADD_OVF_def
  COP_IADD_OVF_UN_def COP_ISUB_def COP_ISUB_OVF_def COP_ISUB_OVF_UN_def COP_IMUL_def
  COP_IMUL_OVF_def COP_IMUL_OVF_UN_def COP_IDIV_def COP_IDIV_UN_def COP_IREM_def
  COP_IREM_UN_def COP_INEG_def COP_LADD_def COP_LADD_OVF_def COP_LADD_OVF_UN_def
  COP_LSUB_def COP_LSUB_OVF_def COP_LSUB_OVF_UN_def COP_LMUL_def COP_LMUL_OVF_def
  COP_LMUL_OVF_UN_def COP_LDIV_def COP_LDIV_UN_def COP_LREM_def COP_LREM_UN_def
  COP_LNEG_def COP_IAND_def COP_IOR_def COP_IXOR_def COP_INOT_def
  COP_ISHL_def COP_ISHR_def COP_ISHR_UN_def COP_LAND_def COP_LOR_def
  COP_LXOR_def COP_LNOT_def COP_LSHL_def COP_LSHR_def COP_LSHR_UN_def
  IAddOvf_def IUAddOvf_def ISubOvf_def IUSubOvf_def IMulOvf_def
  IUMulOvf_def COP_I2B_def COP_I2UB_def COP_I2S_def COP_I2US_def
  COP_I2L_def COP_IU2L_def COP_L2I_def COP_I2P_LOWER_def COP_LDNULL_def
  COP_LDC_I4_M1_def COP_LDC_I4_0_def COP_LDC_I4_1_def COP_LDC_I4_2_def COP_LDC_I4_3_def
  COP_LDC_I4_4_def COP_LDC_I4_5_def COP_LDC_I4_6_def COP_LDC_I4_7_def COP_LDC_I4_8_def
  COP_LDC_I4_S_def COP_LDC_I4_def COP_LDC_I8_def COP_LDC_I4_VALUE_def COP_PUSHDOWN_def
  COP_NOP_def

lemmas prefix_handler_defs =
  COP_PREFIX_LOCAL_ALLOC_def COP_PREFIX_REPL_WORD_N_def COP_PREFIX_I2B_OVF_def COP_PREFIX_I2UB_OVF_def COP_PREFIX_IU2B_OVF_def
  COP_PREFIX_IU2UB_OVF_def COP_PREFIX_I2S_OVF_def COP_PREFIX_I2US_OVF_def COP_PREFIX_IU2S_OVF_def COP_PREFIX_IU2US_OVF_def
  COP_PREFIX_I2IU_OVF_def COP_PREFIX_IU2I_OVF_def COP_PREFIX_I2UL_OVF_def COP_PREFIX_L2I_OVF_def COP_PREFIX_L2UI_OVF_def
  COP_PREFIX_LU2I_OVF_def COP_PREFIX_LU2IU_OVF_def COP_PREFIX_L2UL_OVF_def COP_PREFIX_LU2L_OVF_def COP_PREFIX_I2B_ALIGNED_def
  COP_PREFIX_I2S_ALIGNED_def COP_PREFIX_FIX_I4_I_def COP_PREFIX_FIX_I4_U_def COP_PREFIX_ICMP_def COP_PREFIX_ICMP_UN_def
  COP_PREFIX_LCMP_def COP_PREFIX_LCMP_UN_def COP_PREFIX_PCMP_def COP_PREFIX_SETEQ_def COP_PREFIX_SETNE_def
  COP_PREFIX_SETLT_def COP_PREFIX_SETLE_def COP_PREFIX_SETGT_def COP_PREFIX_SETGE_def LCmp_def
  LUCmp_def COP_PREFIX_ABS_I4_def COP_PREFIX_MIN_I4_def COP_PREFIX_MAX_I4_def COP_PREFIX_SIGN_I4_def
  COP_PREFIX_UNROLL_METHOD_def COP_PREFIX_UNROLL_STACK_def

lemmas wide_handler_defs =
  wide_COP_ILOAD_def wide_COP_PLOAD_def wide_COP_ISTORE_def wide_COP_PSTORE_def wide_COP_MLOAD_def
  wide_COP_MSTORE_def wide_COP_WADDR_def wide_COP_MADDR_def wide_COP_BFIXUP_def wide_COP_SFIXUP_def
  wide_COP_MK_LOCAL_N_def wide_COP_PADD_OFFSET_N_def wide_COP_CKNULL_N_def wide_COP_DUP_N_def wide_COP_DUP_WORD_N_def
  wide_COP_POP_N_def wide_COP_SQUASH_def wide_COP_SET_NUM_ARGS_def wide_COP_I2P_LOWER_def

definition main_lengths :: "int list" where
  "main_lengths =
    [1, 1, 1, 1, 1, 2, 1, 1, 1, 1, 2, 1, 1, 1, 1, 2, 1, 1, 1, 1, 2, 3, 3, 2, 2, 2, 2, 1, 1, 1, 2, 2,
      2, 2, 3, 1, 1, 1, 1, 1, 1, 1, 1, 2, 1, 1, 2, 2, 1, 1, 2, 3, 5, 5, 2, 1, 1, 1, 1, 1, 1, 1, 1, 1,
      1, 1, 1, 1, 1, 1, 1, 1, 1, 1, 1, 1, 1, 1, 1, 1, 1, 1, 1, 1, 1, 1, 1, 1, 1, 1, 1, 1, 1, 1, 1, 1,
      1, 1, 1, 1, 1, 1, 1, 1, 2, 1, 1, 1, 1, 1, 1, 1, 1, 1, 1, 1, 2, 5, 9, 5]"

lemma main_advance: "list_all2 (\<lambda>k (op, h). advances k h) main_lengths straight_main"
  unfolding main_lengths_def category_defs main_handler_defs advances_def
  by (simp; intro conjI allI;
    auto simp: Let_def intro!: goes_intros dest!: write_dests split: outcome_splits;
    blast intro: same_but_stack_trans)

definition prefix_lengths :: "int list" where
  "prefix_lengths =
    [2, 6, 2, 2, 2, 2, 2, 2, 2, 2, 2, 2, 2, 2, 2, 2, 2, 2, 2, 2, 2, 2, 2, 2, 2, 2, 2, 2, 2, 2, 2, 2,
      2, 2, 2, 2, 2, 2, 2, 2]"

lemma prefix_advance: "list_all2 (\<lambda>k (op, h). advances k h) prefix_lengths (prefix_switch cfg)"
  unfolding prefix_lengths_def category_defs prefix_handler_defs advances_def
  by (simp; intro conjI allI;
    auto simp: Let_def intro!: goes_intros dest!: write_dests split: outcome_splits;
    blast intro: same_but_stack_trans)

definition wide_lengths :: "int list" where
  "wide_lengths =
    [6, 6, 6, 6, 10, 10, 6, 6, 6, 6, 6, 10, 6, 6, 6, 6, 10, 6, 6]"

lemma wide_advance: "list_all2 (\<lambda>k (op, h). advances k h) wide_lengths wide_switch"
  unfolding wide_lengths_def category_defs wide_handler_defs advances_def
  by (simp; intro conjI allI;
    auto simp: Let_def intro!: goes_intros dest!: write_dests split: outcome_splits;
    blast intro: same_but_stack_trans)

lemma goes_jump: "same_but_stack s t \<Longrightarrow> D d \<Longrightarrow> goes s D (jump d k t)"
  by (simp add: goes_def same_but_stack_def kept_def jump_def)

text \<open>The branches continue behind the instruction or at their destination.\<close>

definition falls_through :: "int \<Rightarrow> handler \<Rightarrow> bool" where
  "falls_through k h \<longleftrightarrow> (\<forall>s. goes s (\<lambda>p. p = pc s + k \<or> CVM_ARG_BRANCH_SHORT s = Some p \<or>
     CVM_ARG_BRANCH_LONG s = Some p) (h s))"

lemma branch_long_same: "same_but_stack s t \<Longrightarrow> CVM_ARG_BRANCH_LONG t = CVM_ARG_BRANCH_LONG s"
  by (simp add: same_but_stack_def kept_def CVM_ARG_BRANCH_LONG_def IL_READ_UINT32_def code_at_def)

lemma branches_fall_through: "list_all (\<lambda>(op, h). falls_through 6 h) (butlast cvm_branch_main)"
  unfolding cvm_branch_main_def COP_BR_def COP_BEQ_def COP_BNE_def COP_BLT_def COP_BLT_UN_def COP_BLE_def
    COP_BLE_UN_def COP_BGT_def COP_BGT_UN_def COP_BGE_def COP_BGE_UN_def COP_BRTRUE_def COP_BRFALSE_def
    COP_BRNULL_def COP_BRNONNULL_def COP_BR_PEQ_def COP_BR_PNE_def COP_BR_LONG_def br_long_int_def
    br_long_other_def falls_through_def
  by (simp; intro conjI allI; auto simp: Let_def branch_long_same intro!: goes_intros goes_jump
      dest!: write_dests split: outcome_splits)

section \<open>The table of lengths against the handlers\<close>

text \<open>The entries of \<open>ckheight\<close>, \<open>ckheight_n\<close> and \<open>padd_offset_n\<close> differ from the handlers.\<close>

definition wrong_length :: "u8 \<Rightarrow> bool" where
  "wrong_length op \<longleftrightarrow> op \<in> {0x40, 0x41, 0x86}"

lemma agreed_lengths:
  assumes "list_all2 (\<lambda>k (op, h). A k h) ks xs" and "list_all2 (\<lambda>k (op, h). P op \<longrightarrow> k = l op) ks xs"
  shows "list_all (\<lambda>(op, h). A (l op) h) (filter (\<lambda>(op, h). P op) xs)"
  using assms by (induction rule: list_all2_induct) auto

lemma main_lengths:
  "list_all2 (\<lambda>k (op, h). \<not> wrong_length op \<longrightarrow> k = ILCVMLengths ! unat op) main_lengths straight_main"
  by code_simp

lemma prefix_lengths:
  "list_all2 (\<lambda>k (op, h). k = ILCVMLengths ! (256 + unat op)) prefix_lengths (prefix_switch cfg)"
  unfolding prefix_switch_def cvm_stack_prefix_def cvm_inline_prefix_def by code_simp

lemma branch_lengths: "list_all (\<lambda>(op, h). ILCVMLengths ! unat op = 6) (butlast cvm_branch_main)"
  by code_simp

lemma wrong_lengths:
  "\<not> advances (ILCVMLengths ! 0x40) COP_CKHEIGHT" "\<not> advances (ILCVMLengths ! 0x41) COP_CKHEIGHT_N"
  "\<not> advances (ILCVMLengths ! 0x86) COP_PADD_OFFSET_N"
proof -
  have l: "ILCVMLengths ! 0x40 = 1" "ILCVMLengths ! 0x41 = 2" "ILCVMLengths ! 0x86 = 2" by code_simp+
  let ?s = "machine (replicate 16 0) 1 [0x40, 0, 0, 0, 0]"
  have "COP_CKHEIGHT ?s = Some (Next (?s\<lparr>pc := 5\<rparr>))" "COP_CKHEIGHT_N ?s = Some (Next (?s\<lparr>pc := 5\<rparr>))"
    "COP_PADD_OFFSET_N ?s = Some (Next (?s\<lparr>pc := 3\<rparr>))"
    by code_simp+
  then show "\<not> advances (ILCVMLengths ! 0x40) COP_CKHEIGHT" "\<not> advances (ILCVMLengths ! 0x41) COP_CKHEIGHT_N"
    "\<not> advances (ILCVMLengths ! 0x86) COP_PADD_OFFSET_N"
    unfolding l advances_def goes_def by (auto simp: machine_def intro!: exI [of _ ?s])
qed

section \<open>Runs of the interpreter\<close>

inductive runs :: "cvm_config \<Rightarrow> cvm_state \<Rightarrow> cvm_state \<Rightarrow> bool" for cfg where
  runs_refl: "runs cfg s s"
| runs_step: "\<lbrakk>runs cfg s t; Interpreter_step cfg t = Some (Next u)\<rbrakk> \<Longrightarrow> runs cfg s u"

section \<open>Properties\<close>

text \<open>C33: The table of instruction lengths agrees with the interpreter: every instruction of the
  main switch other than the branches, and every instruction of the prefix switch, advances
  the program counter by its entry in the table, and every branch falls through by its entry
  or goes to its destination; the entries of \<open>ckheight\<close>, \<open>ckheight_n\<close> and \<open>padd_offset_n\<close> are
  the exceptions, and they are wrong.\<close>

theorem instruction_lengths_agree:
  "list_all (\<lambda>(op, h). advances (ILCVMLengths ! unat op) h) (filter (\<lambda>(op, h). \<not> wrong_length op) straight_main) \<and>
   list_all (\<lambda>(op, h). advances (ILCVMLengths ! (256 + unat op)) h) (prefix_switch cfg) \<and>
   list_all (\<lambda>(op, h). falls_through (ILCVMLengths ! unat op) h) (butlast cvm_branch_main) \<and>
   \<not> advances (ILCVMLengths ! 0x40) COP_CKHEIGHT \<and> \<not> advances (ILCVMLengths ! 0x41) COP_CKHEIGHT_N \<and>
   \<not> advances (ILCVMLengths ! 0x86) COP_PADD_OFFSET_N"
proof (intro conjI wrong_lengths)
  show "list_all (\<lambda>(op, h). advances (ILCVMLengths ! unat op) h) (filter (\<lambda>(op, h). \<not> wrong_length op) straight_main)"
    by (rule agreed_lengths [OF main_advance main_lengths])
  have "list_all2 (\<lambda>k (op, h). True \<longrightarrow> k = ILCVMLengths ! (256 + unat op)) prefix_lengths (prefix_switch cfg)"
    using prefix_lengths by simp
  from agreed_lengths [OF prefix_advance this]
  show "list_all (\<lambda>(op, h). advances (ILCVMLengths ! (256 + unat op)) h) (prefix_switch cfg)"
    by (simp add: case_prod_unfold)
  show "list_all (\<lambda>(op, h). falls_through (ILCVMLengths ! unat op) h) (butlast cvm_branch_main)"
    using branches_fall_through branch_lengths unfolding list_all_iff by fastforce
qed

text \<open>A configuration without further instructions.\<close>

definition bare :: cvm_config where
  "bare = \<lparr>ILGCAlloc = (\<lambda>_. 0), CVM_WORDS_PER_NATIVE_FLOAT = 1, other_ins = (\<lambda>_ _. None)\<rparr>"

end
