(* ===== verification/IlSemantics.thy ===== *)
theory IlSemantics
  imports VerifyTypes CvmDispatch
begin

text \<open>
  What the IL instructions on integers mean, on a stack of values instead of words: the
  specification that the verifier, the coder and the interpreter implement together.  On a
  32-bit platform \<open>int32\<close>, native integers and references are one word and \<open>int64\<close> is two.
  The exceptions of the divisions are those that the engine raises.
\<close>

section \<open>Values\<close>

datatype il_value = W u32 | L u64

fun value_words :: "il_value \<Rightarrow> u32 list" where
  "value_words (W w) = [w]"
| "value_words (L x) = [lo32 x, hi32 x]"

text \<open>The words of a stack of values, whose top is the head of the list.\<close>

fun stack_words :: "il_value list \<Rightarrow> u32 list" where
  "stack_words [] = []"
| "stack_words (v # vs) = stack_words vs @ value_words v"

lemma stack_words_append [simp]: "stack_words (xs @ ys) = stack_words ys @ stack_words xs"
  by (induction xs) simp_all

fun fits :: "ILEngineStackItem \<Rightarrow> il_value \<Rightarrow> bool" where
  "fits i (W w) \<longleftrightarrow> engineType i \<in> {T_I4, T_I, T_M, ILEngineType_O, T_T}"
| "fits i (L x) \<longleftrightarrow> engineType i = T_I8"

section \<open>Instructions\<close>

definition il_int32 :: "(nat \<times> (u32 \<Rightarrow> u32 \<Rightarrow> exn + u32)) list" where
  "il_int32 =
    [(IL_OP_ADD, \<lambda>a b. Inr (a + b)),
     (IL_OP_SUB, \<lambda>a b. Inr (a - b)),
     (IL_OP_MUL, \<lambda>a b. Inr (a * b)),
     (IL_OP_ADD_OVF, \<lambda>a b. checked32 (sint a + sint b)),
     (IL_OP_ADD_OVF_UN, \<lambda>a b. checked_u32 (uint a + uint b)),
     (IL_OP_SUB_OVF, \<lambda>a b. checked32 (sint a - sint b)),
     (IL_OP_SUB_OVF_UN, \<lambda>a b. checked_u32 (uint a - uint b)),
     (IL_OP_MUL_OVF, \<lambda>a b. checked32 (sint a * sint b)),
     (IL_OP_MUL_OVF_UN, \<lambda>a b. checked_u32 (uint a * uint b)),
     (IL_OP_DIV, spec_idiv (sdiv)), (IL_OP_DIV_UN, spec_idiv_un (div)),
     (IL_OP_REM, spec_idiv (smod)), (IL_OP_REM_UN, spec_idiv_un (mod)),
     (IL_OP_AND, \<lambda>a b. Inr (a AND b)), (IL_OP_OR, \<lambda>a b. Inr (a OR b)), (IL_OP_XOR, \<lambda>a b. Inr (a XOR b)),
     (IL_OP_SHL, \<lambda>a n. Inr (push_bit (unat n mod 32) a)),
     (IL_OP_SHR, \<lambda>a n. Inr (signed_drop_bit (unat n mod 32) a)),
     (IL_OP_SHR_UN, \<lambda>a n. Inr (drop_bit (unat n mod 32) a))]"

definition il_int64 :: "(nat \<times> (u64 \<Rightarrow> u64 \<Rightarrow> exn + u64)) list" where
  "il_int64 =
    [(IL_OP_ADD, \<lambda>a b. Inr (a + b)),
     (IL_OP_SUB, \<lambda>a b. Inr (a - b)),
     (IL_OP_MUL, \<lambda>a b. Inr (a * b)),
     (IL_OP_ADD_OVF, \<lambda>a b. checked64 (sint a + sint b)),
     (IL_OP_ADD_OVF_UN, \<lambda>a b. checked_u64 (uint a + uint b)),
     (IL_OP_SUB_OVF, \<lambda>a b. checked64 (sint a - sint b)),
     (IL_OP_SUB_OVF_UN, \<lambda>a b. checked_u64 (uint a - uint b)),
     (IL_OP_MUL_OVF, \<lambda>a b. checked64 (sint a * sint b)),
     (IL_OP_MUL_OVF_UN, \<lambda>a b. checked_u64 (uint a * uint b)),
     (IL_OP_DIV, spec_ldiv (sdiv)), (IL_OP_DIV_UN, spec_ldiv_un (div)),
     (IL_OP_REM, spec_ldiv (smod)), (IL_OP_REM_UN, spec_ldiv_un (mod)),
     (IL_OP_AND, \<lambda>a b. Inr (a AND b)), (IL_OP_OR, \<lambda>a b. Inr (a OR b)), (IL_OP_XOR, \<lambda>a b. Inr (a XOR b))]"

definition il_shift64 :: "(nat \<times> (u64 \<Rightarrow> u32 \<Rightarrow> u64)) list" where
  "il_shift64 =
    [(IL_OP_SHL, \<lambda>a n. push_bit (unat n mod 64) a), (IL_OP_SHR, \<lambda>a n. signed_drop_bit (unat n mod 64) a),
     (IL_OP_SHR_UN, \<lambda>a n. drop_bit (unat n mod 64) a)]"

fun il_binary :: "nat \<Rightarrow> il_value \<Rightarrow> il_value \<Rightarrow> (exn + il_value) option" where
  "il_binary opcode (W a) (W b) = map_option (\<lambda>f. map_sum id W (f a b)) (map_of il_int32 opcode)"
| "il_binary opcode (L a) (L b) = map_option (\<lambda>f. map_sum id L (f a b)) (map_of il_int64 opcode)"
| "il_binary opcode (L a) (W n) = map_option (\<lambda>f. Inr (L (f a n))) (map_of il_shift64 opcode)"
| "il_binary opcode (W a) (L b) = None"

fun il_unary :: "nat \<Rightarrow> il_value \<Rightarrow> il_value option" where
  "il_unary opcode (W a) =
     (if opcode = IL_OP_NEG then Some (W (- a)) else if opcode = IL_OP_NOT then Some (W (NOT a)) else None)"
| "il_unary opcode (L a) =
     (if opcode = IL_OP_NEG then Some (L (- a)) else if opcode = IL_OP_NOT then Some (L (NOT a)) else None)"

text \<open>
  Conversions.  A checked conversion takes the operand as signed or unsigned integer and
  requires it to be in a range; the others keep the low bits.
\<close>

datatype il_target = Narrow "int \<Rightarrow> int" | Widen bool | Check32 bool int int | Check64 bool int int

definition il_conversions :: "(nat \<times> il_target) list" where
  "il_conversions =
    [(IL_OP_CONV_I1, Narrow (signed_take_bit 7)), (IL_OP_CONV_U1, Narrow (take_bit 8)),
     (IL_OP_CONV_I2, Narrow (signed_take_bit 15)), (IL_OP_CONV_U2, Narrow (take_bit 16)),
     (IL_OP_CONV_I4, Narrow id), (IL_OP_CONV_U4, Narrow id), (IL_OP_CONV_I, Narrow id), (IL_OP_CONV_U, Narrow id),
     (IL_OP_CONV_I8, Widen True), (IL_OP_CONV_U8, Widen False),
     (IL_OP_CONV_OVF_I1, Check32 True (- 128) 127), (IL_OP_CONV_OVF_I1_UN, Check32 False (- 128) 127),
     (IL_OP_CONV_OVF_U1, Check32 True 0 255), (IL_OP_CONV_OVF_U1_UN, Check32 False 0 255),
     (IL_OP_CONV_OVF_I2, Check32 True (- 32768) 32767), (IL_OP_CONV_OVF_I2_UN, Check32 False (- 32768) 32767),
     (IL_OP_CONV_OVF_U2, Check32 True 0 65535), (IL_OP_CONV_OVF_U2_UN, Check32 False 0 65535),
     (IL_OP_CONV_OVF_I4, Check32 True (- (2 ^ 31)) (2 ^ 31 - 1)), (IL_OP_CONV_OVF_I4_UN, Check32 False (- (2 ^ 31)) (2 ^ 31 - 1)),
     (IL_OP_CONV_OVF_U4, Check32 True 0 (2 ^ 32 - 1)), (IL_OP_CONV_OVF_U4_UN, Check32 False 0 (2 ^ 32 - 1)),
     (IL_OP_CONV_OVF_I, Check32 True (- (2 ^ 31)) (2 ^ 31 - 1)), (IL_OP_CONV_OVF_I_UN, Check32 False (- (2 ^ 31)) (2 ^ 31 - 1)),
     (IL_OP_CONV_OVF_U, Check32 True 0 (2 ^ 32 - 1)), (IL_OP_CONV_OVF_U_UN, Check32 False 0 (2 ^ 32 - 1)),
     (IL_OP_CONV_OVF_I8_UN, Check64 False (- (2 ^ 63)) (2 ^ 63 - 1)),
     (IL_OP_CONV_OVF_U8, Check64 True 0 (2 ^ 64 - 1)), (IL_OP_CONV_OVF_U8_UN, Check64 False 0 (2 ^ 64 - 1))]"

fun int_value :: "bool \<Rightarrow> il_value \<Rightarrow> int" where
  "int_value is_signed (W a) = (if is_signed then sint a else uint a)"
| "int_value is_signed (L a) = (if is_signed then sint a else uint a)"

fun il_convert :: "il_target \<Rightarrow> il_value \<Rightarrow> exn + il_value" where
  "il_convert (Narrow f) v = Inr (W (word_of_int (f (int_value True v))))"
| "il_convert (Widen is_signed) v = Inr (L (word_of_int (int_value is_signed v)))"
| "il_convert (Check32 is_signed lo hi) v = map_sum id W (in_range32 lo hi (int_value is_signed v))"
| "il_convert (Check64 is_signed lo hi) v = map_sum id L (in_range64 lo hi (int_value is_signed v))"

text \<open>Constants: the instruction's own number, or its little-endian argument.\<close>

definition le32 :: "u8 list \<Rightarrow> u32" where
  "le32 bs = ucast (bs ! 0) OR push_bit 8 (ucast (bs ! 1)) OR push_bit 16 (ucast (bs ! 2)) OR push_bit 24 (ucast (bs ! 3))"

definition il_constant :: "nat \<Rightarrow> u8 list \<Rightarrow> il_value option" where
  "il_constant opcode arg =
     (if opcode = IL_OP_LDNULL then Some (W 0)
      else if opcode \<ge> IL_OP_LDC_I4_M1 \<and> opcode \<le> IL_OP_LDC_I4_8 then Some (W (word_of_int (int opcode - int IL_OP_LDC_I4_0)))
      else if opcode = IL_OP_LDC_I4_S then Some (W (word_of_int (sint (arg ! 0))))
      else if opcode = IL_OP_LDC_I4 then
        Some (W (le32 arg))
      else if opcode = IL_OP_LDC_I8 then
        Some (L (long_of (le32 arg) (le32 (drop 4 arg))))
      else None)"

text \<open>One instruction on a stack of values: \<open>None\<close> if the operands do not fit it.\<close>

definition il_step :: "nat \<Rightarrow> u8 list \<Rightarrow> il_value list \<Rightarrow> (exn + il_value list) option" where
  "il_step opcode arg vs =
     (if opcode = IL_OP_NOP \<or> opcode = IL_OP_BREAK then Some (Inr vs)
      else if opcode < IL_OP_DUP then map_option (\<lambda>v. Inr (v # vs)) (il_constant opcode arg)
      else case vs of
          [] \<Rightarrow> None
        | v # rest \<Rightarrow>
            if opcode = IL_OP_DUP then Some (Inr (v # v # rest))
            else if opcode = IL_OP_POP then Some (Inr rest)
            else if opcode \<in> {IL_OP_NEG, IL_OP_NOT} then map_option (\<lambda>r. Inr (r # rest)) (il_unary opcode v)
            else case map_of il_conversions opcode of
                Some t \<Rightarrow> Some (map_sum id (\<lambda>r. r # rest) (il_convert t v))
              | None \<Rightarrow> (case rest of
                    [] \<Rightarrow> None
                  | u # rest \<Rightarrow> map_option (map_sum id (\<lambda>r. r # rest)) (il_binary opcode u v)))"

text \<open>A stretch of code.\<close>

function il_block :: "u8 list \<Rightarrow> il_value list \<Rightarrow> (exn + il_value list) option" where
  "il_block il vs =
     (if il = [] then Some (Inr vs)
      else case map_of opcode_table (unat (hd il)) of
          None \<Rightarrow> None
        | Some (popped, pushed, sz) \<Rightarrow>
            if sz = 0 then None
            else case il_step (unat (hd il)) (tl il) vs of
                None \<Rightarrow> None
              | Some (Inl e) \<Rightarrow> Some (Inl e)
              | Some (Inr vs) \<Rightarrow> il_block (drop sz il) vs)"
  by auto
termination
  by (relation "measure (\<lambda>(il, vs). length il)") auto

declare il_block.simps [simp del]

text \<open>
  The opcodes that have a meaning above.  \<open>conv.ovf.i8\<close> is left out on purpose: for an \<open>int32\<close> operand
  the coder emits a widening instruction without adjusting the height (\<^verbatim>\<open>engine/cvmc_conv.c\<close>, line 610), so that
  the room that it announces is one word short.
\<close>

definition il_integer :: "nat \<Rightarrow> bool" where
  "il_integer opcode \<longleftrightarrow>
     opcode \<in> {IL_OP_NOP, IL_OP_BREAK, IL_OP_DUP, IL_OP_POP, IL_OP_NEG, IL_OP_NOT} \<or>
     opcode \<ge> IL_OP_LDNULL \<and> opcode \<le> IL_OP_LDC_I8 \<or>
     opcode \<in> fst ` set il_int32 \<or> opcode \<in> fst ` set il_conversions"

end
