(* ===== verification/Compile.thy ===== *)
theory Compile
  imports IlSemantics
begin

text \<open>
  The verifier, the coder and the interpreter together: the byte code that the coder emits for
  accepted IL code does on the words of the stack what the IL instructions mean on its values.
\<close>

section \<open>Emitted code\<close>

text \<open>
  \<open>gen f bs k\<close>: the coder routine \<open>f\<close> appends the bytes \<open>bs\<close>, or runs into the end of the cache page,
  and moves the height by \<open>k\<close> with the maximum following it.
\<close>

definition gen :: "(ILCVMCoder \<Rightarrow> ILCVMCoder) \<Rightarrow> u8 list \<Rightarrow> int \<Rightarrow> bool" where
  "gen f bs k \<longleftrightarrow> (\<forall>c. limit (f c) = limit c \<and> (\<exists>x. out (f c) = out c @ x) \<and>
     (out (f c) = out c @ bs \<or> limit c \<le> length (out (f c))) \<and> height (f c) = height c + k \<and>
     maxHeight c \<le> maxHeight (f c) \<and> (height c \<le> maxHeight c \<longrightarrow> height (f c) \<le> maxHeight (f c)))"

named_theorems gens

lemma gen_Nil [gens]: "gen (emit []) [] 0"
  by (simp add: gen_def)

lemma gen_Cons:
  assumes "gen f bs k" and "gen (emit fs) bs' k'"
  shows "gen (emit (f # fs)) (bs @ bs') (k + k')"
  unfolding gen_def
proof
  fix c
  note f = assms(1) [unfolded gen_def, rule_format, of c] and g = assms(2) [unfolded gen_def, rule_format, of "f c"]
  from f g have "out (emit fs (f c)) = out c @ bs @ bs' \<or> limit c \<le> length (out (emit fs (f c)))" by auto
  with f g show "limit (emit (f # fs) c) = limit c \<and> (\<exists>x. out (emit (f # fs) c) = out c @ x) \<and>
      (out (emit (f # fs) c) = out c @ bs @ bs' \<or> limit c \<le> length (out (emit (f # fs) c))) \<and>
      height (emit (f # fs) c) = height c + (k + k') \<and> maxHeight c \<le> maxHeight (emit (f # fs) c) \<and>
      (height c \<le> maxHeight c \<longrightarrow> height (emit (f # fs) c) \<le> maxHeight (emit (f # fs) c))"
    by auto
qed

lemma gen_emit:
  assumes "gen f bs k" and "gen (emit fs) bs' k'" and "bs'' = bs @ bs'" and "k'' = k + k'"
  shows "gen (emit (f # fs)) bs'' k''"
  using gen_Cons assms by blast

lemma gen_ILCacheByte: "gen (ILCacheByte b) [b] 0"
  by (simp add: gen_def ILCacheByte_def)

lemma gen_ILCacheWord32: "gen (ILCacheWord32 w) (le_bytes 4 w) 0"
  by (auto simp: gen_def ILCacheWord32_def)

lemma gen_ADJUST [gens]: "gen (CVM_ADJUST k) [] k"
  by (auto simp: gen_def CVM_ADJUST_def Let_def)

lemma gen_NONE [gens]: "gen (CVM_OUT_NONE b) [b] 0"
  unfolding CVM_OUT_NONE_def by (rule gen_ILCacheByte)

lemma gen_PREFIX [gens]: "gen (CVMP_OUT_NONE b) [opc_PREFIX, b] 0"
  unfolding CVMP_OUT_NONE_def by (rule gen_emit gen_ILCacheByte gen_Nil | simp)+

lemma gen_BYTE [gens]: "gen (CVM_OUT_BYTE b v) [b, v] 0"
  unfolding CVM_OUT_BYTE_def by (rule gen_emit gen_ILCacheByte gen_Nil | simp)+

lemma gen_WORD [gens]: "gen (CVM_OUT_WORD b w) (b # le_bytes 4 w) 0"
  unfolding CVM_OUT_WORD_def by (rule gen_emit gen_ILCacheByte gen_ILCacheWord32 gen_Nil | simp)+

lemma gen_bytes: "gen (emit (map (\<lambda>i. ILCacheByte (g i)) is)) (map g is) 0"
proof (induction "is")
  case (Cons i "is")
  show ?case unfolding list.map by (rule gen_emit [OF gen_ILCacheByte Cons]) simp_all
qed (simp add: gen_def)

lemma gen_BYTES [gens]: "gen (CVM_OUT_BYTES n b arg) (b # map (\<lambda>i. arg ! i) [0..<n]) 0"
  unfolding CVM_OUT_BYTES_def by (rule gen_emit [OF gen_ILCacheByte gen_bytes]) simp_all

lemma genD:
  assumes "gen f bs k" and "length (out (f c)) < limit c"
  shows "out (f c) = out c @ bs"
  using assms unfolding gen_def by (meson not_le)

section \<open>Running emitted code\<close>

definition code_here :: "cvm_state \<Rightarrow> u8 list \<Rightarrow> bool" where
  "code_here s bs \<longleftrightarrow> 0 \<le> pc s \<and> (\<exists>rest. drop (nat (pc s)) (code s) = bs @ rest)"

text \<open>
  \<open>executes cfg bs room vs r\<close>: with the values \<open>vs\<close> on top of the stack and \<open>room\<close> words above them, the
  interpreter runs through the bytes \<open>bs\<close> at the program counter and replaces the values by those of \<open>r\<close>,
  or reaches an instruction that raises the exception of \<open>r\<close>.
\<close>

definition executes :: "cvm_config \<Rightarrow> u8 list \<Rightarrow> nat \<Rightarrow> il_value list \<Rightarrow> exn + il_value list \<Rightarrow> bool" where
  "executes cfg bs room vs r \<longleftrightarrow>
     (\<forall>s base spare. split_at s base (stack_words vs) spare \<longrightarrow> code_here s bs \<longrightarrow> room \<le> length spare \<longrightarrow>
        (case r of
           Inl e \<Rightarrow> \<exists>t u. runs cfg s t \<and> Interpreter_step cfg t = Some (Throw e u)
         | Inr vs' \<Rightarrow> \<exists>spare'. length (stack_words vs') + length spare' = length (stack_words vs) + length spare \<and>
             runs cfg s (s\<lparr>pc := pc s + int (length bs), stacktop := int (length base) + int (length (stack_words vs')),
                           stack := base @ stack_words vs' @ spare'\<rparr>)))"

lemma runs_trans: "runs cfg t u \<Longrightarrow> runs cfg s t \<Longrightarrow> runs cfg s u"
  by (induction rule: runs.induct) (auto intro: runs_step)

lemma runs_one: "Interpreter_step cfg s = Some (Next t) \<Longrightarrow> runs cfg s t"
  by (blast intro: runs_refl runs_step)

lemma code_here_append:
  assumes "code_here s (xs @ ys)"
  shows "code_here s xs" "code_here (s\<lparr>pc := pc s + int (length xs), stacktop := p, stack := q\<rparr>) ys"
proof -
  from assms obtain rest where d: "0 \<le> pc s" "drop (nat (pc s)) (code s) = xs @ ys @ rest" by (auto simp: code_here_def)
  then have "drop (nat (pc s + int (length xs))) (code s) = drop (length xs) (xs @ ys @ rest)"
    by (simp add: nat_add_distrib drop_drop [symmetric] add.commute)
  with d show "code_here (s\<lparr>pc := pc s + int (length xs), stacktop := p, stack := q\<rparr>) ys" by (auto simp: code_here_def)
  from d show "code_here s xs" by (auto simp: code_here_def)
qed

lemma code_here_at:
  assumes "code_here s bs" and "i < length bs"
  shows "code_at (pc s + int i) s = Some (bs ! i)"
proof -
  from assms obtain rest where d: "0 \<le> pc s" "drop (nat (pc s)) (code s) = bs @ rest" by (auto simp: code_here_def)
  have "nat (pc s) + i < length (code s)" using arg_cong [OF d(2), of length] assms(2) by simp
  moreover have "code s ! (nat (pc s) + i) = bs ! i"
    using arg_cong [OF d(2), of "\<lambda>xs. xs ! i"] assms(2) calculation by (simp add: nth_append)
  ultimately show ?thesis using d(1) by (auto simp: code_at_def nat_add_distrib)
qed

lemma code_here_first: "code_here s (b # bs) \<Longrightarrow> code_at (pc s) s = Some b"
  "code_here s (a # b # bs) \<Longrightarrow> code_at (pc s + 1) s = Some b"
  using code_here_at [of s "b # bs" 0] code_here_at [of s "a # b # bs" 1] by simp_all

text \<open>Composition, with the room that both parts need.\<close>

lemma executes_then:
  assumes "executes cfg xs m vs (Inr us)" "executes cfg ys n us r" "m \<le> room"
    "n + length (stack_words us) \<le> length (stack_words vs) + room"
  shows "executes cfg (xs @ ys) room vs r"
  unfolding executes_def
proof (intro allI impI)
  fix s base spare
  assume sp: "split_at s base (stack_words vs) spare" and c: "code_here s (xs @ ys)" and room: "room \<le> length spare"
  obtain spare' where t: "length (stack_words us) + length spare' = length (stack_words vs) + length spare"
    "runs cfg s (s\<lparr>pc := pc s + int (length xs), stacktop := int (length base) + int (length (stack_words us)),
       stack := base @ stack_words us @ spare'\<rparr>)" (is "runs cfg s ?t")
    using assms(1) [unfolded executes_def, rule_format, OF sp code_here_append(1) [OF c]] assms(3) room by auto
  have u: "split_at ?t base (stack_words us) spare'" using t(1) by (simp add: split_at_def)
  have "n \<le> length spare'" using assms(4) t(1) room by linarith
  from assms(2) [unfolded executes_def, rule_format, OF u code_here_append(2) [OF c] this] t
  show "case r of
      Inl e \<Rightarrow> \<exists>t u. runs cfg s t \<and> Interpreter_step cfg t = Some (Throw e u)
    | Inr vs' \<Rightarrow> \<exists>spare'. length (stack_words vs') + length spare' = length (stack_words vs) + length spare \<and>
        runs cfg s (s\<lparr>pc := pc s + int (length (xs @ ys)), stacktop := int (length base) + int (length (stack_words vs')),
          stack := base @ stack_words vs' @ spare'\<rparr>)"
    by (auto split: sum.splits simp: algebra_simps intro: runs_trans [rotated])
qed

lemma executes_append:
  assumes "executes cfg xs room vs (Inr us)" and "executes cfg ys 0 us r" "length (stack_words us) \<le> length (stack_words vs) + room"
  shows "executes cfg (xs @ ys) room vs r"
  using executes_then [OF assms(1,2)] assms(3) by simp

lemma executes_raise: "executes cfg xs room vs (Inl e) \<Longrightarrow> executes cfg (xs @ ys) room vs (Inl e)"
  by (auto simp: executes_def dest: code_here_append(1))

lemma executes_nothing: "executes cfg [] 0 vs (Inr vs)"
  unfolding executes_def
proof (intro allI impI)
  fix s base spare
  assume "split_at s base (stack_words vs) spare"
  then have "s\<lparr>pc := pc s + int (length []), stacktop := int (length base) + int (length (stack_words vs)),
      stack := base @ stack_words vs @ spare\<rparr> = s" by (cases s) (simp add: split_at_def)
  then show "case Inr vs of
      Inl e \<Rightarrow> \<exists>t u. runs cfg s t \<and> Interpreter_step cfg t = Some (Throw e u)
    | Inr vs' \<Rightarrow> \<exists>spare'. length (stack_words vs') + length spare' = length (stack_words vs) + length spare \<and>
        runs cfg s (s\<lparr>pc := pc s + int (length []), stacktop := int (length base) + int (length (stack_words vs')),
          stack := base @ stack_words vs' @ spare'\<rparr>)"
    by (auto intro!: exI [of _ spare] runs_refl)
qed

text \<open>One instruction that keeps its contract.\<close>

lemma executes_performs:
  assumes step: "\<And>s. code_here s bs \<Longrightarrow> Interpreter_step cfg s = h s"
    and h: "performs h (int (length bs)) (length (stack_words vs)) f"
    and f: "f (stack_words vs) = map_sum id stack_words r"
    and room: "\<And>vs'. r = Inr vs' \<Longrightarrow> length (stack_words vs') \<le> length (stack_words vs) + room"
  shows "executes cfg bs room vs r"
  unfolding executes_def
proof (intro allI impI)
  fix s base spare
  assume sp: "split_at s base (stack_words vs) spare" and c: "code_here s bs" and "room \<le> length spare"
  note h = h [unfolded performs_def, rule_format, OF sp refl, unfolded f]
  show "case r of
      Inl e \<Rightarrow> \<exists>t u. runs cfg s t \<and> Interpreter_step cfg t = Some (Throw e u)
    | Inr vs' \<Rightarrow> \<exists>spare'. length (stack_words vs') + length spare' = length (stack_words vs) + length spare \<and>
        runs cfg s (s\<lparr>pc := pc s + int (length bs), stacktop := int (length base) + int (length (stack_words vs')),
          stack := base @ stack_words vs' @ spare'\<rparr>)"
  proof (cases r)
    case (Inl e)
    with h step [OF c] show ?thesis by (auto intro: runs_refl)
  next
    case (Inr vs')
    with room \<open>room \<le> length spare\<close> have "length (stack_words vs') \<le> length (stack_words vs) + length spare" by fastforce
    with h Inr obtain spare' where "length (stack_words vs') + length spare' = length (stack_words vs) + length spare"
      "h s = Some (Next (s\<lparr>pc := pc s + int (length bs), stacktop := int (length base) + int (length (stack_words vs')),
         stack := base @ stack_words vs' @ spare'\<rparr>))" by auto
    with runs_one [of cfg s] step [OF c] Inr show ?thesis by (simp only: sum.case) blast
  qed
qed

lemma step_main:
  assumes "code_here s (b # bs)" and "map_of main_switch b = Some h" and "b \<noteq> 0xFD" and "b \<noteq> 0xFF"
  shows "Interpreter_step cfg s = h s"
  using code_here_first(1) [OF assms(1)] assms(2-) by (simp add: Interpreter_step_def dispatch_def)

lemma step_prefix:
  assumes "code_here s (0xFF # b # bs)" and "map_of (prefix_switch cfg) b = Some h"
  shows "Interpreter_step cfg s = h s"
  using code_here_first [OF assms(1)] assms(2)
  by (simp add: Interpreter_step_def COP_PREFIX_def CVM_ARG_SUB_OPCODE_def dispatch_def)

section \<open>Coder routines\<close>

text \<open>\<open>compiles cfg f vs r\<close>: the code that \<open>f\<close> emits turns the values \<open>vs\<close> into \<open>r\<close>, in the room that the
  height allows.\<close>

definition compiles :: "cvm_config \<Rightarrow> (ILCVMCoder \<Rightarrow> ILCVMCoder) \<Rightarrow> il_value list \<Rightarrow> exn + il_value list \<Rightarrow> bool" where
  "compiles cfg f vs r \<longleftrightarrow> (\<exists>bs k. gen f bs k \<and> executes cfg bs (nat k) vs r)"

definition growth :: "int \<Rightarrow> il_value list \<Rightarrow> exn + il_value list \<Rightarrow> bool" where
  "growth k vs r \<longleftrightarrow> (\<forall>vs'. r = Inr vs' \<longrightarrow> int (length (stack_words vs')) = int (length (stack_words vs)) + k)"

lemma compiles_main:
  assumes "gen f [b] k" and "map_of main_switch b = Some h" and "b \<noteq> 0xFD" and "b \<noteq> 0xFF"
    and "performs h 1 (length (stack_words vs)) g" and "g (stack_words vs) = map_sum id stack_words r" and "growth k vs r"
  shows "compiles cfg f vs r"
proof -
  have "executes cfg [b] (nat k) vs r"
    using step_main [OF _ assms(2-4)] assms(5-7) by (intro executes_performs [where h = h and f = g]) (auto simp: growth_def)
  with assms(1) show ?thesis by (auto simp: compiles_def)
qed

text \<open>The instructions that the arithmetic routines emit, in the order of the tables of the specification.\<close>

definition int32_code :: "(u8 \<times> handler) list" where
  "int32_code = [(opc_IADD, COP_IADD), (opc_ISUB, COP_ISUB), (opc_IMUL, COP_IMUL), (opc_IADD_OVF, COP_IADD_OVF),
     (opc_IADD_OVF_UN, COP_IADD_OVF_UN), (opc_ISUB_OVF, COP_ISUB_OVF), (opc_ISUB_OVF_UN, COP_ISUB_OVF_UN),
     (opc_IMUL_OVF, COP_IMUL_OVF), (opc_IMUL_OVF_UN, COP_IMUL_OVF_UN), (opc_IDIV, COP_IDIV), (opc_IDIV_UN, COP_IDIV_UN),
     (opc_IREM, COP_IREM), (opc_IREM_UN, COP_IREM_UN), (opc_IAND, COP_IAND), (opc_IOR, COP_IOR), (opc_IXOR, COP_IXOR),
     (opc_ISHL, COP_ISHL), (opc_ISHR, COP_ISHR), (opc_ISHR_UN, COP_ISHR_UN)]"

definition int64_code :: "(u8 \<times> handler) list" where
  "int64_code = [(opc_LADD, COP_LADD), (opc_LSUB, COP_LSUB), (opc_LMUL, COP_LMUL), (opc_LADD_OVF, COP_LADD_OVF),
     (opc_LADD_OVF_UN, COP_LADD_OVF_UN), (opc_LSUB_OVF, COP_LSUB_OVF), (opc_LSUB_OVF_UN, COP_LSUB_OVF_UN),
     (opc_LMUL_OVF, COP_LMUL_OVF), (opc_LMUL_OVF_UN, COP_LMUL_OVF_UN), (opc_LDIV, COP_LDIV), (opc_LDIV_UN, COP_LDIV_UN),
     (opc_LREM, COP_LREM), (opc_LREM_UN, COP_LREM_UN), (opc_LAND, COP_LAND), (opc_LOR, COP_LOR), (opc_LXOR, COP_LXOR)]"

definition shift64_code :: "(u8 \<times> handler) list" where
  "shift64_code = [(opc_LSHL, COP_LSHL), (opc_LSHR, COP_LSHR), (opc_LSHR_UN, COP_LSHR_UN)]"

lemmas switch_defs = main_switch_def cvm_var_main_def cvm_ptr_main_def cvm_stack_main_def cvm_arith_main_def
  cvm_conv_main_def cvm_const_main_def cvm_branch_main_def cvm_call_main_def

lemma main_switch_distinct: "distinct (map fst main_switch)"
proof -
  have "distinct (map unat (map fst main_switch))" by (simp add: switch_defs)
  then show ?thesis by (simp only: distinct_map)
qed

lemma in_main_switch:
  assumes "(b, h) \<in> set cvm_arith_main \<union> set cvm_conv_main \<union> set cvm_const_main \<union> set cvm_stack_main"
  shows "map_of main_switch b = Some h"
  using main_switch_distinct by (rule map_of_is_SomeI) (use assms in \<open>auto simp: main_switch_def\<close>)

lemma arith_in_switch:
  "set int32_code \<union> set int64_code \<union> set shift64_code \<subseteq> set cvm_arith_main"
  "(b, h) \<in> set cvm_arith_main \<Longrightarrow> b \<noteq> 0xFD \<and> b \<noteq> 0xFF"
  by (simp_all add: cvm_arith_main_def int32_code_def int64_code_def shift64_code_def) auto

lemma int32_performs: "list_all2 (\<lambda>(opcode, g) (b, h). performs h 1 2 (spec2 g)) il_int32 int32_code"
  unfolding il_int32_def int32_code_def
  by (simp add: iadd.performs [simplified] isub.performs [simplified] imul.performs [simplified] iadd_ovf.performs iadd_ovf_un.performs isub_ovf.performs
      isub_ovf_un.performs imul_ovf.performs imul_ovf_un.performs idiv.performs idiv_un.performs irem.performs irem_un.performs
      iand.performs ior.performs ixor.performs ishl.performs ishr.performs ishr_un.performs)

lemma int64_performs: "list_all2 (\<lambda>(opcode, g) (b, h). performs h 1 4 (lspec2 g)) il_int64 int64_code"
  unfolding il_int64_def int64_code_def
  by (simp add: ladd.performs [simplified] lsub.performs [simplified] lmul.performs [simplified] ladd_ovf.performs ladd_ovf_un.performs lsub_ovf.performs
      lsub_ovf_un.performs lmul_ovf.performs lmul_ovf_un.performs ldiv.performs ldiv_un.performs lrem.performs lrem_un.performs
      land.performs lor.performs lxor.performs)

lemma shift64_performs: "list_all2 (\<lambda>(opcode, g) (b, h). performs h 1 3 (lspec_shift g)) il_shift64 shift64_code"
  unfolding il_shift64_def shift64_code_def
  by (simp add: lshl.performs lshr.performs lshr_un.performs)

text \<open>The code generation, on a platform where native integers have one word and \<open>int64\<close> two.\<close>

definition platform32 :: "platform \<Rightarrow> bool" where
  "platform32 p \<longleftrightarrow> \<not> native_int64 p \<and> words_per_long p = 2"

definition arith_coder :: "platform \<Rightarrow> nat \<Rightarrow> ILEngineType \<Rightarrow> ILEngineType \<Rightarrow> ILCVMCoder \<Rightarrow> ILCVMCoder" where
  "arith_coder p opcode =
     (if opcode \<in> {IL_OP_SHL, IL_OP_SHR, IL_OP_SHR_UN} then CVMCoder_Shift p opcode else CVMCoder_Binary p opcode)"

lemma gen_op: "(\<And>c. f c = CVM_ADJUST k (CVM_OUT_NONE b c)) \<Longrightarrow> gen f [b] k"
proof -
  assume "\<And>c. f c = CVM_ADJUST k (CVM_OUT_NONE b c)"
  then have "f = emit [CVM_OUT_NONE b, CVM_ADJUST k]" by (simp add: fun_eq_iff)
  moreover have "gen (emit [CVM_OUT_NONE b, CVM_ADJUST k]) [b] k"
    by (rule gen_emit [OF gen_NONE gen_emit [OF gen_ADJUST gen_Nil]]) simp_all
  ultimately show ?thesis by simp
qed

lemmas coder_defs = arith_coder_def CVMCoder_Binary_def CVMCoder_Shift_def AdjustMixedBinary_def binary_numeric_def
  binary_integer_def platform32_def

lemma int32_gen:
  assumes "platform32 p" "t1 \<in> {T_I4, T_I}" "t2 \<in> {T_I4, T_I}"
  shows "list_all2 (\<lambda>(opcode, g) (b, h). \<forall>c. arith_coder p opcode t1 t2 c = CVM_ADJUST (- 1) (CVM_OUT_NONE b c)) il_int32 int32_code"
  using assms unfolding il_int32_def int32_code_def by (elim insertE emptyE) (simp_all add: coder_defs)

lemma int64_gen:
  assumes "platform32 p"
  shows "list_all2 (\<lambda>(opcode, g) (b, h). \<forall>c. arith_coder p opcode T_I8 T_I8 c = CVM_ADJUST (- 2) (CVM_OUT_NONE b c)) il_int64 int64_code"
  using assms unfolding il_int64_def int64_code_def by (simp add: coder_defs)

lemma shift64_gen:
  assumes "platform32 p" "t2 \<in> {T_I4, T_I}"
  shows "list_all2 (\<lambda>(opcode, g) (b, h). \<forall>c. arith_coder p opcode T_I8 t2 c = CVM_ADJUST (- 1) (CVM_OUT_NONE b c)) il_shift64 shift64_code"
  using assms unfolding il_shift64_def shift64_code_def by (elim insertE emptyE) (simp_all add: coder_defs)

text \<open>Joining the three facts about one entry of a table.\<close>

lemma table_entry:
  assumes "list_all2 (\<lambda>(opcode, g) (b, h). P opcode b) xs ys" "list_all2 (\<lambda>(opcode, g) (b, h). Q h g) xs ys"
    and "map_of xs opcode = Some g"
  obtains b h where "(b, h) \<in> set ys" "P opcode b" "Q h g"
proof -
  obtain i where i: "i < length xs" "xs ! i = (opcode, g)" using map_of_SomeD [OF assms(3)] by (auto simp: in_set_conv_nth)
  obtain b h where bh: "ys ! i = (b, h)" by fastforce
  have l: "length xs = length ys" using assms(1) by (rule list_all2_lengthD)
  show thesis
    using list_all2_nthD [OF assms(1) i(1)] list_all2_nthD [OF assms(2) i(1)] i bh l nth_mem [of i ys]
    by (intro that [of b h]) auto
qed

lemma arith_compiles:
  assumes "\<And>c. f c = CVM_ADJUST k (CVM_OUT_NONE b c)" and "(b, h) \<in> set cvm_arith_main"
    and "performs h 1 (length (stack_words vs)) g" and "g (stack_words vs) = map_sum id stack_words r" and "growth k vs r"
  shows "compiles cfg f vs r"
  using in_main_switch [of b h] assms arith_in_switch(2) [OF assms(2)]
  by (intro compiles_main [OF gen_op [OF assms(1)], where h = h and g = g]) auto

lemma int32_compiles:
  assumes "platform32 p" "t1 \<in> {T_I4, T_I}" "t2 \<in> {T_I4, T_I}" "map_of il_int32 opcode = Some g"
  shows "compiles cfg (arith_coder p opcode t1 t2) [W b, W a] (map_sum id (\<lambda>r. [W r]) (g a b))"
proof -
  obtain op h where e: "(op, h) \<in> set int32_code" "\<And>c. arith_coder p opcode t1 t2 c = CVM_ADJUST (- 1) (CVM_OUT_NONE op c)"
    "performs h 1 2 (spec2 g)"
    using table_entry [OF int32_gen [OF assms(1-3)] int32_performs assms(4)] by metis
  then show ?thesis
    using arith_in_switch(1) by (cases "g a b"; intro arith_compiles [where h = h and g = "spec2 g"])
      (auto simp: spec2_def growth_def numeral_2_eq_2)
qed

lemma int64_compiles:
  assumes "platform32 p" "map_of il_int64 opcode = Some g"
  shows "compiles cfg (arith_coder p opcode T_I8 T_I8) [L b, L a] (map_sum id (\<lambda>r. [L r]) (g a b))"
proof -
  obtain op h where e: "(op, h) \<in> set int64_code" "\<And>c. arith_coder p opcode T_I8 T_I8 c = CVM_ADJUST (- 2) (CVM_OUT_NONE op c)"
    "performs h 1 4 (lspec2 g)"
    using table_entry [OF int64_gen [OF assms(1)] int64_performs assms(2)] by metis
  then show ?thesis
    using arith_in_switch(1) by (cases "g a b"; intro arith_compiles [where h = h and g = "lspec2 g"])
      (auto simp: lspec2_def growth_def numeral_eq_Suc)
qed

lemma shift64_compiles:
  assumes "platform32 p" "t2 \<in> {T_I4, T_I}" "map_of il_shift64 opcode = Some g"
  shows "compiles cfg (arith_coder p opcode T_I8 t2) [W n, L a] (Inr [L (g a n)])"
proof -
  obtain op h where e: "(op, h) \<in> set shift64_code" "\<And>c. arith_coder p opcode T_I8 t2 c = CVM_ADJUST (- 1) (CVM_OUT_NONE op c)"
    "performs h 1 3 (lspec_shift g)"
    using table_entry [OF shift64_gen [OF assms(1,2)] shift64_performs assms(3)] by metis
  then show ?thesis
    using arith_in_switch(1) by (intro arith_compiles [where h = h and g = "lspec_shift g"])
      (auto simp: lspec_shift_def growth_def numeral_eq_Suc Let_def)
qed

section \<open>Conversions\<close>

lemma prefix_switch_distinct: "distinct (map fst (prefix_switch cfg))"
proof -
  have "map fst (prefix_switch cfg) = [0x5C, 0x8D] @ map fst cvm_conv_prefix @ map fst cvm_compare_prefix @
      [0x6D, 0x7B, 0x7C, 0x83, 0x5B, 0x8B]"
    by (simp add: prefix_switch_def cvm_stack_prefix_def cvm_inline_prefix_def)
  then show ?thesis unfolding cvm_conv_prefix_def cvm_compare_prefix_def list.map fst_conv by (simp only:) code_simp
qed

text \<open>One conversion instruction.\<close>

lemma conv_main_executes:
  assumes "(b, h) \<in> set cvm_conv_main" "performs h 1 (length (value_words v)) g" "g (value_words v) = map_sum id value_words r"
    and "\<And>v'. r = Inr v' \<Longrightarrow> length (value_words v') \<le> length (value_words v) + room"
  shows "executes cfg [b] room [v] (map_sum id (\<lambda>x. [x]) r)"
proof -
  have "b \<noteq> 0xFD \<and> b \<noteq> 0xFF" using assms(1) by (auto simp: cvm_conv_main_def)
  then have "\<And>s. code_here s [b] \<Longrightarrow> Interpreter_step cfg s = h s"
    using in_main_switch [of b h] assms(1) step_main [of _ b "[]" h cfg] by blast
  then show ?thesis
    by (cases r) (use assms in \<open>auto intro!: executes_performs [where h = h and f = g]\<close>)
qed

lemma conv_prefix_executes:
  assumes "(b, h) \<in> set cvm_conv_prefix" "performs h 2 (length (value_words v)) g" "g (value_words v) = map_sum id value_words r"
    and "\<And>v'. r = Inr v' \<Longrightarrow> length (value_words v') \<le> length (value_words v) + room"
  shows "executes cfg [0xFF, b] room [v] (map_sum id (\<lambda>x. [x]) r)"
proof -
  have "map_of (prefix_switch cfg) b = Some h"
    using prefix_switch_distinct by (rule map_of_is_SomeI) (use assms(1) in \<open>auto simp: prefix_switch_def\<close>)
  then have "\<And>s. code_here s [0xFF, b] \<Longrightarrow> Interpreter_step cfg s = h s"
    by (intro step_prefix [of _ b "[]"])
  then show ?thesis
    by (cases r) (use assms in \<open>auto intro!: executes_performs [where h = h and f = g]\<close>)
qed

lemma word_to_word:
  "(b, h) \<in> set cvm_conv_main \<Longrightarrow> performs h 1 1 (spec1 (\<lambda>a. Inr (g a))) \<Longrightarrow> executes cfg [b] 0 [W a] (Inr [W (g a)])"
  "(b, h) \<in> set cvm_conv_prefix \<Longrightarrow> performs h 2 1 (spec1 g') \<Longrightarrow> executes cfg [0xFF, b] 0 [W a] (map_sum id (\<lambda>x. [W x]) (g' a))"
proof -
  show "executes cfg [b] 0 [W a] (Inr [W (g a)])" if "(b, h) \<in> set cvm_conv_main" "performs h 1 1 (spec1 (\<lambda>a. Inr (g a)))"
    using conv_main_executes [of b h "W a" _ "Inr (W (g a))" 0 cfg, OF that(1)] that(2) by (force simp: spec1_def)
  show "executes cfg [0xFF, b] 0 [W a] (map_sum id (\<lambda>x. [W x]) (g' a))" if "(b, h) \<in> set cvm_conv_prefix" "performs h 2 1 (spec1 g')"
    using conv_prefix_executes [of b h "W a" "spec1 g'" "map_sum id W (g' a)" 0 cfg, OF that(1)] that(2)
    by (cases "g' a") (auto simp: spec1_def)
qed

lemma word_to_long:
  "(b, h) \<in> set cvm_conv_main \<Longrightarrow> performs h 1 1 (ext_spec (\<lambda>a. Inr (g a))) \<Longrightarrow> executes cfg [b] 1 [W a] (Inr [L (g a)])"
  "(b, h) \<in> set cvm_conv_prefix \<Longrightarrow> performs h 2 1 (ext_spec g') \<Longrightarrow> executes cfg [0xFF, b] 1 [W a] (map_sum id (\<lambda>x. [L x]) (g' a))"
proof -
  show "executes cfg [b] 1 [W a] (Inr [L (g a)])" if "(b, h) \<in> set cvm_conv_main" "performs h 1 1 (ext_spec (\<lambda>a. Inr (g a)))"
    using conv_main_executes [of b h "W a" _ "Inr (L (g a))" 1 cfg, OF that(1)] that(2) by (force simp: ext_spec_def)
  show "executes cfg [0xFF, b] 1 [W a] (map_sum id (\<lambda>x. [L x]) (g' a))" if "(b, h) \<in> set cvm_conv_prefix" "performs h 2 1 (ext_spec g')"
    using conv_prefix_executes [of b h "W a" "ext_spec g'" "map_sum id L (g' a)" 1 cfg, OF that(1)] that(2)
    by (cases "g' a") (auto simp: ext_spec_def)
qed

lemma long_to_word:
  "(b, h) \<in> set cvm_conv_main \<Longrightarrow> performs h 1 2 (narrow_spec (\<lambda>a. Inr (g a))) \<Longrightarrow> executes cfg [b] 0 [L a] (Inr [W (g a)])"
  "(b, h) \<in> set cvm_conv_prefix \<Longrightarrow> performs h 2 2 (narrow_spec g') \<Longrightarrow> executes cfg [0xFF, b] 0 [L a] (map_sum id (\<lambda>x. [W x]) (g' a))"
proof -
  show "executes cfg [b] 0 [L a] (Inr [W (g a)])" if "(b, h) \<in> set cvm_conv_main" "performs h 1 2 (narrow_spec (\<lambda>a. Inr (g a)))"
    using conv_main_executes [of b h "L a" _ "Inr (W (g a))" 0 cfg, OF that(1)] that(2) by (force simp: narrow_spec_def numeral_2_eq_2)
  show "executes cfg [0xFF, b] 0 [L a] (map_sum id (\<lambda>x. [W x]) (g' a))" if "(b, h) \<in> set cvm_conv_prefix" "performs h 2 2 (narrow_spec g')"
    using conv_prefix_executes [of b h "L a" "narrow_spec g'" "map_sum id W (g' a)" 0 cfg, OF that(1)] that(2)
    by (cases "g' a") (auto simp: narrow_spec_def numeral_2_eq_2)
qed

lemma long_to_long:
  assumes "(b, h) \<in> set cvm_conv_prefix" "performs h 2 2 (lspec1 g)"
  shows "executes cfg [0xFF, b] 0 [L a] (map_sum id (\<lambda>x. [L x]) (g a))"
  using conv_prefix_executes [of b h "L a" "lspec1 g" "map_sum id L (g a)" 0 cfg, OF assms(1)] assms(2)
  by (cases "g a") (auto simp: lspec1_def numeral_2_eq_2)

named_theorems stages

text \<open>What every conversion instruction does to a value.\<close>

lemma main_stages [stages]:
  "executes cfg [opc_I2B] 0 [W a] (Inr [W (word_of_int (signed_take_bit 7 (sint a)))])"
  "executes cfg [opc_I2UB] 0 [W a] (Inr [W (word_of_int (take_bit 8 (sint a)))])"
  "executes cfg [opc_I2S] 0 [W a] (Inr [W (word_of_int (signed_take_bit 15 (sint a)))])"
  "executes cfg [opc_I2US] 0 [W a] (Inr [W (word_of_int (take_bit 16 (sint a)))])"
  "executes cfg [opc_I2L] 1 [W a] (Inr [L (word_of_int (sint a))])"
  "executes cfg [opc_IU2L] 1 [W a] (Inr [L (word_of_int (uint a))])"
  "executes cfg [opc_L2I] 0 [L x] (Inr [W (word_of_int (sint x))])"
  by (rule word_to_word(1) [OF _ i2b.performs] word_to_word(1) [OF _ i2ub.performs] word_to_word(1) [OF _ i2s.performs]
      word_to_word(1) [OF _ i2us.performs] word_to_long(1) [OF _ i2l.performs] word_to_long(1) [OF _ iu2l.performs]
      long_to_word(1) [OF _ l2i.performs], simp add: cvm_conv_main_def)+

lemma check_stages [stages]:
  "executes cfg [0xFF, opc_PREFIX_I2B_OVF] 0 [W a] (map_sum id (\<lambda>x. [W x]) (in_range32 (- 128) 127 (sint a)))"
  "executes cfg [0xFF, opc_PREFIX_IU2B_OVF] 0 [W a] (map_sum id (\<lambda>x. [W x]) (in_range32 (- 128) 127 (uint a)))"
  "executes cfg [0xFF, opc_PREFIX_I2UB_OVF] 0 [W a] (map_sum id (\<lambda>x. [W x]) (in_range32 0 255 (sint a)))"
  "executes cfg [0xFF, opc_PREFIX_IU2UB_OVF] 0 [W a] (map_sum id (\<lambda>x. [W x]) (in_range32 0 255 (uint a)))"
  "executes cfg [0xFF, opc_PREFIX_I2S_OVF] 0 [W a] (map_sum id (\<lambda>x. [W x]) (in_range32 (- 32768) 32767 (sint a)))"
  "executes cfg [0xFF, opc_PREFIX_IU2S_OVF] 0 [W a] (map_sum id (\<lambda>x. [W x]) (in_range32 (- 32768) 32767 (uint a)))"
  "executes cfg [0xFF, opc_PREFIX_I2US_OVF] 0 [W a] (map_sum id (\<lambda>x. [W x]) (in_range32 0 65535 (sint a)))"
  "executes cfg [0xFF, opc_PREFIX_IU2US_OVF] 0 [W a] (map_sum id (\<lambda>x. [W x]) (in_range32 0 65535 (uint a)))"
  "executes cfg [0xFF, opc_PREFIX_I2IU_OVF] 0 [W a] (map_sum id (\<lambda>x. [W x]) (in_range32 0 (2 ^ 32 - 1) (sint a)))"
  "executes cfg [0xFF, opc_PREFIX_IU2I_OVF] 0 [W a] (map_sum id (\<lambda>x. [W x]) (in_range32 (- (2 ^ 31)) (2 ^ 31 - 1) (uint a)))"
  "executes cfg [0xFF, opc_PREFIX_I2UL_OVF] 1 [W a] (map_sum id (\<lambda>x. [L x]) (in_range64 0 (2 ^ 64 - 1) (sint a)))"
  "executes cfg [0xFF, opc_PREFIX_L2I_OVF] 0 [L y] (map_sum id (\<lambda>x. [W x]) (in_range32 (- (2 ^ 31)) (2 ^ 31 - 1) (sint y)))"
  "executes cfg [0xFF, opc_PREFIX_L2UI_OVF] 0 [L y] (map_sum id (\<lambda>x. [W x]) (in_range32 0 (2 ^ 32 - 1) (sint y)))"
  "executes cfg [0xFF, opc_PREFIX_LU2I_OVF] 0 [L y] (map_sum id (\<lambda>x. [W x]) (in_range32 (- (2 ^ 31)) (2 ^ 31 - 1) (uint y)))"
  "executes cfg [0xFF, opc_PREFIX_LU2IU_OVF] 0 [L y] (map_sum id (\<lambda>x. [W x]) (in_range32 0 (2 ^ 32 - 1) (uint y)))"
  "executes cfg [0xFF, opc_PREFIX_L2UL_OVF] 0 [L y] (map_sum id (\<lambda>x. [L x]) (in_range64 0 (2 ^ 64 - 1) (sint y)))"
  "executes cfg [0xFF, opc_PREFIX_LU2L_OVF] 0 [L y] (map_sum id (\<lambda>x. [L x]) (in_range64 (- (2 ^ 63)) (2 ^ 63 - 1) (uint y)))"
  by (rule word_to_word(2) [OF _ i2b_ovf.performs]
      word_to_word(2) [OF _ iu2b_ovf.performs]
      word_to_word(2) [OF _ i2ub_ovf.performs]
      word_to_word(2) [OF _ iu2ub_ovf.performs]
      word_to_word(2) [OF _ i2s_ovf.performs]
      word_to_word(2) [OF _ iu2s_ovf.performs]
      word_to_word(2) [OF _ i2us_ovf.performs]
      word_to_word(2) [OF _ iu2us_ovf.performs]
      word_to_word(2) [OF _ i2iu_ovf.performs]
      word_to_word(2) [OF _ iu2i_ovf.performs]
      word_to_long(2) [OF _ i2ul_ovf.performs]
      long_to_word(2) [OF _ l2i_ovf.performs]
      long_to_word(2) [OF _ l2ui_ovf.performs]
      long_to_word(2) [OF _ lu2i_ovf.performs]
      long_to_word(2) [OF _ lu2iu_ovf.performs]
      long_to_long [OF _ l2ul_ovf.performs]
      long_to_long [OF _ lu2l_ovf.performs],
      simp add: cvm_conv_prefix_def)+

text \<open>Coder statements of one and of two conversion instructions.\<close>

lemma compilesI: "gen f bs k \<Longrightarrow> executes cfg bs (nat k) vs r \<Longrightarrow> compiles cfg f vs r"
  by (auto simp: compiles_def)

lemma compiles_none: "compiles cfg (emit []) vs (Inr vs)"
  by (rule compilesI [OF gen_Nil]) (simp add: executes_nothing)

lemma compiles_one:
  "executes cfg bs 0 vs r \<Longrightarrow> gen g bs 0 \<Longrightarrow> compiles cfg (emit [g]) vs r"
  "executes cfg bs 1 vs r \<Longrightarrow> gen g bs 0 \<Longrightarrow> compiles cfg (emit [g, CVM_ADJUST 1]) vs r"
  "executes cfg bs 0 vs r \<Longrightarrow> gen g bs 0 \<Longrightarrow> compiles cfg (emit [g, CVM_ADJUST (- 1)]) vs r"
proof -
  have adj: "gen (emit [g, CVM_ADJUST k]) bs k" if "gen g bs 0" for k
    by (rule gen_emit [OF that gen_emit [OF gen_ADJUST gen_Nil]]) simp_all
  have one: "gen (emit [g]) bs 0" if "gen g bs 0" by (rule gen_emit [OF that gen_Nil]) simp_all
  show "compiles cfg (emit [g]) vs r" if "executes cfg bs 0 vs r" "gen g bs 0"
    using compilesI [OF one [OF that(2)]] that(1) by simp
  show "compiles cfg (emit [g, CVM_ADJUST 1]) vs r" if "executes cfg bs 1 vs r" "gen g bs 0"
    using compilesI [OF adj [OF that(2), of 1]] that(1) by simp
  show "compiles cfg (emit [g, CVM_ADJUST (- 1)]) vs r" if "executes cfg bs 0 vs r" "gen g bs 0"
    using compilesI [OF adj [OF that(2), of "- 1"]] that(1) by simp
qed

lemma compiles_two:
  assumes "executes cfg bs 0 [v] (map_sum id (\<lambda>x. [W x]) r)" "gen g bs 0"
    and "\<And>x. executes cfg bs' 0 [W x] (map_sum id (\<lambda>x. [W x]) (r' x))" "gen g' bs' 0"
  shows "compiles cfg (emit [g, g', CVM_ADJUST (- 1)]) [v] (map_sum id (\<lambda>x. [W x]) (case r of Inl e \<Rightarrow> Inl e | Inr x \<Rightarrow> r' x))"
proof (rule compilesI)
  show "gen (emit [g, g', CVM_ADJUST (- 1)]) (bs @ bs') (- 1)"
    by (rule gen_emit [OF assms(2) gen_emit [OF assms(4) gen_emit [OF gen_ADJUST gen_Nil]]]) simp_all
  show "executes cfg (bs @ bs') (nat (- 1)) [v] (map_sum id (\<lambda>x. [W x]) (case r of Inl e \<Rightarrow> Inl e | Inr x \<Rightarrow> r' x))"
    using assms(1,3) by (cases r; cases v) (auto intro: executes_append executes_raise)
qed

text \<open>Ranges: a check after a wider one, and checks that always succeed.\<close>

lemma range_after_range:
  assumes "- (2 ^ 31) \<le> lo" "hi \<le> 2 ^ 31 - 1"
  shows "(case in_range32 (- (2 ^ 31)) (2 ^ 31 - 1) i of Inl e \<Rightarrow> Inl e | Inr x \<Rightarrow> in_range32 lo hi (sint x)) = in_range32 lo hi i"
proof -
  have "- (2 ^ 31) \<le> i \<Longrightarrow> i \<le> 2 ^ 31 - 1 \<Longrightarrow> sint (word_of_int i :: u32) = i"
    by (subst sint_wrap_32) simp_all
  with assms show ?thesis by (auto simp: in_range32_def)
qed

lemma urange_after_range:
  assumes "0 \<le> lo" "hi \<le> 2 ^ 32 - 1"
  shows "(case in_range32 0 (2 ^ 32 - 1) i of Inl e \<Rightarrow> Inl e | Inr x \<Rightarrow> in_range32 lo hi (uint x)) = in_range32 lo hi i"
proof -
  have "0 \<le> i \<Longrightarrow> i \<le> 2 ^ 32 - 1 \<Longrightarrow> uint (word_of_int i :: u32) = i" by (simp add: uint_word_of_int)
  with assms show ?thesis by (auto simp: in_range32_def)
qed

lemma range_always:
  "in_range32 (- (2 ^ 31)) (2 ^ 31 - 1) (sint (a :: u32)) = Inr a" "in_range32 0 (2 ^ 32 - 1) (uint a) = Inr a"
  "in_range64 (- (2 ^ 63)) (2 ^ 63 - 1) (uint a) = Inr (word_of_int (uint a))"
  "in_range64 0 (2 ^ 64 - 1) (uint a) = Inr (word_of_int (uint a))"
  "in_range64 0 (2 ^ 64 - 1) (uint (y :: u64)) = Inr y"
  using sint_range_size [of a] uint_bounded [of a] uint_bounded [of y]
  by (auto simp: in_range32_def in_range64_def word_size uint_lower)

lemma narrow_twice:
  "word_of_int (signed_take_bit 7 (sint (word_of_int i :: u32))) = (word_of_int (signed_take_bit 7 i) :: u32)"
  "word_of_int (signed_take_bit 15 (sint (word_of_int i :: u32))) = (word_of_int (signed_take_bit 15 i) :: u32)"
  "word_of_int (take_bit 8 (sint (word_of_int i :: u32))) = (word_of_int (take_bit 8 i) :: u32)"
  "word_of_int (take_bit 16 (sint (word_of_int i :: u32))) = (word_of_int (take_bit 16 i) :: u32)"
  by (simp_all add: sint_sbintrunc' signed_take_bit_signed_take_bit take_bit_signed_take_bit)

text \<open>Every conversion of a one-word and of a two-word value.\<close>

lemma wrap_result: "map_sum id (\<lambda>x. [x]) (map_sum id c r) = map_sum id (\<lambda>x. [c x]) r"
  by (cases r) simp_all

lemmas word_conversions =
  main_stages(1-4) [THEN compiles_one(1), OF gen_NONE] main_stages(5,6) [THEN compiles_one(2), OF gen_NONE]
  check_stages(1-10) [THEN compiles_one(1), OF gen_PREFIX] check_stages(11) [THEN compiles_one(2), OF gen_PREFIX]

lemma conv_word_compiles:
  assumes "platform32 p" "t \<in> {T_I4, T_I}"
  shows "list_all (\<lambda>(opcode, target). compiles cfg (CVMCoder_Conv p opcode t) [W a] (map_sum id (\<lambda>x. [x]) (il_convert target (W a))))
    il_conversions"
proof -
  have coder: "CVMCoder_Conv p opcode t = conv_plain p opcode T_I4" for opcode
    using assms by (auto simp: CVMCoder_Conv_def platform32_def)
  show ?thesis
    unfolding coder using assms(1) unfolding platform32_def
    by (simp add: il_conversions_def conv_plain_def conv_ovf_unsigned_def conv_ovf_signed_def conv_case_def
        wrap_result range_always [simplified] compiles_none word_conversions [simplified])
qed

lemma compiles_plain_pair:
  assumes "executes cfg bs 0 [v] (Inr [W x])" "gen g bs 0" "\<And>x. executes cfg bs' 0 [W x] (Inr [W (h x)])" "gen g' bs' 0"
  shows "compiles cfg (emit [g, g', CVM_ADJUST (- 1)]) [v] (Inr [W (h x)])"
  using compiles_two [of cfg bs v "Inr x" g bs' "\<lambda>x. Inr (h x)" g'] assms by simp

lemmas plain_pairs =
  compiles_plain_pair [OF main_stages(7) gen_NONE main_stages(1) gen_NONE] compiles_plain_pair [OF main_stages(7) gen_NONE main_stages(2) gen_NONE]
  compiles_plain_pair [OF main_stages(7) gen_NONE main_stages(3) gen_NONE] compiles_plain_pair [OF main_stages(7) gen_NONE main_stages(4) gen_NONE]

lemma checked_pairs:
  "compiles cfg (emit [CVMP_OUT_NONE opc_PREFIX_L2I_OVF, CVMP_OUT_NONE opc_PREFIX_I2B_OVF, CVM_ADJUST (- 1)]) [L y] (map_sum id (\<lambda>x. [W x]) (in_range32 (- 128) 127 (sint y)))"
  "compiles cfg (emit [CVMP_OUT_NONE opc_PREFIX_L2I_OVF, CVMP_OUT_NONE opc_PREFIX_I2UB_OVF, CVM_ADJUST (- 1)]) [L y] (map_sum id (\<lambda>x. [W x]) (in_range32 0 255 (sint y)))"
  "compiles cfg (emit [CVMP_OUT_NONE opc_PREFIX_L2I_OVF, CVMP_OUT_NONE opc_PREFIX_I2S_OVF, CVM_ADJUST (- 1)]) [L y] (map_sum id (\<lambda>x. [W x]) (in_range32 (- 32768) 32767 (sint y)))"
  "compiles cfg (emit [CVMP_OUT_NONE opc_PREFIX_L2I_OVF, CVMP_OUT_NONE opc_PREFIX_I2US_OVF, CVM_ADJUST (- 1)]) [L y] (map_sum id (\<lambda>x. [W x]) (in_range32 0 65535 (sint y)))"
  "compiles cfg (emit [CVMP_OUT_NONE opc_PREFIX_LU2I_OVF, CVMP_OUT_NONE opc_PREFIX_I2B_OVF, CVM_ADJUST (- 1)]) [L y] (map_sum id (\<lambda>x. [W x]) (in_range32 (- 128) 127 (uint y)))"
  "compiles cfg (emit [CVMP_OUT_NONE opc_PREFIX_LU2I_OVF, CVMP_OUT_NONE opc_PREFIX_I2S_OVF, CVM_ADJUST (- 1)]) [L y] (map_sum id (\<lambda>x. [W x]) (in_range32 (- 32768) 32767 (uint y)))"
  "compiles cfg (emit [CVMP_OUT_NONE opc_PREFIX_LU2IU_OVF, CVMP_OUT_NONE opc_PREFIX_IU2UB_OVF, CVM_ADJUST (- 1)]) [L y] (map_sum id (\<lambda>x. [W x]) (in_range32 0 255 (uint y)))"
  "compiles cfg (emit [CVMP_OUT_NONE opc_PREFIX_LU2IU_OVF, CVMP_OUT_NONE opc_PREFIX_IU2US_OVF, CVM_ADJUST (- 1)]) [L y] (map_sum id (\<lambda>x. [W x]) (in_range32 0 65535 (uint y)))"
proof -
  have r: "(case in_range32 (- (2 ^ 31)) (2 ^ 31 - 1) i of Inl e \<Rightarrow> Inl e | Inr x \<Rightarrow> in_range32 (- 128) 127 (sint x)) = in_range32 (- 128) 127 i"
    "(case in_range32 (- (2 ^ 31)) (2 ^ 31 - 1) i of Inl e \<Rightarrow> Inl e | Inr x \<Rightarrow> in_range32 0 255 (sint x)) = in_range32 0 255 i"
    "(case in_range32 (- (2 ^ 31)) (2 ^ 31 - 1) i of Inl e \<Rightarrow> Inl e | Inr x \<Rightarrow> in_range32 (- 32768) 32767 (sint x)) = in_range32 (- 32768) 32767 i"
    "(case in_range32 (- (2 ^ 31)) (2 ^ 31 - 1) i of Inl e \<Rightarrow> Inl e | Inr x \<Rightarrow> in_range32 0 65535 (sint x)) = in_range32 0 65535 i"
    "(case in_range32 0 (2 ^ 32 - 1) i of Inl e \<Rightarrow> Inl e | Inr x \<Rightarrow> in_range32 0 255 (uint x)) = in_range32 0 255 i"
    "(case in_range32 0 (2 ^ 32 - 1) i of Inl e \<Rightarrow> Inl e | Inr x \<Rightarrow> in_range32 0 65535 (uint x)) = in_range32 0 65535 i" for i
    by (rule range_after_range urange_after_range; simp)+
  show "compiles cfg (emit [CVMP_OUT_NONE opc_PREFIX_L2I_OVF, CVMP_OUT_NONE opc_PREFIX_I2B_OVF, CVM_ADJUST (- 1)]) [L y] (map_sum id (\<lambda>x. [W x]) (in_range32 (- 128) 127 (sint y)))"
    using compiles_two [OF check_stages(12) gen_PREFIX check_stages(1) gen_PREFIX, of cfg y] unfolding r .
  show "compiles cfg (emit [CVMP_OUT_NONE opc_PREFIX_L2I_OVF, CVMP_OUT_NONE opc_PREFIX_I2UB_OVF, CVM_ADJUST (- 1)]) [L y] (map_sum id (\<lambda>x. [W x]) (in_range32 0 255 (sint y)))"
    using compiles_two [OF check_stages(12) gen_PREFIX check_stages(3) gen_PREFIX, of cfg y] unfolding r .
  show "compiles cfg (emit [CVMP_OUT_NONE opc_PREFIX_L2I_OVF, CVMP_OUT_NONE opc_PREFIX_I2S_OVF, CVM_ADJUST (- 1)]) [L y] (map_sum id (\<lambda>x. [W x]) (in_range32 (- 32768) 32767 (sint y)))"
    using compiles_two [OF check_stages(12) gen_PREFIX check_stages(5) gen_PREFIX, of cfg y] unfolding r .
  show "compiles cfg (emit [CVMP_OUT_NONE opc_PREFIX_L2I_OVF, CVMP_OUT_NONE opc_PREFIX_I2US_OVF, CVM_ADJUST (- 1)]) [L y] (map_sum id (\<lambda>x. [W x]) (in_range32 0 65535 (sint y)))"
    using compiles_two [OF check_stages(12) gen_PREFIX check_stages(7) gen_PREFIX, of cfg y] unfolding r .
  show "compiles cfg (emit [CVMP_OUT_NONE opc_PREFIX_LU2I_OVF, CVMP_OUT_NONE opc_PREFIX_I2B_OVF, CVM_ADJUST (- 1)]) [L y] (map_sum id (\<lambda>x. [W x]) (in_range32 (- 128) 127 (uint y)))"
    using compiles_two [OF check_stages(14) gen_PREFIX check_stages(1) gen_PREFIX, of cfg y] unfolding r .
  show "compiles cfg (emit [CVMP_OUT_NONE opc_PREFIX_LU2I_OVF, CVMP_OUT_NONE opc_PREFIX_I2S_OVF, CVM_ADJUST (- 1)]) [L y] (map_sum id (\<lambda>x. [W x]) (in_range32 (- 32768) 32767 (uint y)))"
    using compiles_two [OF check_stages(14) gen_PREFIX check_stages(5) gen_PREFIX, of cfg y] unfolding r .
  show "compiles cfg (emit [CVMP_OUT_NONE opc_PREFIX_LU2IU_OVF, CVMP_OUT_NONE opc_PREFIX_IU2UB_OVF, CVM_ADJUST (- 1)]) [L y] (map_sum id (\<lambda>x. [W x]) (in_range32 0 255 (uint y)))"
    using compiles_two [OF check_stages(15) gen_PREFIX check_stages(4) gen_PREFIX, of cfg y] unfolding r .
  show "compiles cfg (emit [CVMP_OUT_NONE opc_PREFIX_LU2IU_OVF, CVMP_OUT_NONE opc_PREFIX_IU2US_OVF, CVM_ADJUST (- 1)]) [L y] (map_sum id (\<lambda>x. [W x]) (in_range32 0 65535 (uint y)))"
    using compiles_two [OF check_stages(15) gen_PREFIX check_stages(8) gen_PREFIX, of cfg y] unfolding r .
qed

lemmas long_conversions =
  main_stages(7) [THEN compiles_one(3), OF gen_NONE] check_stages(12-15) [THEN compiles_one(3), OF gen_PREFIX]
  check_stages(16,17) [THEN compiles_one(1), OF gen_PREFIX] plain_pairs [unfolded narrow_twice] checked_pairs

lemma conv_long_compiles:
  assumes "platform32 p"
  shows "list_all (\<lambda>(opcode, target). compiles cfg (CVMCoder_Conv p opcode T_I8) [L y] (map_sum id (\<lambda>x. [x]) (il_convert target (L y))))
    il_conversions"
proof -
  have coder: "CVMCoder_Conv p opcode T_I8 = conv_plain p opcode T_I8" for opcode by (simp add: CVMCoder_Conv_def)
  show ?thesis
    unfolding coder using assms unfolding platform32_def
    by (simp add: il_conversions_def conv_plain_def conv_ovf_unsigned_def conv_ovf_signed_def conv_case_def
        wrap_result range_always [simplified] compiles_none long_conversions [simplified])
qed

section \<open>Unary operations, constants and stack manipulation\<close>

lemma unary_compiles:
  assumes "platform32 p" "opcode \<in> {IL_OP_NEG, IL_OP_NOT}" "fits i v" "engineType i \<in> {T_I4, T_I8, T_I}"
  shows "\<exists>r. il_unary opcode v = Some r \<and> compiles cfg (CVMCoder_Unary p opcode (engineType i)) [v] (Inr [r])"
proof -
  have u: "compiles cfg (CVM_OUT_NONE b) [v] (Inr [r])"
    if "(b, h) \<in> set cvm_arith_main" "performs h 1 (length (value_words v)) g" "g (value_words v) = Inr (value_words r)"
      "length (value_words r) = length (value_words v)" for b h g r
    using that in_main_switch [of b h] arith_in_switch(2) [OF that(1)]
    by (intro compiles_main [OF gen_NONE, where h = h and g = g]) (auto simp: growth_def)
  show ?thesis
  proof (cases v)
    case (W a)
    have "compiles cfg (CVM_OUT_NONE opc_INEG) [W a] (Inr [W (- a)])" "compiles cfg (CVM_OUT_NONE opc_INOT) [W a] (Inr [W (NOT a)])"
      using u [of opc_INEG COP_INEG _ "W (- a)"] ineg.performs u [of opc_INOT COP_INOT _ "W (NOT a)"] inot.performs
      by (auto simp: W spec1_def cvm_arith_main_def)
    with assms W show ?thesis by (auto simp: CVMCoder_Unary_def platform32_def)
  next
    case (L a)
    have "compiles cfg (CVM_OUT_NONE opc_LNEG) [L a] (Inr [L (- a)])" "compiles cfg (CVM_OUT_NONE opc_LNOT) [L a] (Inr [L (NOT a)])"
      using u [of opc_LNEG COP_LNEG _ "L (- a)"] lneg.performs u [of opc_LNOT COP_LNOT _ "L (NOT a)"] lnot.performs
      by (auto simp: L lspec1_def cvm_arith_main_def numeral_2_eq_2)
    with assms L show ?thesis by (auto simp: CVMCoder_Unary_def platform32_def)
  qed
qed

text \<open>Pushing a word and a double word.\<close>

lemma executes_pushes:
  assumes step: "\<And>s. code_here s bs \<Longrightarrow> Interpreter_step cfg s = h s"
    and h: "pushes h (int (length bs)) v" and v: "\<And>s. code_here s bs \<Longrightarrow> v s = Some x"
  shows "executes cfg bs 1 [] (Inr [W x])"
  unfolding executes_def
proof (intro allI impI)
  fix s base spare
  assume sp: "split_at s base (stack_words []) spare" and c: "code_here s bs" and "1 \<le> length spare"
  then obtain y spare' where spare: "spare = y # spare'" by (cases spare) auto
  have "h s = Some (Next (s\<lparr>pc := pc s + int (length bs), stacktop := int (length base) + 1, stack := base @ x # spare'\<rparr>))"
    using h [unfolded pushes_def, rule_format, OF v [OF c]] sp by (simp add: split_at_def spare)
  with runs_one [of cfg s] step [OF c]
  show "case Inr [W x] of
      Inl e \<Rightarrow> \<exists>t u. runs cfg s t \<and> Interpreter_step cfg t = Some (Throw e u)
    | Inr vs' \<Rightarrow> \<exists>spare'. length (stack_words vs') + length spare' = length (stack_words []) + length spare \<and>
        runs cfg s (s\<lparr>pc := pc s + int (length bs), stacktop := int (length base) + int (length (stack_words vs')),
          stack := base @ stack_words vs' @ spare'\<rparr>)"
    by (auto simp: spare intro!: exI [of _ spare'])
qed

lemma executes_pushes_long:
  assumes step: "\<And>s. code_here s bs \<Longrightarrow> Interpreter_step cfg s = h s"
    and h: "pushes_long h (int (length bs)) v" and v: "\<And>s. code_here s bs \<Longrightarrow> v s = Some x"
  shows "executes cfg bs 2 [] (Inr [L x])"
  unfolding executes_def
proof (intro allI impI)
  fix s base spare
  assume sp: "split_at s base (stack_words []) spare" and c: "code_here s bs" and "2 \<le> length spare"
  then obtain y z spare' where spare: "spare = y # z # spare'" by (auto simp: Suc_le_length_iff numeral_2_eq_2)
  have "h s = Some (Next (s\<lparr>pc := pc s + int (length bs), stacktop := int (length base) + 2, stack := base @ lo32 x # hi32 x # spare'\<rparr>))"
    using h [unfolded pushes_long_def, rule_format, OF v [OF c]] sp by (simp add: split_at_def spare nat_add_distrib list_update_append)
  with runs_one [of cfg s] step [OF c]
  show "case Inr [L x] of
      Inl e \<Rightarrow> \<exists>t u. runs cfg s t \<and> Interpreter_step cfg t = Some (Throw e u)
    | Inr vs' \<Rightarrow> \<exists>spare'. length (stack_words vs') + length spare' = length (stack_words []) + length spare \<and>
        runs cfg s (s\<lparr>pc := pc s + int (length bs), stacktop := int (length base) + int (length (stack_words vs')),
          stack := base @ stack_words vs' @ spare'\<rparr>)"
    by (auto simp: spare intro!: exI [of _ spare'])
qed

lemma length_le_bytes: "length (le_bytes n v) = n"
  by (simp add: le_bytes_def)

lemma le32_le_bytes: "le32 (le_bytes 4 v) = (v :: u32)"
proof (rule bit_word_eqI)
  fix n
  assume "n < LENGTH(32)"
  then consider "n < 8" | "8 \<le> n" "n < 16" | "16 \<le> n" "n < 24" | "24 \<le> n" "n < 32" by fastforce
  then show "bit (le32 (le_bytes 4 v)) n = bit v n" by cases (auto simp: bit_simps le_bytes_def le32_def)
qed

lemma code_here_read32:
  assumes "code_here s bs" "i + 4 \<le> length bs"
  shows "IL_READ_UINT32 (pc s + int i) s = Some (le32 (drop i bs))"
proof -
  have "code_at (pc s + int i + int k) s = Some (bs ! (i + k))" if "k < 4" for k
    using code_here_at [OF assms(1), of "i + k"] that assms(2) by (simp add: add.assoc)
  from this [of 0] this [of 1] this [of 2] this [of 3] assms(2) show ?thesis by (simp add: IL_READ_UINT32_def le32_def)
qed

lemma const_main_step:
  assumes "(b, h) \<in> set cvm_const_main" "code_here s (b # bs)"
  shows "Interpreter_step cfg s = h s"
proof -
  have "b \<noteq> 0xFD \<and> b \<noteq> 0xFF" using assms(1) by (auto simp: cvm_const_main_def)
  with in_main_switch [of b h] assms step_main [of s b bs h cfg] show ?thesis by blast
qed

lemma small_constants:
  "list_all (\<lambda>(k, b, h). (b, h) \<in> set cvm_const_main \<and> pushes h 1 (\<lambda>_. Some (word_of_int k)))
    [(-1, 0x92, COP_LDC_I4_M1), (0, 0x93, COP_LDC_I4_0), (1, 0x94, COP_LDC_I4_1), (2, 0x95, COP_LDC_I4_2), (3, 0x96, COP_LDC_I4_3),
     (4, 0x97, COP_LDC_I4_4), (5, 0x98, COP_LDC_I4_5), (6, 0x99, COP_LDC_I4_6), (7, 0x9A, COP_LDC_I4_7), (8, 0x9B, COP_LDC_I4_8)]"
  using ldc_i4_m1.pushes ldc_i4_0.pushes ldc_i4_1.pushes ldc_i4_2.pushes ldc_i4_3.pushes ldc_i4_4.pushes ldc_i4_5.pushes
    ldc_i4_6.pushes ldc_i4_7.pushes ldc_i4_8.pushes by (simp add: cvm_const_main_def)

lemma small_constant_compiles:
  assumes "(b, h) \<in> set cvm_const_main" "pushes h 1 (\<lambda>_. Some x)"
  shows "compiles cfg (emit [CVM_OUT_NONE b, CVM_ADJUST 1]) [] (Inr [W x])"
proof (rule compiles_one(2) [OF _ gen_NONE])
  show "executes cfg [b] 1 [] (Inr [W x])"
    using const_main_step [OF assms(1), of _ "[]"] assms(2) by (intro executes_pushes [where h = h and v = "\<lambda>_. Some x"]) auto
qed

lemma short_constant_compiles:
  assumes "opcode \<in> {IL_OP_LDNULL..IL_OP_LDC_I4_8}" "il_constant opcode arg = Some v"
  shows "compiles cfg (CVMCoder_Constant p opcode arg) [] (Inr [v])"
proof -
  have null: "compiles cfg (emit [CVM_OUT_NONE opc_LDNULL, CVM_ADJUST 1]) [] (Inr [W 0])"
    using ldnull.pushes by (intro small_constant_compiles [where h = COP_LDNULL]) (auto simp: cvm_const_main_def)
  have "list_all (\<lambda>(k, b, h :: handler). compiles cfg (emit [CVM_OUT_NONE b, CVM_ADJUST 1]) [] (Inr [W (word_of_int k)]))
    [(-1, 0x92, COP_LDC_I4_M1), (0, 0x93, COP_LDC_I4_0), (1, 0x94, COP_LDC_I4_1), (2, 0x95, COP_LDC_I4_2), (3, 0x96, COP_LDC_I4_3),
     (4, 0x97, COP_LDC_I4_4), (5, 0x98, COP_LDC_I4_5), (6, 0x99, COP_LDC_I4_6), (7, 0x9A, COP_LDC_I4_7), (8, 0x9B, COP_LDC_I4_8)]"
    by (rule list.pred_mono_strong [OF small_constants]) (auto intro: small_constant_compiles)
  note small = this [simplified]
  have "list_all (\<lambda>opcode. \<forall>v. il_constant opcode arg = Some v \<longrightarrow> compiles cfg (CVMCoder_Constant p opcode arg) [] (Inr [v])) [0x14..<0x1F]"
    by (simp add: il_constant_def CVMCoder_Constant_def null small)
  moreover have "opcode \<in> set [0x14..<0x1F]" using assms(1) unfolding set_upt by simp
  ultimately show ?thesis using assms(2) unfolding list_all_iff by blast
qed

lemma constant_compiles:
  assumes "platform32 p" "il_constant opcode arg = Some v"
    and "opcode = IL_OP_LDC_I4_S \<longrightarrow> 1 \<le> length arg" "opcode = IL_OP_LDC_I4 \<longrightarrow> 4 \<le> length arg" "opcode = IL_OP_LDC_I8 \<longrightarrow> 8 \<le> length arg"
  shows "compiles cfg (CVMCoder_Constant p opcode arg) [] (Inr [v])"
proof -
  consider "opcode \<in> {IL_OP_LDNULL..IL_OP_LDC_I4_8}" | "opcode = IL_OP_LDC_I4_S" "v = W (word_of_int (sint (arg ! 0)))"
    | "opcode = IL_OP_LDC_I4" "v = W (le32 arg)" | "opcode = IL_OP_LDC_I8" "v = L (long_of (le32 arg) (le32 (drop 4 arg)))"
    using assms(2) by (auto simp: il_constant_def split: if_splits)
  then show ?thesis
  proof cases
    case 1
    then show ?thesis using assms(2) by (rule short_constant_compiles)
  next
    case 2
    have "executes cfg [opc_LDC_I4_S, arg ! 0] 1 [] (Inr [v])"
      unfolding 2(2)
    proof (rule executes_pushes [where h = COP_LDC_I4_S and v = CVM_ARG_SBYTE])
      show "Interpreter_step cfg s = COP_LDC_I4_S s" if "code_here s [opc_LDC_I4_S, arg ! 0]" for s
        using that by (rule const_main_step [rotated]) (simp add: cvm_const_main_def)
    qed (use ldc_i4_s.pushes in \<open>auto simp: CVM_ARG_SBYTE_def code_here_first\<close>)
    with 2(1) compiles_one(2) [OF _ gen_BYTE] show ?thesis by (simp add: CVMCoder_Constant_def)
  next
    case 3
    have "executes cfg (opc_LDC_I4 # le_bytes 4 (le32 arg)) 1 [] (Inr [v])"
      unfolding 3(2)
    proof (rule executes_pushes [where h = COP_LDC_I4 and v = CVM_ARG_WORD])
      show "Interpreter_step cfg s = COP_LDC_I4 s" if "code_here s (opc_LDC_I4 # le_bytes 4 (le32 arg))" for s
        using that by (rule const_main_step [rotated]) (simp add: cvm_const_main_def)
      show "CVM_ARG_WORD s = Some (le32 arg)" if "code_here s (opc_LDC_I4 # le_bytes 4 (le32 arg))" for s
        using code_here_read32 [OF that, of 1] by (simp add: CVM_ARG_WORD_def le32_le_bytes length_le_bytes)
    qed (use ldc_i4.pushes in \<open>simp add: length_le_bytes\<close>)
    with 3(1) compiles_one(2) [OF _ gen_WORD] show ?thesis by (simp add: CVMCoder_Constant_def le32_def)
  next
    case 4
    let ?bs = "map (\<lambda>i. arg ! i) [0..<8]"
    have bs: "?bs = take 8 arg" using 4(1) assms(5) by (simp add: list_eq_iff_nth_eq)
    have "executes cfg (opc_LDC_I8 # ?bs) 2 [] (Inr [v])"
      unfolding 4(2)
    proof (rule executes_pushes_long [where h = COP_LDC_I8 and v = CVM_ARG_LONG])
      show "Interpreter_step cfg s = COP_LDC_I8 s" if "code_here s (opc_LDC_I8 # ?bs)" for s
        using that by (rule const_main_step [rotated]) (simp add: cvm_const_main_def)
      show "CVM_ARG_LONG s = Some (long_of (le32 arg) (le32 (drop 4 arg)))" if "code_here s (opc_LDC_I8 # ?bs)" for s
        using code_here_read32 [OF that, of 1] code_here_read32 [OF that, of 5] 4(1) assms(5)
        by (simp add: CVM_ARG_LONG_def IL_READ_INT64_def bs le32_def add.commute [of "pc s"])
    qed (use ldc_i8_pushes in simp)
    moreover have "gen (emit [CVM_OUT_LONG opc_LDC_I8 arg, CVM_ADJUST 2]) (opc_LDC_I8 # ?bs) 2"
      by (rule gen_emit [OF gen_BYTES gen_emit [OF gen_ADJUST gen_Nil]]) simp_all
    ultimately show ?thesis using 4(1) assms(1) compilesI [of _ _ 2]
      by (auto simp: CVMCoder_Constant_def platform32_def)
  qed
qed

lemma dup_performs: "performs COP_DUP 1 1 (\<lambda>ws. Inr (ws @ ws))"
proof (rule performsI)
  fix s base ws spare out
  assume sp: "split_at s base ws spare" and "length ws = 1" and "(Inr (ws @ ws) :: exn + u32 list) = Inr out"
    and "length out \<le> 1 + length spare"
  then obtain a y spare' where ws: "ws = [a]" "out = [a, a]" "spare = y # spare'"
    by (cases spare) (auto simp: length_Suc_conv)
  have "COP_DUP s = Some (Next (s\<lparr>pc := pc s + 1, stacktop := int (length base) + 2, stack := base @ [a, a] @ spare'\<rparr>))"
    using dup.pushes [unfolded pushes_def, rule_format, OF tos_split1(1) [OF sp [unfolded ws]]] sp
    by (simp add: split_at_def ws nat_add_distrib list_update_append)
  with ws show "\<exists>spare'. length out + length spare' = 1 + length spare \<and>
      COP_DUP s = Some (Next (s\<lparr>pc := pc s + 1, stacktop := int (length base) + int (length out), stack := base @ out @ spare'\<rparr>))"
    by (intro exI [of _ spare']) simp
qed simp

lemma stack_main_compiles:
  assumes "(b, h) \<in> set cvm_stack_main" "performs h 1 (length (value_words v)) g" "g (value_words v) = Inr (stack_words vs)"
    and "int (length (stack_words vs)) = int (length (value_words v)) + k"
  shows "compiles cfg (emit [CVM_OUT_NONE b, CVM_ADJUST k]) [v] (Inr vs)"
proof (rule compiles_main [where h = h and g = g])
  show "gen (emit [CVM_OUT_NONE b, CVM_ADJUST k]) [b] k" by (rule gen_op) simp
  show "b \<noteq> 0xFD" "b \<noteq> 0xFF" using assms(1) by (auto simp: cvm_stack_main_def)
  show "map_of main_switch b = Some h" using in_main_switch [of b h] assms(1) by blast
qed (use assms in \<open>auto simp: growth_def\<close>)

lemma dup_compiles:
  assumes "platform32 p" "fits i v"
  shows "compiles cfg (CVMCoder_Dup p (engineType i) (typeInfo i)) [v] (Inr [v, v])"
    and "compiles cfg (CVMCoder_Pop p (engineType i) (typeInfo i)) [v] (Inr [])"
proof -
  note unfolds = CVMCoder_Dup_def CVMCoder_Pop_def DupWords_def PopWords_def platform32_def words_per_native_int_def
  show "compiles cfg (CVMCoder_Dup p (engineType i) (typeInfo i)) [v] (Inr [v, v])"
  proof (cases v)
    case (W a)
    have "compiles cfg (emit [CVM_OUT_NONE opc_DUP, CVM_ADJUST 1]) [v] (Inr [v, v])"
      using dup_performs W by (intro stack_main_compiles [where h = COP_DUP and g = "\<lambda>ws. Inr (ws @ ws)"]) (auto simp: cvm_stack_main_def)
    with W assms show ?thesis by (auto simp: unfolds)
  next
    case (L x)
    have "compiles cfg (emit [CVM_OUT_NONE opc_DUP2, CVM_ADJUST 2]) [v] (Inr [v, v])"
      using dup2_performs L by (intro stack_main_compiles [where h = COP_DUP2 and g = "\<lambda>ws. Inr (ws @ ws)"]) (auto simp: cvm_stack_main_def numeral_2_eq_2)
    with L assms show ?thesis by (auto simp: unfolds)
  qed
  show "compiles cfg (CVMCoder_Pop p (engineType i) (typeInfo i)) [v] (Inr [])"
  proof (cases v)
    case (W a)
    have "compiles cfg (emit [CVM_OUT_NONE opc_POP, CVM_ADJUST (- 1)]) [v] (Inr [])"
      using pop_performs(1) W by (intro stack_main_compiles [where h = COP_POP and g = "\<lambda>_. Inr []"]) (auto simp: cvm_stack_main_def)
    with W assms show ?thesis by (auto simp: unfolds)
  next
    case (L x)
    have "compiles cfg (emit [CVM_OUT_NONE opc_POP2, CVM_ADJUST (- 2)]) [v] (Inr [])"
      using pop_performs(2) L by (intro stack_main_compiles [where h = COP_POP2 and g = "\<lambda>_. Inr []"]) (auto simp: cvm_stack_main_def numeral_2_eq_2)
    with L assms show ?thesis by (auto simp: unfolds)
  qed
qed

section \<open>One instruction\<close>

definition simulates ::
    "cvm_config \<Rightarrow> ILCVMCoder \<Rightarrow> il_value list \<Rightarrow> (exn + il_value list) option \<Rightarrow> verdict option \<Rightarrow> bool" where
  "simulates cfg c vs res v \<longleftrightarrow> (\<forall>stk' c'. v = Some (Accept stk' c') \<longrightarrow>
     (\<exists>f xs rest r. c' = f c \<and> vs = xs @ rest \<and> compiles cfg f xs r \<and> res = Some (map_sum id (\<lambda>out. out @ rest) r) \<and>
        (\<exists>out. list_all2 fits stk' (out @ rest)) \<and> (\<forall>out. r = Inr out \<longrightarrow> list_all2 fits stk' (out @ rest))))"

lemma simulatesI:
  assumes "vs = xs @ rest" "compiles cfg f xs r" "res = Some (map_sum id (\<lambda>out. out @ rest) r)"
    and "\<And>stk' c'. v = Some (Accept stk' c') \<Longrightarrow>
      c' = f c \<and> list_all2 fits stk' (typical @ rest) \<and> (\<forall>out. r = Inr out \<longrightarrow> list_all2 fits stk' (out @ rest))"
  shows "simulates cfg c vs res v"
  using assms unfolding simulates_def by blast

lemma simulates_if:
  "(b \<Longrightarrow> simulates cfg c vs res v) \<Longrightarrow> (\<not> b \<Longrightarrow> simulates cfg c vs res v') \<Longrightarrow> simulates cfg c vs res (if b then v else v')"
  by simp

lemma constant_simulated:
  assumes "platform32 p" "list_all2 fits stk vs" "il_constant opcode arg = Some v" "fits (typed t) v" "opcode < IL_OP_DUP"
    "opcode \<notin> {IL_OP_NOP, IL_OP_BREAK}" "map_of opcode_table opcode = Some (popped, pushed, sz)" "sz \<le> Suc (length arg)"
  shows "simulates cfg c vs (il_step opcode arg vs) (verify_constant p opcode t arg stk c)"
proof (rule simulatesI [where xs = "[]" and rest = vs and r = "Inr [v]" and typical = "[v]" and f = "CVMCoder_Constant p opcode arg"])
  show "compiles cfg (CVMCoder_Constant p opcode arg) [] (Inr [v])"
    using assms(1,3,7,8) by (intro constant_compiles) (auto simp: opcode_table_def)
  show "il_step opcode arg vs = Some (map_sum id (\<lambda>out. out @ vs) (Inr [v]))"
    using assms by (simp add: il_step_def)
qed (use assms in \<open>auto simp: verify_constant_def\<close>)

lemma fits_binary:
  assumes "same_class (engineType i1) (engineType i2) t" "t \<noteq> T_F" "fits i1 v1" "fits i2 v2"
  obtains (word) a b where "v1 = W a" "v2 = W b" "engineType i1 \<in> {T_I4, T_I}" "engineType i2 \<in> {T_I4, T_I}" "t \<in> {T_I4, T_I}"
    | (long) a b where "v1 = L a" "v2 = L b" "engineType i1 = T_I8" "engineType i2 = T_I8" "t = T_I8"
  using assms by (cases v1; cases v2) (auto simp: same_class_def)

lemma il_conversions_all:
  "list_all (\<lambda>(opcode, target). opcode \<ge> 0x67 \<and> opcode \<notin> integer_opcodes) il_conversions"
  by (simp add: il_conversions_def integer_opcodes_def)

lemma il_conversion_opcodes: "map_of il_conversions opcode = Some t \<Longrightarrow> opcode \<ge> 0x67 \<and> opcode \<notin> integer_opcodes"
  using il_conversions_all by (auto simp: list_all_iff dest!: map_of_SomeD)

lemma il_step_binary:
  assumes "opcode \<in> binary_opcodes"
  shows "il_step opcode arg (v2 # v1 # rest) = map_option (map_sum id (\<lambda>r. r # rest)) (il_binary opcode v1 v2)"
proof -
  have "opcode < 0x67 \<or> opcode \<in> integer_opcodes" using assms by (auto simp: binary_opcodes_def numeric_opcodes_def)
  with il_conversion_opcodes have "map_of il_conversions opcode = None" by fastforce
  moreover have "opcode \<notin> {IL_OP_NOP, IL_OP_BREAK, IL_OP_DUP, IL_OP_POP, IL_OP_NEG, IL_OP_NOT}" "\<not> opcode < IL_OP_DUP"
    using assms by (auto simp: binary_opcodes_def numeric_opcodes_def integer_opcodes_def)
  ultimately show ?thesis by (simp add: il_step_def)
qed

lemma binary_meanings:
  "opcode \<in> numeric_opcodes \<union> integer_opcodes \<Longrightarrow> (\<exists>g. map_of il_int32 opcode = Some g) \<and> (\<exists>g. map_of il_int64 opcode = Some g)"
  "opcode \<in> {IL_OP_SHL, IL_OP_SHR, IL_OP_SHR_UN} \<Longrightarrow> (\<exists>g. map_of il_int32 opcode = Some g) \<and> (\<exists>g. map_of il_shift64 opcode = Some g)"
  by (auto simp: il_int32_def il_int64_def il_shift64_def numeric_opcodes_def integer_opcodes_def)

lemma binary_accept_simulated:
  assumes "stk = i2 # i1 # srest" "vs = v2 # v1 # rest" "list_all2 fits srest rest"
    and "lookup2 m (engineType i1) (engineType i2) = Some t" "t \<noteq> T_NO"
    and "compiles cfg (coder (engineType i1) (engineType i2)) [v2, v1] (map_sum id (\<lambda>x. [x]) res)"
    and "step = map_option (map_sum id (\<lambda>r. r # rest)) (Some res)" "fits (typed t) typical" "\<And>r. res = Inr r \<Longrightarrow> fits (typed t) r"
  shows "simulates cfg c vs step (verify_binary m coder stk c)"
proof (rule simulatesI [OF _ assms(6), where rest = rest and typical = "[typical]"])
  show "vs = [v2, v1] @ rest" by (simp add: assms(2))
  show "step = Some (map_sum id (\<lambda>out. out @ rest) (map_sum id (\<lambda>x. [x]) res))" by (cases res) (simp_all add: assms(7))
  fix stk' c'
  assume "verify_binary m coder stk c = Some (Accept stk' c')"
  then have "stk' = typed t # srest" "c' = coder (engineType i1) (engineType i2) c" using assms(1,4,5) by (auto simp: verify_binary_def)
  then show "c' = coder (engineType i1) (engineType i2) c \<and> list_all2 fits stk' ([typical] @ rest) \<and>
      (\<forall>out. map_sum id (\<lambda>x. [x]) res = Inr out \<longrightarrow> list_all2 fits stk' (out @ rest))"
    using assms(3,8,9) by (cases res) auto
qed

lemma word_result_fits: "t \<in> {T_I4, T_I} \<Longrightarrow> map_sum id W r = Inr v \<Longrightarrow> fits (typed t) v"
  "t = T_I8 \<Longrightarrow> map_sum id L r' = Inr v \<Longrightarrow> fits (typed t) v"
  by (cases r; auto) (cases r'; auto)

lemma binary_simulated:
  assumes "platform32 p" "list_all2 fits stk vs" "opcode \<in> numeric_opcodes \<union> integer_opcodes"
    and m: "\<And>t1 t2 t. lookup2 m t1 t2 = Some t \<Longrightarrow> t \<noteq> T_NO \<Longrightarrow> same_class t1 t2 t"
  shows "simulates cfg c vs (il_step opcode arg vs) (verify_binary m (CVMCoder_Binary p opcode) stk c)"
proof (cases "\<exists>stk' c'. verify_binary m (CVMCoder_Binary p opcode) stk c = Some (Accept stk' c')")
  case True
  then obtain i2 i1 srest t where stk: "stk = i2 # i1 # srest" "lookup2 m (engineType i1) (engineType i2) = Some t" "t \<noteq> T_NO"
    by (auto elim: verify_binary_cases)
  obtain v2 v1 rest where vs: "vs = v2 # v1 # rest" "fits i2 v2" "fits i1 v1" "list_all2 fits srest rest"
    using assms(2) by (auto simp: stk list_all2_Cons1)
  have coder: "CVMCoder_Binary p opcode = arith_coder p opcode"
    using assms(3) by (auto simp: arith_coder_def numeric_opcodes_def integer_opcodes_def)
  have step: "il_step opcode arg vs = map_option (map_sum id (\<lambda>r. r # rest)) (il_binary opcode v1 v2)"
    using assms(3) unfolding vs by (intro il_step_binary) (auto simp: binary_opcodes_def)
  have "t \<noteq> T_F" using vs m [OF stk(2,3)] by (cases v1) (auto simp: same_class_def)
  from m [OF stk(2,3)] this vs(3,2) show ?thesis
  proof (cases rule: fits_binary)
    case (word a b)
    obtain g where g: "map_of il_int32 opcode = Some g" using binary_meanings(1) [OF assms(3)] by blast
    show ?thesis
      unfolding coder step
    proof (rule binary_accept_simulated [OF stk(1) vs(1,4) stk(2,3), where res = "map_sum id W (g a b)" and typical = "W 0"])
      show "compiles cfg (arith_coder p opcode (engineType i1) (engineType i2)) [v2, v1] (map_sum id (\<lambda>x. [x]) (map_sum id W (g a b)))"
        using int32_compiles [OF assms(1) word(3,4) g, of cfg b a] word(1,2) by (simp add: wrap_result)
    qed (use word g word_result_fits(1) [OF word(5)] in auto)
  next
    case (long a b)
    obtain g where g: "map_of il_int64 opcode = Some g" using binary_meanings(1) [OF assms(3)] by blast
    show ?thesis
      unfolding coder step
    proof (rule binary_accept_simulated [OF stk(1) vs(1,4) stk(2,3), where res = "map_sum id L (g a b)" and typical = "L 0"])
      show "compiles cfg (arith_coder p opcode (engineType i1) (engineType i2)) [v2, v1] (map_sum id (\<lambda>x. [x]) (map_sum id L (g a b)))"
        using int64_compiles [OF assms(1) g, of cfg b a] long by (simp add: wrap_result)
    qed (use long g word_result_fits(2) [OF long(5)] in auto)
  qed
qed (auto simp: simulates_def)

lemma shift_simulated:
  assumes "platform32 p" "list_all2 fits stk vs" "opcode \<in> {IL_OP_SHL, IL_OP_SHR, IL_OP_SHR_UN}"
  shows "simulates cfg c vs (il_step opcode arg vs) (verify_binary binaryShiftMatrix (CVMCoder_Shift p opcode) stk c)"
proof (cases "\<exists>stk' c'. verify_binary binaryShiftMatrix (CVMCoder_Shift p opcode) stk c = Some (Accept stk' c')")
  case True
  then obtain i2 i1 srest t where stk: "stk = i2 # i1 # srest" "lookup2 binaryShiftMatrix (engineType i1) (engineType i2) = Some t" "t \<noteq> T_NO"
    by (auto elim: verify_binary_cases)
  obtain v2 v1 rest where vs: "vs = v2 # v1 # rest" "fits i2 v2" "fits i1 v1" "list_all2 fits srest rest"
    using assms(2) by (auto simp: stk list_all2_Cons1)
  note types = shift_lookup [OF stk(2,3)]
  have coder: "CVMCoder_Shift p opcode = arith_coder p opcode" using assms(3) by (auto simp: arith_coder_def)
  have step: "il_step opcode arg vs = map_option (map_sum id (\<lambda>r. r # rest)) (il_binary opcode v1 v2)"
    using assms(3) unfolding vs by (intro il_step_binary) (auto simp: binary_opcodes_def)
  obtain n where n: "v2 = W n" "engineType i2 \<in> {T_I4, T_I}" using vs types by (cases v2) auto
  obtain g g' where g: "map_of il_int32 opcode = Some g" "map_of il_shift64 opcode = Some g'" using binary_meanings(2) [OF assms(3)] by blast
  show ?thesis
  proof (cases v1)
    case (W a)
    then have i1: "engineType i1 \<in> {T_I4, T_I}" using vs types by auto
    show ?thesis
      unfolding coder step
    proof (rule binary_accept_simulated [OF stk(1) vs(1,4) stk(2,3), where res = "map_sum id W (g a n)" and typical = "W 0"])
      show "compiles cfg (arith_coder p opcode (engineType i1) (engineType i2)) [v2, v1] (map_sum id (\<lambda>x. [x]) (map_sum id W (g a n)))"
        using int32_compiles [OF assms(1) i1 n(2) g(1), of cfg n a] n(1) W by (simp add: wrap_result)
    qed (use W n g types i1 word_result_fits(1) [of t "g a n"] in auto)
  next
    case (L a)
    then have i1: "engineType i1 = T_I8" using vs types by auto
    show ?thesis
      unfolding coder step
    proof (rule binary_accept_simulated [OF stk(1) vs(1,4) stk(2,3), where res = "Inr (L (g' a n))" and typical = "L 0"])
      show "compiles cfg (arith_coder p opcode (engineType i1) (engineType i2)) [v2, v1] (map_sum id (\<lambda>x. [x]) (Inr (L (g' a n))))"
        using shift64_compiles [OF assms(1) n(2) g(2), of cfg n a] n(1) L i1 by simp
    qed (use L n g types i1 in auto)
  qed
qed (auto simp: simulates_def)

lemma safe_add_sub:
  "verify_add p False opcode stk c = Some (Accept stk' c') \<Longrightarrow>
     verify_binary binaryNumericMatrix (CVMCoder_Binary p opcode) stk c = Some (Accept stk' c')"
  "verify_sub p False opcode stk c = Some (Accept stk' c') \<Longrightarrow>
     verify_binary binaryNumericMatrix (CVMCoder_Binary p opcode) stk c = Some (Accept stk' c')"
proof -
  have num: "lookup2 binaryNumericMatrix t1 t2 = Some t \<Longrightarrow> t \<noteq> T_M \<and> t \<noteq> T_T" for t1 t2 t
    using numeric_lookup [of t1 t2 t] by (cases "t = T_NO") (auto simp: same_class_def)
  show "verify_binary binaryNumericMatrix (CVMCoder_Binary p opcode) stk c = Some (Accept stk' c')"
    if "verify_add p False opcode stk c = Some (Accept stk' c')"
    using that num by (auto simp: verify_add_def verify_binary_def Option.bind_eq_Some_conv split: list.splits if_splits)
  show "verify_binary binaryNumericMatrix (CVMCoder_Binary p opcode) stk c = Some (Accept stk' c')"
    if "verify_sub p False opcode stk c = Some (Accept stk' c')"
    using that num by (auto simp: verify_sub_def verify_binary_def Option.bind_eq_Some_conv split: list.splits if_splits)
qed

lemma simulates_weaken:
  "simulates cfg c vs res v \<Longrightarrow> (\<And>stk' c'. v' = Some (Accept stk' c') \<Longrightarrow> v = Some (Accept stk' c')) \<Longrightarrow> simulates cfg c vs res v'"
  by (auto simp: simulates_def)

lemma unary_simulated:
  assumes "platform32 p" "list_all2 fits stk vs" "opcode \<in> {IL_OP_NEG, IL_OP_NOT}" "m \<in> {negateMatrix, notMatrix}"
  shows "simulates cfg c vs (il_step opcode arg vs) (verify_unary p m opcode stk c)"
proof (cases "\<exists>stk' c'. verify_unary p m opcode stk c = Some (Accept stk' c')")
  case True
  then obtain i srest t where stk: "stk = i # srest" "lookup1 m (engineType i) = Some t" "t \<noteq> T_NO"
    by (auto simp: verify_unary_def Option.bind_eq_Some_conv split: list.splits if_splits)
  obtain v rest where vs: "vs = v # rest" "fits i v" "list_all2 fits srest rest"
    using assms(2) by (auto simp: stk list_all2_Cons1)
  have t: "t = engineType i" "t \<in> {T_I4, T_I8, T_I, T_F}" using stk(2,3) assms(4) by (cases "engineType i"; auto simp: matrix_defs)+
  with vs have "engineType i \<in> {T_I4, T_I8, T_I}" by (cases v) auto
  from unary_compiles [OF assms(1,3) vs(2) this] obtain r
    where r: "il_unary opcode v = Some r" "compiles cfg (CVMCoder_Unary p opcode (engineType i)) [v] (Inr [r])" by blast
  have "fits (typed t) r" using r(1) vs(2) t(1) by (cases v) (auto split: if_splits)
  moreover have "il_step opcode arg vs = Some (Inr (r # rest))" using assms(3) r(1) vs(1) by (auto simp: il_step_def)
  ultimately show ?thesis
    by (intro simulatesI [OF _ r(2), where rest = rest and typical = "[r]"]) (use vs stk in \<open>auto simp: verify_unary_def\<close>)
qed (auto simp: simulates_def)

lemma stack_simulated:
  assumes "platform32 p" "list_all2 fits stk vs"
  shows "simulates cfg c vs (il_step IL_OP_DUP arg vs) (verify_dup p stk c)"
    and "simulates cfg c vs (il_step IL_OP_POP arg vs) (verify_pop p stk c)"
proof -
  show "simulates cfg c vs (il_step IL_OP_DUP arg vs) (verify_dup p stk c)"
  proof (cases stk)
    case (Cons i srest)
    then obtain v rest where vs: "vs = v # rest" "fits i v" "list_all2 fits srest rest" using assms(2) by (auto simp: list_all2_Cons1)
    show ?thesis
      by (rule simulatesI [OF _ dup_compiles(1) [OF assms(1) vs(2)], where rest = rest and typical = "[v, v]"])
        (use Cons vs in \<open>auto simp: verify_dup_def il_step_def\<close>)
  qed (simp add: simulates_def verify_dup_def)
  show "simulates cfg c vs (il_step IL_OP_POP arg vs) (verify_pop p stk c)"
  proof (cases stk)
    case (Cons i srest)
    then obtain v rest where vs: "vs = v # rest" "fits i v" "list_all2 fits srest rest" using assms(2) by (auto simp: list_all2_Cons1)
    show ?thesis
      by (rule simulatesI [OF _ dup_compiles(2) [OF assms(1) vs(2)], where rest = rest and typical = "[]"])
        (use Cons vs in \<open>auto simp: verify_pop_def il_step_def\<close>)
  qed (simp add: simulates_def verify_pop_def)
qed

fun target_type :: "il_target \<Rightarrow> ILEngineType \<Rightarrow> bool" where
  "target_type (Narrow f) t \<longleftrightarrow> t \<in> {T_I4, T_I}"
| "target_type (Widen b) t \<longleftrightarrow> t = T_I8"
| "target_type (Check32 b lo hi) t \<longleftrightarrow> t \<in> {T_I4, T_I}"
| "target_type (Check64 b lo hi) t \<longleftrightarrow> t = T_I8"

lemma conversion_types: "list_all (\<lambda>(opcode, target). \<forall>t. map_of conv_results opcode = Some t \<longrightarrow> target_type target t) il_conversions"
  by (simp add: il_conversions_def conv_results_def)

lemma convert_fits: "target_type target t \<Longrightarrow> il_convert target v = Inr r \<Longrightarrow> fits (typed t) r"
  by (cases target) (auto simp: in_range32_def in_range64_def split: if_splits)

lemma conv_simulated:
  assumes "platform32 p" "list_all2 fits stk vs" "map_of conv_results opcode = Some t" "map_of il_conversions opcode = Some target"
  shows "simulates cfg c vs (il_step opcode arg vs) (VERIFY_CONV p False opcode t stk c)"
proof (cases stk)
  case (Cons i srest)
  then obtain v rest where vs: "vs = v # rest" "fits i v" "list_all2 fits srest rest" using assms(2) by (auto simp: list_all2_Cons1)
  have step: "il_step opcode arg vs = Some (map_sum id (\<lambda>r. r # rest) (il_convert target v))"
    using il_conversion_opcodes [OF assms(4)] assms(4) vs(1) by (simp add: il_step_def)
  have in_table: "(opcode, target) \<in> set il_conversions" by (rule map_of_SomeD [OF assms(4)])
  have ty: "target_type target t" using conversion_types in_table assms(3) by (auto simp: list_all_iff)
  show ?thesis
  proof (cases "engineType i \<in> {T_I4, T_I8, T_I}")
    case True
    have comp: "compiles cfg (CVMCoder_Conv p opcode (engineType i)) [v] (map_sum id (\<lambda>x. [x]) (il_convert target v))"
    proof (cases v)
      case (W a)
      then have "engineType i \<in> {T_I4, T_I}" using True vs(2) by auto
      from conv_word_compiles [OF assms(1) this, of cfg a] in_table W show ?thesis by (auto simp: list_all_iff)
    next
      case (L y)
      then have "engineType i = T_I8" using vs(2) by simp
      with conv_long_compiles [OF assms(1), of cfg y] in_table L show ?thesis by (auto simp: list_all_iff)
    qed
    let ?typical = "if t = T_I8 then L 0 else W 0"
    show ?thesis
    proof (rule simulatesI [OF _ comp, where rest = rest and typical = "[?typical]"])
      show "il_step opcode arg vs = Some (map_sum id (\<lambda>out. out @ rest) (map_sum id (\<lambda>x. [x]) (il_convert target v)))"
        by (cases "il_convert target v") (simp_all add: step)
      fix stk' c'
      assume "VERIFY_CONV p False opcode t stk c = Some (Accept stk' c')"
      then have "stk' = typed t # srest" "c' = CVMCoder_Conv p opcode (engineType i) c"
        using True Cons by (auto simp: VERIFY_CONV_def enum_value_def)
      moreover have "fits (typed t) ?typical" using ty by (cases target) auto
      ultimately show "c' = CVMCoder_Conv p opcode (engineType i) c \<and> list_all2 fits stk' ([?typical] @ rest) \<and>
          (\<forall>out. map_sum id (\<lambda>x. [x]) (il_convert target v) = Inr out \<longrightarrow> list_all2 fits stk' (out @ rest))"
        using vs(3) convert_fits [OF ty, of v] by (cases "il_convert target v") auto
    qed (simp add: vs)
  next
    case False
    with vs(2) have "engineType i \<in> {T_M, ILEngineType_O, T_T}" by (cases v) auto
    then show ?thesis using Cons by (auto simp: simulates_def VERIFY_CONV_def enum_value_def)
  qed
qed (simp add: simulates_def VERIFY_CONV_def)

lemma switch_simulated:
  assumes "platform32 p" "list_all2 fits stk vs" "il_integer opcode" "map_of opcode_table opcode = Some (popped, pushed, sz)"
    "sz \<le> Suc (length arg)"
  shows "simulates cfg c vs (il_step opcode arg vs) (verify_switch p False opcode arg stk c)"
proof -
  note opcodes = numeric_opcodes_def integer_opcodes_def
  have int: "opcode \<notin> {IL_OP_LDC_R4, IL_OP_LDC_R8, IL_OP_CKFINITE}"
    using assms(3) by (auto simp: il_integer_def il_int32_def il_conversions_def)
  note const = constant_simulated [OF assms(1,2) _ _ _ _ assms(4,5)]
  show ?thesis
    unfolding verify_switch_def
  proof (intro simulates_if, goal_cases)
    case 1
    then show ?case
      using assms(2) by (intro simulatesI [where xs = "[]" and f = "emit []" and r = "Inr []" and typical = "[]"])
        (auto simp: il_step_def compiles_none)
  next
    case 2 then show ?case by (intro const [where v = "W 0"]) (auto simp: il_constant_def)
  next
    case 3
    then have "opcode \<le> IL_OP_LDC_I4_8 \<or> opcode = IL_OP_LDC_I4_S \<or> opcode = IL_OP_LDC_I4" by auto
    with 3 obtain w where "il_constant opcode arg = Some (W w)" by (elim disjE) (simp_all add: il_constant_def)
    with 3 show ?case by (intro const [where v = "W w"]) auto
  next
    case 4 then show ?case by (intro const [where v = "L (long_of (le32 arg) (le32 (drop 4 arg)))"]) (auto simp: il_constant_def)
  next
    case 5 with int show ?case by auto
  next
    case 6 with stack_simulated(1) [OF assms(1,2)] show ?case by simp
  next
    case 7 with stack_simulated(2) [OF assms(1,2)] show ?case by simp
  next
    case 8
    then have "opcode \<in> numeric_opcodes \<union> integer_opcodes" by (auto simp: opcodes)
    from binary_simulated [OF assms(1,2) this numeric_lookup] show ?case
      by (rule simulates_weaken) (auto intro: safe_add_sub)
  next
    case 9
    then have "opcode \<in> numeric_opcodes \<union> integer_opcodes" by (auto simp: opcodes)
    from binary_simulated [OF assms(1,2) this numeric_lookup] show ?case
      by (rule simulates_weaken) (auto intro: safe_add_sub)
  next
    case 10
    then have "opcode \<in> numeric_opcodes \<union> integer_opcodes" by (auto simp: opcodes)
    from binary_simulated [OF assms(1,2) this numeric_lookup] show ?case .
  next
    case 11
    then have "opcode \<in> numeric_opcodes \<union> integer_opcodes" by (auto simp: opcodes)
    from binary_simulated [OF assms(1,2) this] integer_lookup show ?case by blast
  next
    case 12 then show ?case by (intro shift_simulated assms)
  next
    case 13 then show ?case by (intro unary_simulated assms) auto
  next
    case 14 then show ?case by (intro unary_simulated assms) auto
  next
    case 15 with int show ?case by simp
  next
    case 16
    show ?case
    proof (cases "map_of conv_results opcode")
      case (Some t)
      have "opcode \<ge> 0x67" "opcode \<notin> integer_opcodes" using not_conv [of opcode] Some by (force simp: not_le)+
      then have "opcode \<notin> fst ` set il_int32" by (auto simp: il_int32_def integer_opcodes_def)
      with assms(3) 16 \<open>opcode \<ge> 0x67\<close> obtain target where "map_of il_conversions opcode = Some target"
        by (auto simp: il_integer_def map_of_eq_None_iff dest: weak_map_of_SomeI)
      with conv_simulated [OF assms(1,2) Some] Some show ?thesis by simp
    qed (simp add: simulates_def)
  qed
qed

section \<open>A block\<close>

lemma fits_matrix_types: "list_all2 fits stk vs \<Longrightarrow> matrix_types stk"
  by (induction rule: list_all2_induct) (auto simp: valid_enum elim!: fits.elims(2))

lemma stack_words_size:
  assumes "platform32 p" "list_all2 fits stk vs"
  shows "ComputeStackSize p stk = length (stack_words vs)"
  using assms(2)
proof (induction rule: list_all2_induct)
  case (Cons i stk v vs)
  then have "item_words p i = length (value_words v)"
    using assms(1) by (cases v) (auto simp: item_words_def platform32_def)
  with Cons show ?case by simp
qed simp

text \<open>An accepted instruction moves the height as much as it moves the stack.\<close>

lemma switch_moves:
  assumes "platform32 p" "list_all2 fits stk vs" "il_integer opcode" "verify_switch p False opcode arg stk c = Some (Accept stk1 c1)"
    "list_all2 fits stk1 vs1"
  shows "height c1 - height c = int (length (stack_words vs1)) - int (length (stack_words vs))"
proof -
  have "opcode \<noteq> IL_OP_CONV_OVF_I8" using assms(3) by (auto simp: il_integer_def il_int32_def il_conversions_def)
  moreover have "machine_type p (engineType i) \<noteq> T_F" if "stk = i # rest" for i rest
    using that assms(1,2) by (auto simp: list_all2_Cons1 machine_type_def platform32_def elim!: fits.elims(2))
  ultimately have "height_error p opcode (map engineType stk) = 0"
    using safe_error_conv [OF assms(4) fits_matrix_types [OF assms(2)]] assms(1) by (auto simp: conv_error_def platform32_def)
  with verify_switch_off_by [of p opcode stk c False arg] assms(4)
    stack_words_size [OF assms(1,2)] stack_words_size [OF assms(1,5)] show ?thesis by (auto simp: off_by_def)
qed

lemma executes_frame:
  assumes "executes cfg bs room xs r"
  shows "executes cfg bs room (xs @ rest) (map_sum id (\<lambda>out. out @ rest) r)"
  unfolding executes_def
proof (intro allI impI)
  fix s base spare
  assume sp: "split_at s base (stack_words (xs @ rest)) spare" and c: "code_here s bs" "room \<le> length spare"
  then have "split_at s (base @ stack_words rest) (stack_words xs) spare" by (simp add: split_at_def)
  from assms [unfolded executes_def, rule_format, OF this c]
  show "case map_sum id (\<lambda>out. out @ rest) r of
      Inl e \<Rightarrow> \<exists>t u. runs cfg s t \<and> Interpreter_step cfg t = Some (Throw e u)
    | Inr vs' \<Rightarrow> \<exists>spare'. length (stack_words vs') + length spare' = length (stack_words (xs @ rest)) + length spare \<and>
        runs cfg s (s\<lparr>pc := pc s + int (length bs), stacktop := int (length base) + int (length (stack_words vs')),
          stack := base @ stack_words vs' @ spare'\<rparr>)"
    by (cases r) (auto simp: add.assoc)
qed

lemma executes_room: "executes cfg bs room vs r \<Longrightarrow> room \<le> room' \<Longrightarrow> executes cfg bs room' vs r"
  unfolding executes_def by (meson le_trans)

definition extends :: "ILCVMCoder \<Rightarrow> ILCVMCoder \<Rightarrow> bool" where
  "extends c c' \<longleftrightarrow> limit c' = limit c \<and> (\<exists>x. out c' = out c @ x) \<and> maxHeight c \<le> maxHeight c' \<and>
     (height c \<le> maxHeight c \<longrightarrow> height c' \<le> maxHeight c')"

lemma gen_extends: "gen f bs k \<Longrightarrow> extends c (f c)"
  unfolding gen_def extends_def by metis

lemma extends_trans: "extends c c1 \<Longrightarrow> extends c1 c' \<Longrightarrow> extends c c'"
  by (auto simp: extends_def)

lemma extends_full: "extends c1 c' \<Longrightarrow> length (out c') < limit c' \<Longrightarrow> length (out c1) < limit c1"
  by (auto simp: extends_def)

text \<open>What is shown of a block by induction over its instructions.\<close>

definition block_runs ::
    "cvm_config \<Rightarrow> u8 list \<Rightarrow> ILCVMCoder \<Rightarrow> ILEngineStackItem list \<Rightarrow> ILCVMCoder \<Rightarrow> il_value list \<Rightarrow> bool" where
  "block_runs cfg il c stk' c' vs \<longleftrightarrow> extends c c' \<and>
     (height c \<le> maxHeight c \<longrightarrow> length (out c') < limit c' \<longrightarrow>
      (\<exists>r bs. il_block il vs = Some r \<and> out c' = out c @ bs \<and> executes cfg bs (nat (maxHeight c' - height c)) vs r \<and>
         (\<forall>us. r = Inr us \<longrightarrow> list_all2 fits stk' us)))"

lemma block_runs_insn:
  assumes p: "platform32 p" and fits: "list_all2 fits stk vs" and int: "il_integer (unat op)"
    and table: "map_of opcode_table (unat op) = Some (popped, pushed, sz)" "sz \<le> length (op # arg)"
    and v: "verify_switch p False (unat op) arg stk c = Some (Accept stk1 c1)"
    and IH: "\<And>vs1. list_all2 fits stk1 vs1 \<Longrightarrow> block_runs cfg (drop sz (op # arg)) c1 stk' c' vs1"
  shows "block_runs cfg (op # arg) c stk' c' vs"
proof -
  have "sz \<le> Suc (length arg)" using table(2) by simp
  from switch_simulated [OF p fits int table(1) this, of cfg c, unfolded simulates_def, rule_format, OF v]
  obtain f xs rest r where sim: "c1 = f c" "vs = xs @ rest" "compiles cfg f xs r"
    "il_step (unat op) arg vs = Some (map_sum id (\<lambda>out. out @ rest) r)" "\<exists>out. list_all2 fits stk1 (out @ rest)"
    "\<And>out. r = Inr out \<Longrightarrow> list_all2 fits stk1 (out @ rest)" by blast
  obtain bs k where gen: "gen f bs k" "executes cfg bs (nat k) xs r" using sim(3) by (auto simp: compiles_def)
  have ex1: "extends c c1" using gen_extends [OF gen(1)] sim(1) by simp
  have ex2: "extends c1 c'" using IH sim(5) by (auto simp: block_runs_def)
  have sz: "0 < sz" by (rule opcode_table_facts [OF table(1)])
  show ?thesis
    unfolding block_runs_def
  proof (intro conjI impI)
    show "extends c c'" using ex1 ex2 by (rule extends_trans)
    assume h: "height c \<le> maxHeight c" and l: "length (out c') < limit c'"
    have out1: "out c1 = out c @ bs" using extends_full [OF ex2 l] ex1 genD [OF gen(1)] sim(1) by (simp add: extends_def)
    have k: "height c1 = height c + k" using gen(1) sim(1) by (simp add: gen_def)
    have h1: "height c1 \<le> maxHeight c1" "maxHeight c1 \<le> maxHeight c'" using ex1 ex2 h by (auto simp: extends_def)
    let ?room = "nat (maxHeight c' - height c)"
    have m: "nat k \<le> ?room" using h1 k by simp
    have ex: "executes cfg bs (nat k) vs (map_sum id (\<lambda>out. out @ rest) r)" using executes_frame [OF gen(2)] sim(2) by simp
    show "\<exists>r bs. il_block (op # arg) vs = Some r \<and> out c' = out c @ bs \<and> executes cfg bs ?room vs r \<and>
        (\<forall>us. r = Inr us \<longrightarrow> list_all2 fits stk' us)"
    proof (cases r)
      case (Inl e)
      obtain x where x: "out c' = out c1 @ x" using ex2 by (auto simp: extends_def)
      have "il_block (op # arg) vs = Some (Inl e)" using table(1) sz sim(4) Inl by (simp add: il_block.simps [of "op # arg"])
      moreover have "executes cfg (bs @ x) ?room vs (Inl e)" using ex Inl m by (auto intro: executes_raise executes_room)
      ultimately show ?thesis using x out1 by auto
    next
      case (Inr res)
      let ?us = "res @ rest"
      have fits1: "list_all2 fits stk1 ?us" using sim(6) Inr by blast
      from IH [OF this] h1(1) l obtain r' bs' where r': "il_block (drop sz (op # arg)) ?us = Some r'" "out c' = out c1 @ bs'"
        "executes cfg bs' (nat (maxHeight c' - height c1)) ?us r'" "\<And>us. r' = Inr us \<Longrightarrow> list_all2 fits stk' us"
        by (auto simp: block_runs_def)
      have "executes cfg (bs @ bs') ?room vs r'"
      proof (rule executes_then [OF _ r'(3) m])
        show "executes cfg bs (nat k) vs (Inr ?us)" using ex Inr by simp
        show "nat (maxHeight c' - height c1) + length (stack_words ?us) \<le> length (stack_words vs) + ?room"
          using switch_moves [OF p fits int v fits1] h1 m by simp
      qed
      moreover have "il_block (op # arg) vs = Some r'"
        using table(1) sz sim(4) Inr r'(1) by (simp add: il_block.simps [of "op # arg"])
      ultimately show ?thesis using r'(2,4) out1 by auto
    qed
  qed
qed

lemma verified_block_runs:
  assumes "code_opcodes il = Some ops" "verify_block p False maxStack il stk c = Some (Accept stk' c')"
    and "platform32 p"
  shows "\<forall>vs. (\<forall>op \<in> set ops. il_integer op) \<longrightarrow> list_all2 fits stk vs \<longrightarrow> block_runs cfg il c stk' c' vs"
  using assms(1,2)
proof (induction rule: verify_block_induct)
  case (empty stk c)
  show ?case
    by (auto simp: block_runs_def extends_def il_block.simps [of "[]"]
        intro: executes_room [OF executes_nothing])
next
  case (insn op arg popped pushed sz ops stk c stk1 c1 stk' c')
  then show ?case using assms(3) by (auto intro!: block_runs_insn [of p stk _ op popped pushed sz arg c stk1 c1])
qed

section \<open>Properties\<close>

text \<open>C3: on a 32-bit platform, when the verifier accepts a stretch of safe IL code that consists of the integer
  instructions of \<^const>\<open>il_integer\<close> (constants, \<open>dup\<close>, \<open>pop\<close>, arithmetic, shifts, bit operations and all integer
  conversions except \<open>conv.ovf.i8\<close>, for which the coder announces one word too few) and the emitted byte code fits into the
  cache page, the IL code has a meaning on every stack of values of the verified types, the
  byte code runs on the interpreter without getting stuck, in as much room above the stack as
  the coder's maximum height says, and it reaches its end with the words of the resulting values on the
  stack, which have the inferred types, or the exception that the IL code raises.\<close>

theorem verified_code_runs:
  assumes "platform32 p" "code_opcodes il = Some ops" "\<forall>op \<in> set ops. il_integer op"
    "verify_block p False maxStack il stk c = Some (Accept stk' c')" "height c \<le> maxHeight c" "length (out c') < limit c'"
    "list_all2 fits stk vs" "split_at s base (stack_words vs) spare" "code_here s (drop (length (out c)) (out c'))"
    "maxHeight c' - height c \<le> int (length spare)"
  shows "(\<exists>vs' spare'. il_block il vs = Some (Inr vs') \<and> list_all2 fits stk' vs' \<and>
       runs cfg s (s\<lparr>pc := pc s + int (length (out c') - length (out c)),
         stacktop := int (length base) + int (length (stack_words vs')), stack := base @ stack_words vs' @ spare'\<rparr>)) \<or>
     (\<exists>e t u. il_block il vs = Some (Inl e) \<and> runs cfg s t \<and> Interpreter_step cfg t = Some (Throw e u))"
proof -
  have "block_runs cfg il c stk' c' vs" using verified_block_runs [OF assms(2,4,1)] assms(3,7) by blast
  then obtain r bs where r: "il_block il vs = Some r" "out c' = out c @ bs"
    "executes cfg bs (nat (maxHeight c' - height c)) vs r" "\<And>us. r = Inr us \<Longrightarrow> list_all2 fits stk' us"
    using assms(5,6) by (auto simp: block_runs_def)
  have "code_here s bs" using assms(9) r(2) by simp
  moreover have "nat (maxHeight c' - height c) \<le> length spare" using assms(10) by linarith
  ultimately show ?thesis
    using r(3) [unfolded executes_def, rule_format, OF assms(8)] r(1,2,4) by (cases r) auto
qed

text \<open>\<open>ldc.i4.s -1; conv.i8; ldc.i8 1; add; conv.i4\<close> above one word of another frame.\<close>

theorem verified_code_runs_witness:
  "\<exists>spare'. runs bare (machine [9, 0, 0, 0, 0] 1 [opc_LDC_I4_S, 0xFF, opc_I2L, opc_LDC_I8, 1, 0, 0, 0, 0, 0, 0, 0, opc_LADD, opc_L2I])
     ((machine [9, 0, 0, 0, 0] 1 [opc_LDC_I4_S, 0xFF, opc_I2L, opc_LDC_I8, 1, 0, 0, 0, 0, 0, 0, 0, opc_LADD, opc_L2I])
       \<lparr>pc := 14, stacktop := 2, stack := [9, 0] @ spare'\<rparr>)"
proof -
  let ?il = "[0x1F, 0xFF, 0x6A, 0x21, 1, 0, 0, 0, 0, 0, 0, 0, 0x58, 0x69] :: u8 list"
  let ?out = "[opc_LDC_I4_S, 0xFF, opc_I2L, opc_LDC_I8, 1, 0, 0, 0, 0, 0, 0, 0, opc_LADD, opc_L2I]"
  let ?s = "machine [9, 0, 0, 0, 0] 1 ?out"
  let ?c = "fresh_coder\<lparr>out := ?out, height := 5, maxHeight := 8\<rparr>"
  have o: "code_opcodes ?il = Some [0x1F, 0x6A, 0x21, 0x58, 0x69]" by code_simp
  have i: "\<forall>op \<in> set [0x1F, 0x6A, 0x21, 0x58, 0x69]. il_integer op"
    by (simp add: il_integer_def il_int32_def il_conversions_def)
  have v: "verify_block i386 False 3 ?il [] fresh_coder = Some (Accept [typed T_I4] ?c)" by code_simp
  have e: "il_block ?il [] = Some (Inr [W 0])" by code_simp
  have "platform32 i386" by (simp add: platform32_def)
  from verified_code_runs [OF this o i v, of "[]" ?s "[9]" "[0, 0, 0, 0]" bare] e
  show ?thesis by (auto simp: split_at_def machine_def code_here_def)
qed

end
