(* ===== verification/CvmcBranch.thy ===== *)
theory CvmcBranch
  imports Compile
begin

text \<open>
  Branches, labels and switch tables of the coder (\<^verbatim>\<open>engine/cvmc_branch.c\<close>, and the output and
  back-patching macros of \<^verbatim>\<open>engine/cvmc_gen.h\<close> in byte-code form).  A branch to a label that is not yet
  defined is emitted as a place-holder and recorded at the label; defining the label patches the bytes.
\<close>

section \<open>Labels\<close>

text \<open>
  \<^verbatim>\<open>ILCVMLabel\<close> serves as a label and as a reference to one.  A list linked by \<^verbatim>\<open>next\<close> or \<^verbatim>\<open>nextRef\<close> is a
  list here, and a pointer to a label its position.
\<close>

record label_ref =
  ref_address :: u32
  ref_offset :: u32

record ILCVMLabel =
  lab_address :: u32
  lab_offset :: u32
  nextRef :: "label_ref list"

definition ILCVM_LABEL_UNDEF :: u32 where
  "ILCVM_LABEL_UNDEF = 0xFFFFFFFF"

text \<open>
  The fields of \<^verbatim>\<open>ILCVMCoder\<close> for labels next to those for code.  \<open>start\<close> and \<open>switchStart\<close> are positions
  in the output.  The \<open>n\<close>-th allocation from the label pool succeeds if \<open>pool_answers n\<close>;
  \<open>cacheOutOfMemory\<close> is the flag \<^verbatim>\<open>outOfMemory\<close> of the method cache.
\<close>

record label_coder =
  cvm :: ILCVMCoder
  start :: nat
  switchStart :: nat
  labelList :: "ILCVMLabel list"
  labelOutOfMemory :: bool
  cacheOutOfMemory :: bool
  pool_answers :: "nat \<Rightarrow> bool"
  pool_calls :: nat

definition ILMemPoolAlloc :: "label_coder \<Rightarrow> bool \<times> label_coder" where
  "ILMemPoolAlloc c = (pool_answers c (pool_calls c), c\<lparr>pool_calls := pool_calls c + 1\<rparr>)"

definition CVM_POSN :: "label_coder \<Rightarrow> nat" where
  "CVM_POSN c = length (out (cvm c))"

text \<open>\<^verbatim>\<open>(ILUInt32)(CVM_POSN() - coder->start)\<close>\<close>

definition code_offset :: "label_coder \<Rightarrow> u32" where
  "code_offset c = of_int (int (CVM_POSN c) - int (start c))"

definition ILCacheIsFull :: "label_coder \<Rightarrow> bool" where
  "ILCacheIsFull c \<longleftrightarrow> cacheOutOfMemory c \<or> CVM_POSN c \<ge> limit (cvm c)"

fun find_label :: "u32 \<Rightarrow> ILCVMLabel list \<Rightarrow> nat option" where
  "find_label addr [] = None"
| "find_label addr (l # ls) = (if lab_address l = addr then Some 0 else map_option Suc (find_label addr ls))"

definition GetLabel :: "u32 \<Rightarrow> label_coder \<Rightarrow> nat option \<times> label_coder" where
  "GetLabel addr c = (case find_label addr (labelList c) of
       Some i \<Rightarrow> (Some i, c)
     | None \<Rightarrow>
        (let (ok, c) = ILMemPoolAlloc c in
         if ok then
           (Some 0, c\<lparr>labelList := \<lparr>lab_address = addr, lab_offset = ILCVM_LABEL_UNDEF, nextRef = []\<rparr> # labelList c\<rparr>)
         else (None, c\<lparr>labelOutOfMemory := True\<rparr>)))"

definition change_label :: "nat \<Rightarrow> (ILCVMLabel \<Rightarrow> ILCVMLabel) \<Rightarrow> label_coder \<Rightarrow> label_coder" where
  "change_label i f c = c\<lparr>labelList := (labelList c)[i := f (labelList c ! i)]\<rparr>"

section \<open>Output and back-patching\<close>

definition CVM_OUT_BRANCH :: "u8 \<Rightarrow> u32 \<Rightarrow> ILCVMCoder \<Rightarrow> ILCVMCoder" where
  "CVM_OUT_BRANCH opcode relative = emit [ILCacheByte opcode, ILCacheByte (ucast relative), ILCacheWord32 0]"

definition CVM_OUT_BRANCH_LONG :: "u8 \<Rightarrow> u32 \<Rightarrow> ILCVMCoder \<Rightarrow> ILCVMCoder" where
  "CVM_OUT_BRANCH_LONG opcode relative = emit [ILCacheByte 0xB2, ILCacheByte opcode, ILCacheWord32 relative]"

definition CVM_OUT_BRANCH_PLACEHOLDER :: "u8 \<Rightarrow> ILCVMCoder \<Rightarrow> ILCVMCoder" where
  "CVM_OUT_BRANCH_PLACEHOLDER opcode = emit [ILCacheByte opcode, ILCacheByte opcode, ILCacheWord32 0]"

definition CVM_DEFCASE_OFFSET :: "u32 \<Rightarrow> u32" where
  "CVM_DEFCASE_OFFSET numEntries = 9 + numEntries * 4"

definition CVM_OUT_SWHEAD :: "u32 \<Rightarrow> u32 \<Rightarrow> ILCVMCoder \<Rightarrow> ILCVMCoder" where
  "CVM_OUT_SWHEAD numEntries defCase = emit [ILCacheByte 0xB3, ILCacheWord32 numEntries, ILCacheWord32 defCase]"

definition CVM_OUT_SWENTRY :: "u32 \<Rightarrow> ILCVMCoder \<Rightarrow> ILCVMCoder" where
  "CVM_OUT_SWENTRY relative = ILCacheWord32 relative"

definition CVM_OUT_SWENTRY_PLACEHOLDER :: "ILCVMCoder \<Rightarrow> ILCVMCoder" where
  "CVM_OUT_SWENTRY_PLACEHOLDER = ILCacheWord32 0"

text \<open>Bytes stored at a position of the page.  Those behind the output position are not represented.\<close>

primrec store_bytes :: "nat \<Rightarrow> u8 list \<Rightarrow> u8 list \<Rightarrow> u8 list" where
  "store_bytes i [] xs = xs"
| "store_bytes i (b # bs) xs = store_bytes (Suc i) bs (xs[i := b])"

definition CVM_BACKPATCH_BRANCH :: "nat \<Rightarrow> u32 \<Rightarrow> ILCVMCoder \<Rightarrow> ILCVMCoder" where
  "CVM_BACKPATCH_BRANCH pos relative k =
     (if pos + 2 \<le> limit k then k\<lparr>out := store_bytes (pos + 1) [ucast relative] (out k)\<rparr> else k)"

definition CVM_BACKPATCH_BRANCH_LONG :: "nat \<Rightarrow> u32 \<Rightarrow> ILCVMCoder \<Rightarrow> ILCVMCoder" where
  "CVM_BACKPATCH_BRANCH_LONG pos relative k =
     (if pos + 6 \<le> limit k
      then k\<lparr>out := store_bytes (pos + 2) (le_bytes 4 relative) (store_bytes pos [0xB2] (out k))\<rparr> else k)"

definition CVM_BACKPATCH_SWENTRY :: "u32 \<Rightarrow> nat \<Rightarrow> ILCVMCoder \<Rightarrow> ILCVMCoder" where
  "CVM_BACKPATCH_SWENTRY relative writepc k =
     (if writepc + 4 \<le> limit k then k\<lparr>out := store_bytes writepc (le_bytes 4 relative) (out k)\<rparr> else k)"

section \<open>Defining a label\<close>

definition is_short :: "u32 \<Rightarrow> bool" where
  "is_short relative \<longleftrightarrow> sint relative \<ge> -128 \<and> sint relative \<le> 127"

definition patch_ref :: "u32 \<Rightarrow> label_ref \<Rightarrow> label_coder \<Rightarrow> label_coder" where
  "patch_ref off ref c =
     (let dest = off - ref_offset ref in
      if ref_address ref = ILCVM_LABEL_UNDEF then
        if is_short dest then cvm_update (CVM_BACKPATCH_BRANCH (start c + unat (ref_offset ref)) dest) c
        else cvm_update (CVM_BACKPATCH_BRANCH_LONG (start c + unat (ref_offset ref)) dest) c
      else cvm_update (CVM_BACKPATCH_SWENTRY dest (start c + unat (ref_address ref))) c)"

primrec patch_refs :: "u32 \<Rightarrow> label_ref list \<Rightarrow> label_coder \<Rightarrow> label_coder" where
  "patch_refs off [] c = c"
| "patch_refs off (ref # refs) c = patch_refs off refs (if ILCacheIsFull c then c else patch_ref off ref c)"

text \<open>\<open>unroll\<close> is the answer of \<^verbatim>\<open>_ILCVMUnrollPossible\<close>, which the build configuration fixes.\<close>

definition CVMCoder_Label :: "bool \<Rightarrow> u32 \<Rightarrow> label_coder \<Rightarrow> label_coder" where
  "CVMCoder_Label unroll address c =
     (let c = cvm_update (\<lambda>k. k\<lparr>height := minHeight k\<rparr>) c;
          c = (if unroll then cvm_update (CVM_OUT_NONE 0x00) c else c);
          (label, c) = GetLabel address c
      in case label of
          None \<Rightarrow> c
        | Some i \<Rightarrow>
            let off = code_offset c;
                c = change_label i (lab_offset_update (\<lambda>_. off)) c;
                c = patch_refs off (nextRef (labelList c ! i)) c
            in change_label i (nextRef_update (\<lambda>_. [])) c)"

section \<open>Branches\<close>

definition add_ref :: "nat \<Rightarrow> label_ref \<Rightarrow> label_coder \<Rightarrow> label_coder" where
  "add_ref i ref c =
     (let (ok, c) = ILMemPoolAlloc c in
      if ok then change_label i (nextRef_update (\<lambda>refs. ref # refs)) c else c\<lparr>labelOutOfMemory := True\<rparr>)"

definition OutputBranch :: "u8 \<Rightarrow> u32 \<Rightarrow> label_coder \<Rightarrow> label_coder" where
  "OutputBranch opcode dest c = (case GetLabel dest c of
       (None, c) \<Rightarrow> c
     | (Some i, c) \<Rightarrow>
         if lab_offset (labelList c ! i) \<noteq> ILCVM_LABEL_UNDEF then
           let relative = lab_offset (labelList c ! i) - code_offset c in
           if is_short relative then cvm_update (CVM_OUT_BRANCH opcode relative) c
           else cvm_update (CVM_OUT_BRANCH_LONG opcode relative) c
         else
           cvm_update (CVM_OUT_BRANCH_PLACEHOLDER opcode)
             (add_ref i \<lparr>ref_address = ILCVM_LABEL_UNDEF, ref_offset = code_offset c\<rparr> c))"

section \<open>Switch tables\<close>

definition CVMCoder_SwitchStart :: "u32 \<Rightarrow> label_coder \<Rightarrow> label_coder" where
  "CVMCoder_SwitchStart numEntries c =
     cvm_update (CVM_ADJUST (- 1))
       (cvm_update (CVM_OUT_SWHEAD numEntries (CVM_DEFCASE_OFFSET numEntries)) (c\<lparr>switchStart := CVM_POSN c\<rparr>))"

definition CVMCoder_SwitchEntry :: "u32 \<Rightarrow> label_coder \<Rightarrow> label_coder" where
  "CVMCoder_SwitchEntry dest c = (case GetLabel dest c of
       (None, c) \<Rightarrow> c
     | (Some i, c) \<Rightarrow>
         if lab_offset (labelList c ! i) \<noteq> ILCVM_LABEL_UNDEF then
           let relative = lab_offset (labelList c ! i) - of_int (int (switchStart c) - int (CVM_POSN c)) in
           cvm_update (CVM_OUT_SWENTRY relative) c
         else
           cvm_update CVM_OUT_SWENTRY_PLACEHOLDER
             (add_ref i \<lparr>ref_address = code_offset c,
                ref_offset = of_int (int (switchStart c) - int (start c))\<rparr> c))"

end
