(* ===== verification/BranchTargets.thy ===== *)
theory BranchTargets
  imports CvmcBranch
begin

text \<open>
  What the label machinery of the coder achieves: in the finished code of a method every branch and every
  forward entry of a switch table leads to its label, however emission and definition were interleaved.
\<close>

section \<open>Sites\<close>

text \<open>
  A site is a piece of the emitted code that depends on a label: its position (relative to the start of
  the method) and what is needed to resolve it.  A head is the fixed part of a switch instruction.
  An entry is \<open>forward\<close> if its label was not yet defined when it was emitted.
\<close>

datatype site =
    Branch_site (pos: nat) (site_opcode: u8) (target: u32)
  | Entry_site (pos: nat) (table: nat) (target: u32) (forward: bool)
  | Head_site (pos: nat) (entries: u32)

fun dest :: "site \<Rightarrow> u32 option" where
  "dest (Head_site p n) = None"
| "dest s = Some (target s)"

text \<open>The bytes of a branch with a given displacement.\<close>

definition branch_bytes :: "u8 \<Rightarrow> u32 \<Rightarrow> u8 list" where
  "branch_bytes op relative =
     (if is_short relative then [op, ucast relative, 0, 0, 0, 0] else 0xB2 # op # le_bytes 4 relative)"

fun pending :: "site \<Rightarrow> u8 list" where
  "pending (Branch_site p op d) = [op, op, 0, 0, 0, 0]"
| "pending (Entry_site p sw d f) = [0, 0, 0, 0]"
| "pending (Head_site p n) = 0xB3 # le_bytes 4 n @ le_bytes 4 (9 + n * 4)"

text \<open>The bytes once the label is known.  A backward entry is computed with the wrong sign.\<close>

fun resolved :: "u32 \<Rightarrow> site \<Rightarrow> u8 list" where
  "resolved l (Branch_site p op d) = branch_bytes op (l - of_nat p)"
| "resolved l (Entry_site p sw d f) = le_bytes 4 (if f then l - of_nat sw else l + of_nat (p - sw))"
| "resolved l (Head_site p n) = pending (Head_site p n)"

definition site_bytes :: "(u32 \<Rightarrow> nat option) \<Rightarrow> site \<Rightarrow> u8 list" where
  "site_bytes M s = (case dest s of
       None \<Rightarrow> pending s
     | Some d \<Rightarrow> (case M d of None \<Rightarrow> pending s | Some l \<Rightarrow> resolved (of_nat l) s))"

definition width :: "site \<Rightarrow> nat" where
  "width s = length (pending s)"

declare length_le_bytes [simp]

lemma length_resolved [simp]: "length (resolved l s) = width s"
  by (cases s) (simp_all add: width_def branch_bytes_def)

lemma length_site_bytes [simp]: "length (site_bytes M s) = width s"
  by (simp add: site_bytes_def width_def [symmetric] split: option.split)

section \<open>Coding a method\<close>

text \<open>
  \<open>coding unroll c S M\<close>: the coder is in state \<open>c\<close> after some routines have been called since the start of
  the method, which emitted the sites \<open>S\<close> and defined the labels \<open>M\<close>.  Every other routine
  appends code, and may patch earlier code outside the sites (as the end of a method does with the height
  check at its start); no label is defined twice.
\<close>

definition appends :: "(ILCVMCoder \<Rightarrow> ILCVMCoder) \<Rightarrow> bool" where
  "appends f \<longleftrightarrow> (\<forall>k. limit (f k) = limit k \<and> (\<exists>x. out (f k) = out k @ x))"

definition keeps_sites :: "label_coder \<Rightarrow> site list \<Rightarrow> ILCVMCoder \<Rightarrow> bool" where
  "keeps_sites c S k \<longleftrightarrow> limit k = limit (cvm c) \<and> length (out (cvm c)) \<le> length (out k) \<and>
     (\<forall>s \<in> set S. \<forall>i. start c + pos s \<le> i \<longrightarrow> i < start c + pos s + width s \<longrightarrow> i < length (out (cvm c)) \<longrightarrow> out k ! i = out (cvm c) ! i)"

lemma appends_keeps_sites: "appends f \<Longrightarrow> keeps_sites c S (f (cvm c))"
  unfolding appends_def keeps_sites_def by (metis length_append le_add1 nth_append)

definition here :: "label_coder \<Rightarrow> nat" where
  "here c = CVM_POSN c - start c"

inductive coding :: "bool \<Rightarrow> label_coder \<Rightarrow> site list \<Rightarrow> (u32 \<Rightarrow> nat option) \<Rightarrow> bool" for unroll where
  method_start: "\<lbrakk>labelList c = []; start c = CVM_POSN c\<rbrakk> \<Longrightarrow> coding unroll c [] (\<lambda>_. None)"
| other_code: "\<lbrakk>coding unroll c S M; keeps_sites c S k\<rbrakk> \<Longrightarrow> coding unroll (c\<lparr>cvm := k\<rparr>) S M"
| branch: "coding unroll c S M \<Longrightarrow> coding unroll (OutputBranch op d c) (S @ [Branch_site (here c) op d]) M"
| label: "\<lbrakk>coding unroll c S M; M d = None\<rbrakk> \<Longrightarrow>
    coding unroll (CVMCoder_Label unroll d c) S (M(d \<mapsto> here (CVMCoder_Label unroll d c)))"
| switch_start: "coding unroll c S M \<Longrightarrow> coding unroll (CVMCoder_SwitchStart n c) (S @ [Head_site (here c) n]) M"
| switch_entry: "\<lbrakk>coding unroll c S M; Head_site (switchStart c - start c) n \<in> set S; start c \<le> switchStart c\<rbrakk> \<Longrightarrow>
    coding unroll (CVMCoder_SwitchEntry d c) (S @ [Entry_site (here c) (switchStart c - start c) d (M d = None)]) M"

text \<open>Nothing ran out: neither the page of the method cache nor the pool of labels.\<close>

definition complete :: "label_coder \<Rightarrow> bool" where
  "complete c \<longleftrightarrow> \<not> labelOutOfMemory c \<and> \<not> ILCacheIsFull c \<and> CVM_POSN c < 2 ^ 31"

section \<open>Stored bytes\<close>

definition bytes_at :: "nat \<Rightarrow> nat \<Rightarrow> label_coder \<Rightarrow> u8 list" where
  "bytes_at p n c = take n (drop (start c + p) (out (cvm c)))"

lemma length_store_bytes [simp]: "length (store_bytes i bs xs) = length xs"
  by (induction bs arbitrary: i xs) simp_all

lemma nth_store_bytes:
  "j < length xs \<Longrightarrow> store_bytes i bs xs ! j = (if i \<le> j \<and> j < i + length bs then bs ! (j - i) else xs ! j)"
  by (induction bs arbitrary: i xs) (auto simp: nth_list_update nth_Cons' not_less_eq_eq)

lemma bytes_at_nth: "j < n \<Longrightarrow> start c + p + n \<le> length (out (cvm c)) \<Longrightarrow> bytes_at p n c ! j = out (cvm c) ! (start c + p + j)"
  by (simp add: bytes_at_def add.assoc)

lemma length_bytes_at: "start c + p + n \<le> length (out (cvm c)) \<Longrightarrow> length (bytes_at p n c) = n"
  by (simp add: bytes_at_def)

lemma bytes_at_append:
  assumes "out (cvm c') = out (cvm c) @ x" and "start c' = start c" and "start c + p + n \<le> length (out (cvm c))"
  shows "bytes_at p n c' = bytes_at p n c"
  using assms by (simp add: bytes_at_def)

lemma bytes_at_end:
  assumes "out (cvm c') = out (cvm c) @ x" and "start c' = start c" and "start c \<le> CVM_POSN c" and "n = length x"
  shows "bytes_at (here c) n c' = x"
  using assms by (simp add: bytes_at_def here_def CVM_POSN_def)

text \<open>A store inside a piece of code, and one outside of it.\<close>

lemma bytes_at_store_inside:
  assumes "start c + p \<le> i" and "i + length bs \<le> start c + p + n" and "start c + p + n \<le> length (out (cvm c))"
    and "out (cvm c') = store_bytes i bs (out (cvm c))" and "start c' = start c"
  shows "bytes_at p n c' = store_bytes (i - (start c + p)) bs (bytes_at p n c)"
proof (rule nth_equalityI)
  show "length (bytes_at p n c') = length (store_bytes (i - (start c + p)) bs (bytes_at p n c))"
    using assms by (simp add: length_bytes_at)
  fix j assume "j < length (bytes_at p n c')"
  then have j: "j < n" using assms by (simp add: length_bytes_at)
  have "i \<le> start c + p + j \<longleftrightarrow> i - (start c + p) \<le> j" using assms(1) by linarith
  moreover have "start c + p + j < i + length bs \<longleftrightarrow> j < i - (start c + p) + length bs" using assms(1) by linarith
  moreover have "start c + p + j - i = j - (i - (start c + p))" using assms(1) by linarith
  ultimately show "bytes_at p n c' ! j = store_bytes (i - (start c + p)) bs (bytes_at p n c) ! j"
    using assms(3-5) j by (simp add: bytes_at_nth nth_store_bytes length_bytes_at)
qed

lemma bytes_at_store_outside:
  assumes "i + length bs \<le> start c + p \<or> start c + p + n \<le> i" and "start c + p + n \<le> length (out (cvm c))"
    and "out (cvm c') = store_bytes i bs (out (cvm c))" and "start c' = start c"
  shows "bytes_at p n c' = bytes_at p n c"
  using assms by (intro nth_equalityI) (auto simp: bytes_at_nth nth_store_bytes length_bytes_at)

section \<open>The invariant\<close>

fun site_ref :: "site \<Rightarrow> label_ref" where
  "site_ref (Branch_site p op d) = \<lparr>ref_address = ILCVM_LABEL_UNDEF, ref_offset = of_nat p\<rparr>"
| "site_ref (Entry_site p sw d f) = \<lparr>ref_address = of_nat p, ref_offset = of_nat sw\<rparr>"
| "site_ref (Head_site p n) = \<lparr>ref_address = 0, ref_offset = 0\<rparr>"

definition in_code :: "label_coder \<Rightarrow> site \<Rightarrow> bool" where
  "in_code c s \<longleftrightarrow> start c + pos s + width s \<le> CVM_POSN c"

definition placed :: "label_coder \<Rightarrow> site list \<Rightarrow> bool" where
  "placed c S \<longleftrightarrow> start c \<le> CVM_POSN c \<and> sorted_wrt (\<lambda>s t. pos s + width s \<le> pos t) S \<and> (\<forall>s \<in> set S. in_code c s)"

definition written :: "label_coder \<Rightarrow> site list \<Rightarrow> (site \<Rightarrow> u8 list) \<Rightarrow> bool" where
  "written c S content \<longleftrightarrow> (\<forall>s \<in> set S. bytes_at (pos s) (width s) c = content s)"

definition label_ok :: "label_coder \<Rightarrow> site list \<Rightarrow> (u32 \<Rightarrow> nat option) \<Rightarrow> ILCVMLabel \<Rightarrow> bool" where
  "label_ok c S M l \<longleftrightarrow> (case M (lab_address l) of
       None \<Rightarrow> lab_offset l = ILCVM_LABEL_UNDEF \<and> set (nextRef l) = site_ref ` {s \<in> set S. dest s = Some (lab_address l)}
     | Some q \<Rightarrow> lab_offset l = of_nat q \<and> start c + q \<le> CVM_POSN c)"

definition labels_ok :: "label_coder \<Rightarrow> site list \<Rightarrow> (u32 \<Rightarrow> nat option) \<Rightarrow> bool" where
  "labels_ok c S M \<longleftrightarrow> distinct (map lab_address (labelList c)) \<and> (\<forall>l \<in> set (labelList c). label_ok c S M l) \<and>
     dom M \<union> {d. \<exists>s \<in> set S. dest s = Some d} \<subseteq> lab_address ` set (labelList c)"

definition forward_ok :: "site list \<Rightarrow> (u32 \<Rightarrow> nat option) \<Rightarrow> bool" where
  "forward_ok S M \<longleftrightarrow> (\<forall>p sw d f. Entry_site p sw d f \<in> set S \<longrightarrow> M d = None \<longrightarrow> f)"

definition consistent :: "label_coder \<Rightarrow> site list \<Rightarrow> (u32 \<Rightarrow> nat option) \<Rightarrow> bool" where
  "consistent c S M \<longleftrightarrow> placed c S \<and> written c S (site_bytes M) \<and> labels_ok c S M \<and> forward_ok S M"

text \<open>What every routine preserves in the other direction: a complete end means complete earlier states.\<close>

definition grows :: "label_coder \<Rightarrow> label_coder \<Rightarrow> bool" where
  "grows c c' \<longleftrightarrow> start c' = start c \<and> limit (cvm c') = limit (cvm c) \<and> cacheOutOfMemory c' = cacheOutOfMemory c \<and>
     CVM_POSN c \<le> CVM_POSN c' \<and> (labelOutOfMemory c \<longrightarrow> labelOutOfMemory c')"

lemma grows_complete: "grows c c' \<Longrightarrow> complete c' \<Longrightarrow> complete c"
  by (auto simp: grows_def complete_def ILCacheIsFull_def)

lemma grows_refl [simp]: "grows c c"
  by (simp add: grows_def)

lemma grows_trans [trans]: "grows c d \<Longrightarrow> grows d e \<Longrightarrow> grows c e"
  by (auto simp: grows_def)

lemma appends_grows: "appends f \<Longrightarrow> grows c (cvm_update f c)"
  unfolding appends_def grows_def CVM_POSN_def by (auto dest!: spec [of _ "cvm c"])

lemma gen_appends: "gen f bs k \<Longrightarrow> appends f"
  by (auto simp: gen_def appends_def)

lemma gen_complete:
  assumes "gen f bs k" and "complete (cvm_update f c)"
  shows "out (f (cvm c)) = out (cvm c) @ bs"
  using assms genD [OF assms(1), of "cvm c"] by (auto simp: complete_def ILCacheIsFull_def CVM_POSN_def gen_def)

lemma code_offset_here: "start c \<le> CVM_POSN c \<Longrightarrow> code_offset c = of_nat (here c)"
  by (simp add: code_offset_def here_def flip: of_nat_diff)

section \<open>Emitting sites\<close>

lemma placed_append:
  assumes "placed c S" and "out (cvm c') = out (cvm c) @ x" and "start c' = start c"
  shows "placed c' S"
  using assms by (auto simp: placed_def in_code_def CVM_POSN_def)

lemma written_append:
  assumes "written c S b" and "placed c S" and "out (cvm c') = out (cvm c) @ x" and "start c' = start c"
  shows "written c' S b"
  using assms bytes_at_append [OF assms(3,4)] by (auto simp: written_def placed_def in_code_def CVM_POSN_def)

lemma placed_snoc:
  assumes "placed c S" and "out (cvm c') = out (cvm c) @ x" and "start c' = start c" and "pos s = here c" and "width s = length x"
  shows "placed c' (S @ [s])"
  using assms by (auto simp: placed_def in_code_def CVM_POSN_def here_def sorted_wrt_append)

lemma written_snoc:
  assumes "written c S b" and "placed c S" and "out (cvm c') = out (cvm c) @ b s" and "start c' = start c"
    and "pos s = here c" and "width s = length (b s)"
  shows "written c' (S @ [s]) b"
  using written_append [OF assms(1-4)] bytes_at_end [OF assms(3,4)] assms(2,5,6) by (simp add: written_def placed_def)

section \<open>Labels\<close>

lemma find_label_Some: "find_label d ls = Some i \<Longrightarrow> i < length ls \<and> lab_address (ls ! i) = d"
  by (induction ls arbitrary: i) (auto split: if_splits)

lemma find_label_None: "find_label d ls = None \<longleftrightarrow> d \<notin> lab_address ` set ls"
  by (induction ls) auto

lemma GetLabel_keeps:
  assumes "GetLabel d c = (r, c')"
  shows "cvm c' = cvm c" "switchStart c' = switchStart c" "grows c c'"
  using assms by (auto simp: GetLabel_def ILMemPoolAlloc_def grows_def CVM_POSN_def Let_def split: option.splits if_splits)

lemma label_ok_cong:
  "cvm c' = cvm c \<Longrightarrow> start c' = start c \<Longrightarrow> label_ok c' S M l = label_ok c S M l"
  by (simp add: label_ok_def CVM_POSN_def split: option.split)

lemma GetLabel_labels:
  assumes "GetLabel d c = (r, c')" and "\<not> labelOutOfMemory c'" and "labels_ok c S M"
  shows "\<exists>i. r = Some i \<and> i < length (labelList c') \<and> lab_address (labelList c' ! i) = d \<and> labels_ok c' S M"
proof (cases "find_label d (labelList c)")
  case (Some i)
  with assms(1) have "r = Some i" "c' = c" by (simp_all add: GetLabel_def)
  with assms(3) find_label_Some [OF Some] show ?thesis by simp
next
  case None
  then have fresh: "d \<notin> lab_address ` set (labelList c)" by (simp add: find_label_None)
  with assms(3) have "M d = None" "{s \<in> set S. dest s = Some d} = {}" by (auto simp: labels_ok_def dom_def)
  moreover have "r = Some 0" and "labelList c' = \<lparr>lab_address = d, lab_offset = ILCVM_LABEL_UNDEF, nextRef = []\<rparr> # labelList c"
    using assms(1,2) None by (auto simp: GetLabel_def ILMemPoolAlloc_def Let_def split: if_splits)
  moreover have "label_ok c' S M l = label_ok c S M l" for l
    using GetLabel_keeps [OF assms(1)] by (intro label_ok_cong) (simp_all add: grows_def)
  ultimately show ?thesis using assms(3) fresh
    by (auto simp: labels_ok_def) (auto simp: label_ok_def)
qed

lemma unat_offset: "q < 2 ^ 31 \<Longrightarrow> unat (of_nat q :: u32) = q"
  by (simp add: unsigned_of_nat take_bit_nat_eq_self)

lemma defined_offset:
  assumes "label_ok c S M l" and "complete c"
  shows "lab_offset l = ILCVM_LABEL_UNDEF \<longleftrightarrow> M (lab_address l) = None"
proof (cases "M (lab_address l)")
  case (Some q)
  with assms have "q < 2 ^ 31" and l: "lab_offset l = of_nat q" by (simp_all add: label_ok_def complete_def)
  then have "unat (of_nat q :: u32) \<noteq> unat ILCVM_LABEL_UNDEF" by (simp add: ILCVM_LABEL_UNDEF_def unat_offset)
  with l Some show ?thesis by auto
qed (use assms in \<open>simp add: label_ok_def\<close>)

lemma labels_ok_append:
  assumes "labels_ok c S M" and "labelList c' = labelList c" and "start c' = start c" and "CVM_POSN c \<le> CVM_POSN c'"
  shows "labels_ok c' S M"
  using assms by (auto simp: labels_ok_def label_ok_def split: option.splits)

text \<open>A site whose label is defined, and one that is recorded at its label.\<close>

lemma labels_ok_defined:
  assumes "labels_ok c S M" and "case dest s of None \<Rightarrow> True | Some d \<Rightarrow> M d \<noteq> None"
  shows "labels_ok c (S @ [s]) M"
proof -
  have "label_ok c (S @ [s]) M l = label_ok c S M l" for l
  proof -
    have "{s' \<in> set (S @ [s]). dest s' = Some (lab_address l)} = {s' \<in> set S. dest s' = Some (lab_address l)}"
      if "M (lab_address l) = None" using assms(2) that by (auto split: option.splits)
    then show ?thesis by (auto simp: label_ok_def split: option.split)
  qed
  moreover have "d \<in> lab_address ` set (labelList c)" if "dest s = Some d" for d
    using assms that by (auto simp: labels_ok_def)
  ultimately show ?thesis using assms(1) by (auto simp: labels_ok_def)
qed

lemma labels_ok_recorded:
  assumes "labels_ok c S M" and "i < length (labelList c)" and "dest s = Some (lab_address (labelList c ! i))"
    and "M (lab_address (labelList c ! i)) = None"
  shows "labels_ok (change_label i (nextRef_update (\<lambda>refs. site_ref s # refs)) c) (S @ [s]) M" (is "labels_ok ?c _ _")
proof -
  let ?d = "lab_address (labelList c ! i)" and ?ls = "labelList c"
  have addr: "map lab_address (labelList ?c) = map lab_address ?ls"
    by (simp add: change_label_def map_update list_update_same_conv assms(2))
  have "label_ok ?c (S @ [s]) M l" if l: "l \<in> set (labelList ?c)" for l
  proof -
    from l obtain j where j: "j < length ?ls" "l = labelList ?c ! j" by (auto simp: in_set_conv_nth change_label_def)
    from assms(1) j(1) have ok: "label_ok c S M (?ls ! j)" by (simp add: labels_ok_def)
    show ?thesis
    proof (cases "j = i")
      case True
      with j ok assms(3,4) show ?thesis by (auto simp: label_ok_def change_label_def CVM_POSN_def)
    next
      case False
      with assms(1,2) j(1) have "lab_address (?ls ! j) \<noteq> ?d" by (auto simp: labels_ok_def distinct_conv_nth)
      with False j ok assms(3) show ?thesis
        by (auto simp: label_ok_def change_label_def CVM_POSN_def split: option.splits)
    qed
  qed
  moreover have "lab_address ` set (labelList ?c) = lab_address ` set ?ls" using arg_cong [OF addr, of set] by simp
  ultimately show ?thesis using assms(1-3) addr unfolding labels_ok_def by auto
qed

section \<open>Routines that emit code\<close>

lemma gens_branch:
  "gen (CVM_OUT_BRANCH op r) [op, ucast r, 0, 0, 0, 0] 0"
  "gen (CVM_OUT_BRANCH_LONG op r) (0xB2 # op # le_bytes 4 r) 0"
  "gen (CVM_OUT_BRANCH_PLACEHOLDER op) [op, op, 0, 0, 0, 0] 0"
  "gen (CVM_OUT_SWHEAD n (CVM_DEFCASE_OFFSET n)) (pending (Head_site p n)) 0"
  "gen (CVM_OUT_SWENTRY r) (le_bytes 4 r) 0"
  "gen CVM_OUT_SWENTRY_PLACEHOLDER [0, 0, 0, 0] 0"
proof -
  have z: "le_bytes 4 (0 :: u32) = [0, 0, 0, 0]" by code_simp
  note defs = CVM_OUT_BRANCH_def CVM_OUT_BRANCH_LONG_def CVM_OUT_BRANCH_PLACEHOLDER_def CVM_OUT_SWHEAD_def
    CVM_OUT_SWENTRY_def CVM_OUT_SWENTRY_PLACEHOLDER_def CVM_DEFCASE_OFFSET_def
  show "gen (CVM_OUT_BRANCH op r) [op, ucast r, 0, 0, 0, 0] 0"
    "gen (CVM_OUT_BRANCH_LONG op r) (0xB2 # op # le_bytes 4 r) 0"
    "gen (CVM_OUT_BRANCH_PLACEHOLDER op) [op, op, 0, 0, 0, 0] 0"
    "gen (CVM_OUT_SWHEAD n (CVM_DEFCASE_OFFSET n)) (pending (Head_site p n)) 0"
    "gen (CVM_OUT_SWENTRY r) (le_bytes 4 r) 0"
    "gen CVM_OUT_SWENTRY_PLACEHOLDER [0, 0, 0, 0] 0"
    unfolding defs by (rule gen_emit gen_ILCacheByte gen_ILCacheWord32 gen_ILCacheWord32 [of 0, unfolded z] gen_Nil | simp add: z)+
qed

lemma add_ref_keeps:
  "cvm (add_ref i r c) = cvm c" "start (add_ref i r c) = start c" "grows c (add_ref i r c)"
  by (simp_all add: add_ref_def ILMemPoolAlloc_def grows_def change_label_def CVM_POSN_def)

lemma add_ref_records:
  "\<not> labelOutOfMemory (add_ref i r c) \<Longrightarrow> labelList (add_ref i r c) = labelList (change_label i (nextRef_update (\<lambda>refs. r # refs)) c)"
  by (simp add: add_ref_def ILMemPoolAlloc_def change_label_def split: if_splits)

lemma site_step_defined:
  assumes "consistent c S M" and "GetLabel d c = (r, c1)" and "complete (cvm_update f c1)" and "gen f (resolved (of_nat l) s) k"
    and "dest s = Some d" and "pos s = here c" and "M d = Some l" and "forward_ok [s] M"
  shows "consistent (cvm_update f c1) (S @ [s]) M"
proof -
  note keeps = GetLabel_keeps [OF assms(2)]
  let ?c = "cvm_update f c1"
  have oom: "\<not> labelOutOfMemory c1" using assms(3) by (simp add: complete_def)
  have o: "out (cvm ?c) = out (cvm c) @ site_bytes M s" and st: "start ?c = start c"
    using gen_complete [OF assms(4,3)] keeps assms(5,7) by (simp_all add: site_bytes_def grows_def)
  from assms(1) have inv: "placed c S" "written c S (site_bytes M)" "labels_ok c S M" "forward_ok S M" by (simp_all add: consistent_def)
  from GetLabel_labels [OF assms(2) oom inv(3)] have "labels_ok c1 S M" by blast
  then have "labels_ok ?c S M" using o st keeps by (elim labels_ok_append) (simp_all add: CVM_POSN_def)
  then have "labels_ok ?c (S @ [s]) M" using assms(5,7) by (intro labels_ok_defined) simp_all
  moreover have "forward_ok (S @ [s]) M" using inv(4) assms(8) by (auto simp: forward_ok_def)
  ultimately show ?thesis
    using placed_snoc [OF inv(1) o st assms(6)] written_snoc [OF inv(2,1) o st assms(6)] by (simp add: consistent_def)
qed

lemma site_step_undefined:
  assumes "consistent c S M" and "GetLabel d c = (Some i, c1)" and "complete (cvm_update f (add_ref i (site_ref s) c1))"
    and "gen f (pending s) k" and "dest s = Some d" and "pos s = here c" and "M d = None" and "forward_ok [s] M"
  shows "consistent (cvm_update f (add_ref i (site_ref s) c1)) (S @ [s]) M"
proof -
  note keeps = GetLabel_keeps [OF assms(2)]
  let ?a = "add_ref i (site_ref s) c1" and ?c = "cvm_update f (add_ref i (site_ref s) c1)"
  have oom: "\<not> labelOutOfMemory ?a" using assms(3) by (simp add: complete_def)
  then have oom1: "\<not> labelOutOfMemory c1" using add_ref_keeps(3) [of c1 i "site_ref s"] by (auto simp: grows_def)
  have o: "out (cvm ?c) = out (cvm c) @ site_bytes M s" and st: "start ?c = start c"
    using gen_complete [OF assms(4,3)] keeps assms(5,7) by (simp_all add: site_bytes_def grows_def add_ref_keeps)
  from assms(1) have inv: "placed c S" "written c S (site_bytes M)" "labels_ok c S M" "forward_ok S M" by (simp_all add: consistent_def)
  from GetLabel_labels [OF assms(2) oom1 inv(3)] have l: "i < length (labelList c1)" "lab_address (labelList c1 ! i) = d" "labels_ok c1 S M"
    by auto
  let ?r = "change_label i (nextRef_update (\<lambda>refs. site_ref s # refs)) c1"
  have "labels_ok ?r (S @ [s]) M" by (rule labels_ok_recorded) (use l assms(5,7) in simp_all)
  moreover have "start ?r = start c" "CVM_POSN ?r = CVM_POSN c" "labelList ?c = labelList ?r"
    using keeps add_ref_records [OF oom] by (simp_all add: change_label_def grows_def CVM_POSN_def)
  ultimately have "labels_ok ?c (S @ [s]) M" using o st by (elim labels_ok_append) (simp_all add: CVM_POSN_def)
  moreover have "forward_ok (S @ [s]) M" using inv(4) assms(8) by (auto simp: forward_ok_def)
  ultimately show ?thesis
    using placed_snoc [OF inv(1) o st assms(6)] written_snoc [OF inv(2,1) o st assms(6)] by (simp add: consistent_def)
qed

lemma emits_grows: "gen f bs k \<Longrightarrow> grows c (cvm_update f c)"
  by (blast intro: appends_grows gen_appends)

lemma emits_ref_grows: "gen f bs k \<Longrightarrow> grows c (cvm_update f (add_ref i r c))"
  by (rule grows_trans [OF add_ref_keeps(3) emits_grows])

lemmas branch_grows = gens_branch(1-3,5,6) [THEN emits_grows] gens_branch(3,6) [THEN emits_ref_grows]

lemma OutputBranch_grows: "grows c (OutputBranch op d c)"
proof -
  obtain r c1 where g: "GetLabel d c = (r, c1)" by force
  have e: "grows c c1" by (rule GetLabel_keeps(3) [OF g])
  have "grows c1 (OutputBranch op d c)"
    by (simp add: OutputBranch_def g Let_def branch_grows split: option.split)
  with e show ?thesis by (rule grows_trans)
qed

lemma SwitchEntry_grows: "grows c (CVMCoder_SwitchEntry d c)"
proof -
  obtain r c1 where g: "GetLabel d c = (r, c1)" by force
  have e: "grows c c1" by (rule GetLabel_keeps(3) [OF g])
  have "grows c1 (CVMCoder_SwitchEntry d c)"
    by (simp add: CVMCoder_SwitchEntry_def g Let_def branch_grows split: option.split)
  with e show ?thesis by (rule grows_trans)
qed

lemma GetLabel_defined:
  assumes "consistent c S M" and "GetLabel d c = (r, c1)" and "complete c1"
  obtains i where "r = Some i" and "lab_offset (labelList c1 ! i) = ILCVM_LABEL_UNDEF \<longleftrightarrow> M d = None"
    and "\<forall>l. M d = Some l \<longrightarrow> lab_offset (labelList c1 ! i) = of_nat l"
proof -
  have "labels_ok c S M" "\<not> labelOutOfMemory c1" using assms(1,3) by (simp_all add: consistent_def complete_def)
  from GetLabel_labels [OF assms(2) this(2,1)] obtain i where
    i: "r = Some i" "i < length (labelList c1)" "lab_address (labelList c1 ! i) = d" "labels_ok c1 S M" by blast
  then have "label_ok c1 S M (labelList c1 ! i)" by (simp add: labels_ok_def)
  with defined_offset [OF this assms(3)] i that [of i] show thesis by (auto simp: label_ok_def)
qed

lemma code_step:
  assumes "consistent c S M" and "keeps_sites c S k"
  shows "consistent (c\<lparr>cvm := k\<rparr>) S M"
proof -
  from assms(1) have inv: "placed c S" "written c S (site_bytes M)" "labels_ok c S M" "forward_ok S M" by (simp_all add: consistent_def)
  have grow: "CVM_POSN c \<le> CVM_POSN (c\<lparr>cvm := k\<rparr>)" using assms(2) by (simp add: keeps_sites_def CVM_POSN_def)
  have "bytes_at (pos s) (width s) (c\<lparr>cvm := k\<rparr>) = bytes_at (pos s) (width s) c" if s: "s \<in> set S" for s
  proof (rule nth_equalityI)
    have le: "start c + pos s + width s \<le> length (out (cvm c))" using inv(1) s by (simp add: placed_def in_code_def CVM_POSN_def)
    with grow have le': "start c + pos s + width s \<le> length (out k)" by (simp add: CVM_POSN_def)
    with le show "length (bytes_at (pos s) (width s) (c\<lparr>cvm := k\<rparr>)) = length (bytes_at (pos s) (width s) c)"
      by (simp add: length_bytes_at)
    fix i assume "i < length (bytes_at (pos s) (width s) (c\<lparr>cvm := k\<rparr>))"
    with le' have "i < width s" by (simp add: length_bytes_at)
    with le le' s assms(2) show "bytes_at (pos s) (width s) (c\<lparr>cvm := k\<rparr>) ! i = bytes_at (pos s) (width s) c ! i"
      by (simp add: bytes_at_nth keeps_sites_def)
  qed
  with inv(2) have "written (c\<lparr>cvm := k\<rparr>) S (site_bytes M)" by (simp add: written_def)
  moreover have "placed (c\<lparr>cvm := k\<rparr>) S" using inv(1) grow by (auto simp: placed_def in_code_def)
  moreover have "labels_ok (c\<lparr>cvm := k\<rparr>) S M" by (rule labels_ok_append [OF inv(3)]) (use grow in simp_all)
  ultimately show ?thesis using inv(4) by (simp add: consistent_def)
qed

lemma cvm_update_const: "c\<lparr>cvm := f (cvm c)\<rparr> = cvm_update f c"
  by (cases c) simp

lemma append_step: "consistent c S M \<Longrightarrow> appends f \<Longrightarrow> consistent (cvm_update f c) S M"
  by (rule code_step [OF _ appends_keeps_sites, unfolded cvm_update_const])

lemma OutputBranch_step:
  assumes "consistent c S M" and "complete (OutputBranch op d c)"
  shows "consistent (OutputBranch op d c) (S @ [Branch_site (here c) op d]) M"
proof -
  let ?s = "Branch_site (here c) op d"
  obtain r c1 where g: "GetLabel d c = (r, c1)" by force
  note keeps = GetLabel_keeps [OF g]
  have e1: "grows c1 (OutputBranch op d c)"
    by (simp add: OutputBranch_def g Let_def branch_grows split: option.split)
  obtain i where i: "r = Some i" "lab_offset (labelList c1 ! i) = ILCVM_LABEL_UNDEF \<longleftrightarrow> M d = None"
    "\<forall>l. M d = Some l \<longrightarrow> lab_offset (labelList c1 ! i) = of_nat l"
    by (rule GetLabel_defined [OF assms(1) g grows_complete [OF e1 assms(2)]])
  have "start c \<le> CVM_POSN c" using assms(1) by (simp add: consistent_def placed_def)
  then have off: "code_offset c1 = of_nat (here c)"
    using keeps code_offset_here [of c1] by (simp add: CVM_POSN_def grows_def here_def)
  have fwd: "forward_ok [?s] M" by (simp add: forward_ok_def)
  show ?thesis
  proof (cases "M d")
    case None
    then have "OutputBranch op d c = cvm_update (CVM_OUT_BRANCH_PLACEHOLDER op) (add_ref i (site_ref ?s) c1)"
      using i(1,2) by (simp add: OutputBranch_def g off)
    with site_step_undefined [OF assms(1) g [unfolded i(1)], of "CVM_OUT_BRANCH_PLACEHOLDER op" ?s 0] assms(2) gens_branch(3) None fwd
    show ?thesis by simp
  next
    case (Some l)
    let ?r = "of_nat l - of_nat (here c) :: u32" and ?f = "\<lambda>r. if is_short r then CVM_OUT_BRANCH op r else CVM_OUT_BRANCH_LONG op r"
    have "OutputBranch op d c = cvm_update (?f ?r) c1"
      using i(1,2) i(3) [rule_format, OF Some] Some by (simp add: OutputBranch_def g off Let_def)
    moreover have "gen (?f ?r) (resolved (of_nat l) ?s) 0"
      using gens_branch(1,2) by (simp add: branch_bytes_def)
    ultimately show ?thesis
      using site_step_defined [OF assms(1) g, of "?f ?r" l ?s 0 ] assms(2) Some fwd by simp
  qed
qed

lemma SwitchEntry_step:
  assumes "consistent c S M" and "complete (CVMCoder_SwitchEntry d c)"
    and "Head_site (switchStart c - start c) n \<in> set S" and "start c \<le> switchStart c"
  shows "consistent (CVMCoder_SwitchEntry d c) (S @ [Entry_site (here c) (switchStart c - start c) d (M d = None)]) M"
proof -
  let ?sw = "switchStart c - start c"
  let ?s = "Entry_site (here c) ?sw d (M d = None)"
  obtain r c1 where g: "GetLabel d c = (r, c1)" by force
  note keeps = GetLabel_keeps [OF g]
  have e1: "grows c1 (CVMCoder_SwitchEntry d c)"
    by (simp add: CVMCoder_SwitchEntry_def g Let_def branch_grows split: option.split)
  obtain i where i: "r = Some i" "lab_offset (labelList c1 ! i) = ILCVM_LABEL_UNDEF \<longleftrightarrow> M d = None"
    "\<forall>l. M d = Some l \<longrightarrow> lab_offset (labelList c1 ! i) = of_nat l"
    by (rule GetLabel_defined [OF assms(1) g grows_complete [OF e1 assms(2)]])
  have st: "start c \<le> CVM_POSN c" and "in_code c (Head_site ?sw n)"
    using assms(1,3) by (auto simp: consistent_def placed_def)
  then have sw: "switchStart c \<le> CVM_POSN c" by (simp add: in_code_def)
  from st have off: "code_offset c1 = of_nat (here c)" "of_nat (switchStart c1) - of_nat (start c1) = (of_nat ?sw :: u32)"
    using keeps code_offset_here [of c1] assms(4) by (simp_all add: CVM_POSN_def grows_def here_def of_nat_diff)
  have fwd: "forward_ok [?s] M" by (simp add: forward_ok_def)
  show ?thesis
  proof (cases "M d")
    case None
    then have "CVMCoder_SwitchEntry d c = cvm_update CVM_OUT_SWENTRY_PLACEHOLDER (add_ref i (site_ref ?s) c1)"
      using i(1,2) by (simp add: CVMCoder_SwitchEntry_def g off)
    with site_step_undefined [OF assms(1) g [unfolded i(1)], of CVM_OUT_SWENTRY_PLACEHOLDER ?s 0] assms(2) gens_branch(6) None fwd
    show ?thesis by simp
  next
    case (Some l)
    have "here c - ?sw = CVM_POSN c - switchStart c" using assms(4) by (simp add: here_def)
    then have neg: "of_nat (switchStart c1) - of_nat (CVM_POSN c1) = - (of_nat (here c - ?sw) :: u32)"
      using keeps sw by (simp add: CVM_POSN_def of_nat_diff)
    have "CVMCoder_SwitchEntry d c = cvm_update (CVM_OUT_SWENTRY (of_nat l + of_nat (here c - ?sw))) c1"
      using i(1,2) i(3) [rule_format, OF Some] Some by (simp add: CVMCoder_SwitchEntry_def g neg Let_def)
    moreover have "gen (CVM_OUT_SWENTRY (of_nat l + of_nat (here c - ?sw))) (resolved (of_nat l) ?s) 0"
      using gens_branch(5) Some by simp
    ultimately show ?thesis
      using site_step_defined [OF assms(1) g, of _ l ?s 0] assms(2) Some fwd by simp
  qed
qed

lemma SwitchStart_grows: "grows c (CVMCoder_SwitchStart n c)"
proof -
  have "grows c (c\<lparr>switchStart := CVM_POSN c\<rparr>)" by (simp add: grows_def CVM_POSN_def)
  then show ?thesis unfolding CVMCoder_SwitchStart_def
    by (blast intro: grows_trans emits_grows gens_branch(4) gen_ADJUST)
qed

lemma SwitchStart_step:
  assumes "consistent c S M" and "complete (CVMCoder_SwitchStart n c)"
  shows "consistent (CVMCoder_SwitchStart n c) (S @ [Head_site (here c) n]) M"
proof -
  let ?s = "Head_site (here c) n" and ?f = "CVM_OUT_SWHEAD n (CVM_DEFCASE_OFFSET n)" and ?c = "c\<lparr>switchStart := CVM_POSN c\<rparr>"
  have ext: "grows (cvm_update ?f ?c) (CVMCoder_SwitchStart n c)"
    unfolding CVMCoder_SwitchStart_def by (rule emits_grows [OF gen_ADJUST])
  have o: "out (cvm (cvm_update ?f ?c)) = out (cvm c) @ site_bytes M ?s" "start (cvm_update ?f ?c) = start c"
    using gen_complete [OF gens_branch(4) grows_complete [OF ext assms(2)], of "here c"] by (simp_all add: site_bytes_def)
  from assms(1) have inv: "placed c S" "written c S (site_bytes M)" "labels_ok c S M" "forward_ok S M" by (simp_all add: consistent_def)
  have "labels_ok c (S @ [?s]) M" using inv(3) by (rule labels_ok_defined) simp
  then have "labels_ok (cvm_update ?f ?c) (S @ [?s]) M" by (rule labels_ok_append) (use o in \<open>simp_all add: CVM_POSN_def\<close>)
  moreover have "forward_ok (S @ [?s]) M" using inv(4) by (auto simp: forward_ok_def)
  ultimately have "consistent (cvm_update ?f ?c) (S @ [?s]) M"
    using placed_snoc [OF inv(1) o] written_snoc [OF inv(2,1) o] by (simp add: consistent_def)
  then show ?thesis unfolding CVMCoder_SwitchStart_def by (rule append_step) (rule gen_appends [OF gen_ADJUST])
qed

section \<open>Defining a label\<close>

lemma placed_apart:
  assumes "placed c S" and "s \<in> set S" and "t \<in> set S" and "s \<noteq> t"
  shows "pos s + width s \<le> pos t \<or> pos t + width t \<le> pos s"
proof -
  from assms(2,3) obtain i j where ij: "i < length S" "j < length S" "s = S ! i" "t = S ! j" by (auto simp: in_set_conv_nth)
  with assms(4) have "i < j \<or> j < i" by (metis nat_neq_iff)
  moreover have "sorted_wrt (\<lambda>s t. pos s + width s \<le> pos t) S" using assms(1) by (simp add: placed_def)
  ultimately show ?thesis using ij by (auto dest: sorted_wrt_nth_less)
qed

text \<open>A store inside one site changes the bytes of this site only.\<close>

lemma store_in_site:
  assumes "written c S b" and "placed c S" and "t \<in> set S" and "i + length bs \<le> width t"
    and "cvm c' = cvm c\<lparr>out := store_bytes (start c + pos t + i) bs (out (cvm c))\<rparr>" and "start c' = start c"
  shows "written c' S (b(t := store_bytes i bs (b t)))"
  unfolding written_def
proof
  fix s assume s: "s \<in> set S"
  with assms(2) have le: "start c + pos s + width s \<le> length (out (cvm c))" by (simp add: placed_def in_code_def CVM_POSN_def)
  have o: "out (cvm c') = store_bytes (start c + pos t + i) bs (out (cvm c))" using assms(5) by simp
  have old: "bytes_at (pos s) (width s) c = b s" using assms(1) s by (simp add: written_def)
  show "bytes_at (pos s) (width s) c' = (b(t := store_bytes i bs (b t))) s"
  proof (cases "s = t")
    case True
    with bytes_at_store_inside [OF _ _ le o assms(6)] assms(4) old show ?thesis by simp
  next
    case False
    with placed_apart [OF assms(2) s assms(3)] assms(4) bytes_at_store_outside [OF _ le o assms(6)] old show ?thesis by auto
  qed
qed

definition same_frame :: "label_coder \<Rightarrow> label_coder \<Rightarrow> bool" where
  "same_frame c c' \<longleftrightarrow> start c' = start c \<and> limit (cvm c') = limit (cvm c) \<and> CVM_POSN c' = CVM_POSN c \<and>
     labelList c' = labelList c \<and> cacheOutOfMemory c' = cacheOutOfMemory c \<and> labelOutOfMemory c' = labelOutOfMemory c"

lemma patch_ref_frame: "same_frame c (patch_ref off ref c)"
  by (simp add: same_frame_def patch_ref_def Let_def CVM_POSN_def CVM_BACKPATCH_BRANCH_def CVM_BACKPATCH_BRANCH_LONG_def
      CVM_BACKPATCH_SWENTRY_def)

lemma same_frame_trans: "same_frame c d \<Longrightarrow> same_frame d e \<Longrightarrow> same_frame c e"
  by (simp add: same_frame_def)

lemma patch_refs_frame: "same_frame c (patch_refs off refs c)"
proof (induction refs arbitrary: c)
  case (Cons ref refs)
  show ?case using Cons [of c] same_frame_trans [OF patch_ref_frame Cons] by simp
qed (simp add: same_frame_def)

lemma same_frame_placed: "same_frame c c' \<Longrightarrow> placed c S \<Longrightarrow> placed c' S"
  by (simp add: same_frame_def placed_def in_code_def)

lemma same_frame_complete: "same_frame c c' \<Longrightarrow> complete c' = complete c"
  by (simp add: same_frame_def complete_def ILCacheIsFull_def)

lemma le_bytes_4: "le_bytes 4 v = [ucast v, ucast (drop_bit 8 v), ucast (drop_bit 16 v), ucast (drop_bit 24 v)]"
  by (simp add: le_bytes_def eval_nat_numeral)

lemma patch_site:
  assumes "written c S b" and "placed c S" and "complete c" and "t \<in> set S" and "dest t = Some d"
    and "\<And>p sw f. t = Entry_site p sw d f \<Longrightarrow> f" and "b t \<in> {pending t, resolved off t}"
  shows "written (patch_ref off (site_ref t) c) S (b(t := resolved off t))"
proof -
  have inside: "start c + pos t + width t \<le> CVM_POSN c" using assms(2,4) by (simp add: placed_def in_code_def)
  with assms(3) have bound: "pos t < 2 ^ 31" "start c + pos t + width t \<le> limit (cvm c)"
    by (auto simp: complete_def ILCacheIsFull_def)
  let ?rel = "off - of_nat (pos t) :: u32"
  show ?thesis
  proof (cases t)
    case t: (Branch_site p op d')
    have w: "width t = 6" by (simp add: t width_def)
    have p: "unat (of_nat p :: u32) = p" using bound(1) by (simp add: t unat_offset)
    show ?thesis
    proof (cases "is_short ?rel")
      case True
      have c': "cvm (patch_ref off (site_ref t) c) =
          cvm c\<lparr>out := store_bytes (start c + pos t + 1) [ucast ?rel] (out (cvm c))\<rparr>" "start (patch_ref off (site_ref t) c) = start c"
        using True bound(2) w by (simp_all add: t patch_ref_def CVM_BACKPATCH_BRANCH_def p)
      have "store_bytes 1 [ucast ?rel] (b t) = resolved off t"
        using assms(7) True by (auto simp: t branch_bytes_def)
      with store_in_site [OF assms(1,2,4) _ c'] w show ?thesis by simp
    next
      case False
      let ?c = "cvm_update (\<lambda>k. k\<lparr>out := store_bytes (start c + pos t + 0) [0xB2] (out k)\<rparr>) c"
      have c': "cvm (patch_ref off (site_ref t) c) =
          cvm ?c\<lparr>out := store_bytes (start ?c + pos t + 2) (le_bytes 4 ?rel) (out (cvm ?c))\<rparr>" "start (patch_ref off (site_ref t) c) = start ?c"
        using False bound(2) w by (simp_all add: t patch_ref_def CVM_BACKPATCH_BRANCH_LONG_def p)
      have s1: "written ?c S (b(t := store_bytes 0 [0xB2] (b t)))"
        by (rule store_in_site [OF assms(1,2,4)]) (simp_all add: w)
      have "placed ?c S" using assms(2) by (simp add: placed_def in_code_def CVM_POSN_def)
      from store_in_site [OF s1 this assms(4) _ c'] w
      have "written (patch_ref off (site_ref t) c) S (b(t := store_bytes 2 (le_bytes 4 ?rel) (store_bytes 0 [0xB2] (b t))))" by simp
      moreover have "store_bytes 2 (le_bytes 4 ?rel) (store_bytes 0 [0xB2] (b t)) = resolved off t"
        using assms(7) False by (auto simp: t branch_bytes_def le_bytes_4 numeral_2_eq_2)
      ultimately show ?thesis by simp
    qed
  next
    case t: (Entry_site p sw d' f)
    have w: "width t = 4" by (simp add: t width_def)
    have p: "unat (of_nat p :: u32) = p" using bound(1) by (simp add: t unat_offset)
    then have "of_nat p \<noteq> ILCVM_LABEL_UNDEF" using bound(1) by (auto simp: t ILCVM_LABEL_UNDEF_def)
    then have c': "cvm (patch_ref off (site_ref t) c) =
        cvm c\<lparr>out := store_bytes (start c + pos t + 0) (le_bytes 4 (off - of_nat sw)) (out (cvm c))\<rparr>" "start (patch_ref off (site_ref t) c) = start c"
      using bound(2) w by (simp_all add: t patch_ref_def CVM_BACKPATCH_SWENTRY_def p Let_def)
    have "f" using assms(5,6) t by simp
    then have "store_bytes 0 (le_bytes 4 (off - of_nat sw)) (b t) = resolved off t"
      using assms(7) by (auto simp: t le_bytes_4 numeral_2_eq_2)
    with store_in_site [OF assms(1,2,4) _ c'] w show ?thesis by simp
  qed (use assms(5) in simp)
qed

lemma site_ref_inj:
  assumes "placed c S" and "complete c" and "s \<in> set S" and "t \<in> set S" and "dest s = Some d" and "dest t = Some d"
    and "site_ref s = site_ref t"
  shows "s = t"
proof (rule ccontr)
  assume "s \<noteq> t"
  have small: "pos u < 2 ^ 31" "0 < width u" if "u \<in> set S" for u
    using assms(1,2) that by (auto simp: placed_def in_code_def complete_def width_def, cases u) auto
  have "of_nat (pos u) \<noteq> ILCVM_LABEL_UNDEF" if "u \<in> set S" for u
    using unat_offset [OF small(1) [OF that]] small(1) [OF that] by (auto simp: ILCVM_LABEL_UNDEF_def)
  from this [OF assms(3)] this [OF assms(4)] have "(of_nat (pos s) :: u32) = of_nat (pos t)"
    using assms(5-7) by (cases s; cases t) auto
  then have "pos s = pos t" using unat_offset small(1) assms(3,4) by metis
  with placed_apart [OF assms(1,3,4) \<open>s \<noteq> t\<close>] small(2) assms(3,4) show False by fastforce
qed

text \<open>The sites in \<open>D\<close> have been patched.\<close>

definition partly :: "u32 \<Rightarrow> (u32 \<Rightarrow> nat option) \<Rightarrow> site set \<Rightarrow> site \<Rightarrow> u8 list" where
  "partly off M D s = (if s \<in> D then resolved off s else site_bytes M s)"

lemma patch_refs_written:
  assumes "written c S (partly off M D)" and "placed c S" and "complete c" and "M d = None" and "forward_ok S M"
    and "D \<subseteq> {s \<in> set S. dest s = Some d}" and "set refs \<subseteq> site_ref ` {s \<in> set S. dest s = Some d}"
  shows "\<exists>D'. D \<subseteq> D' \<and> D' \<subseteq> {s \<in> set S. dest s = Some d} \<and> set refs \<subseteq> site_ref ` D' \<and>
    written (patch_refs off refs c) S (partly off M D')"
  using assms
proof (induction refs arbitrary: c D)
  case Nil
  then show ?case by auto
next
  case (Cons ref refs)
  from Cons.prems(7) obtain t where t: "t \<in> set S" "dest t = Some d" "ref = site_ref t" by auto
  have "b \<in> {pending t, resolved off t}" if "b = partly off M D t" for b
    using that t(2) Cons.prems(4) by (simp add: partly_def site_bytes_def)
  moreover have "f" if "t = Entry_site p sw d f" for p sw f using Cons.prems(4,5) t(1) that by (auto simp: forward_ok_def)
  ultimately have "written (patch_ref off ref c) S ((partly off M D)(t := resolved off t))"
    unfolding t(3) using patch_site [OF Cons.prems(1-3) t(1,2)] by blast
  moreover have "(partly off M D)(t := resolved off t) = partly off M (insert t D)" by (auto simp: partly_def)
  ultimately have w: "written (patch_ref off ref c) S (partly off M (insert t D))" by simp
  have frame: "placed (patch_ref off ref c) S" "complete (patch_ref off ref c)"
    using same_frame_placed [OF patch_ref_frame Cons.prems(2)] same_frame_complete [OF patch_ref_frame] Cons.prems(3) by blast+
  have "insert t D \<subseteq> {s \<in> set S. dest s = Some d}" using Cons.prems(6) t by simp
  from Cons.IH [OF w frame Cons.prems(4,5) this] Cons.prems(7) obtain D' where
    D': "insert t D \<subseteq> D'" "D' \<subseteq> {s \<in> set S. dest s = Some d}" "set refs \<subseteq> site_ref ` D'"
      "written (patch_refs off refs (patch_ref off ref c)) S (partly off M D')" by auto
  have "\<not> ILCacheIsFull c" using Cons.prems(3) by (simp add: complete_def)
  with D' t(3) show ?case by (intro exI [of _ D']) auto
qed

lemma patched_sites:
  assumes "written c S (site_bytes M)" and "placed c S" and "complete c" and "M d = None" and "forward_ok S M"
    and "set refs = site_ref ` {s \<in> set S. dest s = Some d}"
  shows "written (patch_refs (of_nat l) refs c) S (site_bytes (M(d \<mapsto> l)))"
proof -
  have "written c S (partly (of_nat l) M {})" using assms(1) by (simp add: written_def partly_def)
  from patch_refs_written [OF this assms(2-5) empty_subsetI, of refs] obtain D where
    D: "D \<subseteq> {s \<in> set S. dest s = Some d}" "site_ref ` {s \<in> set S. dest s = Some d} \<subseteq> site_ref ` D"
      "written (patch_refs (of_nat l) refs c) S (partly (of_nat l) M D)" unfolding assms(6) by blast
  have "s \<in> D" if s: "s \<in> set S" "dest s = Some d" for s
  proof -
    from D(2) s obtain t where "t \<in> D" "site_ref s = site_ref t" by blast
    with site_ref_inj [OF assms(2,3) s(1) _ s(2), of t] D(1) show ?thesis by auto
  qed
  then have "partly (of_nat l) M D s = site_bytes (M(d \<mapsto> l)) s" if "s \<in> set S" for s
    using D(1) that assms(4) by (auto simp: partly_def site_bytes_def split: option.split)
  with D(3) show ?thesis by (simp add: written_def)
qed

lemma GetLabel_consistent:
  assumes "consistent c S M" and "GetLabel d c = (r, c')" and "\<not> labelOutOfMemory c'"
  shows "consistent c' S M"
proof -
  note keeps = GetLabel_keeps [OF assms(2)]
  from assms(1) GetLabel_labels [OF assms(2,3)] keeps(1,3) show ?thesis
    by (auto simp: consistent_def placed_def written_def in_code_def bytes_at_def CVM_POSN_def grows_def)
qed

text \<open>The state of \<^const>\<open>CVMCoder_Label\<close> before it looks up the label.\<close>

definition label_entry :: "bool \<Rightarrow> label_coder \<Rightarrow> label_coder" where
  "label_entry unroll c = (let c = cvm_update (\<lambda>k. k\<lparr>height := minHeight k\<rparr>) c
     in if unroll then cvm_update (CVM_OUT_NONE 0x00) c else c)"

lemma label_entry_appends: "\<exists>f. appends f \<and> label_entry unroll c = cvm_update f c"
proof (cases unroll)
  case True
  have "appends (CVM_OUT_NONE 0x00 \<circ> (\<lambda>k. k\<lparr>height := minHeight k\<rparr>))"
    by (simp add: appends_def CVM_OUT_NONE_def ILCacheByte_def)
  with True show ?thesis unfolding label_entry_def Let_def by auto
next
  case False
  have "appends (\<lambda>k. k\<lparr>height := minHeight k\<rparr>)" by (simp add: appends_def)
  with False show ?thesis unfolding label_entry_def Let_def by auto
qed

lemma CVMCoder_Label_split:
  "CVMCoder_Label unroll d c = (case GetLabel d (label_entry unroll c) of
     (None, c) \<Rightarrow> c
   | (Some i, c) \<Rightarrow> change_label i (nextRef_update (\<lambda>_. []))
       (patch_refs (code_offset c) (nextRef (labelList (change_label i (lab_offset_update (\<lambda>_. code_offset c)) c) ! i))
         (change_label i (lab_offset_update (\<lambda>_. code_offset c)) c)))"
  unfolding CVMCoder_Label_def label_entry_def Let_def ..

lemma change_label_frame [simp]:
  "cvm (change_label i f c) = cvm c" "start (change_label i f c) = start c"
  "labelOutOfMemory (change_label i f c) = labelOutOfMemory c" "cacheOutOfMemory (change_label i f c) = cacheOutOfMemory c"
  by (simp_all add: change_label_def)

lemma CVMCoder_Label_frame:
  assumes "GetLabel d (label_entry unroll c) = (r, c1)"
  shows "start (CVMCoder_Label unroll d c) = start c1" "limit (cvm (CVMCoder_Label unroll d c)) = limit (cvm c1)"
    "CVM_POSN (CVMCoder_Label unroll d c) = CVM_POSN c1" "labelOutOfMemory (CVMCoder_Label unroll d c) = labelOutOfMemory c1"
    "cacheOutOfMemory (CVMCoder_Label unroll d c) = cacheOutOfMemory c1"
proof -
  have f: "start (patch_refs off refs c) = start c \<and> limit (cvm (patch_refs off refs c)) = limit (cvm c) \<and>
      CVM_POSN (patch_refs off refs c) = CVM_POSN c \<and> labelOutOfMemory (patch_refs off refs c) = labelOutOfMemory c \<and>
      cacheOutOfMemory (patch_refs off refs c) = cacheOutOfMemory c" for off refs c
    using patch_refs_frame [of c off refs] by (simp add: same_frame_def)
  show "start (CVMCoder_Label unroll d c) = start c1" "limit (cvm (CVMCoder_Label unroll d c)) = limit (cvm c1)"
    "CVM_POSN (CVMCoder_Label unroll d c) = CVM_POSN c1" "labelOutOfMemory (CVMCoder_Label unroll d c) = labelOutOfMemory c1"
    "cacheOutOfMemory (CVMCoder_Label unroll d c) = cacheOutOfMemory c1"
    using f by (simp_all add: CVMCoder_Label_split assms CVM_POSN_def split: option.split)
qed

lemma CVMCoder_Label_grows: "grows c (CVMCoder_Label unroll d c)"
proof -
  obtain f where f: "appends f" "label_entry unroll c = cvm_update f c" using label_entry_appends by blast
  obtain r c1 where g: "GetLabel d (label_entry unroll c) = (r, c1)" by force
  have "grows c (label_entry unroll c)" unfolding f(2) by (rule appends_grows [OF f(1)])
  also have "grows (label_entry unroll c) c1" by (rule GetLabel_keeps(3) [OF g])
  also have "grows c1 (CVMCoder_Label unroll d c)" using CVMCoder_Label_frame [OF g] by (simp add: grows_def)
  finally show ?thesis .
qed

lemma labels_ok_define:
  assumes "labels_ok c S M" and "i < length (labelList c)" and "lab_address (labelList c ! i) = d"
    and "start c + q \<le> CVM_POSN c"
    and "labelList c' = (labelList c)[i := l]" and "lab_address l = d" and "lab_offset l = of_nat q"
    and "start c' = start c" and "CVM_POSN c' = CVM_POSN c"
  shows "labels_ok c' S (M(d \<mapsto> q))"
proof -
  have addr: "map lab_address (labelList c') = map lab_address (labelList c)"
    using assms(2,3,5,6) by (simp add: map_update list_update_same_conv)
  have "label_ok c' S (M(d \<mapsto> q)) k" if k: "k \<in> set (labelList c')" for k
  proof -
    from k obtain j where j: "j < length (labelList c)" "k = labelList c' ! j" using assms(5) by (auto simp: in_set_conv_nth)
    show ?thesis
    proof (cases "j = i")
      case True
      with j assms show ?thesis by (simp add: label_ok_def)
    next
      case False
      with assms(1-3) j(1) have "lab_address (labelList c ! j) \<noteq> d" by (auto simp: labels_ok_def distinct_conv_nth)
      moreover have "label_ok c S M (labelList c ! j)" using assms(1) j(1) by (simp add: labels_ok_def)
      ultimately show ?thesis using False j(2) assms(5,8,9) by (simp add: label_ok_def split: option.splits)
    qed
  qed
  moreover have "lab_address ` set (labelList c') = lab_address ` set (labelList c)" using arg_cong [OF addr, of set] by simp
  moreover have "d \<in> lab_address ` set (labelList c)" using assms(2,3) by auto
  ultimately show ?thesis using assms(1) addr unfolding labels_ok_def by auto
qed

lemma label_step:
  assumes "consistent c S M" and "complete (CVMCoder_Label unroll d c)" and "M d = None"
  shows "consistent (CVMCoder_Label unroll d c) S (M(d \<mapsto> here (CVMCoder_Label unroll d c)))"
proof -
  let ?c = "CVMCoder_Label unroll d c"
  obtain f where f: "appends f" "label_entry unroll c = cvm_update f c" using label_entry_appends by blast
  have entry: "consistent (label_entry unroll c) S M" unfolding f(2) by (rule append_step [OF assms(1) f(1)])
  obtain r c1 where g: "GetLabel d (label_entry unroll c) = (r, c1)" by force
  note frame = CVMCoder_Label_frame [OF g]
  from frame assms(2) have c1: "complete c1" by (simp add: complete_def ILCacheIsFull_def)
  then have oom: "\<not> labelOutOfMemory c1" by (simp add: complete_def)
  from GetLabel_consistent [OF entry g oom] have inv: "placed c1 S" "written c1 S (site_bytes M)" "labels_ok c1 S M" "forward_ok S M"
    by (simp_all add: consistent_def)
  from entry GetLabel_labels [OF g oom] obtain i where i: "r = Some i" "i < length (labelList c1)" "lab_address (labelList c1 ! i) = d"
    by (auto simp: consistent_def)
  define l where "l = here ?c"
  have st: "start c1 \<le> CVM_POSN c1" using inv(1) by (simp add: placed_def)
  then have off: "code_offset c1 = of_nat l" "start c1 + l \<le> CVM_POSN c1"
    using code_offset_here [OF st] frame by (simp_all add: l_def here_def)
  let ?o = "change_label i (lab_offset_update (\<lambda>_. of_nat l)) c1" and ?refs = "nextRef (labelList c1 ! i)"
  have refs: "set ?refs = site_ref ` {s \<in> set S. dest s = Some d}"
  proof -
    have "label_ok c1 S M (labelList c1 ! i)" using inv(3) i(2) by (simp add: labels_ok_def)
    then show ?thesis by (simp add: label_ok_def i(3) assms(3))
  qed
  have o: "written ?o S (site_bytes M)" "placed ?o S" "complete ?o"
    using inv(1,2) c1 by (simp_all add: written_def bytes_at_def placed_def in_code_def CVM_POSN_def complete_def ILCacheIsFull_def)
  have c: "?c = change_label i (nextRef_update (\<lambda>_. [])) (patch_refs (of_nat l) ?refs ?o)"
    using i(2) by (simp add: CVMCoder_Label_split g i(1) off(1)) (simp add: change_label_def)
  from patched_sites [OF o assms(3) inv(4) refs, of l]
  have "written ?c S (site_bytes (M(d \<mapsto> l)))" unfolding c by (simp add: written_def bytes_at_def)
  moreover have "placed ?c S" using inv(1) frame by (simp add: placed_def in_code_def)
  moreover have "labels_ok ?c S (M(d \<mapsto> l))"
  proof (rule labels_ok_define [OF inv(3) i(2,3) off(2)])
    show "labelList ?c = (labelList c1)[i := (labelList c1 ! i)\<lparr>lab_offset := of_nat l, nextRef := []\<rparr>]"
      using i(2) patch_refs_frame [of ?o "of_nat l" ?refs] unfolding c by (simp add: change_label_def same_frame_def)
  qed (use i(3) frame in simp_all)
  moreover have "forward_ok S (M(d \<mapsto> l))" using inv(4) by (auto simp: forward_ok_def)
  ultimately show ?thesis by (simp add: consistent_def l_def)
qed

section \<open>Methods\<close>

lemma coding_consistent: "coding unroll c S M \<Longrightarrow> complete c \<Longrightarrow> consistent c S M"
proof (induction rule: coding.induct)
  case (method_start c)
  then show ?case by (simp add: consistent_def placed_def written_def labels_ok_def forward_ok_def)
next
  case (other_code c S M k)
  then have "grows c (c\<lparr>cvm := k\<rparr>)" by (simp add: grows_def keeps_sites_def CVM_POSN_def)
  with other_code show ?case using code_step grows_complete by blast
next
  case (branch c S M op d)
  then show ?case using OutputBranch_step OutputBranch_grows grows_complete by blast
next
  case (label c S M d)
  then show ?case using label_step CVMCoder_Label_grows grows_complete by blast
next
  case (switch_start c S M n)
  then show ?case using SwitchStart_step SwitchStart_grows grows_complete by blast
next
  case (switch_entry c S M n d)
  then show ?case using SwitchEntry_step SwitchEntry_grows grows_complete by blast
qed

lemma coded_bytes:
  assumes "coding unroll c S M" and "complete c" and "s \<in> set S"
  shows "take (width s) (drop (start c + pos s) (out (cvm c))) = site_bytes M s" and "start c + pos s + width s \<le> CVM_POSN c"
  using coding_consistent [OF assms(1,2)] assms(3) by (auto simp: consistent_def written_def bytes_at_def placed_def in_code_def)

lemma coded_label:
  assumes "coding unroll c S M" and "complete c" and "M d = Some l"
  shows "start c + l \<le> CVM_POSN c"
proof -
  from coding_consistent [OF assms(1,2)] have ok: "labels_ok c S M" by (simp add: consistent_def)
  with assms(3) obtain k where "k \<in> set (labelList c)" "lab_address k = d" by (auto simp: labels_ok_def dom_def)
  with ok assms(3) show ?thesis by (auto simp: labels_ok_def label_ok_def)
qed

section \<open>Running branches\<close>

text \<open>What the branch instructions test: the number of operand words and the condition on them, lowest first.\<close>

definition branch_conditions :: "(u8 \<times> nat \<times> (u32 list \<Rightarrow> bool)) list" where
  "branch_conditions =
    [(OP_BR, 0, \<lambda>ws. True),
     (OP_BEQ, 2, \<lambda>ws. ws ! 0 = ws ! 1), (OP_BNE, 2, \<lambda>ws. ws ! 0 \<noteq> ws ! 1),
     (OP_BLT, 2, \<lambda>ws. sint (ws ! 0) < sint (ws ! 1)), (OP_BLT_UN, 2, \<lambda>ws. uint (ws ! 0) < uint (ws ! 1)),
     (OP_BLE, 2, \<lambda>ws. sint (ws ! 0) \<le> sint (ws ! 1)), (OP_BLE_UN, 2, \<lambda>ws. uint (ws ! 0) \<le> uint (ws ! 1)),
     (OP_BGT, 2, \<lambda>ws. sint (ws ! 0) > sint (ws ! 1)), (OP_BGT_UN, 2, \<lambda>ws. uint (ws ! 0) > uint (ws ! 1)),
     (OP_BGE, 2, \<lambda>ws. sint (ws ! 0) \<ge> sint (ws ! 1)), (OP_BGE_UN, 2, \<lambda>ws. uint (ws ! 0) \<ge> uint (ws ! 1)),
     (OP_BRTRUE, 1, \<lambda>ws. ws ! 0 \<noteq> 0), (OP_BRFALSE, 1, \<lambda>ws. ws ! 0 = 0),
     (OP_BRNULL, 1, \<lambda>ws. ws ! 0 = 0), (OP_BRNONNULL, 1, \<lambda>ws. ws ! 0 \<noteq> 0),
     (OP_BR_PEQ, 2, \<lambda>ws. ws ! 0 = ws ! 1), (OP_BR_PNE, 2, \<lambda>ws. ws ! 0 \<noteq> ws ! 1)]"

definition goes_to :: "handler \<Rightarrow> (cvm_state \<Rightarrow> int option) \<Rightarrow> nat \<Rightarrow> (u32 list \<Rightarrow> bool) \<Rightarrow> bool" where
  "goes_to h destination n test \<longleftrightarrow> (\<forall>s base ws spare d. split_at s base ws spare \<longrightarrow> length ws = n \<longrightarrow> destination s = Some d \<longrightarrow>
     h s = Some (Next (s\<lparr>pc := if test ws then d else pc s + 6, stacktop := stacktop s - int n\<rparr>)))"

lemma branches_goes_to:
  "branches2 h destination t \<Longrightarrow> goes_to h destination 2 (\<lambda>ws. t (ws ! 0) (ws ! 1))"
  "branches1 h destination u \<Longrightarrow> goes_to h destination 1 (\<lambda>ws. u (ws ! 0))"
  by (auto simp: branches2_def branches1_def goes_to_def length_2_split length_1_split tos_split1 tos_split2 simp del: One_nat_def)

lemma br_goes_to:
  "goes_to COP_BR CVM_ARG_BRANCH_SHORT 0 (\<lambda>ws. True)" "goes_to (br_long_case OP_BR) CVM_ARG_BRANCH_LONG 0 (\<lambda>ws. True)"
  by (simp_all add: goes_to_def COP_BR_def br_long_case_def br_long_int_def br_long_other_def jump_def)

lemmas goes_to_2 = branches_goes_to(1) [unfolded One_nat_def]
lemmas goes_to_1 = branches_goes_to(2) [unfolded One_nat_def]

lemma short_branches:
  "list_all2 (\<lambda>(op, h) (op', n, test). op' = op \<and> goes_to h CVM_ARG_BRANCH_SHORT n test) branch_table branch_conditions"
  unfolding branch_table_def branch_conditions_def
  by (simp add: br_goes_to goes_to_2 [OF beq.branches] goes_to_2 [OF bne.branches] goes_to_2 [OF blt.branches]
      goes_to_2 [OF blt_un.branches] goes_to_2 [OF ble.branches] goes_to_2 [OF ble_un.branches] goes_to_2 [OF bgt.branches]
      goes_to_2 [OF bgt_un.branches] goes_to_2 [OF bge.branches] goes_to_2 [OF bge_un.branches] goes_to_1 [OF brtrue.branches]
      goes_to_1 [OF brfalse.branches] goes_to_1 [OF brnull.branches] goes_to_1 [OF brnonnull.branches]
      goes_to_2 [OF br_peq.branches] goes_to_2 [OF br_pne.branches])

lemma long_branches: "list_all (\<lambda>(op, n, test). goes_to (br_long_case op) CVM_ARG_BRANCH_LONG n test) branch_conditions"
  unfolding branch_conditions_def
  by (simp add: br_goes_to goes_to_2 [OF beq_long.branches] goes_to_2 [OF bne_long.branches] goes_to_2 [OF blt_long.branches]
      goes_to_2 [OF blt_un_long.branches] goes_to_2 [OF ble_long.branches] goes_to_2 [OF ble_un_long.branches]
      goes_to_2 [OF bgt_long.branches] goes_to_2 [OF bgt_un_long.branches] goes_to_2 [OF bge_long.branches]
      goes_to_2 [OF bge_un_long.branches] goes_to_1 [OF brtrue_long.branches] goes_to_1 [OF brfalse_long.branches]
      goes_to_1 [OF brnull_long.branches] goes_to_1 [OF brnonnull_long.branches] goes_to_2 [OF br_peq_long.branches]
      goes_to_2 [OF br_pne_long.branches])

lemma branch_table_in_switch: "set branch_table \<subseteq> set cvm_branch_main"
  by (simp add: branch_table_def cvm_branch_main_def)

lemma branch_main:
  assumes "(op, h) \<in> set cvm_branch_main"
  shows "map_of main_switch op = Some h" and "op \<noteq> 0xFD" and "op \<noteq> 0xFF"
proof -
  from assms show "op \<noteq> 0xFD" "op \<noteq> 0xFF" by (auto simp: cvm_branch_main_def)
  from assms have "(op, h) \<in> set main_switch" by (simp add: main_switch_def)
  with main_switch_distinct show "map_of main_switch op = Some h" by (rule map_of_is_SomeI)
qed

lemma sint_byte: "-128 \<le> i \<Longrightarrow> i \<le> 127 \<Longrightarrow> sint (word_of_int i :: u8) = i \<and> sint (word_of_int i :: u32) = i"
  by (simp add: signed_of_int signed_take_bit_int_eq_self)

lemma short_displacement:
  assumes "is_short r"
  shows "sint (scast (ucast r :: u8) :: u32) = sint r"
proof -
  have small: "-128 \<le> sint r" "sint r \<le> 127" using assms by (simp_all add: is_short_def)
  have r: "(ucast r :: u8) = word_of_int (sint r)"
    by (rule bit_word_eqI) (simp add: bit_simps bit_sint_iff)
  have "(scast (ucast r :: u8) :: u32) = word_of_int (sint (ucast r :: u8))" by simp
  then show ?thesis
    using sint_byte [OF small] unfolding r by (simp only:)
qed

lemma branch_bytes_step:
  assumes "(op, n, test) \<in> set branch_conditions" and "split_at s base ws spare" and "length ws = n"
    and "code_here s (branch_bytes op rel)"
  shows "Interpreter_step cfg s =
    Some (Next (s\<lparr>pc := if test ws then pc s + sint rel else pc s + 6, stacktop := stacktop s - int n\<rparr>))"
proof (cases "is_short rel")
  case True
  with assms(4) have here: "code_here s (op # ucast rel # [0, 0, 0, 0])" by (simp add: branch_bytes_def)
  from short_branches assms(1) obtain h where h: "(op, h) \<in> set branch_table" "goes_to h CVM_ARG_BRANCH_SHORT n test"
    by (fastforce simp: list_all2_conv_all_nth in_set_conv_nth)
  then have "(op, h) \<in> set cvm_branch_main" using branch_table_in_switch by blast
  from step_main [OF here branch_main [OF this]] have "Interpreter_step cfg s = h s" .
  moreover have "CVM_ARG_BRANCH_SHORT s = Some (pc s + sint rel)"
    using code_here_first(2) [OF here] short_displacement [OF True]
    by (simp add: CVM_ARG_BRANCH_SHORT_def CVM_ARG_SBYTE_def)
  ultimately show ?thesis using h(2) assms(2,3) unfolding goes_to_def by metis
next
  case False
  with assms(4) have here: "code_here s (0xB2 # op # le_bytes 4 rel)" by (simp add: branch_bytes_def)
  have "(0xB2, COP_BR_LONG) \<in> set cvm_branch_main" by (simp add: cvm_branch_main_def)
  from step_main [OF here branch_main [OF this]] have "Interpreter_step cfg s = COP_BR_LONG s" .
  moreover have "COP_BR_LONG s = br_long_case op s"
    using br_long_dispatch code_here_first(2) [OF here] by (simp add: CVM_ARG_SUB_OPCODE_def)
  moreover have "CVM_ARG_BRANCH_LONG s = Some (pc s + sint rel)"
    using code_here_read32 [OF here, of 2] by (simp add: CVM_ARG_BRANCH_LONG_def le32_le_bytes)
  moreover have "goes_to (br_long_case op) CVM_ARG_BRANCH_LONG n test" using long_branches assms(1) by (auto simp: list_all_iff)
  ultimately show ?thesis using assms(2,3) unfolding goes_to_def by metis
qed

lemma sint_in_range: "- (2 ^ 31) \<le> i \<Longrightarrow> i < 2 ^ 31 \<Longrightarrow> sint (word_of_int i :: u32) = i"
  by (simp add: signed_of_int signed_take_bit_int_eq_self)

lemma sint_distance: "p < 2 ^ 31 \<Longrightarrow> q < 2 ^ 31 \<Longrightarrow> sint (of_nat q - of_nat p :: u32) = int q - int p"
  using sint_in_range [of "int q - int p"] by simp

lemma sint_offset: "q < 2 ^ 31 \<Longrightarrow> sint (of_nat q :: u32) = int q"
  using sint_in_range [of "int q"] by simp

lemma site_here:
  assumes "coding unroll c S M" and "complete c" and "t \<in> set S" and "code s = drop (start c) (out (cvm c))" and "pc s = int (pos t)"
  shows "code_here s (site_bytes M t)"
proof -
  have "take (width t) (drop (pos t) (code s)) = site_bytes M t"
    using coded_bytes(1) [OF assms(1-3)] by (simp add: assms(4) add.commute)
  then have "drop (pos t) (code s) = site_bytes M t @ drop (width t) (drop (pos t) (code s))"
    using append_take_drop_id [of "width t" "drop (pos t) (code s)"] by metis
  then show ?thesis using assms(5) unfolding code_here_def by auto
qed

text \<open>C32: Whatever the order in which the coder emits branches and defines labels, forwards or backwards, near or
  far, if nothing ran out of space then every branch whose label is defined is, in the finished code of the
  method, an instruction that the interpreter executes as the branch says: it tests its
  operands with the signed, unsigned or pointer comparison of its opcode, removes them, and continues at the position of the
  label or behind the branch.\<close>

theorem branches_reach_their_labels:
  assumes "coding unroll c S M" and "complete c" and "Branch_site p op d \<in> set S" and "M d = Some l"
    and "(op, n, test) \<in> set branch_conditions" and "code s = drop (start c) (out (cvm c))" and "pc s = int p"
    and "split_at s base ws spare" and "length ws = n"
  shows "Interpreter_step cfg s =
    Some (Next (s\<lparr>pc := if test ws then int l else int p + 6, stacktop := stacktop s - int n\<rparr>))"
proof -
  have "code_here s (branch_bytes op (of_nat l - of_nat p))"
    using site_here [OF assms(1-3,6)] assms(4,7) by (simp add: site_bytes_def)
  moreover have "p < 2 ^ 31" "l < 2 ^ 31"
    using coded_bytes(2) [OF assms(1-3)] coded_label [OF assms(1,2,4)] assms(2) by (auto simp: complete_def)
  ultimately show ?thesis
    using branch_bytes_step [OF assms(5,8,9)] assms(7) by (simp add: sint_distance)
qed

text \<open>A method that jumps over two instructions: the label is defined after the branch was emitted.\<close>

definition example_start :: label_coder where
  "example_start = \<lparr>cvm = fresh_coder, start = 0, switchStart = 0, labelList = [], labelOutOfMemory = False,
     cacheOutOfMemory = False, pool_answers = \<lambda>n. True, pool_calls = 0\<rparr>"

definition example_branch :: label_coder where
  "example_branch = CVMCoder_Label False 9 (cvm_update (emit [CVM_OUT_NONE 0x93, CVM_OUT_NONE 0x94]) (OutputBranch OP_BLT 9 example_start))"

lemma appended_code: "coding unroll c S M \<Longrightarrow> appends f \<Longrightarrow> coding unroll (cvm_update f c) S M"
  by (rule other_code [OF _ appends_keeps_sites, unfolded cvm_update_const])

lemma emit_two_appends: "appends (emit [CVM_OUT_NONE a, CVM_OUT_NONE b])"
  by (simp add: appends_def CVM_OUT_NONE_def ILCacheByte_def)

lemma example_branch_coding: "coding False example_branch [Branch_site 0 OP_BLT 9] [9 \<mapsto> 8]"
proof -
  have "coding False example_start [] (\<lambda>_. None)" by (rule method_start) (simp_all add: example_start_def CVM_POSN_def)
  from label [OF appended_code [OF branch [OF this, where op = OP_BLT and d = 9] emit_two_appends [of "0x93" "0x94"]], where d = 9]
  have "coding False example_branch ([] @ [Branch_site (here example_start) OP_BLT 9]) [9 \<mapsto> here example_branch]"
    by (simp add: example_branch_def)
  moreover have "here example_start = 0" "here example_branch = 8" by code_simp+
  ultimately show ?thesis by simp
qed

theorem branches_reach_their_labels_witness:
  "Interpreter_step bare (machine [3, 5] 2 [OP_BLT, 8, 0, 0, 0, 0, 0x93, 0x94]) =
     Some (Next ((machine [3, 5] 0 [OP_BLT, 8, 0, 0, 0, 0, 0x93, 0x94])\<lparr>pc := 8\<rparr>))"
proof -
  let ?s = "machine [3, 5] 2 [OP_BLT, 8, 0, 0, 0, 0, 0x93, 0x94]"
  have "\<not> labelOutOfMemory example_branch" "\<not> ILCacheIsFull example_branch" "CVM_POSN example_branch = 8" by code_simp+
  then have "complete example_branch" by (simp add: complete_def)
  moreover have "(OP_BLT, 2, \<lambda>ws. sint (ws ! 0) < sint (ws ! 1)) \<in> set branch_conditions" by (simp add: branch_conditions_def)
  moreover have "[OP_BLT, 8, 0, 0, 0, 0, 0x93, 0x94] = drop (start example_branch) (out (cvm example_branch))" by code_simp
  then have "code ?s = drop (start example_branch) (out (cvm example_branch))" by (simp add: machine_def)
  moreover have "split_at ?s [] [3, 5] []" by (simp add: split_at_def machine_def)
  moreover have "pc ?s = int 0" by (simp add: machine_def)
  ultimately show ?thesis
    using branches_reach_their_labels [OF example_branch_coding, of 0 OP_BLT 9 8 2 "\<lambda>ws. sint (ws ! 0) < sint (ws ! 1)" ?s "[]" "[3, 5]" "[]" bare]
    by (simp add: machine_def)
qed

section \<open>Running switches\<close>

lemma IL_READ_UINT32_pc: "IL_READ_UINT32 x (s\<lparr>pc := q\<rparr>) = IL_READ_UINT32 x s"
  by (simp add: IL_READ_UINT32_def code_at_def)

lemma head_read:
  assumes "code_here s (pending (Head_site p n))"
  shows "CVM_ARG_SWITCH_LIMIT s = Some n" and "IL_READ_UINT32 (pc s + 5) s = Some (9 + n * 4)"
    and "Interpreter_step cfg s = COP_SWITCH s"
proof -
  from assms have h: "code_here s (0xB3 # le_bytes 4 n @ le_bytes 4 (9 + n * 4))" by simp
  have "le32 (le_bytes 4 n @ ys) = n" for ys using le32_le_bytes [of n] by (simp add: le32_def le_bytes_4)
  then show "CVM_ARG_SWITCH_LIMIT s = Some n"
    using code_here_read32 [OF h, of 1] by (simp add: CVM_ARG_SWITCH_LIMIT_def)
  show "IL_READ_UINT32 (pc s + 5) s = Some (9 + n * 4)"
    using code_here_read32 [OF h, of 5] by (simp add: le32_le_bytes)
  have "(0xB3, COP_SWITCH) \<in> set cvm_branch_main" by (simp add: cvm_branch_main_def)
  from step_main [OF h branch_main [OF this]] show "Interpreter_step cfg s = COP_SWITCH s" .
qed

text \<open>C34: A switch instruction whose table is complete, in the finished code of a method: for a value below the number
  of entries, compared as unsigned, the interpreter continues at the position of the label of that
  entry if the label was defined after the entry was emitted, but for an entry whose label was already defined
  (a jump backwards) it continues too far, by the position of the entry itself; any
  other value falls through behind the table.  The value is removed from the stack.\<close>

theorem switches_reach_their_labels:
  assumes "coding unroll c S M" and "complete c" and "CVM_POSN c < 2 ^ 30" and "Head_site sw n \<in> set S"
    and "\<forall>i < unat n. Entry_site (sw + 9 + 4 * i) sw (ds ! i) (fs ! i) \<in> set S" and "\<forall>i < unat n. M (ds ! i) = Some (ls ! i)"
    and "code s = drop (start c) (out (cvm c))" and "pc s = int sw" and "split_at s base [v] spare"
  shows "Interpreter_step cfg s = Some (Next (s\<lparr>pc :=
      if v < n then int (ls ! unat v) + (if fs ! unat v then 0 else int (sw + 9 + 4 * unat v)) else int (sw + 9 + 4 * unat n),
    stacktop := stacktop s - 1\<rparr>))"
proof -
  have "code_here s (pending (Head_site sw n))"
    using site_here [OF assms(1,2,4,7)] assms(8) by (simp add: site_bytes_def)
  note head = head_read [OF this]
  have fits: "sw + 9 + 4 * unat n < 2 ^ 30"
  proof (cases "unat n")
    case 0
    with coded_bytes(2) [OF assms(1,2,4)] assms(3) show ?thesis by (simp add: width_def)
  next
    case (Suc k)
    with assms(5) have "Entry_site (sw + 9 + 4 * k) sw (ds ! k) (fs ! k) \<in> set S" by simp
    with coded_bytes(2) [OF assms(1,2) this] assms(3) Suc show ?thesis by (simp add: width_def)
  qed
  have "4 * unat n \<le> 4294967296" using fits by simp
  moreover have "uint n = int (unat n)" "(2 :: int) ^ 32 = 4294967296" by simp_all
  ultimately have limit: "4 * uint n \<le> 2 ^ 32" by linarith
  have top: "tos (-1) s = Some v" using tos_split1(1) [OF assms(9)] .
  show ?thesis
  proof (cases "v < n")
    case True
    then have i: "unat v < unat n" by (simp add: word_less_nat_alt)
    let ?i = "unat v" and ?p = "sw + 9 + 4 * unat v"
    let ?t = "Entry_site ?p sw (ds ! ?i) (fs ! ?i)"
    have t: "?t \<in> set S" and m: "M (ds ! ?i) = Some (ls ! ?i)" using assms(5,6) i by simp_all
    have "code_here (s\<lparr>pc := int ?p\<rparr>) (site_bytes M ?t)"
      using site_here [OF assms(1,2) t, of "s\<lparr>pc := int ?p\<rparr>"] assms(7) by simp
    from code_here_read32 [OF this, of 0] have "IL_READ_UINT32 (int ?p) s = Some (le32 (site_bytes M ?t))"
      by (simp add: width_def IL_READ_UINT32_pc)
    moreover have "site_bytes M ?t = le_bytes 4 (if fs ! ?i then of_nat (ls ! ?i) - of_nat sw else of_nat (ls ! ?i) + of_nat (?p - sw) :: u32)"
      by (simp only: site_bytes_def dest.simps site.sel m option.case resolved.simps)
    moreover have "pc s + 9 + 4 * uint v = int ?p" by (simp add: assms(8))
    ultimately have read: "IL_READ_UINT32 (pc s + 9 + 4 * uint v) s =
        Some (if fs ! ?i then of_nat (ls ! ?i) - of_nat sw else of_nat (ls ! ?i) + of_nat (?p - sw))"
      by (simp only: le32_le_bytes)
    have small: "ls ! ?i < 2 ^ 30" "?p < 2 ^ 30"
      using coded_label [OF assms(1,2) m] assms(3) fits i by simp_all
    have "int sw + sint (of_nat (ls ! ?i) + of_nat (?p - sw) :: u32) = int (ls ! ?i) + int ?p"
      using sint_offset [of "ls ! ?i + (?p - sw)"] small by simp
    moreover have "int sw + sint (of_nat (ls ! ?i) - of_nat sw :: u32) = int (ls ! ?i)"
      using sint_distance [of sw "ls ! ?i"] small by simp
    ultimately show ?thesis
      using switch_selects_entry [OF top head(1) limit] read True head(3) assms(8) by simp
  next
    case False
    have "sint (9 + n * 4) = int (9 + 4 * unat n)"
      using sint_offset [of "9 + 4 * unat n"] fits by (simp add: mult.commute)
    with switch_selects_entry [OF top head(1) limit] head(2,3) False assms(8) show ?thesis by simp
  qed
qed

text \<open>A switch at position 2 with a forward entry to the end, at 19, and a backward entry to 0.\<close>

definition example_switch_head :: label_coder where
  "example_switch_head = CVMCoder_SwitchStart 2
     (cvm_update (emit [CVM_OUT_NONE 0x93, CVM_OUT_NONE 0x94]) (CVMCoder_Label False 5 example_start))"

definition example_switch :: label_coder where
  "example_switch = CVMCoder_Label False 7 (CVMCoder_SwitchEntry 5 (CVMCoder_SwitchEntry 7 example_switch_head))"

abbreviation example_table :: "u8 list" where
  "example_table \<equiv> [0x93, 0x94, 0xB3, 2, 0, 0, 0, 17, 0, 0, 0, 17, 0, 0, 0, 13, 0, 0, 0]"

lemma example_switch_coding:
  "coding False example_switch [Head_site 2 2, Entry_site 11 2 7 True, Entry_site 15 2 5 False] [5 \<mapsto> 0, 7 \<mapsto> 19]"
proof -
  let ?c1 = "CVMCoder_Label False 5 example_start"
  let ?c2 = "cvm_update (emit [CVM_OUT_NONE 0x93, CVM_OUT_NONE 0x94]) ?c1" and ?c4 = "CVMCoder_SwitchEntry 7 example_switch_head"
  have h: "here ?c1 = 0" "here ?c2 = 2" "here example_switch_head = 11" "here ?c4 = 15" "here example_switch = 19"
    "switchStart example_switch_head - start example_switch_head = 2" "switchStart ?c4 - start ?c4 = 2"
    "start example_switch_head \<le> switchStart example_switch_head" "start ?c4 \<le> switchStart ?c4"
    by code_simp+
  have "coding False example_start [] (\<lambda>_. None)" by (rule method_start) (simp_all add: example_start_def CVM_POSN_def)
  from label [OF this, of 5] have "coding False ?c1 [] [5 \<mapsto> 0]" by (simp add: h)
  from switch_start [OF appended_code [OF this emit_two_appends [of "0x93" "0x94"]], of 2]
  have c3: "coding False example_switch_head [Head_site 2 2] [5 \<mapsto> 0]" by (simp add: h flip: example_switch_head_def)
  from switch_entry [OF this, of 2 7] have "coding False ?c4 [Head_site 2 2, Entry_site 11 2 7 True] [5 \<mapsto> 0]"
    by (simp add: h)
  from switch_entry [OF this, of 2 5]
  have "coding False (CVMCoder_SwitchEntry 5 ?c4) [Head_site 2 2, Entry_site 11 2 7 True, Entry_site 15 2 5 False] [5 \<mapsto> 0]"
    by (simp add: h)
  from label [OF this, of 7] show ?thesis by (simp add: h flip: example_switch_def)
qed

theorem switches_reach_their_labels_witness:
  "Interpreter_step bare ((machine [1] 1 example_table)\<lparr>pc := 2\<rparr>) =
     Some (Next ((machine [1] 0 example_table)\<lparr>pc := 15\<rparr>))"
proof -
  let ?s = "(machine [1] 1 example_table)\<lparr>pc := 2\<rparr>"
  have c: "\<not> labelOutOfMemory example_switch" "\<not> ILCacheIsFull example_switch" "CVM_POSN example_switch = 19" by code_simp+
  then have "complete example_switch" "CVM_POSN example_switch < 2 ^ 30" by (simp_all add: complete_def)
  moreover have "example_table = drop (start example_switch) (out (cvm example_switch))" by code_simp
  then have "code ?s = drop (start example_switch) (out (cvm example_switch))" by (simp add: machine_def)
  moreover have "split_at ?s [] [1] []" "pc ?s = int 2" by (simp_all add: split_at_def machine_def)
  ultimately show ?thesis
    using switches_reach_their_labels [OF example_switch_coding, of 2 2 "[7, 5]" "[True, False]" "[19, 0]" ?s "[]" 1 "[]" bare]
    by (simp add: machine_def less_2_cases_iff)
qed

end
