(* ===== verification/IlScan.thy ===== *)
theory IlScan
  imports Verify
begin

text \<open>
  The first pass of the IL verifier over a method body: the scan loop of \<^verbatim>\<open>_ILVerify\<close> in
  \<^verbatim>\<open>engine/verify.c\<close>, with the jump mask that it fills and the opcode tables of
  \<^verbatim>\<open>image/opdef.c\<close> that it reads.  The scan checks that the body is a sequence of complete, defined
  instructions, and that every branch lands on the start of one of them.  The jump mask is an
  array of 64-bit words (the LP64 \<^verbatim>\<open>unsigned long\<close>); a result \<open>None\<close> of an operation on it means an
  access outside the array.
\<close>

section \<open>The opcode tables\<close>

datatype opcode_args =
    ARGS_INVALID | ARGS_NONE | ARGS_INT8 | ARGS_UINT8 | ARGS_INT16 | ARGS_UINT16 | ARGS_INT32 | ARGS_INT64
  | ARGS_FLOAT32 | ARGS_FLOAT64 | ARGS_TOKEN | ARGS_SHORT_VAR | ARGS_LONG_VAR | ARGS_SHORT_ARG | ARGS_LONG_ARG
  | ARGS_SHORT_JUMP | ARGS_LONG_JUMP | ARGS_CALL | ARGS_CALLI | ARGS_CALLVIRT | ARGS_SWITCH | ARGS_STRING
  | ARGS_NEW | ARGS_ANN_DATA | ARGS_ANN_DEAD | ARGS_ANN_REF | ARGS_ANN_PHI | ARGS_ANN_LIVE | ARGS_ANN_ARG
  | ARGS_LDTOKEN

datatype ILOpcodeSmallInfo = OPDEF (op_popped: nat) (op_pushed: nat) (op_args: opcode_args) (op_size: nat)

definition ILMainOpcodeSmallTable :: "ILOpcodeSmallInfo list" where
  "ILMainOpcodeSmallTable =
     [OPDEF 0 0 ARGS_NONE 1, OPDEF 0 0 ARGS_NONE 1] @
     replicate 8 (OPDEF 0 1 ARGS_NONE 1) @
     [OPDEF 1 0 ARGS_NONE 1, OPDEF 1 0 ARGS_NONE 1, OPDEF 1 0 ARGS_NONE 1, OPDEF 1 0 ARGS_NONE 1,
      OPDEF 0 1 ARGS_SHORT_ARG 2, OPDEF 0 1 ARGS_SHORT_ARG 2, OPDEF 1 0 ARGS_SHORT_ARG 2,
      OPDEF 0 1 ARGS_SHORT_VAR 2, OPDEF 0 1 ARGS_SHORT_VAR 2, OPDEF 1 0 ARGS_SHORT_VAR 2] @
     replicate 11 (OPDEF 0 1 ARGS_NONE 1) @
     [OPDEF 0 1 ARGS_INT8 2, OPDEF 0 1 ARGS_INT32 5, OPDEF 0 1 ARGS_INT64 9, OPDEF 0 1 ARGS_FLOAT32 5,
      OPDEF 0 1 ARGS_FLOAT64 9, OPDEF 0 1 ARGS_INT32 5, OPDEF 1 2 ARGS_NONE 1, OPDEF 1 0 ARGS_NONE 1,
      OPDEF 0 0 ARGS_CALL 5, OPDEF 0 0 ARGS_CALL 5, OPDEF 0 0 ARGS_CALLI 5, OPDEF 0 0 ARGS_NONE 1,
      OPDEF 0 0 ARGS_SHORT_JUMP 2, OPDEF 1 0 ARGS_SHORT_JUMP 2, OPDEF 1 0 ARGS_SHORT_JUMP 2] @
     replicate 10 (OPDEF 2 0 ARGS_SHORT_JUMP 2) @
     [OPDEF 0 0 ARGS_LONG_JUMP 5, OPDEF 1 0 ARGS_LONG_JUMP 5, OPDEF 1 0 ARGS_LONG_JUMP 5] @
     replicate 10 (OPDEF 2 0 ARGS_LONG_JUMP 5) @
     [OPDEF 1 0 ARGS_SWITCH 0] @
     replicate 11 (OPDEF 1 1 ARGS_NONE 1) @
     replicate 7 (OPDEF 2 0 ARGS_NONE 1) @
     replicate 13 (OPDEF 2 1 ARGS_NONE 1) @
     replicate 10 (OPDEF 1 1 ARGS_NONE 1) @
     [OPDEF 0 0 ARGS_CALLVIRT 5, OPDEF 2 0 ARGS_TOKEN 5, OPDEF 1 1 ARGS_TOKEN 5, OPDEF 0 1 ARGS_STRING 5,
      OPDEF 0 0 ARGS_NEW 5, OPDEF 1 1 ARGS_TOKEN 5, OPDEF 1 1 ARGS_TOKEN 5, OPDEF 1 1 ARGS_NONE 1,
      OPDEF 0 0 ARGS_ANN_DATA 0, OPDEF 0 0 ARGS_INVALID 1, OPDEF 1 1 ARGS_TOKEN 5, OPDEF 1 0 ARGS_NONE 1,
      OPDEF 1 1 ARGS_TOKEN 5, OPDEF 1 1 ARGS_TOKEN 5, OPDEF 2 0 ARGS_TOKEN 5, OPDEF 0 1 ARGS_TOKEN 5,
      OPDEF 0 1 ARGS_TOKEN 5, OPDEF 1 0 ARGS_TOKEN 5, OPDEF 2 0 ARGS_TOKEN 5] @
     replicate 10 (OPDEF 1 1 ARGS_NONE 1) @
     [OPDEF 1 1 ARGS_TOKEN 5, OPDEF 1 1 ARGS_TOKEN 5, OPDEF 1 1 ARGS_NONE 1, OPDEF 2 1 ARGS_TOKEN 5] @
     replicate 11 (OPDEF 2 1 ARGS_NONE 1) @
     replicate 8 (OPDEF 3 0 ARGS_NONE 1) @
     [OPDEF 2 1 ARGS_TOKEN 5, OPDEF 3 0 ARGS_TOKEN 5, OPDEF 1 1 ARGS_TOKEN 5] @
     replicate 13 (OPDEF 0 0 ARGS_INVALID 1) @
     replicate 8 (OPDEF 1 1 ARGS_NONE 1) @
     replicate 7 (OPDEF 0 0 ARGS_INVALID 1) @
     [OPDEF 1 1 ARGS_TOKEN 5, OPDEF 1 1 ARGS_NONE 1, OPDEF 0 0 ARGS_INVALID 1, OPDEF 0 0 ARGS_INVALID 1,
      OPDEF 1 1 ARGS_TOKEN 5, OPDEF 0 0 ARGS_TOKEN 5, OPDEF 0 0 ARGS_NONE 1, OPDEF 0 0 ARGS_ANN_DEAD 3,
      OPDEF 0 0 ARGS_NONE 1, OPDEF 0 0 ARGS_TOKEN 5, OPDEF 0 0 ARGS_NONE 1, OPDEF 0 0 ARGS_NONE 1,
      OPDEF 0 0 ARGS_ANN_REF 2, OPDEF 0 0 ARGS_ANN_PHI 0, OPDEF 0 1 ARGS_LDTOKEN 5,
      OPDEF 1 1 ARGS_NONE 1, OPDEF 1 1 ARGS_NONE 1, OPDEF 1 1 ARGS_NONE 1, OPDEF 1 1 ARGS_NONE 1,
      OPDEF 1 1 ARGS_NONE 1] @
     replicate 6 (OPDEF 2 1 ARGS_NONE 1) @
     [OPDEF 0 0 ARGS_NONE 1, OPDEF 0 0 ARGS_LONG_JUMP 5, OPDEF 0 0 ARGS_SHORT_JUMP 2,
      OPDEF 2 0 ARGS_NONE 1, OPDEF 1 1 ARGS_NONE 1] @
     replicate 29 (OPDEF 0 0 ARGS_INVALID 1) @
     [OPDEF 0 0 ARGS_INVALID 0, OPDEF 0 0 ARGS_INVALID 1]"

definition ILPrefixOpcodeSmallTable :: "ILOpcodeSmallInfo list" where
  "ILPrefixOpcodeSmallTable =
     [OPDEF 0 1 ARGS_NONE 2, OPDEF 2 1 ARGS_NONE 2, OPDEF 2 1 ARGS_NONE 2, OPDEF 2 1 ARGS_NONE 2,
      OPDEF 2 1 ARGS_NONE 2, OPDEF 2 1 ARGS_NONE 2, OPDEF 0 1 ARGS_TOKEN 6, OPDEF 1 1 ARGS_TOKEN 6,
      OPDEF 1 0 ARGS_CALLI 6, OPDEF 0 1 ARGS_LONG_VAR 4, OPDEF 0 1 ARGS_LONG_VAR 4,
      OPDEF 1 0 ARGS_LONG_VAR 4, OPDEF 0 1 ARGS_LONG_VAR 4, OPDEF 0 1 ARGS_LONG_VAR 4,
      OPDEF 1 0 ARGS_LONG_VAR 4, OPDEF 1 1 ARGS_NONE 2, OPDEF 0 0 ARGS_INVALID 2, OPDEF 1 0 ARGS_NONE 2,
      OPDEF 0 0 ARGS_UINT8 3, OPDEF 0 0 ARGS_NONE 2, OPDEF 0 0 ARGS_NONE 2, OPDEF 1 0 ARGS_TOKEN 6,
      OPDEF 0 0 ARGS_TOKEN 6, OPDEF 3 0 ARGS_NONE 2, OPDEF 3 0 ARGS_NONE 2, OPDEF 0 0 ARGS_UINT8 3,
      OPDEF 0 0 ARGS_NONE 2, OPDEF 0 0 ARGS_INVALID 2, OPDEF 0 1 ARGS_TOKEN 6, OPDEF 1 1 ARGS_NONE 2,
      OPDEF 0 0 ARGS_NONE 2, OPDEF 0 0 ARGS_INVALID 2, OPDEF 0 0 ARGS_INVALID 2,
      OPDEF 0 0 ARGS_INVALID 2, OPDEF 0 0 ARGS_ANN_DATA 0, OPDEF 0 0 ARGS_ANN_ARG 4] @
     replicate 220 (OPDEF 0 0 ARGS_INVALID 2)"

abbreviation (input) IL_OP_PREFIX :: nat where "IL_OP_PREFIX \<equiv> 0xFE"
abbreviation (input) IL_OP_ANN_DATA_S :: nat where "IL_OP_ANN_DATA_S \<equiv> 0x77"
abbreviation (input) IL_PREFIX_OP_RETHROW :: nat where "IL_PREFIX_OP_RETHROW \<equiv> 0x1A"
abbreviation (input) IL_PREFIX_OP_ANN_DATA :: nat where "IL_PREFIX_OP_ANN_DATA \<equiv> 0x22"

section \<open>The jump mask\<close>

definition WORDS_FOR_MASK :: "u32 \<Rightarrow> nat" where
  "WORDS_FOR_MASK sz = (unat (sz * 3) + 64 - 1) div 64"

definition mark_bit :: "u64 list \<Rightarrow> u32 \<Rightarrow> u64 list option" where
  "mark_bit jumpMask offset =
     (let i = unat offset div 64; j = unat offset mod 64 in
      if i < length jumpMask then Some (jumpMask[i := jumpMask ! i OR push_bit j 1]) else None)"

definition test_bit :: "u64 list \<Rightarrow> u32 \<Rightarrow> bool option" where
  "test_bit jumpMask offset =
     (let i = unat offset div 64; j = unat offset mod 64 in
      if i < length jumpMask then Some (jumpMask ! i AND push_bit j 1 \<noteq> 0) else None)"

definition MarkInsnStart :: "u64 list \<Rightarrow> u32 \<Rightarrow> u64 list option" where
  "MarkInsnStart jumpMask offset = mark_bit jumpMask (offset * 3)"

definition MarkJumpTarget :: "u64 list \<Rightarrow> u32 \<Rightarrow> u64 list option" where
  "MarkJumpTarget jumpMask offset = mark_bit jumpMask (offset * 3 + 1)"

definition MarkSpecialJumpTarget :: "u64 list \<Rightarrow> u32 \<Rightarrow> u64 list option" where
  "MarkSpecialJumpTarget jumpMask offset = mark_bit jumpMask (offset * 3 + 2)"

definition IsInsnStart :: "u64 list \<Rightarrow> u32 \<Rightarrow> bool option" where
  "IsInsnStart jumpMask offset = test_bit jumpMask (offset * 3)"

definition IsJumpTarget :: "u64 list \<Rightarrow> u32 \<Rightarrow> bool option" where
  "IsJumpTarget jumpMask offset = test_bit jumpMask (offset * 3 + 1)"

definition IsSpecialJumpTarget :: "u64 list \<Rightarrow> u32 \<Rightarrow> bool option" where
  "IsSpecialJumpTarget jumpMask offset = test_bit jumpMask (offset * 3 + 2)"

section \<open>The scan loop\<close>

text \<open>Reads from the method body; \<open>None\<close> is a read outside it.\<close>

definition code_byte :: "u8 list \<Rightarrow> nat \<Rightarrow> u8 option" where
  "code_byte code i = (if i < length code then Some (code ! i) else None)"

definition code_uint16 :: "u8 list \<Rightarrow> nat \<Rightarrow> u16 option" where
  "code_uint16 code i = do {
     b0 \<leftarrow> code_byte code i;
     b1 \<leftarrow> code_byte code (i + 1);
     Some (ucast b0 OR push_bit 8 (ucast b1))
   }"

definition code_uint32 :: "u8 list \<Rightarrow> nat \<Rightarrow> u32 option" where
  "code_uint32 code i = do {
     b0 \<leftarrow> code_byte code i;
     b1 \<leftarrow> code_byte code (i + 1);
     b2 \<leftarrow> code_byte code (i + 2);
     b3 \<leftarrow> code_byte code (i + 3);
     Some (ucast b0 OR push_bit 8 (ucast b1) OR push_bit 16 (ucast b2) OR push_bit 24 (ucast b3))
   }"

datatype scan_error = Truncated | BranchError | InsnError

text \<open>The variables of the loop; \<open>scan_pc\<close> is the distance of \<^verbatim>\<open>pc\<close> from the start of the code.\<close>

record scan_state =
  scan_pc :: nat
  scan_len :: u32
  scan_mask :: "u64 list"
  scan_rethrow :: bool

definition codeLen :: "u8 list \<Rightarrow> u32" where
  "codeLen code = of_nat (length code)"

text \<open>A branch to \<open>base\<close> plus a displacement.\<close>

definition scan_target :: "u8 list \<Rightarrow> u32 \<Rightarrow> u32 \<Rightarrow> u64 list \<Rightarrow> (scan_error + u64 list) option" where
  "scan_target code base disp jumpMask =
     (let offset = base + disp in
      if offset \<ge> codeLen code then Some (Inl BranchError)
      else map_option Inr (MarkJumpTarget jumpMask offset))"

text \<open>The entries of a \<^verbatim>\<open>switch\<close>, from the last to the first.\<close>

primrec scan_switch :: "u8 list \<Rightarrow> nat \<Rightarrow> u32 \<Rightarrow> nat \<Rightarrow> u64 list \<Rightarrow> (scan_error + u64 list) option" where
  "scan_switch code pc base 0 jumpMask = Some (Inr jumpMask)"
| "scan_switch code pc base (Suc n) jumpMask = do {
     d \<leftarrow> code_uint32 code (pc + 5 + n * 4);
     r \<leftarrow> scan_target code base d jumpMask;
     case r of Inl e \<Rightarrow> Some (Inl e) | Inr jumpMask \<Rightarrow> scan_switch code pc base n jumpMask
   }"

text \<open>The switch on the kind of operands: the size of the instruction and the new mask.\<close>

definition scan_operands ::
    "u8 list \<Rightarrow> nat \<Rightarrow> u32 \<Rightarrow> nat \<Rightarrow> opcode_args \<Rightarrow> u32 \<Rightarrow> u64 list \<Rightarrow> (scan_error + u32 \<times> u64 list) option" where
  "scan_operands code pc len opcode insnType insnSize jumpMask = (case insnType of
       ARGS_SHORT_JUMP \<Rightarrow> do {
         d \<leftarrow> code_byte code (pc + 1);
         r \<leftarrow> scan_target code (of_nat pc + insnSize) (scast d) jumpMask;
         Some (map_sum id (Pair insnSize) r)
       }
     | ARGS_LONG_JUMP \<Rightarrow> do {
         d \<leftarrow> code_uint32 code (pc + 1);
         r \<leftarrow> scan_target code (of_nat pc + insnSize) d jumpMask;
         Some (map_sum id (Pair insnSize) r)
       }
     | ARGS_SWITCH \<Rightarrow>
         if len < 5 then Some (Inl Truncated)
         else do {
           numArgs \<leftarrow> code_uint32 code (pc + 1);
           let insnSize = 5 + numArgs * 4;
           if numArgs \<ge> 0x20000000 \<or> len < insnSize then Some (Inl Truncated)
           else do {
             r \<leftarrow> scan_switch code pc (of_nat pc + insnSize) (unat numArgs) jumpMask;
             Some (map_sum id (Pair insnSize) r)
           }
         }
     | ARGS_ANN_DATA \<Rightarrow>
         if opcode = IL_OP_ANN_DATA_S then
           if len < 2 then Some (Inl Truncated)
           else do {
             n \<leftarrow> code_byte code (pc + 1);
             let insnSize = (ucast n AND 0xFF) + 2;
             Some (if len < insnSize then Inl Truncated else Inr (insnSize, jumpMask))
           }
         else if len < 6 then Some (Inl Truncated)
         else do {
           n \<leftarrow> code_uint32 code (pc + 2);
           let insnSize = n + 6;
           Some (if len < insnSize then Inl Truncated else Inr (insnSize, jumpMask))
         }
     | ARGS_ANN_PHI \<Rightarrow>
         if len < 3 then Some (Inl Truncated)
         else do {
           n \<leftarrow> code_uint16 code (pc + 1);
           let insnSize = ucast n * 2 + 3;
           Some (if len < insnSize then Inl Truncated else Inr (insnSize, jumpMask))
         }
     | ARGS_INVALID \<Rightarrow> Some (Inl InsnError)
     | _ \<Rightarrow> Some (Inr (insnSize, jumpMask)))"

text \<open>The fetch of the table entry: the opcode with its prefix offset, and its operand kind and size.\<close>

definition scan_fetch :: "u8 list \<Rightarrow> nat \<Rightarrow> u32 \<Rightarrow> (scan_error + nat \<times> opcode_args \<times> u32 \<times> bool) option" where
  "scan_fetch code pc len = do {
     op \<leftarrow> code_byte code pc;
     if unat op \<noteq> IL_OP_PREFIX then
       let insn = ILMainOpcodeSmallTable ! unat op; insnSize = of_nat (op_size insn) in
       Some (if len < insnSize then Inl Truncated else Inr (unat op, op_args insn, insnSize, False))
     else if len < 2 then Some (Inl Truncated)
     else do {
       op \<leftarrow> code_byte code (pc + 1);
       let insn = ILPrefixOpcodeSmallTable ! unat op;
       let insnSize = of_nat (op_size insn);
       Some (if len < insnSize then Inl Truncated
             else Inr (unat op + IL_OP_PREFIX, op_args insn, insnSize, unat op = IL_PREFIX_OP_RETHROW))
     }
   }"

text \<open>One turn of the loop.\<close>

definition scan_insn :: "u8 list \<Rightarrow> scan_state \<Rightarrow> (scan_error + scan_state) option" where
  "scan_insn code s = do {
     jumpMask \<leftarrow> MarkInsnStart (scan_mask s) (of_nat (scan_pc s));
     f \<leftarrow> scan_fetch code (scan_pc s) (scan_len s);
     case f of
       Inl e \<Rightarrow> Some (Inl e)
     | Inr (opcode, insnType, insnSize, rethrow) \<Rightarrow> do {
         r \<leftarrow> scan_operands code (scan_pc s) (scan_len s) opcode insnType insnSize jumpMask;
         Some (map_sum id (\<lambda>(insnSize, jumpMask).
           \<lparr>scan_pc = scan_pc s + unat insnSize, scan_len = scan_len s - insnSize, scan_mask = jumpMask,
            scan_rethrow = scan_rethrow s \<or> rethrow\<rparr>) r)
       }
   }"

datatype scan_outcome = Undefined | Fails scan_error | Scanned "u64 list" bool

text \<open>The loop.  \<open>None\<close> means that it never ends.\<close>

partial_function (option) scan_loop :: "u8 list \<Rightarrow> scan_state \<Rightarrow> scan_outcome option" where
  "scan_loop code s =
     (if scan_len s = 0 then Some (Scanned (scan_mask s) (scan_rethrow s))
      else case scan_insn code s of
          None \<Rightarrow> Some Undefined
        | Some (Inl e) \<Rightarrow> Some (Fails e)
        | Some (Inr s) \<Rightarrow> scan_loop code s)"

text \<open>
  The marks of the exception blocks, each given by its start and end offsets.  The stack shapes that
  the same loop records for the handlers belong to the type inference of labels and are left out.
\<close>

primrec mark_blocks :: "(u32 \<times> u32) list \<Rightarrow> u64 list \<Rightarrow> u64 list option" where
  "mark_blocks [] jumpMask = Some jumpMask"
| "mark_blocks (b # bs) jumpMask = do {
     jumpMask \<leftarrow> MarkJumpTarget jumpMask (fst b);
     jumpMask \<leftarrow> MarkSpecialJumpTarget jumpMask (fst b);
     jumpMask \<leftarrow> MarkJumpTarget jumpMask (snd b);
     jumpMask \<leftarrow> MarkSpecialJumpTarget jumpMask (snd b);
     mark_blocks bs jumpMask
   }"

text \<open>The final check of the jump targets, from the end of the code down; the result is whether it passes.\<close>

primrec check_targets :: "u64 list \<Rightarrow> nat \<Rightarrow> bool option" where
  "check_targets jumpMask 0 = Some True"
| "check_targets jumpMask (Suc len) = do {
     j \<leftarrow> IsJumpTarget jumpMask (of_nat len);
     i \<leftarrow> IsInsnStart jumpMask (of_nat len);
     if j \<and> \<not> i then Some False else check_targets jumpMask len
   }"

text \<open>
  The scan of a method body from the allocation of the mask to the check of the targets.
  \<open>extraCodeLen\<close> is 2 for a synchronized method and 0 for the others.
\<close>

definition scan_code :: "u8 list \<Rightarrow> u32 \<Rightarrow> (u32 \<times> u32) list \<Rightarrow> scan_outcome option" where
  "scan_code code extraCodeLen blocks =
     (case scan_loop code \<lparr>scan_pc = 0, scan_len = codeLen code,
             scan_mask = replicate (WORDS_FOR_MASK (codeLen code + extraCodeLen)) 0, scan_rethrow = False\<rparr> of
        Some (Scanned jumpMask rethrow) \<Rightarrow> Some (case do {
            jumpMask \<leftarrow> mark_blocks blocks jumpMask;
            ok \<leftarrow> check_targets jumpMask (length code);
            Some (if ok then Scanned jumpMask rethrow else Fails BranchError)
          } of None \<Rightarrow> Undefined | Some r \<Rightarrow> r)
      | r \<Rightarrow> r)"

end
