(* ===== verification/IlScanSpec.thy ===== *)
theory IlScanSpec
  imports IlScan
begin

text \<open>
  What the scan of a method body decides.  \<open>instructions\<close> cuts the body into complete instructions
  with the absolute targets of their branches, in unbounded arithmetic; \<open>well_formed_code\<close> says
  that this succeeds and that every branch and every limit of an exception block lands on the
  start of an instruction.  The scan accepts exactly these bodies.
\<close>

section \<open>Specification\<close>

definition le_value :: "u8 list \<Rightarrow> nat" where
  "le_value bs = foldr (\<lambda>b n. unat b + 256 * n) bs 0"

definition signed_value :: "u8 list \<Rightarrow> int" where
  "signed_value bs = (let v = int (le_value bs) in if 2 * v < 2 ^ (8 * length bs) then v else v - 2 ^ (8 * length bs))"

text \<open>The bytes of the code from \<open>p\<close> on, and the value of \<open>k\<close> of them from the \<open>i\<close>-th on.\<close>

abbreviation (input) operand :: "u8 list \<Rightarrow> nat \<Rightarrow> nat \<Rightarrow> nat \<Rightarrow> u8 list" where
  "operand code p i k \<equiv> take k (drop (p + i) code)"

text \<open>The size of the instruction at \<open>p\<close> and the targets of its branches.\<close>

definition insn_at :: "u8 list \<Rightarrow> nat \<Rightarrow> (nat \<times> int list) option" where
  "insn_at code p =
     (let complete = (\<lambda>k. p + k \<le> length code) in
      if \<not> complete 1 then None
      else if unat (code ! p) = IL_OP_PREFIX then
        if \<not> complete 2 then None
        else case ILPrefixOpcodeSmallTable ! unat (code ! (p + 1)) of
            OPDEF _ _ ARGS_INVALID _ \<Rightarrow> None
          | OPDEF _ _ ARGS_ANN_DATA _ \<Rightarrow> if complete 6 then Some (6 + le_value (operand code p 2 4), []) else None
          | OPDEF _ _ _ k \<Rightarrow> Some (k, [])
      else case ILMainOpcodeSmallTable ! unat (code ! p) of
          OPDEF _ _ ARGS_INVALID _ \<Rightarrow> None
        | OPDEF _ _ ARGS_SHORT_JUMP _ \<Rightarrow>
            if complete 2 then Some (2, [int (p + 2) + signed_value (operand code p 1 1)]) else None
        | OPDEF _ _ ARGS_LONG_JUMP _ \<Rightarrow>
            if complete 5 then Some (5, [int (p + 5) + signed_value (operand code p 1 4)]) else None
        | OPDEF _ _ ARGS_SWITCH _ \<Rightarrow>
            if complete 5 then
              let n = le_value (operand code p 1 4); k = 5 + 4 * n in
              if complete k then Some (k, map (\<lambda>i. int (p + k) + signed_value (operand code p (5 + i * 4) 4)) [0..<n])
              else None
            else None
        | OPDEF _ _ ARGS_ANN_DATA _ \<Rightarrow> if complete 2 then Some (2 + le_value (operand code p 1 1), []) else None
        | OPDEF _ _ ARGS_ANN_PHI _ \<Rightarrow> if complete 3 then Some (3 + 2 * le_value (operand code p 1 2), []) else None
        | OPDEF _ _ _ k \<Rightarrow> Some (k, []))"

function instructions :: "u8 list \<Rightarrow> nat \<Rightarrow> (nat \<times> int list) list option" where
  "instructions code p =
     (if p \<ge> length code then Some []
      else case insn_at code p of
          None \<Rightarrow> None
        | Some (k, ts) \<Rightarrow>
            if k = 0 \<or> p + k > length code then None
            else map_option (Cons (p, ts)) (instructions code (p + k)))"
  by auto
termination
  by (relation "measure (\<lambda>(code, p). length code - p)") auto

declare instructions.simps [simp del]

definition well_formed_code :: "u8 list \<Rightarrow> nat list \<Rightarrow> bool" where
  "well_formed_code code limits =
     (case instructions code 0 of
        None \<Rightarrow> False
      | Some is \<Rightarrow> (\<forall>t \<in> set (concat (map snd is)). t \<in> int ` fst ` set is) \<and>
                   (\<forall>l \<in> set limits. l < length code \<longrightarrow> l \<in> fst ` set is))"

text \<open>Some instruction of the body is longer than any body: only a long data annotation can be.\<close>

function overlong :: "u8 list \<Rightarrow> nat \<Rightarrow> bool" where
  "overlong code p =
     (if p \<ge> length code then False
      else case insn_at code p of
          None \<Rightarrow> False
        | Some (k, ts) \<Rightarrow>
            if k = 0 \<or> p + k > length code then k \<ge> 2 ^ 32 else overlong code (p + k))"
  by auto
termination
  by (relation "measure (\<lambda>(code, p). length code - p)") auto

declare overlong.simps [simp del]

section \<open>The mask as a set of bits\<close>

definition mask_bits :: "u64 list \<Rightarrow> nat set" where
  "mask_bits m = {i. i < 64 * length m \<and> bit (m ! (i div 64)) (i mod 64)}"

definition adds :: "u64 list \<Rightarrow> u64 list \<Rightarrow> nat set \<Rightarrow> bool" where
  "adds m m' B \<longleftrightarrow> length m' = length m \<and> mask_bits m' = mask_bits m \<union> B"

lemma adds_empty [simp]: "adds m m {}"
  by (simp add: adds_def)

lemma adds_trans: "adds m m' A \<Longrightarrow> adds m' m'' B \<Longrightarrow> adds m m'' (A \<union> B)"
  by (auto simp: adds_def)

lemma mark_bit_adds:
  assumes "unat i < 64 * length m"
  obtains m' where "mark_bit m i = Some m'" and "adds m m' {unat i}"
proof
  let ?w = "unat i div 64" and ?m = "m[unat i div 64 := m ! (unat i div 64) OR push_bit (unat i mod 64) 1]"
  have w: "?w < length m" using assms by (simp add: less_mult_imp_div_less mult.commute)
  then show "mark_bit m i = Some ?m" by (simp add: mark_bit_def Let_def)
  have "bit (?m ! (j div 64)) (j mod 64) \<longleftrightarrow> bit (m ! (j div 64)) (j mod 64) \<or> j = unat i" for j
  proof (cases "j div 64 = ?w")
    case True
    have "j = unat i \<longleftrightarrow> j mod 64 = unat i mod 64" using True by (metis div_mult_mod_eq)
    with True w show ?thesis by (auto simp: bit_simps)
  qed auto
  with assms show "adds m ?m {unat i}" by (auto simp: adds_def mask_bits_def)
qed

lemma test_bit_mask: "unat i < 64 * length m \<Longrightarrow> test_bit m i = Some (unat i \<in> mask_bits m)"
  using less_mult_imp_div_less [of "unat i" "length m" 64]
  by (simp add: test_bit_def mask_bits_def mult.commute and_exp_eq_0_iff_not_bit)

lemma unat_triple: "unat x < 0x55555555 \<Longrightarrow> k < 3 \<Longrightarrow> unat (x * 3 + of_nat k :: u32) = 3 * unat x + k"
  by (simp add: unat_word_ariths unat_of_nat mult.commute)

lemma triple_bit: "i < n \<Longrightarrow> 3 * n \<le> 64 * (w :: nat) \<Longrightarrow> k < 3 \<Longrightarrow> 3 * i + k < 64 * w"
  by simp

text \<open>A kind of mark: bit \<open>k\<close> of the three bits of an offset.  \<open>covers m n\<close> says that the mask has room for \<open>n\<close> offsets.\<close>

definition covers :: "u64 list \<Rightarrow> nat \<Rightarrow> bool" where
  "covers m n \<longleftrightarrow> n < 0x55555555 \<and> 3 * n \<le> 64 * length m"

lemma covers_adds [simp]: "adds m m' B \<Longrightarrow> covers m' n = covers m n"
  by (simp add: covers_def adds_def)

locale mark_kind =
  fixes mark :: "u64 list \<Rightarrow> u32 \<Rightarrow> u64 list option"
    and test :: "u64 list \<Rightarrow> u32 \<Rightarrow> bool option"
    and k :: nat
  assumes mark_adds: "covers m n \<Longrightarrow> unat x < n \<Longrightarrow> \<exists>m'. mark m x = Some m' \<and> adds m m' {3 * unat x + k}"
    and test_mask: "covers m n \<Longrightarrow> unat x < n \<Longrightarrow> test m x = Some (3 * unat x + k \<in> mask_bits m)"
begin

lemma test_marked:
  assumes "covers m n" and "unat x < n" and "unat q < n" and "mark m x = Some m'"
  shows "test m' q = Some (q = x \<or> test m q = Some True)"
proof -
  from mark_adds [OF assms(1,2)] assms(4) have a: "adds m m' {3 * unat x + k}" by simp
  with assms(1) have "covers m' n" by simp
  from test_mask [OF this assms(3)] test_mask [OF assms(1,3)] a show ?thesis by (auto simp: adds_def word_unat_eq_iff)
qed

end

lemma mark_kind_bits:
  assumes "k < 3" and "\<And>m x. mark m x = mark_bit m (x * 3 + of_nat k)" and "\<And>m x. test m x = test_bit m (x * 3 + of_nat k)"
  shows "mark_kind mark test k"
proof
  fix m n and x :: u32 assume c: "covers m n" "unat x < n"
  then have b: "unat (x * 3 + of_nat k) = 3 * unat x + k" "3 * unat x + k < 64 * length m"
    using assms(1) by (auto simp: covers_def unat_triple)
  from b have "unat (x * 3 + of_nat k) < 64 * length m" by simp
  from mark_bit_adds [OF this] test_bit_mask [OF this] b
  show "\<exists>m'. mark m x = Some m' \<and> adds m m' {3 * unat x + k}" and "test m x = Some (3 * unat x + k \<in> mask_bits m)"
    unfolding assms(2,3) by auto
qed

interpretation starts: mark_kind MarkInsnStart IsInsnStart 0
  by (rule mark_kind_bits) (simp_all add: MarkInsnStart_def IsInsnStart_def)

interpretation jumps: mark_kind MarkJumpTarget IsJumpTarget 1
  by (rule mark_kind_bits) (simp_all add: MarkJumpTarget_def IsJumpTarget_def)

interpretation specials: mark_kind MarkSpecialJumpTarget IsSpecialJumpTarget 2
  by (rule mark_kind_bits) (simp_all add: MarkSpecialJumpTarget_def IsSpecialJumpTarget_def)

section \<open>Reads\<close>

lemma le_value_simps [simp]: "le_value [] = 0" "le_value (b # bs) = unat b + 256 * le_value bs"
  by (simp_all add: le_value_def)

lemma le_value_bound: "le_value bs < 256 ^ length bs"
proof (induction bs)
  case (Cons b bs)
  then have "le_value bs + 1 \<le> 256 ^ length bs" by simp
  then have "256 * (le_value bs + 1) \<le> 256 * 256 ^ length bs" by (rule mult_le_mono2)
  with unat_less_8 [of b] show ?case by simp
qed simp

lemma operand_1: "p + i + 1 \<le> length code \<Longrightarrow> operand code p i 1 = [code ! (p + i)]"
  by (simp add: take_Suc_conv_app_nth Cons_nth_drop_Suc [symmetric])

lemma take_bytes: "i + Suc k \<le> length code \<Longrightarrow> take (Suc k) (drop i code) = code ! i # take k (drop (Suc i) code)"
  by (simp add: Cons_nth_drop_Suc [symmetric])

lemma operand_2: "p + i + 2 \<le> length code \<Longrightarrow> operand code p i 2 = [code ! (p + i), code ! (p + i + 1)]"
  by (simp add: numeral_2_eq_2 take_bytes)

lemma operand_4:
  "p + i + 4 \<le> length code \<Longrightarrow>
   operand code p i 4 = [code ! (p + i), code ! (p + i + 1), code ! (p + i + 2), code ! (p + i + 3)]"
  by (simp add: numeral_eq_Suc take_bytes)

lemma unat_small: "n < 2 ^ LENGTH('a) \<Longrightarrow> unat (word_of_nat n :: 'a::len word) = n"
  by (simp add: unat_of_nat)

lemma code_uint16_value:
  assumes "p + i + 2 \<le> length code"
  obtains w where "code_uint16 code (p + i) = Some w" and "unat w = le_value (operand code p i 2)"
proof
  let ?a = "code ! (p + i)" and ?b = "code ! (p + i + 1)"
  show "code_uint16 code (p + i) = Some (ucast ?a OR push_bit 8 (ucast ?b))"
    using assms by (simp add: code_uint16_def code_byte_def)
  have "ucast ?a OR push_bit 8 (ucast ?b) = (ucast ?a + push_bit 8 (ucast ?b) :: u16)"
    by (rule disjunctive_add_eq_or [symmetric], rule word16_eqI) (auto simp: bit_simps dest: bit_imp_le_length)
  also have "\<dots> = word_of_nat (unat ?a + 256 * unat ?b)" by (simp add: push_bit_eq_mult)
  finally have "unat (ucast ?a OR push_bit 8 (ucast ?b) :: u16) = unat (word_of_nat (unat ?a + 256 * unat ?b) :: u16)"
    by simp
  also have "\<dots> = unat ?a + 256 * unat ?b"
    by (rule unat_small) (use unat_less_8 [of ?a] unat_less_8 [of ?b] in simp)
  finally show "unat (ucast ?a OR push_bit 8 (ucast ?b) :: u16) = le_value (operand code p i 2)"
    using assms by (simp add: operand_2)
qed

lemma code_uint32_value:
  assumes "p + i + 4 \<le> length code"
  obtains w where "code_uint32 code (p + i) = Some w" and "unat w = le_value (operand code p i 4)"
proof
  let ?a = "code ! (p + i)" and ?b = "code ! (p + i + 1)" and ?c = "code ! (p + i + 2)" and ?d = "code ! (p + i + 3)"
  let ?w = "ucast ?a OR push_bit 8 (ucast ?b) OR push_bit 16 (ucast ?c) OR push_bit 24 (ucast ?d) :: u32"
  show "code_uint32 code (p + i) = Some ?w"
    using assms by (simp add: code_uint32_def code_byte_def)
  have "push_bit 16 (ucast ?c) OR push_bit 24 (ucast ?d) = (push_bit 16 (ucast ?c) + push_bit 24 (ucast ?d) :: u32)"
    by (rule disjunctive_add_eq_or [symmetric], rule word32_eqI) (auto simp: bit_simps dest: bit_imp_le_length)
  moreover have "push_bit 8 (ucast ?b) OR (push_bit 16 (ucast ?c) OR push_bit 24 (ucast ?d)) =
      (push_bit 8 (ucast ?b) + (push_bit 16 (ucast ?c) OR push_bit 24 (ucast ?d)) :: u32)"
    by (rule disjunctive_add_eq_or [symmetric], rule word32_eqI) (auto simp: bit_simps dest: bit_imp_le_length)
  moreover have "?w = ucast ?a + (push_bit 8 (ucast ?b) OR (push_bit 16 (ucast ?c) OR push_bit 24 (ucast ?d)))"
    unfolding or.assoc
    by (rule disjunctive_add_eq_or [symmetric], rule word32_eqI) (auto simp: bit_simps dest: bit_imp_le_length)
  ultimately have "?w = ucast ?a + (push_bit 8 (ucast ?b) + (push_bit 16 (ucast ?c) + push_bit 24 (ucast ?d)))"
    by simp
  also have "\<dots> = word_of_nat (unat ?a + 256 * (unat ?b + 256 * (unat ?c + 256 * unat ?d)))"
    by (simp add: push_bit_eq_mult algebra_simps)
  finally have "unat ?w = unat (word_of_nat (unat ?a + 256 * (unat ?b + 256 * (unat ?c + 256 * unat ?d))) :: u32)"
    by simp
  also have "\<dots> = unat ?a + 256 * (unat ?b + 256 * (unat ?c + 256 * unat ?d))"
    by (rule unat_small)
      (use unat_less_8 [of ?a] unat_less_8 [of ?b] unat_less_8 [of ?c] unat_less_8 [of ?d] in simp)
  finally show "unat ?w = le_value (operand code p i 4)"
    using assms by (simp add: operand_4)
qed

text \<open>A displacement as the scan reads it, and as a signed number.\<close>

lemma signed_value_8: "p + i + 1 \<le> length code \<Longrightarrow> signed_value (operand code p i 1) = sint (code ! (p + i))"
proof -
  let ?b = "code ! (p + i)"
  obtain u where u: "uint ?b = int u" "unat ?b = u" using uint_nat [of ?b] by blast
  have "sint ?b = (uint ?b + 2 ^ 7) mod 2 ^ 8 - 2 ^ 7"
    by (simp add: sint_uint signed_take_bit_eq_take_bit_shift take_bit_eq_mod)
  with u unat_less_8 [of ?b] have "sint ?b = (if unat ?b < 2 ^ 7 then int (unat ?b) else int (unat ?b) - 2 ^ 8)"
    unfolding u using centred_mod [of "int u" "2 ^ 7"] by simp
  moreover assume "p + i + 1 \<le> length code"
  ultimately show ?thesis by (simp add: operand_1 [simplified] signed_value_def Let_def u)
qed

lemma signed_value_32:
  assumes "unat (w :: u32) = le_value bs" and "length bs = 4"
  shows "signed_value bs = sint w"
  using assms by (simp add: signed_value_def Let_def sint_cases_32)

section \<open>The tables\<close>

definition plain :: "opcode_args \<Rightarrow> bool" where
  "plain args \<longleftrightarrow> args \<notin> {ARGS_INVALID, ARGS_SHORT_JUMP, ARGS_LONG_JUMP, ARGS_SWITCH, ARGS_ANN_DATA, ARGS_ANN_PHI}"

definition entry_ok :: "nat \<Rightarrow> ILOpcodeSmallInfo \<Rightarrow> bool" where
  "entry_ok i e = (case e of
       OPDEF _ _ ARGS_INVALID k \<Rightarrow> k \<le> 2
     | OPDEF _ _ ARGS_SHORT_JUMP k \<Rightarrow> k = 2
     | OPDEF _ _ ARGS_LONG_JUMP k \<Rightarrow> k = 5
     | OPDEF _ _ ARGS_SWITCH k \<Rightarrow> k = 0
     | OPDEF _ _ ARGS_ANN_DATA k \<Rightarrow> k = 0 \<and> i = IL_OP_ANN_DATA_S
     | OPDEF _ _ ARGS_ANN_PHI k \<Rightarrow> k = 0
     | OPDEF _ _ _ k \<Rightarrow> 0 < k \<and> k \<le> 9)"

definition prefix_entry_ok :: "ILOpcodeSmallInfo \<Rightarrow> bool" where
  "prefix_entry_ok e = (case e of
       OPDEF _ _ ARGS_INVALID k \<Rightarrow> k = 2
     | OPDEF _ _ ARGS_ANN_DATA k \<Rightarrow> k = 0
     | OPDEF _ _ args k \<Rightarrow> plain args \<and> 2 \<le> k \<and> k \<le> 9)"

lemma main_entries: "length ILMainOpcodeSmallTable = 256 \<and> list_all (case_prod entry_ok) (zip [0..<256] ILMainOpcodeSmallTable)"
  by code_simp

lemma prefix_entries: "length ILPrefixOpcodeSmallTable = 256 \<and> list_all prefix_entry_ok ILPrefixOpcodeSmallTable"
  by code_simp

lemma main_entry: "entry_ok (unat (op :: u8)) (ILMainOpcodeSmallTable ! unat op)"
  using main_entries unat_less_8 [of op] by (auto simp: list_all_length)

lemma prefix_entry: "prefix_entry_ok (ILPrefixOpcodeSmallTable ! unat (op :: u8))"
  using prefix_entries unat_less_8 [of op] by (auto simp: list_all_length)

section \<open>Branch targets\<close>

definition in_code :: "u8 list \<Rightarrow> int \<Rightarrow> bool" where
  "in_code code t \<longleftrightarrow> 0 \<le> t \<and> t < int (length code)"

definition target_bits :: "int list \<Rightarrow> nat set" where
  "target_bits ts = (\<lambda>t. 3 * nat t + 1) ` set ts"

lemma target_bits_simps [simp]: "target_bits [] = {}" "target_bits (t # ts) = insert (3 * nat t + 1) (target_bits ts)"
    "target_bits (ts @ us) = target_bits ts \<union> target_bits us"
  by (auto simp: target_bits_def)

lemma word_in_code:
  assumes "length code < 0x55555555" and "- (2 ^ 31) \<le> t" and "t < 2 ^ 32"
  shows "word_of_int t < codeLen code \<longleftrightarrow> in_code code t"
    and "in_code code t \<Longrightarrow> unat (word_of_int t :: u32) = nat t"
proof -
  have "uint (word_of_int t :: u32) = (if 0 \<le> t then t else t + 2 ^ 32)"
  proof (cases "0 \<le> t")
    case False
    have "t mod 2 ^ 32 = (t + 2 ^ 32) mod 2 ^ 32" by (rule mod_add_self2 [symmetric])
    also have "\<dots> = t + 2 ^ 32" using False assms(2) by (intro mod_pos_pos_trivial) auto
    finally show ?thesis using False by (simp add: uint_word_of_int)
  qed (use assms(3) in \<open>simp add: uint_word_of_int mod_pos_pos_trivial\<close>)
  moreover have "uint (codeLen code) = int (length code)"
    using assms(1) by (simp add: codeLen_def uint_nat unat_small)
  ultimately show "word_of_int t < codeLen code \<longleftrightarrow> in_code code t" and "in_code code t \<Longrightarrow> unat (word_of_int t :: u32) = nat t"
    using assms by (auto simp: word_less_def in_code_def unat_eq_nat_uint)
qed

definition ends :: "u8 list \<Rightarrow> int list \<Rightarrow> u64 list \<Rightarrow> (scan_error + u64 list) option \<Rightarrow> bool" where
  "ends code ts m r \<longleftrightarrow>
     (if \<forall>t \<in> set ts. in_code code t then \<exists>m'. r = Some (Inr m') \<and> adds m m' (target_bits ts) else \<exists>e. r = Some (Inl e))"

lemma scan_target_ends:
  assumes "covers m (length code)" and "base + disp = word_of_int t" and "- (2 ^ 31) \<le> t" and "t < 2 ^ 32"
  shows "ends code [t] m (scan_target code base disp m)"
proof -
  from assms(1) have "length code < 0x55555555" by (simp add: covers_def)
  note w = word_in_code [OF this assms(3,4)]
  show ?thesis
  proof (cases "in_code code t")
    case True
    with w have "unat (word_of_int t :: u32) < length code" by (auto simp: in_code_def)
    with jumps.mark_adds [OF assms(1) this] w True show ?thesis
      by (auto simp: ends_def scan_target_def assms(2) Let_def)
  next
    case False with w show ?thesis by (auto simp: ends_def scan_target_def assms(2) Let_def not_less)
  qed
qed

lemma ends_then:
  assumes "ends code [t] m r" and "\<And>m' B. adds m m' B \<Longrightarrow> ends code ts m' (f m')"
  shows "ends code (ts @ [t]) m (do { r \<leftarrow> r; case r of Inl e \<Rightarrow> Some (Inl e) | Inr m \<Rightarrow> f m })"
proof (cases "in_code code t")
  case True
  with assms(1) obtain m' where m': "r = Some (Inr m')" "adds m m' {3 * nat t + 1}" by (auto simp: ends_def)
  from assms(2) [OF m'(2)] m' True show ?thesis
    using adds_trans [OF m'(2), of _ "target_bits ts"] by (auto simp: ends_def)
qed (use assms(1) in \<open>auto simp: ends_def\<close>)

lemma displacement_bounds:
  assumes "length code < 0x55555555" and "n \<le> length code"
  shows "- (2 ^ 31) \<le> int n + sint (d :: u32)" and "int n + sint d < 2 ^ 32"
  using assms sint_range_32 [of d] by simp_all

text \<open>The targets of the first \<open>n\<close> entries of a \<^verbatim>\<open>switch\<close> of size \<open>k\<close> at \<open>p\<close>.\<close>

abbreviation (input) switch_targets :: "u8 list \<Rightarrow> nat \<Rightarrow> nat \<Rightarrow> nat \<Rightarrow> int list" where
  "switch_targets code p k n \<equiv> map (\<lambda>i. int (p + k) + signed_value (operand code p (5 + i * 4) 4)) [0..<n]"

lemma scan_switch_ends:
  assumes "covers m (length code)" and "p + k \<le> length code" and "5 + 4 * n \<le> k"
  shows "ends code (switch_targets code p k n) m (scan_switch code p (of_nat (p + k)) n m)"
  using assms(1,3)
proof (induction n arbitrary: m)
  case (Suc n)
  let ?t = "int (p + k) + signed_value (operand code p (5 + n * 4) 4)"
  from Suc.prems assms(2) have r: "p + (5 + n * 4) + 4 \<le> length code" by simp
  obtain d where d: "code_uint32 code (p + (5 + n * 4)) = Some d" "unat d = le_value (operand code p (5 + n * 4) 4)"
    using code_uint32_value [OF r] .
  with r have t: "signed_value (operand code p (5 + n * 4) 4) = sint d" by (simp add: signed_value_32)
  from Suc.prems(1) have l: "length code < 0x55555555" by (simp add: covers_def)
  have "ends code [?t] m (scan_target code (of_nat (p + k)) d m)"
    using Suc.prems(1) displacement_bounds [OF l assms(2), of d] by (intro scan_target_ends) (simp_all add: t)
  moreover have "ends code (switch_targets code p k n) m' (scan_switch code p (of_nat (p + k)) n m')"
    if "adds m m' B" for m' B
    using that Suc.prems by (intro Suc.IH) simp_all
  ultimately show ?case
    using d(1) ends_then [of code ?t m "scan_target code (of_nat (p + k)) d m" "switch_targets code p k n"]
    by (simp add: add.assoc)
qed (simp add: ends_def)

section \<open>One instruction\<close>

definition follows :: "u8 list \<Rightarrow> nat \<Rightarrow> nat \<Rightarrow> int list \<Rightarrow> u64 list \<Rightarrow> (scan_error + u32 \<times> u64 list) option \<Rightarrow> bool" where
  "follows code p k ts m r \<longleftrightarrow>
     (if p + k \<le> length code \<and> (\<forall>t \<in> set ts. in_code code t)
      then \<exists>m'. r = Some (Inr (of_nat k, m')) \<and> adds m m' (target_bits ts) else \<exists>e. r = Some (Inl e))"

definition matches :: "u8 list \<Rightarrow> nat \<Rightarrow> u64 list \<Rightarrow> (scan_error + u32 \<times> u64 list) option \<Rightarrow> bool" where
  "matches code p m r \<longleftrightarrow>
     (case insn_at code p of
        None \<Rightarrow> \<exists>e. r = Some (Inl e)
      | Some (k, ts) \<Rightarrow> k < 2 ^ 32 \<longrightarrow> 0 < k \<and> follows code p k ts m r)"

lemma ends_follows:
  "p + k \<le> length code \<Longrightarrow> ends code ts m r \<Longrightarrow> follows code p k ts m (do { r \<leftarrow> r; Some (map_sum id (Pair (of_nat k)) r) })"
  by (auto simp: ends_def follows_def split: if_splits)

lemma len_less:
  "length code < 2 ^ 32 \<Longrightarrow> p \<le> length code \<Longrightarrow> of_nat (length code - p) < (w :: u32) \<longleftrightarrow> length code < p + unat w"
proof -
  assume l: "length code < 2 ^ 32" and p: "p \<le> length code"
  from l have "unat (of_nat (length code - p) :: u32) = length code - p" by (intro unat_small) simp
  with p show ?thesis unfolding word_less_nat_alt by linarith
qed

lemma covers_less: "covers m n \<Longrightarrow> n < 2 ^ 32"
  by (simp add: covers_def)

text \<open>The scan of an instruction that starts at \<open>p\<close>, after the check of the size in its table entry.\<close>

abbreviation (input) sized ::
    "u8 list \<Rightarrow> nat \<Rightarrow> nat \<Rightarrow> (scan_error + u32 \<times> u64 list) option \<Rightarrow> (scan_error + u32 \<times> u64 list) option" where
  "sized code p k r \<equiv> if length code < p + k then Some (Inl Truncated) else r"

lemma plain_operands: "plain args \<Longrightarrow> scan_operands code p len opcode args insnSize m = Some (Inr (insnSize, m))"
  by (cases args) (simp_all add: plain_def scan_operands_def)

lemma plain_matches:
  assumes "insn_at code p = Some (k, [])" and "0 < k" and "plain args"
  shows "matches code p m (sized code p k (scan_operands code p len opcode args (of_nat k) m))"
  using assms by (simp add: matches_def follows_def plain_operands)

lemma jump_matches:
  assumes "covers m (length code)" and "p < length code" and "unat (code ! p) \<noteq> IL_OP_PREFIX"
    and "ILMainOpcodeSmallTable ! unat (code ! p) = OPDEF a b args k" and "args = ARGS_SHORT_JUMP \<or> args = ARGS_LONG_JUMP"
  shows "matches code p m (sized code p k (scan_operands code p len opcode args (of_nat k) m))"
proof (cases "length code < p + k")
  case True
  with assms main_entry [of "code ! p"] show ?thesis by (auto simp: matches_def insn_at_def entry_ok_def Let_def)
next
  case False
  from assms(1) have l: "length code < 0x55555555" by (simp add: covers_def)
  have "ends code [int (p + k) + sint d] m (scan_target code (of_nat p + of_nat k) d m)" for d
    using assms(1) False displacement_bounds [OF l, of "p + k" d] by (intro scan_target_ends) simp_all
  from ends_follows [OF _ this] False have f: "follows code p k [int (p + k) + sint d] m
      (do { r \<leftarrow> scan_target code (of_nat p + of_nat k) d m; Some (map_sum id (Pair (of_nat k)) r) })" for d
    by simp
  from assms(5) show ?thesis
  proof
    assume a: "args = ARGS_SHORT_JUMP"
    with assms(4) main_entry [of "code ! p"] have k: "k = 2" by (simp add: entry_ok_def)
    with f [of "scast (code ! (p + 1))"] a assms(2-4) False signed_value_8 [of p 1 code] show ?thesis
      by (simp add: matches_def insn_at_def scan_operands_def code_byte_def sint_up_scast is_up)
  next
    assume a: "args = ARGS_LONG_JUMP"
    with assms(4) main_entry [of "code ! p"] have k: "k = 5" by (simp add: entry_ok_def)
    with False have "p + 1 + 4 \<le> length code" by simp
    from code_uint32_value [OF this] obtain d where d: "code_uint32 code (p + 1) = Some d" "unat d = le_value (operand code p 1 4)" .
    with \<open>p + 1 + 4 \<le> length code\<close> have "signed_value (operand code p 1 4) = sint d" by (simp add: signed_value_32)
    with f [of d] a k d assms(2-4) False show ?thesis by (simp add: matches_def insn_at_def scan_operands_def)
  qed
qed

lemma switch_matches:
  assumes "covers m (length code)" and "p < length code" and "unat (code ! p) \<noteq> IL_OP_PREFIX"
    and "ILMainOpcodeSmallTable ! unat (code ! p) = OPDEF a b ARGS_SWITCH k" and "len = of_nat (length code - p)"
  shows "matches code p m (scan_operands code p len opcode ARGS_SWITCH (of_nat k) m)"
proof -
  from covers_less [OF assms(1)] assms(2) have len: "len < w \<longleftrightarrow> length code < p + unat w" for w
    unfolding assms(5) by (intro len_less) simp_all
  show ?thesis
  proof (cases "p + 5 \<le> length code")
    case True
    then have "p + 1 + 4 \<le> length code" by simp
    from code_uint32_value [OF this] obtain n where n: "code_uint32 code (p + 1) = Some n" "unat n = le_value (operand code p 1 4)" .
    let ?k = "5 + 4 * unat n"
    have at: "insn_at code p = (if p + ?k \<le> length code then Some (?k, switch_targets code p ?k (unat n)) else None)"
      using assms(2-4) True by (simp add: insn_at_def Let_def n(2))
    show ?thesis
    proof (cases "n \<ge> 0x20000000")
      case big: True
      then have "unat n \<ge> 0x20000000" by (simp add: word_le_nat_alt)
      with covers_less [OF assms(1)] assms(1) have "\<not> p + ?k \<le> length code" by (simp add: covers_def)
      with big n True at show ?thesis by (simp add: matches_def scan_operands_def len)
    next
      case False
      then have "unat n < 0x20000000" by (simp add: word_le_nat_alt)
      then have k: "5 + n * 4 = of_nat ?k" "unat (of_nat ?k :: u32) = ?k" by (simp, intro unat_small) simp_all
      from scan_switch_ends [OF assms(1), of p ?k "unat n"] ends_follows [of p ?k code]
      have "follows code p ?k (switch_targets code p ?k (unat n)) m
          (do { r \<leftarrow> scan_switch code p (of_nat p + of_nat ?k) (unat n) m; Some (map_sum id (Pair (of_nat ?k)) r) })"
        if "p + ?k \<le> length code" using that by simp
      with False n(1) True at show ?thesis
        by (simp add: matches_def scan_operands_def len k Let_def del: of_nat_add of_nat_mult)
    qed
  next
    case False
    with assms(2-4) show ?thesis by (simp add: matches_def insn_at_def scan_operands_def len)
  qed
qed

lemma annotation_matches:
  assumes "length code < 2 ^ 32" and "p < length code" and "insn_at code p = Some (k, [])" and "unat w = k" and "0 < k"
    and "len = of_nat (length code - p)"
  shows "matches code p m (Some (if len < w then Inl Truncated else Inr (w, m)))"
  using assms len_less [of code p w] by (auto simp: matches_def follows_def)

lemma main_annotation_matches:
  assumes "covers m (length code)" and "p < length code" and "unat (code ! p) \<noteq> IL_OP_PREFIX"
    and "ILMainOpcodeSmallTable ! unat (code ! p) = OPDEF a b args k" and "len = of_nat (length code - p)"
    and "args = ARGS_ANN_DATA \<or> args = ARGS_ANN_PHI"
  shows "matches code p m (scan_operands code p len (unat (code ! p)) args (of_nat k) m)"
proof -
  note l = covers_less [OF assms(1)]
  from l assms(2) have len: "len < w \<longleftrightarrow> length code < p + unat w" for w
    unfolding assms(5) by (intro len_less) simp_all
  from assms(6) show ?thesis
  proof
    assume a: "args = ARGS_ANN_DATA"
    with assms(4) main_entry [of "code ! p"] have op: "unat (code ! p) = IL_OP_ANN_DATA_S" by (simp add: entry_ok_def)
    show ?thesis
    proof (cases "p + 2 \<le> length code")
      case True
      let ?n = "code ! (p + 1)"
      have at: "insn_at code p = Some (2 + unat ?n, [])"
        using assms(2-4) a True operand_1 [of p 1 code] by (simp add: insn_at_def)
      have "(ucast ?n AND 0xFF :: u32) = ucast ?n"
        by (rule word32_eqI) (simp add: blast_simps)
      moreover have "unat (ucast ?n + 2 :: u32) = 2 + unat ?n"
        using unat_less_8 [of ?n] by (simp add: unat_word_ariths)
      ultimately show ?thesis
        using annotation_matches [OF l assms(2) at _ _ assms(5), of "ucast ?n + 2" m] True a op
        by (simp add: scan_operands_def code_byte_def len Let_def split: if_splits)
    qed (use assms(2-4) a op in \<open>simp add: matches_def insn_at_def scan_operands_def len\<close>)
  next
    assume a: "args = ARGS_ANN_PHI"
    show ?thesis
    proof (cases "p + 3 \<le> length code")
      case True
      then have "p + 1 + 2 \<le> length code" by simp
      from code_uint16_value [OF this] obtain n where n: "code_uint16 code (p + 1) = Some n" "unat n = le_value (operand code p 1 2)" .
      have at: "insn_at code p = Some (3 + 2 * unat n, [])"
        using assms(2-4) a True n(2) by (simp add: insn_at_def)
      have "unat (ucast n :: u32) = unat n" "unat n < 2 ^ 16"
        using unsigned_less [of n, where 'a = nat] by (simp_all add: unat_ucast_mod)
      then have "unat (ucast n * 2 + 3 :: u32) = 3 + 2 * unat n" by (simp add: unat_word_ariths)
      then show ?thesis
        using annotation_matches [OF l assms(2) at _ _ assms(5), of "ucast n * 2 + 3" m] True a n(1)
        by (simp add: scan_operands_def len Let_def)
    qed (use assms(2-4) a in \<open>simp add: matches_def insn_at_def scan_operands_def len\<close>)
  qed
qed

lemma prefix_annotation_matches:
  assumes "covers m (length code)" and "p + 1 < length code" and "unat (code ! p) = IL_OP_PREFIX"
    and "ILPrefixOpcodeSmallTable ! unat (code ! (p + 1)) = OPDEF a b ARGS_ANN_DATA k" and "len = of_nat (length code - p)"
    and "opcode \<noteq> IL_OP_ANN_DATA_S"
  shows "matches code p m (scan_operands code p len opcode ARGS_ANN_DATA (of_nat k) m)"
proof -
  note l = covers_less [OF assms(1)]
  from l assms(2) have len: "len < w \<longleftrightarrow> length code < p + unat w" for w
    unfolding assms(5) by (intro len_less) simp_all
  show ?thesis
  proof (cases "p + 6 \<le> length code")
    case True
    then have "p + 2 + 4 \<le> length code" by simp
    from code_uint32_value [OF this] obtain n where n: "code_uint32 code (p + 2) = Some n" "unat n = le_value (operand code p 2 4)" .
    have at: "insn_at code p = Some (6 + unat n, [])"
      using assms(2-4) True n(2) by (simp add: insn_at_def)
    have "matches code p m (Some (if len < n + 6 then Inl Truncated else Inr (n + 6, m)))"
    proof (cases "6 + unat n < 2 ^ 32")
      case True
      then have "unat (n + 6) = 6 + unat n" by (simp add: unat_word_ariths)
      with annotation_matches [OF l _ at, of "n + 6" len m] assms(2,5) show ?thesis by simp
    qed (use at in \<open>simp add: matches_def\<close>)
    with True n(1) assms(6) show ?thesis by (simp add: scan_operands_def len Let_def)
  qed (use assms(2-4,6) in \<open>simp add: matches_def insn_at_def scan_operands_def len\<close>)
qed

lemma main_matches:
  assumes "covers m (length code)" and "p < length code" and "unat (code ! p) \<noteq> IL_OP_PREFIX"
    and "ILMainOpcodeSmallTable ! unat (code ! p) = OPDEF a b args k" and "len = of_nat (length code - p)"
  shows "matches code p m (sized code p k (scan_operands code p len (unat (code ! p)) args (of_nat k) m))"
proof -
  note e = main_entry [of "code ! p", unfolded assms(4)]
  consider "args = ARGS_INVALID" | "args = ARGS_SHORT_JUMP \<or> args = ARGS_LONG_JUMP" | "args = ARGS_SWITCH"
    | "args = ARGS_ANN_DATA \<or> args = ARGS_ANN_PHI" | "plain args" by (auto simp: plain_def)
  then show ?thesis
  proof cases
    case 1 with assms(2-4) show ?thesis by (simp add: matches_def insn_at_def scan_operands_def)
  next
    case 2 from jump_matches [OF assms(1-4) this] show ?thesis .
  next
    case 3 with e assms switch_matches [of m code p a b k len] show ?thesis by (simp add: entry_ok_def)
  next
    case 4
    with e have "k = 0" by (auto simp: entry_ok_def)
    with main_annotation_matches [OF assms 4] assms(2) show ?thesis by simp
  next
    case 5
    with e have "0 < k" by (cases args) (simp_all add: plain_def entry_ok_def)
    moreover from 5 assms(2-4) have "insn_at code p = Some (k, [])"
      by (cases args) (simp_all add: plain_def insn_at_def)
    ultimately show ?thesis using 5 by (intro plain_matches)
  qed
qed

lemma prefix_matches:
  assumes "covers m (length code)" and "p + 1 < length code" and "unat (code ! p) = IL_OP_PREFIX"
    and "ILPrefixOpcodeSmallTable ! unat (code ! (p + 1)) = OPDEF a b args k" and "len = of_nat (length code - p)"
    and "opcode \<noteq> IL_OP_ANN_DATA_S"
  shows "matches code p m (sized code p k (scan_operands code p len opcode args (of_nat k) m))"
proof -
  note e = prefix_entry [of "code ! (p + 1)", unfolded assms(4)]
  consider "args = ARGS_INVALID" | "args = ARGS_ANN_DATA" | "args \<noteq> ARGS_INVALID" "args \<noteq> ARGS_ANN_DATA" by blast
  then show ?thesis
  proof cases
    case 1 with assms(2-4) show ?thesis by (simp add: matches_def insn_at_def scan_operands_def)
  next
    case 2
    with e have "k = 0" by (simp add: prefix_entry_ok_def)
    with prefix_annotation_matches [OF assms(1-3) assms(4) [unfolded 2] assms(5,6)] assms(2) 2 show ?thesis by simp
  next
    case 3
    with e have "plain args" "0 < k" by (cases args; simp add: prefix_entry_ok_def)+
    moreover from 3 assms(2-4) have "insn_at code p = Some (k, [])"
      by (cases args) (simp_all add: insn_at_def)
    ultimately show ?thesis by (intro plain_matches)
  qed
qed

definition scan_next :: "scan_state \<Rightarrow> bool \<Rightarrow> u32 \<times> u64 list \<Rightarrow> scan_state" where
  "scan_next s rethrow = (\<lambda>(insnSize, jumpMask).
     \<lparr>scan_pc = scan_pc s + unat insnSize, scan_len = scan_len s - insnSize, scan_mask = jumpMask,
      scan_rethrow = scan_rethrow s \<or> rethrow\<rparr>)"

definition at_insn :: "u8 list \<Rightarrow> nat \<Rightarrow> scan_state \<Rightarrow> bool" where
  "at_insn code p s \<longleftrightarrow> scan_pc s = p \<and> p \<le> length code \<and> scan_len s = of_nat (length code - p) \<and> covers (scan_mask s) (length code)"

lemma scan_insn_matches:
  assumes "at_insn code p s" and "p < length code"
  obtains m r b where "adds (scan_mask s) m {3 * p}" and "matches code p m r"
    and "scan_insn code s = do { r \<leftarrow> r; Some (map_sum id (scan_next s b) r) }"
proof -
  from assms have c: "covers (scan_mask s) (length code)" and pc: "scan_pc s = p" and len: "scan_len s = of_nat (length code - p)"
    by (simp_all add: at_insn_def)
  from covers_less [OF c] assms(2) have p: "unat (of_nat p :: u32) = p" by (intro unat_small) simp
  from starts.mark_adds [OF c, of "of_nat p"] assms(2) p obtain m
    where m: "MarkInsnStart (scan_mask s) (of_nat p) = Some m" "adds (scan_mask s) m {3 * p}" by auto
  with c have c': "covers m (length code)" by simp
  have less: "scan_len s < w \<longleftrightarrow> length code < p + unat w" for w
    using covers_less [OF c] assms(2) unfolding len by (intro len_less) simp_all
  note step = scan_insn_def scan_fetch_def code_byte_def scan_next_def [abs_def] less pc Let_def
  show thesis
  proof (cases "unat (code ! p) = IL_OP_PREFIX")
    case False
    obtain a b args k where e: "ILMainOpcodeSmallTable ! unat (code ! p) = OPDEF a b args k" by (metis ILOpcodeSmallInfo.exhaust)
    with main_entry [of "code ! p"] have "k \<le> 9" by (cases args) (simp_all add: entry_ok_def)
    then have k: "unat (of_nat k :: u32) = k" by (intro unat_small) simp
    show ?thesis
      by (rule that [OF m(2) main_matches [OF c' assms(2) False e len], of False])
        (use m(1) False e assms(2) k in \<open>simp add: step\<close>)
  next
    case True
    show ?thesis
    proof (cases "p + 1 < length code")
      case c2: True
      obtain a b args k where e: "ILPrefixOpcodeSmallTable ! unat (code ! (p + 1)) = OPDEF a b args k"
        by (metis ILOpcodeSmallInfo.exhaust)
      with prefix_entry [of "code ! (p + 1)"] have "k \<le> 9" by (cases args) (simp_all add: prefix_entry_ok_def)
      then have k: "unat (of_nat k :: u32) = k" by (intro unat_small) simp
      let ?op = "unat (code ! (p + 1)) + IL_OP_PREFIX"
      have "?op \<noteq> IL_OP_ANN_DATA_S" by simp
      from that [OF m(2) prefix_matches [OF c' c2 True e len this], of "unat (code ! (p + 1)) = IL_PREFIX_OP_RETHROW"]
      show ?thesis using m(1) True e c2 k by (simp add: step)
    next
      case False
      with True assms(2) have "matches code p m (Some (Inl Truncated))" by (simp add: matches_def insn_at_def)
      from that [OF m(2) this, of False] show ?thesis using m(1) True False assms(2) by (simp add: step)
    qed
  qed
qed

lemma scan_insn_step:
  assumes "at_insn code p s" and "p < length code" and "insn_at code p = Some (k, ts)" and "k < 2 ^ 32"
  shows "if p + k \<le> length code \<and> (\<forall>t \<in> set ts. in_code code t)
     then 0 < k \<and> (\<exists>s'. scan_insn code s = Some (Inr s') \<and> at_insn code (p + k) s' \<and>
            adds (scan_mask s) (scan_mask s') (insert (3 * p) (target_bits ts)))
     else \<exists>e. scan_insn code s = Some (Inl e)"
proof -
  from scan_insn_matches [OF assms(1,2)] obtain m r b where m: "adds (scan_mask s) m {3 * p}" "matches code p m r"
    and r: "scan_insn code s = do { r \<leftarrow> r; Some (map_sum id (scan_next s b) r) }" .
  from m(2) assms(3,4) have f: "0 < k" "follows code p k ts m r" by (simp_all add: matches_def)
  show ?thesis
  proof (cases "p + k \<le> length code \<and> (\<forall>t \<in> set ts. in_code code t)")
    case True
    with f(2) obtain m' where m': "r = Some (Inr (of_nat k, m'))" "adds m m' (target_bits ts)" by (auto simp: follows_def)
    from adds_trans [OF m(1) m'(2)] have a: "adds (scan_mask s) m' (insert (3 * p) (target_bits ts))" by simp
    have "at_insn code (p + k) (scan_next s b (of_nat k, m'))"
      using assms(1,4) True a by (simp add: at_insn_def scan_next_def unat_small)
    with True f(1) a m'(1) r show ?thesis by (simp add: scan_next_def)
  next
    case False
    with f(2) r show ?thesis by (auto simp: follows_def)
  qed
qed

lemma scan_insn_none:
  assumes "at_insn code p s" and "p < length code" and "insn_at code p = None"
  shows "\<exists>e. scan_insn code s = Some (Inl e)"
proof -
  from scan_insn_matches [OF assms(1,2)] obtain m r b where "matches code p m r"
    and "scan_insn code s = do { r \<leftarrow> r; Some (map_sum id (scan_next s b) r) }" .
  with assms(3) show ?thesis by (auto simp: matches_def)
qed

section \<open>The whole scan\<close>

definition insn_marks :: "(nat \<times> int list) list \<Rightarrow> nat set" where
  "insn_marks is = (\<lambda>i. 3 * fst i) ` set is \<union> target_bits (concat (map snd is))"

lemma insn_marks_simps [simp]:
  "insn_marks [] = {}" "insn_marks ((p, ts) # is) = insert (3 * p) (target_bits ts) \<union> insn_marks is"
  by (auto simp: insn_marks_def)

definition scans :: "u8 list \<Rightarrow> (nat \<times> int list) list option \<Rightarrow> scan_state \<Rightarrow> scan_outcome option \<Rightarrow> bool" where
  "scans code is s r \<longleftrightarrow>
     (case is of
        Some is \<Rightarrow> if \<forall>t \<in> set (concat (map snd is)). in_code code t
          then \<exists>m b. r = Some (Scanned m b) \<and> adds (scan_mask s) m (insn_marks is) else \<exists>e. r = Some (Fails e)
      | None \<Rightarrow> \<exists>e. r = Some (Fails e))"

lemma scan_loop_scans:
  assumes "at_insn code p s" and "\<not> overlong code p"
  shows "scans code (instructions code p) s (scan_loop code s)"
  using assms
proof (induction code p arbitrary: s rule: instructions.induct)
  case (1 code p)
  note at = \<open>at_insn code p s\<close>
  show ?case
  proof (cases "p < length code")
    case False
    with at show ?thesis by (simp add: at_insn_def scans_def instructions.simps scan_loop.simps)
  next
    case True
    with at have "unat (scan_len s) = length code - p"
      by (auto simp: at_insn_def dest!: covers_less intro!: unat_small simp del: of_nat_diff)
    with True have loop: "scan_loop code s = (case scan_insn code s of
        None \<Rightarrow> Some Undefined | Some (Inl e) \<Rightarrow> Some (Fails e) | Some (Inr s) \<Rightarrow> scan_loop code s)"
      by (subst scan_loop.simps) auto
    show ?thesis
    proof (cases "insn_at code p")
      case None
      with scan_insn_none [OF at True] True loop show ?thesis
        by (auto simp: scans_def instructions.simps [of code p])
    next
      case (Some kts)
      obtain k ts where kts: "kts = (k, ts)" by (cases kts)
      from "1.prems"(2) Some kts True have k: "k < 2 ^ 32"
        using at by (auto simp: overlong.simps [of code p] at_insn_def dest!: covers_less split: if_splits)
      note step = scan_insn_step [OF at True Some [unfolded kts] k]
      show ?thesis
      proof (cases "p + k \<le> length code \<and> (\<forall>t \<in> set ts. in_code code t)")
        case ok: True
        with step obtain s' where s': "0 < k" "scan_insn code s = Some (Inr s')" "at_insn code (p + k) s'"
          and a: "adds (scan_mask s) (scan_mask s') (insert (3 * p) (target_bits ts))" by auto
        from "1.prems"(2) Some kts True ok s'(1) have o: "\<not> overlong code (p + k)"
          by (simp add: overlong.simps [of code p])
        have "scans code (instructions code (p + k)) s' (scan_loop code s')"
          by (rule "1.IH" [OF _ Some kts [symmetric] _ s'(3) o]) (use True ok s'(1) in auto)
        then show ?thesis
          using Some kts True ok s'(1,2) adds_trans [OF a]
          by (auto simp: loop scans_def instructions.simps [of code p] split: option.splits if_splits)
      next
        case bad: False
        with step obtain e where "scan_insn code s = Some (Inl e)" by auto
        with bad Some kts True show ?thesis
          by (auto simp: loop scans_def instructions.simps [of code p] split: option.splits)
      qed
    qed
  qed
qed

lemma check_targets_mask:
  assumes "covers m n" and "len \<le> n"
  shows "check_targets m len = Some (\<forall>i < len. 3 * i + 1 \<in> mask_bits m \<longrightarrow> 3 * i \<in> mask_bits m)"
  using assms(2)
proof (induction len)
  case (Suc len)
  from covers_less [OF assms(1)] Suc.prems have u: "unat (of_nat len :: u32) = len" by (intro unat_small) simp
  with jumps.test_mask [OF assms(1), of "of_nat len"] starts.test_mask [OF assms(1), of "of_nat len"] Suc
  show ?case by (auto simp: less_Suc_eq)
qed simp

definition block_marks :: "nat list \<Rightarrow> nat set" where
  "block_marks ls = (\<lambda>l. 3 * l + 1) ` set ls \<union> (\<lambda>l. 3 * l + 2) ` set ls"

definition limits :: "(u32 \<times> u32) list \<Rightarrow> nat list" where
  "limits blocks = concat (map (\<lambda>b. [unat (fst b), unat (snd b)]) blocks)"

lemma limits_simps [simp]: "limits [] = []" "limits (b # bs) = unat (fst b) # unat (snd b) # limits bs"
  by (simp_all add: limits_def)

lemma mark_blocks_adds:
  assumes "covers m n" and "\<forall>l \<in> set (limits blocks). l < n"
  shows "\<exists>m'. mark_blocks blocks m = Some m' \<and> adds m m' (block_marks (limits blocks))"
  using assms
proof (induction blocks arbitrary: m)
  case (Cons b bs)
  then have l: "unat (fst b) < n" "unat (snd b) < n" by simp_all
  from jumps.mark_adds [OF Cons.prems(1) l(1)] obtain m1
    where m1: "MarkJumpTarget m (fst b) = Some m1" "adds m m1 {3 * unat (fst b) + 1}" by auto
  with Cons.prems specials.mark_adds [of m1 n "fst b"] l obtain m2
    where m2: "MarkSpecialJumpTarget m1 (fst b) = Some m2" "adds m1 m2 {3 * unat (fst b) + 2}" by auto
  with m1 Cons.prems jumps.mark_adds [of m2 n "snd b"] l obtain m3
    where m3: "MarkJumpTarget m2 (snd b) = Some m3" "adds m2 m3 {3 * unat (snd b) + 1}" by auto
  with m1 m2 Cons.prems specials.mark_adds [of m3 n "snd b"] l obtain m4
    where m4: "MarkSpecialJumpTarget m3 (snd b) = Some m4" "adds m3 m4 {3 * unat (snd b) + 2}" by auto
  from Cons.IH [of m4] Cons.prems m1 m2 m3 m4 obtain m'
    where m': "mark_blocks bs m4 = Some m'" "adds m4 m' (block_marks (limits bs))" by auto
  from adds_trans [OF adds_trans [OF adds_trans [OF adds_trans [OF m1(2) m2(2)] m3(2)] m4(2)] m'(2)]
  have "adds m m' (block_marks (limits (b # bs)))" by (simp add: block_marks_def insert_commute Un_commute)
  with m1 m2 m3 m4 m' show ?case by simp
qed (simp add: block_marks_def)

text \<open>The bits of the finished mask, by their kind.\<close>

lemma three_kinds:
  "3 * i \<noteq> 3 * j + 1" "3 * i \<noteq> 3 * j + 2" "3 * i + 1 \<noteq> 3 * j + 2" "3 * i + 1 \<noteq> 3 * (j :: nat)"
  by presburger+

lemma start_bits: "3 * q \<in> insn_marks is \<union> block_marks ls \<longleftrightarrow> q \<in> fst ` set is"
proof -
  have "3 * q \<notin> target_bits ts" "3 * q \<notin> block_marks ls" for ts
    using three_kinds(1,2) unfolding target_bits_def block_marks_def by blast+
  then show ?thesis by (force simp: insn_marks_def)
qed

lemma target_bits_mem:
  assumes "\<forall>t \<in> set (concat (map snd is)). in_code code t"
  shows "3 * q + 1 \<in> insn_marks is \<union> block_marks ls \<longleftrightarrow> int q \<in> set (concat (map snd is)) \<or> q \<in> set ls"
proof -
  have "3 * q + 1 \<in> target_bits ts \<longleftrightarrow> int q \<in> set ts" if "\<forall>t \<in> set ts. in_code code t" for ts
    using that by (force simp: target_bits_def in_code_def)
  from this [OF assms] have "3 * q + 1 \<in> target_bits (concat (map snd is)) \<longleftrightarrow> int q \<in> set (concat (map snd is))" .
  moreover have "3 * q + 1 \<notin> (\<lambda>i. 3 * fst i) ` set is" using three_kinds(4) by blast
  moreover have "3 * q + 1 \<notin> (\<lambda>l. 3 * l + 2) ` set ls" using three_kinds(3) by blast
  moreover have "3 * q + 1 \<in> (\<lambda>l. 3 * l + 1) ` set ls \<longleftrightarrow> q \<in> set ls" by auto
  ultimately show ?thesis by (simp only: insn_marks_def block_marks_def Un_iff) blast
qed

definition starts_at :: "u8 list \<Rightarrow> nat \<Rightarrow> bool" where
  "starts_at code q = (case instructions code 0 of None \<Rightarrow> False | Some is \<Rightarrow> q \<in> fst ` set is)"

definition jumped_to :: "u8 list \<Rightarrow> nat list \<Rightarrow> nat \<Rightarrow> bool" where
  "jumped_to code ls q =
     (case instructions code 0 of None \<Rightarrow> False | Some is \<Rightarrow> int q \<in> set (concat (map snd is)) \<or> q \<in> set ls)"

lemma instructions_Some:
  assumes "instructions code p = Some is" and "p < length code"
  obtains k ts js where "insn_at code p = Some (k, ts)" and "0 < k" and "p + k \<le> length code"
    and "instructions code (p + k) = Some js" and "is = (p, ts) # js"
  using assms by (auto simp: instructions.simps [of code p] split: if_splits option.splits)

lemma instructions_starts: "instructions code p = Some is \<Longrightarrow> \<forall>q \<in> fst ` set is. q < length code"
proof (induction "length code - p" arbitrary: p "is" rule: less_induct)
  case less
  show ?case
  proof (cases "p < length code")
    case True
    from instructions_Some [OF less.prems True] obtain k ts js
      where js: "0 < k" "instructions code (p + k) = Some js" "is = (p, ts) # js" by metis
    from less.hyps [OF _ js(2)] js(1) True have "\<forall>q \<in> fst ` set js. q < length code" by simp
    with js(3) True show ?thesis by simp
  qed (use less.prems in \<open>simp add: instructions.simps [of code p]\<close>)
qed

lemma subset_starts:
  assumes "\<forall>q \<in> Q. q < n"
  shows "(\<forall>t \<in> T. t \<in> int ` Q) \<longleftrightarrow> (\<forall>t \<in> T. 0 \<le> t \<and> t < int n) \<and> (\<forall>q < n. int q \<in> T \<longrightarrow> q \<in> Q)" (is "?l \<longleftrightarrow> ?r")
proof
  assume ?l with assms show ?r by fastforce
next
  assume r: ?r
  show ?l
  proof
    fix t assume "t \<in> T"
    with r have "t = int (nat t)" "nat t < n" by auto
    with r \<open>t \<in> T\<close> show "t \<in> int ` Q" by (metis imageI)
  qed
qed

lemma well_formed_code_iff:
  "well_formed_code code ls \<longleftrightarrow>
     (\<exists>is. instructions code 0 = Some is \<and> (\<forall>t \<in> set (concat (map snd is)). in_code code t) \<and>
       (\<forall>q < length code. jumped_to code ls q \<longrightarrow> starts_at code q))"
proof (cases "instructions code 0")
  case (Some "is")
  from subset_starts [OF instructions_starts [OF Some]] Some show ?thesis
    unfolding well_formed_code_def jumped_to_def starts_at_def in_code_def by auto
qed (simp add: well_formed_code_def)

lemma initial_state:
  assumes "length code + unat extraCodeLen < 0x55555555"
  shows "covers (replicate (WORDS_FOR_MASK (codeLen code + extraCodeLen)) 0) (length code + unat extraCodeLen)"
    and "mask_bits (replicate n 0) = {}"
proof -
  have "unat (codeLen code) = length code" using assms by (simp add: codeLen_def unat_small)
  then have "unat ((codeLen code + extraCodeLen) * 3) = 3 * (length code + unat extraCodeLen)"
    using assms by (simp add: unat_word_ariths)
  with assms show "covers (replicate (WORDS_FOR_MASK (codeLen code + extraCodeLen)) 0) (length code + unat extraCodeLen)"
    by (simp add: covers_def WORDS_FOR_MASK_def)
  show "mask_bits (replicate n 0) = {}" by (auto simp: mask_bits_def less_mult_imp_div_less mult.commute)
qed

text \<open>After the loop: the marks of the exception blocks and the check of the targets.\<close>

lemma scan_finish:
  assumes "covers m n" and "length code \<le> n" and "\<forall>l \<in> set (limits blocks). l < n"
    and "instructions code 0 = Some is" and "\<forall>t \<in> set (concat (map snd is)). in_code code t" and "mask_bits m = insn_marks is"
  obtains m' where "mark_blocks blocks m = Some m'"
    and "check_targets m' (length code) = Some (\<forall>q < length code. jumped_to code (limits blocks) q \<longrightarrow> starts_at code q)"
    and "\<forall>q. unat q < length code \<longrightarrow> IsInsnStart m' q = Some (starts_at code (unat q)) \<and>
           IsJumpTarget m' q = Some (jumped_to code (limits blocks) (unat q))"
proof -
  from mark_blocks_adds [OF assms(1,3)] obtain m'
    where m': "mark_blocks blocks m = Some m'" "adds m m' (block_marks (limits blocks))" by auto
  with assms(1) have c: "covers m' n" by simp
  from m'(2) assms(6) have b: "mask_bits m' = insn_marks is \<union> block_marks (limits blocks)" by (simp add: adds_def)
  have start: "3 * q \<in> mask_bits m' \<longleftrightarrow> starts_at code q" for q
    unfolding b start_bits by (simp add: starts_at_def assms(4))
  have jump: "3 * q + 1 \<in> mask_bits m' \<longleftrightarrow> jumped_to code (limits blocks) q" for q
    unfolding b target_bits_mem [OF assms(5)] by (simp add: jumped_to_def assms(4))
  from check_targets_mask [OF c assms(2)]
  have "check_targets m' (length code) = Some (\<forall>q < length code. jumped_to code (limits blocks) q \<longrightarrow> starts_at code q)"
    unfolding start jump .
  moreover from starts.test_mask [OF c] jumps.test_mask [OF c] assms(2)
  have "\<forall>q. unat q < length code \<longrightarrow> IsInsnStart m' q = Some (starts_at code (unat q)) \<and>
          IsJumpTarget m' q = Some (jumped_to code (limits blocks) (unat q))"
    using start jump by auto
  ultimately show thesis using that m'(1) by blast
qed

lemma scan_code_verdict:
  assumes "length code + unat extraCodeLen < 0x55555555" and "\<not> overlong code 0"
    and "\<forall>l \<in> set (limits blocks). l < length code + unat extraCodeLen"
  shows "if well_formed_code code (limits blocks)
    then \<exists>m b. scan_code code extraCodeLen blocks = Some (Scanned m b) \<and>
           (\<forall>q. unat q < length code \<longrightarrow> IsInsnStart m q = Some (starts_at code (unat q)) \<and>
              IsJumpTarget m q = Some (jumped_to code (limits blocks) (unat q)))
    else \<exists>e. scan_code code extraCodeLen blocks = Some (Fails e)"
proof -
  let ?m = "replicate (WORDS_FOR_MASK (codeLen code + extraCodeLen)) 0"
  let ?s = "\<lparr>scan_pc = 0, scan_len = codeLen code, scan_mask = ?m, scan_rethrow = False\<rparr>"
  note init = initial_state [OF assms(1)]
  from init(1) have "at_insn code 0 ?s" by (simp add: at_insn_def codeLen_def covers_def)
  note loop = scan_loop_scans [OF this assms(2)]
  show ?thesis
  proof (cases "\<exists>is. instructions code 0 = Some is \<and> (\<forall>t \<in> set (concat (map snd is)). in_code code t)")
    case True
    then obtain "is" where i: "instructions code 0 = Some is" "\<forall>t \<in> set (concat (map snd is)). in_code code t" by blast
    with loop obtain m b where m: "scan_loop code ?s = Some (Scanned m b)" "adds ?m m (insn_marks is)"
      by (auto simp: scans_def)
    with init have "covers m (length code + unat extraCodeLen)" "mask_bits m = insn_marks is"
      by (simp_all add: covers_def adds_def)
    from scan_finish [OF this(1) _ assms(3) i this(2)] obtain m' where "mark_blocks blocks m = Some m'"
      and "check_targets m' (length code) = Some (\<forall>q < length code. jumped_to code (limits blocks) q \<longrightarrow> starts_at code q)"
      and "\<forall>q. unat q < length code \<longrightarrow> IsInsnStart m' q = Some (starts_at code (unat q)) \<and>
           IsJumpTarget m' q = Some (jumped_to code (limits blocks) (unat q))" by auto
    with m(1) i show ?thesis by (simp add: well_formed_code_iff scan_code_def)
  next
    case False
    with loop obtain e where "scan_loop code ?s = Some (Fails e)" by (auto simp: scans_def split: option.splits if_splits)
    with False show ?thesis by (auto simp: well_formed_code_iff scan_code_def)
  qed
qed

text \<open>C4: The first pass of the verifier is exact under three conditions: the body is smaller than 0x55555555 bytes
  (with the bytes added for a synchronized method), it has no overlong annotation, and
  the exception block limits lie inside the mask.  Then it ends, it never accesses memory outside the body or the
  mask, and it accepts exactly the bodies that are sequences of complete defined instructions whose
  branches and exception limits all land on instruction starts; the mask it leaves then answers
  correctly which offsets start an instruction and which are jump targets.\<close>

theorem scan_accepts_well_formed:
  assumes "length code + unat extraCodeLen < 0x55555555" and "\<not> overlong code 0"
    and "\<forall>l \<in> set (limits blocks). l < length code + unat extraCodeLen"
  shows "if well_formed_code code (limits blocks)
    then \<exists>m b. scan_code code extraCodeLen blocks = Some (Scanned m b) \<and>
           (\<forall>q. unat q < length code \<longrightarrow> IsInsnStart m q = Some (starts_at code (unat q)) \<and>
              IsJumpTarget m q = Some (jumped_to code (limits blocks) (unat q)))
    else \<exists>e. scan_code code extraCodeLen blocks = Some (Fails e)"
  using scan_code_verdict [OF assms] .

lemma example_body: "instructions [0x2B, 0x01, 0x00, 0x2A] 0 = Some [(0, [3]), (2, []), (3, [])]"
  by code_simp

theorem scan_accepts_well_formed_witness:
  "\<exists>m b. scan_code [0x2B, 0x01, 0x00, 0x2A] 0 [(0, 3)] = Some (Scanned m b) \<and> IsJumpTarget m 3 = Some True"
proof -
  have "\<not> overlong [0x2B, 0x01, 0x00, 0x2A] 0" by code_simp
  moreover have "well_formed_code [0x2B, 0x01, 0x00, 0x2A] (limits [(0, 3)])" and "jumped_to [0x2B, 0x01, 0x00, 0x2A] (limits [(0, 3)]) 3"
    by (simp_all add: well_formed_code_def jumped_to_def example_body)
  ultimately show ?thesis
    using scan_accepts_well_formed [of "[0x2B, 0x01, 0x00, 0x2A]" 0 "[(0, 3)]"]
    by (fastforce dest: spec [of _ 3])
qed

lemma hang_turn:
  assumes "code = [0xFE, 0x22, 0xFA, 0xFF, 0xFF, 0xFF] @ rest" and "scan_pc s = 0" and "scan_len s = codeLen code"
    and "length code < 2 ^ 32" and "scan_mask s \<noteq> []"
  shows "\<exists>s'. scan_insn code s = Some (Inr s') \<and> scan_pc s' = 0 \<and> scan_len s' = codeLen code \<and> scan_mask s' \<noteq> []"
proof -
  have entry: "ILPrefixOpcodeSmallTable ! 34 = OPDEF 0 0 ARGS_ANN_DATA 0" by code_simp
  have len: "\<not> codeLen code < 2" "\<not> codeLen code < 6"
    using assms(1,4) by (simp_all add: codeLen_def word_less_nat_alt unat_small del: of_nat_Suc)
  have wrap: "(0x100000000 :: u32) = 0" by code_simp
  have n: "code_uint32 code 2 = Some 0xFFFFFFFA"
    unfolding assms(1) by (simp add: code_uint32_def code_byte_def)
  show ?thesis
    using assms(2,3,5) len n [unfolded numeral_2_eq_2] entry
    by (simp add: wrap scan_insn_def scan_fetch_def scan_operands_def MarkInsnStart_def mark_bit_def assms(1) code_byte_def Let_def)
qed

lemma hang_loop:
  assumes "scan_loop code s = Some r"
  shows "code = [0xFE, 0x22, 0xFA, 0xFF, 0xFF, 0xFF] @ rest \<longrightarrow> length code < 2 ^ 32 \<longrightarrow>
    \<not> (scan_pc s = 0 \<and> scan_len s = codeLen code \<and> scan_mask s \<noteq> [])"
  using assms
proof (rule scan_loop.raw_induct [rotated])
  fix f code s r
  assume IH: "\<And>c s r. f c s = Some r \<Longrightarrow> c = [0xFE, 0x22, 0xFA, 0xFF, 0xFF, 0xFF] @ rest \<longrightarrow> length c < 2 ^ 32 \<longrightarrow>
      \<not> (scan_pc s = 0 \<and> scan_len s = codeLen c \<and> scan_mask s \<noteq> [])"
    and r: "(if scan_len s = 0 then Some (Scanned (scan_mask s) (scan_rethrow s))
      else case scan_insn code s of
          None \<Rightarrow> Some Undefined
        | Some (Inl e) \<Rightarrow> Some (Fails e)
        | Some (Inr s) \<Rightarrow> f code s) = Some r"
  show "code = [0xFE, 0x22, 0xFA, 0xFF, 0xFF, 0xFF] @ rest \<longrightarrow> length code < 2 ^ 32 \<longrightarrow>
    \<not> (scan_pc s = 0 \<and> scan_len s = codeLen code \<and> scan_mask s \<noteq> [])"
  proof (intro impI notI)
    assume c: "code = [0xFE, 0x22, 0xFA, 0xFF, 0xFF, 0xFF] @ rest" and l: "length code < 2 ^ 32"
      and s: "scan_pc s = 0 \<and> scan_len s = codeLen code \<and> scan_mask s \<noteq> []"
    from hang_turn [OF c _ _ l, of s] s obtain s' where s': "scan_insn code s = Some (Inr s')"
      "scan_pc s' = 0 \<and> scan_len s' = codeLen code \<and> scan_mask s' \<noteq> []" by auto
    have "unat (codeLen code) = length code" using l by (simp add: codeLen_def unat_small)
    with c s have "scan_len s \<noteq> 0" by auto
    with r s' have "f code s' = Some r" by simp
    with IH c l s'(2) show False by blast
  qed
qed

text \<open>C40: The scan does not end on every input: a long data annotation whose length field is
  \<^verbatim>\<open>0xFFFFFFFA\<close> has size 0 after the 32-bit addition, so the loop stays on it forever.\<close>

theorem scan_hangs:
  assumes "code = [0xFE, 0x22, 0xFA, 0xFF, 0xFF, 0xFF] @ rest" and "length code < 0x55555555"
  shows "scan_code code 0 blocks = None"
proof -
  have "WORDS_FOR_MASK (codeLen code) > 0"
    using initial_state(1) [of code 0] assms by (auto simp: covers_def)
  then have "scan_loop code \<lparr>scan_pc = 0, scan_len = codeLen code,
      scan_mask = replicate (WORDS_FOR_MASK (codeLen code)) 0, scan_rethrow = False\<rparr> \<noteq> Some r" for r
    using hang_loop [of code _ r rest] assms by fastforce
  then have "scan_loop code \<lparr>scan_pc = 0, scan_len = codeLen code,
      scan_mask = replicate (WORDS_FOR_MASK (codeLen code)) 0, scan_rethrow = False\<rparr> = None"
    by (metis not_None_eq)
  then show ?thesis by (simp add: scan_code_def)
qed

theorem scan_hangs_witness: "scan_code [0xFE, 0x22, 0xFA, 0xFF, 0xFF, 0xFF, 0x2A] 0 [] = None"
  using scan_hangs [of _ "[0x2A]"] by simp

text \<open>Nor does it stay inside the mask: an exception block may end where the code ends, and when the
  length of the code is a multiple of 64 the mask has no bit for that offset.\<close>

lemma end_offset_outside:
  assumes "3 * n = 64 * length m" and "n < 0x55555555"
  shows "mark_blocks [(s, of_nat n)] m = None"
proof -
  have u: "unat (of_nat n :: u32) = n" using assms(2) by (intro unat_small) simp
  have "unat (of_nat n * 3 + 1 :: u32) = 3 * n + 1" using unat_triple [of "of_nat n" 1] assms(2) u by simp
  then have "MarkJumpTarget m' (of_nat n) = None" if "length m' = length m" for m'
    using that assms(1) by (simp add: MarkJumpTarget_def mark_bit_def Let_def)
  moreover have "length m' = length m" if "mark_bit m i = Some m'" for m m' :: "u64 list" and i
    using that by (auto simp: mark_bit_def Let_def split: if_splits)
  ultimately show ?thesis
    by (auto simp: MarkJumpTarget_def MarkSpecialJumpTarget_def bind_eq_None_conv)
qed

lemma agrees_with_full_table:
  "list_all (\<lambda>(op, popped, pushed, sz). let e = ILMainOpcodeSmallTable ! op in
     plain (op_args e) \<and> e = OPDEF popped pushed (op_args e) sz) opcode_table"
  by code_simp

end
