(* ===== verification/ExceptionBlocks.thy ===== *)
theory ExceptionBlocks
  imports Prelude
begin

text \<open>
  The exception blocks of a method (\<^verbatim>\<open>engine/coder.c\<close>): the try, handler and filter blocks of its
  exception clauses, kept in an array and linked by parent, first-child and next-sibling
  pointers into a forest ordered by code offsets.  A pointer is an index into the array.  A result
  \<open>None\<close> means that the C code follows a null pointer, leaves the array, or does not return.
\<close>

section \<open>Data\<close>

datatype block_kind = TYPE_TRY | TYPE_CATCH | TYPE_FILTER | TYPE_FILTEREDCATCH | TYPE_FINALLY | TYPE_FAULT

text \<open>
  The union of the C structure begins with \<^verbatim>\<open>tryBlock.handlerBlock\<close> for a try block and with
  \<^verbatim>\<open>handlerBlock.nextHandler\<close> for a handler: both are \<open>eb_link\<close>.
\<close>

record ILCoderExceptionBlock =
  eb_kind :: block_kind
  startOffset :: u32
  endOffset :: u32
  eb_parent :: "nat option"
  eb_nested :: "nat option"
  eb_nextNested :: "nat option"
  eb_link :: "nat option"
  eb_exceptionClass :: "nat option"
  eb_filterBlock :: "nat option"
  eb_tryBlock :: "nat option"

text \<open>\<open>blocks\<close> has the capacity that was allocated; the first \<open>numBlocks\<close> entries are in use.\<close>

record ILCoderExceptions =
  blocks :: "ILCoderExceptionBlock list"
  firstBlock :: "nat option"
  numBlocks :: nat

record ILException =
  ex_flags :: u32
  tryOffset :: u32
  tryLength :: u32
  handlerOffset :: u32
  handlerLength :: u32
  extraArg :: u32

abbreviation (input) IL_META_EXCEPTION_FILTER :: u32 where "IL_META_EXCEPTION_FILTER \<equiv> 1"
abbreviation (input) IL_META_EXCEPTION_FINALLY :: u32 where "IL_META_EXCEPTION_FINALLY \<equiv> 2"
abbreviation (input) IL_META_EXCEPTION_FAULT :: u32 where "IL_META_EXCEPTION_FAULT \<equiv> 4"

datatype coder_result = IL_CODER_OK | IL_CODER_BRANCH_ERR | IL_CODER_TYPE_ERR

definition block_at :: "ILCoderExceptions \<Rightarrow> nat \<Rightarrow> ILCoderExceptionBlock option" where
  "block_at es i = (if i < length (blocks es) then Some (blocks es ! i) else None)"

definition change :: "nat \<Rightarrow> (ILCoderExceptionBlock \<Rightarrow> ILCoderExceptionBlock) \<Rightarrow> ILCoderExceptions \<Rightarrow> ILCoderExceptions option" where
  "change i f es = (if i < length (blocks es) then Some (es\<lparr>blocks := (blocks es)[i := f (blocks es ! i)]\<rparr>) else None)"

section \<open>Insertion\<close>

text \<open>The loop of \<^verbatim>\<open>NestExceptionBlocks\<close> over the siblings after the first nested block.\<close>

partial_function (option) nest_loop ::
    "nat \<Rightarrow> nat \<Rightarrow> nat option \<Rightarrow> ILCoderExceptions \<Rightarrow> (bool \<times> nat \<times> ILCoderExceptions) option" where
  "nest_loop block lastNestedEB nextEB es = (case nextEB of
       None \<Rightarrow> Some (True, lastNestedEB, es)
     | Some n \<Rightarrow> do {
         b \<leftarrow> block_at es block;
         next \<leftarrow> block_at es n;
         if endOffset b \<le> startOffset next then Some (True, lastNestedEB, es)
         else if endOffset b \<ge> endOffset next then do {
           es \<leftarrow> change n (eb_parent_update (\<lambda>_. Some block)) es;
           nest_loop block n (eb_nextNested next) es
         }
         else Some (False, lastNestedEB, es)
       })"

definition NestExceptionBlocks ::
    "nat \<Rightarrow> nat option \<Rightarrow> nat \<Rightarrow> ILCoderExceptions \<Rightarrow> (bool \<times> ILCoderExceptions) option" where
  "NestExceptionBlocks block prevEB firstNestedEB es = do {
     first \<leftarrow> block_at es firstNestedEB;
     es \<leftarrow> change block (\<lambda>b. b\<lparr>eb_nested := Some firstNestedEB, eb_parent := eb_parent first\<rparr>) es;
     es \<leftarrow> change firstNestedEB (eb_parent_update (\<lambda>_. Some block)) es;
     (ok, lastNestedEB, es) \<leftarrow> nest_loop block firstNestedEB (eb_nextNested first) es;
     if \<not> ok then Some (False, es)
     else do {
       last \<leftarrow> block_at es lastNestedEB;
       es \<leftarrow> change block (eb_nextNested_update (\<lambda>_. eb_nextNested last)) es;
       es \<leftarrow> change lastNestedEB (eb_nextNested_update (\<lambda>_. None)) es;
       b \<leftarrow> block_at es block;
       es \<leftarrow> (case prevEB of
           Some q \<Rightarrow> change q (eb_nextNested_update (\<lambda>_. Some block)) es
         | None \<Rightarrow> (case eb_parent b of
             Some p \<Rightarrow> change p (eb_nested_update (\<lambda>_. Some block)) es
           | None \<Rightarrow> Some (es\<lparr>firstBlock := Some block\<rparr>)));
       Some (True, es)
     }
   }"

partial_function (option) insert_loop ::
    "nat \<Rightarrow> nat option \<Rightarrow> nat option \<Rightarrow> ILCoderExceptions \<Rightarrow> (bool \<times> ILCoderExceptions) option" where
  "insert_loop block prevEB checkEB es = (case checkEB of
       None \<Rightarrow> Some (True, es)
     | Some c \<Rightarrow> do {
         b \<leftarrow> block_at es block;
         check \<leftarrow> block_at es c;
         if endOffset b \<le> startOffset check then (case prevEB of
             Some q \<Rightarrow> do {
               prev \<leftarrow> block_at es q;
               es \<leftarrow> change block (eb_nextNested_update (\<lambda>_. eb_nextNested prev)) es;
               es \<leftarrow> change q (eb_nextNested_update (\<lambda>_. Some block)) es;
               es \<leftarrow> change block (eb_parent_update (\<lambda>_. eb_parent prev)) es;
               Some (True, es)
             }
           | None \<Rightarrow> (case eb_parent check of
               Some p \<Rightarrow> do {
                 up \<leftarrow> block_at es p;
                 es \<leftarrow> change block (eb_nextNested_update (\<lambda>_. eb_nested up)) es;
                 es \<leftarrow> change p (eb_nested_update (\<lambda>_. Some block)) es;
                 es \<leftarrow> change block (eb_parent_update (\<lambda>_. Some p)) es;
                 Some (True, es)
               }
             | None \<Rightarrow> do {
                 es \<leftarrow> change block (eb_nextNested_update (\<lambda>_. firstBlock es)) es;
                 Some (True, es\<lparr>firstBlock := Some block\<rparr>)
               }))
         else if startOffset b \<ge> endOffset check then (case eb_nextNested check of
             Some n \<Rightarrow> insert_loop block (Some c) (Some n) es
           | None \<Rightarrow> do {
               es \<leftarrow> change c (eb_nextNested_update (\<lambda>_. Some block)) es;
               es \<leftarrow> change block (eb_parent_update (\<lambda>_. eb_parent check)) es;
               Some (True, es)
             })
         else if startOffset b \<le> startOffset check \<and> endOffset b \<ge> endOffset check then
           NestExceptionBlocks block prevEB c es
         else if startOffset b \<ge> startOffset check \<and> endOffset b \<le> endOffset check then (case eb_nested check of
             Some n \<Rightarrow> insert_loop block None (Some n) es
           | None \<Rightarrow> do {
               es \<leftarrow> change c (eb_nested_update (\<lambda>_. Some block)) es;
               es \<leftarrow> change block (eb_parent_update (\<lambda>_. Some c)) es;
               Some (True, es)
             })
         else Some (False, es)
       })"

definition InsertExceptionBlock :: "nat \<Rightarrow> ILCoderExceptions \<Rightarrow> (bool \<times> ILCoderExceptions) option" where
  "InsertExceptionBlock block es = insert_loop block None (firstBlock es) es"

section \<open>Clauses\<close>

function find_try :: "ILCoderExceptions \<Rightarrow> u32 \<Rightarrow> u32 \<Rightarrow> nat \<Rightarrow> nat option option" where
  "find_try es tryStart tryEnd current =
     (if current < numBlocks es then do {
        b \<leftarrow> block_at es current;
        if startOffset b = tryStart \<and> endOffset b = tryEnd \<and> eb_kind b = TYPE_TRY then Some (Some current)
        else find_try es tryStart tryEnd (current + 1)
      }
      else Some None)"
  by auto
termination
  by (relation "measure (\<lambda>(es, a, b, current). numBlocks es - current)") auto

declare find_try.simps [simp del]

text \<open>Taking the next free entry of the array.\<close>

definition take_entry ::
    "(ILCoderExceptionBlock \<Rightarrow> ILCoderExceptionBlock) \<Rightarrow> ILCoderExceptions \<Rightarrow> (nat \<times> ILCoderExceptions) option" where
  "take_entry f es = do {
     es' \<leftarrow> change (numBlocks es) f es;
     Some (numBlocks es, es'\<lparr>numBlocks := numBlocks es + 1\<rparr>)
   }"

definition FindOrAddTryBlock ::
    "u32 \<Rightarrow> u32 \<Rightarrow> ILCoderExceptions \<Rightarrow> (nat option \<times> ILCoderExceptions) option" where
  "FindOrAddTryBlock tryStart tryEnd es = do {
     found \<leftarrow> find_try es tryStart tryEnd 0;
     case found of
       Some i \<Rightarrow> Some (Some i, es)
     | None \<Rightarrow> do {
         (block, es) \<leftarrow> take_entry (\<lambda>b. b\<lparr>eb_kind := TYPE_TRY, startOffset := tryStart, endOffset := tryEnd,
           eb_link := None, eb_parent := None, eb_nested := None, eb_nextNested := None\<rparr>) es;
         if firstBlock es = None then Some (Some block, es\<lparr>firstBlock := Some block\<rparr>)
         else do {
           (ok, es) \<leftarrow> InsertExceptionBlock block es;
           Some (if ok then (Some block, es) else (None, es\<lparr>numBlocks := numBlocks es - 1\<rparr>))
         }
       }
   }"

partial_function (option) last_handler :: "nat \<Rightarrow> ILCoderExceptions \<Rightarrow> nat option" where
  "last_handler nextHandler es = do {
     h \<leftarrow> block_at es nextHandler;
     case eb_link h of None \<Rightarrow> Some nextHandler | Some n \<Rightarrow> last_handler n es
   }"

definition AddHandlerBlock :: "nat \<Rightarrow> nat \<Rightarrow> ILCoderExceptions \<Rightarrow> ILCoderExceptions option" where
  "AddHandlerBlock tryBlock handler es = do {
     t \<leftarrow> block_at es tryBlock;
     case eb_link t of
       None \<Rightarrow> change tryBlock (eb_link_update (\<lambda>_. Some handler)) es
     | Some h \<Rightarrow> do {
         l \<leftarrow> last_handler h es;
         change l (eb_link_update (\<lambda>_. Some handler)) es
       }
   }"

text \<open>
  The kind of a handler; a filter gets a block of its own.  \<open>accessible\<close> stands for the lookup of the
  class token of a catch clause in the image and the check that the method may access it.
\<close>

definition fill_handler ::
    "(u32 \<Rightarrow> nat option) \<Rightarrow> nat \<Rightarrow> nat \<Rightarrow> ILException \<Rightarrow> ILCoderExceptions \<Rightarrow> (coder_result \<times> ILCoderExceptions) option" where
  "fill_handler accessible tryBlock handler exception es =
     (if ex_flags exception AND (IL_META_EXCEPTION_FINALLY OR IL_META_EXCEPTION_FAULT) \<noteq> 0 then do {
        es \<leftarrow> change handler (\<lambda>b. b\<lparr>
          eb_kind := if ex_flags exception AND IL_META_EXCEPTION_FINALLY \<noteq> 0 then TYPE_FINALLY else TYPE_FAULT,
          eb_link := None, eb_filterBlock := None, eb_exceptionClass := None, eb_tryBlock := Some tryBlock\<rparr>) es;
        Some (IL_CODER_OK, es)
      }
      else do {
        es \<leftarrow> change handler (\<lambda>b. b\<lparr>eb_link := None, eb_tryBlock := Some tryBlock\<rparr>) es;
        if ex_flags exception AND IL_META_EXCEPTION_FILTER \<noteq> 0 then do {
          (filterBlock, es) \<leftarrow> take_entry (\<lambda>b. b\<lparr>eb_kind := TYPE_FILTER, startOffset := extraArg exception,
            endOffset := handlerOffset exception, eb_parent := None, eb_nested := None, eb_nextNested := None\<rparr>) es;
          (ok, es) \<leftarrow> InsertExceptionBlock filterBlock es;
          if \<not> ok then Some (IL_CODER_BRANCH_ERR, es)
          else do {
            es \<leftarrow> change handler (\<lambda>b. b\<lparr>eb_kind := TYPE_FILTEREDCATCH, eb_filterBlock := Some filterBlock,
              eb_exceptionClass := None\<rparr>) es;
            Some (IL_CODER_OK, es)
          }
        }
        else do {
          es \<leftarrow> change handler (\<lambda>b. b\<lparr>eb_kind := TYPE_CATCH, eb_filterBlock := None\<rparr>) es;
          case accessible (extraArg exception) of
            None \<Rightarrow> Some (IL_CODER_TYPE_ERR, es)
          | Some classInfo \<Rightarrow> do {
              es \<leftarrow> change handler (eb_exceptionClass_update (\<lambda>_. Some classInfo)) es;
              Some (IL_CODER_OK, es)
            }
        }
      })"

definition add_handler ::
    "(u32 \<Rightarrow> nat option) \<Rightarrow> nat \<Rightarrow> ILException \<Rightarrow> ILCoderExceptions \<Rightarrow> (coder_result \<times> ILCoderExceptions) option" where
  "add_handler accessible tryBlock exception es = do {
     let startOff = handlerOffset exception;
     let endOff = handlerOffset exception + handlerLength exception;
     if endOff < startOff then Some (IL_CODER_BRANCH_ERR, es)
     else do {
       (handler, es) \<leftarrow> take_entry (\<lambda>b. b\<lparr>startOffset := startOff, endOffset := endOff, eb_parent := None,
         eb_nested := None, eb_nextNested := None\<rparr>) es;
       (r, es) \<leftarrow> fill_handler accessible tryBlock handler exception es;
       if r \<noteq> IL_CODER_OK then Some (r, es)
       else do {
         (ok, es) \<leftarrow> InsertExceptionBlock handler es;
         if \<not> ok then Some (IL_CODER_BRANCH_ERR, es)
         else do {
           es \<leftarrow> AddHandlerBlock tryBlock handler es;
           Some (IL_CODER_OK, es)
         }
       }
     }
   }"

definition ILCoderAddExceptionBlock ::
    "(u32 \<Rightarrow> nat option) \<Rightarrow> ILException \<Rightarrow> ILCoderExceptions \<Rightarrow> (coder_result \<times> ILCoderExceptions) option" where
  "ILCoderAddExceptionBlock accessible exception es = do {
     let startOff = tryOffset exception;
     let endOff = tryOffset exception + tryLength exception;
     if endOff < startOff then Some (IL_CODER_BRANCH_ERR, es)
     else do {
       (t, es) \<leftarrow> FindOrAddTryBlock startOff endOff es;
       case t of
         None \<Rightarrow> Some (IL_CODER_BRANCH_ERR, es)
       | Some tryBlock \<Rightarrow> add_handler accessible tryBlock exception es
     }
   }"

section \<open>Search\<close>

partial_function (option) find_block_loop ::
    "u32 \<Rightarrow> nat option \<Rightarrow> nat option \<Rightarrow> ILCoderExceptions \<Rightarrow> nat option option" where
  "find_block_loop offset prevEB block es = (case block of
       None \<Rightarrow> Some prevEB
     | Some i \<Rightarrow> do {
         b \<leftarrow> block_at es i;
         if offset < startOffset b then Some prevEB
         else if offset \<ge> endOffset b then find_block_loop offset prevEB (eb_nextNested b) es
         else find_block_loop offset (Some i) (eb_nested b) es
       })"

definition ILCoderFindExceptionBlock :: "u32 \<Rightarrow> ILCoderExceptions \<Rightarrow> nat option option" where
  "ILCoderFindExceptionBlock offset es = find_block_loop offset None (firstBlock es) es"

section \<open>The exceptions of a method\<close>

text \<open>
  The set-up in \<^verbatim>\<open>_ILVerify\<close>: all clauses are added to a fresh array, then the limits of the top
  level are checked against the length of the code.
\<close>

definition fresh_block :: ILCoderExceptionBlock where
  "fresh_block = \<lparr>eb_kind = TYPE_TRY, startOffset = 0, endOffset = 0, eb_parent = None, eb_nested = None,
     eb_nextNested = None, eb_link = None, eb_exceptionClass = None, eb_filterBlock = None, eb_tryBlock = None\<rparr>"

primrec add_clauses ::
    "(u32 \<Rightarrow> nat option) \<Rightarrow> ILException list \<Rightarrow> ILCoderExceptions \<Rightarrow> (coder_result \<times> ILCoderExceptions) option" where
  "add_clauses accessible [] es = Some (IL_CODER_OK, es)"
| "add_clauses accessible (exception # exceptions) es = do {
     (r, es) \<leftarrow> ILCoderAddExceptionBlock accessible exception es;
     if r \<noteq> IL_CODER_OK then Some (r, es) else add_clauses accessible exceptions es
   }"

partial_function (option) last_block :: "nat \<Rightarrow> ILCoderExceptions \<Rightarrow> ILCoderExceptionBlock option" where
  "last_block i es = do {
     b \<leftarrow> block_at es i;
     case eb_nextNested b of None \<Rightarrow> Some b | Some n \<Rightarrow> last_block n es
   }"

definition check_limits :: "u32 \<Rightarrow> ILCoderExceptions \<Rightarrow> bool option" where
  "check_limits len es = (case firstBlock es of
       None \<Rightarrow> Some True
     | Some i \<Rightarrow> do {
         b \<leftarrow> block_at es i;
         if startOffset b > len then Some False
         else do {
           l \<leftarrow> last_block i es;
           Some (\<not> endOffset l > len)
         }
       })"

text \<open>
  A synchronized method gets one more clause: a fault handler around all of its code, placed just
  after the code.
\<close>

definition synchronized_clause :: "u32 \<Rightarrow> ILException" where
  "synchronized_clause len = \<lparr>ex_flags = IL_META_EXCEPTION_FAULT, tryOffset = 0, tryLength = len,
     handlerOffset = len, handlerLength = 1, extraArg = 0\<rparr>"

definition setup_exceptions ::
    "(u32 \<Rightarrow> nat option) \<Rightarrow> ILException list \<Rightarrow> bool \<Rightarrow> u32 \<Rightarrow> (coder_result \<times> ILCoderExceptions) option" where
  "setup_exceptions accessible exceptions isSynchronized len = do {
     let numHandlers = length exceptions + (if isSynchronized then 1 else 0);
     (r, es) \<leftarrow> add_clauses accessible exceptions
       \<lparr>blocks = replicate (numHandlers * 3) fresh_block, firstBlock = None, numBlocks = 0\<rparr>;
     if r \<noteq> IL_CODER_OK then Some (r, es)
     else do {
       ok \<leftarrow> check_limits len es;
       if \<not> ok then Some (IL_CODER_BRANCH_ERR, es)
       else if isSynchronized then ILCoderAddExceptionBlock accessible (synchronized_clause len) es
       else Some (IL_CODER_OK, es)
     }
   }"

end
