(* ===== verification/ExceptionNesting.thy ===== *)
theory ExceptionNesting
  imports ExceptionBlocks "HOL-Library.Multiset"
begin

text \<open>
  What the exception blocks stand for: a forest of regions of the code, each region inside its
  parent and after its left sibling.  \<open>place\<close> is insertion into such a forest, \<open>rep\<close> relates a forest
  to the pointers of the array, and the insertion of the coder implements \<open>place\<close>.
\<close>

section \<open>Regions\<close>

datatype region = Region (rid: nat) (rlo: nat) (rhi: nat) (kids: "region list")

text \<open>The regions between \<open>a\<close> and \<open>b\<close>: in order, disjoint, and laid out inside their parents in the same way.\<close>

fun laid :: "nat \<Rightarrow> region list \<Rightarrow> nat \<Rightarrow> bool" where
  "laid a [] b \<longleftrightarrow> a \<le> b"
| "laid a (Region i l h cs # ts) b \<longleftrightarrow> a \<le> l \<and> l \<le> h \<and> laid l cs h \<and> laid h ts b"

text \<open>All regions of a forest as triples of index, start and end.\<close>

fun flat :: "region list \<Rightarrow> (nat \<times> nat \<times> nat) list" where
  "flat [] = []"
| "flat (Region i l h cs # ts) = (i, l, h) # flat cs @ flat ts"

definition ids :: "region list \<Rightarrow> nat set" where
  "ids ts = fst ` set (flat ts)"

lemma ids_simps [simp]: "ids [] = {}" "ids (Region i l h cs # ts) = insert i (ids cs \<union> ids ts)"
  by (auto simp: ids_def)

definition unique :: "region list \<Rightarrow> bool" where
  "unique ts \<longleftrightarrow> distinct (map fst (flat ts))"

lemma unique_simps [simp]:
  "unique []"
  "unique (Region i l h cs # ts) \<longleftrightarrow> i \<notin> ids cs \<and> i \<notin> ids ts \<and> unique cs \<and> unique ts \<and> ids cs \<inter> ids ts = {}"
  by (auto simp: unique_def ids_def)

section \<open>Insertion into a forest\<close>

text \<open>The siblings that a region up to \<open>hi\<close> takes as its children, and the siblings after it.\<close>

fun gather :: "nat \<Rightarrow> region list \<Rightarrow> (region list \<times> region list) option" where
  "gather hi [] = Some ([], [])"
| "gather hi (Region n l h cs # ts) =
     (if hi \<le> l then Some ([], Region n l h cs # ts)
      else if h \<le> hi then map_option (\<lambda>(inner, rest). (Region n l h cs # inner, rest)) (gather hi ts)
      else None)"

fun place :: "nat \<Rightarrow> nat \<Rightarrow> nat \<Rightarrow> region list \<Rightarrow> region list option" where
  "place b lo hi [] = Some [Region b lo hi []]"
| "place b lo hi (Region c l h cs # ts) =
     (if hi \<le> l then Some (Region b lo hi [] # Region c l h cs # ts)
      else if h \<le> lo then map_option (Cons (Region c l h cs)) (place b lo hi ts)
      else if lo \<le> l \<and> h \<le> hi then
        map_option (\<lambda>(inner, rest). Region b lo hi (Region c l h cs # inner) # rest) (gather hi ts)
      else if l \<le> lo \<and> hi \<le> h then map_option (\<lambda>cs. Region c l h cs # ts) (place b lo hi cs)
      else None)"

definition crosses :: "nat \<Rightarrow> nat \<Rightarrow> nat \<Rightarrow> nat \<Rightarrow> bool" where
  "crosses lo hi l h \<longleftrightarrow> (lo < l \<and> l < hi \<and> hi < h) \<or> (l < lo \<and> lo < h \<and> h < hi)"

lemma laid_le: "laid a ts b \<Longrightarrow> a \<le> b"
  by (induction a ts b rule: laid.induct) auto

lemma laid_flat: "laid a ts b \<Longrightarrow> (i, l, h) \<in> set (flat ts) \<Longrightarrow> a \<le> l \<and> l \<le> h \<and> h \<le> b"
  by (induction a ts b rule: laid.induct) (fastforce dest: laid_le)+

lemma laid_weaken: "laid a ts b \<Longrightarrow> a' \<le> a \<Longrightarrow> b \<le> b' \<Longrightarrow> laid a' ts b'"
  by (induction a ts b arbitrary: a' rule: laid.induct) auto

lemma gather_laid:
  assumes "laid a ts b" and "gather hi ts = Some (inner, rest)" and "a \<le> hi" and "hi \<le> b"
  shows "laid a inner hi \<and> laid hi rest b \<and> mset (flat ts) = mset (flat inner) + mset (flat rest)"
  using assms by (induction a ts b arbitrary: inner rest rule: laid.induct) (auto split: if_splits)

lemma gather_None:
  assumes "laid a ts b" and "gather hi ts = None" and "lo < a"
  obtains i l h where "(i, l, h) \<in> set (flat ts)" and "crosses lo hi l h"
  using assms by (induction a ts b arbitrary: thesis rule: laid.induct) (fastforce simp: crosses_def split: if_splits)+

lemma gather_Some:
  assumes "laid a ts b" and "gather hi ts = Some r" and "lo < a" and "lo < hi" and "(i, l, h) \<in> set (flat ts)"
  shows "\<not> crosses lo hi l h"
  using assms
  by (induction a ts b arbitrary: r rule: laid.induct)
    (fastforce simp: crosses_def split: if_splits dest: laid_flat)+

lemma place_laid:
  assumes "laid a ts b" and "place i lo hi ts = Some ts'" and "a \<le> lo" and "lo \<le> hi" and "hi \<le> b"
  shows "laid a ts' b" and "mset (flat ts') = add_mset (i, lo, hi) (mset (flat ts))"
proof -
  have "laid a ts' b \<and> mset (flat ts') = add_mset (i, lo, hi) (mset (flat ts))"
    using assms
  proof (induction i lo hi ts arbitrary: a b ts' rule: place.induct)
    case (2 i lo hi c l h cs ts)
    then show ?case
      by (auto split: if_splits dest: gather_laid)
  qed auto
  then show "laid a ts' b" and "mset (flat ts') = add_mset (i, lo, hi) (mset (flat ts))" by simp_all
qed

lemma place_None_iff:
  assumes "laid a ts b" and "lo \<le> hi"
  shows "place i lo hi ts = None \<longleftrightarrow> (\<exists>(j, l, h) \<in> set (flat ts). crosses lo hi l h)"
  using assms
proof (induction i lo hi ts arbitrary: a b rule: place.induct)
  case (2 i lo hi c l h cs ts)
  from "2.prems"(1) have r: "l \<le> h" "laid l cs h" "laid h ts b" by simp_all
  have in_cs: "l \<le> l' \<and> l' \<le> h' \<and> h' \<le> h" if "(j, l', h') \<in> set (flat cs)" for j l' h' using laid_flat [OF r(2) that] .
  have in_ts: "h \<le> l' \<and> l' \<le> h'" if "(j, l', h') \<in> set (flat ts)" for j l' h' using laid_flat [OF r(3) that] by simp
  consider "hi \<le> l" | "\<not> hi \<le> l" "h \<le> lo" | "\<not> hi \<le> l" "\<not> h \<le> lo" "lo \<le> l" "h \<le> hi"
    | "\<not> hi \<le> l" "\<not> h \<le> lo" "\<not> (lo \<le> l \<and> h \<le> hi)" "l \<le> lo" "hi \<le> h"
    | "\<not> hi \<le> l" "\<not> h \<le> lo" "\<not> (lo \<le> l \<and> h \<le> hi)" "\<not> (l \<le> lo \<and> hi \<le> h)" by blast
  then show ?case
  proof cases
    case 1 with r show ?thesis by (fastforce simp: crosses_def dest: in_cs in_ts)
  next
    case 2 with "2.IH"(1) [OF _ _ r(3) "2.prems"(2)] r show ?thesis by (fastforce simp: crosses_def dest: in_cs)
  next
    case 3
    have "\<not> crosses lo hi l' h'" if "(j, l', h') \<in> set (flat cs)" for j l' h' using in_cs [OF that] 3 by (auto simp: crosses_def)
    moreover have "\<not> crosses lo hi l h" using 3 by (auto simp: crosses_def)
    moreover have "gather hi ts = None \<longleftrightarrow> (\<exists>(j, l, h) \<in> set (flat ts). crosses lo hi l h)"
    proof
      assume "gather hi ts = None"
      moreover have "lo < h" using 3 by simp
      ultimately obtain j l' h' where "(j, l', h') \<in> set (flat ts)" "crosses lo hi l' h'" using gather_None [OF r(3)] by blast
      then show "\<exists>(j, l, h) \<in> set (flat ts). crosses lo hi l h" by blast
    next
      assume "\<exists>(j, l, h) \<in> set (flat ts). crosses lo hi l h"
      then obtain j l' h' where x: "(j, l', h') \<in> set (flat ts)" "crosses lo hi l' h'" by blast
      have "gather hi ts \<noteq> Some g" for g using gather_Some [OF r(3) _ _ _ x(1), of hi g lo] x(2) 3 by auto
      then show "gather hi ts = None" by (cases "gather hi ts") auto
    qed
    ultimately show ?thesis using 3 by auto
  next
    case 4
    have "\<not> crosses lo hi l' h'" if "(j, l', h') \<in> set (flat ts)" for j l' h' using in_ts [OF that] 4 by (auto simp: crosses_def)
    moreover have "\<not> crosses lo hi l h" using 4 by (auto simp: crosses_def)
    ultimately show ?thesis using 4 "2.IH"(2) [OF _ _ _ _ r(2) "2.prems"(2)] by auto
  next
    case 5 then show ?thesis by (auto simp: crosses_def)
  qed
qed simp

section \<open>Forests in the array\<close>

fun rep :: "ILCoderExceptions \<Rightarrow> nat option \<Rightarrow> nat option \<Rightarrow> region list \<Rightarrow> bool" where
  "rep es par p [] \<longleftrightarrow> p = None"
| "rep es par p (Region i l h cs # ts) \<longleftrightarrow>
     p = Some i \<and> i < length (blocks es) \<and> eb_parent (blocks es ! i) = par \<and>
     unat (startOffset (blocks es ! i)) = l \<and> unat (endOffset (blocks es ! i)) = h \<and>
     rep es (Some i) (eb_nested (blocks es ! i)) cs \<and> rep es par (eb_nextNested (blocks es ! i)) ts"

text \<open>The fields that the representation does not depend on may change, and everything outside the forest.\<close>

definition same_shape :: "ILCoderExceptionBlock \<Rightarrow> ILCoderExceptionBlock \<Rightarrow> bool" where
  "same_shape b c \<longleftrightarrow> startOffset b = startOffset c \<and> endOffset b = endOffset c \<and> eb_parent b = eb_parent c \<and>
     eb_nested b = eb_nested c \<and> eb_nextNested b = eb_nextNested c"

lemma same_shape_refl [simp]: "same_shape b b"
  by (simp add: same_shape_def)

lemma rep_cong:
  assumes "length (blocks es') = length (blocks es)" and "\<forall>i \<in> ids ts. same_shape (blocks es' ! i) (blocks es ! i)"
  shows "rep es' par p ts = rep es par p ts"
  using assms by (induction es par p ts rule: rep.induct) (auto simp: same_shape_def)

lemma rep_ids: "rep es par p ts \<Longrightarrow> i \<in> ids ts \<Longrightarrow> i < length (blocks es)"
  by (induction es par p ts rule: rep.induct) auto

lemma block_at_in [simp]: "i < length (blocks es) \<Longrightarrow> block_at es i = Some (blocks es ! i)"
  by (simp add: block_at_def)

lemma change_in [simp]: "i < length (blocks es) \<Longrightarrow> change i f es = Some (es\<lparr>blocks := (blocks es)[i := f (blocks es ! i)]\<rparr>)"
  by (simp add: change_def)

text \<open>The pointer cell that a forest hangs from.\<close>

datatype cell = Root | Nested nat | Next nat

definition owner :: "cell \<Rightarrow> nat set" where
  "owner c = (case c of Root \<Rightarrow> {} | Nested i \<Rightarrow> {i} | Next i \<Rightarrow> {i})"

definition target :: "ILCoderExceptions \<Rightarrow> cell \<Rightarrow> nat option" where
  "target es c = (case c of Root \<Rightarrow> firstBlock es | Nested i \<Rightarrow> eb_nested (blocks es ! i) | Next i \<Rightarrow> eb_nextNested (blocks es ! i))"

definition aim :: "cell \<Rightarrow> nat option \<Rightarrow> ILCoderExceptions \<Rightarrow> ILCoderExceptions" where
  "aim c p es = (case c of
       Root \<Rightarrow> es\<lparr>firstBlock := p\<rparr>
     | Nested i \<Rightarrow> es\<lparr>blocks := (blocks es)[i := (blocks es ! i)\<lparr>eb_nested := p\<rparr>]\<rparr>
     | Next i \<Rightarrow> es\<lparr>blocks := (blocks es)[i := (blocks es ! i)\<lparr>eb_nextNested := p\<rparr>]\<rparr>)"

text \<open>Only the cell \<open>c\<close> and the blocks of \<open>S\<close> differ between two states.\<close>

definition local :: "cell \<Rightarrow> nat set \<Rightarrow> ILCoderExceptions \<Rightarrow> ILCoderExceptions \<Rightarrow> bool" where
  "local c S es es' \<longleftrightarrow>
     length (blocks es') = length (blocks es) \<and> numBlocks es' = numBlocks es \<and>
     firstBlock es' = firstBlock (aim c (target es' c) es) \<and>
     (\<forall>i. i \<notin> S \<longrightarrow> i < length (blocks es) \<longrightarrow> blocks es' ! i = blocks (aim c (target es' c) es) ! i)"

lemma localI:
  assumes "length (blocks es') = length (blocks es)" and "numBlocks es' = numBlocks es"
    and "firstBlock es' = firstBlock (aim c (target es' c) es)"
    and "\<And>i. i \<notin> S \<Longrightarrow> i < length (blocks es) \<Longrightarrow> blocks es' ! i = blocks (aim c (target es' c) es) ! i"
  shows "local c S es es'"
  using assms by (simp add: local_def)

text \<open>The states of the search for a place: the cell whose forest comes next, and its parent.\<close>

definition seeks :: "nat option \<Rightarrow> nat option \<Rightarrow> cell \<Rightarrow> ILCoderExceptions \<Rightarrow> bool" where
  "seeks prevEB par c es \<longleftrightarrow>
     owner c \<subseteq> {i. i < length (blocks es)} \<and>
     (case prevEB of
        Some q \<Rightarrow> c = Next q \<and> eb_parent (blocks es ! q) = par
      | None \<Rightarrow> c = (case par of None \<Rightarrow> Root | Some p \<Rightarrow> Nested p))"

definition pending :: "nat \<Rightarrow> nat \<Rightarrow> nat \<Rightarrow> ILCoderExceptions \<Rightarrow> bool" where
  "pending b lo hi es \<longleftrightarrow> b < length (blocks es) \<and> unat (startOffset (blocks es ! b)) = lo \<and>
     unat (endOffset (blocks es ! b)) = hi \<and> eb_parent (blocks es ! b) = None \<and>
     eb_nested (blocks es ! b) = None \<and> eb_nextNested (blocks es ! b) = None"

text \<open>The outcome of an insertion at a cell.\<close>

definition inserts ::
    "nat \<Rightarrow> nat option \<Rightarrow> cell \<Rightarrow> region list \<Rightarrow> region list option \<Rightarrow> ILCoderExceptions \<Rightarrow> (bool \<times> ILCoderExceptions) option \<Rightarrow> bool" where
  "inserts b par c ts r es res \<longleftrightarrow>
     (case r of
        None \<Rightarrow> \<exists>es'. res = Some (False, es')
      | Some ts' \<Rightarrow> \<exists>es'. res = Some (True, es') \<and> rep es' par (target es' c) ts' \<and> local c (insert b (ids ts)) es es')"

text \<open>Making room in front of a forest: the pending block becomes the target of the cell.\<close>

lemma attach_inserts:
  assumes "pending b lo hi es" and "seeks prevEB par c es" and "rep es par (target es c) ts" and "b \<notin> ids ts" and "owner c \<inter> insert b (ids ts) = {}"
    and "es' = aim c (Some b) (es\<lparr>blocks := (blocks es)[b := (blocks es ! b)\<lparr>eb_nextNested := target es c, eb_parent := par\<rparr>]\<rparr>)"
  shows "inserts b par c ts (Some (Region b lo hi [] # ts)) es (Some (True, es'))"
proof -
  from assms(1) have b: "b < length (blocks es)" by (simp add: pending_def)
  have o: "i \<in> owner c \<Longrightarrow> i < length (blocks es) \<and> i \<noteq> b \<and> i \<notin> ids ts" for i
    using assms(2,5) by (auto simp: seeks_def)
  have len: "length (blocks es') = length (blocks es)" by (simp add: assms(6) aim_def split: cell.splits)
  have t: "target es' c = Some b" using o b by (auto simp: assms(6) aim_def target_def owner_def split: cell.splits)
  have at_b: "blocks es' ! b = (blocks es ! b)\<lparr>eb_nextNested := target es c, eb_parent := par\<rparr>"
    using o b by (auto simp: assms(6) aim_def owner_def split: cell.splits)
  have rest: "blocks es' ! i = blocks (aim c (Some b) es) ! i" if "i \<noteq> b" for i
    using that o b by (auto simp: assms(6) aim_def owner_def nth_list_update split: cell.splits)
  moreover have "blocks (aim c (Some b) es) ! i = blocks es ! i" if "i \<in> ids ts" for i
    using that o by (auto simp: aim_def owner_def nth_list_update split: cell.splits)
  ultimately have "same_shape (blocks es' ! i) (blocks es ! i)" if "i \<in> ids ts" for i
    using that assms(4) by (metis same_shape_refl)
  with rep_cong [OF len] assms(3) have "rep es' par (target es c) ts" by blast
  with assms(1) b len at_b have "rep es' par (Some b) (Region b lo hi [] # ts)" by (simp add: pending_def)
  moreover have "local c (insert b (ids ts)) es es'"
    using len rest t by (intro localI) (auto simp: assms(6) aim_def split: cell.splits)
  ultimately show ?thesis using t by (simp add: inserts_def)
qed

text \<open>
  The loop that collects the enclosed siblings: cutting the list after the last of them leaves
  \<open>inner\<close> under the new block and \<open>rest\<close> behind it.
\<close>

definition cut_after :: "nat \<Rightarrow> ILCoderExceptions \<Rightarrow> ILCoderExceptions" where
  "cut_after i es = es\<lparr>blocks := (blocks es)[i := (blocks es ! i)\<lparr>eb_nextNested := None\<rparr>]\<rparr>"

lemma cut_simps [simp]:
  "length (blocks (cut_after i es)) = length (blocks es)" "numBlocks (cut_after i es) = numBlocks es" "firstBlock (cut_after i es) = firstBlock es"
  "j \<noteq> i \<Longrightarrow> blocks (cut_after i es) ! j = blocks es ! j"
  "i < length (blocks es) \<Longrightarrow> blocks (cut_after i es) ! i = (blocks es ! i)\<lparr>eb_nextNested := None\<rparr>"
  by (simp_all add: cut_after_def)

definition collected ::
    "nat \<Rightarrow> nat option \<Rightarrow> nat \<Rightarrow> region list \<Rightarrow> region list \<times> region list \<Rightarrow> ILCoderExceptions \<Rightarrow> nat \<Rightarrow> ILCoderExceptions \<Rightarrow> bool" where
  "collected b par z ts g es z' es' \<longleftrightarrow>
     z' \<in> insert z (ids ts) \<and> length (blocks es') = length (blocks es) \<and> numBlocks es' = numBlocks es \<and>
     firstBlock es' = firstBlock es \<and> (\<forall>i. i \<notin> insert z (ids ts) \<longrightarrow> blocks es' ! i = blocks es ! i) \<and>
     blocks (cut_after z' es') ! z = (blocks es ! z)\<lparr>eb_nextNested := eb_nextNested (blocks (cut_after z' es') ! z)\<rparr> \<and>
     rep (cut_after z' es') (Some b) (eb_nextNested (blocks (cut_after z' es') ! z)) (fst g) \<and>
     rep (cut_after z' es') par (eb_nextNested (blocks es' ! z')) (snd g)"

lemma nest_loop_collects:
  assumes "rep es par (eb_nextNested (blocks es ! z)) ts" and "unique ts" and "b < length (blocks es)" and "z < length (blocks es)"
    and "b \<notin> ids ts" and "z \<notin> ids ts" and "z \<noteq> b" and "unat (endOffset (blocks es ! b)) = hi"
  shows "case gather hi ts of
       None \<Rightarrow> \<exists>l es'. nest_loop b z (eb_nextNested (blocks es ! z)) es = Some (False, l, es')
     | Some g \<Rightarrow> \<exists>l es'. nest_loop b z (eb_nextNested (blocks es ! z)) es = Some (True, l, es') \<and> collected b par z ts g es l es'"
  using assms
proof (induction ts arbitrary: es z)
  case Nil
  then show ?case by (simp add: nest_loop.simps collected_def)
next
  case (Cons t ts)
  obtain n l h cs where t: "t = Region n l h cs" by (cases t)
  from Cons.prems t have n: "eb_nextNested (blocks es ! z) = Some n" "n < length (blocks es)"
    and l: "unat (startOffset (blocks es ! n)) = l" and h: "unat (endOffset (blocks es ! n)) = h" by simp_all
  note loop = nest_loop.simps [of b z "Some n"]
  consider "hi \<le> l" | "\<not> hi \<le> l" "h \<le> hi" | "\<not> hi \<le> l" "\<not> h \<le> hi" by blast
  then show ?case
  proof cases
    case 1
    have "rep (cut_after z es) par (Some n) (t # ts) = rep es par (Some n) (t # ts)"
      by (rule rep_cong) (use Cons.prems(6) in \<open>simp, metis cut_simps(4) same_shape_refl\<close>)
    with 1 Cons.prems n l show ?thesis by (simp add: t loop word_le_nat_alt collected_def)
  next
    case 3
    with Cons.prems n l h show ?thesis by (simp add: t loop word_le_nat_alt)
  next
    case 2
    from Cons.prems(2) have u: "n \<notin> ids ts" "n \<notin> ids cs" "ids cs \<inter> ids ts = {}" by (simp_all add: t)
    define es1 where "es1 = es\<lparr>blocks := (blocks es)[n := (blocks es ! n)\<lparr>eb_parent := Some b\<rparr>]\<rparr>"
    have at_n: "blocks es1 ! n = (blocks es ! n)\<lparr>eb_parent := Some b\<rparr>" and other: "i \<noteq> n \<Longrightarrow> blocks es1 ! i = blocks es ! i"
      and len: "length (blocks es1) = length (blocks es)" "numBlocks es1 = numBlocks es" "firstBlock es1 = firstBlock es" for i
      using n by (simp_all add: es1_def)
    have step: "nest_loop b z (Some n) es = nest_loop b n (eb_nextNested (blocks es1 ! n)) es1"
      using 2 Cons.prems n l h by (simp add: loop word_le_nat_alt at_n) (simp add: es1_def)
    have "rep es1 par (eb_nextNested (blocks es ! n)) ts = rep es par (eb_nextNested (blocks es ! n)) ts"
      by (rule rep_cong) (use u len in \<open>simp, metis other same_shape_refl\<close>)
    then have "rep es1 par (eb_nextNested (blocks es1 ! n)) ts" using Cons.prems(1) by (simp add: t n(1) at_n)
    moreover have "n \<noteq> b" "n \<notin> ids ts" using Cons.prems by (auto simp: t)
    ultimately have IH: "case gather hi ts of
         None \<Rightarrow> \<exists>l es'. nest_loop b n (eb_nextNested (blocks es1 ! n)) es1 = Some (False, l, es')
       | Some g \<Rightarrow> \<exists>l es'. nest_loop b n (eb_nextNested (blocks es1 ! n)) es1 = Some (True, l, es') \<and> collected b par n ts g es1 l es'"
      using Cons.prems n(2) by (intro Cons.IH) (simp_all add: t len other)
    show ?thesis
    proof (cases "gather hi ts")
      case None
      with IH 2 show ?thesis by (simp add: t n(1) step)
    next
      case (Some g)
      with IH obtain l' es' where r: "nest_loop b n (eb_nextNested (blocks es1 ! n)) es1 = Some (True, l', es')"
        and c: "collected b par n ts g es1 l' es'" by auto
      have "blocks (cut_after l' es') ! i = blocks es ! i" if "i \<notin> insert n (ids ts)" for i
      proof -
        from c that have "i \<noteq> l'" "blocks es' ! i = blocks es1 ! i" by (auto simp: collected_def)
        with that show ?thesis by (simp add: other)
      qed
      note out = this
      have "rep (cut_after l' es') (Some n) (eb_nested (blocks es ! n)) cs = rep es (Some n) (eb_nested (blocks es ! n)) cs"
        by (rule rep_cong) (use c u out len in \<open>simp add: collected_def, metis insert_iff disjoint_iff same_shape_refl\<close>)
      then have cs: "rep (cut_after l' es') (Some n) (eb_nested (blocks es ! n)) cs" using Cons.prems(1) by (simp add: t n(1))
      have at_last: "blocks (cut_after l' es') ! z = blocks es ! z" using Cons.prems by (intro out) (auto simp: t)
      obtain x where at_n': "blocks (cut_after l' es') ! n = (blocks es ! n)\<lparr>eb_parent := Some b, eb_nextNested := x\<rparr>"
        using c by (auto simp: collected_def at_n)
      have "collected b par z (t # ts) (t # fst g, snd g) es l' es'"
        unfolding collected_def
      proof (intro conjI)
        show "l' \<in> insert z (ids (t # ts))" "length (blocks es') = length (blocks es)" "numBlocks es' = numBlocks es"
          "firstBlock es' = firstBlock es" "\<forall>i. i \<notin> insert z (ids (t # ts)) \<longrightarrow> blocks es' ! i = blocks es ! i"
          using c by (auto simp: collected_def t len other)
        show "blocks (cut_after l' es') ! z = (blocks es ! z)\<lparr>eb_nextNested := eb_nextNested (blocks (cut_after l' es') ! z)\<rparr>"
          by (simp add: at_last)
        show "rep (cut_after l' es') (Some b) (eb_nextNested (blocks (cut_after l' es') ! z)) (fst (t # fst g, snd g))"
          using c cs n l h at_n' at_n by (simp add: at_last t collected_def len)
        show "rep (cut_after l' es') par (eb_nextNested (blocks es' ! l')) (snd (t # fst g, snd g))"
          using c by (simp add: collected_def)
      qed
      with r Some 2 show ?thesis by (auto simp: t n(1) step split: prod.splits)
    qed
  qed
qed

lemma aim_simps [simp]:
  "length (blocks (aim c p es)) = length (blocks es)" "numBlocks (aim c p es) = numBlocks es"
  "i \<notin> owner c \<Longrightarrow> blocks (aim c p es) ! i = blocks es ! i"
  by (simp_all add: aim_def owner_def split: cell.splits)

lemma aim_target: "owner c \<subseteq> {i. i < length (blocks es)} \<Longrightarrow> target (aim c p es) c = p"
  by (auto simp: aim_def target_def owner_def split: cell.splits)

lemma aim_at:
  "length (blocks es) = length (blocks es') \<Longrightarrow> blocks es ! i = blocks es' ! i \<Longrightarrow> i < length (blocks es) \<Longrightarrow>
   blocks (aim c p es) ! i = blocks (aim c p es') ! i"
  by (cases "i \<in> owner c") (auto simp: aim_def owner_def split: cell.splits)

lemma gather_ids: "gather hi ts = Some g \<Longrightarrow> ids ts = ids (fst g) \<union> ids (snd g)"
  by (induction hi ts arbitrary: g rule: gather.induct) (auto split: if_splits)

text \<open>The last writes: the cell points to the new block, and the new block to the rest of the list.\<close>

lemma nest_links:
  assumes "seeks prevEB par c es" and "length (blocks es2) = length (blocks es)" and "b < length (blocks es)" and "z < length (blocks es)" and "z \<noteq> b"
    and "eb_parent (blocks es2 ! b) = par" and "D = cut_after z es2"
    and "es3 = D\<lparr>blocks := (blocks D)[b := (blocks D ! b)\<lparr>eb_nextNested := eb_nextNested (blocks es2 ! z)\<rparr>]\<rparr>"
  shows "do {
       last \<leftarrow> block_at es2 z;
       es \<leftarrow> change b (eb_nextNested_update (\<lambda>_. eb_nextNested last)) es2;
       es \<leftarrow> change z (eb_nextNested_update (\<lambda>_. None)) es;
       b' \<leftarrow> block_at es b;
       es \<leftarrow> (case prevEB of
           Some q \<Rightarrow> change q (eb_nextNested_update (\<lambda>_. Some b)) es
         | None \<Rightarrow> (case eb_parent b' of
             Some p \<Rightarrow> change p (eb_nested_update (\<lambda>_. Some b)) es
           | None \<Rightarrow> Some (es\<lparr>firstBlock := Some b\<rparr>)));
       Some (True, es)
     } = Some (True, aim c (Some b) es3)"
proof -
  have "es2\<lparr>blocks := (blocks es2)[b := (blocks es2 ! b)\<lparr>eb_nextNested := eb_nextNested (blocks es2 ! z)\<rparr>,
      z := (blocks es2 ! z)\<lparr>eb_nextNested := None\<rparr>]\<rparr> = es3"
    using assms(5) by (simp add: assms(7,8) cut_after_def list_update_swap)
  moreover have "length (blocks es3) = length (blocks es)" "eb_parent (blocks es3 ! b) = par"
    using assms(2,3,5,6) by (simp_all add: assms(7,8))
  ultimately show ?thesis
    using assms by (auto simp: seeks_def aim_def owner_def split: option.splits)
qed

lemma nest_inserts:
  assumes "pending b lo hi es" and "seeks prevEB par c es" and "ts = Region k l h cs # ts2" and "rep es par (target es c) ts"
    and "unique ts" and "b \<notin> ids ts" and "owner c \<inter> insert b (ids ts) = {}"
  shows "inserts b par c ts (map_option (\<lambda>(inner, rest). Region b lo hi (Region k l h cs # inner) # rest) (gather hi ts2)) es
    (NestExceptionBlocks b prevEB k es)"
proof -
  from assms(1) have b: "b < length (blocks es)" by (simp add: pending_def)
  from assms(3,4) have k: "k < length (blocks es)" "eb_parent (blocks es ! k) = par" by simp_all
  from assms(3,5,6) have u: "k \<noteq> b" "k \<notin> ids ts2" "k \<notin> ids cs" "b \<notin> ids ts2" "b \<notin> ids cs" "ids cs \<inter> ids ts2 = {}" "unique ts2" by auto
  define es1 where "es1 = es\<lparr>blocks := (blocks es)[b := (blocks es ! b)\<lparr>eb_nested := Some k, eb_parent := par\<rparr>,
      k := (blocks es ! k)\<lparr>eb_parent := Some b\<rparr>]\<rparr>"
  have at_b: "blocks es1 ! b = (blocks es ! b)\<lparr>eb_nested := Some k, eb_parent := par\<rparr>"
    and at_k: "blocks es1 ! k = (blocks es ! k)\<lparr>eb_parent := Some b\<rparr>"
    and other: "i \<noteq> b \<Longrightarrow> i \<noteq> k \<Longrightarrow> blocks es1 ! i = blocks es ! i"
    and len: "length (blocks es1) = length (blocks es)" "numBlocks es1 = numBlocks es" "firstBlock es1 = firstBlock es" for i
    using b k u(1) by (simp_all add: es1_def)
  have "rep es1 par (eb_nextNested (blocks es ! k)) ts2 = rep es par (eb_nextNested (blocks es ! k)) ts2"
    by (rule rep_cong) (use u len in \<open>simp, metis other same_shape_refl\<close>)
  with assms(3,4) have "rep es1 par (eb_nextNested (blocks es1 ! k)) ts2" by (simp add: at_k)
  moreover have "unat (endOffset (blocks es1 ! b)) = hi" using assms(1) by (simp add: at_b pending_def)
  ultimately have loop: "case gather hi ts2 of
       None \<Rightarrow> \<exists>l es'. nest_loop b k (eb_nextNested (blocks es1 ! k)) es1 = Some (False, l, es')
     | Some g \<Rightarrow> \<exists>l es'. nest_loop b k (eb_nextNested (blocks es1 ! k)) es1 = Some (True, l, es') \<and> collected b par k ts2 g es1 l es'"
    using b k(1) u len(1) by (intro nest_loop_collects) simp_all
  have code: "NestExceptionBlocks b prevEB k es = do {
     (ok, z, es) \<leftarrow> nest_loop b k (eb_nextNested (blocks es1 ! k)) es1;
     if \<not> ok then Some (False, es)
     else do {
       last \<leftarrow> block_at es z;
       es \<leftarrow> change b (eb_nextNested_update (\<lambda>_. eb_nextNested last)) es;
       es \<leftarrow> change z (eb_nextNested_update (\<lambda>_. None)) es;
       b' \<leftarrow> block_at es b;
       es \<leftarrow> (case prevEB of
           Some q \<Rightarrow> change q (eb_nextNested_update (\<lambda>_. Some b)) es
         | None \<Rightarrow> (case eb_parent b' of
             Some p \<Rightarrow> change p (eb_nested_update (\<lambda>_. Some b)) es
           | None \<Rightarrow> Some (es\<lparr>firstBlock := Some b\<rparr>)));
       Some (True, es)
     }
   }"
    using b k u(1) by (simp add: NestExceptionBlocks_def at_k) (simp add: es1_def)
  show ?thesis
  proof (cases "gather hi ts2")
    case None
    with loop show ?thesis by (auto simp: code inserts_def)
  next
    case (Some g)
    with loop obtain z es2 where r: "nest_loop b k (eb_nextNested (blocks es1 ! k)) es1 = Some (True, z, es2)"
      and col: "collected b par k ts2 g es1 z es2" by auto
    let ?D = "cut_after z es2"
    define es3 where "es3 = ?D\<lparr>blocks := (blocks ?D)[b := (blocks ?D ! b)\<lparr>eb_nextNested := eb_nextNested (blocks es2 ! z)\<rparr>]\<rparr>"
    define es' where "es' = aim c (Some b) es3"
    have z: "z < length (blocks es)" "z \<noteq> b"
      using col u assms(3,4) rep_ids [OF assms(4), of z] by (auto simp: collected_def)
    have len2: "length (blocks es2) = length (blocks es)" "numBlocks es2 = numBlocks es" "firstBlock es2 = firstBlock es"
      using col len by (simp_all add: collected_def)
    have at_b2: "blocks es2 ! b = blocks es1 ! b" using col u(1,4) by (simp add: collected_def)
    have o: "i \<in> owner c \<Longrightarrow> i < length (blocks es) \<and> i \<noteq> b \<and> i \<noteq> k \<and> i \<notin> ids ts2 \<and> i \<notin> ids cs" for i
      using assms(2,3,7) by (auto simp: seeks_def)
    have code': "NestExceptionBlocks b prevEB k es = Some (True, es')"
      using nest_links [OF assms(2) len2(1) b z _ refl es3_def] at_b2 at_b by (simp add: code r es'_def)
    have D: "blocks ?D ! i = blocks es ! i" if "i \<notin> insert b (insert k (ids ts2))" for i
      using that col other [of i] by (auto simp: collected_def) (metis cut_simps(4) insert_iff)
    have inside: "blocks es' ! i = blocks ?D ! i" if "i \<noteq> b" "i \<notin> owner c" for i
      using that by (simp add: es'_def es3_def)
    have lens: "length (blocks es') = length (blocks ?D)" by (simp add: es'_def es3_def)
    have "i \<in> ids (fst g) \<union> ids (snd g) \<Longrightarrow> i \<noteq> b \<and> i \<notin> owner c" for i
      using gather_ids [OF Some] u(4) o [of i] by auto
    then have shape: "same_shape (blocks es' ! i) (blocks ?D ! i)" if "i \<in> ids (fst g) \<union> ids (snd g)" for i
      using that inside by (metis same_shape_refl)
    have "rep es' (Some b) (eb_nextNested (blocks ?D ! k)) (fst g)"
      using col rep_cong [OF lens, of "fst g"] shape by (auto simp: collected_def)
    moreover have "rep es' par (eb_nextNested (blocks es2 ! z)) (snd g)"
      using col rep_cong [OF lens, of "snd g"] shape by (auto simp: collected_def)
    moreover have "rep es' (Some k) (eb_nested (blocks es ! k)) cs = rep es (Some k) (eb_nested (blocks es ! k)) cs"
    proof (rule rep_cong)
      have "i \<in> ids cs \<Longrightarrow> i \<noteq> b \<and> i \<notin> owner c \<and> i \<notin> insert b (insert k (ids ts2))" for i
        using u o [of i] by auto
      then show "\<forall>i \<in> ids cs. same_shape (blocks es' ! i) (blocks es ! i)" using inside D by (metis same_shape_refl)
    qed (simp add: lens len2)
    moreover have "rep es (Some k) (eb_nested (blocks es ! k)) cs" using assms(3,4) by simp
    moreover have at_k': "blocks es' ! k = (blocks es ! k)\<lparr>eb_parent := Some b, eb_nextNested := eb_nextNested (blocks ?D ! k)\<rparr>"
      using inside [of k] u(1) o [of k] col at_k by (auto simp: collected_def)
    moreover have at_b': "blocks es' ! b =
        (blocks es ! b)\<lparr>eb_nested := Some k, eb_parent := par, eb_nextNested := eb_nextNested (blocks es2 ! z)\<rparr>"
    proof -
      have "b \<notin> owner c" using o [of b] by blast
      with b z(2) len2(1) show ?thesis by (simp add: es'_def es3_def at_b2 at_b)
    qed
    moreover have t: "target es' c = Some b"
      unfolding es'_def by (rule aim_target) (use o in \<open>auto simp: es3_def len2\<close>)
    ultimately have "rep es' par (target es' c) (Region b lo hi (Region k l h cs # fst g) # snd g)"
      using assms(1,3,4) b k lens len2(1) by (simp add: pending_def)
    moreover have "local c (insert b (ids ts)) es es'"
    proof (rule localI)
      fix i assume i: "i \<notin> insert b (ids ts)" "i < length (blocks es)"
      then have "blocks es3 ! i = blocks es ! i" using D [of i] assms(3) by (simp add: es3_def)
      then show "blocks es' ! i = blocks (aim c (target es' c) es) ! i"
        unfolding t unfolding es'_def using i(2) by (intro aim_at) (simp_all add: es3_def len2)
    qed (use lens len2 t in \<open>auto simp: es'_def es3_def aim_def split: cell.splits\<close>)
    ultimately show ?thesis using Some by (auto simp: inserts_def code' split: prod.splits)
  qed
qed

text \<open>An insertion below a block seen from the cell of the block.\<close>

lemma aim_same: "owner c \<subseteq> {i. i < length (blocks es)} \<Longrightarrow> aim c (target es c) es = es"
  by (auto simp: aim_def target_def owner_def split: cell.splits)

lemma local_other:
  assumes "local d S es es'" and "owner d = {k}" and "i \<notin> insert k S" and "i < length (blocks es)"
  shows "blocks es' ! i = blocks es ! i"
  using assms by (simp add: local_def)

lemma local_inside:
  assumes "local d S es es'" and "owner d = {k}" and "owner c \<inter> insert k S = {}" and "owner c \<subseteq> {i. i < length (blocks es)}"
    and "insert k S \<subseteq> S'"
  shows "target es' c = target es c" and "local c S' es es'"
proof -
  have first: "firstBlock es' = firstBlock es"
    using assms(1,2) by (auto simp: local_def aim_def owner_def split: cell.splits)
  have at: "i \<in> owner c \<Longrightarrow> blocks es' ! i = blocks es ! i" for i
    using local_other [OF assms(1,2), of i] assms(3,4) by blast
  show t: "target es' c = target es c"
    using first at by (auto simp: target_def owner_def split: cell.splits)
  show "local c S' es es'"
    unfolding local_def t aim_same [OF assms(4)]
  proof (intro conjI allI impI)
    fix i assume "i \<notin> S'" "i < length (blocks es)"
    with local_other [OF assms(1,2), of i] assms(5) show "blocks es' ! i = blocks es ! i" by blast
  qed (use assms(1) first in \<open>simp_all add: local_def\<close>)
qed

lemma wrap_inserts:
  assumes "inserts b par' d us r es res" and "d = Next k \<and> us = ts2 \<and> par' = par \<and> f = Cons (Region k l h cs) \<or>
      d = Nested k \<and> us = cs \<and> par' = Some k \<and> f = (\<lambda>cs. Region k l h cs # ts2)"
    and "ts = Region k l h cs # ts2" and "rep es par (target es c) ts" and "seeks prevEB par c es"
    and "unique ts" and "b \<notin> ids ts" and "owner c \<inter> insert b (ids ts) = {}"
  shows "inserts b par c ts (map_option f r) es res"
proof (cases r)
  case None with assms(1) show ?thesis by (simp add: inserts_def)
next
  case (Some us')
  with assms(1) obtain es' where r: "res = Some (True, es')" and rep': "rep es' par' (target es' d) us'"
    and loc: "local d (insert b (ids us)) es es'" by (auto simp: inserts_def)
  have d: "owner d = {k}" using assms(2) by (auto simp: owner_def)
  have v: "owner c \<subseteq> {i. i < length (blocks es)}" using assms(5) by (simp add: seeks_def)
  have o: "owner c \<inter> insert k (insert b (ids us)) = {}" using assms(2,3,8) by auto
  have sub: "insert k (insert b (ids us)) \<subseteq> insert b (ids ts)" using assms(2,3) by auto
  note inside = local_inside [OF loc d o v sub]
  from assms(3,4) have k: "k < length (blocks es)" by simp
  have at_k: "blocks es' ! k = blocks (aim d (target es' d) es) ! k"
    using loc k assms(2,3,6,7) by (auto simp: local_def)
  have len: "length (blocks es') = length (blocks es)" using loc by (simp add: local_def)
  have frame: "rep es' p q vs = rep es p q vs" if "ids vs \<inter> insert k (insert b (ids us)) = {}" "ids vs \<subseteq> ids ts" for p q vs
  proof (rule rep_cong [OF len], rule ballI)
    fix i assume "i \<in> ids vs"
    with that local_other [OF loc d, of i] rep_ids [OF assms(4), of i] show "same_shape (blocks es' ! i) (blocks es ! i)"
      by (metis disjoint_iff same_shape_refl subsetD)
  qed
  have "rep es' par (target es' c) (f us')"
    using assms(2)
  proof (elim disjE conjE)
    assume "d = Next k" "us = ts2" "par' = par" "f = Cons (Region k l h cs)"
    then show ?thesis
      using assms(3,4,6,7) rep' at_k k len frame [of cs] by (auto simp: inside(1) aim_def)
  next
    assume "d = Nested k" "us = cs" "par' = Some k" "f = (\<lambda>cs. Region k l h cs # ts2)"
    then show ?thesis
      using assms(3,4,6,7) rep' at_k k len frame [of ts2] by (auto simp: inside(1) aim_def)
  qed
  with inside(2) Some r show ?thesis by (simp add: inserts_def)
qed

text \<open>The branches of the loop that attach the block to a cell.\<close>

lemma idle_updates: "eb_parent x = p \<Longrightarrow> x\<lparr>eb_parent := p\<rparr> = x" "eb_nextNested x = p \<Longrightarrow> x\<lparr>eb_nextNested := p\<rparr> = x"
  by auto

lemma before_code:
  assumes "pending b lo hi es" and "seeks prevEB par c es" and "b \<notin> owner c" and "target es c = Some k" and "eb_parent (blocks es ! k) = par"
  shows "(case prevEB of
      Some q \<Rightarrow> do {
        prev \<leftarrow> block_at es q;
        es \<leftarrow> change b (eb_nextNested_update (\<lambda>_. eb_nextNested prev)) es;
        es \<leftarrow> change q (eb_nextNested_update (\<lambda>_. Some b)) es;
        es \<leftarrow> change b (eb_parent_update (\<lambda>_. eb_parent prev)) es;
        Some (True, es)
      }
    | None \<Rightarrow> (case eb_parent (blocks es ! k) of
        Some p \<Rightarrow> do {
          up \<leftarrow> block_at es p;
          es \<leftarrow> change b (eb_nextNested_update (\<lambda>_. eb_nested up)) es;
          es \<leftarrow> change p (eb_nested_update (\<lambda>_. Some b)) es;
          es \<leftarrow> change b (eb_parent_update (\<lambda>_. Some p)) es;
          Some (True, es)
        }
      | None \<Rightarrow> do {
          es \<leftarrow> change b (eb_nextNested_update (\<lambda>_. firstBlock es)) es;
          Some (True, es\<lparr>firstBlock := Some b\<rparr>)
        })) =
    Some (True, aim c (Some b) (es\<lparr>blocks := (blocks es)[b := (blocks es ! b)\<lparr>eb_nextNested := target es c, eb_parent := par\<rparr>]\<rparr>))"
  using assms
  by (auto simp: pending_def seeks_def owner_def aim_def target_def list_update_swap nth_list_update idle_updates split: option.splits)

lemma attach_code:
  assumes "pending b lo hi es" and "owner c = {k}" and "k \<noteq> b" and "k < length (blocks es)" and "target es c = None"
    and "upd = (case c of Nested _ \<Rightarrow> eb_nested_update (\<lambda>_. Some b) | _ \<Rightarrow> eb_nextNested_update (\<lambda>_. Some b))"
  shows "do {
      es \<leftarrow> change k upd es;
      es \<leftarrow> change b (eb_parent_update (\<lambda>_. par)) es;
      Some (True, es)
    } = Some (True, aim c (Some b) (es\<lparr>blocks := (blocks es)[b := (blocks es ! b)\<lparr>eb_nextNested := target es c, eb_parent := par\<rparr>]\<rparr>))"
  using assms
  by (auto simp: pending_def owner_def aim_def list_update_swap idle_updates split: cell.splits)

theorem insert_loop_inserts:
  assumes "pending b lo hi es" and "seeks prevEB par c es" and "rep es par (target es c) ts" and "ts \<noteq> []"
    and "unique ts" and "b \<notin> ids ts" and "owner c \<inter> insert b (ids ts) = {}"
  shows "inserts b par c ts (place b lo hi ts) es (insert_loop b prevEB (target es c) es)"
  using assms
proof (induction b lo hi ts arbitrary: prevEB par c rule: place.induct)
  case (2 b lo hi k l h cs ts2)
  note pend = "2.prems"(1) and seek = "2.prems"(2) and rp = "2.prems"(3) and uniq = "2.prems"(5) and nb = "2.prems"(6) and own = "2.prems"(7)
  from rp have t: "target es c = Some k" and k: "k < length (blocks es)" "eb_parent (blocks es ! k) = par"
    and l: "unat (startOffset (blocks es ! k)) = l" and h: "unat (endOffset (blocks es ! k)) = h"
    and cs: "rep es (Some k) (target es (Nested k)) cs" and ts2: "rep es par (target es (Next k)) ts2" by (simp_all add: target_def)
  from pend have b: "b < length (blocks es)" and lo: "unat (startOffset (blocks es ! b)) = lo" and hi: "unat (endOffset (blocks es ! b)) = hi"
    by (simp_all add: pending_def)
  from uniq nb have u: "k \<noteq> b" "b \<notin> ids cs" "b \<notin> ids ts2" "k \<notin> ids cs" "k \<notin> ids ts2" "unique cs" "unique ts2" by auto
  note loop = insert_loop.simps [of b prevEB "Some k"]
  have wrap: "inserts b par c (Region k l h cs # ts2) (map_option f r) es res"
    if "inserts b par' d us r es res" and "d = Next k \<and> us = ts2 \<and> par' = par \<and> f = Cons (Region k l h cs) \<or>
      d = Nested k \<and> us = cs \<and> par' = Some k \<and> f = (\<lambda>cs. Region k l h cs # ts2)" for d us par' f r res
    using wrap_inserts [OF that refl rp seek uniq nb own] .
  have attach: "inserts b par' d [] (Some [Region b lo hi []]) es (Some (True,
      aim d (Some b) (es\<lparr>blocks := (blocks es)[b := (blocks es ! b)\<lparr>eb_nextNested := target es d, eb_parent := par'\<rparr>]\<rparr>)))"
    if "target es d = None" and "owner d = {k}" and "seeks q par' d es" for d q par'
    using attach_inserts [OF pend that(3), of "[]"] that u(1) by simp
  consider "hi \<le> l" | "\<not> hi \<le> l" "h \<le> lo" | "\<not> hi \<le> l" "\<not> h \<le> lo" "lo \<le> l" "h \<le> hi"
    | "\<not> hi \<le> l" "\<not> h \<le> lo" "\<not> (lo \<le> l \<and> h \<le> hi)" "l \<le> lo" "hi \<le> h"
    | "\<not> hi \<le> l" "\<not> h \<le> lo" "\<not> (lo \<le> l \<and> h \<le> hi)" "\<not> (l \<le> lo \<and> hi \<le> h)" by blast
  then show ?case
  proof cases
    case 1
    have "insert_loop b prevEB (Some k) es = Some (True, aim c (Some b)
        (es\<lparr>blocks := (blocks es)[b := (blocks es ! b)\<lparr>eb_nextNested := target es c, eb_parent := par\<rparr>]\<rparr>))"
      using before_code [OF pend seek _ t k(2)] own 1 b k(1) l hi by (simp add: loop word_le_nat_alt)
    with attach_inserts [OF pend seek rp nb own refl] 1 t show ?thesis by simp
  next
    case 3
    with nest_inserts [OF pend seek refl rp uniq nb own] b k(1) l h lo hi t show ?thesis
      by (simp add: loop word_le_nat_alt)
  next
    case 5
    with b k(1) l h lo hi t show ?thesis by (auto simp: loop word_le_nat_alt inserts_def)
  next
    case 2
    have seek': "seeks (Some k) par (Next k) es" using k by (simp add: seeks_def owner_def)
    show ?thesis
    proof (cases "ts2 = []")
      case True
      with ts2 have "target es (Next k) = None" by simp
      with 2 b k l h lo hi have "insert_loop b prevEB (Some k) es = do {
          es \<leftarrow> change k (eb_nextNested_update (\<lambda>_. Some b)) es;
          es \<leftarrow> change b (eb_parent_update (\<lambda>_. par)) es;
          Some (True, es)
        }"
        by (simp add: loop word_le_nat_alt target_def del: change_in)
      also have "\<dots> = Some (True, aim (Next k) (Some b) (es\<lparr>blocks := (blocks es)[b :=
          (blocks es ! b)\<lparr>eb_nextNested := target es (Next k), eb_parent := par\<rparr>]\<rparr>))"
        by (rule attach_code [OF pend _ u(1) k(1)]) (use \<open>target es (Next k) = None\<close> in \<open>simp_all add: owner_def\<close>)
      finally show ?thesis
        using wrap [OF attach [OF \<open>target es (Next k) = None\<close> _ seek']] 2 True t by (simp add: owner_def)
    next
      case False
      with ts2 obtain n where "target es (Next k) = Some n" by (cases ts2 rule: list.exhaust) (auto, metis rep.simps(2) region.exhaust)
      with "2.IH"(1) [OF _ _ pend seek' ts2 False u(7) u(3)] wrap [of par "Next k" ts2] 2 b k l h lo hi t u
      show ?thesis by (simp add: loop word_le_nat_alt target_def owner_def)
    qed
  next
    case 4
    have seek': "seeks None (Some k) (Nested k) es" using k by (simp add: seeks_def owner_def)
    from 4 have pl: "place b lo hi (Region k l h cs # ts2) = map_option (\<lambda>cs. Region k l h cs # ts2) (place b lo hi cs)" by auto
    show ?thesis
    proof (cases "cs = []")
      case True
      with cs have "target es (Nested k) = None" by simp
      with 4 b k l h lo hi have "insert_loop b prevEB (Some k) es = do {
          es \<leftarrow> change k (eb_nested_update (\<lambda>_. Some b)) es;
          es \<leftarrow> change b (eb_parent_update (\<lambda>_. Some k)) es;
          Some (True, es)
        }"
        by (auto simp: loop word_le_nat_alt target_def simp del: change_in)
      also have "\<dots> = Some (True, aim (Nested k) (Some b) (es\<lparr>blocks := (blocks es)[b :=
          (blocks es ! b)\<lparr>eb_nextNested := target es (Nested k), eb_parent := Some k\<rparr>]\<rparr>))"
        by (rule attach_code [OF pend _ u(1) k(1)]) (use \<open>target es (Nested k) = None\<close> in \<open>simp_all add: owner_def\<close>)
      finally show ?thesis
        using wrap [OF attach [OF \<open>target es (Nested k) = None\<close> _ seek']] True t unfolding pl by (simp add: owner_def)
    next
      case False
      with cs obtain n where "target es (Nested k) = Some n" by (cases cs rule: list.exhaust) (auto, metis rep.simps(2) region.exhaust)
      with 4 b k l h lo hi have "insert_loop b prevEB (Some k) es = insert_loop b None (target es (Nested k)) es"
        by (auto simp: loop word_le_nat_alt target_def)
      moreover have "inserts b (Some k) (Nested k) cs (place b lo hi cs) es (insert_loop b None (target es (Nested k)) es)"
        by (rule "2.IH"(2) [OF _ _ _ _ pend seek' cs False u(6,2)]) (use 4 u in \<open>auto simp: owner_def\<close>)
      ultimately show ?thesis using wrap t unfolding pl by simp
    qed
  qed
qed simp

end
