(* ===== verification/ExceptionClauses.thy ===== *)
theory ExceptionClauses
  imports ExceptionNesting
begin

text \<open>
  The exception clauses of a method: adding a clause keeps the blocks a properly nested forest and
  appends the handler to the list of its try block, the set-up of a method accepts only blocks
  inside the code, and the search finds the innermost block.
\<close>

section \<open>Insertion as a step on forests\<close>

text \<open>
  The array holds the forest \<open>ts\<close>, laid out up to \<open>B\<close>; the entries \<open>X\<close> are in use but not yet in the
  forest.
\<close>

definition holds :: "nat \<Rightarrow> ILCoderExceptions \<Rightarrow> region list \<Rightarrow> nat set \<Rightarrow> bool" where
  "holds B es ts X \<longleftrightarrow> rep es None (firstBlock es) ts \<and> unique ts \<and> laid 0 ts B \<and> numBlocks es \<le> length (blocks es) \<and>
     X \<subseteq> {..<numBlocks es} \<and> ids ts = {..<numBlocks es} - X"

text \<open>The fields that insertion does not touch.\<close>

definition same_data :: "ILCoderExceptionBlock \<Rightarrow> ILCoderExceptionBlock \<Rightarrow> bool" where
  "same_data b c \<longleftrightarrow> eb_kind b = eb_kind c \<and> eb_link b = eb_link c \<and> eb_tryBlock b = eb_tryBlock c \<and>
     eb_filterBlock b = eb_filterBlock c \<and> eb_exceptionClass b = eb_exceptionClass c \<and>
     startOffset b = startOffset c \<and> endOffset b = endOffset c"

definition keeps_data :: "ILCoderExceptions \<Rightarrow> ILCoderExceptions \<Rightarrow> bool" where
  "keeps_data es es' \<longleftrightarrow> length (blocks es') = length (blocks es) \<and> numBlocks es' = numBlocks es \<and>
     (\<forall>i < length (blocks es). same_data (blocks es' ! i) (blocks es ! i))"

lemma keeps_refl [simp]: "keeps_data es es" "same_data b b"
  by (simp_all add: keeps_data_def same_data_def)

lemma keeps_trans: "keeps_data es es' \<Longrightarrow> keeps_data es' es'' \<Longrightarrow> keeps_data es es''"
  by (simp add: keeps_data_def same_data_def)

lemma keeps_change:
  assumes "change i f es = Some es'" and "\<And>b. same_data (f b) b"
  shows "keeps_data es es'"
  using assms by (auto simp: change_def keeps_data_def nth_list_update split: if_splits)

lemma keeps_first: "keeps_data es (es'\<lparr>firstBlock := p\<rparr>) = keeps_data es es'"
  by (simp add: keeps_data_def)

lemma pointer_updates [simp]:
  "same_data (b\<lparr>eb_parent := p\<rparr>) b" "same_data (b\<lparr>eb_nested := p\<rparr>) b" "same_data (b\<lparr>eb_nextNested := p\<rparr>) b"
  "same_data (b\<lparr>eb_nested := p, eb_parent := q\<rparr>) b"
  by (simp_all add: same_data_def)

text \<open>\<open>preserves es m\<close>: whatever the computation \<open>m\<close> returns, the state it returns keeps the data of \<open>es\<close>.\<close>

definition preserves :: "ILCoderExceptions \<Rightarrow> ('a \<times> ILCoderExceptions) option \<Rightarrow> bool" where
  "preserves es m \<longleftrightarrow> (\<forall>a es'. m = Some (a, es') \<longrightarrow> keeps_data es es')"

lemma preserves_Some [simp]: "preserves es (Some (a, es')) = keeps_data es es'"
  by (auto simp: preserves_def)

lemma preserves_change:
  assumes "keeps_data es0 es" and "\<And>b. same_data (f b) b" and "\<And>es'. keeps_data es0 es' \<Longrightarrow> preserves es0 (g es')"
  shows "preserves es0 (change i f es \<bind> g)"
proof (cases "change i f es")
  case (Some es')
  from keeps_trans [OF assms(1) keeps_change [OF Some assms(2)]] assms(3) Some show ?thesis by simp
qed (simp add: preserves_def)

lemma preserves_read: "(\<And>b. preserves es0 (g b)) \<Longrightarrow> preserves es0 (block_at es i \<bind> g)"
  by (cases "block_at es i") (auto simp: preserves_def)

lemma preserves_bind:
  assumes "preserves es0 m" and "\<And>a es. keeps_data es0 es \<Longrightarrow> preserves es0 (g (a, es))"
  shows "preserves es0 (m \<bind> g)"
  using assms by (cases m) (auto simp: preserves_def)

lemma preserves_trans: "keeps_data es0 es \<Longrightarrow> preserves es m \<Longrightarrow> preserves es0 m"
  by (auto simp: preserves_def intro: keeps_trans)

lemmas preserves_rules = preserves_change preserves_read preserves_Some [THEN iffD2] keeps_first [THEN iffD2] pointer_updates keeps_refl

abbreviation (input) regroup :: "('a \<times> 'b \<times> 'c) option \<Rightarrow> (('a \<times> 'b) \<times> 'c) option" where
  "regroup m \<equiv> map_option (\<lambda>(a, b, c). ((a, b), c)) m"

lemma nest_loop_keeps: "preserves es (regroup (nest_loop b l n es))"
proof -
  have "keeps_data es (snd (snd r))" if "nest_loop b l n es = Some r" for r
    using that
  proof (rule nest_loop.raw_induct [rotated])
    fix f b l n es r
    assume IH: "\<And>b l n es r. f b l n es = Some r \<Longrightarrow> keeps_data es (snd (snd r))"
      and r: "(case n of
         None \<Rightarrow> Some (True, l, es)
       | Some n \<Rightarrow> do {
           b' \<leftarrow> block_at es b;
           next \<leftarrow> block_at es n;
           if endOffset b' \<le> startOffset next then Some (True, l, es)
           else if endOffset next \<le> endOffset b' then do {
             es \<leftarrow> change n (eb_parent_update (\<lambda>_. Some b)) es;
             f b n (eb_nextNested next) es
           }
           else Some (False, l, es)
         }) = Some r"
    have "keeps_data es (snd (snd r))" if "change m (eb_parent_update (\<lambda>_. Some b)) es = Some es1" "f b m q es1 = Some r" for m q es1
      using keeps_trans [OF keeps_change [OF that(1)] IH [OF that(2)]] by simp
    with r show "keeps_data es (snd (snd r))"
      by (auto simp: bind_eq_Some_conv split: option.splits if_splits)
  qed
  then show ?thesis by (auto simp: preserves_def)
qed

lemma NestExceptionBlocks_keeps: "preserves es (NestExceptionBlocks b prev k es)"
proof -
  have loop: "preserves es (nest_loop b l n es1 \<bind> g)"
    if "keeps_data es es1" and "\<And>ok z es2. keeps_data es es2 \<Longrightarrow> preserves es (g (ok, z, es2))" for l n es1 g
  proof (cases "nest_loop b l n es1")
    case (Some r)
    obtain ok z es2 where r: "r = (ok, z, es2)" by (cases r)
    from nest_loop_keeps [of es1 b l n] Some r have "keeps_data es1 es2" by simp
    from that(2) [OF keeps_trans [OF that(1) this]] Some r show ?thesis by simp
  qed (simp add: preserves_def)
  have "preserves es (case prev of
           Some q \<Rightarrow> change q (eb_nextNested_update (\<lambda>_. Some b)) es1 \<bind> (\<lambda>es. Some (True, es))
         | None \<Rightarrow> (case p of
             Some p \<Rightarrow> change p (eb_nested_update (\<lambda>_. Some b)) es1 \<bind> (\<lambda>es. Some (True, es))
           | None \<Rightarrow> Some (es1\<lparr>firstBlock := Some b\<rparr>) \<bind> (\<lambda>es. Some (True, es))))"
    if "keeps_data es es1" for es1 p
    using that by (auto intro!: preserves_rules split: option.splits)
  then show ?thesis
    unfolding NestExceptionBlocks_def
    by (intro preserves_rules loop) (auto intro!: preserves_rules split: option.splits)
qed

lemma insert_loop_keeps: "preserves es (insert_loop b prev k es)"
proof -
  have "keeps_data es (snd r)" if "insert_loop b prev k es = Some r" for r
    using that
  proof (rule insert_loop.raw_induct [rotated])
    fix f :: "nat \<Rightarrow> nat option \<Rightarrow> nat option \<Rightarrow> ILCoderExceptions \<Rightarrow> (bool \<times> ILCoderExceptions) option"
    fix b prev k es r
    assume IH: "\<And>b prev k es r. f b prev k es = Some r \<Longrightarrow> keeps_data es (snd r)"
    let ?body = "case k of
         None \<Rightarrow> Some (True, es)
       | Some c \<Rightarrow> do {
           b' \<leftarrow> block_at es b;
           check \<leftarrow> block_at es c;
           if endOffset b' \<le> startOffset check then (case prev of
               Some q \<Rightarrow> do {
                 prev \<leftarrow> block_at es q;
                 es \<leftarrow> change b (eb_nextNested_update (\<lambda>_. eb_nextNested prev)) es;
                 es \<leftarrow> change q (eb_nextNested_update (\<lambda>_. Some b)) es;
                 es \<leftarrow> change b (eb_parent_update (\<lambda>_. eb_parent prev)) es;
                 Some (True, es)
               }
             | None \<Rightarrow> (case eb_parent check of
                 Some p \<Rightarrow> do {
                   up \<leftarrow> block_at es p;
                   es \<leftarrow> change b (eb_nextNested_update (\<lambda>_. eb_nested up)) es;
                   es \<leftarrow> change p (eb_nested_update (\<lambda>_. Some b)) es;
                   es \<leftarrow> change b (eb_parent_update (\<lambda>_. Some p)) es;
                   Some (True, es)
                 }
               | None \<Rightarrow> do {
                   es \<leftarrow> change b (eb_nextNested_update (\<lambda>_. firstBlock es)) es;
                   Some (True, es\<lparr>firstBlock := Some b\<rparr>)
                 }))
           else if endOffset check \<le> startOffset b' then (case eb_nextNested check of
               Some n \<Rightarrow> f b (Some c) (Some n) es
             | None \<Rightarrow> do {
                 es \<leftarrow> change c (eb_nextNested_update (\<lambda>_. Some b)) es;
                 es \<leftarrow> change b (eb_parent_update (\<lambda>_. eb_parent check)) es;
                 Some (True, es)
               })
           else if startOffset b' \<le> startOffset check \<and> endOffset check \<le> endOffset b' then NestExceptionBlocks b prev c es
           else if startOffset check \<le> startOffset b' \<and> endOffset b' \<le> endOffset check then (case eb_nested check of
               Some n \<Rightarrow> f b None (Some n) es
             | None \<Rightarrow> do {
                 es \<leftarrow> change c (eb_nested_update (\<lambda>_. Some b)) es;
                 es \<leftarrow> change b (eb_parent_update (\<lambda>_. Some c)) es;
                 Some (True, es)
               })
           else Some (False, es)
         }"
    assume r: "?body = Some r"
    have f: "preserves es (f b prev k es)" for b prev k using IH by (fastforce simp: preserves_def)
    have "preserves es ?body"
      by (auto intro!: preserves_rules NestExceptionBlocks_keeps f split: option.splits)
    with r show "keeps_data es (snd r)" by (cases r) simp
  qed
  then show ?thesis by (fastforce simp: preserves_def)
qed

lemma place_ids:
  assumes "mset (flat ts') = add_mset (b, lo, hi) (mset (flat ts))" and "unique ts" and "b \<notin> ids ts"
  shows "ids ts' = insert b (ids ts)" and "unique ts'"
proof -
  from assms(1) have m: "mset (map fst (flat ts')) = mset (b # map fst (flat ts))" by simp
  from mset_eq_setD [OF m] show "ids ts' = insert b (ids ts)" by (simp add: ids_def)
  from mset_eq_imp_distinct_iff [OF m] assms(2,3) show "unique ts'" by (simp add: unique_def ids_def)
qed

lemma insert_step:
  assumes "holds B es ts X" and "b \<in> X" and "pending b lo hi es" and "lo \<le> hi" and "hi \<le> B" and "ts \<noteq> []"
  shows "case place b lo hi ts of
      None \<Rightarrow> \<exists>es'. InsertExceptionBlock b es = Some (False, es')
    | Some ts' \<Rightarrow> \<exists>es'. InsertExceptionBlock b es = Some (True, es') \<and> holds B es' ts' (X - {b}) \<and>
        mset (flat ts') = add_mset (b, lo, hi) (mset (flat ts)) \<and>
        keeps_data es es' \<and> (\<forall>i \<in> X - {b}. blocks es' ! i = blocks es ! i)"
proof -
  from assms(1) have h: "rep es None (target es Root) ts" "unique ts" "laid 0 ts B" "X \<subseteq> {..<numBlocks es}"
    "numBlocks es \<le> length (blocks es)" "ids ts = {..<numBlocks es} - X" by (simp_all add: holds_def target_def)
  from h(6) assms(2) have b: "b \<notin> ids ts" by simp
  have ins: "inserts b None Root ts (place b lo hi ts) es (InsertExceptionBlock b es)"
    using insert_loop_inserts [OF assms(3) _ h(1) assms(6) h(2) b, of None]
    by (simp add: InsertExceptionBlock_def seeks_def owner_def target_def)
  show ?thesis
  proof (cases "place b lo hi ts")
    case None with ins show ?thesis by (simp add: inserts_def)
  next
    case (Some ts')
    with ins obtain es' where r: "InsertExceptionBlock b es = Some (True, es')" "rep es' None (target es' Root) ts'"
      and loc: "local Root (insert b (ids ts)) es es'" by (auto simp: inserts_def)
    from r(1) insert_loop_keeps [of es b None "firstBlock es"] have k: "keeps_data es es'" by (simp add: InsertExceptionBlock_def)
    note pl = place_laid [OF h(3) Some _ assms(4,5)]
    have "holds B es' ts' (X - {b})"
      using r(2) k pl place_ids [OF pl(2) h(2) b] h assms(2) by (auto simp: holds_def target_def keeps_data_def)
    moreover have "blocks es' ! i = blocks es ! i" if "i \<in> X - {b}" for i
      using loc that h by (auto simp: local_def aim_def)
    ultimately show ?thesis using Some r(1) pl(2) k by simp
  qed
qed

lemma take_step:
  assumes "holds B es ts X" and "numBlocks es < length (blocks es)"
  obtains es' where "take_entry f es = Some (numBlocks es, es')" and "holds B es' ts (insert (numBlocks es) X)"
    and "numBlocks es' = numBlocks es + 1" and "length (blocks es') = length (blocks es)" and "firstBlock es' = firstBlock es"
    and "blocks es' ! numBlocks es = f (blocks es ! numBlocks es)" and "\<forall>i. i \<noteq> numBlocks es \<longrightarrow> blocks es' ! i = blocks es ! i"
proof
  let ?n = "numBlocks es"
  let ?es = "es\<lparr>blocks := (blocks es)[?n := f (blocks es ! ?n)], numBlocks := ?n + 1\<rparr>"
  from assms(1) have "?n \<notin> ids ts" by (auto simp: holds_def)
  then have "\<forall>i \<in> ids ts. same_shape (blocks ?es ! i) (blocks es ! i)"
    by (simp, metis nth_list_update_neq same_shape_refl)
  then have "rep ?es None (firstBlock es) ts = rep es None (firstBlock es) ts" by (intro rep_cong) simp_all
  with assms show "holds B ?es ts (insert ?n X)" by (auto simp: holds_def)
qed (use assms in \<open>simp_all add: take_entry_def\<close>)

lemma change_step:
  assumes "holds B es ts X" and "b \<in> X"
  obtains es' where "change b f es = Some es'" and "holds B es' ts X" and "length (blocks es') = length (blocks es)"
    and "numBlocks es' = numBlocks es" and "blocks es' ! b = f (blocks es ! b)" and "\<forall>i. i \<noteq> b \<longrightarrow> blocks es' ! i = blocks es ! i"
proof
  let ?es = "es\<lparr>blocks := (blocks es)[b := f (blocks es ! b)]\<rparr>"
  from assms have b: "b \<notin> ids ts" "b < length (blocks es)" by (auto simp: holds_def)
  then have "\<forall>i \<in> ids ts. same_shape (blocks ?es ! i) (blocks es ! i)"
    by (simp, metis nth_list_update_neq same_shape_refl)
  then have "rep ?es None (firstBlock es) ts = rep es None (firstBlock es) ts" by (intro rep_cong) simp_all
  with assms show "holds B ?es ts X" by (simp add: holds_def)
  from b show "change b f es = Some ?es" "blocks ?es ! b = f (blocks es ! b)" by simp_all
qed simp_all

section \<open>Handlers of a try block\<close>

fun handler_chain :: "ILCoderExceptions \<Rightarrow> nat option \<Rightarrow> nat list \<Rightarrow> bool" where
  "handler_chain es p [] \<longleftrightarrow> p = None"
| "handler_chain es p (h # hs) \<longleftrightarrow> p = Some h \<and> h < length (blocks es) \<and> handler_chain es (eb_link (blocks es ! h)) hs"

definition linked :: "ILCoderExceptions \<Rightarrow> (nat \<Rightarrow> nat list) \<Rightarrow> bool" where
  "linked es hs \<longleftrightarrow> (\<forall>t < numBlocks es. eb_kind (blocks es ! t) = TYPE_TRY \<longrightarrow>
     handler_chain es (eb_link (blocks es ! t)) (hs t) \<and> sorted_wrt (<) (hs t) \<and>
     (\<forall>h \<in> set (hs t). h < numBlocks es \<and> eb_kind (blocks es ! h) \<noteq> TYPE_TRY \<and> eb_tryBlock (blocks es ! h) = Some t))"

lemma handler_chain_cong:
  "length (blocks es') = length (blocks es) \<Longrightarrow> \<forall>h \<in> set hs. eb_link (blocks es' ! h) = eb_link (blocks es ! h) \<Longrightarrow>
   handler_chain es' p hs = handler_chain es p hs"
  by (induction hs arbitrary: p) auto

lemma handler_chain_append:
  assumes "handler_chain es p hs" and "hs \<noteq> []" and "distinct hs" and "d \<notin> set hs" and "d < length (blocks es)" and "eb_link (blocks es ! d) = None"
    and "es' = es\<lparr>blocks := (blocks es)[last hs := (blocks es ! last hs)\<lparr>eb_link := Some d\<rparr>]\<rparr>"
  shows "last_handler (hd hs) es = Some (last hs)" and "handler_chain es' p (hs @ [d])"
proof -
  have "last_handler (hd hs) es = Some (last hs) \<and> handler_chain es' p (hs @ [d])"
    using assms(1-4,7)
  proof (induction hs arbitrary: p)
    case (Cons h hs)
    note c = Cons.prems
    have "last (h # hs) \<noteq> d" using c(4) by (metis last_in_set list.distinct(1))
    then have d: "eb_link (blocks es' ! d) = None" using assms(6) unfolding c(5) by (simp del: last.simps)
    show ?case
    proof (cases hs)
      case Nil
      with c d assms(5) show ?thesis by (auto simp: last_handler.simps [of h])
    next
      case (Cons k ks)
      with c have l: "last (h # hs) = last hs" "last hs \<noteq> h" by auto
      then have "eb_link (blocks es' ! h) = eb_link (blocks es ! h)" using c(5) by simp
      with Cons.IH [of "eb_link (blocks es ! h)"] c Cons l show ?thesis by (auto simp: last_handler.simps [of h])
    qed
  qed simp
  then show "last_handler (hd hs) es = Some (last hs)" and "handler_chain es' p (hs @ [d])" by simp_all
qed

lemma AddHandlerBlock_step:
  assumes "holds B es ts {}" and "linked es hs" and "t < numBlocks es" and "eb_kind (blocks es ! t) = TYPE_TRY"
    and "d < numBlocks es" and "eb_kind (blocks es ! d) \<noteq> TYPE_TRY" and "eb_link (blocks es ! d) = None"
    and "eb_tryBlock (blocks es ! d) = Some t" and "\<forall>h \<in> set (hs t). h < d"
  obtains es' where "AddHandlerBlock t d es = Some es'" and "holds B es' ts {}" and "linked es' (hs(t := hs t @ [d]))"
    and "numBlocks es' = numBlocks es" and "length (blocks es') = length (blocks es)"
    and "\<forall>i. eb_kind (blocks es' ! i) = eb_kind (blocks es ! i)"
proof -
  define l where "l = last (t # hs t)"
  define es' where "es' = es\<lparr>blocks := (blocks es)[l := (blocks es ! l)\<lparr>eb_link := Some d\<rparr>]\<rparr>"
  from assms(1) have n: "numBlocks es \<le> length (blocks es)" by (simp add: holds_def)
  note linkedD = assms(2) [unfolded linked_def, rule_format]
  from linkedD [OF assms(3,4)] have c: "handler_chain es (eb_link (blocks es ! t)) (hs t)" "sorted_wrt (<) (hs t)"
    and m: "\<And>h. h \<in> set (hs t) \<Longrightarrow> h < numBlocks es \<and> eb_kind (blocks es ! h) \<noteq> TYPE_TRY \<and> eb_tryBlock (blocks es ! h) = Some t"
    by blast+
  have l_cases: "l = t \<or> l \<in> set (hs t)" using last_in_set [of "t # hs t"] by (simp add: l_def)
  have l: "l < length (blocks es)" using l_cases m [of l] assms(3) n by auto
  have len: "length (blocks es') = length (blocks es)" "numBlocks es' = numBlocks es" "firstBlock es' = firstBlock es"
    by (simp_all add: es'_def)
  have at_l: "blocks es' ! l = (blocks es ! l)\<lparr>eb_link := Some d\<rparr>" and other: "i \<noteq> l \<Longrightarrow> blocks es' ! i = blocks es ! i" for i
    using l by (simp_all add: es'_def)
  have data: "eb_kind (blocks es' ! i) = eb_kind (blocks es ! i)" "eb_tryBlock (blocks es' ! i) = eb_tryBlock (blocks es ! i)"
    "same_shape (blocks es' ! i) (blocks es ! i)" for i
    using other [of i] at_l by (cases "i = l"; simp add: same_shape_def)+
  have td: "t \<noteq> d" using assms(4,6) by auto
  have t_new: "t \<notin> set (hs t)" using m assms(4) by blast
  have "AddHandlerBlock t d es = Some es' \<and> handler_chain es' (eb_link (blocks es' ! t)) (hs t @ [d])"
  proof (cases "hs t")
    case Nil
    with c assms n l other [of d] at_l len td show ?thesis by (auto simp: AddHandlerBlock_def es'_def l_def)
  next
    case (Cons h r)
    then have ne: "hs t \<noteq> []" and l_eq: "l = last (hs t)" by (simp_all add: l_def)
    from c(1) Cons have link: "eb_link (blocks es ! t) = Some (hd (hs t))" by simp
    from c(2) assms(9) have "distinct (hs t)" "d \<notin> set (hs t)" by (auto simp: strict_sorted_iff)
    with handler_chain_append [OF c(1) ne _ _ _ assms(7), of es'] assms(5) n
    have "last_handler (hd (hs t)) es = Some l" "handler_chain es' (eb_link (blocks es ! t)) (hs t @ [d])"
      by (simp_all add: es'_def l_eq)
    moreover have "t \<noteq> l" using t_new last_in_set [OF ne] by (auto simp: l_eq)
    ultimately show ?thesis using link assms(3) n l other [of t] by (simp add: AddHandlerBlock_def es'_def)
  qed
  note add = this
  have "rep es' None (firstBlock es) ts = rep es None (firstBlock es) ts"
    by (rule rep_cong) (use len data in auto)
  with assms(1) have "holds B es' ts {}" by (simp add: holds_def len)
  moreover have "linked es' (hs(t := hs t @ [d]))"
    unfolding linked_def
  proof (intro allI impI)
    fix u assume u: "u < numBlocks es'" "eb_kind (blocks es' ! u) = TYPE_TRY"
    let ?hs = "(hs(t := hs t @ [d])) u"
    show "handler_chain es' (eb_link (blocks es' ! u)) ?hs \<and> sorted_wrt (<) ?hs \<and>
      (\<forall>h \<in> set ?hs. h < numBlocks es' \<and> eb_kind (blocks es' ! h) \<noteq> TYPE_TRY \<and> eb_tryBlock (blocks es' ! h) = Some u)"
    proof (cases "u = t")
      case True
      with add c(2) assms(5,6,8,9) m show ?thesis by (auto simp: len data sorted_wrt_append)
    next
      case False
      from linkedD [OF u [unfolded len data]] have c': "handler_chain es (eb_link (blocks es ! u)) (hs u)" "sorted_wrt (<) (hs u)"
        and m': "\<And>h. h \<in> set (hs u) \<Longrightarrow> h < numBlocks es \<and> eb_kind (blocks es ! h) \<noteq> TYPE_TRY \<and> eb_tryBlock (blocks es ! h) = Some u"
        by blast+
      have "l \<notin> set (hs u)" using m' [of l] m [of l] False assms(4) l_cases by auto
      moreover have "l \<noteq> u" using m [of u] u False l_cases by (auto simp: data)
      ultimately have "handler_chain es' (eb_link (blocks es' ! u)) (hs u)"
        using c'(1) handler_chain_cong [OF len(1), of "hs u"] other by metis
      with c'(2) m' False show ?thesis by (auto simp: len data)
    qed
  qed
  ultimately show thesis using add len data that by blast
qed

lemma find_try_step:
  assumes "numBlocks es \<le> length (blocks es)"
  shows "\<exists>r. find_try es a b k = Some r \<and> (\<forall>i. r = Some i \<longrightarrow> i < numBlocks es \<and> startOffset (blocks es ! i) = a \<and>
    endOffset (blocks es ! i) = b \<and> eb_kind (blocks es ! i) = TYPE_TRY)"
  using assms
proof (induction es a b k rule: find_try.induct)
  case (1 es a b k)
  show ?case
  proof (cases "k < numBlocks es")
    case True
    with 1 show ?thesis
      by (cases "startOffset (blocks es ! k) = a \<and> endOffset (blocks es ! k) = b \<and> eb_kind (blocks es ! k) = TYPE_TRY")
        (auto simp: find_try.simps [of es a b k])
  qed (simp add: find_try.simps [of es a b k])
qed

section \<open>Adding a clause\<close>

definition is_filter :: "ILException \<Rightarrow> bool" where
  "is_filter ex \<longleftrightarrow> ex_flags ex AND 6 = 0 \<and> ex_flags ex AND 1 \<noteq> 0"

text \<open>What the code does not check: that a filter starts before its handler.\<close>

definition filter_before_handler :: "ILException \<Rightarrow> bool" where
  "filter_before_handler ex \<longleftrightarrow> (is_filter ex \<longrightarrow> extraArg ex \<le> handlerOffset ex)"

definition filter_ranges :: "ILException \<Rightarrow> (nat \<times> nat) set" where
  "filter_ranges ex = (if is_filter ex then {(unat (extraArg ex), unat (handlerOffset ex))} else {})"

definition ranges :: "region list \<Rightarrow> (nat \<times> nat) set" where
  "ranges ts = snd ` set (flat ts)"

lemma ranges_place: "mset (flat ts') = add_mset (i, r) (mset (flat ts)) \<Longrightarrow> ranges ts' = insert r (ranges ts)"
  by (metis add_mset_add_single insert_iff ranges_def set_mset_add_mset_insert set_mset_mset image_insert snd_conv)

text \<open>Two sets of ranges of which some member partially overlaps one of the other.\<close>

definition conflict :: "(nat \<times> nat) set \<Rightarrow> (nat \<times> nat) set \<Rightarrow> bool" where
  "conflict R S \<longleftrightarrow> (\<exists>(lo, hi) \<in> R. \<exists>(l, h) \<in> S. crosses lo hi l h)"

lemma conflict_mono: "conflict R S \<Longrightarrow> R \<subseteq> R' \<Longrightarrow> S \<subseteq> S' \<Longrightarrow> conflict R' S'"
  by (fastforce simp: conflict_def)

lemma place_conflict: "laid a ts b \<Longrightarrow> lo \<le> hi \<Longrightarrow> place i lo hi ts = None \<Longrightarrow> conflict {(lo, hi)} (ranges ts)"
  by (force simp: place_None_iff conflict_def ranges_def)

text \<open>A clause that is wrong on its own: a region that wraps around, or a class that cannot be used.\<close>

definition clause_error :: "(u32 \<Rightarrow> nat option) \<Rightarrow> ILException \<Rightarrow> bool" where
  "clause_error accessible ex \<longleftrightarrow> tryOffset ex + tryLength ex < tryOffset ex \<or> handlerOffset ex + handlerLength ex < handlerOffset ex \<or>
     (ex_flags ex AND 7 = 0 \<and> accessible (extraArg ex) = None)"

lemma flags_7: "(f :: u32) AND 7 = 0 \<longleftrightarrow> f AND 6 = 0 \<and> f AND 1 = 0"
proof -
  have "f AND 7 = (f AND 6) OR (f AND 1)" by (rule word32_eqI) (simp add: blast_simps)
  then show ?thesis by (simp add: or_eq_0_iff)
qed

definition filled ::
    "nat \<Rightarrow> nat \<Rightarrow> nat \<Rightarrow> nat \<Rightarrow> nat \<Rightarrow> ILException \<Rightarrow> ILCoderExceptions \<Rightarrow> region list \<Rightarrow> ILCoderExceptions \<Rightarrow> region list \<Rightarrow> bool" where
  "filled B t h lo hi ex es ts es' ts' \<longleftrightarrow>
     holds B es' ts' {h} \<and> ts' \<noteq> [] \<and> pending h lo hi es' \<and> eb_kind (blocks es' ! h) \<noteq> TYPE_TRY \<and>
     eb_link (blocks es' ! h) = None \<and> eb_tryBlock (blocks es' ! h) = Some t \<and>
     numBlocks es \<le> numBlocks es' \<and> numBlocks es' \<le> numBlocks es + 1 \<and> length (blocks es') = length (blocks es) \<and>
     (\<forall>i < numBlocks es. i \<noteq> h \<longrightarrow> same_data (blocks es' ! i) (blocks es ! i)) \<and>
     (\<forall>i < numBlocks es'. numBlocks es \<le> i \<longrightarrow> eb_kind (blocks es' ! i) \<noteq> TYPE_TRY) \<and>
     ranges ts' = ranges ts \<union> filter_ranges ex"

lemma place_nonempty: "place i lo hi ts = Some ts' \<Longrightarrow> ts' \<noteq> []"
  by (induction i lo hi ts arbitrary: ts' rule: place.induct) (auto split: if_splits)

lemma fill_filter_step:
  assumes "holds B es ts {h}" and "pending h lo hi es" and "ts \<noteq> []" and "numBlocks es < length (blocks es)"
    and "filter_before_handler ex" and "is_filter ex" and "unat (handlerOffset ex) \<le> B"
  shows "\<exists>r es'. fill_handler accessible t h ex es = Some (r, es') \<and> (if r = IL_CODER_OK then \<exists>ts'. filled B t h lo hi ex es ts es' ts'
    else clause_error accessible ex \<or> conflict (filter_ranges ex) (ranges ts))"
proof -
  let ?n = "numBlocks es" and ?lo = "unat (extraArg ex)" and ?hi = "unat (handlerOffset ex)"
  let ?f = "\<lambda>b. b\<lparr>eb_link := None, eb_tryBlock := Some t\<rparr>"
    and ?g = "\<lambda>b. b\<lparr>eb_kind := TYPE_FILTER, startOffset := extraArg ex,
            endOffset := handlerOffset ex, eb_parent := None, eb_nested := None, eb_nextNested := None\<rparr>"
    and ?k = "\<lambda>b. b\<lparr>eb_kind := TYPE_FILTEREDCATCH, eb_filterBlock := Some ?n, eb_exceptionClass := None\<rparr>"
  have h: "h < ?n" using assms(1) by (simp add: holds_def)
  obtain es1 where e1: "change h ?f es = Some es1" "holds B es1 ts {h}" "length (blocks es1) = length (blocks es)"
    "numBlocks es1 = ?n" "blocks es1 ! h = ?f (blocks es ! h)" "\<forall>i. i \<noteq> h \<longrightarrow> blocks es1 ! i = blocks es ! i"
    using change_step [OF assms(1), of h ?f] by blast
  have cap: "numBlocks es1 < length (blocks es1)" using assms(4) e1 by simp
  obtain es2 where e2: "take_entry ?g es1 = Some (?n, es2)" "holds B es2 ts {?n, h}" "numBlocks es2 = ?n + 1"
    "length (blocks es2) = length (blocks es)" "blocks es2 ! ?n = ?g (blocks es1 ! ?n)"
    "\<forall>i. i \<noteq> ?n \<longrightarrow> blocks es2 ! i = blocks es1 ! i"
    using take_step [OF e1(2) cap, of ?g] e1(3,4) by metis
  have pend: "pending ?n ?lo ?hi es2" using e2 assms(4) by (simp add: pending_def)
  have le: "?lo \<le> ?hi" using assms(5,6) by (simp add: filter_before_handler_def word_le_nat_alt)
  note ins = insert_step [OF e2(2) _ pend le assms(7,3)]
  have code: "fill_handler accessible t h ex es = do {
      (ok, es) \<leftarrow> InsertExceptionBlock ?n es2;
      if \<not> ok then Some (IL_CODER_BRANCH_ERR, es) else do { es \<leftarrow> change h ?k es; Some (IL_CODER_OK, es) }
    }"
    using assms(6) e1(1) e2(1) by (simp add: fill_handler_def is_filter_def)
  show ?thesis
  proof (cases "place ?n ?lo ?hi ts")
    case None
    with ins obtain es3 where "InsertExceptionBlock ?n es2 = Some (False, es3)" by auto
    moreover from assms(1) have "laid 0 ts B" by (simp add: holds_def)
    from place_conflict [OF this le None] have "conflict (filter_ranges ex) (ranges ts)"
      using assms(6) by (simp add: filter_ranges_def)
    ultimately show ?thesis by (simp add: code)
  next
    case (Some ts')
    with ins obtain es3 where e3: "InsertExceptionBlock ?n es2 = Some (True, es3)" "holds B es3 ts' ({?n, h} - {?n})"
      "mset (flat ts') = add_mset (?n, ?lo, ?hi) (mset (flat ts))" "keeps_data es2 es3"
      "\<forall>i \<in> {?n, h} - {?n}. blocks es3 ! i = blocks es2 ! i" by auto
    have s: "{?n, h} - {?n} = {h}" using h by auto
    obtain es4 where e4: "change h ?k es3 = Some es4" "holds B es4 ts' {h}" "length (blocks es4) = length (blocks es3)"
      "numBlocks es4 = numBlocks es3" "blocks es4 ! h = ?k (blocks es3 ! h)" "\<forall>i. i \<noteq> h \<longrightarrow> blocks es4 ! i = blocks es3 ! i"
      using change_step [OF e3(2) [unfolded s], of h ?k] by blast
    have at_h: "blocks es3 ! h = ?f (blocks es ! h)" using e3(5) e2(6) e1(5) h unfolding s by simp
    have k3: "length (blocks es3) = length (blocks es)" "numBlocks es3 = ?n + 1"
      "\<And>i. i < length (blocks es) \<Longrightarrow> same_data (blocks es3 ! i) (blocks es2 ! i)"
      using e3(4) e2(3,4) by (simp_all add: keeps_data_def)
    have "same_data (blocks es4 ! i) (blocks es ! i)" if "i < ?n" "i \<noteq> h" for i
      using that k3(3) [of i] e4(6) e2(6) e1(6) assms(4) by simp
    moreover have "eb_kind (blocks es4 ! ?n) = TYPE_FILTER"
      using k3(3) [of ?n] e4(6) e2(5) h assms(4) by (simp add: same_data_def)
    moreover have "pending h lo hi es4" using assms(2) e4(3,5) k3(1) by (simp add: pending_def at_h)
    moreover have "ranges ts' = ranges ts \<union> filter_ranges ex" using ranges_place [OF e3(3)] assms(6) by (simp add: filter_ranges_def)
    ultimately have "filled B t h lo hi ex es ts es4 ts'"
      using e4 k3 place_nonempty [OF Some] by (auto simp: filled_def at_h less_Suc_eq)
    then show ?thesis using e3(1) e4(1) by (auto simp: code)
  qed
qed

lemma fill_handler_step:
  assumes "holds B es ts {h}" and "pending h lo hi es" and "ts \<noteq> []" and "numBlocks es < length (blocks es)"
    and "filter_before_handler ex" and "unat (handlerOffset ex) \<le> B"
  shows "\<exists>r es'. fill_handler accessible t h ex es = Some (r, es') \<and> (if r = IL_CODER_OK then \<exists>ts'. filled B t h lo hi ex es ts es' ts'
    else clause_error accessible ex \<or> conflict (filter_ranges ex) (ranges ts))"
proof (cases "is_filter ex")
  case True
  from fill_filter_step [OF assms(1-5) True assms(6)] show ?thesis .
next
  case False
  have h: "h < length (blocks es)" using assms(1) by (simp add: holds_def)
  have filled: "filled B t h lo hi ex es ts (es\<lparr>blocks := (blocks es)[h := b]\<rparr>) ts"
    if "same_shape b (blocks es ! h)" and "eb_kind b \<noteq> TYPE_TRY" and "eb_link b = None" and "eb_tryBlock b = Some t" for b
  proof -
    obtain es' where "change h (\<lambda>_. b) es = Some es'" "holds B es' ts {h}" using change_step [OF assms(1), of h "\<lambda>_. b"] by blast
    with h assms(2,3) that False show ?thesis
      by (auto simp: filled_def pending_def same_shape_def filter_ranges_def)
  qed
  show ?thesis
  proof (cases "ex_flags ex AND 6 = 0")
    case True
    with False have "ex_flags ex AND 1 = 0" by (simp add: is_filter_def)
    with True h show ?thesis
      by (auto simp: fill_handler_def same_shape_def clause_error_def flags_7 intro!: filled exI [of _ ts] split: option.splits)
  next
    case False
    with h show ?thesis
      by (auto simp: fill_handler_def same_shape_def intro!: filled exI [of _ ts])
  qed
qed

lemma rep_flat:
  "rep es par p ts \<Longrightarrow> i \<in> ids ts \<Longrightarrow> (i, unat (startOffset (blocks es ! i)), unat (endOffset (blocks es ! i))) \<in> set (flat ts)"
  by (induction es par p ts rule: rep.induct) auto

lemma linked_extend:
  assumes "linked es hs" and "length (blocks es') = length (blocks es)" and "numBlocks es \<le> numBlocks es'"
    and "\<forall>i < numBlocks es. same_data (blocks es' ! i) (blocks es ! i)"
    and "\<forall>i < numBlocks es'. numBlocks es \<le> i \<longrightarrow> eb_kind (blocks es' ! i) = TYPE_TRY \<longrightarrow> eb_link (blocks es' ! i) = None"
  shows "linked es' (\<lambda>t. if t < numBlocks es then hs t else [])"
  unfolding linked_def
proof (intro allI impI)
  fix t assume t: "t < numBlocks es'" "eb_kind (blocks es' ! t) = TYPE_TRY"
  let ?hs = "if t < numBlocks es then hs t else []"
  show "handler_chain es' (eb_link (blocks es' ! t)) ?hs \<and> sorted_wrt (<) ?hs \<and>
      (\<forall>h \<in> set ?hs. h < numBlocks es' \<and> eb_kind (blocks es' ! h) \<noteq> TYPE_TRY \<and> eb_tryBlock (blocks es' ! h) = Some t)"
  proof (cases "t < numBlocks es")
    case True
    with t assms(4) have "eb_kind (blocks es ! t) = TYPE_TRY" "eb_link (blocks es' ! t) = eb_link (blocks es ! t)" by (auto simp: same_data_def)
    with assms(1) [unfolded linked_def, rule_format, OF True]
    have l: "handler_chain es (eb_link (blocks es' ! t)) (hs t)" "sorted_wrt (<) (hs t)"
      "\<And>h. h \<in> set (hs t) \<Longrightarrow> h < numBlocks es \<and> eb_kind (blocks es ! h) \<noteq> TYPE_TRY \<and> eb_tryBlock (blocks es ! h) = Some t"
      by simp_all
    have d: "same_data (blocks es' ! h) (blocks es ! h)" if "h \<in> set (hs t)" for h using assms(4) l(3) [OF that] by blast
    have "handler_chain es' (eb_link (blocks es' ! t)) (hs t)"
      using l(1) handler_chain_cong [OF assms(2), of "hs t"] d by (simp add: same_data_def)
    moreover have "\<forall>h \<in> set (hs t). h < numBlocks es' \<and> eb_kind (blocks es' ! h) \<noteq> TYPE_TRY \<and> eb_tryBlock (blocks es' ! h) = Some t"
      using l(3) d assms(3) by (fastforce simp: same_data_def)
    ultimately show ?thesis using True l(2) by simp
  qed (use t assms(5) in simp)
qed

text \<open>The state between two clauses: every block in use is in the forest, and every try block has its list of handlers.\<close>

definition well_nested :: "nat \<Rightarrow> ILCoderExceptions \<Rightarrow> region list \<Rightarrow> (nat \<Rightarrow> nat list) \<Rightarrow> bool" where
  "well_nested B es ts hs \<longleftrightarrow> holds B es ts {} \<and> linked es hs"

lemma FindOrAddTryBlock_step:
  assumes "well_nested B es ts hs" and "numBlocks es < length (blocks es)" and "a \<le> b" and "unat b \<le> B"
  shows "\<exists>r es'. FindOrAddTryBlock a b es = Some (r, es') \<and> (r = None \<longrightarrow> conflict {(unat a, unat b)} (ranges ts)) \<and> (\<forall>t. r = Some t \<longrightarrow> (\<exists>ts' hs'. well_nested B es' ts' hs' \<and>
    t < numBlocks es' \<and> eb_kind (blocks es' ! t) = TYPE_TRY \<and> ts' \<noteq> [] \<and> numBlocks es' \<le> numBlocks es + 1 \<and>
    length (blocks es') = length (blocks es) \<and> ranges ts' = insert (unat a, unat b) (ranges ts)))"
proof -
  let ?n = "numBlocks es"
  from assms(1) have h: "holds B es ts {}" and l: "linked es hs" by (simp_all add: well_nested_def)
  then have n: "?n \<le> length (blocks es)" and r: "rep es None (firstBlock es) ts" and i: "ids ts = {..<?n}" by (simp_all add: holds_def)
  from find_try_step [OF n, of a b 0] obtain f where f: "find_try es a b 0 = Some f"
    "\<And>i. f = Some i \<Longrightarrow> i < ?n \<and> startOffset (blocks es ! i) = a \<and> endOffset (blocks es ! i) = b \<and> eb_kind (blocks es ! i) = TYPE_TRY"
    by blast
  show ?thesis
  proof (cases f)
    case (Some t)
    with f(2) i have t: "t < ?n" "startOffset (blocks es ! t) = a" "endOffset (blocks es ! t) = b" "eb_kind (blocks es ! t) = TYPE_TRY" "t \<in> ids ts" by auto
    from rep_flat [OF r t(5)] t(2,3) have "(unat a, unat b) \<in> ranges ts" by (force simp: ranges_def)
    moreover have "ts \<noteq> []" using t(5) by auto
    ultimately show ?thesis
      using Some f(1) t assms(1) by (auto simp: FindOrAddTryBlock_def insert_absorb intro!: exI [of _ ts] exI [of _ hs])
  next
    case None
    let ?g = "\<lambda>x. x\<lparr>eb_kind := TYPE_TRY, startOffset := a, endOffset := b,
           eb_link := None, eb_parent := None, eb_nested := None, eb_nextNested := None\<rparr>"
    from take_step [OF h assms(2), of ?g] obtain es1 where e1: "take_entry ?g es = Some (?n, es1)" "holds B es1 ts {?n}"
      "numBlocks es1 = ?n + 1" "length (blocks es1) = length (blocks es)" "firstBlock es1 = firstBlock es"
      "blocks es1 ! ?n = ?g (blocks es ! ?n)" "\<forall>i. i \<noteq> ?n \<longrightarrow> blocks es1 ! i = blocks es ! i" by metis
    have pend: "pending ?n (unat a) (unat b) es1" using e1(4,6) assms(2) by (simp add: pending_def)
    have ext: "linked es' (\<lambda>t. if t < ?n then hs t else [])"
      if "length (blocks es') = length (blocks es)" "numBlocks es' = ?n + 1"
        "\<And>i. i < ?n + 1 \<Longrightarrow> same_data (blocks es' ! i) (blocks es1 ! i)" for es'
    proof (rule linked_extend [OF l that(1)])
      show "\<forall>i < ?n. same_data (blocks es' ! i) (blocks es ! i)" using that(3) e1(7) by (metis add.commute less_irrefl trans_less_add2)
      show "\<forall>i < numBlocks es'. ?n \<le> i \<longrightarrow> eb_kind (blocks es' ! i) = TYPE_TRY \<longrightarrow> eb_link (blocks es' ! i) = None"
        using that(2) that(3) [of ?n] e1(6) by (auto simp: same_data_def less_Suc_eq)
    qed (simp add: that(2))
    show ?thesis
    proof (cases "ts = []")
      case True
      let ?es = "es1\<lparr>firstBlock := Some ?n\<rparr>"
      have "?n = 0" using i True by auto
      then have "{?n} = {..<numBlocks es1}" using e1(3) by auto
      moreover have "numBlocks es1 \<le> length (blocks es1)" using e1(3,4) assms(2) by simp
      moreover have "unat a \<le> unat b" using assms(3) by (simp add: word_le_nat_alt)
      ultimately have "holds B ?es [Region ?n (unat a) (unat b) []] {}"
        using pend assms(4) by (simp add: holds_def pending_def)
      moreover have "linked ?es (\<lambda>t. if t < ?n then hs t else [])" by (rule ext) (use e1 in simp_all)
      moreover have "FindOrAddTryBlock a b es = Some (Some ?n, ?es)"
        using f(1) None e1(1,5) r True by (simp add: FindOrAddTryBlock_def)
      ultimately show ?thesis
        using e1 True by (auto simp: well_nested_def ranges_def intro!: exI [of _ "[Region ?n (unat a) (unat b) []]"] exI [of _ "\<lambda>t. if t < ?n then hs t else []"])
    next
      case False
      then have first: "firstBlock es1 \<noteq> None" using r e1(5) by (cases ts rule: flat.cases) auto
      have code: "FindOrAddTryBlock a b es = do {
          (ok, es) \<leftarrow> InsertExceptionBlock ?n es1;
          Some (if ok then (Some ?n, es) else (None, es\<lparr>numBlocks := numBlocks es - 1\<rparr>))
        }"
        using f(1) None e1(1) first by (auto simp: FindOrAddTryBlock_def)
      have "unat a \<le> unat b" using assms(3) by (simp add: word_le_nat_alt)
      note ins = insert_step [OF e1(2) _ pend this assms(4) False]
      show ?thesis
      proof (cases "place ?n (unat a) (unat b) ts")
        case None
        from h have "laid 0 ts B" by (simp add: holds_def)
        from None ins place_conflict [OF this \<open>unat a \<le> unat b\<close> None] show ?thesis by (auto simp: code)
      next
        case (Some ts')
        with ins obtain es2 where e2: "InsertExceptionBlock ?n es1 = Some (True, es2)" "holds B es2 ts' {}"
          "mset (flat ts') = add_mset (?n, unat a, unat b) (mset (flat ts))" "keeps_data es1 es2" by auto
        have k: "length (blocks es2) = length (blocks es)" "numBlocks es2 = ?n + 1"
          "\<And>i. i < length (blocks es) \<Longrightarrow> same_data (blocks es2 ! i) (blocks es1 ! i)"
          using e2(4) e1(3,4) by (simp_all add: keeps_data_def)
        have "linked es2 (\<lambda>t. if t < ?n then hs t else [])" by (rule ext) (use k assms(2) in simp_all)
        moreover have "eb_kind (blocks es2 ! ?n) = TYPE_TRY" using k(3) [OF assms(2)] e1(6) by (simp add: same_data_def)
        ultimately show ?thesis
          using e2 k place_nonempty [OF Some] ranges_place [OF e2(3)]
          by (auto simp: code well_nested_def intro!: exI [of _ ts'] exI [of _ "\<lambda>t. if t < ?n then hs t else []"])
      qed
    qed
  qed
qed

lemma add_handler_step:
  assumes "well_nested B es ts hs" and "ts \<noteq> []" and "t < numBlocks es" and "eb_kind (blocks es ! t) = TYPE_TRY"
    and "numBlocks es + 2 \<le> length (blocks es)" and "filter_before_handler ex" and "unat (handlerOffset ex + handlerLength ex) \<le> B"
  shows "\<exists>r es'. add_handler accessible t ex es = Some (r, es') \<and> (r \<noteq> IL_CODER_OK \<longrightarrow> clause_error accessible ex \<or>
      conflict (filter_ranges ex \<union> {(unat (handlerOffset ex), unat (handlerOffset ex + handlerLength ex))}) (ranges ts \<union> filter_ranges ex)) \<and>
    (r = IL_CODER_OK \<longrightarrow> (\<exists>ts' hs'. well_nested B es' ts' hs' \<and>
    numBlocks es' \<le> numBlocks es + 2 \<and> length (blocks es') = length (blocks es) \<and>
    ranges ts' = ranges ts \<union> filter_ranges ex \<union> {(unat (handlerOffset ex), unat (handlerOffset ex + handlerLength ex))}))"
proof (cases "handlerOffset ex + handlerLength ex < handlerOffset ex")
  case True
  then show ?thesis by (simp add: add_handler_def clause_error_def)
next
  case False
  let ?n = "numBlocks es" and ?lo = "unat (handlerOffset ex)" and ?hi = "unat (handlerOffset ex + handlerLength ex)"
  let ?g = "\<lambda>b. b\<lparr>startOffset := handlerOffset ex, endOffset := handlerOffset ex + handlerLength ex, eb_parent := None,
         eb_nested := None, eb_nextNested := None\<rparr>"
  from False have le: "?lo \<le> ?hi" by (simp add: word_le_nat_alt not_less)
  from assms(1) have h: "holds B es ts {}" and l: "linked es hs" by (simp_all add: well_nested_def)
  have cap: "?n < length (blocks es)" using assms(5) by simp
  from take_step [OF h cap, of ?g] obtain es1 where e1: "take_entry ?g es = Some (?n, es1)" "holds B es1 ts {?n}"
    "numBlocks es1 = ?n + 1" "length (blocks es1) = length (blocks es)"
    "blocks es1 ! ?n = ?g (blocks es ! ?n)" "\<forall>i. i \<noteq> ?n \<longrightarrow> blocks es1 ! i = blocks es ! i" by metis
  have pend: "pending ?n ?lo ?hi es1" using e1(4,5) cap by (simp add: pending_def)
  have cap1: "numBlocks es1 < length (blocks es1)" using e1(3,4) assms(5) by simp
  have lo_B: "?lo \<le> B" using le assms(7) by simp
  from fill_handler_step [OF e1(2) pend assms(2) cap1 assms(6) lo_B, of accessible t]
  obtain r es2 where f: "fill_handler accessible t ?n ex es1 = Some (r, es2)"
    "r = IL_CODER_OK \<Longrightarrow> \<exists>ts2. filled B t ?n ?lo ?hi ex es1 ts es2 ts2"
    "r \<noteq> IL_CODER_OK \<Longrightarrow> clause_error accessible ex \<or> conflict (filter_ranges ex) (ranges ts)" by (metis (full_types))
  have code: "add_handler accessible t ex es =
     (if r \<noteq> IL_CODER_OK then Some (r, es2)
      else do {
        (ok, es) \<leftarrow> InsertExceptionBlock ?n es2;
        if \<not> ok then Some (IL_CODER_BRANCH_ERR, es)
        else do { es \<leftarrow> AddHandlerBlock t ?n es; Some (IL_CODER_OK, es) }
      })"
    using False e1(1) f(1) by (simp add: add_handler_def)
  show ?thesis
  proof (cases "r = IL_CODER_OK")
    case ok: True
    from f(2) [OF ok] obtain ts2 where fl: "filled B t ?n ?lo ?hi ex es1 ts es2 ts2" by blast
    then have h2: "holds B es2 ts2 {?n}" and p2: "pending ?n ?lo ?hi es2" and ne2: "ts2 \<noteq> []" by (simp_all add: filled_def)
    from insert_step [OF h2 _ p2 le assms(7) ne2] have ins: "case place ?n ?lo ?hi ts2 of
        None \<Rightarrow> \<exists>es'. InsertExceptionBlock ?n es2 = Some (False, es')
      | Some ts' \<Rightarrow> \<exists>es'. InsertExceptionBlock ?n es2 = Some (True, es') \<and> holds B es' ts' {} \<and>
          mset (flat ts') = add_mset (?n, ?lo, ?hi) (mset (flat ts2)) \<and> keeps_data es2 es'"
      by (auto split: option.splits)
    show ?thesis
    proof (cases "place ?n ?lo ?hi ts2")
      case None
      from h2 have "laid 0 ts2 B" by (simp add: holds_def)
      from place_conflict [OF this le None] have "conflict {(?lo, ?hi)} (ranges ts \<union> filter_ranges ex)"
        using fl by (simp add: filled_def)
      then have "conflict (filter_ranges ex \<union> {(?lo, ?hi)}) (ranges ts \<union> filter_ranges ex)" by (rule conflict_mono) auto
      with None ins ok show ?thesis by (auto simp: code)
    next
      case (Some ts3)
      with ins obtain es3 where e3: "InsertExceptionBlock ?n es2 = Some (True, es3)" "holds B es3 ts3 {}"
        "mset (flat ts3) = add_mset (?n, ?lo, ?hi) (mset (flat ts2))" "keeps_data es2 es3" by auto
      have n2: "numBlocks es2 \<ge> ?n + 1" "numBlocks es2 \<le> ?n + 2" "length (blocks es2) = length (blocks es)"
        using fl e1(3,4) by (simp_all add: filled_def)
      have k: "length (blocks es3) = length (blocks es)" "numBlocks es3 = numBlocks es2"
        "\<And>i. i < length (blocks es) \<Longrightarrow> same_data (blocks es3 ! i) (blocks es2 ! i)"
        using e3(4) n2(3) by (simp_all add: keeps_data_def)
      have old: "same_data (blocks es3 ! i) (blocks es ! i)" if "i < ?n" for i
      proof -
        have "same_data (blocks es2 ! i) (blocks es ! i)" using fl e1(3,6) that by (simp add: filled_def)
        with k(3) [of i] that cap show ?thesis by (simp add: same_data_def)
      qed
      have new: "eb_kind (blocks es3 ! i) \<noteq> TYPE_TRY" if "?n \<le> i" "i < numBlocks es3" for i
      proof -
        have "i < length (blocks es)" using that(2) k(2) n2(2) assms(5) by simp
        moreover have "eb_kind (blocks es2 ! i) \<noteq> TYPE_TRY"
          using fl that e1(3) k(2) by (cases "i = ?n") (auto simp: filled_def)
        ultimately show ?thesis using k(3) by (simp add: same_data_def)
      qed
      let ?hs = "\<lambda>u. if u < ?n then hs u else []"
      have l3: "linked es3 ?hs"
        by (rule linked_extend [OF l k(1)]) (use old new k(2) n2(1) in auto)
      have d: "eb_kind (blocks es3 ! ?n) \<noteq> TYPE_TRY" "eb_link (blocks es3 ! ?n) = None" "eb_tryBlock (blocks es3 ! ?n) = Some t"
        using fl k(3) [OF cap] by (auto simp: filled_def same_data_def)
      have t: "t < numBlocks es3" "eb_kind (blocks es3 ! t) = TYPE_TRY"
        using assms(3,4) k(2) n2(1) old [OF assms(3)] by (simp_all add: same_data_def)
      have n3: "?n < numBlocks es3" using k(2) n2(1) by simp
      from l [unfolded linked_def, rule_format, OF assms(3,4)] have before: "\<forall>x \<in> set (?hs t). x < ?n" by simp
      from AddHandlerBlock_step [OF e3(2) l3 t n3 d before] obtain es4 where
        e4: "AddHandlerBlock t ?n es3 = Some es4" "holds B es4 ts3 {}" "linked es4 (?hs(t := ?hs t @ [?n]))"
          "numBlocks es4 = numBlocks es3" "length (blocks es4) = length (blocks es3)" by blast
      have "ranges ts3 = ranges ts \<union> filter_ranges ex \<union> {(?lo, ?hi)}"
        using ranges_place [OF e3(3)] fl by (auto simp: filled_def)
      with e3(1) e4 k n2 ok show ?thesis
        by (auto simp: code well_nested_def intro!: exI [of _ ts3] exI [of _ "?hs(t := ?hs t @ [?n])"])
    qed
  next
    case False
    from f(3) [OF this] show ?thesis
      using False by (auto simp: code intro: conflict_mono)
  qed
qed

definition clause_ranges :: "ILException \<Rightarrow> (nat \<times> nat) set" where
  "clause_ranges ex = {(unat (tryOffset ex), unat (tryOffset ex + tryLength ex)),
     (unat (handlerOffset ex), unat (handlerOffset ex + handlerLength ex))} \<union> filter_ranges ex"

definition ends_within :: "nat \<Rightarrow> ILException \<Rightarrow> bool" where
  "ends_within B ex \<longleftrightarrow> unat (tryOffset ex + tryLength ex) \<le> B \<and> unat (handlerOffset ex + handlerLength ex) \<le> B"

lemma fill_accessible:
  assumes "fill_handler accessible t h ex es = Some (IL_CODER_OK, es')" and "ex_flags ex AND 7 = 0"
  shows "\<exists>c. accessible (extraArg ex) = Some c"
  using assms by (cases "accessible (extraArg ex)") (auto simp: fill_handler_def flags_7 bind_eq_Some_conv)

lemma add_handler_OK:
  assumes "add_handler accessible t ex es = Some (IL_CODER_OK, es')"
  shows "\<not> handlerOffset ex + handlerLength ex < handlerOffset ex \<and> (ex_flags ex AND 7 = 0 \<longrightarrow> accessible (extraArg ex) \<noteq> None)"
  using assms by (auto simp: add_handler_def Let_def bind_eq_Some_conv dest: fill_accessible split: if_splits)

lemma add_clause_step:
  assumes "well_nested B es ts hs" and "numBlocks es + 3 \<le> length (blocks es)" and "filter_before_handler ex" and "ends_within B ex"
  shows "\<exists>r es'. ILCoderAddExceptionBlock accessible ex es = Some (r, es') \<and>
    (r \<noteq> IL_CODER_OK \<longrightarrow> clause_error accessible ex \<or> conflict (clause_ranges ex) (ranges ts \<union> clause_ranges ex)) \<and>
    (r = IL_CODER_OK \<longrightarrow> \<not> clause_error accessible ex \<and> (\<exists>ts' hs'. well_nested B es' ts' hs' \<and> numBlocks es' \<le> numBlocks es + 3 \<and>
      length (blocks es') = length (blocks es) \<and> ranges ts' = ranges ts \<union> clause_ranges ex))"
proof (cases "tryOffset ex + tryLength ex < tryOffset ex")
  case True
  then show ?thesis by (simp add: ILCoderAddExceptionBlock_def clause_error_def)
next
  case False
  then have le: "tryOffset ex \<le> tryOffset ex + tryLength ex" by simp
  have cap: "numBlocks es < length (blocks es)" and e: "unat (tryOffset ex + tryLength ex) \<le> B" "unat (handlerOffset ex + handlerLength ex) \<le> B"
    using assms(2,4) by (simp_all add: ends_within_def)
  from FindOrAddTryBlock_step [OF assms(1) cap le e(1)] obtain f es1 where
    f: "FindOrAddTryBlock (tryOffset ex) (tryOffset ex + tryLength ex) es = Some (f, es1)"
    and none: "f = None \<Longrightarrow> conflict {(unat (tryOffset ex), unat (tryOffset ex + tryLength ex))} (ranges ts)"
    and some: "\<And>t. f = Some t \<Longrightarrow> \<exists>ts' hs'. well_nested B es1 ts' hs' \<and>
      t < numBlocks es1 \<and> eb_kind (blocks es1 ! t) = TYPE_TRY \<and> ts' \<noteq> [] \<and> numBlocks es1 \<le> numBlocks es + 1 \<and>
      length (blocks es1) = length (blocks es) \<and> ranges ts' = insert (unat (tryOffset ex), unat (tryOffset ex + tryLength ex)) (ranges ts)"
    by blast
  have code: "ILCoderAddExceptionBlock accessible ex es =
      (case f of None \<Rightarrow> Some (IL_CODER_BRANCH_ERR, es1) | Some t \<Rightarrow> add_handler accessible t ex es1)"
    using False f by (simp add: ILCoderAddExceptionBlock_def)
  show ?thesis
  proof (cases f)
    case None
    have "conflict (clause_ranges ex) (ranges ts \<union> clause_ranges ex)"
      by (rule conflict_mono [OF none [OF None]]) (auto simp: clause_ranges_def)
    with None show ?thesis by (simp add: code)
  next
    case (Some t)
    from some [OF Some] obtain ts1 hs1 where w: "well_nested B es1 ts1 hs1" "t < numBlocks es1" "eb_kind (blocks es1 ! t) = TYPE_TRY"
      "ts1 \<noteq> []" "numBlocks es1 \<le> numBlocks es + 1" "length (blocks es1) = length (blocks es)"
      "ranges ts1 = insert (unat (tryOffset ex), unat (tryOffset ex + tryLength ex)) (ranges ts)" by blast
    have "numBlocks es1 + 2 \<le> length (blocks es1)" using w(5,6) assms(2) by simp
    from add_handler_step [OF w(1,4,2,3) this assms(3) e(2), of accessible] obtain r es2 where
      r: "add_handler accessible t ex es1 = Some (r, es2)"
      and bad: "r \<noteq> IL_CODER_OK \<Longrightarrow> clause_error accessible ex \<or>
        conflict (filter_ranges ex \<union> {(unat (handlerOffset ex), unat (handlerOffset ex + handlerLength ex))}) (ranges ts1 \<union> filter_ranges ex)"
      and good: "r = IL_CODER_OK \<Longrightarrow> \<exists>ts' hs'. well_nested B es2 ts' hs' \<and>
        numBlocks es2 \<le> numBlocks es1 + 2 \<and> length (blocks es2) = length (blocks es1) \<and>
        ranges ts' = ranges ts1 \<union> filter_ranges ex \<union> {(unat (handlerOffset ex), unat (handlerOffset ex + handlerLength ex))}" by blast
    have "clause_error accessible ex \<or> conflict (clause_ranges ex) (ranges ts \<union> clause_ranges ex)" if "r \<noteq> IL_CODER_OK"
      using bad [OF that]
    proof
      assume c: "conflict (filter_ranges ex \<union> {(unat (handlerOffset ex), unat (handlerOffset ex + handlerLength ex))}) (ranges ts1 \<union> filter_ranges ex)"
      have "conflict (clause_ranges ex) (ranges ts \<union> clause_ranges ex)"
        by (rule conflict_mono [OF c]) (auto simp: clause_ranges_def w(7))
      then show ?thesis ..
    qed simp
    moreover have "\<not> clause_error accessible ex" if "r = IL_CODER_OK"
      using add_handler_OK [of accessible t ex es1 es2] r that False by (auto simp: clause_error_def)
    moreover have "\<exists>ts' hs'. well_nested B es2 ts' hs' \<and> numBlocks es2 \<le> numBlocks es + 3 \<and>
        length (blocks es2) = length (blocks es) \<and> ranges ts' = ranges ts \<union> clause_ranges ex" if "r = IL_CODER_OK"
      using good [OF that] w(5,6,7) by (fastforce simp: clause_ranges_def)
    ultimately show ?thesis using r Some by (simp add: code)
  qed
qed

lemma add_clauses_step:
  assumes "well_nested B es ts hs" and "numBlocks es + 3 * length exs \<le> length (blocks es)"
    and "\<forall>ex \<in> set exs. filter_before_handler ex \<and> ends_within B ex"
  shows "\<exists>r es'. add_clauses accessible exs es = Some (r, es') \<and>
    (r \<noteq> IL_CODER_OK \<longrightarrow> (\<exists>ex \<in> set exs. clause_error accessible ex) \<or>
      conflict (\<Union> (clause_ranges ` set exs)) (ranges ts \<union> \<Union> (clause_ranges ` set exs))) \<and>
    (r = IL_CODER_OK \<longrightarrow> (\<forall>ex \<in> set exs. \<not> clause_error accessible ex) \<and> (\<exists>ts' hs'. well_nested B es' ts' hs' \<and>
      numBlocks es' \<le> numBlocks es + 3 * length exs \<and> length (blocks es') = length (blocks es) \<and>
      ranges ts' = ranges ts \<union> \<Union> (clause_ranges ` set exs)))"
  using assms
proof (induction exs arbitrary: es ts hs)
  case Nil
  then show ?case by auto
next
  case (Cons ex exs)
  let ?R = "\<Union> (clause_ranges ` set (ex # exs))"
  from Cons.prems have cap: "numBlocks es + 3 \<le> length (blocks es)" and ok: "filter_before_handler ex" "ends_within B ex" by simp_all
  from add_clause_step [OF Cons.prems(1) cap ok, of accessible] obtain r es1 where
    r: "ILCoderAddExceptionBlock accessible ex es = Some (r, es1)"
    and bad: "r \<noteq> IL_CODER_OK \<Longrightarrow> clause_error accessible ex \<or> conflict (clause_ranges ex) (ranges ts \<union> clause_ranges ex)"
    and good: "r = IL_CODER_OK \<Longrightarrow> \<not> clause_error accessible ex \<and> (\<exists>ts' hs'. well_nested B es1 ts' hs' \<and>
      numBlocks es1 \<le> numBlocks es + 3 \<and> length (blocks es1) = length (blocks es) \<and> ranges ts' = ranges ts \<union> clause_ranges ex)" by blast
  show ?case
  proof (cases "r = IL_CODER_OK")
    case False
    have "conflict ?R (ranges ts \<union> ?R)" if "conflict (clause_ranges ex) (ranges ts \<union> clause_ranges ex)"
      by (rule conflict_mono [OF that]) auto
    with False bad r show ?thesis by auto
  next
    case True
    from good [OF True] obtain ts1 hs1 where w: "well_nested B es1 ts1 hs1" "numBlocks es1 \<le> numBlocks es + 3"
      "length (blocks es1) = length (blocks es)" "ranges ts1 = ranges ts \<union> clause_ranges ex" "\<not> clause_error accessible ex" by blast
    have "numBlocks es1 + 3 * length exs \<le> length (blocks es1)" "\<forall>ex \<in> set exs. filter_before_handler ex \<and> ends_within B ex"
      using w(2,3) Cons.prems(2,3) by simp_all
    from Cons.IH [OF w(1) this] obtain r' es2 where
      r': "add_clauses accessible exs es1 = Some (r', es2)"
      and bad': "r' \<noteq> IL_CODER_OK \<Longrightarrow> (\<exists>ex \<in> set exs. clause_error accessible ex) \<or>
        conflict (\<Union> (clause_ranges ` set exs)) (ranges ts1 \<union> \<Union> (clause_ranges ` set exs))"
      and good': "r' = IL_CODER_OK \<Longrightarrow> (\<forall>ex \<in> set exs. \<not> clause_error accessible ex) \<and> (\<exists>ts' hs'. well_nested B es2 ts' hs' \<and>
        numBlocks es2 \<le> numBlocks es1 + 3 * length exs \<and> length (blocks es2) = length (blocks es1) \<and>
        ranges ts' = ranges ts1 \<union> \<Union> (clause_ranges ` set exs))" by (elim exE conjE) (rule that; iprover)
    have code: "add_clauses accessible (ex # exs) es = Some (r', es2)" using r True r' by simp
    show ?thesis
    proof (cases "r' = IL_CODER_OK")
      case False
      have "conflict ?R (ranges ts \<union> ?R)" if "conflict (\<Union> (clause_ranges ` set exs)) (ranges ts1 \<union> \<Union> (clause_ranges ` set exs))"
        by (rule conflict_mono [OF that]) (auto simp: w(4))
      with False bad' code show ?thesis by (auto simp del: add_clauses.simps)
    next
      case ok': True
      from good' [OF this] obtain ts2 hs2 where w2: "well_nested B es2 ts2 hs2" "numBlocks es2 \<le> numBlocks es1 + 3 * length exs"
        "length (blocks es2) = length (blocks es1)" "ranges ts2 = ranges ts1 \<union> \<Union> (clause_ranges ` set exs)"
        "\<forall>ex \<in> set exs. \<not> clause_error accessible ex" by blast
      have "ranges ts2 = ranges ts \<union> ?R" "numBlocks es2 \<le> numBlocks es + 3 * length (ex # exs)"
        "length (blocks es2) = length (blocks es)" using w w2 by auto
      with w2(1,5) w(5) ok' code show ?thesis by (auto simp del: add_clauses.simps)
    qed
  qed
qed

section \<open>The limits\<close>

lemma last_block_step:
  assumes "rep es par (Some i) ts" and "laid a ts B"
  shows "\<exists>b. last_block i es = Some b \<and> (laid a ts (unat (endOffset b)))"
  using assms
proof (induction ts arbitrary: a i)
  case (Cons t ts)
  obtain l h cs where t: "t = Region i l h cs" using Cons.prems(1) by (cases t) simp
  note lb = last_block.simps [of i]
  show ?case
  proof (cases ts)
    case Nil
    with Cons.prems t show ?thesis by (auto simp: lb)
  next
    case (Cons u us)
    with Cons.prems t obtain n where n: "eb_nextNested (blocks es ! i) = Some n" by (cases u) auto
    from Cons.prems t n have "rep es par (Some n) ts" "laid h ts B" by auto
    from Cons.IH [OF this] obtain b where "last_block n es = Some b" "laid h ts (unat (endOffset b))" by blast
    with Cons.prems t n show ?thesis by (auto simp: lb)
  qed
qed simp

lemma check_limits_step:
  assumes "rep es None (firstBlock es) ts" and "laid 0 ts B"
  shows "\<exists>ok. check_limits len es = Some ok \<and> (ok \<longleftrightarrow> laid 0 ts (unat len))"
proof (cases ts)
  case Nil
  with assms show ?thesis by (auto simp: check_limits_def intro: exI [of _ True])
next
  case (Cons t us)
  obtain i l h cs where t: "t = Region i l h cs" by (cases t)
  with Cons assms(1) have f: "firstBlock es = Some i" "i < length (blocks es)" "unat (startOffset (blocks es ! i)) = l" by simp_all
  from assms(1) f(1) have "rep es None (Some i) ts" by simp
  from last_block_step [OF this assms(2)] obtain b where b: "last_block i es = Some b" "laid 0 ts (unat (endOffset b))" by blast
  have "laid 0 ts (unat len) \<longleftrightarrow> l \<le> unat len \<and> unat (endOffset b) \<le> unat len"
  proof
    assume "l \<le> unat len \<and> unat (endOffset b) \<le> unat len"
    with laid_weaken [OF b(2)] show "laid 0 ts (unat len)" by simp
  next
    have end_b: "\<exists>r \<in> set (flat ts). snd (snd r) = unat (endOffset b)" if "rep es par (Some i) ts" "last_block i es = Some b" for par i ts
      using that
    proof (induction ts arbitrary: i)
      case (Cons t ts)
      obtain l h cs where t: "t = Region i l h cs" using Cons.prems(1) by (cases t) simp
      show ?case
      proof (cases "eb_nextNested (blocks es ! i)")
        case None
        with Cons.prems t show ?thesis by (auto simp: last_block.simps [of i])
      next
        case (Some n)
        with Cons.prems t have "rep es par (Some n) ts" "last_block n es = Some b" by (auto simp: last_block.simps [of i])
        from Cons.IH [OF this] t show ?thesis by auto
      qed
    qed simp
    assume laid: "laid 0 ts (unat len)"
    from end_b [OF \<open>rep es None (Some i) ts\<close> b(1)] obtain j l' where "(j, l', unat (endOffset b)) \<in> set (flat ts)" by force
    from laid_flat [OF laid this] have "unat (endOffset b) \<le> unat len" by simp
    moreover have "(i, l, h) \<in> set (flat ts)" by (simp add: Cons t)
    from laid_flat [OF laid this] have "l \<le> unat len" by simp
    ultimately show "l \<le> unat len \<and> unat (endOffset b) \<le> unat len" by simp
  qed
  with f b(1) show ?thesis by (auto simp: check_limits_def word_less_nat_alt)
qed

lemma laid_apart: "laid a ts B \<Longrightarrow> (i, l, h) \<in> set (flat ts) \<Longrightarrow> (j, l', h') \<in> set (flat ts) \<Longrightarrow> \<not> crosses l h l' h'"
  by (induction a ts B rule: laid.induct) (fastforce simp: crosses_def dest: laid_flat)+

lemma laid_no_conflict: "laid a ts B \<Longrightarrow> \<not> conflict (ranges ts) (ranges ts)"
  using laid_apart by (fastforce simp: conflict_def ranges_def)

lemma laid_limits: "laid a ts B \<Longrightarrow> (laid a ts b \<longleftrightarrow> a \<le> b \<and> (\<forall>r \<in> ranges ts. snd r \<le> b))"
proof
  assume "laid a ts b"
  then show "a \<le> b \<and> (\<forall>r \<in> ranges ts. snd r \<le> b)" by (auto simp: ranges_def dest: laid_flat laid_le)
next
  assume "laid a ts B" and "a \<le> b \<and> (\<forall>r \<in> ranges ts. snd r \<le> b)"
  then show "laid a ts b"
    by (induction a ts B rule: laid.induct) (auto simp: ranges_def)
qed

section \<open>Search\<close>

definition covers_offset :: "nat \<Rightarrow> nat \<times> nat \<times> nat \<Rightarrow> bool" where
  "covers_offset x r \<longleftrightarrow> fst (snd r) \<le> x \<and> x < snd (snd r)"

text \<open>No region contains the offset, or the found one does and lies inside all the others that do.\<close>

definition innermost :: "(nat \<times> nat \<times> nat) set \<Rightarrow> nat \<Rightarrow> nat option \<Rightarrow> bool" where
  "innermost R x f \<longleftrightarrow> (case f of
       None \<Rightarrow> \<forall>r \<in> R. \<not> covers_offset x r
     | Some i \<Rightarrow> \<exists>r \<in> R. fst r = i \<and> covers_offset x r \<and>
         (\<forall>q \<in> R. covers_offset x q \<longrightarrow> fst (snd q) \<le> fst (snd r) \<and> snd (snd r) \<le> snd (snd q)))"

lemma innermost_inside:
  assumes "innermost C x f" and "\<forall>r \<in> C. l \<le> fst (snd r) \<and> snd (snd r) \<le> h" and "l \<le> x" and "x < h" and "\<forall>r \<in> T. \<not> covers_offset x r"
  shows "innermost (insert (i, l, h) (C \<union> T)) x (Some (case f of None \<Rightarrow> i | Some j \<Rightarrow> j))"
proof (cases f)
  case None
  with assms(1) have "\<forall>r \<in> C. \<not> covers_offset x r" by (simp add: innermost_def)
  with None assms(3-5) show ?thesis
    unfolding innermost_def by (auto simp: covers_offset_def intro!: bexI [of _ "(i, l, h)"])
next
  case (Some j)
  with assms(1) obtain r where r: "r \<in> C" "fst r = j" "covers_offset x r"
    "\<And>q. q \<in> C \<Longrightarrow> covers_offset x q \<Longrightarrow> fst (snd q) \<le> fst (snd r) \<and> snd (snd r) \<le> snd (snd q)" by (auto simp: innermost_def)
  have "fst (snd q) \<le> fst (snd r) \<and> snd (snd r) \<le> snd (snd q)" if "q \<in> insert (i, l, h) (C \<union> T)" "covers_offset x q" for q
    using that r(1,4) assms(2,5) by (cases "q \<in> C") auto
  then have "\<exists>r \<in> insert (i, l, h) (C \<union> T). fst r = j \<and> covers_offset x r \<and>
      (\<forall>q \<in> insert (i, l, h) (C \<union> T). covers_offset x q \<longrightarrow> fst (snd q) \<le> fst (snd r) \<and> snd (snd r) \<le> snd (snd q))"
    using r(1-3) by blast
  with Some show ?thesis by (simp only: innermost_def option.case)
qed

lemma find_block_loop_innermost:
  assumes "rep es par p ts" and "laid a ts B"
  shows "\<exists>f. innermost (set (flat ts)) (unat x) f \<and> find_block_loop x prev p es = Some (case f of None \<Rightarrow> prev | Some i \<Rightarrow> Some i)"
  using assms
proof (induction a ts B arbitrary: par p prev rule: laid.induct)
  case (1 a b)
  then show ?case by (auto simp: find_block_loop.simps innermost_def intro!: exI [of _ None])
next
  case (2 a i l h cs ts b)
  from "2.prems" have p: "p = Some i" "i < length (blocks es)" and l: "unat (startOffset (blocks es ! i)) = l"
    and h: "unat (endOffset (blocks es ! i)) = h" and cs: "rep es (Some i) (eb_nested (blocks es ! i)) cs" "laid l cs h"
    and ts: "rep es par (eb_nextNested (blocks es ! i)) ts" "laid h ts b" and lh: "l \<le> h" by simp_all
  note loop = find_block_loop.simps [of x prev "Some i"]
  have in_cs: "l \<le> fst (snd r) \<and> snd (snd r) \<le> h" if "r \<in> set (flat cs)" for r using laid_flat [OF cs(2)] that by (cases r) auto
  have in_ts: "h \<le> fst (snd r)" if "r \<in> set (flat ts)" for r using laid_flat [OF ts(2)] that by (cases r) auto
  consider "unat x < l" | "h \<le> unat x" | "l \<le> unat x" "unat x < h" by linarith
  then show ?case
  proof cases
    case 1
    have "\<not> covers_offset (unat x) r" if "r \<in> set (flat (Region i l h cs # ts))" for r
      using that 1 lh by (auto simp: covers_offset_def dest!: in_cs in_ts)
    with 1 p l show ?thesis by (auto simp: loop word_less_nat_alt innermost_def intro!: exI [of _ None])
  next
    case 2
    from "2.IH"(2) [OF ts] obtain f where f: "innermost (set (flat ts)) (unat x) f"
      "find_block_loop x prev (eb_nextNested (blocks es ! i)) es = Some (case f of None \<Rightarrow> prev | Some i \<Rightarrow> Some i)" by blast
    have "\<not> covers_offset (unat x) r" if "r \<in> insert (i, l, h) (set (flat cs))" for r
      using that 2 by (auto simp: covers_offset_def dest!: in_cs)
    with f(1) have "innermost (set (flat (Region i l h cs # ts))) (unat x) f"
      by (auto simp: innermost_def split: option.splits)
    with f(2) 2 p l h lh show ?thesis by (auto simp: loop word_less_nat_alt word_le_nat_alt)
  next
    case 3
    from "2.IH"(1) [OF cs] obtain f where f: "innermost (set (flat cs)) (unat x) f"
      "find_block_loop x (Some i) (eb_nested (blocks es ! i)) es = Some (case f of None \<Rightarrow> Some i | Some i \<Rightarrow> Some i)" by blast
    have "\<forall>r \<in> set (flat ts). \<not> covers_offset (unat x) r" using 3 by (auto simp: covers_offset_def dest!: in_ts)
    with innermost_inside [OF f(1), of l h "set (flat ts)" i] in_cs 3
    have "innermost (set (flat (Region i l h cs # ts))) (unat x) (Some (case f of None \<Rightarrow> i | Some j \<Rightarrow> j))" by simp
    with f(2) 3 p l h show ?thesis
      by (auto simp: loop word_less_nat_alt word_le_nat_alt split: option.splits intro!: exI [of _ "Some (case f of None \<Rightarrow> i | Some j \<Rightarrow> j)"])
  qed
qed

section \<open>The set-up of a method\<close>

definition all_ranges :: "ILException list \<Rightarrow> (nat \<times> nat) set" where
  "all_ranges exs = \<Union> (clause_ranges ` set exs)"

definition synchronized_ranges :: "bool \<Rightarrow> u32 \<Rightarrow> (nat \<times> nat) set" where
  "synchronized_ranges isSynchronized len = (if isSynchronized then {(0, unat len), (unat len, unat len + 1)} else {})"

text \<open>
  The clauses a verifier should accept: no region wraps around, every caught class is accessible, no two
  regions overlap without nesting, and all of them lie in the code.
\<close>

definition acceptable :: "(u32 \<Rightarrow> nat option) \<Rightarrow> ILException list \<Rightarrow> u32 \<Rightarrow> bool" where
  "acceptable accessible exs len \<longleftrightarrow> (\<forall>ex \<in> set exs. \<not> clause_error accessible ex) \<and>
     \<not> conflict (all_ranges exs) (all_ranges exs) \<and> (\<forall>r \<in> all_ranges exs. snd r \<le> unat len)"

lemma synchronized_step:
  assumes "well_nested B es ts hs" and "laid 0 ts (unat len)" and "numBlocks es + 3 \<le> length (blocks es)" and "unat len + 1 < 2 ^ 32"
  shows "\<exists>es' ts' hs'. ILCoderAddExceptionBlock accessible (synchronized_clause len) es = Some (IL_CODER_OK, es') \<and>
    well_nested (unat len + 1) es' ts' hs' \<and> ranges ts' = ranges ts \<union> synchronized_ranges True len"
proof -
  let ?ex = "synchronized_clause len"
  have one: "unat (len + 1) = unat len + 1" using assms(4) by (simp add: unat_word_ariths)
  have flags: "\<not> is_filter ?ex" "ex_flags ?ex AND 7 \<noteq> 0" by (simp_all add: synchronized_clause_def is_filter_def)
  have rs: "clause_ranges ?ex = synchronized_ranges True len"
    using flags by (simp add: clause_ranges_def filter_ranges_def synchronized_ranges_def) (simp add: synchronized_clause_def one)
  have "well_nested (unat len + 1) es ts hs"
    using assms(1) laid_weaken [OF assms(2), of 0 "unat len + 1"] by (simp add: well_nested_def holds_def)
  moreover have "filter_before_handler ?ex" "ends_within (unat len + 1) ?ex"
    using flags(1) one by (simp_all add: filter_before_handler_def ends_within_def synchronized_clause_def)
  ultimately obtain r es' where r: "ILCoderAddExceptionBlock accessible ?ex es = Some (r, es')"
    and bad: "r \<noteq> IL_CODER_OK \<Longrightarrow> clause_error accessible ?ex \<or> conflict (clause_ranges ?ex) (ranges ts \<union> clause_ranges ?ex)"
    and good: "r = IL_CODER_OK \<Longrightarrow> \<exists>ts' hs'. well_nested (unat len + 1) es' ts' hs' \<and> ranges ts' = ranges ts \<union> clause_ranges ?ex"
    using add_clause_step [OF _ assms(3), of "unat len + 1" ts hs ?ex accessible] by blast
  have "\<not> clause_error accessible ?ex"
    using flags(2) one by (simp add: clause_error_def) (simp add: synchronized_clause_def word_less_nat_alt)
  moreover have "\<forall>r \<in> ranges ts. snd r \<le> unat len" using laid_limits [OF assms(2), of "unat len"] assms(2) by simp
  then have "\<not> conflict (clause_ranges ?ex) (ranges ts \<union> clause_ranges ?ex)"
    by (fastforce simp: rs synchronized_ranges_def conflict_def crosses_def)
  ultimately have "r = IL_CODER_OK" using bad by blast
  with r good show ?thesis by (auto simp: rs)
qed

lemma setup_step:
  assumes "\<forall>ex \<in> set exs. filter_before_handler ex" and "isSynchronized \<longrightarrow> unat len + 1 < 2 ^ 32"
  shows "\<exists>r es. setup_exceptions accessible exs isSynchronized len = Some (r, es) \<and> (r = IL_CODER_OK \<longleftrightarrow> acceptable accessible exs len) \<and>
    (r = IL_CODER_OK \<longrightarrow> (\<exists>ts hs. well_nested (unat len + (if isSynchronized then 1 else 0)) es ts hs \<and>
       ranges ts = all_ranges exs \<union> synchronized_ranges isSynchronized len))"
proof -
  let ?es = "\<lparr>blocks = replicate ((length exs + (if isSynchronized then 1 else 0)) * 3) fresh_block, firstBlock = None, numBlocks = 0\<rparr>"
  have "well_nested (2 ^ 32) ?es [] (\<lambda>_. [])" by (simp add: well_nested_def holds_def linked_def)
  moreover have "numBlocks ?es + 3 * length exs \<le> length (blocks ?es)" by simp
  moreover have "\<forall>ex \<in> set exs. filter_before_handler ex \<and> ends_within (2 ^ 32) ex"
    using assms(1) unat_less_32 by (auto simp: ends_within_def less_imp_le)
  ultimately obtain r es where r: "add_clauses accessible exs ?es = Some (r, es)"
    and bad: "r \<noteq> IL_CODER_OK \<Longrightarrow> (\<exists>ex \<in> set exs. clause_error accessible ex) \<or> conflict (all_ranges exs) (all_ranges exs)"
    and good: "r = IL_CODER_OK \<Longrightarrow> (\<forall>ex \<in> set exs. \<not> clause_error accessible ex) \<and> (\<exists>ts hs. well_nested (2 ^ 32) es ts hs \<and>
      numBlocks es \<le> 3 * length exs \<and> length (blocks es) = length (blocks ?es) \<and> ranges ts = all_ranges exs)"
    using add_clauses_step [of "2 ^ 32" ?es "[]" "\<lambda>_. []" exs accessible] by (auto simp: all_ranges_def ranges_def)
  show ?thesis
  proof (cases "r = IL_CODER_OK")
    case False
    with r bad show ?thesis by (auto simp: setup_exceptions_def acceptable_def)
  next
    case True
    from good [OF True] obtain ts hs where w: "well_nested (2 ^ 32) es ts hs" "numBlocks es \<le> 3 * length exs"
      "length (blocks es) = length (blocks ?es)" "ranges ts = all_ranges exs" "\<forall>ex \<in> set exs. \<not> clause_error accessible ex" by blast
    then have rp: "rep es None (firstBlock es) ts" and laid: "laid 0 ts (2 ^ 32)" by (simp_all add: well_nested_def holds_def)
    from check_limits_step [OF rp laid, of len] obtain ok where ok: "check_limits len es = Some ok" "ok \<longleftrightarrow> laid 0 ts (unat len)" by blast
    have acc: "acceptable accessible exs len \<longleftrightarrow> laid 0 ts (unat len)"
      using w(4,5) laid_no_conflict [OF laid] laid_limits [OF laid, of "unat len"] by (simp add: acceptable_def)
    show ?thesis
    proof (cases "ok \<and> isSynchronized")
      case sync: True
      then have "numBlocks es + 3 \<le> length (blocks es)" using w(2,3) by simp
      from synchronized_step [OF w(1) _ this, of len accessible] sync ok(2) assms(2)
      obtain es' ts' hs' where "ILCoderAddExceptionBlock accessible (synchronized_clause len) es = Some (IL_CODER_OK, es')"
        "well_nested (unat len + 1) es' ts' hs'" "ranges ts' = ranges ts \<union> synchronized_ranges True len" by auto
      with r True ok acc sync w(4) show ?thesis by (auto simp: setup_exceptions_def)
    next
      case False
      have "well_nested (unat len) es ts hs" if ok using w(1) that ok(2) by (simp add: well_nested_def holds_def)
      with r True ok acc False w(4) show ?thesis
        by (auto simp: setup_exceptions_def synchronized_ranges_def)
    qed
  qed
qed

text \<open>C6: For clauses whose filters start before their handlers (and, for a synchronized method, code that leaves room for
  the added handler in 32 bits), the set-up of the exception blocks always returns, and it succeeds exactly on the acceptable ones: no region wraps around or leaves the
  code, no two regions overlap without nesting, and the caught classes are accessible.\<close>

theorem setup_accepts_nested_clauses:
  assumes "\<forall>ex \<in> set exs. filter_before_handler ex" and "isSynchronized \<longrightarrow> unat len + 1 < 2 ^ 32"
  shows "\<exists>r es. setup_exceptions accessible exs isSynchronized len = Some (r, es) \<and> (r = IL_CODER_OK \<longleftrightarrow> acceptable accessible exs len)"
  using setup_step [OF assms] by blast

definition example_clauses :: "ILException list" where
  "example_clauses = [\<lparr>ex_flags = 2, tryOffset = 0, tryLength = 4, handlerOffset = 4, handlerLength = 2, extraArg = 0\<rparr>,
     \<lparr>ex_flags = 0, tryOffset = 1, tryLength = 2, handlerOffset = 6, handlerLength = 1, extraArg = 0\<rparr>]"

lemma example_filters: "\<forall>ex \<in> set example_clauses. filter_before_handler ex"
  by (simp add: example_clauses_def filter_before_handler_def is_filter_def)

lemma example_ranges: "all_ranges example_clauses = {(0, 4), (4, 6), (1, 3), (6, 7)}"
  by (auto simp: example_clauses_def all_ranges_def clause_ranges_def filter_ranges_def is_filter_def)

lemma example_acceptable: "acceptable (\<lambda>_. Some 0) example_clauses 8"
proof -
  have "\<not> conflict (all_ranges example_clauses) (all_ranges example_clauses)"
    by (simp add: example_ranges conflict_def crosses_def)
  moreover have "\<forall>ex \<in> set example_clauses. \<not> clause_error (\<lambda>_. Some 0) ex" by (simp add: example_clauses_def clause_error_def)
  ultimately show ?thesis by (simp add: acceptable_def example_ranges)
qed

theorem setup_accepts_nested_clauses_witness:
  "\<exists>es. setup_exceptions (\<lambda>_. Some 0) example_clauses True 8 = Some (IL_CODER_OK, es)"
  using setup_accepts_nested_clauses [OF example_filters, of True 8 "\<lambda>_. Some 0"] example_acceptable by auto

text \<open>The block with a given index and its region.\<close>

lemma flat_block: "rep es par p ts \<Longrightarrow> (i, l, h) \<in> set (flat ts) \<Longrightarrow> l = unat (startOffset (blocks es ! i)) \<and> h = unat (endOffset (blocks es ! i))"
  by (induction es par p ts rule: rep.induct) auto

text \<open>C7: After a successful set-up of clauses whose filters start before their handlers, the search for the
  block of a code offset returns, and it finds the innermost region of the clauses that contains the
  offset, or nothing when none does.  (A filter that starts behind its handler, which the code does not exclude, can
  hide a region from the search.)\<close>

theorem search_finds_innermost:
  assumes "\<forall>ex \<in> set exs. filter_before_handler ex" and "isSynchronized \<longrightarrow> unat len + 1 < 2 ^ 32"
    and "setup_exceptions accessible exs isSynchronized len = Some (IL_CODER_OK, es)"
    and "R = all_ranges exs \<union> synchronized_ranges isSynchronized len"
  shows "\<exists>f. ILCoderFindExceptionBlock x es = Some f \<and> (case f of
      None \<Rightarrow> \<forall>(l, h) \<in> R. \<not> (l \<le> unat x \<and> unat x < h)
    | Some i \<Rightarrow> \<exists>lo hi. lo = unat (startOffset (blocks es ! i)) \<and> hi = unat (endOffset (blocks es ! i)) \<and> (lo, hi) \<in> R \<and>
        lo \<le> unat x \<and> unat x < hi \<and> (\<forall>(l, h) \<in> R. l \<le> unat x \<and> unat x < h \<longrightarrow> l \<le> lo \<and> hi \<le> h))"
proof -
  from setup_step [OF assms(1,2), of accessible] assms(3) obtain ts hs B where w: "well_nested B es ts hs" and R: "ranges ts = R"
    unfolding assms(4) by auto
  then have rp: "rep es None (firstBlock es) ts" and "laid 0 ts B" by (simp_all add: well_nested_def holds_def)
  from find_block_loop_innermost [OF this, of x None] obtain f where f: "innermost (set (flat ts)) (unat x) f"
    "ILCoderFindExceptionBlock x es = Some (case f of None \<Rightarrow> None | Some i \<Rightarrow> Some i)"
    unfolding ILCoderFindExceptionBlock_def by blast
  show ?thesis
  proof (cases f)
    case None
    with f R show ?thesis by (force simp: innermost_def covers_offset_def ranges_def)
  next
    case (Some i)
    with f(1) obtain r where r0: "r \<in> set (flat ts)" "fst r = i" "covers_offset (unat x) r"
      and least0: "\<And>q. q \<in> set (flat ts) \<Longrightarrow> covers_offset (unat x) q \<Longrightarrow> fst (snd q) \<le> fst (snd r) \<and> snd (snd r) \<le> snd (snd q)"
      by (auto simp: innermost_def)
    obtain l h where "r = (i, l, h)" using r0(2) by (cases r) auto
    with r0 least0 have r: "(i, l, h) \<in> set (flat ts)" "l \<le> unat x" "unat x < h"
      and least: "\<And>q. q \<in> set (flat ts) \<Longrightarrow> covers_offset (unat x) q \<Longrightarrow> fst (snd q) \<le> l \<and> h \<le> snd (snd q)"
      by (simp_all add: covers_offset_def)
    from flat_block [OF rp r(1)] have "l = unat (startOffset (blocks es ! i))" "h = unat (endOffset (blocks es ! i))" by simp_all
    moreover have "(l, h) \<in> R" using r(1) R by (force simp: ranges_def)
    moreover have "l' \<le> l \<and> h \<le> h'" if m: "(l', h') \<in> R" "l' \<le> unat x" "unat x < h'" for l' h'
    proof -
      from m(1) R obtain j where "(j, l', h') \<in> set (flat ts)" by (force simp: ranges_def)
      from least [OF this] m(2,3) show ?thesis by (simp add: covers_offset_def)
    qed
    ultimately show ?thesis using f(2) Some r(2,3) by auto
  qed
qed

theorem search_finds_innermost_witness:
  "\<exists>es i. setup_exceptions (\<lambda>_. Some 0) example_clauses False 8 = Some (IL_CODER_OK, es) \<and>
     ILCoderFindExceptionBlock 2 es = Some (Some i) \<and> startOffset (blocks es ! i) = 1 \<and> endOffset (blocks es ! i) = 3"
proof -
  obtain es where es: "setup_exceptions (\<lambda>_. Some 0) example_clauses False 8 = Some (IL_CODER_OK, es)"
    using setup_step [OF example_filters, of False 8 "\<lambda>_. Some 0"] example_acceptable by auto
  let ?R = "{(0, 4), (4, 6), (1, 3), (6, 7)} :: (nat \<times> nat) set"
  have R: "?R = all_ranges example_clauses \<union> synchronized_ranges False 8" by (simp add: example_ranges synchronized_ranges_def)
  have u: "unat (2 :: u32) = 2" by simp
  from search_finds_innermost [OF example_filters _ es R, of 2, unfolded u] obtain f where f: "ILCoderFindExceptionBlock 2 es = Some f"
    "case f of None \<Rightarrow> \<forall>(l, h) \<in> ?R. \<not> (l \<le> 2 \<and> 2 < h)
      | Some i \<Rightarrow> \<exists>lo hi. lo = unat (startOffset (blocks es ! i)) \<and> hi = unat (endOffset (blocks es ! i)) \<and>
          (lo, hi) \<in> ?R \<and> lo \<le> 2 \<and> 2 < hi \<and> (\<forall>(l, h) \<in> ?R. l \<le> 2 \<and> 2 < h \<longrightarrow> l \<le> lo \<and> hi \<le> h)"
    by blast
  show ?thesis
  proof (cases f)
    case (Some i)
    with f(2) have "unat (startOffset (blocks es ! i)) = 1" "unat (endOffset (blocks es ! i)) = 3" by auto
    then have "startOffset (blocks es ! i) = 1" "endOffset (blocks es ! i) = 3" by (simp_all add: word_unat_eq_iff)
    with es f(1) Some show ?thesis by blast
  qed (use f(2) in auto)
qed

end
