(* ===== verification/IlFrontEnd.thy ===== *)
theory IlFrontEnd
  imports IlScanSpec ExceptionClauses
begin

text \<open>
  The two preparations of \<^verbatim>\<open>_ILVerify\<close> together: the exception blocks are set up, then the scan marks
  their limits in the jump mask.
\<close>

definition block_limits :: "ILCoderExceptions \<Rightarrow> (u32 \<times> u32) list" where
  "block_limits es = map (\<lambda>b. (startOffset b, endOffset b)) (take (numBlocks es) (blocks es))"

definition prepare ::
    "(u32 \<Rightarrow> nat option) \<Rightarrow> ILException list \<Rightarrow> bool \<Rightarrow> u8 list \<Rightarrow> (coder_result \<times> scan_outcome option) option" where
  "prepare accessible exceptions isSynchronized code = do {
     (r, es) \<leftarrow> setup_exceptions accessible exceptions isSynchronized (codeLen code);
     Some (r, if r = IL_CODER_OK then scan_code code (if isSynchronized then 2 else 0) (block_limits es)
              else Some (Fails BranchError))
   }"

lemma limits_are_ranges:
  assumes "well_nested B es ts hs"
  shows "set (limits (block_limits es)) = fst ` ranges ts \<union> snd ` ranges ts"
proof -
  from assms have rp: "rep es None (firstBlock es) ts" and n: "numBlocks es \<le> length (blocks es)" and i: "ids ts = {..<numBlocks es}"
    by (simp_all add: well_nested_def holds_def)
  have "ranges ts = (\<lambda>i. (unat (startOffset (blocks es ! i)), unat (endOffset (blocks es ! i)))) ` {..<numBlocks es}"
  proof
    show "ranges ts \<subseteq> (\<lambda>i. (unat (startOffset (blocks es ! i)), unat (endOffset (blocks es ! i)))) ` {..<numBlocks es}"
      using flat_block [OF rp] i by (force simp: ranges_def ids_def)
    show "(\<lambda>i. (unat (startOffset (blocks es ! i)), unat (endOffset (blocks es ! i)))) ` {..<numBlocks es} \<subseteq> ranges ts"
      using rep_flat [OF rp] i by (force simp: ranges_def)
  qed
  moreover have "set (limits bs) = unat ` fst ` set bs \<union> unat ` snd ` set bs" for bs by (induction bs) auto
  moreover have "take (numBlocks es) (blocks es) = map (\<lambda>i. blocks es ! i) [0..<numBlocks es]"
    by (rule nth_equalityI) (use n in simp_all)
  ultimately show ?thesis by (simp add: block_limits_def image_image atLeast0LessThan)
qed

text \<open>
  The marks of a method whose regions end before the code does, or which has the two extra bytes of a
  synchronized method, fit the mask.
\<close>

lemma limits_in_mask:
  assumes "well_nested (length code + (if isSynchronized then 1 else 0)) es ts hs"
    and "isSynchronized \<or> (\<forall>r \<in> ranges ts. snd r \<noteq> length code)"
  shows "\<forall>l \<in> set (limits (block_limits es)). l < length code + unat (if isSynchronized then 2 else 0 :: u32)"
proof
  fix l assume "l \<in> set (limits (block_limits es))"
  then obtain lo hi where q: "(lo, hi) \<in> ranges ts" "l = lo \<or> l = hi"
    unfolding limits_are_ranges [OF assms(1)] by force
  from assms(1) have laid: "laid 0 ts (length code + (if isSynchronized then 1 else 0))"
    by (simp add: well_nested_def holds_def)
  from q(1) laid_flat [OF laid] have b: "lo \<le> hi" "hi \<le> length code + (if isSynchronized then 1 else 0)"
    by (force simp: ranges_def)+
  show "l < length code + unat (if isSynchronized then 2 else 0 :: u32)"
  proof (cases isSynchronized)
    case True
    with q(2) b show ?thesis by auto
  next
    case False
    with q(1) assms(2) have "hi \<noteq> length code" by force
    with q(2) b False show ?thesis by auto
  qed
qed

lemma scan_verdict:
  assumes "length code + unat extra < 0x55555555" and "\<not> overlong code 0"
    and "\<forall>l \<in> set (limits bs). l < length code + unat extra" and "set (limits bs) = L"
  shows "\<exists>v. scan_code code extra bs = Some v \<and> v \<noteq> Undefined \<and>
    ((\<exists>m b. v = Scanned m b) \<longleftrightarrow> (\<exists>ls. set ls = L \<and> well_formed_code code ls))"
proof -
  have "well_formed_code code ks = well_formed_code code ks'" if "set ks = set ks'" for ks ks'
    unfolding well_formed_code_def that ..
  then have "(\<exists>ls. set ls = L \<and> well_formed_code code ls) \<longleftrightarrow> well_formed_code code (limits bs)"
    using assms(4) by metis
  then show ?thesis
    using scan_code_verdict [OF assms(1-3)] by (auto split: if_splits)
qed

text \<open>C5: The preparations of the verifier are safe and exact together: for clauses whose filters start before
  their handlers and a body without an overlong annotation, they return without leaving the body, the
  block array or the jump mask, provided the body is smaller than 0x55555555 bytes and the method is synchronized
  or no region ends at the very end of the code; and under these conditions they accept exactly the acceptable clauses over a well-formed body all of whose region limits
  are instruction starts.\<close>

theorem prepare_is_exact:
  assumes "\<forall>ex \<in> set exs. filter_before_handler ex" and "length code + 2 < 0x55555555" and "\<not> overlong code 0"
    and "isSynchronized \<or> (\<forall>r \<in> all_ranges exs. snd r \<noteq> length code)"
    and "R = all_ranges exs \<union> synchronized_ranges isSynchronized (codeLen code)"
  shows "\<exists>r v. prepare accessible exs isSynchronized code = Some (r, Some v) \<and> v \<noteq> Undefined \<and>
    (r = IL_CODER_OK \<longleftrightarrow> acceptable accessible exs (codeLen code)) \<and>
    (r = IL_CODER_OK \<longrightarrow> ((\<exists>m b. v = Scanned m b) \<longleftrightarrow> (\<exists>ls. set ls = fst ` R \<union> snd ` R \<and> well_formed_code code ls)))"
proof -
  let ?len = "codeLen code" and ?extra = "if isSynchronized then 2 else 0 :: u32"
  have len: "unat ?len = length code" using assms(2) by (simp add: codeLen_def unat_small)
  have sync: "isSynchronized \<longrightarrow> unat ?len + 1 < 2 ^ 32" using assms(2) by (simp add: len)
  from setup_step [OF assms(1) sync, of accessible] obtain r es where
    r: "setup_exceptions accessible exs isSynchronized ?len = Some (r, es)" "r = IL_CODER_OK \<longleftrightarrow> acceptable accessible exs ?len"
    and good: "r = IL_CODER_OK \<Longrightarrow> \<exists>ts hs. well_nested (unat ?len + (if isSynchronized then 1 else 0)) es ts hs \<and> ranges ts = R"
    unfolding assms(5) by blast
  show ?thesis
  proof (cases "r = IL_CODER_OK")
    case False
    with r show ?thesis by (simp add: prepare_def)
  next
    case True
    from good [OF True] obtain ts hs where w: "well_nested (length code + (if isSynchronized then 1 else 0)) es ts hs" "ranges ts = R"
      unfolding len by blast
    have apart: "isSynchronized \<or> (\<forall>r \<in> ranges ts. snd r \<noteq> length code)"
      using assms(4) by (auto simp: w(2) assms(5) synchronized_ranges_def)
    have "length code + unat ?extra < 0x55555555" using assms(2) by simp
    from scan_verdict [OF this assms(3) limits_in_mask [OF w(1) apart] limits_are_ranges [OF w(1), unfolded w(2)]]
    show ?thesis using r True by (auto simp: prepare_def)
  qed
qed

definition example_method :: "u8 list" where
  "example_method = replicate 8 0"

lemma example_method_instructions: "instructions example_method 0 = Some (map (\<lambda>i. (i, [])) [0..<8])"
  by code_simp

theorem prepare_is_exact_witness:
  "\<exists>m b. prepare (\<lambda>_. Some 0) example_clauses True example_method = Some (IL_CODER_OK, Some (Scanned m b))"
proof -
  let ?R = "{(0, 4), (4, 6), (1, 3), (6, 7), (0, 8), (8, 9)} :: (nat \<times> nat) set"
  have len: "codeLen example_method = 8" by (simp add: codeLen_def example_method_def)
  have R: "?R = all_ranges example_clauses \<union> synchronized_ranges True (codeLen example_method)"
    by (auto simp: example_ranges synchronized_ranges_def len)
  have "\<not> overlong example_method 0" by code_simp
  moreover have "length example_method + 2 < 0x55555555" by (simp add: example_method_def)
  moreover have "well_formed_code example_method [0, 4, 1, 6, 8, 3, 7, 9]"
    by (simp add: well_formed_code_def example_method_instructions) (simp add: example_method_def image_image)
  moreover have "set [0, 4, 1, 6, 8, 3, 7, 9] = fst ` ?R \<union> snd ` ?R" by auto
  moreover have "acceptable (\<lambda>_. Some 0) example_clauses (codeLen example_method)" using example_acceptable by (simp add: len)
  ultimately show ?thesis
    using prepare_is_exact [OF example_filters _ _ _ R, of "\<lambda>_. Some 0"] by blast
qed

text \<open>
  Without its hypotheses the theorem is false.  The code does not check that a filter starts before its
  handler: here the filter starts at offset 1000000 of a body of 40 bytes, the set-up succeeds, and
  the scan writes its mark outside the mask.
\<close>

definition escaping_filter :: ILException where
  "escaping_filter = \<lparr>ex_flags = 1, tryOffset = 0, tryLength = 10, handlerOffset = 20, handlerLength = 10, extraArg = 1000000\<rparr>"

lemma insert_before_first:
  assumes "block_at es block = Some b" and "block_at es c = Some check" and "startOffset b \<ge> endOffset check"
    and "\<not> endOffset b \<le> startOffset check"
  shows "insert_loop block prevEB (Some c) es = (case eb_nextNested check of
     Some n \<Rightarrow> insert_loop block (Some c) (Some n) es
   | None \<Rightarrow> do {
       es \<leftarrow> change c (eb_nextNested_update (\<lambda>_. Some block)) es;
       es \<leftarrow> change block (eb_parent_update (\<lambda>_. eb_parent check)) es;
       Some (True, es)
     })"
  using assms by (subst insert_loop.simps) simp

lemma insert_between:
  assumes "block_at es block = Some b" and "block_at es c = Some check" and "block_at es q = Some prev"
    and "endOffset b \<le> startOffset check"
  shows "insert_loop block (Some q) (Some c) es = do {
     es \<leftarrow> change block (eb_nextNested_update (\<lambda>_. eb_nextNested prev)) es;
     es \<leftarrow> change q (eb_nextNested_update (\<lambda>_. Some block)) es;
     es \<leftarrow> change block (eb_parent_update (\<lambda>_. eb_parent prev)) es;
     Some (True, es)
   }"
  using assms by (subst insert_loop.simps) simp

lemma last_block_unfold:
  assumes "block_at es i = Some b"
  shows "last_block i es = (case eb_nextNested b of None \<Rightarrow> Some b | Some n \<Rightarrow> last_block n es)"
  using assms by (subst last_block.simps) simp

lemma filter_escapes_setup:
  "case setup_exceptions (\<lambda>_. None) [escaping_filter] False 40 of
     Some (r, es) \<Rightarrow> r = IL_CODER_OK \<and> block_limits es = [(0, 10), (20, 30), (1000000, 20)]
   | None \<Rightarrow> False"
  by (simp add: setup_exceptions_def escaping_filter_def ILCoderAddExceptionBlock_def FindOrAddTryBlock_def
      find_try.simps take_entry_def change_def fresh_block_def add_handler_def fill_handler_def InsertExceptionBlock_def
      insert_before_first insert_between block_at_def AddHandlerBlock_def check_limits_def last_block_unfold
      block_limits_def numeral_3_eq_3 Let_def)

lemma filter_escapes_mask:
  assumes "length m = WORDS_FOR_MASK 40"
  shows "mark_blocks [(0, 10), (20, 30), (1000000, 20)] m = None"
proof -
  have "length m = 2" using assms by (simp add: WORDS_FOR_MASK_def)
  then show ?thesis
    by (simp add: MarkJumpTarget_def MarkSpecialJumpTarget_def mark_bit_def Let_def)
qed

text \<open>
  Nor is the search exact then: here the filter starts at 25, behind the start of its handler, which is
  the region from 20 to 30; the search for offset 22 stops at the filter and finds nothing.
\<close>

definition reversed_filter :: ILException where
  "reversed_filter = \<lparr>ex_flags = 1, tryOffset = 0, tryLength = 10, handlerOffset = 20, handlerLength = 10, extraArg = 25\<rparr>"

lemma find_block_unfold:
  assumes "block_at es i = Some b"
  shows "find_block_loop offset prevEB (Some i) es =
    (if offset < startOffset b then Some prevEB
     else if offset \<ge> endOffset b then find_block_loop offset prevEB (eb_nextNested b) es
     else find_block_loop offset (Some i) (eb_nested b) es)"
  using assms by (subst find_block_loop.simps) simp

lemma reversed_filter_hides_handler:
  "case setup_exceptions (\<lambda>_. None) [reversed_filter] False 40 of
     Some (r, es) \<Rightarrow> r = IL_CODER_OK \<and> block_limits es = [(0, 10), (20, 30), (25, 20)] \<and>
       ILCoderFindExceptionBlock 22 es = Some None
   | None \<Rightarrow> False"
  by (simp add: setup_exceptions_def reversed_filter_def ILCoderAddExceptionBlock_def FindOrAddTryBlock_def
      find_try.simps take_entry_def change_def fresh_block_def add_handler_def fill_handler_def InsertExceptionBlock_def
      insert_before_first insert_between block_at_def AddHandlerBlock_def check_limits_def last_block_unfold
      block_limits_def numeral_3_eq_3 Let_def ILCoderFindExceptionBlock_def find_block_unfold)

end
