(* ===== verification/Spec2Isabelle.thy ===== *)
theory Spec2Isabelle
  imports MetaCompress Utf HashTable Digests DesTables Rc2 Aes BigNumPow BranchTargets IlFrontEnd
begin

text \<open>
  A verification development for Portable.NET (\<^verbatim>\<open>pnet\<close>), an implementation of the Common
  Language Infrastructure in C.  The runtime loads an IL image (\<^verbatim>\<open>image/\<close>), verifies the IL code of a
  method and translates it into CVM byte code (\<^verbatim>\<open>engine/verify*.c\<close>, \<^verbatim>\<open>engine/cvmc*.c\<close>), and interprets
  the byte code (\<^verbatim>\<open>engine/cvm*.c\<close>); \<^verbatim>\<open>support/\<close> holds the data structures, character encodings,
  arithmetic and cryptography that the engine and the class library use.

  \<^bold>\<open>Conventions.\<close>  C functions are HOL functions of the same name on explicit state; C integers are words of
  their width, with arithmetic that wraps around: signed overflow, which ISO C leaves undefined, is taken to wrap, as
  the code's own tests for overflow suppose.  An access outside an array, a null dereference or another
  undefined behaviour is the result \<open>None\<close>; an error return and a thrown exception are values.  Loops are structural recursion or
  \<open>function\<close>s with a termination proof; the loops of \<^verbatim>\<open>hashtab.c\<close> and \<^verbatim>\<open>coder.c\<close> over linked entries, the scan of
  \<^verbatim>\<open>verify.c\<close> and the loops of \<^verbatim>\<open>bignum.c\<close> use \<open>partial_function (option)\<close> or the loop rules of \<open>Loops\<close>, and the theorems about them
  state that they return.  Allocation is a parameter wherever it can fail.

  \<^bold>\<open>Shared theories.\<close>
  \<^item> \<open>Prelude\<close>: types, word and list lemmas, \<open>named_theorems\<close> collections.
  \<^item> \<open>Codec\<close>: a locale for a writer and reader of byte sequences with a round trip law; interpreted by the
    compressed integers and the character encodings, it gives the round trip of whole streams.
  \<^item> \<open>Loops\<close>: counting loops that may fail, with rules by invariant.

  \<^bold>\<open>Metadata and strings.\<close>
  \<^item> \<open>MetaCompress\<close> (\<^verbatim>\<open>image/compress.c\<close>, \<^verbatim>\<open>image/uncompress.c\<close>): compressed integers, tokens and signed
    integers; streams round-trip, readers stay inside their blob, and the signed form
    round-trips exactly on a characterised range (the writer and the reader disagree outside it).
  \<^item> \<open>Utf\<close> (\<^verbatim>\<open>support/utf8.c\<close>, \<^verbatim>\<open>support/utf16.c\<close>): readers and writers, round trips, lengths.

  \<^bold>\<open>The hash table.\<close>  \<open>HashTable\<close> (\<^verbatim>\<open>support/hashtab.c\<close>) over a store of entries and overflow blocks: a
  refinement of a multiset of elements under creation, addition, removal and removal of a
  subset; iteration visits every element once; destruction frees every block once; addition without memory
  fails and changes nothing.

  \<^bold>\<open>Big numbers.\<close>  \<open>BigNum\<close> (all definitions of \<^verbatim>\<open>support/bignum.c\<close>), \<open>BigNumBasics\<close> (comparison, addition,
  subtraction, byte conversions), \<open>BigNumDiv\<close> (the division with its digit estimate and
  correction), \<open>BigNumMul\<close>, \<open>BigNumInv\<close> (extended Euclid) and \<open>BigNumPow\<close> (binary exponentiation over the locale
  \<open>modular_product\<close>): every operation computes the exact integer or residue, or reports that memory
  ran out.  The modular forms of addition and multiplication are exact where the code is; the reduction of a
  modular sum is wrong when it borrows across words.

  \<^bold>\<open>Digests and ciphers.\<close>  \<open>HashStream\<close> is the locale of a block hash with buffered input;
  \<open>Sha1\<close>, \<open>Md5\<close>, \<open>Sha256\<close>, \<open>Sha512\<close> (with SHA-384) and \<open>Ripemd160\<close> interpret it and show that feeding data in
  arbitrary pieces gives the reference digest of the concatenation; \<open>Digests\<close> has the termination of the data
  calls.  \<open>Des\<close>, \<open>DesTables\<close>, \<open>Rc2\<close> and \<open>Aes\<close> show that decryption undoes encryption, that the tables of
  DES are those its generator prints, that the weak keys are weak, and that key expansion stays in bounds.

  \<^bold>\<open>The interpreter.\<close>
  \<^item> \<open>Machine\<close>: the state of the loop of \<^verbatim>\<open>engine/cvm.c\<close> on a 32-bit platform (stack of 32-bit words, byte code,
    program counter), the argument readers of \<^verbatim>\<open>engine/cvm_format.h\<close> and the contract \<open>performs\<close>.
  \<^item> \<open>CvmContract\<close>: the shapes of instruction handlers as locales, all sublocales of \<open>operand_handler\<close>.
  \<^item> \<open>CvmArith\<close>, \<open>CvmConv\<close>, \<open>CvmCompare\<close>, \<open>CvmStack\<close>, \<open>CvmVar\<close>, \<open>CvmPtr\<close>, \<open>CvmBranch\<close>: the handlers of the files
    \<^verbatim>\<open>engine/cvm_*.c\<close>, each an interpretation of a locale; overflow detection is exact.  The checks are those of the
    default build, made in software.  \<open>MulLong\<close> is \<^verbatim>\<open>support/mul_long.c\<close>.
  \<^item> \<open>CvmDispatch\<close>: the switches, one turn of the loop, the table of instruction lengths.  Instructions
    that are not modelled are the parameter \<open>other_ins\<close> of the configuration.

  \<^bold>\<open>From IL to the interpreter.\<close>
  \<^item> \<open>Coder\<close>: \<^verbatim>\<open>engine/cvmc_arith.c\<close>, \<^verbatim>\<open>cvmc_conv.c\<close>, \<^verbatim>\<open>cvmc_const.c\<close>, \<^verbatim>\<open>cvmc_stack.c\<close> and the output macros of
    \<^verbatim>\<open>cvmc_gen.h\<close>: emitted bytes and the height of the evaluation stack.  The word sizes are parameters.
  \<^item> \<open>Verify\<close>: \<^verbatim>\<open>engine/verify_arith.c\<close>, \<^verbatim>\<open>verify_conv.c\<close>, \<^verbatim>\<open>verify_const.c\<close>, \<^verbatim>\<open>verify_stack.c\<close> inside the loop of
    \<^verbatim>\<open>verify.c\<close>: inference of the stack's types, driving the coder.
  \<^item> \<open>VerifyTypes\<close>: accepted instructions keep the types inside the matrices, and the coder's
    height moves with the size of the inferred stack up to the listed errors of the code.
  \<^item> \<open>IlSemantics\<close>: what the integer instructions of IL mean on a stack of values (a specification).
  \<^item> \<open>Compile\<close>: the three components together: accepted code, compiled, runs to its end with the
    values the IL code means, in the room that the coder's maximum height announces.  The integer
    instructions covered exclude \<open>conv.ovf.i8\<close>, whose height the coder gets wrong.
  \<^item> \<open>CvmcBranch\<close> (\<^verbatim>\<open>engine/cvmc_branch.c\<close>): labels, branches and switch tables of the coder; a branch to a label that is not
    yet defined is a place-holder, patched when the label is defined.  The pool of labels answers by a parameter.
  \<^item> \<open>BranchTargets\<close>: in the finished code every branch, short or long, leads the interpreter to its label under the
    condition of its opcode, however emission and definition were interleaved; switch tables lead to their labels, except
    that entries for labels already defined are wrong.  The relation \<open>coding\<close> runs over the calls of these
    routines and of any others that append code or patch code elsewhere; positions are below 2^31 (2^30 for switches), far above the
    size of a cache page.

  \<^bold>\<open>The front end of the verifier.\<close>  \<^verbatim>\<open>_ILVerify\<close> prepares a method before it infers types.
  \<^item> \<open>IlScan\<close> (\<^verbatim>\<open>engine/verify.c\<close>, \<^verbatim>\<open>image/opdef.c\<close>): the first pass over the body, which finds the instructions with the
    tables of opcodes and marks their starts and the jump targets in a mask of three bits per byte of code;
    the marks of the limits of exception blocks; the final check.  \<^verbatim>\<open>unsigned long\<close> has 64 bits here.
  \<^item> \<open>IlScanSpec\<close>: the specification (\<open>insn_at\<close>, \<open>instructions\<close>, \<open>well_formed_code\<close>) and the refinement, with the three
    kinds of marks as interpretations of the locale \<open>mark_kind\<close>: for bodies below 0x55555555 bytes, where three
    bits per byte fit 32-bit offsets, the pass stays inside the code and the mask, returns, and accepts exactly the
    well-formed bodies.  Bodies with an overlong annotation are excluded; one of them makes the pass hang.
  \<^item> \<open>ExceptionBlocks\<close> (\<^verbatim>\<open>engine/coder.c\<close>, \<^verbatim>\<open>engine/verify.c\<close>): the exception blocks, an array whose entries are linked
    into a forest by parent, child and sibling; insertion, nesting, handler chains, search, the set-up of a method.
  \<^item> \<open>ExceptionNesting\<close>: the forest as nested regions; \<open>rep\<close> relates the array to it, and the insertion
    loop refines \<open>place\<close> on it, with its termination.
  \<^item> \<open>ExceptionClauses\<close>: the set-up accepts exactly the clauses whose regions are inside the code and pairwise
    nested or disjoint, leaves a well-nested forest with complete handler chains, and the search in such a forest ends at
    the innermost region around an offset.
  \<^item> \<open>IlFrontEnd\<close>: the set-up and the scan together, with what its hypotheses exclude.

  \<^bold>\<open>Not modelled.\<close>  Floating point instructions (the C code uses the platform's \<open>long double\<close>); the
  instructions on objects, fields, arrays, calls and the throwing of exceptions, the stack shapes at labels, the choice of the branch and
  comparison instructions by operand types, and the parts of the verifier and the coder for them, which work on the class graph of a loaded image; the image loader and writer, the native code back ends
  (libjit, unrollers), the C\# compiler (sources for treecc, yacc and lex), the assembler,
  the disassembler and the other tools, which are front ends and input/output; vendored libraries.
\<close>

end
